(* ===== verification/Prelude.thy ===== *)
theory Prelude
  imports Main "HOL-Library.Word"
begin

text \<open>
  The vocabulary shared by every component of the development: bytes and buffers, the errors a
  JavaScript function may throw, sequencing of fallible calls, the buffer and number primitives
  of the Node runtime that the sources call (\<open>Buffer.slice\<close>, \<open>Buffer.alloc\<close>,
  \<open>readUInt32BE\<close>, \<open>writeUInt32BE\<close>), and the interface of a fixed-width codec, which
  each wire format of the program implements.
\<close>

named_theorems res_simps
named_theorems codec_simps
named_theorems len_simps

type_synonym byte = "8 word"
type_synonym buffer = "byte list"

section \<open>Errors as values\<close>

datatype js_error = RangeError | TypeError | Thrown string

type_synonym 'a res = "js_error + 'a"

definition bindE :: "'a res \<Rightarrow> ('a \<Rightarrow> 'b res) \<Rightarrow> 'b res" where
  "bindE r f = (case r of Inl e \<Rightarrow> Inl e | Inr x \<Rightarrow> f x)"

definition mapR :: "('a \<Rightarrow> 'b) \<Rightarrow> 'a res \<Rightarrow> 'b res" where
  "mapR f r = bindE r (\<lambda>x. Inr (f x))"

definition guardE :: "bool \<Rightarrow> string \<Rightarrow> unit res" where
  "guardE b msg = (if b then Inr () else Inl (Thrown msg))"

fun mapE :: "('a \<Rightarrow> 'b res) \<Rightarrow> 'a list \<Rightarrow> 'b list res" where
  "mapE f [] = Inr []"
| "mapE f (x # xs) = bindE (f x) (\<lambda>y. bindE (mapE f xs) (\<lambda>ys. Inr (y # ys)))"

fun foldE :: "('s \<Rightarrow> 'a \<Rightarrow> 's res) \<Rightarrow> 's \<Rightarrow> 'a list \<Rightarrow> 's res" where
  "foldE f s [] = Inr s"
| "foldE f s (x # xs) = bindE (f s x) (\<lambda>s'. foldE f s' xs)"

text \<open>\<open>xs[i]\<close> where a member of the element is read at once: past the end it is \<open>undefined\<close>.\<close>

definition indexE :: "'a list \<Rightarrow> nat \<Rightarrow> 'a res" where
  "indexE xs i = (if i < length xs then Inr (xs ! i) else Inl TypeError)"

text \<open>\<open>xs.findIndex(p)\<close>, with \<open>None\<close> for -1.\<close>

fun findIndex :: "('a \<Rightarrow> bool) \<Rightarrow> 'a list \<Rightarrow> nat option" where
  "findIndex P [] = None"
| "findIndex P (x # xs) = (if P x then Some 0 else map_option Suc (findIndex P xs))"

definition isOk :: "'a res \<Rightarrow> bool" where
  "isOk r = (case r of Inl _ \<Rightarrow> False | Inr _ \<Rightarrow> True)"

lemma bindE_Inl [simp]: "bindE (Inl e) f = Inl e"
  and bindE_Inr [simp]: "bindE (Inr x) f = f x"
  by (simp_all add: bindE_def)

lemma bindE_eq_Inr [res_simps]: "bindE r f = Inr y \<longleftrightarrow> (\<exists>x. r = Inr x \<and> f x = Inr y)"
  by (cases r) auto

lemma bindE_eq_Inl [res_simps]:
  "bindE r f = Inl e \<longleftrightarrow> r = Inl e \<or> (\<exists>x. r = Inr x \<and> f x = Inl e)"
  by (cases r) auto

lemma bindE_assoc: "bindE (bindE r f) g = bindE r (\<lambda>x. bindE (f x) g)"
  by (cases r) auto

lemma bindE_Inr_right: "bindE r Inr = r"
  by (cases r) simp_all

lemma mapR_Inl [simp]: "mapR f (Inl e) = Inl e"
  and mapR_Inr [simp]: "mapR f (Inr x) = Inr (f x)"
  by (simp_all add: mapR_def)

lemma mapR_eq_Inr [res_simps]: "mapR f r = Inr y \<longleftrightarrow> (\<exists>x. r = Inr x \<and> y = f x)"
  by (cases r) auto

lemma guardE_True [simp]: "guardE True msg = Inr ()"
  and guardE_False [simp]: "guardE False msg = Inl (Thrown msg)"
  by (simp_all add: guardE_def)

lemma guardE_eq_Inr [simp]: "guardE b msg = Inr u \<longleftrightarrow> b"
  by (simp add: guardE_def)

lemma guardE_eq_Inl [simp]: "guardE b msg = Inl e \<longleftrightarrow> \<not> b \<and> e = Thrown msg"
  by (auto simp: guardE_def)

lemma indexE_eq_Inr [res_simps]: "indexE xs i = Inr x \<longleftrightarrow> i < length xs \<and> x = xs ! i"
  by (auto simp: indexE_def)

lemma indexE_in [simp]: "i < length xs \<Longrightarrow> indexE xs i = Inr (xs ! i)"
  by (simp add: indexE_def)

lemma isOk_simps [simp]: "isOk (Inl e) = False" "isOk (Inr x) = True"
  by (simp_all add: isOk_def)

lemma isOk_iff [res_simps]: "isOk r \<longleftrightarrow> (\<exists>x. r = Inr x)"
  by (cases r) auto

lemma mapE_append:
  "mapE f (xs @ ys) = bindE (mapE f xs) (\<lambda>us. bindE (mapE f ys) (\<lambda>vs. Inr (us @ vs)))"
  by (induction xs) (simp_all add: bindE_assoc bindE_Inr_right)

lemma mapE_Inr_length [len_simps]: "mapE f xs = Inr ys \<Longrightarrow> length ys = length xs"
  by (induction xs arbitrary: ys) (auto simp: res_simps)

lemma mapE_Inr_nth: "mapE f xs = Inr ys \<Longrightarrow> i < length xs \<Longrightarrow> f (xs ! i) = Inr (ys ! i)"
proof (induction xs arbitrary: ys i)
  case (Cons x xs)
  then show ?case by (cases i) (auto simp: res_simps)
qed simp

lemma mapE_all_Inr: "(\<And>x. x \<in> set xs \<Longrightarrow> f x = Inr (g x)) \<Longrightarrow> mapE f xs = Inr (map g xs)"
  by (induction xs) simp_all

lemma mapE_eq_Inr_iff: "(\<exists>ys. mapE f xs = Inr ys) \<longleftrightarrow> (\<forall>x\<in>set xs. isOk (f x))"
  by (induction xs) (auto simp: res_simps)

lemma mapE_cong [fundef_cong]:
  "xs = ys \<Longrightarrow> (\<And>x. x \<in> set ys \<Longrightarrow> f x = g x) \<Longrightarrow> mapE f xs = mapE g ys"
proof (induction xs arbitrary: ys)
  case (Cons x xs)
  then show ?case by (cases ys) (auto simp: bindE_def split: sum.splits)
qed simp

lemma foldE_append: "foldE f s (xs @ ys) = bindE (foldE f s xs) (\<lambda>s'. foldE f s' ys)"
  by (induction xs arbitrary: s) (simp_all add: bindE_assoc)

lemma foldE_invariant:
  assumes "foldE f s xs = Inr s'" "P s"
    and "\<And>t x t'. P t \<Longrightarrow> x \<in> set xs \<Longrightarrow> f t x = Inr t' \<Longrightarrow> P t'"
  shows "P s'"
  using assms
proof (induction xs arbitrary: s)
  case (Cons x xs)
  from Cons.prems(1) obtain t where t: "f s x = Inr t" "foldE f t xs = Inr s'"
    by (auto simp: bindE_eq_Inr)
  have "P t" by (rule Cons.prems(3) [OF Cons.prems(2) _ t(1)]) simp
  then show ?case
  proof (rule Cons.IH [OF t(2)])
    show "P t'" if "P u" "x \<in> set xs" "f u x = Inr t'" for u x t'
      using that(1) _ that(3) by (rule Cons.prems(3)) (simp add: that(2))
  qed
next
  case Nil
  from Nil(1,2) show ?case by simp
qed

lemma findIndex_snoc:
  "findIndex p (xs @ [x]) = (case findIndex p xs of Some i \<Rightarrow> Some i | None \<Rightarrow> if p x then Some (length xs) else None)"
  by (induction xs) (auto split: option.splits)

lemma findIndex_Some: "findIndex P xs = Some i \<Longrightarrow> i < length xs \<and> P (xs ! i)"
  by (induction xs arbitrary: i) (auto split: if_splits)

lemmas findIndex_bound = findIndex_Some [THEN conjunct1]

lemma findIndex_first: "findIndex P xs = Some i \<Longrightarrow> j < i \<Longrightarrow> \<not> P (xs ! j)"
proof (induction xs arbitrary: i j)
  case (Cons x xs)
  then show ?case by (cases j) (auto split: if_splits)
qed simp

lemma findIndex_None: "findIndex P xs = None \<longleftrightarrow> (\<forall>x\<in>set xs. \<not> P x)"
  by (induction xs) auto

section \<open>Buffers\<close>

text \<open>\<open>Buffer.alloc(n)\<close>, and \<open>buf.slice(i, j)\<close> for non-negative indices, which clamps silently.\<close>

definition zeros :: "nat \<Rightarrow> buffer" where
  "zeros n = replicate n 0"

definition bslice :: "'a list \<Rightarrow> nat \<Rightarrow> nat \<Rightarrow> 'a list" where
  "bslice xs i j = take (j - i) (drop i xs)"

lemma length_zeros [simp, len_simps]: "length (zeros n) = n"
  by (simp add: zeros_def)

lemma zeros_append: "zeros m @ zeros n = zeros (m + n)"
  by (simp add: zeros_def replicate_add)

lemma take_zeros [simp]: "take n (zeros m) = zeros (min n m)"
  by (simp add: zeros_def)

lemma drop_zeros [simp]: "drop n (zeros m) = zeros (m - n)"
  by (simp add: zeros_def)

lemma zeros_0 [simp]: "zeros 0 = []"
  by (simp add: zeros_def)

lemma length_bslice [len_simps]: "length (bslice xs i j) = min (j - i) (length xs - i)"
  by (simp add: bslice_def min.commute)

lemma length_bslice_in [len_simps]: "i \<le> j \<Longrightarrow> j \<le> length xs \<Longrightarrow> length (bslice xs i j) = j - i"
  by (simp add: bslice_def)

lemma bslice_append_left [codec_simps]: "j \<le> length xs \<Longrightarrow> bslice (xs @ ys) i j = bslice xs i j"
  by (cases "i \<le> length xs") (auto simp: bslice_def)

lemma bslice_append_right [codec_simps]:
  "length xs \<le> i \<Longrightarrow> bslice (xs @ ys) i j = bslice ys (i - length xs) (j - length xs)"
  by (auto simp: bslice_def diff_diff_eq intro!: arg_cong [of _ _ "\<lambda>k. take k (drop _ ys)"])

lemma bslice_all [codec_simps]: "length xs \<le> j \<Longrightarrow> bslice xs 0 j = xs"
  by (simp add: bslice_def)

lemma bslice_0 [simp]: "bslice xs 0 j = take j xs"
  by (simp add: bslice_def)

lemma bslice_concat: "i \<le> j \<Longrightarrow> j \<le> k \<Longrightarrow> bslice xs i j @ bslice xs j k = bslice xs i k"
proof -
  assume le: "i \<le> j" "j \<le> k"
  have "take (k - i) (drop i xs) = take (j - i) (drop i xs) @ take (k - j) (drop (j - i) (drop i xs))"
    using le take_add [of "j - i" "k - j" "drop i xs"] by simp
  then show ?thesis using le by (simp add: bslice_def)
qed

lemma bslice_drop: "bslice (drop n xs) i j = bslice xs (n + i) (n + j)"
  by (simp add: bslice_def add.commute)

lemma bslice_slice: "j \<le> d - c \<Longrightarrow> bslice (bslice xs c d) i j = bslice xs (c + i) (c + j)"
  by (simp add: bslice_def drop_take add.commute min_def)

subsection \<open>Big-endian numbers\<close>

text \<open>The abstract meaning of a big-endian buffer and of a number written in a fixed width.\<close>

definition be_value :: "buffer \<Rightarrow> nat" where
  "be_value = foldl (\<lambda>acc b. 256 * acc + unat b) 0"

fun be_bytes :: "nat \<Rightarrow> nat \<Rightarrow> buffer" where
  "be_bytes 0 n = []"
| "be_bytes (Suc w) n = be_bytes w (n div 256) @ [word_of_nat (n mod 256)]"

lemma length_be_bytes [simp, len_simps]: "length (be_bytes w n) = w"
  by (induction w arbitrary: n) simp_all

lemma be_value_Nil [simp]: "be_value [] = 0"
  by (simp add: be_value_def)

lemma be_value_snoc [simp]: "be_value (bs @ [b]) = 256 * be_value bs + unat b"
  by (simp add: be_value_def)

lemma unat_byte_lt [simp]: "unat (b :: byte) < 256"
  by (rule order_less_le_trans [OF unsigned_less]) simp

lemma unat_word_of_nat_byte [simp]: "unat (word_of_nat (n mod 256) :: byte) = n mod 256"
  by (simp add: unat_of_nat)

lemma be_value_bound: "be_value bs < 256 ^ length bs"
proof (induction bs rule: rev_induct)
  case (snoc b bs)
  have "256 * be_value bs + unat b < 256 * (be_value bs + 1)"
    using unat_byte_lt [of b] by simp
  also have "\<dots> \<le> 256 * 256 ^ length bs"
    using snoc by (intro mult_le_mono2) simp
  finally show ?case by simp
qed simp

lemma be_value_bytes: "n < 256 ^ w \<Longrightarrow> be_value (be_bytes w n) = n"
proof (induction w arbitrary: n)
  case (Suc w)
  then have "n div 256 < 256 ^ w" by (simp add: less_mult_imp_div_less mult.commute)
  then show ?case by (simp add: Suc.IH)
qed simp

lemma be_bytes_value: "length bs = w \<Longrightarrow> be_bytes w (be_value bs) = bs"
proof (induction w arbitrary: bs)
  case (Suc w)
  then obtain cs c where bs: "bs = cs @ [c]" by (cases bs rule: rev_cases) auto
  have "(256 * be_value cs + unat c) mod 256 = unat c"
    using mod_mult_self3 [of "be_value cs" 256 "unat c"] by (simp add: mult.commute)
  moreover have "(256 * be_value cs + unat c) div 256 = be_value cs"
    using unat_byte_lt [of c] by simp
  ultimately show ?case using Suc bs by simp
qed simp

lemma be_bytes_inj: "m < 256 ^ w \<Longrightarrow> n < 256 ^ w \<Longrightarrow> be_bytes w m = be_bytes w n \<Longrightarrow> m = n"
  by (metis be_value_bytes)

lemma be_value_inj: "length a = length b \<Longrightarrow> be_value a = be_value b \<Longrightarrow> a = b"
  by (metis be_bytes_value)

lemma be_bytes_zero: "be_bytes w 0 = zeros w"
  by (induction w) (simp_all add: zeros_def replicate_append_same)

lemma be_value_zeros [simp]: "be_value (zeros n) = 0"
  by (metis be_bytes_zero be_value_bytes zero_less_numeral zero_less_power)

lemma be_value_append: "be_value (as @ bs) = be_value as * 256 ^ length bs + be_value bs"
  by (induction bs rule: rev_induct) (simp_all add: append_assoc [symmetric] algebra_simps del: append_assoc)

lemma be_value_pad [simp]: "be_value (zeros n @ bs) = be_value bs"
  by (simp add: be_value_append)

subsection \<open>Fixed-width reads and writes of the Node runtime\<close>

text \<open>
  \<open>buf.writeUIntNBE(n)\<close> throws outside the range; \<open>buf.readUIntNBE(offset)\<close> throws when
  the read leaves the buffer.
\<close>

definition writeUInt8 :: "int \<Rightarrow> buffer res" where
  "writeUInt8 n = (if 0 \<le> n \<and> n < 2 ^ 8 then Inr (be_bytes 1 (nat n)) else Inl RangeError)"

definition writeUInt32BE :: "int \<Rightarrow> buffer res" where
  "writeUInt32BE n = (if 0 \<le> n \<and> n < 2 ^ 32 then Inr (be_bytes 4 (nat n)) else Inl RangeError)"

definition writeUInt32LE :: "int \<Rightarrow> buffer res" where
  "writeUInt32LE n = mapR rev (writeUInt32BE n)"

definition writeInt32BE :: "int \<Rightarrow> buffer res" where
  "writeInt32BE n = (if - (2 ^ 31) \<le> n \<and> n < 2 ^ 31 then Inr (be_bytes 4 (nat (n mod 2 ^ 32)))
     else Inl RangeError)"

definition readUInt8 :: "buffer \<Rightarrow> nat \<Rightarrow> int res" where
  "readUInt8 buf off = (if off + 1 \<le> length buf then Inr (int (be_value (bslice buf off (off + 1))))
     else Inl RangeError)"

definition readUInt32BE :: "buffer \<Rightarrow> nat \<Rightarrow> int res" where
  "readUInt32BE buf off = (if off + 4 \<le> length buf then Inr (int (be_value (bslice buf off (off + 4))))
     else Inl RangeError)"

definition readInt32BE :: "buffer \<Rightarrow> nat \<Rightarrow> int res" where
  "readInt32BE buf off = mapR (\<lambda>u. if u < 2 ^ 31 then u else u - 2 ^ 32) (readUInt32BE buf off)"

lemma writeUInt32BE_length [len_simps]: "writeUInt32BE n = Inr b \<Longrightarrow> length b = 4"
  by (auto simp: writeUInt32BE_def split: if_splits)

lemma writeUInt32BE_ok [simp]:
  "0 \<le> n \<Longrightarrow> n < 2 ^ 32 \<Longrightarrow> writeUInt32BE n = Inr (be_bytes 4 (nat n))"
  by (simp add: writeUInt32BE_def)

lemma writeUInt32BE_eq_Inr:
  "writeUInt32BE n = Inr b \<longleftrightarrow> 0 \<le> n \<and> n < 2 ^ 32 \<and> b = be_bytes 4 (nat n)"
  by (auto simp: writeUInt32BE_def)

lemma writeUInt8_eq_Inr:
  "writeUInt8 n = Inr b \<longleftrightarrow> 0 \<le> n \<and> n < 2 ^ 8 \<and> b = be_bytes 1 (nat n)"
  by (auto simp: writeUInt8_def)

lemma be_value_u32 [simp]: "0 \<le> n \<Longrightarrow> n < 2 ^ 32 \<Longrightarrow> be_value (be_bytes 4 (nat n)) = nat n"
  by (rule be_value_bytes) (simp add: nat_less_iff)

lemma be_value_u8: "0 \<le> n \<Longrightarrow> n < 256 \<Longrightarrow> be_value (be_bytes (Suc 0) (nat n)) = nat n"
  by (rule be_value_bytes) (simp add: nat_less_iff)

lemma readUInt32BE_write:
  assumes "writeUInt32BE n = Inr b" "length pre = off"
  shows "readUInt32BE (pre @ b @ rest) off = Inr n"
  using assms by (auto simp: writeUInt32BE_eq_Inr readUInt32BE_def codec_simps)

lemma readUInt32BE_range: "readUInt32BE buf off = Inr n \<Longrightarrow> 0 \<le> n \<and> n < 2 ^ 32"
proof -
  assume *: "readUInt32BE buf off = Inr n"
  then have len: "length (bslice buf off (off + 4)) = 4" and n: "n = int (be_value (bslice buf off (off + 4)))"
    by (auto simp: readUInt32BE_def len_simps split: if_splits)
  from be_value_bound [of "bslice buf off (off + 4)"] len n show ?thesis by simp
qed

lemma readInt32BE_write:
  assumes "writeInt32BE n = Inr b" "length pre = off"
  shows "readInt32BE (pre @ b @ rest) off = Inr n"
proof -
  from assms have r: "- (2 ^ 31) \<le> n" "n < 2 ^ 31" and b: "b = be_bytes 4 (nat (n mod 2 ^ 32))"
    by (auto simp: writeInt32BE_def split: if_splits)
  have m: "n mod 2 ^ 32 = (if 0 \<le> n then n else n + 2 ^ 32)"
  proof (cases "0 \<le> n")
    case False
    then have "n mod 2 ^ 32 = (n + 2 ^ 32) mod 2 ^ 32" by simp
    also have "\<dots> = n + 2 ^ 32" using r False by (intro mod_pos_pos_trivial) simp_all
    finally show ?thesis using False by simp
  qed (use r in simp)
  have "readUInt32BE (pre @ b @ rest) off = Inr (n mod 2 ^ 32)"
    by (rule readUInt32BE_write [OF _ assms(2)]) (simp add: b)
  then show ?thesis using m r by (simp add: readInt32BE_def)
qed

end
