(* ===== verification/Codec.thy ===== *)
theory Codec
  imports Prelude
begin

text \<open>
  The interface of a fixed-width wire format: an encoder that may throw, a decoder that reads a
  prefix of the buffer it is given, the values the format represents and its width. Every
  \<open>toBuffer\<close>/\<open>fromBuffer\<close> and \<open>encode\<close>/\<open>decode\<close> pair of the sources with a constant length
  interprets it in the theory of its component, and concatenations of encodings (the inner
  proofs of a rollup, the offchain data of a block, the interaction notes of a rollup) are
  reasoned about once, here.
\<close>

locale fixed_codec =
  fixes enc :: "'a \<Rightarrow> buffer res"
    and dec :: "buffer \<Rightarrow> 'a res"
    and valid :: "'a \<Rightarrow> bool"
    and width :: nat
  assumes enc_total: "valid x \<Longrightarrow> isOk (enc x)"
    and enc_width: "valid x \<Longrightarrow> enc x = Inr b \<Longrightarrow> length b = width"
    and dec_enc: "valid x \<Longrightarrow> enc x = Inr b \<Longrightarrow> dec (b @ rest) = Inr x"
begin

lemma enc_inj: "valid x \<Longrightarrow> valid y \<Longrightarrow> enc x = Inr b \<Longrightarrow> enc y = Inr b \<Longrightarrow> x = y"
  using dec_enc [of x b "[]"] dec_enc [of y b "[]"] by simp

lemma roundtrip: "valid x \<Longrightarrow> \<exists>b. enc x = Inr b \<and> length b = width \<and> dec b = Inr x"
proof -
  assume v: "valid x"
  then obtain b where b: "enc x = Inr b" using enc_total by (auto simp: isOk_iff)
  with v show ?thesis using enc_width dec_enc [of x b "[]"] by auto
qed

lemma prefix_free:
  assumes "valid x" "valid y" "enc x = Inr b" "enc y = Inr c" "b @ r = c @ s"
  shows "x = y" and "r = s"
proof -
  have "length b = length c" using assms(1-4) by (simp add: enc_width)
  then have bc: "b = c" and rs: "r = s" using assms(5) by simp_all
  from bc assms(1-4) show "x = y" by (auto intro: enc_inj)
  from rs show "r = s" .
qed

lemma all_total: "\<forall>x\<in>set xs. valid x \<Longrightarrow> \<exists>bs. mapE enc xs = Inr bs"
  by (simp add: mapE_eq_Inr_iff enc_total)

lemma all_widths: "\<forall>x\<in>set xs. valid x \<Longrightarrow> mapE enc xs = Inr bs \<Longrightarrow> \<forall>b\<in>set bs. length b = width"
  by (induction xs arbitrary: bs) (auto simp: bindE_eq_Inr enc_width)

lemma concat_length:
  assumes "\<forall>x\<in>set xs. valid x" "mapE enc xs = Inr bs"
  shows "length (concat bs) = width * length xs"
  using assms
proof (induction xs arbitrary: bs)
  case (Cons x xs)
  then obtain b cs where b: "enc x = Inr b" "mapE enc xs = Inr cs" "bs = b # cs"
    by (auto simp: bindE_eq_Inr)
  have "length b = width" using Cons.prems(1) b(1) by (auto intro: enc_width)
  then show ?case using Cons b by simp
qed simp

lemma dec_at:
  assumes "\<forall>x\<in>set xs. valid x" "mapE enc xs = Inr bs" "i < length xs"
  shows "dec (drop (i * width) (concat bs @ rest)) = Inr (xs ! i)"
  using assms
proof (induction xs arbitrary: bs i)
  case (Cons x xs)
  then obtain b cs where b: "enc x = Inr b" "mapE enc xs = Inr cs" "bs = b # cs"
    by (auto simp: bindE_eq_Inr)
  have len: "length b = width" using Cons.prems(1) b(1) by (auto intro: enc_width)
  show ?case
  proof (cases i)
    case 0
    then show ?thesis using Cons.prems(1) b by (simp add: dec_enc)
  next
    case (Suc j)
    have "drop (width + j * width) (b @ concat cs @ rest) = drop (j * width) (concat cs @ rest)"
      using len by simp
    then show ?thesis using Cons.IH [OF _ b(2), of j] Cons.prems(1,3) b(3) Suc by simp
  qed
qed simp

lemma dec_all:
  assumes "\<forall>x\<in>set xs. valid x" "mapE enc xs = Inr bs"
  shows "mapE (\<lambda>i. dec (drop (i * width) (concat bs @ rest))) [0..<length xs] = Inr xs"
proof -
  have "mapE (\<lambda>i. dec (drop (i * width) (concat bs @ rest))) [0..<length xs]
      = Inr (map (\<lambda>i. xs ! i) [0..<length xs])"
    by (rule mapE_all_Inr) (use assms in \<open>auto intro: dec_at simp del: drop_append\<close>)
  then show ?thesis by (simp add: map_nth)
qed

end

text \<open>A format without redundancy: every buffer of the right width that decodes is the
  encoding of what it decodes to.\<close>

locale canonical_codec = fixed_codec +
  assumes enc_dec: "length b = width \<Longrightarrow> dec b = Inr x \<Longrightarrow> valid x \<and> enc x = Inr b"
begin

lemma dec_inj: "length b = width \<Longrightarrow> length c = width \<Longrightarrow> dec b = Inr x \<Longrightarrow> dec c = Inr x \<Longrightarrow> b = c"
  using enc_dec [of b x] enc_dec [of c x] by simp

lemma dec_iff: "length b = width \<Longrightarrow> dec b = Inr x \<longleftrightarrow> valid x \<and> enc x = Inr b"
  using enc_dec dec_enc [of x b "[]"] by auto

end

text \<open>Consecutive pieces of a buffer: a buffer cut into consecutive slices is their
  concatenation.\<close>

lemma slice_at: "length pre = i \<Longrightarrow> j = i + length x \<Longrightarrow> bslice (pre @ x @ post) i j = x"
  by (simp add: bslice_def)

lemma cut2: "length b = m + n \<Longrightarrow> bslice b 0 m @ bslice b m (m + n) = b"
  using bslice_concat [of 0 m "m + n" b] by simp

lemma append_eq_len: "length a = length c \<Longrightarrow> a @ b = c @ d \<longleftrightarrow> a = c \<and> b = d"
  by simp

end
