(* ===== verification/Serialize.thy ===== *)
theory Serialize
  imports Codec
begin

text \<open>
  \<open>barretenberg.js/src/bigint_buffer/index.ts\<close> and \<open>barretenberg.js/src/serialize\<close>: the
  conversions between \<open>bigint\<close> and buffers, which go through hexadecimal strings, the free
  serialization functions, and the \<open>Serializer\<close> and \<open>Deserializer\<close> classes. A \<open>bigint\<close> is an
  \<open>int\<close>, a \<open>number\<close> used as an integer is an \<open>int\<close> (the range checks of the runtime's write
  functions are kept), a buffer is a list of bytes.
\<close>

section \<open>Hexadecimal strings\<close>

definition hexChar :: "nat \<Rightarrow> char" where
  "hexChar d = ''0123456789abcdef'' ! d"

fun hexDigits :: "nat \<Rightarrow> string" where
  "hexDigits n = (if n < 16 then [hexChar n] else hexDigits (n div 16) @ [hexChar (n mod 16)])"

declare hexDigits.simps [simp del]

text \<open>\<open>num.toString(16)\<close> for a \<open>bigint\<close>, \<open>s.padStart(n, '0')\<close>, \<open>buf.toString('hex')\<close> and
  \<open>Buffer.from(s, 'hex')\<close>, which reads pairs of digits up to the first pair that is not
  hexadecimal and drops an odd last digit.\<close>

definition toString16 :: "int \<Rightarrow> string" where
  "toString16 n = (if n < 0 then CHR ''-'' # hexDigits (nat (- n)) else hexDigits (nat n))"

definition padStart :: "string \<Rightarrow> nat \<Rightarrow> string" where
  "padStart s n = replicate (n - length s) (CHR ''0'') @ s"

definition unhex :: "char \<Rightarrow> nat option" where
  "unhex c = (let k = of_char c :: nat in
     if 48 \<le> k \<and> k \<le> 57 then Some (k - 48)
     else if 97 \<le> k \<and> k \<le> 102 then Some (k - 87)
     else if 65 \<le> k \<and> k \<le> 70 then Some (k - 55)
     else None)"

definition byteToHex :: "byte \<Rightarrow> string" where
  "byteToHex b = [hexChar (unat b div 16), hexChar (unat b mod 16)]"

definition bufferToHex :: "buffer \<Rightarrow> string" where
  "bufferToHex buf = concat (map byteToHex buf)"

fun bufferFromHex :: "string \<Rightarrow> buffer" where
  "bufferFromHex (a # b # s) = (case (unhex a, unhex b) of
     (Some x, Some y) \<Rightarrow> word_of_nat (16 * x + y) # bufferFromHex s
   | _ \<Rightarrow> [])"
| "bufferFromHex _ = []"

text \<open>\<open>BigInt('0x' + hex)\<close> for a non-empty string of hexadecimal digits.\<close>

definition parseHex :: "string \<Rightarrow> int" where
  "parseHex s = foldl (\<lambda>acc c. 16 * acc + int (the (unhex c))) 0 s"

section \<open>bigint\_buffer\<close>

definition toBigIntLE :: "buffer \<Rightarrow> int" where
  "toBigIntLE buf =
    (let reversed = rev buf; hex = bufferToHex reversed
     in if length hex = 0 then 0 else parseHex hex)"

definition toBigIntBE :: "buffer \<Rightarrow> int" where
  "toBigIntBE buf = (let hex = bufferToHex buf in if length hex = 0 then 0 else parseHex hex)"

definition toBufferLE :: "int \<Rightarrow> nat \<Rightarrow> buffer" where
  "toBufferLE num width =
    (let hex = toString16 num;
         buffer = bufferFromHex (take (width * 2) (padStart hex (width * 2)))
     in rev buffer)"

definition toBufferBE :: "int \<Rightarrow> nat \<Rightarrow> buffer" where
  "toBufferBE num width =
    (let hex = toString16 num in bufferFromHex (take (width * 2) (padStart hex (width * 2))))"

subsection \<open>Hexadecimal digits are the digits of the number\<close>

lemma lt16_cases: "d < 16 \<Longrightarrow> d \<in> {0,1,2,3,4,5,6,7,8,9,10,11,12,13,14,15::nat}"
  by (simp add: less_Suc_eq numeral_eq_Suc)

lemma unhex_hexChar [simp]: "d < 16 \<Longrightarrow> unhex (hexChar d) = Some d"
  by (drule lt16_cases) (auto simp: hexChar_def unhex_def)

fun hexFixed :: "nat \<Rightarrow> nat \<Rightarrow> string" where
  "hexFixed 0 n = []"
| "hexFixed (Suc k) n = hexFixed k (n div 16) @ [hexChar (n mod 16)]"

lemma length_hexFixed [simp]: "length (hexFixed k n) = k"
  by (induction k arbitrary: n) simp_all

lemma hexFixed_0: "hexFixed k 0 = replicate k (CHR ''0'')"
  by (induction k) (simp_all add: hexChar_def replicate_append_same)

lemma length_hexDigits_pos [simp]: "0 < length (hexDigits n)"
  by (subst hexDigits.simps) simp

lemma hexDigits_bound: "n < 16 ^ length (hexDigits n)"
proof (induction n rule: hexDigits.induct)
  case (1 n)
  show ?case
  proof (cases "n < 16")
    case False
    then have "n div 16 < 16 ^ length (hexDigits (n div 16))" using 1 by simp
    then show ?thesis using False by (subst hexDigits.simps) (simp add: div_less_iff_less_mult mult.commute)
  qed (subst hexDigits.simps, simp)
qed

lemma padStart_hexDigits: "n < 16 ^ k \<Longrightarrow> 0 < k \<Longrightarrow> padStart (hexDigits n) k = hexFixed k n"
proof (induction k arbitrary: n)
  case (Suc k)
  show ?case
  proof (cases "n < 16")
    case True
    then show ?thesis by (simp add: padStart_def hexDigits.simps [of n] hexFixed_0)
  next
    case False
    then have "0 < k" using Suc.prems by (cases k) simp_all
    moreover have "n div 16 < 16 ^ k" using Suc.prems by (simp add: less_mult_imp_div_less mult.commute)
    ultimately have "padStart (hexDigits (n div 16)) k = hexFixed k (n div 16)" by (rule Suc.IH [rotated])
    then show ?thesis using False by (simp add: padStart_def hexDigits.simps [of n])
  qed
qed simp

lemma bufferFromHex_snoc:
  "even (length s) \<Longrightarrow> \<forall>c\<in>set s. unhex c \<noteq> None \<Longrightarrow>
   unhex a = Some x \<Longrightarrow> unhex b = Some y \<Longrightarrow>
   bufferFromHex (s @ [a, b]) = bufferFromHex s @ [word_of_nat (16 * x + y)]"
  by (induction s rule: bufferFromHex.induct) auto

lemma hexFixed_hex: "c \<in> set (hexFixed k n) \<Longrightarrow> unhex c \<noteq> None"
  by (induction k arbitrary: n) auto

lemma bufferFromHex_hexFixed: "bufferFromHex (hexFixed (2 * w) n) = be_bytes w n"
proof (induction w arbitrary: n)
  case (Suc w)
  have split: "hexFixed (2 * Suc w) n
      = hexFixed (2 * w) (n div 256) @ [hexChar (n div 16 mod 16), hexChar (n mod 16)]"
    by (simp add: div_mult2_eq [symmetric])
  have "bufferFromHex (hexFixed (2 * Suc w) n)
      = bufferFromHex (hexFixed (2 * w) (n div 256)) @ [word_of_nat (16 * (n div 16 mod 16) + n mod 16)]"
    unfolding split by (rule bufferFromHex_snoc) (auto dest: hexFixed_hex)
  also have "16 * (n div 16 mod 16) + n mod 16 = n mod 256"
    using mod_mult2_eq [of n 16 16] by simp
  finally show ?case by (simp add: Suc.IH)
qed simp

lemma toBufferBE_be_bytes:
  assumes "0 \<le> n" "n < 256 ^ w" shows "toBufferBE n w = be_bytes w (nat n)"
proof (cases w)
  case (Suc w')
  have "nat n < 16 ^ (2 * w)" using assms by (simp add: power_mult nat_less_iff)
  then have "padStart (hexDigits (nat n)) (w * 2) = hexFixed (2 * w) (nat n)"
    using padStart_hexDigits [of "nat n" "w * 2"] Suc by (simp add: mult.commute)
  then show ?thesis
    using assms by (simp add: toBufferBE_def toString16_def bufferFromHex_hexFixed)
qed (simp add: toBufferBE_def)

lemma parseHex_snoc: "parseHex (s @ [c]) = 16 * parseHex s + int (the (unhex c))"
  by (simp add: parseHex_def)

lemma toBigIntBE_be_value: "toBigIntBE buf = int (be_value buf)"
proof -
  have "parseHex (bufferToHex buf) = int (be_value buf)"
  proof (induction buf rule: rev_induct)
    case (snoc b bs)
    have "bufferToHex (bs @ [b]) = (bufferToHex bs @ [hexChar (unat b div 16)]) @ [hexChar (unat b mod 16)]"
      by (simp add: bufferToHex_def byteToHex_def)
    moreover have "unat b div 16 < 16" using unat_byte_lt [of b] by (intro less_mult_imp_div_less) simp
    moreover have "16 * int (unat b div 16) + int (unat b mod 16) = int (unat b)"
      using mult_div_mod_eq [of 16 "unat b"] by linarith
    ultimately show ?case using snoc parseHex_snoc [of "bufferToHex bs @ [hexChar (unat b div 16)]"]
      parseHex_snoc [of "bufferToHex bs"] by simp
  qed (simp add: parseHex_def bufferToHex_def)
  then show ?thesis by (auto simp: toBigIntBE_def parseHex_def Let_def)
qed

lemma toBigIntLE_be_value: "toBigIntLE buf = int (be_value (rev buf))"
  using toBigIntBE_be_value [of "rev buf"] by (simp add: toBigIntLE_def toBigIntBE_def)

lemma toBufferLE_rev: "toBufferLE n w = rev (toBufferBE n w)"
  by (simp add: toBufferLE_def toBufferBE_def)

lemma toBigIntBE_toBufferBE: "0 \<le> n \<Longrightarrow> n < 256 ^ w \<Longrightarrow> toBigIntBE (toBufferBE n w) = n"
  by (simp add: toBigIntBE_be_value toBufferBE_be_bytes be_value_bytes nat_less_iff)

lemma toBufferBE_toBigIntBE: "length b = w \<Longrightarrow> toBufferBE (toBigIntBE b) w = b"
proof -
  assume len: "length b = w"
  have "int (be_value b) < 256 ^ w"
    using be_value_bound [of b] len by (metis of_nat_less_iff of_nat_numeral of_nat_power)
  then show ?thesis using len
    by (simp add: toBigIntBE_be_value toBufferBE_be_bytes be_bytes_value)
qed

lemma toBigIntBE_bounds: "0 \<le> toBigIntBE b" "toBigIntBE b < 256 ^ length b"
proof -
  have "int (be_value b) < int (256 ^ length b)" using be_value_bound [of b] by (simp only: of_nat_less_iff)
  then show "0 \<le> toBigIntBE b" "toBigIntBE b < 256 ^ length b" by (simp_all add: toBigIntBE_be_value)
qed

lemma length_toBufferBE [len_simps]: "0 \<le> n \<Longrightarrow> n < 256 ^ w \<Longrightarrow> length (toBufferBE n w) = w"
  by (simp add: toBufferBE_be_bytes)

text \<open>A number that does not fit keeps its HIGH hexadecimal digits: \<open>slice(0, width * 2)\<close>
  cuts the low ones off.\<close>

lemma take_hexDigits:
  "j \<le> length (hexDigits n) \<Longrightarrow> 0 < j \<Longrightarrow>
   take j (hexDigits n) = hexDigits (n div 16 ^ (length (hexDigits n) - j))"
proof (induction n rule: hexDigits.induct)
  case (1 n)
  show ?case
  proof (cases "n < 16")
    case True
    then have "j = 1" using 1(2,3) by (simp add: hexDigits.simps [of n])
    then show ?thesis using True by (simp add: hexDigits.simps [of n])
  next
    case False
    let ?m = "n div 16"
    have L: "length (hexDigits n) = Suc (length (hexDigits ?m))"
      using False by (simp add: hexDigits.simps [of n])
    show ?thesis
    proof (cases "j = length (hexDigits n)")
      case True
      then show ?thesis by simp
    next
      case F: False
      then have j: "j \<le> length (hexDigits ?m)" using 1(2) L by simp
      have "take j (hexDigits n) = take j (hexDigits ?m)"
        using False j by (subst hexDigits.simps) simp
      also have "\<dots> = hexDigits (?m div 16 ^ (length (hexDigits ?m) - j))"
        using 1(1) [OF False j 1(3)] .
      also have "?m div 16 ^ (length (hexDigits ?m) - j) = n div 16 ^ (length (hexDigits n) - j)"
        using L j by (simp add: div_mult2_eq [symmetric] Suc_diff_le)
      finally show ?thesis .
    qed
  qed
qed

lemma length_hexDigits_le: "length (hexDigits n) \<le> k \<Longrightarrow> n < 16 ^ k"
  using hexDigits_bound [of n] by (meson le_less_trans less_le_trans one_le_numeral power_increasing)

lemma toBufferBE_overflow:
  assumes "256 ^ w \<le> n" "0 < w"
  shows "toBufferBE n w = be_bytes w (nat n div 16 ^ (length (hexDigits (nat n)) - 2 * w))"
proof -
  let ?L = "length (hexDigits (nat n))"
  have n0: "0 \<le> n" using assms(1) by (meson order_trans zero_le_numeral zero_le_power)
  have big: "2 * w < ?L"
  proof (rule ccontr)
    assume "\<not> 2 * w < ?L"
    then have "nat n < 16 ^ (2 * w)" by (intro length_hexDigits_le) simp
    then show False using assms n0 by (simp add: power_mult nat_less_iff)
  qed
  let ?m = "nat n div 16 ^ (?L - 2 * w)"
  have t: "take (2 * w) (hexDigits (nat n)) = hexDigits ?m"
    using big assms(2) by (intro take_hexDigits) simp_all
  then have len: "length (hexDigits ?m) = 2 * w" using big by (metis length_take less_imp_le min.absorb2)
  have "?m < 16 ^ (2 * w)" using hexDigits_bound [of ?m] len by simp
  then have "padStart (hexDigits ?m) (2 * w) = hexFixed (2 * w) ?m"
    using assms(2) by (intro padStart_hexDigits) simp_all
  then have "hexDigits ?m = hexFixed (2 * w) ?m" using len by (simp add: padStart_def)
  then show ?thesis
    using n0 big t bufferFromHex_hexFixed [of w ?m]
    by (simp add: toBufferBE_def toString16_def padStart_def mult.commute)
qed

section \<open>Free functions\<close>

text \<open>A deserialization function reads at an offset and returns the element and how far it
  advanced (\<open>{ elem, adv }\<close>). A \<open>Date\<close> is its time value, \<open>None\<close> for an invalid date:
  \<open>BigInt(NaN)\<close> throws a \<open>RangeError\<close>, and \<open>new Date(t)\<close> is invalid beyond
  8.64e15 milliseconds.\<close>

type_synonym 'a deserializeFn = "buffer \<Rightarrow> nat \<Rightarrow> ('a \<times> nat) res"
type_synonym date = "int option"

definition boolToByte :: "bool \<Rightarrow> buffer res" where
  "boolToByte b = writeUInt8 (if b then 1 else 0)"

definition numToUInt32LE :: "int \<Rightarrow> nat \<Rightarrow> buffer res" where
  "numToUInt32LE n bufferSize = (if bufferSize < 4 then Inl RangeError
     else mapR (\<lambda>w. zeros (bufferSize - 4) @ w) (writeUInt32LE n))"

definition numToUInt32BE :: "int \<Rightarrow> nat \<Rightarrow> buffer res" where
  "numToUInt32BE n bufferSize = (if bufferSize < 4 then Inl RangeError
     else mapR (\<lambda>w. zeros (bufferSize - 4) @ w) (writeUInt32BE n))"

definition numToInt32BE :: "int \<Rightarrow> nat \<Rightarrow> buffer res" where
  "numToInt32BE n bufferSize = (if bufferSize < 4 then Inl RangeError
     else mapR (\<lambda>w. zeros (bufferSize - 4) @ w) (writeInt32BE n))"

definition numToUInt8 :: "int \<Rightarrow> buffer res" where
  "numToUInt8 n = writeUInt8 n"

definition serializeBufferToVector :: "buffer \<Rightarrow> buffer res" where
  "serializeBufferToVector buf = mapR (\<lambda>lengthBuf. lengthBuf @ buf) (writeUInt32BE (int (length buf)))"

definition serializeBigInt :: "int \<Rightarrow> nat \<Rightarrow> buffer" where
  "serializeBigInt n width = toBufferBE n width"

definition deserializeBigInt :: "nat \<Rightarrow> int deserializeFn" where
  "deserializeBigInt width buf offset = Inr (toBigIntBE (bslice buf offset (offset + width)), width)"

definition serializeDate :: "date \<Rightarrow> buffer res" where
  "serializeDate d = (case d of None \<Rightarrow> Inl RangeError | Some t \<Rightarrow> Inr (serializeBigInt t 8))"

definition newDate :: "int \<Rightarrow> date" where
  "newDate t = (if \<bar>t\<bar> \<le> 8640000000000000 then Some t else None)"

definition deserializeBufferFromVector :: "buffer deserializeFn" where
  "deserializeBufferFromVector vector offset =
     bindE (readUInt32BE vector offset) (\<lambda>len.
       let adv = 4 + nat len in Inr (bslice vector (offset + 4) (offset + adv), adv))"

definition deserializeBool :: "int deserializeFn" where
  "deserializeBool buf offset = mapR (\<lambda>n. (n, 1)) (readUInt8 buf offset)"

definition deserializeUInt32 :: "int deserializeFn" where
  "deserializeUInt32 buf offset = mapR (\<lambda>n. (n, 4)) (readUInt32BE buf offset)"

definition deserializeInt32 :: "int deserializeFn" where
  "deserializeInt32 buf offset = mapR (\<lambda>n. (n, 4)) (readInt32BE buf offset)"

definition deserializeField :: "buffer deserializeFn" where
  "deserializeField buf offset = Inr (bslice buf offset (offset + 32), 32)"

definition serializeBufferArrayToVector :: "buffer list \<Rightarrow> buffer res" where
  "serializeBufferArrayToVector arr =
     mapR (\<lambda>lengthBuf. lengthBuf @ concat arr) (writeUInt32BE (int (length arr)))"

fun deserializeElems :: "'a deserializeFn \<Rightarrow> buffer \<Rightarrow> nat \<Rightarrow> nat \<Rightarrow> ('a list \<times> nat) res" where
  "deserializeElems deserialize vector 0 pos = Inr ([], pos)"
| "deserializeElems deserialize vector (Suc n) pos =
     bindE (deserialize vector pos) (\<lambda>(elem, adv).
       bindE (deserializeElems deserialize vector n (pos + adv)) (\<lambda>(arr, pos').
         Inr (elem # arr, pos')))"

definition deserializeArrayFromVector :: "'a deserializeFn \<Rightarrow> 'a list deserializeFn" where
  "deserializeArrayFromVector deserialize vector offset =
     bindE (readUInt32BE vector offset) (\<lambda>size.
       bindE (deserializeElems deserialize vector (nat size) (offset + 4)) (\<lambda>(arr, pos).
         Inr (arr, pos - offset)))"

section \<open>The Serializer and Deserializer classes\<close>

record serializer =
  ser_buf :: "buffer list"

definition newSerializer :: serializer where
  "newSerializer = \<lparr>ser_buf = []\<rparr>"

definition ser_push :: "serializer \<Rightarrow> buffer \<Rightarrow> serializer" where
  "ser_push s b = s\<lparr>ser_buf := ser_buf s @ [b]\<rparr>"

definition ser_bool :: "serializer \<Rightarrow> bool \<Rightarrow> serializer res" where
  "ser_bool s b = mapR (ser_push s) (boolToByte b)"

definition ser_uInt32 :: "serializer \<Rightarrow> int \<Rightarrow> serializer res" where
  "ser_uInt32 s n = mapR (ser_push s) (numToUInt32BE n 4)"

definition ser_int32 :: "serializer \<Rightarrow> int \<Rightarrow> serializer res" where
  "ser_int32 s n = mapR (ser_push s) (numToInt32BE n 4)"

definition ser_bigInt :: "serializer \<Rightarrow> int \<Rightarrow> serializer" where
  "ser_bigInt s n = ser_push s (serializeBigInt n 32)"

definition ser_vector :: "serializer \<Rightarrow> buffer \<Rightarrow> serializer res" where
  "ser_vector s b = mapR (ser_push s) (serializeBufferToVector b)"

definition ser_buffer :: "serializer \<Rightarrow> buffer \<Rightarrow> serializer" where
  "ser_buffer s b = ser_push s b"

definition ser_date :: "serializer \<Rightarrow> date \<Rightarrow> serializer res" where
  "ser_date s d = mapR (ser_push s) (serializeDate d)"

definition ser_serializeArray :: "('a \<Rightarrow> buffer res) \<Rightarrow> serializer \<Rightarrow> 'a list \<Rightarrow> serializer res" where
  "ser_serializeArray toBuffer s arr =
     bindE (mapE toBuffer arr) (\<lambda>bufs. mapR (ser_push s) (serializeBufferArrayToVector bufs))"

definition ser_getBuffer :: "serializer \<Rightarrow> buffer" where
  "ser_getBuffer s = concat (ser_buf s)"

record deserializer =
  des_buf :: buffer
  des_offset :: nat

definition newDeserializer :: "buffer \<Rightarrow> nat \<Rightarrow> deserializer" where
  "newDeserializer buf off = \<lparr>des_buf = buf, des_offset = off\<rparr>"

definition des_exec :: "'a deserializeFn \<Rightarrow> deserializer \<Rightarrow> ('a \<times> deserializer) res" where
  "des_exec fn d = bindE (fn (des_buf d) (des_offset d)) (\<lambda>(elem, adv).
     Inr (elem, d\<lparr>des_offset := des_offset d + adv\<rparr>))"

definition des_bool :: "deserializer \<Rightarrow> (bool \<times> deserializer) res" where
  "des_bool d = mapR (\<lambda>(n, d'). (n \<noteq> 0, d')) (des_exec deserializeBool d)"

definition des_uInt32 :: "deserializer \<Rightarrow> (int \<times> deserializer) res" where
  "des_uInt32 d = des_exec deserializeUInt32 d"

definition des_int32 :: "deserializer \<Rightarrow> (int \<times> deserializer) res" where
  "des_int32 d = des_exec deserializeInt32 d"

definition des_bigInt :: "nat \<Rightarrow> deserializer \<Rightarrow> (int \<times> deserializer) res" where
  "des_bigInt width d = des_exec (deserializeBigInt width) d"

definition des_vector :: "deserializer \<Rightarrow> (buffer \<times> deserializer) res" where
  "des_vector d = des_exec deserializeBufferFromVector d"

definition des_buffer :: "nat \<Rightarrow> deserializer \<Rightarrow> buffer \<times> deserializer" where
  "des_buffer width d =
     (bslice (des_buf d) (des_offset d) (des_offset d + width), d\<lparr>des_offset := des_offset d + width\<rparr>)"

definition des_date :: "deserializer \<Rightarrow> (date \<times> deserializer) res" where
  "des_date d = mapR (\<lambda>(t, d'). (newDate t, d')) (des_bigInt 8 d)"

definition des_deserializeArray :: "'a deserializeFn \<Rightarrow> deserializer \<Rightarrow> ('a list \<times> deserializer) res" where
  "des_deserializeArray fn d = des_exec (deserializeArrayFromVector fn) d"

section \<open>What is written is what is read back\<close>

text \<open>\<open>reads fn x b\<close>: wherever the bytes \<open>b\<close> stand in a buffer, \<open>fn\<close> at their start
  returns \<open>x\<close> and advances past them.\<close>

definition reads :: "'a deserializeFn \<Rightarrow> 'a \<Rightarrow> buffer \<Rightarrow> bool" where
  "reads fn x b \<longleftrightarrow> (\<forall>pre post. fn (pre @ b @ post) (length pre) = Inr (x, length b))"

lemma readsI:
  "(\<And>pre post off. length pre = off \<Longrightarrow> fn (pre @ b @ post) off = Inr (x, length b)) \<Longrightarrow> reads fn x b"
  by (simp add: reads_def)

lemma readsD: "reads fn x b \<Longrightarrow> length pre = off \<Longrightarrow> fn (pre @ b @ post) off = Inr (x, length b)"
  by (auto simp: reads_def)

lemma reads_uInt32: "numToUInt32BE n 4 = Inr b \<Longrightarrow> reads deserializeUInt32 n b"
  by (rule readsI)
    (auto simp: numToUInt32BE_def deserializeUInt32_def mapR_eq_Inr readUInt32BE_write
      dest: writeUInt32BE_length)

lemma reads_int32: "numToInt32BE n 4 = Inr b \<Longrightarrow> reads deserializeInt32 n b"
  by (rule readsI)
    (auto simp: numToInt32BE_def deserializeInt32_def mapR_eq_Inr readInt32BE_write
      writeInt32BE_def split: if_splits)

lemma reads_bool:
  assumes "boolToByte v = Inr b"
  shows "reads deserializeBool (if v then 1 else 0) b"
proof (rule readsI)
  fix pre post :: buffer and off assume off: "length pre = off"
  have b: "b = be_bytes 1 (if v then 1 else 0)" using assms by (auto simp: boolToByte_def writeUInt8_def split: if_splits)
  have "bslice (pre @ b @ post) off (off + 1) = b" using off b by (intro slice_at) simp_all
  then show "deserializeBool (pre @ b @ post) off = Inr (if v then 1 else 0, length b)"
    using off b by (simp add: deserializeBool_def readUInt8_def be_value_def)
qed

lemma reads_vector: "serializeBufferToVector v = Inr b \<Longrightarrow> reads deserializeBufferFromVector v b"
proof (rule readsI)
  fix pre post :: buffer and off
  assume "serializeBufferToVector v = Inr b" and off: "length pre = off"
  then obtain l where l: "writeUInt32BE (int (length v)) = Inr l" "b = l @ v"
    by (auto simp: serializeBufferToVector_def mapR_eq_Inr)
  have r: "readUInt32BE (pre @ l @ v @ post) off = Inr (int (length v))"
    using readUInt32BE_write [OF l(1) off, of "v @ post"] by simp
  have "bslice ((pre @ l) @ v @ post) (off + 4) (off + (4 + length v)) = v"
    using off writeUInt32BE_length [OF l(1)] by (intro slice_at) simp_all
  then show "deserializeBufferFromVector (pre @ b @ post) off = Inr (v, length b)"
    using l r writeUInt32BE_length [OF l(1)] by (simp add: deserializeBufferFromVector_def Let_def)
qed

lemma reads_bigInt:
  assumes "0 \<le> n" "n < 256 ^ width"
  shows "reads (deserializeBigInt width) n (serializeBigInt n width)"
proof (rule readsI)
  fix pre post :: buffer and off assume "length pre = off"
  then have "bslice (pre @ toBufferBE n width @ post) off (off + width) = toBufferBE n width"
    using assms by (intro slice_at) (simp_all add: length_toBufferBE)
  then show "deserializeBigInt width (pre @ serializeBigInt n width @ post) off
      = Inr (n, length (serializeBigInt n width))"
    using assms by (simp add: deserializeBigInt_def serializeBigInt_def length_toBufferBE toBigIntBE_toBufferBE)
qed

lemma deserializeElems_concat:
  assumes "list_all2 (reads fn) xs bs" "length pre = pos"
  shows "deserializeElems fn (pre @ concat bs @ post) (length xs) pos
     = Inr (xs, pos + length (concat bs))"
  using assms
proof (induction xs bs arbitrary: pre pos rule: list_all2_induct)
  case (Cons x xs b bs)
  have "fn (pre @ b @ (concat bs @ post)) pos = Inr (x, length b)"
    using Cons by (intro readsD)
  moreover have "deserializeElems fn ((pre @ b) @ concat bs @ post) (length xs) (pos + length b)
      = Inr (xs, pos + length b + length (concat bs))"
    using Cons by (intro Cons.IH) simp
  ultimately show ?case by (simp add: add.assoc)
qed simp

lemma reads_array:
  assumes "list_all2 (reads fn) xs bs" "serializeBufferArrayToVector bs = Inr b"
  shows "reads (deserializeArrayFromVector fn) xs b"
proof (rule readsI)
  fix pre post :: buffer and off assume off: "length pre = off"
  from assms(2) obtain l where l: "writeUInt32BE (int (length bs)) = Inr l" "b = l @ concat bs"
    by (auto simp: serializeBufferArrayToVector_def mapR_eq_Inr)
  have len: "length bs = length xs" using assms(1) by (simp add: list_all2_lengthD)
  have "readUInt32BE (pre @ l @ concat bs @ post) off = Inr (int (length xs))"
    using readUInt32BE_write [OF l(1) off, of "concat bs @ post"] len by simp
  moreover have "deserializeElems fn ((pre @ l) @ concat bs @ post) (length xs) (off + 4)
      = Inr (xs, off + 4 + length (concat bs))"
    using assms(1) off writeUInt32BE_length [OF l(1)] by (intro deserializeElems_concat) simp_all
  ultimately show "deserializeArrayFromVector fn (pre @ b @ post) off = Inr (xs, length b)"
    using l writeUInt32BE_length [OF l(1)] by (simp add: deserializeArrayFromVector_def)
qed

text \<open>An object serializer followed by its deserializer, one field at a time.\<close>

lemma des_exec_reads:
  assumes "reads fn x b" "length pre = off"
  shows "des_exec fn (newDeserializer (pre @ b @ post) off)
     = Inr (x, newDeserializer (pre @ b @ post) (off + length b))"
  using readsD [OF assms] by (simp add: des_exec_def newDeserializer_def)

lemma des_buffer_reads:
  assumes "length pre = off" "length b = w"
  shows "des_buffer w (newDeserializer (pre @ b @ post) off)
     = (b, newDeserializer (pre @ b @ post) (off + w))"
  using assms slice_at [of pre off "off + w" b post] by (simp add: des_buffer_def newDeserializer_def)

section \<open>Properties\<close>

text \<open>A number that fits the requested width is written in exactly that width and read back
  unchanged, in both byte orders; conversely a buffer is rebuilt from the number it denotes.\<close>

theorem bigint_buffer_roundtrip:
  assumes "0 \<le> n" "n < 256 ^ w"
  shows "toBigIntBE (toBufferBE n w) = n \<and> toBigIntLE (toBufferLE n w) = n
    \<and> length (toBufferBE n w) = w \<and> length (toBufferLE n w) = w
    \<and> toBufferBE (toBigIntBE buf) (length buf) = buf \<and> toBufferLE (toBigIntLE buf) (length buf) = buf"
  using assms toBigIntBE_toBufferBE [OF assms] toBufferBE_toBigIntBE [of "rev buf" "length buf"]
  by (simp add: toBufferLE_rev toBigIntLE_be_value toBigIntBE_be_value [symmetric] length_toBufferBE
      toBufferBE_toBigIntBE)

theorem bigint_buffer_roundtrip_witness:
  "toBigIntBE (toBufferBE 258 4) = 258 \<and> toBufferBE (toBigIntBE [1, 2]) (length [1, 2 :: byte]) = [1, 2]"
  using bigint_buffer_roundtrip [of 258 4 "[1, 2]"] by simp

text \<open>A number that does NOT fit is silently cut: the low-order hexadecimal digits are dropped
  and the buffer holds the leading \<open>2 * width\<close> digits, so that writing is neither modular nor an
  error.\<close>

theorem toBufferBE_keeps_high_digits:
  assumes "256 ^ w \<le> n" "0 < w"
  shows "toBufferBE n w = be_bytes w (nat n div 16 ^ (length (hexDigits (nat n)) - 2 * w))
    \<and> length (toBufferBE n w) = w"
  using toBufferBE_overflow [OF assms] by simp

theorem toBufferBE_keeps_high_digits_witness: "toBufferBE 256 1 = [16]"
proof -
  have "hexDigits 256 = ''100''" by (simp add: hexDigits.simps hexChar_def)
  then show ?thesis using toBufferBE_keeps_high_digits [of 1 256] by simp
qed

text \<open>\<open>deserializeArrayFromVector\<close> reads back, at any offset of any buffer, exactly the elements
  that \<open>serializeBufferArrayToVector\<close> wrote, and advances past them, for every element format whose
  deserializer reads back its own encodings.\<close>

theorem array_vector_roundtrip:
  assumes "list_all2 (reads fn) xs bs" "serializeBufferArrayToVector bs = Inr b"
  shows "deserializeArrayFromVector fn (pre @ b @ post) (length pre) = Inr (xs, length b)"
  by (rule readsD [OF reads_array [OF assms] refl])

theorem array_vector_roundtrip_witness:
  "deserializeArrayFromVector deserializeUInt32 ([9] @ be_bytes 4 2 @ be_bytes 4 7 @ be_bytes 4 11 @ [5]) 1
     = Inr ([7, 11], 12)"
proof -
  have "reads deserializeUInt32 7 (be_bytes 4 7)" "reads deserializeUInt32 11 (be_bytes 4 11)"
    by (rule reads_uInt32; simp add: numToUInt32BE_def)+
  then show ?thesis
    using array_vector_roundtrip [of deserializeUInt32 "[7, 11]" "[be_bytes 4 7, be_bytes 4 11]"
        "be_bytes 4 2 @ be_bytes 4 7 @ be_bytes 4 11" "[9]" "[5]"]
    by (simp add: serializeBufferArrayToVector_def)
qed

end
