(* ===== verification/Ids.thy ===== *)
theory Ids
  imports Serialize
begin

text \<open>
  The identifiers and addresses of \<open>barretenberg.js\<close>: \<open>EthAddress\<close> with its EIP-55 checksum
  (\<open>address/eth_address.ts\<close>), \<open>GrumpkinAddress\<close>, \<open>AliasHash\<close>, \<open>AccountAliasId\<close>, \<open>AccountId\<close>,
  \<open>TxId\<close>, \<open>TxHash\<close> and \<open>SchnorrSignature\<close>. Each class is a datatype over its private buffer,
  each constructor a function that throws on a buffer of the wrong length. The Keccak digest is
  the parameter \<open>sha3\<close>: the hexadecimal digest of a string. Every \<open>toBuffer\<close>/constructor pair
  is an instance of the codec interface.
\<close>

datatype ethAddress = EthAddress (ethAddress_buffer: buffer)
datatype grumpkinAddress = GrumpkinAddress (grumpkinAddress_buffer: buffer)
datatype aliasHash = AliasHash (aliasHash_buffer: buffer)
datatype txId = TxId (txId_buffer: buffer)
datatype txHash = TxHash (txHash_buffer: buffer)
datatype schnorrSignature = SchnorrSignature (schnorrSignature_buffer: buffer)

record accountAliasId =
  aai_aliasHash :: aliasHash
  aai_accountNonce :: int

record accountId =
  ai_publicKey :: grumpkinAddress
  ai_accountNonce :: int

section \<open>EthAddress\<close>

definition newEthAddress :: "buffer \<Rightarrow> ethAddress res" where
  "newEthAddress buffer =
    (if length buffer = 32 then
       if bslice buffer 0 12 \<noteq> zeros 12 then Inl (Thrown ''Invalid address buffer.'')
       else Inr (EthAddress (drop 12 buffer))
     else if length buffer \<noteq> 20 then Inl (Thrown ''Invalid address buffer.'')
     else Inr (EthAddress buffer))"

definition EthAddress_ZERO :: ethAddress where
  "EthAddress_ZERO = EthAddress (zeros 20)"

definition isLowerHex :: "char \<Rightarrow> bool" where
  "isLowerHex c = (let k = of_char c :: nat in 48 \<le> k \<and> k \<le> 57 \<or> 97 \<le> k \<and> k \<le> 102)"

definition isUpperHex :: "char \<Rightarrow> bool" where
  "isUpperHex c = (let k = of_char c :: nat in 48 \<le> k \<and> k \<le> 57 \<or> 65 \<le> k \<and> k \<le> 70)"

definition toUpper :: "char \<Rightarrow> char" where
  "toUpper c = (let k = of_char c :: nat in if 97 \<le> k \<and> k \<le> 122 then char_of (k - 32) else c)"

definition toLower :: "char \<Rightarrow> char" where
  "toLower c = (let k = of_char c :: nat in if 65 \<le> k \<and> k \<le> 90 then char_of (k + 32) else c)"

text \<open>\<open>address.replace(/^0x/i, '')\<close>\<close>

fun strip0x :: "string \<Rightarrow> string" where
  "strip0x (a # b # s) = (if a = CHR ''0'' \<and> (b = CHR ''x'' \<or> b = CHR ''X'') then s else a # b # s)"
| "strip0x s = s"

definition hashNibbleHigh :: "string \<Rightarrow> nat \<Rightarrow> bool" where
  "hashNibbleHigh h i = (i < length h \<and> (case unhex (h ! i) of None \<Rightarrow> False | Some v \<Rightarrow> 7 < v))"

definition hashNibbleLow :: "string \<Rightarrow> nat \<Rightarrow> bool" where
  "hashNibbleLow h i = (i < length h \<and> (case unhex (h ! i) of None \<Rightarrow> False | Some v \<Rightarrow> v \<le> 7))"

definition checkAddressChecksum :: "(string \<Rightarrow> string) \<Rightarrow> string \<Rightarrow> bool" where
  "checkAddressChecksum sha3 addr =
    (let address = strip0x addr;
         addressHash = sha3 (map toLower address)
     in \<forall>i<40. \<not> (hashNibbleHigh addressHash i \<and> toUpper (address ! i) \<noteq> address ! i
                 \<or> hashNibbleLow addressHash i \<and> toLower (address ! i) \<noteq> address ! i))"

definition isAddress :: "(string \<Rightarrow> string) \<Rightarrow> string \<Rightarrow> bool" where
  "isAddress sha3 address =
    (let s = strip0x address in
     if \<not> (length s = 40 \<and> list_all (\<lambda>c. isLowerHex c \<or> isUpperHex c) s) then False
     else if list_all isLowerHex s \<or> list_all isUpperHex s then True
     else checkAddressChecksum sha3 address)"

definition toChecksumAddress :: "(string \<Rightarrow> string) \<Rightarrow> string \<Rightarrow> string res" where
  "toChecksumAddress sha3 addr =
    (if \<not> isAddress sha3 addr then Inl (Thrown ''Invalid address string.'')
     else let address = strip0x (map toLower addr);
              addressHash = sha3 address
          in Inr (''0x'' @ map (\<lambda>i. if hashNibbleHigh addressHash i then toUpper (address ! i)
                                   else address ! i) [0..<length address]))"

definition EthAddress_fromString :: "(string \<Rightarrow> string) \<Rightarrow> string \<Rightarrow> ethAddress res" where
  "EthAddress_fromString sha3 address =
    (if \<not> isAddress sha3 address then Inl (Thrown ''Invalid address string'')
     else newEthAddress (bufferFromHex (strip0x address)))"

definition EthAddress_equals :: "ethAddress \<Rightarrow> ethAddress \<Rightarrow> bool" where
  "EthAddress_equals a b = (ethAddress_buffer a = ethAddress_buffer b)"

definition EthAddress_isZero :: "ethAddress \<Rightarrow> bool" where
  "EthAddress_isZero a = EthAddress_equals a EthAddress_ZERO"

definition EthAddress_toString :: "(string \<Rightarrow> string) \<Rightarrow> ethAddress \<Rightarrow> string res" where
  "EthAddress_toString sha3 a = toChecksumAddress sha3 (bufferToHex (ethAddress_buffer a))"

definition toLowerCaseAddress :: "ethAddress \<Rightarrow> string" where
  "toLowerCaseAddress a = ''0x'' @ map toLower (bufferToHex (ethAddress_buffer a))"

definition EthAddress_toBuffer :: "ethAddress \<Rightarrow> buffer" where
  "EthAddress_toBuffer a = ethAddress_buffer a"

text \<open>\<open>this.buffer.copy(buffer, 12)\<close> into 32 zero bytes.\<close>

definition EthAddress_toBuffer32 :: "ethAddress \<Rightarrow> buffer" where
  "EthAddress_toBuffer32 a =
    (let b = take 20 (ethAddress_buffer a) in zeros 12 @ b @ zeros (20 - length b))"

definition valid_ethAddress :: "ethAddress \<Rightarrow> bool" where
  "valid_ethAddress a \<longleftrightarrow> length (ethAddress_buffer a) = 20"

section \<open>GrumpkinAddress, AliasHash, TxId, TxHash, SchnorrSignature\<close>

definition newGrumpkinAddress :: "buffer \<Rightarrow> grumpkinAddress res" where
  "newGrumpkinAddress buffer =
    (if length buffer \<noteq> 64 then Inl (Thrown ''Invalid address buffer.'') else Inr (GrumpkinAddress buffer))"

definition GrumpkinAddress_ZERO :: grumpkinAddress where
  "GrumpkinAddress_ZERO = GrumpkinAddress (zeros 64)"

definition GrumpkinAddress_isAddress :: "string \<Rightarrow> bool" where
  "GrumpkinAddress_isAddress address =
    (let s = strip0x address in length s = 128 \<and> list_all (\<lambda>c. isLowerHex c \<or> isUpperHex c) s)"

definition GrumpkinAddress_fromString :: "string \<Rightarrow> grumpkinAddress res" where
  "GrumpkinAddress_fromString address =
    (if \<not> GrumpkinAddress_isAddress address then Inl (Thrown ''Invalid address string'')
     else newGrumpkinAddress (bufferFromHex (strip0x address)))"

definition GrumpkinAddress_equals :: "grumpkinAddress \<Rightarrow> grumpkinAddress \<Rightarrow> bool" where
  "GrumpkinAddress_equals a b = (grumpkinAddress_buffer a = grumpkinAddress_buffer b)"

definition GrumpkinAddress_toBuffer :: "grumpkinAddress \<Rightarrow> buffer" where
  "GrumpkinAddress_toBuffer a = grumpkinAddress_buffer a"

definition GrumpkinAddress_x :: "grumpkinAddress \<Rightarrow> buffer" where
  "GrumpkinAddress_x a = bslice (grumpkinAddress_buffer a) 0 32"

definition GrumpkinAddress_y :: "grumpkinAddress \<Rightarrow> buffer" where
  "GrumpkinAddress_y a = drop 32 (grumpkinAddress_buffer a)"

definition GrumpkinAddress_toString :: "grumpkinAddress \<Rightarrow> string" where
  "GrumpkinAddress_toString a = ''0x'' @ bufferToHex (grumpkinAddress_buffer a)"

definition newAliasHash :: "buffer \<Rightarrow> aliasHash res" where
  "newAliasHash buffer =
    (if length buffer \<noteq> 28 then Inl (Thrown ''Invalid alias hash buffer.'') else Inr (AliasHash buffer))"

definition AliasHash_fromAlias :: "string \<Rightarrow> (buffer \<Rightarrow> buffer) \<Rightarrow> (string \<Rightarrow> buffer) \<Rightarrow> aliasHash res" where
  "AliasHash_fromAlias alias hashToField utf8 = newAliasHash (bslice (hashToField (utf8 alias)) 0 28)"

definition AliasHash_fromString :: "string \<Rightarrow> aliasHash res" where
  "AliasHash_fromString hash = newAliasHash (bufferFromHex (strip0x hash))"

definition AliasHash_toBuffer :: "aliasHash \<Rightarrow> buffer" where
  "AliasHash_toBuffer a = aliasHash_buffer a"

definition AliasHash_toBuffer32 :: "aliasHash \<Rightarrow> buffer" where
  "AliasHash_toBuffer32 a =
    (let b = take 28 (aliasHash_buffer a) in zeros 4 @ b @ zeros (28 - length b))"

definition AliasHash_toString :: "aliasHash \<Rightarrow> string" where
  "AliasHash_toString a = ''0x'' @ bufferToHex (AliasHash_toBuffer a)"

definition AliasHash_equals :: "aliasHash \<Rightarrow> aliasHash \<Rightarrow> bool" where
  "AliasHash_equals a b = (AliasHash_toBuffer a = AliasHash_toBuffer b)"

definition newTxId :: "buffer \<Rightarrow> txId res" where
  "newTxId buffer =
    (if length buffer \<noteq> 32 then Inl (Thrown ''Invalid hash buffer.'') else Inr (TxId buffer))"

definition TxId_deserialize :: "txId deserializeFn" where
  "TxId_deserialize buffer offset = mapR (\<lambda>t. (t, 32)) (newTxId (bslice buffer offset (offset + 32)))"

definition TxId_fromString :: "string \<Rightarrow> txId res" where
  "TxId_fromString hash = newTxId (bufferFromHex (strip0x hash))"

definition TxId_toBuffer :: "txId \<Rightarrow> buffer" where
  "TxId_toBuffer t = txId_buffer t"

definition TxId_equals :: "txId \<Rightarrow> txId \<Rightarrow> bool" where
  "TxId_equals a b = (TxId_toBuffer a = TxId_toBuffer b)"

definition TxId_toString :: "txId \<Rightarrow> string" where
  "TxId_toString t = ''0x'' @ bufferToHex (TxId_toBuffer t)"

definition newTxHash :: "buffer \<Rightarrow> txHash res" where
  "newTxHash buffer =
    (if length buffer \<noteq> 32 then Inl (Thrown ''Invalid hash buffer.'') else Inr (TxHash buffer))"

definition TxHash_deserialize :: "txHash deserializeFn" where
  "TxHash_deserialize buffer offset = mapR (\<lambda>t. (t, 32)) (newTxHash (bslice buffer offset (offset + 32)))"

definition TxHash_fromString :: "string \<Rightarrow> txHash res" where
  "TxHash_fromString hash = newTxHash (bufferFromHex (strip0x hash))"

definition TxHash_toBuffer :: "txHash \<Rightarrow> buffer" where
  "TxHash_toBuffer t = txHash_buffer t"

definition TxHash_equals :: "txHash \<Rightarrow> txHash \<Rightarrow> bool" where
  "TxHash_equals a b = (TxHash_toBuffer a = TxHash_toBuffer b)"

definition TxHash_toString :: "txHash \<Rightarrow> string" where
  "TxHash_toString t = ''0x'' @ bufferToHex (TxHash_toBuffer t)"

definition newSchnorrSignature :: "buffer \<Rightarrow> schnorrSignature res" where
  "newSchnorrSignature buffer =
    (if length buffer \<noteq> 64 then Inl (Thrown ''Invalid signature buffer'') else Inr (SchnorrSignature buffer))"

definition isSignature :: "string \<Rightarrow> bool" where
  "isSignature signature =
    (let s = strip0x signature in length s = 128 \<and> list_all (\<lambda>c. isLowerHex c \<or> isUpperHex c) s)"

definition SchnorrSignature_fromString :: "string \<Rightarrow> schnorrSignature res" where
  "SchnorrSignature_fromString signature =
    (if \<not> isSignature signature then Inl (Thrown ''Invalid signature string'')
     else newSchnorrSignature (bufferFromHex (strip0x signature)))"

definition SchnorrSignature_s :: "schnorrSignature \<Rightarrow> buffer" where
  "SchnorrSignature_s g = bslice (schnorrSignature_buffer g) 0 32"

definition SchnorrSignature_e :: "schnorrSignature \<Rightarrow> buffer" where
  "SchnorrSignature_e g = drop 32 (schnorrSignature_buffer g)"

definition SchnorrSignature_toBuffer :: "schnorrSignature \<Rightarrow> buffer" where
  "SchnorrSignature_toBuffer g = schnorrSignature_buffer g"

section \<open>AccountAliasId and AccountId\<close>

definition AccountAliasId_fromBuffer :: "buffer \<Rightarrow> accountAliasId res" where
  "AccountAliasId_fromBuffer ident =
    (if length ident \<noteq> 32 then Inl (Thrown ''Invalid id buffer.'')
     else bindE (newAliasHash (bslice ident 4 32)) (\<lambda>aliasHash.
          bindE (readUInt32BE ident 0) (\<lambda>accountNonce.
          Inr \<lparr>aai_aliasHash = aliasHash, aai_accountNonce = accountNonce\<rparr>)))"

definition AccountAliasId_toBuffer :: "accountAliasId \<Rightarrow> buffer res" where
  "AccountAliasId_toBuffer a =
     mapR (\<lambda>nonceBuf. nonceBuf @ AliasHash_toBuffer (aai_aliasHash a)) (writeUInt32BE (aai_accountNonce a))"

definition AccountAliasId_equals :: "accountAliasId \<Rightarrow> accountAliasId \<Rightarrow> bool" where
  "AccountAliasId_equals a b =
    (AliasHash_equals (aai_aliasHash a) (aai_aliasHash b) \<and> aai_accountNonce a = aai_accountNonce b)"

definition AccountId_fromBuffer :: "buffer \<Rightarrow> accountId res" where
  "AccountId_fromBuffer ident =
    (if length ident \<noteq> 68 then Inl (Thrown ''Invalid id buffer.'')
     else bindE (newGrumpkinAddress (bslice ident 0 64)) (\<lambda>publicKey.
          bindE (readUInt32BE ident 64) (\<lambda>accountNonce.
          Inr \<lparr>ai_publicKey = publicKey, ai_accountNonce = accountNonce\<rparr>)))"

definition AccountId_toBuffer :: "accountId \<Rightarrow> buffer res" where
  "AccountId_toBuffer a =
     mapR (\<lambda>nonceBuf. GrumpkinAddress_toBuffer (ai_publicKey a) @ nonceBuf) (writeUInt32BE (ai_accountNonce a))"

definition AccountId_equals :: "accountId \<Rightarrow> accountId \<Rightarrow> bool res" where
  "AccountId_equals a b =
     bindE (AccountId_toBuffer a) (\<lambda>x. bindE (AccountId_toBuffer b) (\<lambda>y. Inr (x = y)))"

section \<open>Hexadecimal spelling\<close>

lemma isLowerHex_hexChar: "d < 16 \<Longrightarrow> isLowerHex (hexChar d)"
  by (drule lt16_cases) (auto simp: hexChar_def isLowerHex_def)

lemma bufferToHex_lower: "list_all isLowerHex (bufferToHex b)"
proof (induction b)
  case (Cons x xs)
  have "unat x div 16 < 16" using unat_byte_lt [of x] by (intro less_mult_imp_div_less) simp
  then show ?case using Cons by (simp add: bufferToHex_def byteToHex_def isLowerHex_hexChar)
qed (simp add: bufferToHex_def)

lemma length_bufferToHex [len_simps]: "length (bufferToHex b) = 2 * length b"
  by (induction b) (simp_all add: bufferToHex_def byteToHex_def)

lemma bufferFromHex_bufferToHex [simp]: "bufferFromHex (bufferToHex b) = b"
proof (induction b)
  case (Cons x xs)
  have "unat x div 16 < 16" using unat_byte_lt [of x] by (intro less_mult_imp_div_less) simp
  moreover have "(word_of_nat (16 * (unat x div 16) + unat x mod 16) :: byte) = x"
    using mult_div_mod_eq [of 16 "unat x"] by simp
  ultimately show ?case using Cons by (simp add: bufferToHex_def byteToHex_def)
qed (simp add: bufferToHex_def)

lemma lowerHex_not_x: "isLowerHex c \<Longrightarrow> c \<noteq> CHR ''x'' \<and> c \<noteq> CHR ''X''"
  by (auto simp: isLowerHex_def)

lemma strip0x_lower: "list_all isLowerHex s \<Longrightarrow> strip0x s = s"
  by (cases s rule: strip0x.cases) (auto dest: lowerHex_not_x)

lemma strip0x_0x [simp]: "strip0x (CHR ''0'' # CHR ''x'' # s) = s"
  by simp

lemma toLower_lower: "isLowerHex c \<Longrightarrow> toLower c = c"
  by (auto simp: isLowerHex_def toLower_def Let_def)

lemma lower_cases: "isLowerHex c \<Longrightarrow> c \<in> set ''0123456789abcdef''"
proof -
  assume h: "isLowerHex c"
  define k where "k = (of_char c :: nat)"
  have c: "c = char_of k" by (simp add: k_def)
  from h have "k \<in> {48,49,50,51,52,53,54,55,56,57,97,98,99,100,101,102}"
    unfolding isLowerHex_def k_def [symmetric] Let_def by (simp add: set_eq_iff) presburger
  then show ?thesis unfolding c by (elim insertE) (simp_all add: char_of_def bit_iff_odd)
qed

lemma toUpper_lower:
  assumes "isLowerHex c"
  shows "toLower (toUpper c) = c" "isUpperHex (toUpper c)" "toUpper (toUpper c) = toUpper c"
    "unhex (toUpper c) = unhex c"
  using lower_cases [OF assms] by (auto simp: toLower_def toUpper_def isUpperHex_def unhex_def char_of_def bit_iff_odd)

lemma bufferFromHex_unhex_cong: "map unhex s = map unhex t \<Longrightarrow> bufferFromHex s = bufferFromHex t"
proof (induction s arbitrary: t rule: bufferFromHex.induct)
  case (1 a b s)
  then obtain c d u where t: "t = c # d # u" by (auto simp: Cons_eq_map_conv)
  with 1 show ?case by (auto split: option.splits)
qed (auto simp: Cons_eq_map_conv)

text \<open>The checksummed spelling of lower-case digits.\<close>

definition checksummed :: "string \<Rightarrow> string \<Rightarrow> string" where
  "checksummed h s = map (\<lambda>i. if hashNibbleHigh h i then toUpper (s ! i) else s ! i) [0..<length s]"

lemma length_checksummed [simp]: "length (checksummed h s) = length s"
  by (simp add: checksummed_def)

lemma nth_checksummed:
  "i < length s \<Longrightarrow> checksummed h s ! i = (if hashNibbleHigh h i then toUpper (s ! i) else s ! i)"
  by (simp add: checksummed_def)

lemma checksummed_props:
  assumes "list_all isLowerHex s"
  shows "map toLower (checksummed h s) = s" "map unhex (checksummed h s) = map unhex s"
    "list_all (\<lambda>c. isLowerHex c \<or> isUpperHex c) (checksummed h s)"
proof -
  have l: "isLowerHex (s ! i)" if "i < length s" for i using assms that by (simp add: list_all_length)
  show "map toLower (checksummed h s) = s"
    by (rule nth_equalityI) (auto simp: nth_checksummed toLower_lower toUpper_lower l)
  show "map unhex (checksummed h s) = map unhex s"
    by (rule nth_equalityI) (auto simp: nth_checksummed toUpper_lower l)
  show "list_all (\<lambda>c. isLowerHex c \<or> isUpperHex c) (checksummed h s)"
    by (auto simp: list_all_length nth_checksummed toUpper_lower l)
qed

lemma isAddress_checksummed:
  assumes "list_all isLowerHex s" "length s = 40"
  shows "isAddress sha3 (''0x'' @ checksummed (sha3 s) s)"
proof -
  let ?c = "checksummed (sha3 s) s"
  have l: "isLowerHex (s ! i)" if "i < 40" for i using assms that by (simp add: list_all_length)
  have "checkAddressChecksum sha3 (''0x'' @ ?c)"
    using assms checksummed_props(1) [OF assms(1), of "sha3 s"]
    by (auto simp: checkAddressChecksum_def nth_checksummed toUpper_lower l toLower_lower
        hashNibbleHigh_def hashNibbleLow_def split: option.splits)
  then show ?thesis using checksummed_props(3) [OF assms(1), of "sha3 s"] assms(2)
    by (simp add: isAddress_def Let_def)
qed

lemma toChecksumAddress_lower:
  assumes "list_all isLowerHex s" "length s = 40"
  shows "toChecksumAddress sha3 s = Inr (''0x'' @ checksummed (sha3 s) s)"
proof -
  have "map toLower s = s" using assms(1) by (simp add: list_all_iff map_idI toLower_lower)
  moreover have "isAddress sha3 s" using assms by (simp add: isAddress_def strip0x_lower list_all_iff)
  ultimately show ?thesis
    using assms(1) by (simp add: toChecksumAddress_def strip0x_lower checksummed_def)
qed

section \<open>The codecs\<close>

lemma newEthAddress_20: "length b = 20 \<Longrightarrow> newEthAddress b = Inr (EthAddress b)"
  by (simp add: newEthAddress_def)

lemma newEthAddress_toBuffer32:
  "valid_ethAddress a \<Longrightarrow> newEthAddress (EthAddress_toBuffer32 a) = Inr a"
  by (cases a) (simp add: newEthAddress_def EthAddress_toBuffer32_def valid_ethAddress_def bslice_append_left)

lemma length_toBuffer32 [len_simps]: "length (EthAddress_toBuffer32 a) = 32"
  by (simp add: EthAddress_toBuffer32_def Let_def)

lemma newEthAddress_valid: "newEthAddress b = Inr a \<Longrightarrow> valid_ethAddress a"
  by (auto simp: newEthAddress_def valid_ethAddress_def split: if_splits)

interpretation eth_address_codec: canonical_codec
  "\<lambda>a. Inr (EthAddress_toBuffer a)" "\<lambda>b. newEthAddress (bslice b 0 20)" valid_ethAddress 20
proof unfold_locales
  fix x :: ethAddress and b rest assume "valid_ethAddress x"
  then show "isOk (Inr (EthAddress_toBuffer x) :: buffer res)"
    and "Inr (EthAddress_toBuffer x) = (Inr b :: buffer res) \<Longrightarrow> length b = 20"
    and "Inr (EthAddress_toBuffer x) = (Inr b :: buffer res) \<Longrightarrow> newEthAddress (bslice (b @ rest) 0 20) = Inr x"
    by (cases x; auto simp: EthAddress_toBuffer_def valid_ethAddress_def newEthAddress_20)+
next
  fix b :: buffer and x assume "length b = 20" "newEthAddress (bslice b 0 20) = Inr x"
  then show "valid_ethAddress x \<and> Inr (EthAddress_toBuffer x) = (Inr b :: buffer res)"
    by (auto simp: newEthAddress_20 EthAddress_toBuffer_def valid_ethAddress_def)
qed

lemma newGrumpkinAddress_eq: "newGrumpkinAddress b = Inr a \<longleftrightarrow> length b = 64 \<and> a = GrumpkinAddress b"
  by (auto simp: newGrumpkinAddress_def)

lemma newAliasHash_eq: "newAliasHash b = Inr a \<longleftrightarrow> length b = 28 \<and> a = AliasHash b"
  by (auto simp: newAliasHash_def)

lemma newTxId_eq: "newTxId b = Inr a \<longleftrightarrow> length b = 32 \<and> a = TxId b"
  by (auto simp: newTxId_def)

lemma newTxHash_eq: "newTxHash b = Inr a \<longleftrightarrow> length b = 32 \<and> a = TxHash b"
  by (auto simp: newTxHash_def)

lemma newSchnorrSignature_eq: "newSchnorrSignature b = Inr a \<longleftrightarrow> length b = 64 \<and> a = SchnorrSignature b"
  by (auto simp: newSchnorrSignature_def)

lemmas wrapper_eqs = newGrumpkinAddress_eq newAliasHash_eq newTxId_eq newTxHash_eq newSchnorrSignature_eq

interpretation grumpkin_codec: canonical_codec
  "\<lambda>a. Inr (GrumpkinAddress_toBuffer a)" "\<lambda>b. newGrumpkinAddress (bslice b 0 64)"
  "\<lambda>a. length (grumpkinAddress_buffer a) = 64" 64
  by unfold_locales (auto simp: GrumpkinAddress_toBuffer_def wrapper_eqs)

interpretation alias_hash_codec: canonical_codec
  "\<lambda>a. Inr (AliasHash_toBuffer a)" "\<lambda>b. newAliasHash (bslice b 0 28)"
  "\<lambda>a. length (aliasHash_buffer a) = 28" 28
  by unfold_locales (auto simp: AliasHash_toBuffer_def wrapper_eqs)

interpretation tx_id_codec: canonical_codec
  "\<lambda>t. Inr (TxId_toBuffer t)" "\<lambda>b. mapR fst (TxId_deserialize b 0)"
  "\<lambda>t. length (txId_buffer t) = 32" 32
  by unfold_locales (auto simp: TxId_toBuffer_def TxId_deserialize_def wrapper_eqs mapR_eq_Inr)

interpretation tx_hash_codec: canonical_codec
  "\<lambda>t. Inr (TxHash_toBuffer t)" "\<lambda>b. mapR fst (TxHash_deserialize b 0)"
  "\<lambda>t. length (txHash_buffer t) = 32" 32
  by unfold_locales (auto simp: TxHash_toBuffer_def TxHash_deserialize_def wrapper_eqs mapR_eq_Inr)

interpretation schnorr_codec: canonical_codec
  "\<lambda>t. Inr (SchnorrSignature_toBuffer t)" "\<lambda>b. newSchnorrSignature (bslice b 0 64)"
  "\<lambda>t. length (schnorrSignature_buffer t) = 64" 64
  by unfold_locales (auto simp: SchnorrSignature_toBuffer_def wrapper_eqs)

lemma reads_txId: "length (txId_buffer t) = 32 \<Longrightarrow> reads TxId_deserialize t (TxId_toBuffer t)"
  by (rule readsI) (simp add: TxId_deserialize_def TxId_toBuffer_def slice_at newTxId_def)

lemma reads_txHash: "length (txHash_buffer t) = 32 \<Longrightarrow> reads TxHash_deserialize t (TxHash_toBuffer t)"
  by (rule readsI) (simp add: TxHash_deserialize_def TxHash_toBuffer_def slice_at newTxHash_def)

definition valid_accountAliasId :: "accountAliasId \<Rightarrow> bool" where
  "valid_accountAliasId a \<longleftrightarrow> length (aliasHash_buffer (aai_aliasHash a)) = 28
     \<and> 0 \<le> aai_accountNonce a \<and> aai_accountNonce a < 2 ^ 32"

definition valid_accountId :: "accountId \<Rightarrow> bool" where
  "valid_accountId a \<longleftrightarrow> length (grumpkinAddress_buffer (ai_publicKey a)) = 64
     \<and> 0 \<le> ai_accountNonce a \<and> ai_accountNonce a < 2 ^ 32"

lemma readUInt32BE_at:
  "length (bslice b off (off + 4)) = 4 \<Longrightarrow>
   readUInt32BE b off = Inr n \<longleftrightarrow> writeUInt32BE n = Inr (bslice b off (off + 4))"
proof -
  assume len: "length (bslice b off (off + 4)) = 4"
  then have off: "off + 4 \<le> length b" by (simp add: length_bslice)
  have bd: "be_value (bslice b off (off + 4)) < 2 ^ 32"
    using be_value_bound [of "bslice b off (off + 4)"] len by simp
  show ?thesis
    using off bd len be_bytes_value [of "bslice b off (off + 4)" 4]
    by (auto simp: readUInt32BE_def writeUInt32BE_eq_Inr)
qed

interpretation account_alias_id_codec: canonical_codec
  AccountAliasId_toBuffer "\<lambda>b. AccountAliasId_fromBuffer (bslice b 0 32)" valid_accountAliasId 32
proof unfold_locales
  fix x :: accountAliasId and b rest assume v: "valid_accountAliasId x"
  then show "isOk (AccountAliasId_toBuffer x)"
    by (simp add: AccountAliasId_toBuffer_def valid_accountAliasId_def)
  assume "AccountAliasId_toBuffer x = Inr b"
  then obtain n where n: "writeUInt32BE (aai_accountNonce x) = Inr n"
    and b: "b = n @ AliasHash_toBuffer (aai_aliasHash x)"
    by (auto simp: AccountAliasId_toBuffer_def mapR_eq_Inr)
  then show len: "length b = 32"
    using v writeUInt32BE_length [OF n] by (simp add: AliasHash_toBuffer_def valid_accountAliasId_def)
  have "bslice b 4 32 = AliasHash_toBuffer (aai_aliasHash x)"
    using b n v slice_at [of n 4 32 _ "[]"]
      writeUInt32BE_length [OF n]
    by (simp add: AliasHash_toBuffer_def valid_accountAliasId_def)
  moreover have "readUInt32BE b 0 = Inr (aai_accountNonce x)"
    using readUInt32BE_write [OF n, of "[]" 0] b by simp
  ultimately show "AccountAliasId_fromBuffer (bslice (b @ rest) 0 32) = Inr x"
    using v len by (simp add: AccountAliasId_fromBuffer_def AliasHash_toBuffer_def newAliasHash_def
        valid_accountAliasId_def)
next
  fix b :: buffer and x assume b: "length b = 32" and d: "AccountAliasId_fromBuffer (bslice b 0 32) = Inr x"
  then have h: "aai_aliasHash x = AliasHash (bslice b 4 32)" and n: "readUInt32BE b 0 = Inr (aai_accountNonce x)"
    by (auto simp: AccountAliasId_fromBuffer_def bindE_eq_Inr newAliasHash_eq)
  have "writeUInt32BE (aai_accountNonce x) = Inr (bslice b 0 4)"
    using readUInt32BE_at [of b 0 "aai_accountNonce x"] b n by simp
  then show "valid_accountAliasId x \<and> AccountAliasId_toBuffer x = Inr b"
    using b h n readUInt32BE_range [OF n] bslice_concat [of 0 4 32 b]
    by (auto simp: valid_accountAliasId_def AccountAliasId_toBuffer_def AliasHash_toBuffer_def
        length_bslice simp del: writeUInt32BE_ok)
qed

interpretation account_id_codec: canonical_codec
  AccountId_toBuffer "\<lambda>b. AccountId_fromBuffer (bslice b 0 68)" valid_accountId 68
proof unfold_locales
  fix x :: accountId and b rest assume v: "valid_accountId x"
  then show "isOk (AccountId_toBuffer x)"
    by (simp add: AccountId_toBuffer_def valid_accountId_def)
  assume "AccountId_toBuffer x = Inr b"
  then obtain n where n: "writeUInt32BE (ai_accountNonce x) = Inr n"
    and b: "b = GrumpkinAddress_toBuffer (ai_publicKey x) @ n"
    by (auto simp: AccountId_toBuffer_def mapR_eq_Inr)
  have k: "length (GrumpkinAddress_toBuffer (ai_publicKey x)) = 64"
    using v by (simp add: GrumpkinAddress_toBuffer_def valid_accountId_def)
  then show len: "length b = 68" using b writeUInt32BE_length [OF n] by simp
  have "readUInt32BE b 64 = Inr (ai_accountNonce x)"
    using readUInt32BE_write [OF n k, of "[]"] b by simp
  then show "AccountId_fromBuffer (bslice (b @ rest) 0 68) = Inr x"
    using v len b k by (simp add: AccountId_fromBuffer_def GrumpkinAddress_toBuffer_def
        newGrumpkinAddress_def)
next
  fix b :: buffer and x assume b: "length b = 68" and d: "AccountId_fromBuffer (bslice b 0 68) = Inr x"
  then have h: "ai_publicKey x = GrumpkinAddress (bslice b 0 64)" and n: "readUInt32BE b 64 = Inr (ai_accountNonce x)"
    by (auto simp: AccountId_fromBuffer_def bindE_eq_Inr newGrumpkinAddress_eq)
  have "writeUInt32BE (ai_accountNonce x) = Inr (bslice b 64 68)"
    using readUInt32BE_at [of b 64 "ai_accountNonce x"] b n by (simp add: length_bslice)
  then show "valid_accountId x \<and> AccountId_toBuffer x = Inr b"
    using b h n readUInt32BE_range [OF n] bslice_concat [of 0 64 68 b]
    by (auto simp: valid_accountId_def AccountId_toBuffer_def GrumpkinAddress_toBuffer_def
        length_bslice simp del: writeUInt32BE_ok)
qed

section \<open>Properties\<close>

text \<open>The checksummed spelling of an Ethereum address is accepted by \<open>isAddress\<close> and parses back
  to the address, whatever the digest function does.\<close>

theorem eth_address_checksum_roundtrip:
  assumes "valid_ethAddress a"
  shows "\<exists>s. EthAddress_toString sha3 a = Inr s \<and> isAddress sha3 s \<and> EthAddress_fromString sha3 s = Inr a"
proof -
  let ?h = "bufferToHex (ethAddress_buffer a)"
  let ?s = "''0x'' @ checksummed (sha3 ?h) ?h"
  have len: "length ?h = 40" using assms by (simp add: length_bufferToHex valid_ethAddress_def)
  have lower: "list_all isLowerHex ?h" by (rule bufferToHex_lower)
  have "bufferFromHex (checksummed (sha3 ?h) ?h) = ethAddress_buffer a"
    using bufferFromHex_unhex_cong [OF checksummed_props(2) [OF lower]] by simp
  then have "EthAddress_fromString sha3 ?s = Inr a"
    using isAddress_checksummed [OF lower len, of sha3] assms
    by (simp add: EthAddress_fromString_def newEthAddress_20 valid_ethAddress_def)
  then show ?thesis
    using toChecksumAddress_lower [OF lower len, of sha3] isAddress_checksummed [OF lower len, of sha3]
    by (auto simp: EthAddress_toString_def)
qed

theorem eth_address_checksum_roundtrip_witness:
  "\<exists>s. EthAddress_toString (\<lambda>_. ''f0f0'') (EthAddress (replicate 20 171)) = Inr s
     \<and> EthAddress_fromString (\<lambda>_. ''f0f0'') s = Inr (EthAddress (replicate 20 171))"
  using eth_address_checksum_roundtrip [of "EthAddress (replicate 20 171)" "\<lambda>_. ''f0f0''"]
  by (auto simp: valid_ethAddress_def)

text \<open>\<open>AccountAliasId\<close> is in bijection with the 32-byte buffers: every such buffer decodes, and
  it is the encoding of the id it decodes to, with the nonce in the first four bytes.\<close>

theorem account_alias_id_bijection:
  assumes "length b = 32"
  shows "\<exists>a. AccountAliasId_fromBuffer b = Inr a \<and> AccountAliasId_toBuffer a = Inr b
    \<and> aai_accountNonce a = int (be_value (take 4 b)) \<and> aliasHash_buffer (aai_aliasHash a) = drop 4 b"
proof -
  have "\<exists>a. AccountAliasId_fromBuffer b = Inr a" using assms
    by (simp add: AccountAliasId_fromBuffer_def newAliasHash_def length_bslice readUInt32BE_def)
  then obtain a where a: "AccountAliasId_fromBuffer b = Inr a" ..
  then have "AccountAliasId_toBuffer a = Inr b"
    using account_alias_id_codec.enc_dec [of b a] assms by simp
  moreover have "bslice b 4 32 = drop 4 b" using assms by (simp add: bslice_def)
  ultimately show ?thesis using a assms
    by (auto simp: AccountAliasId_fromBuffer_def bindE_eq_Inr newAliasHash_eq readUInt32BE_def)
qed

theorem account_alias_id_bijection_witness:
  "\<exists>a. AccountAliasId_fromBuffer (zeros 3 @ [7] @ zeros 28) = Inr a \<and> aai_accountNonce a = 7"
proof -
  have "be_value (zeros 3 @ [7]) = 7" by (simp only: be_value_pad) (simp add: be_value_def)
  then show ?thesis
    using account_alias_id_bijection [of "zeros 3 @ [7] @ zeros 28"] by (auto simp del: be_value_snoc)
qed

end
