(* ===== verification/BridgeCall.thy ===== *)
theory BridgeCall
  imports Serialize
begin

unbundle bit_operations_syntax

text \<open>
  \<open>barretenberg.js/src/bridge_call_data\<close>: the 248-bit description of a call to a DeFi bridge
  (\<open>BridgeCallData\<close>), its bit configuration (\<open>BitConfig\<close>) and \<open>validateBridgeCallData\<close>.
  A \<open>bigint\<close> is an \<open>int\<close>, its shifts and masks are \<open>push_bit\<close>, \<open>drop_bit\<close> and \<open>AND\<close>; an
  optional asset id is an \<open>int option\<close>.
\<close>

definition virtualAssetIdFlag :: int where
  "virtualAssetIdFlag = push_bit 29 1"

definition isVirtualAsset :: "int \<Rightarrow> bool" where
  "isVirtualAsset assetId = (push_bit 29 1 \<le> assetId)"

definition ADDRESS_BIT_LEN :: nat where "ADDRESS_BIT_LEN = 32"
definition INPUT_ASSET_ID_A_LEN :: nat where "INPUT_ASSET_ID_A_LEN = 30"
definition OUTPUT_ASSET_ID_A_LEN :: nat where "OUTPUT_ASSET_ID_A_LEN = 30"
definition OUTPUT_ASSET_ID_B_LEN :: nat where "OUTPUT_ASSET_ID_B_LEN = 30"
definition INPUT_ASSET_ID_B_LEN :: nat where "INPUT_ASSET_ID_B_LEN = 30"
definition BITCONFIG_LEN :: nat where "BITCONFIG_LEN = 32"
definition AUX_DATA_LEN :: nat where "AUX_DATA_LEN = 64"

definition ADDRESS_OFFSET :: nat where
  "ADDRESS_OFFSET = 0"
definition INPUT_ASSET_ID_A_OFFSET :: nat where
  "INPUT_ASSET_ID_A_OFFSET = ADDRESS_BIT_LEN"
definition INPUT_ASSET_ID_B_OFFSET :: nat where
  "INPUT_ASSET_ID_B_OFFSET = INPUT_ASSET_ID_A_OFFSET + INPUT_ASSET_ID_A_LEN"
definition OUTPUT_ASSET_ID_A_OFFSET :: nat where
  "OUTPUT_ASSET_ID_A_OFFSET = INPUT_ASSET_ID_B_OFFSET + INPUT_ASSET_ID_B_LEN"
definition OUTPUT_ASSET_ID_B_OFFSET :: nat where
  "OUTPUT_ASSET_ID_B_OFFSET = OUTPUT_ASSET_ID_A_OFFSET + OUTPUT_ASSET_ID_A_LEN"
definition BITCONFIG_OFFSET :: nat where
  "BITCONFIG_OFFSET = OUTPUT_ASSET_ID_B_OFFSET + OUTPUT_ASSET_ID_B_LEN"
definition AUX_DATA_OFFSET :: nat where
  "AUX_DATA_OFFSET = BITCONFIG_OFFSET + BITCONFIG_LEN"

lemmas bridge_offsets = ADDRESS_BIT_LEN_def INPUT_ASSET_ID_A_LEN_def OUTPUT_ASSET_ID_A_LEN_def
  OUTPUT_ASSET_ID_B_LEN_def INPUT_ASSET_ID_B_LEN_def BITCONFIG_LEN_def AUX_DATA_LEN_def
  ADDRESS_OFFSET_def INPUT_ASSET_ID_A_OFFSET_def INPUT_ASSET_ID_B_OFFSET_def
  OUTPUT_ASSET_ID_A_OFFSET_def OUTPUT_ASSET_ID_B_OFFSET_def BITCONFIG_OFFSET_def AUX_DATA_OFFSET_def

section \<open>BitConfig\<close>

record bitConfig =
  bc_secondInputInUse :: bool
  bc_secondOutputInUse :: bool

definition getNumber :: "int \<Rightarrow> nat \<Rightarrow> nat \<Rightarrow> int" where
  "getNumber val offset sz = drop_bit offset val AND (push_bit sz 1 - 1)"

definition BitConfig_fromBigInt :: "int \<Rightarrow> bitConfig" where
  "BitConfig_fromBigInt val =
     \<lparr>bc_secondInputInUse = (if getNumber val 0 1 = 0 then False else True),
      bc_secondOutputInUse = (if getNumber val 1 1 = 0 then False else True)\<rparr>"

definition BitConfig_toBigInt :: "bitConfig \<Rightarrow> int" where
  "BitConfig_toBigInt c = of_bool (bc_secondInputInUse c) + push_bit 1 (of_bool (bc_secondOutputInUse c))"

section \<open>BridgeCallData\<close>

record bridgeCallData =
  bcd_bridgeAddressId :: int
  bcd_inputAssetIdA :: int
  bcd_outputAssetIdA :: int
  bcd_inputAssetIdB :: "int option"
  bcd_outputAssetIdB :: "int option"
  bcd_auxData :: int
  bcd_bitConfig :: bitConfig

definition newBridgeCallData ::
  "int \<Rightarrow> int \<Rightarrow> int \<Rightarrow> int option \<Rightarrow> int option \<Rightarrow> int \<Rightarrow> bridgeCallData" where
  "newBridgeCallData bridgeAddressId inputAssetIdA outputAssetIdA inputAssetIdB outputAssetIdB auxData =
     \<lparr>bcd_bridgeAddressId = bridgeAddressId, bcd_inputAssetIdA = inputAssetIdA,
      bcd_outputAssetIdA = outputAssetIdA, bcd_inputAssetIdB = inputAssetIdB,
      bcd_outputAssetIdB = outputAssetIdB, bcd_auxData = auxData,
      bcd_bitConfig = \<lparr>bc_secondInputInUse = (inputAssetIdB \<noteq> None),
                       bc_secondOutputInUse = (outputAssetIdB \<noteq> None)\<rparr>\<rparr>"

definition BridgeCallData_ZERO :: bridgeCallData where
  "BridgeCallData_ZERO = newBridgeCallData 0 0 0 None None 0"

definition extractBigInt :: "int \<Rightarrow> nat \<Rightarrow> nat \<Rightarrow> int" where
  "extractBigInt val offset sz = drop_bit offset val AND (push_bit sz 1 - 1)"

definition BridgeCallData_fromBigInt :: "int \<Rightarrow> bridgeCallData res" where
  "BridgeCallData_fromBigInt val =
    (let bridgeAddressId = extractBigInt val ADDRESS_OFFSET ADDRESS_BIT_LEN;
         inputAssetIdA = extractBigInt val INPUT_ASSET_ID_A_OFFSET INPUT_ASSET_ID_A_LEN;
         outputAssetIdA = extractBigInt val OUTPUT_ASSET_ID_A_OFFSET OUTPUT_ASSET_ID_A_LEN;
         inputAssetIdB = extractBigInt val INPUT_ASSET_ID_B_OFFSET INPUT_ASSET_ID_B_LEN;
         outputAssetIdB = extractBigInt val OUTPUT_ASSET_ID_B_OFFSET OUTPUT_ASSET_ID_B_LEN;
         auxData = extractBigInt val AUX_DATA_OFFSET AUX_DATA_LEN;
         bitConfig = BitConfig_fromBigInt (extractBigInt val BITCONFIG_OFFSET BITCONFIG_LEN)
     in if \<not> bc_secondInputInUse bitConfig \<and> inputAssetIdB \<noteq> 0
        then Inl (Thrown ''Inconsistent second input.'')
        else if \<not> bc_secondOutputInUse bitConfig \<and> outputAssetIdB \<noteq> 0
        then Inl (Thrown ''Inconsistent second output.'')
        else Inr (newBridgeCallData bridgeAddressId inputAssetIdA outputAssetIdA
          (if bc_secondInputInUse bitConfig then Some inputAssetIdB else None)
          (if bc_secondOutputInUse bitConfig then Some outputAssetIdB else None)
          auxData))"

definition BridgeCallData_fromBuffer :: "buffer \<Rightarrow> bridgeCallData res" where
  "BridgeCallData_fromBuffer buf =
    (if length buf \<noteq> 32 then Inl (Thrown ''Invalid buffer.'')
     else BridgeCallData_fromBigInt (toBigIntBE buf))"

text \<open>The test \<open>!!x \<and> isVirtualAsset(x)\<close> of an optional number, and \<open>x || 0\<close>.\<close>

definition optVirtual :: "int option \<Rightarrow> bool" where
  "optVirtual a = (case a of None \<Rightarrow> False | Some x \<Rightarrow> x \<noteq> 0 \<and> isVirtualAsset x)"

definition orZero :: "int option \<Rightarrow> int" where
  "orZero a = (case a of None \<Rightarrow> 0 | Some x \<Rightarrow> x)"

lemma orZero_simps [simp]: "orZero None = 0" "orZero (Some x) = x"
  by (simp_all add: orZero_def)

definition firstInputVirtual :: "bridgeCallData \<Rightarrow> bool" where
  "firstInputVirtual b = isVirtualAsset (bcd_inputAssetIdA b)"

definition secondInputVirtual :: "bridgeCallData \<Rightarrow> bool" where
  "secondInputVirtual b = optVirtual (bcd_inputAssetIdB b)"

definition firstOutputVirtual :: "bridgeCallData \<Rightarrow> bool" where
  "firstOutputVirtual b = isVirtualAsset (bcd_outputAssetIdA b)"

definition secondOutputVirtual :: "bridgeCallData \<Rightarrow> bool" where
  "secondOutputVirtual b = optVirtual (bcd_outputAssetIdB b)"

definition secondInputInUse :: "bridgeCallData \<Rightarrow> bool" where
  "secondInputInUse b = bc_secondInputInUse (bcd_bitConfig b)"

definition secondOutputInUse :: "bridgeCallData \<Rightarrow> bool" where
  "secondOutputInUse b = bc_secondOutputInUse (bcd_bitConfig b)"

definition numInputAssets :: "bridgeCallData \<Rightarrow> nat" where
  "numInputAssets b = (if bc_secondInputInUse (bcd_bitConfig b) then 2 else 1)"

definition numOutputAssets :: "bridgeCallData \<Rightarrow> nat" where
  "numOutputAssets b = (if bc_secondOutputInUse (bcd_bitConfig b) then 2 else 1)"

definition BridgeCallData_toBigInt :: "bridgeCallData \<Rightarrow> int" where
  "BridgeCallData_toBigInt b =
     bcd_bridgeAddressId b +
     push_bit INPUT_ASSET_ID_A_OFFSET (bcd_inputAssetIdA b) +
     push_bit INPUT_ASSET_ID_B_OFFSET (orZero (bcd_inputAssetIdB b)) +
     push_bit OUTPUT_ASSET_ID_A_OFFSET (bcd_outputAssetIdA b) +
     push_bit OUTPUT_ASSET_ID_B_OFFSET (orZero (bcd_outputAssetIdB b)) +
     push_bit BITCONFIG_OFFSET (BitConfig_toBigInt (bcd_bitConfig b)) +
     push_bit AUX_DATA_OFFSET (bcd_auxData b)"

definition BridgeCallData_toBuffer :: "bridgeCallData \<Rightarrow> buffer" where
  "BridgeCallData_toBuffer b = toBufferBE (BridgeCallData_toBigInt b) 32"

definition BridgeCallData_toString :: "bridgeCallData \<Rightarrow> string" where
  "BridgeCallData_toString b = ''0x'' @ bufferToHex (BridgeCallData_toBuffer b)"

definition BridgeCallData_equals :: "bridgeCallData \<Rightarrow> bridgeCallData \<Rightarrow> bool" where
  "BridgeCallData_equals a b = (BridgeCallData_toBuffer b = BridgeCallData_toBuffer a)"

definition validateBridgeCallData :: "bridgeCallData \<Rightarrow> unit res" where
  "validateBridgeCallData b =
    (if Some (bcd_inputAssetIdA b) = bcd_inputAssetIdB b then Inl (Thrown ''Identical input assets.'')
     else if \<not> secondOutputVirtual b \<and> Some (bcd_outputAssetIdA b) = bcd_outputAssetIdB b
     then Inl (Thrown ''Identical output assets.'')
     else Inr ())"

section \<open>Packed bit fields\<close>

text \<open>A number packed from fields, least significant first, each with its width.\<close>

fun pack :: "(nat \<times> int) list \<Rightarrow> int" where
  "pack [] = 0"
| "pack ((s, x) # fs) = x + 2 ^ s * pack fs"

definition fits :: "(nat \<times> int) list \<Rightarrow> bool" where
  "fits fs \<longleftrightarrow> (\<forall>(s, x)\<in>set fs. 0 \<le> x \<and> x < 2 ^ s)"

lemma fits_simps [simp]: "fits []" "fits ((s, x) # fs) \<longleftrightarrow> 0 \<le> x \<and> x < 2 ^ s \<and> fits fs"
  by (auto simp: fits_def)

lemma pack_bounds: "fits fs \<Longrightarrow> 0 \<le> pack fs \<and> pack fs < 2 ^ sum_list (map fst fs)"
proof (induction fs rule: pack.induct)
  case (2 s x fs)
  then have "pack fs + 1 \<le> 2 ^ sum_list (map fst fs)" and x: "x < 2 ^ s" by simp_all
  then have "2 ^ s * (pack fs + 1) \<le> 2 ^ s * 2 ^ sum_list (map fst fs)"
    by (intro mult_left_mono) simp_all
  then show ?case using 2 x by (simp add: power_add algebra_simps)
qed simp

lemma extract_eq: "extractBigInt v off s = v div 2 ^ off mod 2 ^ s"
  by (simp add: extractBigInt_def drop_bit_eq_div take_bit_eq_mod [symmetric] take_bit_eq_mask mask_eq_exp_minus_1)

lemma getNumber_eq: "getNumber v off s = v div 2 ^ off mod 2 ^ s"
  using extract_eq by (simp add: extractBigInt_def getNumber_def)

lemma pack_div: "fits (fs @ gs) \<Longrightarrow> pack (fs @ gs) div 2 ^ sum_list (map fst fs) = pack gs"
proof (induction fs rule: pack.induct)
  case (2 s x fs)
  have "(x + 2 ^ s * pack (fs @ gs)) div 2 ^ s = pack (fs @ gs)"
    using 2(2) by (simp add: div_pos_pos_trivial)
  then show ?case using 2 by (simp add: power_add zdiv_zmult2_eq)
qed simp

lemma pack_extract:
  "fits (fs @ (s, x) # gs) \<Longrightarrow> sum_list (map fst fs) = off \<Longrightarrow> extractBigInt (pack (fs @ (s, x) # gs)) off s = x"
  using pack_div [of fs "(s, x) # gs"] by (auto simp: extract_eq fits_def)

text \<open>Conversely, the fields a number is split into, the last one unbounded, pack to it.\<close>

lemma extract_step: "0 < s \<Longrightarrow> v div 2 ^ off = extractBigInt v off s + 2 ^ s * (v div 2 ^ (off + s))"
  for v :: int
  by (simp add: extract_eq power_add zdiv_zmult2_eq)

section \<open>The layout\<close>

definition valid_bridgeCallData :: "bridgeCallData \<Rightarrow> bool" where
  "valid_bridgeCallData b \<longleftrightarrow>
     0 \<le> bcd_bridgeAddressId b \<and> bcd_bridgeAddressId b < 2 ^ 32 \<and>
     0 \<le> bcd_inputAssetIdA b \<and> bcd_inputAssetIdA b < 2 ^ 30 \<and>
     0 \<le> bcd_outputAssetIdA b \<and> bcd_outputAssetIdA b < 2 ^ 30 \<and>
     0 \<le> orZero (bcd_inputAssetIdB b) \<and> orZero (bcd_inputAssetIdB b) < 2 ^ 30 \<and>
     0 \<le> orZero (bcd_outputAssetIdB b) \<and> orZero (bcd_outputAssetIdB b) < 2 ^ 30 \<and>
     0 \<le> bcd_auxData b \<and> bcd_auxData b < 2 ^ 64 \<and>
     bcd_bitConfig b = \<lparr>bc_secondInputInUse = (bcd_inputAssetIdB b \<noteq> None),
                        bc_secondOutputInUse = (bcd_outputAssetIdB b \<noteq> None)\<rparr>"

definition bridgeFields :: "bridgeCallData \<Rightarrow> (nat \<times> int) list" where
  "bridgeFields b = [(32, bcd_bridgeAddressId b), (30, bcd_inputAssetIdA b), (30, orZero (bcd_inputAssetIdB b)),
     (30, bcd_outputAssetIdA b), (30, orZero (bcd_outputAssetIdB b)),
     (32, BitConfig_toBigInt (bcd_bitConfig b)), (64, bcd_auxData b)]"

lemma toBigInt_pack: "BridgeCallData_toBigInt b = pack (bridgeFields b)"
  by (simp add: BridgeCallData_toBigInt_def bridgeFields_def bridge_offsets push_bit_eq_mult)

lemma BitConfig_toBigInt_bounds: "0 \<le> BitConfig_toBigInt c" "BitConfig_toBigInt c < 2 ^ 32"
  by (auto simp: BitConfig_toBigInt_def)

lemma fits_bridgeFields: "valid_bridgeCallData b \<Longrightarrow> fits (bridgeFields b)"
  using BitConfig_toBigInt_bounds [of "bcd_bitConfig b"]
  by (simp add: bridgeFields_def valid_bridgeCallData_def)

lemma toBigInt_bounds:
  assumes "valid_bridgeCallData b"
  shows "0 \<le> BridgeCallData_toBigInt b" "BridgeCallData_toBigInt b < 2 ^ 248"
  using pack_bounds [OF fits_bridgeFields [OF assms]]
  by (simp_all add: toBigInt_pack bridgeFields_def)

lemma toBigInt_extracts:
  assumes "valid_bridgeCallData b"
  shows "extractBigInt (BridgeCallData_toBigInt b) 0 32 = bcd_bridgeAddressId b"
    and "extractBigInt (BridgeCallData_toBigInt b) 32 30 = bcd_inputAssetIdA b"
    and "extractBigInt (BridgeCallData_toBigInt b) 62 30 = orZero (bcd_inputAssetIdB b)"
    and "extractBigInt (BridgeCallData_toBigInt b) 92 30 = bcd_outputAssetIdA b"
    and "extractBigInt (BridgeCallData_toBigInt b) 122 30 = orZero (bcd_outputAssetIdB b)"
    and "extractBigInt (BridgeCallData_toBigInt b) 152 32 = BitConfig_toBigInt (bcd_bitConfig b)"
    and "extractBigInt (BridgeCallData_toBigInt b) 184 64 = bcd_auxData b"
proof -
  have f: "fits (take n (bridgeFields b) @ drop n (bridgeFields b))" for n
    using fits_bridgeFields [OF assms] by simp
  have e: "n < 7 \<Longrightarrow> sum_list (map fst (take n (bridgeFields b))) = off \<Longrightarrow>
      extractBigInt (BridgeCallData_toBigInt b) off (fst (bridgeFields b ! n)) = snd (bridgeFields b ! n)" for n off
  proof -
    assume n: "n < 7" and off: "sum_list (map fst (take n (bridgeFields b))) = off"
    then have d: "drop n (bridgeFields b) = (fst (bridgeFields b ! n), snd (bridgeFields b ! n)) # drop (Suc n) (bridgeFields b)"
      using Cons_nth_drop_Suc [of n "bridgeFields b"] by (simp add: bridgeFields_def)
    show ?thesis
      using pack_extract [OF f [of n, unfolded d] off] d
      by (metis append_take_drop_id toBigInt_pack)
  qed
  show "extractBigInt (BridgeCallData_toBigInt b) 0 32 = bcd_bridgeAddressId b"
    using e [of 0 0] by (simp add: bridgeFields_def)
  show "extractBigInt (BridgeCallData_toBigInt b) 32 30 = bcd_inputAssetIdA b"
    using e [of 1 32] by (simp add: bridgeFields_def)
  show "extractBigInt (BridgeCallData_toBigInt b) 62 30 = orZero (bcd_inputAssetIdB b)"
    using e [of 2 62] by (simp add: bridgeFields_def eval_nat_numeral)
  show "extractBigInt (BridgeCallData_toBigInt b) 92 30 = bcd_outputAssetIdA b"
    using e [of 3 92] by (simp add: bridgeFields_def eval_nat_numeral)
  show "extractBigInt (BridgeCallData_toBigInt b) 122 30 = orZero (bcd_outputAssetIdB b)"
    using e [of 4 122] by (simp add: bridgeFields_def eval_nat_numeral)
  show "extractBigInt (BridgeCallData_toBigInt b) 152 32 = BitConfig_toBigInt (bcd_bitConfig b)"
    using e [of 5 152] by (simp add: bridgeFields_def eval_nat_numeral)
  show "extractBigInt (BridgeCallData_toBigInt b) 184 64 = bcd_auxData b"
    using e [of 6 184] by (simp add: bridgeFields_def eval_nat_numeral)
qed

lemma BitConfig_roundtrip: "BitConfig_fromBigInt (BitConfig_toBigInt c) = c"
  by (cases c) (simp add: BitConfig_fromBigInt_def BitConfig_toBigInt_def getNumber_eq split: if_splits)

lemma fromBigInt_toBigInt:
  assumes "valid_bridgeCallData b"
  shows "BridgeCallData_fromBigInt (BridgeCallData_toBigInt b) = Inr b"
proof -
  have "orZero x \<noteq> 0 \<Longrightarrow> x \<noteq> None" for x by (cases x) simp_all
  then show ?thesis
    using assms
    by (auto simp: BridgeCallData_fromBigInt_def bridge_offsets toBigInt_extracts [OF assms] Let_def
        BitConfig_roundtrip newBridgeCallData_def valid_bridgeCallData_def
        intro!: bridgeCallData.equality split: if_splits)
qed

lemma extract_bounds: "0 \<le> extractBigInt v off s" "extractBigInt v off s < 2 ^ s"
  by (simp_all add: extract_eq)

lemma fromBigInt_valid: "BridgeCallData_fromBigInt v = Inr b \<Longrightarrow> valid_bridgeCallData b"
  using extract_bounds [of v 0 32] extract_bounds [of v 32 30] extract_bounds [of v 62 30]
    extract_bounds [of v 92 30] extract_bounds [of v 122 30] extract_bounds [of v 184 64]
  by (auto simp: BridgeCallData_fromBigInt_def bridge_offsets newBridgeCallData_def
      valid_bridgeCallData_def orZero_def Let_def split: if_splits)

text \<open>The bits the decoder ignores: bits 2 to 31 of the bit configuration, and everything from
  bit 248 on. Clearing them does not change what is decoded, and a number without them is the
  encoding of what it decodes to.\<close>

definition canonicalBridgeInt :: "int \<Rightarrow> bool" where
  "canonicalBridgeInt v \<longleftrightarrow> 0 \<le> v \<and> v < 2 ^ 248 \<and> extractBigInt v 152 32 < 4"

lemma BitConfig_toBigInt_fromBigInt:
  "0 \<le> v \<Longrightarrow> v < 4 \<Longrightarrow> BitConfig_toBigInt (BitConfig_fromBigInt v) = v"
proof -
  assume "0 \<le> v" "v < 4"
  then have "v = 0 \<or> v = 1 \<or> v = 2 \<or> v = 3" by presburger
  then show ?thesis by (auto simp: BitConfig_toBigInt_def BitConfig_fromBigInt_def getNumber_eq)
qed

lemma toBigInt_fromBigInt:
  assumes d: "BridgeCallData_fromBigInt v = Inr b" and c: "canonicalBridgeInt v"
  shows "BridgeCallData_toBigInt b = v"
proof -
  let ?e = "extractBigInt v"
  have f: "bridgeFields b = [(32, ?e 0 32), (30, ?e 32 30), (30, ?e 62 30), (30, ?e 92 30), (30, ?e 122 30),
      (32, BitConfig_toBigInt (BitConfig_fromBigInt (?e 152 32))), (64, ?e 184 64)]"
    using d by (auto simp: bridgeFields_def BridgeCallData_fromBigInt_def bridge_offsets newBridgeCallData_def
        orZero_def Let_def BitConfig_toBigInt_def split: if_splits)
  have bc: "BitConfig_toBigInt (BitConfig_fromBigInt (?e 152 32)) = ?e 152 32"
    using c extract_bounds(1) by (intro BitConfig_toBigInt_fromBigInt) (auto simp: canonicalBridgeInt_def)
  have last: "?e 184 64 = v div 2 ^ 184"
  proof -
    have "v < 2 ^ 64 * 2 ^ 184" using c by (simp add: canonicalBridgeInt_def)
    then have "v div 2 ^ 184 < 2 ^ 64" by (simp add: div_less_iff_less_mult)
    then show ?thesis using c by (simp add: extract_eq canonicalBridgeInt_def pos_imp_zdiv_nonneg_iff)
  qed
  have s: "v div 2 ^ 32 = ?e 32 30 + 2 ^ 30 * (v div 2 ^ 62)"
    "v div 2 ^ 62 = ?e 62 30 + 2 ^ 30 * (v div 2 ^ 92)"
    "v div 2 ^ 92 = ?e 92 30 + 2 ^ 30 * (v div 2 ^ 122)"
    "v div 2 ^ 122 = ?e 122 30 + 2 ^ 30 * (v div 2 ^ 152)"
    "v div 2 ^ 152 = ?e 152 32 + 2 ^ 32 * (v div 2 ^ 184)"
    using extract_step [of 30 v 32] extract_step [of 30 v 62] extract_step [of 30 v 92]
      extract_step [of 30 v 122] extract_step [of 32 v 152]
    by (simp_all only: numeral_plus_numeral add_num_simps zero_less_numeral True_implies_equals)
  have "v = ?e 0 32 + 2 ^ 32 * (v div 2 ^ 32)" using extract_step [of 32 v 0] by simp
  also have "\<dots> = ?e 0 32 + 2 ^ 32 * (?e 32 30 + 2 ^ 30 * (?e 62 30 + 2 ^ 30 * (?e 92 30 + 2 ^ 30 *
      (?e 122 30 + 2 ^ 30 * (?e 152 32 + 2 ^ 32 * (v div 2 ^ 184))))))"
    by (simp only: s)
  also have "\<dots> = pack (bridgeFields b)" unfolding f bc by (simp add: last)
  finally show ?thesis by (simp add: toBigInt_pack)
qed

interpretation bridge_codec: fixed_codec
  "\<lambda>b. Inr (BridgeCallData_toBuffer b)" "\<lambda>b. BridgeCallData_fromBuffer (bslice b 0 32)"
  valid_bridgeCallData 32
proof unfold_locales
  fix x :: bridgeCallData and b rest assume v: "valid_bridgeCallData x"
  have bd: "0 \<le> BridgeCallData_toBigInt x" "BridgeCallData_toBigInt x < 256 ^ 32"
    using toBigInt_bounds [OF v] by simp_all
  show "isOk (Inr (BridgeCallData_toBuffer x) :: buffer res)" by simp
  assume b: "Inr (BridgeCallData_toBuffer x) = (Inr b :: buffer res)"
  then show len: "length b = 32" using bd by (auto simp: BridgeCallData_toBuffer_def length_toBufferBE)
  show "BridgeCallData_fromBuffer (bslice (b @ rest) 0 32) = Inr x"
    using b len bd toBigIntBE_toBufferBE [OF bd]
    by (auto simp: BridgeCallData_fromBuffer_def BridgeCallData_toBuffer_def fromBigInt_toBigInt [OF v])
qed

lemma equals_iff:
  "valid_bridgeCallData a \<Longrightarrow> valid_bridgeCallData b \<Longrightarrow> BridgeCallData_equals a b \<longleftrightarrow> a = b"
  using bridge_codec.enc_inj [of a b "BridgeCallData_toBuffer a"] by (auto simp: BridgeCallData_equals_def)

lemma extract_take_bit: "extractBigInt v off s = take_bit s (drop_bit off v)"
  by (simp add: extractBigInt_def take_bit_eq_mask mask_eq_exp_minus_1)

lemma getNumber_bit: "getNumber x n 1 = 0 \<longleftrightarrow> \<not> bit x n"
proof -
  have "getNumber x n 1 = take_bit 1 (drop_bit n x)"
    by (simp add: getNumber_def take_bit_eq_mask mask_eq_exp_minus_1)
  also have "\<dots> = of_bool (bit x n)" by (simp add: bit_iff_odd_drop_bit take_bit_Suc mod_2_eq_odd)
  finally show ?thesis by simp
qed

lemma bitConfig_bits:
  "getNumber (extractBigInt v 152 32) 0 1 = 0 \<longleftrightarrow> \<not> bit v 152"
  "getNumber (extractBigInt v 152 32) 1 1 = 0 \<longleftrightarrow> \<not> bit v 153"
  by (simp_all only: getNumber_bit extract_take_bit bit_take_bit_iff bit_drop_bit_eq) simp_all

lemma fromBigInt_Inl:
  "BridgeCallData_fromBigInt v = Inl e \<Longrightarrow>
     extractBigInt v 62 30 \<noteq> 0 \<and> \<not> bit v 152 \<or> extractBigInt v 122 30 \<noteq> 0 \<and> \<not> bit v 153"
  unfolding bitConfig_bits [symmetric]
  by (auto simp: BridgeCallData_fromBigInt_def bridge_offsets Let_def BitConfig_fromBigInt_def split: if_splits)

section \<open>Properties\<close>

text \<open>Encoding a bridge call into its 32 bytes and decoding gives the call back, for every call
  whose fields fit their bit widths; \<open>equals\<close>, which compares the encodings, is then equality.\<close>

theorem bridge_call_roundtrip:
  assumes "valid_bridgeCallData b" "valid_bridgeCallData c"
  shows "BridgeCallData_fromBuffer (BridgeCallData_toBuffer b) = Inr b
    \<and> length (BridgeCallData_toBuffer b) = 32 \<and> (BridgeCallData_equals b c \<longleftrightarrow> b = c)"
  using bridge_codec.dec_enc [OF assms(1) refl, of "[]"] bridge_codec.enc_width [OF assms(1) refl] equals_iff [OF assms]
  by simp

theorem bridge_call_roundtrip_witness:
  "BridgeCallData_fromBuffer (BridgeCallData_toBuffer (newBridgeCallData 3 1 2 (Some 5) None 9))
     = Inr (newBridgeCallData 3 1 2 (Some 5) None 9)"
  using bridge_call_roundtrip [of "newBridgeCallData 3 1 2 (Some 5) None 9" BridgeCallData_ZERO]
  by (simp add: valid_bridgeCallData_def newBridgeCallData_def BridgeCallData_ZERO_def)

text \<open>Decoding succeeds exactly when no second asset is given without its flag, yields fields that
  fit, and is inverted by \<open>toBigInt\<close> on every number without bits above 247 and with a bit
  configuration below 4; the decoder ignores those other bits.\<close>

theorem bridge_call_decode:
  assumes "canonicalBridgeInt v"
  shows "(case BridgeCallData_fromBigInt v of
      Inr b \<Rightarrow> valid_bridgeCallData b \<and> BridgeCallData_toBigInt b = v
    | Inl e \<Rightarrow> extractBigInt v 62 30 \<noteq> 0 \<and> \<not> bit v 152
            \<or> extractBigInt v 122 30 \<noteq> 0 \<and> \<not> bit v 153)"
proof (cases "BridgeCallData_fromBigInt v")
  case (Inr b)
  then show ?thesis using fromBigInt_valid [OF Inr] toBigInt_fromBigInt [OF Inr assms] by simp
next
  case (Inl e)
  show ?thesis unfolding Inl sum.case by (rule fromBigInt_Inl [OF Inl])
qed

theorem bridge_call_decode_witness:
  "BridgeCallData_toBigInt (newBridgeCallData 1 2 3 None None 4) = 1 + 2 * 2 ^ 32 + 3 * 2 ^ 92 + 4 * 2 ^ 184
   \<and> (case BridgeCallData_fromBigInt (1 + 2 * 2 ^ 32 + 3 * 2 ^ 92 + 4 * 2 ^ 184) of
        Inr b \<Rightarrow> valid_bridgeCallData b | Inl e \<Rightarrow> False)"
proof -
  let ?v = "1 + 2 * 2 ^ 32 + 3 * 2 ^ 92 + 4 * 2 ^ 184 :: int"
  have "canonicalBridgeInt ?v" by (simp add: canonicalBridgeInt_def extract_eq)
  from bridge_call_decode [OF this]
  show ?thesis
    by (auto simp: BridgeCallData_toBigInt_def newBridgeCallData_def bridge_offsets BitConfig_toBigInt_def
        extract_eq push_bit_eq_mult split: sum.splits)
qed

end
