(* ===== verification/ClientProofs.thy ===== *)
theory ClientProofs
  imports Ids BridgeCall
begin

text \<open>
  \<open>barretenberg.js/src/client_proofs/proof_data\<close>: the public inputs of a client proof
  (\<open>ProofData\<close>), the proof kinds (\<open>ProofId\<close>), the transaction id and the typed views
  \<open>JoinSplitProofData\<close>, \<open>DefiDepositProofData\<close>, \<open>DefiClaimProofData\<close> and \<open>AccountProofData\<close>.
  The Keccak-256 digest is the parameter \<open>keccak\<close>. A proof id read from a buffer is any 32-bit
  number, so it is an \<open>int\<close>, compared with the constants of the enum.
\<close>

definition PADDING :: int where [simp]: "PADDING = 0"
definition DEPOSIT :: int where [simp]: "DEPOSIT = 1"
definition WITHDRAW :: int where [simp]: "WITHDRAW = 2"
definition SEND :: int where [simp]: "SEND = 3"
definition ACCOUNT :: int where [simp]: "ACCOUNT = 4"
definition DEFI_DEPOSIT :: int where [simp]: "DEFI_DEPOSIT = 5"
definition DEFI_CLAIM :: int where [simp]: "DEFI_CLAIM = 6"

section \<open>Transaction ids\<close>

definition txIdData :: "int \<Rightarrow> buffer \<Rightarrow> buffer" where
  "txIdData proofId rawProofData =
    (if proofId = DEFI_DEPOSIT
     then bslice rawProofData 0 32 @ zeros 32 @ drop (2 * 32) rawProofData
     else rawProofData)"

definition createTxId :: "(buffer \<Rightarrow> buffer) \<Rightarrow> buffer \<Rightarrow> buffer res" where
  "createTxId keccak rawProofData =
     bindE (readUInt32BE rawProofData 28) (\<lambda>proofId. Inr (keccak (txIdData proofId rawProofData)))"

section \<open>ProofData\<close>

record proofData =
  pd_rawProofData :: buffer
  pd_proofId :: int
  pd_noteCommitment1 :: buffer
  pd_noteCommitment2 :: buffer
  pd_nullifier1 :: buffer
  pd_nullifier2 :: buffer
  pd_publicValue :: buffer
  pd_publicOwner :: buffer
  pd_publicAssetId :: buffer
  pd_noteTreeRoot :: buffer
  pd_txFee :: buffer
  pd_txFeeAssetId :: buffer
  pd_bridgeCallData :: buffer
  pd_defiDepositValue :: buffer
  pd_defiRoot :: buffer
  pd_backwardLink :: buffer
  pd_allowChain :: buffer
  pd_cachedTxId :: "buffer option"

text \<open>Field \<open>i\<close> of a proof, of 32 bytes: the offsets of the enum \<open>ProofDataOffsets\<close>.\<close>

definition proofField :: "buffer \<Rightarrow> nat \<Rightarrow> buffer" where
  "proofField raw i = bslice raw (i * 32) (i * 32 + 32)"

definition newProofData :: "buffer \<Rightarrow> buffer option \<Rightarrow> proofData res" where
  "newProofData rawProofData txId =
     bindE (readUInt32BE rawProofData (0 * 32 + 28)) (\<lambda>proofId. Inr
       \<lparr>pd_rawProofData = rawProofData,
        pd_proofId = proofId,
        pd_noteCommitment1 = proofField rawProofData 1,
        pd_noteCommitment2 = proofField rawProofData 2,
        pd_nullifier1 = proofField rawProofData 3,
        pd_nullifier2 = proofField rawProofData 4,
        pd_publicValue = proofField rawProofData 5,
        pd_publicOwner = proofField rawProofData 6,
        pd_publicAssetId = proofField rawProofData 7,
        pd_noteTreeRoot = proofField rawProofData 8,
        pd_txFee = proofField rawProofData 9,
        pd_txFeeAssetId = proofField rawProofData 10,
        pd_bridgeCallData = proofField rawProofData 11,
        pd_defiDepositValue = proofField rawProofData 12,
        pd_defiRoot = proofField rawProofData 13,
        pd_backwardLink = proofField rawProofData 14,
        pd_allowChain = proofField rawProofData 15,
        pd_cachedTxId = txId\<rparr>)"

definition ProofData_getProofIdFromBuffer :: "buffer \<Rightarrow> int res" where
  "ProofData_getProofIdFromBuffer rawProofData = readUInt32BE rawProofData (0 * 32 + 28)"

definition allowChainFromNote1 :: "int \<Rightarrow> bool" where
  "allowChainFromNote1 allowChain = (allowChain \<in> {1, 3})"

definition allowChainFromNote2 :: "int \<Rightarrow> bool" where
  "allowChainFromNote2 allowChain = (allowChain \<in> {2, 3})"

definition ProofData_allowChainFromNote1 :: "proofData \<Rightarrow> bool res" where
  "ProofData_allowChainFromNote1 p = mapR allowChainFromNote1 (readUInt32BE (pd_allowChain p) 28)"

definition ProofData_allowChainFromNote2 :: "proofData \<Rightarrow> bool res" where
  "ProofData_allowChainFromNote2 p = mapR allowChainFromNote2 (readUInt32BE (pd_allowChain p) 28)"

definition ProofData_feeAssetId :: "proofData \<Rightarrow> int res" where
  "ProofData_feeAssetId p = readUInt32BE (pd_txFeeAssetId p) 28"

text \<open>The getter \<open>txId\<close> fills the cache field on its first use.\<close>

definition ProofData_txId :: "(buffer \<Rightarrow> buffer) \<Rightarrow> proofData \<Rightarrow> (buffer \<times> proofData) res" where
  "ProofData_txId keccak p = (case pd_cachedTxId p of
     Some t \<Rightarrow> Inr (t, p)
   | None \<Rightarrow> bindE (createTxId keccak (bslice (pd_rawProofData p) 0 (8 * 32)))
       (\<lambda>t. Inr (t, p\<lparr>pd_cachedTxId := Some t\<rparr>)))"

section \<open>Typed views\<close>

definition JoinSplit_publicAssetId :: "proofData \<Rightarrow> int res" where
  "JoinSplit_publicAssetId p = readUInt32BE (pd_publicAssetId p) 28"

definition JoinSplit_publicValue :: "proofData \<Rightarrow> int" where
  "JoinSplit_publicValue p = toBigIntBE (pd_publicValue p)"

definition JoinSplit_publicOwner :: "proofData \<Rightarrow> ethAddress res" where
  "JoinSplit_publicOwner p = newEthAddress (pd_publicOwner p)"

definition JoinSplit_txFee :: "proofData \<Rightarrow> int" where
  "JoinSplit_txFee p = toBigIntBE (pd_txFee p)"

datatype defiDepositProofData = DefiDepositProofData proofData
datatype defiClaimProofData = DefiClaimProofData proofData
datatype accountProofData = AccountProofData proofData

definition newDefiDepositProofData :: "proofData \<Rightarrow> defiDepositProofData res" where
  "newDefiDepositProofData p =
    (if pd_proofId p \<noteq> DEFI_DEPOSIT then Inl (Thrown ''Not a defi deposit proof.'')
     else Inr (DefiDepositProofData p))"

fun DefiDeposit_txFee :: "defiDepositProofData \<Rightarrow> int" where
  "DefiDeposit_txFee (DefiDepositProofData p) = toBigIntBE (pd_txFee p)"

fun DefiDeposit_bridgeCallData :: "defiDepositProofData \<Rightarrow> bridgeCallData res" where
  "DefiDeposit_bridgeCallData (DefiDepositProofData p) = BridgeCallData_fromBuffer (pd_bridgeCallData p)"

fun DefiDeposit_defiDepositValue :: "defiDepositProofData \<Rightarrow> int" where
  "DefiDeposit_defiDepositValue (DefiDepositProofData p) = toBigIntBE (pd_defiDepositValue p)"

definition newDefiClaimProofData :: "proofData \<Rightarrow> defiClaimProofData res" where
  "newDefiClaimProofData p =
    (if pd_proofId p \<noteq> DEFI_CLAIM then Inl (Thrown ''Not a defi claim proof.'')
     else Inr (DefiClaimProofData p))"

fun DefiClaim_txFee :: "defiClaimProofData \<Rightarrow> int" where
  "DefiClaim_txFee (DefiClaimProofData p) = toBigIntBE (pd_txFee p)"

fun DefiClaim_bridgeCallData :: "defiClaimProofData \<Rightarrow> bridgeCallData res" where
  "DefiClaim_bridgeCallData (DefiClaimProofData p) = BridgeCallData_fromBuffer (pd_bridgeCallData p)"

definition newAccountProofData :: "proofData \<Rightarrow> accountProofData res" where
  "newAccountProofData p =
    (if pd_proofId p \<noteq> ACCOUNT then Inl (Thrown ''Not an account proof.'') else Inr (AccountProofData p))"

section \<open>Lemmas\<close>

lemma newProofData_total: "32 \<le> length raw \<Longrightarrow> \<exists>p. newProofData raw t = Inr p"
  by (simp add: newProofData_def readUInt32BE_def)

lemma length_proofField: "32 * (i + 1) \<le> length raw \<Longrightarrow> length (proofField raw i) = 32"
  by (simp add: proofField_def length_bslice_in)

text \<open>The transaction id depends on the published fields only, and for a DeFi deposit not on
  the first note commitment.\<close>

lemma createTxId_published:
  assumes "newProofData raw None = Inr p" "256 \<le> length raw"
  shows "ProofData_txId keccak p = mapR (\<lambda>t. (t, p\<lparr>pd_cachedTxId := Some t\<rparr>)) (createTxId keccak (take 256 raw))"
  using assms by (auto simp: newProofData_def ProofData_txId_def bindE_eq_Inr mapR_def)

lemma txId_cached:
  "ProofData_txId keccak p = Inr (t, p') \<Longrightarrow> ProofData_txId keccak p' = Inr (t, p')"
  by (auto simp: ProofData_txId_def bindE_eq_Inr split: option.splits)

lemma bslice_overwrite:
  assumes "length x = 32" "length y = 32" "length a = 32"
  shows "txIdData DEFI_DEPOSIT (a @ x @ r) = txIdData DEFI_DEPOSIT (a @ y @ r)"
  using assms by (simp add: txIdData_def)

lemma createTxId_defi_commitment1:
  assumes "length a = 32" "length x = 32" "length y = 32" "be_value (drop 28 a) = 5"
  shows "createTxId keccak (a @ x @ r) = createTxId keccak (a @ y @ r)"
proof -
  have "readUInt32BE (a @ z) 28 = Inr 5" for z
    using assms by (simp add: readUInt32BE_def bslice_def)
  then show ?thesis using bslice_overwrite [OF assms(2,3,1), of r] by (simp add: createTxId_def)
qed

section \<open>Properties\<close>

text \<open>The id of a transaction is computed from its 256 published bytes; replacing the first note
  commitment of a DeFi deposit (which the rollup circuit completes) does not change it.\<close>

theorem defi_tx_id_ignores_commitment1:
  assumes "length a = 32" "length x = 32" "length y = 32" "length r = 192" "be_value (drop 28 a) = 5"
    and "newProofData (a @ x @ r @ hidden) None = Inr p" "newProofData (a @ y @ r @ hidden') None = Inr q"
  shows "mapR fst (ProofData_txId keccak p) = mapR fst (ProofData_txId keccak q)
    \<and> mapR fst (ProofData_txId keccak p) = createTxId keccak (a @ x @ r)"
proof -
  have t: "mapR fst (mapR (\<lambda>t. (t, z)) m) = m" for m :: "buffer res" and z :: proofData
    by (cases m) simp_all
  have "mapR fst (ProofData_txId keccak p) = createTxId keccak (a @ x @ r)"
    "mapR fst (ProofData_txId keccak q) = createTxId keccak (a @ y @ r)"
    using createTxId_published [OF assms(6), of keccak] createTxId_published [OF assms(7), of keccak] assms(1-4)
    by (auto simp: mapR_def bindE_def split: sum.splits)
  then show ?thesis using createTxId_defi_commitment1 [OF assms(1-3,5)] by simp
qed

theorem defi_tx_id_ignores_commitment1_witness:
  "\<exists>p q. newProofData ((zeros 31 @ [5]) @ zeros 32 @ zeros 192 @ []) None = Inr p
      \<and> newProofData ((zeros 31 @ [5]) @ replicate 32 1 @ zeros 192 @ []) None = Inr q
      \<and> mapR fst (ProofData_txId (take 40) p) = mapR fst (ProofData_txId (take 40) q)"
proof -
  obtain p q where p: "newProofData ((zeros 31 @ [5]) @ zeros 32 @ zeros 192 @ []) None = Inr p"
    and q: "newProofData ((zeros 31 @ [5]) @ replicate 32 1 @ zeros 192 @ []) None = Inr q"
    using newProofData_total [of "(zeros 31 @ [5]) @ zeros 32 @ zeros 192 @ []" None]
      newProofData_total [of "(zeros 31 @ [5]) @ replicate 32 1 @ zeros 192 @ []" None] by auto
  have "be_value (drop 28 (zeros 31 @ [5])) = 5"
    by (simp add: be_value_pad [of 3 "[5]"] del: be_value_snoc) (simp add: be_value_def)
  from defi_tx_id_ignores_commitment1 [OF _ _ _ _ this p q, of "take 40"] p q show ?thesis by auto
qed

end
