(* ===== verification/InnerProof.thy ===== *)
theory InnerProof
  imports ClientProofs
begin

text \<open>
  \<open>barretenberg.js/src/rollup_proof\<close>, the inner proofs of a rollup: \<open>InnerProofData\<close> with its
  256-byte public-input format, the seven \<open>Rollup...ProofData\<close> classes with the compressed
  format published on chain, and \<open>decodeInnerProof\<close>/\<open>encodeInnerProof\<close>, which dispatch on the
  proof id. The compressed format of a private proof (send, account, DeFi deposit and claim)
  drops its public fields; \<open>publishedProof\<close> says what is left, and the round trip returns it.
\<close>

section \<open>InnerProofData\<close>

record innerProofData =
  ip_proofId :: int
  ip_noteCommitment1 :: buffer
  ip_noteCommitment2 :: buffer
  ip_nullifier1 :: buffer
  ip_nullifier2 :: buffer
  ip_publicValue :: buffer
  ip_publicOwner :: buffer
  ip_publicAssetId :: buffer

definition newInnerProofData ::
  "int \<Rightarrow> buffer \<Rightarrow> buffer \<Rightarrow> buffer \<Rightarrow> buffer \<Rightarrow> buffer \<Rightarrow> buffer \<Rightarrow> buffer \<Rightarrow> innerProofData" where
  "newInnerProofData proofId nc1 nc2 nul1 nul2 publicValue publicOwner publicAssetId =
     \<lparr>ip_proofId = proofId, ip_noteCommitment1 = nc1, ip_noteCommitment2 = nc2, ip_nullifier1 = nul1,
      ip_nullifier2 = nul2, ip_publicValue = publicValue, ip_publicOwner = publicOwner,
      ip_publicAssetId = publicAssetId\<rparr>"

definition InnerProofData_LENGTH :: nat where
  "InnerProofData_LENGTH = 8 * 32"

definition InnerProofData_toBuffer :: "innerProofData \<Rightarrow> buffer res" where
  "InnerProofData_toBuffer p =
     bindE (numToUInt32BE (ip_proofId p) 32) (\<lambda>proofId. Inr (concat
       [proofId, ip_noteCommitment1 p, ip_noteCommitment2 p, ip_nullifier1 p, ip_nullifier2 p,
        ip_publicValue p, ip_publicOwner p, ip_publicAssetId p]))"

definition InnerProofData_fromBuffer :: "buffer \<Rightarrow> innerProofData res" where
  "InnerProofData_fromBuffer innerPublicInputs =
     bindE (readUInt32BE innerPublicInputs 28) (\<lambda>proofId. Inr (newInnerProofData proofId
       (bslice innerPublicInputs 32 64) (bslice innerPublicInputs 64 96)
       (bslice innerPublicInputs 96 128) (bslice innerPublicInputs 128 160)
       (bslice innerPublicInputs 160 192) (bslice innerPublicInputs 192 224)
       (bslice innerPublicInputs 224 256)))"

definition InnerProofData_isPadding :: "innerProofData \<Rightarrow> bool" where
  "InnerProofData_isPadding p = (ip_proofId p = PADDING)"

text \<open>The value of \<open>InnerProofData.PADDING\<close>, read from 256 zero bytes.\<close>

definition InnerProofData_PADDING :: innerProofData where
  "InnerProofData_PADDING = newInnerProofData 0 (zeros 32) (zeros 32) (zeros 32) (zeros 32)
     (zeros 32) (zeros 32) (zeros 32)"

definition InnerProofData_txId :: "(buffer \<Rightarrow> buffer) \<Rightarrow> innerProofData \<Rightarrow> buffer res" where
  "InnerProofData_txId keccak p = bindE (InnerProofData_toBuffer p) (createTxId keccak)"

definition valid_innerProof :: "innerProofData \<Rightarrow> bool" where
  "valid_innerProof p \<longleftrightarrow> 0 \<le> ip_proofId p \<and> ip_proofId p < 2 ^ 32
     \<and> length (ip_noteCommitment1 p) = 32 \<and> length (ip_noteCommitment2 p) = 32
     \<and> length (ip_nullifier1 p) = 32 \<and> length (ip_nullifier2 p) = 32
     \<and> length (ip_publicValue p) = 32 \<and> length (ip_publicOwner p) = 32
     \<and> length (ip_publicAssetId p) = 32"

section \<open>The published formats\<close>

datatype rollupInnerProof =
    RollupPaddingProofData (rip_proofData: innerProofData)
  | RollupDepositProofData (rip_proofData: innerProofData)
  | RollupWithdrawProofData (rip_proofData: innerProofData)
  | RollupSendProofData (rip_proofData: innerProofData)
  | RollupAccountProofData (rip_proofData: innerProofData)
  | RollupDefiDepositProofData (rip_proofData: innerProofData)
  | RollupDefiClaimProofData (rip_proofData: innerProofData)

fun ENCODED_LENGTH :: "rollupInnerProof \<Rightarrow> nat" where
  "ENCODED_LENGTH (RollupPaddingProofData p) = 1"
| "ENCODED_LENGTH (RollupDepositProofData p) = 1 + 5 * 32 + 20 + 4"
| "ENCODED_LENGTH (RollupWithdrawProofData p) = 1 + 5 * 32 + 20 + 4"
| "ENCODED_LENGTH (RollupSendProofData p) = 1 + 4 * 32"
| "ENCODED_LENGTH (RollupAccountProofData p) = 1 + 4 * 32"
| "ENCODED_LENGTH (RollupDefiDepositProofData p) = 1 + 4 * 32"
| "ENCODED_LENGTH (RollupDefiClaimProofData p) = 1 + 4 * 32"

definition newRollupPaddingProofData :: "innerProofData \<Rightarrow> rollupInnerProof res" where
  "newRollupPaddingProofData p = (if ip_proofId p \<noteq> PADDING then Inl (Thrown ''Not a padding proof.'')
     else Inr (RollupPaddingProofData p))"

definition newRollupDepositProofData :: "innerProofData \<Rightarrow> rollupInnerProof res" where
  "newRollupDepositProofData p = (if ip_proofId p \<noteq> DEPOSIT then Inl (Thrown ''Not a deposit proof.'')
     else Inr (RollupDepositProofData p))"

definition newRollupWithdrawProofData :: "innerProofData \<Rightarrow> rollupInnerProof res" where
  "newRollupWithdrawProofData p = (if ip_proofId p \<noteq> WITHDRAW then Inl (Thrown ''Not a withdraw proof.'')
     else Inr (RollupWithdrawProofData p))"

definition newRollupSendProofData :: "innerProofData \<Rightarrow> rollupInnerProof res" where
  "newRollupSendProofData p = (if ip_proofId p \<noteq> SEND then Inl (Thrown ''Not a send proof.'')
     else Inr (RollupSendProofData p))"

definition newRollupAccountProofData :: "innerProofData \<Rightarrow> rollupInnerProof res" where
  "newRollupAccountProofData p = (if ip_proofId p \<noteq> ACCOUNT then Inl (Thrown ''Not an account proof.'')
     else Inr (RollupAccountProofData p))"

definition newRollupDefiDepositProofData :: "innerProofData \<Rightarrow> rollupInnerProof res" where
  "newRollupDefiDepositProofData p =
    (if ip_proofId p \<noteq> DEFI_DEPOSIT then Inl (Thrown ''Not a defi deposit proof.'')
     else Inr (RollupDefiDepositProofData p))"

definition newRollupDefiClaimProofData :: "innerProofData \<Rightarrow> rollupInnerProof res" where
  "newRollupDefiClaimProofData p =
    (if ip_proofId p \<noteq> DEFI_CLAIM then Inl (Thrown ''Not a defi claim proof.'')
     else Inr (RollupDefiClaimProofData p))"

text \<open>The fields a private proof is decoded from, and the two public fields of a deposit or
  withdrawal: an address of 20 bytes and an asset id of 4.\<close>

definition decodePrivateFields :: "int \<Rightarrow> buffer \<Rightarrow> innerProofData" where
  "decodePrivateFields proofId encoded =
     newInnerProofData proofId (bslice encoded 1 33) (bslice encoded 33 65) (bslice encoded 65 97)
       (bslice encoded 97 129) (zeros 32) (zeros 32) (zeros 32)"

definition decodePublicFields :: "int \<Rightarrow> buffer \<Rightarrow> innerProofData" where
  "decodePublicFields proofId encoded =
     newInnerProofData proofId (bslice encoded 1 33) (bslice encoded 33 65) (bslice encoded 65 97)
       (bslice encoded 97 129) (bslice encoded 129 161)
       (zeros 12 @ bslice encoded 161 181) (zeros 28 @ bslice encoded 181 185)"

definition RollupPaddingProofData_decode :: "buffer \<Rightarrow> rollupInnerProof res" where
  "RollupPaddingProofData_decode encoded =
     bindE (readUInt8 encoded 0) (\<lambda>proofId.
       if proofId \<noteq> PADDING then Inl (Thrown ''Not a padding proof.'')
       else newRollupPaddingProofData (newInnerProofData PADDING (zeros 32) (zeros 32) (zeros 32)
              (zeros 32) (zeros 32) (zeros 32) (zeros 32)))"

definition RollupDepositProofData_decode :: "buffer \<Rightarrow> rollupInnerProof res" where
  "RollupDepositProofData_decode encoded =
     bindE (readUInt8 encoded 0) (\<lambda>proofId.
       if proofId \<noteq> DEPOSIT then Inl (Thrown ''Not a deposit proof.'')
       else newRollupDepositProofData (decodePublicFields DEPOSIT encoded))"

definition RollupWithdrawProofData_decode :: "buffer \<Rightarrow> rollupInnerProof res" where
  "RollupWithdrawProofData_decode encoded =
     bindE (readUInt8 encoded 0) (\<lambda>proofId.
       if proofId \<noteq> WITHDRAW then Inl (Thrown ''Not a withdraw proof.'')
       else newRollupWithdrawProofData (decodePublicFields WITHDRAW encoded))"

definition RollupSendProofData_decode :: "buffer \<Rightarrow> rollupInnerProof res" where
  "RollupSendProofData_decode encoded =
     bindE (readUInt8 encoded 0) (\<lambda>proofId.
       if proofId \<noteq> SEND then Inl (Thrown ''Not a send proof.'')
       else newRollupSendProofData (decodePrivateFields SEND encoded))"

definition RollupAccountProofData_decode :: "buffer \<Rightarrow> rollupInnerProof res" where
  "RollupAccountProofData_decode encoded =
     bindE (readUInt8 encoded 0) (\<lambda>proofId.
       if proofId \<noteq> ACCOUNT then Inl (Thrown ''Not an account proof.'')
       else newRollupAccountProofData (decodePrivateFields ACCOUNT encoded))"

definition RollupDefiDepositProofData_decode :: "buffer \<Rightarrow> rollupInnerProof res" where
  "RollupDefiDepositProofData_decode encoded =
     bindE (readUInt8 encoded 0) (\<lambda>proofId.
       if proofId \<noteq> DEFI_DEPOSIT then Inl (Thrown ''Not a defi deposit proof.'')
       else newRollupDefiDepositProofData (decodePrivateFields DEFI_DEPOSIT encoded))"

definition RollupDefiClaimProofData_decode :: "buffer \<Rightarrow> rollupInnerProof res" where
  "RollupDefiClaimProofData_decode encoded =
     bindE (readUInt8 encoded 0) (\<lambda>proofId.
       if proofId \<noteq> DEFI_CLAIM then Inl (Thrown ''Not a defi claim proof.'')
       else newRollupDefiClaimProofData (decodePrivateFields DEFI_CLAIM encoded))"

text \<open>\<open>Buffer.from([proofId])\<close>: one byte.\<close>

definition idByte :: "int \<Rightarrow> buffer" where
  "idByte n = [word_of_int n]"

definition encodePrivate :: "int \<Rightarrow> innerProofData \<Rightarrow> buffer" where
  "encodePrivate proofId p = concat [idByte proofId, ip_noteCommitment1 p, ip_noteCommitment2 p,
     ip_nullifier1 p, ip_nullifier2 p]"

definition encodePublic :: "int \<Rightarrow> innerProofData \<Rightarrow> buffer res" where
  "encodePublic proofId p =
     bindE (newEthAddress (ip_publicOwner p)) (\<lambda>publicOwner. Inr (concat
       [idByte proofId, ip_noteCommitment1 p, ip_noteCommitment2 p, ip_nullifier1 p, ip_nullifier2 p,
        ip_publicValue p, EthAddress_toBuffer publicOwner, bslice (ip_publicAssetId p) 28 32]))"

definition RollupPaddingProofData_encode :: "innerProofData \<Rightarrow> buffer res" where
  [simp]: "RollupPaddingProofData_encode p = Inr (idByte PADDING)"

definition RollupDepositProofData_encode :: "innerProofData \<Rightarrow> buffer res" where
  [simp]: "RollupDepositProofData_encode p = encodePublic DEPOSIT p"

definition RollupWithdrawProofData_encode :: "innerProofData \<Rightarrow> buffer res" where
  [simp]: "RollupWithdrawProofData_encode p = encodePublic WITHDRAW p"

definition RollupSendProofData_encode :: "innerProofData \<Rightarrow> buffer res" where
  [simp]: "RollupSendProofData_encode p = Inr (encodePrivate SEND p)"

definition RollupAccountProofData_encode :: "innerProofData \<Rightarrow> buffer res" where
  [simp]: "RollupAccountProofData_encode p = Inr (encodePrivate ACCOUNT p)"

definition RollupDefiDepositProofData_encode :: "innerProofData \<Rightarrow> buffer res" where
  [simp]: "RollupDefiDepositProofData_encode p = Inr (encodePrivate DEFI_DEPOSIT p)"

definition RollupDefiClaimProofData_encode :: "innerProofData \<Rightarrow> buffer res" where
  [simp]: "RollupDefiClaimProofData_encode p = Inr (encodePrivate DEFI_CLAIM p)"

fun RollupProof_encode :: "rollupInnerProof \<Rightarrow> buffer res" where
  "RollupProof_encode (RollupPaddingProofData p) = RollupPaddingProofData_encode p"
| "RollupProof_encode (RollupDepositProofData p) = RollupDepositProofData_encode p"
| "RollupProof_encode (RollupWithdrawProofData p) = RollupWithdrawProofData_encode p"
| "RollupProof_encode (RollupSendProofData p) = RollupSendProofData_encode p"
| "RollupProof_encode (RollupAccountProofData p) = RollupAccountProofData_encode p"
| "RollupProof_encode (RollupDefiDepositProofData p) = RollupDefiDepositProofData_encode p"
| "RollupProof_encode (RollupDefiClaimProofData p) = RollupDefiClaimProofData_encode p"

text \<open>The getters of deposit and withdrawal proofs, and of the DeFi proofs.\<close>

definition RollupProof_assetId :: "innerProofData \<Rightarrow> int res" where
  "RollupProof_assetId p = readUInt32BE (ip_publicAssetId p) 28"

definition RollupProof_publicValue :: "innerProofData \<Rightarrow> int" where
  "RollupProof_publicValue p = toBigIntBE (ip_publicValue p)"

definition RollupProof_publicOwner :: "innerProofData \<Rightarrow> ethAddress res" where
  "RollupProof_publicOwner p = newEthAddress (ip_publicOwner p)"

definition RollupDefi_bridgeCallData :: "innerProofData \<Rightarrow> bridgeCallData res" where
  "RollupDefi_bridgeCallData p = BridgeCallData_fromBuffer (ip_publicAssetId p)"

section \<open>Dispatch on the proof id\<close>

definition decodeProofId :: "buffer \<Rightarrow> int res" where
  "decodeProofId encoded = readUInt8 encoded 0"

text \<open>\<open>recoverProof\<close> returns \<open>undefined\<close> for an unknown id; the first use of the result of
  \<open>decodeInnerProof\<close> (or of \<open>recoverInnerProof\<close>) then throws a \<open>TypeError\<close>.\<close>

definition decodeInnerProof :: "buffer \<Rightarrow> rollupInnerProof res" where
  "decodeInnerProof encoded =
     bindE (decodeProofId encoded) (\<lambda>proofId.
       if proofId = DEPOSIT then RollupDepositProofData_decode encoded
       else if proofId = WITHDRAW then RollupWithdrawProofData_decode encoded
       else if proofId = SEND then RollupSendProofData_decode encoded
       else if proofId = ACCOUNT then RollupAccountProofData_decode encoded
       else if proofId = DEFI_DEPOSIT then RollupDefiDepositProofData_decode encoded
       else if proofId = DEFI_CLAIM then RollupDefiClaimProofData_decode encoded
       else if proofId = PADDING then RollupPaddingProofData_decode encoded
       else Inl TypeError)"

definition recoverInnerProof :: "innerProofData \<Rightarrow> rollupInnerProof res" where
  "recoverInnerProof p =
    (if ip_proofId p = DEPOSIT then newRollupDepositProofData p
     else if ip_proofId p = WITHDRAW then newRollupWithdrawProofData p
     else if ip_proofId p = SEND then newRollupSendProofData p
     else if ip_proofId p = ACCOUNT then newRollupAccountProofData p
     else if ip_proofId p = DEFI_DEPOSIT then newRollupDefiDepositProofData p
     else if ip_proofId p = DEFI_CLAIM then newRollupDefiClaimProofData p
     else if ip_proofId p = PADDING then newRollupPaddingProofData p
     else Inl TypeError)"

definition encodeInnerProof :: "innerProofData \<Rightarrow> buffer res" where
  "encodeInnerProof p = bindE (recoverInnerProof p) RollupProof_encode"

definition getEncodedProofSizeForId :: "int \<Rightarrow> nat option" where
  "getEncodedProofSizeForId proofId =
    (if proofId = DEPOSIT \<or> proofId = WITHDRAW then Some (1 + 5 * 32 + 20 + 4)
     else if proofId = SEND \<or> proofId = ACCOUNT \<or> proofId = DEFI_DEPOSIT \<or> proofId = DEFI_CLAIM
       then Some (1 + 4 * 32)
     else if proofId = PADDING then Some 1
     else None)"

section \<open>Lemmas\<close>

lemma numToUInt32BE_32:
  "numToUInt32BE n 32 = Inr b \<longleftrightarrow> 0 \<le> n \<and> n < 2 ^ 32 \<and> b = zeros 28 @ be_bytes 4 (nat n)"
  by (auto simp: numToUInt32BE_def mapR_eq_Inr writeUInt32BE_eq_Inr)

lemma numToUInt32BE_4:
  "numToUInt32BE n 4 = Inr b \<longleftrightarrow> 0 \<le> n \<and> n < 2 ^ 32 \<and> b = be_bytes 4 (nat n)"
  by (auto simp: numToUInt32BE_def mapR_eq_Inr writeUInt32BE_eq_Inr)

lemma word32_read:
  assumes "length b = 32" "readUInt32BE b 28 = Inr n" "take 28 b = zeros 28"
  shows "numToUInt32BE n 32 = Inr b"
proof -
  have "b = zeros 28 @ bslice b 28 32"
    using assms bslice_concat [of 0 28 32 b] by simp
  moreover have "writeUInt32BE n = Inr (bslice b 28 32)"
    using readUInt32BE_at [of b 28 n] assms by (simp add: length_bslice)
  ultimately show ?thesis
    using numToUInt32BE_32 [of n b] by (metis writeUInt32BE_eq_Inr)
qed

interpretation inner_proof_codec: fixed_codec
  InnerProofData_toBuffer "\<lambda>b. InnerProofData_fromBuffer (bslice b 0 256)" valid_innerProof 256
proof unfold_locales
  fix x :: innerProofData and b rest assume v: "valid_innerProof x"
  then show "isOk (InnerProofData_toBuffer x)"
    by (simp add: InnerProofData_toBuffer_def valid_innerProof_def numToUInt32BE_def)
  assume "InnerProofData_toBuffer x = Inr b"
  then have b: "b = zeros 28 @ be_bytes 4 (nat (ip_proofId x)) @ ip_noteCommitment1 x @ ip_noteCommitment2 x
      @ ip_nullifier1 x @ ip_nullifier2 x @ ip_publicValue x @ ip_publicOwner x @ ip_publicAssetId x"
    by (auto simp: InnerProofData_toBuffer_def bindE_eq_Inr numToUInt32BE_32)
  then show len: "length b = 256" using v by (simp add: valid_innerProof_def)
  show "InnerProofData_fromBuffer (bslice (b @ rest) 0 256) = Inr x"
    using v len unfolding b
    by (simp add: InnerProofData_fromBuffer_def readUInt32BE_def bslice_def valid_innerProof_def
        newInnerProofData_def)
qed

text \<open>What the compressed format keeps of a proof.\<close>

definition publishedProof :: "innerProofData \<Rightarrow> innerProofData" where
  "publishedProof p =
    (if ip_proofId p = PADDING then InnerProofData_PADDING
     else if ip_proofId p = DEPOSIT \<or> ip_proofId p = WITHDRAW
     then p\<lparr>ip_publicAssetId := zeros 28 @ drop 28 (ip_publicAssetId p)\<rparr>
     else p\<lparr>ip_publicValue := zeros 32, ip_publicOwner := zeros 32, ip_publicAssetId := zeros 32\<rparr>)"

definition knownProof :: "innerProofData \<Rightarrow> bool" where
  "knownProof p \<longleftrightarrow> valid_innerProof p \<and> ip_proofId p \<le> DEFI_CLAIM
     \<and> (ip_proofId p = DEPOSIT \<or> ip_proofId p = WITHDRAW \<longrightarrow> take 12 (ip_publicOwner p) = zeros 12)"

fun proofClass :: "int \<Rightarrow> innerProofData \<Rightarrow> rollupInnerProof" where
  "proofClass proofId =
    (if proofId = DEPOSIT then RollupDepositProofData
     else if proofId = WITHDRAW then RollupWithdrawProofData
     else if proofId = SEND then RollupSendProofData
     else if proofId = ACCOUNT then RollupAccountProofData
     else if proofId = DEFI_DEPOSIT then RollupDefiDepositProofData
     else if proofId = DEFI_CLAIM then RollupDefiClaimProofData
     else RollupPaddingProofData)"

lemma proofClass_simps [simp]:
  "proofClass 0 = RollupPaddingProofData" "proofClass 1 = RollupDepositProofData"
  "proofClass 2 = RollupWithdrawProofData" "proofClass 3 = RollupSendProofData"
  "proofClass 4 = RollupAccountProofData" "proofClass 5 = RollupDefiDepositProofData"
  "proofClass 6 = RollupDefiClaimProofData"
  by (auto simp: fun_eq_iff)

declare proofClass.simps [simp del]

lemma proofId_cases: "knownProof p \<Longrightarrow> ip_proofId p \<in> {0, 1, 2, 3, 4, 5, 6}"
  by (auto simp: knownProof_def valid_innerProof_def)

lemma readUInt8_idByte:
  "0 \<le> n \<Longrightarrow> n < 256 \<Longrightarrow> readUInt8 (idByte n @ rest) 0 = Inr n"
  by (simp add: readUInt8_def idByte_def be_value_def uint_word_of_int_eq take_bit_int_eq_self)

lemma readUInt8_idByte_Cons: "readUInt8 (word_of_int n # rest) 0 = readUInt8 (idByte n @ rest) 0"
  by (simp add: idByte_def)

lemma decodePrivateFields_encode:
  assumes "valid_innerProof p"
  shows "decodePrivateFields n (encodePrivate m p @ rest)
     = p\<lparr>ip_proofId := n, ip_publicValue := zeros 32, ip_publicOwner := zeros 32, ip_publicAssetId := zeros 32\<rparr>"
  using assms by (cases p)
    (simp add: decodePrivateFields_def encodePrivate_def idByte_def bslice_def newInnerProofData_def
      valid_innerProof_def)

lemma encodePublic_eq:
  assumes "valid_innerProof p" "take 12 (ip_publicOwner p) = zeros 12"
  shows "encodePublic m p = Inr (idByte m @ ip_noteCommitment1 p @ ip_noteCommitment2 p @ ip_nullifier1 p
      @ ip_nullifier2 p @ ip_publicValue p @ drop 12 (ip_publicOwner p) @ drop 28 (ip_publicAssetId p))"
  using assms
  by (simp add: encodePublic_def newEthAddress_def EthAddress_toBuffer_def valid_innerProof_def bslice_def)

lemma decodePublicFields_encode:
  assumes v: "valid_innerProof p" "take 12 (ip_publicOwner p) = zeros 12"
    and "encodePublic m p = Inr b"
  shows "decodePublicFields n (b @ rest)
     = p\<lparr>ip_proofId := n, ip_publicAssetId := zeros 28 @ drop 28 (ip_publicAssetId p)\<rparr>"
proof -
  have o: "zeros 12 @ drop 12 (ip_publicOwner p) = ip_publicOwner p"
    by (metis append_take_drop_id v(2))
  have b: "b = idByte m @ ip_noteCommitment1 p @ ip_noteCommitment2 p @ ip_nullifier1 p
      @ ip_nullifier2 p @ ip_publicValue p @ drop 12 (ip_publicOwner p) @ drop 28 (ip_publicAssetId p)"
    using assms encodePublic_eq by simp
  show ?thesis unfolding b using v(1) o
    by (cases p) (simp add: decodePublicFields_def idByte_def bslice_def newInnerProofData_def
      valid_innerProof_def)
qed

lemma encodePublic_first: "encodePublic n p = Inr b \<Longrightarrow> \<exists>r. b = idByte n @ r"
  by (auto simp: encodePublic_def bindE_eq_Inr)

lemma encodePrivate_first: "encodePrivate n p = idByte n @ drop 1 (encodePrivate n p)"
  by (simp add: encodePrivate_def idByte_def)

lemmas new_proof_defs = newRollupPaddingProofData_def newRollupDepositProofData_def
  newRollupWithdrawProofData_def newRollupSendProofData_def newRollupAccountProofData_def
  newRollupDefiDepositProofData_def newRollupDefiClaimProofData_def

lemmas decode_proof_defs = RollupPaddingProofData_decode_def RollupDepositProofData_decode_def
  RollupWithdrawProofData_decode_def RollupSendProofData_decode_def RollupAccountProofData_decode_def
  RollupDefiDepositProofData_decode_def RollupDefiClaimProofData_decode_def

lemma recoverInnerProof_known:
  "knownProof p \<Longrightarrow> recoverInnerProof p = Inr (proofClass (ip_proofId p) p)"
  using proofId_cases [of p] by (auto simp: recoverInnerProof_def new_proof_defs)

lemma encodeInnerProof_total: "knownProof p \<Longrightarrow> \<exists>b. encodeInnerProof p = Inr b"
  using proofId_cases [of p] encodePublic_eq [of p]
  by (auto simp: encodeInnerProof_def recoverInnerProof_known knownProof_def)

lemma decode_private:
  assumes v: "valid_innerProof p" and n: "n \<in> {3, 4, 5, 6}"
  shows "decodeInnerProof (encodePrivate n p @ rest)
    = Inr (proofClass n (p\<lparr>ip_proofId := n, ip_publicValue := zeros 32, ip_publicOwner := zeros 32,
        ip_publicAssetId := zeros 32\<rparr>))"
proof -
  have r: "readUInt8 (encodePrivate n p @ rest) 0 = Inr n"
    using n by (subst encodePrivate_first) (auto simp: readUInt8_idByte)
  show ?thesis using n r
    by (auto simp: decodeInnerProof_def decodeProofId_def decode_proof_defs new_proof_defs
        decodePrivateFields_encode [OF v])
qed

lemma decode_public:
  assumes v: "valid_innerProof p" "take 12 (ip_publicOwner p) = zeros 12"
    and n: "n \<in> {1, 2}" and b: "encodePublic n p = Inr b"
  shows "decodeInnerProof (b @ rest)
    = Inr (proofClass n (p\<lparr>ip_proofId := n, ip_publicAssetId := zeros 28 @ drop 28 (ip_publicAssetId p)\<rparr>))"
proof -
  have r: "readUInt8 (b @ rest) 0 = Inr n"
    using n encodePublic_first [OF b] by (auto simp: readUInt8_idByte)
  show ?thesis using n r
    by (auto simp: decodeInnerProof_def decodeProofId_def decode_proof_defs new_proof_defs
        decodePublicFields_encode [OF v b])
qed

lemma decode_padding:
  "decodeInnerProof (idByte 0 @ rest) = Inr (RollupPaddingProofData InnerProofData_PADDING)"
proof -
  have "readUInt8 (idByte 0 @ rest) 0 = Inr 0" by (rule readUInt8_idByte) simp_all
  then show ?thesis
    by (simp add: decodeInnerProof_def decodeProofId_def decode_proof_defs new_proof_defs
        InnerProofData_PADDING_def newInnerProofData_def)
qed

lemma publishedProof_id: "knownProof p \<Longrightarrow> ip_proofId (publishedProof p) = ip_proofId p"
  by (simp add: publishedProof_def InnerProofData_PADDING_def newInnerProofData_def)

lemma decode_encode_inner:
  assumes k: "knownProof p" and b: "encodeInnerProof p = Inr b"
  shows "decodeInnerProof (b @ rest) = Inr (proofClass (ip_proofId p) (publishedProof p))"
proof -
  have v: "valid_innerProof p" using k by (simp add: knownProof_def)
  have e: "RollupProof_encode (proofClass (ip_proofId p) p) = Inr b"
    using b by (simp add: encodeInnerProof_def recoverInnerProof_known [OF k])
  consider (priv) "ip_proofId p \<in> {3, 4, 5, 6}" | (pub) "ip_proofId p \<in> {1, 2}" | (pad) "ip_proofId p = 0"
    using proofId_cases [OF k] by blast
  then show ?thesis
  proof cases
    case priv
    then have "b = encodePrivate (ip_proofId p) p" using e by auto
    moreover have "publishedProof p = p\<lparr>ip_proofId := ip_proofId p, ip_publicValue := zeros 32,
        ip_publicOwner := zeros 32, ip_publicAssetId := zeros 32\<rparr>"
      using priv by (auto simp: publishedProof_def)
    ultimately show ?thesis using decode_private [OF v priv] by simp
  next
    case pub
    then have "encodePublic (ip_proofId p) p = Inr b" using e by auto
    moreover have "publishedProof p = p\<lparr>ip_proofId := ip_proofId p,
        ip_publicAssetId := zeros 28 @ drop 28 (ip_publicAssetId p)\<rparr>"
      using pub by (auto simp: publishedProof_def)
    moreover have "take 12 (ip_publicOwner p) = zeros 12" using k pub by (auto simp: knownProof_def)
    ultimately show ?thesis using decode_public [OF v _ pub] by simp
  next
    case pad
    then show ?thesis using e decode_padding by (simp add: publishedProof_def)
  qed
qed

lemma encoded_length:
  assumes k: "knownProof p" and b: "encodeInnerProof p = Inr b"
  shows "length b = ENCODED_LENGTH (proofClass (ip_proofId p) q)"
proof -
  have e: "RollupProof_encode (proofClass (ip_proofId p) p) = Inr b"
    using b by (simp add: encodeInnerProof_def recoverInnerProof_known [OF k])
  have v: "valid_innerProof p" using k by (simp add: knownProof_def)
  show ?thesis
    using proofId_cases [OF k] e k v encodePublic_eq [OF v]
    by (auto simp: encodePrivate_def idByte_def knownProof_def valid_innerProof_def)
qed

lemma encoded_length_by_id:
  "knownProof p \<Longrightarrow> getEncodedProofSizeForId (ip_proofId p) = Some (ENCODED_LENGTH (proofClass (ip_proofId p) q))"
  using proofId_cases [of p] by (auto simp: getEncodedProofSizeForId_def)

lemma ENCODED_LENGTH_pos [simp]: "0 < ENCODED_LENGTH r"
  by (cases r) simp_all

lemma rip_proofData_proofClass [simp]: "rip_proofData (proofClass n p) = p"
  by (simp add: proofClass.simps)

section \<open>Properties\<close>

text \<open>The compressed encoding of every well-formed inner proof decodes, in front of any other data,
  to the class of its proof id holding what the format publishes, and its length is the
  \<open>ENCODED_LENGTH\<close> of that class and the size \<open>getEncodedProofSizeForId\<close> reports.\<close>

theorem inner_proof_encode_decode:
  assumes "knownProof p"
  shows "\<exists>b. encodeInnerProof p = Inr b
    \<and> decodeInnerProof (b @ rest) = Inr (proofClass (ip_proofId p) (publishedProof p))
    \<and> getEncodedProofSizeForId (ip_proofId p) = Some (length b)"
  using encodeInnerProof_total [OF assms] decode_encode_inner [OF assms] encoded_length [OF assms]
    encoded_length_by_id [OF assms] by auto

theorem inner_proof_encode_decode_witness:
  "\<exists>b. encodeInnerProof (newInnerProofData 2 (zeros 32) (zeros 32) (zeros 32) (zeros 32) (zeros 32)
          (zeros 12 @ replicate 20 9) (zeros 31 @ [1])) = Inr b \<and> length b = 185"
proof -
  let ?p = "newInnerProofData 2 (zeros 32) (zeros 32) (zeros 32) (zeros 32) (zeros 32)
          (zeros 12 @ replicate 20 9) (zeros 31 @ [1])"
  have "knownProof ?p" by (simp add: knownProof_def valid_innerProof_def newInnerProofData_def)
  from inner_proof_encode_decode [OF this, of "[]"] show ?thesis
    by (auto simp: getEncodedProofSizeForId_def newInnerProofData_def)
qed

end
