(* ===== verification/Notes.thy ===== *)
theory Notes
  imports Ids BridgeCall InnerProof
begin

text \<open>
  The notes of \<open>barretenberg.js\<close>: viewing keys (\<open>viewing_key\<close>) and the algorithms on notes
  (\<open>note_algorithms\<close>): value notes (\<open>TreeNote\<close>), claim notes (\<open>TreeClaimNote\<close>,
  \<open>ClaimNoteTxData\<close>), decrypted notes and their recovery, and the notes of DeFi interactions with
  their hashes. The curve multiplication \<open>mul\<close>, the reduction modulo the field order \<open>reduce512\<close>,
  SHA-256, AES-CBC and the Pedersen commitment of a note are parameters.
\<close>

text \<open>\<open>!!buf[i]\<close>: false past the end of the buffer.\<close>

definition byteFlag :: "buffer \<Rightarrow> nat \<Rightarrow> bool" where
  "byteFlag buf i = (i < length buf \<and> unat (buf ! i) \<noteq> 0)"

definition boolByte :: "bool \<Rightarrow> buffer" where
  "boolByte b = [if b then 1 else 0]"

section \<open>Viewing keys\<close>

datatype viewingKey = ViewingKey (viewingKey_buffer: buffer)

definition ViewingKey_SIZE :: nat where "ViewingKey_SIZE = 144"

definition newViewingKey :: "buffer option \<Rightarrow> viewingKey res" where
  "newViewingKey buf = (case buf of
     Some b \<Rightarrow> if 0 < length b then
         if length b \<noteq> ViewingKey_SIZE then Inl (Thrown ''Invalid hash buffer.'') else Inr (ViewingKey b)
       else Inr (ViewingKey [])
   | None \<Rightarrow> Inr (ViewingKey []))"

definition ViewingKey_isEmpty :: "viewingKey \<Rightarrow> bool" where
  "ViewingKey_isEmpty k = (length (viewingKey_buffer k) = 0)"

definition ViewingKey_equals :: "viewingKey \<Rightarrow> viewingKey \<Rightarrow> bool" where
  "ViewingKey_equals a b = (viewingKey_buffer a = viewingKey_buffer b)"

definition ViewingKey_toBuffer :: "viewingKey \<Rightarrow> buffer" where
  "ViewingKey_toBuffer k = viewingKey_buffer k"

record viewingKeyData =
  vkd_value :: int
  vkd_assetId :: int
  vkd_accountRequired :: bool
  vkd_creatorPubKey :: buffer

definition newViewingKeyData :: "int \<Rightarrow> int \<Rightarrow> bool \<Rightarrow> buffer \<Rightarrow> viewingKeyData res" where
  "newViewingKeyData value assetId accountRequired creatorPubKey =
    (if length creatorPubKey \<noteq> 32 then Inl (Thrown ''Invalid note secret buffer.'')
     else Inr \<lparr>vkd_value = value, vkd_assetId = assetId, vkd_accountRequired = accountRequired,
               vkd_creatorPubKey = creatorPubKey\<rparr>)"

definition ViewingKeyData_fromBuffer :: "buffer \<Rightarrow> viewingKeyData res" where
  "ViewingKeyData_fromBuffer buf =
    (if length buf \<noteq> 72 then Inl (Thrown ''Invalid data buffer.'')
     else bindE (readUInt32BE buf 32) (\<lambda>assetId.
          bindE (readUInt32BE buf 36) (\<lambda>accountRequired.
          newViewingKeyData (toBigIntBE (bslice buf 0 32)) assetId (accountRequired \<noteq> 0) (bslice buf 40 72))))"

definition ViewingKeyData_toBuffer :: "viewingKeyData \<Rightarrow> buffer res" where
  "ViewingKeyData_toBuffer d =
     bindE (numToUInt32BE (vkd_assetId d) 4) (\<lambda>assetId.
     bindE (numToUInt32BE (of_bool (vkd_accountRequired d)) 4) (\<lambda>accountRequired.
     Inr (concat [toBufferBE (vkd_value d) 32, assetId, accountRequired, vkd_creatorPubKey d])))"

definition deriveAESSecret ::
  "(buffer \<Rightarrow> buffer \<Rightarrow> buffer) \<Rightarrow> (buffer \<Rightarrow> buffer) \<Rightarrow> grumpkinAddress \<Rightarrow> buffer \<Rightarrow> buffer res" where
  "deriveAESSecret mul sha256 ecdhPubKey ecdhPrivKey =
    (let sharedSecret = mul (GrumpkinAddress_toBuffer ecdhPubKey) ecdhPrivKey
     in bindE (numToUInt8 1) (\<lambda>one. Inr (sha256 (sharedSecret @ one))))"

text \<open>The parameter \<open>aesCbc key iv plaintext\<close> is AES-128 in CBC mode without padding.\<close>

definition ViewingKey_createFromEphPriv ::
  "(buffer \<Rightarrow> buffer \<Rightarrow> buffer) \<Rightarrow> (buffer \<Rightarrow> buffer) \<Rightarrow> (buffer \<Rightarrow> buffer \<Rightarrow> buffer \<Rightarrow> buffer) \<Rightarrow> buffer \<Rightarrow>
   viewingKeyData \<Rightarrow> grumpkinAddress \<Rightarrow> buffer \<Rightarrow> viewingKey res" where
  "ViewingKey_createFromEphPriv mul sha256 aesCbc generator d ownerPubKey ephPrivKey =
    (let ephPubKey = mul generator ephPrivKey in
     bindE (deriveAESSecret mul sha256 ownerPubKey ephPrivKey) (\<lambda>aesSecret.
     let aesKey = bslice aesSecret 0 16;
         iv = bslice aesSecret 16 32
     in bindE (ViewingKeyData_toBuffer d) (\<lambda>dataBuf.
        let plaintext = bslice iv 0 8 @ dataBuf
        in newViewingKey (Some (aesCbc aesKey iv plaintext @ ephPubKey)))))"

section \<open>Value notes\<close>

record treeNote =
  tn_ownerPubKey :: grumpkinAddress
  tn_value :: int
  tn_assetId :: int
  tn_accountRequired :: bool
  tn_noteSecret :: buffer
  tn_creatorPubKey :: buffer
  tn_inputNullifier :: buffer

definition newTreeNote ::
  "grumpkinAddress \<Rightarrow> int \<Rightarrow> int \<Rightarrow> bool \<Rightarrow> buffer \<Rightarrow> buffer \<Rightarrow> buffer \<Rightarrow> treeNote" where
  "newTreeNote ownerPubKey value assetId accountRequired noteSecret creatorPubKey inputNullifier =
     \<lparr>tn_ownerPubKey = ownerPubKey, tn_value = value, tn_assetId = assetId,
      tn_accountRequired = accountRequired, tn_noteSecret = noteSecret,
      tn_creatorPubKey = creatorPubKey, tn_inputNullifier = inputNullifier\<rparr>"

definition TreeNote_SIZE :: nat where "TreeNote_SIZE = 32 + 4 + 1 + 64 + 32 + 32 + 32"

definition TreeNote_toBuffer :: "treeNote \<Rightarrow> buffer res" where
  "TreeNote_toBuffer n =
     bindE (numToUInt32BE (tn_assetId n) 4) (\<lambda>assetId. Inr (concat
       [toBufferBE (tn_value n) 32, assetId, boolByte (tn_accountRequired n),
        GrumpkinAddress_toBuffer (tn_ownerPubKey n), tn_noteSecret n, tn_creatorPubKey n,
        tn_inputNullifier n]))"

definition TreeNote_fromBuffer :: "buffer \<Rightarrow> treeNote res" where
  "TreeNote_fromBuffer buf =
    (let value = toBigIntBE (bslice buf 0 32) in
     bindE (readUInt32BE buf 32) (\<lambda>assetId.
     let accountRequired = byteFlag buf 36 in
     bindE (newGrumpkinAddress (bslice buf 37 101)) (\<lambda>ownerPubKey.
     let noteSecret = bslice buf 101 133;
         creatorPubKey = bslice buf 133 165;
         inputNullifier = bslice buf 165 197
     in Inr (newTreeNote ownerPubKey value assetId accountRequired noteSecret creatorPubKey inputNullifier))))"

definition deriveNoteSecret ::
  "(buffer \<Rightarrow> buffer \<Rightarrow> buffer) \<Rightarrow> (buffer \<Rightarrow> buffer) \<Rightarrow> (buffer \<Rightarrow> buffer) \<Rightarrow>
   grumpkinAddress \<Rightarrow> buffer \<Rightarrow> buffer res" where
  "deriveNoteSecret mul sha256 reduce512 ecdhPubKey ecdhPrivKey =
    (let sharedSecret = mul (GrumpkinAddress_toBuffer ecdhPubKey) ecdhPrivKey in
     bindE (numToUInt8 2) (\<lambda>two. bindE (numToUInt8 3) (\<lambda>three.
     let hashA = sha256 (sharedSecret @ two);
         hashB = sha256 (sharedSecret @ three)
     in Inr (reduce512 (hashA @ hashB)))))"

definition TreeNote_createFromEphPriv ::
  "(buffer \<Rightarrow> buffer \<Rightarrow> buffer) \<Rightarrow> (buffer \<Rightarrow> buffer) \<Rightarrow> (buffer \<Rightarrow> buffer) \<Rightarrow> grumpkinAddress \<Rightarrow> int \<Rightarrow> int \<Rightarrow>
   bool \<Rightarrow> buffer \<Rightarrow> buffer \<Rightarrow> buffer \<Rightarrow> treeNote res" where
  "TreeNote_createFromEphPriv mul sha256 reduce512 ownerPubKey value assetId accountRequired inputNullifier
     ephPrivKey creatorPubKey =
     bindE (deriveNoteSecret mul sha256 reduce512 ownerPubKey ephPrivKey) (\<lambda>noteSecret.
     Inr (newTreeNote ownerPubKey value assetId accountRequired noteSecret creatorPubKey inputNullifier))"

definition TreeNote_createFromEphPub ::
  "(buffer \<Rightarrow> buffer \<Rightarrow> buffer) \<Rightarrow> (buffer \<Rightarrow> buffer) \<Rightarrow> (buffer \<Rightarrow> buffer) \<Rightarrow> grumpkinAddress \<Rightarrow> int \<Rightarrow> int \<Rightarrow>
   bool \<Rightarrow> buffer \<Rightarrow> grumpkinAddress \<Rightarrow> buffer \<Rightarrow> buffer \<Rightarrow> treeNote res" where
  "TreeNote_createFromEphPub mul sha256 reduce512 ownerPubKey value assetId accountRequired inputNullifier
     ephPubKey ownerPrivKey creatorPubKey =
     bindE (deriveNoteSecret mul sha256 reduce512 ephPubKey ownerPrivKey) (\<lambda>noteSecret.
     Inr (newTreeNote ownerPubKey value assetId accountRequired noteSecret creatorPubKey inputNullifier))"

section \<open>Decrypted notes and recovery\<close>

record decryptedNote =
  dn_data :: viewingKeyData
  dn_ephPubKey :: grumpkinAddress
  dn_noteSecret :: buffer

definition newDecryptedNote :: "viewingKeyData \<Rightarrow> grumpkinAddress \<Rightarrow> buffer \<Rightarrow> decryptedNote res" where
  "newDecryptedNote d ephPubKey noteSecret =
    (if length noteSecret \<noteq> 32 then Inl (Thrown ''Invalid note secret buffer.'')
     else Inr \<lparr>dn_data = d, dn_ephPubKey = ephPubKey, dn_noteSecret = noteSecret\<rparr>)"

definition DecryptedNote_fromBuffer :: "buffer \<Rightarrow> decryptedNote res" where
  "DecryptedNote_fromBuffer buf =
     bindE (ViewingKeyData_fromBuffer (bslice buf 0 72)) (\<lambda>d.
     bindE (newGrumpkinAddress (bslice buf 72 136)) (\<lambda>ephPubKey.
     newDecryptedNote d ephPubKey (bslice buf 136 168)))"

definition DecryptedNote_toBuffer :: "decryptedNote \<Rightarrow> buffer res" where
  "DecryptedNote_toBuffer n =
     bindE (ViewingKeyData_toBuffer (dn_data n)) (\<lambda>d.
     Inr (concat [d, GrumpkinAddress_toBuffer (dn_ephPubKey n), dn_noteSecret n]))"

definition TreeNote_recover :: "decryptedNote \<Rightarrow> buffer \<Rightarrow> grumpkinAddress \<Rightarrow> treeNote" where
  "TreeNote_recover n inputNullifier ownerPubKey =
    (let d = dn_data n in newTreeNote ownerPubKey (vkd_value d) (vkd_assetId d) (vkd_accountRequired d)
       (dn_noteSecret n) (vkd_creatorPubKey d) inputNullifier)"

text \<open>\<open>recoverTreeNotes\<close>: a note is returned where its recomputed commitment is the one on chain.
  The arrays of commitments and nullifiers are read at the same index; reading past their end gives
  \<open>undefined\<close>, on which the comparison of buffers throws a \<open>TypeError\<close>.\<close>

definition recoverTreeNote ::
  "(treeNote \<Rightarrow> buffer) \<Rightarrow> buffer list \<Rightarrow> buffer list \<Rightarrow> grumpkinAddress \<Rightarrow> nat \<times> decryptedNote option \<Rightarrow>
   treeNote option res" where
  "recoverTreeNote commit inputNullifiers noteCommitments ownerPubKey = (\<lambda>(i, decrypted). case decrypted of
     None \<Rightarrow> Inr None
   | Some d \<Rightarrow>
       if i < length noteCommitments \<and> i < length inputNullifiers then
         let note = TreeNote_recover d (inputNullifiers ! i) ownerPubKey
         in if commit note = noteCommitments ! i then Inr (Some note) else Inr None
       else Inl TypeError)"

definition recoverTreeNotes ::
  "(treeNote \<Rightarrow> buffer) \<Rightarrow> decryptedNote option list \<Rightarrow> buffer list \<Rightarrow> buffer list \<Rightarrow> grumpkinAddress \<Rightarrow>
   treeNote option list res" where
  "recoverTreeNotes commit decryptedNotes inputNullifiers noteCommitments ownerPubKey =
     mapE (recoverTreeNote commit inputNullifiers noteCommitments ownerPubKey)
       (enumerate 0 decryptedNotes)"

text \<open>\<open>notes[i] = x\<close> extends the array with holes.\<close>

definition setIndex :: "'a option list \<Rightarrow> nat \<Rightarrow> 'a \<Rightarrow> 'a option list" where
  "setIndex xs i x = (xs @ replicate (Suc i - length xs) None)[i := Some x]"

definition batchDecryptNote ::
  "(buffer \<Rightarrow> buffer \<Rightarrow> buffer) \<Rightarrow> (buffer \<Rightarrow> buffer) \<Rightarrow> (buffer \<Rightarrow> buffer) \<Rightarrow> buffer \<Rightarrow> buffer \<Rightarrow> buffer \<Rightarrow>
   decryptedNote option list \<Rightarrow> nat \<Rightarrow> decryptedNote option list res" where
  "batchDecryptNote mul sha256 reduce512 viewingKeys privateKey dataBufs notes i =
    (let startIndex = i * 73;
         dataBuf = bslice dataBufs startIndex (startIndex + 73)
     in if byteFlag dataBuf 0 then
          bindE (newGrumpkinAddress (bslice viewingKeys ((i + 1) * ViewingKey_SIZE - 64) ((i + 1) * ViewingKey_SIZE)))
            (\<lambda>ephPubKey.
          bindE (deriveNoteSecret mul sha256 reduce512 ephPubKey privateKey) (\<lambda>noteSecret.
          bindE (ViewingKeyData_fromBuffer (drop 1 dataBuf)) (\<lambda>d.
          bindE (newDecryptedNote d ephPubKey noteSecret) (\<lambda>note.
          Inr (setIndex notes i note)))))
        else Inr notes)"

definition batchDecryptNotes ::
  "(buffer \<Rightarrow> buffer \<Rightarrow> buffer) \<Rightarrow> (buffer \<Rightarrow> buffer) \<Rightarrow> (buffer \<Rightarrow> buffer) \<Rightarrow> (buffer \<Rightarrow> buffer \<Rightarrow> buffer) \<Rightarrow>
   buffer \<Rightarrow> buffer \<Rightarrow> decryptedNote option list res" where
  "batchDecryptNotes mul sha256 reduce512 decryptor viewingKeys privateKey =
    (let dataBufs = decryptor viewingKeys privateKey
     in foldE (batchDecryptNote mul sha256 reduce512 viewingKeys privateKey dataBufs) []
          [0..<(length dataBufs + 72) div 73])"

section \<open>Claim notes\<close>

record treeClaimNote =
  tcn_value :: int
  tcn_bridgeCallData :: bridgeCallData
  tcn_defiInteractionNonce :: int
  tcn_fee :: int
  tcn_partialState :: buffer
  tcn_inputNullifier :: buffer

definition TreeClaimNote_fromBuffer :: "buffer \<Rightarrow> treeClaimNote res" where
  "TreeClaimNote_fromBuffer buf =
     bindE (BridgeCallData_fromBuffer (bslice buf 32 64)) (\<lambda>bridgeCallData.
     bindE (readUInt32BE buf 64) (\<lambda>defiInteractionNonce. Inr
       \<lparr>tcn_value = toBigIntBE (bslice buf 0 32), tcn_bridgeCallData = bridgeCallData,
        tcn_defiInteractionNonce = defiInteractionNonce, tcn_fee = toBigIntBE (bslice buf 68 100),
        tcn_partialState = bslice buf 100 132, tcn_inputNullifier = bslice buf 132 164\<rparr>))"

definition TreeClaimNote_toBuffer :: "treeClaimNote \<Rightarrow> buffer res" where
  "TreeClaimNote_toBuffer n =
     bindE (numToUInt32BE (tcn_defiInteractionNonce n) 4) (\<lambda>nonce. Inr (concat
       [toBufferBE (tcn_value n) 32, BridgeCallData_toBuffer (tcn_bridgeCallData n), nonce,
        toBufferBE (tcn_fee n) 32, tcn_partialState n, tcn_inputNullifier n]))"

definition TreeClaimNote_deserialize :: "treeClaimNote deserializeFn" where
  "TreeClaimNote_deserialize buf offset =
     mapR (\<lambda>n. (n, 164)) (TreeClaimNote_fromBuffer (bslice buf offset (offset + 164)))"

record claimNoteTxData =
  cnd_value :: int
  cnd_bridgeCallData :: bridgeCallData
  cnd_partialStateSecret :: buffer
  cnd_inputNullifier :: buffer

definition ClaimNoteTxData_toBuffer :: "claimNoteTxData \<Rightarrow> buffer" where
  "ClaimNoteTxData_toBuffer n = concat
     [toBufferBE (cnd_value n) 32, BridgeCallData_toBuffer (cnd_bridgeCallData n),
      cnd_partialStateSecret n, cnd_inputNullifier n]"

definition ClaimNoteTxData_equals :: "claimNoteTxData \<Rightarrow> claimNoteTxData \<Rightarrow> bool" where
  "ClaimNoteTxData_equals a b = (ClaimNoteTxData_toBuffer a = ClaimNoteTxData_toBuffer b)"

definition ClaimNoteTxData_fromBuffer :: "buffer \<Rightarrow> claimNoteTxData res" where
  "ClaimNoteTxData_fromBuffer buf =
     bindE (BridgeCallData_fromBuffer (bslice buf 32 64)) (\<lambda>bridgeCallData. Inr
       \<lparr>cnd_value = toBigIntBE (bslice buf 0 32), cnd_bridgeCallData = bridgeCallData,
        cnd_partialStateSecret = bslice buf 64 96, cnd_inputNullifier = bslice buf 96 128\<rparr>)"

section \<open>Interaction notes\<close>

record defiInteractionNote =
  din_bridgeCallData :: bridgeCallData
  din_nonce :: int
  din_totalInputValue :: int
  din_totalOutputValueA :: int
  din_totalOutputValueB :: int
  din_result :: bool

definition DefiInteractionNote_EMPTY :: defiInteractionNote where
  "DefiInteractionNote_EMPTY = \<lparr>din_bridgeCallData = BridgeCallData_ZERO, din_nonce = 0,
     din_totalInputValue = 0, din_totalOutputValueA = 0, din_totalOutputValueB = 0, din_result = False\<rparr>"

definition groupModulus :: int where
  "groupModulus = 21888242871839275222246405745257275088548364400416034343698204186575808495617"

definition DefiInteractionNote_deserialize :: "defiInteractionNote deserializeFn" where
  "DefiInteractionNote_deserialize buffer offset =
    (let des = newDeserializer buffer offset;
         (bridgeCallDataBuffer, des) = des_buffer 32 des
     in bindE (BridgeCallData_fromBuffer bridgeCallDataBuffer) (\<lambda>bridgeCallData.
        bindE (des_bigInt 32 des) (\<lambda>(totalInputValue, des).
        bindE (des_bigInt 32 des) (\<lambda>(totalOutputValueA, des).
        bindE (des_bigInt 32 des) (\<lambda>(totalOutputValueB, des).
        bindE (des_uInt32 des) (\<lambda>(nonce, des).
        bindE (des_bool des) (\<lambda>(result, des). Inr
          (\<lparr>din_bridgeCallData = bridgeCallData, din_nonce = nonce, din_totalInputValue = totalInputValue,
            din_totalOutputValueA = totalOutputValueA, din_totalOutputValueB = totalOutputValueB,
            din_result = result\<rparr>, des_offset des - offset))))))))"

definition DefiInteractionNote_toBuffer :: "defiInteractionNote \<Rightarrow> buffer res" where
  "DefiInteractionNote_toBuffer n =
    (let s = ser_buffer newSerializer (BridgeCallData_toBuffer (din_bridgeCallData n));
         s = ser_bigInt s (din_totalInputValue n);
         s = ser_bigInt s (din_totalOutputValueA n);
         s = ser_bigInt s (din_totalOutputValueB n)
     in bindE (ser_uInt32 s (din_nonce n)) (\<lambda>s.
        bindE (ser_bool s (din_result n)) (\<lambda>s. Inr (ser_getBuffer s))))"

definition interactionPreimage :: "defiInteractionNote \<Rightarrow> buffer res" where
  "interactionPreimage n =
     bindE (numToUInt32BE (din_nonce n) 32) (\<lambda>nonce. Inr (concat
       [BridgeCallData_toBuffer (din_bridgeCallData n), nonce, toBufferBE (din_totalInputValue n) 32,
        toBufferBE (din_totalOutputValueA n) 32, toBufferBE (din_totalOutputValueB n) 32,
        zeros 31, boolByte (din_result n)]))"

text \<open>\<open>Array(padTo - notes.length)\<close> throws for a negative length.\<close>

definition computeInteractionHashes ::
  "(buffer \<Rightarrow> buffer) \<Rightarrow> defiInteractionNote list \<Rightarrow> nat \<Rightarrow> buffer list res" where
  "computeInteractionHashes sha256 notes padTo =
    (if padTo < length notes then Inl RangeError
     else bindE (mapE interactionPreimage
                   (notes @ replicate (padTo - length notes) DefiInteractionNote_EMPTY)) (\<lambda>pre.
       Inr (map (\<lambda>h. toBufferBE (toBigIntBE h mod groupModulus) 32) (map sha256 pre))))"

definition packInteractionNotes ::
  "(buffer \<Rightarrow> buffer) \<Rightarrow> defiInteractionNote list \<Rightarrow> nat \<Rightarrow> buffer res" where
  "packInteractionNotes sha256 notes padTo =
     bindE (computeInteractionHashes sha256 notes padTo) (\<lambda>hashes.
     let hash = sha256 (concat hashes)
     in Inr (toBufferBE (toBigIntBE hash mod groupModulus) 32))"

section \<open>The codecs\<close>

definition word32 :: "int \<Rightarrow> bool" where
  "word32 v \<longleftrightarrow> 0 \<le> v \<and> v < 256 ^ 32"

lemma word32_roundtrip: "word32 v \<Longrightarrow> toBigIntBE (toBufferBE v 32) = v" "word32 v \<Longrightarrow> length (toBufferBE v 32) = 32"
  by (simp_all add: word32_def toBigIntBE_toBufferBE length_toBufferBE)

definition u32 :: "int \<Rightarrow> bool" where
  "u32 v \<longleftrightarrow> 0 \<le> v \<and> v < 2 ^ 32"

lemma numToUInt32BE_u32: "numToUInt32BE n 4 = Inr b \<longleftrightarrow> u32 n \<and> b = be_bytes 4 (nat n)"
  by (simp add: numToUInt32BE_4 u32_def)

lemma numToUInt32BE_ok: "u32 n \<Longrightarrow> numToUInt32BE n 4 = Inr (be_bytes 4 (nat n))"
  by (simp add: numToUInt32BE_u32)

lemma numToUInt32BE_bool: "numToUInt32BE (of_bool c) 4 = Inr (be_bytes 4 (of_bool c))"
  by (simp add: numToUInt32BE_4)

lemma be_value_u32_nat: "u32 n \<Longrightarrow> int (be_value (be_bytes 4 (nat n))) = n"
  by (simp add: u32_def)

lemma be_value_bool: "be_value (be_bytes 4 (of_bool c)) = of_bool c"
  by (rule be_value_bytes) simp

lemma length_boolByte [simp]: "length (boolByte c) = 1"
  by (simp add: boolByte_def)

lemma byteFlag_boolByte: "byteFlag (pre @ boolByte c @ post) (length pre) = c"
  by (simp add: byteFlag_def boolByte_def nth_append)

definition valid_vkd :: "viewingKeyData \<Rightarrow> bool" where
  "valid_vkd d \<longleftrightarrow> word32 (vkd_value d) \<and> u32 (vkd_assetId d) \<and> length (vkd_creatorPubKey d) = 32"

lemma ViewingKeyData_toBuffer_eq:
  "valid_vkd d \<Longrightarrow> ViewingKeyData_toBuffer d = Inr (toBufferBE (vkd_value d) 32 @ be_bytes 4 (nat (vkd_assetId d))
     @ be_bytes 4 (of_bool (vkd_accountRequired d)) @ vkd_creatorPubKey d)"
  by (simp add: ViewingKeyData_toBuffer_def valid_vkd_def numToUInt32BE_ok numToUInt32BE_bool)

lemma ViewingKeyData_roundtrip:
  assumes "valid_vkd d" "ViewingKeyData_toBuffer d = Inr b"
  shows "ViewingKeyData_fromBuffer b = Inr d" "length b = 72"
proof -
  have b: "b = toBufferBE (vkd_value d) 32 @ be_bytes 4 (nat (vkd_assetId d))
     @ be_bytes 4 (of_bool (vkd_accountRequired d)) @ vkd_creatorPubKey d"
    using assms by (simp add: ViewingKeyData_toBuffer_eq)
  have v: "length (toBufferBE (vkd_value d) 32) = 32" "toBigIntBE (toBufferBE (vkd_value d) 32) = vkd_value d"
    "int (be_value (be_bytes 4 (nat (vkd_assetId d)))) = vkd_assetId d" "length (vkd_creatorPubKey d) = 32"
    using assms(1) by (simp_all add: valid_vkd_def word32_roundtrip be_value_u32_nat)
  show "length b = 72" unfolding b by (simp add: v)
  show "ViewingKeyData_fromBuffer b = Inr d" unfolding b
    by (simp add: ViewingKeyData_fromBuffer_def readUInt32BE_def bslice_def v be_value_bool newViewingKeyData_def)
qed

interpretation viewing_key_data_codec: fixed_codec
  ViewingKeyData_toBuffer "\<lambda>b. ViewingKeyData_fromBuffer (bslice b 0 72)" valid_vkd 72
  using ViewingKeyData_roundtrip by unfold_locales (auto simp: ViewingKeyData_toBuffer_eq)

definition valid_treeNote :: "treeNote \<Rightarrow> bool" where
  "valid_treeNote n \<longleftrightarrow> word32 (tn_value n) \<and> u32 (tn_assetId n)
     \<and> length (grumpkinAddress_buffer (tn_ownerPubKey n)) = 64 \<and> length (tn_noteSecret n) = 32
     \<and> length (tn_creatorPubKey n) = 32 \<and> length (tn_inputNullifier n) = 32"

interpretation tree_note_codec: fixed_codec TreeNote_toBuffer TreeNote_fromBuffer valid_treeNote TreeNote_SIZE
proof unfold_locales
  fix x :: treeNote and b rest assume v: "valid_treeNote x"
  then have u: "u32 (tn_assetId x)" by (simp add: valid_treeNote_def)
  then show "isOk (TreeNote_toBuffer x)" by (simp add: TreeNote_toBuffer_def numToUInt32BE_ok)
  let ?v = "toBufferBE (tn_value x) 32" and ?a = "be_bytes 4 (nat (tn_assetId x))"
  assume "TreeNote_toBuffer x = Inr b"
  then have b: "b = ?v @ ?a @ boolByte (tn_accountRequired x) @ grumpkinAddress_buffer (tn_ownerPubKey x)
      @ tn_noteSecret x @ tn_creatorPubKey x @ tn_inputNullifier x"
    by (auto simp: TreeNote_toBuffer_def bindE_eq_Inr numToUInt32BE_u32 GrumpkinAddress_toBuffer_def)
  have l: "length ?v = 32" "toBigIntBE ?v = tn_value x" "int (be_value ?a) = tn_assetId x"
    "length (grumpkinAddress_buffer (tn_ownerPubKey x)) = 64" "length (tn_noteSecret x) = 32"
    "length (tn_creatorPubKey x) = 32" "length (tn_inputNullifier x) = 32"
    using v by (simp_all add: valid_treeNote_def word32_roundtrip be_value_u32_nat)
  then show "length b = TreeNote_SIZE" unfolding b by (simp add: TreeNote_SIZE_def)
  have f: "byteFlag (b @ rest) 36 = tn_accountRequired x"
    using byteFlag_boolByte [of "?v @ ?a"] l b by simp
  have r: "readUInt32BE (b @ rest) 32 = Inr (tn_assetId x)"
    unfolding b by (simp add: readUInt32BE_def bslice_def l)
  show "TreeNote_fromBuffer (b @ rest) = Inr x"
    unfolding TreeNote_fromBuffer_def f r unfolding b using l
    by (simp add: bslice_def newGrumpkinAddress_def newTreeNote_def)
qed

definition valid_decryptedNote :: "decryptedNote \<Rightarrow> bool" where
  "valid_decryptedNote n \<longleftrightarrow> valid_vkd (dn_data n) \<and> length (grumpkinAddress_buffer (dn_ephPubKey n)) = 64
     \<and> length (dn_noteSecret n) = 32"

interpretation decrypted_note_codec: fixed_codec DecryptedNote_toBuffer DecryptedNote_fromBuffer valid_decryptedNote 168
proof unfold_locales
  fix x :: decryptedNote and b rest assume v: "valid_decryptedNote x"
  then have vd: "valid_vkd (dn_data x)" by (simp add: valid_decryptedNote_def)
  obtain d where d: "ViewingKeyData_toBuffer (dn_data x) = Inr d" using vd by (auto simp: ViewingKeyData_toBuffer_eq)
  show "isOk (DecryptedNote_toBuffer x)" by (simp add: DecryptedNote_toBuffer_def d)
  assume "DecryptedNote_toBuffer x = Inr b"
  then have b: "b = d @ grumpkinAddress_buffer (dn_ephPubKey x) @ dn_noteSecret x"
    by (simp add: DecryptedNote_toBuffer_def d GrumpkinAddress_toBuffer_def)
  have l: "length d = 72" "length (grumpkinAddress_buffer (dn_ephPubKey x)) = 64" "length (dn_noteSecret x) = 32"
    using v ViewingKeyData_roundtrip(2) [OF vd d] by (simp_all add: valid_decryptedNote_def)
  then show "length b = 168" unfolding b by simp
  show "DecryptedNote_fromBuffer (b @ rest) = Inr x"
    using l ViewingKeyData_roundtrip(1) [OF vd d] unfolding b
    by (simp add: DecryptedNote_fromBuffer_def bslice_def newGrumpkinAddress_def newDecryptedNote_def)
qed

definition valid_treeClaimNote :: "treeClaimNote \<Rightarrow> bool" where
  "valid_treeClaimNote n \<longleftrightarrow> word32 (tcn_value n) \<and> valid_bridgeCallData (tcn_bridgeCallData n)
     \<and> u32 (tcn_defiInteractionNonce n) \<and> word32 (tcn_fee n) \<and> length (tcn_partialState n) = 32
     \<and> length (tcn_inputNullifier n) = 32"

lemma bridge_buffer:
  assumes "valid_bridgeCallData b"
  shows "length (BridgeCallData_toBuffer b) = 32" "BridgeCallData_fromBuffer (BridgeCallData_toBuffer b) = Inr b"
  using bridge_codec.enc_width [OF assms refl] bridge_codec.dec_enc [OF assms refl, of "[]"] by simp_all

interpretation tree_claim_note_codec: fixed_codec TreeClaimNote_toBuffer TreeClaimNote_fromBuffer valid_treeClaimNote 164
proof unfold_locales
  fix x :: treeClaimNote and b rest assume v: "valid_treeClaimNote x"
  then have u: "u32 (tcn_defiInteractionNonce x)" and vb: "valid_bridgeCallData (tcn_bridgeCallData x)"
    by (simp_all add: valid_treeClaimNote_def)
  show "isOk (TreeClaimNote_toBuffer x)" by (simp add: TreeClaimNote_toBuffer_def numToUInt32BE_ok u)
  let ?v = "toBufferBE (tcn_value x) 32" and ?f = "toBufferBE (tcn_fee x) 32"
    and ?n = "be_bytes 4 (nat (tcn_defiInteractionNonce x))" and ?b = "BridgeCallData_toBuffer (tcn_bridgeCallData x)"
  assume "TreeClaimNote_toBuffer x = Inr b"
  then have b: "b = ?v @ ?b @ ?n @ ?f @ tcn_partialState x @ tcn_inputNullifier x"
    by (simp add: TreeClaimNote_toBuffer_def numToUInt32BE_ok u)
  have l: "length ?v = 32" "length ?f = 32" "toBigIntBE ?v = tcn_value x" "toBigIntBE ?f = tcn_fee x"
    "int (be_value ?n) = tcn_defiInteractionNonce x" "length (tcn_partialState x) = 32"
    "length (tcn_inputNullifier x) = 32"
    using v by (simp_all add: valid_treeClaimNote_def word32_roundtrip be_value_u32_nat)
  then show "length b = 164" unfolding b by (simp add: bridge_buffer [OF vb])
  show "TreeClaimNote_fromBuffer (b @ rest) = Inr x"
    unfolding b using l
    by (simp add: TreeClaimNote_fromBuffer_def bslice_def readUInt32BE_def bridge_buffer [OF vb])
qed

definition valid_claimNoteTxData :: "claimNoteTxData \<Rightarrow> bool" where
  "valid_claimNoteTxData n \<longleftrightarrow> word32 (cnd_value n) \<and> valid_bridgeCallData (cnd_bridgeCallData n)
     \<and> length (cnd_partialStateSecret n) = 32 \<and> length (cnd_inputNullifier n) = 32"

interpretation claim_note_tx_data_codec: fixed_codec
  "\<lambda>n. Inr (ClaimNoteTxData_toBuffer n)" ClaimNoteTxData_fromBuffer valid_claimNoteTxData 128
proof unfold_locales
  fix x :: claimNoteTxData and b rest assume v: "valid_claimNoteTxData x"
  show "isOk (Inr (ClaimNoteTxData_toBuffer x) :: buffer res)" by simp
  have vb: "valid_bridgeCallData (cnd_bridgeCallData x)" using v by (simp add: valid_claimNoteTxData_def)
  let ?v = "toBufferBE (cnd_value x) 32"
  assume "Inr (ClaimNoteTxData_toBuffer x) = (Inr b :: buffer res)"
  then have b: "b = ?v @ BridgeCallData_toBuffer (cnd_bridgeCallData x) @ cnd_partialStateSecret x @ cnd_inputNullifier x"
    by (simp add: ClaimNoteTxData_toBuffer_def)
  have l: "length ?v = 32" "toBigIntBE ?v = cnd_value x" "length (cnd_partialStateSecret x) = 32"
    "length (cnd_inputNullifier x) = 32"
    using v by (simp_all add: valid_claimNoteTxData_def word32_roundtrip)
  then show "length b = 128" unfolding b by (simp add: bridge_buffer [OF vb])
  show "ClaimNoteTxData_fromBuffer (b @ rest) = Inr x"
    unfolding b using l by (simp add: ClaimNoteTxData_fromBuffer_def bslice_def bridge_buffer [OF vb])
qed

subsection \<open>Interaction notes\<close>

definition valid_interactionNote :: "defiInteractionNote \<Rightarrow> bool" where
  "valid_interactionNote n \<longleftrightarrow> valid_bridgeCallData (din_bridgeCallData n) \<and> u32 (din_nonce n)
     \<and> word32 (din_totalInputValue n) \<and> word32 (din_totalOutputValueA n) \<and> word32 (din_totalOutputValueB n)"

lemma DefiInteractionNote_toBuffer_eq:
  assumes "valid_interactionNote n"
  shows "DefiInteractionNote_toBuffer n = Inr (BridgeCallData_toBuffer (din_bridgeCallData n)
     @ toBufferBE (din_totalInputValue n) 32 @ toBufferBE (din_totalOutputValueA n) 32
     @ toBufferBE (din_totalOutputValueB n) 32 @ be_bytes 4 (nat (din_nonce n)) @ be_bytes 1 (of_bool (din_result n)))"
proof -
  have "boolToByte (din_result n) = Inr (be_bytes 1 (of_bool (din_result n)))"
    by (simp add: boolToByte_def writeUInt8_def)
  then show ?thesis using assms
    by (simp add: DefiInteractionNote_toBuffer_def valid_interactionNote_def ser_buffer_def ser_push_def
        newSerializer_def ser_bigInt_def serializeBigInt_def ser_uInt32_def ser_bool_def numToUInt32BE_ok
        ser_getBuffer_def del: be_bytes.simps)
qed

lemma des_bigInt_reads:
  assumes "word32 v" "length pre = off"
  shows "des_bigInt 32 (newDeserializer (pre @ toBufferBE v 32 @ post) off)
    = Inr (v, newDeserializer (pre @ toBufferBE v 32 @ post) (off + 32))"
  using des_exec_reads [OF reads_bigInt [of v 32] assms(2)] assms(1)
  by (simp add: des_bigInt_def serializeBigInt_def word32_def length_toBufferBE)

lemma des_uInt32_reads:
  assumes "u32 v" "length pre = off"
  shows "des_uInt32 (newDeserializer (pre @ be_bytes 4 (nat v) @ post) off)
    = Inr (v, newDeserializer (pre @ be_bytes 4 (nat v) @ post) (off + 4))"
  using des_exec_reads [OF reads_uInt32 [OF numToUInt32BE_ok [OF assms(1)]] assms(2)]
  by (simp add: des_uInt32_def)

lemma des_bool_reads:
  assumes "length pre = off"
  shows "des_bool (newDeserializer (pre @ be_bytes 1 (of_bool c) @ post) off)
    = Inr (c, newDeserializer (pre @ be_bytes 1 (of_bool c) @ post) (off + 1))"
proof -
  have "boolToByte c = Inr (be_bytes 1 (of_bool c))" by (simp add: boolToByte_def writeUInt8_def)
  from des_exec_reads [OF reads_bool [OF this] assms] show ?thesis
    by (simp add: des_bool_def del: be_bytes.simps)
qed

lemma reads_interactionNote:
  assumes v: "valid_interactionNote n" and b: "DefiInteractionNote_toBuffer n = Inr b"
  shows "reads DefiInteractionNote_deserialize n b"
proof (rule readsI)
  fix pre post :: buffer and off assume off: "length pre = off"
  let ?b = "BridgeCallData_toBuffer (din_bridgeCallData n)" and ?i = "toBufferBE (din_totalInputValue n) 32"
  let ?oa = "toBufferBE (din_totalOutputValueA n) 32" and ?ob = "toBufferBE (din_totalOutputValueB n) 32"
  let ?n = "be_bytes 4 (nat (din_nonce n))" and ?r = "be_bytes 1 (of_bool (din_result n))"
  have vb: "valid_bridgeCallData (din_bridgeCallData n)" and w: "word32 (din_totalInputValue n)"
    "word32 (din_totalOutputValueA n)" "word32 (din_totalOutputValueB n)" "u32 (din_nonce n)"
    using v by (simp_all add: valid_interactionNote_def)
  define buf where "buf = pre @ ?b @ ?i @ ?oa @ ?ob @ ?n @ ?r @ post"
  have bb: "pre @ b @ post = buf" "length b = 133"
    using b [unfolded DefiInteractionNote_toBuffer_eq [OF v]] w bridge_buffer(1) [OF vb]
    by (auto simp: buf_def word32_roundtrip)
  have l: "length ?b = 32" "length ?i = 32" "length ?oa = 32" "length ?ob = 32"
    using w bridge_buffer(1) [OF vb] by (simp_all add: word32_roundtrip)
  have 1: "des_buffer 32 (newDeserializer buf off) = (?b, newDeserializer buf (off + 32))"
    using des_buffer_reads [OF off l(1)] by (simp add: buf_def)
  have 2: "des_bigInt 32 (newDeserializer buf (off + 32)) = Inr (din_totalInputValue n, newDeserializer buf (off + 32 + 32))"
    using des_bigInt_reads [OF w(1), of "pre @ ?b" "off + 32"] off l by (simp add: buf_def)
  have 3: "des_bigInt 32 (newDeserializer buf (off + 32 + 32))
      = Inr (din_totalOutputValueA n, newDeserializer buf (off + 32 + 32 + 32))"
    using des_bigInt_reads [OF w(2), of "pre @ ?b @ ?i" "off + 32 + 32"] off l by (simp add: buf_def)
  have 4: "des_bigInt 32 (newDeserializer buf (off + 32 + 32 + 32))
      = Inr (din_totalOutputValueB n, newDeserializer buf (off + 32 + 32 + 32 + 32))"
    using des_bigInt_reads [OF w(3), of "pre @ ?b @ ?i @ ?oa" "off + 32 + 32 + 32"] off l by (simp add: buf_def)
  have 5: "des_uInt32 (newDeserializer buf (off + 32 + 32 + 32 + 32))
      = Inr (din_nonce n, newDeserializer buf (off + 32 + 32 + 32 + 32 + 4))"
    using des_uInt32_reads [OF w(4), of "pre @ ?b @ ?i @ ?oa @ ?ob" "off + 32 + 32 + 32 + 32"] off l by (simp add: buf_def)
  have 6: "des_bool (newDeserializer buf (off + 32 + 32 + 32 + 32 + 4))
      = Inr (din_result n, newDeserializer buf (off + 32 + 32 + 32 + 32 + 4 + 1))"
    using des_bool_reads [of "pre @ ?b @ ?i @ ?oa @ ?ob @ ?n" "off + 32 + 32 + 32 + 32 + 4"] off l
    by (simp add: buf_def del: be_bytes.simps)
  show "DefiInteractionNote_deserialize (pre @ b @ post) off = Inr (n, length b)"
    unfolding bb DefiInteractionNote_deserialize_def Let_def 1 case_prod_conv bridge_buffer(2) [OF vb] bindE_Inr 2 3 4 5 6
    by (simp add: newDeserializer_def)
qed

lemma computeInteractionHashes_length:
  "computeInteractionHashes sha256 notes padTo = Inr hs \<Longrightarrow>
     length hs = padTo \<and> (\<forall>h\<in>set hs. length h = 32 \<and> toBigIntBE h < groupModulus)"
proof -
  have m: "0 \<le> v mod groupModulus \<and> v mod groupModulus < groupModulus \<and> groupModulus < 256 ^ 32" for v
    by (simp add: groupModulus_def)
  have r: "length (toBufferBE (v mod groupModulus) 32) = 32"
    "toBigIntBE (toBufferBE (v mod groupModulus) 32) < groupModulus" for v
    using m [of v] by (simp_all add: length_toBufferBE toBigIntBE_toBufferBE)
  assume "computeInteractionHashes sha256 notes padTo = Inr hs"
  then show ?thesis
    by (auto simp: computeInteractionHashes_def bindE_eq_Inr r dest: mapE_Inr_length split: if_splits)
qed

section \<open>Recovering notes\<close>

lemma recoverTreeNotes_length:
  "recoverTreeNotes commit ds nuls cs owner = Inr notes \<Longrightarrow> length notes = length ds"
  by (auto simp: recoverTreeNotes_def dest: mapE_Inr_length)

lemma recoverTreeNotes_nth:
  assumes "recoverTreeNotes commit ds nuls cs owner = Inr notes" "i < length ds"
  shows "recoverTreeNote commit nuls cs owner (i, ds ! i) = Inr (notes ! i)"
  using mapE_Inr_nth [OF assms(1) [unfolded recoverTreeNotes_def], of i] assms(2)
  by (simp add: nth_enumerate_eq)

lemma recoverTreeNote_Some:
  "recoverTreeNote commit nuls cs owner (i, d) = Inr (Some n) \<longleftrightarrow>
     (\<exists>x. d = Some x \<and> i < length cs \<and> i < length nuls \<and> n = TreeNote_recover x (nuls ! i) owner \<and> commit n = cs ! i)"
  by (auto simp: recoverTreeNote_def Let_def split: option.splits if_splits)

section \<open>Properties\<close>

text \<open>The sender (who knows the ephemeral private key) and the owner (who knows the account private
  key) build the same note, because both shared secrets are the same point of the curve.\<close>

theorem note_secret_agreement:
  assumes "\<And>a b. mul (mul G a) b = mul (mul G b) a"
    and "newGrumpkinAddress (mul G ownerPriv) = Inr ownerPub" "newGrumpkinAddress (mul G ephPriv) = Inr ephPub"
  shows "TreeNote_createFromEphPriv mul sha256 red ownerPub v a acc nul ephPriv creator
    = TreeNote_createFromEphPub mul sha256 red ownerPub v a acc nul ephPub ownerPriv creator"
  using assms(2,3) assms(1) [of ownerPriv ephPriv]
  by (auto simp: TreeNote_createFromEphPriv_def TreeNote_createFromEphPub_def deriveNoteSecret_def
      newGrumpkinAddress_eq GrumpkinAddress_toBuffer_def Let_def)

theorem note_secret_agreement_witness:
  "TreeNote_createFromEphPriv (\<lambda>p k. be_bytes 64 (be_value p * be_value k mod 256 ^ 64)) (take 32) (take 32)
      (GrumpkinAddress (be_bytes 64 3)) 5 0 False (zeros 32) [2] (zeros 32)
   = TreeNote_createFromEphPub (\<lambda>p k. be_bytes 64 (be_value p * be_value k mod 256 ^ 64)) (take 32) (take 32)
      (GrumpkinAddress (be_bytes 64 3)) 5 0 False (zeros 32) (GrumpkinAddress (be_bytes 64 2)) [3] (zeros 32)"
proof (rule note_secret_agreement [where G = "be_bytes 64 1"])
  let ?mul = "\<lambda>p k. be_bytes 64 (be_value p * be_value k mod 256 ^ 64)"
  have g: "be_value (be_bytes 64 1) = 1" by (rule be_value_bytes) simp
  have m: "be_value (be_bytes 64 (x mod 256 ^ 64)) = x mod 256 ^ 64" for x
    by (rule be_value_bytes) simp
  have c: "x mod n * y mod n = y mod n * x mod n" for x y n :: nat
    unfolding mod_mult_left_eq by (simp add: mult.commute)
  show "?mul (?mul (be_bytes 64 1) a) b = ?mul (?mul (be_bytes 64 1) b) a" for a b
    using c [of "be_value a" "256 ^ 64" "be_value b"] by (simp only: m g mult_1)
  have "be_value [3] = 3" "be_value [2] = 2" by (simp_all add: be_value_def)
  then show "newGrumpkinAddress (?mul (be_bytes 64 1) [3]) = Inr (GrumpkinAddress (be_bytes 64 3))"
    "newGrumpkinAddress (?mul (be_bytes 64 1) [2]) = Inr (GrumpkinAddress (be_bytes 64 2))"
    by (simp_all add: newGrumpkinAddress_def g del: One_nat_def)
qed

text \<open>C38: Recovering notes returns one entry per viewing key, and an entry is a note exactly when the key
  decrypted and the recomputed commitment is the one on chain; the note then belongs to the
  recovering owner and consumes the nullifier on chain.\<close>

theorem recover_tree_notes_sound:
  assumes "recoverTreeNotes commit ds nuls cs owner = Inr ns" "i < length ds"
  shows "length ns = length ds
    \<and> (ns ! i = Some n \<longleftrightarrow> (\<exists>d. ds ! i = Some d \<and> n = TreeNote_recover d (nuls ! i) owner \<and> commit n = cs ! i))
    \<and> (ns ! i = Some n \<longrightarrow> tn_ownerPubKey n = owner \<and> tn_inputNullifier n = nuls ! i)"
proof -
  have len: "length ns = length ds" by (rule recoverTreeNotes_length [OF assms(1)])
  have r: "recoverTreeNote commit nuls cs owner (i, ds ! i) = Inr (ns ! i)"
    by (rule recoverTreeNotes_nth [OF assms])
  show ?thesis
  proof (cases "ds ! i")
    case None
    then show ?thesis using r len by (simp add: recoverTreeNote_def)
  next
    case (Some d)
    have "tn_ownerPubKey (TreeNote_recover d (nuls ! i) owner) = owner"
      "tn_inputNullifier (TreeNote_recover d (nuls ! i) owner) = nuls ! i"
      by (simp_all add: TreeNote_recover_def newTreeNote_def Let_def)
    moreover have "ns ! i = (if commit (TreeNote_recover d (nuls ! i) owner) = cs ! i
        then Some (TreeNote_recover d (nuls ! i) owner) else None)"
      using r Some by (simp add: recoverTreeNote_def Let_def split: if_splits)
    ultimately show ?thesis using Some len by auto
  qed
qed

theorem recover_tree_notes_sound_witness:
  "\<exists>ns. recoverTreeNotes tn_noteSecret [None, Some \<lparr>dn_data = \<lparr>vkd_value = 5, vkd_assetId = 0,
       vkd_accountRequired = False, vkd_creatorPubKey = zeros 32\<rparr>, dn_ephPubKey = GrumpkinAddress_ZERO,
       dn_noteSecret = [7]\<rparr>] [[1], [2]] [[6], [7]] GrumpkinAddress_ZERO = Inr ns
     \<and> length ns = 2 \<and> ns ! 1 \<noteq> None"
proof -
  let ?ds = "[None, Some \<lparr>dn_data = \<lparr>vkd_value = 5, vkd_assetId = 0,
       vkd_accountRequired = False, vkd_creatorPubKey = zeros 32\<rparr>, dn_ephPubKey = GrumpkinAddress_ZERO,
       dn_noteSecret = [7]\<rparr>]"
  obtain ns where n: "recoverTreeNotes tn_noteSecret ?ds [[1], [2]] [[6], [7]] GrumpkinAddress_ZERO = Inr ns"
    by (simp add: recoverTreeNotes_def recoverTreeNote_def TreeNote_recover_def newTreeNote_def)
  from recover_tree_notes_sound [OF n, of 1] n show ?thesis
    by (auto simp: TreeNote_recover_def newTreeNote_def)
qed

end
