(* ===== verification/Offchain.thy ===== *)
theory Offchain
  imports Notes
begin

text \<open>
  \<open>barretenberg.js/src/offchain_tx_data\<close>: the data published beside a rollup for the receivers of
  its transactions (account data, DeFi deposits, join-splits), its fixed-width formats, and
  \<open>sliceOffchainTxData\<close>, which cuts the concatenated data of a block by the proof ids of its
  transactions.
\<close>

section \<open>Account data\<close>

record offchainAccountData =
  oad_accountPublicKey :: grumpkinAddress
  oad_aliasHash :: aliasHash
  oad_spendingPublicKey1 :: buffer
  oad_spendingPublicKey2 :: buffer
  oad_txRefNo :: int

definition OffchainAccountData_SIZE :: nat where "OffchainAccountData_SIZE = 64 + 28 + 32 + 32 + 4"

definition newOffchainAccountData ::
  "grumpkinAddress \<Rightarrow> aliasHash \<Rightarrow> buffer \<Rightarrow> buffer \<Rightarrow> int \<Rightarrow> offchainAccountData res" where
  "newOffchainAccountData accountPublicKey aliasHash spendingPublicKey1 spendingPublicKey2 txRefNo =
    (if length spendingPublicKey1 \<noteq> 32 then Inl (Thrown ''Expect spendingPublicKey1 to be 32 bytes.'')
     else if length spendingPublicKey2 \<noteq> 32 then Inl (Thrown ''Expect spendingPublicKey2 to be 32 bytes.'')
     else Inr \<lparr>oad_accountPublicKey = accountPublicKey, oad_aliasHash = aliasHash,
               oad_spendingPublicKey1 = spendingPublicKey1, oad_spendingPublicKey2 = spendingPublicKey2,
               oad_txRefNo = txRefNo\<rparr>)"

definition OffchainAccountData_fromBuffer :: "buffer \<Rightarrow> offchainAccountData res" where
  "OffchainAccountData_fromBuffer buf =
    (if length buf \<noteq> OffchainAccountData_SIZE then Inl (Thrown ''Invalid buffer size'')
     else bindE (newGrumpkinAddress (bslice buf 0 64)) (\<lambda>accountPublicKey.
          bindE (newAliasHash (bslice buf 64 92)) (\<lambda>aliasHash.
          bindE (readUInt32BE buf 156) (\<lambda>txRefNo.
          newOffchainAccountData accountPublicKey aliasHash (bslice buf 92 124) (bslice buf 124 156) txRefNo))))"

definition OffchainAccountData_toBuffer :: "offchainAccountData \<Rightarrow> buffer res" where
  "OffchainAccountData_toBuffer d =
     bindE (numToUInt32BE (oad_txRefNo d) 4) (\<lambda>txRefNo. Inr (concat
       [GrumpkinAddress_toBuffer (oad_accountPublicKey d), AliasHash_toBuffer (oad_aliasHash d),
        oad_spendingPublicKey1 d, oad_spendingPublicKey2 d, txRefNo]))"

section \<open>DeFi claim and deposit data\<close>

definition OffchainDefiClaimData_SIZE :: nat where "OffchainDefiClaimData_SIZE = 0"

definition OffchainDefiClaimData_fromBuffer :: "buffer \<Rightarrow> unit res" where
  "OffchainDefiClaimData_fromBuffer buf =
    (if length buf \<noteq> OffchainDefiClaimData_SIZE then Inl (Thrown ''Invalid buffer size.'') else Inr ())"

record offchainDefiDepositData =
  odd_bridgeCallData :: bridgeCallData
  odd_partialState :: buffer
  odd_partialStateSecretEphPubKey :: grumpkinAddress
  odd_depositValue :: int
  odd_txFee :: int
  odd_viewingKey :: viewingKey
  odd_txRefNo :: int

definition OffchainDefiDepositData_SIZE :: nat where
  "OffchainDefiDepositData_SIZE = 32 + 32 + 64 + 32 + 32 + 144 + 4"

definition newOffchainDefiDepositData ::
  "bridgeCallData \<Rightarrow> buffer \<Rightarrow> grumpkinAddress \<Rightarrow> int \<Rightarrow> int \<Rightarrow> viewingKey \<Rightarrow> int \<Rightarrow> offchainDefiDepositData res" where
  "newOffchainDefiDepositData bridgeCallData partialState ephPubKey depositValue txFee viewingKey txRefNo =
    (if length partialState \<noteq> 32 then Inl (Thrown ''Expect partialState to be 32 bytes.'')
     else if ViewingKey_isEmpty viewingKey then Inl (Thrown ''Viewing key cannot be empty.'')
     else Inr \<lparr>odd_bridgeCallData = bridgeCallData, odd_partialState = partialState,
               odd_partialStateSecretEphPubKey = ephPubKey, odd_depositValue = depositValue,
               odd_txFee = txFee, odd_viewingKey = viewingKey, odd_txRefNo = txRefNo\<rparr>)"

definition OffchainDefiDepositData_fromBuffer :: "buffer \<Rightarrow> offchainDefiDepositData res" where
  "OffchainDefiDepositData_fromBuffer buf =
    (if length buf \<noteq> OffchainDefiDepositData_SIZE then Inl (Thrown ''Invalid buffer size.'')
     else bindE (BridgeCallData_fromBuffer (bslice buf 0 32)) (\<lambda>bridgeCallData.
          bindE (newGrumpkinAddress (bslice buf 64 128)) (\<lambda>ephPubKey.
          bindE (newViewingKey (Some (bslice buf 192 336))) (\<lambda>viewingKey.
          bindE (readUInt32BE buf 336) (\<lambda>txRefNo.
          newOffchainDefiDepositData bridgeCallData (bslice buf 32 64) ephPubKey
            (toBigIntBE (bslice buf 128 160)) (toBigIntBE (bslice buf 160 192)) viewingKey txRefNo)))))"

definition OffchainDefiDepositData_toBuffer :: "offchainDefiDepositData \<Rightarrow> buffer res" where
  "OffchainDefiDepositData_toBuffer d =
     bindE (numToUInt32BE (odd_txRefNo d) 4) (\<lambda>txRefNo. Inr (concat
       [BridgeCallData_toBuffer (odd_bridgeCallData d), odd_partialState d,
        GrumpkinAddress_toBuffer (odd_partialStateSecretEphPubKey d),
        toBufferBE (odd_depositValue d) 32, toBufferBE (odd_txFee d) 32,
        ViewingKey_toBuffer (odd_viewingKey d), txRefNo]))"

definition OffchainDefiDepositData_getViewingKeyBuffer :: "buffer \<Rightarrow> buffer" where
  "OffchainDefiDepositData_getViewingKeyBuffer buf = bslice buf 192 336"

section \<open>Join-split data\<close>

record offchainJoinSplitData =
  ojs_viewingKeys :: "viewingKey list"
  ojs_txRefNo :: int

definition OffchainJoinSplitData_SIZE :: nat where "OffchainJoinSplitData_SIZE = 144 + 144 + 4"

definition OffchainJoinSplitData_getViewingKeyBuffers :: "buffer \<Rightarrow> buffer list" where
  "OffchainJoinSplitData_getViewingKeyBuffers buf = [bslice buf 0 144, bslice buf 144 288]"

definition newOffchainJoinSplitData :: "viewingKey list \<Rightarrow> int \<Rightarrow> offchainJoinSplitData res" where
  "newOffchainJoinSplitData viewingKeys txRefNo =
    (if length viewingKeys \<noteq> 2 then Inl (Thrown ''Expect 2 viewing keys.'')
     else if list_ex ViewingKey_isEmpty viewingKeys then Inl (Thrown ''Viewing key cannot be empty.'')
     else Inr \<lparr>ojs_viewingKeys = viewingKeys, ojs_txRefNo = txRefNo\<rparr>)"

definition OffchainJoinSplitData_fromBuffer :: "buffer \<Rightarrow> offchainJoinSplitData res" where
  "OffchainJoinSplitData_fromBuffer buf =
    (if length buf \<noteq> OffchainJoinSplitData_SIZE then Inl (Thrown ''Invalid buffer size.'')
     else bindE (newViewingKey (Some (bslice buf 0 144))) (\<lambda>viewingKey0.
          bindE (newViewingKey (Some (bslice buf 144 288))) (\<lambda>viewingKey1.
          bindE (readUInt32BE buf 288) (\<lambda>txRefNo.
          newOffchainJoinSplitData [viewingKey0, viewingKey1] txRefNo))))"

definition OffchainJoinSplitData_toBuffer :: "offchainJoinSplitData \<Rightarrow> buffer res" where
  "OffchainJoinSplitData_toBuffer d =
     bindE (numToUInt32BE (ojs_txRefNo d) 4) (\<lambda>txRefNo.
       Inr (concat (map ViewingKey_toBuffer (ojs_viewingKeys d) @ [txRefNo])))"

section \<open>Slicing the offchain data of a block\<close>

definition getOffchainDataLength :: "int \<Rightarrow> nat" where
  "getOffchainDataLength proofId =
    (if proofId = DEPOSIT \<or> proofId = WITHDRAW \<or> proofId = SEND then OffchainJoinSplitData_SIZE
     else if proofId = ACCOUNT then OffchainAccountData_SIZE
     else if proofId = DEFI_DEPOSIT then OffchainDefiDepositData_SIZE
     else 0)"

text \<open>The \<open>map\<close> with its two running positions, which returns the slices and the last position.\<close>

fun sliceFrom :: "nat \<Rightarrow> int list \<Rightarrow> buffer \<Rightarrow> buffer list \<times> nat" where
  "sliceFrom dataEnd [] offchainTxData = ([], dataEnd)"
| "sliceFrom dataEnd (proofId # proofIds) offchainTxData =
    (let dataStart = dataEnd;
         dataEnd = dataEnd + getOffchainDataLength proofId;
         (slices, last) = sliceFrom dataEnd proofIds offchainTxData
     in (bslice offchainTxData dataStart dataEnd # slices, last))"

definition sliceOffchainTxData :: "int list \<Rightarrow> buffer \<Rightarrow> buffer list res" where
  "sliceOffchainTxData proofIds offchainTxData =
    (let (result, dataEnd) = sliceFrom 0 proofIds offchainTxData
     in if dataEnd \<noteq> length offchainTxData
        then Inl (Thrown ''Offchain data has unexpected length for given proof ids.'')
        else Inr result)"

section \<open>Lemmas\<close>

definition valid_offchainAccountData :: "offchainAccountData \<Rightarrow> bool" where
  "valid_offchainAccountData d \<longleftrightarrow> length (grumpkinAddress_buffer (oad_accountPublicKey d)) = 64
     \<and> length (aliasHash_buffer (oad_aliasHash d)) = 28 \<and> length (oad_spendingPublicKey1 d) = 32
     \<and> length (oad_spendingPublicKey2 d) = 32 \<and> u32 (oad_txRefNo d)"

interpretation offchain_account_codec: fixed_codec OffchainAccountData_toBuffer
  "\<lambda>b. OffchainAccountData_fromBuffer (bslice b 0 160)" valid_offchainAccountData 160
proof unfold_locales
  fix x :: offchainAccountData and b rest assume v: "valid_offchainAccountData x"
  then have u: "u32 (oad_txRefNo x)" by (simp add: valid_offchainAccountData_def)
  show "isOk (OffchainAccountData_toBuffer x)" by (simp add: OffchainAccountData_toBuffer_def numToUInt32BE_ok u)
  assume "OffchainAccountData_toBuffer x = Inr b"
  then have b: "b = grumpkinAddress_buffer (oad_accountPublicKey x) @ aliasHash_buffer (oad_aliasHash x)
      @ oad_spendingPublicKey1 x @ oad_spendingPublicKey2 x @ be_bytes 4 (nat (oad_txRefNo x))"
    by (simp add: OffchainAccountData_toBuffer_def numToUInt32BE_ok u GrumpkinAddress_toBuffer_def AliasHash_toBuffer_def)
  then show "length b = 160" using v by (simp add: valid_offchainAccountData_def)
  show "OffchainAccountData_fromBuffer (bslice (b @ rest) 0 160) = Inr x"
    using v unfolding b
    by (simp add: OffchainAccountData_fromBuffer_def OffchainAccountData_SIZE_def bslice_def readUInt32BE_def
        newGrumpkinAddress_def newAliasHash_def newOffchainAccountData_def valid_offchainAccountData_def
        be_value_u32_nat)
qed

definition valid_offchainDefiDepositData :: "offchainDefiDepositData \<Rightarrow> bool" where
  "valid_offchainDefiDepositData d \<longleftrightarrow> valid_bridgeCallData (odd_bridgeCallData d)
     \<and> length (odd_partialState d) = 32 \<and> length (grumpkinAddress_buffer (odd_partialStateSecretEphPubKey d)) = 64
     \<and> word32 (odd_depositValue d) \<and> word32 (odd_txFee d)
     \<and> length (viewingKey_buffer (odd_viewingKey d)) = 144 \<and> u32 (odd_txRefNo d)"

interpretation offchain_defi_deposit_codec: fixed_codec OffchainDefiDepositData_toBuffer
  "\<lambda>b. OffchainDefiDepositData_fromBuffer (bslice b 0 340)" valid_offchainDefiDepositData 340
proof unfold_locales
  fix x :: offchainDefiDepositData and b rest assume v: "valid_offchainDefiDepositData x"
  then have u: "u32 (odd_txRefNo x)" and vb: "valid_bridgeCallData (odd_bridgeCallData x)"
    by (simp_all add: valid_offchainDefiDepositData_def)
  show "isOk (OffchainDefiDepositData_toBuffer x)"
    by (simp add: OffchainDefiDepositData_toBuffer_def numToUInt32BE_ok u)
  assume "OffchainDefiDepositData_toBuffer x = Inr b"
  then have b: "b = BridgeCallData_toBuffer (odd_bridgeCallData x) @ odd_partialState x
      @ grumpkinAddress_buffer (odd_partialStateSecretEphPubKey x) @ toBufferBE (odd_depositValue x) 32
      @ toBufferBE (odd_txFee x) 32 @ viewingKey_buffer (odd_viewingKey x) @ be_bytes 4 (nat (odd_txRefNo x))"
    by (simp add: OffchainDefiDepositData_toBuffer_def numToUInt32BE_ok u GrumpkinAddress_toBuffer_def
        ViewingKey_toBuffer_def)
  then show "length b = 340"
    using v by (simp add: valid_offchainDefiDepositData_def word32_roundtrip bridge_buffer [OF vb])
  have "viewingKey_buffer (odd_viewingKey x) \<noteq> []" using v by (auto simp: valid_offchainDefiDepositData_def)
  then show "OffchainDefiDepositData_fromBuffer (bslice (b @ rest) 0 340) = Inr x"
    using v unfolding b
    by (simp add: OffchainDefiDepositData_fromBuffer_def OffchainDefiDepositData_SIZE_def bslice_def readUInt32BE_def
        newGrumpkinAddress_def newViewingKey_def ViewingKey_SIZE_def newOffchainDefiDepositData_def
        valid_offchainDefiDepositData_def be_value_u32_nat word32_roundtrip bridge_buffer [OF vb]
        ViewingKey_isEmpty_def)
qed

definition valid_offchainJoinSplitData :: "offchainJoinSplitData \<Rightarrow> bool" where
  "valid_offchainJoinSplitData d \<longleftrightarrow> length (ojs_viewingKeys d) = 2
     \<and> (\<forall>k\<in>set (ojs_viewingKeys d). length (viewingKey_buffer k) = 144) \<and> u32 (ojs_txRefNo d)"

interpretation offchain_join_split_codec: fixed_codec OffchainJoinSplitData_toBuffer
  "\<lambda>b. OffchainJoinSplitData_fromBuffer (bslice b 0 292)" valid_offchainJoinSplitData 292
proof unfold_locales
  fix x :: offchainJoinSplitData and b rest assume v: "valid_offchainJoinSplitData x"
  then have u: "u32 (ojs_txRefNo x)" by (simp add: valid_offchainJoinSplitData_def)
  from v obtain j k where jk: "ojs_viewingKeys x = [j, k]"
    by (auto simp: valid_offchainJoinSplitData_def length_Suc_conv eval_nat_numeral)
  show "isOk (OffchainJoinSplitData_toBuffer x)"
    by (simp add: OffchainJoinSplitData_toBuffer_def numToUInt32BE_ok u)
  assume "OffchainJoinSplitData_toBuffer x = Inr b"
  then have b: "b = viewingKey_buffer j @ viewingKey_buffer k @ be_bytes 4 (nat (ojs_txRefNo x))"
    by (simp add: OffchainJoinSplitData_toBuffer_def numToUInt32BE_ok u ViewingKey_toBuffer_def jk)
  then show "length b = 292" using v jk by (simp add: valid_offchainJoinSplitData_def)
  have "viewingKey_buffer j \<noteq> []" "viewingKey_buffer k \<noteq> []" using v jk by (auto simp: valid_offchainJoinSplitData_def)
  then show "OffchainJoinSplitData_fromBuffer (bslice (b @ rest) 0 292) = Inr x"
    using v jk unfolding b
    by (cases x) (simp add: OffchainJoinSplitData_fromBuffer_def OffchainJoinSplitData_SIZE_def bslice_def readUInt32BE_def
        newViewingKey_def ViewingKey_SIZE_def newOffchainJoinSplitData_def valid_offchainJoinSplitData_def
        be_value_u32_nat ViewingKey_isEmpty_def)
qed

lemma sliceFrom_end: "snd (sliceFrom d ids buf) = d + sum_list (map getOffchainDataLength ids)"
  by (induction ids arbitrary: d) (simp_all add: Let_def case_prod_beta)

lemma sliceFrom_concat:
  assumes "length pre = d" "map length datas = map getOffchainDataLength ids"
  shows "fst (sliceFrom d ids (pre @ concat datas @ post)) = datas"
  using assms
proof (induction ids arbitrary: pre d datas)
  case (Cons i ids)
  then obtain x xs where x: "datas = x # xs" "length x = getOffchainDataLength i"
    "map length xs = map getOffchainDataLength ids" by (auto simp: Cons_eq_map_conv)
  have "fst (sliceFrom (d + length x) ids ((pre @ x) @ concat xs @ post)) = xs"
    using Cons.prems x by (intro Cons.IH) simp_all
  moreover have "bslice (pre @ x @ concat xs @ post) d (d + length x) = x"
    using Cons.prems by (intro slice_at) simp_all
  ultimately show ?case using x by (simp add: Let_def case_prod_beta)
qed simp

lemma sliceFrom_covers:
  "d + sum_list (map getOffchainDataLength ids) \<le> length buf \<Longrightarrow>
   concat (fst (sliceFrom d ids buf)) = bslice buf d (d + sum_list (map getOffchainDataLength ids))
   \<and> map length (fst (sliceFrom d ids buf)) = map getOffchainDataLength ids"
proof (induction ids arbitrary: d)
  case (Cons i ids)
  let ?d = "d + getOffchainDataLength i"
  have "concat (fst (sliceFrom ?d ids buf)) = bslice buf ?d (?d + sum_list (map getOffchainDataLength ids))"
    "map length (fst (sliceFrom ?d ids buf)) = map getOffchainDataLength ids"
    using Cons.IH [of ?d] Cons.prems by (simp_all add: add.assoc)
  then show ?case using Cons.prems
    by (simp add: Let_def case_prod_beta bslice_concat length_bslice_in add.assoc)
qed (simp add: bslice_def)

lemma slice_concat_ok:
  "map length datas = map getOffchainDataLength ids \<Longrightarrow> sliceOffchainTxData ids (concat datas) = Inr datas"
  using sliceFrom_concat [of "[]" 0 datas ids "[]"] sliceFrom_end [of 0 ids "concat datas"]
  by (simp add: sliceOffchainTxData_def case_prod_beta length_concat)

lemma slice_ok_covers:
  assumes "sliceOffchainTxData ids buf = Inr datas"
  shows "concat datas = buf \<and> map length datas = map getOffchainDataLength ids"
proof -
  from assms have "snd (sliceFrom 0 ids buf) = length buf" and d: "datas = fst (sliceFrom 0 ids buf)"
    by (auto simp: sliceOffchainTxData_def case_prod_beta split: if_splits)
  then have "sum_list (map getOffchainDataLength ids) = length buf" by (simp add: sliceFrom_end)
  then show ?thesis using sliceFrom_covers [of 0 ids buf] d by simp
qed

section \<open>Properties\<close>

text \<open>\<open>sliceOffchainTxData\<close> succeeds exactly on buffers made of one piece per proof id, of the length
  of its kind, and then returns those pieces; every other buffer is refused with an error.\<close>

theorem slice_offchain_data_exact:
  "sliceOffchainTxData ids buf = Inr datas \<longleftrightarrow>
     concat datas = buf \<and> map length datas = map getOffchainDataLength ids"
  using slice_ok_covers [of ids buf datas] slice_concat_ok [of datas ids] by auto

text \<open>The offchain data of a DeFi deposit, of an account transaction and of a join-split survive
  encoding and decoding, at the sizes (340, 160 and 292 bytes) by which a block is sliced.\<close>

theorem offchain_data_roundtrip:
  assumes "valid_offchainDefiDepositData d" "valid_offchainAccountData a" "valid_offchainJoinSplitData j"
  shows "\<exists>bd ba bj. OffchainDefiDepositData_toBuffer d = Inr bd \<and> OffchainDefiDepositData_fromBuffer bd = Inr d
    \<and> OffchainAccountData_toBuffer a = Inr ba \<and> OffchainAccountData_fromBuffer ba = Inr a
    \<and> OffchainJoinSplitData_toBuffer j = Inr bj \<and> OffchainJoinSplitData_fromBuffer bj = Inr j
    \<and> sliceOffchainTxData [5, 4, 3] (bd @ ba @ bj) = Inr [bd, ba, bj]"
proof -
  obtain bd where bd: "OffchainDefiDepositData_toBuffer d = Inr bd" "length bd = 340"
    "OffchainDefiDepositData_fromBuffer (bslice bd 0 340) = Inr d"
    using offchain_defi_deposit_codec.roundtrip [OF assms(1)] by auto
  obtain ba where ba: "OffchainAccountData_toBuffer a = Inr ba" "length ba = 160"
    "OffchainAccountData_fromBuffer (bslice ba 0 160) = Inr a"
    using offchain_account_codec.roundtrip [OF assms(2)] by auto
  obtain bj where bj: "OffchainJoinSplitData_toBuffer j = Inr bj" "length bj = 292"
    "OffchainJoinSplitData_fromBuffer (bslice bj 0 292) = Inr j"
    using offchain_join_split_codec.roundtrip [OF assms(3)] by auto
  have "sliceOffchainTxData [5, 4, 3] (concat [bd, ba, bj]) = Inr [bd, ba, bj]"
    by (rule slice_concat_ok) (simp add: bd(2) ba(2) bj(2) getOffchainDataLength_def OffchainDefiDepositData_SIZE_def
        OffchainAccountData_SIZE_def OffchainJoinSplitData_SIZE_def)
  then show ?thesis using bd ba bj by simp
qed

theorem offchain_data_roundtrip_witness:
  "\<exists>bd. OffchainDefiDepositData_toBuffer \<lparr>odd_bridgeCallData = BridgeCallData_ZERO, odd_partialState = zeros 32,
       odd_partialStateSecretEphPubKey = GrumpkinAddress_ZERO, odd_depositValue = 10, odd_txFee = 1,
       odd_viewingKey = ViewingKey (zeros 144), odd_txRefNo = 3\<rparr> = Inr bd \<and> bd \<noteq> []"
proof -
  let ?d = "\<lparr>odd_bridgeCallData = BridgeCallData_ZERO, odd_partialState = zeros 32,
       odd_partialStateSecretEphPubKey = GrumpkinAddress_ZERO, odd_depositValue = 10, odd_txFee = 1,
       odd_viewingKey = ViewingKey (zeros 144), odd_txRefNo = 3\<rparr>"
  let ?a = "\<lparr>oad_accountPublicKey = GrumpkinAddress_ZERO, oad_aliasHash = AliasHash (zeros 28),
       oad_spendingPublicKey1 = zeros 32, oad_spendingPublicKey2 = zeros 32, oad_txRefNo = 0\<rparr>"
  let ?j = "\<lparr>ojs_viewingKeys = [ViewingKey (zeros 144), ViewingKey (zeros 144)], ojs_txRefNo = 9\<rparr>"
  have "valid_bridgeCallData BridgeCallData_ZERO"
    by (simp add: valid_bridgeCallData_def BridgeCallData_ZERO_def newBridgeCallData_def)
  then have d: "valid_offchainDefiDepositData ?d" "valid_offchainAccountData ?a" "valid_offchainJoinSplitData ?j"
    by (simp_all add: valid_offchainDefiDepositData_def valid_offchainAccountData_def valid_offchainJoinSplitData_def
        GrumpkinAddress_ZERO_def word32_def u32_def)
  obtain bd where bd: "OffchainDefiDepositData_toBuffer ?d = Inr bd" "OffchainDefiDepositData_fromBuffer bd = Inr ?d"
    using offchain_data_roundtrip [OF d] by blast
  have "bd \<noteq> []" using bd(2) by (auto simp: OffchainDefiDepositData_fromBuffer_def OffchainDefiDepositData_SIZE_def)
  with bd show ?thesis by blast
qed

end
