(* ===== verification/Blocks.thy ===== *)
theory Blocks
  imports Notes
begin

text \<open>
  \<open>barretenberg.js/src/block_source\<close>: the blocks a rollup provider serves (\<open>Block\<close>) and the events
  of the DeFi interactions in them (\<open>DefiInteractionEvent\<close>), with their variable-length formats,
  and the initial world state of \<open>rollup_provider/rollup_provider.ts\<close>.
\<close>

section \<open>DefiInteractionEvent\<close>

record defiInteractionEvent =
  die_bridgeCallData :: bridgeCallData
  die_nonce :: int
  die_totalInputValue :: int
  die_totalOutputValueA :: int
  die_totalOutputValueB :: int
  die_result :: bool
  die_errorReason :: buffer

definition DefiInteractionEvent_deserialize :: "defiInteractionEvent deserializeFn" where
  "DefiInteractionEvent_deserialize buffer offset =
    (let des = newDeserializer buffer offset;
         (bridgeCallDataBuffer, des) = des_buffer 32 des
     in bindE (BridgeCallData_fromBuffer bridgeCallDataBuffer) (\<lambda>bridgeCallData.
        bindE (des_bigInt 32 des) (\<lambda>(totalInputValue, des).
        bindE (des_bigInt 32 des) (\<lambda>(totalOutputValueA, des).
        bindE (des_bigInt 32 des) (\<lambda>(totalOutputValueB, des).
        bindE (des_uInt32 des) (\<lambda>(nonce, des).
        bindE (des_bool des) (\<lambda>(result, des).
        bindE (des_vector des) (\<lambda>(errorReason, des). Inr
          (\<lparr>die_bridgeCallData = bridgeCallData, die_nonce = nonce, die_totalInputValue = totalInputValue,
            die_totalOutputValueA = totalOutputValueA, die_totalOutputValueB = totalOutputValueB,
            die_result = result, die_errorReason = errorReason\<rparr>, des_offset des - offset)))))))))"

definition DefiInteractionEvent_toBuffer :: "defiInteractionEvent \<Rightarrow> buffer res" where
  "DefiInteractionEvent_toBuffer n =
    (let s = ser_buffer newSerializer (BridgeCallData_toBuffer (die_bridgeCallData n));
         s = ser_bigInt s (die_totalInputValue n);
         s = ser_bigInt s (die_totalOutputValueA n);
         s = ser_bigInt s (die_totalOutputValueB n)
     in bindE (ser_uInt32 s (die_nonce n)) (\<lambda>s.
        bindE (ser_bool s (die_result n)) (\<lambda>s.
        bindE (ser_vector s (die_errorReason n)) (\<lambda>s. Inr (ser_getBuffer s)))))"

definition toDefiInteractionNote :: "defiInteractionEvent \<Rightarrow> defiInteractionNote" where
  "toDefiInteractionNote e =
     \<lparr>din_bridgeCallData = die_bridgeCallData e, din_nonce = die_nonce e,
      din_totalInputValue = die_totalInputValue e, din_totalOutputValueA = die_totalOutputValueA e,
      din_totalOutputValueB = die_totalOutputValueB e, din_result = die_result e\<rparr>"

section \<open>Block\<close>

record block =
  bl_txHash :: txHash
  bl_mined :: date
  bl_rollupId :: int
  bl_rollupSize :: int
  bl_encodedRollupProofData :: buffer
  bl_offchainTxData :: "buffer list"
  bl_interactionResult :: "defiInteractionEvent list"
  bl_gasUsed :: int
  bl_gasPrice :: int
  bl_subtreeRoot :: "buffer option"

definition Block_deserialize :: "block deserializeFn" where
  "Block_deserialize buf offset =
    (let des = newDeserializer buf offset in
     bindE (des_exec TxHash_deserialize des) (\<lambda>(txHash, des).
     bindE (des_date des) (\<lambda>(mined, des).
     bindE (des_uInt32 des) (\<lambda>(rollupId, des).
     bindE (des_uInt32 des) (\<lambda>(rollupSize, des).
     bindE (des_vector des) (\<lambda>(rollupProofData, des).
     bindE (des_deserializeArray deserializeBufferFromVector des) (\<lambda>(offchainTxData, des).
     bindE (des_deserializeArray DefiInteractionEvent_deserialize des) (\<lambda>(interactionResult, des).
     bindE (des_uInt32 des) (\<lambda>(gasUsed, des).
     bindE (des_bigInt 32 des) (\<lambda>(gasPrice, des).
     bindE (des_vector des) (\<lambda>(subtreeRoot, des). Inr
       (\<lparr>bl_txHash = txHash, bl_mined = mined, bl_rollupId = rollupId, bl_rollupSize = rollupSize,
         bl_encodedRollupProofData = rollupProofData, bl_offchainTxData = offchainTxData,
         bl_interactionResult = interactionResult, bl_gasUsed = gasUsed, bl_gasPrice = gasPrice,
         bl_subtreeRoot = (if subtreeRoot = [] then None else Some subtreeRoot)\<rparr>,
        des_offset des - offset))))))))))))"

definition Block_fromBuffer :: "buffer \<Rightarrow> block res" where
  "Block_fromBuffer buf = mapR fst (Block_deserialize buf 0)"

definition Block_toBuffer :: "block \<Rightarrow> buffer res" where
  "Block_toBuffer b =
     bindE (serializeDate (bl_mined b)) (\<lambda>mined.
     bindE (numToUInt32BE (bl_rollupId b) 4) (\<lambda>rollupId.
     bindE (numToUInt32BE (bl_rollupSize b) 4) (\<lambda>rollupSize.
     bindE (serializeBufferToVector (bl_encodedRollupProofData b)) (\<lambda>proof.
     bindE (bindE (mapE serializeBufferToVector (bl_offchainTxData b)) serializeBufferArrayToVector) (\<lambda>offchain.
     bindE (bindE (mapE DefiInteractionEvent_toBuffer (bl_interactionResult b)) serializeBufferArrayToVector)
       (\<lambda>interactions.
     bindE (numToUInt32BE (bl_gasUsed b) 4) (\<lambda>gasUsed.
     bindE (serializeBufferToVector (case bl_subtreeRoot b of None \<Rightarrow> [] | Some r \<Rightarrow> r)) (\<lambda>subtreeRoot.
     Inr (concat [TxHash_toBuffer (bl_txHash b), mined, rollupId, rollupSize, proof, offchain, interactions,
                  gasUsed, serializeBigInt (bl_gasPrice b) 32, subtreeRoot])))))))))"

section \<open>The initial world state\<close>

record initialWorldState =
  iws_initialAccounts :: buffer
  iws_initialSubtreeRoots :: "buffer list"

definition initialWorldStateToBuffer :: "initialWorldState \<Rightarrow> buffer res" where
  "initialWorldStateToBuffer s =
     bindE (writeUInt32BE (int (length (iws_initialAccounts s)))) (\<lambda>accountsSizeBuf.
       Inr (concat ([accountsSizeBuf, iws_initialAccounts s] @ iws_initialSubtreeRoots s)))"

text \<open>The pieces of 32 bytes from \<open>i\<close> to the end of the buffer, the last one possibly shorter.\<close>

function subtreeRootsFrom :: "buffer \<Rightarrow> nat \<Rightarrow> buffer list" where
  "subtreeRootsFrom data i =
    (if i < length data then bslice data i (i + 32) # subtreeRootsFrom data (i + 32) else [])"
  by pat_completeness auto
termination
  by (relation "measure (\<lambda>(data, i). length data - i)") auto

declare subtreeRootsFrom.simps [simp del]

definition initialWorldStateFromBuffer :: "buffer \<Rightarrow> initialWorldState res" where
  "initialWorldStateFromBuffer data =
     bindE (readUInt32BE data 0) (\<lambda>accountsSize.
     let subTreeStart = 4 + nat accountsSize
     in Inr \<lparr>iws_initialAccounts = bslice data 4 subTreeStart,
             iws_initialSubtreeRoots = subtreeRootsFrom data subTreeStart\<rparr>)"

section \<open>Lemmas\<close>

lemma des_exec_at:
  assumes "reads fn x b" "buf = pre @ b @ post" "length pre = off"
  shows "des_exec fn (newDeserializer buf off) = Inr (x, newDeserializer buf (off + length b))"
  using des_exec_reads [OF assms(1,3)] assms(2) by simp

lemma des_buffer_at:
  assumes "buf = pre @ b @ post" "length pre = off" "length b = w"
  shows "des_buffer w (newDeserializer buf off) = (b, newDeserializer buf (off + w))"
  using des_buffer_reads [OF assms(2,3)] assms(1) by simp

lemma des_offset_new [simp]: "des_offset (newDeserializer buf off) = off"
  by (simp add: newDeserializer_def)

definition valid_interactionEvent :: "defiInteractionEvent \<Rightarrow> bool" where
  "valid_interactionEvent e \<longleftrightarrow> valid_bridgeCallData (die_bridgeCallData e) \<and> u32 (die_nonce e)
     \<and> word32 (die_totalInputValue e) \<and> word32 (die_totalOutputValueA e) \<and> word32 (die_totalOutputValueB e)"

lemma reads_bigInt32: "word32 v \<Longrightarrow> reads (deserializeBigInt 32) v (toBufferBE v 32)"
  using reads_bigInt [of v 32] by (simp add: word32_def serializeBigInt_def)

lemma reads_u32: "u32 n \<Longrightarrow> reads deserializeUInt32 n (be_bytes 4 (nat n))"
  by (rule reads_uInt32) (rule numToUInt32BE_ok)

lemma boolToByte_eq: "boolToByte c = Inr (be_bytes 1 (of_bool c))"
  by (simp add: boolToByte_def writeUInt8_def)

lemma des_bool_at:
  assumes "buf = pre @ be_bytes 1 (of_bool c) @ post" "length pre = off"
  shows "des_bool (newDeserializer buf off) = Inr (c, newDeserializer buf (off + 1))"
  using des_bool_reads [OF assms(2)] assms(1) by simp

lemma DefiInteractionEvent_toBuffer_eq:
  assumes "valid_interactionEvent e" "DefiInteractionEvent_toBuffer e = Inr b"
  shows "\<exists>r. serializeBufferToVector (die_errorReason e) = Inr r \<and>
     b = BridgeCallData_toBuffer (die_bridgeCallData e) @ toBufferBE (die_totalInputValue e) 32
       @ toBufferBE (die_totalOutputValueA e) 32 @ toBufferBE (die_totalOutputValueB e) 32
       @ be_bytes 4 (nat (die_nonce e)) @ be_bytes 1 (of_bool (die_result e)) @ r"
  using assms
  by (auto simp: DefiInteractionEvent_toBuffer_def valid_interactionEvent_def ser_buffer_def ser_push_def
      newSerializer_def ser_bigInt_def serializeBigInt_def ser_uInt32_def ser_bool_def ser_vector_def numToUInt32BE_ok
      ser_getBuffer_def boolToByte_eq bindE_eq_Inr mapR_eq_Inr simp del: be_bytes.simps)

lemma reads_interactionEvent:
  assumes v: "valid_interactionEvent e" and b: "DefiInteractionEvent_toBuffer e = Inr b"
  shows "reads DefiInteractionEvent_deserialize e b"
proof (rule readsI)
  fix pre post :: buffer and off assume off: "length pre = off"
  from DefiInteractionEvent_toBuffer_eq [OF v b] obtain r where r: "serializeBufferToVector (die_errorReason e) = Inr r"
    and b: "b = BridgeCallData_toBuffer (die_bridgeCallData e) @ toBufferBE (die_totalInputValue e) 32
       @ toBufferBE (die_totalOutputValueA e) 32 @ toBufferBE (die_totalOutputValueB e) 32
       @ be_bytes 4 (nat (die_nonce e)) @ be_bytes 1 (of_bool (die_result e)) @ r" by blast
  let ?b = "BridgeCallData_toBuffer (die_bridgeCallData e)" and ?i = "toBufferBE (die_totalInputValue e) 32"
  let ?oa = "toBufferBE (die_totalOutputValueA e) 32" and ?ob = "toBufferBE (die_totalOutputValueB e) 32"
  let ?n = "be_bytes 4 (nat (die_nonce e))" and ?f = "be_bytes 1 (of_bool (die_result e))"
  have vb: "valid_bridgeCallData (die_bridgeCallData e)" and w: "word32 (die_totalInputValue e)"
    "word32 (die_totalOutputValueA e)" "word32 (die_totalOutputValueB e)" "u32 (die_nonce e)"
    using v by (simp_all add: valid_interactionEvent_def)
  have l: "length ?b = 32" "length ?i = 32" "length ?oa = 32" "length ?ob = 32" "length ?n = 4" "length ?f = 1"
    using w bridge_buffer(1) [OF vb] by (simp_all add: word32_roundtrip del: be_bytes.simps)
  define buf where "buf = pre @ b @ post"
  have 1: "des_buffer 32 (newDeserializer buf off) = (?b, newDeserializer buf (off + 32))"
    using off l by (intro des_buffer_at [where pre = pre]) (simp_all add: buf_def b)
  have 2: "des_bigInt 32 (newDeserializer buf (off + 32)) = Inr (die_totalInputValue e, newDeserializer buf (off + 32 + 32))"
    using des_bigInt_reads [OF w(1), of "pre @ ?b" "off + 32"] off l by (simp add: buf_def b)
  have 3: "des_bigInt 32 (newDeserializer buf (off + 32 + 32))
      = Inr (die_totalOutputValueA e, newDeserializer buf (off + 32 + 32 + 32))"
    using des_bigInt_reads [OF w(2), of "pre @ ?b @ ?i" "off + 32 + 32"] off l by (simp add: buf_def b)
  have 4: "des_bigInt 32 (newDeserializer buf (off + 32 + 32 + 32))
      = Inr (die_totalOutputValueB e, newDeserializer buf (off + 32 + 32 + 32 + 32))"
    using des_bigInt_reads [OF w(3), of "pre @ ?b @ ?i @ ?oa" "off + 32 + 32 + 32"] off l by (simp add: buf_def b)
  have 5: "des_uInt32 (newDeserializer buf (off + 32 + 32 + 32 + 32))
      = Inr (die_nonce e, newDeserializer buf (off + 32 + 32 + 32 + 32 + 4))"
    using des_uInt32_reads [OF w(4), of "pre @ ?b @ ?i @ ?oa @ ?ob" "off + 32 + 32 + 32 + 32"] off l
    by (simp add: buf_def b)
  have 6: "des_bool (newDeserializer buf (off + 32 + 32 + 32 + 32 + 4))
      = Inr (die_result e, newDeserializer buf (off + 32 + 32 + 32 + 32 + 4 + 1))"
    using des_bool_at [of buf "pre @ ?b @ ?i @ ?oa @ ?ob @ ?n" "die_result e" "r @ post" "off + 32 + 32 + 32 + 32 + 4"] off l
    by (simp add: buf_def b del: be_bytes.simps)
  have 7: "des_vector (newDeserializer buf (off + 32 + 32 + 32 + 32 + 4 + 1))
      = Inr (die_errorReason e, newDeserializer buf (off + 32 + 32 + 32 + 32 + 4 + 1 + length r))"
    using des_exec_at [OF reads_vector [OF r], of buf "pre @ ?b @ ?i @ ?oa @ ?ob @ ?n @ ?f" post
        "off + 32 + 32 + 32 + 32 + 4 + 1"] off l
    by (simp add: des_vector_def buf_def b del: be_bytes.simps)
  have len: "length b = 133 + length r" using l by (simp add: b del: be_bytes.simps)
  show "DefiInteractionEvent_deserialize (pre @ b @ post) off = Inr (e, length b)"
    unfolding buf_def [symmetric] DefiInteractionEvent_deserialize_def Let_def 1 case_prod_conv
      bridge_buffer(2) [OF vb] bindE_Inr 2 3 4 5 6 7
    by (simp add: len)
qed

text \<open>
  A deserializer that stands in front of the bytes \<open>bs\<close>; each field read moves it past its own bytes.
\<close>

definition before :: "deserializer \<Rightarrow> nat \<Rightarrow> buffer \<Rightarrow> bool" where
  "before d off bs \<longleftrightarrow> des_offset d = off \<and> (\<exists>pre. des_buf d = pre @ bs \<and> length pre = off)"

lemma before_new: "length pre = off \<Longrightarrow> before (newDeserializer (pre @ bs) off) off bs"
  by (auto simp: before_def newDeserializer_def)

lemma before_exec:
  assumes "before d off (b @ rest)" "reads fn x b"
  obtains d' where "des_exec fn d = Inr (x, d')" "before d' (off + length b) rest"
proof -
  from assms(1) obtain pre where p: "des_offset d = off" "des_buf d = pre @ b @ rest" "length pre = off"
    by (auto simp: before_def)
  have "des_exec fn d = Inr (x, d\<lparr>des_offset := off + length b\<rparr>)"
    using readsD [OF assms(2) p(3), of rest] p by (simp add: des_exec_def)
  moreover have "before (d\<lparr>des_offset := off + length b\<rparr>) (off + length b) rest"
    using p by (auto simp: before_def intro: exI [of _ "pre @ b"])
  ultimately show thesis by (rule that)
qed

lemma reads_date:
  assumes "before d off (serializeBigInt t 8 @ rest)" "0 \<le> t" "t \<le> 8640000000000000"
  obtains d' where "des_date d = Inr (Some t, d')" "before d' (off + 8) rest"
proof -
  have "reads (deserializeBigInt 8) t (serializeBigInt t 8)" using assms by (intro reads_bigInt) simp_all
  from before_exec [OF assms(1) this] obtain d' where
    "des_exec (deserializeBigInt 8) d = Inr (t, d')" "before d' (off + length (serializeBigInt t 8)) rest" .
  then show thesis using assms that [of d']
    by (simp add: des_date_def des_bigInt_def newDate_def serializeBigInt_def length_toBufferBE)
qed

definition valid_block :: "block \<Rightarrow> bool" where
  "valid_block b \<longleftrightarrow> length (txHash_buffer (bl_txHash b)) = 32
     \<and> (\<exists>t. bl_mined b = Some t \<and> 0 \<le> t \<and> t \<le> 8640000000000000)
     \<and> word32 (bl_gasPrice b) \<and> list_all valid_interactionEvent (bl_interactionResult b)
     \<and> bl_subtreeRoot b \<noteq> Some []"

lemma reads_mapE:
  assumes "mapE ser xs = Inr bs" "\<And>x b. x \<in> set xs \<Longrightarrow> ser x = Inr b \<Longrightarrow> reads fn x b"
  shows "list_all2 (reads fn) xs bs"
  using assms
  by (auto simp: list_all2_conv_all_nth mapE_Inr_length dest: mapE_Inr_nth)

lemma reads_block:
  assumes v: "valid_block blk" and b: "Block_toBuffer blk = Inr b"
  shows "reads Block_deserialize blk b"
proof (rule readsI)
  fix pre post :: buffer and off assume off: "length pre = off"
  from v obtain t where t: "bl_mined blk = Some t" "0 \<le> t" "t \<le> 8640000000000000"
    and g: "word32 (bl_gasPrice blk)" and h: "length (txHash_buffer (bl_txHash blk)) = 32"
    and ev: "\<And>e. e \<in> set (bl_interactionResult blk) \<Longrightarrow> valid_interactionEvent e"
    by (auto simp: valid_block_def list_all_iff)
  let ?root = "case bl_subtreeRoot blk of None \<Rightarrow> [] | Some r \<Rightarrow> r"
  from b t obtain ri rs pf ofs of_b ins in_b gu sr where
    ri: "numToUInt32BE (bl_rollupId blk) 4 = Inr ri" and rs: "numToUInt32BE (bl_rollupSize blk) 4 = Inr rs"
    and pf: "serializeBufferToVector (bl_encodedRollupProofData blk) = Inr pf"
    and ofs: "mapE serializeBufferToVector (bl_offchainTxData blk) = Inr ofs" "serializeBufferArrayToVector ofs = Inr of_b"
    and ins: "mapE DefiInteractionEvent_toBuffer (bl_interactionResult blk) = Inr ins"
      "serializeBufferArrayToVector ins = Inr in_b"
    and gu: "numToUInt32BE (bl_gasUsed blk) 4 = Inr gu" and sr: "serializeBufferToVector ?root = Inr sr"
    and b: "b = TxHash_toBuffer (bl_txHash blk) @ serializeBigInt t 8 @ ri @ rs @ pf @ of_b @ in_b @ gu
      @ toBufferBE (bl_gasPrice blk) 32 @ sr"
    unfolding Block_toBuffer_def by (auto simp: bindE_eq_Inr serializeDate_def serializeBigInt_def)
  have d0: "before (newDeserializer (pre @ b @ post) off) off (TxHash_toBuffer (bl_txHash blk) @ serializeBigInt t 8
      @ ri @ rs @ pf @ of_b @ in_b @ gu @ toBufferBE (bl_gasPrice blk) 32 @ sr @ post)"
    using before_new [OF off, of "b @ post"] by (simp add: b)
  from before_exec [OF d0 reads_txHash [OF h]] obtain d1 where
    1: "des_exec TxHash_deserialize (newDeserializer (pre @ b @ post) off) = Inr (bl_txHash blk, d1)"
    and d1: "before d1 (off + length (TxHash_toBuffer (bl_txHash blk))) (serializeBigInt t 8
      @ ri @ rs @ pf @ of_b @ in_b @ gu @ toBufferBE (bl_gasPrice blk) 32 @ sr @ post)" .
  from reads_date [OF d1 t(2,3)] obtain d2 where 2: "des_date d1 = Inr (Some t, d2)" and
    d2: "before d2 (off + length (TxHash_toBuffer (bl_txHash blk)) + 8)
      (ri @ rs @ pf @ of_b @ in_b @ gu @ toBufferBE (bl_gasPrice blk) 32 @ sr @ post)" .
  from before_exec [OF d2 reads_uInt32 [OF ri]] obtain d3 where 3: "des_exec deserializeUInt32 d2 = Inr (bl_rollupId blk, d3)"
    and d3: "before d3 (off + length (TxHash_toBuffer (bl_txHash blk)) + 8 + length ri)
      (rs @ pf @ of_b @ in_b @ gu @ toBufferBE (bl_gasPrice blk) 32 @ sr @ post)" .
  note rest = reads_uInt32 [OF rs] reads_vector [OF pf] reads_array [OF reads_mapE [OF ofs(1) reads_vector] ofs(2)]
    reads_array [OF reads_mapE [OF ins(1) reads_interactionEvent [OF ev]] ins(2)] reads_uInt32 [OF gu]
    reads_bigInt32 [OF g] reads_vector [OF sr]
  from before_exec [OF d3 rest(1)] obtain d4 where 4: "des_exec deserializeUInt32 d3 = Inr (bl_rollupSize blk, d4)"
    and d4: "before d4 (off + length (TxHash_toBuffer (bl_txHash blk)) + 8 + length ri + length rs)
      (pf @ of_b @ in_b @ gu @ toBufferBE (bl_gasPrice blk) 32 @ sr @ post)" .
  from before_exec [OF d4 rest(2)] obtain d5 o5 where
    5: "des_exec deserializeBufferFromVector d4 = Inr (bl_encodedRollupProofData blk, d5)" and
    o5: "o5 = off + length (TxHash_toBuffer (bl_txHash blk)) + 8 + length ri + length rs + length pf" and
    d5: "before d5 o5 (of_b @ in_b @ gu @ toBufferBE (bl_gasPrice blk) 32 @ sr @ post)" by blast
  from before_exec [OF d5 rest(3)] obtain d6 where
    6: "des_exec (deserializeArrayFromVector deserializeBufferFromVector) d5 = Inr (bl_offchainTxData blk, d6)" and
    d6: "before d6 (o5 + length of_b) (in_b @ gu @ toBufferBE (bl_gasPrice blk) 32 @ sr @ post)" by blast
  from before_exec [OF d6 rest(4)] obtain d7 where
    7: "des_exec (deserializeArrayFromVector DefiInteractionEvent_deserialize) d6 = Inr (bl_interactionResult blk, d7)" and
    d7: "before d7 (o5 + length of_b + length in_b) (gu @ toBufferBE (bl_gasPrice blk) 32 @ sr @ post)" by blast
  from before_exec [OF d7 rest(5)] obtain d8 where
    8: "des_exec deserializeUInt32 d7 = Inr (bl_gasUsed blk, d8)" and
    d8: "before d8 (o5 + length of_b + length in_b + length gu) (toBufferBE (bl_gasPrice blk) 32 @ sr @ post)" .
  from before_exec [OF d8 rest(6)] obtain d9 where
    9: "des_exec (deserializeBigInt 32) d8 = Inr (bl_gasPrice blk, d9)" and
    d9: "before d9 (o5 + length of_b + length in_b + length gu + length (toBufferBE (bl_gasPrice blk) 32)) (sr @ post)" .
  from before_exec [OF d9 rest(7)] obtain d10 where
    10: "des_exec deserializeBufferFromVector d9 = Inr (?root, d10)" and
    d10: "before d10 (o5 + length of_b + length in_b + length gu + length (toBufferBE (bl_gasPrice blk) 32) + length sr) post" .
  have "length (toBufferBE t 8) = 8" using t by (intro length_toBufferBE) simp_all
  then have "des_offset d10 = off + length b"
    using d10 by (simp add: before_def b o5 serializeBigInt_def)
  moreover have "(if ?root = [] then None else Some ?root) = bl_subtreeRoot blk"
    using v by (auto simp: valid_block_def split: option.splits)
  ultimately show "Block_deserialize (pre @ b @ post) off = Inr (blk, length b)"
    unfolding Block_deserialize_def Let_def des_uInt32_def des_vector_def des_deserializeArray_def des_bigInt_def
      1 2 3 4 5 6 7 8 9 10 bindE_Inr case_prod_conv
    using t by (cases blk) simp
qed

lemma subtreeRootsFrom_concat:
  assumes "\<forall>r\<in>set roots. length r = 32" "length pre = i"
  shows "subtreeRootsFrom (pre @ concat roots) i = roots"
  using assms
proof (induction roots arbitrary: pre i)
  case (Cons r roots)
  have "subtreeRootsFrom ((pre @ r) @ concat roots) (i + 32) = roots" using Cons by (intro Cons.IH) simp_all
  moreover have "bslice (pre @ r @ concat roots) i (i + 32) = r" using Cons by (intro slice_at) simp_all
  ultimately show ?case using Cons by (subst subtreeRootsFrom.simps) simp
qed (simp add: subtreeRootsFrom.simps)

section \<open>Properties\<close>

text \<open>A block is served in the binary format and read back unchanged: rollup proof, offchain data,
  interaction events, gas and the optional subtree root, at any place of a longer buffer.\<close>

theorem block_roundtrip:
  assumes "valid_block b" "Block_toBuffer b = Inr buf"
  shows "Block_deserialize (pre @ buf @ post) (length pre) = Inr (b, length buf) \<and> Block_fromBuffer buf = Inr b"
  using readsD [OF reads_block [OF assms] refl, of pre post] readsD [OF reads_block [OF assms] refl, of "[]" "[]"]
  by (simp add: Block_fromBuffer_def)

theorem block_roundtrip_witness:
  "\<exists>buf. Block_toBuffer \<lparr>bl_txHash = TxHash (zeros 32), bl_mined = Some 1660000000000, bl_rollupId = 3,
       bl_rollupSize = 28, bl_encodedRollupProofData = [1, 2], bl_offchainTxData = [[7], []],
       bl_interactionResult = [], bl_gasUsed = 500000, bl_gasPrice = 30000000000, bl_subtreeRoot = None\<rparr> = Inr buf
     \<and> mapR bl_rollupId (Block_fromBuffer buf) = Inr 3"
proof -
  let ?b = "\<lparr>bl_txHash = TxHash (zeros 32), bl_mined = Some 1660000000000, bl_rollupId = 3,
       bl_rollupSize = 28, bl_encodedRollupProofData = [1, 2], bl_offchainTxData = [[7], []],
       bl_interactionResult = [], bl_gasUsed = 500000, bl_gasPrice = 30000000000, bl_subtreeRoot = None\<rparr>"
  obtain buf where b: "Block_toBuffer ?b = Inr buf"
    by (simp add: Block_toBuffer_def serializeDate_def numToUInt32BE_def serializeBufferToVector_def
        serializeBufferArrayToVector_def)
  moreover have "valid_block ?b" by (simp add: valid_block_def word32_def)
  ultimately show ?thesis using block_roundtrip [of ?b buf "[]" "[]"] by simp
qed

text \<open>The initial accounts and the initial subtree roots of the world state come back from their
  buffer unchanged, when every root has 32 bytes.\<close>

theorem initial_world_state_roundtrip:
  assumes "\<forall>r\<in>set (iws_initialSubtreeRoots s). length r = 32" "initialWorldStateToBuffer s = Inr buf"
  shows "initialWorldStateFromBuffer buf = Inr s"
proof -
  let ?a = "iws_initialAccounts s"
  from assms(2) obtain l where l: "writeUInt32BE (int (length ?a)) = Inr l"
    and b: "buf = l @ ?a @ concat (iws_initialSubtreeRoots s)"
    by (auto simp: initialWorldStateToBuffer_def bindE_eq_Inr)
  have r: "readUInt32BE buf 0 = Inr (int (length ?a))"
    using readUInt32BE_write [OF l, of "[]" 0] by (simp add: b)
  have "bslice (l @ ?a @ concat (iws_initialSubtreeRoots s)) 4 (4 + length ?a) = ?a"
    using writeUInt32BE_length [OF l] by (intro slice_at) simp_all
  moreover have "subtreeRootsFrom ((l @ ?a) @ concat (iws_initialSubtreeRoots s)) (4 + length ?a)
      = iws_initialSubtreeRoots s"
    using assms(1) writeUInt32BE_length [OF l] by (intro subtreeRootsFrom_concat) simp_all
  ultimately show ?thesis using r by (simp add: initialWorldStateFromBuffer_def Let_def b)
qed

theorem initial_world_state_roundtrip_witness:
  "initialWorldStateFromBuffer (be_bytes 4 2 @ [1, 2] @ zeros 32)
     = Inr \<lparr>iws_initialAccounts = [1, 2], iws_initialSubtreeRoots = [zeros 32]\<rparr>"
  using initial_world_state_roundtrip [of "\<lparr>iws_initialAccounts = [1, 2], iws_initialSubtreeRoots = [zeros 32]\<rparr>"
      "be_bytes 4 2 @ [1, 2] @ zeros 32"]
  by (simp add: initialWorldStateToBuffer_def del: be_bytes.simps)

end
