(* ===== verification/ClientTx.thy ===== *)
theory ClientTx
  imports Blocks
begin

text \<open>
  The transactions a client hands to the proof builders of \<open>barretenberg.js/src/client_proofs\<close>:
  \<open>HashPath\<close> (\<open>merkle_tree/hash_path.ts\<close>), \<open>JoinSplitTx\<close> and \<open>AccountTx\<close>, with their
  variable-length formats.
\<close>

section \<open>HashPath\<close>

type_synonym hashPath = "buffer list list"

definition pathElement :: "buffer list \<Rightarrow> buffer res" where
  "pathElement nodes = bindE (indexE nodes 0) (\<lambda>l. bindE (indexE nodes 1) (\<lambda>r. Inr (l @ r)))"

fun zeroPath :: "(buffer \<Rightarrow> buffer \<Rightarrow> buffer) \<Rightarrow> nat \<Rightarrow> buffer \<Rightarrow> hashPath" where
  "zeroPath compress 0 current = []"
| "zeroPath compress (Suc n) current = [current, current] # zeroPath compress n (compress current current)"

definition HashPath_ZERO :: "nat \<Rightarrow> buffer \<Rightarrow> (buffer \<Rightarrow> buffer \<Rightarrow> buffer) \<Rightarrow> hashPath" where
  "HashPath_ZERO n zeroElement compress = zeroPath compress n zeroElement"

definition HashPath_toBuffer :: "hashPath \<Rightarrow> buffer res" where
  "HashPath_toBuffer path = bindE (mapE pathElement path) serializeBufferArrayToVector"

definition deserializePath :: "buffer list deserializeFn" where
  "deserializePath buf offset =
     Inr ([bslice buf offset (offset + 32), bslice buf (offset + 32) (offset + 64)], 64)"

definition HashPath_deserialize :: "hashPath deserializeFn" where
  "HashPath_deserialize buf offset = deserializeArrayFromVector deserializePath buf offset"

definition HashPath_fromBuffer :: "buffer \<Rightarrow> nat \<Rightarrow> hashPath res" where
  "HashPath_fromBuffer buf offset = mapR fst (HashPath_deserialize buf offset)"

definition HashPath_toString :: "hashPath \<Rightarrow> string res" where
  "HashPath_toString path = mapR bufferToHex (HashPath_toBuffer path)"

definition HashPath_fromString :: "string \<Rightarrow> hashPath res" where
  "HashPath_fromString repr = HashPath_fromBuffer (bufferFromHex repr) 0"

section \<open>JoinSplitTx\<close>

record joinSplitTx =
  js_proofId :: int
  js_publicValue :: int
  js_publicOwner :: ethAddress
  js_publicAssetId :: int
  js_numInputNotes :: int
  js_inputNoteIndices :: "int list"
  js_merkleRoot :: buffer
  js_inputNotePaths :: "hashPath list"
  js_inputNotes :: "treeNote list"
  js_outputNotes :: "treeNote list"
  js_claimNote :: claimNoteTxData
  js_accountPrivateKey :: buffer
  js_aliasHash :: aliasHash
  js_accountRequired :: bool
  js_accountIndex :: int
  js_accountPath :: hashPath
  js_spendingPublicKey :: grumpkinAddress
  js_backwardLink :: buffer
  js_allowChain :: int
  js_signature :: schnorrSignature

definition JoinSplitTx_toBuffer :: "joinSplitTx \<Rightarrow> buffer res" where
  "JoinSplitTx_toBuffer tx =
     bindE (numToUInt32BE (js_proofId tx) 4) (\<lambda>proofId.
     bindE (numToUInt32BE (js_publicAssetId tx) 4) (\<lambda>publicAssetId.
     bindE (numToUInt32BE (js_numInputNotes tx) 4) (\<lambda>numInputNotes.
     bindE (bindE (indexE (js_inputNoteIndices tx) 0) (\<lambda>i. numToUInt32BE i 4)) (\<lambda>index0.
     bindE (bindE (indexE (js_inputNoteIndices tx) 1) (\<lambda>i. numToUInt32BE i 4)) (\<lambda>index1.
     bindE (bindE (indexE (js_inputNotePaths tx) 0) HashPath_toBuffer) (\<lambda>path0.
     bindE (bindE (indexE (js_inputNotePaths tx) 1) HashPath_toBuffer) (\<lambda>path1.
     bindE (bindE (indexE (js_inputNotes tx) 0) TreeNote_toBuffer) (\<lambda>input0.
     bindE (bindE (indexE (js_inputNotes tx) 1) TreeNote_toBuffer) (\<lambda>input1.
     bindE (bindE (indexE (js_outputNotes tx) 0) TreeNote_toBuffer) (\<lambda>output0.
     bindE (bindE (indexE (js_outputNotes tx) 1) TreeNote_toBuffer) (\<lambda>output1.
     bindE (numToUInt32BE (js_accountIndex tx) 4) (\<lambda>accountIndex.
     bindE (HashPath_toBuffer (js_accountPath tx)) (\<lambda>accountPath.
     bindE (numToUInt32BE (js_allowChain tx) 4) (\<lambda>allowChain.
     Inr (concat
       [proofId, toBufferBE (js_publicValue tx) 32, EthAddress_toBuffer32 (js_publicOwner tx), publicAssetId,
        numInputNotes, index0, index1, js_merkleRoot tx, path0, path1, input0, input1, output0, output1,
        ClaimNoteTxData_toBuffer (js_claimNote tx), js_accountPrivateKey tx, AliasHash_toBuffer32 (js_aliasHash tx),
        boolByte (js_accountRequired tx), accountIndex, accountPath, GrumpkinAddress_toBuffer (js_spendingPublicKey tx),
        js_backwardLink tx, allowChain, SchnorrSignature_toBuffer (js_signature tx)])))))))))))))))"

definition JoinSplitTx_fromBuffer :: "buffer \<Rightarrow> joinSplitTx res" where
  "JoinSplitTx_fromBuffer buf =
    (let dataStart = 0 in
     bindE (readUInt32BE buf dataStart) (\<lambda>proofId.
     let dataStart = dataStart + 4; publicValue = toBigIntBE (bslice buf dataStart (dataStart + 32));
         dataStart = dataStart + 32 in
     bindE (newEthAddress (bslice buf dataStart (dataStart + 32))) (\<lambda>publicOwner.
     let dataStart = dataStart + 32 in
     bindE (readUInt32BE buf dataStart) (\<lambda>publicAssetId.
     let dataStart = dataStart + 4 in
     bindE (readUInt32BE buf dataStart) (\<lambda>numInputNotes.
     let dataStart = dataStart + 4 in
     bindE (readUInt32BE buf dataStart) (\<lambda>index0.
     bindE (readUInt32BE buf (dataStart + 4)) (\<lambda>index1.
     let dataStart = dataStart + 8; merkleRoot = bslice buf dataStart (dataStart + 32);
         dataStart = dataStart + 32 in
     bindE (HashPath_deserialize buf dataStart) (\<lambda>(path0, adv).
     let dataStart = dataStart + adv in
     bindE (HashPath_deserialize buf dataStart) (\<lambda>(path1, adv).
     let dataStart = dataStart + adv in
     bindE (TreeNote_fromBuffer (drop dataStart buf)) (\<lambda>inputNote0.
     let dataStart = dataStart + TreeNote_SIZE in
     bindE (TreeNote_fromBuffer (drop dataStart buf)) (\<lambda>inputNote1.
     let dataStart = dataStart + TreeNote_SIZE in
     bindE (TreeNote_fromBuffer (drop dataStart buf)) (\<lambda>outputNote0.
     let dataStart = dataStart + TreeNote_SIZE in
     bindE (TreeNote_fromBuffer (drop dataStart buf)) (\<lambda>outputNote1.
     let dataStart = dataStart + TreeNote_SIZE in
     bindE (ClaimNoteTxData_fromBuffer (drop dataStart buf)) (\<lambda>claimNote.
     let dataStart = dataStart + 128; accountPrivateKey = bslice buf dataStart (dataStart + 32);
         dataStart = dataStart + 32 in
     bindE (newAliasHash (bslice buf (dataStart + 4) (dataStart + 32))) (\<lambda>aliasHash.
     let dataStart = dataStart + 32; accountRequired = byteFlag buf dataStart;
         dataStart = dataStart + 1 in
     bindE (readUInt32BE buf dataStart) (\<lambda>accountIndex.
     let dataStart = dataStart + 4 in
     bindE (HashPath_deserialize buf dataStart) (\<lambda>(accountPath, adv).
     let dataStart = dataStart + adv in
     bindE (newGrumpkinAddress (bslice buf dataStart (dataStart + 64))) (\<lambda>spendingPublicKey.
     let dataStart = dataStart + 64; backwardLink = bslice buf dataStart (dataStart + 32);
         dataStart = dataStart + 32 in
     bindE (readUInt32BE buf dataStart) (\<lambda>allowChain.
     let dataStart = dataStart + 4 in
     bindE (newSchnorrSignature (drop dataStart buf)) (\<lambda>signature. Inr
       \<lparr>js_proofId = proofId, js_publicValue = publicValue, js_publicOwner = publicOwner,
        js_publicAssetId = publicAssetId, js_numInputNotes = numInputNotes, js_inputNoteIndices = [index0, index1],
        js_merkleRoot = merkleRoot, js_inputNotePaths = [path0, path1], js_inputNotes = [inputNote0, inputNote1],
        js_outputNotes = [outputNote0, outputNote1], js_claimNote = claimNote,
        js_accountPrivateKey = accountPrivateKey, js_aliasHash = aliasHash, js_accountRequired = accountRequired,
        js_accountIndex = accountIndex, js_accountPath = accountPath, js_spendingPublicKey = spendingPublicKey,
        js_backwardLink = backwardLink, js_allowChain = allowChain, js_signature = signature\<rparr>))))))))))))))))))))"

section \<open>AccountTx\<close>

record accountTx =
  at_merkleRoot :: buffer
  at_accountPublicKey :: grumpkinAddress
  at_newAccountPublicKey :: grumpkinAddress
  at_newSpendingPublicKey1 :: grumpkinAddress
  at_newSpendingPublicKey2 :: grumpkinAddress
  at_aliasHash :: aliasHash
  at_create :: bool
  at_migrate :: bool
  at_accountIndex :: int
  at_accountPath :: hashPath
  at_spendingPublicKey :: grumpkinAddress

definition AccountTx_toBuffer :: "accountTx \<Rightarrow> buffer res" where
  "AccountTx_toBuffer tx =
     bindE (numToUInt32BE (at_accountIndex tx) 4) (\<lambda>accountIndex.
     bindE (HashPath_toBuffer (at_accountPath tx)) (\<lambda>accountPath.
     Inr (concat
       [at_merkleRoot tx, GrumpkinAddress_toBuffer (at_accountPublicKey tx),
        GrumpkinAddress_toBuffer (at_newAccountPublicKey tx), GrumpkinAddress_toBuffer (at_newSpendingPublicKey1 tx),
        GrumpkinAddress_toBuffer (at_newSpendingPublicKey2 tx), AliasHash_toBuffer32 (at_aliasHash tx),
        boolByte (at_create tx), boolByte (at_migrate tx), accountIndex, accountPath,
        GrumpkinAddress_toBuffer (at_spendingPublicKey tx)])))"

definition AccountTx_fromBuffer :: "buffer \<Rightarrow> accountTx res" where
  "AccountTx_fromBuffer buf =
    (let dataStart = 0; merkleRoot = bslice buf dataStart (dataStart + 32); dataStart = dataStart + 32 in
     bindE (newGrumpkinAddress (bslice buf dataStart (dataStart + 64))) (\<lambda>accountPublicKey.
     let dataStart = dataStart + 64 in
     bindE (newGrumpkinAddress (bslice buf dataStart (dataStart + 64))) (\<lambda>newAccountPublicKey.
     let dataStart = dataStart + 64 in
     bindE (newGrumpkinAddress (bslice buf dataStart (dataStart + 64))) (\<lambda>newSpendingPublicKey1.
     let dataStart = dataStart + 64 in
     bindE (newGrumpkinAddress (bslice buf dataStart (dataStart + 64))) (\<lambda>newSpendingPublicKey2.
     let dataStart = dataStart + 64 in
     bindE (newAliasHash (bslice buf (dataStart + 4) (dataStart + 32))) (\<lambda>aliasHash.
     let dataStart = dataStart + 32; create = byteFlag buf dataStart; dataStart = dataStart + 1;
         migrate = byteFlag buf dataStart; dataStart = dataStart + 1 in
     bindE (readUInt32BE buf dataStart) (\<lambda>accountIndex.
     let dataStart = dataStart + 4 in
     bindE (HashPath_deserialize buf dataStart) (\<lambda>(accountPath, adv).
     let dataStart = dataStart + adv in
     bindE (newGrumpkinAddress (bslice buf dataStart (dataStart + 64))) (\<lambda>spendingPublicKey. Inr
       \<lparr>at_merkleRoot = merkleRoot, at_accountPublicKey = accountPublicKey,
        at_newAccountPublicKey = newAccountPublicKey, at_newSpendingPublicKey1 = newSpendingPublicKey1,
        at_newSpendingPublicKey2 = newSpendingPublicKey2, at_aliasHash = aliasHash, at_create = create,
        at_migrate = migrate, at_accountIndex = accountIndex, at_accountPath = accountPath,
        at_spendingPublicKey = spendingPublicKey\<rparr>)))))))))"

section \<open>Reading a buffer field by field\<close>

text \<open>The cursor \<open>off\<close> of a decoder stands in front of the bytes \<open>bs\<close>.\<close>

definition at :: "buffer \<Rightarrow> nat \<Rightarrow> buffer \<Rightarrow> bool" where
  "at buf off bs \<longleftrightarrow> off \<le> length buf \<and> drop off buf = bs"

lemma at_start: "buf = bs \<Longrightarrow> at buf 0 bs"
  by (simp add: at_def)

lemma at_next: "at buf off (b @ rest) \<Longrightarrow> length b = w \<Longrightarrow> at buf (off + w) rest"
  by (auto simp: at_def add.commute [of off] drop_drop [symmetric] dest: arg_cong [of _ _ length] simp del: drop_drop)

lemma at_slice: "at buf off (b @ rest) \<Longrightarrow> length b = w \<Longrightarrow> bslice buf off (off + w) = b"
  by (simp add: at_def bslice_def)

lemma at_last: "at buf off b \<Longrightarrow> length b = w \<Longrightarrow> bslice buf off (off + w) = b"
  by (simp add: at_def bslice_def)

lemma at_u32: "at buf off (be_bytes 4 (nat n) @ rest) \<Longrightarrow> u32 n \<Longrightarrow> readUInt32BE buf off = Inr n"
proof -
  assume a: "at buf off (be_bytes 4 (nat n) @ rest)" and n: "u32 n"
  have "length (drop off buf) = 4 + length rest" using a by (simp add: at_def del: be_bytes.simps)
  then have "off + 4 \<le> length buf" by simp
  then show ?thesis using at_slice [OF a] n by (simp add: readUInt32BE_def be_value_u32_nat)
qed

lemma at_reads: "at buf off (b @ rest) \<Longrightarrow> reads fn x b \<Longrightarrow> fn buf off = Inr (x, length b)"
  using readsD [of fn x b "take off buf" off rest] append_take_drop_id [of off buf] by (simp add: at_def)

lemma at_flag: "at buf off (boolByte c @ rest) \<Longrightarrow> byteFlag buf off = c"
proof -
  assume a: "at buf off (boolByte c @ rest)"
  then have "buf = take off buf @ boolByte c @ rest" "length (take off buf) = off"
    using append_take_drop_id [of off buf] by (simp_all add: at_def)
  then show ?thesis using byteFlag_boolByte [of "take off buf" c rest] by simp
qed

lemma at_drop: "at buf off bs \<Longrightarrow> drop off buf = bs"
  by (simp add: at_def)

lemma at_aliasHash:
  assumes "at buf off (AliasHash_toBuffer32 a @ rest)" "length (aliasHash_buffer a) = 28"
  shows "newAliasHash (bslice buf (off + 4) (off + 32)) = Inr a"
proof -
  have e: "AliasHash_toBuffer32 a = zeros 4 @ aliasHash_buffer a"
    using assms(2) by (simp add: AliasHash_toBuffer32_def)
  have "at buf (off + 4) (aliasHash_buffer a @ rest)" 
    using assms(1) e by (intro at_next [where b = "zeros 4"]) simp_all
  from at_slice [OF this assms(2)] assms(2) show ?thesis by (cases a) (simp add: newAliasHash_def add.commute)
qed

section \<open>Round trips\<close>

definition valid_hashPath :: "hashPath \<Rightarrow> bool" where
  "valid_hashPath path \<longleftrightarrow> list_all (\<lambda>nodes. length nodes = 2 \<and> list_all (\<lambda>b. length b = 32) nodes) path"

lemma reads_path:
  assumes "length nodes = 2" "list_all (\<lambda>b. length b = 32) nodes" "pathElement nodes = Inr b"
  shows "reads deserializePath nodes b"
proof (rule readsI)
  fix pre post :: buffer and off assume off: "length pre = off"
  from assms(1) obtain l r where n: "nodes = [l, r]" by (auto simp: numeral_2_eq_2 length_Suc_conv)
  have len: "length l = 32" "length r = 32" and b: "b = l @ r"
    using assms n by (simp_all add: pathElement_def indexE_def)
  have "bslice (pre @ l @ r @ post) off (off + 32) = l" using off len by (intro slice_at) simp_all
  moreover have "bslice ((pre @ l) @ r @ post) (off + 32) (off + 64) = r" using off len by (intro slice_at) simp_all
  ultimately show "deserializePath (pre @ b @ post) off = Inr (nodes, length b)"
    using len by (simp add: deserializePath_def b n)
qed

lemma reads_hashPath:
  assumes "valid_hashPath path" "HashPath_toBuffer path = Inr b"
  shows "reads HashPath_deserialize path b"
proof -
  from assms(2) obtain bs where bs: "mapE pathElement path = Inr bs" "serializeBufferArrayToVector bs = Inr b"
    by (auto simp: HashPath_toBuffer_def bindE_eq_Inr)
  have "list_all2 (reads deserializePath) path bs"
    using assms(1) by (intro reads_mapE [OF bs(1)] reads_path) (auto simp: valid_hashPath_def list_all_iff)
  from reads_array [OF this bs(2)] show ?thesis by (simp add: HashPath_deserialize_def [abs_def])
qed

definition valid_accountTx :: "accountTx \<Rightarrow> bool" where
  "valid_accountTx tx \<longleftrightarrow> length (at_merkleRoot tx) = 32 \<and> length (grumpkinAddress_buffer (at_accountPublicKey tx)) = 64
     \<and> length (grumpkinAddress_buffer (at_newAccountPublicKey tx)) = 64
     \<and> length (grumpkinAddress_buffer (at_newSpendingPublicKey1 tx)) = 64
     \<and> length (grumpkinAddress_buffer (at_newSpendingPublicKey2 tx)) = 64
     \<and> length (aliasHash_buffer (at_aliasHash tx)) = 28 \<and> valid_hashPath (at_accountPath tx)
     \<and> length (grumpkinAddress_buffer (at_spendingPublicKey tx)) = 64"

lemma newGrumpkin_at: "length (grumpkinAddress_buffer a) = 64 \<Longrightarrow> newGrumpkinAddress (GrumpkinAddress_toBuffer a) = Inr a"
  by (cases a) (simp add: newGrumpkinAddress_def GrumpkinAddress_toBuffer_def)

lemma AccountTx_decode:
  assumes v: "valid_accountTx tx" and b: "AccountTx_toBuffer tx = Inr buf"
  shows "AccountTx_fromBuffer buf = Inr tx"
proof -
  note v = v [unfolded valid_accountTx_def]
  from b obtain path where p: "HashPath_toBuffer (at_accountPath tx) = Inr path" and n: "u32 (at_accountIndex tx)"
    and b: "buf = at_merkleRoot tx @ GrumpkinAddress_toBuffer (at_accountPublicKey tx)
      @ GrumpkinAddress_toBuffer (at_newAccountPublicKey tx) @ GrumpkinAddress_toBuffer (at_newSpendingPublicKey1 tx)
      @ GrumpkinAddress_toBuffer (at_newSpendingPublicKey2 tx) @ AliasHash_toBuffer32 (at_aliasHash tx)
      @ boolByte (at_create tx) @ boolByte (at_migrate tx) @ be_bytes 4 (nat (at_accountIndex tx)) @ path
      @ GrumpkinAddress_toBuffer (at_spendingPublicKey tx)"
    by (auto simp: AccountTx_toBuffer_def bindE_eq_Inr numToUInt32BE_u32)
  have l: "length (at_merkleRoot tx) = 32" "length (GrumpkinAddress_toBuffer (at_accountPublicKey tx)) = 64"
    "length (GrumpkinAddress_toBuffer (at_newAccountPublicKey tx)) = 64"
    "length (GrumpkinAddress_toBuffer (at_newSpendingPublicKey1 tx)) = 64"
    "length (GrumpkinAddress_toBuffer (at_newSpendingPublicKey2 tx)) = 64"
    "length (AliasHash_toBuffer32 (at_aliasHash tx)) = 32"
    "length (GrumpkinAddress_toBuffer (at_spendingPublicKey tx)) = 64"
    using v by (simp_all add: GrumpkinAddress_toBuffer_def AliasHash_toBuffer32_def)
  note a0 = at_start [OF b]
  note a1 = at_next [OF a0 l(1)] note a2 = at_next [OF a1 l(2)] note a3 = at_next [OF a2 l(3)]
  note a4 = at_next [OF a3 l(4)] note a5 = at_next [OF a4 l(5)] note a6 = at_next [OF a5 l(6)]
  note a7 = at_next [OF a6 length_boolByte] note a8 = at_next [OF a7 length_boolByte]
  note a9 = at_next [OF a8 length_be_bytes] note a10 = at_next [OF a9 refl]
  have h: "length (aliasHash_buffer (at_aliasHash tx)) = 28" and vp: "valid_hashPath (at_accountPath tx)"
    using v by simp_all
  have g: "newGrumpkinAddress (GrumpkinAddress_toBuffer (at_accountPublicKey tx)) = Inr (at_accountPublicKey tx)"
    "newGrumpkinAddress (GrumpkinAddress_toBuffer (at_newAccountPublicKey tx)) = Inr (at_newAccountPublicKey tx)"
    "newGrumpkinAddress (GrumpkinAddress_toBuffer (at_newSpendingPublicKey1 tx)) = Inr (at_newSpendingPublicKey1 tx)"
    "newGrumpkinAddress (GrumpkinAddress_toBuffer (at_newSpendingPublicKey2 tx)) = Inr (at_newSpendingPublicKey2 tx)"
    "newGrumpkinAddress (GrumpkinAddress_toBuffer (at_spendingPublicKey tx)) = Inr (at_spendingPublicKey tx)"
    using v by (simp_all add: newGrumpkin_at)
  show ?thesis
    unfolding AccountTx_fromBuffer_def Let_def at_slice [OF a0 l(1)] at_slice [OF a1 l(2)] at_slice [OF a2 l(3)]
      at_slice [OF a3 l(4)] at_slice [OF a4 l(5)] at_flag [OF a6] at_flag [OF a7] g bindE_Inr at_aliasHash [OF a5 h]
      at_u32 [OF a8 n] at_reads [OF a9 reads_hashPath [OF vp p]] case_prod_conv at_last [OF a10 l(7)]
    by simp
qed

definition valid_joinSplitTx :: "joinSplitTx \<Rightarrow> bool" where
  "valid_joinSplitTx tx \<longleftrightarrow> word32 (js_publicValue tx) \<and> valid_ethAddress (js_publicOwner tx)
     \<and> length (js_inputNoteIndices tx) = 2 \<and> length (js_merkleRoot tx) = 32
     \<and> length (js_inputNotePaths tx) = 2 \<and> list_all valid_hashPath (js_inputNotePaths tx)
     \<and> length (js_inputNotes tx) = 2 \<and> list_all valid_treeNote (js_inputNotes tx)
     \<and> length (js_outputNotes tx) = 2 \<and> list_all valid_treeNote (js_outputNotes tx)
     \<and> valid_claimNoteTxData (js_claimNote tx) \<and> length (js_accountPrivateKey tx) = 32
     \<and> length (aliasHash_buffer (js_aliasHash tx)) = 28 \<and> valid_hashPath (js_accountPath tx)
     \<and> length (grumpkinAddress_buffer (js_spendingPublicKey tx)) = 64 \<and> length (js_backwardLink tx) = 32
     \<and> length (schnorrSignature_buffer (js_signature tx)) = 64"

lemma length2E: "length xs = 2 \<Longrightarrow> (\<And>a b. xs = [a, b] \<Longrightarrow> P) \<Longrightarrow> P"
  by (auto simp: numeral_2_eq_2 length_Suc_conv)

lemma at_treeNote:
  "at buf off (b @ rest) \<Longrightarrow> valid_treeNote n \<Longrightarrow> TreeNote_toBuffer n = Inr b \<Longrightarrow>
     TreeNote_fromBuffer (drop off buf) = Inr n"
  using tree_note_codec.dec_enc [of n b rest] by (simp add: at_drop)

lemma newSignature_at: "length (schnorrSignature_buffer a) = 64 \<Longrightarrow> newSchnorrSignature (SchnorrSignature_toBuffer a) = Inr a"
  by (cases a) (simp add: newSchnorrSignature_def SchnorrSignature_toBuffer_def)

lemma JoinSplitTx_decode:
  assumes v: "valid_joinSplitTx tx" and b: "JoinSplitTx_toBuffer tx = Inr buf"
  shows "JoinSplitTx_fromBuffer buf = Inr tx"
proof -
  note v = v [unfolded valid_joinSplitTx_def]
  from v obtain x0 x1 where x: "js_inputNoteIndices tx = [x0, x1]" by (auto elim: length2E)
  from v obtain p0 p1 where p: "js_inputNotePaths tx = [p0, p1]" by (auto elim: length2E)
  from v obtain i0 i1 where i: "js_inputNotes tx = [i0, i1]" by (auto elim: length2E)
  from v obtain o0 o1 where o: "js_outputNotes tx = [o0, o1]" by (auto elim: length2E)
  from b x p i o obtain pb0 pb1 ib0 ib1 ob0 ob1 path where
    u: "u32 (js_proofId tx)" "u32 (js_publicAssetId tx)" "u32 (js_numInputNotes tx)" "u32 x0" "u32 x1"
      "u32 (js_accountIndex tx)" "u32 (js_allowChain tx)"
    and pb: "HashPath_toBuffer p0 = Inr pb0" "HashPath_toBuffer p1 = Inr pb1"
      "HashPath_toBuffer (js_accountPath tx) = Inr path"
    and nb: "TreeNote_toBuffer i0 = Inr ib0" "TreeNote_toBuffer i1 = Inr ib1" "TreeNote_toBuffer o0 = Inr ob0"
      "TreeNote_toBuffer o1 = Inr ob1"
    and b: "buf = be_bytes 4 (nat (js_proofId tx)) @ toBufferBE (js_publicValue tx) 32
      @ EthAddress_toBuffer32 (js_publicOwner tx) @ be_bytes 4 (nat (js_publicAssetId tx))
      @ be_bytes 4 (nat (js_numInputNotes tx)) @ be_bytes 4 (nat x0) @ be_bytes 4 (nat x1) @ js_merkleRoot tx
      @ pb0 @ pb1 @ ib0 @ ib1 @ ob0 @ ob1 @ ClaimNoteTxData_toBuffer (js_claimNote tx) @ js_accountPrivateKey tx
      @ AliasHash_toBuffer32 (js_aliasHash tx) @ boolByte (js_accountRequired tx)
      @ be_bytes 4 (nat (js_accountIndex tx)) @ path @ GrumpkinAddress_toBuffer (js_spendingPublicKey tx)
      @ js_backwardLink tx @ be_bytes 4 (nat (js_allowChain tx)) @ SchnorrSignature_toBuffer (js_signature tx)"
    by (auto simp: JoinSplitTx_toBuffer_def bindE_eq_Inr numToUInt32BE_u32 simp del: be_bytes.simps)
  have vp: "valid_hashPath p0" "valid_hashPath p1" "valid_hashPath (js_accountPath tx)"
    and vn: "valid_treeNote i0" "valid_treeNote i1" "valid_treeNote o0" "valid_treeNote o1"
    and vc: "valid_claimNoteTxData (js_claimNote tx)" and h: "length (aliasHash_buffer (js_aliasHash tx)) = 28"
    using v by (simp_all add: p i o)
  have l: "length (toBufferBE (js_publicValue tx) 32) = 32" "length (EthAddress_toBuffer32 (js_publicOwner tx)) = 32"
    "length (js_merkleRoot tx) = 32" "length ib0 = TreeNote_SIZE" "length ib1 = TreeNote_SIZE"
    "length ob0 = TreeNote_SIZE" "length ob1 = TreeNote_SIZE" "length (js_accountPrivateKey tx) = 32"
    "length (AliasHash_toBuffer32 (js_aliasHash tx)) = 32" "length (js_backwardLink tx) = 32"
    "length (GrumpkinAddress_toBuffer (js_spendingPublicKey tx)) = 64"
    "length (ClaimNoteTxData_toBuffer (js_claimNote tx)) = 128"
    using v nb vn claim_note_tx_data_codec.enc_width [OF vc refl]
    by (simp_all add: word32_roundtrip length_toBuffer32 tree_note_codec.enc_width AliasHash_toBuffer32_def
        GrumpkinAddress_toBuffer_def)
  note a0 = at_start [OF b] note a1 = at_next [OF a0 length_be_bytes] note a2 = at_next [OF a1 l(1)]
  note a3 = at_next [OF a2 l(2)] note a4 = at_next [OF a3 length_be_bytes] note a5 = at_next [OF a4 length_be_bytes]
  note a6 = at_next [OF a5 length_be_bytes] note a7' = at_next [OF a6 length_be_bytes]
  have a7: "at buf (0 + 4 + 32 + 32 + 4 + 4 + 8) (js_merkleRoot tx
      @ pb0 @ pb1 @ ib0 @ ib1 @ ob0 @ ob1 @ ClaimNoteTxData_toBuffer (js_claimNote tx) @ js_accountPrivateKey tx
      @ AliasHash_toBuffer32 (js_aliasHash tx) @ boolByte (js_accountRequired tx)
      @ be_bytes 4 (nat (js_accountIndex tx)) @ path @ GrumpkinAddress_toBuffer (js_spendingPublicKey tx)
      @ js_backwardLink tx @ be_bytes 4 (nat (js_allowChain tx)) @ SchnorrSignature_toBuffer (js_signature tx))"
    using a7' by (simp del: be_bytes.simps)
  note a8 = at_next [OF a7 l(3)] note a9 = at_next [OF a8 refl] note a10 = at_next [OF a9 refl]
  note a11 = at_next [OF a10 l(4)] note a12 = at_next [OF a11 l(5)] note a13 = at_next [OF a12 l(6)]
  note a14 = at_next [OF a13 l(7)] note a15 = at_next [OF a14 l(12)] note a16 = at_next [OF a15 l(8)]
  note a17 = at_next [OF a16 l(9)] note a18 = at_next [OF a17 length_boolByte] note a19 = at_next [OF a18 length_be_bytes]
  note a20 = at_next [OF a19 refl] note a21 = at_next [OF a20 l(11)] note a22 = at_next [OF a21 l(10)]
  note a23 = at_next [OF a22 length_be_bytes]
  have w: "toBigIntBE (toBufferBE (js_publicValue tx) 32) = js_publicValue tx"
    "newEthAddress (EthAddress_toBuffer32 (js_publicOwner tx)) = Inr (js_publicOwner tx)"
    "newGrumpkinAddress (GrumpkinAddress_toBuffer (js_spendingPublicKey tx)) = Inr (js_spendingPublicKey tx)"
    "newSchnorrSignature (SchnorrSignature_toBuffer (js_signature tx)) = Inr (js_signature tx)"
    using v by (simp_all add: word32_roundtrip newEthAddress_toBuffer32 newGrumpkin_at newSignature_at)
  have c: "ClaimNoteTxData_fromBuffer (drop off buf) = Inr (js_claimNote tx)"
    if "at buf off (ClaimNoteTxData_toBuffer (js_claimNote tx) @ rest)" for off rest
    using that claim_note_tx_data_codec.dec_enc [OF vc refl, of rest] by (simp add: at_drop)
  show ?thesis
    unfolding JoinSplitTx_fromBuffer_def Let_def at_u32 [OF a0 u(1)] bindE_Inr at_slice [OF a1 l(1)]
      at_slice [OF a2 l(2)] w at_u32 [OF a3 u(2)] at_u32 [OF a4 u(3)] at_u32 [OF a5 u(4)] at_u32 [OF a6 u(5)]
      at_slice [OF a7 l(3)] at_reads [OF a8 reads_hashPath [OF vp(1) pb(1)]]
      at_reads [OF a9 reads_hashPath [OF vp(2) pb(2)]] case_prod_conv at_treeNote [OF a10 vn(1) nb(1)]
      at_treeNote [OF a11 vn(2) nb(2)] at_treeNote [OF a12 vn(3) nb(3)] at_treeNote [OF a13 vn(4) nb(4)]
      c [OF a14] at_slice [OF a15 l(8)] at_aliasHash [OF a16 h] at_flag [OF a17] at_u32 [OF a18 u(6)]
      at_reads [OF a19 reads_hashPath [OF vp(3) pb(3)]] at_slice [OF a20 l(11)] at_slice [OF a21 l(10)]
      at_u32 [OF a22 u(7)] at_drop [OF a23]
    by (simp add: x [symmetric] p [symmetric] i [symmetric] o [symmetric])
qed

lemma zeroPath_valid:
  assumes "\<And>x y. length (compress x y) = 32" "length z = 32"
  shows "valid_hashPath (HashPath_ZERO n z compress) \<and> length (HashPath_ZERO n z compress) = n"
proof -
  have "length z = 32 \<Longrightarrow> valid_hashPath (zeroPath compress n z) \<and> length (zeroPath compress n z) = n" for z
    by (induction n arbitrary: z) (auto simp: valid_hashPath_def assms(1))
  then show ?thesis using assms(2) by (simp add: HashPath_ZERO_def)
qed

section \<open>Properties\<close>

text \<open>A join-split transaction survives its format: with both notes, paths and indices present, the
  decoder rebuilds every field, three length-prefixed hash paths included.\<close>

theorem join_split_tx_roundtrip:
  assumes "valid_joinSplitTx tx" "JoinSplitTx_toBuffer tx = Inr buf"
  shows "JoinSplitTx_fromBuffer buf = Inr tx"
  by (rule JoinSplitTx_decode [OF assms])

theorem join_split_tx_roundtrip_witness:
  "\<exists>tx buf. JoinSplitTx_toBuffer tx = Inr buf \<and> JoinSplitTx_fromBuffer buf = Inr tx \<and> js_inputNoteIndices tx = [4, 5]"
proof -
  let ?n = "\<lparr>tn_ownerPubKey = GrumpkinAddress_ZERO, tn_value = 7, tn_assetId = 1, tn_accountRequired = False,
    tn_noteSecret = zeros 32, tn_creatorPubKey = zeros 32, tn_inputNullifier = zeros 32\<rparr>"
  let ?c = "\<lparr>cnd_value = 0, cnd_bridgeCallData = BridgeCallData_ZERO, cnd_partialStateSecret = zeros 32,
    cnd_inputNullifier = zeros 32\<rparr>"
  let ?tx = "\<lparr>js_proofId = 2, js_publicValue = 0, js_publicOwner = EthAddress_ZERO, js_publicAssetId = 0,
    js_numInputNotes = 2, js_inputNoteIndices = [4, 5], js_merkleRoot = zeros 32,
    js_inputNotePaths = [[[zeros 32, zeros 32]], []], js_inputNotes = [?n, ?n], js_outputNotes = [?n, ?n],
    js_claimNote = ?c, js_accountPrivateKey = zeros 32, js_aliasHash = AliasHash (zeros 28),
    js_accountRequired = True, js_accountIndex = 3, js_accountPath = [], js_spendingPublicKey = GrumpkinAddress_ZERO,
    js_backwardLink = zeros 32, js_allowChain = 2, js_signature = SchnorrSignature (zeros 64)\<rparr>"
  have "isOk (JoinSplitTx_toBuffer ?tx)"
    by (simp add: JoinSplitTx_toBuffer_def numToUInt32BE_ok u32_def HashPath_toBuffer_def pathElement_def
        serializeBufferArrayToVector_def TreeNote_toBuffer_def del: be_bytes.simps)
  then obtain buf where b: "JoinSplitTx_toBuffer ?tx = Inr buf" by (auto simp: isOk_iff)
  have "valid_joinSplitTx ?tx"
    by (simp add: valid_joinSplitTx_def word32_def valid_ethAddress_def EthAddress_ZERO_def valid_hashPath_def
        valid_treeNote_def GrumpkinAddress_ZERO_def u32_def valid_claimNoteTxData_def
        valid_bridgeCallData_def newBridgeCallData_def BridgeCallData_ZERO_def)
  from join_split_tx_roundtrip [OF this b] b show ?thesis by fastforce
qed

text \<open>An account transaction survives its format: keys, alias hash, both flags, index and path.\<close>

theorem account_tx_roundtrip:
  assumes "valid_accountTx tx" "AccountTx_toBuffer tx = Inr buf"
  shows "AccountTx_fromBuffer buf = Inr tx"
  by (rule AccountTx_decode [OF assms])

theorem account_tx_roundtrip_witness:
  "\<exists>tx buf. AccountTx_toBuffer tx = Inr buf \<and> AccountTx_fromBuffer buf = Inr tx \<and> at_accountIndex tx = 9"
proof -
  let ?tx = "\<lparr>at_merkleRoot = zeros 32, at_accountPublicKey = GrumpkinAddress_ZERO,
    at_newAccountPublicKey = GrumpkinAddress_ZERO, at_newSpendingPublicKey1 = GrumpkinAddress_ZERO,
    at_newSpendingPublicKey2 = GrumpkinAddress_ZERO, at_aliasHash = AliasHash (zeros 28), at_create = True,
    at_migrate = False, at_accountIndex = 9, at_accountPath = HashPath_ZERO 3 (zeros 32) (\<lambda>_ _. zeros 32),
    at_spendingPublicKey = GrumpkinAddress_ZERO\<rparr>"
  have "isOk (AccountTx_toBuffer ?tx)"
    by (simp add: AccountTx_toBuffer_def numToUInt32BE_ok u32_def HashPath_toBuffer_def pathElement_def
        serializeBufferArrayToVector_def HashPath_ZERO_def numeral_3_eq_3 del: be_bytes.simps)
  then obtain buf where b: "AccountTx_toBuffer ?tx = Inr buf" by (auto simp: isOk_iff)
  have "valid_accountTx ?tx"
    using zeroPath_valid [of "\<lambda>_ _. zeros 32" "zeros 32" 3]
    by (simp add: valid_accountTx_def GrumpkinAddress_ZERO_def)
  from account_tx_roundtrip [OF this b] b show ?thesis by fastforce
qed

end
