(* ===== verification/Merkle.thy ===== *)
theory Merkle
  imports ClientTx
begin

text \<open>
  \<open>barretenberg.js/src/merkle_tree/merkle_tree.ts\<close>: the Merkle tree kept in a key-value store. The
  compression function and \<open>hashToTree\<close> of the hasher are parameters; the store is a map from keys to
  values, changed by batches. Indices are below \<open>2^31\<close>, where the bit operations of JavaScript numbers
  are those of natural numbers. The lemmas relate a tree in its store to the function from leaf indices
  to leaves it represents: creation, update of a leaf, hash paths and reloading.
\<close>

section \<open>The store\<close>

type_synonym store = "buffer \<rightharpoonup> buffer"

datatype dbOp = Put buffer buffer | Del buffer

fun applyOp :: "store \<Rightarrow> dbOp \<Rightarrow> store" where
  "applyOp db (Put k v) = db(k \<mapsto> v)"
| "applyOp db (Del k) = db(k := None)"

definition writeBatch :: "store \<Rightarrow> dbOp list \<Rightarrow> store" where
  "writeBatch db batch = foldl applyOp db batch"

section \<open>MerkleTree\<close>

type_synonym compressFn = "buffer \<Rightarrow> buffer \<Rightarrow> buffer"

definition MAX_DEPTH :: nat where "MAX_DEPTH = 32"

definition keepNLsb :: "nat \<Rightarrow> nat \<Rightarrow> nat" where
  "keepNLsb input numBits = (if numBits \<ge> MAX_DEPTH then input else take_bit numBits input)"

record merkleTree =
  mt_db :: store
  mt_name :: buffer
  mt_depth :: nat
  mt_size :: nat
  mt_root :: buffer
  mt_zeroHashes :: "buffer list"
  mt_initialLeafValue :: buffer

text \<open>The zero values at each layer, lowest first, and the root of the empty tree.\<close>

fun zeroLayers :: "compressFn \<Rightarrow> nat \<Rightarrow> buffer \<Rightarrow> buffer list \<times> buffer" where
  "zeroLayers compress 0 current = ([], current)"
| "zeroLayers compress (Suc n) current =
    (let (layers, root) = zeroLayers compress n (compress current current) in (current # layers, root))"

definition newMerkleTree ::
    "compressFn \<Rightarrow> store \<Rightarrow> buffer \<Rightarrow> nat \<Rightarrow> nat \<Rightarrow> buffer option \<Rightarrow> buffer \<Rightarrow> merkleTree res" where
  "newMerkleTree compress db name depth sz root initialLeafValue =
    (if \<not> (depth \<ge> 1 \<and> depth \<le> MAX_DEPTH) then Inl (Thrown ''Bad depth'')
     else let (zeroHashes, current) = zeroLayers compress depth initialLeafValue
          in Inr \<lparr>mt_db = db, mt_name = name, mt_depth = depth, mt_size = sz,
                  mt_root = (case root of None \<Rightarrow> current | Some r \<Rightarrow> r), mt_zeroHashes = zeroHashes,
                  mt_initialLeafValue = initialLeafValue\<rparr>)"

text \<open>The metadata: 32 bytes of the root, depth and size.\<close>

definition metaData :: "merkleTree \<Rightarrow> buffer res" where
  "metaData t = bindE (writeUInt32LE (int (mt_depth t))) (\<lambda>depth.
     mapR (\<lambda>sz. take 32 (mt_root t @ zeros 32) @ depth @ sz) (writeUInt32LE (int (mt_size t))))"

definition MerkleTree_new :: "compressFn \<Rightarrow> store \<Rightarrow> buffer \<Rightarrow> nat \<Rightarrow> buffer \<Rightarrow> merkleTree res" where
  "MerkleTree_new compress db name depth initialLeafValue =
     bindE (newMerkleTree compress db name depth 0 None initialLeafValue) (\<lambda>t.
     mapR (\<lambda>data. t\<lparr>mt_db := (mt_db t)(name \<mapsto> data)\<rparr>) (metaData t))"

definition readUInt32LE :: "buffer \<Rightarrow> nat \<Rightarrow> int res" where
  "readUInt32LE buf off = (if off + 4 \<le> length buf then Inr (int (be_value (rev (bslice buf off (off + 4)))))
     else Inl RangeError)"

definition MerkleTree_fromName :: "compressFn \<Rightarrow> store \<Rightarrow> buffer \<Rightarrow> buffer \<Rightarrow> merkleTree res" where
  "MerkleTree_fromName compress db name initialLeafValue =
    (case db name of None \<Rightarrow> Inl (Thrown ''NotFound'')
     | Some meta \<Rightarrow>
         bindE (readUInt32LE meta 32) (\<lambda>depth.
         bindE (readUInt32LE meta 36) (\<lambda>sz.
         newMerkleTree compress db name (nat depth) (nat sz) (Some (bslice meta 0 32)) initialLeafValue)))"

definition MerkleTree_syncFromDb :: "merkleTree \<Rightarrow> merkleTree res" where
  "MerkleTree_syncFromDb t =
    (case mt_db t (mt_name t) of None \<Rightarrow> Inl (Thrown ''NotFound'')
     | Some meta \<Rightarrow>
         bindE (readUInt32LE meta 32) (\<lambda>depth.
         bindE (readUInt32LE meta 36) (\<lambda>sz.
         Inr (t\<lparr>mt_root := bslice meta 0 32, mt_depth := nat depth, mt_size := nat sz\<rparr>))))"

text \<open>The hash pairs of a bulk-inserted subtree, which is stored as one entry, layer by layer.\<close>

fun subtreePath :: "buffer \<Rightarrow> nat \<Rightarrow> nat \<Rightarrow> nat \<Rightarrow> nat \<Rightarrow> hashPath" where
  "subtreePath data index 0 offset layerSize = []"
| "subtreePath data index (Suc n) offset layerSize =
    (let index = index - index mod 2;
         lhsOffset = offset + index * 32
     in [bslice data lhsOffset (lhsOffset + 32), bslice data (lhsOffset + 32) (lhsOffset + 64)]
        # subtreePath data (index div 2) n (offset + layerSize * 32) (layerSize div 2))"

fun pathFrom :: "store \<Rightarrow> buffer list \<Rightarrow> nat \<Rightarrow> buffer option \<Rightarrow> nat \<Rightarrow> hashPath" where
  "pathFrom db zeroHashes index data 0 = []"
| "pathFrom db zeroHashes index data (Suc i) =
    (case data of
       None \<Rightarrow> pathFrom db zeroHashes index None i @ [[zeroHashes ! i, zeroHashes ! i]]
     | Some d \<Rightarrow>
         if length d > 64 then subtreePath d (keepNLsb index (Suc i)) (Suc i) 0 (2 ^ Suc i)
         else let lhs = bslice d 0 32; rhs = bslice d 32 64
              in pathFrom db zeroHashes index (db (if bit index i then rhs else lhs)) i @ [[lhs, rhs]])"

definition MerkleTree_getHashPath :: "merkleTree \<Rightarrow> nat \<Rightarrow> hashPath" where
  "MerkleTree_getHashPath t index = pathFrom (mt_db t) (mt_zeroHashes t) index (mt_db t (mt_root t)) (mt_depth t)"

fun updateElementInternal ::
    "compressFn \<Rightarrow> store \<Rightarrow> buffer list \<Rightarrow> buffer \<Rightarrow> buffer \<Rightarrow> nat \<Rightarrow> nat \<Rightarrow> dbOp list \<Rightarrow> buffer \<times> dbOp list" where
  "updateElementInternal compress db zeroHashes root value index 0 batch = (value, batch)"
| "updateElementInternal compress db zeroHashes root value index (Suc h) batch =
    (let data = db root;
         isRight = bit index h;
         left = (case data of Some d \<Rightarrow> bslice d 0 32 | None \<Rightarrow> zeroHashes ! h);
         right = (case data of Some d \<Rightarrow> bslice d 32 64 | None \<Rightarrow> zeroHashes ! h);
         (newSubtreeRoot, batch) = updateElementInternal compress db zeroHashes (if isRight then right else left) value
           (keepNLsb index h) h batch;
         right = (if isRight then newSubtreeRoot else right);
         left = (if isRight then left else newSubtreeRoot);
         newRoot = compress left right
     in (newRoot, batch @ [Put newRoot (left @ right)] @ (if root \<noteq> newRoot then [Del root] else [])))"

definition updateLeafHash :: "compressFn \<Rightarrow> nat \<Rightarrow> buffer \<Rightarrow> merkleTree \<Rightarrow> merkleTree res" where
  "updateLeafHash compress index leafHash t =
    (let (root, batch) = updateElementInternal compress (mt_db t) (mt_zeroHashes t) (mt_root t) leafHash index (mt_depth t) [];
         t = t\<lparr>mt_root := root, mt_size := max (mt_size t) (index + 1)\<rparr>
     in mapR (\<lambda>data. t\<lparr>mt_db := writeBatch (mt_db t) (batch @ [Put (mt_name t) data])\<rparr>) (metaData t))"

definition updateElement :: "compressFn \<Rightarrow> nat \<Rightarrow> buffer \<Rightarrow> merkleTree \<Rightarrow> merkleTree res" where
  "updateElement compress index value t =
     updateLeafHash compress index (if value = zeros 32 then mt_initialLeafValue t else value) t"

text \<open>Bulk insertion. \<open>hashes\<close> are the nodes of the inserted subtree, its root last.\<close>

fun updateElementsInternal ::
    "compressFn \<Rightarrow> store \<Rightarrow> buffer list \<Rightarrow> buffer \<Rightarrow> buffer list \<Rightarrow> nat \<Rightarrow> nat \<Rightarrow> nat \<Rightarrow> dbOp list
     \<Rightarrow> (buffer \<times> dbOp list) res" where
  "updateElementsInternal compress db zeroHashes root hashes index height subtreeHeight batch =
    (if height = subtreeHeight then Inr (last hashes, batch @ [Put (last hashes) (concat (butlast hashes))])
     else case height of
       0 \<Rightarrow> Inl TypeError
     | Suc h \<Rightarrow>
         if last hashes = zeroHashes ! h then Inr (root, batch)
         else let data = db root; isRight = bit index h
              in if (case data of Some d \<Rightarrow> length d > 64 | None \<Rightarrow> False)
                 then (if root \<noteq> last hashes then Inl (Thrown ''Attempting to update pre-existing subtree.'') else Inr (root, batch))
                 else let left = (case data of Some d \<Rightarrow> bslice d 0 32 | None \<Rightarrow> zeroHashes ! h);
                          right = (case data of Some d \<Rightarrow> bslice d 32 64 | None \<Rightarrow> zeroHashes ! h)
                      in bindE (updateElementsInternal compress db zeroHashes (if isRight then right else left) hashes
                            (keepNLsb index h) h subtreeHeight batch) (\<lambda>(newSubtreeRoot, batch).
                         let right = (if isRight then newSubtreeRoot else right);
                             left = (if isRight then left else newSubtreeRoot);
                             newRoot = compress left right
                         in Inr (newRoot, batch @ [Put newRoot (left @ right)] @ (if root \<noteq> newRoot then [Del root] else []))))"

declare updateElementsInternal.simps [simp del]

text \<open>The largest subtree that has enough leaves and starts at a multiple of its size.\<close>

function shrinkSubtree :: "nat \<Rightarrow> nat \<Rightarrow> nat \<Rightarrow> nat" where
  "shrinkSubtree numLeaves index subtreeDepth =
    (if 0 < subtreeDepth \<and> (numLeaves < 2 ^ subtreeDepth \<or> index mod 2 ^ subtreeDepth \<noteq> 0)
     then shrinkSubtree numLeaves index (subtreeDepth - 1) else subtreeDepth)"
  by pat_completeness auto
termination
  by (relation "measure (\<lambda>(n, i, d). d)") auto

declare shrinkSubtree.simps [simp del]

text \<open>\<open>Math.ceil(Math.log2(n))\<close> of a positive length.\<close>

fun ceilLog2 :: "nat \<Rightarrow> nat" where
  "ceilLog2 n = (if n \<le> 1 then 0 else Suc (ceilLog2 ((n + 1) div 2)))"

declare ceilLog2.simps [simp del]

function updateLeafHashes ::
    "compressFn \<Rightarrow> (buffer list \<Rightarrow> buffer list) \<Rightarrow> nat \<Rightarrow> buffer list \<Rightarrow> merkleTree \<Rightarrow> merkleTree res" where
  "updateLeafHashes compress hashToTree index leafHashes t =
    (if leafHashes = [] then Inr t
     else let subtreeDepth = shrinkSubtree (length leafHashes) index (ceilLog2 (length leafHashes));
              subtreeSize = 2 ^ subtreeDepth;
              toInsert = take subtreeSize leafHashes;
              hashes = hashToTree toInsert
          in bindE (updateElementsInternal compress (mt_db t) (mt_zeroHashes t) (mt_root t) hashes index (mt_depth t)
                 subtreeDepth []) (\<lambda>(root, batch).
             let index = index + subtreeSize; t = t\<lparr>mt_root := root, mt_size := index\<rparr>
             in bindE (metaData t) (\<lambda>data.
                updateLeafHashes compress hashToTree index (drop subtreeSize leafHashes)
                  (t\<lparr>mt_db := writeBatch (mt_db t) (batch @ [Put (mt_name t) data])\<rparr>))))"
  by pat_completeness auto
termination
  by (relation "measure (\<lambda>(c, h, i, xs, t). length xs)") auto

declare updateLeafHashes.simps [simp del]

definition updateElements ::
    "compressFn \<Rightarrow> (buffer list \<Rightarrow> buffer list) \<Rightarrow> nat \<Rightarrow> buffer list \<Rightarrow> merkleTree \<Rightarrow> merkleTree res" where
  "updateElements compress hashToTree index values t =
     updateLeafHashes compress hashToTree index (map (\<lambda>v. if v = zeros 32 then mt_initialLeafValue t else v) values) t"

section \<open>The abstract tree\<close>

text \<open>A tree is the function from leaf indices to leaf values; every node hash is determined by it.\<close>

fun nodeHash :: "compressFn \<Rightarrow> (nat \<Rightarrow> buffer) \<Rightarrow> nat \<Rightarrow> nat \<Rightarrow> buffer" where
  "nodeHash compress f 0 i = f i"
| "nodeHash compress f (Suc h) i = compress (nodeHash compress f h (2 * i)) (nodeHash compress f h (2 * i + 1))"

definition zeroHash :: "compressFn \<Rightarrow> buffer \<Rightarrow> nat \<Rightarrow> buffer" where
  "zeroHash compress z h = nodeHash compress (\<lambda>_. z) h 0"

lemma nodeHash_0: "nodeHash compress f 0 = f"
  by (rule ext) simp

lemma nodeHash_2:
  "nodeHash compress f 2 i = compress (nodeHash compress f (Suc 0) (2 * i)) (nodeHash compress f (Suc 0) (2 * i + 1))"
  by (simp add: numeral_2_eq_2)

lemma nodeHash_cong: "(\<And>j. j div 2 ^ h = i \<Longrightarrow> f j = g j) \<Longrightarrow> nodeHash compress f h i = nodeHash compress g h i"
proof (induction h arbitrary: i)
  case (Suc h)
  have "j div 2 ^ Suc h = i" if "j div 2 ^ h = 2 * i \<or> j div 2 ^ h = 2 * i + 1" for j
    using that by (auto simp: div_mult2_eq mult.commute [of 2])
  then show ?case using Suc.prems by (auto intro!: arg_cong2 [where f = compress] Suc.IH)
qed simp

lemma nodeHash_const: "nodeHash compress (\<lambda>_. z) h i = zeroHash compress z h"
  unfolding zeroHash_def by (induction h arbitrary: i) (simp, metis nodeHash.simps(2))

lemma zeroHash_Suc: "zeroHash compress z (Suc h) = compress (zeroHash compress z h) (zeroHash compress z h)"
  using nodeHash.simps(2) [of compress "\<lambda>_. z" h 0] by (simp add: nodeHash_const)

lemma nodeHash_zero: "(\<And>j. j div 2 ^ h = i \<Longrightarrow> f j = z) \<Longrightarrow> nodeHash compress f h i = zeroHash compress z h"
  using nodeHash_cong [of h i f "\<lambda>_. z"] by (simp add: nodeHash_const)

lemma nodeHash_length:
  "(\<And>a b. length (compress a b) = 32) \<Longrightarrow> (\<And>j. length (f j) = 32) \<Longrightarrow> length (nodeHash compress f h i) = 32"
  by (cases h) simp_all

lemma zeroLayers_eq:
  "zeroLayers compress n (zeroHash compress z k)
     = (map (zeroHash compress z) [k..<k + n], zeroHash compress z (k + n))"
proof (induction n arbitrary: k)
  case (Suc n)
  have "zeroLayers compress n (compress (zeroHash compress z k) (zeroHash compress z k))
      = (map (zeroHash compress z) [Suc k..<Suc k + n], zeroHash compress z (Suc k + n))"
    using Suc.IH [of "Suc k"] by (simp only: zeroHash_Suc)
  moreover have "[k..<k + Suc n] = k # [Suc k..<Suc k + n]" by (simp add: upt_conv_Cons del: upt_Suc)
  ultimately show ?case by (simp del: upt_Suc)
qed simp

text \<open>The entry of a node above the leaves: its two children, or none when all its leaves are initial values.
  The store holds a tree when every node has its entry.\<close>

definition children :: "compressFn \<Rightarrow> (nat \<Rightarrow> buffer) \<Rightarrow> nat \<Rightarrow> nat \<Rightarrow> buffer" where
  "children compress f h i = nodeHash compress f h (2 * i) @ nodeHash compress f h (2 * i + 1)"

definition entryOK :: "compressFn \<Rightarrow> buffer \<Rightarrow> store \<Rightarrow> (nat \<Rightarrow> buffer) \<Rightarrow> nat \<Rightarrow> nat \<Rightarrow> bool" where
  "entryOK compress z db f h i \<longleftrightarrow> db (nodeHash compress f (Suc h) i) = Some (children compress f h i)
     \<or> db (nodeHash compress f (Suc h) i) = None \<and> (\<forall>j. j div 2 ^ Suc h = i \<longrightarrow> f j = z)"

definition stored :: "compressFn \<Rightarrow> buffer \<Rightarrow> store \<Rightarrow> (nat \<Rightarrow> buffer) \<Rightarrow> nat \<Rightarrow> bool" where
  "stored compress z db f d \<longleftrightarrow> (\<forall>h<d. \<forall>i<2 ^ (d - Suc h). entryOK compress z db f h i)"

lemma keepNLsb_eq: "n < 32 \<Longrightarrow> keepNLsb i n = i mod 2 ^ n"
  by (simp add: keepNLsb_def MAX_DEPTH_def take_bit_eq_mod)

lemma sub_div:
  fixes j :: nat
  shows "j div 2 ^ h = 2 * i \<or> j div 2 ^ h = 2 * i + 1 \<longleftrightarrow> j div 2 ^ Suc h = i"
proof -
  have "j div 2 ^ Suc h = j div 2 ^ h div 2" by (simp add: div_mult2_eq mult.commute [of 2])
  then show ?thesis by linarith
qed

lemma child_index:
  fixes index :: nat
  shows "index div 2 ^ h = (if bit index h then 2 * (index div 2 ^ Suc h) + 1 else 2 * (index div 2 ^ Suc h))"
proof -
  have "index div 2 ^ Suc h = index div 2 ^ h div 2" by (simp add: div_mult2_eq mult.commute [of 2])
  then show ?thesis by (simp add: bit_iff_odd)
qed

lemma bit_mod: "h < n \<Longrightarrow> bit (index mod 2 ^ n) h = bit (index :: nat) h"
  by (simp add: bit_take_bit_iff flip: take_bit_eq_mod)


lemma nodeHash_32:
  "(\<forall>a b. length (compress a b) = 32) \<Longrightarrow> (\<forall>j. length (f j) = 32) \<Longrightarrow> length (nodeHash compress f h i) = 32"
  by (simp add: nodeHash_length)

lemma read_children:
  assumes e: "entryOK compress z db f h i" and zs: "zs ! h = zeroHash compress z h"
    and c: "\<forall>a b. length (compress a b) = 32" and f: "\<forall>j. length (f j) = 32"
  shows "(case db (nodeHash compress f (Suc h) i) of Some d \<Rightarrow> bslice d 0 32 | None \<Rightarrow> zs ! h)
      = nodeHash compress f h (2 * i)"
    and "(case db (nodeHash compress f (Suc h) i) of Some d \<Rightarrow> bslice d 32 64 | None \<Rightarrow> zs ! h)
      = nodeHash compress f h (2 * i + 1)"
proof -
  have zero: "nodeHash compress f h (2 * i) = zeroHash compress z h
      \<and> nodeHash compress f h (2 * i + 1) = zeroHash compress z h"
    if "\<forall>j. j div 2 ^ Suc h = i \<longrightarrow> f j = z"
    using that sub_div [of _ h i] by (intro conjI nodeHash_zero) blast+
  have l: "length (nodeHash compress f h k) = 32" for k by (rule nodeHash_32 [OF c f])
  show "(case db (nodeHash compress f (Suc h) i) of Some d \<Rightarrow> bslice d 0 32 | None \<Rightarrow> zs ! h)
      = nodeHash compress f h (2 * i)"
    and "(case db (nodeHash compress f (Suc h) i) of Some d \<Rightarrow> bslice d 32 64 | None \<Rightarrow> zs ! h)
      = nodeHash compress f h (2 * i + 1)"
    using e zero l [of "2 * i"] l [of "2 * i + 1"] by (auto simp: entryOK_def children_def bslice_def zs)
qed

text \<open>The operations an update of leaf \<open>index\<close> performs at height \<open>h + 1\<close>.\<close>

definition pathOps :: "compressFn \<Rightarrow> (nat \<Rightarrow> buffer) \<Rightarrow> (nat \<Rightarrow> buffer) \<Rightarrow> nat \<Rightarrow> nat \<Rightarrow> dbOp list" where
  "pathOps compress f f' index h =
    (let i = index div 2 ^ Suc h; old = nodeHash compress f (Suc h) i; new = nodeHash compress f' (Suc h) i
     in Put new (children compress f' h i) # (if old \<noteq> new then [Del old] else []))"

lemma updateElementInternal_eq:
  assumes st: "\<And>k. k < h \<Longrightarrow> entryOK compress z db f k (index div 2 ^ Suc k)"
    and zs: "\<And>k. k < h \<Longrightarrow> zs ! k = zeroHash compress z k" and h: "h \<le> 32"
    and c: "\<forall>a b. length (compress a b) = 32" and f: "\<forall>j. length (f j) = 32" and f': "f' = f(index := v)"
  shows "updateElementInternal compress db zs (nodeHash compress f h (index div 2 ^ h)) v (index mod 2 ^ h) h b
    = (nodeHash compress f' h (index div 2 ^ h), b @ concat (map (pathOps compress f f' index) [0..<h]))"
  using assms(1-3)
proof (induction h)
  case (Suc h)
  let ?i = "index div 2 ^ Suc h"
  let ?H = "nodeHash compress f h" and ?H' = "nodeHash compress f' h"
  note rc = read_children [OF Suc.prems(1) [OF lessI] Suc.prems(2) [OF lessI] c f]
  have bit: "bit (index mod 2 ^ Suc h) h = bit index h" by (rule bit_mod) simp
  have keep: "keepNLsb (index mod 2 ^ Suc h) h = index mod 2 ^ h"
    using Suc.prems(3) by (simp add: keepNLsb_eq mod_mod_cancel)
  have sub: "(if bit index h then ?H (2 * ?i + 1) else ?H (2 * ?i)) = ?H (index div 2 ^ h)"
    using child_index [of index h] by simp
  have other: "?H' k = ?H k" if "k \<noteq> index div 2 ^ h" for k
    using that by (intro nodeHash_cong) (auto simp: f')
  have kids: "(if bit index h then ?H (2 * ?i) else ?H' (index div 2 ^ h)) = ?H' (2 * ?i)"
    "(if bit index h then ?H' (index div 2 ^ h) else ?H (2 * ?i + 1)) = ?H' (2 * ?i + 1)"
    using child_index [of index h] other by auto
  have IH: "updateElementInternal compress db zs (?H (index div 2 ^ h)) v (index mod 2 ^ h) h b
    = (?H' (index div 2 ^ h), b @ concat (map (pathOps compress f f' index) [0..<h]))"
    using Suc.prems by (intro Suc.IH) simp_all
  show ?case
    unfolding updateElementInternal.simps Let_def rc bit keep sub IH case_prod_conv kids
    by (simp add: pathOps_def [of compress f f' index h] Let_def children_def)
qed (simp add: f')

section \<open>The effect of a batch\<close>

lemma writeBatch_simps [simp]:
  "writeBatch db [] = db" "writeBatch db (x # xs) = writeBatch (applyOp db x) xs"
  "writeBatch db (xs @ ys) = writeBatch (writeBatch db xs) ys"
  by (simp_all add: writeBatch_def)

text \<open>What a key holds after a batch: the last operation on it decides.\<close>

lemma writeBatch_cases:
  obtains "writeBatch db ops k = db k" and "Del k \<notin> set ops" and "\<forall>v. Put k v \<notin> set ops"
  | v where "Put k v \<in> set ops" and "writeBatch db ops k = Some v"
  | "Del k \<in> set ops" and "writeBatch db ops k = None"
proof -
  have "(writeBatch db ops k = db k \<and> Del k \<notin> set ops \<and> (\<forall>v. Put k v \<notin> set ops))
      \<or> (\<exists>v. Put k v \<in> set ops \<and> writeBatch db ops k = Some v) \<or> (Del k \<in> set ops \<and> writeBatch db ops k = None)"
  proof (induction ops rule: rev_induct)
    case (snoc x xs)
    then show ?case by (cases x) auto
  qed simp
  then show thesis using that by blast
qed

text \<open>Equal hashes only for equal subtrees, among the nodes above the leaves of two trees.\<close>

definition sameSubtree :: "(nat \<Rightarrow> buffer) \<Rightarrow> (nat \<Rightarrow> buffer) \<Rightarrow> nat \<Rightarrow> nat \<Rightarrow> nat \<Rightarrow> bool" where
  "sameSubtree f g h i j \<longleftrightarrow> (\<forall>m<2 ^ h. f (i * 2 ^ h + m) = g (j * 2 ^ h + m))"

definition collisionFree :: "compressFn \<Rightarrow> (nat \<Rightarrow> buffer) \<Rightarrow> (nat \<Rightarrow> buffer) \<Rightarrow> nat \<Rightarrow> bool" where
  "collisionFree compress f g d \<longleftrightarrow> (\<forall>h<d. \<forall>k<d. \<forall>i<2 ^ (d - Suc h). \<forall>j<2 ^ (d - Suc k).
     nodeHash compress f (Suc h) i = nodeHash compress g (Suc k) j \<longrightarrow> h = k \<and> sameSubtree f g (Suc h) i j)"

definition distinctLeaves :: "buffer \<Rightarrow> (nat \<Rightarrow> buffer) \<Rightarrow> bool" where
  "distinctLeaves z f \<longleftrightarrow> (\<forall>i j. i \<noteq> j \<longrightarrow> f i = f j \<longrightarrow> f i = z)"

lemma sameSubtree_halves:
  "sameSubtree f g (Suc h) i j \<Longrightarrow> sameSubtree f g h (2 * i) (2 * j) \<and> sameSubtree f g h (2 * i + 1) (2 * j + 1)"
  unfolding sameSubtree_def
proof (intro conjI allI impI)
  assume a: "\<forall>m<2 ^ Suc h. f (i * 2 ^ Suc h + m) = g (j * 2 ^ Suc h + m)"
  fix m :: nat
  assume m: "m < 2 ^ h"
  have "m < 2 ^ Suc h" using m by simp
  with a have "f (i * 2 ^ Suc h + m) = g (j * 2 ^ Suc h + m)" by blast
  then show "f (2 * i * 2 ^ h + m) = g (2 * j * 2 ^ h + m)" by (simp add: algebra_simps)
  have "2 ^ h + m < 2 ^ Suc h" using m by simp
  with a have "f (i * 2 ^ Suc h + (2 ^ h + m)) = g (j * 2 ^ Suc h + (2 ^ h + m))" by blast
  then show "f ((2 * i + 1) * 2 ^ h + m) = g ((2 * j + 1) * 2 ^ h + m)" by (simp add: algebra_simps)
qed

lemma sameSubtree_nodeHash: "sameSubtree f g h i j \<Longrightarrow> nodeHash compress f h i = nodeHash compress g h j"
proof (induction h arbitrary: i j)
  case (Suc h)
  then show ?case using sameSubtree_halves [OF Suc.prems] by (metis nodeHash.simps(2))
qed (simp add: sameSubtree_def)

lemma sameSubtree_children: "sameSubtree f g (Suc h) i j \<Longrightarrow> children compress f h i = children compress g h j"
  unfolding children_def using sameSubtree_halves [of f g h i j] sameSubtree_nodeHash by metis

lemma entryOK_cong:
  assumes "db k = db' k" and "k = nodeHash compress f' (Suc h) i" and "\<And>j. j div 2 ^ Suc h = i \<Longrightarrow> f j = f' j"
    and "entryOK compress z db f h i"
  shows "entryOK compress z db' f' h i"
proof -
  have "sameSubtree f f' (Suc h) i i" using assms(3) by (auto simp: sameSubtree_def)
  then show ?thesis
    using assms sameSubtree_nodeHash [of f f' "Suc h" i i compress] sameSubtree_children [of f f' h i i compress]
    by (simp add: entryOK_def del: nodeHash.simps power_Suc)
qed

lemma pathOps_set:
  "Put k v \<in> set (concat (map (pathOps compress f f' index) [0..<d])) \<longleftrightarrow>
     (\<exists>h<d. k = nodeHash compress f' (Suc h) (index div 2 ^ Suc h) \<and> v = children compress f' h (index div 2 ^ Suc h))"
  "Del k \<in> set (concat (map (pathOps compress f f' index) [0..<d])) \<longleftrightarrow>
     (\<exists>h<d. k = nodeHash compress f (Suc h) (index div 2 ^ Suc h)
       \<and> k \<noteq> nodeHash compress f' (Suc h) (index div 2 ^ Suc h))"
  by (auto simp: pathOps_def Let_def simp del: nodeHash.simps power_Suc split: if_splits)

lemma path_index: "index < 2 ^ d \<Longrightarrow> h < d \<Longrightarrow> index div 2 ^ Suc h < (2 :: nat) ^ (d - Suc h)"
  by (rule less_mult_imp_div_less) (simp flip: power_add power_Suc)

lemma batch_stored:
  assumes st: "stored compress z db f d" and index: "index < 2 ^ d" and f': "f' = f(index := v)"
    and cf: "collisionFree compress f f' d" "collisionFree compress f' f' d" and di: "distinctLeaves z f"
  shows "stored compress z (writeBatch db (concat (map (pathOps compress f f' index) [0..<d]))) f' d"
  unfolding stored_def
proof (intro allI impI)
  fix h i :: nat
  assume h: "h < d" and i: "i < 2 ^ (d - Suc h)"
  let ?ops = "concat (map (pathOps compress f f' index) [0..<d])" and ?k = "nodeHash compress f' (Suc h) i"
  have eq: "f j = f' j" if "j div 2 ^ Suc h = i" "i \<noteq> index div 2 ^ Suc h" for j
    using that f' by auto
  show "entryOK compress z (writeBatch db ?ops) f' h i"
  proof (cases rule: writeBatch_cases [of db ?ops ?k])
    case 1
    then have "i \<noteq> index div 2 ^ Suc h"
      using h by (auto simp: pathOps_set simp del: power_Suc nodeHash.simps set_concat set_map)
    then show ?thesis
      using entryOK_cong [of db ?k "writeBatch db ?ops" compress f' h i f z] 1(1) eq st h i
      by (simp add: stored_def del: power_Suc)
  next
    case (2 w)
    then obtain k where k: "k < d" "?k = nodeHash compress f' (Suc k) (index div 2 ^ Suc k)"
        "w = children compress f' k (index div 2 ^ Suc k)" by (auto simp: pathOps_set simp del: power_Suc nodeHash.simps set_concat set_map)
    then have "h = k \<and> sameSubtree f' f' (Suc h) i (index div 2 ^ Suc k)"
      using cf(2) h i path_index [OF index k(1)] unfolding collisionFree_def by blast
    then show ?thesis using 2 k sameSubtree_children by (auto simp: entryOK_def)
  next
    case 3
    then obtain k where k: "k < d" "?k = nodeHash compress f (Suc k) (index div 2 ^ Suc k)"
        "?k \<noteq> nodeHash compress f' (Suc k) (index div 2 ^ Suc k)" by (auto simp: pathOps_set simp del: power_Suc nodeHash.simps set_concat set_map)
    then have s: "k = h" "sameSubtree f f' (Suc h) (index div 2 ^ Suc h) i"
      using cf(1) h i path_index [OF index k(1)] unfolding collisionFree_def by metis+
    then have ne: "i \<noteq> index div 2 ^ Suc h" using k by auto
    have "f' j = z" if j: "j div 2 ^ Suc h = i" for j
    proof -
      let ?m = "j mod 2 ^ Suc h" and ?j = "index div 2 ^ Suc h * 2 ^ Suc h + j mod 2 ^ Suc h"
      have "f ?j = f' (i * 2 ^ Suc h + ?m)" using s(2) by (simp add: sameSubtree_def del: power_Suc)
      also have "i * 2 ^ Suc h + ?m = j" using j by (metis div_mult_mod_eq)
      finally have "f ?j = f j" using eq [OF j ne] by simp
      moreover have "?j \<noteq> j" using j ne by (metis div_mult_mod_eq add_right_cancel mult_cancel2 power_not_zero zero_neq_numeral)
      ultimately have "f j = z" using di unfolding distinctLeaves_def by metis
      then show ?thesis using eq [OF j ne] by simp
    qed
    then show ?thesis using 3 by (simp add: entryOK_def del: nodeHash.simps power_Suc)
  qed
qed

section \<open>The tree represented by a MerkleTree\<close>

definition represents :: "compressFn \<Rightarrow> buffer \<Rightarrow> merkleTree \<Rightarrow> (nat \<Rightarrow> buffer) \<Rightarrow> bool" where
  "represents compress z t f \<longleftrightarrow>
     1 \<le> mt_depth t \<and> mt_depth t \<le> 32 \<and> mt_root t = nodeHash compress f (mt_depth t) 0
     \<and> mt_zeroHashes t = map (zeroHash compress z) [0..<mt_depth t] \<and> mt_initialLeafValue t = z
     \<and> stored compress z (mt_db t) f (mt_depth t) \<and> (\<forall>j. length (f j) = 32)
     \<and> (\<forall>j\<ge>mt_size t. f j = z) \<and> (\<exists>data. metaData t = Inr data \<and> mt_db t (mt_name t) = Some data)"

lemma representsD:
  assumes "represents compress z t f"
  shows "1 \<le> mt_depth t" and "mt_depth t \<le> 32" and "mt_root t = nodeHash compress f (mt_depth t) 0"
    and "\<And>k. k < mt_depth t \<Longrightarrow> mt_zeroHashes t ! k = zeroHash compress z k" and "mt_initialLeafValue t = z"
    and "stored compress z (mt_db t) f (mt_depth t)" and "\<forall>j. length (f j) = 32" and "\<forall>j\<ge>mt_size t. f j = z"
  using assms by (simp_all add: represents_def)

lemma metaData_ok:
  "mt_depth t \<le> 32 \<Longrightarrow> mt_size t < 2 ^ 32 \<Longrightarrow> length (mt_root t) = 32 \<Longrightarrow>
     metaData t = Inr (mt_root t @ rev (be_bytes 4 (mt_depth t)) @ rev (be_bytes 4 (mt_size t)))"
  by (simp add: metaData_def writeUInt32LE_def)

lemma metaData_error: "2 ^ 32 \<le> mt_size t \<Longrightarrow> mt_depth t \<le> 32 \<Longrightarrow> metaData t = Inl RangeError"
  by (simp add: metaData_def writeUInt32LE_def writeUInt32BE_def)

lemma readUInt32LE_write:
  "length pre = off \<Longrightarrow> n < 2 ^ 32 \<Longrightarrow> readUInt32LE (pre @ rev (be_bytes 4 n) @ rest) off = Inr (int n)"
  by (simp add: readUInt32LE_def bslice_def be_value_bytes)

text \<open>The tree's name is a key of the same store: it must not be the hash of a node.\<close>

definition nameIsNoNode :: "compressFn \<Rightarrow> merkleTree \<Rightarrow> (nat \<Rightarrow> buffer) \<Rightarrow> bool" where
  "nameIsNoNode compress t f \<longleftrightarrow>
     (\<forall>h<mt_depth t. \<forall>i<2 ^ (mt_depth t - Suc h). nodeHash compress f (Suc h) i \<noteq> mt_name t)"

lemma stored_put_name:
  "stored compress z db f (mt_depth t) \<Longrightarrow> nameIsNoNode compress t f \<Longrightarrow>
     stored compress z (db(mt_name t \<mapsto> data)) f (mt_depth t)"
  by (simp add: stored_def nameIsNoNode_def entryOK_def del: nodeHash.simps)

lemma updateElementInternal_root:
  assumes r: "represents compress z t f" and index: "index < 2 ^ mt_depth t"
    and c: "\<forall>a b. length (compress a b) = 32" and f': "f' = f(index := v)"
  shows "updateElementInternal compress (mt_db t) (mt_zeroHashes t) (mt_root t) v index (mt_depth t) []
    = (nodeHash compress f' (mt_depth t) 0, concat (map (pathOps compress f f' index) [0..<mt_depth t]))"
proof -
  note i = representsD [OF r]
  have "entryOK compress z (mt_db t) f k (index div 2 ^ Suc k)" if "k < mt_depth t" for k
    using i(6) that path_index [OF index that] unfolding stored_def by blast
  from updateElementInternal_eq [OF this i(4) i(2) c i(7) f', of "[]"]
  show ?thesis using index i(3) by simp
qed

lemma updateLeafHash_represents:
  assumes r: "represents compress z t f" and index: "index < 2 ^ mt_depth t" "index + 1 < 2 ^ 32" "mt_size t < 2 ^ 32"
    and c: "\<forall>a b. length (compress a b) = 32" and v: "length v = 32" and f': "f' = f(index := v)"
    and cf: "collisionFree compress f f' (mt_depth t)" "collisionFree compress f' f' (mt_depth t)"
    and di: "distinctLeaves z f" and name: "nameIsNoNode compress t f'"
  shows "\<exists>t'. updateLeafHash compress index v t = Inr t' \<and> represents compress z t' f'
    \<and> mt_size t' = max (mt_size t) (index + 1) \<and> mt_depth t' = mt_depth t \<and> mt_name t' = mt_name t"
proof -
  let ?ops = "concat (map (pathOps compress f f' index) [0..<mt_depth t])" and ?root = "nodeHash compress f' (mt_depth t) 0"
  let ?t = "t\<lparr>mt_root := ?root, mt_size := max (mt_size t) (index + 1)\<rparr>"
  note i = representsD(2) [OF r] representsD(6-8) [OF r]
  have l: "\<forall>j. length (f' j) = 32" using i(3) v f' by simp
  have "metaData ?t = Inr (?root @ rev (be_bytes 4 (mt_depth t)) @ rev (be_bytes 4 (max (mt_size t) (index + 1))))"
    using i(1) index nodeHash_32 [OF c l] by (subst metaData_ok) simp_all
  then obtain data where data: "metaData ?t = Inr data" by blast
  let ?t' = "?t\<lparr>mt_db := writeBatch (mt_db t) (?ops @ [Put (mt_name t) data])\<rparr>"
  have "updateLeafHash compress index v t = Inr ?t'"
    by (simp only: updateLeafHash_def updateElementInternal_root [OF r index(1) c f'] Let_def case_prod_conv data) simp
  moreover have "metaData ?t' = Inr data" using data by (simp add: metaData_def)
  moreover have "stored compress z (writeBatch (mt_db t) (?ops @ [Put (mt_name t) data])) f' (mt_depth t)"
    using stored_put_name [OF batch_stored [OF i(2) index(1) f' cf di] name] by simp
  ultimately show ?thesis
    using r l i(4) f' unfolding represents_def by (intro exI [of _ ?t']) simp
qed

text \<open>The siblings on the path of a leaf, lowest first.\<close>

definition treePath :: "compressFn \<Rightarrow> (nat \<Rightarrow> buffer) \<Rightarrow> nat \<Rightarrow> nat \<Rightarrow> hashPath" where
  "treePath compress f index d = map (\<lambda>k. [nodeHash compress f k (2 * (index div 2 ^ Suc k)),
     nodeHash compress f k (2 * (index div 2 ^ Suc k) + 1)]) [0..<d]"

lemma treePath_Suc: "treePath compress f index (Suc d) = treePath compress f index d
    @ [[nodeHash compress f d (2 * (index div 2 ^ Suc d)), nodeHash compress f d (2 * (index div 2 ^ Suc d) + 1)]]"
  by (simp add: treePath_def)

lemma pathFrom_None: "pathFrom db zs index None n = map (\<lambda>i. [zs ! i, zs ! i]) [0..<n]"
  by (induction n) simp_all

lemma div_div_pow: "k \<le> n \<Longrightarrow> (j :: nat) div 2 ^ k = i \<Longrightarrow> j div 2 ^ n = i div 2 ^ (n - k)"
  by (metis div_mult2_eq le_add_diff_inverse power_add)

lemma treePath_zero:
  assumes "\<forall>j. j div 2 ^ n = index div 2 ^ n \<longrightarrow> f j = z"
  shows "treePath compress f index n = map (\<lambda>k. [zeroHash compress z k, zeroHash compress z k]) [0..<n]"
proof -
  have "nodeHash compress f k i = zeroHash compress z k" if k: "k < n" "i div 2 = index div 2 ^ Suc k" for k i
  proof (rule nodeHash_zero)
    fix j
    assume "j div 2 ^ k = i"
    then have "j div 2 ^ Suc k = index div 2 ^ Suc k" using k(2) by (metis power_Suc2 div_mult2_eq)
    then have "j div 2 ^ n = index div 2 ^ n" using k(1) by (metis Suc_leI div_div_pow)
    then show "f j = z" using assms by blast
  qed
  then show ?thesis by (simp add: treePath_def)
qed

lemma pathFrom_eq:
  assumes st: "\<And>k. k < n \<Longrightarrow> entryOK compress z db f k (index div 2 ^ Suc k)"
    and zs: "\<And>k. k < n \<Longrightarrow> zs ! k = zeroHash compress z k"
    and c: "\<forall>a b. length (compress a b) = 32" and f: "\<forall>j. length (f j) = 32"
  shows "pathFrom db zs index (db (nodeHash compress f n (index div 2 ^ n))) n = treePath compress f index n"
  using assms(1,2)
proof (induction n)
  case (Suc n)
  let ?i = "index div 2 ^ Suc n" and ?H = "nodeHash compress f n"
  show ?case
  proof (cases "db (nodeHash compress f (Suc n) ?i)")
    case None
    then have zero: "\<forall>j. j div 2 ^ Suc n = ?i \<longrightarrow> f j = z" using Suc.prems(1) [of n] by (simp add: entryOK_def)
    have "pathFrom db zs index None (Suc n) = map (\<lambda>k. [zeroHash compress z k, zeroHash compress z k]) [0..<Suc n]"
      unfolding pathFrom_None by (rule map_cong [OF refl]) (use Suc.prems(2) in auto)
    then show ?thesis using treePath_zero [OF zero] by (simp only: None)
  next
    case (Some d)
    then have d: "d = ?H (2 * ?i) @ ?H (2 * ?i + 1)"
      using Suc.prems(1) [of n] by (auto simp: entryOK_def children_def simp del: nodeHash.simps)
    have l: "length (?H k) = 32" for k by (rule nodeHash_32 [OF c f])
    have s: "bslice d 0 32 = ?H (2 * ?i)" "bslice d 32 64 = ?H (2 * ?i + 1)" "\<not> length d > 64"
      using l [of "2 * ?i"] l [of "2 * ?i + 1"] by (simp_all add: d bslice_def)
    have "(if bit index n then ?H (2 * ?i + 1) else ?H (2 * ?i)) = ?H (index div 2 ^ n)"
      using child_index [of index n] by simp
    then show ?thesis
      using Suc s by (simp only: Some pathFrom.simps option.case if_False Let_def treePath_Suc)
  qed
qed (simp add: treePath_def)

lemma new_represents:
  assumes "1 \<le> depth" and "depth \<le> 32" and "length z = 32" and "\<forall>a b. length (compress a b) = 32"
    and "\<forall>h<depth. db (zeroHash compress z (Suc h)) = None \<and> zeroHash compress z (Suc h) \<noteq> name"
  shows "\<exists>t. MerkleTree_new compress db name depth z = Inr t \<and> represents compress z t (\<lambda>_. z)
    \<and> mt_depth t = depth \<and> mt_size t = 0 \<and> mt_name t = name"
proof -
  let ?t = "\<lparr>mt_db = db, mt_name = name, mt_depth = depth, mt_size = 0, mt_root = zeroHash compress z depth,
    mt_zeroHashes = map (zeroHash compress z) [0..<depth], mt_initialLeafValue = z\<rparr>"
  have z0: "zeroHash compress z 0 = z" by (simp add: zeroHash_def)
  have l: "length (zeroHash compress z depth) = 32"
    using nodeHash_32 [OF assms(4), of "\<lambda>_. z" depth 0] assms(3) by (simp add: zeroHash_def)
  have new: "newMerkleTree compress db name depth 0 None z = Inr ?t"
    using assms(1,2) zeroLayers_eq [of compress depth z 0] by (simp add: newMerkleTree_def MAX_DEPTH_def z0)
  obtain data where data: "metaData ?t = Inr data" using assms(2) l metaData_ok [of ?t] by simp
  let ?t' = "?t\<lparr>mt_db := db(name \<mapsto> data)\<rparr>"
  have "MerkleTree_new compress db name depth z = Inr ?t'" by (simp add: MerkleTree_new_def new data)
  moreover have "metaData ?t' = Inr data" using data by (simp add: metaData_def)
  moreover have "stored compress z (db(name \<mapsto> data)) (\<lambda>_. z) depth"
    using assms(5) by (simp add: stored_def entryOK_def nodeHash_const del: nodeHash.simps)
  ultimately show ?thesis
    using assms(1,2,3) by (intro exI [of _ ?t']) (simp add: represents_def nodeHash_const)
qed

lemma getHashPath_eq:
  assumes "represents compress z t f" and "index < 2 ^ mt_depth t" and "\<forall>a b. length (compress a b) = 32"
  shows "MerkleTree_getHashPath t index = treePath compress f index (mt_depth t)"
proof -
  note i = representsD [OF assms(1)]
  have "entryOK compress z (mt_db t) f k (index div 2 ^ Suc k)" if "k < mt_depth t" for k
    using i(6) that path_index [OF assms(2) that] unfolding stored_def by blast
  from pathFrom_eq [of "mt_depth t", OF this i(4) assms(3) i(7)] show ?thesis
    using assms(2) i(3) by (simp add: MerkleTree_getHashPath_def)
qed

section \<open>A sample hasher\<close>

definition sampleCompress :: compressFn where
  "sampleCompress a b = replicate 31 1 @ [4 * last a + last b + 1]"

lemma sampleCompress_32: "\<forall>a b. length (sampleCompress a b) = 32"
  by (simp add: sampleCompress_def)

definition sampleLeaf :: "byte \<Rightarrow> buffer" where
  "sampleLeaf n = replicate 31 0 @ [n]"

definition sampleTree :: merkleTree where
  "sampleTree = projr (MerkleTree_new sampleCompress Map.empty [100, 97, 116, 97] 2 (sampleLeaf 0))"

lemma sample_zeroHashes: "zeroHash sampleCompress (sampleLeaf 0) (Suc 0) = replicate 31 1 @ [1]"
  "zeroHash sampleCompress (sampleLeaf 0) (Suc (Suc 0)) = replicate 31 1 @ [6]"
  by (simp_all add: zeroHash_def sampleCompress_def sampleLeaf_def)

lemma sampleTree_represents:
  "represents sampleCompress (sampleLeaf 0) sampleTree (\<lambda>_. sampleLeaf 0) \<and> mt_depth sampleTree = 2
   \<and> mt_size sampleTree = 0 \<and> mt_name sampleTree = [100, 97, 116, 97]"
proof -
  have "\<forall>h<2. Map.empty (zeroHash sampleCompress (sampleLeaf 0) (Suc h)) = None
      \<and> zeroHash sampleCompress (sampleLeaf 0) (Suc h) \<noteq> [100, 97, 116, 97]"
    by (auto simp: less_Suc_eq numeral_2_eq_2 sample_zeroHashes dest!: arg_cong [where f = length])
  from new_represents [OF _ _ _ sampleCompress_32 this] show ?thesis
    by (auto simp: sampleTree_def sampleLeaf_def)
qed

section \<open>Properties\<close>

text \<open>Creating a tree in a store that holds no node of the empty tree gives a tree that represents
  the empty one: every leaf is the initial value.\<close>

theorem merkle_new_represents_empty:
  assumes "1 \<le> depth" and "depth \<le> 32" and "length z = 32" and "\<forall>a b. length (compress a b) = 32"
    and "\<forall>h<depth. db (zeroHash compress z (Suc h)) = None \<and> zeroHash compress z (Suc h) \<noteq> name"
  shows "\<exists>t. MerkleTree_new compress db name depth z = Inr t \<and> represents compress z t (\<lambda>_. z)
    \<and> mt_depth t = depth \<and> mt_size t = 0 \<and> mt_name t = name"
  by (rule new_represents [OF assms])

text \<open>C10: \<open>updateElement\<close> refines the update of one leaf: the tree that represented \<open>f\<close> then represents
  \<open>f\<close> with the new leaf (a zero value standing for the initial leaf), its root is the root of that tree and
  its size covers the index. It holds when the hasher does not collide on the nodes of the two trees and the
  leaves that are not initial are distinct.\<close>

theorem merkle_update_refines:
  assumes "represents compress z t f" and "index < 2 ^ mt_depth t" and "index + 1 < 2 ^ 32" and "mt_size t < 2 ^ 32"
    and "\<forall>a b. length (compress a b) = 32" and "length value = 32" and "length z = 32"
    and "f' = f(index := if value = zeros 32 then z else value)"
    and "collisionFree compress f f' (mt_depth t)" and "collisionFree compress f' f' (mt_depth t)"
    and "distinctLeaves z f" and "nameIsNoNode compress t f'"
  shows "\<exists>t'. updateElement compress index value t = Inr t' \<and> represents compress z t' f'
    \<and> mt_root t' = nodeHash compress f' (mt_depth t) 0 \<and> mt_size t' = max (mt_size t) (index + 1)"
proof -
  have v: "length (if value = zeros 32 then z else value) = 32" using assms(6,7) by simp
  from updateLeafHash_represents [OF assms(1-5) v assms(8-12)] obtain t' where
    t': "updateLeafHash compress index (if value = zeros 32 then z else value) t = Inr t'"
      "represents compress z t' f'" "mt_size t' = max (mt_size t) (index + 1)" "mt_depth t' = mt_depth t" by blast
  then show ?thesis
    using representsD(5) [OF assms(1)] representsD(3) [OF t'(2)]
    by (intro exI [of _ t']) (simp add: updateElement_def del: if_split cong: if_cong)
qed

text \<open>\<open>getHashPath\<close> returns, for every leaf, the sibling hashes of its path to the root, lowest first.\<close>

theorem merkle_hash_path:
  assumes "represents compress z t f" and "index < 2 ^ mt_depth t" and "\<forall>a b. length (compress a b) = 32"
  shows "MerkleTree_getHashPath t index = treePath compress f index (mt_depth t)"
  by (rule getHashPath_eq [OF assms])

text \<open>A tree read back by its name from its store is the tree itself, and synchronising changes nothing.\<close>

theorem merkle_reload:
  assumes "represents compress z t f" and "mt_size t < 2 ^ 32" and "\<forall>a b. length (compress a b) = 32"
  shows "MerkleTree_fromName compress (mt_db t) (mt_name t) z = Inr t \<and> MerkleTree_syncFromDb t = Inr t"
proof -
  note i = representsD [OF assms(1)]
  have l: "length (mt_root t) = 32" using nodeHash_32 [OF assms(3) i(7)] i(3) by simp
  let ?data = "mt_root t @ rev (be_bytes 4 (mt_depth t)) @ rev (be_bytes 4 (mt_size t))"
  have db: "mt_db t (mt_name t) = Some ?data"
    using assms(1) metaData_ok [OF i(2) assms(2) l] by (auto simp: represents_def)
  have "readUInt32LE ?data 32 = Inr (int (mt_depth t))" using l i(2) by (intro readUInt32LE_write) auto
  moreover have "readUInt32LE ?data 36 = Inr (int (mt_size t))"
    using readUInt32LE_write [of "mt_root t @ rev (be_bytes 4 (mt_depth t))" 36 "mt_size t" "[]"] l assms(2) by simp
  moreover have "bslice ?data 0 32 = mt_root t" using l by (simp add: bslice_def)
  moreover have "zeroLayers compress (mt_depth t) z = (mt_zeroHashes t, zeroHash compress z (mt_depth t))"
    using zeroLayers_eq [of compress "mt_depth t" z 0] assms(1) by (simp add: represents_def zeroHash_def)
  ultimately show ?thesis
    using i(1,2,5) by (simp_all add: MerkleTree_fromName_def MerkleTree_syncFromDb_def db newMerkleTree_def MAX_DEPTH_def)
qed


lemma sample_update:
  defines "f \<equiv> \<lambda>_ :: nat. sampleLeaf 0" and "f' \<equiv> (\<lambda>_ :: nat. sampleLeaf 0)(0 := sampleLeaf 1)"
  shows "collisionFree sampleCompress f f' 2 \<and> collisionFree sampleCompress f' f' 2 \<and> distinctLeaves (sampleLeaf 0) f
    \<and> nameIsNoNode sampleCompress sampleTree f'"
proof -
  have n: "nodeHash sampleCompress f (Suc 0) i = replicate 31 1 @ [1]"
    "nodeHash sampleCompress f 2 i = replicate 31 1 @ [6]"
    "nodeHash sampleCompress f' (Suc 0) i = replicate 31 1 @ [if i = 0 then 5 else 1]"
    "nodeHash sampleCompress f' 2 i = replicate 31 1 @ [if i = 0 then 22 else 6]" for i
    by (auto simp: nodeHash_2 f_def f'_def sampleLeaf_def sampleCompress_def)
  have fs: "f i = sampleLeaf 0" "f' i = (if i = 0 then sampleLeaf 1 else sampleLeaf 0)" for i
    by (auto simp: f_def f'_def)
  have a: "collisionFree sampleCompress f f' 2" "collisionFree sampleCompress f' f' 2" "distinctLeaves (sampleLeaf 0) f"
    unfolding collisionFree_def distinctLeaves_def
    by (auto simp: less_2_cases_iff n n [unfolded numeral_2_eq_2] fs sameSubtree_def simp del: nodeHash.simps)
  have b: "nameIsNoNode sampleCompress sampleTree f'"
    unfolding nameIsNoNode_def using sampleTree_represents
    by (auto simp: less_2_cases_iff n n [unfolded numeral_2_eq_2] simp del: nodeHash.simps dest!: arg_cong [where f = length])
  from a b show ?thesis by blast
qed

lemma merkle_new_represents_empty_witness:
  "\<exists>t. MerkleTree_new sampleCompress Map.empty [0] 1 (sampleLeaf 0) = Inr t
    \<and> represents sampleCompress (sampleLeaf 0) t (\<lambda>_. sampleLeaf 0)"
  using merkle_new_represents_empty [OF _ _ _ sampleCompress_32, of 1 "sampleLeaf 0" Map.empty "[0]"]
  by (auto simp: sample_zeroHashes dest!: arg_cong [where f = length]) (auto simp: sampleLeaf_def)

lemma merkle_update_refines_witness:
  "\<exists>t'. updateElement sampleCompress 0 (sampleLeaf 1) sampleTree = Inr t'
    \<and> mt_root t' = replicate 31 1 @ [22] \<and> mt_size t' = 1"
proof -
  have "(\<lambda>_ :: nat. sampleLeaf 0)(0 := sampleLeaf 1)
      = (\<lambda>_. sampleLeaf 0)(0 := if sampleLeaf 1 = zeros 32 then sampleLeaf 0 else sampleLeaf 1)"
    by (auto simp: sampleLeaf_def zeros_def dest!: arg_cong [where f = last])
  moreover have "nodeHash sampleCompress ((\<lambda>_ :: nat. sampleLeaf 0)(0 := sampleLeaf 1)) 2 0 = replicate 31 1 @ [22]"
    by (simp add: numeral_2_eq_2 sampleCompress_def sampleLeaf_def)
  ultimately show ?thesis
    using merkle_update_refines [of sampleCompress "sampleLeaf 0" sampleTree "\<lambda>_. sampleLeaf 0" 0 "sampleLeaf 1"
        "(\<lambda>_. sampleLeaf 0)(0 := sampleLeaf 1)"] sampleTree_represents sampleCompress_32 sample_update
    by (auto simp: sampleLeaf_def)
qed

lemma merkle_hash_path_witness:
  "MerkleTree_getHashPath sampleTree 3
   = [[sampleLeaf 0, sampleLeaf 0], [replicate 31 1 @ [1], replicate 31 1 @ [1]]]"
  using merkle_hash_path [of sampleCompress "sampleLeaf 0" sampleTree "\<lambda>_. sampleLeaf 0" 3]
    sampleTree_represents sampleCompress_32
  by (simp add: treePath_def sampleCompress_def sampleLeaf_def numeral_2_eq_2)

lemma merkle_reload_witness:
  "MerkleTree_fromName sampleCompress (mt_db sampleTree) [100, 97, 116, 97] (sampleLeaf 0) = Inr sampleTree"
  using merkle_reload [of sampleCompress "sampleLeaf 0" sampleTree "\<lambda>_. sampleLeaf 0"]
    sampleTree_represents sampleCompress_32 by simp

section \<open>Subtrees of a bulk insertion\<close>

lemma shrinkSubtree_fits:
  "0 < n \<Longrightarrow> 2 ^ shrinkSubtree n index d \<le> n \<and> 2 ^ shrinkSubtree n index d dvd index"
proof (induction n index d rule: shrinkSubtree.induct)
  case (1 n index d)
  then show ?case by (subst (1 2) shrinkSubtree.simps) (auto simp: not_less)
qed

lemma shrinkSubtree_largest:
  "e \<le> d \<Longrightarrow> 2 ^ e \<le> n \<Longrightarrow> 2 ^ e dvd index \<Longrightarrow> e \<le> shrinkSubtree n index d"
proof (induction n index d rule: shrinkSubtree.induct)
  case (1 n index d)
  show ?case
  proof (cases "0 < d \<and> (n < 2 ^ d \<or> index mod 2 ^ d \<noteq> 0)")
    case True
    then have "e \<noteq> d" using 1(3,4) by auto
    then show ?thesis using 1 True by (subst shrinkSubtree.simps) auto
  next
    case False
    then show ?thesis using 1(2) by (subst shrinkSubtree.simps) (simp only: if_False)
  qed
qed

lemma ceilLog2_bound: "n \<le> 2 ^ ceilLog2 n"
proof (induction n rule: ceilLog2.induct)
  case (1 n)
  show ?case
  proof (cases "n \<le> 1")
    case False
    then have "(n + 1) div 2 \<le> 2 ^ ceilLog2 ((n + 1) div 2)" using 1 by blast
    then have "n \<le> 2 * 2 ^ ceilLog2 ((n + 1) div 2)" by linarith
    then show ?thesis using False by (subst ceilLog2.simps) simp
  qed (simp add: ceilLog2.simps)
qed

text \<open>The subtree a bulk insertion writes next is the largest one that has enough leaves and starts at a
  multiple of its size, so the loop makes progress and every inserted block is aligned.\<close>

theorem bulk_subtree_largest:
  assumes "0 < n"
  shows "2 ^ shrinkSubtree n index (ceilLog2 n) \<le> n \<and> 2 ^ shrinkSubtree n index (ceilLog2 n) dvd index
    \<and> (\<forall>e. 2 ^ e \<le> n \<and> 2 ^ e dvd index \<longrightarrow> e \<le> shrinkSubtree n index (ceilLog2 n))"
proof (intro conjI allI impI)
  fix e
  assume e: "2 ^ e \<le> n \<and> 2 ^ e dvd index"
  then have "(2 :: nat) ^ e \<le> 2 ^ ceilLog2 n" using ceilLog2_bound [of n] by linarith
  then have "e \<le> ceilLog2 n" by simp
  then show "e \<le> shrinkSubtree n index (ceilLog2 n)" using e by (intro shrinkSubtree_largest) simp_all
qed (use shrinkSubtree_fits [OF assms] in simp_all)

lemma bulk_subtree_largest_witness: "2 ^ shrinkSubtree 7 12 (ceilLog2 7) dvd (12 :: nat) \<and> shrinkSubtree 7 12 (ceilLog2 7) = 2"
  using bulk_subtree_largest [of 7 12] by (simp add: ceilLog2.simps shrinkSubtree.simps)

section \<open>Shared subtrees\<close>

text \<open>An update deletes the entries of the old path even where another subtree of the tree has the
  same nodes: a node of the new tree can lose its entry although its leaves are not initial.\<close>

theorem update_deletes_shared_node:
  assumes "represents compress z t f" and "index < 2 ^ mt_depth t" and "index + 1 < 2 ^ 32" and "mt_size t < 2 ^ 32"
    and "\<forall>a b. length (compress a b) = 32" and "length v = 32" and "f' = f(index := v)"
    and "k < mt_depth t" and "nodeHash compress f' (Suc h) i = nodeHash compress f (Suc k) (index div 2 ^ Suc k)"
    and "nodeHash compress f' (Suc h) i \<noteq> mt_name t"
    and "\<forall>j<mt_depth t. nodeHash compress f' (Suc h) i \<noteq> nodeHash compress f' (Suc j) (index div 2 ^ Suc j)"
  shows "\<exists>t'. updateLeafHash compress index v t = Inr t' \<and> mt_root t' = nodeHash compress f' (mt_depth t) 0
    \<and> mt_db t' (nodeHash compress f' (Suc h) i) = None"
proof -
  let ?ops = "concat (map (pathOps compress f f' index) [0..<mt_depth t])" and ?root = "nodeHash compress f' (mt_depth t) 0"
  let ?t = "t\<lparr>mt_root := ?root, mt_size := max (mt_size t) (index + 1)\<rparr>" and ?k = "nodeHash compress f' (Suc h) i"
  have l: "\<forall>j. length (f' j) = 32" using representsD(7) [OF assms(1)] assms(6,7) by simp
  obtain data where data: "metaData ?t = Inr data"
    using representsD(2) [OF assms(1)] assms(3,4) nodeHash_32 [OF assms(5) l] metaData_ok [of ?t] by auto
  have "Del ?k \<in> set ?ops" using assms(8,9,11) unfolding pathOps_set by auto
  moreover have "Put ?k w \<notin> set ?ops" for w using assms(11) unfolding pathOps_set by auto
  ultimately have "writeBatch (mt_db t) ?ops ?k = None" by (cases rule: writeBatch_cases [of "mt_db t" ?ops ?k]) auto
  then show ?thesis
    using updateElementInternal_root [OF assms(1,2,5,7)] assms(10)
    by (simp add: updateLeafHash_def data [unfolded Suc_eq_plus1 [symmetric]] Let_def del: nodeHash.simps)
qed

definition sharedLeaves :: "nat \<Rightarrow> buffer" where
  "sharedLeaves i = (if i < 4 then sampleLeaf (if even i then 1 else 2) else sampleLeaf 0)"

definition sharedTree :: merkleTree where
  "sharedTree = sampleTree\<lparr>mt_size := 4, mt_root := replicate 31 1 @ [36],
     mt_db := [replicate 31 1 @ [7] \<mapsto> sampleLeaf 1 @ sampleLeaf 2,
               replicate 31 1 @ [36] \<mapsto> (replicate 31 1 @ [7]) @ (replicate 31 1 @ [7]),
               [100, 97, 116, 97] \<mapsto> (replicate 31 1 @ [36]) @ rev (be_bytes 4 2) @ rev (be_bytes 4 4)]\<rparr>"

lemma sharedLeaves_nodes:
  "nodeHash sampleCompress sharedLeaves (Suc 0) 0 = replicate 31 1 @ [7]"
  "nodeHash sampleCompress sharedLeaves (Suc 0) 1 = replicate 31 1 @ [7]"
  "nodeHash sampleCompress sharedLeaves 2 0 = replicate 31 1 @ [36]"
  "nodeHash sampleCompress (sharedLeaves(0 := sampleLeaf 3)) (Suc 0) 0 = replicate 31 1 @ [15]"
  "nodeHash sampleCompress (sharedLeaves(0 := sampleLeaf 3)) (Suc 0) 1 = replicate 31 1 @ [7]"
  "nodeHash sampleCompress (sharedLeaves(0 := sampleLeaf 3)) 2 0 = replicate 31 1 @ [68]"
  by (simp_all add: nodeHash_2 sharedLeaves_def sampleLeaf_def sampleCompress_def)

lemma sharedTree_simps:
  "mt_depth sharedTree = 2" "mt_size sharedTree = 4" "mt_name sharedTree = [100, 97, 116, 97]"
  "mt_root sharedTree = replicate 31 1 @ [36]" "mt_zeroHashes sharedTree = mt_zeroHashes sampleTree"
  "mt_initialLeafValue sharedTree = mt_initialLeafValue sampleTree"
  using sampleTree_represents by (simp_all add: sharedTree_def)

lemma sharedTree_represents: "represents sampleCompress (sampleLeaf 0) sharedTree sharedLeaves"
proof -
  have "metaData sharedTree = Inr (mt_root sharedTree @ rev (be_bytes 4 2) @ rev (be_bytes 4 4))"
    using metaData_ok [of sharedTree] by (simp add: sharedTree_simps)
  moreover have "mt_db sharedTree (mt_name sharedTree) = Some (mt_root sharedTree @ rev (be_bytes 4 2) @ rev (be_bytes 4 4))"
    unfolding sharedTree_simps by (simp add: sharedTree_def)
  moreover have "stored sampleCompress (sampleLeaf 0) (mt_db sharedTree) sharedLeaves 2"
    unfolding stored_def
  proof (intro allI impI)
    fix h i :: nat
    assume "h < 2" "i < 2 ^ (2 - Suc h)"
    then consider "h = 0" "i = 0" | "h = 0" "i = 1" | "h = 1" "i = 0" by (auto simp: less_2_cases_iff)
    then show "entryOK sampleCompress (sampleLeaf 0) (mt_db sharedTree) sharedLeaves h i"
      unfolding entryOK_def
      by cases (simp_all add: sharedLeaves_nodes sharedLeaves_nodes [unfolded numeral_2_eq_2 One_nat_def] children_def sharedTree_def
          sharedLeaves_def del: nodeHash.simps(2))
  qed
  ultimately show ?thesis
    using sampleTree_represents unfolding represents_def sharedTree_simps
    by (simp add: sharedLeaves_nodes sharedLeaves_def sampleLeaf_def del: nodeHash.simps)
qed

lemma update_deletes_shared_node_witness:
  "\<exists>t'. updateLeafHash sampleCompress 0 (sampleLeaf 3) sharedTree = Inr t' \<and> mt_root t' = replicate 31 1 @ [68]
    \<and> mt_db t' (nodeHash sampleCompress (sharedLeaves(0 := sampleLeaf 3)) (Suc 0) 1) = None"
proof -
  let ?f' = "sharedLeaves(0 := sampleLeaf 3)"
  have "nodeHash sampleCompress ?f' (Suc 0) 1 \<noteq> mt_name sharedTree"
    unfolding sharedLeaves_nodes sharedTree_simps by (auto dest: arg_cong [where f = length])
  moreover have "\<forall>j<mt_depth sharedTree. nodeHash sampleCompress ?f' (Suc 0) 1 \<noteq> nodeHash sampleCompress ?f' (Suc j) (0 div 2 ^ Suc j)"
    unfolding sharedTree_simps
    by (auto simp: less_2_cases_iff sharedLeaves_nodes sharedLeaves_nodes [unfolded numeral_2_eq_2 One_nat_def]
        simp del: nodeHash.simps(2))
  moreover have "length (sampleLeaf 3) = 32" by (simp add: sampleLeaf_def)
  ultimately have "\<exists>t'. updateLeafHash sampleCompress 0 (sampleLeaf 3) sharedTree = Inr t'
      \<and> mt_root t' = nodeHash sampleCompress ?f' (mt_depth sharedTree) 0
      \<and> mt_db t' (nodeHash sampleCompress ?f' (Suc 0) 1) = None"
    by (intro update_deletes_shared_node [OF sharedTree_represents _ _ _ sampleCompress_32 _ refl, where k = 0])
      (simp_all add: sharedTree_simps sharedLeaves_nodes del: nodeHash.simps(2) One_nat_def)
  then show ?thesis unfolding sharedTree_simps sharedLeaves_nodes .
qed

end
