(* ===== verification/MerkleWorld.thy ===== *)
theory MerkleWorld
  imports Merkle
begin

text \<open>
  The immutable Merkle tree of a rollup's notes (\<open>merkle_tree/memory_merkle_tree.ts\<close>), the multi-threaded
  computation of its nodes (\<open>crypto/pedersen/pooled_pedersen.ts\<close>) and the world state of the client, a tree of
  the roots of such trees (\<open>world_state/world_state.ts\<close>). The lemmas show that the parts compute the nodes and
  paths of one tree over all notes.
\<close>

section \<open>MemoryMerkleTree\<close>

record memoryMerkleTree =
  mm_notes :: "buffer list"
  mm_hashes :: "buffer list"

definition isPowerOf2 :: "nat \<Rightarrow> bool" where
  "isPowerOf2 v = (v \<noteq> 0 \<and> v AND (v - 1) = 0)"

definition MemoryMerkleTree_new :: "(buffer list \<Rightarrow> buffer list) \<Rightarrow> buffer list \<Rightarrow> memoryMerkleTree res" where
  "MemoryMerkleTree_new hashToTree notes =
    (if \<not> isPowerOf2 (length notes) then Inl (Thrown ''MemoryMerkleTree can only handle powers of 2.'')
     else Inr \<lparr>mm_notes = notes, mm_hashes = hashToTree notes\<rparr>)"

function memoryPath :: "buffer list \<Rightarrow> nat \<Rightarrow> nat \<Rightarrow> nat \<Rightarrow> hashPath" where
  "memoryPath hashes index layerSize offset =
    (if layerSize > 1
     then let hashIndex = index + offset;
              pair = (if index mod 2 = 1 then [hashes ! (hashIndex - 1), hashes ! hashIndex]
                      else [hashes ! hashIndex, hashes ! (hashIndex + 1)])
          in pair # memoryPath hashes (index div 2) (layerSize div 2) (offset + layerSize)
     else [])"
  by pat_completeness auto
termination
  by (relation "measure (\<lambda>(h, i, l, off). l)") auto

declare memoryPath.simps [simp del]

definition MemoryMerkleTree_getHashPath :: "memoryMerkleTree \<Rightarrow> int \<Rightarrow> hashPath res" where
  "MemoryMerkleTree_getHashPath t index =
    (if index < 0 \<or> index \<ge> int (length (mm_notes t)) then Inl (Thrown ''Index out of bounds'')
     else Inr (memoryPath (mm_hashes t) (nat index) (length (mm_notes t)) 0))"

definition MemoryMerkleTree_getRoot :: "memoryMerkleTree \<Rightarrow> buffer" where
  "MemoryMerkleTree_getRoot t = last (mm_hashes t)"

section \<open>PooledPedersen\<close>

text \<open>\<open>hashToTree\<close> of \<open>crypto/pedersen/pooled_pedersen.ts\<close>: every worker hashes its part of the values into
  a tree, the layers of the parts are joined and the top of the tree is hashed on the calling thread. The
  number of workers is a power of two (\<open>getNumWorkers\<close>), so the parts have equal sizes.\<close>

function cutLayers :: "buffer list \<Rightarrow> nat \<Rightarrow> buffer list list" where
  "cutLayers hashes i = (if i \<ge> 1 then take i hashes # cutLayers (drop i hashes) (i div 2) else [])"
  by pat_completeness auto
termination
  by (relation "measure (\<lambda>(hashes, i). i)") auto

declare cutLayers.simps [simp del]

definition newRow :: "compressFn \<Rightarrow> buffer list \<Rightarrow> buffer list" where
  "newRow compress lastRow = map (\<lambda>i. compress (lastRow ! (2 * i)) (lastRow ! (2 * i + 1))) [0..<length lastRow div 2]"

function hashUpwards :: "compressFn \<Rightarrow> buffer list \<Rightarrow> buffer list list" where
  "hashUpwards compress lastRow = (if length lastRow > 1
     then let row = newRow compress lastRow in row # hashUpwards compress row else [])"
  by pat_completeness auto
termination
  by (relation "measure (\<lambda>(c, row). length row)") (auto simp: newRow_def)

declare hashUpwards.simps [simp del]

definition pooledHashToTree ::
    "compressFn \<Rightarrow> (buffer list \<Rightarrow> buffer list) \<Rightarrow> nat \<Rightarrow> buffer list \<Rightarrow> buffer list res" where
  "pooledHashToTree compress hashToTree poolSize values =
    (if \<not> isPowerOf2 (length values) then Inl (Thrown ''PooledPedersen::hashValuesToTree can only handle powers of 2.'')
     else let workers = max (min (length values div 2) poolSize) 1;
              numPerThread = length values div workers;
              results = map (\<lambda>i. hashToTree (bslice values (i * numPerThread) ((i + 1) * numPerThread))) [0..<workers];
              sliced = map (\<lambda>hashes. cutLayers hashes numPerThread) results;
              flattened = foldl (\<lambda>flat part. map2 (@) flat part) (hd sliced) (tl sliced)
          in Inr (concat (flattened @ hashUpwards compress (last flattened))))"

section \<open>WorldState\<close>

record worldState =
  ws_tree :: merkleTree
  ws_subTreeDepth :: nat

definition DATA_TREE_DEPTH :: nat where "DATA_TREE_DEPTH = 32"

definition WorldState_init ::
    "compressFn \<Rightarrow> (buffer list \<Rightarrow> buffer list) \<Rightarrow> store \<Rightarrow> buffer \<Rightarrow> nat \<Rightarrow> worldState res" where
  "WorldState_init compress hashToTree db dataName subTreeDepth =
     bindE (MemoryMerkleTree_new hashToTree (replicate (2 ^ subTreeDepth) (zeros 32))) (\<lambda>subTree.
     let treeSize = DATA_TREE_DEPTH - subTreeDepth; subTreeRoot = MemoryMerkleTree_getRoot subTree
     in mapR (\<lambda>tree. \<lparr>ws_tree = tree, ws_subTreeDepth = subTreeDepth\<rparr>)
          (case MerkleTree_fromName compress db dataName subTreeRoot of
             Inr tree \<Rightarrow> Inr tree
           | Inl _ \<Rightarrow> MerkleTree_new compress db dataName treeSize subTreeRoot))"

definition buildZeroHashPath :: "compressFn \<Rightarrow> nat \<Rightarrow> hashPath" where
  "buildZeroHashPath compress depth = zeroPath compress depth (zeros 32)"

definition convertNoteIndexToSubTreeIndex :: "worldState \<Rightarrow> nat \<Rightarrow> nat" where
  "convertNoteIndexToSubTreeIndex w noteIndex = drop_bit (ws_subTreeDepth w) noteIndex"

definition buildFullHashPath :: "worldState \<Rightarrow> nat \<Rightarrow> hashPath \<Rightarrow> hashPath" where
  "buildFullHashPath w noteIndex immutableHashPath =
     immutableHashPath @ MerkleTree_getHashPath (ws_tree w) (convertNoteIndexToSubTreeIndex w noteIndex)"

definition insertElement :: "compressFn \<Rightarrow> nat \<Rightarrow> buffer \<Rightarrow> worldState \<Rightarrow> worldState res" where
  "insertElement compress index element w =
     mapR (\<lambda>tree. w\<lparr>ws_tree := tree\<rparr>) (updateElement compress (convertNoteIndexToSubTreeIndex w index) element (ws_tree w))"

definition insertElements ::
    "compressFn \<Rightarrow> (buffer list \<Rightarrow> buffer list) \<Rightarrow> nat \<Rightarrow> buffer list \<Rightarrow> worldState \<Rightarrow> worldState res" where
  "insertElements compress hashToTree startIndex elements w =
     mapR (\<lambda>tree. w\<lparr>ws_tree := tree\<rparr>)
       (updateElements compress hashToTree (convertNoteIndexToSubTreeIndex w startIndex) elements (ws_tree w))"

section \<open>The nodes of a complete tree, layer by layer\<close>

definition treeLayer :: "compressFn \<Rightarrow> (nat \<Rightarrow> buffer) \<Rightarrow> nat \<Rightarrow> nat \<Rightarrow> buffer list" where
  "treeLayer compress f d j = map (nodeHash compress f j) [0..<2 ^ (d - j)]"

definition treeHashes :: "compressFn \<Rightarrow> (nat \<Rightarrow> buffer) \<Rightarrow> nat \<Rightarrow> buffer list" where
  "treeHashes compress f d = concat (map (treeLayer compress f d) [0..<Suc d])"

definition layerOffset :: "nat \<Rightarrow> nat \<Rightarrow> nat" where
  "layerOffset d j = (\<Sum>i<j. 2 ^ (d - i))"

lemma length_treeLayer [simp]: "length (treeLayer compress f d j) = 2 ^ (d - j)"
  by (simp add: treeLayer_def)

lemma nth_treeHashes:
  assumes "j \<le> d" and "p < 2 ^ (d - j)"
  shows "treeHashes compress f d ! (layerOffset d j + p) = nodeHash compress f j p"
proof -
  let ?g = "treeLayer compress f d"
  have "[0..<Suc d] = [0..<j] @ j # [Suc j..<Suc d]"
    using assms(1) upt_add_eq_append [of 0 j "Suc d - j"] by (simp add: upt_conv_Cons del: upt_Suc)
  then have t: "treeHashes compress f d = concat (map ?g [0..<j]) @ ?g j @ concat (map ?g [Suc j..<Suc d])"
    unfolding treeHashes_def by (simp del: upt_Suc)
  have l: "length (concat (map ?g [0..<j])) = layerOffset d j"
    by (simp add: length_concat layerOffset_def comp_def interv_sum_list_conv_sum_set_nat atLeast0LessThan)
  have "treeHashes compress f d ! (layerOffset d j + p) = (?g j @ concat (map ?g [Suc j..<Suc d])) ! p"
    unfolding t using l by (metis nth_append_length_plus)
  then show ?thesis using assms(2) by (simp add: nth_append) (simp add: treeLayer_def)
qed

lemma layerOffset_Suc: "layerOffset d (Suc j) = layerOffset d j + 2 ^ (d - j)"
  by (simp add: layerOffset_def)

lemma sibling_index:
  fixes p off :: nat
  shows "p mod 2 = 1 \<Longrightarrow> p + off - 1 = off + 2 * (p div 2)" and "p mod 2 = 1 \<Longrightarrow> p = 2 * (p div 2) + 1"
    and "p mod 2 \<noteq> 1 \<Longrightarrow> p = 2 * (p div 2)"
  by presburger+

text \<open>The path read from the stored layers, from layer \<open>j\<close> upwards.\<close>

lemma memoryPath_eq:
  assumes "j \<le> d" and "index < 2 ^ d"
  shows "memoryPath (treeHashes compress f d) (index div 2 ^ j) (2 ^ (d - j)) (layerOffset d j)
    = map (\<lambda>k. [nodeHash compress f k (2 * (index div 2 ^ Suc k)), nodeHash compress f k (2 * (index div 2 ^ Suc k) + 1)])
        [j..<d]"
  using assms(1)
proof (induction rule: inc_induct)
  case base
  then show ?case by (simp add: memoryPath.simps)
next
  case (step j)
  let ?p = "index div 2 ^ j" and ?hs = "treeHashes compress f d" and ?off = "layerOffset d j"
  have dj: "2 ^ (d - j) = 2 * (2 :: nat) ^ (d - Suc j)" using step by (metis Suc_diff_Suc power_Suc)
  have half: "index div 2 ^ Suc j = ?p div 2" by (metis power_Suc2 div_mult2_eq)
  have "index < 2 ^ (d - j) * 2 ^ j" using assms(2) step by (simp flip: power_add)
  then have p: "?p < 2 ^ (d - j)" by (rule less_mult_imp_div_less)
  have node: "?hs ! (?off + q) = nodeHash compress f j q" if "q < 2 ^ (d - j)" for q
    using that step by (intro nth_treeHashes) auto
  have b: "2 * (?p div 2) < 2 ^ (d - j)" "2 * (?p div 2) + 1 < 2 ^ (d - j)"
    using less_mult_imp_div_less [of ?p "2 ^ (d - Suc j)" 2] p unfolding dj by simp_all
  have pair: "(if ?p mod 2 = 1 then [?hs ! (?p + ?off - 1), ?hs ! (?p + ?off)]
      else [?hs ! (?p + ?off), ?hs ! (?p + ?off + 1)])
    = [nodeHash compress f j (2 * (?p div 2)), nodeHash compress f j (2 * (?p div 2) + 1)]"
  proof (cases "?p mod 2 = 1")
    case True
    have "?p + ?off = ?off + (2 * (?p div 2) + 1)" using sibling_index(2) [OF True] by linarith
    then show ?thesis using True node b sibling_index(1) [OF True] by metis
  next
    case False
    have "?p + ?off = ?off + 2 * (?p div 2)" "?p + ?off + 1 = ?off + (2 * (?p div 2) + 1)"
      using sibling_index(3) [OF False] by linarith+
    then show ?thesis using False node b by metis
  qed
  have "memoryPath ?hs ?p (2 ^ (d - j)) ?off = [nodeHash compress f j (2 * (?p div 2)), nodeHash compress f j (2 * (?p div 2) + 1)]
      # memoryPath ?hs (?p div 2) (2 ^ (d - j) div 2) (?off + 2 ^ (d - j))"
    using step(2) one_less_power [of "2 :: nat" "d - j"] unfolding memoryPath.simps [of ?hs ?p] Let_def pair by simp
  also have "2 ^ (d - j) div 2 = (2 :: nat) ^ (d - Suc j)" by (simp add: dj)
  finally show ?case
    using step.IH step(2) by (simp add: half layerOffset_Suc upt_conv_Cons del: power_Suc)
qed

lemma isPowerOf2_pow: "isPowerOf2 (2 ^ d)"
  unfolding isPowerOf2_def mask_eq_exp_minus_1 [symmetric] take_bit_eq_mask [symmetric]
  by (simp add: take_bit_eq_mod)

lemma nodeHash_add:
  "nodeHash compress f (s + h) i = nodeHash compress (nodeHash compress f s) h i"
  by (induction h arbitrary: i) simp_all

lemma nodeHash_shift:
  "j \<le> k \<Longrightarrow> nodeHash compress (\<lambda>m. f (b * 2 ^ k + m)) j p = nodeHash compress f j (b * 2 ^ (k - j) + p)"
proof (induction j arbitrary: p)
  case (Suc j)
  have "2 ^ (k - j) = 2 * (2 :: nat) ^ (k - Suc j)" using Suc.prems by (metis Suc_diff_le diff_Suc_Suc power_Suc)
  then show ?case using Suc by (simp add: algebra_simps)
qed simp

lemma treeHashes_cong:
  assumes "\<And>i. i < 2 ^ d \<Longrightarrow> f i = g i"
  shows "treeHashes compress f d = treeHashes compress g d"
proof -
  have "nodeHash compress f j p = nodeHash compress g j p" if "j \<le> d" "p < 2 ^ (d - j)" for j p
  proof (rule nodeHash_cong)
    fix i :: nat
    assume "i div 2 ^ j = p"
    then have "i < (p + 1) * 2 ^ j"
      by (metis Suc_eq_plus1 dividend_less_div_times less_eq_Suc_le mult.commute mult_Suc zero_less_numeral zero_less_power)
    also have "\<dots> \<le> 2 ^ (d - j) * 2 ^ j" using that(2) by (intro mult_right_mono) simp_all
    also have "\<dots> = 2 ^ d" using that(1) by (simp flip: power_add)
    finally show "f i = g i" by (rule assms)
  qed
  then have "treeLayer compress f d j = treeLayer compress g d j" if "j \<le> d" for j
    using that by (simp add: treeLayer_def)
  then show ?thesis unfolding treeHashes_def by (intro arg_cong [where f = concat] map_cong) (simp_all del: upt_Suc)
qed

section \<open>The parts of the pooled computation\<close>

lemma cutLayers_eq: "cutLayers (concat (map (treeLayer compress f d) [j..<Suc d])) (2 ^ (d - j)) = map (treeLayer compress f d) [j..<Suc d]"
  if "j \<le> d"
  using that
proof (induction rule: inc_induct)
  case base
  then show ?case by (simp add: cutLayers.simps treeLayer_def)
next
  case (step j)
  have "2 ^ (d - j) div 2 = (2 :: nat) ^ (d - Suc j)" using step(2) by (metis Suc_diff_Suc nonzero_mult_div_cancel_left power_Suc zero_neq_numeral)
  moreover have "[j..<Suc d] = j # [Suc j..<Suc d]" using step(2) by (simp add: upt_conv_Cons del: upt_Suc)
  ultimately show ?case using step by (subst cutLayers.simps) (simp del: upt_Suc)
qed

lemma newRow_layer: "j < d \<Longrightarrow> newRow compress (treeLayer compress f d j) = treeLayer compress f d (Suc j)"
proof -
  assume j: "j < d"
  have h: "2 ^ (d - j) = 2 * (2 :: nat) ^ (d - Suc j)" using j by (metis Suc_diff_Suc power_Suc)
  show "newRow compress (treeLayer compress f d j) = treeLayer compress f d (Suc j)"
    unfolding newRow_def length_treeLayer h by (auto simp: treeLayer_def h)
qed

lemma hashUpwards_eq:
  "j \<le> d \<Longrightarrow> hashUpwards compress (treeLayer compress f d j) = map (treeLayer compress f d) [Suc j..<Suc d]"
proof (induction rule: inc_induct)
  case base
  then show ?case by (simp add: hashUpwards.simps)
next
  case (step j)
  have "[Suc j..<Suc d] = Suc j # [Suc (Suc j)..<Suc d]" using step(2) by (simp add: upt_conv_Cons del: upt_Suc)
  then show ?case
    using step one_less_power [of "2 :: nat" "d - j"]
    by (subst hashUpwards.simps) (simp add: newRow_layer Let_def del: upt_Suc)
qed

lemma concat_blocks:
  "concat (map (\<lambda>i. map (\<lambda>p. g (i * n + p)) [0..<n]) [0..<w]) = map g [0..<w * n]"
proof (induction w)
  case (Suc w)
  have "map (\<lambda>p. g (w * n + p)) [0..<n] = map g [w * n..<w * n + n]"
    by (simp add: map_add_upt [symmetric] add.commute del: map_add_upt)
  then show ?case
    using Suc.IH upt_add_eq_append [of 0 "w * n" n] by (simp add: add.commute)
qed simp

lemma fold_parts:
  "foldl (\<lambda>flat part. map2 (@) flat part) (map (G 0) js) (map (\<lambda>i. map (G i) js) [1..<Suc w])
     = map (\<lambda>j. concat (map (\<lambda>i. G i j) [0..<Suc w])) js"
proof (induction w)
  case (Suc w)
  have "[1..<Suc (Suc w)] = [1..<Suc w] @ [Suc w]" "[0..<Suc (Suc w)] = [0..<Suc w] @ [Suc w]" by simp_all
  then show ?case using Suc.IH by (simp add: map2_map_map del: upt_Suc)
qed simp

lemma bslice_block: "length values = W * n \<Longrightarrow> i < W \<Longrightarrow> m < n \<Longrightarrow> bslice values (i * n) ((i + 1) * n) ! m = values ! (i * n + m)"
proof -
  assume a: "length values = W * n" "i < W" "m < n"
  then have "(i + 1) * n \<le> W * n" by (intro mult_le_mono1) simp
  with a show ?thesis by (simp add: bslice_def)
qed

lemma length_block: "length values = W * n \<Longrightarrow> i < W \<Longrightarrow> length (bslice values (i * n) ((i + 1) * n)) = n"
proof -
  assume a: "length values = W * n" "i < W"
  then have "(i + 1) * n \<le> W * n" by (intro mult_le_mono1) simp
  with a show ?thesis by (simp add: bslice_def)
qed

text \<open>The tree of one worker's part, the layers of all parts, and their joining.\<close>

lemma part_layers:
  assumes h: "\<And>k xs. length xs = 2 ^ k \<Longrightarrow> hashToTree xs = treeHashes compress (nth xs) k"
    and len: "length values = W * 2 ^ k" and i: "i < W"
  shows "cutLayers (hashToTree (bslice values (i * 2 ^ k) ((i + 1) * 2 ^ k))) (2 ^ k)
    = map (treeLayer compress (\<lambda>m. values ! (i * 2 ^ k + m)) k) [0..<Suc k]"
proof -
  have "hashToTree (bslice values (i * 2 ^ k) ((i + 1) * 2 ^ k)) = treeHashes compress (\<lambda>m. values ! (i * 2 ^ k + m)) k"
    unfolding h [OF length_block [OF len i]] by (rule treeHashes_cong) (rule bslice_block [OF len i])
  then show ?thesis using cutLayers_eq [of 0 k] unfolding treeHashes_def by (simp del: upt_Suc)
qed

lemma joined_row:
  assumes "j \<le> k" and "k \<le> d"
  shows "concat (map (\<lambda>i. treeLayer compress (\<lambda>m. f (i * 2 ^ k + m)) k j) [0..<2 ^ (d - k)]) = treeLayer compress f d j"
proof -
  have "2 ^ (d - k) * 2 ^ (k - j) = (2 :: nat) ^ (d - j)" using assms by (simp flip: power_add)
  then show ?thesis
    using concat_blocks [of "nodeHash compress f j" "2 ^ (k - j)" "2 ^ (d - k)"]
    by (simp add: treeLayer_def nodeHash_shift [OF assms(1), abs_def])
qed

lemma joined_parts:
  assumes "k \<le> d" and sl: "sliced = map (\<lambda>i. map (treeLayer compress (\<lambda>m. f (i * 2 ^ k + m)) k) [0..<Suc k]) [0..<2 ^ (d - k)]"
  shows "foldl (\<lambda>flat part. map2 (@) flat part) (hd sliced) (tl sliced) = map (treeLayer compress f d) [0..<Suc k]"
proof -
  obtain w where w: "2 ^ (d - k) = Suc w" by (metis not0_implies_Suc power_not_zero zero_neq_numeral)
  let ?G = "\<lambda>i. treeLayer compress (\<lambda>m. f (i * 2 ^ k + m)) k"
  have "[0..<Suc w] = 0 # [1..<Suc w]" by (simp add: upt_conv_Cons del: upt_Suc)
  then have "foldl (\<lambda>flat part. map2 (@) flat part) (hd sliced) (tl sliced)
      = map (\<lambda>j. concat (map (\<lambda>i. ?G i j) [0..<Suc w])) [0..<Suc k]"
    unfolding sl w fold_parts [symmetric] by (simp del: upt_Suc)
  also have "\<dots> = map (treeLayer compress f d) [0..<Suc k]"
    by (rule map_cong [OF refl]) (use joined_row [OF _ assms(1)] in \<open>simp add: less_Suc_eq_le flip: w del: upt_Suc\<close>)
  finally show ?thesis .
qed

lemma workers_pow: "\<exists>k\<le>d. max (min (2 ^ d div 2) (2 ^ q)) 1 = (2 :: nat) ^ (d - k)"
proof (cases d)
  case (Suc a)
  have "min (2 ^ d div 2) (2 ^ q) = (2 :: nat) ^ min a q" by (simp add: Suc min_def)
  then have "max (min (2 ^ d div 2) (2 ^ q)) 1 = (2 :: nat) ^ (d - (d - min a q))"
    by (simp add: max_absorb1 Suc)
  then show ?thesis by (intro exI [of _ "d - min a q"]) simp
qed simp

lemma pooled_eq:
  assumes len: "length values = 2 ^ d"
    and h: "\<And>k xs. length xs = 2 ^ k \<Longrightarrow> hashToTree xs = treeHashes compress (nth xs) k"
  shows "pooledHashToTree compress hashToTree (2 ^ q) values = Inr (treeHashes compress (nth values) d)"
proof -
  obtain k where k: "k \<le> d" and W: "max (min (2 ^ d div 2) (2 ^ q)) 1 = (2 :: nat) ^ (d - k)"
    using workers_pow by blast
  have n: "2 ^ d div 2 ^ (d - k) = (2 :: nat) ^ k" using k by (metis diff_diff_cancel diff_le_self power_diff zero_neq_numeral)
  have lenW: "length values = 2 ^ (d - k) * 2 ^ k" using len k by (simp flip: power_add)
  define sliced where "sliced = map (\<lambda>hashes. cutLayers hashes (2 ^ k))
    (map (\<lambda>i. hashToTree (bslice values (i * 2 ^ k) ((i + 1) * 2 ^ k))) [0..<2 ^ (d - k)])"
  have "sliced = map (\<lambda>i. map (treeLayer compress (\<lambda>m. values ! (i * 2 ^ k + m)) k) [0..<Suc k]) [0..<2 ^ (d - k)]"
    unfolding sliced_def map_map comp_def by (rule map_cong [OF refl], rule part_layers [OF h lenW]) simp_all
  note fl = joined_parts [OF k this]
  have "[0..<Suc d] = [0..<Suc k] @ [Suc k..<Suc d]"
    using upt_add_eq_append [of 0 "Suc k" "d - k"] k by (simp del: upt_Suc)
  then have rest: "map (treeLayer compress (nth values) d) [0..<Suc k] @ hashUpwards compress (treeLayer compress (nth values) d k)
      = map (treeLayer compress (nth values) d) [0..<Suc d]"
    by (simp only: hashUpwards_eq [OF k] map_append)
  have last: "last (map (treeLayer compress (nth values) d) [0..<Suc k]) = treeLayer compress (nth values) d k" by simp
  show ?thesis
    by (simp only: pooledHashToTree_def len W n Let_def isPowerOf2_pow not_True_eq_False if_False
        sliced_def [symmetric] fl last rest treeHashes_def)
qed

section \<open>Properties\<close>

text \<open>The multi-threaded \<open>hashToTree\<close> computes exactly what one worker computes, for every number of
  values and of workers that are powers of two.\<close>

theorem pooled_hash_equals_single:
  assumes "length values = 2 ^ d"
    and "\<forall>k xs. length xs = 2 ^ k \<longrightarrow> hashToTree xs = treeHashes compress (nth xs) k"
  shows "pooledHashToTree compress hashToTree (2 ^ q) values = Inr (hashToTree values)"
  using pooled_eq [OF assms(1)] assms by metis

text \<open>The immutable tree over \<open>2^d\<close> notes returns for every note the sibling hashes of its path, and its
  root is the root of the complete tree; an index out of range is an error.\<close>

theorem memory_tree_path:
  assumes "length notes = 2 ^ d"
    and "hashToTree notes = treeHashes compress (nth notes) d"
  shows "\<exists>t. MemoryMerkleTree_new hashToTree notes = Inr t
    \<and> MemoryMerkleTree_getRoot t = nodeHash compress (nth notes) d 0
    \<and> MemoryMerkleTree_getHashPath t index
      = (if 0 \<le> index \<and> index < 2 ^ d then Inr (treePath compress (nth notes) (nat index) d)
         else Inl (Thrown ''Index out of bounds''))"
proof -
  let ?t = "\<lparr>mm_notes = notes, mm_hashes = hashToTree notes\<rparr>"
  have "last (treeHashes compress (nth notes) d) = nodeHash compress (nth notes) d 0"
    by (simp add: treeHashes_def treeLayer_def)
  moreover have "memoryPath (treeHashes compress (nth notes) d) (nat index) (2 ^ d) 0 = treePath compress (nth notes) (nat index) d"
    if "0 \<le> index" "index < 2 ^ d"
  proof -
    have "int (nat index) < int (2 ^ d)" using that by simp
    then have "nat index < 2 ^ d" by (simp only: of_nat_less_iff)
    then show ?thesis using memoryPath_eq [of 0 d "nat index" compress "nth notes"] by (simp add: treePath_def layerOffset_def)
  qed
  ultimately show ?thesis
    using assms isPowerOf2_pow [of d]
    by (intro exI [of _ ?t]) (auto simp: MemoryMerkleTree_new_def MemoryMerkleTree_getRoot_def MemoryMerkleTree_getHashPath_def)
qed

text \<open>The full hash path of a note, its path in the immutable tree of its rollup followed by the path of
  that tree's root in the data tree, is its path in the one tree over all notes.\<close>

theorem full_hash_path:
  assumes "represents compress z (ws_tree w) roots" and "\<forall>a b. length (compress a b) = 32"
    and "roots = nodeHash compress notes (ws_subTreeDepth w)"
    and "noteIndex < 2 ^ (ws_subTreeDepth w + mt_depth (ws_tree w))"
  shows "buildFullHashPath w noteIndex (treePath compress notes noteIndex (ws_subTreeDepth w))
    = treePath compress notes noteIndex (ws_subTreeDepth w + mt_depth (ws_tree w))"
proof -
  let ?s = "ws_subTreeDepth w" and ?d = "mt_depth (ws_tree w)"
  let ?b = "noteIndex div 2 ^ ?s"
  have "noteIndex < 2 ^ ?d * 2 ^ ?s" using assms(4) by (simp add: power_add mult.commute)
  then have b: "?b < 2 ^ ?d" by (rule less_mult_imp_div_less)
  have node: "nodeHash compress roots k i = nodeHash compress notes (?s + k) i" for k i
    unfolding assms(3) by (rule nodeHash_add [symmetric])
  have i: "?b div 2 ^ Suc k = noteIndex div 2 ^ Suc (?s + k)" for k
    by (simp add: power_add mult.commute mult.left_commute flip: div_mult2_eq)
  have u: "[?s..<?s + ?d] = map (\<lambda>k. ?s + k) [0..<?d]" using map_add_upt [of ?s ?d] by (simp add: add.commute)
  have "treePath compress notes noteIndex (?s + ?d) = treePath compress notes noteIndex ?s
      @ map (\<lambda>k. [nodeHash compress notes (?s + k) (2 * (noteIndex div 2 ^ Suc (?s + k))),
          nodeHash compress notes (?s + k) (2 * (noteIndex div 2 ^ Suc (?s + k)) + 1)]) [0..<?d]"
    unfolding treePath_def upt_add_eq_append [of 0 ?s ?d, simplified] map_append u
    by (simp add: comp_def del: power_Suc)
  then show ?thesis
    unfolding buildFullHashPath_def convertNoteIndexToSubTreeIndex_def drop_bit_eq_div
      getHashPath_eq [OF assms(1) b assms(2)] by (simp only: treePath_def node i)
qed

definition sampleHashToTree :: "buffer list \<Rightarrow> buffer list" where
  "sampleHashToTree xs = concat (xs # hashUpwards sampleCompress xs)"

lemma sampleHashToTree_eq:
  assumes "length xs = 2 ^ k"
  shows "sampleHashToTree xs = treeHashes sampleCompress (nth xs) k"
proof -
  have "treeLayer sampleCompress (nth xs) k 0 = xs"
    using assms map_nth [of xs] by (simp add: treeLayer_def nodeHash_0)
  then show ?thesis
    using hashUpwards_eq [of 0 k sampleCompress "nth xs"]
    by (simp add: sampleHashToTree_def treeHashes_def upt_conv_Cons del: upt_Suc)
qed

lemma pooled_hash_equals_single_witness:
  "pooledHashToTree sampleCompress sampleHashToTree 2 (map sampleLeaf [1, 2, 3, 4])
   = Inr (sampleHashToTree (map sampleLeaf [1, 2, 3, 4]))"
  using pooled_hash_equals_single [of "map sampleLeaf [1, 2, 3, 4]" 2 sampleHashToTree sampleCompress 1] sampleHashToTree_eq
  by simp

lemma memory_tree_path_witness:
  "\<exists>t. MemoryMerkleTree_new sampleHashToTree (map sampleLeaf [1, 2]) = Inr t
    \<and> MemoryMerkleTree_getHashPath t 1 = Inr [[sampleLeaf 1, sampleLeaf 2]]
    \<and> MemoryMerkleTree_getHashPath t 2 = Inl (Thrown ''Index out of bounds'')"
proof -
  let ?xs = "map sampleLeaf [1, 2]"
  have h: "length ?xs = 2 ^ 1" "sampleHashToTree ?xs = treeHashes sampleCompress (nth ?xs) 1"
    by (simp, rule sampleHashToTree_eq) simp
  obtain t where "MemoryMerkleTree_new sampleHashToTree ?xs = Inr t"
    and p: "MemoryMerkleTree_getHashPath t 1 = Inr (treePath sampleCompress (nth ?xs) 1 1)"
    using memory_tree_path [of ?xs 1 sampleHashToTree sampleCompress 1, OF h] by auto
  moreover from this(1) memory_tree_path [of ?xs 1 sampleHashToTree sampleCompress 2, OF h]
  have "MemoryMerkleTree_getHashPath t 2 = Inl (Thrown ''Index out of bounds'')" by auto
  ultimately show ?thesis by (auto simp: treePath_def)
qed

lemma full_hash_path_witness:
  "\<exists>w. represents sampleCompress (zeroHash sampleCompress (sampleLeaf 0) 1) (ws_tree w)
      (nodeHash sampleCompress (\<lambda>_. sampleLeaf 0) 1)
    \<and> buildFullHashPath w 3 [[sampleLeaf 0, sampleLeaf 0]]
      = [[sampleLeaf 0, sampleLeaf 0], [replicate 31 1 @ [1], replicate 31 1 @ [1]]]"
proof -
  let ?z = "zeroHash sampleCompress (sampleLeaf 0) 1"
  have z: "?z = replicate 31 1 @ [1]" using sample_zeroHashes(1) by simp
  have "length (zeroHash sampleCompress ?z 1) = 32" unfolding z by (simp add: zeroHash_def sampleCompress_def)
  then have "zeroHash sampleCompress ?z 1 \<noteq> [0]" by auto
  then have "\<forall>h<1. Map.empty (zeroHash sampleCompress ?z (Suc h)) = None \<and> zeroHash sampleCompress ?z (Suc h) \<noteq> [0]"
    by simp
  moreover have "length ?z = 32" unfolding z by simp
  ultimately obtain t where t: "represents sampleCompress ?z t (\<lambda>_. ?z)" "mt_depth t = 1"
    using new_represents [of 1 ?z sampleCompress Map.empty "[0]"] sampleCompress_32 by auto
  let ?w = "\<lparr>ws_tree = t, ws_subTreeDepth = 1\<rparr>"
  have n: "nodeHash sampleCompress (\<lambda>_. sampleLeaf 0) 1 = (\<lambda>_. ?z)" by (rule ext) (rule nodeHash_const)
  have "buildFullHashPath ?w 3 (treePath sampleCompress (\<lambda>_. sampleLeaf 0) 3 (ws_subTreeDepth ?w))
      = treePath sampleCompress (\<lambda>_. sampleLeaf 0) 3 (ws_subTreeDepth ?w + mt_depth (ws_tree ?w))"
    by (rule full_hash_path [where z = ?z and roots = "\<lambda>_. ?z"]) (simp_all add: t n sampleCompress_32 del: One_nat_def)
  then have "buildFullHashPath ?w 3 (treePath sampleCompress (\<lambda>_. sampleLeaf 0) 3 1) = treePath sampleCompress (\<lambda>_. sampleLeaf 0) 3 2"
    by (simp only: t select_convs) (simp add: numeral_2_eq_2)
  moreover have "treePath sampleCompress (\<lambda>_. sampleLeaf 0) 3 1 = [[sampleLeaf 0, sampleLeaf 0]]"
    by (simp add: treePath_def)
  moreover have "treePath sampleCompress (\<lambda>_. sampleLeaf 0) 3 2
      = [[sampleLeaf 0, sampleLeaf 0], [replicate 31 1 @ [1], replicate 31 1 @ [1]]]"
    by (simp add: treePath_def numeral_2_eq_2) (simp add: sampleCompress_def sampleLeaf_def)
  ultimately have "represents sampleCompress ?z (ws_tree ?w) (nodeHash sampleCompress (\<lambda>_. sampleLeaf 0) 1)
    \<and> buildFullHashPath ?w 3 [[sampleLeaf 0, sampleLeaf 0]]
      = [[sampleLeaf 0, sampleLeaf 0], [replicate 31 1 @ [1], replicate 31 1 @ [1]]]"
    using t(1) by (simp add: n del: One_nat_def)
  then show ?thesis by (rule exI)
qed

end
