(* ===== verification/Fifo.thy ===== *)
theory Fifo
  imports Prelude "HOL-Library.Sublist"
begin

text \<open>
  \<open>barretenberg.js/src/fifo/memory_fifo.ts\<close> and \<open>semaphore.ts\<close>: the queue with blocking consumers that every
  asynchronous component uses, and the counting semaphore built on it. A consumer is the number of its
  promise; an operation returns the changed queue and the promises it settles, in order. A promise keeps its
  first outcome, so the outcome of consumer \<open>c\<close> after a run is \<open>map_of out c\<close>. The lemmas show what consumers
  receive in every run, and the locale states the contract the semaphore relies on.
\<close>

section \<open>MemoryFifo\<close>

record 'a memoryFifo =
  mf_waiting :: "nat list"
  mf_items :: "'a list"
  mf_flushing :: bool

datatype 'a outcome = Item 'a | Null | TimedOut

type_synonym 'a settled = "(nat \<times> 'a outcome) list"

definition newMemoryFifo :: "'a memoryFifo" where
  "newMemoryFifo = \<lparr>mf_waiting = [], mf_items = [], mf_flushing = False\<rparr>"

definition fifo_length :: "'a memoryFifo \<Rightarrow> nat" where
  "fifo_length q = length (mf_items q)"

definition fifo_get :: "nat \<Rightarrow> 'a memoryFifo \<Rightarrow> 'a memoryFifo \<times> 'a settled" where
  "fifo_get c q = (case mf_items q of
       x # xs \<Rightarrow> (q\<lparr>mf_items := xs\<rparr>, [(c, Item x)])
     | [] \<Rightarrow> if mf_flushing q then (q, [(c, Null)]) else (q\<lparr>mf_waiting := mf_waiting q @ [c]\<rparr>, []))"

text \<open>The timer of a \<open>get\<close> with a timeout fires.\<close>

definition fifo_timeout :: "nat \<Rightarrow> 'a memoryFifo \<Rightarrow> 'a memoryFifo \<times> 'a settled" where
  "fifo_timeout c q = (if c \<in> set (mf_waiting q) then (q\<lparr>mf_waiting := remove1 c (mf_waiting q)\<rparr>, [(c, TimedOut)])
     else (q, []))"

definition fifo_put :: "'a \<Rightarrow> 'a memoryFifo \<Rightarrow> 'a memoryFifo \<times> 'a settled" where
  "fifo_put x q = (if mf_flushing q then (q, [])
     else case mf_waiting q of
       c # cs \<Rightarrow> (q\<lparr>mf_waiting := cs\<rparr>, [(c, Item x)])
     | [] \<Rightarrow> (q\<lparr>mf_items := mf_items q @ [x]\<rparr>, []))"

definition fifo_end :: "'a memoryFifo \<Rightarrow> 'a memoryFifo \<times> 'a settled" where
  "fifo_end q = (q\<lparr>mf_flushing := True\<rparr>, map (\<lambda>c. (c, Null)) (mf_waiting q))"

definition fifo_cancel :: "'a memoryFifo \<Rightarrow> 'a memoryFifo \<times> 'a settled" where
  "fifo_cancel q = (q\<lparr>mf_flushing := True, mf_items := []\<rparr>, map (\<lambda>c. (c, Null)) (mf_waiting q))"

section \<open>Runs\<close>

datatype 'a fifoEvent = EvGet nat | EvTimeout nat | EvPut 'a | EvEnd | EvCancel

fun fifo_step :: "'a memoryFifo \<Rightarrow> 'a fifoEvent \<Rightarrow> 'a memoryFifo \<times> 'a settled" where
  "fifo_step q (EvGet c) = fifo_get c q"
| "fifo_step q (EvTimeout c) = fifo_timeout c q"
| "fifo_step q (EvPut x) = fifo_put x q"
| "fifo_step q EvEnd = fifo_end q"
| "fifo_step q EvCancel = fifo_cancel q"

definition fifo_run :: "'a fifoEvent list \<Rightarrow> 'a memoryFifo \<times> 'a settled" where
  "fifo_run evs = foldl (\<lambda>(q, out) e. let (q', now) = fifo_step q e in (q', out @ now)) (newMemoryFifo, []) evs"

text \<open>The requests in order, the items put while the queue was open, and the items and consumers delivered.\<close>

fun requests :: "'a fifoEvent list \<Rightarrow> nat list" where
  "requests [] = []"
| "requests (EvGet c # evs) = c # requests evs"
| "requests (_ # evs) = requests evs"

fun acceptedItems :: "'a fifoEvent list \<Rightarrow> 'a list" where
  "acceptedItems [] = []"
| "acceptedItems (EvPut x # evs) = x # acceptedItems evs"
| "acceptedItems (EvEnd # evs) = []"
| "acceptedItems (EvCancel # evs) = []"
| "acceptedItems (_ # evs) = acceptedItems evs"

definition deliveries :: "'a settled \<Rightarrow> (nat \<times> 'a) list" where
  "deliveries out = concat (map (\<lambda>(c, r). case r of Item x \<Rightarrow> [(c, x)] | _ \<Rightarrow> []) out)"

lemma deliveries_simps [simp]:
  "deliveries [] = []" "deliveries ((c, Item x) # out) = (c, x) # deliveries out"
  "deliveries ((c, Null) # out) = deliveries out" "deliveries ((c, TimedOut) # out) = deliveries out"
  "deliveries (out @ out') = deliveries out @ deliveries out'" "deliveries (map (\<lambda>c. (c, Null)) cs) = []"
  by (simp_all add: deliveries_def comp_def)

lemma fifo_run_Nil [simp]: "fifo_run [] = (newMemoryFifo, [])"
  by (simp add: fifo_run_def)

lemma fifo_run_snoc [simp]:
  "fifo_run (evs @ [e]) = (let (q, out) = fifo_run evs; (q', now) = fifo_step q e in (q', out @ now))"
  by (simp add: fifo_run_def split_beta Let_def)

lemma requests_append [simp]: "requests (evs @ evs') = requests evs @ requests evs'"
  by (induction evs rule: requests.induct) simp_all

definition closing :: "'a fifoEvent list \<Rightarrow> bool" where
  "closing evs \<longleftrightarrow> EvEnd \<in> set evs \<or> EvCancel \<in> set evs"

lemma acceptedItems_append: "acceptedItems (evs @ evs') = acceptedItems evs @ (if closing evs then [] else acceptedItems evs')"
  by (induction evs rule: acceptedItems.induct) (simp_all add: closing_def)

text \<open>How an operation changes the queue, by its outcome.\<close>

lemma fifo_step_cases:
  assumes "fifo_step q e = (q', now)"
  obtains (serve) c x xs where "e = EvGet c" "mf_items q = x # xs" "q' = q\<lparr>mf_items := xs\<rparr>" "now = [(c, Item x)]"
    | (drained) c where "e = EvGet c" "mf_items q = []" "mf_flushing q" "q' = q" "now = [(c, Null)]"
    | (wait) c where "e = EvGet c" "mf_items q = []" "\<not> mf_flushing q" "q' = q\<lparr>mf_waiting := mf_waiting q @ [c]\<rparr>" "now = []"
    | (timeout) c where "e = EvTimeout c" "c \<in> set (mf_waiting q)" "q' = q\<lparr>mf_waiting := remove1 c (mf_waiting q)\<rparr>"
        "now = [(c, TimedOut)]"
    | (late) c where "e = EvTimeout c" "c \<notin> set (mf_waiting q)" "q' = q" "now = []"
    | (dropped) x where "e = EvPut x" "mf_flushing q" "q' = q" "now = []"
    | (handed) x c cs where "e = EvPut x" "\<not> mf_flushing q" "mf_waiting q = c # cs" "q' = q\<lparr>mf_waiting := cs\<rparr>"
        "now = [(c, Item x)]"
    | (queued) x where "e = EvPut x" "\<not> mf_flushing q" "mf_waiting q = []" "q' = q\<lparr>mf_items := mf_items q @ [x]\<rparr>" "now = []"
    | (ended) "e = EvEnd" "q' = q\<lparr>mf_flushing := True\<rparr>" "now = map (\<lambda>c. (c, Null)) (mf_waiting q)"
    | (cancelled) "e = EvCancel" "q' = q\<lparr>mf_flushing := True, mf_items := []\<rparr>" "now = map (\<lambda>c. (c, Null)) (mf_waiting q)"
  using assms
  by (cases e; cases "mf_items q"; cases "mf_waiting q"; cases "mf_flushing q")
    (auto simp: fifo_get_def fifo_timeout_def fifo_put_def fifo_end_def fifo_cancel_def split: if_splits)

text \<open>The invariant of every run: the state of the queue, what was delivered, who is settled, in which order.\<close>

definition inv_open :: "'a fifoEvent list \<Rightarrow> 'a memoryFifo \<Rightarrow> bool" where
  "inv_open evs q \<longleftrightarrow> mf_flushing q = closing evs \<and> (mf_flushing q \<or> mf_waiting q = [] \<or> mf_items q = [])"

definition inv_items :: "'a fifoEvent list \<Rightarrow> 'a memoryFifo \<Rightarrow> 'a settled \<Rightarrow> bool" where
  "inv_items evs q out \<longleftrightarrow> prefix (map snd (deliveries out) @ mf_items q) (acceptedItems evs)
     \<and> (EvCancel \<notin> set evs \<longrightarrow> map snd (deliveries out) @ mf_items q = acceptedItems evs)"

definition inv_settled :: "'a fifoEvent list \<Rightarrow> 'a memoryFifo \<Rightarrow> 'a settled \<Rightarrow> bool" where
  "inv_settled evs q out \<longleftrightarrow>
     (\<forall>c\<in>set (requests evs). c \<in> fst ` set out \<or> \<not> mf_flushing q \<and> c \<in> set (mf_waiting q))"

definition inv_order :: "'a fifoEvent list \<Rightarrow> 'a memoryFifo \<Rightarrow> 'a settled \<Rightarrow> bool" where
  "inv_order evs q out \<longleftrightarrow>
     subseq (map fst (deliveries out) @ (if mf_flushing q then [] else mf_waiting q)) (requests evs)"

lemma closing_snoc: "closing (evs @ [e]) \<longleftrightarrow> closing evs \<or> e = EvEnd \<or> e = EvCancel"
  by (auto simp: closing_def)

lemma inv_open_step: "inv_open evs q \<Longrightarrow> fifo_step q e = (q', now) \<Longrightarrow> inv_open (evs @ [e]) q'"
  by (erule fifo_step_cases) (auto simp: inv_open_def closing_snoc)

lemma acceptedItems_snoc:
  "acceptedItems (evs @ [e]) = acceptedItems evs @ (if closing evs then [] else case e of EvPut x \<Rightarrow> [x] | _ \<Rightarrow> [])"
  by (cases e) (simp_all add: acceptedItems_append)

lemma inv_items_step:
  assumes "inv_items evs q out" and "inv_open evs q" and "fifo_step q e = (q', now)"
  shows "inv_items (evs @ [e]) q' (out @ now)"
  using assms(3)
proof (cases rule: fifo_step_cases)
  case cancelled
  then show ?thesis using assms(1) by (simp add: inv_items_def acceptedItems_snoc) (metis append_prefixD prefix_order.trans prefixI)
next
  case (queued x)
  then have "EvCancel \<notin> set evs" using assms(2) by (simp add: inv_open_def closing_def)
  then show ?thesis using assms(1,2) queued by (simp add: inv_items_def inv_open_def acceptedItems_snoc)
next
  case (handed x c cs)
  then have "EvCancel \<notin> set evs" "mf_items q = []" using assms(2) by (simp_all add: inv_open_def closing_def)
  then show ?thesis using assms(1,2) handed by (simp add: inv_items_def inv_open_def acceptedItems_snoc)
qed (use assms(1,2) in \<open>simp_all add: inv_items_def inv_open_def acceptedItems_snoc\<close>)

lemma inv_settled_step:
  assumes "inv_settled evs q out" and "fifo_step q e = (q', now)"
  shows "inv_settled (evs @ [e]) q' (out @ now)"
  using assms(2)
proof (cases rule: fifo_step_cases)
  case (timeout c)
  have "x = c \<or> x \<in> set (remove1 c (mf_waiting q)) \<longleftrightarrow> x = c \<or> x \<in> set (mf_waiting q)" for x
    by (cases "x = c") simp_all
  then show ?thesis using assms(1) timeout by (auto simp: inv_settled_def)
qed (use assms(1) in \<open>auto simp: inv_settled_def image_Un image_image\<close>)

lemma subseq_waiting: "subseq ws' ws \<Longrightarrow> subseq (xs @ ws) zs \<Longrightarrow> subseq (xs @ ws') zs"
  by (metis list_emb_append_mono subseq_order.refl subseq_order.trans)

lemma subseq_remove1: "subseq (remove1 c xs) xs"
  by (induction xs) auto

lemma inv_order_step:
  assumes "inv_order evs q out" and "inv_open evs q" and "fifo_step q e = (q', now)"
  shows "inv_order (evs @ [e]) q' (out @ now)"
  using assms(3)
proof (cases rule: fifo_step_cases)
  case (serve c x xs)
  then have "mf_flushing q \<or> mf_waiting q = []" using assms(2) by (auto simp: inv_open_def)
  then have "subseq (map fst (deliveries out)) (requests evs)" using assms(1)
    by (auto simp: inv_order_def split: if_splits)
  then show ?thesis using serve \<open>mf_flushing q \<or> mf_waiting q = []\<close> by (auto simp: inv_order_def)
next
  case (drained c)
  then show ?thesis using assms(1) by (simp add: inv_order_def subseq_rev_drop_many)
next
  case (wait c)
  then show ?thesis using assms(1) subseq_append [of "map fst (deliveries out) @ mf_waiting q" "[c]" "requests evs"]
    by (simp add: inv_order_def)
next
  case (timeout c)
  then show ?thesis using assms(1) subseq_waiting [OF subseq_remove1] by (auto simp: inv_order_def)
next
  case ended
  then show ?thesis using assms(1) subseq_waiting [of "[]"] by (fastforce simp: inv_order_def)
next
  case cancelled
  then show ?thesis using assms(1) subseq_waiting [of "[]"] by (fastforce simp: inv_order_def)
qed (use assms(1) in \<open>simp_all add: inv_order_def\<close>)

lemma fifo_run_inv:
  "fifo_run evs = (q, out) \<Longrightarrow> inv_open evs q \<and> inv_items evs q out \<and> inv_settled evs q out \<and> inv_order evs q out"
proof (induction evs arbitrary: q out rule: rev_induct)
  case Nil
  then show ?case
    by (auto simp: newMemoryFifo_def inv_open_def inv_items_def inv_settled_def inv_order_def closing_def)
next
  case (snoc e evs)
  obtain q1 out1 where r: "fifo_run evs = (q1, out1)" by (cases "fifo_run evs")
  obtain q2 now where s: "fifo_step q1 e = (q2, now)" by (cases "fifo_step q1 e")
  have "inv_open (evs @ [e]) q2 \<and> inv_items (evs @ [e]) q2 (out1 @ now) \<and> inv_settled (evs @ [e]) q2 (out1 @ now)
      \<and> inv_order (evs @ [e]) q2 (out1 @ now)"
    using snoc.IH [OF r] inv_open_step [OF _ s] inv_items_step [OF _ _ s] inv_settled_step [OF _ s] inv_order_step [OF _ _ s]
    by simp
  then show ?case using snoc.prems r s by simp
qed

section \<open>The semaphore and the contract it relies on\<close>

datatype semOp = Acquire nat | Release

definition tokenStep ::
    "(nat \<Rightarrow> 'q \<Rightarrow> 'q \<times> bool settled) \<Rightarrow> (bool \<Rightarrow> 'q \<Rightarrow> 'q \<times> bool settled) \<Rightarrow> semOp \<Rightarrow> 'q \<Rightarrow> 'q \<times> bool settled" where
  "tokenStep getq putq op q = (case op of Acquire c \<Rightarrow> getq c q | Release \<Rightarrow> putq True q)"

definition tokenRun ::
    "(nat \<Rightarrow> 'q \<Rightarrow> 'q \<times> bool settled) \<Rightarrow> (bool \<Rightarrow> 'q \<Rightarrow> 'q \<times> bool settled) \<Rightarrow> 'q \<Rightarrow> semOp list \<Rightarrow> 'q \<times> bool settled" where
  "tokenRun getq putq q ops = foldl (\<lambda>(q, out) op. let (q', now) = tokenStep getq putq op q in (q', out @ now)) (q, []) ops"

definition Semaphore_new :: "nat \<Rightarrow> bool memoryFifo" where
  "Semaphore_new sz = foldl (\<lambda>q x. fst (fifo_put x q)) newMemoryFifo (replicate sz True)"

definition acquire :: "nat \<Rightarrow> bool memoryFifo \<Rightarrow> bool memoryFifo \<times> bool settled" where
  "acquire c q = fifo_get c q"

definition release :: "bool memoryFifo \<Rightarrow> bool memoryFifo \<times> bool settled" where
  "release q = fifo_put True q"

definition Semaphore_run :: "nat \<Rightarrow> semOp list \<Rightarrow> bool memoryFifo \<times> bool settled" where
  "Semaphore_run sz ops = tokenRun acquire (\<lambda>_. release) (Semaphore_new sz) ops"

definition releases :: "semOp list \<Rightarrow> nat" where
  "releases ops = length (filter (\<lambda>op. op = Release) ops)"

locale blocking_queue =
  fixes getq :: "nat \<Rightarrow> 'q \<Rightarrow> 'q \<times> bool settled" and putq :: "bool \<Rightarrow> 'q \<Rightarrow> 'q \<times> bool settled"
    and tokens :: "'q \<Rightarrow> bool list" and waiters :: "'q \<Rightarrow> nat list" and openq :: "'q \<Rightarrow> bool"
  assumes get_item: "tokens q = x # xs \<Longrightarrow> openq q \<Longrightarrow>
      \<exists>q'. getq c q = (q', [(c, Item x)]) \<and> tokens q' = xs \<and> waiters q' = waiters q \<and> openq q'"
    and get_wait: "tokens q = [] \<Longrightarrow> openq q \<Longrightarrow>
      \<exists>q'. getq c q = (q', []) \<and> tokens q' = [] \<and> waiters q' = waiters q @ [c] \<and> openq q'"
    and put_hand: "waiters q = c # cs \<Longrightarrow> openq q \<Longrightarrow>
      \<exists>q'. putq x q = (q', [(c, Item x)]) \<and> tokens q' = tokens q \<and> waiters q' = cs \<and> openq q'"
    and put_store: "waiters q = [] \<Longrightarrow> openq q \<Longrightarrow>
      \<exists>q'. putq x q = (q', []) \<and> tokens q' = tokens q @ [x] \<and> waiters q' = [] \<and> openq q'"
begin

lemma tokenRun_snoc:
  "tokenRun getq putq q (ops @ [op])
     = (let (q', out) = tokenRun getq putq q ops; (q'', now) = tokenStep getq putq op q' in (q'', out @ now))"
  by (simp add: tokenRun_def split_beta Let_def)

lemma token_account:
  assumes "openq q" and "waiters q = []"
  shows "\<exists>q' out. tokenRun getq putq q ops = (q', out) \<and> openq q' \<and> (waiters q' = [] \<or> tokens q' = [])
    \<and> length (deliveries out) + length (tokens q') = length (tokens q) + releases ops
    \<and> length (deliveries out) + length (waiters q') + releases ops = length ops"
proof (induction ops rule: rev_induct)
  case Nil
  then show ?case using assms by (simp add: tokenRun_def releases_def)
next
  case (snoc op ops)
  then obtain q' out where r: "tokenRun getq putq q ops = (q', out)" "openq q'" "waiters q' = [] \<or> tokens q' = []"
    "length (deliveries out) + length (tokens q') = length (tokens q) + releases ops"
    "length (deliveries out) + length (waiters q') + releases ops = length ops" by blast
  show ?case
  proof (cases op)
    case (Acquire c)
    show ?thesis
    proof (cases "tokens q'")
      case Nil
      then obtain q'' where "getq c q' = (q'', [])" "tokens q'' = []" "waiters q'' = waiters q' @ [c]" "openq q''"
        using get_wait r(2) by blast
      then show ?thesis using r Nil Acquire by (simp add: tokenRun_snoc tokenStep_def releases_def)
    next
      case (Cons x xs)
      then obtain q'' where "getq c q' = (q'', [(c, Item x)])" "tokens q'' = xs" "waiters q'' = waiters q'" "openq q''"
        using get_item r(2) by blast
      then show ?thesis using r Cons Acquire by (simp add: tokenRun_snoc tokenStep_def releases_def)
    qed
  next
    case Release
    show ?thesis
    proof (cases "waiters q'")
      case Nil
      then obtain q'' where "putq True q' = (q'', [])" "tokens q'' = tokens q' @ [True]" "waiters q'' = []" "openq q''"
        using put_store r(2) by blast
      then show ?thesis using r Nil Release by (simp add: tokenRun_snoc tokenStep_def releases_def)
    next
      case (Cons c cs)
      then obtain q'' where "putq True q' = (q'', [(c, Item True)])" "tokens q'' = tokens q'" "waiters q'' = cs" "openq q''"
        using put_hand r(2) by blast
      then show ?thesis using r Cons Release by (simp add: tokenRun_snoc tokenStep_def releases_def)
    qed
  qed
qed

end

interpretation semaphore_queue: blocking_queue acquire "\<lambda>x. fifo_put x" mf_items mf_waiting "\<lambda>q. \<not> mf_flushing q"
  by unfold_locales (auto simp: acquire_def fifo_get_def fifo_put_def)

lemma Semaphore_new_eq: "Semaphore_new sz = \<lparr>mf_waiting = [], mf_items = replicate sz True, mf_flushing = False\<rparr>"
proof (induction sz)
  case (Suc n)
  have "replicate (Suc n) True = replicate n True @ [True]" by (simp add: replicate_append_same)
  then have "Semaphore_new (Suc n) = fst (fifo_put True (Semaphore_new n))" by (simp add: Semaphore_new_def)
  then show ?case by (simp add: Suc.IH fifo_put_def replicate_append_same)
qed (simp add: Semaphore_new_def newMemoryFifo_def)

lemma tokenRun_release: "tokenRun acquire (\<lambda>_. release) q ops = tokenRun acquire (\<lambda>x. fifo_put x) q ops"
proof -
  have "tokenStep acquire (\<lambda>_. release) = tokenStep acquire (\<lambda>x. fifo_put x)"
    by (intro ext) (simp add: tokenStep_def release_def split: semOp.split)
  then show ?thesis by (simp add: tokenRun_def)
qed

section \<open>Properties\<close>

text \<open>The queue is first in, first out: the items delivered followed by the items still queued are the items
  accepted, in order, unless the queue was cancelled, when what was delivered is a prefix of them; and the
  consumers are served in the order of their requests.\<close>

theorem fifo_in_order:
  assumes "fifo_run evs = (q, out)"
  shows "prefix (map snd (deliveries out) @ mf_items q) (acceptedItems evs)
    \<and> (EvCancel \<notin> set evs \<longrightarrow> map snd (deliveries out) @ mf_items q = acceptedItems evs)
    \<and> subseq (map fst (deliveries out)) (requests evs)"
  using fifo_run_inv [OF assms] subseq_waiting [of "[]" _ "map fst (deliveries out)"]
  by (fastforce simp: inv_items_def inv_order_def)

lemma fifo_in_order_witness:
  "subseq (map fst (deliveries (snd (fifo_run [EvPut 1, EvGet 0, EvGet 1, EvPut (2::int), EvPut 3, EvEnd, EvPut 4, EvGet 2])))) [0, 1, 2]"
proof -
  have "fifo_run ([] @ [EvPut 1] @ [EvGet 0] @ [EvGet 1] @ [EvPut (2::int)] @ [EvPut 3] @ [EvEnd] @ [EvPut 4] @ [EvGet 2])
      = (newMemoryFifo\<lparr>mf_flushing := True\<rparr>, [(0, Item 1), (1, Item 2), (2, Item 3)])"
    by (simp only: append_assoc [symmetric] fifo_run_snoc)
      (simp add: newMemoryFifo_def fifo_get_def fifo_put_def fifo_end_def)
  from fifo_in_order [OF this] show ?thesis by (simp add: fifo_run_def newMemoryFifo_def fifo_get_def fifo_put_def fifo_end_def)
qed

text \<open>No consumer waits in vain: a promise still pending belongs to a queue that is open and empty. So a
  waiting consumer receives the next items put, and ending or cancelling the queue settles every promise.\<close>

theorem fifo_pending_only_if_empty:
  assumes "fifo_run evs = (q, out)" and "c \<in> set (requests evs)" and "c \<notin> fst ` set out"
  shows "\<not> mf_flushing q \<and> mf_items q = [] \<and> c \<in> set (mf_waiting q)"
  using fifo_run_inv [OF assms(1)] assms(2,3) by (auto simp: inv_settled_def inv_open_def)

lemma fifo_pending_only_if_empty_witness:
  "mf_waiting (fst (fifo_run [EvPut (1::int), EvGet 0, EvGet 1])) = [1]"
proof -
  have r: "fifo_run ([] @ [EvPut (1::int)] @ [EvGet 0] @ [EvGet 1]) = (newMemoryFifo\<lparr>mf_waiting := [1]\<rparr>, [(0, Item 1)])"
    by (simp only: append_assoc [symmetric] fifo_run_snoc) (simp add: newMemoryFifo_def fifo_get_def fifo_put_def)
  have "1 \<in> set (mf_waiting (newMemoryFifo\<lparr>mf_waiting := [1]\<rparr> :: int memoryFifo))"
    using fifo_pending_only_if_empty [OF r, of 1] by simp
  then show ?thesis using r by simp
qed

text \<open>The semaphore accounts for every token: grants and free tokens are the initial tokens and the
  releases, so at most \<open>size\<close> more grants than releases are ever made, and an \<open>acquire\<close> is blocked only while
  no token is free.\<close>

theorem semaphore_tokens:
  "\<exists>q out. Semaphore_run sz ops = (q, out) \<and> length (deliveries out) + length (mf_items q) = sz + releases ops
    \<and> length (deliveries out) \<le> sz + releases ops \<and> (mf_waiting q = [] \<or> mf_items q = [])
    \<and> length (deliveries out) + length (mf_waiting q) + releases ops = length ops"
  using semaphore_queue.token_account [of "Semaphore_new sz" ops]
  by (auto simp: Semaphore_run_def tokenRun_release Semaphore_new_eq)

end
