(* ===== verification/SerialQueues.thy ===== *)
theory SerialQueues
  imports Fifo
begin

text \<open>
  \<open>barretenberg.js/src/fifo/serial_queue.ts\<close> and \<open>bounded_serial_queue.ts\<close>: tasks executed one after the other by
  the loop of \<open>MemoryFifo.process\<close>, and the same with a semaphore that makes producers wait. Tasks are
  abstract; the worker runs one or waits for one. The steps are those of the event loop: a call of the queue,
  the end of the running task, the continuation of a producer whose token was granted.
\<close>

section \<open>SerialQueue\<close>

text \<open>The loop of \<open>process\<close>: it has not started, waits in \<open>get\<close>, awaits a task or has ended. The loop is the only
  consumer of its queue, with number 0. The enqueued wrapper settles the caller's promise and never throws, so
  the loop does not stop on an error.\<close>

datatype 't worker = NotStarted | Blocked | Running 't | Stopped

record 't serialQueue =
  sq_queue :: "'t memoryFifo"
  sq_worker :: "'t worker"

definition newSerialQueue :: "'t serialQueue" where
  "newSerialQueue = \<lparr>sq_queue = newMemoryFifo, sq_worker = NotStarted\<rparr>"

text \<open>What the outcome of the loop's \<open>get\<close> makes it do.\<close>

fun received :: "'t worker \<Rightarrow> 't settled \<Rightarrow> 't worker" where
  "received w ((c, Item t) # _) = Running t"
| "received w ((c, Null) # _) = Stopped"
| "received w _ = w"

definition process_get :: "'t serialQueue \<Rightarrow> 't serialQueue" where
  "process_get s = (let (q, now) = fifo_get 0 (sq_queue s) in \<lparr>sq_queue = q, sq_worker = received Blocked now\<rparr>)"

definition sq_start :: "'t serialQueue \<Rightarrow> 't serialQueue" where
  "sq_start s = process_get s"

definition sq_length :: "'t serialQueue \<Rightarrow> nat" where
  "sq_length s = fifo_length (sq_queue s)"

definition sq_put :: "'t \<Rightarrow> 't serialQueue \<Rightarrow> 't serialQueue" where
  "sq_put t s = (let (q, now) = fifo_put t (sq_queue s) in \<lparr>sq_queue = q, sq_worker = received (sq_worker s) now\<rparr>)"

definition sq_end :: "'t serialQueue \<Rightarrow> 't serialQueue" where
  "sq_end s = (let (q, now) = fifo_end (sq_queue s) in \<lparr>sq_queue = q, sq_worker = received (sq_worker s) now\<rparr>)"

definition sq_cancel :: "'t serialQueue \<Rightarrow> 't serialQueue" where
  "sq_cancel s = (let (q, now) = fifo_cancel (sq_queue s) in \<lparr>sq_queue = q, sq_worker = received (sq_worker s) now\<rparr>)"

definition inProgress :: "'t serialQueue \<Rightarrow> 't list" where
  "inProgress s = (case sq_worker s of Running t \<Rightarrow> [t] | _ \<Rightarrow> [])"

text \<open>The states of a queue, with the tasks accepted and those finished so far.\<close>

record 't serialRun =
  sr_queue :: "'t serialQueue"
  sr_accepted :: "'t list"
  sr_finished :: "'t list"
  sr_cancelled :: bool

inductive serial_step :: "'t serialRun \<Rightarrow> 't serialRun \<Rightarrow> bool" where
  start: "sq_worker (sr_queue r) = NotStarted \<Longrightarrow> serial_step r (r\<lparr>sr_queue := sq_start (sr_queue r)\<rparr>)"
| put: "serial_step r (r\<lparr>sr_queue := sq_put t (sr_queue r),
     sr_accepted := sr_accepted r @ (if mf_flushing (sq_queue (sr_queue r)) then [] else [t])\<rparr>)"
| finish: "sq_worker (sr_queue r) = Running t \<Longrightarrow>
     serial_step r (r\<lparr>sr_queue := process_get (sr_queue r), sr_finished := sr_finished r @ [t]\<rparr>)"
| end_: "serial_step r (r\<lparr>sr_queue := sq_end (sr_queue r)\<rparr>)"
| cancel: "serial_step r (r\<lparr>sr_queue := sq_cancel (sr_queue r), sr_cancelled := True\<rparr>)"

inductive serial_reachable :: "'t serialRun \<Rightarrow> bool" where
  initial: "serial_reachable \<lparr>sr_queue = newSerialQueue, sr_accepted = [], sr_finished = [], sr_cancelled = False\<rparr>"
| step: "serial_reachable r \<Longrightarrow> serial_step r r' \<Longrightarrow> serial_reachable r'"

text \<open>The loop waits exactly when it is the queue's waiting consumer, and then nothing is queued.\<close>

definition worker_inv :: "'t serialQueue \<Rightarrow> bool" where
  "worker_inv s \<longleftrightarrow> (case sq_worker s of
       Blocked \<Rightarrow> mf_waiting (sq_queue s) = [0] \<and> mf_items (sq_queue s) = [] \<and> \<not> mf_flushing (sq_queue s)
     | Stopped \<Rightarrow> mf_flushing (sq_queue s) \<and> mf_items (sq_queue s) = [] \<and> set (mf_waiting (sq_queue s)) \<subseteq> {0}
     | _ \<Rightarrow> mf_waiting (sq_queue s) = [])"

lemmas serial_defs = process_get_def sq_start_def sq_put_def sq_end_def sq_cancel_def
  fifo_get_def fifo_put_def fifo_end_def fifo_cancel_def

lemma worker_inv_new: "worker_inv newSerialQueue"
  by (simp add: worker_inv_def newSerialQueue_def newMemoryFifo_def)

lemma received_null: "received w (map (\<lambda>c. (c, Null)) cs) = (if cs = [] then w else Stopped)"
  by (cases cs) simp_all

lemma worker_inv_get: "worker_inv s \<Longrightarrow> sq_worker s = NotStarted \<or> sq_worker s = Running t \<Longrightarrow> worker_inv (process_get s)"
  by (auto simp: worker_inv_def serial_defs split: list.splits if_splits)

lemma worker_inv_ops:
  assumes "worker_inv s"
  shows "worker_inv (sq_put t s)" and "worker_inv (sq_end s)" and "worker_inv (sq_cancel s)"
  using assms by (cases "sq_worker s"; auto simp: worker_inv_def serial_defs received_null split: list.splits worker.splits)+

text \<open>The tasks in progress and queued.\<close>

definition ahead :: "'t serialQueue \<Rightarrow> 't list" where
  "ahead s = inProgress s @ mf_items (sq_queue s)"

lemma ahead_put: "worker_inv s \<Longrightarrow> ahead (sq_put t s) = ahead s @ (if mf_flushing (sq_queue s) then [] else [t])"
  by (cases "sq_worker s") (auto simp: worker_inv_def ahead_def inProgress_def serial_defs split: list.splits)

lemma ahead_start: "worker_inv s \<Longrightarrow> sq_worker s = NotStarted \<Longrightarrow> ahead (process_get s) = ahead s"
  by (auto simp: worker_inv_def ahead_def inProgress_def serial_defs split: list.splits)

lemma ahead_finish: "worker_inv s \<Longrightarrow> sq_worker s = Running t \<Longrightarrow> t # ahead (process_get s) = ahead s"
  by (auto simp: worker_inv_def ahead_def inProgress_def serial_defs split: list.splits)

lemma ahead_end: "worker_inv s \<Longrightarrow> ahead (sq_end s) = ahead s"
  by (cases "sq_worker s") (auto simp: worker_inv_def ahead_def inProgress_def serial_defs received_null)

lemma ahead_cancel: "worker_inv s \<Longrightarrow> ahead (sq_cancel s) = inProgress s"
  by (cases "sq_worker s") (auto simp: worker_inv_def ahead_def inProgress_def serial_defs received_null)

definition serial_inv :: "'t serialRun \<Rightarrow> bool" where
  "serial_inv r \<longleftrightarrow> worker_inv (sr_queue r) \<and> prefix (sr_finished r @ ahead (sr_queue r)) (sr_accepted r)
     \<and> (\<not> sr_cancelled r \<longrightarrow> sr_finished r @ ahead (sr_queue r) = sr_accepted r)
     \<and> (sr_cancelled r \<longrightarrow> mf_flushing (sq_queue (sr_queue r)))"

lemma flushing_ops:
  "mf_flushing (sq_queue (sq_put t s)) = mf_flushing (sq_queue s)"
  "mf_flushing (sq_queue (process_get s)) = mf_flushing (sq_queue s)"
  "mf_flushing (sq_queue (sq_end s))" "mf_flushing (sq_queue (sq_cancel s))"
  by (simp_all add: serial_defs split: list.splits)

lemma serial_step_inv: "serial_step r r' \<Longrightarrow> serial_inv r \<Longrightarrow> serial_inv r'"
proof (induction rule: serial_step.induct)
  case (start r)
  then show ?case
    by (auto simp: serial_inv_def sq_start_def worker_inv_get ahead_start worker_inv_ops flushing_ops)
next
  case (put r t)
  then show ?case
    by (auto simp: serial_inv_def ahead_put worker_inv_ops flushing_ops simp flip: append_assoc)
next
  case (finish r t)
  then have "t # ahead (process_get (sr_queue r)) = ahead (sr_queue r)"
    by (intro ahead_finish) (simp_all add: serial_inv_def)
  then show ?case using finish by (auto simp: serial_inv_def worker_inv_get flushing_ops)
next
  case (end_ r)
  then show ?case by (auto simp: serial_inv_def ahead_end worker_inv_ops flushing_ops)
next
  case (cancel r)
  have "prefix (sr_finished r @ inProgress (sr_queue r)) (sr_accepted r)"
    using cancel append_prefixD [of "sr_finished r @ inProgress (sr_queue r)" "mf_items (sq_queue (sr_queue r))" "sr_accepted r"]
    by (simp add: serial_inv_def ahead_def)
  then show ?case using cancel by (auto simp: serial_inv_def ahead_cancel worker_inv_ops flushing_ops)
qed

lemma serial_reachable_inv: "serial_reachable r \<Longrightarrow> serial_inv r"
proof (induction rule: serial_reachable.induct)
  case initial
  then show ?case
    by (simp add: serial_inv_def worker_inv_new) (simp add: ahead_def inProgress_def newSerialQueue_def newMemoryFifo_def)
qed (rule serial_step_inv)

text \<open>The running task and the queued ones can all be finished, one step each.\<close>

lemma drain:
  assumes "serial_inv r" and "sq_worker (sr_queue r) \<noteq> NotStarted"
  shows "\<exists>r'. serial_step\<^sup>*\<^sup>* r r' \<and> sr_finished r' = sr_finished r @ ahead (sr_queue r) \<and> ahead (sr_queue r') = []"
  using assms
proof (induction "length (ahead (sr_queue r))" arbitrary: r)
  case (Suc n)
  then obtain t where t: "sq_worker (sr_queue r) = Running t"
    by (cases "sq_worker (sr_queue r)") (auto simp: ahead_def inProgress_def serial_inv_def worker_inv_def)
  let ?r = "r\<lparr>sr_queue := process_get (sr_queue r), sr_finished := sr_finished r @ [t]\<rparr>"
  have st: "serial_step r ?r" by (rule finish [OF t])
  have a: "t # ahead (process_get (sr_queue r)) = ahead (sr_queue r)"
    using Suc.prems t by (intro ahead_finish) (simp_all add: serial_inv_def)
  have "sq_worker (process_get (sr_queue r)) \<noteq> NotStarted"
    by (simp add: process_get_def fifo_get_def split: list.splits)
  moreover have "n = length (ahead (sr_queue ?r))" using Suc.hyps(2) by (simp flip: a)
  ultimately obtain r' where "serial_step\<^sup>*\<^sup>* ?r r'" "sr_finished r' = sr_finished ?r @ ahead (sr_queue ?r)"
    "ahead (sr_queue r') = []"
    using Suc.hyps(1) [of ?r] serial_step_inv [OF st Suc.prems(1)] by auto
  then show ?case using st a converse_rtranclp_into_rtranclp [of serial_step] by (intro exI [of _ r']) simp
qed auto

section \<open>BoundedSerialQueue\<close>

text \<open>\<open>put\<close> acquires a token and then enqueues the task wrapped so that its end releases the token; a producer
  without a token is a waiting consumer of the semaphore, known by its number.\<close>

record 't boundedQueue =
  bq_semaphore :: "bool memoryFifo"
  bq_queue :: "'t serialQueue"
  bq_callers :: "(nat \<times> 't) list"
  bq_granted :: "'t list"

definition newBoundedQueue :: "nat \<Rightarrow> 't boundedQueue" where
  "newBoundedQueue maxQueueSize =
     \<lparr>bq_semaphore = Semaphore_new maxQueueSize, bq_queue = newSerialQueue, bq_callers = [], bq_granted = []\<rparr>"

definition bq_length :: "'t boundedQueue \<Rightarrow> nat" where
  "bq_length b = sq_length (bq_queue b)"

definition bq_put :: "nat \<Rightarrow> 't \<Rightarrow> 't boundedQueue \<Rightarrow> 't boundedQueue" where
  "bq_put c t b = (let (sem, now) = acquire c (bq_semaphore b)
     in if now = [] then b\<lparr>bq_semaphore := sem, bq_callers := bq_callers b @ [(c, t)]\<rparr>
        else b\<lparr>bq_semaphore := sem, bq_granted := bq_granted b @ [t]\<rparr>)"

text \<open>The continuation of a producer that has its token.\<close>

definition bq_enqueue :: "'t boundedQueue \<Rightarrow> 't boundedQueue" where
  "bq_enqueue b = (case bq_granted b of [] \<Rightarrow> b
     | t # ts \<Rightarrow> b\<lparr>bq_granted := ts, bq_queue := sq_put t (bq_queue b)\<rparr>)"

text \<open>The running task ends: its \<open>finally\<close> releases the token, which a waiting producer receives.\<close>

definition bq_release :: "'t boundedQueue \<Rightarrow> 't boundedQueue" where
  "bq_release b = (let (sem, now) = release (bq_semaphore b); served = map fst now
     in b\<lparr>bq_semaphore := sem,
          bq_granted := bq_granted b @ map snd (filter (\<lambda>(c, t). c \<in> set served) (bq_callers b)),
          bq_callers := filter (\<lambda>(c, t). c \<notin> set served) (bq_callers b)\<rparr>)"

definition bq_finish :: "'t boundedQueue \<Rightarrow> 't boundedQueue" where
  "bq_finish b = (let b = bq_release b in b\<lparr>bq_queue := process_get (bq_queue b)\<rparr>)"

inductive bounded_step :: "'t boundedQueue \<Rightarrow> 't boundedQueue \<Rightarrow> bool" where
  start: "sq_worker (bq_queue b) = NotStarted \<Longrightarrow> bounded_step b (b\<lparr>bq_queue := sq_start (bq_queue b)\<rparr>)"
| put: "c \<notin> fst ` set (bq_callers b) \<Longrightarrow> bounded_step b (bq_put c t b)"
| enqueue: "bq_granted b \<noteq> [] \<Longrightarrow> bounded_step b (bq_enqueue b)"
| finish: "sq_worker (bq_queue b) = Running t \<Longrightarrow> bounded_step b (bq_finish b)"
| end_: "bounded_step b (b\<lparr>bq_queue := sq_end (bq_queue b)\<rparr>)"
| cancel: "bounded_step b (b\<lparr>bq_queue := sq_cancel (bq_queue b)\<rparr>)"

inductive bounded_reachable :: "nat \<Rightarrow> 't boundedQueue \<Rightarrow> bool" for n where
  initial: "bounded_reachable n (newBoundedQueue n)"
| step: "bounded_reachable n b \<Longrightarrow> bounded_step b b' \<Longrightarrow> bounded_reachable n b'"

definition tasksAhead :: "'t boundedQueue \<Rightarrow> nat" where
  "tasksAhead b = length (bq_granted b) + length (ahead (bq_queue b))"

definition bounded_inv :: "nat \<Rightarrow> 't boundedQueue \<Rightarrow> bool" where
  "bounded_inv n b \<longleftrightarrow> worker_inv (bq_queue b) \<and> \<not> mf_flushing (bq_semaphore b)
     \<and> map fst (bq_callers b) = mf_waiting (bq_semaphore b) \<and> distinct (mf_waiting (bq_semaphore b))
     \<and> (bq_callers b = [] \<or> mf_items (bq_semaphore b) = [])
     \<and> length (mf_items (bq_semaphore b)) + tasksAhead b \<le> n
     \<and> (\<not> mf_flushing (sq_queue (bq_queue b)) \<longrightarrow> length (mf_items (bq_semaphore b)) + tasksAhead b = n)"

lemma served_callers:
  assumes "map fst cs = c # ws" and "distinct (c # ws)"
  shows "filter (\<lambda>(c', t). c' \<in> set [c]) cs = [hd cs]" and "filter (\<lambda>(c', t). c' \<notin> set [c]) cs = tl cs"
proof -
  from assms(1) obtain t rest where cs: "cs = (c, t) # rest" "map fst rest = ws" by (cases cs) auto
  then have "\<forall>x\<in>set rest. fst x \<noteq> c" using assms(2) by (metis distinct.simps(2) image_eqI list.set_map)
  then have "filter (\<lambda>(c', t). c' = c) rest = []" "filter (\<lambda>(c', t). c' \<noteq> c) rest = rest"
    by (simp_all add: filter_empty_conv filter_id_conv split_beta)
  then show "filter (\<lambda>(c', t). c' \<in> set [c]) cs = [hd cs]" "filter (\<lambda>(c', t). c' \<notin> set [c]) cs = tl cs"
    by (simp_all add: cs)
qed

lemma bounded_release:
  assumes inv: "bounded_inv n b"
  shows "bq_queue (bq_release b) = bq_queue b"
    and "\<not> mf_flushing (bq_semaphore (bq_release b)) \<and> map fst (bq_callers (bq_release b)) = mf_waiting (bq_semaphore (bq_release b))
      \<and> distinct (mf_waiting (bq_semaphore (bq_release b)))
      \<and> (bq_callers (bq_release b) = [] \<or> mf_items (bq_semaphore (bq_release b)) = [])
      \<and> length (mf_items (bq_semaphore (bq_release b))) + length (bq_granted (bq_release b))
        = Suc (length (mf_items (bq_semaphore b)) + length (bq_granted b))"
proof -
  show "bq_queue (bq_release b) = bq_queue b" by (simp add: bq_release_def split_beta Let_def)
  note i = inv [unfolded bounded_inv_def]
  show "\<not> mf_flushing (bq_semaphore (bq_release b)) \<and> map fst (bq_callers (bq_release b)) = mf_waiting (bq_semaphore (bq_release b))
      \<and> distinct (mf_waiting (bq_semaphore (bq_release b)))
      \<and> (bq_callers (bq_release b) = [] \<or> mf_items (bq_semaphore (bq_release b)) = [])
      \<and> length (mf_items (bq_semaphore (bq_release b))) + length (bq_granted (bq_release b))
        = Suc (length (mf_items (bq_semaphore b)) + length (bq_granted b))"
  proof (cases "mf_waiting (bq_semaphore b)")
    case Nil
    then have "bq_callers b = []" using i by simp
    then show ?thesis using i Nil by (simp add: bq_release_def release_def fifo_put_def)
  next
    case (Cons c ws)
    have f: "map fst (bq_callers b) = c # ws" "distinct (c # ws)" using i Cons by simp_all
    have "bq_release b = b\<lparr>bq_semaphore := (bq_semaphore b)\<lparr>mf_waiting := ws\<rparr>,
        bq_granted := bq_granted b @ map snd [hd (bq_callers b)], bq_callers := tl (bq_callers b)\<rparr>"
      unfolding served_callers [OF f, symmetric] using i Cons by (simp add: bq_release_def release_def fifo_put_def)
    then show ?thesis using i f Cons by (cases "bq_callers b = []") (simp_all add: map_tl)
  qed
qed

lemma bounded_step_inv: "bounded_step b b' \<Longrightarrow> bounded_inv n b \<Longrightarrow> bounded_inv n b'"
proof (induction rule: bounded_step.induct)
  case (start b)
  then show ?case
    by (simp add: bounded_inv_def sq_start_def worker_inv_get ahead_start flushing_ops tasksAhead_def)
next
  case (put c b t)
  have "set (mf_waiting (bq_semaphore b)) = fst ` set (bq_callers b)"
    using put.prems by (metis bounded_inv_def list.set_map)
  then have "c \<notin> set (mf_waiting (bq_semaphore b))" using put.hyps by simp
  then show ?case using put
    by (cases "mf_items (bq_semaphore b)")
      (auto simp: bounded_inv_def bq_put_def acquire_def fifo_get_def tasksAhead_def)
next
  case (enqueue b)
  then obtain t ts where "bq_granted b = t # ts" by (cases "bq_granted b") auto
  then show ?case using enqueue.prems
    by (auto simp: bounded_inv_def bq_enqueue_def tasksAhead_def ahead_put worker_inv_ops flushing_ops)
next
  case (finish b t)
  have "t # ahead (process_get (bq_queue b)) = ahead (bq_queue b)" "worker_inv (process_get (bq_queue b))"
    using finish by (auto simp: bounded_inv_def intro: ahead_finish worker_inv_get)
  moreover from this(1) have "length (ahead (bq_queue b)) = Suc (length (ahead (process_get (bq_queue b))))"
    by (metis length_Cons)
  ultimately show ?case using bounded_release [OF finish.prems] finish.prems
    by (auto simp: bounded_inv_def bq_finish_def Let_def tasksAhead_def flushing_ops)
next
  case (end_ b)
  then show ?case by (auto simp: bounded_inv_def ahead_end worker_inv_ops flushing_ops tasksAhead_def)
next
  case (cancel b)
  have "length (inProgress (bq_queue b)) \<le> length (ahead (bq_queue b))" by (simp add: ahead_def)
  then show ?case using cancel by (auto simp: bounded_inv_def ahead_cancel worker_inv_ops flushing_ops tasksAhead_def)
qed

lemma bounded_reachable_inv: "bounded_reachable n b \<Longrightarrow> bounded_inv n b"
proof (induction rule: bounded_reachable.induct)
  case initial
  then show ?case
    by (simp add: bounded_inv_def newBoundedQueue_def worker_inv_new Semaphore_new_eq tasksAhead_def)
      (simp add: ahead_def inProgress_def newSerialQueue_def newMemoryFifo_def)
qed (rule bounded_step_inv)

section \<open>Properties\<close>

text \<open>C39: Tasks run one at a time in the order they were put: the finished tasks, the running one and the
  queued ones are, in this order, the accepted tasks, and only cancelling loses some from the end.\<close>

theorem serial_queue_order:
  assumes "serial_reachable r"
  shows "prefix (sr_finished r @ inProgress (sr_queue r) @ mf_items (sq_queue (sr_queue r))) (sr_accepted r)
    \<and> (\<not> sr_cancelled r \<longrightarrow>
        sr_finished r @ inProgress (sr_queue r) @ mf_items (sq_queue (sr_queue r)) = sr_accepted r)"
  using serial_reachable_inv [OF assms] by (simp add: serial_inv_def ahead_def)

text \<open>A started queue never gets stuck: from every reachable state in which it was not cancelled the
  running and the queued tasks can all finish, whether or not the queue has been ended.\<close>

theorem serial_queue_drains:
  assumes "serial_reachable r" and "sq_worker (sr_queue r) \<noteq> NotStarted" and "\<not> sr_cancelled r"
  shows "\<exists>r'. serial_step\<^sup>*\<^sup>* r r' \<and> sr_finished r' = sr_accepted r"
  using drain [OF serial_reachable_inv [OF assms(1)] assms(2)] serial_reachable_inv [OF assms(1)] assms(3)
  by (auto simp: serial_inv_def)

text \<open>The bounded queue holds at most \<open>maxQueueSize\<close> tasks, the running one and those of producers that have
  their token included, and a producer is blocked only while that many are ahead of it or the queue was
  ended.\<close>

theorem bounded_queue_bound:
  assumes "bounded_reachable n b"
  shows "bq_length b + length (inProgress (bq_queue b)) + length (bq_granted b) \<le> n
    \<and> (bq_callers b \<noteq> [] \<longrightarrow> mf_flushing (sq_queue (bq_queue b))
       \<or> bq_length b + length (inProgress (bq_queue b)) + length (bq_granted b) = n)"
  using bounded_reachable_inv [OF assms]
  by (auto simp: bounded_inv_def tasksAhead_def ahead_def bq_length_def sq_length_def fifo_length_def)

lemma serial_run_example:
  "serial_reachable \<lparr>sr_queue = \<lparr>sq_queue = \<lparr>mf_waiting = [], mf_items = [2], mf_flushing = False\<rparr>, sq_worker = Running (1::int)\<rparr>,
     sr_accepted = [1, 2], sr_finished = [], sr_cancelled = False\<rparr>"
proof -
  let ?r = "\<lambda>q w acc. \<lparr>sr_queue = \<lparr>sq_queue = q, sq_worker = w\<rparr>, sr_accepted = acc, sr_finished = [], sr_cancelled = False\<rparr>"
  note ex = newSerialQueue_def newMemoryFifo_def serial_defs
  have "serial_reachable (?r newMemoryFifo NotStarted ([] :: int list))"
    using serial_reachable.initial [where 't = int] by (simp add: newSerialQueue_def)
  from serial_reachable.step [OF this serial_step.start]
  have "serial_reachable (?r (newMemoryFifo\<lparr>mf_waiting := [0]\<rparr>) Blocked ([] :: int list))" by (simp add: ex)
  from serial_reachable.step [OF this serial_step.put [of _ 1]]
  have "serial_reachable (?r newMemoryFifo (Running (1::int)) [1])" by (simp add: ex)
  from serial_reachable.step [OF this serial_step.put [of _ 2]] show ?thesis by (simp add: ex)
qed

lemma serial_queue_order_witness:
  "prefix ([] @ [1] @ [2]) ([1, 2] :: int list)"
  using serial_queue_order [OF serial_run_example] by (simp add: inProgress_def)

lemma serial_queue_drains_witness:
  "\<exists>r. serial_reachable r \<and> sr_finished r = [1, 2 :: int]"
proof -
  obtain r' :: "int serialRun" where "serial_step\<^sup>*\<^sup>*
      \<lparr>sr_queue = \<lparr>sq_queue = \<lparr>mf_waiting = [], mf_items = [2], mf_flushing = False\<rparr>, sq_worker = Running (1::int)\<rparr>,
        sr_accepted = [1, 2], sr_finished = [], sr_cancelled = False\<rparr> r'" "sr_finished r' = [1, 2]"
    using serial_queue_drains [OF serial_run_example] by auto
  moreover from this(1) serial_run_example have "serial_reachable r'"
    by (induction rule: rtranclp_induct) (auto intro: serial_reachable.step)
  ultimately show ?thesis by blast
qed

lemma bounded_queue_bound_witness: "bq_length (newBoundedQueue 3 :: int boundedQueue) \<le> 3"
  using bounded_queue_bound [OF bounded_reachable.initial [of 3, where 't = int]] by linarith

end
