(* ===== verification/JsNumber.thy ===== *)
theory JsNumber
  imports Complex_Main Prelude
begin

text \<open>
  The arithmetic of the JavaScript type \<open>number\<close> as far as the fee computations use it: binary64
  division, subtraction and multiplication rounded to nearest (ties to even), the non-finite results of a division by
  zero, \<open>Math.ceil\<close>, \<open>Math.floor\<close>, \<open>Math.min\<close>, \<open>Math.max\<close> and \<open>BigInt(x)\<close>. Values
  are exact rationals; subnormal results, overflow and the sign of zero, which no fee computation reaches, are not
  represented.
\<close>

section \<open>Binary64 rounding\<close>

fun bitLength :: "nat \<Rightarrow> nat" where
  "bitLength n = (if n = 0 then 0 else Suc (bitLength (n div 2)))"

declare bitLength.simps [simp del]

text \<open>\<open>2 powi (binade q - 1) \<le> q < 2 powi binade q\<close> for positive \<open>q\<close>.\<close>

definition binade :: "rat \<Rightarrow> int" where
  "binade q = (let (n, d) = quotient_of q; k = int (bitLength (nat n)) - int (bitLength (nat d))
     in if q < 2 powi k then k else k + 1)"

definition roundHalfEven :: "rat \<Rightarrow> int" where
  "roundHalfEven m = (let f = \<lfloor>m\<rfloor>; r = m - of_int f in if r < 1 / 2 \<or> r = 1 / 2 \<and> even f then f else f + 1)"

definition roundPos :: "rat \<Rightarrow> rat" where
  "roundPos q = (let e = binade q - 53 in of_int (roundHalfEven (q / 2 powi e)) * 2 powi e)"

definition roundF64 :: "rat \<Rightarrow> rat" where
  "roundF64 q = (if q = 0 then 0 else if q > 0 then roundPos q else - roundPos (- q))"

section \<open>Numbers\<close>

datatype jsnum = Num rat | Infinity | NegInfinity | NaN

definition js_int :: "int \<Rightarrow> jsnum" where
  "js_int n = Num (of_int n)"

fun js_neg :: "jsnum \<Rightarrow> jsnum" where
  "js_neg (Num a) = Num (- a)"
| "js_neg Infinity = NegInfinity"
| "js_neg NegInfinity = Infinity"
| "js_neg NaN = NaN"

fun js_add :: "jsnum \<Rightarrow> jsnum \<Rightarrow> jsnum" where
  "js_add (Num a) (Num b) = Num (roundF64 (a + b))"
| "js_add NaN _ = NaN"
| "js_add _ NaN = NaN"
| "js_add Infinity NegInfinity = NaN"
| "js_add NegInfinity Infinity = NaN"
| "js_add Infinity _ = Infinity"
| "js_add _ Infinity = Infinity"
| "js_add NegInfinity _ = NegInfinity"
| "js_add _ NegInfinity = NegInfinity"

definition js_sub :: "jsnum \<Rightarrow> jsnum \<Rightarrow> jsnum" where
  "js_sub a b = js_add a (js_neg b)"

fun js_div :: "jsnum \<Rightarrow> jsnum \<Rightarrow> jsnum" where
  "js_div (Num a) (Num b) = (if b \<noteq> 0 then Num (roundF64 (a / b)) else if a > 0 then Infinity
     else if a < 0 then NegInfinity else NaN)"
| "js_div (Num a) Infinity = Num 0"
| "js_div (Num a) NegInfinity = Num 0"
| "js_div Infinity (Num b) = (if b < 0 then NegInfinity else Infinity)"
| "js_div NegInfinity (Num b) = (if b < 0 then Infinity else NegInfinity)"
| "js_div _ _ = NaN"

fun js_mul_num :: "jsnum \<Rightarrow> jsnum \<Rightarrow> jsnum" where
  "js_mul_num (Num a) (Num b) = Num (roundF64 (a * b))"
| "js_mul_num Infinity (Num b) = (if b > 0 then Infinity else if b < 0 then NegInfinity else NaN)"
| "js_mul_num NegInfinity (Num b) = (if b > 0 then NegInfinity else if b < 0 then Infinity else NaN)"
| "js_mul_num _ _ = NaN"

fun js_ceil :: "jsnum \<Rightarrow> jsnum" where
  "js_ceil (Num a) = js_int \<lceil>a\<rceil>"
| "js_ceil x = x"

fun js_floor :: "jsnum \<Rightarrow> jsnum" where
  "js_floor (Num a) = js_int \<lfloor>a\<rfloor>"
| "js_floor x = x"

fun js_less :: "jsnum \<Rightarrow> jsnum \<Rightarrow> bool" where
  "js_less (Num a) (Num b) = (a < b)"
| "js_less NaN _ = False"
| "js_less _ NaN = False"
| "js_less Infinity _ = False"
| "js_less _ NegInfinity = False"
| "js_less _ _ = True"

definition js_min :: "jsnum \<Rightarrow> jsnum \<Rightarrow> jsnum" where
  "js_min a b = (if a = NaN \<or> b = NaN then NaN else if js_less b a then b else a)"

definition js_max :: "jsnum \<Rightarrow> jsnum \<Rightarrow> jsnum" where
  "js_max a b = (if a = NaN \<or> b = NaN then NaN else if js_less a b then b else a)"

text \<open>\<open>BigInt(x)\<close> throws unless \<open>x\<close> is an integer.\<close>

fun js_toBigInt :: "jsnum \<Rightarrow> int res" where
  "js_toBigInt (Num a) = (if of_int \<lfloor>a\<rfloor> = a then Inr \<lfloor>a\<rfloor> else Inl RangeError)"
| "js_toBigInt _ = Inl RangeError"

section \<open>Rounding lemmas\<close>

lemma bitLength_bounds: "0 < n \<Longrightarrow> 2 ^ (bitLength n - 1) \<le> n \<and> n < 2 ^ bitLength n \<and> 0 < bitLength n"
proof (induction n rule: bitLength.induct)
  case (1 n)
  show ?case
  proof (cases "n div 2 = 0")
    case True
    then have "n = 1" using "1.prems" by simp
    then show ?thesis by (simp add: bitLength.simps [of "Suc 0"] bitLength.simps [of 0])
  next
    case False
    then have ih: "2 ^ (bitLength (n div 2) - 1) \<le> n div 2" "n div 2 < 2 ^ bitLength (n div 2)" "0 < bitLength (n div 2)"
      using 1 by auto
    have b: "bitLength n = Suc (bitLength (n div 2))" using "1.prems" by (subst bitLength.simps) simp
    have "(2::nat) ^ bitLength (n div 2) = 2 * 2 ^ (bitLength (n div 2) - 1)"
      using ih(3) by (cases "bitLength (n div 2)") simp_all
    then show ?thesis using ih b by (simp; linarith)
  qed
qed

lemma powi_pos [simp]: "0 < (2 :: rat) powi k"
  by simp

lemma powi_step: "(2 :: rat) powi (k + 1) = 2 * 2 powi k"
  by (simp add: power_int_add)

lemma binade_bounds:
  assumes "0 < q"
  shows "2 powi (binade q - 1) \<le> q \<and> q < 2 powi binade q"
proof -
  obtain n d where nd: "quotient_of q = (n, d)" by (cases "quotient_of q")
  have d: "0 < d" and q: "q = of_int n / of_int d"
    using quotient_of_denom_pos [OF nd] quotient_of_div [OF nd] by simp_all
  have n: "0 < n" using assms d q by (simp add: zero_less_divide_iff)
  define a b where "a = bitLength (nat n)" and "b = bitLength (nat d)"
  have A: "2 ^ (a - 1) \<le> nat n" "nat n < 2 ^ a" "0 < a" and B: "2 ^ (b - 1) \<le> nat d" "nat d < 2 ^ b" "0 < b"
    using bitLength_bounds [of "nat n"] bitLength_bounds [of "nat d"] n d by (simp_all add: a_def b_def)
  have cast: "of_int n = (of_nat (nat n) :: rat)" "of_int d = (of_nat (nat d) :: rat)" using n d by simp_all
  have An: "2 powi (int a - 1) \<le> (of_int n :: rat)" "of_int n < (2 :: rat) powi int a"
    and Bd: "2 powi (int b - 1) \<le> (of_int d :: rat)" "of_int d < (2 :: rat) powi int b"
  proof -
    have p: "(2 :: rat) powi (int c - 1) = of_nat (2 ^ (c - 1))" if "0 < c" for c
      using that by (simp add: power_int_def of_nat_diff nat_diff_distrib)
    have p': "(2 :: rat) powi int c = of_nat (2 ^ c)" for c by (simp add: power_int_def)
    show "2 powi (int a - 1) \<le> (of_int n :: rat)" "of_int n < (2 :: rat) powi int a"
      "2 powi (int b - 1) \<le> (of_int d :: rat)" "of_int d < (2 :: rat) powi int b"
      unfolding p [OF A(3)] p [OF B(3)] p' cast of_nat_le_iff of_nat_less_iff using A B by simp_all
  qed
  let ?k = "int a - int b"
  have up: "q < 2 powi (?k + 1)"
  proof -
    have "of_int n < (2 :: rat) powi int a" by (rule An(2))
    also have "\<dots> = 2 powi (?k + 1) * 2 powi (int b - 1)" by (simp add: power_int_add [symmetric])
    also have "\<dots> \<le> 2 powi (?k + 1) * of_int d" by (intro mult_left_mono Bd) simp
    finally show ?thesis using d by (simp add: q divide_less_eq)
  qed
  have low: "2 powi (?k - 1) \<le> q"
  proof -
    have "2 powi (?k - 1) * of_int d \<le> 2 powi (?k - 1) * (2 :: rat) powi int b"
      by (intro mult_left_mono less_imp_le [OF Bd(2)]) simp
    also have "\<dots> = 2 powi (?k - 1 + int b)" by (rule power_int_add [symmetric]) simp
    also have "\<dots> = 2 powi (int a - 1)" by simp
    also have "\<dots> \<le> of_int n" by (rule An(1))
    finally show ?thesis using d by (simp add: q le_divide_eq)
  qed
  show ?thesis using up low by (simp add: binade_def nd a_def [symmetric] b_def [symmetric] Let_def)
qed

lemma binade_unique:
  assumes "2 powi (k - 1) \<le> q" "q < 2 powi k"
  shows "binade q = k"
proof -
  have "0 < q" using assms(1) powi_pos [of "k - 1"] by linarith
  note b = binade_bounds [OF this]
  have less: "i < j" if "2 powi i \<le> q" "q < 2 powi j" for i j
  proof (rule ccontr)
    assume "\<not> i < j"
    then have "(2 :: rat) powi j \<le> 2 powi i" by (intro power_int_increasing) simp_all
    then show False using that by linarith
  qed
  have "k - 1 < binade q" "binade q - 1 < k" using b assms by (auto intro: less)
  then show ?thesis by simp
qed

lemma roundHalfEven_int [simp]: "roundHalfEven (of_int n) = n"
  by (simp add: roundHalfEven_def)

lemma roundHalfEven_numeral [simp]: "roundHalfEven (numeral k) = numeral k"
  using roundHalfEven_int [of "numeral k"] by simp

lemma roundHalfEven_error: "\<bar>of_int (roundHalfEven m) - m\<bar> \<le> 1 / 2"
  using floor_correct [of m] by (auto simp: roundHalfEven_def Let_def abs_le_iff)

lemma roundHalfEven_mono: "m \<le> n \<Longrightarrow> roundHalfEven m \<le> roundHalfEven n"
proof -
  assume mn: "m \<le> n"
  show ?thesis
  proof (cases "\<lfloor>m\<rfloor> = \<lfloor>n\<rfloor>")
    case True
    then show ?thesis using mn by (auto simp: roundHalfEven_def Let_def)
  next
    case False
    then have "\<lfloor>m\<rfloor> + 1 \<le> \<lfloor>n\<rfloor>" using floor_mono [OF mn] by simp
    moreover have "roundHalfEven m \<le> \<lfloor>m\<rfloor> + 1" "\<lfloor>n\<rfloor> \<le> roundHalfEven n"
      by (simp_all add: roundHalfEven_def Let_def)
    ultimately show ?thesis by linarith
  qed
qed

text \<open>The scaled significand of a positive number lies between \<open>2^52\<close> and \<open>2^53\<close>.\<close>

lemma significand:
  assumes "0 < q"
  defines "e \<equiv> binade q - 53"
  shows "2 ^ 52 \<le> q / 2 powi e" "q / 2 powi e < 2 ^ 53"
proof -
  have p: "2 powi (binade q - 1) = (2 :: rat) ^ 52 * 2 powi e" "2 powi binade q = (2 :: rat) ^ 53 * 2 powi e"
    using power_int_add [of "2 :: rat" 52 e] power_int_add [of "2 :: rat" 53 e] by (simp_all add: e_def)
  show "2 ^ 52 \<le> q / 2 powi e" "q / 2 powi e < 2 ^ 53"
    using binade_bounds [OF assms(1)] unfolding p by (simp_all add: le_divide_eq divide_less_eq)
qed

lemma roundPos_error:
  assumes "0 < q"
  shows "\<bar>roundPos q - q\<bar> \<le> q / 2 ^ 53"
proof -
  let ?s = "2 powi (binade q - 53) :: rat"
  have "roundPos q - q = (of_int (roundHalfEven (q / ?s)) - q / ?s) * ?s"
    by (simp add: roundPos_def Let_def left_diff_distrib)
  then have "\<bar>roundPos q - q\<bar> \<le> 1 / 2 * ?s"
    using roundHalfEven_error [of "q / ?s"] by (simp add: abs_mult mult_right_mono)
  also have "\<dots> \<le> q / 2 ^ 53"
    using significand(1) [OF assms] by (simp add: le_divide_eq)
  finally show ?thesis .
qed

lemma roundPos_between:
  assumes "0 < q"
  shows "2 powi (binade q - 1) \<le> roundPos q" "roundPos q \<le> 2 powi binade q"
proof -
  let ?s = "2 powi (binade q - 53) :: rat"
  have p: "2 powi (binade q - 1) = of_int (2 ^ 52) * ?s" "2 powi binade q = of_int (2 ^ 53) * ?s"
    using power_int_add [of "2 :: rat" 52 "binade q - 53"] power_int_add [of "2 :: rat" 53 "binade q - 53"] by simp_all
  have "2 ^ 52 \<le> roundHalfEven (q / ?s)"
    using roundHalfEven_mono [of "of_int (2 ^ 52)" "q / ?s"] significand(1) [OF assms] by simp
  moreover have "roundHalfEven (q / ?s) \<le> 2 ^ 53"
    using roundHalfEven_mono [of "q / ?s" "of_int (2 ^ 53)"] significand(2) [OF assms] by simp
  ultimately show "2 powi (binade q - 1) \<le> roundPos q" "roundPos q \<le> 2 powi binade q"
    unfolding p roundPos_def Let_def by (intro mult_right_mono; simp only: of_int_le_iff; simp)+
qed

lemma roundPos_mono:
  assumes "0 < p" "p \<le> q"
  shows "roundPos p \<le> roundPos q"
proof (cases "binade p = binade q")
  case True
  let ?s = "2 powi (binade q - 53) :: rat"
  have "roundHalfEven (p / ?s) \<le> roundHalfEven (q / ?s)"
    using assms(2) by (intro roundHalfEven_mono) (simp add: divide_right_mono)
  then show ?thesis by (simp add: roundPos_def Let_def True mult_right_mono)
next
  case False
  have q: "0 < q" using assms by simp
  have "binade p < binade q"
  proof (rule ccontr)
    assume "\<not> binade p < binade q"
    then have "binade q \<le> binade p - 1" using False by simp
    then have "(2 :: rat) powi binade q \<le> 2 powi (binade p - 1)" by (intro power_int_increasing) simp_all
    then show False using binade_bounds [OF assms(1)] binade_bounds [OF q] assms(2) by linarith
  qed
  then have "(2 :: rat) powi binade p \<le> 2 powi (binade q - 1)" by (intro power_int_increasing) simp_all
  then show ?thesis using roundPos_between(2) [OF assms(1)] roundPos_between(1) [OF q] by linarith
qed

lemma roundPos_int:
  assumes "0 < n" "n < 2 ^ 53"
  shows "roundPos (of_int n) = of_int n"
proof -
  let ?q = "of_int n :: rat" and ?e = "binade (of_int n) - 53"
  have "binade ?q \<le> 53"
  proof (rule ccontr)
    assume "\<not> binade ?q \<le> 53"
    then have "(2 :: rat) powi 53 \<le> 2 powi (binade ?q - 1)" by (intro power_int_increasing) simp_all
    also have "\<dots> \<le> ?q" using binade_bounds [of ?q] assms(1) by simp
    finally have "of_int (2 ^ 53) \<le> ?q" by simp
    then have "2 ^ 53 \<le> n" by (simp only: of_int_le_iff)
    then show False using assms(2) by simp
  qed
  then have s: "(2 :: rat) powi ?e = inverse (2 ^ nat (- ?e))" 
    using \<open>binade ?q \<le> 53\<close> power_int_minus [of "2 :: rat" "- ?e"]
    by (simp only: minus_minus power_int_nonneg_exp [of "- ?e"])
  have "?q / 2 powi ?e = of_int (n * 2 ^ nat (- ?e))" by (simp add: s divide_inverse)
  then have "roundHalfEven (?q / 2 powi ?e) = n * 2 ^ nat (- ?e)" by (simp only: roundHalfEven_int)
  then show ?thesis by (simp add: roundPos_def Let_def s)
qed

lemma roundF64_neg: "roundF64 (- q) = - roundF64 q"
  by (auto simp: roundF64_def)

lemma roundF64_error: "\<bar>roundF64 q - q\<bar> \<le> \<bar>q\<bar> / 2 ^ 53"
proof (cases "0 < q")
  case False
  then show ?thesis
    using roundPos_error [of "- q"] abs_minus_cancel [of "roundPos (- q) - - q"]
    by (cases "q = 0") (simp_all add: roundF64_def del: abs_minus_cancel)
qed (use roundPos_error [of q] in \<open>simp add: roundF64_def\<close>)

lemma roundPos_pos: "0 < q \<Longrightarrow> 0 < roundPos q"
  using roundPos_between(1) [of q] powi_pos [of "binade q - 1"] by linarith

lemma roundF64_mono: "p \<le> q \<Longrightarrow> roundF64 p \<le> roundF64 q"
proof -
  assume "p \<le> q"
  then show ?thesis
    using roundPos_mono [of p q] roundPos_mono [of "- q" "- p"] roundPos_pos [of q] roundPos_pos [of "- p"]
    by (auto simp: roundF64_def)
qed

lemma roundF64_int [simp]: "\<bar>n\<bar> < 2 ^ 53 \<Longrightarrow> roundF64 (of_int n) = of_int n"
  using roundPos_int [of n] roundPos_int [of "- n"] by (auto simp: roundF64_def)

text \<open>Integer division through a rounded quotient is exact below \<open>2^53\<close>.\<close>

lemma floor_roundF64_div:
  assumes "0 < b" "\<bar>a\<bar> < 2 ^ 53"
  shows "\<lfloor>roundF64 (of_int a / of_int b)\<rfloor> = a div b"
proof -
  let ?q = "of_int a / of_int b :: rat" and ?k = "a div b"
  have k: "of_int ?k \<le> ?q" "?q \<le> of_int (?k + 1) - 1 / of_int b"
  proof -
    have m: "a = b * ?k + a mod b" "0 \<le> a mod b" "a mod b \<le> b - 1"
      using assms(1) pos_mod_bound [of b a] by (simp_all add: pos_mod_sign)
    have "b * ?k \<le> a" "a \<le> b * ?k + b - 1" using m by linarith+
    then have "of_int (b * ?k) \<le> (of_int a :: rat)" "(of_int a :: rat) \<le> of_int (b * ?k + b - 1)"
      by (simp_all only: of_int_le_iff)
    then show "of_int ?k \<le> ?q" "?q \<le> of_int (?k + 1) - 1 / of_int b"
      using assms(1) by (simp_all add: field_simps)
  qed
  have kb: "\<bar>?k\<bar> < 2 ^ 53"
  proof -
    have "\<bar>a div b\<bar> \<le> \<bar>a\<bar>"
    proof (cases "0 \<le> a")
      case True
      then show ?thesis using assms(1) zdiv_mono2 [of a 1 b] by (simp add: pos_imp_zdiv_nonneg_iff)
    next
      case False
      then show ?thesis using assms(1) zdiv_mono2_neg [of a 1 b] div_neg_pos_less0 [of a b] by simp
    qed
    then show ?thesis using assms(2) by linarith
  qed
  have "of_int ?k \<le> roundF64 ?q" using roundF64_mono [OF k(1)] kb by simp
  moreover have "roundF64 ?q < of_int (?k + 1)"
  proof -
    have "\<bar>?q\<bar> / 2 ^ 53 < 1 / of_int b"
    proof -
      have "(of_int \<bar>a\<bar> :: rat) < of_int (2 ^ 53)" using assms(2) by (simp only: of_int_less_iff)
      then show ?thesis using assms(1) by (simp add: field_simps abs_divide)
    qed
    then show ?thesis using roundF64_error [of ?q] k(2) by linarith
  qed
  ultimately show ?thesis by (intro floor_unique) simp_all
qed

lemma ceiling_roundF64_div:
  assumes "0 < b" "\<bar>a\<bar> < 2 ^ 53"
  shows "\<lceil>roundF64 (of_int a / of_int b)\<rceil> = - ((- a) div b)"
  using floor_roundF64_div [of b "- a"] assms roundF64_neg [of "of_int a / of_int b"]
  by (simp add: ceiling_def)

lemma js_floor_div:
  assumes "0 < b" "\<bar>a\<bar> < 2 ^ 53"
  shows "js_floor (js_div (js_int a) (js_int b)) = js_int (a div b)"
  using floor_roundF64_div [OF assms] assms by (simp add: js_int_def)

lemma js_ceil_div:
  assumes "0 < b" "\<bar>a\<bar> < 2 ^ 53"
  shows "js_ceil (js_div (js_int a) (js_int b)) = js_int (- ((- a) div b))"
  using ceiling_roundF64_div [OF assms] assms by (simp add: js_int_def)

lemma js_add_int [simp]: "\<bar>a + b\<bar> < 2 ^ 53 \<Longrightarrow> js_add (js_int a) (js_int b) = js_int (a + b)"
  by (simp add: js_int_def of_int_add [symmetric] del: of_int_add)

lemma js_sub_int [simp]: "\<bar>a - b\<bar> < 2 ^ 53 \<Longrightarrow> js_sub (js_int a) (js_int b) = js_int (a - b)"
  by (simp add: js_sub_def js_int_def of_int_diff [symmetric] del: of_int_diff)

lemma js_min_int [simp]: "js_min (js_int a) (js_int b) = js_int (min a b)"
  by (auto simp: js_min_def js_int_def)

lemma js_max_int [simp]: "js_max (js_int a) (js_int b) = js_int (max a b)"
  by (auto simp: js_max_def js_int_def)

lemma js_toBigInt_int [simp]: "js_toBigInt (js_int n) = Inr n"
  by (simp add: js_int_def)

lemma js_less_int [simp]: "js_less (js_int a) (js_int b) \<longleftrightarrow> a < b"
  by (simp add: js_int_def)

end
