(* ===== verification/Fees.thy ===== *)
theory Fees
  imports JsNumber InnerProof Offchain
begin

text \<open>
  \<open>falafel/src/tx_fee_resolver\<close>: the price history (\<open>price_tracker.ts\<close>), the gas a transaction
  type adds to a rollup (\<open>get_gas_overhead.ts\<close>), rounding (\<open>barretenberg.js/src/rounding\<close>) and the fees
  quoted to users (\<open>fee_calculator.ts\<close>). Gas is a JavaScript number (\<open>jsnum\<close>), fees and prices are
  bigints. The time is an argument where the code asks \<open>Date.now()\<close>, and the assets of the blockchain status
  are a field of the calculator.
\<close>

section \<open>Transaction types and gas overhead\<close>

datatype txType = TX_DEPOSIT | TX_TRANSFER | TX_WITHDRAW_TO_WALLET | TX_WITHDRAW_HIGH_GAS | TX_ACCOUNT
  | TX_DEFI_DEPOSIT | TX_DEFI_CLAIM

definition isDefiDepositTx :: "txType \<Rightarrow> bool" where
  "isDefiDepositTx t = (t = TX_DEFI_DEPOSIT)"

definition isAccountTx :: "txType \<Rightarrow> bool" where
  "isAccountTx t = (t = TX_ACCOUNT)"

record blockchainAsset =
  ba_address :: ethAddress
  ba_decimals :: int
  ba_symbol :: string
  ba_name :: string
  ba_gasLimit :: int

record assetGasLimit =
  agl_assetId :: int
  agl_gasLimit :: int

fun getTxCallData :: "txType \<Rightarrow> int" where
  "getTxCallData TX_ACCOUNT = 1 + 4 * 32"
| "getTxCallData TX_DEFI_CLAIM = 1 + 4 * 32"
| "getTxCallData TX_DEFI_DEPOSIT = 1 + 4 * 32"
| "getTxCallData TX_DEPOSIT = (1 + 5 * 32 + 20 + 4) + 96"
| "getTxCallData TX_TRANSFER = 1 + 4 * 32"
| "getTxCallData TX_WITHDRAW_HIGH_GAS = 1 + 5 * 32 + 20 + 4"
| "getTxCallData TX_WITHDRAW_TO_WALLET = 1 + 5 * 32 + 20 + 4"

definition getWithdrawToWalletGas :: "assetGasLimit \<Rightarrow> int" where
  "getWithdrawToWalletGas agl =
    (let callDataGasCost = (int OffchainJoinSplitData_SIZE + getTxCallData TX_WITHDRAW_TO_WALLET) * 16;
         contractOverhead = (if agl_assetId agl = 0 then 10000 else agl_gasLimit agl)
     in callDataGasCost + contractOverhead)"

definition getWithdrawHighGas :: "assetGasLimit \<Rightarrow> int" where
  "getWithdrawHighGas agl =
    (let callDataGasCost = (int OffchainJoinSplitData_SIZE + getTxCallData TX_WITHDRAW_HIGH_GAS) * 16;
         contractOverhead = (if agl_assetId agl = 0 then agl_gasLimit agl + 10000 else agl_gasLimit agl)
     in callDataGasCost + contractOverhead)"

fun getGasOverhead :: "txType \<Rightarrow> assetGasLimit \<Rightarrow> int" where
  "getGasOverhead TX_ACCOUNT agl = (int OffchainAccountData_SIZE + getTxCallData TX_ACCOUNT) * 16"
| "getGasOverhead TX_DEFI_CLAIM agl = (int OffchainDefiClaimData_SIZE + getTxCallData TX_DEFI_CLAIM) * 16"
| "getGasOverhead TX_DEFI_DEPOSIT agl = (int OffchainDefiDepositData_SIZE + getTxCallData TX_DEFI_DEPOSIT) * 16"
| "getGasOverhead TX_DEPOSIT agl = (int OffchainJoinSplitData_SIZE + getTxCallData TX_DEPOSIT) * 16 + 10500"
| "getGasOverhead TX_TRANSFER agl = (int OffchainJoinSplitData_SIZE + getTxCallData TX_TRANSFER) * 16"
| "getGasOverhead TX_WITHDRAW_HIGH_GAS agl = getWithdrawHighGas agl"
| "getGasOverhead TX_WITHDRAW_TO_WALLET agl = getWithdrawToWalletGas agl"

section \<open>Rounding\<close>

fun numDecimalDigits :: "nat \<Rightarrow> nat" where
  "numDecimalDigits n = (if n < 10 then 1 else Suc (numDecimalDigits (n div 10)))"

declare numDecimalDigits.simps [simp del]

text \<open>The length of the decimal string of a bigint, its minus sign included.\<close>

definition numDigits :: "int \<Rightarrow> int" where
  "numDigits v = (if v < 0 then 1 + int (numDecimalDigits (nat (- v))) else int (numDecimalDigits (nat v)))"

text \<open>Bigint division and remainder truncate towards zero and throw for a zero divisor.\<close>

definition truncDiv :: "int \<Rightarrow> int \<Rightarrow> int" where
  "truncDiv a b = sgn a * sgn b * (\<bar>a\<bar> div \<bar>b\<bar>)"

definition bigDiv :: "int \<Rightarrow> int \<Rightarrow> int res" where
  "bigDiv a b = (if b = 0 then Inl RangeError else Inr (truncDiv a b))"

definition roundUp :: "int \<Rightarrow> int \<Rightarrow> int res" where
  "roundUp value numSignificantFigures =
    (if numSignificantFigures < 0 then Inl (Thrown ''Number of significant figures cannot be negative.'')
     else if numSignificantFigures = 0 then Inr value
     else let numZeros = max 0 (numDigits value - numSignificantFigures);
              exp = 10 ^ nat numZeros;
              head = truncDiv value exp;
              carry = (if numZeros \<noteq> 0 \<and> value - truncDiv value exp * exp \<noteq> 0 then 1 else 0)
          in Inr ((head + carry) * exp))"

section \<open>PriceTracker\<close>

record priceRecord =
  pr_gasPrice :: int
  pr_assetPrices :: "int \<rightharpoonup> int"
  pr_timestamp :: int

record priceTracker =
  pt_assetIds :: "int list"
  pt_refreshInterval :: int
  pt_numHistoricalPrices :: jsnum
  pt_prices :: "priceRecord list"

definition newPriceTracker :: "int list \<Rightarrow> int \<Rightarrow> int \<Rightarrow> priceTracker" where
  "newPriceTracker assetIds refreshInterval recordDuration =
     \<lparr>pt_assetIds = assetIds, pt_refreshInterval = refreshInterval,
      pt_numHistoricalPrices = js_ceil (js_div (js_int recordDuration) (js_int refreshInterval)), pt_prices = []\<rparr>"

definition pt_getGasPrice :: "int \<Rightarrow> int \<Rightarrow> priceTracker \<Rightarrow> int" where
  "pt_getGasPrice now msAgo t =
    (let startFrom = now - msAgo
     in case find (\<lambda>p. startFrom \<ge> pr_timestamp p) (pt_prices t) of None \<Rightarrow> 0 | Some p \<Rightarrow> pr_gasPrice p)"

definition pt_getAssetPrice :: "int \<Rightarrow> int \<Rightarrow> int \<Rightarrow> priceTracker \<Rightarrow> int" where
  "pt_getAssetPrice now assetId msAgo t =
    (let startFrom = now - msAgo
     in case find (\<lambda>p. startFrom \<ge> pr_timestamp p) (pt_prices t) of None \<Rightarrow> 0
        | Some p \<Rightarrow> (case pr_assetPrices p assetId of None \<Rightarrow> 0 | Some v \<Rightarrow> v))"

definition pt_getMinGasPrice :: "priceTracker \<Rightarrow> int" where
  "pt_getMinGasPrice t =
     foldl (\<lambda>m p. if pr_gasPrice p < m then pr_gasPrice p else m)
       (case pt_prices t of [] \<Rightarrow> 0 | p # _ \<Rightarrow> pr_gasPrice p) (pt_prices t)"

text \<open>A comparison with \<open>undefined\<close>, the price of an asset a record lacks, is false.\<close>

definition pt_getMinAssetPrice :: "int \<Rightarrow> priceTracker \<Rightarrow> int" where
  "pt_getMinAssetPrice assetId t =
     foldl (\<lambda>m p. case pr_assetPrices p assetId of None \<Rightarrow> m | Some v \<Rightarrow> if v < m then v else m)
       (case pt_prices t of [] \<Rightarrow> 0 | p # _ \<Rightarrow> (case pr_assetPrices p assetId of None \<Rightarrow> 0 | Some v \<Rightarrow> v))
       (pt_prices t)"

text \<open>\<open>xs.slice(0, n)\<close> for any number \<open>n\<close>.\<close>

fun sliceTo :: "'a list \<Rightarrow> jsnum \<Rightarrow> 'a list" where
  "sliceTo xs (Num a) = (let n = \<lfloor>a\<rfloor> in if a < 0 then take (length xs - nat (- \<lceil>a\<rceil>)) xs else take (nat n) xs)"
| "sliceTo xs Infinity = xs"
| "sliceTo xs NegInfinity = []"
| "sliceTo xs NaN = []"

text \<open>\<open>gasPrice\<close> and \<open>assetPricesList\<close> are what the price feeds answered.\<close>

definition recordPrices :: "int \<Rightarrow> int list \<Rightarrow> int \<Rightarrow> priceTracker \<Rightarrow> priceTracker" where
  "recordPrices gasPrice assetPricesList now t =
     t\<lparr>pt_prices := \<lparr>pr_gasPrice = gasPrice, pr_assetPrices = map_of (rev (zip (pt_assetIds t) assetPricesList)),
                      pr_timestamp = now\<rparr> # sliceTo (pt_prices t) (pt_numHistoricalPrices t)\<rparr>"

section \<open>FeeCalculator\<close>

record feeCalculator =
  fc_priceTracker :: priceTracker
  fc_assets :: "blockchainAsset list"
  fc_verificationGas :: int
  fc_maxFeeGasPrice :: int
  fc_feeGasPriceMultiplier :: rat
  fc_txsPerRollup :: int
  fc_callDataPerRollup :: int
  fc_gasPerRollup :: int
  fc_numSignificantFigures :: int
  fc_exitOnly :: bool

definition allTxTypes :: "txType list" where
  "allTxTypes = [TX_DEPOSIT, TX_TRANSFER, TX_WITHDRAW_TO_WALLET, TX_WITHDRAW_HIGH_GAS, TX_ACCOUNT, TX_DEFI_DEPOSIT,
     TX_DEFI_CLAIM]"

text \<open>The assets are indexed by asset id; reading a member of a missing asset throws.\<close>

definition fc_getAsset :: "feeCalculator \<Rightarrow> int \<Rightarrow> blockchainAsset res" where
  "fc_getAsset fc assetId = (if 0 \<le> assetId then indexE (fc_assets fc) (nat assetId) else Inl TypeError)"

definition isValidAsset :: "feeCalculator \<Rightarrow> int \<Rightarrow> bool" where
  "isValidAsset fc assetId = (assetId < int (length (fc_assets fc)))"

definition getGasOverheadForTxType :: "feeCalculator \<Rightarrow> int \<Rightarrow> txType \<Rightarrow> int res" where
  "getGasOverheadForTxType fc txAssetId t =
    (let gasAssetId = (if isValidAsset fc txAssetId then txAssetId else 0)
     in bindE (fc_getAsset fc gasAssetId) (\<lambda>asset.
          Inr (getGasOverhead t \<lparr>agl_assetId = gasAssetId, agl_gasLimit = ba_gasLimit asset\<rparr>)))"

definition getUnadjustedBaseVerificationGas :: "feeCalculator \<Rightarrow> jsnum" where
  "getUnadjustedBaseVerificationGas fc =
     js_ceil (js_div (js_int (fc_verificationGas fc)) (js_int (fc_txsPerRollup fc)))"

definition getUnadjustedTxGas :: "feeCalculator \<Rightarrow> int \<Rightarrow> txType \<Rightarrow> jsnum res" where
  "getUnadjustedTxGas fc txAssetId t =
     mapR (\<lambda>g. js_add (getUnadjustedBaseVerificationGas fc) (js_int g)) (getGasOverheadForTxType fc txAssetId t)"

definition getMaxTxCallData :: int where
  "getMaxTxCallData = foldl max 0 (map getTxCallData allTxTypes)"

definition getMaxUnadjustedGas :: "feeCalculator \<Rightarrow> jsnum res" where
  "getMaxUnadjustedGas fc =
     foldE (\<lambda>prev (assetId, t). mapR (js_max prev) (getUnadjustedTxGas fc assetId t)) (js_int 0)
       (concat (map (\<lambda>assetId. map (\<lambda>t. (int assetId, t)) allTxTypes) [0..<length (fc_assets fc)]))"

definition getNumAdjustedTxsPerRollup :: "feeCalculator \<Rightarrow> int \<Rightarrow> txType \<Rightarrow> jsnum res" where
  "getNumAdjustedTxsPerRollup fc txAssetId t =
    (let callDataAvailableForTxs = fc_callDataPerRollup fc - getMaxTxCallData;
         numTxsAccountingForCallData = js_floor (js_div (js_int callDataAvailableForTxs) (js_int (getTxCallData t)))
     in bindE (getGasOverheadForTxType fc txAssetId t) (\<lambda>gasForTx.
        bindE (getMaxUnadjustedGas fc) (\<lambda>maxGasForAnyTx.
        let gasAvailableForTxs = js_sub (js_int (fc_gasPerRollup fc)) (js_add (js_int (fc_verificationGas fc)) maxGasForAnyTx);
            numTxsAccountingForGas = js_floor (js_div gasAvailableForTxs (js_int gasForTx))
        in Inr (js_min (js_min numTxsAccountingForCallData numTxsAccountingForGas) (js_int (fc_txsPerRollup fc))))))"

definition getMaxAdjustedTxsPerRollup :: "feeCalculator \<Rightarrow> int \<Rightarrow> txType \<Rightarrow> jsnum res" where
  "getMaxAdjustedTxsPerRollup fc txAssetId t =
    (let numTxsAccountingForCallData = js_floor (js_div (js_int (fc_callDataPerRollup fc)) (js_int (getTxCallData t)))
     in bindE (getGasOverheadForTxType fc txAssetId t) (\<lambda>gasForTx.
        let gasAvailableForTxs = fc_gasPerRollup fc - fc_verificationGas fc;
            numTxsAccountingForGas = js_floor (js_div (js_int gasAvailableForTxs) (js_int gasForTx))
        in Inr (js_min (js_min numTxsAccountingForCallData numTxsAccountingForGas) (js_int (fc_txsPerRollup fc)))))"

definition getTxGasAdjustmentValue :: "feeCalculator \<Rightarrow> int \<Rightarrow> txType \<Rightarrow> jsnum res" where
  "getTxGasAdjustmentValue fc txAssetId t =
    (let unadjusted = js_div (js_int (fc_verificationGas fc)) (js_int (fc_txsPerRollup fc))
     in bindE (getNumAdjustedTxsPerRollup fc txAssetId t) (\<lambda>numAdjustedTxs.
        let adjusted = js_div (js_int (fc_verificationGas fc)) numAdjustedTxs
        in Inr (js_ceil (js_sub adjusted unadjusted))))"

definition getAdjustedBaseVerificationGas :: "feeCalculator \<Rightarrow> int \<Rightarrow> txType \<Rightarrow> jsnum res" where
  "getAdjustedBaseVerificationGas fc txAssetId t =
     mapR (js_add (getUnadjustedBaseVerificationGas fc)) (getTxGasAdjustmentValue fc txAssetId t)"

definition getAdjustedTxGas :: "feeCalculator \<Rightarrow> int \<Rightarrow> txType \<Rightarrow> jsnum res" where
  "getAdjustedTxGas fc txAssetId t =
     bindE (getAdjustedBaseVerificationGas fc txAssetId t) (\<lambda>base.
       mapR (\<lambda>g. js_add base (js_int g)) (getGasOverheadForTxType fc txAssetId t))"

text \<open>\<open>10n ** BigInt(decimals)\<close> and \<open>BigInt(feeGasPriceMultiplier * 10 ** 8)\<close>.\<close>

definition scaleFactor :: "int \<Rightarrow> int res" where
  "scaleFactor decimals = (if decimals < 0 then Inl RangeError else Inr (10 ^ nat decimals))"

definition scaledMultiplier :: "feeCalculator \<Rightarrow> int res" where
  "scaledMultiplier fc = js_toBigInt (js_mul_num (Num (fc_feeGasPriceMultiplier fc)) (js_int (10 ^ 8)))"

definition applyGasPrice :: "int \<Rightarrow> feeCalculator \<Rightarrow> int \<Rightarrow> bool \<Rightarrow> int res" where
  "applyGasPrice now fc value minPrice =
    (let gasPrice = (if minPrice then pt_getMinGasPrice (fc_priceTracker fc) else pt_getGasPrice now 0 (fc_priceTracker fc))
     in bindE (scaledMultiplier fc) (\<lambda>multiplier.
        let expectedValue = truncDiv (value * gasPrice * multiplier) (10 ^ 8);
            maxValue = (if fc_maxFeeGasPrice fc \<noteq> 0 then value * fc_maxFeeGasPrice fc else expectedValue)
        in Inr (if expectedValue > maxValue then maxValue else expectedValue)))"

definition toAssetPrice :: "int \<Rightarrow> feeCalculator \<Rightarrow> int \<Rightarrow> jsnum \<Rightarrow> bool \<Rightarrow> int res" where
  "toAssetPrice now fc feeAssetId gas minPrice =
    (let price = (if minPrice then pt_getMinAssetPrice feeAssetId (fc_priceTracker fc)
                  else pt_getAssetPrice now feeAssetId 0 (fc_priceTracker fc))
     in bindE (fc_getAsset fc feeAssetId) (\<lambda>asset.
        if price = 0 then Inr 0
        else bindE (js_toBigInt gas) (\<lambda>bigGas.
             bindE (scaleFactor (ba_decimals asset)) (\<lambda>scale.
             bindE (applyGasPrice now fc (bigGas * scale) minPrice) (\<lambda>cost.
             bindE (bigDiv cost price) (\<lambda>costOfGas.
             roundUp costOfGas (fc_numSignificantFigures fc)))))))"

definition getTxFeeFromGas :: "int \<Rightarrow> feeCalculator \<Rightarrow> int \<Rightarrow> jsnum \<Rightarrow> int res" where
  "getTxFeeFromGas now fc feeAssetId gas = toAssetPrice now fc feeAssetId gas False"

definition getGasPaidForByFee :: "int \<Rightarrow> feeCalculator \<Rightarrow> int \<Rightarrow> int \<Rightarrow> jsnum res" where
  "getGasPaidForByFee now fc feeAssetId fee =
    (let assetCostInWei = pt_getAssetPrice now feeAssetId 0 (fc_priceTracker fc)
     in bindE (scaledMultiplier fc) (\<lambda>multiplier.
        let gasPriceInWei = truncDiv (pt_getMinGasPrice (fc_priceTracker fc) * multiplier) (10 ^ 8)
        in bindE (fc_getAsset fc feeAssetId) (\<lambda>asset.
           bindE (scaleFactor (ba_decimals asset)) (\<lambda>scale.
           bindE (bigDiv (assetCostInWei * fee) gasPriceInWei) (\<lambda>gasPaidForUnscaled.
           mapR (\<lambda>gas. Num (roundF64 (of_int gas))) (bigDiv gasPaidForUnscaled scale))))))"

definition getBaseFee :: "int \<Rightarrow> feeCalculator \<Rightarrow> int \<Rightarrow> int \<Rightarrow> txType \<Rightarrow> bool \<Rightarrow> int res" where
  "getBaseFee now fc txAssetId feeAssetId t minPrice =
     bindE (getAdjustedBaseVerificationGas fc txAssetId t) (\<lambda>gas. toAssetPrice now fc feeAssetId gas minPrice)"

definition getEmptySlotFee :: "int \<Rightarrow> feeCalculator \<Rightarrow> int \<Rightarrow> bool \<Rightarrow> int res" where
  "getEmptySlotFee now fc feeAssetId minPrice =
     toAssetPrice now fc feeAssetId (getUnadjustedBaseVerificationGas fc) minPrice"

definition getFeeConstant :: "int \<Rightarrow> feeCalculator \<Rightarrow> int \<Rightarrow> int \<Rightarrow> txType \<Rightarrow> bool \<Rightarrow> int res" where
  "getFeeConstant now fc txAssetId feeAssetId t minPrice =
     bindE (getGasOverheadForTxType fc txAssetId t) (\<lambda>gas. toAssetPrice now fc feeAssetId (js_int gas) minPrice)"

text \<open>The two quotes of a transaction type: the next rollup, and an instant rollup that pays every slot.\<close>

definition getTxFees :: "int \<Rightarrow> feeCalculator \<Rightarrow> int \<Rightarrow> int \<Rightarrow> (int \<times> int) list list res" where
  "getTxFees now fc txAssetId feeAssetId =
     mapE (\<lambda>t.
       bindE (if fc_exitOnly fc then Inr 0
              else bindE (getBaseFee now fc txAssetId feeAssetId t False) (\<lambda>base.
                   bindE (getFeeConstant now fc txAssetId feeAssetId t False) (\<lambda>constant. Inr (base + constant))))
         (\<lambda>nextRollup.
       bindE (getEmptySlotFee now fc feeAssetId False) (\<lambda>slot.
       bindE (getFeeConstant now fc txAssetId feeAssetId t False) (\<lambda>constant.
       Inr [(feeAssetId, nextRollup), (feeAssetId, slot * fc_txsPerRollup fc + constant)])))) allTxTypes"

section \<open>Lemmas\<close>

lemma truncDiv_nonneg: "0 \<le> a \<Longrightarrow> 0 < b \<Longrightarrow> truncDiv a b = a div b"
  by (cases "a = 0") (simp_all add: truncDiv_def)

lemma bigDiv_pos: "0 \<le> a \<Longrightarrow> 0 < b \<Longrightarrow> bigDiv a b = Inr (a div b)"
  by (simp add: bigDiv_def truncDiv_nonneg)

lemma numDecimalDigits_bounds: "0 < n \<Longrightarrow> 10 ^ (numDecimalDigits n - 1) \<le> n \<and> 0 < numDecimalDigits n"
proof (induction n rule: numDecimalDigits.induct)
  case (1 n)
  show ?case
  proof (cases "n < 10")
    case True
    then show ?thesis using 1 by (simp add: numDecimalDigits.simps [of n])
  next
    case False
    then have ih: "10 ^ (numDecimalDigits (n div 10) - 1) \<le> n div 10" "0 < numDecimalDigits (n div 10)" using 1 by auto
    have "10 ^ numDecimalDigits (n div 10) = 10 * (10 :: nat) ^ (numDecimalDigits (n div 10) - 1)"
      using ih(2) by (cases "numDecimalDigits (n div 10)") simp_all
    then have "10 ^ numDecimalDigits (n div 10) \<le> n" using ih(1) by linarith
    then show ?thesis using False by (subst (1 2) numDecimalDigits.simps) simp
  qed
qed

lemma roundUp_exact:
  assumes "0 \<le> v" "0 < s" "roundUp v s = Inr r"
  defines "e \<equiv> 10 ^ nat (max 0 (numDigits v - s))"
  shows "r = v + (- v) mod e"
proof -
  have e: "0 < e" by (simp add: e_def)
  have m: "v - v div e * e = v mod e" by (simp add: minus_div_mult_eq_mod)
  have r: "r = (v div e + (if max 0 (numDigits v - s) \<noteq> 0 \<and> v mod e \<noteq> 0 then 1 else 0)) * e"
    using assms(2,3) unfolding roundUp_def Let_def e_def [symmetric] truncDiv_nonneg [OF assms(1) e] m by simp
  have "v mod e = 0" if "max 0 (numDigits v - s) = 0" using that by (simp add: e_def)
  then have r: "r = (v div e + (if v mod e \<noteq> 0 then 1 else 0)) * e" using r by auto
  have d: "v = v div e * e + v mod e" by simp
  have z: "(- v) mod e = (if v mod e = 0 then 0 else e - v mod e)" by (rule zmod_zminus1_eq_if)
  show ?thesis
  proof (cases "v mod e = 0")
    case True
    then show ?thesis using r d z by simp
  next
    case False
    then have "r = v div e * e + e" using r by (simp add: algebra_simps)
    moreover have "(- v) mod e = e - v mod e" using z False by simp
    ultimately show ?thesis using d by linarith
  qed
qed

lemma roundUp_bounds:
  assumes "0 \<le> v" "0 \<le> s" "roundUp v s = Inr r"
  shows "v \<le> r"
proof (cases "s = 0")
  case False
  then have "r = v + (- v) mod 10 ^ nat (max 0 (numDigits v - s))"
    using assms by (intro roundUp_exact) simp_all
  then show ?thesis by (simp add: pos_mod_sign)
qed (use assms in \<open>simp add: roundUp_def\<close>)

lemma roundUp_total: "0 \<le> s \<Longrightarrow> \<exists>r. roundUp v s = Inr r"
  by (simp add: roundUp_def Let_def)

lemma roundUp_relative:
  assumes "0 \<le> v" "0 < s" "roundUp v s = Inr r"
  shows "(r - v) * 10 ^ nat (s - 1) \<le> v"
proof -
  define z where "z = max 0 (numDigits v - s)"
  have r: "r - v = (- v) mod 10 ^ nat z" unfolding z_def using roundUp_exact [OF assms] by simp
  show ?thesis
  proof (cases "z = 0 \<or> v = 0")
    case True
    then show ?thesis using r assms(1) by auto
  next
    case False
    then have v: "0 < v" and z: "z = numDigits v - s" "0 < z" using assms(1) by (auto simp: z_def)
    have b: "10 ^ (numDecimalDigits (nat v) - 1) \<le> nat v" and p: "0 < numDecimalDigits (nat v)"
      using numDecimalDigits_bounds [of "nat v"] v by simp_all
    have d: "numDigits v = int (numDecimalDigits (nat v))" using v by (simp add: numDigits_def)
    have "nat z + nat (s - 1) = numDecimalDigits (nat v) - 1"
      using z d assms(2) p by linarith
    then have "(10 :: int) ^ nat z * 10 ^ nat (s - 1) = 10 ^ (numDecimalDigits (nat v) - 1)"
      by (simp add: power_add [symmetric])
    also have "\<dots> \<le> v" using b v by (simp add: le_nat_iff)
    finally have k: "(10 :: int) ^ nat z * 10 ^ nat (s - 1) \<le> v" .
    have "(r - v) * 10 ^ nat (s - 1) \<le> 10 ^ nat z * 10 ^ nat (s - 1)"
      unfolding r by (intro mult_right_mono) (simp_all add: less_imp_le)
    then show ?thesis using k by linarith
  qed
qed

lemma le_divI: "0 < c \<Longrightarrow> c * a \<le> b \<Longrightarrow> a \<le> b div (c :: int)"
  using zdiv_mono1 [of "c * a" b c] by simp

text \<open>The gas a quoted fee pays for.\<close>

lemma quote_arith:
  fixes gas S g gm M W p fee :: int
  assumes "0 \<le> gas" "0 < S" "0 < p" "0 < W" "0 \<le> M" "gm \<le> g"
    and G: "G = gm * M div W" "0 < G" and fee: "gas * S * g * M div W div p \<le> fee" and p: "p \<le> G * S"
  shows "gas - 1 \<le> p * fee div G div S"
proof -
  let ?cost = "gas * S * g * M div W"
  have "gas * S * G \<le> ?cost"
  proof -
    have "gm * M - gm * M mod W = W * G" unfolding G(1) by (rule minus_mod_eq_mult_div)
    moreover have "0 \<le> gm * M mod W" using assms(4) by simp
    ultimately have "W * G \<le> gm * M" by linarith
    also have "\<dots> \<le> g * M" using assms(5,6) by (rule mult_right_mono [rotated])
    finally have "gas * S * (W * G) \<le> gas * S * (g * M)" using assms(1,2) by (intro mult_left_mono) simp_all
    then have "W * (gas * S * G) \<le> gas * S * g * M" by (simp add: mult.assoc mult.left_commute)
    then have "(W * (gas * S * G)) div W \<le> ?cost" using assms(4) by (intro zdiv_mono1) simp_all
    then show ?thesis using assms(4) by simp
  qed
  moreover have "?cost - p < p * (?cost div p)"
    using assms(3) mult_div_mod_eq [of p ?cost] pos_mod_bound [of p ?cost] by linarith
  moreover have "p * (?cost div p) \<le> p * fee" using fee assms(3) by (intro mult_left_mono) simp_all
  ultimately have "gas * S * G - G * S \<le> p * fee" using p by linarith
  then have "G * (gas * S - S) \<le> p * fee" by (simp add: algebra_simps)
  then have "gas * S - S \<le> p * fee div G" using G(2) by (rule le_divI [rotated])
  then have "S * (gas - 1) \<le> p * fee div G" by (simp add: algebra_simps)
  then show ?thesis using assms(2) by (rule le_divI [rotated])
qed

lemma foldl_min_le:
  fixes m :: int
  shows "foldl (\<lambda>m p. if f p < m then f p else m) m ps \<le> m
    \<and> (\<forall>p\<in>set ps. foldl (\<lambda>m p. if f p < m then f p else m) m ps \<le> f p)
    \<and> foldl (\<lambda>m p. if f p < m then f p else m) m ps \<in> insert m (f ` set ps)"
proof (induction ps arbitrary: m)
  case (Cons q ps)
  from Cons.IH [of "if f q < m then f q else m"] show ?case by (auto split: if_splits)
qed simp

lemma min_gas_price:
  shows "p \<in> set (pt_prices t) \<Longrightarrow> pt_getMinGasPrice t \<le> pr_gasPrice p"
    and "pt_prices t \<noteq> [] \<Longrightarrow> pt_getMinGasPrice t \<in> pr_gasPrice ` set (pt_prices t)"
proof -
  let ?m = "case pt_prices t of [] \<Rightarrow> 0 | p # _ \<Rightarrow> pr_gasPrice p"
  note f = foldl_min_le [of pr_gasPrice ?m "pt_prices t", folded pt_getMinGasPrice_def]
  show "p \<in> set (pt_prices t) \<Longrightarrow> pt_getMinGasPrice t \<le> pr_gasPrice p" using f by blast
  show "pt_prices t \<noteq> [] \<Longrightarrow> pt_getMinGasPrice t \<in> pr_gasPrice ` set (pt_prices t)"
    using f by (cases "pt_prices t") auto
qed

lemma gas_price_recorded:
  "pt_getGasPrice now ms t = g \<Longrightarrow> g \<noteq> 0 \<Longrightarrow> \<exists>p\<in>set (pt_prices t). pr_gasPrice p = g \<and> pr_timestamp p \<le> now - ms"
  by (auto simp: pt_getGasPrice_def Let_def find_Some_iff split: option.splits)

lemma min_le_gas_price:
  assumes "0 < pt_getGasPrice now ms t"
  shows "pt_getMinGasPrice t \<le> pt_getGasPrice now ms t"
  using gas_price_recorded [of now ms t, OF refl] assms min_gas_price(1) by fastforce

text \<open>No cap on the gas price applies to a calculator whose current price, scaled, stays below the cap.\<close>

definition uncapped :: "int \<Rightarrow> feeCalculator \<Rightarrow> int \<Rightarrow> bool" where
  "uncapped now fc M \<longleftrightarrow> fc_maxFeeGasPrice fc = 0
     \<or> pt_getGasPrice now 0 (fc_priceTracker fc) * M \<le> fc_maxFeeGasPrice fc * 10 ^ 8"

lemma applyGasPrice_uncapped:
  assumes "scaledMultiplier fc = Inr M" "uncapped now fc M" "0 \<le> v" "0 \<le> M"
    "0 \<le> pt_getGasPrice now 0 (fc_priceTracker fc)"
  shows "applyGasPrice now fc v False = Inr (v * pt_getGasPrice now 0 (fc_priceTracker fc) * M div 10 ^ 8)"
proof -
  let ?g = "pt_getGasPrice now 0 (fc_priceTracker fc)"
  have e: "truncDiv (v * ?g * M) (10 ^ 8) = v * ?g * M div 10 ^ 8" using assms by (intro truncDiv_nonneg) simp_all
  have "v * ?g * M div 10 ^ 8 \<le> v * fc_maxFeeGasPrice fc" if "fc_maxFeeGasPrice fc \<noteq> 0"
  proof -
    have "v * (?g * M) \<le> v * (fc_maxFeeGasPrice fc * 10 ^ 8)"
      using assms(2,3) that by (intro mult_left_mono) (auto simp: uncapped_def)
    then have "v * ?g * M div 10 ^ 8 \<le> (v * fc_maxFeeGasPrice fc * 10 ^ 8) div 10 ^ 8"
      by (intro zdiv_mono1) (simp_all add: mult.assoc)
    then show ?thesis by simp
  qed
  then show ?thesis unfolding applyGasPrice_def Let_def if_False assms(1) bindE_Inr e by auto
qed

lemma quote_pays:
  assumes m: "scaledMultiplier fc = Inr M" "0 \<le> M" and cap: "uncapped now fc M"
    and a: "fc_getAsset fc a = Inr asset" and p: "0 < pt_getAssetPrice now a 0 (fc_priceTracker fc)"
    and g: "0 < pt_getGasPrice now 0 (fc_priceTracker fc)"
    and G: "G = pt_getMinGasPrice (fc_priceTracker fc) * M div 10 ^ 8" "0 < G"
    and pG: "pt_getAssetPrice now a 0 (fc_priceTracker fc) \<le> G * 10 ^ nat (ba_decimals asset)"
    and gas: "0 \<le> gas" and fee: "getTxFeeFromGas now fc a (js_int gas) = Inr fee" and sf: "0 \<le> fc_numSignificantFigures fc"
  shows "\<exists>paid. getGasPaidForByFee now fc a fee = Inr (Num (roundF64 (of_int paid))) \<and> gas - 1 \<le> paid"
proof -
  let ?p = "pt_getAssetPrice now a 0 (fc_priceTracker fc)" and ?g = "pt_getGasPrice now 0 (fc_priceTracker fc)"
  let ?gm = "pt_getMinGasPrice (fc_priceTracker fc)"
  from fee a p have dec: "0 \<le> ba_decimals asset"
    by (auto simp: getTxFeeFromGas_def toAssetPrice_def scaleFactor_def Let_def split: if_splits)
  define S :: int where "S = 10 ^ nat (ba_decimals asset)"
  have S: "0 < S" by (simp add: S_def)
  define c where "c = gas * S * ?g * M div 10 ^ 8"
  have c: "0 \<le> c" using gas S m(2) g by (simp add: c_def pos_imp_zdiv_nonneg_iff)
  have apply_price: "applyGasPrice now fc (gas * S) False = Inr c"
    using applyGasPrice_uncapped [OF m(1) cap _ m(2), of "gas * S"] gas S g by (simp add: c_def)
  have "roundUp (c div ?p) (fc_numSignificantFigures fc) = Inr fee"
    using fee a p dec apply_price bigDiv_pos [OF c p]
    by (simp add: getTxFeeFromGas_def toAssetPrice_def scaleFactor_def Let_def S_def)
  then have f: "c div ?p \<le> fee" using roundUp_bounds [OF _ sf] c p by (simp add: pos_imp_zdiv_nonneg_iff)
  then have f0: "0 \<le> fee" using c p pos_imp_zdiv_nonneg_iff [OF p, of c] by linarith
  have gm: "0 \<le> ?gm * M"
  proof (rule ccontr)
    assume "\<not> 0 \<le> ?gm * M"
    then have "G < 0" using G(1) by (simp add: div_neg_pos_less0)
    then show False using G(2) by simp
  qed
  have "gas - 1 \<le> ?p * fee div G div S"
    using f [unfolded c_def] pG S p gas m(2) G min_le_gas_price [OF g]
    by (intro quote_arith [where W = "10 ^ 8" and g = ?g and gm = ?gm and M = M]) (simp_all add: S_def)
  moreover have "getGasPaidForByFee now fc a fee = Inr (Num (roundF64 (of_int (?p * fee div G div S))))"
    using m(1) a dec truncDiv_nonneg [OF gm, of "10 ^ 8"] bigDiv_pos [of "?p * fee" G]
      bigDiv_pos [of "?p * fee div G" S] p f0 G S
    by (simp add: getGasPaidForByFee_def scaleFactor_def Let_def S_def [symmetric] pos_imp_zdiv_nonneg_iff)
  ultimately show ?thesis by blast
qed

lemma recordPrices_length:
  assumes "pt_numHistoricalPrices t = js_int n" "0 \<le> n" "length (pt_prices t) \<le> nat n + 1"
  shows "length (pt_prices (recordPrices g as now t)) \<le> nat n + 1"
  using assms by (simp add: recordPrices_def js_int_def Let_def)

lemma recordPrices_keeps [simp]: "pt_numHistoricalPrices (recordPrices g as now t) = pt_numHistoricalPrices t"
  by (simp add: recordPrices_def)

text \<open>The price feeds answer again and again.\<close>

definition recordAll :: "(int \<times> int list \<times> int) list \<Rightarrow> priceTracker \<Rightarrow> priceTracker" where
  "recordAll answers t = foldl (\<lambda>t (gasPrice, prices, now). recordPrices gasPrice prices now t) t answers"

lemma getMaxTxCallData_eq: "getMaxTxCallData = 281"
  by (simp add: getMaxTxCallData_def allTxTypes_def)

lemma getTxCallData_bounds: "0 < getTxCallData t \<and> getTxCallData t \<le> getMaxTxCallData"
  by (cases t) (simp_all add: getMaxTxCallData_eq)

text \<open>The verification gas shared by \<open>n\<close> transactions, in the rounded arithmetic of the code.\<close>

lemma adjusted_arith:
  fixes v n t :: int
  assumes v: "0 \<le> v" "v < 2 ^ 50" and n: "0 < n" "n \<le> t"
  defines "A \<equiv> roundF64 (of_int v / of_int n)" and "B \<equiv> roundF64 (of_int v / of_int t)"
  shows "v \<le> n * (\<lceil>B\<rceil> + \<lceil>roundF64 (A - B)\<rceil>)" "0 \<le> \<lceil>B\<rceil>" "\<lceil>B\<rceil> \<le> v" "0 \<le> \<lceil>roundF64 (A - B)\<rceil>"
    "\<lceil>roundF64 (A - B)\<rceil> \<le> 4 * v" "\<bar>A\<bar> \<le> 2 * of_int v"
proof -
  define q r N V :: rat where "q = of_int v / of_int n" and "r = of_int v / of_int t" and "N = of_int n" and "V = of_int v"
  have t: "0 < t" using n by simp
  have V: "0 \<le> V" "V < 2 ^ 50"
  proof -
    show "0 \<le> V" using v by (simp add: V_def)
    have "of_int v < (of_int (2 ^ 50) :: rat)" using v(2) by (simp only: of_int_less_iff)
    then show "V < 2 ^ 50" by (simp add: V_def)
  qed
  have N: "1 \<le> N" using n(1) by (simp add: N_def)
  have qr: "0 \<le> r" "r \<le> q" "N * q = V" "q \<le> V"
  proof -
    have v': "(0 :: rat) \<le> of_int v" using v(1) by simp
    show "0 \<le> r" "N * q = V" using v' t n by (simp_all add: r_def q_def N_def V_def)
    show "r \<le> q" unfolding r_def q_def using v' n t by (intro divide_left_mono) simp_all
    have "of_int v / of_int n \<le> of_int v / (1 :: rat)" using v' n by (intro divide_left_mono) simp_all
    then show "q \<le> V" by (simp add: q_def V_def)
  qed
  have q0: "0 \<le> q" using qr by linarith
  have A: "\<bar>A - q\<bar> \<le> q / 2 ^ 53" and B: "\<bar>B - r\<bar> \<le> r / 2 ^ 53"
    using roundF64_error [of q] roundF64_error [of r] qr q0 by (simp_all add: A_def B_def q_def r_def)
  have AB: "B \<le> A" using roundF64_mono [OF qr(2)] by (simp add: A_def B_def q_def r_def)
  have B0: "0 \<le> B" using roundF64_mono [OF qr(1)] roundF64_int [of 0] by (simp add: B_def r_def)
  have D: "\<bar>roundF64 (A - B) - (A - B)\<bar> \<le> (A - B) / 2 ^ 53" using roundF64_error [of "A - B"] AB by simp
  have cB: "r \<le> of_int \<lceil>B\<rceil>"
  proof -
    have c: "\<lceil>B\<rceil> = - ((- v) div t)" unfolding B_def using t v by (intro ceiling_roundF64_div) simp_all
    have "v \<le> - (t * ((- v) div t))"
      using mult_div_mod_eq [of t "- v"] pos_mod_sign [OF t, of "- v"] by linarith
    then have "v \<le> t * - ((- v) div t)" by simp
    then have "of_int v \<le> (of_int (t * \<lceil>B\<rceil>) :: rat)" unfolding c by (simp only: of_int_le_iff)
    then show ?thesis using t by (simp add: r_def divide_le_eq mult.commute)
  qed
  have q2: "q / 2 ^ 53 \<le> q" "r / 2 ^ 53 \<le> r" using q0 qr(1) by simp_all
  have cD: "roundF64 (A - B) \<le> of_int \<lceil>roundF64 (A - B)\<rceil>" by simp
  have "q - 4 * (q / 2 ^ 53) \<le> of_int (\<lceil>B\<rceil> + \<lceil>roundF64 (A - B)\<rceil>)"
  proof -
    have "q - q / 2 ^ 53 \<le> A" "A \<le> q + q / 2 ^ 53" "B \<le> r + r / 2 ^ 53" "A - B - (A - B) / 2 ^ 53 \<le> roundF64 (A - B)"
      using A B D unfolding abs_le_iff by linarith+
    moreover have "(A - B) / 2 ^ 53 \<le> 2 * (q / 2 ^ 53)"
    proof -
      have "A - B \<le> 2 * q" using A B0 q0 q2 unfolding abs_le_iff by linarith
      then have "(A - B) / 2 ^ 53 \<le> (2 * q) / 2 ^ 53" by (intro divide_right_mono) simp_all
      then show ?thesis by simp
    qed
    moreover have "r / 2 ^ 53 \<le> q / 2 ^ 53" using qr(2) by (intro divide_right_mono) simp_all
    ultimately show ?thesis using cB cD unfolding of_int_add by linarith
  qed
  then have "N * (q - 4 * (q / 2 ^ 53)) \<le> N * of_int (\<lceil>B\<rceil> + \<lceil>roundF64 (A - B)\<rceil>)"
    using N by (intro mult_left_mono) simp_all
  also have "N * (q - 4 * (q / 2 ^ 53)) = V - 4 * (V / 2 ^ 53)" using qr(3) by (simp add: algebra_simps)
  finally have "V - 1 < of_int (n * (\<lceil>B\<rceil> + \<lceil>roundF64 (A - B)\<rceil>))" using V by (simp add: N_def)
  then have "of_int (v - 1) < (of_int (n * (\<lceil>B\<rceil> + \<lceil>roundF64 (A - B)\<rceil>)) :: rat)" by (simp add: V_def)
  then have "v - 1 < n * (\<lceil>B\<rceil> + \<lceil>roundF64 (A - B)\<rceil>)" by (simp only: of_int_less_iff)
  then show "v \<le> n * (\<lceil>B\<rceil> + \<lceil>roundF64 (A - B)\<rceil>)" by simp
  show "0 \<le> \<lceil>B\<rceil>" using B0 by simp
  show "\<lceil>B\<rceil> \<le> v"
  proof -
    have "r \<le> of_int v" using qr by (simp add: V_def)
    then have "B \<le> roundF64 (of_int v)" unfolding B_def r_def [symmetric] by (rule roundF64_mono)
    also have "\<dots> = of_int v" using v by (intro roundF64_int) simp
    finally show ?thesis by (simp add: ceiling_le_iff)
  qed
  have "0 \<le> roundF64 (A - B)" using roundF64_mono [of 0 "A - B"] AB roundF64_int [of 0] by simp
  then show "0 \<le> \<lceil>roundF64 (A - B)\<rceil>" by simp
  have "A \<le> 2 * V" using A qr q0 q2 V unfolding abs_le_iff by linarith
  then show "\<bar>A\<bar> \<le> 2 * of_int v" using AB B0 by (simp add: V_def)
  have "roundF64 (A - B) \<le> 4 * V" 
  proof -
    have "(A - B) / 2 ^ 53 \<le> A - B" using AB by simp
    then show ?thesis using D \<open>A \<le> 2 * V\<close> B0 unfolding abs_le_iff by linarith
  qed
  then have "roundF64 (A - B) \<le> of_int (4 * v)" by (simp add: V_def)
  then show "\<lceil>roundF64 (A - B)\<rceil> \<le> 4 * v" by (simp only: ceiling_le_iff)
qed

lemma js_min_int_le: "js_min x (js_int t) = js_int n \<Longrightarrow> n \<le> t"
  by (cases x) (auto simp: js_min_def js_int_def split: if_splits)

lemma num_adjusted_le:
  "getNumAdjustedTxsPerRollup fc a t = Inr (js_int n) \<Longrightarrow> n \<le> fc_txsPerRollup fc"
  by (auto simp: getNumAdjustedTxsPerRollup_def bindE_eq_Inr Let_def dest: js_min_int_le)

text \<open>A configuration at which the properties are instantiated: one asset (ETH), a gas price of 30 gwei.\<close>

definition sampleFees :: feeCalculator where
  "sampleFees = \<lparr>fc_priceTracker = \<lparr>pt_assetIds = [0], pt_refreshInterval = 300000, pt_numHistoricalPrices = js_int 2,
       pt_prices = [\<lparr>pr_gasPrice = 30000000000, pr_assetPrices = [0 \<mapsto> 10 ^ 18], pr_timestamp = 1000\<rparr>]\<rparr>,
     fc_assets = [\<lparr>ba_address = EthAddress_ZERO, ba_decimals = 18, ba_symbol = ''ETH'', ba_name = ''Eth'', ba_gasLimit = 30000\<rparr>],
     fc_verificationGas = 500000, fc_maxFeeGasPrice = 0, fc_feeGasPriceMultiplier = 1, fc_txsPerRollup = 28,
     fc_callDataPerRollup = 120000, fc_gasPerRollup = 12000000, fc_numSignificantFigures = 2, fc_exitOnly = False\<rparr>"

lemmas sample_simps = sampleFees_def getGasOverheadForTxType_def isValidAsset_def fc_getAsset_def getUnadjustedTxGas_def
  getUnadjustedBaseVerificationGas_def js_ceil_div js_floor_div getMaxTxCallData_eq allTxTypes_def
  getWithdrawHighGas_def getWithdrawToWalletGas_def OffchainJoinSplitData_SIZE_def OffchainAccountData_SIZE_def
  OffchainDefiDepositData_SIZE_def OffchainDefiClaimData_SIZE_def Let_def

lemma sample_max_gas: "getMaxUnadjustedGas sampleFees = Inr (js_int 65490)"
  by (simp add: getMaxUnadjustedGas_def sample_simps)

lemma sample_num_adjusted: "getNumAdjustedTxsPerRollup sampleFees 0 TX_DEFI_DEPOSIT = Inr (js_int 28)"
  unfolding getNumAdjustedTxsPerRollup_def sample_max_gas by (simp add: sample_simps)

lemma sample_multiplier: "scaledMultiplier sampleFees = Inr 100000000"
  using js_toBigInt_int [of 100000000] roundF64_int [of 100000000] by (simp add: scaledMultiplier_def sampleFees_def js_int_def)

section \<open>Properties\<close>

text \<open>The verification gas of a rollup is paid by as many transactions of one type as are expected to
  fit: the adjusted base gas each of them is charged, computed with floating-point divisions, a
  floating-point difference and two ceilings, covers it when multiplied by their number.\<close>

theorem adjusted_base_gas_covers_verification:
  assumes "getNumAdjustedTxsPerRollup fc a t = Inr (js_int n)" "0 < n"
    and "0 \<le> fc_verificationGas fc" "fc_verificationGas fc < 2 ^ 50"
  shows "\<exists>base. getAdjustedBaseVerificationGas fc a t = Inr (js_int base) \<and> fc_verificationGas fc \<le> n * base"
proof -
  let ?v = "fc_verificationGas fc" and ?t = "fc_txsPerRollup fc"
  let ?A = "roundF64 (of_int ?v / of_int n)" and ?B = "roundF64 (of_int ?v / of_int ?t)"
  have nt: "n \<le> ?t" by (rule num_adjusted_le [OF assms(1)])
  note ar = adjusted_arith [OF assms(3,4,2) nt]
  have "0 \<le> \<lceil>?B\<rceil> + \<lceil>roundF64 (?A - ?B)\<rceil>" "\<lceil>?B\<rceil> + \<lceil>roundF64 (?A - ?B)\<rceil> \<le> 5 * ?v" using ar(2-5) by linarith+
  then have "\<bar>\<lceil>?B\<rceil> + \<lceil>roundF64 (?A - ?B)\<rceil>\<bar> < 2 ^ 53" using assms(4) by simp
  then have "getAdjustedBaseVerificationGas fc a t = Inr (js_int (\<lceil>?B\<rceil> + \<lceil>roundF64 (?A - ?B)\<rceil>))"
    using assms(1,2) nt
    by (simp add: getAdjustedBaseVerificationGas_def getTxGasAdjustmentValue_def Let_def
        getUnadjustedBaseVerificationGas_def js_sub_def js_int_def [of ?v] js_int_def [of ?t] js_int_def [of n])
  then show ?thesis using ar(1) by blast
qed

theorem adjusted_base_gas_covers_verification_witness:
  "\<exists>base. getAdjustedBaseVerificationGas sampleFees 0 TX_DEFI_DEPOSIT = Inr (js_int base) \<and> 500000 \<le> 28 * base"
  using adjusted_base_gas_covers_verification [OF sample_num_adjusted] by (simp add: sampleFees_def)

text \<open>C32: A user who pays exactly the fee quoted for an amount of gas is credited with at least that gas
  less one unit, as long as the gas price cap does not bite and one unit of the asset is worth no
  more than its scaled gas price; the lower of the recent gas prices is used to credit him.\<close>

theorem quoted_fee_pays_for_gas:
  assumes "scaledMultiplier fc = Inr M" "0 \<le> M" "uncapped now fc M"
    and "fc_getAsset fc a = Inr asset" "0 < pt_getAssetPrice now a 0 (fc_priceTracker fc)"
    and "0 < pt_getGasPrice now 0 (fc_priceTracker fc)"
    and "0 < pt_getMinGasPrice (fc_priceTracker fc) * M div 10 ^ 8"
    and "pt_getAssetPrice now a 0 (fc_priceTracker fc)
      \<le> (pt_getMinGasPrice (fc_priceTracker fc) * M div 10 ^ 8) * 10 ^ nat (ba_decimals asset)"
    and "0 \<le> gas" "getTxFeeFromGas now fc a (js_int gas) = Inr fee" "0 \<le> fc_numSignificantFigures fc"
  shows "\<exists>paid. getGasPaidForByFee now fc a fee = Inr (Num (roundF64 (of_int paid))) \<and> gas - 1 \<le> paid"
  by (rule quote_pays [OF assms(1-6) refl assms(7-11)])

theorem quoted_fee_pays_for_gas_witness:
  "\<exists>fee paid. getTxFeeFromGas 2000 sampleFees 0 (js_int 65490) = Inr fee
     \<and> getGasPaidForByFee 2000 sampleFees 0 fee = Inr (Num (roundF64 (of_int paid))) \<and> 65489 \<le> paid"
proof -
  have p: "pt_getAssetPrice 2000 0 0 (fc_priceTracker sampleFees) = 10 ^ 18"
    "pt_getGasPrice 2000 0 (fc_priceTracker sampleFees) = 30000000000"
    "pt_getMinGasPrice (fc_priceTracker sampleFees) = 30000000000"
    by (simp_all add: sampleFees_def pt_getAssetPrice_def pt_getGasPrice_def pt_getMinGasPrice_def)
  have u: "uncapped 2000 sampleFees 100000000" by (simp add: uncapped_def sampleFees_def)
  have a: "fc_getAsset sampleFees 0 = Inr (fc_assets sampleFees ! 0)" by (simp add: sample_simps)
  have "applyGasPrice 2000 sampleFees (65490 * 10 ^ 18) False = Inr (65490 * 10 ^ 18 * 30000000000 * 100000000 div 10 ^ 8)"
    using applyGasPrice_uncapped [OF sample_multiplier u, of "65490 * 10 ^ 18"] by (simp add: p)
  then obtain fee where f: "getTxFeeFromGas 2000 sampleFees 0 (js_int 65490) = Inr fee"
    using roundUp_total [of 2] p by (simp add: getTxFeeFromGas_def toAssetPrice_def sample_simps scaleFactor_def bigDiv_def)
      blast
  from quoted_fee_pays_for_gas [OF sample_multiplier _ u a _ _ _ _ _ f] f show ?thesis
    by (simp add: p) (simp add: sampleFees_def)
qed

text \<open>\<open>roundUp\<close> gives the least multiple of the power of ten that leaves the requested number of
  leading digits, so a quote is never below the cost and exceeds it by less than one unit of its
  last significant digit: \<open>(r - v) * 10^(s - 1) \<le> v\<close>.\<close>

theorem roundUp_least_multiple:
  assumes "0 \<le> v" "0 < s"
  shows "\<exists>r. roundUp v s = Inr r \<and> v \<le> r \<and> 10 ^ nat (max 0 (numDigits v - s)) dvd r
    \<and> (\<forall>m. v \<le> m \<and> 10 ^ nat (max 0 (numDigits v - s)) dvd m \<longrightarrow> r \<le> m)
    \<and> (r - v) * 10 ^ nat (s - 1) \<le> v"
proof -
  let ?e = "10 ^ nat (max 0 (numDigits v - s)) :: int"
  obtain r where r: "roundUp v s = Inr r" using roundUp_total [of s v] assms(2) by auto
  have e: "r = v + (- v) mod ?e" by (rule roundUp_exact [OF assms r])
  have "r = - (?e * ((- v) div ?e))" using e mult_div_mod_eq [of ?e "- v"] by linarith
  then have q: "r = ?e * - ((- v) div ?e)" by simp
  have "r \<le> m" if m: "v \<le> m" "?e dvd m" for m
  proof -
    from m(2) obtain k where k: "m = ?e * k" by (auto simp: dvd_def)
    have "?e * - k \<le> - v" using m(1) k by simp
    then have "- k \<le> (- v) div ?e" by (rule le_divI [rotated]) simp
    then have "- ((- v) div ?e) \<le> k" by simp
    then show ?thesis unfolding q k by (rule mult_left_mono) simp
  qed
  then show ?thesis using r roundUp_bounds [OF assms(1) _ r] roundUp_relative [OF assms r] assms(2) q by auto
qed

theorem roundUp_least_multiple_witness: "\<exists>r. roundUp 12345 2 = Inr r \<and> 12345 \<le> r \<and> 1000 dvd r \<and> r \<le> 13000"
proof -
  have d: "numDigits 12345 = 5" by (simp add: numDigits_def numDecimalDigits.simps)
  from roundUp_least_multiple [of 12345 2] obtain r where "roundUp 12345 2 = Inr r" "12345 \<le> r" "1000 dvd r"
    "\<forall>m. 12345 \<le> m \<and> 1000 dvd m \<longrightarrow> r \<le> m" by (auto simp: d)
  then show ?thesis by (intro exI [of _ r]) simp
qed

text \<open>Whatever the price feeds answer, the tracker keeps at most one record more than its historical
  count; the price it reports as current was recorded no later than asked for, and its minimum is a
  recorded price not above any other.\<close>

theorem price_tracker_window:
  assumes "pt_numHistoricalPrices t = js_int n" "0 \<le> n" "pt_prices t = []" "recordAll answers t = t'"
  shows "length (pt_prices t') \<le> nat n + 1
    \<and> (\<forall>p\<in>set (pt_prices t'). pt_getMinGasPrice t' \<le> pr_gasPrice p)
    \<and> (pt_getGasPrice now ms t' \<noteq> 0 \<longrightarrow>
      (\<exists>p\<in>set (pt_prices t'). pr_gasPrice p = pt_getGasPrice now ms t' \<and> pr_timestamp p \<le> now - ms))"
proof -
  have "length (pt_prices (recordAll answers t)) \<le> nat n + 1 \<and> pt_numHistoricalPrices (recordAll answers t) = js_int n"
  proof (induction answers rule: rev_induct)
    case (snoc a as)
    then show ?case
      by (cases a) (simp add: recordAll_def recordPrices_length [OF _ assms(2), simplified])
  qed (simp add: assms recordAll_def)
  then show ?thesis using min_gas_price(1) gas_price_recorded [OF refl] assms(4) by auto
qed

theorem price_tracker_window_witness:
  "length (pt_prices (recordAll [(5, [7], 10), (4, [8], 20), (6, [9], 30), (7, [9], 40)] (newPriceTracker [0] 10 20))) \<le> 3"
  using price_tracker_window [of "newPriceTracker [0] 10 20" 2 "[(5, [7], 10), (4, [8], 20), (6, [9], 30), (7, [9], 40)]", OF _ _ _ refl]
  by (simp add: newPriceTracker_def js_ceil_div)

text \<open>A fee multiplier of 1.1 (the binary64 number nearest to it) makes both fee directions throw:
  multiplied by \<open>10 ** 8\<close> it is not an integer, and \<open>BigInt\<close> refuses it.\<close>

theorem fee_multiplier_1_1_throws:
  fixes fc :: feeCalculator
  defines "fc' \<equiv> fc\<lparr>fc_feeGasPriceMultiplier := 2476979795053773 / 2 ^ 51\<rparr>"
  shows "getGasPaidForByFee now fc' a fee = Inl RangeError \<and> applyGasPrice now fc' v minPrice = Inl RangeError"
proof -
  let ?q = "2476979795053773 / 2 ^ 51 * 10 ^ 8 :: rat"
  have b: "binade ?q = 27" by (rule binade_unique) simp_all
  have f: "\<lfloor>967570232442880078125 / 131072 :: rat\<rfloor> = 7381975040000000" by (rule floor_unique) simp_all
  have r: "roundF64 ?q = 7381975040000001 / 67108864"
    by (simp add: roundF64_def roundPos_def b [simplified] roundHalfEven_def Let_def f)
  have g: "\<lfloor>7381975040000001 / 67108864 :: rat\<rfloor> = 110000000" by (rule floor_unique) simp_all
  have "js_mul_num (Num (fc_feeGasPriceMultiplier fc')) (js_int (10 ^ 8)) = Num (7381975040000001 / 67108864)"
    using r by (simp add: js_int_def fc'_def del: divide_eq_eq_numeral eq_divide_eq_numeral)
  moreover have "js_toBigInt (Num (7381975040000001 / 67108864)) = Inl RangeError"
    unfolding js_toBigInt.simps g by simp
  ultimately have "scaledMultiplier fc' = Inl RangeError" unfolding scaledMultiplier_def by (rule ssubst)
  then show ?thesis by (simp add: getGasPaidForByFee_def applyGasPrice_def Let_def)
qed

end
