(* ===== verification/Bridges.thy ===== *)
theory Bridges
  imports Fees BridgeCall
begin

text \<open>
  \<open>falafel/src/bridge\<close>: the bridge configurations a rollup provider supports (\<open>BridgeResolver\<close>) and the
  allocation of bridge subsidies (\<open>BridgeSubsidyProvider\<close>), and the facade over fees and bridges that the rest of
  the provider uses (\<open>tx_fee_resolver/index.ts\<close>). The answers of the blockchain are arguments.
\<close>

section \<open>BridgeResolver\<close>

record bridgeConfig =
  bcf_bridgeAddressId :: int
  bcf_numTxs :: int
  bcf_gas :: "int option"
  bcf_permittedAssets :: "int list"

record bridgeSubsidy =
  bsu_addressId :: int
  bsu_criteria :: int
  bsu_subsidyInWei :: int
  bsu_subsidyInGas :: int

record bridgeResolver =
  br_bridgeConfigs :: "bridgeConfig list"
  br_getBridgeGas :: "int \<Rightarrow> int"
  br_disableBridgeSubsidy :: bool

definition bridgeAssets :: "bridgeCallData \<Rightarrow> int list" where
  "bridgeAssets b =
     filter (\<lambda>asset. \<not> isVirtualAsset asset)
       (map the (filter (\<lambda>asset. asset \<noteq> None)
         [Some (bcd_inputAssetIdA b), bcd_inputAssetIdB b, Some (bcd_outputAssetIdA b), bcd_outputAssetIdB b]))"

definition getBridgeConfig :: "bridgeResolver \<Rightarrow> int \<Rightarrow> bridgeConfig option res" where
  "getBridgeConfig r bridgeCallData =
     mapR (\<lambda>complete. find (\<lambda>bc. bcd_bridgeAddressId complete = bcf_bridgeAddressId bc
         \<and> list_all (\<lambda>asset. asset \<in> set (bcf_permittedAssets bc)) (bridgeAssets complete)) (br_bridgeConfigs r))
       (BridgeCallData_fromBigInt bridgeCallData)"

text \<open>\<open>chain\<close> is what the data provider contract answers.\<close>

definition br_getBridgeSubsidy :: "bridgeResolver \<Rightarrow> (int \<Rightarrow> bridgeSubsidy) \<Rightarrow> int \<Rightarrow> bridgeSubsidy option" where
  "br_getBridgeSubsidy r chain bridgeCallData = (if br_disableBridgeSubsidy r then None else Some (chain bridgeCallData))"

definition getFullBridgeGasFromContract :: "bridgeResolver \<Rightarrow> int \<Rightarrow> int" where
  "getFullBridgeGasFromContract r bridgeCallData = br_getBridgeGas r bridgeCallData"

definition getFullBridgeGas :: "bridgeResolver \<Rightarrow> int \<Rightarrow> int res" where
  "getFullBridgeGas r bridgeCallData =
     bindE (getBridgeConfig r bridgeCallData) (\<lambda>bridgeConfig.
     case bridgeConfig of None \<Rightarrow> Inl (Thrown ''Failed to retrieve bridge cost for bridge'')
     | Some bc \<Rightarrow> Inr (case bcf_gas bc of None \<Rightarrow> getFullBridgeGasFromContract r bridgeCallData | Some gas \<Rightarrow> gas))"

definition setConf :: "bridgeConfig list \<Rightarrow> bridgeResolver \<Rightarrow> bridgeResolver" where
  "setConf bridgeConfigs r = r\<lparr>br_bridgeConfigs := bridgeConfigs\<rparr>"

definition getMinBridgeTxGas :: "bridgeResolver \<Rightarrow> int \<Rightarrow> jsnum res" where
  "getMinBridgeTxGas r bridgeCallData =
     bindE (getBridgeConfig r bridgeCallData) (\<lambda>bridgeConfig.
     case bridgeConfig of None \<Rightarrow> Inl (Thrown ''Cannot get gas. Unrecognised DeFi-bridge'')
     | Some bc \<Rightarrow> mapR (\<lambda>bridgeGas. js_ceil (js_div (js_int bridgeGas) (js_int (bcf_numTxs bc))))
                    (getFullBridgeGas r bridgeCallData))"

section \<open>BridgeSubsidyProvider\<close>

record bridgeCriteria =
  bcr_bridgeAddressId :: int
  bcr_criteria :: int

fun natString :: "nat \<Rightarrow> string" where
  "natString n = (if n < 10 then [char_of (48 + n)] else natString (n div 10) @ [char_of (48 + n mod 10)])"

declare natString.simps [simp del]

definition intString :: "int \<Rightarrow> string" where
  "intString n = (if n < 0 then ''-'' @ natString (nat (- n)) else natString (nat n))"

definition bridgeCriteriaToString :: "bridgeCriteria \<Rightarrow> string" where
  "bridgeCriteriaToString c = intString (bcr_bridgeAddressId c) @ '' - '' @ intString (bcr_criteria c)"

record bridgeSubsidyProvider =
  bsp_bridgeCriteriaMap :: "string \<rightharpoonup> bridgeCriteria"
  bsp_cache :: "string \<rightharpoonup> int"
  bsp_claimed :: "int list"

definition newBridgeSubsidyProvider :: bridgeSubsidyProvider where
  "newBridgeSubsidyProvider = \<lparr>bsp_bridgeCriteriaMap = Map.empty, bsp_cache = Map.empty, bsp_claimed = []\<rparr>"

definition callDataKey :: "int \<Rightarrow> string res" where
  "callDataKey bridgeCallData = mapR BridgeCallData_toString (BridgeCallData_fromBigInt bridgeCallData)"

text \<open>The loop over the claimed calls; the criteria of a call that has none are \<open>undefined\<close>.\<close>

fun criteriaClaimed :: "(string \<rightharpoonup> bridgeCriteria) \<Rightarrow> bridgeCriteria \<Rightarrow> int list \<Rightarrow> bool res" where
  "criteriaClaimed criteriaMap c [] = Inr False"
| "criteriaClaimed criteriaMap c (claimedBridge # claimed) =
     bindE (callDataKey claimedBridge) (\<lambda>key.
     case criteriaMap key of None \<Rightarrow> Inl TypeError
     | Some bc \<Rightarrow> if bcr_bridgeAddressId bc = bcr_bridgeAddressId c \<and> bcr_criteria bc = bcr_criteria c then Inr True
                   else criteriaClaimed criteriaMap c claimed)"

definition bridgeSubsidyAlreadyClaimed :: "bridgeSubsidyProvider \<Rightarrow> bridgeCriteria \<Rightarrow> bool res" where
  "bridgeSubsidyAlreadyClaimed p c = criteriaClaimed (bsp_bridgeCriteriaMap p) c (bsp_claimed p)"

text \<open>\<open>answer\<close> is what the bridge resolver returns when it is asked.\<close>

definition bsp_getBridgeSubsidy ::
    "bridgeSubsidy option \<Rightarrow> int \<Rightarrow> bridgeSubsidyProvider \<Rightarrow> (int \<times> bridgeSubsidyProvider) res" where
  "bsp_getBridgeSubsidy answer bridgeCallData p =
     bindE (callDataKey bridgeCallData) (\<lambda>key.
     case (case bsp_bridgeCriteriaMap p key of
             Some c \<Rightarrow> Some (c, p)
           | None \<Rightarrow> (case answer of None \<Rightarrow> None
               | Some s \<Rightarrow> let c = \<lparr>bcr_bridgeAddressId = bsu_addressId s, bcr_criteria = bsu_criteria s\<rparr>
                   in Some (c, p\<lparr>bsp_bridgeCriteriaMap := (bsp_bridgeCriteriaMap p)(key \<mapsto> c)\<rparr>)))
     of None \<Rightarrow> Inr (0, p)
     | Some (c, p) \<Rightarrow>
         let mapKey = bridgeCriteriaToString c in
         case (case bsp_cache p mapKey of
                 Some v \<Rightarrow> Some (v, p)
               | None \<Rightarrow> (case answer of None \<Rightarrow> None
                   | Some s \<Rightarrow> Some (bsu_subsidyInGas s, p\<lparr>bsp_cache := (bsp_cache p)(mapKey \<mapsto> bsu_subsidyInGas s)\<rparr>)))
         of None \<Rightarrow> Inr (0, p)
         | Some (v, p) \<Rightarrow> mapR (\<lambda>claimed. (if claimed then 0 else v, p)) (bridgeSubsidyAlreadyClaimed p c))"

definition claimBridgeSubsidy :: "int \<Rightarrow> bridgeSubsidyProvider \<Rightarrow> (bool \<times> bridgeSubsidyProvider) res" where
  "claimBridgeSubsidy bridgeCallData p =
     bindE (callDataKey bridgeCallData) (\<lambda>key.
     case bsp_bridgeCriteriaMap p key of None \<Rightarrow> Inr (False, p)
     | Some c \<Rightarrow>
         bindE (bridgeSubsidyAlreadyClaimed p c) (\<lambda>already.
         if already \<and> bridgeCallData \<notin> set (bsp_claimed p) then Inr (False, p)
         else Inr (True, p\<lparr>bsp_claimed := List.insert bridgeCallData (bsp_claimed p)\<rparr>)))"

definition getClaimedSubsidy :: "bridgeSubsidyProvider \<Rightarrow> int \<Rightarrow> int res" where
  "getClaimedSubsidy p bridgeCallData =
    (if bridgeCallData \<notin> set (bsp_claimed p) then Inr 0
     else mapR (\<lambda>key. case bsp_bridgeCriteriaMap p key of None \<Rightarrow> 0
        | Some c \<Rightarrow> (case bsp_cache p (bridgeCriteriaToString c) of None \<Rightarrow> 0 | Some v \<Rightarrow> v)) (callDataKey bridgeCallData))"

section \<open>TxFeeResolver\<close>

record txFeeResolver =
  fr_feeCalculator :: feeCalculator
  fr_bridgeResolver :: bridgeResolver
  fr_txsPerRollup :: int
  fr_feePayingAssetIds :: "int list"
  fr_exitOnly :: bool

definition defaultFeePayingAsset :: int where
  "defaultFeePayingAsset = 0"

definition isFeePayingAsset :: "txFeeResolver \<Rightarrow> int \<Rightarrow> bool" where
  "isFeePayingAsset r assetId = (\<exists>id\<in>set (fr_feePayingAssetIds r). id = assetId)"

definition fr_getUnadjustedTxGas :: "txFeeResolver \<Rightarrow> int \<Rightarrow> txType \<Rightarrow> jsnum res" where
  "fr_getUnadjustedTxGas r txAssetId t = getUnadjustedTxGas (fr_feeCalculator r) txAssetId t"

definition fr_getAdjustedTxGas :: "txFeeResolver \<Rightarrow> int \<Rightarrow> txType \<Rightarrow> jsnum res" where
  "fr_getAdjustedTxGas r txAssetId t = getAdjustedTxGas (fr_feeCalculator r) txAssetId t"

definition fr_getUnadjustedBaseVerificationGas :: "txFeeResolver \<Rightarrow> jsnum" where
  "fr_getUnadjustedBaseVerificationGas r = getUnadjustedBaseVerificationGas (fr_feeCalculator r)"

definition fr_getFullBridgeGas :: "txFeeResolver \<Rightarrow> int \<Rightarrow> int res" where
  "fr_getFullBridgeGas r bridgeCallData = getFullBridgeGas (fr_bridgeResolver r) bridgeCallData"

definition fr_getFullBridgeGasFromContract :: "txFeeResolver \<Rightarrow> int \<Rightarrow> int" where
  "fr_getFullBridgeGasFromContract r bridgeCallData = getFullBridgeGasFromContract (fr_bridgeResolver r) bridgeCallData"

definition getSingleBridgeTxGas :: "txFeeResolver \<Rightarrow> int \<Rightarrow> jsnum res" where
  "getSingleBridgeTxGas r bridgeCallData = getMinBridgeTxGas (fr_bridgeResolver r) bridgeCallData"

definition getAdjustedBridgeTxGas :: "txFeeResolver \<Rightarrow> int \<Rightarrow> int \<Rightarrow> jsnum res" where
  "getAdjustedBridgeTxGas r txAssetId bridgeCallData =
     bindE (fr_getAdjustedTxGas r txAssetId TX_DEFI_DEPOSIT) (\<lambda>gas.
       mapR (js_add gas) (getSingleBridgeTxGas r bridgeCallData))"

definition getUnadjustedBridgeTxGas :: "txFeeResolver \<Rightarrow> int \<Rightarrow> int \<Rightarrow> jsnum res" where
  "getUnadjustedBridgeTxGas r txAssetId bridgeCallData =
     bindE (fr_getUnadjustedTxGas r txAssetId TX_DEFI_DEPOSIT) (\<lambda>gas.
       mapR (js_add gas) (getSingleBridgeTxGas r bridgeCallData))"

definition fr_getTxFees :: "int \<Rightarrow> txFeeResolver \<Rightarrow> int \<Rightarrow> (int \<times> int) list list res" where
  "fr_getTxFees now r txAssetId =
    (let feePayingAsset = (if isFeePayingAsset r txAssetId then txAssetId else defaultFeePayingAsset)
     in getTxFees now (fr_feeCalculator r) txAssetId feePayingAsset)"

definition getDefiFees :: "int \<Rightarrow> txFeeResolver \<Rightarrow> int \<Rightarrow> (int \<times> int) list res" where
  "getDefiFees now r bridgeCallData =
     bindE (BridgeCallData_fromBigInt bridgeCallData) (\<lambda>bcd.
     let inputAssetId = bcd_inputAssetIdA bcd;
         feeAssetId = (if isFeePayingAsset r inputAssetId then inputAssetId else defaultFeePayingAsset) in
     bindE (getSingleBridgeTxGas r bridgeCallData) (\<lambda>singleBridgeTxGas.
     bindE (fr_getFullBridgeGas r bridgeCallData) (\<lambda>fullBridgeTxGas.
     let emptySlotGas = fr_getUnadjustedBaseVerificationGas r in
     bindE (fr_getAdjustedTxGas r inputAssetId TX_DEFI_DEPOSIT) (\<lambda>defiDepositGas.
     bindE (fr_getAdjustedTxGas r inputAssetId TX_DEFI_CLAIM) (\<lambda>defiClaimGas.
     let slowTxGas = js_add (js_add defiDepositGas defiClaimGas) singleBridgeTxGas;
         fastTxGas = js_add (js_add defiDepositGas defiClaimGas) (js_int fullBridgeTxGas);
         immediateTxGas = js_add fastTxGas (js_mul_num emptySlotGas (js_int (fr_txsPerRollup r - 1))) in
     bindE (if fr_exitOnly r then Inr 0 else getTxFeeFromGas now (fr_feeCalculator r) feeAssetId slowTxGas) (\<lambda>slow.
     bindE (getTxFeeFromGas now (fr_feeCalculator r) feeAssetId fastTxGas) (\<lambda>fast.
     bindE (getTxFeeFromGas now (fr_feeCalculator r) feeAssetId immediateTxGas) (\<lambda>immediate.
     Inr [(feeAssetId, slow), (feeAssetId, fast), (feeAssetId, immediate)]))))))))"

section \<open>Subsidies: reachable states\<close>

inductive subsidy_step :: "bridgeSubsidyProvider \<Rightarrow> bridgeSubsidyProvider \<Rightarrow> bool" where
  query: "bsp_getBridgeSubsidy answer b p = Inr (v, p') \<Longrightarrow> subsidy_step p p'"
| claim: "claimBridgeSubsidy b p = Inr (r, p') \<Longrightarrow> subsidy_step p p'"

inductive subsidy_reachable :: "bridgeSubsidyProvider \<Rightarrow> bool" where
  new: "subsidy_reachable newBridgeSubsidyProvider"
| step: "subsidy_reachable p \<Longrightarrow> subsidy_step p p' \<Longrightarrow> subsidy_reachable p'"

inductive_cases subsidy_stepE: "subsidy_step p p'"

text \<open>The criteria of a call, once known.\<close>

definition criteriaOf :: "bridgeSubsidyProvider \<Rightarrow> int \<Rightarrow> bridgeCriteria option" where
  "criteriaOf p b = (case callDataKey b of Inl _ \<Rightarrow> None | Inr key \<Rightarrow> bsp_bridgeCriteriaMap p key)"

definition subsidy_inv :: "bridgeSubsidyProvider \<Rightarrow> bool" where
  "subsidy_inv p \<longleftrightarrow> (\<forall>b\<in>set (bsp_claimed p). criteriaOf p b \<noteq> None) \<and> inj_on (criteriaOf p) (set (bsp_claimed p))"

lemma criteria_eqI:
  "bcr_bridgeAddressId a = bcr_bridgeAddressId b \<Longrightarrow> bcr_criteria a = bcr_criteria b \<Longrightarrow> a = (b :: bridgeCriteria)"
  by (cases a; cases b) simp

lemma criteriaClaimed_iff:
  assumes "\<forall>b\<in>set bs. criteriaOf p b \<noteq> None"
  shows "criteriaClaimed (bsp_bridgeCriteriaMap p) c bs = Inr (\<exists>b\<in>set bs. criteriaOf p b = Some c)"
  using assms
proof (induction bs)
  case (Cons b bs)
  then obtain key bc where "callDataKey b = Inr key" "bsp_bridgeCriteriaMap p key = Some bc"
    by (auto simp: criteriaOf_def split: sum.splits)
  with Cons show ?case by (auto simp: criteriaOf_def intro: criteria_eqI)
qed simp

lemma alreadyClaimed_iff:
  "subsidy_inv p \<Longrightarrow> bridgeSubsidyAlreadyClaimed p c = Inr (\<exists>b\<in>set (bsp_claimed p). criteriaOf p b = Some c)"
  unfolding bridgeSubsidyAlreadyClaimed_def by (rule criteriaClaimed_iff) (simp add: subsidy_inv_def)

text \<open>A query adds criteria and cached subsidies, never changes known ones, and claims nothing.\<close>

lemma query_extends:
  assumes "bsp_getBridgeSubsidy answer b p = Inr (v, p')"
  shows "bsp_bridgeCriteriaMap p \<subseteq>\<^sub>m bsp_bridgeCriteriaMap p' \<and> bsp_claimed p' = bsp_claimed p"
  using assms unfolding bsp_getBridgeSubsidy_def
  by (auto simp: bindE_eq_Inr mapR_eq_Inr Let_def map_le_def split: option.splits if_splits)

lemma criteriaOf_mono:
  "bsp_bridgeCriteriaMap p \<subseteq>\<^sub>m bsp_bridgeCriteriaMap p' \<Longrightarrow> criteriaOf p b = Some c \<Longrightarrow> criteriaOf p' b = Some c"
  by (auto simp: criteriaOf_def map_le_def dom_def split: sum.splits)

lemma subsidy_inv_extends:
  assumes "subsidy_inv p" "bsp_bridgeCriteriaMap p \<subseteq>\<^sub>m bsp_bridgeCriteriaMap p'" "bsp_claimed p' = bsp_claimed p"
  shows "subsidy_inv p'"
proof -
  have "criteriaOf p' b = criteriaOf p b" if "b \<in> set (bsp_claimed p)" for b
    using that assms(1) criteriaOf_mono [OF assms(2)] by (auto simp: subsidy_inv_def)
  then show ?thesis using assms(1,3) by (auto simp: subsidy_inv_def inj_on_def)
qed

lemma subsidy_inv_claim:
  assumes "subsidy_inv p" "claimBridgeSubsidy b p = Inr (r, p')"
  shows "subsidy_inv p'"
proof -
  from assms(2) obtain key where key: "callDataKey b = Inr key" by (auto simp: claimBridgeSubsidy_def bindE_eq_Inr)
  show ?thesis
  proof (cases "bsp_bridgeCriteriaMap p key")
    case None
    then show ?thesis using assms key by (simp add: claimBridgeSubsidy_def)
  next
    case (Some c)
    then have c: "criteriaOf p b = Some c" using key by (simp add: criteriaOf_def)
    have e: "criteriaOf (p\<lparr>bsp_claimed := xs\<rparr>) = criteriaOf p" for xs by (rule ext) (simp add: criteriaOf_def split: sum.split)
    have "p' = p \<or> p' = p\<lparr>bsp_claimed := List.insert b (bsp_claimed p)\<rparr> \<and>
        (b \<in> set (bsp_claimed p) \<or> (\<forall>b'\<in>set (bsp_claimed p). criteriaOf p b' \<noteq> Some c))"
      using assms key Some by (auto simp: claimBridgeSubsidy_def alreadyClaimed_iff split: if_splits)
    then show ?thesis
    proof (elim disjE conjE)
      assume p': "p' = p\<lparr>bsp_claimed := List.insert b (bsp_claimed p)\<rparr>"
        and new: "\<forall>b'\<in>set (bsp_claimed p). criteriaOf p b' \<noteq> Some c"
      have "criteriaOf p b \<notin> criteriaOf p ` set (bsp_claimed p)" using new c by auto
      then show ?thesis using assms(1) c by (auto simp: subsidy_inv_def p' e)
    next
      assume "p' = p\<lparr>bsp_claimed := List.insert b (bsp_claimed p)\<rparr>" "b \<in> set (bsp_claimed p)"
      then show ?thesis using assms(1) by (simp add: subsidy_inv_def e)
    qed (use assms(1) in simp)
  qed
qed

lemma subsidy_reachable_inv: "subsidy_reachable p \<Longrightarrow> subsidy_inv p"
proof (induction rule: subsidy_reachable.induct)
  case (step p p')
  from step.hyps(2) show ?case
    by (rule subsidy_stepE) (use step.IH query_extends subsidy_inv_extends subsidy_inv_claim in blast)+
qed (simp add: subsidy_inv_def newBridgeSubsidyProvider_def)

text \<open>A query that returns a subsidy found the criteria and saw that they are not claimed.\<close>

lemma subsidy_granted:
  assumes "bsp_getBridgeSubsidy answer b p = Inr (v, p')" "v \<noteq> 0"
  obtains c where "criteriaOf p' b = Some c" "bridgeSubsidyAlreadyClaimed p' c = Inr False"
    "bsp_cache p' (bridgeCriteriaToString c) = Some v"
  using assms that unfolding bsp_getBridgeSubsidy_def
  by (auto simp: bindE_eq_Inr mapR_eq_Inr Let_def criteriaOf_def bridgeSubsidyAlreadyClaimed_def split: option.splits if_splits)

section \<open>Properties\<close>

text \<open>C35: Whatever sequence of subsidy queries and claims was served, with any answers of the subsidy
  contract, a subsidy is allocated once: no two claimed bridge calls share their criteria, a query
  that returns a subsidy, the first one of a bridge call included, is for criteria that nobody has claimed, and the
  look-up of claimed criteria never hits a call without criteria.\<close>

theorem subsidy_claimed_once:
  assumes "subsidy_reachable p"
  shows "(\<forall>b\<in>set (bsp_claimed p). \<forall>b'\<in>set (bsp_claimed p). criteriaOf p b = criteriaOf p b' \<longrightarrow> b = b')
    \<and> isOk (bridgeSubsidyAlreadyClaimed p c)
    \<and> (\<forall>b0 answer v p'. bsp_getBridgeSubsidy answer b0 p = Inr (v, p') \<and> v \<noteq> 0 \<longrightarrow>
         criteriaOf p' b0 \<noteq> None \<and> (\<forall>b\<in>set (bsp_claimed p). criteriaOf p b \<noteq> criteriaOf p' b0))"
proof -
  note inv = subsidy_reachable_inv [OF assms]
  have "criteriaOf p' b0 \<noteq> None \<and> (\<forall>b\<in>set (bsp_claimed p). criteriaOf p b \<noteq> criteriaOf p' b0)"
    if q: "bsp_getBridgeSubsidy answer b0 p = Inr (v, p')" and v: "v \<noteq> 0" for b0 answer v p'
  proof -
    note x = query_extends [OF q]
    obtain k where k: "criteriaOf p' b0 = Some k" "bridgeSubsidyAlreadyClaimed p' k = Inr False" by (rule subsidy_granted [OF q v]) 
    have "criteriaOf p b \<noteq> Some k" if "b \<in> set (bsp_claimed p)" for b
      using alreadyClaimed_iff [OF subsidy_inv_extends [OF inv conjunct1 [OF x] conjunct2 [OF x]], of k] k(2) that x
        criteriaOf_mono [OF conjunct1 [OF x], of b k] by auto
    then show ?thesis using k(1) by auto
  qed
  then show ?thesis using inv alreadyClaimed_iff [OF inv, of c] by (auto simp: subsidy_inv_def inj_on_def)
qed

text \<open>Once a call of criteria is claimed, no call of the same criteria finds a subsidy, new or not.\<close>

definition sampleSubsidy :: bridgeSubsidy where
  "sampleSubsidy = \<lparr>bsu_addressId = 4, bsu_criteria = 9, bsu_subsidyInWei = 10, bsu_subsidyInGas = 1000\<rparr>"

theorem subsidy_claimed_once_witness:
  "\<exists>p. subsidy_reachable p \<and> bsp_claimed p = [0] \<and> criteriaOf p 0 = Some \<lparr>bcr_bridgeAddressId = 4, bcr_criteria = 9\<rparr>
     \<and> (\<forall>b0 v p'. bsp_getBridgeSubsidy (Some sampleSubsidy) b0 p = Inr (v, p')
          \<longrightarrow> criteriaOf p' b0 = Some \<lparr>bcr_bridgeAddressId = 4, bcr_criteria = 9\<rparr> \<longrightarrow> v = 0)"
proof -
  obtain key where key: "callDataKey 0 = Inr key"
    by (simp add: callDataKey_def BridgeCallData_fromBigInt_def extractBigInt_def BitConfig_fromBigInt_def
        getNumber_def Let_def)
  let ?c = "\<lparr>bcr_bridgeAddressId = 4, bcr_criteria = 9\<rparr>"
  define p1 where "p1 = \<lparr>bsp_bridgeCriteriaMap = [key \<mapsto> ?c], bsp_cache = [bridgeCriteriaToString ?c \<mapsto> 1000], bsp_claimed = []\<rparr>"
  have "bsp_getBridgeSubsidy (Some sampleSubsidy) 0 newBridgeSubsidyProvider = Inr (1000, p1)"
    using key by (simp add: bsp_getBridgeSubsidy_def newBridgeSubsidyProvider_def sampleSubsidy_def Let_def
        bridgeSubsidyAlreadyClaimed_def p1_def)
  then have r1: "subsidy_reachable p1" by (blast intro: subsidy_reachable.new subsidy_reachable.step subsidy_step.query)
  let ?p = "p1\<lparr>bsp_claimed := [0]\<rparr>"
  have "claimBridgeSubsidy 0 p1 = Inr (True, ?p)"
    using key by (simp add: claimBridgeSubsidy_def p1_def bridgeSubsidyAlreadyClaimed_def List.insert_def)
  then have r2: "subsidy_reachable ?p" by (blast intro: r1 subsidy_reachable.step subsidy_step.claim)
  have c: "criteriaOf ?p 0 = Some ?c" using key by (simp add: criteriaOf_def p1_def)
  from subsidy_claimed_once [OF r2, of ?c] have "v = 0"
    if "bsp_getBridgeSubsidy (Some sampleSubsidy) b0 ?p = Inr (v, p')" "criteriaOf p' b0 = Some ?c" for b0 v p'
    using that c by fastforce
  then show ?thesis using r2 c by (intro exI [of _ ?p]) auto
qed

text \<open>The minimum gas asked of one user of a bridge is the full bridge gas divided by the number of
  transactions of a batch, rounded up: a full batch of minimal payers pays for the bridge, and one gas
  less each would not.\<close>

theorem min_bridge_gas_covers:
  assumes "getBridgeConfig r b = Inr (Some bc)" "0 < bcf_numTxs bc"
    and "getFullBridgeGas r b = Inr gas" "0 \<le> gas" "gas < 2 ^ 53"
  shows "\<exists>g. getMinBridgeTxGas r b = Inr (js_int g) \<and> gas \<le> g * bcf_numTxs bc \<and> (g - 1) * bcf_numTxs bc < gas"
proof -
  let ?n = "bcf_numTxs bc"
  let ?g = "- ((- gas) div ?n)"
  have "getMinBridgeTxGas r b = Inr (js_int ?g)"
    using assms by (simp add: getMinBridgeTxGas_def js_ceil_div)
  moreover have "gas \<le> - (?n * ((- gas) div ?n))" "- (?n * ((- gas) div ?n)) < gas + ?n"
    using mult_div_mod_eq [of ?n "- gas"] pos_mod_bound [OF assms(2), of "- gas"] pos_mod_sign [OF assms(2), of "- gas"]
    by linarith+
  ultimately have "getMinBridgeTxGas r b = Inr (js_int ?g) \<and> gas \<le> ?g * ?n \<and> (?g - 1) * ?n < gas"
    by (simp add: algebra_simps)
  then show ?thesis by (rule exI)
qed

definition sampleResolver :: bridgeResolver where
  "sampleResolver = \<lparr>br_bridgeConfigs = [\<lparr>bcf_bridgeAddressId = 0, bcf_numTxs = 3, bcf_gas = Some 100000,
       bcf_permittedAssets = [0, 1]\<rparr>], br_getBridgeGas = (\<lambda>_. 200000), br_disableBridgeSubsidy = False\<rparr>"

lemma sample_bridge_config:
  "getBridgeConfig sampleResolver 0 = Inr (Some (br_bridgeConfigs sampleResolver ! 0))"
  "getFullBridgeGas sampleResolver 0 = Inr 100000"
  by (simp_all add: getFullBridgeGas_def getBridgeConfig_def BridgeCallData_fromBigInt_def extractBigInt_def BitConfig_fromBigInt_def
      getNumber_def Let_def sampleResolver_def bridgeAssets_def newBridgeCallData_def isVirtualAsset_def virtualAssetIdFlag_def)

theorem min_bridge_gas_covers_witness:
  "\<exists>g. getMinBridgeTxGas sampleResolver 0 = Inr (js_int g) \<and> 100000 \<le> g * 3 \<and> (g - 1) * 3 < 100000"
  using min_bridge_gas_covers [OF sample_bridge_config(1) _ sample_bridge_config(2)] by (simp add: sampleResolver_def)

end
