(* ===== verification/BridgeQueue.thy ===== *)
theory BridgeQueue
  imports Bridges ClientProofs "HOL-Library.Multiset" "HOL-Library.Sublist"
begin

text \<open>
  \<open>falafel/src/pipeline_coordinator/bridge_tx_queue.ts\<close>: the transactions waiting for one DeFi bridge, ordered by
  decreasing excess gas, and the selection of a profitable batch that fits what is left of a rollup.
  \<open>TxDao\<close> is the record \<open>falafel/src/entity/tx.ts\<close> stores per transaction.
\<close>

section \<open>Transactions\<close>

record assetValue =
  av_assetId :: int
  av_value :: int

record txDao =
  td_id :: buffer
  td_proofData :: buffer
  td_offchainTxData :: buffer
  td_signature :: "buffer option"
  td_nullifier1 :: "buffer option"
  td_nullifier2 :: "buffer option"
  td_dataRootsIndex :: "int option"
  td_txType :: txType
  td_created :: int
  td_mined :: "int option"
  td_excessGas :: int
  td_position :: "int option"
  td_secondClass :: bool

text \<open>\<open>before()\<close>: the primary key of the table is the hexadecimal form of the id.\<close>

definition td_internalId :: "txDao \<Rightarrow> string" where
  "td_internalId tx = bufferToHex (td_id tx)"

record rollupTx =
  rt_tx :: txDao
  rt_excessGas :: int
  rt_fee :: assetValue
  rt_bridgeCallData :: "int option"
  rt_secondClass :: bool

record rollupResources =
  rr_gasUsed :: jsnum
  rr_callDataUsed :: int
  rr_bridgeCallDatas :: "int list"
  rr_assetIds :: "int set"

definition createRollupTx :: "txDao \<Rightarrow> proofData \<Rightarrow> rollupTx res" where
  "createRollupTx rawTx proof =
     mapR (\<lambda>feeAssetId. \<lparr>rt_tx = rawTx, rt_excessGas = td_excessGas rawTx,
         rt_fee = \<lparr>av_assetId = feeAssetId, av_value = toBigIntBE (pd_txFee proof)\<rparr>,
         rt_bridgeCallData = None, rt_secondClass = td_secondClass rawTx\<rparr>)
       (ProofData_feeAssetId proof)"

fun DefiDeposit_txFeeAssetId :: "defiDepositProofData \<Rightarrow> int res" where
  "DefiDeposit_txFeeAssetId (DefiDepositProofData p) = ProofData_feeAssetId p"

definition createDefiRollupTx :: "txDao \<Rightarrow> defiDepositProofData \<Rightarrow> rollupTx res" where
  "createDefiRollupTx rawTx proof =
     bindE (DefiDeposit_txFeeAssetId proof) (\<lambda>feeAssetId.
     bindE (DefiDeposit_bridgeCallData proof) (\<lambda>bridgeCallData. Inr
       \<lparr>rt_tx = rawTx, rt_excessGas = td_excessGas rawTx,
        rt_fee = \<lparr>av_assetId = feeAssetId, av_value = DefiDeposit_txFee proof\<rparr>,
        rt_bridgeCallData = Some (BridgeCallData_toBigInt bridgeCallData), rt_secondClass = td_secondClass rawTx\<rparr>))"

section \<open>BridgeTxQueue\<close>

record bridgeTxQueue =
  bq_bridgeCallData :: int
  bq_feeResolver :: txFeeResolver
  bq_txQueue :: "rollupTx list"

definition newBridgeTxQueue :: "int \<Rightarrow> txFeeResolver \<Rightarrow> bridgeTxQueue" where
  "newBridgeTxQueue bridgeCallData feeResolver =
     \<lparr>bq_bridgeCallData = bridgeCallData, bq_feeResolver = feeResolver, bq_txQueue = []\<rparr>"

record bridgeQueueResult =
  bqr_txsToRollup :: "rollupTx list"
  bqr_resourcesConsumed :: rollupResources

record bridgeQueueStats =
  bqs_numQueuedTxs :: nat
  bqs_gasAccrued :: jsnum
  bqs_bridgeCallData :: int

definition getQueueStats :: "bridgeTxQueue \<Rightarrow> bridgeQueueStats res" where
  "getQueueStats q =
     mapR (\<lambda>gasAccrued. \<lparr>bqs_numQueuedTxs = length (bq_txQueue q), bqs_gasAccrued = gasAccrued,
         bqs_bridgeCallData = bq_bridgeCallData q\<rparr>)
       (foldE (\<lambda>prev currentTx.
          mapR (\<lambda>gas. js_add prev (js_add gas (js_int (rt_excessGas currentTx))))
            (getSingleBridgeTxGas (bq_feeResolver q) (bq_bridgeCallData q))) (js_int 0) (bq_txQueue q))"

definition addDefiTx :: "rollupTx \<Rightarrow> bridgeTxQueue \<Rightarrow> bridgeTxQueue" where
  "addDefiTx newTx q =
    (let txQueue = bq_txQueue q;
         index = (case findIndex (\<lambda>tx. rt_excessGas newTx > rt_excessGas tx) txQueue of
                    None \<Rightarrow> length txQueue | Some i \<Rightarrow> i)
     in q\<lparr>bq_txQueue := take index txQueue @ newTx # drop index txQueue\<rparr>)"

record selection =
  sel_txs :: "rollupTx list"
  sel_assets :: "int set"
  sel_gasFromTxs :: jsnum
  sel_totalGas :: jsnum
  sel_callData :: int

record queueLimits =
  ql_maxTxs :: int
  ql_maxAssets :: int
  ql_gas :: jsnum
  ql_callData :: int

text \<open>\<open>if (tx.fee.value && isFeePayingAsset(..))\<close>: only then does the fee asset count.\<close>

definition paysFee :: "txFeeResolver \<Rightarrow> rollupTx \<Rightarrow> bool" where
  "paysFee r tx = (av_value (rt_fee tx) \<noteq> 0 \<and> isFeePayingAsset r (av_assetId (rt_fee tx)))"

fun selectTxs :: "txFeeResolver \<Rightarrow> int \<Rightarrow> int \<Rightarrow> queueLimits \<Rightarrow> rollupTx list \<Rightarrow> selection \<Rightarrow> selection res" where
  "selectTxs r bcd fullGas lims [] s = Inr s"
| "selectTxs r bcd fullGas lims (tx # txs) s =
    (if \<not> int (length (sel_txs s)) < ql_maxTxs lims then Inr s
     else bindE (fr_getUnadjustedTxGas r (av_assetId (rt_fee tx)) TX_DEFI_DEPOSIT) (\<lambda>unadjustedGas.
       let gasUsedByTx = js_sub unadjustedGas (fr_getUnadjustedBaseVerificationGas r);
           newGasUsedValue = js_add (sel_totalGas s) gasUsedByTx;
           newCallDataUsed = sel_callData s + getTxCallData TX_DEFI_DEPOSIT
       in if js_less (ql_gas lims) newGasUsedValue \<or> newCallDataUsed > ql_callData lims then Inr s
          else if paysFee r tx \<and> av_assetId (rt_fee tx) \<notin> sel_assets s \<and> int (card (sel_assets s)) = ql_maxAssets lims
          then selectTxs r bcd fullGas lims txs s
          else bindE (getSingleBridgeTxGas r bcd) (\<lambda>single.
            let gasAttributableToBridge = js_add single (js_int (rt_excessGas tx))
            in selectTxs r bcd fullGas lims txs
                 \<lparr>sel_txs = sel_txs s @ [tx],
                  sel_assets = (if paysFee r tx then insert (av_assetId (rt_fee tx)) (sel_assets s) else sel_assets s),
                  sel_gasFromTxs = js_add (sel_gasFromTxs s) (js_min gasAttributableToBridge (js_int fullGas)),
                  sel_totalGas = newGasUsedValue, sel_callData = newCallDataUsed\<rparr>)))"

definition emptyQueueResult :: bridgeQueueResult where
  "emptyQueueResult = \<lparr>bqr_txsToRollup = [], bqr_resourcesConsumed =
     \<lparr>rr_gasUsed = js_int 0, rr_callDataUsed = 0, rr_bridgeCallDatas = [], rr_assetIds = {}\<rparr>\<rparr>"

definition js_geq :: "jsnum \<Rightarrow> jsnum \<Rightarrow> bool" where
  "js_geq a b = (a \<noteq> NaN \<and> b \<noteq> NaN \<and> \<not> js_less a b)"

text \<open>\<open>answer\<close> is the subsidy the bridge resolver reports if it is asked.\<close>

definition getTxsToRollup ::
    "bridgeSubsidy option \<Rightarrow> queueLimits \<Rightarrow> int set \<Rightarrow> bridgeTxQueue \<Rightarrow> bridgeSubsidyProvider
     \<Rightarrow> (bridgeQueueResult \<times> bridgeTxQueue \<times> bridgeSubsidyProvider) res" where
  "getTxsToRollup answer lims assetIds q p =
    (let r = bq_feeResolver q; bcd = bq_bridgeCallData q in
     bindE (fr_getFullBridgeGas r bcd) (\<lambda>fullGas.
     bindE (selectTxs r bcd fullGas lims (bq_txQueue q)
        \<lparr>sel_txs = [], sel_assets = assetIds, sel_gasFromTxs = js_int 0,
         sel_totalGas = js_int (fr_getFullBridgeGasFromContract r bcd), sel_callData = 0\<rparr>) (\<lambda>s.
     bindE (bsp_getBridgeSubsidy answer bcd p) (\<lambda>(availableSubsidy, p).
     let totalGasFromTxsAndSubsidy = js_add (sel_gasFromTxs s) (js_int availableSubsidy) in
     if sel_txs s \<noteq> [] \<and> js_geq totalGasFromTxsAndSubsidy (js_int fullGas)
     then bindE (claimBridgeSubsidy bcd p) (\<lambda>(claimed, p). Inr
       (\<lparr>bqr_txsToRollup = sel_txs s, bqr_resourcesConsumed =
           \<lparr>rr_gasUsed = sel_totalGas s, rr_callDataUsed = sel_callData s, rr_bridgeCallDatas = [bcd],
            rr_assetIds = sel_assets s\<rparr>\<rparr>,
        q\<lparr>bq_txQueue := drop (length (sel_txs s)) (bq_txQueue q)\<rparr>, p))
     else Inr (emptyQueueResult, q, p)))))"

section \<open>A stable priority queue\<close>

text \<open>Putting an item behind every item of at least its priority.\<close>

definition insertBehind :: "('a \<Rightarrow> int) \<Rightarrow> 'a \<Rightarrow> 'a list \<Rightarrow> 'a list" where
  "insertBehind prio x xs = takeWhile (\<lambda>y. prio x \<le> prio y) xs @ x # dropWhile (\<lambda>y. prio x \<le> prio y) xs"

lemma insertBehind_simps [simp]:
  "insertBehind prio x [] = [x]"
  "insertBehind prio x (y # ys) = (if prio x \<le> prio y then y # insertBehind prio x ys else x # y # ys)"
  by (simp_all add: insertBehind_def)

lemma insertBehind_mset: "mset (insertBehind prio x xs) = add_mset x (mset xs)"
  by (induction xs) simp_all

lemma insertBehind_set: "set (insertBehind prio x xs) = insert x (set xs)"
  by (induction xs) auto

lemma insertBehind_sorted:
  "sorted (map (\<lambda>y. - prio y) xs) \<Longrightarrow> sorted (map (\<lambda>y. - prio y) (insertBehind prio x xs))"
  by (induction xs) (auto simp: insertBehind_set)

lemma insertBehind_stable:
  "sorted (map (\<lambda>y. - prio y) xs) \<Longrightarrow>
     filter (\<lambda>y. prio y = k) (insertBehind prio x xs) = filter (\<lambda>y. prio y = k) xs @ (if prio x = k then [x] else [])"
proof (induction xs)
  case (Cons y ys)
  show ?case
  proof (cases "prio x \<le> prio y")
    case False
    then have "\<forall>z\<in>set (y # ys). prio z \<noteq> prio x" using Cons.prems by force
    then have "filter (\<lambda>z. prio z = prio x) (y # ys) = []" by (auto simp: filter_empty_conv)
    then show ?thesis using False by auto
  qed (use Cons in auto)
qed simp

text \<open>The contract of the queue the rollup coordinator relies on.\<close>

locale stable_queue =
  fixes add :: "'a \<Rightarrow> 'q \<Rightarrow> 'q" and items :: "'q \<Rightarrow> 'a list" and prio :: "'a \<Rightarrow> int"
  assumes items_add: "items (add x q) = insertBehind prio x (items q)"
begin

lemma addAll_spec:
  assumes "items q = []"
  shows "mset (items (fold add xs q)) = mset xs \<and> sorted (map (\<lambda>y. - prio y) (items (fold add xs q)))
    \<and> filter (\<lambda>y. prio y = k) (items (fold add xs q)) = filter (\<lambda>y. prio y = k) xs"
  by (induction xs rule: rev_induct)
    (simp_all add: assms items_add insertBehind_mset insertBehind_sorted insertBehind_stable)

lemma addAll_sort_key: "items q = [] \<Longrightarrow> items (fold add xs q) = sort_key (\<lambda>y. - prio y) xs"
proof -
  assume q: "items q = []"
  have flip: "filter (\<lambda>y. - prio k = - prio y) ys = filter (\<lambda>y. prio y = prio k) ys" for k ys
    by (rule filter_cong) auto
  show ?thesis
    by (rule properties_for_sort_key [symmetric]) (simp_all only: flip addAll_spec [OF q])
qed

end

text \<open>The bridge queue keeps it, with the excess gas as priority.\<close>

lemma splice_insertBehind:
  "(let index = (case findIndex (\<lambda>y. prio x > prio y) xs of None \<Rightarrow> length xs | Some i \<Rightarrow> i)
    in take index xs @ x # drop index xs) = insertBehind prio x xs"
  by (induction xs) (auto simp: Let_def split: option.splits)

interpretation bridge_queue: stable_queue addDefiTx bq_txQueue rt_excessGas
  by unfold_locales (simp add: addDefiTx_def Let_def flip: splice_insertBehind)

section \<open>The selection of a batch\<close>

text \<open>Invariant of the loop: what was taken is a subsequence of what was seen, within every limit.\<close>

definition withinLimits :: "queueLimits \<Rightarrow> selection \<Rightarrow> bool" where
  "withinLimits lims s \<longleftrightarrow> (sel_txs s \<noteq> [] \<longrightarrow> \<not> js_less (ql_gas lims) (sel_totalGas s) \<and> sel_callData s \<le> ql_callData lims)
     \<and> int (length (sel_txs s)) \<le> max 0 (ql_maxTxs lims)
     \<and> sel_callData s = int (length (sel_txs s)) * getTxCallData TX_DEFI_DEPOSIT
     \<and> finite (sel_assets s) \<and> int (card (sel_assets s)) \<le> ql_maxAssets lims"

lemma selectTxs_step:
  assumes "selectTxs r bcd fullGas lims (tx # txs) s = Inr s'"
  obtains (stop) "s' = s"
  | (skip) "paysFee r tx" "av_assetId (rt_fee tx) \<notin> sel_assets s" "int (card (sel_assets s)) = ql_maxAssets lims"
      "selectTxs r bcd fullGas lims txs s = Inr s'"
  | (take) newGas gas where
      "\<exists>single. getSingleBridgeTxGas r bcd = Inr single \<and> gas = js_add single (js_int (rt_excessGas tx))" "int (length (sel_txs s)) < ql_maxTxs lims" "\<not> js_less (ql_gas lims) newGas"
      "sel_callData s + getTxCallData TX_DEFI_DEPOSIT \<le> ql_callData lims"
      "\<not> paysFee r tx \<or> av_assetId (rt_fee tx) \<in> sel_assets s \<or> int (card (sel_assets s)) \<noteq> ql_maxAssets lims"
      "selectTxs r bcd fullGas lims txs
         \<lparr>sel_txs = sel_txs s @ [tx],
          sel_assets = (if paysFee r tx then insert (av_assetId (rt_fee tx)) (sel_assets s) else sel_assets s),
          sel_gasFromTxs = js_add (sel_gasFromTxs s) (js_min gas (js_int fullGas)),
          sel_totalGas = newGas, sel_callData = sel_callData s + getTxCallData TX_DEFI_DEPOSIT\<rparr> = Inr s'"
      "\<exists>unadjusted. fr_getUnadjustedTxGas r (av_assetId (rt_fee tx)) TX_DEFI_DEPOSIT = Inr unadjusted
         \<and> newGas = js_add (sel_totalGas s) (js_sub unadjusted (fr_getUnadjustedBaseVerificationGas r))"
proof (cases "int (length (sel_txs s)) < ql_maxTxs lims")
  case True
  with assms obtain g where g: "fr_getUnadjustedTxGas r (av_assetId (rt_fee tx)) TX_DEFI_DEPOSIT = Inr g"
    by (auto simp: bindE_eq_Inr)
  define newGas where "newGas = js_add (sel_totalGas s) (js_sub g (fr_getUnadjustedBaseVerificationGas r))"
  show thesis
  proof (cases "js_less (ql_gas lims) newGas \<or> sel_callData s + getTxCallData TX_DEFI_DEPOSIT > ql_callData lims")
    case True
    then show thesis using assms g \<open>int (length (sel_txs s)) < ql_maxTxs lims\<close>
      by (intro stop) (simp add: newGas_def Let_def)
  next
    case fits: False
    note sel = assms [unfolded selectTxs.simps Let_def g bindE_Inr, folded newGas_def]
    show thesis
    proof (cases "paysFee r tx \<and> av_assetId (rt_fee tx) \<notin> sel_assets s \<and> int (card (sel_assets s)) = ql_maxAssets lims")
      case True
      then show thesis using sel fits \<open>int (length (sel_txs s)) < ql_maxTxs lims\<close> by (intro skip) auto
    next
      case False
      have c: "(\<not> int (length (sel_txs s)) < ql_maxTxs lims) = False"
        "(js_less (ql_gas lims) newGas \<or> ql_callData lims < sel_callData s + getTxCallData TX_DEFI_DEPOSIT) = False"
        using fits \<open>int (length (sel_txs s)) < ql_maxTxs lims\<close> by auto
      note sel = sel [unfolded c if_False, unfolded if_not_P [OF False]]
      then obtain single where "getSingleBridgeTxGas r bcd = Inr single" by (auto simp: bindE_eq_Inr)
      then show thesis
        using sel by (intro take [where newGas = newGas and gas = "js_add single (js_int (rt_excessGas tx))"]) (use fits False True g in \<open>auto simp: newGas_def\<close>)
    qed
  qed
qed (use assms stop in simp)

lemma selectTxs_within:
  assumes "selectTxs r bcd fullGas lims txs s = Inr s'" "withinLimits lims s"
  shows "withinLimits lims s'"
  using assms
proof (induction txs arbitrary: s)
  case (Cons tx txs)
  from Cons.prems(1) show ?case
  proof (cases rule: selectTxs_step)
    case (take newGas gas)
    show ?thesis
    proof (rule Cons.IH [OF take(6)])
      show "withinLimits lims \<lparr>sel_txs = sel_txs s @ [tx],
          sel_assets = (if paysFee r tx then insert (av_assetId (rt_fee tx)) (sel_assets s) else sel_assets s),
          sel_gasFromTxs = js_add (sel_gasFromTxs s) (js_min gas (js_int fullGas)),
          sel_totalGas = newGas, sel_callData = sel_callData s + getTxCallData TX_DEFI_DEPOSIT\<rparr>"
        using Cons.prems(2) take(2-5) by (auto simp: withinLimits_def card_insert_if algebra_simps)
    qed
  qed (use Cons in auto)
qed simp

lemma selectTxs_subseq:
  assumes "selectTxs r bcd fullGas lims txs s = Inr s'"
  shows "\<exists>ys. sel_txs s' = sel_txs s @ ys \<and> subseq ys txs \<and> sel_assets s \<subseteq> sel_assets s'
    \<and> (\<forall>tx\<in>set ys. paysFee r tx \<longrightarrow> av_assetId (rt_fee tx) \<in> sel_assets s')"
  using assms
proof (induction txs arbitrary: s)
  case (Cons tx txs)
  from Cons.prems(1) show ?case
  proof (cases rule: selectTxs_step)
    case stop
    then show ?thesis by (auto intro: exI [of _ "[]"])
  next
    case skip
    from Cons.IH [OF skip(4)] show ?thesis by (blast intro: list_emb_Cons)
  next
    case (take newGas gas)
    from Cons.IH [OF take(6)] obtain ys where ys: "sel_txs s' = (sel_txs s @ [tx]) @ ys" "subseq ys txs"
      "(if paysFee r tx then insert (av_assetId (rt_fee tx)) (sel_assets s) else sel_assets s) \<subseteq> sel_assets s'"
      "\<forall>tx\<in>set ys. paysFee r tx \<longrightarrow> av_assetId (rt_fee tx) \<in> sel_assets s'" by auto
    then show ?thesis by (intro exI [of _ "tx # ys"]) (auto split: if_splits)
  qed
qed (auto intro: exI [of _ "[]"])

text \<open>Nothing is skipped when every fee asset of the queue is already part of the rollup.\<close>

lemma selectTxs_prefix:
  assumes "selectTxs r bcd fullGas lims txs s = Inr s'"
    and "\<forall>tx\<in>set txs. paysFee r tx \<longrightarrow> av_assetId (rt_fee tx) \<in> sel_assets s"
  shows "\<exists>n\<le>length txs. sel_txs s' = sel_txs s @ take n txs \<and> sel_assets s' = sel_assets s"
  using assms
proof (induction txs arbitrary: s)
  case (Cons tx txs)
  from Cons.prems(1) show ?case
  proof (cases rule: selectTxs_step)
    case stop
    then show ?thesis by (auto intro: exI [of _ 0])
  next
    case skip
    then show ?thesis using Cons.prems(2) by simp
  next
    case (take newGas gas)
    have a: "(if paysFee r tx then insert (av_assetId (rt_fee tx)) (sel_assets s) else sel_assets s) = sel_assets s"
      using Cons.prems(2) by auto
    obtain n where "n \<le> length txs" "sel_txs s' = (sel_txs s @ [tx]) @ List.take n txs" "sel_assets s' = sel_assets s"
      using Cons.IH [OF take(6)] Cons.prems(2) a by auto
    then show ?thesis by (intro exI [of _ "Suc n"]) simp
  qed
qed simp

text \<open>The gas the selected transactions bring: each counts up to the full gas of the bridge.\<close>

definition gasTowardsBridge :: "jsnum \<Rightarrow> int \<Rightarrow> rollupTx list \<Rightarrow> jsnum" where
  "gasTowardsBridge single fullGas txs =
     foldl (\<lambda>g tx. js_add g (js_min (js_add single (js_int (rt_excessGas tx))) (js_int fullGas))) (js_int 0) txs"

lemma selectTxs_gas:
  assumes "selectTxs r bcd fullGas lims txs s = Inr s'" "getSingleBridgeTxGas r bcd = Inr single"
    "sel_gasFromTxs s = gasTowardsBridge single fullGas (sel_txs s)"
  shows "sel_gasFromTxs s' = gasTowardsBridge single fullGas (sel_txs s')"
  using assms
proof (induction txs arbitrary: s)
  case (Cons tx txs)
  from Cons.prems(1) show ?case
  proof (cases rule: selectTxs_step)
    case (take newGas gas)
    show ?thesis
      by (rule Cons.IH [OF take(6) Cons.prems(2)]) (use take(1) Cons.prems(2,3) in \<open>auto simp: gasTowardsBridge_def\<close>)
  qed (use Cons in auto)
qed simp

lemma getTxsToRollup_cases:
  assumes "getTxsToRollup answer lims assetIds q p = Inr (res, q', p')"
  obtains (none) "res = emptyQueueResult" "q' = q"
  | (batch) s fullGas v p1 claimed where
      "fr_getFullBridgeGas (bq_feeResolver q) (bq_bridgeCallData q) = Inr fullGas"
      "selectTxs (bq_feeResolver q) (bq_bridgeCallData q) fullGas lims (bq_txQueue q)
         \<lparr>sel_txs = [], sel_assets = assetIds, sel_gasFromTxs = js_int 0,
          sel_totalGas = js_int (fr_getFullBridgeGasFromContract (bq_feeResolver q) (bq_bridgeCallData q)),
          sel_callData = 0\<rparr> = Inr s"
      "bsp_getBridgeSubsidy answer (bq_bridgeCallData q) p = Inr (v, p1)"
      "sel_txs s \<noteq> []" "js_geq (js_add (sel_gasFromTxs s) (js_int v)) (js_int fullGas)"
      "claimBridgeSubsidy (bq_bridgeCallData q) p1 = Inr (claimed, p')"
      "bqr_txsToRollup res = sel_txs s"
      "bqr_resourcesConsumed res = \<lparr>rr_gasUsed = sel_totalGas s, rr_callDataUsed = sel_callData s,
         rr_bridgeCallDatas = [bq_bridgeCallData q], rr_assetIds = sel_assets s\<rparr>"
      "q' = q\<lparr>bq_txQueue := drop (length (sel_txs s)) (bq_txQueue q)\<rparr>"
proof -
  from assms obtain fullGas s v p1 where
    1: "fr_getFullBridgeGas (bq_feeResolver q) (bq_bridgeCallData q) = Inr fullGas"
    and 2: "selectTxs (bq_feeResolver q) (bq_bridgeCallData q) fullGas lims (bq_txQueue q)
         \<lparr>sel_txs = [], sel_assets = assetIds, sel_gasFromTxs = js_int 0,
          sel_totalGas = js_int (fr_getFullBridgeGasFromContract (bq_feeResolver q) (bq_bridgeCallData q)),
          sel_callData = 0\<rparr> = Inr s"
    and 3: "bsp_getBridgeSubsidy answer (bq_bridgeCallData q) p = Inr (v, p1)"
    by (auto simp: getTxsToRollup_def Let_def bindE_eq_Inr)
  show thesis
  proof (cases "sel_txs s \<noteq> [] \<and> js_geq (js_add (sel_gasFromTxs s) (js_int v)) (js_int fullGas)")
    case True
    note eq = assms [unfolded getTxsToRollup_def Let_def 1 2 3 bindE_Inr case_prod_conv, unfolded if_P [OF True]]
    then obtain claimed where c: "claimBridgeSubsidy (bq_bridgeCallData q) p1 = Inr (claimed, p')"
      by (auto simp: bindE_eq_Inr)
    have "sel_txs s \<noteq> []" "js_geq (js_add (sel_gasFromTxs s) (js_int v)) (js_int fullGas)" using True by simp_all
    then show thesis
      by (rule batch [OF 1 2 3 _ _ c]) (use eq [unfolded c bindE_Inr case_prod_conv] in auto)
  next
    case False
    note eq = assms [unfolded getTxsToRollup_def Let_def 1 2 3 bindE_Inr case_prod_conv, unfolded if_not_P [OF False]]
    then show thesis by (intro none) simp_all
  qed
qed

section \<open>A sample configuration\<close>

definition sampleFeeResolver :: txFeeResolver where
  "sampleFeeResolver = \<lparr>fr_feeCalculator = sampleFees\<lparr>fc_assets := fc_assets sampleFees @ fc_assets sampleFees\<rparr>,
     fr_bridgeResolver = sampleResolver, fr_txsPerRollup = 28, fr_feePayingAssetIds = [0, 1], fr_exitOnly = False\<rparr>"

definition sampleTx :: "int \<Rightarrow> int \<Rightarrow> rollupTx" where
  "sampleTx assetId excessGas = \<lparr>rt_tx = \<lparr>td_id = zeros 32, td_proofData = [], td_offchainTxData = [], td_signature = None,
       td_nullifier1 = None, td_nullifier2 = None, td_dataRootsIndex = None, td_txType = TX_DEFI_DEPOSIT, td_created = 0,
       td_mined = None, td_excessGas = excessGas, td_position = None, td_secondClass = False\<rparr>,
     rt_excessGas = excessGas, rt_fee = \<lparr>av_assetId = assetId, av_value = 5\<rparr>, rt_bridgeCallData = Some 0,
     rt_secondClass = False\<rparr>"

definition sampleLimits :: queueLimits where
  "sampleLimits = \<lparr>ql_maxTxs = 28, ql_maxAssets = 1, ql_gas = js_int 1000000, ql_callData = 10000\<rparr>"

definition sampleQueue :: "rollupTx list \<Rightarrow> bridgeTxQueue" where
  "sampleQueue txs = fold addDefiTx txs (newBridgeTxQueue 0 sampleFeeResolver)"

lemma sampleQueue_simps:
  "bq_feeResolver (sampleQueue txs) = sampleFeeResolver" "bq_bridgeCallData (sampleQueue txs) = 0"
  by (induction txs rule: rev_induct) (simp_all add: sampleQueue_def newBridgeTxQueue_def addDefiTx_def Let_def)

lemma sample_resolver_gas:
  "fr_getUnadjustedTxGas sampleFeeResolver 0 TX_DEFI_DEPOSIT = Inr (js_int 25362)"
  "fr_getUnadjustedTxGas sampleFeeResolver 1 TX_DEFI_DEPOSIT = Inr (js_int 25362)"
  "fr_getUnadjustedBaseVerificationGas sampleFeeResolver = js_int 17858"
  "fr_getFullBridgeGas sampleFeeResolver 0 = Inr 100000" "fr_getFullBridgeGasFromContract sampleFeeResolver 0 = 200000"
  "isFeePayingAsset sampleFeeResolver 0" "isFeePayingAsset sampleFeeResolver 1"
  by (simp_all add: fr_getUnadjustedTxGas_def fr_getUnadjustedBaseVerificationGas_def fr_getFullBridgeGas_def
      fr_getFullBridgeGasFromContract_def getFullBridgeGasFromContract_def isFeePayingAsset_def sampleFeeResolver_def
      sample_bridge_config sample_simps) (simp add: sampleResolver_def)

lemma sample_single_gas: "getSingleBridgeTxGas sampleFeeResolver 0 = Inr (js_int 33334)"
  by (simp add: getSingleBridgeTxGas_def sampleFeeResolver_def getMinBridgeTxGas_def sample_bridge_config)
    (simp add: sampleResolver_def js_ceil_div)

lemma sample_no_subsidy:
  "bsp_getBridgeSubsidy None 0 newBridgeSubsidyProvider = Inr (0, newBridgeSubsidyProvider)"
  "claimBridgeSubsidy 0 newBridgeSubsidyProvider = Inr (False, newBridgeSubsidyProvider)"
  by (simp_all add: bsp_getBridgeSubsidy_def claimBridgeSubsidy_def newBridgeSubsidyProvider_def callDataKey_def
      BridgeCallData_fromBigInt_def extractBigInt_def BitConfig_fromBigInt_def getNumber_def Let_def)

lemma js_geq_int [simp]: "js_geq (js_int a) (js_int b) \<longleftrightarrow> b \<le> a"
  by (auto simp: js_geq_def js_int_def)

lemma sampleTx_simps [simp]:
  "rt_excessGas (sampleTx a g) = g" "rt_fee (sampleTx a g) = \<lparr>av_assetId = a, av_value = 5\<rparr>"
  by (simp_all add: sampleTx_def)

lemmas sample_queue_simps = sampleQueue_simps sample_resolver_gas sample_single_gas sample_no_subsidy paysFee_def
  sampleLimits_def Let_def getTxsToRollup_def

lemma sample_queue_two: "bq_txQueue (sampleQueue [sampleTx a 200000, sampleTx b 100000]) = [sampleTx a 200000, sampleTx b 100000]"
  by (simp add: sampleQueue_def newBridgeTxQueue_def addDefiTx_def Let_def)

lemma sample_batch:
  "\<exists>res q'. getTxsToRollup None sampleLimits {0} (sampleQueue [sampleTx 0 200000, sampleTx 0 100000])
       newBridgeSubsidyProvider = Inr (res, q', newBridgeSubsidyProvider)
     \<and> bqr_txsToRollup res = [sampleTx 0 200000, sampleTx 0 100000]"
  by (simp add: sample_queue_simps sample_queue_two)

section \<open>Properties\<close>

text \<open>However transactions arrive, the queue of a bridge is their stable sort by decreasing excess gas:
  nothing is lost or duplicated, and among equals the first to arrive is first.\<close>

theorem bridge_queue_is_stable_sort:
  "bq_txQueue (fold addDefiTx txs (newBridgeTxQueue bcd r)) = sort_key (\<lambda>tx. - rt_excessGas tx) txs"
  by (rule bridge_queue.addAll_sort_key) (simp add: newBridgeTxQueue_def)

text \<open>C8: A batch taken from a bridge queue stays within every limit of the rollup: number of
  transactions, call data (129 bytes each), gas, and number of fee assets; it is a subsequence of the
  queue, and the assets its transactions pay fees in are all declared.\<close>

theorem bridge_batch_within_limits:
  assumes "getTxsToRollup answer lims assetIds q p = Inr (res, q', p')"
    and "finite assetIds" "int (card assetIds) \<le> ql_maxAssets lims"
  defines "txs \<equiv> bqr_txsToRollup res" and "used \<equiv> bqr_resourcesConsumed res"
  shows "subseq txs (bq_txQueue q) \<and> int (length txs) \<le> max 0 (ql_maxTxs lims)
    \<and> rr_callDataUsed used = 129 * int (length txs)
    \<and> (txs \<noteq> [] \<longrightarrow> rr_callDataUsed used \<le> ql_callData lims \<and> \<not> js_less (ql_gas lims) (rr_gasUsed used)
        \<and> assetIds \<subseteq> rr_assetIds used \<and> int (card (rr_assetIds used)) \<le> ql_maxAssets lims)
    \<and> (\<forall>tx\<in>set txs. paysFee (bq_feeResolver q) tx \<longrightarrow> av_assetId (rt_fee tx) \<in> rr_assetIds used)"
  using assms(1)
proof (cases rule: getTxsToRollup_cases)
  case none
  then show ?thesis by (simp add: txs_def used_def emptyQueueResult_def)
next
  case (batch s fullGas v p1 claimed)
  have "withinLimits lims s"
    by (rule selectTxs_within [OF batch(2)]) (simp add: withinLimits_def assms)
  moreover obtain ys where "sel_txs s = ys" "subseq ys (bq_txQueue q)" "assetIds \<subseteq> sel_assets s"
    "\<forall>tx\<in>set ys. paysFee (bq_feeResolver q) tx \<longrightarrow> av_assetId (rt_fee tx) \<in> sel_assets s"
    using selectTxs_subseq [OF batch(2)] by auto
  ultimately show ?thesis using batch(7,8)
    by (auto simp: txs_def used_def withinLimits_def)
qed

theorem bridge_batch_within_limits_witness:
  "\<exists>res q' p'. getTxsToRollup None sampleLimits {0} (sampleQueue [sampleTx 0 200000, sampleTx 0 100000])
       newBridgeSubsidyProvider = Inr (res, q', p') \<and> bqr_txsToRollup res \<noteq> []
     \<and> rr_callDataUsed (bqr_resourcesConsumed res) = 258"
proof -
  from sample_batch obtain res q' where b: "getTxsToRollup None sampleLimits {0}
      (sampleQueue [sampleTx 0 200000, sampleTx 0 100000]) newBridgeSubsidyProvider = Inr (res, q', newBridgeSubsidyProvider)"
    "bqr_txsToRollup res = [sampleTx 0 200000, sampleTx 0 100000]" by blast
  have "int (card {0 :: int}) \<le> ql_maxAssets sampleLimits" by (simp add: sampleLimits_def)
  from bridge_batch_within_limits [OF b(1) _ this] b show ?thesis by auto
qed

text \<open>A claim that follows a query which returned a subsidy succeeds.\<close>

lemma counted_subsidy_claimed:
  assumes "bsp_getBridgeSubsidy answer b p = Inr (v, p1)" "v \<noteq> 0" "claimBridgeSubsidy b p1 = Inr (claimed, p')"
  shows "claimed \<and> b \<in> set (bsp_claimed p') \<and> getClaimedSubsidy p' b = Inr v"
proof -
  obtain c where c: "criteriaOf p1 b = Some c" "bridgeSubsidyAlreadyClaimed p1 c = Inr False"
    "bsp_cache p1 (bridgeCriteriaToString c) = Some v" by (rule subsidy_granted [OF assms(1,2)])
  obtain key where key: "callDataKey b = Inr key" "bsp_bridgeCriteriaMap p1 key = Some c"
    using c(1) by (auto simp: criteriaOf_def split: sum.splits)
  then have "claimed" "p' = p1\<lparr>bsp_claimed := List.insert b (bsp_claimed p1)\<rparr>"
    using assms(3) c(2) by (auto simp: claimBridgeSubsidy_def)
  then show ?thesis using key c(3) by (simp add: getClaimedSubsidy_def)
qed

text \<open>C31: A batch is only taken when it pays for the bridge: the gas its transactions bring, each
  capped at the full gas of the bridge, and the available subsidy reach the full gas. A subsidy that was counted
  is claimed for this bridge call, which is recorded with the amount that was counted.\<close>

theorem bridge_batch_profitable:
  assumes "getTxsToRollup answer lims assetIds q p = Inr (res, q', p')" "bqr_txsToRollup res \<noteq> []"
    and "getSingleBridgeTxGas (bq_feeResolver q) (bq_bridgeCallData q) = Inr single"
  shows "\<exists>fullGas v p1 claimed. fr_getFullBridgeGas (bq_feeResolver q) (bq_bridgeCallData q) = Inr fullGas
    \<and> bsp_getBridgeSubsidy answer (bq_bridgeCallData q) p = Inr (v, p1)
    \<and> claimBridgeSubsidy (bq_bridgeCallData q) p1 = Inr (claimed, p')
    \<and> js_geq (js_add (gasTowardsBridge single fullGas (bqr_txsToRollup res)) (js_int v)) (js_int fullGas)
    \<and> (v \<noteq> 0 \<longrightarrow> claimed \<and> bq_bridgeCallData q \<in> set (bsp_claimed p') \<and> getClaimedSubsidy p' (bq_bridgeCallData q) = Inr v)"
  using assms(1)
proof (cases rule: getTxsToRollup_cases)
  case none
  then show ?thesis using assms(2) by (simp add: emptyQueueResult_def)
next
  case (batch s fullGas v p1 claimed)
  have "sel_gasFromTxs s = gasTowardsBridge single fullGas (sel_txs s)"
    by (rule selectTxs_gas [OF batch(2) assms(3)]) (simp add: gasTowardsBridge_def)
  then show ?thesis using batch counted_subsidy_claimed [OF batch(3) _ batch(6)] by auto
qed

text \<open>One transaction without excess, and a subsidy that makes up for the rest.\<close>

theorem bridge_batch_profitable_witness:
  "\<exists>res q' p'. getTxsToRollup (Some (sampleSubsidy\<lparr>bsu_subsidyInGas := 70000\<rparr>)) sampleLimits {0} (sampleQueue [sampleTx 0 0])
       newBridgeSubsidyProvider = Inr (res, q', p')
     \<and> js_geq (js_add (gasTowardsBridge (js_int 33334) 100000 [sampleTx 0 0]) (js_int 70000)) (js_int 100000)
     \<and> bsp_claimed p' = [0] \<and> getClaimedSubsidy p' 0 = Inr 70000"
proof -
  let ?answer = "Some (sampleSubsidy\<lparr>bsu_subsidyInGas := 70000\<rparr>)" and ?c = "\<lparr>bcr_bridgeAddressId = 4, bcr_criteria = 9\<rparr>"
  obtain key where key: "callDataKey 0 = Inr key"
    by (simp add: callDataKey_def BridgeCallData_fromBigInt_def extractBigInt_def BitConfig_fromBigInt_def getNumber_def Let_def)
  define p1 where "p1 = \<lparr>bsp_bridgeCriteriaMap = [key \<mapsto> ?c], bsp_cache = [bridgeCriteriaToString ?c \<mapsto> 70000], bsp_claimed = []\<rparr>"
  have query: "bsp_getBridgeSubsidy ?answer 0 newBridgeSubsidyProvider = Inr (70000, p1)"
    using key by (simp add: bsp_getBridgeSubsidy_def newBridgeSubsidyProvider_def sampleSubsidy_def Let_def
        bridgeSubsidyAlreadyClaimed_def p1_def)
  have claim: "claimBridgeSubsidy 0 p1 = Inr (True, p1\<lparr>bsp_claimed := [0]\<rparr>)"
    using key by (simp add: claimBridgeSubsidy_def p1_def bridgeSubsidyAlreadyClaimed_def List.insert_def)
  have one: "bq_txQueue (sampleQueue [sampleTx 0 0]) = [sampleTx 0 0]"
    by (simp add: sampleQueue_def newBridgeTxQueue_def addDefiTx_def Let_def)
  obtain res q' where b: "getTxsToRollup ?answer sampleLimits {0} (sampleQueue [sampleTx 0 0]) newBridgeSubsidyProvider
      = Inr (res, q', p1\<lparr>bsp_claimed := [0]\<rparr>)" "bqr_txsToRollup res = [sampleTx 0 0]"
    using query claim by (simp add: sample_queue_simps one)
  from bridge_batch_profitable [OF b(1)] b query sample_single_gas show ?thesis by (auto simp: sampleQueue_simps sample_resolver_gas)
qed

text \<open>When the fee assets of all queued transactions are already part of the rollup, a batch is
  the front of the queue and the rest stays queued: nothing is lost, nothing is taken twice.\<close>

theorem bridge_batch_conserves_queue:
  assumes "getTxsToRollup answer lims assetIds q p = Inr (res, q', p')"
    and "\<forall>tx\<in>set (bq_txQueue q). paysFee (bq_feeResolver q) tx \<longrightarrow> av_assetId (rt_fee tx) \<in> assetIds"
  shows "bqr_txsToRollup res @ bq_txQueue q' = bq_txQueue q"
  using assms(1)
proof (cases rule: getTxsToRollup_cases)
  case none
  then show ?thesis by (simp add: emptyQueueResult_def)
next
  case (batch s fullGas v p1 claimed)
  obtain n where "n \<le> length (bq_txQueue q)" "sel_txs s = take n (bq_txQueue q)"
    using selectTxs_prefix [OF batch(2)] assms(2) by auto
  then show ?thesis using batch(7,9) by simp
qed

theorem bridge_batch_conserves_queue_witness:
  "\<exists>res q' p'. getTxsToRollup None sampleLimits {0} (sampleQueue [sampleTx 0 200000, sampleTx 0 100000])
       newBridgeSubsidyProvider = Inr (res, q', p') \<and> bqr_txsToRollup res \<noteq> []
     \<and> bqr_txsToRollup res @ bq_txQueue q' = [sampleTx 0 200000, sampleTx 0 100000]"
proof -
  from sample_batch obtain res q' where b: "getTxsToRollup None sampleLimits {0}
      (sampleQueue [sampleTx 0 200000, sampleTx 0 100000]) newBridgeSubsidyProvider = Inr (res, q', newBridgeSubsidyProvider)"
    "bqr_txsToRollup res = [sampleTx 0 200000, sampleTx 0 100000]" by blast
  from bridge_batch_conserves_queue [OF b(1)] b show ?thesis
    by (auto simp: sample_queue_two sampleQueue_simps)
qed

text \<open>Otherwise it may be: with room for one fee asset, a transaction paying in a second one is skipped, the next
  one is taken, and the queue is shortened from its front. The skipped transaction is gone and the taken one is
  still queued.\<close>

theorem bridge_batch_drops_skipped_tx:
  "\<exists>res q' p'. getTxsToRollup None sampleLimits {0} (sampleQueue [sampleTx 1 200000, sampleTx 0 100000])
       newBridgeSubsidyProvider = Inr (res, q', p')
     \<and> bq_txQueue (sampleQueue [sampleTx 1 200000, sampleTx 0 100000]) = [sampleTx 1 200000, sampleTx 0 100000]
     \<and> bqr_txsToRollup res = [sampleTx 0 100000] \<and> bq_txQueue q' = [sampleTx 0 100000]"
  by (simp add: sample_queue_simps sample_queue_two)

end
