(* ===== verification/Profiler.thy ===== *)
theory Profiler
  imports BridgeQueue
begin

text \<open>
  \<open>falafel/src/pipeline_coordinator/rollup_profiler.ts\<close>: the figures of a candidate rollup, from which the
  coordinator decides whether to publish it. Gas is a JavaScript number, summed in the order of the code; counts
  and call data are integers. The keys of \<open>commitmentLocations\<close> are hexadecimal strings; \<open>bridgeProfiles\<close> is a list in
  the insertion order of the JavaScript map.
\<close>

section \<open>Profiles\<close>

record bridgeProfile =
  bp_bridgeCallData :: int
  bp_numTxs :: nat
  bp_gasThreshold :: int
  bp_gasAccrued :: jsnum
  bp_gasSubsidy :: int
  bp_earliestTx :: int
  bp_latestTx :: int

record rollupProfile =
  rp_published :: bool
  rp_rollupSize :: int
  rp_totalTxs :: nat
  rp_totalSecondClassTxs :: nat
  rp_numTxsPerType :: "nat list"
  rp_numSecondClassTxsPerType :: "nat list"
  rp_gasBalance :: jsnum
  rp_totalGas :: jsnum
  rp_totalCallData :: int
  rp_earliestTx :: int
  rp_latestTx :: int
  rp_innerChains :: nat
  rp_outerChains :: nat
  rp_bridgeProfiles :: "(int \<times> bridgeProfile) list"

definition emptyProfile :: "int \<Rightarrow> rollupProfile" where
  "emptyProfile rollupSize =
     \<lparr>rp_published = False, rp_rollupSize = rollupSize, rp_totalTxs = 0, rp_totalSecondClassTxs = 0,
      rp_numTxsPerType = replicate 7 0, rp_numSecondClassTxsPerType = replicate 7 0, rp_gasBalance = js_int 0,
      rp_totalGas = js_int 0, rp_totalCallData = 0, rp_earliestTx = 0, rp_latestTx = 0, rp_innerChains = 0,
      rp_outerChains = 0, rp_bridgeProfiles = []\<rparr>"

section \<open>profileRollup\<close>

text \<open>The commitments of a transaction are recorded before its own link is looked up.\<close>

definition noteStrings :: "proofData \<Rightarrow> string list" where
  "noteStrings proof = map bufferToHex (filter (\<lambda>n. n \<noteq> zeros 32) [pd_noteCommitment1 proof, pd_noteCommitment2 proof])"

definition recordNotes :: "int \<Rightarrow> proofData \<Rightarrow> (string \<rightharpoonup> int) \<Rightarrow> (string \<rightharpoonup> int)" where
  "recordNotes currentInner proof locations = foldl (\<lambda>m s. m(s \<mapsto> currentInner)) locations (noteStrings proof)"

definition countChain :: "int \<Rightarrow> proofData \<Rightarrow> (string \<rightharpoonup> int) \<Rightarrow> rollupProfile \<Rightarrow> rollupProfile" where
  "countChain currentInner proof locations rp =
    (if pd_backwardLink proof = zeros 32 then rp
     else case locations (bufferToHex (pd_backwardLink proof)) of
       None \<Rightarrow> rp
     | Some link \<Rightarrow> if link = currentInner then rp\<lparr>rp_innerChains := rp_innerChains rp + 1\<rparr>
                    else rp\<lparr>rp_outerChains := rp_outerChains rp + 1\<rparr>)"

definition updateTimes :: "nat \<Rightarrow> int \<Rightarrow> rollupProfile \<Rightarrow> rollupProfile" where
  "updateTimes txIndex created rp =
    (if txIndex = 0 then rp\<lparr>rp_earliestTx := created, rp_latestTx := created\<rparr>
     else rp\<lparr>rp_earliestTx := (if created < rp_earliestTx rp then created else rp_earliestTx rp),
             rp_latestTx := (if created > rp_latestTx rp then created else rp_latestTx rp)\<rparr>)"

fun setProfile :: "int \<Rightarrow> bridgeProfile \<Rightarrow> (int \<times> bridgeProfile) list \<Rightarrow> (int \<times> bridgeProfile) list" where
  "setProfile b bp [] = [(b, bp)]"
| "setProfile b bp ((b', bp') # bps) = (if b = b' then (b, bp) # bps else (b', bp') # setProfile b bp bps)"

text \<open>The profile of the bridge call, created with its costs when it is the first transaction of the bridge.\<close>

definition bridgeProfileOf ::
    "txFeeResolver \<Rightarrow> bridgeSubsidyProvider \<Rightarrow> int \<Rightarrow> int \<Rightarrow> int \<Rightarrow> rollupProfile \<Rightarrow> (bridgeProfile \<times> rollupProfile) res" where
  "bridgeProfileOf r provider bcd fullGas created rp =
    (case map_of (rp_bridgeProfiles rp) bcd of
       Some bp \<Rightarrow> Inr (bp, rp)
     | None \<Rightarrow> mapR (\<lambda>claimedSubsidy.
         (\<lparr>bp_bridgeCallData = bcd, bp_numTxs = 0, bp_gasThreshold = fullGas, bp_gasAccrued = js_int 0,
           bp_gasSubsidy = claimedSubsidy, bp_earliestTx = created, bp_latestTx = created\<rparr>,
          rp\<lparr>rp_gasBalance := js_add (js_sub (rp_gasBalance rp) (js_int fullGas)) (js_int claimedSubsidy),
             rp_totalGas := js_add (rp_totalGas rp) (js_int (fr_getFullBridgeGasFromContract r bcd))\<rparr>))
         (getClaimedSubsidy provider bcd))"

definition profileDefi ::
    "txFeeResolver \<Rightarrow> bridgeSubsidyProvider \<Rightarrow> int \<Rightarrow> rollupTx \<Rightarrow> rollupProfile \<Rightarrow> rollupProfile res" where
  "profileDefi r provider bcd tx rp =
     bindE (fr_getFullBridgeGas r bcd) (\<lambda>fullGas.
     bindE (bridgeProfileOf r provider bcd fullGas (td_created (rt_tx tx)) rp) (\<lambda>(bp, rp).
     mapR (\<lambda>single.
       let provided = js_add single (js_int (rt_excessGas tx));
           created = td_created (rt_tx tx);
           bp = bp\<lparr>bp_numTxs := bp_numTxs bp + 1,
                   bp_gasAccrued := js_add (bp_gasAccrued bp) (js_min provided (js_int fullGas)),
                   bp_earliestTx := (if bp_earliestTx bp > created then created else bp_earliestTx bp),
                   bp_latestTx := (if bp_latestTx bp < created then created else bp_latestTx bp)\<rparr>
       in rp\<lparr>rp_gasBalance := js_add (rp_gasBalance rp) provided,
             rp_bridgeProfiles := setProfile bcd bp (rp_bridgeProfiles rp)\<rparr>)
       (getSingleBridgeTxGas r bcd)))"

text \<open>One iteration of the loop. \<open>!tx.bridgeCallData\<close> holds for a missing call and for call 0.\<close>

definition profileTx ::
    "txFeeResolver \<Rightarrow> int \<Rightarrow> bridgeSubsidyProvider \<Rightarrow> nat \<Rightarrow> rollupTx \<Rightarrow> (string \<rightharpoonup> int) \<times> rollupProfile
     \<Rightarrow> ((string \<rightharpoonup> int) \<times> rollupProfile) res" where
  "profileTx r innerRollupSize provider txIndex tx = (\<lambda>(locations, rp).
     bindE (newProofData (td_proofData (rt_tx tx)) None) (\<lambda>proof.
     bindE (ProofData_feeAssetId proof) (\<lambda>assetId.
     let currentInner = truncDiv (int txIndex) innerRollupSize;
         locations = recordNotes currentInner proof locations;
         rp = updateTimes txIndex (td_created (rt_tx tx)) (countChain currentInner proof locations rp);
         txType = td_txType (rt_tx tx)
     in bindE (fr_getUnadjustedTxGas r assetId txType) (\<lambda>unadjusted.
        bindE (fr_getAdjustedTxGas r assetId txType) (\<lambda>adjusted.
        let rp = rp\<lparr>rp_totalGas := js_add (rp_totalGas rp) unadjusted,
                    rp_totalCallData := rp_totalCallData rp + getTxCallData txType,
                    rp_gasBalance := js_add (rp_gasBalance rp) (js_sub adjusted unadjusted)\<rparr>
        in if \<not> isDefiDepositTx txType
           then Inr (locations, rp\<lparr>rp_gasBalance := js_add (rp_gasBalance rp) (js_int (rt_excessGas tx))\<rparr>)
           else case rt_bridgeCallData tx of
             None \<Rightarrow> Inr (locations, rp)
           | Some bcd \<Rightarrow> if bcd = 0 then Inr (locations, rp)
               else mapR (\<lambda>rp. (locations, rp)) (profileDefi r provider bcd tx rp))))))"

definition profileTxs ::
    "txFeeResolver \<Rightarrow> int \<Rightarrow> bridgeSubsidyProvider \<Rightarrow> rollupTx list \<Rightarrow> (string \<rightharpoonup> int) \<times> rollupProfile
     \<Rightarrow> ((string \<rightharpoonup> int) \<times> rollupProfile) res" where
  "profileTxs r innerRollupSize provider allTxs s =
     foldE (\<lambda>s (txIndex, tx). profileTx r innerRollupSize provider txIndex tx s) s (List.enumerate 0 allTxs)"

definition countTxs :: "(rollupTx \<Rightarrow> bool) \<Rightarrow> rollupTx list \<Rightarrow> nat" where
  "countTxs P allTxs = length (filter P allTxs)"

definition profileCounts :: "int \<Rightarrow> rollupTx list \<Rightarrow> rollupProfile" where
  "profileCounts rollupSize allTxs =
    (emptyProfile rollupSize)\<lparr>rp_totalTxs := length allTxs,
       rp_totalSecondClassTxs := countTxs rt_secondClass allTxs,
       rp_numTxsPerType := map (\<lambda>t. countTxs (\<lambda>tx. td_txType (rt_tx tx) = t) allTxs) allTxTypes,
       rp_numSecondClassTxsPerType :=
         map (\<lambda>t. countTxs (\<lambda>tx. td_txType (rt_tx tx) = t \<and> td_secondClass (rt_tx tx)) allTxs) allTxTypes\<rparr>"

definition profileRollup ::
    "rollupTx list \<Rightarrow> txFeeResolver \<Rightarrow> int \<Rightarrow> int \<Rightarrow> bridgeSubsidyProvider \<Rightarrow> rollupProfile res" where
  "profileRollup allTxs r innerRollupSize rollupSize provider =
     mapR (\<lambda>(locations, rp).
       let numEmptySlots = rollupSize - int (length allTxs);
           gasForEmptySlots = js_mul_num (js_int numEmptySlots) (fr_getUnadjustedBaseVerificationGas r)
       in rp\<lparr>rp_gasBalance := js_sub (rp_gasBalance rp) gasForEmptySlots,
             rp_totalGas := js_add (rp_totalGas rp) gasForEmptySlots\<rparr>)
       (profileTxs r innerRollupSize provider allTxs (Map.empty, profileCounts rollupSize allTxs))"

end
