(* ===== verification/Scheduling.thy ===== *)
theory Scheduling
  imports Fees ClientProofs
begin

text \<open>
  The control code that repeats, limits and times work: \<open>barretenberg.js/src/retry\<close>, the rollup timeouts of
  \<open>falafel/src/pipeline_coordinator/publish_time_manager.ts\<close>, the request limit of
  \<open>falafel/src/compliance/rate_limiter.ts\<close> and the classification of transactions in
  \<open>falafel/src/get_tx_type.ts\<close>. Times are whole milliseconds. Quotients of whole numbers below \<open>2^53\<close> that are
  truncated are integer quotients (\<open>js_floor_div\<close>).
\<close>

section \<open>Retrying\<close>

text \<open>The \<open>i\<close>-th value of the generator, in seconds; a generator that ends gives \<open>undefined\<close>.\<close>

definition backoffGenerator :: "nat \<Rightarrow> nat option" where
  "backoffGenerator i = (let v = [1, 1, 1, 2, 4, 8, 16, 32, 64] in Some (v ! min i (length v - 1)))"

text \<open>\<open>fn i\<close> is the outcome of the \<open>i\<close>-th call. The value is the outcome and the sleeps, or \<open>None\<close> when the loop
  does not end.\<close>

partial_function (option) retry :: "(nat \<Rightarrow> 'a res) \<Rightarrow> (nat \<Rightarrow> nat option) \<Rightarrow> nat \<Rightarrow> ('a res \<times> nat list) option" where
  "retry fn backoff i =
    (case fn i of
       Inr r \<Rightarrow> Some (Inr r, [])
     | Inl err \<Rightarrow> (case backoff i of
         None \<Rightarrow> Some (Inl err, [])
       | Some s \<Rightarrow> Option.bind (retry fn backoff (Suc i)) (\<lambda>(result, sleeps). Some (result, s * 1000 # sleeps))))"

text \<open>\<open>fn i\<close> is the value of the \<open>i\<close>-th call and \<open>elapsed i\<close> the milliseconds on the timer after the sleep that
  follows it.\<close>

partial_function (option) retryUntil :: "(nat \<Rightarrow> bool) \<Rightarrow> (nat \<Rightarrow> nat) \<Rightarrow> string \<Rightarrow> nat \<Rightarrow> nat \<Rightarrow> (unit res) option" where
  "retryUntil fn elapsed name timeout i =
    (if fn i then Some (Inr ())
     else if timeout \<noteq> 0 \<and> elapsed i > timeout * 1000
     then Some (Inl (Thrown (if name \<noteq> [] then ''Timeout awaiting '' @ name else ''Timeout'')))
     else retryUntil fn elapsed name timeout (Suc i))"

lemma retry_success: "fn i = Inr r \<Longrightarrow> retry fn backoff i = Some (Inr r, [])"
  by (simp add: retry.simps)

lemma retry_failure:
  "fn i = Inl e \<Longrightarrow> backoff i = Some s \<Longrightarrow>
     retry fn backoff i = Option.bind (retry fn backoff (Suc i)) (\<lambda>(result, sleeps). Some (result, s * 1000 # sleeps))"
  by (subst retry.simps) simp

lemma retry_until_success:
  assumes "fn (i + n) = Inr r" and "\<And>k. k < n \<Longrightarrow> \<exists>e. fn (i + k) = Inl e" and "\<And>k. k < n \<Longrightarrow> backoff (i + k) \<noteq> None"
  shows "retry fn backoff i = Some (Inr r, map (\<lambda>k. the (backoff k) * 1000) [i..<i + n])"
  using assms
proof (induction n arbitrary: i)
  case 0
  then show ?case by (simp add: retry_success)
next
  case (Suc n)
  obtain e where e: "fn i = Inl e" using Suc.prems(2) [of 0] by auto
  obtain s where s: "backoff i = Some s" using Suc.prems(3) [of 0] by auto
  have "retry fn backoff (Suc i) = Some (Inr r, map (\<lambda>k. the (backoff k) * 1000) [Suc i..<Suc i + n])"
  proof (rule Suc.IH)
    show "fn (Suc i + n) = Inr r" using Suc.prems(1) by simp
    show "\<exists>e. fn (Suc i + k) = Inl e" "backoff (Suc i + k) \<noteq> None" if "k < n" for k
      using Suc.prems(2,3) [of "Suc k"] that by simp_all
  qed
  moreover have "[i..<i + Suc n] = i # [Suc i..<Suc i + n]" by (simp add: upt_conv_Cons del: upt_Suc)
  ultimately show ?case by (simp add: retry_failure [where i = i and fn = fn and backoff = backoff, OF e s] s del: upt_Suc)
qed

lemma retry_exhausted:
  assumes "fn (i + n) = Inl e" and "backoff (i + n) = None" and "\<And>k. k < n \<Longrightarrow> \<exists>e. fn (i + k) = Inl e"
    and "\<And>k. k < n \<Longrightarrow> backoff (i + k) \<noteq> None"
  shows "retry fn backoff i = Some (Inl e, map (\<lambda>k. the (backoff k) * 1000) [i..<i + n])"
  using assms
proof (induction n arbitrary: i)
  case 0
  then show ?case by (simp add: retry.simps)
next
  case (Suc n)
  obtain e' where e: "fn i = Inl e'" using Suc.prems(3) [of 0] by auto
  obtain s where s: "backoff i = Some s" using Suc.prems(4) [of 0] by auto
  have "retry fn backoff (Suc i) = Some (Inl e, map (\<lambda>k. the (backoff k) * 1000) [Suc i..<Suc i + n])"
    using Suc.prems(1,2) Suc.prems(3) [of "Suc k" for k] Suc.prems(4) [of "Suc k" for k] by (intro Suc.IH) simp_all
  moreover have "[i..<i + Suc n] = i # [Suc i..<Suc i + n]" by (simp add: upt_conv_Cons del: upt_Suc)
  ultimately show ?case by (simp add: retry_failure [where i = i and fn = fn and backoff = backoff, OF e s] s del: upt_Suc)
qed

text \<open>A loop that returns saw a success or the end of the generator.\<close>

lemma retry_returns:
  assumes "retry fn backoff i = Some y"
  shows "\<exists>n\<ge>i. (\<exists>r. fn n = Inr r) \<or> backoff n = None"
  using assms
proof (rule retry.raw_induct [where P = "\<lambda>fn backoff i y. \<exists>n\<ge>i. (\<exists>r. fn n = Inr r) \<or> backoff n = None", rotated])
  fix loop :: "(nat \<Rightarrow> 'a res) \<Rightarrow> (nat \<Rightarrow> nat option) \<Rightarrow> nat \<Rightarrow> ('a res \<times> nat list) option" and fn backoff i y
  assume IH: "\<And>fn backoff i y. loop fn backoff i = Some y \<Longrightarrow> \<exists>n\<ge>i. (\<exists>r. fn n = Inr r) \<or> backoff n = None"
    and eq: "(case fn i of Inr r \<Rightarrow> Some (Inr r, []) | Inl err \<Rightarrow> (case backoff i of None \<Rightarrow> Some (Inl err, [])
       | Some s \<Rightarrow> Option.bind (loop fn backoff (Suc i)) (\<lambda>(result, sleeps). Some (result, s * 1000 # sleeps)))) = Some y"
  show "\<exists>n\<ge>i. (\<exists>r. fn n = Inr r) \<or> backoff n = None"
  proof (cases "(\<exists>r. fn i = Inr r) \<or> backoff i = None")
    case False
    then obtain e s where "fn i = Inl e" "backoff i = Some s" by (cases "fn i") auto
    then obtain y' where "loop fn backoff (Suc i) = Some y'" using eq by (cases "loop fn backoff (Suc i)") auto
    then show ?thesis using IH Suc_leD by blast
  qed blast
qed

section \<open>PublishTimeManager\<close>

record rollupTimeout =
  rto_rollupNumber :: int
  rto_timeout :: int

definition calculateBaseTimeoutAndRollup :: "int \<Rightarrow> int \<Rightarrow> rollupTimeout" where
  "calculateBaseTimeoutAndRollup now rollupTimeoutDurationSecs =
    (let distanceFromEpochMs = now - 0;
         distanceFromEpochSecs = truncDiv distanceFromEpochMs 1000;
         rollupNumber = truncDiv distanceFromEpochSecs rollupTimeoutDurationSecs
     in \<lparr>rto_rollupNumber = rollupNumber, rto_timeout = rollupNumber * rollupTimeoutDurationSecs * 1000\<rparr>)"

definition calculateLastTimeouts :: "int \<Rightarrow> int \<Rightarrow> rollupTimeout option" where
  "calculateLastTimeouts now rollupTimeoutDurationSecs =
    (if rollupTimeoutDurationSecs < 1 then None
     else Some (calculateBaseTimeoutAndRollup now rollupTimeoutDurationSecs))"

definition calculateNextTimeouts :: "int \<Rightarrow> int \<Rightarrow> rollupTimeout option" where
  "calculateNextTimeouts now rollupTimeoutDurationSecs =
    (if rollupTimeoutDurationSecs < 1 then None
     else let t = calculateBaseTimeoutAndRollup now rollupTimeoutDurationSecs
          in Some \<lparr>rto_rollupNumber = rto_rollupNumber t + 1,
                   rto_timeout = rto_timeout t + rollupTimeoutDurationSecs * 1000\<rparr>)"

section \<open>RateLimiter\<close>

definition MILLISECONDS_IN_DAY :: int where "MILLISECONDS_IN_DAY = 86400 * 1000"
definition MIDNIGHT_THRESHOLD :: int where "MIDNIGHT_THRESHOLD = 60 * 1000"

record valueForDate =
  vd_time :: int
  vd_value :: int

record rateLimiter =
  rl_values :: "string \<rightharpoonup> valueForDate"
  rl_limitPerDay :: int

definition isNewDay :: "int \<Rightarrow> int \<Rightarrow> bool" where
  "isNewDay oldTime newTime = (oldTime div MILLISECONDS_IN_DAY \<noteq> newTime div MILLISECONDS_IN_DAY)"

definition checkAndRefresh :: "int \<Rightarrow> string \<Rightarrow> rateLimiter \<Rightarrow> rateLimiter" where
  "checkAndRefresh now identifier l =
    (if (case rl_values l identifier of None \<Rightarrow> True | Some v \<Rightarrow> isNewDay (vd_time v) now)
     then l\<lparr>rl_values := (rl_values l)(identifier \<mapsto> \<lparr>vd_time = now, vd_value = 0\<rparr>)\<rparr> else l)"

definition storedValue :: "rateLimiter \<Rightarrow> string \<Rightarrow> valueForDate" where
  "storedValue l identifier = the (rl_values l identifier)"

definition rl_add :: "int \<Rightarrow> string \<Rightarrow> int \<Rightarrow> rateLimiter \<Rightarrow> bool \<times> rateLimiter" where
  "rl_add now identifier quantity l =
    (if quantity \<le> 0 then (True, l)
     else let l = checkAndRefresh now identifier l; stored = storedValue l identifier;
              newQuantity = vd_value stored + quantity
          in if newQuantity > rl_limitPerDay l then (False, l)
             else (True, l\<lparr>rl_values := (rl_values l)(identifier \<mapsto> stored\<lparr>vd_value := newQuantity\<rparr>)\<rparr>))"

definition getCurrentValue :: "int \<Rightarrow> string \<Rightarrow> rateLimiter \<Rightarrow> int \<times> rateLimiter" where
  "getCurrentValue now identifier l =
    (let l = checkAndRefresh now identifier l in (vd_value (storedValue l identifier), l))"

definition configureLimit :: "int \<Rightarrow> rateLimiter \<Rightarrow> rateLimiter" where
  "configureLimit limitPerDay l = l\<lparr>rl_limitPerDay := limitPerDay\<rparr>"

definition processDailyTimer :: "rateLimiter \<Rightarrow> rateLimiter" where
  "processDailyTimer l = l\<lparr>rl_values := Map.empty\<rparr>"

definition getIntervalForNextTimeout :: "int \<Rightarrow> int" where
  "getIntervalForNextTimeout currentTime =
    (let nextMidnight = (currentTime div MILLISECONDS_IN_DAY + 1) * MILLISECONDS_IN_DAY;
         msToNextMidnight = nextMidnight - currentTime
     in if msToNextMidnight > MIDNIGHT_THRESHOLD then msToNextMidnight else msToNextMidnight + MILLISECONDS_IN_DAY)"

section \<open>The type of a transaction\<close>

definition getTxTypeFromProofData :: "(ethAddress \<Rightarrow> bool) \<Rightarrow> (ethAddress \<Rightarrow> bool) \<Rightarrow> proofData \<Rightarrow> txType res" where
  "getTxTypeFromProofData isContract isEmpty proofData =
    (if pd_proofId proofData = DEPOSIT then Inr TX_DEPOSIT
     else if pd_proofId proofData = SEND then Inr TX_TRANSFER
     else if pd_proofId proofData = ACCOUNT then Inr TX_ACCOUNT
     else if pd_proofId proofData = DEFI_DEPOSIT then Inr TX_DEFI_DEPOSIT
     else if pd_proofId proofData = DEFI_CLAIM then Inr TX_DEFI_CLAIM
     else mapR (\<lambda>publicOwner. if isContract publicOwner \<or> isEmpty publicOwner
         then TX_WITHDRAW_HIGH_GAS else TX_WITHDRAW_TO_WALLET) (JoinSplit_publicOwner proofData))"

definition getTxTypeFromInnerProofData :: "int \<Rightarrow> txType" where
  "getTxTypeFromInnerProofData proofId =
    (if proofId = DEPOSIT then TX_DEPOSIT else if proofId = SEND then TX_TRANSFER
     else if proofId = ACCOUNT then TX_ACCOUNT else if proofId = DEFI_DEPOSIT then TX_DEFI_DEPOSIT
     else if proofId = DEFI_CLAIM then TX_DEFI_CLAIM else TX_WITHDRAW_TO_WALLET)"

section \<open>The use of an identifier on a day\<close>

text \<open>A run of requests (time, identifier, quantity) with their answers, and the quantity granted on a day.\<close>

definition rl_run ::
    "rateLimiter \<Rightarrow> (int \<times> string \<times> int) list \<Rightarrow> ((int \<times> string \<times> int) \<times> bool) list \<times> rateLimiter" where
  "rl_run l reqs = foldl (\<lambda>(out, l) (now, identifier, quantity).
     let (ok, l) = rl_add now identifier quantity l in (out @ [((now, identifier, quantity), ok)], l)) ([], l) reqs"

definition grantedOn :: "int \<Rightarrow> string \<Rightarrow> ((int \<times> string \<times> int) \<times> bool) list \<Rightarrow> int" where
  "grantedOn day identifier out = sum_list (map (\<lambda>((now, i, quantity), ok).
     if ok \<and> i = identifier \<and> now div MILLISECONDS_IN_DAY = day then max 0 quantity else 0) out)"

lemma grantedOn_simps [simp]:
  "grantedOn day i [] = 0"
  "grantedOn day i (out @ [((now, i', quantity), ok)]) = grantedOn day i out
     + (if ok \<and> i' = i \<and> now div MILLISECONDS_IN_DAY = day then max 0 quantity else 0)"
  by (simp_all add: grantedOn_def)

lemma rl_run_simps [simp]:
  "rl_run l [] = ([], l)"
  "rl_run l (reqs @ [(now, i, quantity)]) = (let (out, l) = rl_run l reqs; (ok, l) = rl_add now i quantity l
     in (out @ [((now, i, quantity), ok)], l))"
  by (simp_all add: rl_run_def split_beta Let_def)

definition newRateLimiter :: "int \<Rightarrow> rateLimiter" where
  "newRateLimiter limitPerDay = \<lparr>rl_values = Map.empty, rl_limitPerDay = limitPerDay\<rparr>"

text \<open>After the requests up to time \<open>now\<close> the stored value is what was granted on the stored day, and nothing was
  granted on a later day.\<close>

fun usage_ok :: "int \<Rightarrow> ((int \<times> string \<times> int) \<times> bool) list \<Rightarrow> string \<Rightarrow> valueForDate option \<Rightarrow> bool" where
  "usage_ok now out i None \<longleftrightarrow> (\<forall>day. grantedOn day i out = 0)"
| "usage_ok now out i (Some v) \<longleftrightarrow> vd_time v \<le> now
     \<and> grantedOn (vd_time v div MILLISECONDS_IN_DAY) i out = vd_value v
     \<and> (\<forall>day>vd_time v div MILLISECONDS_IN_DAY. grantedOn day i out = 0)"

definition rl_inv :: "int \<Rightarrow> int \<Rightarrow> ((int \<times> string \<times> int) \<times> bool) list \<Rightarrow> rateLimiter \<Rightarrow> bool" where
  "rl_inv perDay now out l \<longleftrightarrow> rl_limitPerDay l = perDay \<and> (\<forall>i. usage_ok now out i (rl_values l i))"

lemma day_mono: "x \<le> y \<Longrightarrow> x div MILLISECONDS_IN_DAY \<le> y div MILLISECONDS_IN_DAY"
  by (rule zdiv_mono1) (simp_all add: MILLISECONDS_IN_DAY_def)

lemma usage_ok_later: "usage_ok now out i v \<Longrightarrow> now \<le> now' \<Longrightarrow> usage_ok now' out i v"
  by (cases v) auto

lemma usage_ok_fresh:
  assumes "usage_ok now out i v" and "now \<le> now'"
    and "case v of None \<Rightarrow> True | Some v \<Rightarrow> isNewDay (vd_time v) now'"
  shows "usage_ok now' out i (Some \<lparr>vd_time = now', vd_value = 0\<rparr>)"
proof (cases v)
  case (Some w)
  have "vd_time w div MILLISECONDS_IN_DAY \<le> now' div MILLISECONDS_IN_DAY"
    using assms(1,2) Some by (intro day_mono) simp
  then have "vd_time w div MILLISECONDS_IN_DAY < now' div MILLISECONDS_IN_DAY"
    using assms(3) Some by (simp add: isNewDay_def)
  then show ?thesis using assms(1) Some by auto
qed (use assms in simp)

lemma rl_inv_later: "rl_inv perDay now out l \<Longrightarrow> now \<le> now' \<Longrightarrow> rl_inv perDay now' out l"
  unfolding rl_inv_def using usage_ok_later by metis

lemma rl_inv_refresh:
  assumes "rl_inv perDay now out l" and "now \<le> now'"
  shows "rl_inv perDay now' out (checkAndRefresh now' i l)"
    and "\<exists>v. rl_values (checkAndRefresh now' i l) i = Some v
      \<and> vd_time v div MILLISECONDS_IN_DAY = now' div MILLISECONDS_IN_DAY
      \<and> vd_value v = grantedOn (now' div MILLISECONDS_IN_DAY) i out"
proof -
  have l: "usage_ok now out j (rl_values l j)" "usage_ok now' out j (rl_values l j)" for j
    using assms usage_ok_later [OF _ assms(2)] by (auto simp: rl_inv_def)
  note fresh = usage_ok_fresh [OF l(1) assms(2)]
  show "rl_inv perDay now' out (checkAndRefresh now' i l)"
    using assms(1) l(2) fresh [of i] by (simp add: rl_inv_def checkAndRefresh_def)
  show "\<exists>v. rl_values (checkAndRefresh now' i l) i = Some v
      \<and> vd_time v div MILLISECONDS_IN_DAY = now' div MILLISECONDS_IN_DAY
      \<and> vd_value v = grantedOn (now' div MILLISECONDS_IN_DAY) i out"
    using l(2) [of i] fresh [of i]
    by (cases "rl_values l i") (auto simp: checkAndRefresh_def isNewDay_def)
qed

lemma grantedOn_other: "day \<noteq> now div MILLISECONDS_IN_DAY \<or> i \<noteq> j \<or> \<not> ok \<Longrightarrow>
    grantedOn day i (out @ [((now, j, quantity), ok)]) = grantedOn day i out"
  by auto

lemma rl_inv_add:
  assumes inv: "rl_inv perDay now out l" and now: "now \<le> now'" and a: "rl_add now' i quantity l = (ok, l')"
  shows "rl_inv perDay now' (out @ [((now', i, quantity), ok)]) l'
    \<and> (ok \<longleftrightarrow> quantity \<le> 0 \<or> grantedOn (now' div MILLISECONDS_IN_DAY) i out + quantity \<le> perDay)"
proof (cases "quantity \<le> 0")
  case True
  have "usage_ok now' (out @ [((now', i, quantity), ok)]) j v" if "usage_ok now out j v" for j v
    using that now True by (cases v) auto
  then show ?thesis using inv a True by (auto simp: rl_inv_def rl_add_def)
next
  case False
  let ?l = "checkAndRefresh now' i l"
  obtain v where v: "rl_values ?l i = Some v" "vd_time v div MILLISECONDS_IN_DAY = now' div MILLISECONDS_IN_DAY"
    "vd_value v = grantedOn (now' div MILLISECONDS_IN_DAY) i out" using rl_inv_refresh(2) [OF inv now] by blast
  have inv': "rl_limitPerDay ?l = perDay" "usage_ok now' out j (rl_values ?l j)" for j
    using rl_inv_refresh(1) [OF inv now] by (auto simp: rl_inv_def)
  have keep: "usage_ok now' (out @ [((now', i, quantity), b)]) j w" if "usage_ok now' out j w" "j \<noteq> i \<or> \<not> b" for j w b
    using that by (cases w) auto
  show ?thesis
  proof (cases "vd_value v + quantity > perDay")
    case True
    then have "ok = False" "l' = ?l" using a False v inv'(1) by (auto simp: rl_add_def storedValue_def Let_def)
    then show ?thesis using inv' True False v(3) keep by (auto simp: rl_inv_def)
  next
    case ok: False
    then have l': "ok = True" "l' = ?l\<lparr>rl_values := (rl_values ?l)(i \<mapsto> v\<lparr>vd_value := vd_value v + quantity\<rparr>)\<rparr>"
      using a False v(1) inv'(1) by (auto simp: rl_add_def storedValue_def Let_def)
    have "usage_ok now' (out @ [((now', i, quantity), True)]) i (Some (v\<lparr>vd_value := vd_value v + quantity\<rparr>))"
      using inv'(2) [of i] v False by auto
    then show ?thesis using l' inv' keep ok v(3) by (auto simp: rl_inv_def)
  qed
qed

lemma rl_run_inv:
  assumes "sorted (map fst reqs)" and "\<forall>req\<in>set reqs. fst req \<le> now"
  shows "case rl_run (newRateLimiter perDay) reqs of (out, l) \<Rightarrow> rl_inv perDay now out l
    \<and> (\<forall>day i. 0 \<le> perDay \<longrightarrow> grantedOn day i out \<le> perDay)"
  using assms
proof (induction reqs arbitrary: now rule: rev_induct)
  case Nil
  then show ?case by (simp add: rl_inv_def newRateLimiter_def)
next
  case (snoc req reqs)
  obtain t i q where req: "req = (t, i, q)" by (cases req)
  obtain out l where r: "rl_run (newRateLimiter perDay) reqs = (out, l)" by (cases "rl_run (newRateLimiter perDay) reqs")
  obtain ok l' where a: "rl_add t i q l = (ok, l')" by (cases "rl_add t i q l")
  have inv: "rl_inv perDay t out l" "\<And>day i. 0 \<le> perDay \<Longrightarrow> grantedOn day i out \<le> perDay"
    using snoc.IH [of t] snoc.prems req r by (auto simp: sorted_append)
  note s = rl_inv_add [OF inv(1) order_refl a]
  have "rl_inv perDay now (out @ [((t, i, q), ok)]) l'"
    by (rule rl_inv_later [OF conjunct1 [OF s]]) (use snoc.prems(2) req in simp)
  moreover have "grantedOn day j (out @ [((t, i, q), ok)]) \<le> perDay" if "0 \<le> perDay" for day j
    using s inv(2) [OF that] by (auto simp: max_def)
  ultimately show ?case using r a req by simp
qed

section \<open>Properties\<close>

text \<open>C40: With the default backoff the retry loop returns exactly when some call succeeds; it then returns the
  result of the first success, having slept the backoff times before it, and a loop whose calls all fail never
  returns. With a generator that ends, the error of the attempt after which it had nothing left is thrown, having slept
  all its times.\<close>

theorem retry_until_first_success:
  "(\<exists>y. retry fn backoffGenerator 0 = Some y) = (\<exists>n r. fn n = Inr r)
   \<and> (\<forall>n r. fn n = Inr r \<and> (\<forall>k<n. \<exists>e. fn k = Inl e) \<longrightarrow>
        retry fn backoffGenerator 0 = Some (Inr r, map (\<lambda>k. the (backoffGenerator k) * 1000) [0..<n]))
   \<and> (\<forall>backoff n e. backoff n = None \<and> (\<forall>k<n. backoff k \<noteq> None) \<and> fn n = Inl e \<and> (\<forall>k<n. \<exists>e. fn k = Inl e) \<longrightarrow>
        retry fn backoff 0 = Some (Inl e, map (\<lambda>k. the (backoff k) * 1000) [0..<n]))"
proof -
  have b: "backoffGenerator k \<noteq> None" for k by (simp add: backoffGenerator_def Let_def)
  have first: "retry fn backoffGenerator 0 = Some (Inr r, map (\<lambda>k. the (backoffGenerator k) * 1000) [0..<n])"
    if "fn n = Inr r" "\<forall>k<n. \<exists>e. fn k = Inl e" for n r
    using retry_until_success [of fn 0 n r backoffGenerator] that b by simp
  have "\<exists>y. retry fn backoffGenerator 0 = Some y" if "\<exists>n r. fn n = Inr r"
  proof -
    let ?P = "\<lambda>n. \<exists>r. fn n = Inr r"
    have least: "?P (Least ?P)" using LeastI_ex [of ?P] that by blast
    have "\<exists>e. fn k = Inl e" if "k < Least ?P" for k
      using not_less_Least [OF that] by (cases "fn k") auto
    then show ?thesis using first least by blast
  qed
  moreover have "\<exists>n r. fn n = Inr r" if "\<exists>y. retry fn backoffGenerator 0 = Some y"
    using that retry_returns b by metis
  moreover have "retry fn backoff 0 = Some (Inl e, map (\<lambda>k. the (backoff k) * 1000) [0..<n])"
    if "backoff n = None" "\<forall>k<n. backoff k \<noteq> None" "fn n = Inl e" "\<forall>k<n. \<exists>e. fn k = Inl e" for backoff n e
    using retry_exhausted [of fn 0 n e backoff] that by simp
  ultimately show ?thesis using first by blast
qed

lemma retry_until_first_success_witness:
  "retry (\<lambda>i. if i < 2 then Inl RangeError else Inr i) backoffGenerator 0 = Some (Inr 2, [1000, 1000])
   \<and> retry (\<lambda>i. Inl RangeError :: unit res) (\<lambda>i. if i < 2 then Some 3 else None) 0 = Some (Inl RangeError, [3000, 3000])"
proof -
  let ?fn = "\<lambda>i :: nat. if i < 2 then Inl RangeError else Inr i"
  have "retry ?fn backoffGenerator 0 = Some (Inr 2, map (\<lambda>k. the (backoffGenerator k) * 1000) [0..<2])"
    using retry_until_first_success [of ?fn] by simp
  moreover have "retry (\<lambda>i. Inl RangeError :: unit res) (\<lambda>i. if i < 2 then Some 3 else None) 0
      = Some (Inl RangeError, map (\<lambda>k. the (if k < (2 :: nat) then Some 3 else None) * 1000) [0..<2])"
    by (rule retry_until_first_success [of "\<lambda>_. Inl RangeError", THEN conjunct2, THEN conjunct2, rule_format]) simp
  ultimately show ?thesis by (simp add: backoffGenerator_def numeral_2_eq_2)
qed

text \<open>The published timeouts enclose the present: the last one is not later than now and the next one is
  later, they are one duration apart, and both are whole multiples of the duration since the epoch.\<close>

theorem timeouts_enclose_now:
  assumes "0 \<le> now" and "1 \<le> d"
  shows "\<exists>l n. calculateLastTimeouts now d = Some l \<and> calculateNextTimeouts now d = Some n
    \<and> rto_timeout l \<le> now \<and> now < rto_timeout n \<and> rto_timeout n = rto_timeout l + d * 1000
    \<and> rto_timeout l = rto_rollupNumber l * (d * 1000) \<and> rto_rollupNumber n = rto_rollupNumber l + 1"
proof -
  let ?s = "now div 1000"
  have t: "truncDiv now 1000 = ?s" "truncDiv ?s d = ?s div d"
    using assms by (auto simp: truncDiv_def sgn_if div_eq_0_iff pos_imp_zdiv_nonneg_iff zdiv_eq_0_iff)
  have "?s div d * d \<le> ?s" "?s < ?s div d * d + d"
    using assms(2) div_mult_mod_eq [of ?s d] pos_mod_sign [of d ?s] pos_mod_bound [of d ?s] by linarith+
  then have "?s div d * d * 1000 \<le> now" "now < ?s div d * d * 1000 + d * 1000"
    by linarith+
  then show ?thesis
    using assms by (simp add: calculateLastTimeouts_def calculateNextTimeouts_def calculateBaseTimeoutAndRollup_def Let_def t)
qed

lemma timeouts_enclose_now_witness:
  "\<exists>l n. calculateLastTimeouts 7200500 3600 = Some l \<and> calculateNextTimeouts 7200500 3600 = Some n
    \<and> rto_timeout l \<le> 7200500 \<and> 7200500 < rto_timeout n"
  using timeouts_enclose_now [of 7200500 3600] by auto

text \<open>The rate limiter grants a request exactly when it keeps what the identifier was granted on that day
  within the limit, so no identifier is ever granted more than the limit on one day.\<close>

theorem rate_limit_exact:
  assumes "sorted (map fst reqs @ [now])" and "0 \<le> perDay" and "rl_run (newRateLimiter perDay) reqs = (out, l)"
  shows "(fst (rl_add now i quantity l) \<longleftrightarrow>
      quantity \<le> 0 \<or> grantedOn (now div MILLISECONDS_IN_DAY) i out + quantity \<le> perDay)
    \<and> grantedOn day i out \<le> perDay"
proof -
  have "rl_inv perDay now out l \<and> grantedOn day i out \<le> perDay"
    using rl_run_inv [of reqs now perDay] assms by (auto simp: sorted_append)
  then show ?thesis using rl_inv_add [of perDay now out l now i quantity] by (cases "rl_add now i quantity l") auto
qed

lemma rate_limit_exact_witness:
  "fst (rl_add 5 ''a'' 3 (snd (rl_run (newRateLimiter 4) [(1, ''a'', 2)]))) = False"
proof -
  have r: "rl_run (newRateLimiter 4) ([] @ [(1, ''a'', 2)])
      = ([((1, ''a'', 2), True)], newRateLimiter 4\<lparr>rl_values := [''a'' \<mapsto> \<lparr>vd_time = 1, vd_value = 2\<rparr>]\<rparr>)"
    by (simp only: rl_run_simps) (simp add: rl_add_def checkAndRefresh_def storedValue_def newRateLimiter_def)
  show ?thesis
    using rate_limit_exact [of "[(1, ''a'', 2)]" 5 4 _ _ "''a''" 3] r by (simp add: grantedOn_def MILLISECONDS_IN_DAY_def)
qed

text \<open>The timer of the rate limiter fires at a midnight that is more than a minute and at most a day and a
  minute away.\<close>

theorem daily_timer_at_midnight:
  "(currentTime + getIntervalForNextTimeout currentTime) mod MILLISECONDS_IN_DAY = 0
   \<and> MIDNIGHT_THRESHOLD < getIntervalForNextTimeout currentTime
   \<and> getIntervalForNextTimeout currentTime \<le> MILLISECONDS_IN_DAY + MIDNIGHT_THRESHOLD"
proof -
  let ?m = "(currentTime div MILLISECONDS_IN_DAY + 1) * MILLISECONDS_IN_DAY"
  have "currentTime < ?m" "?m \<le> currentTime + MILLISECONDS_IN_DAY"
    unfolding MILLISECONDS_IN_DAY_def by presburger+
  moreover have "currentTime + getIntervalForNextTimeout currentTime \<in> {?m, ?m + MILLISECONDS_IN_DAY}"
    by (auto simp: getIntervalForNextTimeout_def Let_def)
  ultimately show ?thesis
    by (auto simp: getIntervalForNextTimeout_def Let_def MIDNIGHT_THRESHOLD_def) (auto simp: MILLISECONDS_IN_DAY_def)
qed

end
