(* ===== verification/RollupProof.thy ===== *)
theory RollupProof
  imports InnerProof
begin

text \<open>
  \<open>barretenberg.js/src/rollup_proof/rollup_proof_data.ts\<close>: the public inputs of a rollup
  proof. A header of 142 words of 32 bytes (14 single fields, 16 fee assets with their sums, 32
  bridge calls with their deposit sums and interaction notes) is followed by the inner proofs:
  in full for \<open>toBuffer\<close>/\<open>fromBuffer\<close>, compressed and without trailing padding for
  \<open>encode\<close>/\<open>decode\<close>. The SHA-256 and Keccak digests are parameters. The fields are named as in
  the class; \<open>rollupHeader\<close> is the object \<open>parseHeaderInputs\<close> returns.
\<close>

definition NUM_FEE_ASSETS_PER_BLOCK :: nat where "NUM_FEE_ASSETS_PER_BLOCK = 16"
definition NUM_BRIDGE_CALLS_PER_BLOCK :: nat where "NUM_BRIDGE_CALLS_PER_BLOCK = 32"

record rollupHeader =
  rh_rollupId :: int
  rh_rollupSize :: int
  rh_dataStartIndex :: int
  rh_oldDataRoot :: buffer
  rh_newDataRoot :: buffer
  rh_oldNullRoot :: buffer
  rh_newNullRoot :: buffer
  rh_oldDataRootsRoot :: buffer
  rh_newDataRootsRoot :: buffer
  rh_oldDefiRoot :: buffer
  rh_newDefiRoot :: buffer
  rh_bridgeCallDatas :: "buffer list"
  rh_defiDepositSums :: "int list"
  rh_assetIds :: "int list"
  rh_totalTxFees :: "int list"
  rh_defiInteractionNotes :: "buffer list"
  rh_prevDefiInteractionHash :: buffer
  rh_rollupBeneficiary :: buffer
  rh_numRollupTxs :: int

record rollupProofData = rollupHeader +
  rp_innerProofData :: "innerProofData list"

section \<open>The header\<close>

text \<open>The offsets of the enum \<open>RollupProofDataFields\<close>, in words.\<close>

definition F_BRIDGE_CALL_DATAS :: nat where "F_BRIDGE_CALL_DATAS = 11"
definition F_DEFI_DEPOSIT_SUMS :: nat where
  "F_DEFI_DEPOSIT_SUMS = F_BRIDGE_CALL_DATAS + NUM_BRIDGE_CALLS_PER_BLOCK"
definition F_FEE_ASSET_IDS :: nat where
  "F_FEE_ASSET_IDS = F_DEFI_DEPOSIT_SUMS + NUM_BRIDGE_CALLS_PER_BLOCK"
definition F_FEE_SUMS :: nat where
  "F_FEE_SUMS = F_FEE_ASSET_IDS + NUM_FEE_ASSETS_PER_BLOCK"
definition F_DEFI_INTERACTIONS :: nat where
  "F_DEFI_INTERACTIONS = F_FEE_SUMS + NUM_FEE_ASSETS_PER_BLOCK"
definition F_PREV_DEFI_INTERACTION_HASH :: nat where
  "F_PREV_DEFI_INTERACTION_HASH = F_DEFI_INTERACTIONS + NUM_BRIDGE_CALLS_PER_BLOCK"
definition F_ROLLUP_BENEFICIARY :: nat where
  "F_ROLLUP_BENEFICIARY = F_PREV_DEFI_INTERACTION_HASH + 1"
definition F_NUM_ROLLUP_TXS :: nat where
  "F_NUM_ROLLUP_TXS = F_ROLLUP_BENEFICIARY + 1"

lemmas field_indices = F_BRIDGE_CALL_DATAS_def F_DEFI_DEPOSIT_SUMS_def F_FEE_ASSET_IDS_def F_FEE_SUMS_def
  F_DEFI_INTERACTIONS_def F_PREV_DEFI_INTERACTION_HASH_def F_ROLLUP_BENEFICIARY_def F_NUM_ROLLUP_TXS_def
  NUM_FEE_ASSETS_PER_BLOCK_def NUM_BRIDGE_CALLS_PER_BLOCK_def

definition LENGTH_ROLLUP_HEADER_INPUTS :: nat where
  "LENGTH_ROLLUP_HEADER_INPUTS = (14 + NUM_FEE_ASSETS_PER_BLOCK * 2 + NUM_BRIDGE_CALLS_PER_BLOCK * 3) * 32"

text \<open>\<open>proofData.subarray(f * 32, f * 32 + 32)\<close> and \<open>proofData.readUInt32BE(f * 32 + 28)\<close>.\<close>

definition headerWord :: "buffer \<Rightarrow> nat \<Rightarrow> buffer" where
  "headerWord proofData f = bslice proofData (f * 32) (f * 32 + 32)"

definition headerNum :: "buffer \<Rightarrow> nat \<Rightarrow> int res" where
  "headerNum proofData f = readUInt32BE proofData (f * 32 + 28)"

definition getRollupIdFromBuffer :: "buffer \<Rightarrow> int res" where
  "getRollupIdFromBuffer proofData = headerNum proofData 0"

definition getRollupSizeFromBuffer :: "buffer \<Rightarrow> int res" where
  "getRollupSizeFromBuffer proofData = headerNum proofData 1"

definition getBridgeCallDatas :: "buffer \<Rightarrow> buffer list" where
  "getBridgeCallDatas proofData =
     map (\<lambda>i. headerWord proofData (F_BRIDGE_CALL_DATAS + i)) [0..<NUM_BRIDGE_CALLS_PER_BLOCK]"

definition parseHeaderInputs :: "buffer \<Rightarrow> rollupHeader res" where
  "parseHeaderInputs proofData =
     bindE (getRollupIdFromBuffer proofData) (\<lambda>rollupId.
     bindE (headerNum proofData 1) (\<lambda>rollupSize.
     bindE (headerNum proofData 2) (\<lambda>dataStartIndex.
     bindE (mapE (\<lambda>i. headerNum proofData (F_FEE_ASSET_IDS + i)) [0..<NUM_FEE_ASSETS_PER_BLOCK]) (\<lambda>assetIds.
     bindE (headerNum proofData F_NUM_ROLLUP_TXS) (\<lambda>numRollupTxs. Inr
       \<lparr>rh_rollupId = rollupId,
        rh_rollupSize = rollupSize,
        rh_dataStartIndex = dataStartIndex,
        rh_oldDataRoot = headerWord proofData 3,
        rh_newDataRoot = headerWord proofData 4,
        rh_oldNullRoot = headerWord proofData 5,
        rh_newNullRoot = headerWord proofData 6,
        rh_oldDataRootsRoot = headerWord proofData 7,
        rh_newDataRootsRoot = headerWord proofData 8,
        rh_oldDefiRoot = headerWord proofData 9,
        rh_newDefiRoot = headerWord proofData 10,
        rh_bridgeCallDatas = getBridgeCallDatas proofData,
        rh_defiDepositSums =
          map (\<lambda>i. toBigIntBE (headerWord proofData (F_DEFI_DEPOSIT_SUMS + i))) [0..<NUM_BRIDGE_CALLS_PER_BLOCK],
        rh_assetIds = assetIds,
        rh_totalTxFees =
          map (\<lambda>i. toBigIntBE (headerWord proofData (F_FEE_SUMS + i))) [0..<NUM_FEE_ASSETS_PER_BLOCK],
        rh_defiInteractionNotes =
          map (\<lambda>i. headerWord proofData (F_DEFI_INTERACTIONS + i)) [0..<NUM_BRIDGE_CALLS_PER_BLOCK],
        rh_prevDefiInteractionHash = headerWord proofData F_PREV_DEFI_INTERACTION_HASH,
        rh_rollupBeneficiary = headerWord proofData F_ROLLUP_BENEFICIARY,
        rh_numRollupTxs = numRollupTxs\<rparr>)))))"

definition newRollupProofData :: "rollupHeader \<Rightarrow> innerProofData list \<Rightarrow> rollupProofData res" where
  "newRollupProofData h innerProofs =
    (if length (rh_bridgeCallDatas h) \<noteq> NUM_BRIDGE_CALLS_PER_BLOCK
       then Inl (Thrown ''Expect bridgeCallDatas to be an array of size 32.'')
     else if length (rh_defiDepositSums h) \<noteq> NUM_BRIDGE_CALLS_PER_BLOCK
       then Inl (Thrown ''Expect defiDepositSums to be an array of size 32.'')
     else if length (rh_totalTxFees h) \<noteq> NUM_FEE_ASSETS_PER_BLOCK
       then Inl (Thrown ''Expect totalTxFees to be an array of size 16.'')
     else if length (rh_defiInteractionNotes h) \<noteq> NUM_BRIDGE_CALLS_PER_BLOCK
       then Inl (Thrown ''Expect defiInteractionNotes to be an array of size 32.'')
     else Inr (rollupHeader.extend h (rollupProofData.fields innerProofs)))"

text \<open>The header part of \<open>toBuffer\<close> and \<open>encode\<close>, as the list of its words.\<close>

definition headerBuffers :: "'a rollupHeader_scheme \<Rightarrow> buffer list res" where
  "headerBuffers r =
     bindE (numToUInt32BE (rh_rollupId r) 32) (\<lambda>rollupId.
     bindE (numToUInt32BE (rh_rollupSize r) 32) (\<lambda>rollupSize.
     bindE (numToUInt32BE (rh_dataStartIndex r) 32) (\<lambda>dataStartIndex.
     bindE (mapE (\<lambda>a. numToUInt32BE a 32) (rh_assetIds r)) (\<lambda>assetIds.
     bindE (numToUInt32BE (rh_numRollupTxs r) 32) (\<lambda>numRollupTxs. Inr (
       [rollupId, rollupSize, dataStartIndex,
        rh_oldDataRoot r, rh_newDataRoot r, rh_oldNullRoot r, rh_newNullRoot r,
        rh_oldDataRootsRoot r, rh_newDataRootsRoot r, rh_oldDefiRoot r, rh_newDefiRoot r]
       @ rh_bridgeCallDatas r
       @ map (\<lambda>v. toBufferBE v 32) (rh_defiDepositSums r)
       @ assetIds
       @ map (\<lambda>a. toBufferBE a 32) (rh_totalTxFees r)
       @ rh_defiInteractionNotes r
       @ [rh_prevDefiInteractionHash r, rh_rollupBeneficiary r, numRollupTxs]))))))"

section \<open>toBuffer and fromBuffer\<close>

definition RollupProofData_toBuffer :: "rollupProofData \<Rightarrow> buffer res" where
  "RollupProofData_toBuffer r =
     bindE (headerBuffers r) (\<lambda>header.
     bindE (mapE InnerProofData_toBuffer (rp_innerProofData r)) (\<lambda>inner.
     Inr (concat (header @ inner))))"

definition RollupProofData_fromBuffer :: "buffer \<Rightarrow> rollupProofData res" where
  "RollupProofData_fromBuffer proofData =
     bindE (parseHeaderInputs proofData) (\<lambda>h.
       if rh_rollupSize h = 0 then Inl (Thrown ''Empty rollup.'')
       else bindE (mapE (\<lambda>i. let startIndex = LENGTH_ROLLUP_HEADER_INPUTS + i * InnerProofData_LENGTH
                             in InnerProofData_fromBuffer
                                  (bslice proofData startIndex (startIndex + InnerProofData_LENGTH)))
                        [0..<nat (rh_rollupSize h)])
              (newRollupProofData h))"

definition RollupProofData_randomData ::
  "int \<Rightarrow> int \<Rightarrow> int \<Rightarrow> innerProofData list option \<Rightarrow> bridgeCallData list \<Rightarrow> rollupProofData res" where
  "RollupProofData_randomData rollupId numTxs dataStartIndex innerProofs bridgeCalls =
    (if (numTxs < 0 \<or> 2 ^ 32 \<le> numTxs) \<and> innerProofs = None
       \<or> NUM_BRIDGE_CALLS_PER_BLOCK < length bridgeCalls then Inl RangeError
     else let ipd = (case innerProofs of
                None \<Rightarrow> replicate (nat numTxs) InnerProofData_PADDING
              | Some ps \<Rightarrow> ps)
       in newRollupProofData
         \<lparr>rh_rollupId = rollupId, rh_rollupSize = numTxs, rh_dataStartIndex = dataStartIndex,
          rh_oldDataRoot = zeros 32, rh_newDataRoot = zeros 32, rh_oldNullRoot = zeros 32,
          rh_newNullRoot = zeros 32, rh_oldDataRootsRoot = zeros 32, rh_newDataRootsRoot = zeros 32,
          rh_oldDefiRoot = zeros 32, rh_newDefiRoot = zeros 32,
          rh_bridgeCallDatas = map BridgeCallData_toBuffer bridgeCalls
            @ replicate (NUM_BRIDGE_CALLS_PER_BLOCK - length bridgeCalls) (zeros 32),
          rh_defiDepositSums = replicate NUM_BRIDGE_CALLS_PER_BLOCK 0,
          rh_assetIds = replicate NUM_FEE_ASSETS_PER_BLOCK 0,
          rh_totalTxFees = replicate NUM_FEE_ASSETS_PER_BLOCK 0,
          rh_defiInteractionNotes = replicate NUM_BRIDGE_CALLS_PER_BLOCK (zeros 32),
          rh_prevDefiInteractionHash = zeros 32, rh_rollupBeneficiary = zeros 32,
          rh_numRollupTxs = int (length ipd)\<rparr> ipd)"

section \<open>encode and decode\<close>

text \<open>The index of the last inner proof that is not padding, 0 when there is none.\<close>

definition lastNonEmptyIndex :: "innerProofData list \<Rightarrow> nat" where
  "lastNonEmptyIndex ps = foldl (\<lambda>last (i, p). if ip_proofId p \<noteq> PADDING then i else last) 0
     (enumerate 0 ps)"

definition RollupProofData_encode :: "rollupProofData \<Rightarrow> buffer res" where
  "RollupProofData_encode r =
    (let numRealTxns = lastNonEmptyIndex (rp_innerProofData r) + 1
     in bindE (mapE encodeInnerProof (take numRealTxns (rp_innerProofData r))) (\<lambda>encodedInnerProof.
        bindE (headerBuffers r) (\<lambda>header.
        bindE (numToUInt32BE (int numRealTxns) 4) (\<lambda>numReal.
        bindE (numToUInt32BE (int (length (concat encodedInnerProof))) 4) (\<lambda>len.
        Inr (concat (header @ [numReal, len] @ encodedInnerProof)))))))"

text \<open>The loop of \<open>decode\<close>: it ends because every class has a positive \<open>ENCODED_LENGTH\<close>.\<close>

lemma bindE_cong [fundef_cong]:
  "r = r' \<Longrightarrow> (\<And>x. r' = Inr x \<Longrightarrow> f x = g x) \<Longrightarrow> bindE r f = bindE r' g"
  by (cases r') simp_all

function decodeInnerProofs :: "buffer \<Rightarrow> nat \<Rightarrow> int \<Rightarrow> innerProofData list res" where
  "decodeInnerProofs encoded startIndex innerProofDataLength =
    (if 0 < innerProofDataLength
     then bindE (decodeInnerProof (drop startIndex encoded)) (\<lambda>innerProof.
          bindE (decodeInnerProofs encoded (startIndex + ENCODED_LENGTH innerProof)
                   (innerProofDataLength - int (ENCODED_LENGTH innerProof))) (\<lambda>rest.
          Inr (rip_proofData innerProof # rest)))
     else Inr [])"
  by pat_completeness auto
termination
  by (relation "measure (\<lambda>(_, _, len). nat len)") auto

declare decodeInnerProofs.simps [simp del]

definition RollupProofData_decode :: "buffer \<Rightarrow> rollupProofData res" where
  "RollupProofData_decode encoded =
     bindE (parseHeaderInputs encoded) (\<lambda>h.
       if rh_rollupSize h = 0 then Inl (Thrown ''Empty rollup.'')
       else let startIndex = LENGTH_ROLLUP_HEADER_INPUTS + 4 in
         bindE (readUInt32BE encoded startIndex) (\<lambda>innerProofDataLength.
         bindE (decodeInnerProofs encoded (startIndex + 4) innerProofDataLength) (\<lambda>innerProofs.
         newRollupProofData h (innerProofs
           @ replicate (nat (rh_rollupSize h) - length innerProofs) InnerProofData_PADDING))))"

section \<open>Totals and ids\<close>

definition RollupProofData_rollupHash ::
  "(buffer \<Rightarrow> buffer) \<Rightarrow> (buffer \<Rightarrow> buffer) \<Rightarrow> rollupProofData \<Rightarrow> buffer res" where
  "RollupProofData_rollupHash keccak sha256 r =
     bindE (mapE (InnerProofData_txId keccak) (rp_innerProofData r)) (\<lambda>allTxIds.
       Inr (sha256 (concat allTxIds)))"

text \<open>\<open>filter\<close>, then \<open>filter\<close> on the asset id, then \<open>reduce\<close>: the asset id is read for every
  proof of the right kind.\<close>

definition totalPublic :: "int \<Rightarrow> innerProofData list \<Rightarrow> int \<Rightarrow> int res" where
  "totalPublic proofId ps assetId =
     bindE (mapE (\<lambda>p. bindE (RollupProof_assetId p) (\<lambda>a. Inr (a, RollupProof_publicValue p)))
       (filter (\<lambda>p. ip_proofId p = proofId) ps)) (\<lambda>vs.
     Inr (foldl (\<lambda>a (_, v). a + v) 0 (filter (\<lambda>(a, _). a = assetId) vs)))"

definition getTotalDeposited :: "rollupProofData \<Rightarrow> int \<Rightarrow> int res" where
  "getTotalDeposited r assetId = totalPublic DEPOSIT (rp_innerProofData r) assetId"

definition getTotalWithdrawn :: "rollupProofData \<Rightarrow> int \<Rightarrow> int res" where
  "getTotalWithdrawn r assetId = totalPublic WITHDRAW (rp_innerProofData r) assetId"

definition getTotalDefiDeposit :: "rollupProofData \<Rightarrow> int \<Rightarrow> int res" where
  "getTotalDefiDeposit r assetId =
     bindE (mapE (\<lambda>(bridgeCallData, depositSum).
              bindE (BridgeCallData_fromBuffer bridgeCallData) (\<lambda>b.
                Inr (if bcd_inputAssetIdA b = assetId \<or> bcd_inputAssetIdB b = Some assetId
                     then depositSum else 0)))
            (zip (rh_bridgeCallDatas r) (rh_defiDepositSums r)))
       (\<lambda>vs. Inr (foldl (+) 0 vs))"

text \<open>\<open>indexOf\<close>, then the fee at that index, \<open>undefined\<close> (\<open>None\<close>) past the 16 fee sums.\<close>

fun indexOf :: "'a \<Rightarrow> 'a list \<Rightarrow> nat option" where
  "indexOf x [] = None"
| "indexOf x (y # ys) = (if x = y then Some 0 else map_option Suc (indexOf x ys))"

definition getTotalFees :: "rollupProofData \<Rightarrow> int \<Rightarrow> int option" where
  "getTotalFees r assetId = (case indexOf assetId (rh_assetIds r) of
     None \<Rightarrow> Some 0
   | Some i \<Rightarrow> if i < length (rh_totalTxFees r) then Some (rh_totalTxFees r ! i) else None)"

definition getTxIdsFromBuffer :: "(buffer \<Rightarrow> buffer) \<Rightarrow> buffer \<Rightarrow> buffer list res" where
  "getTxIdsFromBuffer keccak proofData =
     bindE (getRollupSizeFromBuffer proofData) (\<lambda>rollupSize.
     bindE (mapE (\<lambda>i. let innerProofStart = LENGTH_ROLLUP_HEADER_INPUTS + i * InnerProofData_LENGTH
                       in createTxId keccak
                            (bslice proofData innerProofStart (innerProofStart + InnerProofData_LENGTH)))
              [0..<nat rollupSize]) (\<lambda>ids.
     bindE (InnerProofData_txId keccak InnerProofData_PADDING) (\<lambda>padding.
     Inr (filter (\<lambda>i. i \<noteq> padding) ids))))"

definition getNonPaddingProofs :: "rollupProofData \<Rightarrow> innerProofData list" where
  "getNonPaddingProofs r = filter (\<lambda>p. \<not> InnerProofData_isPadding p) (rp_innerProofData r)"

definition getNonPaddingTxIds :: "(buffer \<Rightarrow> buffer) \<Rightarrow> rollupProofData \<Rightarrow> buffer list res" where
  "getNonPaddingTxIds keccak r = mapE (InnerProofData_txId keccak) (getNonPaddingProofs r)"

definition getNonPaddingProofIds :: "rollupProofData \<Rightarrow> int list" where
  "getNonPaddingProofIds r = map ip_proofId (getNonPaddingProofs r)"

section \<open>Reading back the header\<close>

definition word256 :: "int \<Rightarrow> bool" where
  "word256 v \<longleftrightarrow> 0 \<le> v \<and> v < 2 ^ 256"

definition uint32 :: "int \<Rightarrow> bool" where
  "uint32 v \<longleftrightarrow> 0 \<le> v \<and> v < 2 ^ 32"

definition valid_header :: "'a rollupHeader_scheme \<Rightarrow> bool" where
  "valid_header r \<longleftrightarrow>
     uint32 (rh_rollupId r) \<and> uint32 (rh_rollupSize r) \<and> uint32 (rh_dataStartIndex r) \<and> uint32 (rh_numRollupTxs r)
     \<and> list_all (\<lambda>b. length b = 32) [rh_oldDataRoot r, rh_newDataRoot r, rh_oldNullRoot r, rh_newNullRoot r,
          rh_oldDataRootsRoot r, rh_newDataRootsRoot r, rh_oldDefiRoot r, rh_newDefiRoot r,
          rh_prevDefiInteractionHash r, rh_rollupBeneficiary r]
     \<and> length (rh_bridgeCallDatas r) = 32 \<and> list_all (\<lambda>b. length b = 32) (rh_bridgeCallDatas r)
     \<and> length (rh_defiDepositSums r) = 32 \<and> list_all word256 (rh_defiDepositSums r)
     \<and> length (rh_assetIds r) = 16 \<and> list_all uint32 (rh_assetIds r)
     \<and> length (rh_totalTxFees r) = 16 \<and> list_all word256 (rh_totalTxFees r)
     \<and> length (rh_defiInteractionNotes r) = 32 \<and> list_all (\<lambda>b. length b = 32) (rh_defiInteractionNotes r)"

definition numWord :: "int \<Rightarrow> buffer" where
  "numWord n = zeros 28 @ be_bytes 4 (nat n)"

lemma length_numWord [simp]: "length (numWord n) = 32"
  by (simp add: numWord_def)

lemma numToUInt32BE_numWord: "uint32 n \<Longrightarrow> numToUInt32BE n 32 = Inr (numWord n)"
  by (simp add: numToUInt32BE_32 uint32_def numWord_def)

text \<open>The words of the header of a valid rollup.\<close>

definition headerWords :: "'a rollupHeader_scheme \<Rightarrow> buffer list" where
  "headerWords r =
     [numWord (rh_rollupId r), numWord (rh_rollupSize r), numWord (rh_dataStartIndex r),
        rh_oldDataRoot r, rh_newDataRoot r, rh_oldNullRoot r, rh_newNullRoot r,
        rh_oldDataRootsRoot r, rh_newDataRootsRoot r, rh_oldDefiRoot r, rh_newDefiRoot r]
       @ rh_bridgeCallDatas r
       @ map (\<lambda>v. toBufferBE v 32) (rh_defiDepositSums r)
       @ map numWord (rh_assetIds r)
       @ map (\<lambda>a. toBufferBE a 32) (rh_totalTxFees r)
       @ rh_defiInteractionNotes r
       @ [rh_prevDefiInteractionHash r, rh_rollupBeneficiary r, numWord (rh_numRollupTxs r)]"

lemma headerBuffers_valid: "valid_header r \<Longrightarrow> headerBuffers r = Inr (headerWords r)"
proof -
  assume v: "valid_header r"
  have "mapE (\<lambda>a. numToUInt32BE a 32) (rh_assetIds r) = Inr (map numWord (rh_assetIds r))"
    using v by (intro mapE_all_Inr) (auto simp: valid_header_def list_all_iff numToUInt32BE_numWord)
  then show ?thesis
    using v by (simp add: headerBuffers_def headerWords_def valid_header_def numToUInt32BE_numWord)
qed

lemma word256_length: "word256 v \<Longrightarrow> length (toBufferBE v 32) = 32"
  by (simp add: word256_def length_toBufferBE)

lemma headerWords_32: "valid_header r \<Longrightarrow> w \<in> set (headerWords r) \<Longrightarrow> length w = 32"
  by (auto simp: headerWords_def valid_header_def list_all_iff word256_length)

lemma length_headerWords: "valid_header r \<Longrightarrow> length (headerWords r) = 142"
  by (simp add: headerWords_def valid_header_def)

lemma length_concat_32:
  "(\<And>w. w \<in> set ws \<Longrightarrow> length w = 32) \<Longrightarrow> length (concat ws) = 32 * length ws"
  by (induction ws) simp_all

lemma headerWord_nth:
  assumes "\<And>w. w \<in> set ws \<Longrightarrow> length w = 32" "i < length ws"
  shows "headerWord (concat ws @ rest) i = ws ! i"
proof -
  have "concat ws = concat (take i ws) @ ws ! i @ concat (drop (Suc i) ws)"
    using assms(2) by (metis append_assoc concat.simps(2) concat_append id_take_nth_drop)
  moreover have "length (concat (take i ws)) = i * 32"
    using assms length_concat_32 [of "take i ws"] in_set_takeD [of _ i ws] by simp
  moreover have "length (ws ! i) = 32" using assms by simp
  ultimately show ?thesis by (simp add: headerWord_def slice_at)
qed

lemma headerNum_word: "f * 32 + 32 \<le> length b \<Longrightarrow> headerNum b f = readUInt32BE (headerWord b f) 28"
proof -
  assume le: "f * 32 + 32 \<le> length b"
  have "bslice (headerWord b f) 28 32 = bslice b (f * 32 + 28) (f * 32 + 32)"
    by (simp add: headerWord_def bslice_slice)
  then show ?thesis using le
    by (simp add: headerNum_def readUInt32BE_def headerWord_def length_bslice add.commute)
qed

lemma readUInt32BE_numWord: "uint32 n \<Longrightarrow> readUInt32BE (numWord n) 28 = Inr n"
  using readUInt32BE_write [of n "be_bytes 4 (nat n)" "zeros 28" 28 "[]"]
  by (simp add: uint32_def numWord_def)

lemma map_block:
  "length pre = k \<Longrightarrow> length A = n \<Longrightarrow> map (\<lambda>i. (pre @ A @ post) ! (k + i)) [0..<n] = A"
  by (intro nth_equalityI) (auto simp: nth_append)

text \<open>A buffer that starts with the header of a valid rollup.\<close>

definition headerRaw :: "'a rollupHeader_scheme \<Rightarrow> buffer \<Rightarrow> buffer" where
  "headerRaw r rest = concat (headerWords r) @ rest"

lemma header_word: "valid_header r \<Longrightarrow> i < 142 \<Longrightarrow> headerWord (headerRaw r rest) i = headerWords r ! i"
  using headerWord_nth [of "headerWords r" i rest] headerWords_32 [of r] length_headerWords [of r]
  by (simp add: headerRaw_def)

lemma length_headerRaw: "valid_header r \<Longrightarrow> length (headerRaw r rest) = 4544 + length rest"
  using length_concat_32 [of "headerWords r"] headerWords_32 [of r] length_headerWords [of r]
  by (simp add: headerRaw_def)

lemma header_num:
  "valid_header r \<Longrightarrow> i < 142 \<Longrightarrow> headerWords r ! i = numWord n \<Longrightarrow> uint32 n \<Longrightarrow>
   headerNum (headerRaw r rest) i = Inr n"
  using header_word [of r i rest] length_headerRaw [of r rest] headerNum_word [of i "headerRaw r rest"] by (simp add: readUInt32BE_numWord)

lemma header_block:
  assumes valid: "valid_header r" and "headerWords r = pre @ A @ post" "length pre = k" "length A = n" "k + n \<le> 142"
  shows "map (\<lambda>i. headerWord (headerRaw r rest) (k + i)) [0..<n] = A"
proof -
  have "map (\<lambda>i. headerWord (headerRaw r rest) (k + i)) [0..<n] = map (\<lambda>i. (pre @ A @ post) ! (k + i)) [0..<n]"
    using assms by (intro map_cong refl) (simp add: header_word assms(2) [symmetric])
  also have "\<dots> = A" by (rule map_block [OF assms(3,4)])
  finally show ?thesis .
qed

lemma header_singles:
  assumes valid: "valid_header r"
  shows
  "headerWord (headerRaw r rest) 3 = rh_oldDataRoot r" "headerWord (headerRaw r rest) 4 = rh_newDataRoot r"
  "headerWord (headerRaw r rest) 5 = rh_oldNullRoot r" "headerWord (headerRaw r rest) 6 = rh_newNullRoot r"
  "headerWord (headerRaw r rest) 7 = rh_oldDataRootsRoot r" "headerWord (headerRaw r rest) 8 = rh_newDataRootsRoot r"
  "headerWord (headerRaw r rest) 9 = rh_oldDefiRoot r" "headerWord (headerRaw r rest) 10 = rh_newDefiRoot r"
  "headerWord (headerRaw r rest) 139 = rh_prevDefiInteractionHash r" "headerWord (headerRaw r rest) 140 = rh_rollupBeneficiary r"
  using valid by (simp_all add: header_word, simp_all add: headerWords_def nth_append valid_header_def)

lemma header_nums:
  assumes valid: "valid_header r"
  shows
  "headerNum (headerRaw r rest) 0 = Inr (rh_rollupId r)" "headerNum (headerRaw r rest) 1 = Inr (rh_rollupSize r)"
  "headerNum (headerRaw r rest) 2 = Inr (rh_dataStartIndex r)" "headerNum (headerRaw r rest) 141 = Inr (rh_numRollupTxs r)"
  using valid by (auto intro!: header_num simp: headerWords_def nth_append valid_header_def)

lemma header_bridgeCallDatas:
  assumes valid: "valid_header r"
  shows "map (\<lambda>i. headerWord (headerRaw r rest) (11 + i)) [0..<32] = rh_bridgeCallDatas r"
  using valid
  by (intro header_block [where pre = "take 11 (headerWords r)" and post = "drop 43 (headerWords r)"])
    (simp_all add: headerWords_def valid_header_def)

lemma header_defiDepositSums:
  assumes valid: "valid_header r"
  shows "map (\<lambda>i. toBigIntBE (headerWord (headerRaw r rest) (43 + i))) [0..<32] = rh_defiDepositSums r"
proof -
  let ?A = "map (\<lambda>v. toBufferBE v 32) (rh_defiDepositSums r)"
  have "map (\<lambda>i. headerWord (headerRaw r rest) (43 + i)) [0..<32] = ?A"
    using valid
    by (intro header_block [where pre = "take 43 (headerWords r)" and post = "drop 75 (headerWords r)"])
      (simp_all add: headerWords_def valid_header_def)
  then have "map toBigIntBE (map (\<lambda>i. headerWord (headerRaw r rest) (43 + i)) [0..<32]) = map toBigIntBE ?A" by (rule arg_cong)
  then show ?thesis
    using valid by (simp add: comp_def valid_header_def list_all_iff word256_def toBigIntBE_toBufferBE map_idI)
qed

lemma header_totalTxFees:
  assumes valid: "valid_header r"
  shows "map (\<lambda>i. toBigIntBE (headerWord (headerRaw r rest) (91 + i))) [0..<16] = rh_totalTxFees r"
proof -
  let ?A = "map (\<lambda>v. toBufferBE v 32) (rh_totalTxFees r)"
  have "map (\<lambda>i. headerWord (headerRaw r rest) (91 + i)) [0..<16] = ?A"
    using valid
    by (intro header_block [where pre = "take 91 (headerWords r)" and post = "drop 107 (headerWords r)"])
      (simp_all add: headerWords_def valid_header_def)
  then have "map toBigIntBE (map (\<lambda>i. headerWord (headerRaw r rest) (91 + i)) [0..<16]) = map toBigIntBE ?A" by (rule arg_cong)
  then show ?thesis
    using valid by (simp add: comp_def valid_header_def list_all_iff word256_def toBigIntBE_toBufferBE map_idI)
qed

lemma header_defiInteractionNotes:
  assumes valid: "valid_header r"
  shows "map (\<lambda>i. headerWord (headerRaw r rest) (107 + i)) [0..<32] = rh_defiInteractionNotes r"
  using valid
  by (intro header_block [where pre = "take 107 (headerWords r)" and post = "drop 139 (headerWords r)"])
    (simp_all add: headerWords_def valid_header_def)

lemma header_assetIds:
  assumes valid: "valid_header r"
  shows "mapE (\<lambda>i. headerNum (headerRaw r rest) (75 + i)) [0..<16] = Inr (rh_assetIds r)"
proof -
  have "mapE (\<lambda>i. headerNum (headerRaw r rest) (75 + i)) [0..<16] = Inr (map (\<lambda>i. rh_assetIds r ! i) [0..<16])"
  proof (rule mapE_all_Inr)
    fix i assume "i \<in> set [0..<16::nat]"
    then have i: "i < 16" by simp
    have "headerWords r ! (75 + i) = numWord (rh_assetIds r ! i)"
      using valid i by (simp add: headerWords_def nth_append valid_header_def)
    then show "headerNum (headerRaw r rest) (75 + i) = Inr (rh_assetIds r ! i)"
      using i valid by (intro header_num) (auto simp: valid_header_def list_all_length)
  qed
  then show ?thesis using valid by (metis map_nth valid_header_def)
qed

lemma header_parse:
  assumes valid: "valid_header r"
  shows "parseHeaderInputs (headerRaw r rest) = Inr (rollupHeader.truncate r)"
  using header_nums [OF valid] header_singles [OF valid] header_bridgeCallDatas [OF valid]
    header_defiDepositSums [OF valid] header_totalTxFees [OF valid] header_defiInteractionNotes [OF valid]
    header_assetIds [OF valid]
  by (simp add: parseHeaderInputs_def getRollupIdFromBuffer_def getBridgeCallDatas_def field_indices
      rollupHeader.truncate_def del: concat_append)


section \<open>Round trips\<close>

definition valid_rollup :: "rollupProofData \<Rightarrow> bool" where
  "valid_rollup r \<longleftrightarrow> valid_header r \<and> list_all valid_innerProof (rp_innerProofData r)
     \<and> rh_rollupSize r = int (length (rp_innerProofData r)) \<and> rp_innerProofData r \<noteq> []"

lemma newRollupProofData_truncate:
  "valid_header r \<Longrightarrow> newRollupProofData (rollupHeader.truncate r) ps = Inr (r\<lparr>rp_innerProofData := ps\<rparr>)"
  for r :: rollupProofData
  by (cases r) (simp add: newRollupProofData_def rollupHeader.truncate_def rollupHeader.extend_def
      rollupProofData.fields_def valid_header_def field_indices)

lemma truncate_size: "rh_rollupSize (rollupHeader.truncate r) = rh_rollupSize r"
  by (simp add: rollupHeader.truncate_def)

lemma header_length_4544: "LENGTH_ROLLUP_HEADER_INPUTS = 4544"
  by (simp add: LENGTH_ROLLUP_HEADER_INPUTS_def field_indices)

lemma bslice_after_header:
  assumes "valid_header r"
  shows "bslice (headerRaw r rest) (4544 + k) (4544 + k + n) = bslice (drop k rest) 0 n"
proof -
  have "length (concat (headerWords r)) = 4544"
    using length_headerRaw [OF assms, of "[]"] by (simp add: headerRaw_def)
  then show ?thesis by (simp add: headerRaw_def bslice_def)
qed

lemma parse_header: "valid_header r \<Longrightarrow> parseHeaderInputs (headerRaw r rest) = Inr (rollupHeader.truncate r)"
  by (rule header_parse)

lemma fromBuffer_toBuffer:
  assumes v: "valid_rollup r" and b: "RollupProofData_toBuffer r = Inr b"
  shows "RollupProofData_fromBuffer (b @ rest) = Inr r"
proof -
  let ?ps = "rp_innerProofData r"
  have vh: "valid_header r" and vps: "\<forall>p\<in>set ?ps. valid_innerProof p"
    and sz: "rh_rollupSize r = int (length ?ps)" and ne: "?ps \<noteq> []"
    using v by (auto simp: valid_rollup_def list_all_iff)
  obtain inner where inner: "mapE InnerProofData_toBuffer ?ps = Inr inner"
    and bb: "b @ rest = headerRaw r (concat inner @ rest)"
    using b by (auto simp: RollupProofData_toBuffer_def bindE_eq_Inr headerBuffers_valid [OF vh] headerRaw_def)
  have "mapE (\<lambda>i. InnerProofData_fromBuffer (bslice (b @ rest) (4544 + i * 256) (4544 + i * 256 + 256)))
      [0..<length ?ps] = Inr ?ps"
    unfolding bb bslice_after_header [OF vh]
    by (rule inner_proof_codec.dec_all [OF vps inner])
  then show ?thesis
    using sz ne newRollupProofData_truncate [OF vh, of ?ps]
    by (simp add: RollupProofData_fromBuffer_def bb parse_header [OF vh] truncate_size
        header_length_4544 InnerProofData_LENGTH_def)
qed

lemma toBuffer_total: "valid_rollup r \<Longrightarrow> \<exists>b. RollupProofData_toBuffer r = Inr b"
  using inner_proof_codec.all_total [of "rp_innerProofData r"]
  by (auto simp: valid_rollup_def RollupProofData_toBuffer_def headerBuffers_valid list_all_iff)

lemma toBuffer_length:
  assumes v: "valid_rollup r" and b: "RollupProofData_toBuffer r = Inr b"
  shows "length b = 4544 + 256 * length (rp_innerProofData r)"
proof -
  have vh: "valid_header r" and vps: "\<forall>p\<in>set (rp_innerProofData r). valid_innerProof p"
    using v by (auto simp: valid_rollup_def list_all_iff)
  from b obtain inner where inner: "mapE InnerProofData_toBuffer (rp_innerProofData r) = Inr inner"
    and "b = headerRaw r (concat inner)"
    by (auto simp: RollupProofData_toBuffer_def bindE_eq_Inr headerBuffers_valid [OF vh] headerRaw_def)
  then show ?thesis
    using length_headerRaw [OF vh] inner_proof_codec.concat_length [OF vps inner] by simp
qed

subsection \<open>The compressed format\<close>

lemma decodeInnerProofs_encode:
  assumes "\<forall>p\<in>set ps. knownProof p" "mapE encodeInnerProof ps = Inr bs" "length pre = off"
  shows "decodeInnerProofs (pre @ concat bs @ rest) off (int (length (concat bs)))
     = Inr (map publishedProof ps)"
  using assms
proof (induction ps arbitrary: bs pre off)
  case Nil
  then show ?case by (simp add: decodeInnerProofs.simps)
next
  case (Cons p ps)
  then obtain b cs where b: "encodeInnerProof p = Inr b" "mapE encodeInnerProof ps = Inr cs" "bs = b # cs"
    by (auto simp: bindE_eq_Inr)
  have k: "knownProof p" using Cons.prems(1) by simp
  let ?c = "proofClass (ip_proofId p) (publishedProof p)"
  have len: "ENCODED_LENGTH ?c = length b" using encoded_length [OF k b(1)] by simp
  have "0 < length b" using ENCODED_LENGTH_pos [of ?c] len by simp
  then have "0 < length (concat bs)" using b(3) by simp
  then have pos: "0 < int (length (concat bs))" by (simp only: of_nat_0_less_iff)
  have d: "decodeInnerProof (drop off (pre @ concat bs @ rest)) = Inr ?c"
    using decode_encode_inner [OF k b(1), of "concat cs @ rest"] b(3) Cons.prems(3) by simp
  have "decodeInnerProofs ((pre @ b) @ concat cs @ rest) (off + length b) (int (length (concat cs)))
      = Inr (map publishedProof ps)"
    using Cons.prems by (intro Cons.IH b(2)) simp_all
  then show ?case
    using d pos b(3) len by (subst decodeInnerProofs.simps) (simp del: drop_append)
qed

lemma lastNonEmptyIndex_snoc:
  "lastNonEmptyIndex (ps @ [p]) = (if ip_proofId p \<noteq> PADDING then length ps else lastNonEmptyIndex ps)"
  by (simp add: lastNonEmptyIndex_def enumerate_append_eq)

lemma lastNonEmptyIndex_lt: "ps \<noteq> [] \<Longrightarrow> lastNonEmptyIndex ps < length ps"
proof (induction ps rule: rev_induct)
  case (snoc p ps)
  show ?case
  proof (cases "ps = []")
    case True
    then show ?thesis by (simp add: lastNonEmptyIndex_def)
  next
    case False
    then show ?thesis using snoc by (simp add: lastNonEmptyIndex_snoc less_Suc_eq)
  qed
qed simp

lemma padding_after_last: "p \<in> set (drop (lastNonEmptyIndex ps + 1) ps) \<Longrightarrow> ip_proofId p = PADDING"
proof (induction ps rule: rev_induct)
  case (snoc q ps)
  show ?case
  proof (cases "ps = []")
    case True
    then show ?thesis using snoc.prems by (simp add: lastNonEmptyIndex_snoc lastNonEmptyIndex_def split: if_splits)
  next
    case False
    then have "lastNonEmptyIndex ps + 1 \<le> length ps" using lastNonEmptyIndex_lt [of ps] by simp
    then show ?thesis using snoc by (auto simp: lastNonEmptyIndex_snoc split: if_splits)
  qed
qed simp

lemma published_padding: "ip_proofId p = PADDING \<Longrightarrow> publishedProof p = InnerProofData_PADDING"
  by (simp add: publishedProof_def)

lemma decode_encode:
  assumes vh: "valid_header r" and k: "\<forall>p\<in>set (rp_innerProofData r). knownProof p"
    and sz: "rh_rollupSize r = int (length (rp_innerProofData r))" and ne: "rp_innerProofData r \<noteq> []"
    and e: "RollupProofData_encode r = Inr b"
  shows "RollupProofData_decode (b @ rest)
     = Inr (r\<lparr>rp_innerProofData := map publishedProof (rp_innerProofData r)\<rparr>)"
proof -
  let ?ps = "rp_innerProofData r" and ?n = "lastNonEmptyIndex (rp_innerProofData r) + 1"
  obtain bs num len where bs: "mapE encodeInnerProof (take ?n ?ps) = Inr bs"
    and num: "numToUInt32BE (int ?n) 4 = Inr num" and len: "numToUInt32BE (int (length (concat bs))) 4 = Inr len"
    and b: "b = concat (headerWords r) @ num @ len @ concat bs"
    using e by (auto simp: RollupProofData_encode_def bindE_eq_Inr headerBuffers_valid [OF vh] Let_def)
  let ?pre = "concat (headerWords r) @ num"
  have lh: "length (concat (headerWords r)) = 4544"
    using length_headerRaw [OF vh, of "[]"] by (simp add: headerRaw_def)
  have ln: "length num = 4" "length len = 4" using num len by (auto simp: numToUInt32BE_4)
  have r1: "readUInt32BE (b @ rest) 4548 = Inr (int (length (concat bs)))"
    using readUInt32BE_write [of "int (length (concat bs))" len ?pre 4548 "concat bs @ rest"] len lh ln b
    by (simp add: numToUInt32BE_4)
  have "decodeInnerProofs ((?pre @ len) @ concat bs @ rest) 4552 (int (length (concat bs)))
      = Inr (map publishedProof (take ?n ?ps))"
    using k lh ln by (intro decodeInnerProofs_encode bs) (auto dest: in_set_takeD)
  then have r2: "decodeInnerProofs (b @ rest) 4552 (int (length (concat bs)))
      = Inr (map publishedProof (take ?n ?ps))"
    using b by simp
  have n: "?n \<le> length ?ps" using lastNonEmptyIndex_lt [OF ne] by simp
  have "map publishedProof (drop ?n ?ps) = map (\<lambda>_. InnerProofData_PADDING) (drop ?n ?ps)"
    by (intro map_cong refl published_padding) (rule padding_after_last)
  then have "map publishedProof (drop ?n ?ps) = replicate (length ?ps - ?n) InnerProofData_PADDING"
    by (simp only: map_replicate_const length_drop)
  then have pad: "map publishedProof (take ?n ?ps) @ replicate (length ?ps - ?n) InnerProofData_PADDING
      = map publishedProof ?ps"
    by (metis append_take_drop_id map_append)
  have p: "parseHeaderInputs (b @ rest) = Inr (rollupHeader.truncate r)"
    using parse_header [OF vh, of "num @ len @ concat bs @ rest"] b by (simp add: headerRaw_def)
  show ?thesis
    using sz ne n pad
    by (simp add: RollupProofData_decode_def p r1 r2 truncate_size header_length_4544 min_absorb2
        newRollupProofData_truncate [OF vh] del: append_assoc)
qed

text \<open>The rollups whose private proofs carry no public data lose nothing.\<close>

definition canonicalProof :: "innerProofData \<Rightarrow> bool" where
  "canonicalProof p \<longleftrightarrow> knownProof p \<and> publishedProof p = p"

lemma encode_total:
  assumes vh: "valid_header r" and k: "\<forall>p\<in>set (rp_innerProofData r). knownProof p"
    and small: "length (rp_innerProofData r) < 2 ^ 24"
  shows "\<exists>b. RollupProofData_encode r = Inr b"
proof -
  let ?ps = "rp_innerProofData r" and ?n = "lastNonEmptyIndex (rp_innerProofData r) + 1"
  have "\<exists>bs. mapE encodeInnerProof (take ?n ?ps) = Inr bs"
    using k encodeInnerProof_total by (simp add: mapE_eq_Inr_iff isOk_iff) (meson in_set_takeD)
  then obtain bs where bs: "mapE encodeInnerProof (take ?n ?ps) = Inr bs" ..
  have "mapE encodeInnerProof qs = Inr cs \<Longrightarrow> \<forall>p\<in>set qs. knownProof p \<Longrightarrow>
      length (concat cs) \<le> 185 * length qs" for qs cs
  proof (induction qs arbitrary: cs)
    case (Cons q qs)
    then obtain b ds where b: "encodeInnerProof q = Inr b" "mapE encodeInnerProof qs = Inr ds" "cs = b # ds"
      by (auto simp: bindE_eq_Inr)
    have "ENCODED_LENGTH c \<le> 185" for c by (cases c) simp_all
    then have "length b \<le> 185" using encoded_length [OF _ b(1), of q] Cons.prems(2) by simp
    then show ?case using Cons.IH [OF b(2)] Cons.prems(2) b(3) by simp
  qed simp
  from this [OF bs] have "length (concat bs) \<le> 185 * length (take ?n ?ps)" using k by (auto dest: in_set_takeD)
  moreover have "length (take ?n ?ps) \<le> length ?ps" by simp
  moreover have "length ?ps < 16777216" using small by simp
  ultimately have "length (concat bs) < 4294967296" by linarith
  then have l: "length (concat bs) < 2 ^ 32" by simp
  have "?n < 2 ^ 32"
  proof (cases "?ps = []")
    case True
    then show ?thesis by (simp add: lastNonEmptyIndex_def)
  next
    case False
    then show ?thesis using lastNonEmptyIndex_lt [OF False] small by simp
  qed
  then show ?thesis using bs l
    by (simp add: RollupProofData_encode_def headerBuffers_valid [OF vh] numToUInt32BE_def Let_def)
qed

section \<open>Totals\<close>

lemma totalPublic_published:
  assumes "\<forall>p\<in>set ps. knownProof p" "n = DEPOSIT \<or> n = WITHDRAW"
  shows "totalPublic n (map publishedProof ps) assetId = totalPublic n ps assetId"
proof -
  have f: "filter (\<lambda>p. ip_proofId p = n) (map publishedProof ps)
      = map publishedProof (filter (\<lambda>p. ip_proofId p = n) ps)"
    using assms(1) by (induction ps) (auto simp: publishedProof_id)
  have g: "RollupProof_assetId (publishedProof p) = RollupProof_assetId p
      \<and> RollupProof_publicValue (publishedProof p) = RollupProof_publicValue p"
    if "knownProof p" "ip_proofId p = n" for p
  proof -
    have "bslice (zeros 28 @ drop 28 (ip_publicAssetId p)) 28 32 = bslice (ip_publicAssetId p) 28 32"
      "length (ip_publicAssetId p) = 32"
      using that(1) by (simp_all add: knownProof_def valid_innerProof_def bslice_def)
    then show ?thesis using that assms(2)
      by (auto simp: RollupProof_assetId_def RollupProof_publicValue_def publishedProof_def readUInt32BE_def)
  qed
  have "mapE h (map publishedProof qs) = mapE h qs"
    if "\<forall>p\<in>set qs. h (publishedProof p) = h p" for h :: "innerProofData \<Rightarrow> 'b res" and qs
    using that by (induction qs) auto
  note m = this
  show ?thesis unfolding totalPublic_def f
    using assms(1) g by (subst m) (auto simp: bindE_def)
qed

lemma indexOf_Some: "indexOf x xs = Some i \<longleftrightarrow> i < length xs \<and> xs ! i = x \<and> (\<forall>j<i. xs ! j \<noteq> x)"
proof (induction xs arbitrary: i)
  case (Cons y ys)
  then show ?case
    by (cases i) (auto simp: nth_Cons less_Suc_eq_0_disj split: nat.splits)
qed simp

lemma indexOf_None: "indexOf x xs = None \<longleftrightarrow> x \<notin> set xs"
  by (induction xs) auto

section \<open>Properties\<close>

text \<open>A rollup proof written with \<open>toBuffer\<close> is read back by \<open>fromBuffer\<close>, whatever follows it,
  and takes 142 words of header and 256 bytes per inner proof.\<close>

theorem rollup_buffer_roundtrip:
  assumes "valid_rollup r"
  shows "\<exists>b. RollupProofData_toBuffer r = Inr b \<and> RollupProofData_fromBuffer (b @ rest) = Inr r
    \<and> length b = LENGTH_ROLLUP_HEADER_INPUTS + InnerProofData_LENGTH * length (rp_innerProofData r)"
  using toBuffer_total [OF assms] fromBuffer_toBuffer [OF assms] toBuffer_length [OF assms]
  by (auto simp: header_length_4544 InnerProofData_LENGTH_def)

definition sampleProof :: innerProofData where
  "sampleProof = newInnerProofData 1 (replicate 32 1) (replicate 32 2) (replicate 32 3) (replicate 32 4)
     (zeros 31 @ [100]) (zeros 12 @ replicate 20 9) (zeros 31 @ [1])"

definition sampleRollup :: rollupProofData where
  "sampleRollup = \<lparr>rh_rollupId = 7, rh_rollupSize = 3, rh_dataStartIndex = 12, rh_oldDataRoot = zeros 32,
     rh_newDataRoot = replicate 32 1, rh_oldNullRoot = zeros 32, rh_newNullRoot = zeros 32,
     rh_oldDataRootsRoot = zeros 32, rh_newDataRootsRoot = zeros 32, rh_oldDefiRoot = zeros 32,
     rh_newDefiRoot = zeros 32, rh_bridgeCallDatas = replicate 32 (zeros 32),
     rh_defiDepositSums = replicate 32 5, rh_assetIds = replicate 16 1, rh_totalTxFees = replicate 16 3,
     rh_defiInteractionNotes = replicate 32 (zeros 32), rh_prevDefiInteractionHash = zeros 32,
     rh_rollupBeneficiary = zeros 32, rh_numRollupTxs = 1,
     rp_innerProofData = [InnerProofData_PADDING, sampleProof, InnerProofData_PADDING]\<rparr>"

lemma sampleRollup_valid:
  "valid_rollup sampleRollup" "valid_header sampleRollup" "p \<in> set (rp_innerProofData sampleRollup) \<Longrightarrow> knownProof p"
  "length (rp_innerProofData sampleRollup) = 3" "rh_rollupSize sampleRollup = 3" "rp_innerProofData sampleRollup \<noteq> []"
  by (auto simp: valid_rollup_def valid_header_def sampleRollup_def uint32_def word256_def valid_innerProof_def
      list_all_iff sampleProof_def InnerProofData_PADDING_def newInnerProofData_def knownProof_def)

lemma sampleRollup_published: "map publishedProof (rp_innerProofData sampleRollup) = rp_innerProofData sampleRollup"
  by (simp add: sampleRollup_def sampleProof_def publishedProof_def newInnerProofData_def InnerProofData_PADDING_def
      zeros_append append_assoc [symmetric] del: append_assoc)

lemma sampleRollup_encoded: "\<exists>b. RollupProofData_encode sampleRollup = Inr b \<and> RollupProofData_decode b = Inr sampleRollup"
  using encode_total [of sampleRollup] decode_encode [of sampleRollup _ "[]"] sampleRollup_valid
  by (auto simp: sampleRollup_published)

theorem rollup_buffer_roundtrip_witness:
  "\<exists>b. RollupProofData_toBuffer sampleRollup = Inr b \<and> RollupProofData_fromBuffer (b @ [1]) = Inr sampleRollup
     \<and> length b = 5312"
  using rollup_buffer_roundtrip [OF sampleRollup_valid(1), of "[1]"]
  by (simp add: header_length_4544 InnerProofData_LENGTH_def sampleRollup_valid)

text \<open>C1: The calldata of a rollup (\<open>encode\<close>: header, compressed inner proofs up to the last
  non-padding one) decodes to the same header and, proof by proof, what the compressed format
  publishes, with the trailing padding rebuilt; the decoding loop ends.\<close>

theorem rollup_encode_decode:
  assumes "valid_header r" "\<forall>p\<in>set (rp_innerProofData r). knownProof p"
    and "rh_rollupSize r = int (length (rp_innerProofData r))" "rp_innerProofData r \<noteq> []"
    and "length (rp_innerProofData r) < 2 ^ 24"
  shows "\<exists>b. RollupProofData_encode r = Inr b
    \<and> RollupProofData_decode (b @ rest) = Inr (r\<lparr>rp_innerProofData := map publishedProof (rp_innerProofData r)\<rparr>)"
  using encode_total [OF assms(1,2,5)] decode_encode [OF assms(1-4)] by auto

theorem rollup_encode_decode_witness:
  "\<exists>b. RollupProofData_encode sampleRollup = Inr b \<and> RollupProofData_decode b = Inr sampleRollup"
  using rollup_encode_decode [of sampleRollup "[]"] sampleRollup_valid by (simp add: sampleRollup_published)

text \<open>The totals a rollup reports per asset, deposited and withdrawn, are the same before
  publication and after decoding the calldata.\<close>

theorem rollup_totals_published:
  assumes "\<forall>p\<in>set (rp_innerProofData r). knownProof p"
  shows "getTotalDeposited (r\<lparr>rp_innerProofData := map publishedProof (rp_innerProofData r)\<rparr>) a = getTotalDeposited r a
    \<and> getTotalWithdrawn (r\<lparr>rp_innerProofData := map publishedProof (rp_innerProofData r)\<rparr>) a = getTotalWithdrawn r a"
  using totalPublic_published [OF assms] by (simp add: getTotalDeposited_def getTotalWithdrawn_def)

theorem rollup_totals_published_witness:
  "getTotalDeposited (sampleRollup\<lparr>rp_innerProofData := map publishedProof (rp_innerProofData sampleRollup)\<rparr>) 1 = Inr 100"
proof -
  have "be_value (zeros 31 @ [100]) = 100" by (simp only: be_value_pad) (simp add: be_value_def)
  then have "getTotalDeposited sampleRollup 1 = Inr 100"
    by (simp add: getTotalDeposited_def totalPublic_def sampleRollup_def sampleProof_def newInnerProofData_def
        InnerProofData_PADDING_def RollupProof_assetId_def RollupProof_publicValue_def readUInt32BE_def
        toBigIntBE_be_value bslice_def zeros_def be_value_def eval_nat_numeral del: be_value_snoc)
  then show ?thesis
    using rollup_totals_published [of sampleRollup 1] sampleRollup_valid by simp
qed

end
