(* ===== verification/Coordinator.thy ===== *)
theory Coordinator
  imports Profiler Scheduling RollupProof
begin

text \<open>
  \<open>falafel/src/pipeline_coordinator/rollup_coordinator.ts\<close>: which pending transactions go into the next rollup and
  whether it is published. The model follows one call of \<open>processPendingTxs\<close> up to the batches handed to the
  rollup creator. What the blockchain answers about a bridge subsidy while transaction \<open>i\<close> is handled is
  \<open>answer i\<close>; the second class transactions of the database are a parameter.
\<close>

section \<open>The coordinator\<close>

datatype coordinatorState = BUILDING | PUBLISHING | INTERRUPTED

record rollupCoordinator =
  rc_processedTxs :: "rollupTx list"
  rc_state :: coordinatorState
  rc_interrupted :: bool
  rc_numInnerRollupTxs :: int
  rc_numOuterRollupProofs :: int
  rc_feeResolver :: txFeeResolver
  rc_maxGasForRollup :: int
  rc_maxCallDataForRollup :: int

definition totalSlots :: "rollupCoordinator \<Rightarrow> int" where
  "totalSlots rc = rc_numOuterRollupProofs rc * rc_numInnerRollupTxs rc"

definition getProcessedTxs :: "rollupCoordinator \<Rightarrow> txDao list" where
  "getProcessedTxs rc = map rt_tx (rc_processedTxs rc)"

definition interrupt :: "bool \<Rightarrow> rollupCoordinator \<Rightarrow> rollupCoordinator res" where
  "interrupt shouldThrowIfFailToStop rc =
    (if shouldThrowIfFailToStop \<and> rc_state rc \<noteq> BUILDING
     then Inl (Thrown (''Rollup already '' @ (case rc_state rc of BUILDING \<Rightarrow> ''building'' | PUBLISHING \<Rightarrow> ''publishing''
       | INTERRUPTED \<Rightarrow> ''interrupted'')))
     else Inr (rc\<lparr>rc_interrupted := True, rc_processedTxs := []\<rparr>))"

text \<open>The changed coordinator, and whether the checkpoint throws.\<close>

definition checkpoint :: "rollupCoordinator \<Rightarrow> bool \<times> rollupCoordinator" where
  "checkpoint rc = (if rc_interrupted rc then (True, rc\<lparr>rc_state := INTERRUPTED\<rparr>) else (False, rc))"

section \<open>Selecting transactions\<close>

record selectionState =
  ss_txs :: "rollupTx list"
  ss_resources :: rollupResources
  ss_discarded :: "buffer list"
  ss_queues :: "int \<rightharpoonup> bridgeTxQueue"
  ss_provider :: bridgeSubsidyProvider

text \<open>The resources with the transaction added, or \<open>None\<close> when it breaches a limit.\<close>

definition validateAndUpdateRollupResources ::
    "rollupCoordinator \<Rightarrow> txType \<Rightarrow> int \<Rightarrow> rollupResources \<Rightarrow> rollupResources option res" where
  "validateAndUpdateRollupResources rc txType feeAssetId res =
     mapR (\<lambda>unadjusted.
       let gasUsedByTx = js_sub unadjusted (fr_getUnadjustedBaseVerificationGas (rc_feeResolver rc));
           newGasUsed = js_add gasUsedByTx (rr_gasUsed res);
           newCallDataUsed = getTxCallData txType + rr_callDataUsed res
       in if js_less (js_int (rc_maxGasForRollup rc)) newGasUsed \<or> newCallDataUsed > rc_maxCallDataForRollup rc then None
          else Some (res\<lparr>rr_callDataUsed := newCallDataUsed, rr_gasUsed := newGasUsed\<rparr>))
       (fr_getUnadjustedTxGas (rc_feeResolver rc) feeAssetId txType)"

definition addTx :: "rollupCoordinator \<Rightarrow> int \<Rightarrow> rollupTx \<Rightarrow> selectionState \<Rightarrow> selectionState" where
  "addTx rc assetId tx s =
     s\<lparr>ss_resources := (if isFeePayingAsset (rc_feeResolver rc) assetId
         then (ss_resources s)\<lparr>rr_assetIds := insert assetId (rr_assetIds (ss_resources s))\<rparr> else ss_resources s),
       ss_txs := ss_txs s @ [tx]\<rparr>"

definition discardTx :: "proofData \<Rightarrow> selectionState \<Rightarrow> selectionState" where
  "discardTx proof s =
     s\<lparr>ss_discarded := ss_discarded s @ [pd_noteCommitment1 proof, pd_noteCommitment2 proof]\<rparr>"

text \<open>The closures of \<open>handleNewDefiTx\<close>, for the bridge call of the transaction at hand.\<close>

definition addDefiTxs :: "txFeeResolver \<Rightarrow> int \<Rightarrow> rollupTx list \<Rightarrow> selectionState \<Rightarrow> selectionState" where
  "addDefiTxs r bcd txs s = foldl (\<lambda>s tx.
     let res = ss_resources s;
         res = (if paysFee r tx then res\<lparr>rr_assetIds := insert (av_assetId (rt_fee tx)) (rr_assetIds res)\<rparr> else res);
         res = (if bcd \<notin> set (rr_bridgeCallDatas res)
                then res\<lparr>rr_bridgeCallDatas := rr_bridgeCallDatas res @ [the (rt_bridgeCallData tx)]\<rparr> else res)
     in s\<lparr>ss_txs := ss_txs s @ [tx], ss_resources := res\<rparr>) s txs"

definition verifyResourceLimits ::
    "rollupCoordinator \<Rightarrow> int \<Rightarrow> bool \<Rightarrow> rollupTx list \<Rightarrow> rollupResources \<Rightarrow> (bool \<times> jsnum \<times> int) res" where
  "verifyResourceLimits rc bcd alreadyPresent txs res =
    (let r = rc_feeResolver rc;
         gas = (if \<not> alreadyPresent then js_add (rr_gasUsed res) (js_int (fr_getFullBridgeGasFromContract r bcd))
                else rr_gasUsed res)
     in mapR (\<lambda>txsGas.
          let totalGas = js_add gas txsGas;
              totalCallData = rr_callDataUsed res + int (length txs) * getTxCallData TX_DEFI_DEPOSIT
          in (js_less (js_int (rc_maxGasForRollup rc)) totalGas \<or> totalCallData > rc_maxCallDataForRollup rc,
              totalGas, totalCallData))
        (foldE (\<lambda>total tx. mapR (\<lambda>unadjusted. js_add total (js_sub unadjusted (fr_getUnadjustedBaseVerificationGas r)))
           (fr_getUnadjustedTxGas r (av_assetId (rt_fee tx)) TX_DEFI_DEPOSIT)) (js_int 0) txs))"

definition checkAndAddTx :: "rollupCoordinator \<Rightarrow> int \<Rightarrow> bool \<Rightarrow> rollupTx \<Rightarrow> selectionState \<Rightarrow> selectionState res" where
  "checkAndAddTx rc bcd alreadyPresent tx s =
     mapR (\<lambda>(breach, totalGas, totalCallData).
       if breach then s
       else let s = addDefiTxs (rc_feeResolver rc) bcd [tx] s
            in s\<lparr>ss_resources := (ss_resources s)\<lparr>rr_callDataUsed := totalCallData, rr_gasUsed := totalGas\<rparr>\<rparr>)
       (verifyResourceLimits rc bcd alreadyPresent [tx] (ss_resources s))"

text \<open>The queue of a bridge, what is left of the rollup for its batch, and the batch added to the selection.\<close>

definition newQueue :: "rollupCoordinator \<Rightarrow> int \<Rightarrow> selectionState \<Rightarrow> bridgeTxQueue" where
  "newQueue rc bcd s = (case ss_queues s bcd of Some q \<Rightarrow> q | None \<Rightarrow> newBridgeTxQueue bcd (rc_feeResolver rc))"

definition batchLimits :: "rollupCoordinator \<Rightarrow> int \<Rightarrow> selectionState \<Rightarrow> queueLimits" where
  "batchLimits rc remainingTxSlots s = \<lparr>ql_maxTxs = remainingTxSlots, ql_maxAssets = int NUM_FEE_ASSETS_PER_BLOCK,
     ql_gas = js_sub (js_int (rc_maxGasForRollup rc)) (rr_gasUsed (ss_resources s)),
     ql_callData = rc_maxCallDataForRollup rc - rr_callDataUsed (ss_resources s)\<rparr>"

definition addBatch ::
    "rollupCoordinator \<Rightarrow> int \<Rightarrow> bridgeQueueResult \<Rightarrow> bridgeTxQueue \<Rightarrow> bridgeSubsidyProvider \<Rightarrow> selectionState \<Rightarrow> selectionState"
  where
  "addBatch rc bcd result queue provider s =
    (let s = addDefiTxs (rc_feeResolver rc) bcd (bqr_txsToRollup result)
           (s\<lparr>ss_queues := (ss_queues s)(bcd \<mapsto> queue), ss_provider := provider\<rparr>);
         used = bqr_resourcesConsumed result
     in s\<lparr>ss_resources := (ss_resources s)\<lparr>
            rr_callDataUsed := rr_callDataUsed (ss_resources s) + rr_callDataUsed used,
            rr_gasUsed := js_add (rr_gasUsed (ss_resources s)) (rr_gasUsed used)\<rparr>\<rparr>)"

definition handleNewDefiTx ::
    "rollupCoordinator \<Rightarrow> bool \<Rightarrow> bridgeSubsidy option \<Rightarrow> txDao \<Rightarrow> int \<Rightarrow> selectionState \<Rightarrow> selectionState res" where
  "handleNewDefiTx rc flush answer tx remainingTxSlots s =
     bindE (newProofData (td_proofData tx) None) (\<lambda>proof.
     bindE (newDefiDepositProofData proof) (\<lambda>defiProof.
     bindE (createDefiRollupTx tx defiProof) (\<lambda>rollupTx.
     let bcd = the (rt_bridgeCallData rollupTx); res = ss_resources s; alreadyPresent = bcd \<in> set (rr_bridgeCallDatas res)
     in if alreadyPresent then checkAndAddTx rc bcd alreadyPresent rollupTx s
        else if length (rr_bridgeCallDatas res) = NUM_BRIDGE_CALLS_PER_BLOCK then Inr s
        else if flush then checkAndAddTx rc bcd alreadyPresent rollupTx s
        else mapR (\<lambda>(result, queue, provider). addBatch rc bcd result queue provider s)
               (getTxsToRollup answer (batchLimits rc remainingTxSlots s) (rr_assetIds res) (addDefiTx rollupTx (newQueue rc bcd s))
                 (ss_provider s)))))"

text \<open>The comparator of the sort only ever reports a claim before another transaction; the stable sort of the
  runtime then moves the claims to the front and keeps the order of arrival otherwise.\<close>

definition claimsFirst :: "txDao list \<Rightarrow> txDao list" where
  "claimsFirst txs = filter (\<lambda>tx. td_txType tx = TX_DEFI_CLAIM) txs @ filter (\<lambda>tx. td_txType tx \<noteq> TX_DEFI_CLAIM) txs"

text \<open>One iteration of the loop over the sorted transactions.\<close>

definition considerTx ::
    "rollupCoordinator \<Rightarrow> bool \<Rightarrow> bridgeSubsidy option \<Rightarrow> txDao \<Rightarrow> selectionState \<Rightarrow> selectionState res" where
  "considerTx rc flush answer tx s =
     bindE (newProofData (td_proofData tx) None) (\<lambda>proof.
     bindE (ProofData_feeAssetId proof) (\<lambda>assetId.
     let r = rc_feeResolver rc; res = ss_resources s in
     if isAccountTx (td_txType tx) then
       bindE (validateAndUpdateRollupResources rc TX_ACCOUNT 0 res) (\<lambda>ok. case ok of
         None \<Rightarrow> Inr s
       | Some res \<Rightarrow> mapR (\<lambda>rollupTx. s\<lparr>ss_resources := res, ss_txs := ss_txs s @ [rollupTx]\<rparr>) (createRollupTx tx proof))
     else if isFeePayingAsset r assetId \<and> assetId \<notin> rr_assetIds res \<and> card (rr_assetIds res) = NUM_FEE_ASSETS_PER_BLOCK
     then Inr (discardTx proof s)
     else if pd_backwardLink proof \<noteq> zeros 32 \<and> pd_backwardLink proof \<in> set (ss_discarded s)
     then Inr (discardTx proof s)
     else if \<not> isDefiDepositTx (td_txType tx) then
       bindE (validateAndUpdateRollupResources rc (td_txType tx) assetId res) (\<lambda>ok. case ok of
         None \<Rightarrow> Inr (discardTx proof s)
       | Some res \<Rightarrow> mapR (\<lambda>rollupTx. addTx rc assetId rollupTx (s\<lparr>ss_resources := res\<rparr>)) (createRollupTx tx proof))
     else handleNewDefiTx rc flush answer tx (totalSlots rc - int (length (ss_txs s))) s))"

fun considerTxs ::
    "rollupCoordinator \<Rightarrow> bool \<Rightarrow> (nat \<Rightarrow> bridgeSubsidy option) \<Rightarrow> nat \<Rightarrow> txDao list \<Rightarrow> selectionState \<Rightarrow> selectionState res" where
  "considerTxs rc flush answer i [] s = Inr s"
| "considerTxs rc flush answer i (tx # txs) s =
    (if int (length (ss_txs s)) < totalSlots rc
     then bindE (considerTx rc flush (answer i) tx s) (considerTxs rc flush answer (Suc i) txs)
     else Inr s)"

definition initialSelection :: "rollupCoordinator \<Rightarrow> selectionState" where
  "initialSelection rc =
     \<lparr>ss_txs = [],
      ss_resources = \<lparr>rr_gasUsed = js_mul_num (js_int (totalSlots rc)) (fr_getUnadjustedBaseVerificationGas (rc_feeResolver rc)),
        rr_callDataUsed = 0, rr_bridgeCallDatas = [], rr_assetIds = {}\<rparr>,
      ss_discarded = [], ss_queues = Map.empty, ss_provider = newBridgeSubsidyProvider\<rparr>"

definition getNextTxsToRollup ::
    "rollupCoordinator \<Rightarrow> bool \<Rightarrow> (nat \<Rightarrow> bridgeSubsidy option) \<Rightarrow> txDao list \<Rightarrow> selectionState res" where
  "getNextTxsToRollup rc flush answer pendingTxs =
     considerTxs rc flush answer 0 (claimsFirst pendingTxs) (initialSelection rc)"

section \<open>The effect of one transaction\<close>

lemma createRollupTx_simps:
  assumes "createRollupTx tx proof = Inr rt"
  shows "rt_tx rt = tx" "ProofData_feeAssetId proof = Inr (av_assetId (rt_fee rt))" "rt_bridgeCallData rt = None"
    "rt_secondClass rt = td_secondClass tx" "rt_excessGas rt = td_excessGas tx"
  using assms by (auto simp: createRollupTx_def mapR_eq_Inr)

lemma createDefiRollupTx_simps:
  assumes "createDefiRollupTx tx dp = Inr rt" and "newDefiDepositProofData proof = Inr dp"
  shows "rt_tx rt = tx" "ProofData_feeAssetId proof = Inr (av_assetId (rt_fee rt))" "rt_bridgeCallData rt \<noteq> None"
  using assms by (auto simp: createDefiRollupTx_def newDefiDepositProofData_def bindE_eq_Inr split: if_splits)

text \<open>Adding transactions of one bridge call.\<close>

lemma addDefiTxs_simps [simp]:
  "ss_txs (addDefiTxs r bcd txs s) = ss_txs s @ txs"
  "ss_discarded (addDefiTxs r bcd txs s) = ss_discarded s"
  "ss_queues (addDefiTxs r bcd txs s) = ss_queues s"
  "ss_provider (addDefiTxs r bcd txs s) = ss_provider s"
  "rr_gasUsed (ss_resources (addDefiTxs r bcd txs s)) = rr_gasUsed (ss_resources s)"
  "rr_callDataUsed (ss_resources (addDefiTxs r bcd txs s)) = rr_callDataUsed (ss_resources s)"
  "rr_assetIds (ss_resources (addDefiTxs r bcd txs s))
     = rr_assetIds (ss_resources s) \<union> (\<lambda>tx. av_assetId (rt_fee tx)) ` {tx \<in> set txs. paysFee r tx}"
  by (induction txs rule: rev_induct) (auto simp: addDefiTxs_def Let_def)

lemma addDefiTxs_bridges:
  "\<forall>tx\<in>set txs. rt_bridgeCallData tx = Some bcd \<Longrightarrow>
     rr_bridgeCallDatas (ss_resources (addDefiTxs r bcd txs s))
       = (if txs = [] \<or> bcd \<in> set (rr_bridgeCallDatas (ss_resources s)) then rr_bridgeCallDatas (ss_resources s)
          else rr_bridgeCallDatas (ss_resources s) @ [bcd])"
  by (induction txs rule: rev_induct) (auto simp: addDefiTxs_def Let_def)

text \<open>A transaction leaves the selection as it is, is added alone, or brings a batch of its bridge.\<close>

lemma checkAndAddTx_cases:
  assumes "checkAndAddTx rc bcd present tx s = Inr s'"
  obtains (breach) "s' = s"
  | (added) unadjusted totalGas where
      "fr_getUnadjustedTxGas (rc_feeResolver rc) (av_assetId (rt_fee tx)) TX_DEFI_DEPOSIT = Inr unadjusted"
      "totalGas = js_add (if present then rr_gasUsed (ss_resources s)
           else js_add (rr_gasUsed (ss_resources s)) (js_int (fr_getFullBridgeGasFromContract (rc_feeResolver rc) bcd)))
         (js_add (js_int 0) (js_sub unadjusted (fr_getUnadjustedBaseVerificationGas (rc_feeResolver rc))))"
      "\<not> js_less (js_int (rc_maxGasForRollup rc)) totalGas"
      "rr_callDataUsed (ss_resources s) + getTxCallData TX_DEFI_DEPOSIT \<le> rc_maxCallDataForRollup rc"
      "s' = (addDefiTxs (rc_feeResolver rc) bcd [tx] s)\<lparr>ss_resources :=
         (ss_resources (addDefiTxs (rc_feeResolver rc) bcd [tx] s))\<lparr>
           rr_callDataUsed := rr_callDataUsed (ss_resources s) + getTxCallData TX_DEFI_DEPOSIT, rr_gasUsed := totalGas\<rparr>\<rparr>"
proof -
  from assms obtain unadjusted where u: "fr_getUnadjustedTxGas (rc_feeResolver rc) (av_assetId (rt_fee tx)) TX_DEFI_DEPOSIT = Inr unadjusted"
    by (auto simp: checkAndAddTx_def verifyResourceLimits_def Let_def mapR_eq_Inr bindE_eq_Inr)
  define totalGas where "totalGas = js_add (if present then rr_gasUsed (ss_resources s)
           else js_add (rr_gasUsed (ss_resources s)) (js_int (fr_getFullBridgeGasFromContract (rc_feeResolver rc) bcd)))
         (js_add (js_int 0) (js_sub unadjusted (fr_getUnadjustedBaseVerificationGas (rc_feeResolver rc))))"
  have v: "verifyResourceLimits rc bcd present [tx] (ss_resources s)
      = Inr (js_less (js_int (rc_maxGasForRollup rc)) totalGas
          \<or> rr_callDataUsed (ss_resources s) + getTxCallData TX_DEFI_DEPOSIT > rc_maxCallDataForRollup rc,
        totalGas, rr_callDataUsed (ss_resources s) + getTxCallData TX_DEFI_DEPOSIT)"
    by (simp add: verifyResourceLimits_def u totalGas_def Let_def)
  show thesis
  proof (cases "js_less (js_int (rc_maxGasForRollup rc)) totalGas
          \<or> rr_callDataUsed (ss_resources s) + getTxCallData TX_DEFI_DEPOSIT > rc_maxCallDataForRollup rc")
    case True
    then show thesis using assms unfolding checkAndAddTx_def v by (intro breach) auto
  next
    case False
    then show thesis using assms unfolding checkAndAddTx_def v
      by (intro added [OF u totalGas_def]) (auto simp: Let_def)
  qed
qed

lemma validateAndUpdateRollupResources_Some:
  assumes "validateAndUpdateRollupResources rc t assetId res = Inr (Some res')"
  obtains unadjusted where "fr_getUnadjustedTxGas (rc_feeResolver rc) assetId t = Inr unadjusted"
    "res' = res\<lparr>rr_callDataUsed := getTxCallData t + rr_callDataUsed res,
       rr_gasUsed := js_add (js_sub unadjusted (fr_getUnadjustedBaseVerificationGas (rc_feeResolver rc))) (rr_gasUsed res)\<rparr>"
    "\<not> js_less (js_int (rc_maxGasForRollup rc)) (rr_gasUsed res')" "rr_callDataUsed res' \<le> rc_maxCallDataForRollup rc"
  using assms by (auto simp: validateAndUpdateRollupResources_def mapR_eq_Inr Let_def split: if_splits)

text \<open>The proof of a transaction, and the rollup transaction a DeFi deposit becomes.\<close>

definition proofOf :: "txDao \<Rightarrow> proofData res" where
  "proofOf tx = newProofData (td_proofData tx) None"

definition defiRollupTx :: "txDao \<Rightarrow> rollupTx res" where
  "defiRollupTx tx = bindE (proofOf tx) (\<lambda>proof. bindE (newDefiDepositProofData proof) (createDefiRollupTx tx))"

lemma defiRollupTx_simps:
  assumes "defiRollupTx tx = Inr rt" "proofOf tx = Inr pd"
  shows "rt_tx rt = tx" "ProofData_feeAssetId pd = Inr (av_assetId (rt_fee rt))"
    "rt_bridgeCallData rt = Some (the (rt_bridgeCallData rt))"
  using assms createDefiRollupTx_simps [of tx _ rt pd] by (auto simp: defiRollupTx_def bindE_eq_Inr)

lemma handleNewDefiTx_cases:
  assumes "handleNewDefiTx rc flush answer tx (totalSlots rc - int (length (ss_txs s))) s = Inr s'"
  obtains (unchanged) "s' = s"
  | (direct) rt bcd where "defiRollupTx tx = Inr rt" "rt_bridgeCallData rt = Some bcd"
      "bcd \<in> set (rr_bridgeCallDatas (ss_resources s)) \<or> length (rr_bridgeCallDatas (ss_resources s)) \<noteq> NUM_BRIDGE_CALLS_PER_BLOCK"
      "checkAndAddTx rc bcd (bcd \<in> set (rr_bridgeCallDatas (ss_resources s))) rt s = Inr s'"
  | (queued) rt bcd result queue provider where "defiRollupTx tx = Inr rt" "rt_bridgeCallData rt = Some bcd"
      "bcd \<notin> set (rr_bridgeCallDatas (ss_resources s))" "length (rr_bridgeCallDatas (ss_resources s)) \<noteq> NUM_BRIDGE_CALLS_PER_BLOCK"
      "getTxsToRollup answer (batchLimits rc (totalSlots rc - int (length (ss_txs s))) s) (rr_assetIds (ss_resources s)) (addDefiTx rt (newQueue rc bcd s)) (ss_provider s)
         = Inr (result, queue, provider)"
      "s' = addBatch rc bcd result queue provider s"
proof -
  from assms obtain pd defiProof rt where p: "newProofData (td_proofData tx) None = Inr pd"
    "newDefiDepositProofData pd = Inr defiProof" "createDefiRollupTx tx defiProof = Inr rt"
    by (auto simp: handleNewDefiTx_def bindE_eq_Inr)
  then have rt: "defiRollupTx tx = Inr rt" by (simp add: defiRollupTx_def proofOf_def)
  obtain bcd where bcd: "rt_bridgeCallData rt = Some bcd"
    using defiRollupTx_simps(3) [OF rt] p(1) by (auto simp: proofOf_def)
  let ?bs = "rr_bridgeCallDatas (ss_resources s)"
  have h: "handleNewDefiTx rc flush answer tx (totalSlots rc - int (length (ss_txs s))) s =
    (if bcd \<in> set ?bs then checkAndAddTx rc bcd (bcd \<in> set ?bs) rt s
     else if length ?bs = NUM_BRIDGE_CALLS_PER_BLOCK then Inr s
     else if flush then checkAndAddTx rc bcd (bcd \<in> set ?bs) rt s
     else mapR (\<lambda>(result, queue, provider). addBatch rc bcd result queue provider s)
            (getTxsToRollup answer (batchLimits rc (totalSlots rc - int (length (ss_txs s))) s) (rr_assetIds (ss_resources s)) (addDefiTx rt (newQueue rc bcd s))
              (ss_provider s)))"
    by (simp add: handleNewDefiTx_def p bcd Let_def)
  show thesis
  proof (cases "bcd \<in> set ?bs \<or> flush \<and> length ?bs \<noteq> NUM_BRIDGE_CALLS_PER_BLOCK")
    case True
    then show thesis using assms rt bcd by (intro direct) (auto simp: h split: if_splits)
  next
    case False
    then show thesis using assms rt bcd unchanged queued by (auto simp: h mapR_eq_Inr split: if_splits)
  qed
qed

text \<open>Every way one transaction changes the selection. A transaction is \<open>discardable\<close> unless it is an account transaction.\<close>

definition linkDiscarded :: "proofData \<Rightarrow> selectionState \<Rightarrow> bool" where
  "linkDiscarded p s \<longleftrightarrow> pd_backwardLink p \<noteq> zeros 32 \<and> pd_backwardLink p \<in> set (ss_discarded s)"

definition assetFits :: "rollupCoordinator \<Rightarrow> int \<Rightarrow> selectionState \<Rightarrow> bool" where
  "assetFits rc assetId s \<longleftrightarrow> \<not> (isFeePayingAsset (rc_feeResolver rc) assetId \<and> assetId \<notin> rr_assetIds (ss_resources s)
     \<and> card (rr_assetIds (ss_resources s)) = NUM_FEE_ASSETS_PER_BLOCK)"

lemma considerTx_cases:
  assumes "considerTx rc flush answer tx s = Inr s'"
  obtains p assetId where "proofOf tx = Inr p" "ProofData_feeAssetId p = Inr assetId"
    "isAccountTx (td_txType tx) \<and> s' = s
     \<or> isAccountTx (td_txType tx) \<and> (\<exists>res rt. validateAndUpdateRollupResources rc TX_ACCOUNT 0 (ss_resources s) = Inr (Some res)
          \<and> createRollupTx tx p = Inr rt \<and> s' = s\<lparr>ss_resources := res, ss_txs := ss_txs s @ [rt]\<rparr>)
     \<or> \<not> isAccountTx (td_txType tx) \<and> s' = discardTx p s
     \<or> \<not> isAccountTx (td_txType tx) \<and> \<not> isDefiDepositTx (td_txType tx) \<and> assetFits rc assetId s \<and> \<not> linkDiscarded p s
          \<and> (\<exists>res rt. validateAndUpdateRollupResources rc (td_txType tx) assetId (ss_resources s) = Inr (Some res)
             \<and> createRollupTx tx p = Inr rt \<and> s' = addTx rc assetId rt (s\<lparr>ss_resources := res\<rparr>))
     \<or> isDefiDepositTx (td_txType tx) \<and> assetFits rc assetId s \<and> \<not> linkDiscarded p s
          \<and> handleNewDefiTx rc flush answer tx (totalSlots rc - int (length (ss_txs s))) s = Inr s'"
proof -
  from assms obtain p assetId where p: "proofOf tx = Inr p" "ProofData_feeAssetId p = Inr assetId"
    by (auto simp: considerTx_def proofOf_def bindE_eq_Inr)
  note eq = assms [unfolded considerTx_def p [unfolded proofOf_def] bindE_Inr Let_def]
  show thesis
  proof (rule that [OF p])
    show "isAccountTx (td_txType tx) \<and> s' = s
     \<or> isAccountTx (td_txType tx) \<and> (\<exists>res rt. validateAndUpdateRollupResources rc TX_ACCOUNT 0 (ss_resources s) = Inr (Some res)
          \<and> createRollupTx tx p = Inr rt \<and> s' = s\<lparr>ss_resources := res, ss_txs := ss_txs s @ [rt]\<rparr>)
     \<or> \<not> isAccountTx (td_txType tx) \<and> s' = discardTx p s
     \<or> \<not> isAccountTx (td_txType tx) \<and> \<not> isDefiDepositTx (td_txType tx) \<and> assetFits rc assetId s \<and> \<not> linkDiscarded p s
          \<and> (\<exists>res rt. validateAndUpdateRollupResources rc (td_txType tx) assetId (ss_resources s) = Inr (Some res)
             \<and> createRollupTx tx p = Inr rt \<and> s' = addTx rc assetId rt (s\<lparr>ss_resources := res\<rparr>))
     \<or> isDefiDepositTx (td_txType tx) \<and> assetFits rc assetId s \<and> \<not> linkDiscarded p s
          \<and> handleNewDefiTx rc flush answer tx (totalSlots rc - int (length (ss_txs s))) s = Inr s'"
      using eq unfolding assetFits_def linkDiscarded_def
      by (auto simp: bindE_eq_Inr mapR_eq_Inr split: if_splits option.splits)
  qed
qed

text \<open>The loop keeps any relation between the transactions seen and the selection that one iteration keeps.\<close>

lemma considerTxs_invariant:
  assumes "considerTxs rc flush answer i txs s = Inr s'" and "P seen s"
    and step: "\<And>seen tx i s s'. P seen s \<Longrightarrow> int (length (ss_txs s)) < totalSlots rc
      \<Longrightarrow> (\<exists>rest. all = seen @ tx # rest) \<Longrightarrow> considerTx rc flush (answer i) tx s = Inr s' \<Longrightarrow> P (seen @ [tx]) s'"
    and "all = seen @ txs"
  shows "\<exists>n\<le>length txs. P (seen @ take n txs) s'"
  using assms(1,2,4)
proof (induction txs arbitrary: i s seen)
  case Nil
  then show ?case by auto
next
  case (Cons tx txs)
  show ?case
  proof (cases "int (length (ss_txs s)) < totalSlots rc")
    case False
    then show ?thesis using Cons.prems by (intro exI [of _ 0]) auto
  next
    case True
    with Cons.prems(1) obtain s1 where s1: "considerTx rc flush (answer i) tx s = Inr s1"
      "considerTxs rc flush answer (Suc i) txs s1 = Inr s'" by (auto simp: bindE_eq_Inr)
    have "P (seen @ [tx]) s1" by (rule step [OF Cons.prems(2) True _ s1(1)]) (use Cons.prems(3) in auto)
    from Cons.IH [OF s1(2) this] Cons.prems(3) obtain n where "n \<le> length txs" "P ((seen @ [tx]) @ take n txs) s'" by auto
    then show ?thesis by (intro exI [of _ "Suc n"]) simp
  qed
qed

section \<open>Gas in exact arithmetic\<close>

text \<open>Within these bounds, far above any configured limit, the floating-point sums are exact.\<close>

definition txOverhead :: "rollupCoordinator \<Rightarrow> rollupTx \<Rightarrow> int" where
  "txOverhead rc rt = (case getGasOverheadForTxType (fr_feeCalculator (rc_feeResolver rc)) (av_assetId (rt_fee rt)) (td_txType (rt_tx rt))
     of Inl _ \<Rightarrow> 0 | Inr g \<Rightarrow> g)"

definition baseGas :: "rollupCoordinator \<Rightarrow> int \<Rightarrow> bool" where
  "baseGas rc b \<longleftrightarrow> fr_getUnadjustedBaseVerificationGas (rc_feeResolver rc) = js_int b"

definition exactGas :: "rollupCoordinator \<Rightarrow> bool" where
  "exactGas rc \<longleftrightarrow> (\<exists>b. baseGas rc b \<and> 0 \<le> b \<and> b \<le> 2 ^ 50 \<and> 0 \<le> totalSlots rc * b \<and> totalSlots rc * b \<le> 2 ^ 50)
     \<and> 0 \<le> rc_maxGasForRollup rc \<and> rc_maxGasForRollup rc \<le> 2 ^ 51
     \<and> (\<forall>a t g. getGasOverheadForTxType (fr_feeCalculator (rc_feeResolver rc)) a t = Inr g \<longrightarrow> 0 \<le> g \<and> g \<le> 2 ^ 50)
     \<and> (\<forall>bcd. 0 \<le> fr_getFullBridgeGasFromContract (rc_feeResolver rc) bcd \<and> fr_getFullBridgeGasFromContract (rc_feeResolver rc) bcd \<le> 2 ^ 50)"

definition gasOf :: "rollupCoordinator \<Rightarrow> rollupTx list \<Rightarrow> int list \<Rightarrow> int" where
  "gasOf rc txs bs = (\<Sum>tx\<leftarrow>txs. txOverhead rc tx) + (\<Sum>b\<leftarrow>bs. fr_getFullBridgeGasFromContract (rc_feeResolver rc) b)"

definition gasStep :: "rollupCoordinator \<Rightarrow> selectionState \<Rightarrow> selectionState \<Rightarrow> rollupTx list \<Rightarrow> int list \<Rightarrow> bool" where
  "gasStep rc s s' new bs \<longleftrightarrow> (\<forall>g. exactGas rc \<and> rr_gasUsed (ss_resources s) = js_int g \<and> 0 \<le> g \<and> g \<le> 2 ^ 51
     \<longrightarrow> rr_gasUsed (ss_resources s') = js_int (g + gasOf rc new bs) \<and> (new \<noteq> [] \<longrightarrow> g + gasOf rc new bs \<le> rc_maxGasForRollup rc))"

lemma unadjusted_exact:
  assumes "exactGas rc" "fr_getUnadjustedTxGas (rc_feeResolver rc) a t = Inr u"
  obtains b g where "baseGas rc b" "getGasOverheadForTxType (fr_feeCalculator (rc_feeResolver rc)) a t = Inr g" "u = js_int (b + g)"
    "js_sub u (fr_getUnadjustedBaseVerificationGas (rc_feeResolver rc)) = js_int g" "0 \<le> g" "g \<le> 2 ^ 50" "0 \<le> b" "b \<le> 2 ^ 50"
proof -
  from assms(1) obtain b where b: "baseGas rc b" "0 \<le> b" "b \<le> 2 ^ 50" unfolding exactGas_def by blast
  from assms(2) obtain g where g: "getGasOverheadForTxType (fr_feeCalculator (rc_feeResolver rc)) a t = Inr g"
    and u: "u = js_add (fr_getUnadjustedBaseVerificationGas (rc_feeResolver rc)) (js_int g)"
    by (auto simp: fr_getUnadjustedTxGas_def getUnadjustedTxGas_def mapR_eq_Inr fr_getUnadjustedBaseVerificationGas_def)
  have g': "0 \<le> g" "g \<le> 2 ^ 50" using assms(1) g unfolding exactGas_def by blast+
  have "u = js_int (b + g)" using u b g' by (simp add: baseGas_def)
  moreover from this have "js_sub u (fr_getUnadjustedBaseVerificationGas (rc_feeResolver rc)) = js_int g"
    using b g' by (simp add: baseGas_def)
  ultimately show thesis using b g g' by (intro that)
qed

lemma txOverhead_eq:
  "getGasOverheadForTxType (fr_feeCalculator (rc_feeResolver rc)) (av_assetId (rt_fee rt)) (td_txType (rt_tx rt)) = Inr g
     \<Longrightarrow> txOverhead rc rt = g"
  by (simp add: txOverhead_def)

lemma contractGas_exact:
  "exactGas rc \<Longrightarrow> 0 \<le> fr_getFullBridgeGasFromContract (rc_feeResolver rc) b \<and> fr_getFullBridgeGasFromContract (rc_feeResolver rc) b \<le> 2 ^ 50"
  unfolding exactGas_def by blast

lemma txOverhead_nonneg: "exactGas rc \<Longrightarrow> 0 \<le> txOverhead rc rt"
  by (auto simp: txOverhead_def exactGas_def split: sum.split)

lemma account_overhead:
  "getGasOverheadForTxType fc 0 TX_ACCOUNT = Inr g \<Longrightarrow> 0 \<le> a \<Longrightarrow> getGasOverheadForTxType fc a TX_ACCOUNT = Inr g"
  by (auto simp: getGasOverheadForTxType_def bindE_eq_Inr fc_getAsset_def isValidAsset_def indexE_def split: if_splits)

text \<open>A single transaction.\<close>

lemma validated_gasStep:
  assumes "validateAndUpdateRollupResources rc t a (ss_resources s) = Inr (Some res)" "rr_gasUsed (ss_resources s') = rr_gasUsed res"
    and "\<And>g. getGasOverheadForTxType (fr_feeCalculator (rc_feeResolver rc)) a t = Inr g \<Longrightarrow> txOverhead rc rt = g"
  shows "gasStep rc s s' [rt] []"
  unfolding gasStep_def
proof (intro allI impI)
  fix g assume x: "exactGas rc \<and> rr_gasUsed (ss_resources s) = js_int g \<and> 0 \<le> g \<and> g \<le> 2 ^ 51"
  from assms(1) obtain u where u: "fr_getUnadjustedTxGas (rc_feeResolver rc) a t = Inr u"
    "res = (ss_resources s)\<lparr>rr_callDataUsed := getTxCallData t + rr_callDataUsed (ss_resources s),
       rr_gasUsed := js_add (js_sub u (fr_getUnadjustedBaseVerificationGas (rc_feeResolver rc))) (rr_gasUsed (ss_resources s))\<rparr>"
    "\<not> js_less (js_int (rc_maxGasForRollup rc)) (rr_gasUsed res)"
    by (rule validateAndUpdateRollupResources_Some)
  from unadjusted_exact [OF conjunct1 [OF x] u(1)] obtain ov where ov: "txOverhead rc rt = ov"
    "js_sub u (fr_getUnadjustedBaseVerificationGas (rc_feeResolver rc)) = js_int ov" "0 \<le> ov" "ov \<le> 2 ^ 50"
    using assms(3) by metis
  have "rr_gasUsed res = js_int (g + ov)" using u(2) ov x by (simp add: add.commute)
  then show "rr_gasUsed (ss_resources s') = js_int (g + gasOf rc [rt] []) \<and> ([rt] \<noteq> [] \<longrightarrow> g + gasOf rc [rt] [] \<le> rc_maxGasForRollup rc)"
    using u(3) ov(1) assms(2) by (simp add: gasOf_def)
qed

lemma checkAndAddTx_gasStep:
  assumes "checkAndAddTx rc b (b \<in> set (rr_bridgeCallDatas (ss_resources s))) rt s = Inr s'" "s' \<noteq> s"
    and t: "td_txType (rt_tx rt) = TX_DEFI_DEPOSIT"
  shows "gasStep rc s s' [rt] (if b \<in> set (rr_bridgeCallDatas (ss_resources s)) then [] else [b])"
  using assms(1)
proof (cases rule: checkAndAddTx_cases)
  case breach
  then show ?thesis using assms(2) by simp
next
  case (added u totalGas)
  let ?bs = "if b \<in> set (rr_bridgeCallDatas (ss_resources s)) then [] else [b]"
  show ?thesis unfolding gasStep_def
  proof (intro allI impI)
    fix g assume x: "exactGas rc \<and> rr_gasUsed (ss_resources s) = js_int g \<and> 0 \<le> g \<and> g \<le> 2 ^ 51"
    from unadjusted_exact [OF conjunct1 [OF x] added(1)] obtain ov where ov: "txOverhead rc rt = ov"
      "js_sub u (fr_getUnadjustedBaseVerificationGas (rc_feeResolver rc)) = js_int ov" "0 \<le> ov" "ov \<le> 2 ^ 50"
      using txOverhead_eq t by metis
    have "totalGas = js_int (g + gasOf rc [rt] ?bs)"
      using added(2) ov x contractGas_exact [of rc b] by (simp add: gasOf_def add.assoc add.left_commute add.commute)
    then show "rr_gasUsed (ss_resources s') = js_int (g + gasOf rc [rt] ?bs) \<and> ([rt] \<noteq> [] \<longrightarrow> g + gasOf rc [rt] ?bs \<le> rc_maxGasForRollup rc)"
      using added(3,5) by simp
  qed
qed

text \<open>A batch.\<close>

lemma selectTxs_gas_exact:
  assumes "selectTxs (rc_feeResolver rc) bcd fullGas lims txs s = Inr s'" "exactGas rc"
    and "sel_totalGas s = js_int g" "0 \<le> g" "g \<le> 2 ^ 52" "ql_gas lims = js_int m" "m \<le> 2 ^ 51"
    and "\<forall>tx\<in>set txs. td_txType (rt_tx tx) = TX_DEFI_DEPOSIT"
  shows "\<exists>new. sel_txs s' = sel_txs s @ new \<and> sel_totalGas s' = js_int (g + (\<Sum>tx\<leftarrow>new. txOverhead rc tx))
    \<and> (new \<noteq> [] \<longrightarrow> g + (\<Sum>tx\<leftarrow>new. txOverhead rc tx) \<le> m)"
  using assms(1,3-5,8)
proof (induction txs arbitrary: s g)
  case (Cons tx txs)
  from Cons.prems(1) show ?case
  proof (cases rule: selectTxs_step)
    case skip
    then show ?thesis using Cons by simp
  next
    case (take newGas gas)
    from take(7) obtain u where u: "fr_getUnadjustedTxGas (rc_feeResolver rc) (av_assetId (rt_fee tx)) TX_DEFI_DEPOSIT = Inr u"
      "newGas = js_add (sel_totalGas s) (js_sub u (fr_getUnadjustedBaseVerificationGas (rc_feeResolver rc)))" by blast
    from unadjusted_exact [OF assms(2) u(1)] obtain ov where ov: "txOverhead rc tx = ov"
      "js_sub u (fr_getUnadjustedBaseVerificationGas (rc_feeResolver rc)) = js_int ov" "0 \<le> ov" "ov \<le> 2 ^ 50"
      using txOverhead_eq Cons.prems(5) by (metis list.set_intros(1))
    have n: "newGas = js_int (g + ov)" using u(2) ov Cons.prems(2-4) by simp
    then have le: "g + ov \<le> m" using take(3) assms(6) by simp
    let ?s = "\<lparr>sel_txs = sel_txs s @ [tx], sel_assets = (if paysFee (rc_feeResolver rc) tx
        then insert (av_assetId (rt_fee tx)) (sel_assets s) else sel_assets s),
      sel_gasFromTxs = js_add (sel_gasFromTxs s) (js_min gas (js_int fullGas)), sel_totalGas = newGas,
      sel_callData = sel_callData s + getTxCallData TX_DEFI_DEPOSIT\<rparr>"
    have "\<exists>new. sel_txs s' = sel_txs ?s @ new \<and> sel_totalGas s' = js_int (g + ov + (\<Sum>tx\<leftarrow>new. txOverhead rc tx))
      \<and> (new \<noteq> [] \<longrightarrow> g + ov + (\<Sum>tx\<leftarrow>new. txOverhead rc tx) \<le> m)"
      by (rule Cons.IH [OF take(6)]) (use n le ov Cons.prems(3,5) assms(7) in auto)
    then obtain new where "sel_txs s' = sel_txs s @ tx # new" "sel_totalGas s' = js_int (g + ov + (\<Sum>tx\<leftarrow>new. txOverhead rc tx))"
      "new \<noteq> [] \<longrightarrow> g + ov + (\<Sum>tx\<leftarrow>new. txOverhead rc tx) \<le> m" by auto
    then show ?thesis using le ov(1) by (intro exI [of _ "tx # new"]) (cases new; simp add: add.assoc)
  qed (use Cons in simp)
qed simp

lemma addBatch_gasStep:
  assumes "getTxsToRollup answer (batchLimits rc n s) assetIds q p = Inr (result, queue, provider)"
    and "bq_feeResolver q = rc_feeResolver rc" "bq_bridgeCallData q = b"
    and "\<forall>tx\<in>set (bq_txQueue q). td_txType (rt_tx tx) = TX_DEFI_DEPOSIT"
  shows "gasStep rc s (addBatch rc b result queue provider s) (bqr_txsToRollup result) (if bqr_txsToRollup result = [] then [] else [b])"
  unfolding gasStep_def
proof (intro allI impI)
  fix g assume x: "exactGas rc \<and> rr_gasUsed (ss_resources s) = js_int g \<and> 0 \<le> g \<and> g \<le> 2 ^ 51"
  let ?s' = "addBatch rc b result queue provider s" and ?txs = "bqr_txsToRollup result"
  have used: "rr_gasUsed (ss_resources ?s') = js_add (js_int g) (rr_gasUsed (bqr_resourcesConsumed result))"
    using x by (simp add: addBatch_def Let_def)
  have max: "0 \<le> rc_maxGasForRollup rc" "rc_maxGasForRollup rc \<le> 2 ^ 51" using x unfolding exactGas_def by blast+
  have lim: "ql_gas (batchLimits rc n s) = js_int (rc_maxGasForRollup rc - g)"
  proof -
    have "\<bar>rc_maxGasForRollup rc - g\<bar> < 2 ^ 53" using x max by (auto simp: abs_less_iff)
    then show ?thesis using x js_sub_int by (simp add: batchLimits_def)
  qed
  from assms(1) show "rr_gasUsed (ss_resources ?s') = js_int (g + gasOf rc ?txs (if ?txs = [] then [] else [b]))
      \<and> (?txs \<noteq> [] \<longrightarrow> g + gasOf rc ?txs (if ?txs = [] then [] else [b]) \<le> rc_maxGasForRollup rc)"
  proof (cases rule: getTxsToRollup_cases)
    case none
    then show ?thesis using used x by (simp add: emptyQueueResult_def gasOf_def)
  next
    case (batch sel fullGas v p1 claimed)
    let ?c = "fr_getFullBridgeGasFromContract (rc_feeResolver rc) b"
    have c: "0 \<le> ?c" "?c \<le> 2 ^ 50" using contractGas_exact x by blast+
    have "\<exists>new. sel_txs sel = [] @ new \<and> sel_totalGas sel = js_int (?c + (\<Sum>tx\<leftarrow>new. txOverhead rc tx))
      \<and> (new \<noteq> [] \<longrightarrow> ?c + (\<Sum>tx\<leftarrow>new. txOverhead rc tx) \<le> rc_maxGasForRollup rc - g)"
      using selectTxs_gas_exact [OF batch(2) [unfolded assms(2,3)] _ _ c(1) _ lim _ assms(4)] x c max by simp
    then have "sel_totalGas sel = js_int (?c + (\<Sum>tx\<leftarrow>?txs. txOverhead rc tx))" "?c + (\<Sum>tx\<leftarrow>?txs. txOverhead rc tx) \<le> rc_maxGasForRollup rc - g"
      using batch(4,7) by simp_all
    moreover have "0 \<le> ?c + (\<Sum>tx\<leftarrow>?txs. txOverhead rc tx)"
      using c txOverhead_nonneg x by (intro add_nonneg_nonneg sum_list_nonneg) auto
    ultimately show ?thesis using used batch(4,7,8) x max by (simp add: gasOf_def add.commute add.left_commute)
  qed
qed

section \<open>The selection stays within the limits\<close>

lemma subseq_mset: "subseq xs ys \<Longrightarrow> mset xs \<subseteq># mset ys"
  by (induction rule: list_emb.induct) (auto intro: subset_mset.order_trans)

lemma getTxsToRollup_facts:
  assumes "getTxsToRollup answer lims assetIds q p = Inr (res, q', p')"
    and "finite assetIds" "int (card assetIds) \<le> ql_maxAssets lims"
  defines "txs \<equiv> bqr_txsToRollup res" and "used \<equiv> bqr_resourcesConsumed res"
  shows "mset txs \<subseteq># mset (bq_txQueue q)" "int (length txs) \<le> max 0 (ql_maxTxs lims)"
    "rr_callDataUsed used = int (length txs) * getTxCallData TX_DEFI_DEPOSIT"
    "txs \<noteq> [] \<Longrightarrow> rr_callDataUsed used \<le> ql_callData lims"
    "\<exists>A. finite A \<and> int (card A) \<le> ql_maxAssets lims \<and> assetIds \<subseteq> A
       \<and> (\<forall>tx\<in>set txs. paysFee (bq_feeResolver q) tx \<longrightarrow> av_assetId (rt_fee tx) \<in> A)"
    "bq_bridgeCallData q' = bq_bridgeCallData q" "bq_feeResolver q' = bq_feeResolver q"
    "set (bq_txQueue q') \<subseteq> set (bq_txQueue q)"
    "txs = [] \<Longrightarrow> q' = q"
proof -
  from assms(1) have "mset txs \<subseteq># mset (bq_txQueue q) \<and> int (length txs) \<le> max 0 (ql_maxTxs lims)
    \<and> rr_callDataUsed used = int (length txs) * getTxCallData TX_DEFI_DEPOSIT
    \<and> (txs \<noteq> [] \<longrightarrow> rr_callDataUsed used \<le> ql_callData lims)
    \<and> (\<exists>A. finite A \<and> int (card A) \<le> ql_maxAssets lims \<and> assetIds \<subseteq> A
       \<and> (\<forall>tx\<in>set txs. paysFee (bq_feeResolver q) tx \<longrightarrow> av_assetId (rt_fee tx) \<in> A))
    \<and> bq_bridgeCallData q' = bq_bridgeCallData q \<and> bq_feeResolver q' = bq_feeResolver q
    \<and> set (bq_txQueue q') \<subseteq> set (bq_txQueue q) \<and> (txs = [] \<longrightarrow> q' = q)"
  proof (cases rule: getTxsToRollup_cases)
    case none
    then show ?thesis using assms(2,3) by (auto simp: txs_def used_def emptyQueueResult_def)
  next
    case (batch s fullGas v p1 claimed)
    have "withinLimits lims s"
      by (rule selectTxs_within [OF batch(2)]) (simp add: withinLimits_def assms)
    moreover obtain ys where "sel_txs s = ys" "subseq ys (bq_txQueue q)" "assetIds \<subseteq> sel_assets s"
      "\<forall>tx\<in>set ys. paysFee (bq_feeResolver q) tx \<longrightarrow> av_assetId (rt_fee tx) \<in> sel_assets s"
      using selectTxs_subseq [OF batch(2)] by auto
    ultimately show ?thesis using batch(4,7-9) set_drop_subset [of "length (sel_txs s)" "bq_txQueue q"]
      by (auto simp: txs_def used_def withinLimits_def subseq_mset simp del: set_drop_subset intro!: exI [of _ "sel_assets s"])
  qed
  then show "mset txs \<subseteq># mset (bq_txQueue q)" "int (length txs) \<le> max 0 (ql_maxTxs lims)"
    "rr_callDataUsed used = int (length txs) * getTxCallData TX_DEFI_DEPOSIT"
    "txs \<noteq> [] \<Longrightarrow> rr_callDataUsed used \<le> ql_callData lims"
    "\<exists>A. finite A \<and> int (card A) \<le> ql_maxAssets lims \<and> assetIds \<subseteq> A
       \<and> (\<forall>tx\<in>set txs. paysFee (bq_feeResolver q) tx \<longrightarrow> av_assetId (rt_fee tx) \<in> A)"
    "bq_bridgeCallData q' = bq_bridgeCallData q" "bq_feeResolver q' = bq_feeResolver q"
    "set (bq_txQueue q') \<subseteq> set (bq_txQueue q)" "txs = [] \<Longrightarrow> q' = q" by auto
qed

text \<open>Every queue holds DeFi deposits of its own bridge call.\<close>

definition queuedFor :: "int \<Rightarrow> rollupTx \<Rightarrow> bool" where
  "queuedFor b rt \<longleftrightarrow> defiRollupTx (rt_tx rt) = Inr rt \<and> rt_bridgeCallData rt = Some b \<and> td_txType (rt_tx rt) = TX_DEFI_DEPOSIT"

definition queueOK :: "rollupCoordinator \<Rightarrow> int \<Rightarrow> bridgeTxQueue \<Rightarrow> bool" where
  "queueOK rc b q \<longleftrightarrow> bq_bridgeCallData q = b \<and> bq_feeResolver q = rc_feeResolver rc \<and> (\<forall>rt\<in>set (bq_txQueue q). queuedFor b rt)"

definition queuesOK :: "rollupCoordinator \<Rightarrow> selectionState \<Rightarrow> bool" where
  "queuesOK rc s \<longleftrightarrow> (\<forall>b. queueOK rc b (newQueue rc b s))"

lemma addDefiTx_set: "set (bq_txQueue (addDefiTx rt q)) = insert rt (set (bq_txQueue q))"
  "mset (bq_txQueue (addDefiTx rt q)) = add_mset rt (mset (bq_txQueue q))"
  "bq_bridgeCallData (addDefiTx rt q) = bq_bridgeCallData q" "bq_feeResolver (addDefiTx rt q) = bq_feeResolver q"
  by (simp_all add: bridge_queue.items_add insertBehind_set insertBehind_mset) (simp_all add: addDefiTx_def Let_def)

lemma queueOK_add: "queueOK rc b q \<Longrightarrow> queuedFor b rt \<Longrightarrow> queueOK rc b (addDefiTx rt q)"
  by (auto simp: queueOK_def addDefiTx_set)

lemma queuesOK_simps [simp]:
  "queuesOK rc (s\<lparr>ss_resources := res\<rparr>) = queuesOK rc s" "queuesOK rc (s\<lparr>ss_txs := txs\<rparr>) = queuesOK rc s"
  "queuesOK rc (addTx rc assetId rt s) = queuesOK rc s" "queuesOK rc (discardTx p s) = queuesOK rc s"
  "queuesOK rc (addDefiTxs r bcd txs s) = queuesOK rc s"
  by (simp_all add: queuesOK_def newQueue_def addTx_def discardTx_def)

lemma newQueue_addBatch:
  "newQueue rc b (addBatch rc bcd result queue provider s) = (if b = bcd then queue else newQueue rc b s)"
  by (simp add: newQueue_def addBatch_def Let_def)

text \<open>The effect of one iteration on the selected transactions, their resources and the queues.\<close>

definition wellFormedTx :: "rollupTx \<Rightarrow> bool" where
  "wellFormedTx rt \<longleftrightarrow> (\<exists>p. proofOf (rt_tx rt) = Inr p \<and> ProofData_feeAssetId p = Inr (av_assetId (rt_fee rt)))"

lemma queuedFor_wellFormed: "queuedFor b rt \<Longrightarrow> wellFormedTx rt"
proof -
  assume q: "queuedFor b rt"
  then obtain p where "proofOf (rt_tx rt) = Inr p" by (auto simp: queuedFor_def defiRollupTx_def bindE_eq_Inr)
  then show ?thesis using q defiRollupTx_simps(2) by (auto simp: queuedFor_def wellFormedTx_def)
qed

definition addsOne :: "rollupCoordinator \<Rightarrow> rollupTx \<Rightarrow> selectionState \<Rightarrow> selectionState \<Rightarrow> bool" where
  "addsOne rc rt s s' \<longleftrightarrow> ss_txs s' = ss_txs s @ [rt] \<and> (\<forall>b. newQueue rc b s' = newQueue rc b s) \<and> wellFormedTx rt
     \<and> gasStep rc s s' [rt] (drop (length (rr_bridgeCallDatas (ss_resources s))) (rr_bridgeCallDatas (ss_resources s')))
     \<and> (let res = ss_resources s; res' = ss_resources s' in
        rr_callDataUsed res' = rr_callDataUsed res + getTxCallData (td_txType (rt_tx rt))
      \<and> rr_callDataUsed res' \<le> rc_maxCallDataForRollup rc
      \<and> (rr_assetIds res' = rr_assetIds res \<or> rr_assetIds res' = insert (av_assetId (rt_fee rt)) (rr_assetIds res)
           \<and> (av_assetId (rt_fee rt) \<in> rr_assetIds res \<or> card (rr_assetIds res) \<noteq> NUM_FEE_ASSETS_PER_BLOCK))
      \<and> (td_txType (rt_tx rt) \<noteq> TX_ACCOUNT \<and> paysFee (rc_feeResolver rc) rt \<longrightarrow> av_assetId (rt_fee rt) \<in> rr_assetIds res')
      \<and> (case rt_bridgeCallData rt of None \<Rightarrow> td_txType (rt_tx rt) \<noteq> TX_DEFI_DEPOSIT \<and> rr_bridgeCallDatas res' = rr_bridgeCallDatas res
         | Some b \<Rightarrow> queuedFor b rt \<and> (if b \<in> set (rr_bridgeCallDatas res) then rr_bridgeCallDatas res' = rr_bridgeCallDatas res
             else length (rr_bridgeCallDatas res) \<noteq> NUM_BRIDGE_CALLS_PER_BLOCK
               \<and> rr_bridgeCallDatas res' = rr_bridgeCallDatas res @ [b])))"

definition addsBatch :: "rollupCoordinator \<Rightarrow> rollupTx \<Rightarrow> int \<Rightarrow> rollupTx list \<Rightarrow> selectionState \<Rightarrow> selectionState \<Rightarrow> bool" where
  "addsBatch rc rt b batch s s' \<longleftrightarrow> queuedFor b rt \<and> ss_txs s' = ss_txs s @ batch
     \<and> gasStep rc s s' batch (if batch = [] then [] else [b])
     \<and> (\<forall>b'. b' \<noteq> b \<longrightarrow> newQueue rc b' s' = newQueue rc b' s)
     \<and> mset batch \<subseteq># mset (bq_txQueue (addDefiTx rt (newQueue rc b s)))
     \<and> set (bq_txQueue (newQueue rc b s')) \<subseteq> set (bq_txQueue (addDefiTx rt (newQueue rc b s)))
     \<and> (batch = [] \<longrightarrow> newQueue rc b s' = addDefiTx rt (newQueue rc b s))
     \<and> int (length batch) \<le> max 0 (totalSlots rc - int (length (ss_txs s)))
     \<and> (let res = ss_resources s; res' = ss_resources s' in
        b \<notin> set (rr_bridgeCallDatas res) \<and> length (rr_bridgeCallDatas res) \<noteq> NUM_BRIDGE_CALLS_PER_BLOCK
      \<and> rr_callDataUsed res' = rr_callDataUsed res + int (length batch) * getTxCallData TX_DEFI_DEPOSIT
      \<and> (batch \<noteq> [] \<longrightarrow> rr_callDataUsed res' \<le> rc_maxCallDataForRollup rc)
      \<and> (finite (rr_assetIds res) \<and> card (rr_assetIds res) \<le> NUM_FEE_ASSETS_PER_BLOCK
          \<longrightarrow> finite (rr_assetIds res') \<and> card (rr_assetIds res') \<le> NUM_FEE_ASSETS_PER_BLOCK)
      \<and> rr_assetIds res \<subseteq> rr_assetIds res'
      \<and> (\<forall>tx\<in>set batch. paysFee (rc_feeResolver rc) tx \<longrightarrow> av_assetId (rt_fee tx) \<in> rr_assetIds res')
      \<and> rr_bridgeCallDatas res' = (if batch = [] then rr_bridgeCallDatas res else rr_bridgeCallDatas res @ [b]))"

lemma checkAndAddTx_effect:
  assumes "checkAndAddTx rc b (b \<in> set (rr_bridgeCallDatas (ss_resources s))) rt s = Inr s'" "queuedFor b rt"
    and "assetFits rc (av_assetId (rt_fee rt)) s"
    and "b \<in> set (rr_bridgeCallDatas (ss_resources s)) \<or> length (rr_bridgeCallDatas (ss_resources s)) \<noteq> NUM_BRIDGE_CALLS_PER_BLOCK"
  shows "s' = s \<or> addsOne rc rt s s'"
proof (cases "s' = s")
  case False
  note gas = checkAndAddTx_gasStep [OF assms(1) False]
  from assms(1) show ?thesis
  proof (cases rule: checkAndAddTx_cases)
  case (added unadjusted totalGas)
  have t: "td_txType (rt_tx rt) = TX_DEFI_DEPOSIT" "rt_bridgeCallData rt = Some b" using assms(2) by (simp_all add: queuedFor_def)
  have "newQueue rc b' s' = newQueue rc b' s" for b' by (simp add: added(5) newQueue_def)
  moreover have "rr_assetIds (ss_resources s') = rr_assetIds (ss_resources s)
      \<union> (if paysFee (rc_feeResolver rc) rt then {av_assetId (rt_fee rt)} else {})"
    by (auto simp: added(5))
  moreover have "rr_bridgeCallDatas (ss_resources s') = (if b \<in> set (rr_bridgeCallDatas (ss_resources s))
      then rr_bridgeCallDatas (ss_resources s) else rr_bridgeCallDatas (ss_resources s) @ [b])"
    using t addDefiTxs_bridges [of "[rt]" b] by (simp add: added(5))
  moreover have "ss_txs s' = ss_txs s @ [rt]" "rr_callDataUsed (ss_resources s') = rr_callDataUsed (ss_resources s) + getTxCallData TX_DEFI_DEPOSIT"
    by (simp_all add: added(5))
  moreover have "wellFormedTx rt" by (rule queuedFor_wellFormed [OF assms(2)])
  moreover have "gasStep rc s s' [rt] (drop (length (rr_bridgeCallDatas (ss_resources s))) (rr_bridgeCallDatas (ss_resources s')))"
    using gas [OF t(1)] calculation(3) by (simp split: if_splits)
  ultimately have "addsOne rc rt s s'"
    using t added(4) assms(2-4) unfolding addsOne_def Let_def
    by (auto simp: paysFee_def assetFits_def)
  then show ?thesis ..
  qed (use False in simp)
qed simp

lemma addBatch_effect:
  assumes "getTxsToRollup answer (batchLimits rc (totalSlots rc - int (length (ss_txs s))) s) (rr_assetIds (ss_resources s))
      (addDefiTx rt (newQueue rc b s)) (ss_provider s) = Inr (result, queue, provider)"
    and "b \<notin> set (rr_bridgeCallDatas (ss_resources s))" "length (rr_bridgeCallDatas (ss_resources s)) \<noteq> NUM_BRIDGE_CALLS_PER_BLOCK"
    and "queuedFor b rt" "queueOK rc b (newQueue rc b s)"
    and fin: "finite (rr_assetIds (ss_resources s))" "card (rr_assetIds (ss_resources s)) \<le> NUM_FEE_ASSETS_PER_BLOCK"
  shows "addsBatch rc rt b (bqr_txsToRollup result) s (addBatch rc b result queue provider s)"
    "queueOK rc b queue"
proof -
  let ?q = "addDefiTx rt (newQueue rc b s)" and ?s' = "addBatch rc b result queue provider s"
  have q: "queueOK rc b ?q" by (rule queueOK_add [OF assms(5,4)])
  have "int (card (rr_assetIds (ss_resources s))) \<le> ql_maxAssets (batchLimits rc (totalSlots rc - int (length (ss_txs s))) s)"
    using fin by (simp add: batchLimits_def)
  note f = getTxsToRollup_facts [OF assms(1) fin(1) this]
  from f(5) obtain A where A: "finite A" "card A \<le> NUM_FEE_ASSETS_PER_BLOCK" "rr_assetIds (ss_resources s) \<subseteq> A"
    "\<forall>tx\<in>set (bqr_txsToRollup result). paysFee (rc_feeResolver rc) tx \<longrightarrow> av_assetId (rt_fee tx) \<in> A"
    using q by (auto simp: batchLimits_def queueOK_def)
  have sub: "set (bqr_txsToRollup result) \<subseteq> set (bq_txQueue ?q)" using set_mset_mono [OF f(1)] by simp
  then have b: "\<forall>tx\<in>set (bqr_txsToRollup result). rt_bridgeCallData tx = Some b" using q by (auto simp: queueOK_def queuedFor_def)
  have gas: "gasStep rc s ?s' (bqr_txsToRollup result) (if bqr_txsToRollup result = [] then [] else [b])"
    by (rule addBatch_gasStep [OF assms(1)]) (use q in \<open>auto simp: queueOK_def queuedFor_def\<close>)
  have as: "rr_assetIds (ss_resources ?s') = rr_assetIds (ss_resources s)
     \<union> (\<lambda>tx. av_assetId (rt_fee tx)) ` {tx \<in> set (bqr_txsToRollup result). paysFee (rc_feeResolver rc) tx}"
    by (simp add: addBatch_def Let_def)
  have "rr_assetIds (ss_resources ?s') \<subseteq> A" using A by (auto simp: as)
  then have "finite (rr_assetIds (ss_resources ?s')) \<and> card (rr_assetIds (ss_resources ?s')) \<le> NUM_FEE_ASSETS_PER_BLOCK"
    using A(1,2) card_mono [of A] finite_subset [of _ A] by (auto intro: order_trans)
  moreover have "rr_bridgeCallDatas (ss_resources ?s') = (if bqr_txsToRollup result = [] then rr_bridgeCallDatas (ss_resources s)
      else rr_bridgeCallDatas (ss_resources s) @ [b])"
    using assms(2) addDefiTxs_bridges [OF b] by (simp add: addBatch_def Let_def)
  moreover have "ss_txs ?s' = ss_txs s @ bqr_txsToRollup result"
    "rr_callDataUsed (ss_resources ?s') = rr_callDataUsed (ss_resources s) + rr_callDataUsed (bqr_resourcesConsumed result)"
    by (simp_all add: addBatch_def Let_def)
  ultimately show "addsBatch rc rt b (bqr_txsToRollup result) s ?s'"
    using f(1-4,8,9) assms(2-4) as gas unfolding addsBatch_def Let_def by (auto simp: newQueue_addBatch batchLimits_def)
  show "queueOK rc b queue" using f(6-8) q by (auto simp: queueOK_def)
qed

text \<open>What one iteration may do with a transaction whose proof is \<open>p\<close>.\<close>

definition considered :: "rollupCoordinator \<Rightarrow> txDao \<Rightarrow> proofData \<Rightarrow> selectionState \<Rightarrow> selectionState \<Rightarrow> bool" where
  "considered rc tx p s s' \<longleftrightarrow> proofOf tx = Inr p
     \<and> (ss_txs s' = ss_txs s \<and> ss_resources s' = ss_resources s \<and> (\<forall>b. newQueue rc b s' = newQueue rc b s)
          \<and> (td_txType tx \<in> {TX_ACCOUNT, TX_DEFI_DEPOSIT} \<and> ss_discarded s' = ss_discarded s
             \<or> ss_discarded s' = ss_discarded s @ [pd_noteCommitment1 p, pd_noteCommitment2 p])
        \<or> (\<exists>rt. rt_tx rt = tx \<and> addsOne rc rt s s' \<and> ss_discarded s' = ss_discarded s
          \<and> (td_txType tx \<noteq> TX_ACCOUNT \<longrightarrow> \<not> linkDiscarded p s))
        \<or> (\<exists>rt b batch. rt_tx rt = tx \<and> addsBatch rc rt b batch s s' \<and> ss_discarded s' = ss_discarded s
          \<and> \<not> linkDiscarded p s))"

lemma isAccountTx_iff [simp]: "isAccountTx t \<longleftrightarrow> t = TX_ACCOUNT"
  by (simp add: isAccountTx_def)

lemma isDefiDepositTx_iff [simp]: "isDefiDepositTx t \<longleftrightarrow> t = TX_DEFI_DEPOSIT"
  by (simp add: isDefiDepositTx_def)

lemma considered_same:
  "proofOf tx = Inr p \<Longrightarrow> td_txType tx \<in> {TX_ACCOUNT, TX_DEFI_DEPOSIT} \<Longrightarrow> considered rc tx p s s"
  by (simp add: considered_def)

lemma considered_discard: "proofOf tx = Inr p \<Longrightarrow> considered rc tx p s (discardTx p s)"
  by (simp add: considered_def discardTx_def newQueue_def)

lemma considered_one:
  "proofOf tx = Inr p \<Longrightarrow> rt_tx rt = tx \<Longrightarrow> addsOne rc rt s s' \<Longrightarrow> ss_discarded s' = ss_discarded s \<Longrightarrow>
     td_txType tx \<noteq> TX_ACCOUNT \<longrightarrow> \<not> linkDiscarded p s \<Longrightarrow> considered rc tx p s s'"
  unfolding considered_def by (rule conjI, assumption, rule disjI2, rule disjI1) (intro exI [of _ rt] conjI)

lemma considered_batch:
  "proofOf tx = Inr p \<Longrightarrow> rt_tx rt = tx \<Longrightarrow> addsBatch rc rt b batch s s' \<Longrightarrow> ss_discarded s' = ss_discarded s \<Longrightarrow>
     \<not> linkDiscarded p s \<Longrightarrow> considered rc tx p s s'"
  unfolding considered_def by (rule conjI, assumption, rule disjI2, rule disjI2) (intro exI [of _ rt] exI [of _ b] exI [of _ batch] conjI)

lemma validated_addsOne:
  assumes "validateAndUpdateRollupResources rc (td_txType (rt_tx rt)) assetId (ss_resources s) = Inr (Some res)"
    and "rt_bridgeCallData rt = None" "td_txType (rt_tx rt) \<noteq> TX_DEFI_DEPOSIT"
    and "ss_txs s' = ss_txs s @ [rt]" "ss_queues s' = ss_queues s"
    and "rr_callDataUsed (ss_resources s') = rr_callDataUsed res" "rr_bridgeCallDatas (ss_resources s') = rr_bridgeCallDatas (ss_resources s)"
    and "rr_assetIds (ss_resources s') = rr_assetIds (ss_resources s) \<and> td_txType (rt_tx rt) = TX_ACCOUNT
     \<or> assetFits rc (av_assetId (rt_fee rt)) s \<and> rr_assetIds (ss_resources s') = rr_assetIds (ss_resources s)
         \<union> (if isFeePayingAsset (rc_feeResolver rc) (av_assetId (rt_fee rt)) then {av_assetId (rt_fee rt)} else {})"
    and "wellFormedTx rt" "rr_gasUsed (ss_resources s') = rr_gasUsed res"
    and "\<And>g. getGasOverheadForTxType (fr_feeCalculator (rc_feeResolver rc)) assetId (td_txType (rt_tx rt)) = Inr g \<Longrightarrow> txOverhead rc rt = g"
  shows "addsOne rc rt s s'"
proof -
  have gas: "gasStep rc s s' [rt] []" by (rule validated_gasStep [OF assms(1,10,11)])
  from assms(1) obtain u where "res = (ss_resources s)\<lparr>rr_callDataUsed := getTxCallData (td_txType (rt_tx rt)) + rr_callDataUsed (ss_resources s),
     rr_gasUsed := js_add (js_sub u (fr_getUnadjustedBaseVerificationGas (rc_feeResolver rc))) (rr_gasUsed (ss_resources s))\<rparr>"
    "rr_callDataUsed res \<le> rc_maxCallDataForRollup rc"
    by (rule validateAndUpdateRollupResources_Some)
  then have c: "rr_callDataUsed (ss_resources s') = rr_callDataUsed (ss_resources s) + getTxCallData (td_txType (rt_tx rt))"
    "rr_callDataUsed (ss_resources s') \<le> rc_maxCallDataForRollup rc" using assms(6) by simp_all
  have q: "newQueue rc b s' = newQueue rc b s" for b using assms(5) by (simp add: newQueue_def)
  show ?thesis unfolding addsOne_def Let_def option.case assms(2)
    using c q assms(3,4,7-9) gas by (auto simp: assetFits_def paysFee_def split: if_splits)
qed

lemma considerTx_effect:
  assumes "considerTx rc flush answer tx s = Inr s'" and "queuesOK rc s"
    and fin: "finite (rr_assetIds (ss_resources s))" "card (rr_assetIds (ss_resources s)) \<le> NUM_FEE_ASSETS_PER_BLOCK"
  shows "queuesOK rc s' \<and> (\<exists>p. considered rc tx p s s')"
  using assms(1)
proof (cases rule: considerTx_cases)
  case (1 p assetId)
  from 1(3) show ?thesis
  proof (elim disjE conjE exE)
    assume "isAccountTx (td_txType tx)" "s' = s"
    then show ?thesis using assms(2) considered_same [OF 1(1), of rc s] by auto
  next
    fix res rt
    assume a: "isAccountTx (td_txType tx)" "validateAndUpdateRollupResources rc TX_ACCOUNT 0 (ss_resources s) = Inr (Some res)"
      "createRollupTx tx p = Inr rt" "s' = s\<lparr>ss_resources := res, ss_txs := ss_txs s @ [rt]\<rparr>"
    note rt = createRollupTx_simps [OF a(3)]
    from a(2) obtain u where "rr_bridgeCallDatas res = rr_bridgeCallDatas (ss_resources s)" "rr_assetIds res = rr_assetIds (ss_resources s)"
      by (rule validateAndUpdateRollupResources_Some) simp
    moreover have "wellFormedTx rt" using rt 1(1) by (auto simp: wellFormedTx_def)
    moreover have "txOverhead rc rt = g"
      if "getGasOverheadForTxType (fr_feeCalculator (rc_feeResolver rc)) 0 (td_txType (rt_tx rt)) = Inr g" for g
      using account_overhead [of _ g "av_assetId (rt_fee rt)"] that a(1) rt(1,2) readUInt32BE_range
      by (auto simp: txOverhead_def ProofData_feeAssetId_def)
    ultimately have "addsOne rc rt s s'" using a rt by (intro validated_addsOne [of rc rt 0 s res]) auto
    then show ?thesis using considered_one [OF 1(1) rt(1), of rc s s'] a(1,4) assms(2) by auto
  next
    assume "s' = discardTx p s"
    then show ?thesis using assms(2) considered_discard [OF 1(1), of rc s] by auto
  next
    fix res rt
    assume a: "\<not> isDefiDepositTx (td_txType tx)" "assetFits rc assetId s" "\<not> linkDiscarded p s"
      "validateAndUpdateRollupResources rc (td_txType tx) assetId (ss_resources s) = Inr (Some res)"
      "createRollupTx tx p = Inr rt" "s' = addTx rc assetId rt (s\<lparr>ss_resources := res\<rparr>)"
    note rt = createRollupTx_simps [OF a(5)]
    from a(4) obtain u where "rr_bridgeCallDatas res = rr_bridgeCallDatas (ss_resources s)" "rr_assetIds res = rr_assetIds (ss_resources s)"
      by (rule validateAndUpdateRollupResources_Some) simp
    moreover have "av_assetId (rt_fee rt) = assetId" using rt(2) 1(2) by simp
    moreover have "wellFormedTx rt" using rt 1(1) by (auto simp: wellFormedTx_def)
    ultimately have "addsOne rc rt s s'"
      using a rt by (intro validated_addsOne [of rc rt assetId s res]) (auto simp: addTx_def txOverhead_def)
    then show ?thesis using considered_one [OF 1(1) rt(1), of rc s s'] a(3,6) assms(2) by (auto simp: addTx_def)
  next
    assume defi: "isDefiDepositTx (td_txType tx)" "assetFits rc assetId s" "\<not> linkDiscarded p s"
      "handleNewDefiTx rc flush answer tx (totalSlots rc - int (length (ss_txs s))) s = Inr s'"
    have rt: "rt_tx rt = tx" "queuedFor bcd rt" "assetFits rc (av_assetId (rt_fee rt)) s"
      if "defiRollupTx tx = Inr rt" "rt_bridgeCallData rt = Some bcd" for rt bcd
      using that defi(1,2) defiRollupTx_simps [OF that(1) 1(1)] 1(2) by (auto simp: queuedFor_def)
    from defi(4) show ?thesis
    proof (cases rule: handleNewDefiTx_cases)
      case unchanged
      then show ?thesis using assms(2) considered_same [OF 1(1), of rc s] defi(1) by auto
    next
      case (direct rt bcd)
      have d: "ss_discarded s' = ss_discarded s \<and> ss_queues s' = ss_queues s"
        using direct(4) by (cases rule: checkAndAddTx_cases) simp_all
      then have "queuesOK rc s'" using assms(2) by (simp add: queuesOK_def newQueue_def)
      moreover have "s' = s \<or> addsOne rc rt s s'"
        by (rule checkAndAddTx_effect [OF direct(4) rt(2,3) direct(3)]) (use direct in auto)
      ultimately show ?thesis
        using considered_same [OF 1(1), of rc s] considered_one [OF 1(1) rt(1) [OF direct(1,2)], of rc s s'] d defi(1,3) by auto
    next
      case (queued rt bcd result queue provider)
      have "queueOK rc bcd (newQueue rc bcd s)" using assms(2) by (simp add: queuesOK_def)
      note e = addBatch_effect [OF queued(5,3,4) rt(2) [OF queued(1,2)] this fin, folded queued(6)]
      have "queuesOK rc s'" using e(2) assms(2) by (simp add: queuesOK_def queued(6) newQueue_addBatch)
      moreover have "ss_discarded s' = ss_discarded s" by (simp add: queued(6) addBatch_def Let_def)
      ultimately show ?thesis using considered_batch [OF 1(1) rt(1) [OF queued(1,2)] e(1) _ defi(3)] by auto
    qed
  qed
qed

text \<open>The limits of a rollup. The counts of transactions are bounded by what was seen: a transaction is selected, or
  waits in the queue of its own bridge call, at most as often as it was seen.\<close>

definition callDataOf :: "rollupTx list \<Rightarrow> int" where
  "callDataOf txs = sum_list (map (\<lambda>tx. getTxCallData (td_txType (rt_tx tx))) txs)"

definition selectionOK :: "rollupCoordinator \<Rightarrow> selectionState \<Rightarrow> bool" where
  "selectionOK rc s \<longleftrightarrow> (let res = ss_resources s in
     int (length (ss_txs s)) \<le> max 0 (totalSlots rc)
   \<and> rr_callDataUsed res = callDataOf (ss_txs s) \<and> (ss_txs s \<noteq> [] \<longrightarrow> rr_callDataUsed res \<le> rc_maxCallDataForRollup rc)
   \<and> finite (rr_assetIds res) \<and> card (rr_assetIds res) \<le> NUM_FEE_ASSETS_PER_BLOCK
   \<and> distinct (rr_bridgeCallDatas res) \<and> length (rr_bridgeCallDatas res) \<le> NUM_BRIDGE_CALLS_PER_BLOCK
   \<and> (\<forall>tx\<in>set (ss_txs s). td_txType (rt_tx tx) \<noteq> TX_ACCOUNT \<and> paysFee (rc_feeResolver rc) tx
        \<longrightarrow> av_assetId (rt_fee tx) \<in> rr_assetIds res)
   \<and> (\<forall>tx\<in>set (ss_txs s). case rt_bridgeCallData tx of None \<Rightarrow> td_txType (rt_tx tx) \<noteq> TX_DEFI_DEPOSIT
        | Some b \<Rightarrow> queuedFor b tx \<and> b \<in> set (rr_bridgeCallDatas res)))"

definition waiting :: "rollupCoordinator \<Rightarrow> selectionState \<Rightarrow> txDao \<Rightarrow> txDao multiset" where
  "waiting rc s t = (case defiRollupTx t of Inl _ \<Rightarrow> {#}
     | Inr rt \<Rightarrow> let b = the (rt_bridgeCallData rt) in if b \<in> set (rr_bridgeCallDatas (ss_resources s)) then {#}
         else mset (map rt_tx (bq_txQueue (newQueue rc b s))))"

definition noDuplicates :: "rollupCoordinator \<Rightarrow> txDao list \<Rightarrow> selectionState \<Rightarrow> bool" where
  "noDuplicates rc seen s \<longleftrightarrow>
     (\<forall>t. count (mset (map rt_tx (ss_txs s))) t + count (waiting rc s t) t \<le> count (mset seen) t)"

lemma selectionOK_append:
  assumes "selectionOK rc s" and t: "ss_txs s' = ss_txs s @ new" and "int (length (ss_txs s')) \<le> max 0 (totalSlots rc)"
    and c: "rr_callDataUsed (ss_resources s') = rr_callDataUsed (ss_resources s) + callDataOf new"
      "new \<noteq> [] \<Longrightarrow> rr_callDataUsed (ss_resources s') \<le> rc_maxCallDataForRollup rc"
    and "finite (rr_assetIds (ss_resources s'))" "card (rr_assetIds (ss_resources s')) \<le> NUM_FEE_ASSETS_PER_BLOCK"
    and sub: "rr_assetIds (ss_resources s) \<subseteq> rr_assetIds (ss_resources s')"
    and bs: "rr_bridgeCallDatas (ss_resources s') = rr_bridgeCallDatas (ss_resources s) @ bs"
      "distinct bs" "set bs \<inter> set (rr_bridgeCallDatas (ss_resources s)) = {}"
      "length (rr_bridgeCallDatas (ss_resources s')) \<le> NUM_BRIDGE_CALLS_PER_BLOCK"
    and new: "\<forall>tx\<in>set new. td_txType (rt_tx tx) \<noteq> TX_ACCOUNT \<and> paysFee (rc_feeResolver rc) tx
        \<longrightarrow> av_assetId (rt_fee tx) \<in> rr_assetIds (ss_resources s')"
      "\<forall>tx\<in>set new. case rt_bridgeCallData tx of None \<Rightarrow> td_txType (rt_tx tx) \<noteq> TX_DEFI_DEPOSIT
        | Some b \<Rightarrow> queuedFor b tx \<and> b \<in> set (rr_bridgeCallDatas (ss_resources s'))"
  shows "selectionOK rc s'"
proof -
  note ok = assms(1) [unfolded selectionOK_def Let_def]
  have "rr_callDataUsed (ss_resources s') = callDataOf (ss_txs s')" using ok c t by (simp add: callDataOf_def)
  moreover have "ss_txs s' \<noteq> [] \<longrightarrow> rr_callDataUsed (ss_resources s') \<le> rc_maxCallDataForRollup rc"
  proof (cases "new = []")
    case True
    then have "rr_callDataUsed (ss_resources s') = rr_callDataUsed (ss_resources s)" "ss_txs s' = ss_txs s"
      using c t by (simp_all add: callDataOf_def)
    moreover have "ss_txs s \<noteq> [] \<longrightarrow> rr_callDataUsed (ss_resources s) \<le> rc_maxCallDataForRollup rc" using ok by blast
    ultimately show ?thesis by simp
  qed (use c in blast)
  moreover have "distinct (rr_bridgeCallDatas (ss_resources s'))" using ok bs by (simp add: Int_commute)
  moreover have "\<forall>tx\<in>set (ss_txs s'). td_txType (rt_tx tx) \<noteq> TX_ACCOUNT \<and> paysFee (rc_feeResolver rc) tx
      \<longrightarrow> av_assetId (rt_fee tx) \<in> rr_assetIds (ss_resources s')" using ok new(1) sub unfolding t set_append by blast
  moreover have "\<forall>tx\<in>set (ss_txs s'). case rt_bridgeCallData tx of None \<Rightarrow> td_txType (rt_tx tx) \<noteq> TX_DEFI_DEPOSIT
        | Some b \<Rightarrow> queuedFor b tx \<and> b \<in> set (rr_bridgeCallDatas (ss_resources s'))"
  proof
    fix tx assume "tx \<in> set (ss_txs s')"
    then have "tx \<in> set (ss_txs s) \<or> tx \<in> set new" unfolding t by simp
    then show "case rt_bridgeCallData tx of None \<Rightarrow> td_txType (rt_tx tx) \<noteq> TX_DEFI_DEPOSIT
        | Some b \<Rightarrow> queuedFor b tx \<and> b \<in> set (rr_bridgeCallDatas (ss_resources s'))"
    proof
      assume m: "tx \<in> set (ss_txs s)"
      have "\<forall>tx\<in>set (ss_txs s). case rt_bridgeCallData tx of None \<Rightarrow> td_txType (rt_tx tx) \<noteq> TX_DEFI_DEPOSIT
        | Some b \<Rightarrow> queuedFor b tx \<and> b \<in> set (rr_bridgeCallDatas (ss_resources s))" using ok by blast
      from bspec [OF this m] show ?thesis using bs(1) by (auto split: option.splits)
    qed (use new(2) in blast)
  qed
  ultimately show ?thesis using assms(3,6,7,12) by (simp add: selectionOK_def)
qed

lemma selectionOK_one:
  assumes "selectionOK rc s" "addsOne rc rt s s'" "int (length (ss_txs s)) < totalSlots rc"
  shows "selectionOK rc s'"
proof -
  have ok: "finite (rr_assetIds (ss_resources s))" "card (rr_assetIds (ss_resources s)) \<le> NUM_FEE_ASSETS_PER_BLOCK"
    "length (rr_bridgeCallDatas (ss_resources s)) \<le> NUM_BRIDGE_CALLS_PER_BLOCK"
    using assms(1) by (simp_all add: selectionOK_def Let_def)
  note e = assms(2) [unfolded addsOne_def Let_def]
  have a: "rr_assetIds (ss_resources s') = rr_assetIds (ss_resources s)
     \<or> rr_assetIds (ss_resources s') = insert (av_assetId (rt_fee rt)) (rr_assetIds (ss_resources s))
       \<and> (av_assetId (rt_fee rt) \<in> rr_assetIds (ss_resources s) \<or> card (rr_assetIds (ss_resources s)) \<noteq> NUM_FEE_ASSETS_PER_BLOCK)"
    using e by blast
  have b: "case rt_bridgeCallData rt of None \<Rightarrow> td_txType (rt_tx rt) \<noteq> TX_DEFI_DEPOSIT
         \<and> rr_bridgeCallDatas (ss_resources s') = rr_bridgeCallDatas (ss_resources s)
         | Some b \<Rightarrow> queuedFor b rt \<and> (if b \<in> set (rr_bridgeCallDatas (ss_resources s))
             then rr_bridgeCallDatas (ss_resources s') = rr_bridgeCallDatas (ss_resources s)
             else length (rr_bridgeCallDatas (ss_resources s)) \<noteq> NUM_BRIDGE_CALLS_PER_BLOCK
               \<and> rr_bridgeCallDatas (ss_resources s') = rr_bridgeCallDatas (ss_resources s) @ [b])"
    using e by blast
  let ?bs = "case rt_bridgeCallData rt of None \<Rightarrow> []
    | Some b \<Rightarrow> if b \<in> set (rr_bridgeCallDatas (ss_resources s)) then [] else [b]"
  show ?thesis
  proof (rule selectionOK_append [OF assms(1), of s' "[rt]" ?bs])
    show "rr_bridgeCallDatas (ss_resources s') = rr_bridgeCallDatas (ss_resources s) @ ?bs"
      "length (rr_bridgeCallDatas (ss_resources s')) \<le> NUM_BRIDGE_CALLS_PER_BLOCK"
      "\<forall>tx\<in>set [rt]. case rt_bridgeCallData tx of None \<Rightarrow> td_txType (rt_tx tx) \<noteq> TX_DEFI_DEPOSIT
        | Some b \<Rightarrow> queuedFor b tx \<and> b \<in> set (rr_bridgeCallDatas (ss_resources s'))"
      using b ok(3) by (auto split: option.splits if_splits)
    show "finite (rr_assetIds (ss_resources s'))" "card (rr_assetIds (ss_resources s')) \<le> NUM_FEE_ASSETS_PER_BLOCK"
      "rr_assetIds (ss_resources s) \<subseteq> rr_assetIds (ss_resources s')"
      using a ok(1,2) by (auto simp: card_insert_if)
  qed (use e assms(3) in \<open>auto simp: callDataOf_def split: option.splits\<close>)
qed

lemma callDataOf_batch:
  "\<forall>tx\<in>set batch. td_txType (rt_tx tx) = TX_DEFI_DEPOSIT \<Longrightarrow>
     callDataOf batch = int (length batch) * getTxCallData TX_DEFI_DEPOSIT"
  by (induction batch) (simp_all add: callDataOf_def algebra_simps)

lemma addsBatch_queuedFor:
  assumes "addsBatch rc rt b batch s s'" "queuesOK rc s"
  shows "\<forall>tx\<in>set batch. queuedFor b tx"
proof -
  have "queueOK rc b (addDefiTx rt (newQueue rc b s))"
    using assms by (intro queueOK_add) (simp_all add: queuesOK_def addsBatch_def)
  moreover have "set batch \<subseteq> set (bq_txQueue (addDefiTx rt (newQueue rc b s)))"
    using assms(1) set_mset_mono [of "mset batch" "mset (bq_txQueue (addDefiTx rt (newQueue rc b s)))"]
    by (simp add: addsBatch_def)
  ultimately show ?thesis by (auto simp: queueOK_def)
qed

lemma selectionOK_batch:
  assumes "selectionOK rc s" "addsBatch rc rt b batch s s'" "queuesOK rc s" "int (length (ss_txs s)) < totalSlots rc"
  shows "selectionOK rc s'"
proof -
  note q = addsBatch_queuedFor [OF assms(2,3)]
  then have c: "callDataOf batch = int (length batch) * getTxCallData TX_DEFI_DEPOSIT"
    by (intro callDataOf_batch) (simp add: queuedFor_def)
  have n: "\<forall>tx\<in>set batch. rt_bridgeCallData tx = Some b" using q by (simp add: queuedFor_def)
  have ok: "finite (rr_assetIds (ss_resources s))" "card (rr_assetIds (ss_resources s)) \<le> NUM_FEE_ASSETS_PER_BLOCK"
    "length (rr_bridgeCallDatas (ss_resources s)) \<le> NUM_BRIDGE_CALLS_PER_BLOCK"
    using assms(1) by (simp_all add: selectionOK_def Let_def)
  note e = assms(2) [unfolded addsBatch_def Let_def]
  show ?thesis
  proof (rule selectionOK_append [OF assms(1), of s' batch "if batch = [] then [] else [b]"])
    show "\<forall>tx\<in>set batch. case rt_bridgeCallData tx of None \<Rightarrow> td_txType (rt_tx tx) \<noteq> TX_DEFI_DEPOSIT
        | Some b \<Rightarrow> queuedFor b tx \<and> b \<in> set (rr_bridgeCallDatas (ss_resources s'))"
      using q n e by auto
  qed (use e ok assms(4) c in auto)
qed

lemma waiting_mono:
  assumes "\<forall>b. newQueue rc b s' = newQueue rc b s" "set (rr_bridgeCallDatas (ss_resources s)) \<subseteq> set (rr_bridgeCallDatas (ss_resources s'))"
  shows "waiting rc s' t \<subseteq># waiting rc s t"
  using assms by (auto simp: waiting_def Let_def split: sum.splits)

lemma noDuplicates_keep:
  assumes "noDuplicates rc seen s" "ss_txs s' = ss_txs s" "\<forall>b. newQueue rc b s' = newQueue rc b s" "ss_resources s' = ss_resources s"
  shows "noDuplicates rc (seen @ [tx]) s'"
proof -
  have "waiting rc s' t = waiting rc s t" for t using assms(3,4) by (auto simp: waiting_def Let_def split: sum.split)
  then show ?thesis using assms(1,2) by (fastforce simp: noDuplicates_def intro: le_SucI)
qed

lemma noDuplicates_one:
  assumes "noDuplicates rc seen s" "addsOne rc rt s s'" "rt_tx rt = tx"
  shows "noDuplicates rc (seen @ [tx]) s'"
  unfolding noDuplicates_def
proof
  fix t
  have "waiting rc s' t \<subseteq># waiting rc s t"
    using assms(2) by (intro waiting_mono) (auto simp: addsOne_def Let_def split: option.splits if_splits)
  then have "count (waiting rc s' t) t \<le> count (waiting rc s t) t" by (simp add: mset_subset_eq_count)
  moreover have "count (mset (map rt_tx (ss_txs s))) t + count (waiting rc s t) t \<le> count (mset seen) t"
    using assms(1) by (simp add: noDuplicates_def)
  moreover have "ss_txs s' = ss_txs s @ [rt]" using assms(2) by (simp add: addsOne_def)
  ultimately show "count (mset (map rt_tx (ss_txs s'))) t + count (waiting rc s' t) t \<le> count (mset (seen @ [tx])) t"
    using assms(3) by auto
qed

lemma noDuplicates_batch:
  assumes "noDuplicates rc seen s" "addsBatch rc rt b batch s s'" "rt_tx rt = tx" "queuesOK rc s"
  shows "noDuplicates rc (seen @ [tx]) s'"
  unfolding noDuplicates_def
proof
  fix t
  note e = assms(2) [unfolded addsBatch_def Let_def]
  have le: "count (mset (map rt_tx (ss_txs s))) t + count (waiting rc s t) t \<le> count (mset seen) t"
    using assms(1) by (simp add: noDuplicates_def)
  have txs: "count (mset (map rt_tx (ss_txs s'))) t = count (mset (map rt_tx (ss_txs s))) t + count (mset (map rt_tx batch)) t"
    using e by simp
  have sub: "count (mset (map rt_tx batch)) t \<le> count (mset (map rt_tx (bq_txQueue (newQueue rc b s)))) t + (if tx = t then 1 else 0)"
  proof -
    have "image_mset rt_tx (mset batch) \<subseteq># image_mset rt_tx (add_mset rt (mset (bq_txQueue (newQueue rc b s))))"
      using e by (intro image_mset_subseteq_mono) (simp add: addDefiTx_set)
    from mset_subset_eq_count [OF this, of t] show ?thesis using assms(3) by auto
  qed
  show "count (mset (map rt_tx (ss_txs s'))) t + count (waiting rc s' t) t \<le> count (mset (seen @ [tx])) t"
  proof (cases "\<exists>r. defiRollupTx t = Inr r \<and> rt_bridgeCallData r = Some b")
    case True
    then have w: "waiting rc s t = mset (map rt_tx (bq_txQueue (newQueue rc b s)))"
      "waiting rc s' t = (if batch = [] then mset (map rt_tx (bq_txQueue (addDefiTx rt (newQueue rc b s)))) else {#})"
      using e by (auto simp: waiting_def)
    have "mset (map rt_tx (bq_txQueue (addDefiTx rt (newQueue rc b s)))) = add_mset tx (mset (map rt_tx (bq_txQueue (newQueue rc b s))))"
      by (simp add: addDefiTx_set assms(3))
    then show ?thesis using le txs sub unfolding w by auto
  next
    case False
    have q: "\<forall>x\<in>set batch. queuedFor b x" by (rule addsBatch_queuedFor [OF assms(2,4)])
    have "count (mset (map rt_tx batch)) t = 0"
      using q False by (auto simp: count_eq_zero_iff queuedFor_def)
    moreover have "waiting rc s' t \<subseteq># waiting rc s t"
    proof (cases "defiRollupTx t")
      case (Inr r)
      then obtain b' where "rt_bridgeCallData r = Some b'"
        using defiRollupTx_simps(3) [OF Inr] by (auto simp: defiRollupTx_def bindE_eq_Inr)
      then show ?thesis using False Inr e by (auto simp: waiting_def)
    qed (simp add: waiting_def)
    then have "count (waiting rc s' t) t \<le> count (waiting rc s t) t" by (simp add: mset_subset_eq_count)
    ultimately show ?thesis using le txs by simp
  qed
qed

section \<open>Chains of transactions\<close>

text \<open>\<open>tx\<close> spends a note of \<open>t\<close> before it is in the tree.\<close>

definition chainsFrom :: "txDao \<Rightarrow> txDao \<Rightarrow> bool" where
  "chainsFrom tx t \<longleftrightarrow> (case (proofOf tx, proofOf t) of
     (Inr p, Inr c) \<Rightarrow> pd_backwardLink p \<noteq> zeros 32 \<and> pd_backwardLink p \<in> {pd_noteCommitment1 c, pd_noteCommitment2 c}
   | _ \<Rightarrow> False)"

text \<open>What the receiver of transactions admits: only claims and transactions between notes are chained from, account
  transactions and claims chain from nothing, and a transaction comes after the one it chains from.\<close>

definition chainsInOrder :: "txDao list \<Rightarrow> bool" where
  "chainsInOrder txs \<longleftrightarrow> (\<forall>j<length txs. \<forall>t\<in>set txs. chainsFrom (txs ! j) t \<longrightarrow>
     t \<in> set (take j txs) \<and> td_txType t \<notin> {TX_ACCOUNT, TX_DEFI_DEPOSIT} \<and> td_txType (txs ! j) \<notin> {TX_ACCOUNT, TX_DEFI_CLAIM})"

definition chainsClosed :: "txDao list \<Rightarrow> txDao list \<Rightarrow> bool" where
  "chainsClosed all txs \<longleftrightarrow> (\<forall>k<length txs. \<forall>t\<in>set all. chainsFrom (txs ! k) t \<longrightarrow> t \<in> set (take k txs))"

lemma chainsClosed_append:
  assumes "chainsClosed all txs" "\<forall>x\<in>set new. \<forall>t\<in>set all. chainsFrom x t \<longrightarrow> t \<in> set txs"
  shows "chainsClosed all (txs @ new)"
  unfolding chainsClosed_def
proof (intro allI impI ballI)
  fix k t assume k: "k < length (txs @ new)" "t \<in> set all" "chainsFrom ((txs @ new) ! k) t"
  show "t \<in> set (take k (txs @ new))"
  proof (cases "k < length txs")
    case True
    then show ?thesis using assms(1) k by (simp add: chainsClosed_def nth_append)
  next
    case False
    then have "(txs @ new) ! k \<in> set new" using k(1) by (simp add: nth_append)
    then show ?thesis using assms(2) k False by auto
  qed
qed

lemma in_take_conv: "t \<in> set (take j xs) \<longleftrightarrow> (\<exists>i<j. i < length xs \<and> xs ! i = t)"
  by (auto simp: in_set_conv_nth)

text \<open>The sort keeps chains in order: it moves claims to the front, and claims chain from nothing.\<close>

lemma chainsInOrder_split:
  "chainsInOrder txs \<longleftrightarrow> (\<forall>pre x post. txs = pre @ x # post \<longrightarrow> (\<forall>t\<in>set txs. chainsFrom x t \<longrightarrow>
     t \<in> set pre \<and> td_txType t \<notin> {TX_ACCOUNT, TX_DEFI_DEPOSIT} \<and> td_txType x \<notin> {TX_ACCOUNT, TX_DEFI_CLAIM}))"
proof
  assume c: "chainsInOrder txs"
  show "\<forall>pre x post. txs = pre @ x # post \<longrightarrow> (\<forall>t\<in>set txs. chainsFrom x t \<longrightarrow>
     t \<in> set pre \<and> td_txType t \<notin> {TX_ACCOUNT, TX_DEFI_DEPOSIT} \<and> td_txType x \<notin> {TX_ACCOUNT, TX_DEFI_CLAIM})"
  proof (intro allI impI)
    fix pre x post assume "txs = pre @ x # post"
    then show "\<forall>t\<in>set txs. chainsFrom x t \<longrightarrow>
     t \<in> set pre \<and> td_txType t \<notin> {TX_ACCOUNT, TX_DEFI_DEPOSIT} \<and> td_txType x \<notin> {TX_ACCOUNT, TX_DEFI_CLAIM}"
      using c [unfolded chainsInOrder_def, rule_format, of "length pre"] by auto
  qed
next
  assume s: "\<forall>pre x post. txs = pre @ x # post \<longrightarrow> (\<forall>t\<in>set txs. chainsFrom x t \<longrightarrow>
     t \<in> set pre \<and> td_txType t \<notin> {TX_ACCOUNT, TX_DEFI_DEPOSIT} \<and> td_txType x \<notin> {TX_ACCOUNT, TX_DEFI_CLAIM})"
  show "chainsInOrder txs" unfolding chainsInOrder_def
    using s [rule_format, OF id_take_nth_drop] by blast
qed

lemma filter_split:
  "filter P txs = pre @ x # post \<Longrightarrow> \<exists>pre' post'. txs = pre' @ x # post' \<and> filter P pre' = pre \<and> P x"
proof (induction txs arbitrary: pre)
  case (Cons y ys)
  show ?case
  proof (cases "P y")
    case False
    with Cons.prems have "filter P ys = pre @ x # post" by simp
    from Cons.IH [OF this] obtain pre' post' where "ys = pre' @ x # post'" "filter P pre' = pre" "P x" by blast
    then show ?thesis using False by (intro exI [of _ "y # pre'"] exI [of _ post']) simp
  next
    case True
    show ?thesis
    proof (cases pre)
      case Nil
      then show ?thesis using True Cons.prems by (intro exI [of _ "[]"] exI [of _ ys]) simp
    next
      case (Cons z zs)
      with True Cons.prems have "z = y" "filter P ys = zs @ x # post" by simp_all
      from Cons.IH [OF this(2)] obtain pre' post' where "ys = pre' @ x # post'" "filter P pre' = zs" "P x" by blast
      then show ?thesis using True Cons \<open>z = y\<close> by (intro exI [of _ "y # pre'"] exI [of _ post']) simp
    qed
  qed
qed simp

lemma chainsInOrder_claimsFirst: "chainsInOrder txs \<Longrightarrow> chainsInOrder (claimsFirst txs)"
  unfolding chainsInOrder_split [of "claimsFirst txs"]
proof (intro allI impI ballI)
  fix pre x post t
  assume c: "chainsInOrder txs" and eq: "claimsFirst txs = pre @ x # post" and t: "t \<in> set (claimsFirst txs)" "chainsFrom x t"
  let ?C = "\<lambda>tx. td_txType tx = TX_DEFI_CLAIM"
  have "x \<in> set (claimsFirst txs)" by (simp add: eq)
  then obtain p q where xpq: "txs = p @ x # q" by (auto simp: claimsFirst_def dest: split_list)
  have tin: "t \<in> set txs" using t(1) by (auto simp: claimsFirst_def)
  with c xpq t(2) have x: "td_txType t \<notin> {TX_ACCOUNT, TX_DEFI_DEPOSIT}" "td_txType x \<notin> {TX_ACCOUNT, TX_DEFI_CLAIM}"
    unfolding chainsInOrder_split by blast+
  have "\<not> length pre < length (filter ?C txs)"
  proof
    assume l: "length pre < length (filter ?C txs)"
    have "(pre @ x # post) ! length pre = x" by simp
    then have "filter ?C txs ! length pre = x" using l by (simp add: eq [symmetric] claimsFirst_def nth_append)
    then have "x \<in> set (filter ?C txs)" using l nth_mem by blast
    then show False using x(2) by simp
  qed
  then have l: "length (filter ?C txs) \<le> length pre" by simp
  let ?pre = "drop (length (filter ?C txs)) pre"
  have pre: "pre = filter ?C txs @ ?pre"
  proof -
    have "take (length (filter ?C txs)) (claimsFirst txs) = take (length (filter ?C txs)) pre" using l by (simp add: eq)
    then show ?thesis by (simp add: claimsFirst_def) (metis append_take_drop_id)
  qed
  have "filter (\<lambda>tx. \<not> ?C tx) txs = ?pre @ x # post"
    using eq pre unfolding claimsFirst_def by (metis append.assoc same_append_eq)
  from filter_split [OF this] obtain pre' post' where s: "txs = pre' @ x # post'" "filter (\<lambda>tx. \<not> ?C tx) pre' = ?pre" by blast
  with c tin t(2) have "t \<in> set pre'" unfolding chainsInOrder_split by blast
  then have "t \<in> set pre"
  proof (cases "?C t")
    case True
    then have "t \<in> set (filter ?C txs)" using tin by simp
    then show ?thesis by (subst pre) simp
  next
    case False
    then have "t \<in> set (filter (\<lambda>tx. \<not> ?C tx) pre')" using \<open>t \<in> set pre'\<close> by simp
    then have "t \<in> set ?pre" unfolding s(2) .
    then show ?thesis by (subst pre) simp
  qed
  with x show "t \<in> set pre \<and> td_txType t \<notin> {TX_ACCOUNT, TX_DEFI_DEPOSIT} \<and> td_txType x \<notin> {TX_ACCOUNT, TX_DEFI_CLAIM}"
    by simp
qed

text \<open>The invariant of the loop: what was seen and may be chained from is selected, or its notes are discarded; what is
  selected or queued chains from selected transactions only.\<close>

definition chainOK :: "rollupCoordinator \<Rightarrow> txDao list \<Rightarrow> txDao list \<Rightarrow> selectionState \<Rightarrow> bool" where
  "chainOK rc all seen s \<longleftrightarrow>
     (\<forall>t\<in>set seen. td_txType t \<notin> {TX_ACCOUNT, TX_DEFI_DEPOSIT} \<longrightarrow> t \<in> set (map rt_tx (ss_txs s))
        \<or> (\<exists>c. proofOf t = Inr c \<and> {pd_noteCommitment1 c, pd_noteCommitment2 c} \<subseteq> set (ss_discarded s)))
   \<and> (\<forall>b. \<forall>rt\<in>set (bq_txQueue (newQueue rc b s)). \<forall>t\<in>set all. chainsFrom (rt_tx rt) t \<longrightarrow> t \<in> set (map rt_tx (ss_txs s)))
   \<and> chainsClosed all (map rt_tx (ss_txs s))"

lemma chain_creator_selected:
  assumes "chainOK rc all seen s" "chainsInOrder all" "all = seen @ tx # rest" "proofOf tx = Inr p"
    and "td_txType tx \<noteq> TX_ACCOUNT \<longrightarrow> \<not> linkDiscarded p s" "t \<in> set all" "chainsFrom tx t"
  shows "t \<in> set (map rt_tx (ss_txs s))"
proof -
  from assms(2,3,6,7) have t: "t \<in> set seen" "td_txType t \<notin> {TX_ACCOUNT, TX_DEFI_DEPOSIT}" "td_txType tx \<noteq> TX_ACCOUNT"
    unfolding chainsInOrder_split by blast+
  with assms(1) have "t \<in> set (map rt_tx (ss_txs s))
     \<or> (\<exists>c. proofOf t = Inr c \<and> {pd_noteCommitment1 c, pd_noteCommitment2 c} \<subseteq> set (ss_discarded s))"
    unfolding chainOK_def by blast
  moreover have "\<not> linkDiscarded p s" using assms(5) t(3) by blast
  ultimately show ?thesis using assms(4,7) by (auto simp: chainsFrom_def linkDiscarded_def split: sum.splits)
qed

lemma chainOK_append:
  assumes "chainOK rc all seen s" and t: "ss_txs s' = ss_txs s @ new" and d: "set (ss_discarded s) \<subseteq> set (ss_discarded s')"
    and tx: "td_txType tx \<in> {TX_ACCOUNT, TX_DEFI_DEPOSIT} \<or> tx \<in> rt_tx ` set new
      \<or> (\<exists>c. proofOf tx = Inr c \<and> {pd_noteCommitment1 c, pd_noteCommitment2 c} \<subseteq> set (ss_discarded s'))"
    and new: "\<And>rt t. rt \<in> set new \<or> (\<exists>b. rt \<in> set (bq_txQueue (newQueue rc b s'))) \<Longrightarrow> t \<in> set all \<Longrightarrow> chainsFrom (rt_tx rt) t
      \<Longrightarrow> t \<in> set (map rt_tx (ss_txs s))"
  shows "chainOK rc all (seen @ [tx]) s'"
proof -
  note ok = assms(1) [unfolded chainOK_def]
  have sub: "set (map rt_tx (ss_txs s)) \<subseteq> set (map rt_tx (ss_txs s'))" by (simp add: t)
  have "\<forall>t\<in>set (seen @ [tx]). td_txType t \<notin> {TX_ACCOUNT, TX_DEFI_DEPOSIT} \<longrightarrow> t \<in> set (map rt_tx (ss_txs s'))
        \<or> (\<exists>c. proofOf t = Inr c \<and> {pd_noteCommitment1 c, pd_noteCommitment2 c} \<subseteq> set (ss_discarded s'))"
  proof (intro ballI impI)
    fix u assume u: "u \<in> set (seen @ [tx])" "td_txType u \<notin> {TX_ACCOUNT, TX_DEFI_DEPOSIT}"
    show "u \<in> set (map rt_tx (ss_txs s'))
        \<or> (\<exists>c. proofOf u = Inr c \<and> {pd_noteCommitment1 c, pd_noteCommitment2 c} \<subseteq> set (ss_discarded s'))"
    proof (cases "u = tx")
      case True
      then show ?thesis using tx u(2) by (auto simp: t)
    next
      case False
      then have "u \<in> set seen" using u(1) by simp
      with ok u(2) have "u \<in> set (map rt_tx (ss_txs s))
        \<or> (\<exists>c. proofOf u = Inr c \<and> {pd_noteCommitment1 c, pd_noteCommitment2 c} \<subseteq> set (ss_discarded s))" by blast
      then show ?thesis using sub d by blast
    qed
  qed
  moreover have "\<forall>b. \<forall>rt\<in>set (bq_txQueue (newQueue rc b s')). \<forall>t\<in>set all. chainsFrom (rt_tx rt) t \<longrightarrow> t \<in> set (map rt_tx (ss_txs s'))"
    using new sub by blast
  moreover have "chainsClosed all (map rt_tx (ss_txs s'))"
  proof -
    have "\<forall>x\<in>set (map rt_tx new). \<forall>t\<in>set all. chainsFrom x t \<longrightarrow> t \<in> set (map rt_tx (ss_txs s))"
      using new by (auto simp only: set_map)
    then show ?thesis unfolding t map_append using ok by (intro chainsClosed_append) blast+
  qed
  ultimately show ?thesis unfolding chainOK_def by blast
qed

lemma chainOK_step:
  assumes "chainOK rc all seen s" "chainsInOrder all" "all = seen @ tx # rest" "considered rc tx p s s'"
  shows "chainOK rc all (seen @ [tx]) s'"
proof -
  have p: "proofOf tx = Inr p" using assms(4) by (simp add: considered_def)
  have queued: "t \<in> set (map rt_tx (ss_txs s))" if "rt \<in> set (bq_txQueue (newQueue rc b s))" "t \<in> set all" "chainsFrom (rt_tx rt) t" for b rt t
    using assms(1) that unfolding chainOK_def by blast
  from assms(4) show ?thesis unfolding considered_def
  proof (elim conjE disjE exE)
    assume s': "ss_txs s' = ss_txs s" "\<forall>b. newQueue rc b s' = newQueue rc b s" "td_txType tx \<in> {TX_ACCOUNT, TX_DEFI_DEPOSIT}"
      "ss_discarded s' = ss_discarded s"
    show ?thesis by (rule chainOK_append [OF assms(1), of s' "[]"]) (use s' queued in auto)
  next
    assume s': "ss_txs s' = ss_txs s" "\<forall>b. newQueue rc b s' = newQueue rc b s"
      "ss_discarded s' = ss_discarded s @ [pd_noteCommitment1 p, pd_noteCommitment2 p]"
    show ?thesis by (rule chainOK_append [OF assms(1), of s' "[]"]) (use s' p queued in auto)
  next
    fix rt
    assume rt: "rt_tx rt = tx" "addsOne rc rt s s'" "ss_discarded s' = ss_discarded s"
      "td_txType tx \<noteq> TX_ACCOUNT \<longrightarrow> \<not> linkDiscarded p s"
    note c = chain_creator_selected [OF assms(1-3) p rt(4)]
    have t: "ss_txs s' = ss_txs s @ [rt]" and q: "newQueue rc b s' = newQueue rc b s" for b
      using rt(2) by (simp_all add: addsOne_def)
    show ?thesis by (rule chainOK_append [OF assms(1) t]) (use rt(1,3) c queued q in auto)
  next
    fix rt b batch
    assume rt: "rt_tx rt = tx" "addsBatch rc rt b batch s s'" "ss_discarded s' = ss_discarded s" "\<not> linkDiscarded p s"
    note c = chain_creator_selected [OF assms(1-3) p impI [OF rt(4)]]
    note e = rt(2) [unfolded addsBatch_def]
    have t: "ss_txs s' = ss_txs s @ batch" and q: "b' \<noteq> b \<Longrightarrow> newQueue rc b' s' = newQueue rc b' s" for b'
      using e by simp_all
    have b: "x = rt \<or> x \<in> set (bq_txQueue (newQueue rc b s))" if "x \<in> set batch \<or> x \<in> set (bq_txQueue (newQueue rc b s'))" for x
    proof -
      have "set batch \<subseteq> set (bq_txQueue (addDefiTx rt (newQueue rc b s)))"
        using e set_mset_mono [of "mset batch" "mset (bq_txQueue (addDefiTx rt (newQueue rc b s)))"] by simp
      then show ?thesis using e that by (auto simp: addDefiTx_set)
    qed
    have "td_txType tx = TX_DEFI_DEPOSIT" using e rt(1) by (auto simp: queuedFor_def)
    show ?thesis
    proof (rule chainOK_append [OF assms(1) t])
      fix x t
      assume x: "x \<in> set batch \<or> (\<exists>b. x \<in> set (bq_txQueue (newQueue rc b s')))" and t: "t \<in> set all" "chainsFrom (rt_tx x) t"
      have "x = rt \<or> (\<exists>b. x \<in> set (bq_txQueue (newQueue rc b s)))" using x b q by metis
      then show "t \<in> set (map rt_tx (ss_txs s))" using c queued t rt(1) by blast
    qed (use rt(3) \<open>td_txType tx = TX_DEFI_DEPOSIT\<close> in auto)
  qed
qed

section \<open>The whole loop\<close>

lemma initialSelection_ok:
  "queuesOK rc (initialSelection rc)" "selectionOK rc (initialSelection rc)" "noDuplicates rc [] (initialSelection rc)"
  "chainOK rc all [] (initialSelection rc)"
  by (simp_all add: initialSelection_def queuesOK_def queueOK_def newQueue_def newBridgeTxQueue_def selectionOK_def
      noDuplicates_def chainOK_def chainsClosed_def callDataOf_def waiting_def Let_def split: sum.split)

lemma considerTx_step:
  assumes "queuesOK rc s \<and> selectionOK rc s \<and> noDuplicates rc seen s" "int (length (ss_txs s)) < totalSlots rc"
    "considerTx rc flush a tx s = Inr s'"
  shows "queuesOK rc s' \<and> selectionOK rc s' \<and> noDuplicates rc (seen @ [tx]) s' \<and> (\<exists>p. considered rc tx p s s')"
proof -
  have "finite (rr_assetIds (ss_resources s))" "card (rr_assetIds (ss_resources s)) \<le> NUM_FEE_ASSETS_PER_BLOCK"
    using assms(1) by (simp_all add: selectionOK_def Let_def)
  from considerTx_effect [OF assms(3) _ this] assms(1) obtain p where p: "queuesOK rc s'" "considered rc tx p s s'" by blast
  from p(2) have "selectionOK rc s' \<and> noDuplicates rc (seen @ [tx]) s'" unfolding considered_def
  proof (elim conjE disjE exE)
    assume "ss_txs s' = ss_txs s" "ss_resources s' = ss_resources s" "\<forall>b. newQueue rc b s' = newQueue rc b s"
      "td_txType tx \<in> {TX_ACCOUNT, TX_DEFI_DEPOSIT}"
    then show ?thesis using assms(1) noDuplicates_keep [of rc seen s s' tx] by (simp add: selectionOK_def)
  next
    assume "ss_txs s' = ss_txs s" "ss_resources s' = ss_resources s" "\<forall>b. newQueue rc b s' = newQueue rc b s"
      "ss_discarded s' = ss_discarded s @ [pd_noteCommitment1 p, pd_noteCommitment2 p]"
    then show ?thesis using assms(1) noDuplicates_keep [of rc seen s s' tx] by (simp add: selectionOK_def)
  next
    fix rt assume "rt_tx rt = tx" "addsOne rc rt s s'"
    then show ?thesis using assms(1,2) selectionOK_one noDuplicates_one by blast
  next
    fix rt b batch assume "rt_tx rt = tx" "addsBatch rc rt b batch s s'"
    then show ?thesis using assms(1,2) selectionOK_batch noDuplicates_batch by blast
  qed
  then show ?thesis using p by blast
qed

lemma getNextTxsToRollup_ok:
  assumes "getNextTxsToRollup rc flush answer pendingTxs = Inr s"
  shows "\<exists>n. queuesOK rc s \<and> selectionOK rc s \<and> noDuplicates rc (take n (claimsFirst pendingTxs)) s"
proof -
  let ?P = "\<lambda>seen s. queuesOK rc s \<and> selectionOK rc s \<and> noDuplicates rc seen s"
  have "\<exists>n\<le>length (claimsFirst pendingTxs). ?P ([] @ take n (claimsFirst pendingTxs)) s"
  proof (rule considerTxs_invariant [where P = ?P and all = "claimsFirst pendingTxs", OF assms [unfolded getNextTxsToRollup_def]])
    show "?P [] (initialSelection rc)" using initialSelection_ok by blast
  next
    fix seen tx i s s'
    assume "?P seen s" "int (length (ss_txs s)) < totalSlots rc" "considerTx rc flush (answer i) tx s = Inr s'"
    from considerTx_step [OF this] show "?P (seen @ [tx]) s'" by blast
  qed simp
  then show ?thesis by auto
qed

lemma getNextTxsToRollup_chains:
  assumes "getNextTxsToRollup rc flush answer pendingTxs = Inr s" "chainsInOrder pendingTxs"
  shows "chainsClosed (claimsFirst pendingTxs) (map rt_tx (ss_txs s))"
proof -
  let ?all = "claimsFirst pendingTxs"
  let ?P = "\<lambda>seen s. (queuesOK rc s \<and> selectionOK rc s \<and> noDuplicates rc seen s) \<and> chainOK rc ?all seen s"
  have "\<exists>n\<le>length ?all. ?P ([] @ take n ?all) s"
  proof (rule considerTxs_invariant [where P = ?P and all = ?all, OF assms(1) [unfolded getNextTxsToRollup_def]])
    show "?P [] (initialSelection rc)" using initialSelection_ok by blast
  next
    fix seen tx i s s'
    assume P: "?P seen s" and l: "int (length (ss_txs s)) < totalSlots rc" and all: "\<exists>rest. ?all = seen @ tx # rest"
      and c: "considerTx rc flush (answer i) tx s = Inr s'"
    note st = considerTx_step [OF conjunct1 [OF P] l c]
    then obtain p where p: "considered rc tx p s s'" by blast
    from all obtain rest where "?all = seen @ tx # rest" by blast
    from chainOK_step [OF conjunct2 [OF P] chainsInOrder_claimsFirst [OF assms(2)] this p] st
    show "?P (seen @ [tx]) s'" by blast
  qed simp
  then show ?thesis by (auto simp: chainOK_def)
qed

section \<open>A sample run\<close>

definition sampleCoordinator :: rollupCoordinator where
  "sampleCoordinator = \<lparr>rc_processedTxs = [], rc_state = BUILDING, rc_interrupted = False, rc_numInnerRollupTxs = 28,
     rc_numOuterRollupProofs = 1, rc_feeResolver = sampleFeeResolver, rc_maxGasForRollup = 12000000,
     rc_maxCallDataForRollup = 120000\<rparr>"

lemma proofField_concat:
  "\<forall>f\<in>set fs. length f = 32 \<Longrightarrow> i < length fs \<Longrightarrow> proofField (concat fs) i = fs ! i"
proof (induction fs arbitrary: i)
  case (Cons f fs)
  then show ?case by (cases i) (simp_all add: proofField_def bslice_def)
qed simp

definition byteWord :: "byte \<Rightarrow> buffer" where
  "byteWord b = zeros 31 @ [b]"

definition sampleRawProof :: "byte \<Rightarrow> byte \<Rightarrow> byte \<Rightarrow> buffer" where
  "sampleRawProof proofId commitment link = concat ([byteWord proofId, byteWord commitment] @ replicate 12 (zeros 32)
     @ [byteWord link, zeros 32])"

definition sampleTxDao :: "txType \<Rightarrow> byte \<Rightarrow> byte \<Rightarrow> byte \<Rightarrow> txDao" where
  "sampleTxDao t proofId commitment link = \<lparr>td_id = byteWord commitment, td_proofData = sampleRawProof proofId commitment link,
     td_offchainTxData = [], td_signature = None, td_nullifier1 = None, td_nullifier2 = None, td_dataRootsIndex = None, td_txType = t,
     td_created = 5, td_mined = None, td_excessGas = 100000, td_position = None, td_secondClass = False\<rparr>"

lemma sampleTxDao_type [simp]: "td_txType (sampleTxDao t proofId commitment link) = t"
  by (simp add: sampleTxDao_def)

lemma length_byteWord [simp]: "length (byteWord b) = 32"
  by (simp add: byteWord_def)

lemma byteWord_inj: "byteWord a = byteWord b \<longleftrightarrow> a = b"
  by (simp add: byteWord_def)

lemma byteWord_zeros: "zeros 32 = byteWord 0"
  by (simp add: byteWord_def zeros_def eval_nat_numeral)

lemma sampleRawProof_field:
  "i < 16 \<Longrightarrow> proofField (sampleRawProof proofId commitment link) i
     = ([byteWord proofId, byteWord commitment] @ replicate 12 (zeros 32) @ [byteWord link, zeros 32]) ! i"
  unfolding sampleRawProof_def by (rule proofField_concat) auto

lemma length_sampleRawProof: "length (sampleRawProof proofId commitment link) = 512"
  by (simp add: sampleRawProof_def length_concat sum_list_replicate)

lemma readUInt32BE_byteWord: "readUInt32BE (byteWord b @ rest) 28 = Inr (uint b)"
  by (simp add: readUInt32BE_def byteWord_def bslice_def zeros_def eval_nat_numeral be_value_def)

lemma sample_proof:
  "proofOf (sampleTxDao t proofId commitment link) = Inr p \<Longrightarrow> pd_proofId p = uint proofId"
  "\<exists>p. proofOf (sampleTxDao t proofId commitment link) = Inr p \<and> ProofData_feeAssetId p = Inr 0
     \<and> pd_noteCommitment1 p = byteWord commitment \<and> pd_noteCommitment2 p = zeros 32 \<and> pd_backwardLink p = byteWord link
     \<and> pd_txFee p = zeros 32"
proof -
  have r: "readUInt32BE (sampleRawProof proofId commitment link) 28 = Inr (uint proofId)"
    by (simp add: sampleRawProof_def readUInt32BE_byteWord)
  then show "proofOf (sampleTxDao t proofId commitment link) = Inr p \<Longrightarrow> pd_proofId p = uint proofId"
    by (auto simp: proofOf_def sampleTxDao_def newProofData_def)
  have z: "readUInt32BE (zeros 32) 28 = Inr 0" by (simp add: readUInt32BE_def bslice_def)
  show "\<exists>p. proofOf (sampleTxDao t proofId commitment link) = Inr p \<and> ProofData_feeAssetId p = Inr 0
     \<and> pd_noteCommitment1 p = byteWord commitment \<and> pd_noteCommitment2 p = zeros 32 \<and> pd_backwardLink p = byteWord link
     \<and> pd_txFee p = zeros 32"
    using r z by (simp add: proofOf_def sampleTxDao_def newProofData_def ProofData_feeAssetId_def sampleRawProof_field nth_append)
qed

text \<open>Two transfers, the second chained from the first, and the transactions selected from them.\<close>

definition samplePending :: "txDao list" where
  "samplePending = [sampleTxDao TX_TRANSFER 2 7 0, sampleTxDao TX_TRANSFER 2 8 7]"

lemma sample_transfer:
  assumes "rr_gasUsed (ss_resources s) = js_int g" "0 \<le> g" "g \<le> 1000000" "rr_callDataUsed (ss_resources s) \<le> 1000"
    and "rr_assetIds (ss_resources s) \<subseteq> {0}" "ss_discarded s = []"
  shows "\<exists>rt res. considerTx sampleCoordinator False a (sampleTxDao TX_TRANSFER 2 commitment link) s
      = Inr (s\<lparr>ss_resources := res, ss_txs := ss_txs s @ [rt]\<rparr>)
    \<and> rt_tx rt = sampleTxDao TX_TRANSFER 2 commitment link \<and> rr_gasUsed res = js_int (g + 6736)
    \<and> rr_callDataUsed res = rr_callDataUsed (ss_resources s) + getTxCallData TX_TRANSFER \<and> rr_assetIds res = {0}"
proof -
  let ?tx = "sampleTxDao TX_TRANSFER 2 commitment link"
  obtain p where p: "newProofData (td_proofData ?tx) None = Inr p" "ProofData_feeAssetId p = Inr 0"
    using sample_proof(2) [of TX_TRANSFER 2 commitment link] unfolding proofOf_def by blast
  obtain rt where rt: "createRollupTx ?tx p = Inr rt" "rt_tx rt = ?tx"
    using p(2) by (simp add: createRollupTx_def)
  have gas: "fr_getUnadjustedTxGas sampleFeeResolver 0 TX_TRANSFER = Inr (js_int 24594)"
    by (simp add: fr_getUnadjustedTxGas_def sampleFeeResolver_def sample_simps)
  have c: "rc_feeResolver sampleCoordinator = sampleFeeResolver" "rc_maxGasForRollup sampleCoordinator = 12000000"
    "rc_maxCallDataForRollup sampleCoordinator = 120000" by (simp_all add: sampleCoordinator_def)
  define res where "res = (ss_resources s)\<lparr>rr_callDataUsed := getTxCallData TX_TRANSFER + rr_callDataUsed (ss_resources s),
    rr_gasUsed := js_int (6736 + g)\<rparr>"
  have v: "validateAndUpdateRollupResources sampleCoordinator TX_TRANSFER 0 (ss_resources s) = Inr (Some res)"
    unfolding validateAndUpdateRollupResources_def c gas sample_resolver_gas Let_def mapR_Inr
    using assms(1-4) by (simp add: res_def)
  have a: "\<not> (0 \<notin> rr_assetIds (ss_resources s) \<and> card (rr_assetIds (ss_resources s)) = NUM_FEE_ASSETS_PER_BLOCK)"
    using assms(5) by (auto dest!: subset_singletonD simp: NUM_FEE_ASSETS_PER_BLOCK_def)
  then have a': "\<not> (isFeePayingAsset sampleFeeResolver 0 \<and> 0 \<notin> rr_assetIds (ss_resources s)
      \<and> card (rr_assetIds (ss_resources s)) = NUM_FEE_ASSETS_PER_BLOCK)" by blast
  have "considerTx sampleCoordinator False a ?tx s = Inr (addTx sampleCoordinator 0 rt (s\<lparr>ss_resources := res\<rparr>))"
    unfolding considerTx_def p bindE_Inr Let_def c sampleTxDao_type if_not_P [OF a'] using assms(6) v rt by simp
  also have "addTx sampleCoordinator 0 rt (s\<lparr>ss_resources := res\<rparr>)
      = s\<lparr>ss_resources := res\<lparr>rr_assetIds := insert 0 (rr_assetIds res)\<rparr>, ss_txs := ss_txs s @ [rt]\<rparr>"
    by (simp add: addTx_def c sample_resolver_gas)
  finally show ?thesis using rt(2) assms(5) by (intro exI conjI) (auto simp: res_def add.commute)
qed

lemma sample_selection:
  "\<exists>s. getNextTxsToRollup sampleCoordinator False answer samplePending = Inr s \<and> map rt_tx (ss_txs s) = samplePending"
proof -
  let ?s = "initialSelection sampleCoordinator"
  have z: "rr_gasUsed (ss_resources ?s) = js_int 500024"
  proof -
    have "totalSlots sampleCoordinator = 28" "rc_feeResolver sampleCoordinator = sampleFeeResolver"
      by (simp_all add: totalSlots_def sampleCoordinator_def)
    moreover have "js_mul_num (js_int 28) (js_int 17858) = js_int 500024"
      using roundF64_int [of 500024] by (simp add: js_int_def)
    ultimately show ?thesis by (simp add: initialSelection_def sample_resolver_gas)
  qed
  have i: "rr_callDataUsed (ss_resources ?s) = 0" "rr_assetIds (ss_resources ?s) = {}" "ss_discarded ?s = []" "ss_txs ?s = []"
    by (simp_all add: initialSelection_def)
  obtain rt1 res1 where 1: "considerTx sampleCoordinator False (answer 0) (sampleTxDao TX_TRANSFER 2 7 0) ?s
      = Inr (?s\<lparr>ss_resources := res1, ss_txs := ss_txs ?s @ [rt1]\<rparr>)" "rt_tx rt1 = sampleTxDao TX_TRANSFER 2 7 0"
    "rr_gasUsed res1 = js_int 506760" "rr_callDataUsed res1 = getTxCallData TX_TRANSFER" "rr_assetIds res1 = {0}"
    using sample_transfer [OF z, of "answer 0" 7 0] i by auto
  let ?s1 = "?s\<lparr>ss_resources := res1, ss_txs := ss_txs ?s @ [rt1]\<rparr>"
  obtain rt2 res2 where 2: "considerTx sampleCoordinator False (answer 1) (sampleTxDao TX_TRANSFER 2 8 7) ?s1
      = Inr (?s1\<lparr>ss_resources := res2, ss_txs := ss_txs ?s1 @ [rt2]\<rparr>)" "rt_tx rt2 = sampleTxDao TX_TRANSFER 2 8 7"
    using sample_transfer [of ?s1 506760 "answer 1" 8 7] i 1 by auto
  have "claimsFirst samplePending = samplePending" "totalSlots sampleCoordinator = 28"
    by (simp_all add: claimsFirst_def samplePending_def sampleTxDao_def totalSlots_def sampleCoordinator_def)
  then show ?thesis using 1(1,2) 2 i by (simp add: getNextTxsToRollup_def samplePending_def)
qed

section \<open>Properties\<close>

text \<open>C2: Whatever is pending, the transactions picked for a rollup fit it: they are at most the slots, their call data
  is what the coordinator accounts for and within the limit, they use at most 16 fee assets and 32 bridge
  calls, every fee asset and bridge call they need is declared, and no transaction is picked twice.\<close>

theorem rollup_selection_within_limits:
  assumes "getNextTxsToRollup rc flush answer pendingTxs = Inr s"
  defines "res \<equiv> ss_resources s" and "txs \<equiv> ss_txs s"
  shows "int (length txs) \<le> max 0 (totalSlots rc) \<and> mset (getProcessedTxs (rc\<lparr>rc_processedTxs := txs\<rparr>)) \<subseteq># mset pendingTxs
    \<and> rr_callDataUsed res = (\<Sum>tx\<leftarrow>txs. getTxCallData (td_txType (rt_tx tx)))
    \<and> (txs \<noteq> [] \<longrightarrow> rr_callDataUsed res \<le> rc_maxCallDataForRollup rc)
    \<and> card (rr_assetIds res) \<le> 16 \<and> distinct (rr_bridgeCallDatas res) \<and> length (rr_bridgeCallDatas res) \<le> 32
    \<and> (\<forall>tx\<in>set txs. (td_txType (rt_tx tx) \<noteq> TX_ACCOUNT \<and> paysFee (rc_feeResolver rc) tx \<longrightarrow> av_assetId (rt_fee tx) \<in> rr_assetIds res)
        \<and> (td_txType (rt_tx tx) = TX_DEFI_DEPOSIT \<longrightarrow> the (rt_bridgeCallData tx) \<in> set (rr_bridgeCallDatas res)))"
proof -
  from getNextTxsToRollup_ok [OF assms(1)] obtain n where ok: "selectionOK rc s"
    "noDuplicates rc (take n (claimsFirst pendingTxs)) s" by blast
  have "mset (map rt_tx txs) \<subseteq># mset (take n (claimsFirst pendingTxs))"
    using ok(2) by (intro mset_subset_eqI) (auto simp: noDuplicates_def txs_def intro: add_leD1)
  also have "\<dots> \<subseteq># mset (claimsFirst pendingTxs)"
    by (metis append_take_drop_id mset_append mset_subset_eq_add_left)
  also have "\<dots> = mset pendingTxs" by (simp add: claimsFirst_def)
  finally have "mset (getProcessedTxs (rc\<lparr>rc_processedTxs := txs\<rparr>)) \<subseteq># mset pendingTxs" by (simp add: getProcessedTxs_def)
  moreover note ok(1) [unfolded selectionOK_def Let_def, folded res_def txs_def]
  ultimately show ?thesis
    by (auto simp: callDataOf_def NUM_FEE_ASSETS_PER_BLOCK_def NUM_BRIDGE_CALLS_PER_BLOCK_def split: option.splits)
qed

theorem rollup_selection_within_limits_witness:
  "\<exists>s. getNextTxsToRollup sampleCoordinator False (\<lambda>_. None) samplePending = Inr s \<and> map rt_tx (ss_txs s) = samplePending
     \<and> mset samplePending \<subseteq># mset samplePending"
proof -
  obtain s where s: "getNextTxsToRollup sampleCoordinator False (\<lambda>_. None) samplePending = Inr s"
    "map rt_tx (ss_txs s) = samplePending" using sample_selection by blast
  from rollup_selection_within_limits [OF s(1)] s show ?thesis by (auto simp: getProcessedTxs_def)
qed

text \<open>C11: A selected transaction that spends a note another pending transaction creates comes after that transaction in
  the rollup, which is selected too: discarding a transaction discards everything chained to it, even through
  the queues of the bridges and although claims are moved to the front.\<close>

theorem rollup_selection_keeps_chains:
  assumes "getNextTxsToRollup rc flush answer pendingTxs = Inr s" "chainsInOrder pendingTxs"
    and "k < length (ss_txs s)" "t \<in> set pendingTxs" "chainsFrom (rt_tx (ss_txs s ! k)) t"
  shows "t \<in> set (map rt_tx (take k (ss_txs s)))"
  using getNextTxsToRollup_chains [OF assms(1,2)] assms(3-5)
  by (auto simp: chainsClosed_def claimsFirst_def take_map)

theorem rollup_selection_keeps_chains_witness:
  "\<exists>s. getNextTxsToRollup sampleCoordinator False (\<lambda>_. None) samplePending = Inr s \<and> length (ss_txs s) = 2
     \<and> samplePending ! 0 \<in> set (map rt_tx (take 1 (ss_txs s)))"
proof -
  obtain s where s: "getNextTxsToRollup sampleCoordinator False (\<lambda>_. None) samplePending = Inr s"
    "map rt_tx (ss_txs s) = samplePending" using sample_selection by blast
  have l: "length (ss_txs s) = 2" using arg_cong [OF s(2), of length] by (simp add: samplePending_def)
  have c: "chainsFrom (sampleTxDao TX_TRANSFER 2 c' l') (sampleTxDao TX_TRANSFER 2 c l) \<longleftrightarrow> l' \<noteq> 0 \<and> (l' = c)" for c l c' l'
    using sample_proof(2) [of TX_TRANSFER 2 c l] sample_proof(2) [of TX_TRANSFER 2 c' l'] byteWord_inj
    by (auto simp: chainsFrom_def byteWord_zeros)
  have "chainsInOrder samplePending"
    by (auto simp: chainsInOrder_def samplePending_def less_Suc_eq c)
  moreover have "chainsFrom (rt_tx (ss_txs s ! 1)) (samplePending ! 0)"
  proof -
    have "rt_tx (ss_txs s ! 1) = samplePending ! 1" using s(2) l nth_map [of 1 "ss_txs s" rt_tx] by simp
    then show ?thesis by (simp add: samplePending_def c)
  qed
  ultimately have "samplePending ! 0 \<in> set (map rt_tx (take 1 (ss_txs s)))"
    by (intro rollup_selection_keeps_chains [OF s(1)]) (simp_all add: l samplePending_def)
  then show ?thesis using s(1) l by blast
qed

end
