(* ===== verification/Publishing.thy ===== *)
theory Publishing
  imports Coordinator
begin

text \<open>
  The second half of \<open>falafel/src/pipeline_coordinator/rollup_coordinator.ts\<close>: when a selection is published, how
  second class transactions fill it up, and the batches it is cut into. The gas the selection accounts for is the
  gas the profiler of \<open>rollup_profiler.ts\<close> finds. The answer of the database to \<open>getPendingSecondClassTxs\<close> is a
  parameter; the proofs of the batches, their aggregation and the transaction to the contract are left to the
  collaborators, which get what \<open>publishPlan\<close> holds.
\<close>

section \<open>Publish conditions\<close>

definition fr_getMaxUnadjustedGas :: "txFeeResolver \<Rightarrow> jsnum res" where
  "fr_getMaxUnadjustedGas r = getMaxUnadjustedGas (fr_feeCalculator r)"

definition fr_getMaxTxCallData :: "txFeeResolver \<Rightarrow> int" where
  "fr_getMaxTxCallData r = getMaxTxCallData"

record publishConditions =
  pc_isProfitable :: bool
  pc_deadline :: bool
  pc_outOfGas :: bool
  pc_outOfCallData :: bool
  pc_outOfSlots :: bool

definition rollupHasDeadlined :: "rollupTx list \<Rightarrow> rollupProfile \<Rightarrow> rollupTimeout option \<Rightarrow> bool" where
  "rollupHasDeadlined rollupTxs rollupProfile baseTimeout =
    (if rp_totalTxs rollupProfile = 0 then False
     else case baseTimeout of None \<Rightarrow> False
       | Some t \<Rightarrow> list_ex (\<lambda>tx. td_created (rt_tx tx) < rto_timeout t)
           (filter (\<lambda>tx. td_txType (rt_tx tx) \<noteq> TX_DEFI_DEPOSIT) rollupTxs))"

definition getRollupPublishConditions ::
    "rollupCoordinator \<Rightarrow> rollupTx list \<Rightarrow> rollupProfile \<Rightarrow> rollupTimeout option \<Rightarrow> publishConditions res" where
  "getRollupPublishConditions rc txs rollupProfile baseTimeout =
    (let isProfitable = js_geq (rp_gasBalance rollupProfile) (js_int 0);
         deadline = rollupHasDeadlined txs rollupProfile baseTimeout;
         gasRemainingTillGasLimit = js_sub (js_int (rc_maxGasForRollup rc)) (rp_totalGas rollupProfile);
         callDataRemaining = rc_maxCallDataForRollup rc - rp_totalCallData rollupProfile
     in mapR (\<lambda>maxGas. \<lparr>pc_isProfitable = isProfitable, pc_deadline = deadline,
            pc_outOfGas = js_less gasRemainingTillGasLimit maxGas,
            pc_outOfCallData = callDataRemaining < fr_getMaxTxCallData (rc_feeResolver rc),
            pc_outOfSlots = int (rp_totalTxs rollupProfile) = totalSlots rc\<rparr>)
          (fr_getMaxUnadjustedGas (rc_feeResolver rc)))"

section \<open>Publishing\<close>

text \<open>The loop over the second class transactions: only account transactions are taken, while slots remain.\<close>

fun secondClassTxs ::
    "rollupCoordinator \<Rightarrow> nat \<Rightarrow> txDao list \<Rightarrow> rollupTx list \<Rightarrow> rollupResources \<Rightarrow> (rollupTx list \<times> rollupResources) res" where
  "secondClassTxs rc taken [] acc res = Inr (acc, res)"
| "secondClassTxs rc taken (tx # txs) acc res =
    (if int (taken + length acc) < totalSlots rc
     then bindE (newProofData (td_proofData tx) None) (\<lambda>proof.
       if isAccountTx (td_txType tx)
       then bindE (validateAndUpdateRollupResources rc TX_ACCOUNT 0 res) (\<lambda>ok. case ok of
              None \<Rightarrow> secondClassTxs rc taken txs acc res
            | Some res' \<Rightarrow> bindE (createRollupTx tx proof) (\<lambda>rt. secondClassTxs rc taken txs (acc @ [rt]) res'))
       else secondClassTxs rc taken txs acc res)
     else Inr (acc, res))"

text \<open>\<open>while (tmpTxs.length) chunkedTx.push(tmpTxs.splice(0, n))\<close>: it does not return when \<open>n\<close> removes nothing.\<close>

partial_function (option) chunkTxs :: "int \<Rightarrow> 'a list \<Rightarrow> 'a list list option" where
  "chunkTxs n tmpTxs = (if tmpTxs = [] then Some []
     else Option.bind (chunkTxs n (drop (nat n) tmpTxs)) (\<lambda>rest. Some (take (nat n) tmpTxs # rest)))"

text \<open>What the rollup creator and the aggregator are given. The list of bridge calls is filled up with zeros to its
  fixed length; a negative array length throws.\<close>

record publishPlan =
  pp_batches :: "txDao list list"
  pp_bridgeCallDatas :: "int list"
  pp_paddedBridgeCallDatas :: "int list"
  pp_assetIds :: "int set"

definition padBridgeCallDatas :: "int list \<Rightarrow> int list res" where
  "padBridgeCallDatas bs = (if length bs > NUM_BRIDGE_CALLS_PER_BLOCK then Inl RangeError
     else Inr (bs @ replicate (NUM_BRIDGE_CALLS_PER_BLOCK - length bs) 0))"

definition outOfRoom :: "publishConditions \<Rightarrow> bool" where
  "outOfRoom c \<longleftrightarrow> pc_outOfGas c \<or> pc_outOfCallData c \<or> pc_outOfSlots c"

definition shouldPublish :: "bool \<Rightarrow> publishConditions \<Rightarrow> bool" where
  "shouldPublish flush c \<longleftrightarrow> flush \<or> pc_isProfitable c \<or> pc_deadline c \<or> outOfRoom c"

text \<open>\<open>aggregateAndPublish\<close> up to the batches: \<open>None\<close> for the plan when nothing is published. The second class
  transactions are read only if there is room. \<open>dbTxs n\<close> are the first \<open>n\<close> pending ones.\<close>

definition fillUp ::
    "rollupCoordinator \<Rightarrow> (int \<Rightarrow> txDao list) \<Rightarrow> publishConditions \<Rightarrow> rollupTx list \<Rightarrow> rollupResources \<Rightarrow> (rollupTx list \<times> rollupResources) res" where
  "fillUp rc dbTxs c txs res =
    (if outOfRoom c then Inr ([], res)
     else secondClassTxs rc (length txs) (dbTxs (totalSlots rc - int (length txs))) [] res)"

text \<open>The whole method up to the batches. The outer option is \<open>None\<close> when the loop that cuts the batches does not
  return; the plan is \<open>None\<close> when nothing is published. After second class transactions the rollup is profiled again.\<close>

definition profileOf :: "rollupCoordinator \<Rightarrow> bridgeSubsidyProvider \<Rightarrow> rollupTx list \<Rightarrow> rollupProfile res" where
  "profileOf rc provider txs =
     profileRollup txs (rc_feeResolver rc) (rc_numInnerRollupTxs rc) (totalSlots rc) provider"

definition planPublication ::
    "rollupCoordinator \<Rightarrow> rollupProfile \<Rightarrow> rollupTx list \<Rightarrow> rollupResources \<Rightarrow> (rollupProfile \<times> publishPlan option \<times> rollupCoordinator) res option"
  where
  "planPublication rc profile processed res =
     map_option (\<lambda>chunks. mapR (\<lambda>padded. (profile,
         Some \<lparr>pp_batches = map (map rt_tx) chunks, pp_bridgeCallDatas = rr_bridgeCallDatas res,
               pp_paddedBridgeCallDatas = padded, pp_assetIds = rr_assetIds res\<rparr>,
         rc\<lparr>rc_processedTxs := processed\<rparr>))
       (padBridgeCallDatas (rr_bridgeCallDatas res)))
     (chunkTxs (rc_numInnerRollupTxs rc) processed)"

definition aggregateAndPublish ::
    "rollupCoordinator \<Rightarrow> (int \<Rightarrow> txDao list) \<Rightarrow> rollupTimeout option \<Rightarrow> bool \<Rightarrow> rollupTx list \<Rightarrow> rollupResources
     \<Rightarrow> bridgeSubsidyProvider \<Rightarrow> (rollupProfile \<times> publishPlan option \<times> rollupCoordinator) res option" where
  "aggregateAndPublish rc dbTxs baseTimeout flush txs res provider =
    (if int (length txs) > totalSlots rc then Some (Inl (Thrown ''txsToRollup.length > numRemainingSlots''))
     else case profileOf rc provider txs of Inl e \<Rightarrow> Some (Inl e) | Inr profile \<Rightarrow>
       if rp_totalTxs profile = 0 then Some (Inr (profile, None, rc))
       else case getRollupPublishConditions rc txs profile baseTimeout of Inl e \<Rightarrow> Some (Inl e) | Inr c \<Rightarrow>
         if \<not> shouldPublish flush c then Some (Inr (profile, None, rc))
         else case fillUp rc dbTxs c txs res of Inl e \<Rightarrow> Some (Inl e) | Inr (second, res') \<Rightarrow>
           (case if second = [] then Inr profile else profileOf rc provider (txs @ second) of Inl e \<Rightarrow> Some (Inl e)
            | Inr profile' \<Rightarrow> planPublication rc profile' (txs @ second) res'))"

text \<open>The last step, once the proofs are there: a checkpoint, then the transaction is sent. \<open>sent\<close> is the answer of the
  publisher. The first component tells whether the checkpoint throws.\<close>

definition checkpointAndPublish :: "bool \<Rightarrow> rollupProfile \<Rightarrow> rollupCoordinator \<Rightarrow> (bool \<times> rollupProfile) \<times> rollupCoordinator" where
  "checkpointAndPublish sent profile rc =
    (let (thrown, rc) = checkpoint rc
     in if thrown then ((True, profile), rc)
        else ((False, profile\<lparr>rp_published := sent\<rparr>), rc\<lparr>rc_state := PUBLISHING\<rparr>))"

text \<open>\<open>interrupted\<close> tells whether \<open>interrupt\<close> was called while the transactions were selected.\<close>

definition processPendingTxs ::
    "rollupCoordinator \<Rightarrow> int \<Rightarrow> int \<Rightarrow> (nat \<Rightarrow> bridgeSubsidy option) \<Rightarrow> (int \<Rightarrow> txDao list) \<Rightarrow> bool \<Rightarrow> txDao list \<Rightarrow> bool
     \<Rightarrow> (rollupProfile \<times> publishPlan option \<times> rollupCoordinator) res option" where
  "processPendingTxs rc now rollupTimeoutDurationSecs answer dbTxs interrupted pendingTxs flush =
    (let rollupTimeouts = calculateLastTimeouts now rollupTimeoutDurationSecs
     in case getNextTxsToRollup rc flush answer pendingTxs of Inl e \<Rightarrow> Some (Inl e) | Inr s \<Rightarrow>
        (case if interrupted then interrupt False rc else Inr rc of Inl e \<Rightarrow> Some (Inl e) | Inr rc \<Rightarrow>
          (let (thrown, rc) = checkpoint rc
           in if thrown then Some (Inl (Thrown ''Interrupted.''))
              else aggregateAndPublish rc dbTxs rollupTimeouts flush (ss_txs s) (ss_resources s) (ss_provider s))))"

section \<open>Cutting the batches\<close>

lemma chunkTxs_total:
  assumes "0 < n"
  shows "\<exists>chunks. chunkTxs n txs = Some chunks \<and> concat chunks = txs \<and> (\<forall>c\<in>set chunks. c \<noteq> [] \<and> int (length c) \<le> n)
    \<and> (\<forall>k. int (length txs) \<le> k * n \<longrightarrow> int (length chunks) \<le> max 0 k)"
proof (induction "length txs" arbitrary: txs rule: less_induct)
  case less
  show ?case
  proof (cases "txs = []")
    case True
    then show ?thesis by (subst chunkTxs.simps) simp
  next
    case False
    then have "length (drop (nat n) txs) < length txs" using assms by (cases txs) auto
    from less [OF this] obtain rest where rest: "chunkTxs n (drop (nat n) txs) = Some rest" "concat rest = drop (nat n) txs"
      "\<forall>c\<in>set rest. c \<noteq> [] \<and> int (length c) \<le> n" "\<forall>k. int (length (drop (nat n) txs)) \<le> k * n \<longrightarrow> int (length rest) \<le> max 0 k" by blast
    have "chunkTxs n txs = Some (take (nat n) txs # rest)" using False rest(1) by (subst chunkTxs.simps) simp
    moreover have "\<forall>k. int (length txs) \<le> k * n \<longrightarrow> int (length (take (nat n) txs # rest)) \<le> max 0 k"
    proof (intro allI impI)
      fix k assume k: "int (length txs) \<le> k * n"
      have "0 < k * n" using False k by (cases txs) auto
      then have "0 < k" using assms zero_less_mult_pos2 by blast
      have "int (length (drop (nat n) txs)) \<le> (k - 1) * n"
        using k assms \<open>0 < k\<close> by (cases "nat n \<le> length txs") (auto simp: left_diff_distrib of_nat_diff)
      then have "int (length rest) \<le> max 0 (k - 1)" using rest(4) by blast
      then show "int (length (take (nat n) txs # rest)) \<le> max 0 k" using \<open>0 < k\<close> by simp
    qed
    ultimately show ?thesis using rest(2,3) False assms by (intro exI [of _ "take (nat n) txs # rest"]) auto
  qed
qed

lemma secondClassTxs_spec:
  assumes "secondClassTxs rc taken txs acc res = Inr (acc', res')" "int (taken + length acc) \<le> totalSlots rc"
  shows "\<exists>new. acc' = acc @ new \<and> int (taken + length acc') \<le> totalSlots rc
    \<and> (\<forall>rt\<in>set new. td_txType (rt_tx rt) = TX_ACCOUNT) \<and> subseq (map rt_tx new) txs
    \<and> rr_callDataUsed res' = rr_callDataUsed res + callDataOf new \<and> (new \<noteq> [] \<longrightarrow> rr_callDataUsed res' \<le> rc_maxCallDataForRollup rc)
    \<and> rr_bridgeCallDatas res' = rr_bridgeCallDatas res \<and> rr_assetIds res' = rr_assetIds res"
  using assms
proof (induction txs arbitrary: acc res)
  case Nil
  then show ?case by (intro exI [of _ "[]"]) (simp add: callDataOf_def)
next
  case (Cons tx txs)
  show ?case
  proof (cases "int (taken + length acc) < totalSlots rc \<and> isAccountTx (td_txType tx)")
    case False
    then have "acc' = acc \<and> res' = res \<or> secondClassTxs rc taken txs acc res = Inr (acc', res')"
      using Cons.prems(1) by (auto simp: bindE_eq_Inr split: if_splits)
    then show ?thesis
    proof
      assume "acc' = acc \<and> res' = res"
      then show ?thesis using Cons.prems(2) by (intro exI [of _ "[]"]) (simp add: callDataOf_def)
    next
      assume "secondClassTxs rc taken txs acc res = Inr (acc', res')"
      from Cons.IH [OF this Cons.prems(2)] show ?thesis by (blast intro: list_emb_Cons)
    qed
  next
    case True
    then obtain p ok where p: "newProofData (td_proofData tx) None = Inr p"
      "validateAndUpdateRollupResources rc TX_ACCOUNT 0 res = Inr ok"
      using Cons.prems(1) by (auto simp: bindE_eq_Inr)
    show ?thesis
    proof (cases ok)
      case None
      then have "secondClassTxs rc taken txs acc res = Inr (acc', res')" using Cons.prems(1) True p by simp
      from Cons.IH [OF this Cons.prems(2)] show ?thesis by (blast intro: list_emb_Cons)
    next
      case (Some res1)
      then obtain rt where rt: "createRollupTx tx p = Inr rt" "secondClassTxs rc taken txs (acc @ [rt]) res1 = Inr (acc', res')"
        using Cons.prems(1) True p by (auto simp: bindE_eq_Inr)
      have t: "rt_tx rt = tx" by (rule createRollupTx_simps(1) [OF rt(1)])
      have "int (taken + length (acc @ [rt])) \<le> totalSlots rc" using True by simp
      from Cons.IH [OF rt(2) this] obtain new where new: "acc' = acc @ rt # new" "int (taken + length acc') \<le> totalSlots rc"
        "\<forall>rt\<in>set new. td_txType (rt_tx rt) = TX_ACCOUNT" "subseq (map rt_tx new) txs"
        "rr_callDataUsed res' = rr_callDataUsed res1 + callDataOf new" "new \<noteq> [] \<longrightarrow> rr_callDataUsed res' \<le> rc_maxCallDataForRollup rc"
        "rr_bridgeCallDatas res' = rr_bridgeCallDatas res1" "rr_assetIds res' = rr_assetIds res1" by auto
      from p(2) Some obtain u where u: "res1 = res\<lparr>rr_callDataUsed := getTxCallData TX_ACCOUNT + rr_callDataUsed res,
         rr_gasUsed := js_add (js_sub u (fr_getUnadjustedBaseVerificationGas (rc_feeResolver rc))) (rr_gasUsed res)\<rparr>"
        "rr_callDataUsed res1 \<le> rc_maxCallDataForRollup rc"
        using validateAndUpdateRollupResources_Some by metis
      have c: "rr_callDataUsed res1 + callDataOf new = rr_callDataUsed res + callDataOf (rt # new)"
        using u(1) True t by (simp add: callDataOf_def)
      have "rr_callDataUsed res' \<le> rc_maxCallDataForRollup rc"
        using new(5,6) u(2) by (cases new) (simp_all add: callDataOf_def)
      then show ?thesis using new c u(1) True t
        by (intro exI [of _ "rt # new"]) auto
    qed
  qed
qed

section \<open>What the profiler sums up\<close>

lemma setProfile_dom: "fst ` set (setProfile b bp bps) = insert b (fst ` set bps)"
proof (induction bps)
  case (Cons p bps)
  show ?case by (cases p) (simp add: Cons insert_commute)
qed simp

lemma map_of_None_dom: "map_of bps b = None \<longleftrightarrow> b \<notin> fst ` set bps"
  by (simp add: map_of_eq_None_iff)

text \<open>The DeFi bridge call a transaction adds to the profile, unless it is the call 0.\<close>

definition profiledBridge :: "rollupTx \<Rightarrow> int option" where
  "profiledBridge tx = (if isDefiDepositTx (td_txType (rt_tx tx)) \<and> rt_bridgeCallData tx \<noteq> Some 0 then rt_bridgeCallData tx else None)"

definition profileKeys :: "rollupProfile \<Rightarrow> int set" where
  "profileKeys rp = fst ` set (rp_bridgeProfiles rp)"

lemma profileDefi_effect:
  assumes "profileDefi r provider bcd tx rp = Inr rp'"
  shows "rp_totalTxs rp' = rp_totalTxs rp \<and> rp_totalCallData rp' = rp_totalCallData rp \<and> profileKeys rp' = insert bcd (profileKeys rp)
    \<and> rp_totalGas rp' = (if bcd \<in> profileKeys rp then rp_totalGas rp
        else js_add (rp_totalGas rp) (js_int (fr_getFullBridgeGasFromContract r bcd)))"
proof -
  from assms obtain fullGas bp rp1 single where
    b: "bridgeProfileOf r provider bcd fullGas (td_created (rt_tx tx)) rp = Inr (bp, rp1)"
    and p: "rp_totalTxs rp' = rp_totalTxs rp1" "rp_totalCallData rp' = rp_totalCallData rp1" "rp_totalGas rp' = rp_totalGas rp1"
      "profileKeys rp' = insert bcd (profileKeys rp1)"
    by (auto simp: profileDefi_def bindE_eq_Inr mapR_eq_Inr Let_def profileKeys_def setProfile_dom)
  show ?thesis
  proof (cases "map_of (rp_bridgeProfiles rp) bcd")
    case None
    then have k: "bcd \<notin> profileKeys rp" by (simp add: profileKeys_def map_of_None_dom)
    from b obtain c where "rp1 = rp\<lparr>rp_gasBalance := js_add (js_sub (rp_gasBalance rp) (js_int fullGas)) (js_int c),
        rp_totalGas := js_add (rp_totalGas rp) (js_int (fr_getFullBridgeGasFromContract r bcd))\<rparr>"
      unfolding bridgeProfileOf_def None option.case by (auto simp: mapR_eq_Inr)
    then show ?thesis using p k by (simp add: profileKeys_def)
  next
    case (Some bp')
    then have "bcd \<in> profileKeys rp" by (metis map_of_None_dom option.distinct(1) profileKeys_def)
    then show ?thesis using Some b p by (simp add: bridgeProfileOf_def)
  qed
qed

lemma profileTx_effect:
  assumes "profileTx r inner provider i tx (l, rp) = Inr (l', rp')" "wellFormedTx tx"
  shows "\<exists>u. fr_getUnadjustedTxGas r (av_assetId (rt_fee tx)) (td_txType (rt_tx tx)) = Inr u
    \<and> rp_totalTxs rp' = rp_totalTxs rp \<and> rp_totalCallData rp' = rp_totalCallData rp + getTxCallData (td_txType (rt_tx tx))
    \<and> profileKeys rp' = profileKeys rp \<union> set_option (profiledBridge tx)
    \<and> rp_totalGas rp' = (case profiledBridge tx of
        Some b \<Rightarrow> if b \<in> profileKeys rp then js_add (rp_totalGas rp) u
          else js_add (js_add (rp_totalGas rp) u) (js_int (fr_getFullBridgeGasFromContract r b))
      | None \<Rightarrow> js_add (rp_totalGas rp) u)"
proof -
  from assms(2) obtain p where p: "newProofData (td_proofData (rt_tx tx)) None = Inr p"
    "ProofData_feeAssetId p = Inr (av_assetId (rt_fee tx))" by (auto simp: wellFormedTx_def proofOf_def)
  define rp0 where "rp0 = updateTimes i (td_created (rt_tx tx)) (countChain (truncDiv (int i) inner) p
      (recordNotes (truncDiv (int i) inner) p l) rp)"
  have rp0: "rp_totalTxs rp0 = rp_totalTxs rp" "rp_totalCallData rp0 = rp_totalCallData rp" "rp_totalGas rp0 = rp_totalGas rp"
    "profileKeys rp0 = profileKeys rp"
    by (auto simp: rp0_def updateTimes_def countChain_def profileKeys_def split: option.split)
  from assms(1) obtain u adj where u: "fr_getUnadjustedTxGas r (av_assetId (rt_fee tx)) (td_txType (rt_tx tx)) = Inr u"
    and a: "fr_getAdjustedTxGas r (av_assetId (rt_fee tx)) (td_txType (rt_tx tx)) = Inr adj"
    unfolding profileTx_def case_prod_conv p bindE_Inr Let_def by (auto simp: bindE_eq_Inr)
  define rp1 where "rp1 = rp0\<lparr>rp_totalGas := js_add (rp_totalGas rp0) u,
    rp_totalCallData := rp_totalCallData rp0 + getTxCallData (td_txType (rt_tx tx)),
    rp_gasBalance := js_add (rp_gasBalance rp0) (js_sub adj u)\<rparr>"
  have rp1: "rp_totalTxs rp1 = rp_totalTxs rp" "rp_totalCallData rp1 = rp_totalCallData rp + getTxCallData (td_txType (rt_tx tx))"
    "rp_totalGas rp1 = js_add (rp_totalGas rp) u" "profileKeys rp1 = profileKeys rp"
    using rp0 by (simp_all add: rp1_def profileKeys_def)
  note eq = assms(1) [unfolded profileTx_def case_prod_conv p bindE_Inr Let_def u a, folded rp0_def, folded rp1_def]
  show ?thesis
  proof (cases "profiledBridge tx")
    case None
    then have "rp_totalTxs rp' = rp_totalTxs rp1 \<and> rp_totalCallData rp' = rp_totalCallData rp1 \<and> rp_totalGas rp' = rp_totalGas rp1
      \<and> profileKeys rp' = profileKeys rp1"
      using eq by (auto simp: profiledBridge_def profileKeys_def split: if_splits option.splits)
    then show ?thesis using u rp1 None by simp
  next
    case (Some b)
    then have "profileDefi r provider b tx rp1 = Inr rp'"
      using eq by (auto simp: profiledBridge_def mapR_eq_Inr split: if_splits option.splits)
    from profileDefi_effect [OF this] show ?thesis using u rp1 Some by simp
  qed
qed

text \<open>The sum over the bridge calls of a list of transactions, each counted once.\<close>

definition bridgeGas :: "txFeeResolver \<Rightarrow> int set \<Rightarrow> int" where
  "bridgeGas r bs = (\<Sum>b\<in>bs. fr_getFullBridgeGasFromContract r b)"

definition profiledBridges :: "rollupTx list \<Rightarrow> int set" where
  "profiledBridges txs = (\<Union>tx\<in>set txs. set_option (profiledBridge tx))"

lemma profiledBridges_simps [simp]:
  "profiledBridges [] = {}" "profiledBridges (tx # txs) = set_option (profiledBridge tx) \<union> profiledBridges txs"
  "finite (profiledBridges txs)"
  by (auto simp: profiledBridges_def)

lemma profileTxs_effect:
  assumes "foldE (\<lambda>s (i, tx). profileTx r inner provider i tx s) (l, rp) (List.enumerate n txs) = Inr (l', rp')"
    and "\<forall>tx\<in>set txs. wellFormedTx tx"
  shows "rp_totalTxs rp' = rp_totalTxs rp \<and> rp_totalCallData rp' = rp_totalCallData rp + callDataOf txs
    \<and> profileKeys rp' = profileKeys rp \<union> profiledBridges txs"
  using assms
proof (induction txs arbitrary: n l rp)
  case Nil
  then show ?case by (simp add: callDataOf_def)
next
  case (Cons tx txs)
  from Cons.prems(1) obtain l1 rp1 where 1: "profileTx r inner provider n tx (l, rp) = Inr (l1, rp1)"
    "foldE (\<lambda>s (i, tx). profileTx r inner provider i tx s) (l1, rp1) (List.enumerate (Suc n) txs) = Inr (l', rp')"
    by (auto simp: bindE_eq_Inr)
  from profileTx_effect [OF 1(1)] Cons.IH [OF 1(2)] Cons.prems(2) show ?case by (auto simp: callDataOf_def)
qed

lemma profileTxs_gas:
  assumes "foldE (\<lambda>s (i, tx). profileTx (rc_feeResolver rc) inner provider i tx s) (l, rp) (List.enumerate n txs) = Inr (l', rp')"
    and "\<forall>tx\<in>set txs. wellFormedTx tx" and x: "exactGas rc" "baseGas rc b"
    and "rp_totalGas rp = js_int g" "0 \<le> g" "finite (profileKeys rp)"
    and "g + int (length txs) * b + (\<Sum>tx\<leftarrow>txs. txOverhead rc tx) + bridgeGas (rc_feeResolver rc) (profiledBridges txs - profileKeys rp) \<le> 2 ^ 52"
  shows "rp_totalGas rp' = js_int (g + int (length txs) * b + (\<Sum>tx\<leftarrow>txs. txOverhead rc tx)
     + bridgeGas (rc_feeResolver rc) (profiledBridges txs - profileKeys rp))"
  using assms(1,2,5-8)
proof (induction txs arbitrary: n l rp g)
  case Nil
  then show ?case by (simp add: bridgeGas_def)
next
  case (Cons tx txs)
  let ?r = "rc_feeResolver rc"
  from Cons.prems(1) obtain l1 rp1 where 1: "profileTx ?r inner provider n tx (l, rp) = Inr (l1, rp1)"
    "foldE (\<lambda>s (i, tx). profileTx ?r inner provider i tx s) (l1, rp1) (List.enumerate (Suc n) txs) = Inr (l', rp')"
    by (auto simp: bindE_eq_Inr)
  from profileTx_effect [OF 1(1)] Cons.prems(2) obtain u where
    u: "fr_getUnadjustedTxGas ?r (av_assetId (rt_fee tx)) (td_txType (rt_tx tx)) = Inr u"
    and k: "profileKeys rp1 = profileKeys rp \<union> set_option (profiledBridge tx)"
    and g: "rp_totalGas rp1 = (case profiledBridge tx of
        Some b \<Rightarrow> if b \<in> profileKeys rp then js_add (rp_totalGas rp) u
          else js_add (js_add (rp_totalGas rp) u) (js_int (fr_getFullBridgeGasFromContract ?r b))
      | None \<Rightarrow> js_add (rp_totalGas rp) u)" by auto
  let ?new = "set_option (profiledBridge tx) - profileKeys rp"
  have "profiledBridges (tx # txs) - profileKeys rp = ?new \<union> (profiledBridges txs - profileKeys rp1)" by (auto simp: k)
  moreover have "?new \<inter> (profiledBridges txs - profileKeys rp1) = {}" by (auto simp: k)
  ultimately have bg: "bridgeGas ?r (profiledBridges (tx # txs) - profileKeys rp)
      = bridgeGas ?r ?new + bridgeGas ?r (profiledBridges txs - profileKeys rp1)"
    unfolding bridgeGas_def by (simp add: sum.union_disjoint)
  from unadjusted_exact [OF x(1) u] obtain b' ov where b': "baseGas rc b'" and o: "u = js_int (b' + ov)" "0 \<le> ov" "0 \<le> b'"
    and o': "getGasOverheadForTxType (fr_feeCalculator ?r) (av_assetId (rt_fee tx)) (td_txType (rt_tx tx)) = Inr ov" by metis
  have "b' = b" using b' x(2) by (simp add: baseGas_def js_int_def)
  then have ov: "u = js_int (b + ov)" "txOverhead rc tx = ov" "0 \<le> ov" "0 \<le> b" using o txOverhead_eq [OF o'] by simp_all
  have nonneg: "0 \<le> int (length txs) * b" "0 \<le> (\<Sum>tx\<leftarrow>txs. txOverhead rc tx)" "0 \<le> bridgeGas ?r (profiledBridges txs - profileKeys rp1)"
    "0 \<le> bridgeGas ?r ?new"
    using ov(4) txOverhead_nonneg [OF x(1)] contractGas_exact [OF x(1)]
    by (auto simp: bridgeGas_def intro!: sum_list_nonneg sum_nonneg)
  have le: "g + (b + ov) + bridgeGas ?r ?new \<le> 2 ^ 52"
    using Cons.prems(6) nonneg ov(2) unfolding bg by (simp add: algebra_simps)
  have g1: "rp_totalGas rp1 = js_int (g + (b + ov) + bridgeGas ?r ?new)"
  proof (cases "profiledBridge tx")
    case None
    then show ?thesis using g le Cons.prems(3,4) ov nonneg by (simp add: bridgeGas_def)
  next
    case (Some c)
    have "0 \<le> fr_getFullBridgeGasFromContract ?r c" using contractGas_exact [OF x(1)] by blast
    then show ?thesis using Some g le Cons.prems(3,4) ov by (auto simp: bridgeGas_def insert_Diff_if)
  qed
  have tot: "g + (b + ov) + bridgeGas ?r ?new + int (length txs) * b + (\<Sum>tx\<leftarrow>txs. txOverhead rc tx)
     + bridgeGas ?r (profiledBridges txs - profileKeys rp1) \<le> 2 ^ 52"
    using Cons.prems(6) ov(2) unfolding bg by (simp add: algebra_simps)
  have "finite (profileKeys rp1)" using Cons.prems(5) by (simp add: k)
  have "rp_totalGas rp' = js_int (g + (b + ov) + bridgeGas ?r ?new + int (length txs) * b + (\<Sum>tx\<leftarrow>txs. txOverhead rc tx)
     + bridgeGas ?r (profiledBridges txs - profileKeys rp1))"
    by (rule Cons.IH [OF 1(2) _ g1])
      (use Cons.prems(2,4) ov nonneg tot \<open>finite (profileKeys rp1)\<close> in auto)
  then show ?case unfolding bg by (simp add: ov(2) algebra_simps)
qed

section \<open>The gas of a selection\<close>

definition selectionGas :: "rollupCoordinator \<Rightarrow> selectionState \<Rightarrow> bool" where
  "selectionGas rc s \<longleftrightarrow> (\<forall>tx\<in>set (ss_txs s). wellFormedTx tx)
     \<and> set (rr_bridgeCallDatas (ss_resources s)) = (\<Union>tx\<in>set (ss_txs s). set_option (rt_bridgeCallData tx))
     \<and> (\<forall>b. exactGas rc \<and> baseGas rc b \<longrightarrow>
          rr_gasUsed (ss_resources s) = js_int (totalSlots rc * b + gasOf rc (ss_txs s) (rr_bridgeCallDatas (ss_resources s)))
        \<and> (ss_txs s \<noteq> [] \<longrightarrow> totalSlots rc * b + gasOf rc (ss_txs s) (rr_bridgeCallDatas (ss_resources s)) \<le> rc_maxGasForRollup rc))"

lemma gasOf_append: "gasOf rc (txs @ new) (bs @ new') = gasOf rc txs bs + gasOf rc new new'"
  by (simp add: gasOf_def)

lemma gasOf_nonneg: "exactGas rc \<Longrightarrow> 0 \<le> gasOf rc txs bs"
  using txOverhead_nonneg contractGas_exact by (auto simp: gasOf_def intro!: add_nonneg_nonneg sum_list_nonneg)

lemma exactGas_base: "exactGas rc \<Longrightarrow> baseGas rc b \<Longrightarrow> 0 \<le> b \<and> 0 \<le> totalSlots rc * b \<and> totalSlots rc * b \<le> 2 ^ 50"
  by (auto simp: exactGas_def baseGas_def js_int_def)

lemma js_mul_num_int [simp]: "\<bar>a * b\<bar> < 2 ^ 53 \<Longrightarrow> js_mul_num (js_int a) (js_int b) = js_int (a * b)"
  by (simp add: js_int_def of_int_mult [symmetric] del: of_int_mult)

lemma selectionGas_append:
  assumes "selectionGas rc s" "gasStep rc s s' new bs" "ss_txs s' = ss_txs s @ new"
    "rr_bridgeCallDatas (ss_resources s') = rr_bridgeCallDatas (ss_resources s) @ bs"
    "set bs \<union> set (rr_bridgeCallDatas (ss_resources s))
       = (\<Union>tx\<in>set new. set_option (rt_bridgeCallData tx)) \<union> set (rr_bridgeCallDatas (ss_resources s))"
    "\<forall>tx\<in>set new. wellFormedTx tx" "new = [] \<Longrightarrow> bs = []"
  shows "selectionGas rc s'"
  unfolding selectionGas_def
proof (intro conjI allI impI)
  note ok = assms(1) [unfolded selectionGas_def]
  show "\<forall>tx\<in>set (ss_txs s'). wellFormedTx tx" using ok assms(3,6) by auto
  show "set (rr_bridgeCallDatas (ss_resources s')) = (\<Union>tx\<in>set (ss_txs s'). set_option (rt_bridgeCallData tx))"
    using ok assms(3-5) by auto
next
  fix b assume x: "exactGas rc \<and> baseGas rc b"
  let ?g = "totalSlots rc * b + gasOf rc (ss_txs s) (rr_bridgeCallDatas (ss_resources s))"
  from assms(1) x have g: "rr_gasUsed (ss_resources s) = js_int ?g" "ss_txs s \<noteq> [] \<longrightarrow> ?g \<le> rc_maxGasForRollup rc"
    unfolding selectionGas_def by blast+
  have e: "set (rr_bridgeCallDatas (ss_resources s)) = (\<Union>tx\<in>set (ss_txs s). set_option (rt_bridgeCallData tx))"
    using assms(1) unfolding selectionGas_def by blast
  have m: "rc_maxGasForRollup rc \<le> 2 ^ 51" using x unfolding exactGas_def by blast
  have b: "0 \<le> totalSlots rc * b" "totalSlots rc * b \<le> 2 ^ 50" using exactGas_base x by blast+
  have "?g \<le> 2 ^ 51"
  proof (cases "ss_txs s = []")
    case True
    then show ?thesis using e b by (simp add: gasOf_def)
  next
    case False
    then show ?thesis using g(2) m by simp
  qed
  moreover have "0 \<le> ?g" using b gasOf_nonneg x by simp
  ultimately have st: "rr_gasUsed (ss_resources s') = js_int (?g + gasOf rc new bs)" "new \<noteq> [] \<longrightarrow> ?g + gasOf rc new bs \<le> rc_maxGasForRollup rc"
    using assms(2) x g(1) unfolding gasStep_def by blast+
  have eq: "totalSlots rc * b + gasOf rc (ss_txs s') (rr_bridgeCallDatas (ss_resources s')) = ?g + gasOf rc new bs"
    using assms(3,4) by (simp add: gasOf_append)
  show "rr_gasUsed (ss_resources s') = js_int (totalSlots rc * b + gasOf rc (ss_txs s') (rr_bridgeCallDatas (ss_resources s')))"
    unfolding eq by (rule st(1))
  show "totalSlots rc * b + gasOf rc (ss_txs s') (rr_bridgeCallDatas (ss_resources s')) \<le> rc_maxGasForRollup rc" if "ss_txs s' \<noteq> []"
    unfolding eq using that st(2) g(2) assms(3,7) by (cases "new = []") (auto simp: gasOf_def)
qed

lemma selectionGas_step:
  assumes "selectionGas rc s" "considered rc tx p s s'" "queuesOK rc s"
  shows "selectionGas rc s'"
  using assms(2) unfolding considered_def
proof (elim conjE disjE exE)
  assume "ss_txs s' = ss_txs s" "ss_resources s' = ss_resources s"
  then show ?thesis using assms(1) by (simp add: selectionGas_def)
next
  assume "ss_txs s' = ss_txs s" "ss_resources s' = ss_resources s"
  then show ?thesis using assms(1) by (simp add: selectionGas_def)
next
  fix rt assume a: "addsOne rc rt s s'"
  note e = a [unfolded addsOne_def Let_def]
  let ?bs = "rr_bridgeCallDatas (ss_resources s)" and ?bs' = "rr_bridgeCallDatas (ss_resources s')"
  have b: "case rt_bridgeCallData rt of None \<Rightarrow> ?bs' = ?bs | Some b \<Rightarrow> ?bs' = (if b \<in> set ?bs then ?bs else ?bs @ [b])"
    using e by (auto split: option.splits if_splits)
  show ?thesis
    by (rule selectionGas_append [OF assms(1), of s' "[rt]" "drop (length ?bs) ?bs'"])
      (use e b in \<open>auto split: option.splits if_splits\<close>)
next
  fix rt b batch assume a: "addsBatch rc rt b batch s s'"
  note e = a [unfolded addsBatch_def Let_def]
  have q: "\<forall>x\<in>set batch. queuedFor b x" by (rule addsBatch_queuedFor [OF a assms(3)])
  then have "\<forall>x\<in>set batch. rt_bridgeCallData x = Some b \<and> wellFormedTx x" using queuedFor_wellFormed by (auto simp: queuedFor_def)
  then show ?thesis
    by (intro selectionGas_append [OF assms(1), of s' batch "if batch = [] then [] else [b]"]) (use e in auto)
qed

lemma selectionGas_initial: "selectionGas rc (initialSelection rc)"
  unfolding selectionGas_def
proof (intro conjI allI impI)
  fix b assume x: "exactGas rc \<and> baseGas rc b"
  then have "0 \<le> totalSlots rc * b" "totalSlots rc * b \<le> 2 ^ 50" using exactGas_base by blast+
  then show "rr_gasUsed (ss_resources (initialSelection rc)) = js_int (totalSlots rc * b
      + gasOf rc (ss_txs (initialSelection rc)) (rr_bridgeCallDatas (ss_resources (initialSelection rc))))"
    using x by (simp add: initialSelection_def gasOf_def baseGas_def)
qed (simp_all add: initialSelection_def)

lemma getNextTxsToRollup_gas:
  assumes "getNextTxsToRollup rc flush answer pendingTxs = Inr s"
  shows "selectionGas rc s \<and> selectionOK rc s"
proof -
  let ?P = "\<lambda>seen s. (queuesOK rc s \<and> selectionOK rc s \<and> noDuplicates rc seen s) \<and> selectionGas rc s"
  have "\<exists>n\<le>length (claimsFirst pendingTxs). ?P ([] @ take n (claimsFirst pendingTxs)) s"
  proof (rule considerTxs_invariant [where P = ?P and all = "claimsFirst pendingTxs", OF assms [unfolded getNextTxsToRollup_def]])
    show "?P [] (initialSelection rc)" using initialSelection_ok selectionGas_initial by blast
  next
    fix seen tx i s s'
    assume P: "?P seen s" and l: "int (length (ss_txs s)) < totalSlots rc" "considerTx rc flush (answer i) tx s = Inr s'"
    from considerTx_step [OF conjunct1 [OF P] l] selectionGas_step P show "?P (seen @ [tx]) s'" by blast
  qed simp
  then show ?thesis by blast
qed

section \<open>What is published\<close>

lemma aggregateAndPublish_plan:
  assumes "aggregateAndPublish rc dbTxs baseTimeout flush txs res provider = Some (Inr (profile, Some plan, rc'))"
  obtains profile0 c second res' chunks padded where
    "profileOf rc provider txs = Inr profile0" "getRollupPublishConditions rc txs profile0 baseTimeout = Inr c" "shouldPublish flush c"
    "fillUp rc dbTxs c txs res = Inr (second, res')" "profileOf rc provider (txs @ second) = Inr profile"
    "chunkTxs (rc_numInnerRollupTxs rc) (txs @ second) = Some chunks" "padBridgeCallDatas (rr_bridgeCallDatas res') = Inr padded"
    "plan = \<lparr>pp_batches = map (map rt_tx) chunks, pp_bridgeCallDatas = rr_bridgeCallDatas res',
       pp_paddedBridgeCallDatas = padded, pp_assetIds = rr_assetIds res'\<rparr>"
    "rc' = rc\<lparr>rc_processedTxs := txs @ second\<rparr>" "int (length txs) \<le> totalSlots rc" "rp_totalTxs profile0 \<noteq> 0"
proof -
  from assms obtain profile0 c second res' where 1: "profileOf rc provider txs = Inr profile0" "rp_totalTxs profile0 \<noteq> 0"
    "getRollupPublishConditions rc txs profile0 baseTimeout = Inr c" "shouldPublish flush c"
    "fillUp rc dbTxs c txs res = Inr (second, res')" "int (length txs) \<le> totalSlots rc"
    by (auto simp: aggregateAndPublish_def split: if_splits sum.splits)
  note eq = assms [unfolded aggregateAndPublish_def 1 sum.case case_prod_conv]
  then obtain profile' where 2: "profileOf rc provider (txs @ second) = Inr profile'"
    "planPublication rc profile' (txs @ second) res' = Some (Inr (profile, Some plan, rc'))"
    using 1 by (auto split: if_splits sum.splits)
  from 2 1 show thesis
    by (auto simp: planPublication_def mapR_eq_Inr intro: that [OF 1(1,3,4,5)])
qed

lemma fillUp_spec:
  assumes "fillUp rc dbTxs c txs res = Inr (second, res')" "int (length txs) \<le> totalSlots rc"
  shows "int (length (txs @ second)) \<le> totalSlots rc \<and> (\<forall>rt\<in>set second. td_txType (rt_tx rt) = TX_ACCOUNT)
    \<and> subseq (map rt_tx second) (dbTxs (totalSlots rc - int (length txs)))
    \<and> rr_callDataUsed res' = rr_callDataUsed res + callDataOf second \<and> (second \<noteq> [] \<longrightarrow> rr_callDataUsed res' \<le> rc_maxCallDataForRollup rc)
    \<and> rr_bridgeCallDatas res' = rr_bridgeCallDatas res \<and> rr_assetIds res' = rr_assetIds res"
proof (cases "outOfRoom c")
  case True
  then show ?thesis using assms by (simp add: fillUp_def callDataOf_def)
next
  case False
  then have "secondClassTxs rc (length txs) (dbTxs (totalSlots rc - int (length txs))) [] res = Inr (second, res')"
    using assms(1) by (simp add: fillUp_def)
  from secondClassTxs_spec [OF this] assms(2) show ?thesis by auto
qed

lemma profileOf_totals:
  assumes "profileOf rc provider txs = Inr profile" "\<forall>tx\<in>set txs. wellFormedTx tx"
  shows "rp_totalTxs profile = length txs" "rp_totalCallData profile = callDataOf txs"
proof -
  from assms(1) obtain l rp where p: "profileTxs (rc_feeResolver rc) (rc_numInnerRollupTxs rc) provider txs
      (Map.empty, profileCounts (totalSlots rc) txs) = Inr (l, rp)"
    "rp_totalTxs profile = rp_totalTxs rp" "rp_totalCallData profile = rp_totalCallData rp"
    by (auto simp: profileOf_def profileRollup_def mapR_eq_Inr Let_def)
  from profileTxs_effect [OF p(1) [unfolded profileTxs_def] assms(2)] p(2,3)
  show "rp_totalTxs profile = length txs" "rp_totalCallData profile = callDataOf txs"
    by (simp_all add: profileCounts_def emptyProfile_def)
qed

lemma profileOf_gas:
  assumes "profileOf rc provider txs = Inr profile" "\<forall>tx\<in>set txs. wellFormedTx tx" "exactGas rc" "baseGas rc b"
    and "int (length txs) \<le> totalSlots rc"
    and le: "totalSlots rc * b + (\<Sum>tx\<leftarrow>txs. txOverhead rc tx) + bridgeGas (rc_feeResolver rc) (profiledBridges txs) \<le> 2 ^ 51"
  shows "rp_totalGas profile
    = js_int (totalSlots rc * b + (\<Sum>tx\<leftarrow>txs. txOverhead rc tx) + bridgeGas (rc_feeResolver rc) (profiledBridges txs))"
proof -
  let ?S = "(\<Sum>tx\<leftarrow>txs. txOverhead rc tx) + bridgeGas (rc_feeResolver rc) (profiledBridges txs)"
  from assms(1) obtain l rp where p: "profileTxs (rc_feeResolver rc) (rc_numInnerRollupTxs rc) provider txs
      (Map.empty, profileCounts (totalSlots rc) txs) = Inr (l, rp)"
    and g: "rp_totalGas profile = js_add (rp_totalGas rp) (js_mul_num (js_int (totalSlots rc - int (length txs)))
      (fr_getUnadjustedBaseVerificationGas (rc_feeResolver rc)))"
    by (auto simp: profileOf_def profileRollup_def mapR_eq_Inr Let_def)
  have b: "0 \<le> b" "0 \<le> totalSlots rc * b" "totalSlots rc * b \<le> 2 ^ 50" using exactGas_base [OF assms(3,4)] by simp_all
  have n: "int (length txs) * b \<le> totalSlots rc * b" using assms(5) b(1) by (rule mult_right_mono)
  have s: "0 \<le> (\<Sum>tx\<leftarrow>txs. txOverhead rc tx)" "0 \<le> bridgeGas (rc_feeResolver rc) (profiledBridges txs)"
    using txOverhead_nonneg [OF assms(3)] contractGas_exact [OF assms(3)]
    by (auto simp: bridgeGas_def intro!: sum_list_nonneg sum_nonneg)
  have "profileKeys (profileCounts (totalSlots rc) txs) = {}" "rp_totalGas (profileCounts (totalSlots rc) txs) = js_int 0"
    by (simp_all add: profileKeys_def profileCounts_def emptyProfile_def)
  then have "rp_totalGas rp = js_int (0 + int (length txs) * b + (\<Sum>tx\<leftarrow>txs. txOverhead rc tx)
     + bridgeGas (rc_feeResolver rc) (profiledBridges txs - {}))"
    using profileTxs_gas [OF p [unfolded profileTxs_def] assms(2-4), of 0] le n by simp
  moreover have "js_mul_num (js_int (totalSlots rc - int (length txs))) (fr_getUnadjustedBaseVerificationGas (rc_feeResolver rc))
      = js_int ((totalSlots rc - int (length txs)) * b)"
  proof -
    have "0 \<le> int (length txs) * b" using b(1) by simp
    then have "0 \<le> (totalSlots rc - int (length txs)) * b" "(totalSlots rc - int (length txs)) * b \<le> 2 ^ 50"
      unfolding left_diff_distrib using n b by linarith+
    then have "\<bar>(totalSlots rc - int (length txs)) * b\<bar> < 2 ^ 53" by (simp add: abs_less_iff)
    then show ?thesis using assms(4) by (simp add: baseGas_def)
  qed
  ultimately have "rp_totalGas profile = js_add (js_int (int (length txs) * b + ?S)) (js_int ((totalSlots rc - int (length txs)) * b))"
    unfolding g by (simp add: add.assoc)
  also have "\<dots> = js_int (int (length txs) * b + ?S + (totalSlots rc - int (length txs)) * b)"
    using le n s b by (intro js_add_int) (simp add: left_diff_distrib)
  also have "int (length txs) * b + ?S + (totalSlots rc - int (length txs)) * b = totalSlots rc * b + ?S" by (simp add: left_diff_distrib)
  finally show ?thesis by (simp add: add.assoc)
qed

lemma selection_profiledBridges:
  assumes "selectionOK rc s" "selectionGas rc s" "\<forall>tx\<in>set (ss_txs s). rt_bridgeCallData tx \<noteq> Some 0"
  shows "profiledBridges (ss_txs s) = set (rr_bridgeCallDatas (ss_resources s))"
proof -
  have "set_option (profiledBridge tx) = set_option (rt_bridgeCallData tx)" if "tx \<in> set (ss_txs s)" for tx
  proof -
    have "case rt_bridgeCallData tx of None \<Rightarrow> td_txType (rt_tx tx) \<noteq> TX_DEFI_DEPOSIT
        | Some b \<Rightarrow> queuedFor b tx \<and> b \<in> set (rr_bridgeCallDatas (ss_resources s))"
      using assms(1) that unfolding selectionOK_def Let_def by blast
    then show ?thesis using assms(3) that by (auto simp: profiledBridge_def queuedFor_def split: option.splits)
  qed
  then show ?thesis using assms(2) unfolding selectionGas_def profiledBridges_def by auto
qed

text \<open>C9: The figures the coordinator keeps while it selects transactions are the figures the profiler finds for the
  selection, so the limits the selection respects are limits on what is published: as long as the gas figures are
  exact in floating-point arithmetic, the total gas of the profile is the gas accounted for, and both it and the
  call data are within the limits.\<close>

theorem profiled_gas_is_selected_gas:
  assumes "getNextTxsToRollup rc flush answer pendingTxs = Inr s" "ss_txs s \<noteq> []" "exactGas rc"
    and "profileOf rc provider (ss_txs s) = Inr profile" "\<forall>tx\<in>set (ss_txs s). rt_bridgeCallData tx \<noteq> Some 0"
  shows "rp_totalGas profile = rr_gasUsed (ss_resources s) \<and> \<not> js_less (js_int (rc_maxGasForRollup rc)) (rp_totalGas profile)
    \<and> rp_totalCallData profile = rr_callDataUsed (ss_resources s) \<and> rp_totalCallData profile \<le> rc_maxCallDataForRollup rc
    \<and> rp_totalTxs profile = length (ss_txs s)"
proof -
  from getNextTxsToRollup_gas [OF assms(1)] have ok: "selectionGas rc s" "selectionOK rc s" by blast+
  from assms(3) obtain b where b: "baseGas rc b" unfolding exactGas_def by blast
  have w: "\<forall>tx\<in>set (ss_txs s). wellFormedTx tx" using ok(1) unfolding selectionGas_def by blast
  have d: "distinct (rr_bridgeCallDatas (ss_resources s))" "int (length (ss_txs s)) \<le> max 0 (totalSlots rc)"
    "rr_callDataUsed (ss_resources s) = callDataOf (ss_txs s)" "rr_callDataUsed (ss_resources s) \<le> rc_maxCallDataForRollup rc"
    using ok(2) assms(2) unfolding selectionOK_def Let_def by blast+
  have bg: "gasOf rc (ss_txs s) (rr_bridgeCallDatas (ss_resources s))
      = (\<Sum>tx\<leftarrow>ss_txs s. txOverhead rc tx) + bridgeGas (rc_feeResolver rc) (profiledBridges (ss_txs s))"
    using d(1) selection_profiledBridges [OF ok(2,1) assms(5)] by (simp add: gasOf_def bridgeGas_def sum_list_distinct_conv_sum_set)
  have g: "rr_gasUsed (ss_resources s) = js_int (totalSlots rc * b + gasOf rc (ss_txs s) (rr_bridgeCallDatas (ss_resources s)))"
    "totalSlots rc * b + gasOf rc (ss_txs s) (rr_bridgeCallDatas (ss_resources s)) \<le> rc_maxGasForRollup rc"
    using ok(1) assms(2,3) b unfolding selectionGas_def by blast+
  have m: "rc_maxGasForRollup rc \<le> 2 ^ 51" using assms(3) unfolding exactGas_def by blast
  have "int (length (ss_txs s)) \<le> totalSlots rc" using d(2) assms(2) by (cases "ss_txs s") auto
  from profileOf_gas [OF assms(4) w assms(3) b this] g(2) m
  have "rp_totalGas profile = rr_gasUsed (ss_resources s)" unfolding g(1) bg by (simp add: add.assoc)
  then show ?thesis using g d profileOf_totals [OF assms(4) w] by simp
qed

text \<open>C33: What is handed to the provers: the batches, one after another, are the transactions the coordinator reports as
  processed, the selected ones followed by second class account transactions; no batch is empty or larger than an
  inner rollup, there are at most as many as the outer rollup takes, and the list of bridge calls has its
  fixed length and starts with the declared ones.\<close>

theorem published_batches:
  assumes "aggregateAndPublish rc dbTxs baseTimeout flush txs res provider = Some (Inr (profile, Some plan, rc'))"
    and "0 < rc_numInnerRollupTxs rc" "0 \<le> rc_numOuterRollupProofs rc"
  shows "\<exists>second. getProcessedTxs rc' = map rt_tx txs @ second \<and> (\<forall>t\<in>set second. td_txType t = TX_ACCOUNT)
    \<and> subseq second (dbTxs (totalSlots rc - int (length txs))) \<and> concat (pp_batches plan) = getProcessedTxs rc'
    \<and> (\<forall>batch\<in>set (pp_batches plan). batch \<noteq> [] \<and> int (length batch) \<le> rc_numInnerRollupTxs rc)
    \<and> int (length (pp_batches plan)) \<le> rc_numOuterRollupProofs rc
    \<and> length (pp_paddedBridgeCallDatas plan) = 32 \<and> prefix (rr_bridgeCallDatas res) (pp_paddedBridgeCallDatas plan)"
proof -
  from assms(1) obtain profile0 c second res' chunks padded where p:
    "fillUp rc dbTxs c txs res = Inr (second, res')" "chunkTxs (rc_numInnerRollupTxs rc) (txs @ second) = Some chunks"
    "padBridgeCallDatas (rr_bridgeCallDatas res') = Inr padded"
    "plan = \<lparr>pp_batches = map (map rt_tx) chunks, pp_bridgeCallDatas = rr_bridgeCallDatas res',
       pp_paddedBridgeCallDatas = padded, pp_assetIds = rr_assetIds res'\<rparr>"
    "rc' = rc\<lparr>rc_processedTxs := txs @ second\<rparr>" "int (length txs) \<le> totalSlots rc"
    by (rule aggregateAndPublish_plan)
  note f = fillUp_spec [OF p(1,6)]
  from chunkTxs_total [OF assms(2), of "txs @ second"] p(2) have ch: "concat chunks = txs @ second"
    "\<forall>c\<in>set chunks. c \<noteq> [] \<and> int (length c) \<le> rc_numInnerRollupTxs rc" "int (length chunks) \<le> max 0 (rc_numOuterRollupProofs rc)"
    using f by (auto simp: totalSlots_def)
  have "concat (map (map rt_tx) chunks) = map rt_tx (txs @ second)" unfolding ch(1) [symmetric] by (simp add: map_concat)
  moreover have "length padded = 32 \<and> prefix (rr_bridgeCallDatas res) padded"
    using p(3) f by (auto simp: padBridgeCallDatas_def NUM_BRIDGE_CALLS_PER_BLOCK_def split: if_splits)
  ultimately show ?thesis using f ch assms(3) p(4,5)
    by (intro exI [of _ "map rt_tx second"]) (auto simp: getProcessedTxs_def)
qed

section \<open>The life of a coordinator\<close>

text \<open>The steps a coordinator takes: an interrupt from outside, the checkpoint after the selection, the choice of
  the transactions, and the checkpoint before the transaction is sent, in any order.\<close>

inductive coordinatorStep :: "rollupCoordinator \<Rightarrow> rollupCoordinator \<Rightarrow> bool" where
  interrupted: "interrupt shouldThrow rc = Inr rc' \<Longrightarrow> coordinatorStep rc rc'"
| checked: "coordinatorStep rc (snd (checkpoint rc))"
| chosen: "aggregateAndPublish rc dbTxs baseTimeout flush txs res provider = Some (Inr (profile, plan, rc')) \<Longrightarrow> coordinatorStep rc rc'"
| sent: "coordinatorStep rc (snd (checkpointAndPublish answer profile rc))"

inductive_cases coordinatorStepE: "coordinatorStep rc rc'"

lemma aggregateAndPublish_coordinator:
  assumes "aggregateAndPublish rc dbTxs baseTimeout flush txs res provider = Some (Inr (profile, plan, rc'))"
  shows "rc_interrupted rc' = rc_interrupted rc \<and> rc_state rc' = rc_state rc"
proof (cases plan)
  case None
  then have "rc' = rc" using assms
    by (auto simp: aggregateAndPublish_def planPublication_def mapR_eq_Inr split: if_splits sum.splits)
  then show ?thesis by simp
next
  case (Some p)
  from aggregateAndPublish_plan [OF assms [unfolded Some]] obtain txs' where "rc' = rc\<lparr>rc_processedTxs := txs'\<rparr>" by metis
  then show ?thesis by simp
qed

lemma interrupted_step:
  assumes "coordinatorStep rc rc'" "rc_interrupted rc" "rc_state rc \<noteq> PUBLISHING"
  shows "rc_interrupted rc' \<and> rc_state rc' \<noteq> PUBLISHING"
  using assms
proof (cases rule: coordinatorStep.cases)
  case (chosen dbTxs baseTimeout flush txs res provider profile plan)
  then show ?thesis using aggregateAndPublish_coordinator assms(2,3) by metis
qed (auto simp: interrupt_def checkpoint_def checkpointAndPublish_def Let_def split: if_splits)

text \<open>An interrupt that succeeds stops the rollup for good: if it was asked to throw unless the coordinator is
  still building, then after any number of further steps nothing has been published.\<close>

theorem interrupted_never_publishes:
  assumes "interrupt True rc = Inr rc1" "coordinatorStep\<^sup>*\<^sup>* rc1 rc2"
  shows "rc_state rc2 \<noteq> PUBLISHING \<and> fst (fst (checkpointAndPublish answer profile rc2))"
proof -
  have "rc_interrupted rc1 \<and> rc_state rc1 \<noteq> PUBLISHING"
    using assms(1) by (auto simp: interrupt_def split: if_splits)
  with assms(2) have "rc_interrupted rc2 \<and> rc_state rc2 \<noteq> PUBLISHING"
    by (induction rule: rtranclp_induct) (use interrupted_step in blast)+
  then show ?thesis by (simp add: checkpointAndPublish_def checkpoint_def)
qed

section \<open>The sample run, published\<close>

lemma sample_max_unadjusted: "fr_getMaxUnadjustedGas sampleFeeResolver = Inr (js_int 65490)"
  by (simp add: fr_getMaxUnadjustedGas_def sampleFeeResolver_def getMaxUnadjustedGas_def sample_simps)

lemma sample_transfer_gas:
  "fr_getUnadjustedTxGas sampleFeeResolver 0 TX_TRANSFER = Inr (js_int 24594)"
  "\<exists>g. fr_getAdjustedTxGas sampleFeeResolver 0 TX_TRANSFER = Inr g"
  using sample_max_unadjusted
  by (simp_all add: fr_getUnadjustedTxGas_def fr_getAdjustedTxGas_def getAdjustedTxGas_def getAdjustedBaseVerificationGas_def
      getTxGasAdjustmentValue_def getNumAdjustedTxsPerRollup_def fr_getMaxUnadjustedGas_def sampleFeeResolver_def sample_simps)

lemma sample_profileTx:
  assumes "rt_tx tx = sampleTxDao TX_TRANSFER 2 commitment link"
  shows "\<exists>s'. profileTx sampleFeeResolver inner provider i tx s = Inr s'"
proof -
  obtain p where p: "newProofData (td_proofData (sampleTxDao TX_TRANSFER 2 commitment link)) None = Inr p" "ProofData_feeAssetId p = Inr 0"
    using sample_proof(2) [of TX_TRANSFER 2 commitment link] unfolding proofOf_def by blast
  show ?thesis using sample_transfer_gas by (cases s) (auto simp: profileTx_def p assms Let_def)
qed

lemma sample_profile:
  assumes "map rt_tx txs = samplePending"
  shows "\<exists>profile. profileOf sampleCoordinator provider txs = Inr profile"
proof -
  from assms obtain a b where t: "txs = [a, b]" "rt_tx a = sampleTxDao TX_TRANSFER 2 7 0" "rt_tx b = sampleTxDao TX_TRANSFER 2 8 7"
    by (auto simp: samplePending_def map_eq_Cons_conv)
  let ?r = "rc_feeResolver sampleCoordinator" and ?s = "(Map.empty, profileCounts (totalSlots sampleCoordinator) txs)"
  have r: "?r = sampleFeeResolver" by (simp add: sampleCoordinator_def)
  from sample_profileTx [OF t(2)] obtain s1 where 1: "profileTx ?r (rc_numInnerRollupTxs sampleCoordinator) provider 0 a ?s = Inr s1"
    unfolding r by blast
  from sample_profileTx [OF t(3)] obtain s2 where 2: "profileTx ?r (rc_numInnerRollupTxs sampleCoordinator) provider (Suc 0) b s1 = Inr s2"
    unfolding r by blast
  have "profileTxs ?r (rc_numInnerRollupTxs sampleCoordinator) provider txs ?s = Inr s2"
    using 1 2 by (simp add: profileTxs_def t(1))
  then show ?thesis by (cases s2) (simp add: profileOf_def profileRollup_def)
qed

lemma sample_exactGas: "exactGas sampleCoordinator"
proof -
  have "0 \<le> g \<and> g \<le> 2 ^ 50"
    if "getGasOverheadForTxType (fr_feeCalculator sampleFeeResolver) a t = Inr g" for a t g
    using that by (cases t) (auto simp: sampleFeeResolver_def sample_simps bindE_eq_Inr indexE_def nth_Cons split: if_splits nat.splits)
  moreover have "baseGas sampleCoordinator 17858" "totalSlots sampleCoordinator = 28"
    by (simp_all add: baseGas_def sampleCoordinator_def sample_resolver_gas totalSlots_def)
  moreover have "fr_getFullBridgeGasFromContract sampleFeeResolver bcd = 200000" for bcd
    by (simp add: fr_getFullBridgeGasFromContract_def getFullBridgeGasFromContract_def sampleFeeResolver_def sampleResolver_def)
  ultimately show ?thesis unfolding exactGas_def
    by (intro conjI exI [of _ 17858]) (simp_all add: sampleCoordinator_def)
qed

lemma sample_bridges:
  assumes "getNextTxsToRollup sampleCoordinator False answer samplePending = Inr s" "map rt_tx (ss_txs s) = samplePending"
  shows "\<forall>tx\<in>set (ss_txs s). rt_bridgeCallData tx = None"
proof
  fix tx assume tx: "tx \<in> set (ss_txs s)"
  then have "rt_tx tx \<in> set samplePending" using assms(2) by (metis image_eqI list.set_map)
  then have "td_txType (rt_tx tx) = TX_TRANSFER" by (auto simp: samplePending_def)
  moreover have "case rt_bridgeCallData tx of None \<Rightarrow> td_txType (rt_tx tx) \<noteq> TX_DEFI_DEPOSIT
      | Some b \<Rightarrow> queuedFor b tx \<and> b \<in> set (rr_bridgeCallDatas (ss_resources s))"
    using getNextTxsToRollup_gas [OF assms(1)] tx unfolding selectionOK_def Let_def by blast
  ultimately show "rt_bridgeCallData tx = None" by (auto simp: queuedFor_def split: option.splits)
qed

theorem profiled_gas_is_selected_gas_witness:
  "\<exists>s profile. getNextTxsToRollup sampleCoordinator False (\<lambda>_. None) samplePending = Inr s
     \<and> profileOf sampleCoordinator newBridgeSubsidyProvider (ss_txs s) = Inr profile \<and> rp_totalTxs profile = 2
     \<and> rp_totalGas profile = rr_gasUsed (ss_resources s)"
proof -
  obtain s where s: "getNextTxsToRollup sampleCoordinator False (\<lambda>_. None) samplePending = Inr s"
    "map rt_tx (ss_txs s) = samplePending" using sample_selection by blast
  obtain profile where p: "profileOf sampleCoordinator newBridgeSubsidyProvider (ss_txs s) = Inr profile"
    using sample_profile [OF s(2)] by blast
  have "length (ss_txs s) = 2" using arg_cong [OF s(2), of length] by (simp add: samplePending_def)
  then show ?thesis
    using profiled_gas_is_selected_gas [OF s(1) _ sample_exactGas p] sample_bridges [OF s] s(1) p by fastforce
qed

lemma sample_published:
  "\<exists>s profile plan rc'. getNextTxsToRollup sampleCoordinator False (\<lambda>_. None) samplePending = Inr s
     \<and> map rt_tx (ss_txs s) = samplePending
     \<and> aggregateAndPublish sampleCoordinator (\<lambda>_. []) None True (ss_txs s) (ss_resources s) (ss_provider s)
         = Some (Inr (profile, Some plan, rc'))"
proof -
  obtain s where s: "getNextTxsToRollup sampleCoordinator False (\<lambda>_. None) samplePending = Inr s"
    "map rt_tx (ss_txs s) = samplePending" using sample_selection by blast
  have n: "length (ss_txs s) = 2" using arg_cong [OF s(2), of length] by (simp add: samplePending_def)
  obtain profile where p: "profileOf sampleCoordinator (ss_provider s) (ss_txs s) = Inr profile"
    using sample_profile [OF s(2)] by blast
  have ok: "\<forall>tx\<in>set (ss_txs s). wellFormedTx tx" "length (rr_bridgeCallDatas (ss_resources s)) \<le> NUM_BRIDGE_CALLS_PER_BLOCK"
    using getNextTxsToRollup_gas [OF s(1)] unfolding selectionGas_def selectionOK_def Let_def by blast+
  then have t: "rp_totalTxs profile = 2" using profileOf_totals [OF p] n by simp
  obtain c where c: "getRollupPublishConditions sampleCoordinator (ss_txs s) profile None = Inr c"
    using sample_max_unadjusted by (simp add: getRollupPublishConditions_def sampleCoordinator_def Let_def)
  have f: "fillUp sampleCoordinator (\<lambda>_. []) c (ss_txs s) (ss_resources s) = Inr ([], ss_resources s)"
    by (simp add: fillUp_def)
  obtain chunks where ch: "chunkTxs (rc_numInnerRollupTxs sampleCoordinator) (ss_txs s @ []) = Some chunks"
    using chunkTxs_total [of "rc_numInnerRollupTxs sampleCoordinator" "ss_txs s"] by (auto simp: sampleCoordinator_def)
  obtain padded where pad: "padBridgeCallDatas (rr_bridgeCallDatas (ss_resources s)) = Inr padded"
    using ok(2) by (simp add: padBridgeCallDatas_def)
  have slots: "\<not> int (length (ss_txs s)) > totalSlots sampleCoordinator" by (simp add: n totalSlots_def sampleCoordinator_def)
  have "\<exists>plan rc'. aggregateAndPublish sampleCoordinator (\<lambda>_. []) None True (ss_txs s) (ss_resources s) (ss_provider s)
         = Some (Inr (profile, Some plan, rc'))"
    unfolding aggregateAndPublish_def if_not_P [OF slots] p sum.case c t f case_prod_conv planPublication_def ch pad
    by (simp add: shouldPublish_def)
  then show ?thesis using s by blast
qed

theorem published_batches_witness:
  "\<exists>(s :: selectionState) profile plan rc'. aggregateAndPublish sampleCoordinator (\<lambda>_. []) None True (ss_txs s) (ss_resources s) (ss_provider s)
         = Some (Inr (profile, Some plan, rc')) \<and> concat (pp_batches plan) = samplePending \<and> length (pp_paddedBridgeCallDatas plan) = 32"
proof -
  obtain s :: selectionState and profile plan rc' where p: "map rt_tx (ss_txs s) = samplePending"
    "aggregateAndPublish sampleCoordinator (\<lambda>_. []) None True (ss_txs s) (ss_resources s) (ss_provider s)
         = Some (Inr (profile, Some plan, rc'))"
    using sample_published by blast
  have "0 < rc_numInnerRollupTxs sampleCoordinator" "0 \<le> rc_numOuterRollupProofs sampleCoordinator"
    by (simp_all add: sampleCoordinator_def)
  from published_batches [OF p(2) this] have "concat (pp_batches plan) = samplePending" "length (pp_paddedBridgeCallDatas plan) = 32"
    unfolding p(1) by auto
  then show ?thesis using p(2) by (intro exI conjI)
qed

theorem interrupted_never_publishes_witness:
  "\<exists>rc1. interrupt True sampleCoordinator = Inr rc1 \<and> rc_state (snd (checkpoint rc1)) = INTERRUPTED
     \<and> fst (fst (checkpointAndPublish True (emptyProfile 28) (snd (checkpoint rc1))))"
proof -
  obtain rc1 where i: "interrupt True sampleCoordinator = Inr rc1" "rc_interrupted rc1"
    by (simp add: interrupt_def sampleCoordinator_def)
  have "coordinatorStep\<^sup>*\<^sup>* rc1 (snd (checkpoint rc1))" by (rule r_into_rtranclp) (rule checked)
  from interrupted_never_publishes [OF i(1) this, of True "emptyProfile 28"] i show ?thesis by (simp add: checkpoint_def)
qed

end
