(* ===== verification/FeeAllocator.thy ===== *)
theory FeeAllocator
  imports BridgeQueue
begin

text \<open>
  \<open>falafel/src/tx_receiver/tx_fee_allocator.ts\<close>: what a group of received transactions pays for, and how the gas they
  paid too much is given to them. Gas is a JavaScript number; the numbers given to the transactions are a list beside
  them, because the column \<open>excessGas\<close> holds integers and a number that is not one is refused when it is stored
  (\<open>withExcess\<close>). \<open>now\<close> is the time at which the price tracker is asked.
  The breakdown that is only printed is left out.
\<close>

section \<open>Groups of transactions\<close>

record receivedTx =
  tx_proof :: proofData
  tx_offchainTxData :: buffer
  tx_depositSignature :: "buffer option"

record txGroupValidation =
  gv_hasFeelessTxs :: bool
  gv_feePayingAsset :: "int option"
  gv_gasRequired :: jsnum
  gv_gasProvided :: jsnum

definition fr_getGasPaidForByFee :: "int \<Rightarrow> txFeeResolver \<Rightarrow> int \<Rightarrow> int \<Rightarrow> jsnum res" where
  "fr_getGasPaidForByFee now r assetId fee = getGasPaidForByFee now (fr_feeCalculator r) assetId fee"

definition tx_fee :: "receivedTx \<Rightarrow> int" where
  "tx_fee tx = toBigIntBE (pd_txFee (tx_proof tx))"

definition tx_feeAssetId :: "receivedTx \<Rightarrow> int res" where
  "tx_feeAssetId tx = ProofData_feeAssetId (tx_proof tx)"

text \<open>The first loop: the fee paying assets in the order of their first use, and whether a transaction pays nothing.\<close>

definition feePayingAssets :: "txFeeResolver \<Rightarrow> receivedTx list \<Rightarrow> (int list \<times> bool) res" where
  "feePayingAssets r txs = foldE (\<lambda>(assets, feeless) tx.
     mapR (\<lambda>assetId. if isFeePayingAsset r assetId \<and> tx_fee tx \<noteq> 0
         then (if assetId \<in> set assets then assets else assets @ [assetId], feeless) else (assets, True))
       (tx_feeAssetId tx)) ([], False) txs"

text \<open>The cost of a DeFi deposit is that of the deposit with a share of its bridge, and of the claim that follows.\<close>

definition defiGas :: "txFeeResolver \<Rightarrow> int \<Rightarrow> bridgeCallData \<Rightarrow> (jsnum \<times> jsnum) res" where
  "defiGas r assetId bcd =
     bindE (getAdjustedBridgeTxGas r assetId (BridgeCallData_toBigInt bcd)) (\<lambda>deposit.
       mapR (\<lambda>claim. (deposit, claim)) (fr_getAdjustedTxGas r assetId TX_DEFI_CLAIM))"

definition tx_bridgeCallData :: "receivedTx \<Rightarrow> bridgeCallData res" where
  "tx_bridgeCallData tx = bindE (newDefiDepositProofData (tx_proof tx)) DefiDeposit_bridgeCallData"

definition addGasRequired :: "txFeeResolver \<Rightarrow> receivedTx \<Rightarrow> txType \<Rightarrow> jsnum \<Rightarrow> jsnum res" where
  "addGasRequired r tx t gas =
     bindE (tx_feeAssetId tx) (\<lambda>assetId.
       if t = TX_DEFI_DEPOSIT
       then bindE (tx_bridgeCallData tx) (\<lambda>bcd.
              mapR (\<lambda>(deposit, claim). js_add (js_add gas deposit) claim) (defiGas r assetId bcd))
       else mapR (js_add gas) (fr_getAdjustedTxGas r assetId t))"

definition addGasProvided :: "int \<Rightarrow> txFeeResolver \<Rightarrow> int option \<Rightarrow> receivedTx \<Rightarrow> jsnum \<Rightarrow> jsnum res" where
  "addGasProvided now r feePayingAsset tx gas =
     bindE (tx_feeAssetId tx) (\<lambda>assetId.
       if Some assetId = feePayingAsset
       then mapR (js_add gas) (fr_getGasPaidForByFee now r assetId (tx_fee tx)) else Inr gas)"

definition validateReceivedTxs ::
    "int \<Rightarrow> txFeeResolver \<Rightarrow> receivedTx list \<Rightarrow> txType list \<Rightarrow> bool \<Rightarrow> txGroupValidation res" where
  "validateReceivedTxs now r txs txTypes exitOnly =
     bindE (feePayingAssets r txs) (\<lambda>(assets, feeless).
     if length assets \<notin> (if exitOnly then {0, 1} else {1})
     then Inl (Thrown ''Transactions don't have the correct number of fee paying assets'')
     else let feePayingAsset = (case assets of [] \<Rightarrow> None | a # _ \<Rightarrow> Some a) in
       mapR (\<lambda>(required, provided). \<lparr>gv_hasFeelessTxs = feeless, gv_feePayingAsset = feePayingAsset,
           gv_gasRequired = required, gv_gasProvided = provided\<rparr>)
         (foldE (\<lambda>(required, provided) (tx, t).
            bindE (if exitOnly then Inr (js_int 0) else addGasRequired r tx t required) (\<lambda>required.
              mapR (\<lambda>provided. (required, provided)) (addGasProvided now r feePayingAsset tx provided)))
          (js_int 0, js_int 0) (zip txs txTypes)))"

section \<open>Excess gas\<close>

text \<open>\<open>txDaos[i].excessGas = Math.max(0, gas)\<close>, on the list of these numbers.\<close>

definition setExcess :: "nat \<Rightarrow> jsnum \<Rightarrow> jsnum list \<Rightarrow> jsnum list res" where
  "setExcess i gas excess = mapR (\<lambda>_. excess[i := js_max (js_int 0) gas]) (indexE excess i)"

text \<open>What the database makes of the numbers: the column is an integer.\<close>

definition excessColumn :: "jsnum \<Rightarrow> int res" where
  "excessColumn gas = (case js_toBigInt gas of Inl _ \<Rightarrow> Inl (Thrown ''invalid input syntax for type integer'') | Inr e \<Rightarrow> Inr e)"

definition withExcess :: "txDao list \<Rightarrow> jsnum list \<Rightarrow> txDao list res" where
  "withExcess txDaos excess = mapE (\<lambda>(d, x). mapR (\<lambda>e. d\<lparr>td_excessGas := e\<rparr>) (excessColumn x)) (zip txDaos excess)"

definition ownExcess :: "int \<Rightarrow> txFeeResolver \<Rightarrow> receivedTx \<Rightarrow> txType \<Rightarrow> jsnum res" where
  "ownExcess now r tx t =
     bindE (tx_feeAssetId tx) (\<lambda>assetId.
     bindE (fr_getGasPaidForByFee now r assetId (tx_fee tx)) (\<lambda>provided.
       if t = TX_DEFI_DEPOSIT
       then bindE (tx_bridgeCallData tx) (\<lambda>bcd.
              mapR (\<lambda>(deposit, claim). js_sub provided (js_add claim deposit)) (defiGas r assetId bcd))
       else mapR (js_sub provided) (fr_getAdjustedTxGas r assetId t)))"

text \<open>The gas that remains of what was provided; a DeFi deposit is charged by its input asset.\<close>

definition remainingGas :: "txFeeResolver \<Rightarrow> receivedTx list \<Rightarrow> txType list \<Rightarrow> jsnum \<Rightarrow> jsnum res" where
  "remainingGas r txs txTypes provided = foldE (\<lambda>provided (tx, t).
     if t = TX_DEFI_DEPOSIT
     then bindE (tx_bridgeCallData tx) (\<lambda>bcd.
            mapR (\<lambda>(deposit, claim). js_sub provided (js_add deposit claim)) (defiGas r (bcd_inputAssetIdA bcd) bcd))
     else bindE (tx_feeAssetId tx) (\<lambda>assetId. mapR (js_sub provided) (fr_getAdjustedTxGas r assetId t)))
     provided (zip txs txTypes)"

text \<open>\<open>!providedGas\<close> holds for zero and NaN.\<close>

definition isZeroOrNaN :: "jsnum \<Rightarrow> bool" where
  "isZeroOrNaN x = (x = js_int 0 \<or> x = NaN)"

definition isFeeless :: "txFeeResolver \<Rightarrow> receivedTx \<Rightarrow> bool" where
  "isFeeless r tx = (case tx_feeAssetId tx of Inl _ \<Rightarrow> False | Inr a \<Rightarrow> \<not> isFeePayingAsset r a \<or> tx_fee tx = 0)"

definition reallocateGas ::
    "int \<Rightarrow> txFeeResolver \<Rightarrow> jsnum list \<Rightarrow> receivedTx list \<Rightarrow> txType list \<Rightarrow> txGroupValidation \<Rightarrow> jsnum list res" where
  "reallocateGas now r excess txs txTypes validation =
    (if js_geq (gv_gasRequired validation) (gv_gasProvided validation) then Inr excess
     else if \<not> gv_hasFeelessTxs validation
     then foldE (\<lambda>excess (i, tx, t). bindE (ownExcess now r tx t) (\<lambda>gas. setExcess i gas excess))
            excess (List.enumerate 0 (zip txs txTypes))
     else bindE (remainingGas r txs txTypes (gv_gasProvided validation)) (\<lambda>provided.
       if isZeroOrNaN provided then Inr excess
       else case findIndex (\<lambda>t. t = TX_DEFI_DEPOSIT) txTypes of Some i \<Rightarrow> setExcess i provided excess
       | None \<Rightarrow> (case findIndex (isFeeless r) txs of
           None \<Rightarrow> Inl (Thrown ''Failed to allocate fee to tx'') | Some i \<Rightarrow> setExcess i provided excess)))"

section \<open>Exact figures\<close>

definition gasFigure :: "jsnum \<Rightarrow> int" where
  "gasFigure x = (case x of Num a \<Rightarrow> \<lfloor>a\<rfloor> | _ \<Rightarrow> 0)"

lemma gasFigure_int [simp]: "gasFigure (js_int n) = n"
  by (simp add: gasFigure_def js_int_def)

text \<open>The prices of transactions and what they pay are integers far below \<open>2^53\<close>.\<close>

definition exactFees :: "int \<Rightarrow> txFeeResolver \<Rightarrow> receivedTx list \<Rightarrow> bool" where
  "exactFees now r txs \<longleftrightarrow>
     (\<forall>a t x. fr_getAdjustedTxGas r a t = Inr x \<longrightarrow> (\<exists>n. x = js_int n \<and> 0 \<le> n \<and> n \<le> 2 ^ 40))
   \<and> (\<forall>b x. getSingleBridgeTxGas r b = Inr x \<longrightarrow> (\<exists>n. x = js_int n \<and> 0 \<le> n \<and> n \<le> 2 ^ 40))
   \<and> (\<forall>tx\<in>set txs. \<forall>a x. fr_getGasPaidForByFee now r a (tx_fee tx) = Inr x \<longrightarrow> (\<exists>n. x = js_int n \<and> 0 \<le> n \<and> n \<le> 2 ^ 42))"

lemma defiGas_exact:
  assumes "exactFees now r txs" "defiGas r a bcd = Inr (d, c)"
  obtains m n where "d = js_int m" "c = js_int n" "0 \<le> m" "m \<le> 2 ^ 41" "0 \<le> n" "n \<le> 2 ^ 40"
proof -
  from assms(2) obtain g s where g: "fr_getAdjustedTxGas r a TX_DEFI_DEPOSIT = Inr g"
    "getSingleBridgeTxGas r (BridgeCallData_toBigInt bcd) = Inr s" "d = js_add g s" "fr_getAdjustedTxGas r a TX_DEFI_CLAIM = Inr c"
    by (auto simp: defiGas_def getAdjustedBridgeTxGas_def bindE_eq_Inr mapR_eq_Inr)
  from assms(1) g obtain n1 n2 n3 where "g = js_int n1" "0 \<le> n1" "n1 \<le> 2 ^ 40" "s = js_int n2" "0 \<le> n2" "n2 \<le> 2 ^ 40"
    "c = js_int n3" "0 \<le> n3" "n3 \<le> 2 ^ 40" unfolding exactFees_def by metis
  then show thesis using g(3) by (intro that [of "n1 + n2" n3]) simp_all
qed

text \<open>What a transaction costs and pays, by asset.\<close>

definition costBy :: "txFeeResolver \<Rightarrow> int \<Rightarrow> receivedTx \<Rightarrow> txType \<Rightarrow> int" where
  "costBy r a tx t = (if t = TX_DEFI_DEPOSIT
     then (case bindE (tx_bridgeCallData tx) (defiGas r a) of Inl _ \<Rightarrow> 0 | Inr (d, c) \<Rightarrow> gasFigure d + gasFigure c)
     else (case fr_getAdjustedTxGas r a t of Inl _ \<Rightarrow> 0 | Inr x \<Rightarrow> gasFigure x))"

definition txAsset :: "receivedTx \<Rightarrow> int" where
  "txAsset tx = (case tx_feeAssetId tx of Inl _ \<Rightarrow> 0 | Inr a \<Rightarrow> a)"

definition paidBy :: "int \<Rightarrow> txFeeResolver \<Rightarrow> receivedTx \<Rightarrow> int" where
  "paidBy now r tx = (case fr_getGasPaidForByFee now r (txAsset tx) (tx_fee tx) of Inl _ \<Rightarrow> 0 | Inr x \<Rightarrow> gasFigure x)"

lemma costBy_defi:
  assumes "exactFees now r txs" "t = TX_DEFI_DEPOSIT" "tx_bridgeCallData tx = Inr bcd" "defiGas r a bcd = Inr (d, c)"
  obtains m n where "d = js_int m" "c = js_int n" "costBy r a tx t = m + n" "0 \<le> m" "m \<le> 2 ^ 41" "0 \<le> n" "n \<le> 2 ^ 40"
proof -
  from defiGas_exact [OF assms(1,4)] obtain m n where "d = js_int m" "c = js_int n" "0 \<le> m" "m \<le> 2 ^ 41" "0 \<le> n" "n \<le> 2 ^ 40" .
  then show thesis using assms(2-4) by (intro that [of m n]) (simp_all add: costBy_def)
qed

lemma costBy_other:
  assumes "exactFees now r txs" "t \<noteq> TX_DEFI_DEPOSIT" "fr_getAdjustedTxGas r a t = Inr x"
  shows "x = js_int (costBy r a tx t) \<and> 0 \<le> costBy r a tx t \<and> costBy r a tx t \<le> 2 ^ 40"
proof -
  from assms(1,3) obtain n where "x = js_int n" "0 \<le> n" "n \<le> 2 ^ 40" unfolding exactFees_def by metis
  then show ?thesis using assms(2,3) by (simp add: costBy_def)
qed

lemma addGasRequired_exact:
  assumes "exactFees now r txs" "addGasRequired r tx t (js_int g) = Inr x" "0 \<le> g" "g \<le> 2 ^ 51"
  shows "x = js_int (g + costBy r (txAsset tx) tx t) \<and> 0 \<le> costBy r (txAsset tx) tx t \<and> costBy r (txAsset tx) tx t \<le> 2 ^ 42"
proof -
  from assms(2) obtain a where a: "tx_feeAssetId tx = Inr a" by (auto simp: addGasRequired_def bindE_eq_Inr)
  then have ta: "txAsset tx = a" by (simp add: txAsset_def)
  show ?thesis
  proof (cases "t = TX_DEFI_DEPOSIT")
    case True
    then obtain bcd d c where b: "tx_bridgeCallData tx = Inr bcd" "defiGas r a bcd = Inr (d, c)" "x = js_add (js_add (js_int g) d) c"
      using assms(2) a by (auto simp: addGasRequired_def bindE_eq_Inr mapR_eq_Inr)
    from costBy_defi [OF assms(1) True b(1,2)] obtain m n where "d = js_int m" "c = js_int n" "costBy r a tx t = m + n"
      "0 \<le> m" "m \<le> 2 ^ 41" "0 \<le> n" "n \<le> 2 ^ 40" by blast
    then show ?thesis using b(3) assms(3,4) by (simp add: ta add.assoc)
  next
    case False
    then obtain y where y: "fr_getAdjustedTxGas r a t = Inr y" "x = js_add (js_int g) y"
      using assms(2) a by (auto simp: addGasRequired_def mapR_eq_Inr)
    from costBy_other [OF assms(1) False y(1), of tx] show ?thesis using y(2) assms(3,4) by (simp add: ta)
  qed
qed

lemma addGasProvided_exact:
  assumes "exactFees now r txs" "tx \<in> set txs" "addGasProvided now r fa tx (js_int g) = Inr x" "0 \<le> g" "g \<le> 2 ^ 51"
  shows "x = js_int (g + (if Some (txAsset tx) = fa then paidBy now r tx else 0)) \<and> 0 \<le> paidBy now r tx \<and> paidBy now r tx \<le> 2 ^ 42"
proof -
  from assms(3) obtain a where a: "tx_feeAssetId tx = Inr a" by (auto simp: addGasProvided_def bindE_eq_Inr)
  then have ta: "txAsset tx = a" by (simp add: txAsset_def)
  have p: "0 \<le> paidBy now r tx \<and> paidBy now r tx \<le> 2 ^ 42
    \<and> (\<forall>y. fr_getGasPaidForByFee now r a (tx_fee tx) = Inr y \<longrightarrow> y = js_int (paidBy now r tx))"
  proof (cases "fr_getGasPaidForByFee now r a (tx_fee tx)")
    case (Inr y)
    then obtain n where "y = js_int n" "0 \<le> n" "n \<le> 2 ^ 42" using assms(1,2) unfolding exactFees_def by metis
    then show ?thesis using Inr by (simp add: paidBy_def ta)
  qed (simp add: paidBy_def ta)
  show ?thesis
  proof (cases "Some a = fa")
    case True
    then obtain y where "fr_getGasPaidForByFee now r a (tx_fee tx) = Inr y" "x = js_add (js_int g) y"
      using assms(3) a by (auto simp: addGasProvided_def mapR_eq_Inr)
    then show ?thesis using p assms(4,5) True ta by simp
  next
    case False
    then show ?thesis using assms(3) a p ta by (simp add: addGasProvided_def)
  qed
qed

lemma validate_exact:
  assumes "foldE (\<lambda>(required, provided) (tx, t).
            bindE (addGasRequired r tx t required) (\<lambda>required.
              mapR (\<lambda>provided. (required, provided)) (addGasProvided now r fa tx provided)))
          (js_int R, js_int P) ps = Inr (req, prov)"
    and "exactFees now r txs" "fst ` set ps \<subseteq> set txs"
    and "0 \<le> R" "R + 2 ^ 42 * int (length ps) \<le> 2 ^ 51" "0 \<le> P" "P + 2 ^ 42 * int (length ps) \<le> 2 ^ 51"
  shows "req = js_int (R + (\<Sum>(tx, t)\<leftarrow>ps. costBy r (txAsset tx) tx t))
    \<and> prov = js_int (P + (\<Sum>(tx, t)\<leftarrow>ps. if Some (txAsset tx) = fa then paidBy now r tx else 0))
    \<and> R + (\<Sum>(tx, t)\<leftarrow>ps. costBy r (txAsset tx) tx t) \<le> 2 ^ 51
    \<and> P + (\<Sum>(tx, t)\<leftarrow>ps. if Some (txAsset tx) = fa then paidBy now r tx else 0) \<le> 2 ^ 51"
  using assms(1,3-7)
proof (induction ps arbitrary: R P)
  case (Cons p ps)
  obtain tx t where p: "p = (tx, t)" by (cases p)
  from Cons.prems(1) p obtain x y where 1: "addGasRequired r tx t (js_int R) = Inr x" "addGasProvided now r fa tx (js_int P) = Inr y"
    "foldE (\<lambda>(required, provided) (tx, t).
            bindE (addGasRequired r tx t required) (\<lambda>required.
              mapR (\<lambda>provided. (required, provided)) (addGasProvided now r fa tx provided))) (x, y) ps = Inr (req, prov)"
    by (auto simp: bindE_eq_Inr mapR_eq_Inr)
  have b: "R \<le> 2 ^ 51" "P \<le> 2 ^ 51" using Cons.prems by simp_all
  have tx: "tx \<in> set txs" using Cons.prems(2) p by auto
  note x = addGasRequired_exact [OF assms(2) 1(1) Cons.prems(3) b(1)]
  note y = addGasProvided_exact [OF assms(2) tx 1(2) Cons.prems(5) b(2)]
  let ?R = "R + costBy r (txAsset tx) tx t" and ?P = "P + (if Some (txAsset tx) = fa then paidBy now r tx else 0)"
  have "req = js_int (?R + (\<Sum>(tx, t)\<leftarrow>ps. costBy r (txAsset tx) tx t))
    \<and> prov = js_int (?P + (\<Sum>(tx, t)\<leftarrow>ps. if Some (txAsset tx) = fa then paidBy now r tx else 0))
    \<and> ?R + (\<Sum>(tx, t)\<leftarrow>ps. costBy r (txAsset tx) tx t) \<le> 2 ^ 51
    \<and> ?P + (\<Sum>(tx, t)\<leftarrow>ps. if Some (txAsset tx) = fa then paidBy now r tx else 0) \<le> 2 ^ 51"
    by (rule Cons.IH) (use 1(3) x y Cons.prems in \<open>auto simp: algebra_simps\<close>)
  then show ?case by (simp add: p add.assoc)
qed simp

text \<open>The price of a deposit and of its claim does not depend on the asset.\<close>

lemma adjusted_asset_irrelevant:
  assumes "0 \<le> a" "0 \<le> a'" "t \<in> {TX_DEFI_DEPOSIT, TX_DEFI_CLAIM}"
  shows "fr_getAdjustedTxGas r a t = fr_getAdjustedTxGas r a' t"
proof -
  let ?fc = "fr_feeCalculator r"
  have "getGasOverheadForTxType ?fc a t = getGasOverheadForTxType ?fc a' t"
    using assms by (auto simp: getGasOverheadForTxType_def isValidAsset_def fc_getAsset_def indexE_def bindE_def)
  then show ?thesis
    by (simp add: fr_getAdjustedTxGas_def getAdjustedTxGas_def getAdjustedBaseVerificationGas_def getTxGasAdjustmentValue_def
        getNumAdjustedTxsPerRollup_def)
qed

lemma tx_bridgeCallData_asset: "tx_bridgeCallData tx = Inr bcd \<Longrightarrow> 0 \<le> bcd_inputAssetIdA bcd"
  by (auto simp: tx_bridgeCallData_def bindE_eq_Inr newDefiDepositProofData_def BridgeCallData_fromBuffer_def BridgeCallData_fromBigInt_def
      newBridgeCallData_def Let_def extract_eq split: if_splits)

lemma txAsset_nonneg: "0 \<le> txAsset tx"
  using readUInt32BE_range by (auto simp: txAsset_def tx_feeAssetId_def ProofData_feeAssetId_def split: sum.split)

lemma costBy_asset:
  assumes "t = TX_DEFI_DEPOSIT" "0 \<le> a"
  shows "costBy r a tx t = costBy r (txAsset tx) tx t"
proof -
  have e: "fr_getAdjustedTxGas r a t = fr_getAdjustedTxGas r (txAsset tx) t" if "t \<in> {TX_DEFI_DEPOSIT, TX_DEFI_CLAIM}" for t
    by (rule adjusted_asset_irrelevant [OF assms(2) txAsset_nonneg that])
  have "defiGas r a = defiGas r (txAsset tx)" by (rule ext) (simp add: defiGas_def getAdjustedBridgeTxGas_def e)
  then show ?thesis by (simp add: costBy_def assms(1))
qed

lemma remainingGas_exact:
  assumes "foldE (\<lambda>provided (tx, t).
     if t = TX_DEFI_DEPOSIT
     then bindE (tx_bridgeCallData tx) (\<lambda>bcd.
            mapR (\<lambda>(deposit, claim). js_sub provided (js_add deposit claim)) (defiGas r (bcd_inputAssetIdA bcd) bcd))
     else bindE (tx_feeAssetId tx) (\<lambda>assetId. mapR (js_sub provided) (fr_getAdjustedTxGas r assetId t)))
     (js_int P) ps = Inr rest"
    and "exactFees now r txs" "\<bar>P\<bar> + 2 ^ 42 * int (length ps) \<le> 2 ^ 52"
  shows "rest = js_int (P - (\<Sum>(tx, t)\<leftarrow>ps. costBy r (txAsset tx) tx t))"
  using assms(1,3)
proof (induction ps arbitrary: P)
  case (Cons p ps)
  obtain tx t where p: "p = (tx, t)" by (cases p)
  let ?c = "costBy r (txAsset tx) tx t"
  have step: "(if t = TX_DEFI_DEPOSIT
     then bindE (tx_bridgeCallData tx) (\<lambda>bcd.
            mapR (\<lambda>(deposit, claim). js_sub (js_int P) (js_add deposit claim)) (defiGas r (bcd_inputAssetIdA bcd) bcd))
     else bindE (tx_feeAssetId tx) (\<lambda>assetId. mapR (js_sub (js_int P)) (fr_getAdjustedTxGas r assetId t))) = Inr (js_int (P - ?c))
     \<and> 0 \<le> ?c \<and> ?c \<le> 2 ^ 42"
  proof (cases "t = TX_DEFI_DEPOSIT")
    case True
    then obtain bcd d c where b: "tx_bridgeCallData tx = Inr bcd" "defiGas r (bcd_inputAssetIdA bcd) bcd = Inr (d, c)"
      using Cons.prems(1) p by (auto simp: bindE_eq_Inr mapR_eq_Inr)
    from costBy_defi [OF assms(2) True b] obtain m n where mn: "d = js_int m" "c = js_int n"
      "costBy r (bcd_inputAssetIdA bcd) tx t = m + n" "0 \<le> m" "m \<le> 2 ^ 41" "0 \<le> n" "n \<le> 2 ^ 40" by blast
    have "?c = m + n" using costBy_asset [OF True tx_bridgeCallData_asset [OF b(1)], of r tx] mn(3) by simp
    moreover have "\<bar>P - (m + n)\<bar> < 2 ^ 53" using Cons.prems(2) mn by auto
    ultimately show ?thesis using True b mn by simp
  next
    case False
    then obtain a x where a: "tx_feeAssetId tx = Inr a" "fr_getAdjustedTxGas r a t = Inr x"
      using Cons.prems(1) p by (auto simp: bindE_eq_Inr mapR_eq_Inr)
    then have "txAsset tx = a" by (simp add: txAsset_def)
    moreover note x = costBy_other [OF assms(2) False a(2), of tx]
    moreover have "\<bar>P - costBy r a tx t\<bar> < 2 ^ 53" using Cons.prems(2) x by auto
    ultimately show ?thesis using False a by simp
  qed
  have "rest = js_int (P - ?c - (\<Sum>(tx, t)\<leftarrow>ps. costBy r (txAsset tx) tx t))"
    by (rule Cons.IH) (use Cons.prems step p in \<open>auto simp: algebra_simps\<close>)
  then show ?case by (simp add: p diff_diff_eq)
qed simp

text \<open>Setting the excess of one transaction.\<close>

definition excessSum :: "txDao list \<Rightarrow> int" where
  "excessSum txDaos = sum_list (map td_excessGas txDaos)"

definition withoutExcess :: "txDao \<Rightarrow> txDao" where
  "withoutExcess d = d\<lparr>td_excessGas := 0\<rparr>"

lemma setExcess_exact: "setExcess i (js_int n) xs = Inr xs' \<longleftrightarrow> i < length xs \<and> xs' = xs[i := js_int (max 0 n)]"
  by (auto simp: setExcess_def mapR_eq_Inr indexE_def split: if_splits)

lemma setExcess_length: "setExcess i gas xs = Inr xs' \<Longrightarrow> length xs' = length xs"
  by (auto simp: setExcess_def mapR_eq_Inr)

text \<open>Storing the numbers changes nothing else of the transactions.\<close>

lemma withExcess_int: "excessColumn (js_int n) = Inr n"
  by (simp add: excessColumn_def)

lemma withExcess_nth:
  assumes "withExcess ds xs = Inr ds'" "length xs = length ds" "i < length ds"
  shows "\<exists>e. excessColumn (xs ! i) = Inr e \<and> ds' ! i = (ds ! i)\<lparr>td_excessGas := e\<rparr>"
  using mapE_Inr_nth [OF assms(1) [unfolded withExcess_def], of i] assms(2,3) by (auto simp: mapR_eq_Inr)

lemma withExcess_keeps:
  assumes "withExcess ds xs = Inr ds'" "length xs = length ds"
  shows "length ds' = length ds \<and> map withoutExcess ds' = map withoutExcess ds"
proof -
  have l: "length ds' = length ds" using mapE_Inr_length [OF assms(1) [unfolded withExcess_def]] assms(2) by simp
  moreover have "withoutExcess (ds' ! i) = withoutExcess (ds ! i)" if "i < length ds" for i
    using withExcess_nth [OF assms that] by (auto simp: withoutExcess_def)
  ultimately show ?thesis by (auto intro: nth_equalityI)
qed

lemma withExcess_ints:
  assumes "withExcess ds (map js_int ns) = Inr ds'" "length ns = length ds"
  shows "map td_excessGas ds' = ns"
proof -
  have "td_excessGas (ds' ! i) = ns ! i" if "i < length ds" for i
    using withExcess_nth [OF assms(1) _ that] assms(2) that by (auto simp: withExcess_int)
  then show ?thesis using withExcess_keeps [OF assms(1)] assms(2) by (auto intro: nth_equalityI)
qed

lemma ownExcess_exact:
  assumes "ownExcess now r tx t = Inr x" "exactFees now r txs" "tx \<in> set txs"
  shows "x = js_int (paidBy now r tx - costBy r (txAsset tx) tx t)"
proof -
  from assms(1) obtain a y where a: "tx_feeAssetId tx = Inr a" "fr_getGasPaidForByFee now r a (tx_fee tx) = Inr y"
    by (auto simp: ownExcess_def bindE_eq_Inr)
  have ta: "txAsset tx = a" using a by (simp add: txAsset_def)
  from assms(2,3) a(2) obtain n where n: "y = js_int n" "0 \<le> n" "n \<le> 2 ^ 42" unfolding exactFees_def by metis
  have pb: "paidBy now r tx = n" using a n by (simp add: paidBy_def ta)
  show ?thesis
  proof (cases "t = TX_DEFI_DEPOSIT")
    case True
    then obtain bcd d c where b: "tx_bridgeCallData tx = Inr bcd" "defiGas r a bcd = Inr (d, c)" "x = js_sub y (js_add c d)"
      using assms(1) a by (auto simp: ownExcess_def bindE_eq_Inr mapR_eq_Inr)
    from costBy_defi [OF assms(2) True b(1,2)] obtain m k where mk: "d = js_int m" "c = js_int k" "costBy r a tx t = m + k"
      "0 \<le> m" "m \<le> 2 ^ 41" "0 \<le> k" "k \<le> 2 ^ 40" by blast
    have "\<bar>n - (k + m)\<bar> < 2 ^ 53" using n mk by auto
    then show ?thesis using b(3) mk n pb ta by (simp add: add.commute)
  next
    case False
    then obtain g where g: "fr_getAdjustedTxGas r a t = Inr g" "x = js_sub y g"
      using assms(1) a by (auto simp: ownExcess_def mapR_eq_Inr)
    note c = costBy_other [OF assms(2) False g(1), of tx]
    moreover have "\<bar>n - costBy r a tx t\<bar> < 2 ^ 53" using n c by auto
    ultimately show ?thesis using g(2) n pb ta by simp
  qed
qed

lemma own_excess_loop:
  assumes "foldE (\<lambda>excess (i, tx, t). bindE (ownExcess now r tx t) (\<lambda>gas. setExcess i gas excess)) xs (List.enumerate k ps) = Inr xs'"
    and "exactFees now r txs" "fst ` set ps \<subseteq> set txs"
  shows "xs' = take k xs @ map (\<lambda>(tx, t). js_int (max 0 (paidBy now r tx - costBy r (txAsset tx) tx t))) ps @ drop (k + length ps) xs"
  using assms(1,3)
proof (induction ps arbitrary: k xs)
  case (Cons p ps)
  obtain tx t where p: "p = (tx, t)" by (cases p)
  from Cons.prems(1) p obtain gas ys where 1: "ownExcess now r tx t = Inr gas" "setExcess k gas xs = Inr ys"
    "foldE (\<lambda>excess (i, tx, t). bindE (ownExcess now r tx t) (\<lambda>gas. setExcess i gas excess)) ys (List.enumerate (Suc k) ps) = Inr xs'"
    by (auto simp: bindE_eq_Inr)
  have "tx \<in> set txs" using Cons.prems(2) p by auto
  note s = 1(2) [unfolded ownExcess_exact [OF 1(1) assms(2) this] setExcess_exact]
  have "xs' = take (Suc k) ys @ map (\<lambda>(tx, t). js_int (max 0 (paidBy now r tx - costBy r (txAsset tx) tx t))) ps @ drop (Suc k + length ps) ys"
    by (rule Cons.IH [OF 1(3)]) (use Cons.prems(2) in auto)
  then show ?case using s by (simp add: p take_Suc_conv_app_nth)
qed simp

lemma validate_nonneg:
  assumes "foldE (\<lambda>(required, provided) (tx, t).
            bindE (addGasRequired r tx t required) (\<lambda>required.
              mapR (\<lambda>provided. (required, provided)) (addGasProvided now r fa tx provided)))
          s ps = Inr s'"
    and "exactFees now r txs" "fst ` set ps \<subseteq> set txs" "(tx, t) \<in> set ps"
  shows "0 \<le> costBy r (txAsset tx) tx t \<and> 0 \<le> paidBy now r tx"
proof -
  have c: "0 \<le> costBy r a tx t" for a
  proof (cases "t = TX_DEFI_DEPOSIT")
    case True
    show ?thesis
    proof (cases "bindE (tx_bridgeCallData tx) (defiGas r a)")
      case (Inr p)
      then obtain bcd d k where b: "tx_bridgeCallData tx = Inr bcd" "defiGas r a bcd = Inr (d, k)" by (cases p) (auto simp: bindE_eq_Inr)
      from costBy_defi [OF assms(2) True b] show ?thesis by fastforce
    qed (simp add: costBy_def True)
  next
    case False
    show ?thesis
    proof (cases "fr_getAdjustedTxGas r a t")
      case (Inr x)
      from costBy_other [OF assms(2) False Inr, of tx] show ?thesis by simp
    qed (simp add: costBy_def False)
  qed
  have "tx \<in> set txs" using assms(3,4) by force
  then have "0 \<le> paidBy now r tx"
    using assms(2) unfolding exactFees_def paidBy_def by (auto split: sum.split) (metis gasFigure_int)
  with c show ?thesis by blast
qed

lemma sum_excess_bounds:
  fixes p :: "'a \<Rightarrow> int" and c :: "'a \<Rightarrow> 'b \<Rightarrow> int"
  assumes "\<And>x t. (x, t) \<in> set ps \<Longrightarrow> 0 \<le> c x t \<and> 0 \<le> p x"
  shows "(\<Sum>(x, t)\<leftarrow>ps. p x) - (\<Sum>(x, t)\<leftarrow>ps. c x t) \<le> (\<Sum>(x, t)\<leftarrow>ps. max 0 (p x - c x t))
    \<and> (\<Sum>(x, t)\<leftarrow>ps. max 0 (p x - c x t)) \<le> (\<Sum>(x, t)\<leftarrow>ps. p x) \<and> 0 \<le> (\<Sum>(x, t)\<leftarrow>ps. max 0 (p x - c x t))"
  using assms
proof (induction ps)
  case (Cons q ps)
  obtain x t where q: "q = (x, t)" by (cases q)
  have "0 \<le> c x t \<and> 0 \<le> p x" by (rule Cons.prems) (simp add: q)
  then show ?case using Cons.IH [OF Cons.prems] by (simp add: q max_def)
qed simp

lemma feePayingAssets_spec:
  assumes "feePayingAssets r txs = Inr (assets, feeless)"
  shows "(\<forall>tx\<in>set txs. tx_feeAssetId tx = Inr (txAsset tx)) \<and> set assets = txAsset ` {tx \<in> set txs. \<not> isFeeless r tx}
    \<and> distinct assets \<and> (feeless \<longleftrightarrow> (\<exists>tx\<in>set txs. isFeeless r tx))"
  using assms unfolding feePayingAssets_def
proof (induction txs arbitrary: assets feeless rule: rev_induct)
  case (snoc tx txs)
  from snoc.prems obtain as fl where 1: "foldE (\<lambda>(assets, feeless) tx.
     mapR (\<lambda>assetId. if isFeePayingAsset r assetId \<and> tx_fee tx \<noteq> 0
         then (if assetId \<in> set assets then assets else assets @ [assetId], feeless) else (assets, True))
       (tx_feeAssetId tx)) ([], False) txs = Inr (as, fl)"
    and 2: "mapR (\<lambda>assetId. if isFeePayingAsset r assetId \<and> tx_fee tx \<noteq> 0
         then (if assetId \<in> set as then as else as @ [assetId], fl) else (as, True)) (tx_feeAssetId tx) = Inr (assets, feeless)"
    by (auto simp: foldE_append bindE_eq_Inr)
  from 2 obtain a where a: "tx_feeAssetId tx = Inr a" by (auto simp: mapR_eq_Inr)
  then have "txAsset tx = a" "isFeeless r tx \<longleftrightarrow> \<not> isFeePayingAsset r a \<or> tx_fee tx = 0"
    by (simp_all add: txAsset_def isFeeless_def)
  then show ?case using snoc.IH [OF 1] 2 a by (auto split: if_splits)
qed simp

lemma validateReceivedTxs_cases:
  assumes "validateReceivedTxs now r txs txTypes False = Inr v"
  shows "\<exists>fa. feePayingAssets r txs = Inr ([fa], gv_hasFeelessTxs v) \<and> gv_feePayingAsset v = Some fa
    \<and> foldE (\<lambda>(required, provided) (tx, t).
            bindE (addGasRequired r tx t required) (\<lambda>required.
              mapR (\<lambda>provided. (required, provided)) (addGasProvided now r (Some fa) tx provided)))
          (js_int 0, js_int 0) (zip txs txTypes) = Inr (gv_gasRequired v, gv_gasProvided v)"
proof -
  from assms obtain assets feeless where f: "feePayingAssets r txs = Inr (assets, feeless)"
    by (auto simp: validateReceivedTxs_def bindE_eq_Inr)
  note eq = assms [unfolded validateReceivedTxs_def f bindE_Inr case_prod_conv]
  then have "length assets = 1" by (simp split: if_splits)
  then obtain fa where fa: "assets = [fa]" by (cases assets) auto
  show ?thesis using eq f unfolding fa by (auto simp: mapR_eq_Inr Let_def)
qed

text \<open>The figures of a validated group, and the two ways in which its excess is given away.\<close>

lemma group_figures:
  assumes "validateReceivedTxs now r txs txTypes False = Inr v" and x: "exactFees now r txs"
    and l: "length txs \<le> 256" "length txTypes = length txs"
  obtains P R fa where "gv_gasRequired v = js_int R" "gv_gasProvided v = js_int P" "0 \<le> R" "R \<le> 2 ^ 51" "0 \<le> P" "P \<le> 2 ^ 51"
    "R = (\<Sum>(tx, t)\<leftarrow>zip txs txTypes. costBy r (txAsset tx) tx t)"
    "P = (\<Sum>(tx, t)\<leftarrow>zip txs txTypes. if Some (txAsset tx) = Some fa then paidBy now r tx else 0)"
    "feePayingAssets r txs = Inr ([fa], gv_hasFeelessTxs v)"
    "\<forall>(tx, t)\<in>set (zip txs txTypes). 0 \<le> costBy r (txAsset tx) tx t \<and> 0 \<le> paidBy now r tx"
proof -
  let ?ps = "zip txs txTypes"
  from validateReceivedTxs_cases [OF assms(1)] obtain fa where
    f: "feePayingAssets r txs = Inr ([fa], gv_hasFeelessTxs v)"
    and val: "foldE (\<lambda>(required, provided) (tx, t).
            bindE (addGasRequired r tx t required) (\<lambda>required.
              mapR (\<lambda>provided. (required, provided)) (addGasProvided now r (Some fa) tx provided)))
          (js_int 0, js_int 0) ?ps = Inr (gv_gasRequired v, gv_gasProvided v)" by blast
  have sub: "fst ` set ?ps \<subseteq> set txs" by (auto dest: set_zip_leftD)
  note nn = validate_nonneg [OF val x sub]
  show thesis
  proof (rule that [OF _ _ _ _ _ _ refl refl f])
    show "\<forall>(tx, t)\<in>set ?ps. 0 \<le> costBy r (txAsset tx) tx t \<and> 0 \<le> paidBy now r tx" using nn by blast
    show "0 \<le> (\<Sum>(tx, t)\<leftarrow>?ps. costBy r (txAsset tx) tx t)" using nn by (intro sum_list_nonneg) auto
    show "0 \<le> (\<Sum>(tx, t)\<leftarrow>?ps. if Some (txAsset tx) = Some fa then paidBy now r tx else 0)"
      using nn by (intro sum_list_nonneg) auto
  qed (use validate_exact [OF val x sub] l in simp_all)
qed

text \<open>What each transaction of a group is given: its own surplus if all of them pay; otherwise all that is left goes to the first DeFi deposit, or to
  the first transaction that pays nothing.\<close>

definition excessShares :: "int \<Rightarrow> txFeeResolver \<Rightarrow> receivedTx list \<Rightarrow> txType list \<Rightarrow> bool \<Rightarrow> int \<Rightarrow> int \<Rightarrow> int list" where
  "excessShares now r txs txTypes feeless P R =
    (if P \<le> R then replicate (length txs) 0
     else if \<not> feeless then map (\<lambda>(tx, t). max 0 (paidBy now r tx - costBy r (txAsset tx) tx t)) (zip txs txTypes)
     else (replicate (length txs) 0)[(case findIndex (\<lambda>t. t = TX_DEFI_DEPOSIT) txTypes of Some i \<Rightarrow> i
            | None \<Rightarrow> the (findIndex (isFeeless r) txs)) := P - R])"

lemma sum_replicate_zero: "sum_list (replicate n (0 :: int)) = 0"
  by (induction n) simp_all

lemma sum_one_share: "i < n \<Longrightarrow> sum_list ((replicate n (0 :: int))[i := x]) = x"
  by (induction n arbitrary: i) (auto simp: sum_replicate_zero split: nat.splits)

lemma isZeroOrNaN_int: "isZeroOrNaN (js_int n) \<longleftrightarrow> n = 0"
  by (simp add: isZeroOrNaN_def js_int_def)

lemma reallocated_shares:
  assumes "validateReceivedTxs now r txs txTypes False = Inr v"
    and "reallocateGas now r (replicate (length txs) (js_int 0)) txs txTypes v = Inr excess"
    and x: "exactFees now r txs" and l: "length txs \<le> 256" "length txTypes = length txs"
  obtains P R fa where "gv_gasProvided v = js_int P" "gv_gasRequired v = js_int R"
    "R = (\<Sum>(tx, t)\<leftarrow>zip txs txTypes. costBy r (txAsset tx) tx t)"
    "P = (\<Sum>(tx, t)\<leftarrow>zip txs txTypes. if txAsset tx = fa then paidBy now r tx else 0)"
    "gv_feePayingAsset v = Some fa" "excess = map js_int (excessShares now r txs txTypes (gv_hasFeelessTxs v) P R)"
    "P - R \<le> sum_list (excessShares now r txs txTypes (gv_hasFeelessTxs v) P R)"
    "sum_list (excessShares now r txs txTypes (gv_hasFeelessTxs v) P R) \<le> P"
proof -
  let ?ps = "zip txs txTypes" and ?zs = "replicate (length txs) (js_int 0)"
  have sub: "fst ` set ?ps \<subseteq> set txs" by (auto dest: set_zip_leftD)
  from group_figures [OF assms(1) x l] obtain P R fa where g: "gv_gasRequired v = js_int R" "gv_gasProvided v = js_int P"
    "0 \<le> R" "R \<le> 2 ^ 51" "0 \<le> P" "P \<le> 2 ^ 51" "R = (\<Sum>(tx, t)\<leftarrow>?ps. costBy r (txAsset tx) tx t)"
    "P = (\<Sum>(tx, t)\<leftarrow>?ps. if Some (txAsset tx) = Some fa then paidBy now r tx else 0)"
    "feePayingAssets r txs = Inr ([fa], gv_hasFeelessTxs v)"
    "\<forall>(tx, t)\<in>set ?ps. 0 \<le> costBy r (txAsset tx) tx t \<and> 0 \<le> paidBy now r tx" .
  let ?shares = "excessShares now r txs txTypes (gv_hasFeelessTxs v) P R"
  have fa: "gv_feePayingAsset v = Some fa" using validateReceivedTxs_cases [OF assms(1)] g(9) by auto
  consider "P \<le> R" | "R < P" "\<not> gv_hasFeelessTxs v" | "R < P" "gv_hasFeelessTxs v" by linarith
  then have "excess = map js_int ?shares \<and> P - R \<le> sum_list ?shares \<and> sum_list ?shares \<le> P"
  proof cases
    case 1
    then show ?thesis using assms(2) g(1,2,5) by (simp add: reallocateGas_def excessShares_def sum_replicate_zero)
  next
    case 2
    then have "foldE (\<lambda>excess (i, tx, t). bindE (ownExcess now r tx t) (\<lambda>gas. setExcess i gas excess)) ?zs (List.enumerate 0 ?ps) = Inr excess"
      using assms(2) g(1,2) by (simp add: reallocateGas_def)
    from own_excess_loop [OF this x sub] have "excess = map (\<lambda>(tx, t). js_int (max 0 (paidBy now r tx - costBy r (txAsset tx) tx t))) ?ps"
      using l(2) by simp
    moreover have "\<forall>tx\<in>set txs. txAsset tx = fa" using feePayingAssets_spec [OF g(9)] 2(2) by auto
    then have "P = (\<Sum>(tx, t)\<leftarrow>?ps. paidBy now r tx)"
      unfolding g(8) by (intro arg_cong [of _ _ sum_list] map_cong) (auto dest: set_zip_leftD)
    moreover have "(\<Sum>(tx, t)\<leftarrow>?ps. paidBy now r tx) - (\<Sum>(tx, t)\<leftarrow>?ps. costBy r (txAsset tx) tx t)
          \<le> (\<Sum>(tx, t)\<leftarrow>?ps. max 0 (paidBy now r tx - costBy r (txAsset tx) tx t))
        \<and> (\<Sum>(tx, t)\<leftarrow>?ps. max 0 (paidBy now r tx - costBy r (txAsset tx) tx t)) \<le> (\<Sum>(tx, t)\<leftarrow>?ps. paidBy now r tx)
        \<and> 0 \<le> (\<Sum>(tx, t)\<leftarrow>?ps. max 0 (paidBy now r tx - costBy r (txAsset tx) tx t))"
      using g(10) by (intro sum_excess_bounds) blast
    ultimately show ?thesis using g(7) 2 by (simp add: excessShares_def case_prod_beta o_def)
  next
    case 3
    let ?i = "case findIndex (\<lambda>t. t = TX_DEFI_DEPOSIT) txTypes of Some i \<Rightarrow> i | None \<Rightarrow> the (findIndex (isFeeless r) txs)"
    obtain rest where rest: "remainingGas r txs txTypes (js_int P) = Inr rest" using assms(2) 3 g(1,2) by (auto simp: reallocateGas_def bindE_eq_Inr)
    have "rest = js_int (P - R)"
      using remainingGas_exact [OF rest [unfolded remainingGas_def] x] g(3-7) l(1) by simp
    then have "setExcess ?i (js_int (P - R)) ?zs = Inr excess"
      using assms(2) 3 g(1,2) rest unfolding reallocateGas_def by (auto simp: isZeroOrNaN_int split: option.splits)
    then have "?i < length txs" "excess = ?zs[?i := js_int (P - R)]" using 3(1) unfolding setExcess_exact by simp_all
    then show ?thesis using 3 g(3) sum_one_share [of ?i "length txs" "P - R"] by (simp add: excessShares_def map_update)
  qed
  then show thesis using g(7,8) by (intro that [OF g(2,1) _ _ fa]) auto
qed

lemma excessShares_feeless:
  assumes "validateReceivedTxs now r txs txTypes False = Inr v" "gv_hasFeelessTxs v" "length txTypes = length txs" "R \<le> P"
  shows "sum_list (excessShares now r txs txTypes True P R) = P - R"
proof -
  from validateReceivedTxs_cases [OF assms(1)] obtain fa where "feePayingAssets r txs = Inr ([fa], gv_hasFeelessTxs v)" by blast
  from feePayingAssets_spec [OF this] assms(2) have "\<exists>tx\<in>set txs. isFeeless r tx" by blast
  then obtain k where k: "findIndex (isFeeless r) txs = Some k"
    using findIndex_None [of "isFeeless r" txs] by (cases "findIndex (isFeeless r) txs") auto
  have "(case findIndex (\<lambda>t. t = TX_DEFI_DEPOSIT) txTypes of Some i \<Rightarrow> i | None \<Rightarrow> the (findIndex (isFeeless r) txs)) < length txs"
    using findIndex_bound [OF k] k assms(3) by (auto dest: findIndex_bound split: option.splits)
  from sum_one_share [OF this] show ?thesis using assms(4) by (simp add: excessShares_def sum_replicate_zero)
qed

lemma setExcess_fold_length:
  "foldE (\<lambda>excess (i, tx, t). bindE (ownExcess now r tx t) (\<lambda>gas. setExcess i gas excess)) xs ps = Inr ys \<Longrightarrow> length ys = length xs"
  by (rule foldE_invariant [where P = "\<lambda>ys. length ys = length xs"]) (auto simp: bindE_eq_Inr split: prod.splits, metis setExcess_length)

lemma reallocateGas_length: "reallocateGas now r xs txs txTypes v = Inr ys \<Longrightarrow> length ys = length xs"
  by (auto simp: reallocateGas_def bindE_eq_Inr dest: setExcess_length setExcess_fold_length split: if_splits option.splits)

section \<open>A sample group\<close>

definition sampleGroupResolver :: txFeeResolver where
  "sampleGroupResolver = \<lparr>fr_feeCalculator = sampleFees, fr_bridgeResolver = sampleResolver\<lparr>br_bridgeConfigs := []\<rparr>,
     fr_txsPerRollup = 28, fr_feePayingAssetIds = [0], fr_exitOnly = False\<rparr>"

lemma sample_group_overhead:
  "getGasOverheadForTxType sampleFees a t = Inr g \<Longrightarrow> 0 \<le> g \<and> g \<le> 50000 \<and> getNumAdjustedTxsPerRollup sampleFees a t = Inr (js_int 28)"
  unfolding getNumAdjustedTxsPerRollup_def sample_max_gas by (cases t) (auto simp: sample_simps split: if_splits)

lemma js_ceil_int: "js_ceil (js_int n) = js_int n"
  by (simp add: js_int_def)

lemma js_sub_same: "b \<noteq> 0 \<Longrightarrow> js_sub (js_div (js_int a) (js_int b)) (js_div (js_int a) (js_int b)) = js_int 0"
  by (simp add: js_int_def js_sub_def roundF64_int [of 0, simplified])

lemma sample_group_adjusted:
  assumes "fr_getAdjustedTxGas sampleGroupResolver a t = Inr x"
  obtains n where "x = js_int n" "0 \<le> n" "n \<le> 2 ^ 40"
proof -
  obtain g where g: "getGasOverheadForTxType sampleFees a t = Inr g" and
    b: "mapR (\<lambda>base. js_add base (js_int g)) (getAdjustedBaseVerificationGas sampleFees a t) = Inr x"
    using assms by (auto simp: fr_getAdjustedTxGas_def sampleGroupResolver_def getAdjustedTxGas_def bindE_eq_Inr mapR_eq_Inr)
  have "getAdjustedBaseVerificationGas sampleFees a t = Inr (js_int 17858)"
    using sample_group_overhead [OF g] by (simp add: getAdjustedBaseVerificationGas_def getTxGasAdjustmentValue_def)
      (simp add: sampleFees_def js_sub_same js_ceil_int getUnadjustedBaseVerificationGas_def js_ceil_div)
  then have "x = js_int (17858 + g)" using b sample_group_overhead [OF g] by simp
  with sample_group_overhead [OF g] show thesis by (intro that [of "17858 + g"]) auto
qed

lemma sample_group_transfer_gas: "fr_getAdjustedTxGas sampleGroupResolver 0 TX_TRANSFER = Inr (js_int 24594)"
proof -
  have g: "getGasOverheadForTxType sampleFees 0 TX_TRANSFER = Inr 6736" by (simp add: sample_simps)
  show ?thesis
    using sample_group_overhead [OF g] g by (simp add: fr_getAdjustedTxGas_def sampleGroupResolver_def getAdjustedTxGas_def
        getAdjustedBaseVerificationGas_def getTxGasAdjustmentValue_def) (simp add: sampleFees_def js_sub_same js_ceil_int
        getUnadjustedBaseVerificationGas_def js_ceil_div)
qed

definition sampleGroupTx :: "int \<Rightarrow> receivedTx" where
  "sampleGroupTx fee = \<lparr>tx_proof = \<lparr>pd_rawProofData = [], pd_proofId = 2, pd_noteCommitment1 = zeros 32,
     pd_noteCommitment2 = zeros 32, pd_nullifier1 = zeros 32, pd_nullifier2 = zeros 32, pd_publicValue = zeros 32,
     pd_publicOwner = zeros 32, pd_publicAssetId = zeros 32, pd_noteTreeRoot = zeros 32, pd_txFee = toBufferBE fee 32,
     pd_txFeeAssetId = zeros 32, pd_bridgeCallData = zeros 32, pd_defiDepositValue = zeros 32, pd_defiRoot = zeros 32,
     pd_backwardLink = zeros 32, pd_allowChain = zeros 32, pd_cachedTxId = None\<rparr>,
   tx_offchainTxData = [], tx_depositSignature = None\<rparr>"

lemma sampleGroupTx_simps:
  "tx_feeAssetId (sampleGroupTx fee) = Inr 0" "0 \<le> fee \<Longrightarrow> fee < 256 ^ 32 \<Longrightarrow> tx_fee (sampleGroupTx fee) = fee"
  by (simp_all add: tx_feeAssetId_def tx_fee_def sampleGroupTx_def ProofData_feeAssetId_def readUInt32BE_def bslice_def
      toBigIntBE_toBufferBE)

lemma sample_group_paid:
  "fr_getGasPaidForByFee 2000 sampleGroupResolver a 0 = Inr x \<Longrightarrow> x = js_int 0"
  "fr_getGasPaidForByFee 2000 sampleGroupResolver a 10000000000000000 = Inr x \<Longrightarrow> x = js_int 333333"
  "fr_getGasPaidForByFee 2000 sampleGroupResolver 0 10000000000000000 = Inr (js_int 333333)"
  "fr_getGasPaidForByFee 2000 sampleGroupResolver 0 0 = Inr (js_int 0)" "fr_getGasPaidForByFee 2000 sampleGroupResolver 0 1 = Inr (js_int 0)"
proof -
  note paid = fr_getGasPaidForByFee_def sampleGroupResolver_def getGasPaidForByFee_def
  have a: "fc_getAsset sampleFees a = Inr y \<Longrightarrow> a = 0" for a y by (simp add: sample_simps indexE_def split: if_splits)
  have e: "fr_getGasPaidForByFee 2000 sampleGroupResolver 0 fee = mapR (\<lambda>gas. Num (roundF64 (of_int gas)))
     (bigDiv (truncDiv (10 ^ 18 * fee) 30000000000) (10 ^ 18))" for fee
    using sample_multiplier by (simp add: paid) (simp add: sampleFees_def pt_getAssetPrice_def pt_getMinGasPrice_def
     fc_getAsset_def scaleFactor_def bigDiv_def truncDiv_def)
  show p: "fr_getGasPaidForByFee 2000 sampleGroupResolver 0 10000000000000000 = Inr (js_int 333333)"
    "fr_getGasPaidForByFee 2000 sampleGroupResolver 0 0 = Inr (js_int 0)" "fr_getGasPaidForByFee 2000 sampleGroupResolver 0 1 = Inr (js_int 0)"
    unfolding e using roundF64_int [of 333333] roundF64_int [of 0] by (simp_all add: bigDiv_def truncDiv_def js_int_def)
  have z: "a = 0" if "fr_getGasPaidForByFee 2000 sampleGroupResolver a fee = Inr x" for a fee x
    using that a by (auto simp: paid Let_def bindE_eq_Inr)
  show "fr_getGasPaidForByFee 2000 sampleGroupResolver a 0 = Inr x \<Longrightarrow> x = js_int 0"
    "fr_getGasPaidForByFee 2000 sampleGroupResolver a 10000000000000000 = Inr x \<Longrightarrow> x = js_int 333333" 
    using z p by fastforce+
qed

lemma sample_group_exact:
  assumes "\<forall>tx\<in>set txs. tx_fee tx \<in> {0, 10000000000000000}"
  shows "exactFees 2000 sampleGroupResolver txs"
proof -
  have b: "getSingleBridgeTxGas sampleGroupResolver b \<noteq> Inr x" for b x
    by (auto simp: getSingleBridgeTxGas_def sampleGroupResolver_def getMinBridgeTxGas_def getBridgeConfig_def bindE_eq_Inr mapR_eq_Inr)
  have a: "fr_getAdjustedTxGas sampleGroupResolver a t = Inr x \<Longrightarrow> \<exists>n. x = js_int n \<and> 0 \<le> n \<and> n \<le> 2 ^ 40" for a t x
    by (erule sample_group_adjusted) blast
  have "fr_getGasPaidForByFee 2000 sampleGroupResolver a (tx_fee tx) = Inr x \<Longrightarrow> \<exists>n. x = js_int n \<and> 0 \<le> n \<and> n \<le> 2 ^ 42"
    if "tx \<in> set txs" for a x tx
    using assms [rule_format, OF that] sample_group_paid(1,2) [of a x] by auto
  with a b show ?thesis unfolding exactFees_def by blast
qed

section \<open>Properties\<close>

text \<open>What is left over of a group's gas is given to its transactions: exactly that, to one transaction, when some transaction pays no
  fee; otherwise each transaction gets its own surplus, which together is at least what is left over and at most what was provided.\<close>

theorem excess_gas_shares:
  assumes "validateReceivedTxs now r txs txTypes False = Inr v"
    and "reallocateGas now r (replicate (length txs) (js_int 0)) txs txTypes v = Inr excess"
    and x: "exactFees now r txs" and l: "length txs \<le> 256" "length txTypes = length txs"
  shows "\<exists>P R. gv_gasProvided v = js_int P \<and> gv_gasRequired v = js_int R
    \<and> excess = map js_int (excessShares now r txs txTypes (gv_hasFeelessTxs v) P R)
    \<and> P - R \<le> sum_list (excessShares now r txs txTypes (gv_hasFeelessTxs v) P R)
    \<and> sum_list (excessShares now r txs txTypes (gv_hasFeelessTxs v) P R) \<le> P"
  by (rule reallocated_shares [OF assms]) blast

theorem excess_gas_shares_witness:
  "\<exists>v. validateReceivedTxs 2000 sampleGroupResolver [sampleGroupTx 10000000000000000, sampleGroupTx 0] [TX_TRANSFER, TX_TRANSFER] False = Inr v
     \<and> reallocateGas 2000 sampleGroupResolver [js_int 0, js_int 0]
         [sampleGroupTx 10000000000000000, sampleGroupTx 0] [TX_TRANSFER, TX_TRANSFER] v = Inr [js_int 0, js_int 284145]
     \<and> sum_list (excessShares 2000 sampleGroupResolver [sampleGroupTx 10000000000000000, sampleGroupTx 0] [TX_TRANSFER, TX_TRANSFER] True 333333 49188) \<le> 333333"
proof -
  let ?txs = "[sampleGroupTx 10000000000000000, sampleGroupTx 0]"
  have f: "isFeePayingAsset sampleGroupResolver 0" by (simp add: isFeePayingAsset_def sampleGroupResolver_def)
  obtain v where v: "validateReceivedTxs 2000 sampleGroupResolver ?txs [TX_TRANSFER, TX_TRANSFER] False = Inr v"
    "gv_hasFeelessTxs v" "gv_gasRequired v = js_int 49188" "gv_gasProvided v = js_int 333333"
    using f by (simp add: validateReceivedTxs_def feePayingAssets_def sampleGroupTx_simps addGasRequired_def addGasProvided_def
        sample_group_transfer_gas sample_group_paid Let_def)
  have d: "reallocateGas 2000 sampleGroupResolver [js_int 0, js_int 0] ?txs [TX_TRANSFER, TX_TRANSFER] v = Inr [js_int 0, js_int 284145]"
    using v(2-4) f by (simp add: reallocateGas_def remainingGas_def sampleGroupTx_simps sample_group_transfer_gas isZeroOrNaN_int
       isFeeless_def setExcess_def)
  then have "reallocateGas 2000 sampleGroupResolver (replicate (length ?txs) (js_int 0)) ?txs [TX_TRANSFER, TX_TRANSFER] v = Inr [js_int 0, js_int 284145]"
    by (simp add: numeral_2_eq_2)
  from excess_gas_shares [OF v(1) this sample_group_exact] v
  have "sum_list (excessShares 2000 sampleGroupResolver ?txs [TX_TRANSFER, TX_TRANSFER] True 333333 49188) \<le> 333333"
    by (auto simp: js_int_def sampleGroupTx_simps)
  then show ?thesis using v(1) d by blast
qed

text \<open>When all transactions pay, more may be given than is left over: one transaction that pays far too much makes up for one that pays
  far too little, and is given all it paid too much. The group has 284145 gas left, its first transaction is given 308739.\<close>

theorem excess_gas_made_up:
  "\<exists>v. validateReceivedTxs 2000 sampleGroupResolver [sampleGroupTx 10000000000000000, sampleGroupTx 1] [TX_TRANSFER, TX_TRANSFER] False = Inr v
     \<and> gv_gasProvided v = js_int 333333 \<and> gv_gasRequired v = js_int 49188 \<and> 333333 - 49188 < (308739 :: int)
     \<and> reallocateGas 2000 sampleGroupResolver [js_int 0, js_int 0]
         [sampleGroupTx 10000000000000000, sampleGroupTx 1] [TX_TRANSFER, TX_TRANSFER] v = Inr [js_int 308739, js_int 0]"
proof -
  let ?txs = "[sampleGroupTx 10000000000000000, sampleGroupTx 1]"
  have f: "isFeePayingAsset sampleGroupResolver 0" by (simp add: isFeePayingAsset_def sampleGroupResolver_def)
  obtain v where v: "validateReceivedTxs 2000 sampleGroupResolver ?txs [TX_TRANSFER, TX_TRANSFER] False = Inr v"
    "\<not> gv_hasFeelessTxs v" "gv_gasRequired v = js_int 49188" "gv_gasProvided v = js_int 333333"
    using f by (simp add: validateReceivedTxs_def feePayingAssets_def sampleGroupTx_simps addGasRequired_def addGasProvided_def
        sample_group_transfer_gas sample_group_paid Let_def)
  have "reallocateGas 2000 sampleGroupResolver [js_int 0, js_int 0] ?txs [TX_TRANSFER, TX_TRANSFER] v = Inr [js_int 308739, js_int 0]"
    using v(2-4) by (simp add: reallocateGas_def ownExcess_def sampleGroupTx_simps sample_group_transfer_gas sample_group_paid setExcess_def)
  then show ?thesis using v by auto
qed

end
