(* ===== verification/TxReceiver.thy ===== *)
theory TxReceiver
  imports FeeAllocator Coordinator Offchain Scheduling
begin

text \<open>
  \<open>falafel/src/tx_receiver/tx_receiver.ts\<close>: the checks a request of transactions passes before its transactions are
  stored. The answers of the chain, of the database, of the list of prohibited addresses and of the two verifiers
  are the fields of \<open>receiverEnv\<close>; \<open>re_now i\<close> is the time at which transaction \<open>i\<close> is recorded. What is handed to the
  database and the rate limiter are the state. Requests are served one at a time, by the mutex of the receiver.
\<close>

section \<open>Environment and state\<close>

record receiverEnv =
  re_isContract :: "ethAddress \<Rightarrow> bool"
  re_isEmpty :: "ethAddress \<Rightarrow> bool"
  re_numAssets :: int
  re_allowThirdPartyContracts :: bool
  re_proofApproval :: "ethAddress \<Rightarrow> buffer \<Rightarrow> bool"
  re_validateSignature :: "ethAddress \<Rightarrow> buffer \<Rightarrow> buffer \<Rightarrow> bool res"
  re_pendingDeposit :: "int \<Rightarrow> ethAddress \<Rightarrow> int"
  re_addressProhibited :: "ethAddress \<Rightarrow> bool"
  re_verifyJoinSplit :: "buffer \<Rightarrow> bool"
  re_verifyAccount :: "buffer \<Rightarrow> bool"
  re_accountNoteCommitment :: "aliasHash \<Rightarrow> grumpkinAddress \<Rightarrow> buffer \<Rightarrow> buffer"
  re_keccak :: "buffer \<Rightarrow> buffer"
  re_unsettledTxs :: "txDao list"
  re_unsettledDepositTxs :: "txDao list"
  re_nullifiersExist :: "buffer list \<Rightarrow> bool"
  re_isAccountRegistered :: "grumpkinAddress \<Rightarrow> bool"
  re_isAliasRegistered :: "aliasHash \<Rightarrow> bool"
  re_dataRootsIndex :: "buffer \<Rightarrow> int res"
  re_addTxs :: "txDao list \<Rightarrow> unit res"
  re_feeResolver :: txFeeResolver
  re_bridgeResolver :: bridgeResolver
  re_now :: "nat \<Rightarrow> int"

record receiverState =
  rs_added :: "txDao list"
  rs_rateLimiter :: rateLimiter

section \<open>Which requests are let through after the sunset\<close>

definition allowedBridgeCallData :: "string list" where
  "allowedBridgeCallData =
    [''0x000000000000000001000000000000000000000020000000000000060000000a'',
     ''0x0000000000000000010000000000000000000000a00000000000000f00000008'']"

definition exitBridge :: "bridgeCallData \<Rightarrow> bool" where
  "exitBridge b = (BridgeCallData_toString b \<in> set allowedBridgeCallData
     \<or> bcd_outputAssetIdB b = None \<and> bcd_outputAssetIdA b \<in> {0, 1} \<or> bcd_inputAssetIdA b \<in> {5, 6, 7})"

definition exitTx :: "receivedTx \<Rightarrow> txType \<Rightarrow> bool res" where
  "exitTx tx t =
    (if t \<in> {TX_WITHDRAW_HIGH_GAS, TX_WITHDRAW_TO_WALLET, TX_DEPOSIT} then Inr True
     else if t = TX_DEFI_DEPOSIT then mapR exitBridge (tx_bridgeCallData tx) else Inr False)"

text \<open>The id of a transaction is computed when its arrival is logged.\<close>

definition receivedTypes :: "receiverEnv \<Rightarrow> bool \<Rightarrow> receivedTx list \<Rightarrow> (txType list \<times> bool) res" where
  "receivedTypes env exitOnly txs = foldE (\<lambda>(txTypes, shouldReject) tx.
     bindE (getTxTypeFromProofData (re_isContract env) (re_isEmpty env) (tx_proof tx)) (\<lambda>txType.
     bindE (if exitOnly then exitTx tx txType else Inr False) (\<lambda>exits.
       mapR (\<lambda>_. (txTypes @ [txType], shouldReject \<and> \<not> exits)) (ProofData_txId (re_keccak env) (tx_proof tx)))))
     ([], exitOnly) txs"

section \<open>Checks on the request as a whole\<close>

fun someE :: "('a \<Rightarrow> bool res) \<Rightarrow> 'a list \<Rightarrow> bool res" where
  "someE f [] = Inr False"
| "someE f (x # xs) = bindE (f x) (\<lambda>b. if b then Inr True else someE f xs)"

definition linkedBy :: "buffer \<Rightarrow> proofData \<Rightarrow> bool res" where
  "linkedBy link p =
     bindE (ProofData_allowChainFromNote1 p) (\<lambda>allow1. if allow1 \<and> pd_noteCommitment1 p = link then Inr True
     else bindE (ProofData_allowChainFromNote2 p) (\<lambda>allow2. Inr (allow2 \<and> pd_noteCommitment2 p = link)))"

definition validateLink :: "proofData list \<Rightarrow> proofData \<Rightarrow> unit res" where
  "validateLink precedingTxs p =
    (let backwardLink = pd_backwardLink p in
     if backwardLink = zeros 32 then Inr ()
     else if \<exists>tx\<in>set precedingTxs. pd_backwardLink tx = backwardLink then Inl (Thrown ''Duplicated backward link.'')
     else bindE (someE (linkedBy backwardLink) precedingTxs) (\<lambda>linkedTx. guardE linkedTx ''Linked tx not found.''))"

definition validateChain :: "receiverEnv \<Rightarrow> receivedTx list \<Rightarrow> unit res" where
  "validateChain env txs =
     bindE (mapE (\<lambda>tx. newProofData (td_proofData tx) None) (re_unsettledTxs env)) (\<lambda>unsettledTxs.
       foldE (\<lambda>_ i. validateLink (unsettledTxs @ map tx_proof (take i txs)) (tx_proof (txs ! i))) () [0..<length txs])"

definition receivedNullifiers :: "receivedTx list \<Rightarrow> buffer list" where
  "receivedNullifiers txs = filter (\<lambda>n. n \<noteq> zeros 32)
     (concat (map (\<lambda>tx. [pd_nullifier1 (tx_proof tx), pd_nullifier2 (tx_proof tx)]) txs))"

definition validateNullifiers :: "receiverEnv \<Rightarrow> receivedTx list \<Rightarrow> unit res" where
  "validateNullifiers env txs =
    (let nullifiers = receivedNullifiers txs; nullifierSet = remdups (map toBigIntBE nullifiers)
     in if length nullifierSet \<noteq> length nullifiers \<or> re_nullifiersExist env nullifiers
        then Inl (Thrown ''Nullifier already exists.'') else Inr ())"

record requiredDeposit =
  rd_publicOwner :: ethAddress
  rd_publicAssetId :: int
  rd_value :: int

definition depositOf :: "proofData \<Rightarrow> requiredDeposit res" where
  "depositOf p = bindE (JoinSplit_publicAssetId p) (\<lambda>publicAssetId.
     mapR (\<lambda>publicOwner. \<lparr>rd_publicOwner = publicOwner, rd_publicAssetId = publicAssetId, rd_value = JoinSplit_publicValue p\<rparr>)
       (JoinSplit_publicOwner p))"

text \<open>Deposits of one owner in one asset are added up in the place of the first of them.\<close>

fun addRequired :: "requiredDeposit list \<Rightarrow> requiredDeposit \<Rightarrow> requiredDeposit list" where
  "addRequired [] d = [d]"
| "addRequired (r # rs) d =
    (if EthAddress_equals (rd_publicOwner r) (rd_publicOwner d) \<and> rd_publicAssetId r = rd_publicAssetId d
     then r\<lparr>rd_publicOwner := rd_publicOwner d, rd_value := rd_value r + rd_value d\<rparr> # rs else r # addRequired rs d)"

definition uniqueDepositAddresses :: "requiredDeposit list \<Rightarrow> ethAddress list" where
  "uniqueDepositAddresses ds = foldl (\<lambda>as d. if \<exists>a\<in>set as. EthAddress_equals a (rd_publicOwner d) then as
     else as @ [rd_publicOwner d]) [] ds"

definition depositedBy :: "ethAddress \<Rightarrow> int \<Rightarrow> requiredDeposit list \<Rightarrow> int" where
  "depositedBy publicOwner publicAssetId ds = sum_list (map rd_value
     (filter (\<lambda>d. EthAddress_equals (rd_publicOwner d) publicOwner \<and> rd_publicAssetId d = publicAssetId) ds))"

definition validateRequiredDeposit :: "receiverEnv \<Rightarrow> receivedTx list \<Rightarrow> unit res" where
  "validateRequiredDeposit env txs =
    (let depositProofs = filter (\<lambda>p. pd_proofId p = DEPOSIT) (map tx_proof txs)
     in if depositProofs = [] then Inr ()
     else bindE (mapE depositOf depositProofs) (\<lambda>deposits.
     bindE (guardE (\<forall>a\<in>set (uniqueDepositAddresses deposits). \<not> re_addressProhibited env a)
       ''Attempt to deposit from prohibited address'') (\<lambda>_.
     bindE (mapE (\<lambda>tx. bindE (newProofData (td_proofData tx) None) depositOf) (re_unsettledDepositTxs env)) (\<lambda>unsettledTxs.
       foldE (\<lambda>_ r.
         let total = rd_value r + depositedBy (rd_publicOwner r) (rd_publicAssetId r) unsettledTxs
         in guardE (\<not> re_pendingDeposit env (rd_publicAssetId r) (rd_publicOwner r) < total)
              ''User insufficient pending deposit balance.'') () (foldl addRequired [] deposits)))))"

section \<open>Checks on one transaction\<close>

definition validateNonVirtualAssetId :: "receiverEnv \<Rightarrow> int \<Rightarrow> unit res" where
  "validateNonVirtualAssetId env assetId = guardE (\<not> re_numAssets env \<le> assetId) ''Unsupported asset''"

definition validateAsset :: "receiverEnv \<Rightarrow> proofData \<Rightarrow> unit res" where
  "validateAsset env p =
    (if pd_proofId p = DEPOSIT \<or> pd_proofId p = WITHDRAW
     then bindE (readUInt32BE (pd_publicAssetId p) 28) (validateNonVirtualAssetId env)
     else if pd_proofId p = DEFI_DEPOSIT
     then bindE (BridgeCallData_fromBuffer (pd_bridgeCallData p)) (\<lambda>b.
       bindE (if \<not> firstOutputVirtual b then validateNonVirtualAssetId env (bcd_outputAssetIdA b) else Inr ()) (\<lambda>_.
       if secondOutputInUse b \<and> \<not> secondOutputVirtual b
       then (case bcd_outputAssetIdB b of None \<Rightarrow> Inr () | Some a \<Rightarrow> validateNonVirtualAssetId env a) else Inr ()))
     else Inr ())"

definition asciiBytes :: "string \<Rightarrow> buffer" where
  "asciiBytes s = map of_char s"

definition toDepositSigningData :: "txId \<Rightarrow> buffer" where
  "toDepositSigningData t = concat
    [asciiBytes (''Signing this message will allow your pending funds to be spent in Aztec transaction:'' @ [CHR 10, CHR 10]),
     asciiBytes (TxId_toString t),
     asciiBytes ([CHR 10, CHR 10] @ ''IMPORTANT: Only sign the message if you trust the client'')]"

text \<open>The recovery byte of a signature is brought to 27 or 28, in the buffer that is stored afterwards.\<close>

definition fixRecovery :: "buffer \<Rightarrow> buffer" where
  "fixRecovery sig = (if sig \<noteq> [] \<and> (last sig = 0 \<or> last sig = 1) then butlast sig @ [last sig + 27] else sig)"

definition validateDepositProofApproval :: "receiverEnv \<Rightarrow> proofData \<Rightarrow> buffer \<Rightarrow> buffer option \<Rightarrow> buffer option res" where
  "validateDepositProofApproval env p proofTxId depositSignature =
     bindE (JoinSplit_publicOwner p) (\<lambda>publicOwner.
     bindE (newTxId proofTxId) (\<lambda>txId.
       if re_proofApproval env publicOwner (TxId_toBuffer txId) then Inr depositSignature
       else (case depositSignature of None \<Rightarrow> Inl (Thrown ''Tx not approved or invalid signature'')
       | Some sig \<Rightarrow> bindE (re_validateSignature env publicOwner (fixRecovery sig) (toDepositSigningData txId)) (\<lambda>ok.
           if ok then Inr (Some (fixRecovery sig)) else Inl (Thrown ''Tx not approved or invalid signature'')))))"

definition validatePaymentProof :: "receiverEnv \<Rightarrow> proofData \<Rightarrow> buffer \<Rightarrow> unit res" where
  "validatePaymentProof env p offchainTxData =
    (case OffchainJoinSplitData_fromBuffer offchainTxData of Inl _ \<Rightarrow> Inl (Thrown ''Invalid offchain data'')
     | Inr _ \<Rightarrow> guardE (re_verifyJoinSplit env (pd_rawProofData p)) ''Payment proof verification failed.'')"

definition validateAccountProof :: "receiverEnv \<Rightarrow> proofData \<Rightarrow> buffer \<Rightarrow> unit res" where
  "validateAccountProof env p offchainTxData =
     bindE (OffchainAccountData_fromBuffer offchainTxData) (\<lambda>d.
     let commitment = re_accountNoteCommitment env (oad_aliasHash d) (oad_accountPublicKey d) in
     bindE (guardE (commitment (oad_spendingPublicKey1 d) = pd_noteCommitment1 p
         \<and> commitment (oad_spendingPublicKey2 d) = pd_noteCommitment2 p) ''Invalid offchain account data.'') (\<lambda>_.
     bindE (guardE (re_verifyAccount env (pd_rawProofData p)) ''Account proof verification failed.'') (\<lambda>_.
     bindE (guardE (\<not> (pd_nullifier2 p \<noteq> zeros 32 \<and> re_isAccountRegistered env (oad_accountPublicKey d)))
       ''Account key already registered'') (\<lambda>_.
     guardE (\<not> (pd_nullifier1 p \<noteq> zeros 32 \<and> re_isAliasRegistered env (oad_aliasHash d))) ''Alias already registered''))))"

definition validateDefiDepositProof :: "receiverEnv \<Rightarrow> proofData \<Rightarrow> buffer \<Rightarrow> unit res" where
  "validateDefiDepositProof env p offchainTxData =
     bindE (ProofData_allowChainFromNote1 p) (\<lambda>allow1.
     bindE (if allow1 then Inr True else ProofData_allowChainFromNote2 p) (\<lambda>allow.
     bindE (guardE (\<not> allow) ''Cannot chain from a defi deposit tx.'') (\<lambda>_.
     bindE (newDefiDepositProofData p) (\<lambda>view.
     bindE (DefiDeposit_bridgeCallData view) (\<lambda>b.
     bindE (case validateBridgeCallData b of Inl _ \<Rightarrow> Inl (Thrown ''Invalid bridge call data'') | Inr _ \<Rightarrow> Inr ()) (\<lambda>_.
     bindE (getBridgeConfig (re_bridgeResolver env) (BridgeCallData_toBigInt b)) (\<lambda>bridgeConfig.
     bindE (guardE (re_allowThirdPartyContracts env \<or> bridgeConfig \<noteq> None) ''Unrecognised Defi-bridge.'') (\<lambda>_.
     bindE (OffchainDefiDepositData_fromBuffer offchainTxData) (\<lambda>d.
     bindE (guardE (BridgeCallData_equals b (odd_bridgeCallData d)) ''Wrong bridgeCallData in offchain data.'') (\<lambda>_.
     bindE (guardE (DefiDeposit_defiDepositValue view = odd_depositValue d) ''Wrong depositValue in offchain data.'') (\<lambda>_.
     bindE (guardE (DefiDeposit_txFee view = odd_txFee d) ''Wrong txFee in offchain data.'') (\<lambda>_.
     guardE (re_verifyJoinSplit env (pd_rawProofData p)) ''Defi-deposit proof verification failed.''))))))))))))"

definition getNextTxTime :: "int \<Rightarrow> int option \<Rightarrow> int" where
  "getNextTxTime currentTime previousTxTime = (case previousTxTime of None \<Rightarrow> currentTime
     | Some t \<Rightarrow> if currentTime > t then currentTime else t + 1)"

definition storedNullifier :: "buffer \<Rightarrow> buffer option" where
  "storedNullifier n = (if toBigIntBE n \<noteq> 0 then Some n else None)"

definition validateProof :: "receiverEnv \<Rightarrow> proofData \<Rightarrow> buffer \<Rightarrow> unit res" where
  "validateProof env p offchainTxData =
    (if pd_proofId p = DEPOSIT \<or> pd_proofId p = WITHDRAW \<or> pd_proofId p = SEND then validatePaymentProof env p offchainTxData
     else if pd_proofId p = ACCOUNT then validateAccountProof env p offchainTxData
     else if pd_proofId p = DEFI_DEPOSIT then validateDefiDepositProof env p offchainTxData
     else Inl (Thrown ''Unknown proof id.''))"

definition validateTx :: "receiverEnv \<Rightarrow> receivedTx \<Rightarrow> txType \<Rightarrow> int \<Rightarrow> int option \<Rightarrow> txDao res" where
  "validateTx env tx txType currentTime previousTxTime =
    (let p = tx_proof tx in
     bindE (validateAsset env p) (\<lambda>_.
     bindE (ProofData_txId (re_keccak env) p) (\<lambda>(proofTxId, _).
     bindE (if pd_proofId p = DEPOSIT then validateDepositProofApproval env p proofTxId (tx_depositSignature tx)
            else Inr (tx_depositSignature tx)) (\<lambda>depositSignature.
     bindE (validateProof env p (tx_offchainTxData tx)) (\<lambda>_.
     bindE (re_dataRootsIndex env (pd_noteTreeRoot p)) (\<lambda>dataRootsIndex. Inr
       \<lparr>td_id = proofTxId, td_proofData = pd_rawProofData p, td_offchainTxData = tx_offchainTxData tx,
        td_signature = (if pd_proofId p = DEPOSIT then depositSignature else None),
        td_nullifier1 = storedNullifier (pd_nullifier1 p), td_nullifier2 = storedNullifier (pd_nullifier2 p),
        td_dataRootsIndex = Some dataRootsIndex, td_txType = txType, td_created = getNextTxTime currentTime previousTxTime,
        td_mined = None, td_excessGas = 0, td_position = None, td_secondClass = False\<rparr>))))))"

section \<open>Receiving a request\<close>

definition lastCreated :: "txDao list \<Rightarrow> int option" where
  "lastCreated txDaos = (if txDaos = [] then None else Some (td_created (last txDaos)))"

definition validateTxs :: "receiverEnv \<Rightarrow> receivedTx list \<Rightarrow> txType list \<Rightarrow> bool \<Rightarrow> txDao list res" where
  "validateTxs env txs txTypes secondClass = foldE (\<lambda>txDaos (tx, txType).
     mapR (\<lambda>txDao. txDaos @ [txDao\<lparr>td_secondClass := secondClass\<rparr>])
       (validateTx env tx txType (re_now env (length txDaos)) (lastCreated txDaos))) [] (zip txs txTypes)"

definition validateRequest :: "receiverEnv \<Rightarrow> receivedTx list \<Rightarrow> txType list \<Rightarrow> bool \<Rightarrow> txDao list res" where
  "validateRequest env txs txTypes secondClass =
     bindE (validateChain env txs) (\<lambda>_.
     bindE (validateNullifiers env txs) (\<lambda>_.
     bindE (validateRequiredDeposit env txs) (\<lambda>_. validateTxs env txs txTypes secondClass)))"

text \<open>The excess gas is a JavaScript number until the transactions are stored, so it is kept beside them.\<close>

definition acceptTxs :: "receiverEnv \<Rightarrow> receivedTx list \<Rightarrow> bool \<Rightarrow> bool \<Rightarrow> (txType list \<times> txDao list \<times> jsnum list) res" where
  "acceptTxs env txs secondClass exitOnly =
     bindE (receivedTypes env exitOnly txs) (\<lambda>(txTypes, shouldReject).
     if shouldReject
     then Inl (Thrown ''This application has been sunset, only DeFi exits and Withdraw transactions are allowed.'')
     else if secondClass
     then mapR (\<lambda>txDaos. (txTypes, txDaos, replicate (length txDaos) (js_int 0))) (validateRequest env txs txTypes secondClass)
     else bindE (validateReceivedTxs (re_now env 0) (re_feeResolver env) txs txTypes exitOnly) (\<lambda>validation.
       if js_less (gv_gasProvided validation) (gv_gasRequired validation) then Inl (Thrown ''Insufficient fee.'')
       else bindE (validateRequest env txs txTypes secondClass) (\<lambda>txDaos.
         mapR (\<lambda>excess. (txTypes, txDaos, excess)) (reallocateGas (re_now env 0) (re_feeResolver env)
           (replicate (length txDaos) (js_int 0)) txs txTypes validation))))"

text \<open>The database takes the transactions only if their excess gas fits its column.\<close>

definition addTxsToDb :: "receiverEnv \<Rightarrow> txDao list \<Rightarrow> jsnum list \<Rightarrow> txDao list res" where
  "addTxsToDb env txDaos excess = bindE (withExcess txDaos excess) (\<lambda>txDaos. mapR (\<lambda>_. txDaos) (re_addTxs env txDaos))"

definition receiveTxs ::
    "receiverEnv \<Rightarrow> receivedTx list \<Rightarrow> string \<Rightarrow> bool \<Rightarrow> bool \<Rightarrow> receiverState \<Rightarrow> buffer list res \<times> receiverState" where
  "receiveTxs env txs clientIp secondClass exitOnly s =
    (case acceptTxs env txs secondClass exitOnly of Inl e \<Rightarrow> (Inl e, s)
     | Inr (txTypes, txDaos, excess) \<Rightarrow>
        let numDeposits = int (length (filter (\<lambda>t. t = TX_DEPOSIT) txTypes));
            (granted, limiter) = (if \<not> secondClass \<and> numDeposits \<noteq> 0
               then rl_add (re_now env (length txs)) clientIp numDeposits (rs_rateLimiter s) else (True, rs_rateLimiter s))
        in if \<not> granted
           then (Inl (Thrown ''Exceeded deposit limit''),
                 s\<lparr>rs_rateLimiter := snd (getCurrentValue (re_now env (length txs)) clientIp limiter)\<rparr>)
           else let s = s\<lparr>rs_rateLimiter := limiter\<rparr> in
             (case addTxsToDb env txDaos excess of Inl e \<Rightarrow> (Inl e, s)
              | Inr stored \<Rightarrow> (Inr (map td_id txDaos), s\<lparr>rs_added := rs_added s @ stored\<rparr>)))"

section \<open>What an accepted request has passed\<close>

lemma withoutExcess_fields:
  "withoutExcess a = withoutExcess b \<Longrightarrow> td_proofData a = td_proofData b \<and> td_txType a = td_txType b
     \<and> td_created a = td_created b \<and> td_nullifier1 a = td_nullifier1 b \<and> td_nullifier2 a = td_nullifier2 b
     \<and> td_id a = td_id b \<and> td_signature a = td_signature b \<and> td_mined a = td_mined b"
  unfolding withoutExcess_def by (drule arg_cong [of _ _ "\<lambda>d. (td_proofData d, td_txType d, td_created d, td_nullifier1 d,
    td_nullifier2 d, td_id d, td_signature d, td_mined d)"]) simp

lemma withoutExcess_ids: "map withoutExcess ds = map withoutExcess ds' \<Longrightarrow> map td_id ds = map td_id ds'"
proof (induction ds arbitrary: ds')
  case (Cons d ds)
  then obtain d' ds1 where d: "ds' = d' # ds1" "withoutExcess d = withoutExcess d'" "map withoutExcess ds = map withoutExcess ds1"
    by (cases ds') simp_all
  then show ?case using Cons.IH [OF d(3)] withoutExcess_fields [OF d(2)] by simp
qed simp

lemma receiveTxs_ok:
  assumes "receiveTxs env txs ip sc eo s = (Inr ids, s')"
  obtains txTypes ds0 excess txDaos where "acceptTxs env txs sc eo = Inr (txTypes, ds0, excess)" "ids = map td_id ds0"
    "rs_added s' = rs_added s @ txDaos" "withExcess ds0 excess = Inr txDaos" "re_addTxs env txDaos = Inr ()"
  using assms by (auto simp: receiveTxs_def addTxsToDb_def bindE_eq_Inr mapR_eq_Inr Let_def split: sum.splits if_splits prod.splits)

lemma receivedTypes_length: "receivedTypes env eo txs = Inr (txTypes, rej) \<Longrightarrow> length txTypes = length txs"
  unfolding receivedTypes_def
proof (induction txs arbitrary: txTypes rej rule: rev_induct)
  case (snoc tx txs)
  then show ?case by (fastforce simp: foldE_append res_simps)
qed simp

lemma receivedTypes_type:
  "receivedTypes env eo txs = Inr (txTypes, rej) \<Longrightarrow> i < length txs \<Longrightarrow>
     getTxTypeFromProofData (re_isContract env) (re_isEmpty env) (tx_proof (txs ! i)) = Inr (txTypes ! i)"
  unfolding receivedTypes_def
proof (induction txs arbitrary: txTypes rej rule: rev_induct)
  case (snoc tx txs)
  then obtain ts r t where 1: "receivedTypes env eo txs = Inr (ts, r)" "txTypes = ts @ [t]"
    "getTxTypeFromProofData (re_isContract env) (re_isEmpty env) (tx_proof tx) = Inr t"
    by (auto simp: foldE_append res_simps receivedTypes_def)
  then show ?case using snoc.IH [OF 1(1) [unfolded receivedTypes_def]] snoc.prems(2) receivedTypes_length [OF 1(1)]
    by (cases "i < length txs") (auto simp: nth_append less_Suc_eq)
qed simp

lemma acceptTxs_ok:
  assumes "acceptTxs env txs sc eo = Inr (txTypes, ds, excess)"
  shows "validateRequest env txs txTypes sc = Inr ds \<and> length txTypes = length txs \<and> length excess = length ds
    \<and> (\<exists>rej. receivedTypes env eo txs = Inr (txTypes, rej))
    \<and> (\<not> sc \<longrightarrow> (\<exists>v. validateReceivedTxs (re_now env 0) (re_feeResolver env) txs txTypes eo = Inr v
       \<and> \<not> js_less (gv_gasProvided v) (gv_gasRequired v)
       \<and> reallocateGas (re_now env 0) (re_feeResolver env) (replicate (length ds) (js_int 0)) txs txTypes v = Inr excess))"
proof -
  obtain ts rej where t: "receivedTypes env eo txs = Inr (ts, rej)" using assms by (auto simp: acceptTxs_def bindE_eq_Inr)
  note eq = assms [unfolded acceptTxs_def t bindE_Inr case_prod_conv]
  have nr: "\<not> rej" and ts: "ts = txTypes" using eq by (auto simp: res_simps split: if_splits)
  note l = receivedTypes_length [OF t, unfolded ts]
  show ?thesis
  proof (cases sc)
    case True
    with eq nr ts l t show ?thesis by (auto simp: mapR_eq_Inr)
  next
    case False
    then obtain v where v: "validateReceivedTxs (re_now env 0) (re_feeResolver env) txs txTypes eo = Inr v"
      "\<not> js_less (gv_gasProvided v) (gv_gasRequired v)" "validateRequest env txs txTypes sc = Inr ds"
      "reallocateGas (re_now env 0) (re_feeResolver env) (replicate (length ds) (js_int 0)) txs txTypes v = Inr excess"
      using eq nr ts by (auto simp: res_simps split: if_splits)
    with l t ts reallocateGas_length [OF v(4)] show ?thesis by auto
  qed
qed

lemma validateRequest_ok:
  assumes "validateRequest env txs txTypes sc = Inr ds"
  shows "validateChain env txs = Inr ()" "validateNullifiers env txs = Inr ()" "validateRequiredDeposit env txs = Inr ()"
    "validateTxs env txs txTypes sc = Inr ds"
  using assms by (auto simp: validateRequest_def bindE_eq_Inr)

lemma validateTxs_ok:
  assumes "validateTxs env txs txTypes sc = Inr ds" "length txTypes = length txs"
  shows "length ds = length txs \<and> (\<forall>i<length txs. \<exists>d. ds ! i = d\<lparr>td_secondClass := sc\<rparr>
    \<and> validateTx env (txs ! i) (txTypes ! i) (re_now env i) (lastCreated (take i ds)) = Inr d)"
proof -
  have "length ds = length ps \<and> (\<forall>i<length ps. \<exists>d. ds ! i = d\<lparr>td_secondClass := sc\<rparr>
    \<and> validateTx env (fst (ps ! i)) (snd (ps ! i)) (re_now env i) (lastCreated (take i ds)) = Inr d)"
    if "foldE (\<lambda>txDaos (tx, txType).
     mapR (\<lambda>txDao. txDaos @ [txDao\<lparr>td_secondClass := sc\<rparr>])
       (validateTx env tx txType (re_now env (length txDaos)) (lastCreated txDaos))) [] ps = Inr ds" for ps
    using that
  proof (induction ps arbitrary: ds rule: rev_induct)
    case (snoc p ps)
    obtain tx t where p: "p = (tx, t)" by (cases p)
    with snoc.prems obtain ds0 d where 1: "foldE (\<lambda>txDaos (tx, txType).
     mapR (\<lambda>txDao. txDaos @ [txDao\<lparr>td_secondClass := sc\<rparr>])
       (validateTx env tx txType (re_now env (length txDaos)) (lastCreated txDaos))) [] ps = Inr ds0"
      "validateTx env tx t (re_now env (length ds0)) (lastCreated ds0) = Inr d" "ds = ds0 @ [d\<lparr>td_secondClass := sc\<rparr>]"
      by (auto simp: foldE_append res_simps)
    from snoc.IH [OF 1(1)] 1(2,3) p show ?case by (auto simp: nth_append less_Suc_eq)
  qed simp
  from this [OF assms(1) [unfolded validateTxs_def]] assms(2) show ?thesis by simp
qed

lemma validateTx_ok:
  assumes "validateTx env tx t now prev = Inr d"
  shows "td_proofData d = pd_rawProofData (tx_proof tx)" "td_txType d = t" "td_created d = getNextTxTime now prev"
    "td_nullifier1 d = storedNullifier (pd_nullifier1 (tx_proof tx))"
    "td_nullifier2 d = storedNullifier (pd_nullifier2 (tx_proof tx))" "td_excessGas d = 0" "td_mined d = None"
    "validateAsset env (tx_proof tx) = Inr ()" "validateProof env (tx_proof tx) (tx_offchainTxData tx) = Inr ()"
    "td_offchainTxData d = tx_offchainTxData tx"
  using assms by (auto simp: validateTx_def Let_def bindE_eq_Inr)

section \<open>Deposits\<close>

lemma EthAddress_equals_iff [simp]: "EthAddress_equals a b \<longleftrightarrow> a = b"
  by (cases a; cases b) (auto simp: EthAddress_equals_def EthAddress_toBuffer_def)

definition depositKey :: "requiredDeposit \<Rightarrow> ethAddress \<times> int" where
  "depositKey d = (rd_publicOwner d, rd_publicAssetId d)"

lemma addRequired_keys: "depositKey ` set (addRequired rs d) = insert (depositKey d) (depositKey ` set rs)"
  by (induction rs) (auto simp: depositKey_def)

lemma addRequired_distinct: "distinct (map depositKey rs) \<Longrightarrow> distinct (map depositKey (addRequired rs d))"
proof (induction rs)
  case (Cons r rs)
  have "depositKey r \<notin> set (map depositKey (addRequired rs d))" if "depositKey r \<noteq> depositKey d"
    using Cons.prems that addRequired_keys [of rs d] by auto
  with Cons show ?case by (auto simp: depositKey_def)
qed simp

lemma addRequired_total:
  "depositedBy a i (addRequired rs d) = depositedBy a i rs + (if depositKey d = (a, i) then rd_value d else 0)"
  by (induction rs) (auto simp: depositedBy_def depositKey_def)

lemma required_total: "depositedBy a i (foldl addRequired rs ds) = depositedBy a i rs + depositedBy a i ds"
  by (induction ds arbitrary: rs) (auto simp: addRequired_total, auto simp: depositedBy_def depositKey_def)

lemma required_keys: "depositKey ` set (foldl addRequired rs ds) = depositKey ` set rs \<union> depositKey ` set ds"
  by (induction ds arbitrary: rs) (simp_all add: addRequired_keys)

lemma required_distinct: "distinct (map depositKey rs) \<Longrightarrow> distinct (map depositKey (foldl addRequired rs ds))"
  by (induction ds arbitrary: rs) (simp_all add: addRequired_distinct)

lemma depositedBy_key:
  "distinct (map depositKey rs) \<Longrightarrow> r \<in> set rs \<Longrightarrow> depositedBy (rd_publicOwner r) (rd_publicAssetId r) rs = rd_value r"
proof (induction rs)
  case (Cons q rs)
  have "depositedBy a i rs = 0" if "(a, i) \<notin> depositKey ` set rs" for a i
  proof -
    have "filter (\<lambda>d. EthAddress_equals (rd_publicOwner d) a \<and> rd_publicAssetId d = i) rs = []"
      using that by (auto simp: depositKey_def filter_empty_conv)
    then show ?thesis unfolding depositedBy_def by (simp only: list.map sum_list.Nil)
  qed
  with Cons show ?case by (auto simp: depositedBy_def depositKey_def image_iff)
qed simp

lemma uniqueDepositAddresses_set: "set (uniqueDepositAddresses ds) = rd_publicOwner ` set ds"
proof -
  have "set (foldl (\<lambda>as d. if \<exists>a\<in>set as. EthAddress_equals a (rd_publicOwner d) then as
     else as @ [rd_publicOwner d]) as ds) = set as \<union> rd_publicOwner ` set ds" for as
    by (induction ds arbitrary: as) auto
  then show ?thesis by (simp add: uniqueDepositAddresses_def)
qed

text \<open>The sum of the public values of the proofs that deposit for an owner in an asset.\<close>

definition depositTotal :: "ethAddress \<Rightarrow> int \<Rightarrow> proofData list \<Rightarrow> int" where
  "depositTotal a i ps = sum_list (map JoinSplit_publicValue
     (filter (\<lambda>p. JoinSplit_publicOwner p = Inr a \<and> JoinSplit_publicAssetId p = Inr i) ps))"

lemma depositedBy_total: "mapE depositOf ps = Inr ds \<Longrightarrow> depositedBy a i ds = depositTotal a i ps"
proof (induction ps arbitrary: ds)
  case (Cons p ps)
  then obtain d ds' where 1: "depositOf p = Inr d" "mapE depositOf ps = Inr ds'" "ds = d # ds'" by (auto simp: res_simps)
  then show ?case using Cons.IH [OF 1(2)] by (auto simp: depositedBy_def depositTotal_def depositOf_def res_simps)
qed (simp add: depositedBy_def depositTotal_def)

definition depositProofs :: "receivedTx list \<Rightarrow> proofData list" where
  "depositProofs txs = filter (\<lambda>p. pd_proofId p = DEPOSIT) (map tx_proof txs)"

definition unsettledProofs :: "txDao list \<Rightarrow> proofData list" where
  "unsettledProofs ds = concat (map (\<lambda>d. case proofOf d of Inl _ \<Rightarrow> [] | Inr p \<Rightarrow> [p]) ds)"

lemma unsettledProofs_ok: "mapE (\<lambda>tx. newProofData (td_proofData tx) None) ds = Inr ps \<Longrightarrow> unsettledProofs ds = ps"
  by (induction ds arbitrary: ps) (auto simp: unsettledProofs_def proofOf_def res_simps)

lemma unsettledProofs_bind:
  "mapE (\<lambda>tx. bindE (newProofData (td_proofData tx) None) f) ds = Inr xs \<Longrightarrow> mapE f (unsettledProofs ds) = Inr xs"
  by (induction ds arbitrary: xs) (auto simp: unsettledProofs_def proofOf_def res_simps)

lemma foldE_unit: "foldE (\<lambda>_. f) () xs = Inr () \<Longrightarrow> x \<in> set xs \<Longrightarrow> f x = Inr ()"
  by (induction xs) (auto simp: bindE_eq_Inr)

lemma required_deposits:
  assumes "validateRequiredDeposit env txs = Inr ()" "p \<in> set (depositProofs txs)"
  obtains a i where "JoinSplit_publicOwner p = Inr a" "JoinSplit_publicAssetId p = Inr i" "\<not> re_addressProhibited env a"
    "depositTotal a i (depositProofs txs) + depositTotal a i (unsettledProofs (re_unsettledDepositTxs env))
       \<le> re_pendingDeposit env i a"
proof -
  have ne: "depositProofs txs \<noteq> []" using assms(2) by auto
  obtain ds us where d: "mapE depositOf (depositProofs txs) = Inr ds"
    "\<forall>a\<in>set (uniqueDepositAddresses ds). \<not> re_addressProhibited env a"
    "mapE (\<lambda>tx. bindE (newProofData (td_proofData tx) None) depositOf) (re_unsettledDepositTxs env) = Inr us"
    "foldE (\<lambda>_ r. let total = rd_value r + depositedBy (rd_publicOwner r) (rd_publicAssetId r) us
         in guardE (\<not> re_pendingDeposit env (rd_publicAssetId r) (rd_publicOwner r) < total)
              ''User insufficient pending deposit balance.'') () (foldl addRequired [] ds) = Inr ()"
    using assms(1) ne unfolding validateRequiredDeposit_def Let_def depositProofs_def [symmetric] if_not_P [OF ne]
    by (auto simp: bindE_eq_Inr)
  from assms(2) obtain k where k: "k < length (depositProofs txs)" "p = depositProofs txs ! k" by (auto simp: in_set_conv_nth)
  from mapE_Inr_nth [OF d(1) k(1)] have e: "depositOf p = Inr (ds ! k)" by (simp add: k(2))
  then have own: "JoinSplit_publicOwner p = Inr (rd_publicOwner (ds ! k))" "JoinSplit_publicAssetId p = Inr (rd_publicAssetId (ds ! k))"
    by (auto simp: depositOf_def res_simps)
  have mem: "ds ! k \<in> set ds" using k(1) mapE_Inr_length [OF d(1)] by simp
  then have "depositKey (ds ! k) \<in> depositKey ` set (foldl addRequired [] ds)" by (simp add: required_keys)
  then obtain r where r: "r \<in> set (foldl addRequired [] ds)" "rd_publicOwner r = rd_publicOwner (ds ! k)"
    "rd_publicAssetId r = rd_publicAssetId (ds ! k)" by (auto simp: depositKey_def)
  have "rd_value r = depositedBy (rd_publicOwner r) (rd_publicAssetId r) ds"
    using depositedBy_key [OF required_distinct r(1)] required_total [of _ _ "[]" ds] by (simp add: depositedBy_def)
  then have "rd_value r = depositTotal (rd_publicOwner r) (rd_publicAssetId r) (depositProofs txs)"
    using depositedBy_total [OF d(1)] by simp
  moreover have "depositedBy (rd_publicOwner r) (rd_publicAssetId r) us
    = depositTotal (rd_publicOwner r) (rd_publicAssetId r) (unsettledProofs (re_unsettledDepositTxs env))"
    by (rule depositedBy_total [OF unsettledProofs_bind [OF d(3)]])
  moreover have "\<not> re_addressProhibited env (rd_publicOwner r)"
    using d(2) mem by (auto simp: uniqueDepositAddresses_set r(2))
  ultimately show thesis using foldE_unit [OF d(4) r(1)] own r(2,3) by (intro that) (auto simp: Let_def)
qed

section \<open>Nullifiers, times and approvals\<close>

definition nullifiersOf :: "txDao \<Rightarrow> buffer list" where
  "nullifiersOf d = concat (map (\<lambda>n. case n of None \<Rightarrow> [] | Some b \<Rightarrow> [b]) [td_nullifier1 d, td_nullifier2 d])"

lemma toBigIntBE_zeros: "toBigIntBE (zeros n) = 0"
  by (simp add: toBigIntBE_be_value)

lemma nullifiersOf_stored:
  "td_nullifier1 d = storedNullifier n \<Longrightarrow> td_nullifier2 d = storedNullifier m
     \<Longrightarrow> nullifiersOf d = filter (\<lambda>b. toBigIntBE b \<noteq> 0) (filter (\<lambda>b. b \<noteq> zeros 32) [n, m])"
  by (auto simp: nullifiersOf_def storedNullifier_def toBigIntBE_zeros)

lemma concat_map_nullifiers:
  assumes "length ds = length txs"
    and "\<forall>i<length txs. nullifiersOf (ds ! i) = filter P (filter Q [pd_nullifier1 (tx_proof (txs ! i)), pd_nullifier2 (tx_proof (txs ! i))])"
  shows "concat (map nullifiersOf ds) = filter P (filter Q (concat (map (\<lambda>tx. [pd_nullifier1 (tx_proof tx), pd_nullifier2 (tx_proof tx)]) txs)))"
proof -
  have "map nullifiersOf ds = map (\<lambda>tx. filter P (filter Q [pd_nullifier1 (tx_proof tx), pd_nullifier2 (tx_proof tx)])) txs"
    by (rule nth_equalityI) (use assms in auto)
  then show ?thesis by (simp add: filter_concat comp_def)
qed

lemma remdups_length: "length (remdups xs) = length xs \<longleftrightarrow> distinct xs"
  by (metis length_remdups_eq distinct_remdups remdups_id_iff_distinct length_remdups_card_conv card_distinct)

lemma stored_nullifiers:
  assumes "validateNullifiers env txs = Inr ()" "validateTxs env txs txTypes sc = Inr ds" "length txTypes = length txs"
  shows "distinct (map toBigIntBE (concat (map nullifiersOf ds)))"
    "\<exists>ns. set (concat (map nullifiersOf ds)) \<subseteq> set ns \<and> \<not> re_nullifiersExist env ns"
proof -
  note t = validateTxs_ok [OF assms(2,3)]
  have "nullifiersOf (ds ! i) = filter (\<lambda>b. toBigIntBE b \<noteq> 0)
      (filter (\<lambda>b. b \<noteq> zeros 32) [pd_nullifier1 (tx_proof (txs ! i)), pd_nullifier2 (tx_proof (txs ! i))])"
    if "i < length txs" for i
  proof -
    from t that obtain d where d: "ds ! i = d\<lparr>td_secondClass := sc\<rparr>"
      "validateTx env (txs ! i) (txTypes ! i) (re_now env i) (lastCreated (take i ds)) = Inr d" by blast
    then show ?thesis by (intro nullifiersOf_stored) (simp_all add: validateTx_ok(4,5) [OF d(2)])
  qed
  then have e: "concat (map nullifiersOf ds) = filter (\<lambda>b. toBigIntBE b \<noteq> 0) (receivedNullifiers txs)"
    unfolding receivedNullifiers_def using t by (intro concat_map_nullifiers) blast+
  have v: "distinct (map toBigIntBE (receivedNullifiers txs))" "\<not> re_nullifiersExist env (receivedNullifiers txs)"
    using assms(1) by (auto simp: validateNullifiers_def Let_def remdups_length [of "map toBigIntBE (receivedNullifiers txs)", simplified]
        split: if_splits)
  show "distinct (map toBigIntBE (concat (map nullifiersOf ds)))" unfolding e using v(1) by (rule distinct_map_filter)
  show "\<exists>ns. set (concat (map nullifiersOf ds)) \<subseteq> set ns \<and> \<not> re_nullifiersExist env ns" using v(2) unfolding e by auto
qed

lemma created_increasing:
  assumes "validateTxs env txs txTypes sc = Inr ds" "length txTypes = length txs"
  shows "sorted_wrt (<) (map td_created ds)"
proof -
  note t = validateTxs_ok [OF assms]
  have "td_created (ds ! i) < td_created (ds ! Suc i)" if "Suc i < length ds" for i
  proof -
    from t that obtain d where d: "ds ! Suc i = d\<lparr>td_secondClass := sc\<rparr>"
      "validateTx env (txs ! Suc i) (txTypes ! Suc i) (re_now env (Suc i)) (lastCreated (take (Suc i) ds)) = Inr d" by auto
    have "lastCreated (take (Suc i) ds) = Some (td_created (ds ! i))"
      using that by (simp add: lastCreated_def take_Suc_conv_app_nth)
    then show ?thesis using validateTx_ok(3) [OF d(2)] d(1) by (simp add: getNextTxTime_def)
  qed
  then have "sorted_wrt (<) (map td_created ds)"
    by (intro sorted_wrt_iff_nth_Suc_transp [THEN iffD2]) (auto intro: transpI)
  then show ?thesis .
qed

lemma deposit_approved:
  assumes "validateTx env tx t now prev = Inr d" "pd_proofId (tx_proof tx) = DEPOSIT" "JoinSplit_publicOwner (tx_proof tx) = Inr a"
  shows "re_proofApproval env a (td_id d)
    \<or> (\<exists>sig. td_signature d = Some sig \<and> re_validateSignature env a sig (toDepositSigningData (TxId (td_id d))) = Inr True)"
  using assms by (auto simp: validateTx_def Let_def bindE_eq_Inr validateDepositProofApproval_def newTxId_eq TxId_toBuffer_def
      split: if_splits option.splits)

section \<open>Chains\<close>

definition commitmentsOf :: "txDao \<Rightarrow> buffer set" where
  "commitmentsOf d = (case proofOf d of Inl _ \<Rightarrow> {} | Inr p \<Rightarrow> {pd_noteCommitment1 p, pd_noteCommitment2 p} - {zeros 32})"

definition allowsChain :: "txDao \<Rightarrow> bool" where
  "allowsChain d = (case proofOf d of Inl _ \<Rightarrow> False
     | Inr p \<Rightarrow> ProofData_allowChainFromNote1 p = Inr True \<or> ProofData_allowChainFromNote2 p = Inr True)"

lemma chainsFrom_iff:
  "chainsFrom x t \<longleftrightarrow> (\<exists>p. proofOf x = Inr p \<and> pd_backwardLink p \<noteq> zeros 32 \<and> pd_backwardLink p \<in> commitmentsOf t)"
  by (auto simp: chainsFrom_def commitmentsOf_def split: sum.splits)

definition uniqueCommitments :: "txDao list \<Rightarrow> bool" where
  "uniqueCommitments ds \<longleftrightarrow> (\<forall>i<length ds. \<forall>j<length ds. commitmentsOf (ds ! i) \<inter> commitmentsOf (ds ! j) \<noteq> {} \<longrightarrow> i = j)"

lemma uniqueCommitments_index:
  "uniqueCommitments ds \<Longrightarrow> i < length ds \<Longrightarrow> j < length ds \<Longrightarrow> c \<in> commitmentsOf (ds ! i) \<Longrightarrow> c \<in> commitmentsOf (ds ! j) \<Longrightarrow> i = j"
  unfolding uniqueCommitments_def by blast

text \<open>The note a transaction chains from, and the transactions that allow it to be chained from: those that create it with
  the flag of that note set.\<close>

definition linkOf :: "txDao \<Rightarrow> buffer option" where
  "linkOf d = (case proofOf d of Inl _ \<Rightarrow> None | Inr p \<Rightarrow> if pd_backwardLink p = zeros 32 then None else Some (pd_backwardLink p))"

definition allowsLink :: "txDao \<Rightarrow> buffer \<Rightarrow> bool" where
  "allowsLink d link = (case proofOf d of Inl _ \<Rightarrow> False
     | Inr p \<Rightarrow> ProofData_allowChainFromNote1 p = Inr True \<and> pd_noteCommitment1 p = link
         \<or> ProofData_allowChainFromNote2 p = Inr True \<and> pd_noteCommitment2 p = link)"

definition isPayment :: "txDao \<Rightarrow> bool" where
  "isPayment d = (td_txType d \<in> {TX_DEPOSIT, TX_TRANSFER, TX_WITHDRAW_TO_WALLET, TX_WITHDRAW_HIGH_GAS})"

text \<open>The pool \<open>ds\<close> of unsettled transactions, behind the transactions \<open>settled\<close> that left it into blocks: no note is created twice;
  only payments allow to be chained from; account transactions and claims do not chain; and whatever chains does so from a note that
  an earlier payment allows, settled or not, and from which no earlier transaction of the pool chains.\<close>

definition poolOK :: "txDao list \<Rightarrow> txDao list \<Rightarrow> bool" where
  "poolOK settled ds \<longleftrightarrow> uniqueCommitments (settled @ ds)
     \<and> (\<forall>d\<in>set ds. allowsChain d \<longrightarrow> isPayment d) \<and> (\<forall>d\<in>set ds. td_txType d \<in> {TX_ACCOUNT, TX_DEFI_CLAIM} \<longrightarrow> linkOf d = None)
     \<and> (\<forall>j<length ds. \<forall>link. linkOf (ds ! j) = Some link \<longrightarrow>
          (\<exists>c\<in>set (settled @ take j ds). isPayment c \<and> allowsLink c link) \<and> (\<forall>c\<in>set (take j ds). linkOf c \<noteq> Some link))"

lemma poolOK_empty: "poolOK [] []"
  by (simp add: poolOK_def uniqueCommitments_def)

lemma chainsFrom_link: "chainsFrom x t \<longleftrightarrow> (\<exists>link. linkOf x = Some link \<and> link \<in> commitmentsOf t)"
  by (auto simp: chainsFrom_iff linkOf_def split: sum.splits)

lemma linkOf_nonzero: "linkOf x = Some link \<Longrightarrow> link \<noteq> zeros 32"
  by (auto simp: linkOf_def split: sum.splits if_splits)

lemma allowsLink_created: "allowsLink c link \<Longrightarrow> link \<noteq> zeros 32 \<Longrightarrow> link \<in> commitmentsOf c"
  by (auto simp: allowsLink_def commitmentsOf_def split: sum.splits)

lemma allowsLink_chain: "allowsLink c link \<Longrightarrow> allowsChain c"
  by (auto simp: allowsLink_def allowsChain_def split: sum.splits)

text \<open>The selection of transactions for a rollup starts from chains in order.\<close>

lemma poolOK_chains:
  assumes "poolOK settled ds"
  shows "chainsInOrder ds"
  unfolding chainsInOrder_def
proof (intro allI impI ballI)
  fix j t assume j: "j < length ds" and t: "t \<in> set ds" "chainsFrom (ds ! j) t"
  from t(2) obtain link where l: "linkOf (ds ! j) = Some link" "link \<in> commitmentsOf t" by (auto simp: chainsFrom_link)
  with assms j obtain c where c: "c \<in> set (settled @ take j ds)" "isPayment c" "allowsLink c link"
    unfolding poolOK_def by blast
  from c(1) obtain m where "m < length (settled @ take j ds)" "c = (settled @ take j ds) ! m" unfolding in_set_conv_nth by blast
  then have m: "m < length settled + j" "c = (settled @ ds) ! m" using j by (auto simp: nth_append)
  from t(1) obtain i where i: "i < length ds" "t = ds ! i" by (auto simp: in_set_conv_nth)
  have "link \<in> commitmentsOf c" using allowsLink_created c(3) linkOf_nonzero [OF l(1)] by blast
  with l(2) have "m = length settled + i"
    using i m j assms [unfolded poolOK_def, THEN conjunct1] by (intro uniqueCommitments_index [of "settled @ ds"]) simp_all
  then have "i < j" "t = c" using m i(2) by simp_all
  moreover have "t \<in> set (take j ds)" using \<open>i < j\<close> i j by (auto simp: in_set_conv_nth)
  moreover have "td_txType (ds ! j) \<notin> {TX_ACCOUNT, TX_DEFI_CLAIM}" using assms j l(1) unfolding poolOK_def by auto
  ultimately show "t \<in> set (take j ds) \<and> td_txType t \<notin> {TX_ACCOUNT, TX_DEFI_DEPOSIT} \<and> td_txType (ds ! j) \<notin> {TX_ACCOUNT, TX_DEFI_CLAIM}"
    using c(2) by (auto simp: isPayment_def)
qed

text \<open>The pool stays in this state when transactions leave it into a block.\<close>

lemma uniqueCommitments_Cons:
  "uniqueCommitments (d # ds) \<longleftrightarrow> uniqueCommitments ds \<and> (\<forall>x\<in>set ds. commitmentsOf d \<inter> commitmentsOf x = {})"
  unfolding uniqueCommitments_def
  by (simp add: All_less_Suc2 all_set_conv_all_nth) blast

lemma uniqueCommitments_count: "uniqueCommitments ds \<longleftrightarrow> (\<forall>c. length (filter (\<lambda>d. c \<in> commitmentsOf d) ds) \<le> 1)"
proof (induction ds)
  case (Cons d ds)
  have "(\<forall>x\<in>set ds. commitmentsOf d \<inter> commitmentsOf x = {})
      \<longleftrightarrow> (\<forall>c\<in>commitmentsOf d. length (filter (\<lambda>x. c \<in> commitmentsOf x) ds) = 0)"
    by (auto simp: filter_empty_conv)
  then have "uniqueCommitments (d # ds) \<longleftrightarrow> (\<forall>c. length (filter (\<lambda>x. c \<in> commitmentsOf x) ds) \<le> 1
      \<and> (c \<in> commitmentsOf d \<longrightarrow> length (filter (\<lambda>x. c \<in> commitmentsOf x) ds) = 0))"
    unfolding uniqueCommitments_Cons Cons by blast
  also have "\<dots> \<longleftrightarrow> (\<forall>c. length (filter (\<lambda>x. c \<in> commitmentsOf x) (d # ds)) \<le> 1)"
    by (intro arg_cong [of _ _ All] ext) auto
  finally show ?case .
qed (simp add: uniqueCommitments_def)

lemma nth_filter_prefix:
  "j < length (filter P xs) \<Longrightarrow> \<exists>i<length xs. filter P xs ! j = xs ! i \<and> take j (filter P xs) = filter P (take i xs)"
proof (induction xs arbitrary: j rule: rev_induct)
  case (snoc x xs)
  show ?case
  proof (cases "j < length (filter P xs)")
    case True
    from snoc.IH [OF this] obtain i where "i < length xs" "filter P xs ! j = xs ! i" "take j (filter P xs) = filter P (take i xs)"
      by blast
    with True show ?thesis by (intro exI [of _ i]) (simp add: nth_append)
  next
    case False
    with snoc.prems have "P x" "j = length (filter P xs)" by (auto split: if_splits)
    then show ?thesis by (intro exI [of _ "length xs"]) (simp add: nth_append)
  qed
qed simp

lemma poolOK_settled:
  assumes "poolOK settled ds"
  shows "poolOK (settled @ filter m ds) (filter (\<lambda>d. \<not> m d) ds)"
  unfolding poolOK_def
proof (intro conjI allI impI)
  have "length (filter P (filter m ds)) + length (filter P (filter (\<lambda>d. \<not> m d) ds)) = length (filter P ds)" for P
    by (induction ds) simp_all
  then show "uniqueCommitments ((settled @ filter m ds) @ filter (\<lambda>d. \<not> m d) ds)"
    using assms unfolding poolOK_def uniqueCommitments_count by simp
  show "\<forall>d\<in>set (filter (\<lambda>d. \<not> m d) ds). allowsChain d \<longrightarrow> isPayment d"
    "\<forall>d\<in>set (filter (\<lambda>d. \<not> m d) ds). td_txType d \<in> {TX_ACCOUNT, TX_DEFI_CLAIM} \<longrightarrow> linkOf d = None"
    using assms unfolding poolOK_def by auto
next
  fix j link assume j: "j < length (filter (\<lambda>d. \<not> m d) ds)" "linkOf (filter (\<lambda>d. \<not> m d) ds ! j) = Some link"
  from nth_filter_prefix [OF j(1)] j(2) obtain i where i: "i < length ds" "linkOf (ds ! i) = Some link"
    "take j (filter (\<lambda>d. \<not> m d) ds) = filter (\<lambda>d. \<not> m d) (take i ds)" by auto
  with assms have "(\<exists>c\<in>set (settled @ take i ds). isPayment c \<and> allowsLink c link) \<and> (\<forall>c\<in>set (take i ds). linkOf c \<noteq> Some link)"
    unfolding poolOK_def by blast
  then show "\<exists>c\<in>set ((settled @ filter m ds) @ take j (filter (\<lambda>d. \<not> m d) ds)). isPayment c \<and> allowsLink c link"
    "\<forall>c\<in>set (take j (filter (\<lambda>d. \<not> m d) ds)). linkOf c \<noteq> Some link"
    using i(1) set_take_subset [of i ds] unfolding i(3) by auto
qed

lemma someE_True: "someE f xs = Inr True \<longleftrightarrow> (\<exists>ys x zs. xs = ys @ x # zs \<and> f x = Inr True \<and> (\<forall>y\<in>set ys. f y = Inr False))"
proof (induction xs)
  case (Cons x xs)
  show ?case
  proof
    assume s: "someE f (x # xs) = Inr True"
    then consider "f x = Inr True" | "f x = Inr False" "someE f xs = Inr True" by (auto simp: bindE_eq_Inr split: if_splits)
    then show "\<exists>ys y zs. x # xs = ys @ y # zs \<and> f y = Inr True \<and> (\<forall>z\<in>set ys. f z = Inr False)"
    proof cases
      case 1
      then show ?thesis by (intro exI [of _ "[]"]) simp
    next
      case 2
      then obtain ys y zs where "xs = ys @ y # zs" "f y = Inr True" "\<forall>z\<in>set ys. f z = Inr False" using Cons.IH by blast
      then show ?thesis using 2 by (intro exI [of _ "x # ys"]) simp
    qed
  next
    assume "\<exists>ys y zs. x # xs = ys @ y # zs \<and> f y = Inr True \<and> (\<forall>z\<in>set ys. f z = Inr False)"
    then obtain ys y zs where y: "x # xs = ys @ y # zs" "f y = Inr True" "\<forall>z\<in>set ys. f z = Inr False" by blast
    then show "someE f (x # xs) = Inr True"
    proof (cases ys)
      case (Cons z ys')
      then show ?thesis using y Cons.IH by auto
    qed (use y in simp)
  qed
qed simp

lemma someE_mem: "someE f xs = Inr True \<Longrightarrow> \<exists>x\<in>set xs. f x = Inr True"
  unfolding someE_True by auto

definition builtProof :: "proofData \<Rightarrow> bool" where
  "builtProof p \<longleftrightarrow> newProofData (pd_rawProofData p) None = Inr (p\<lparr>pd_cachedTxId := None\<rparr>)"

text \<open>What the account circuit promises of the public inputs of a valid proof.\<close>

definition accountsDontChain :: "receiverEnv \<Rightarrow> bool" where
  "accountsDontChain env \<longleftrightarrow> (\<forall>raw p. re_verifyAccount env raw \<longrightarrow> newProofData raw None = Inr p \<longrightarrow>
     pd_backwardLink p = zeros 32 \<and> ProofData_allowChainFromNote1 p = Inr False \<and> ProofData_allowChainFromNote2 p = Inr False)"

lemma linkedBy_True:
  "linkedBy link p = Inr True \<Longrightarrow> ProofData_allowChainFromNote1 p = Inr True \<and> pd_noteCommitment1 p = link
     \<or> ProofData_allowChainFromNote2 p = Inr True \<and> pd_noteCommitment2 p = link"
  by (auto simp: linkedBy_def bindE_eq_Inr split: if_splits)

lemma validateLink_ok:
  "validateLink ps p = Inr () \<Longrightarrow> pd_backwardLink p \<noteq> zeros 32 \<Longrightarrow>
     (\<exists>c\<in>set ps. linkedBy (pd_backwardLink p) c = Inr True) \<and> (\<forall>c\<in>set ps. pd_backwardLink c \<noteq> pd_backwardLink p)"
  by (auto simp: validateLink_def Let_def bindE_eq_Inr dest: someE_mem split: if_splits)

lemma ignores_cache [simp]:
  "ProofData_allowChainFromNote1 (p\<lparr>pd_cachedTxId := c\<rparr>) = ProofData_allowChainFromNote1 p"
  "ProofData_allowChainFromNote2 (p\<lparr>pd_cachedTxId := c\<rparr>) = ProofData_allowChainFromNote2 p"
  by (simp_all add: ProofData_allowChainFromNote1_def ProofData_allowChainFromNote2_def)

text \<open>The proofs a transaction is checked against are those of the stored transactions before it.\<close>

definition proofStored :: "proofData \<Rightarrow> txDao \<Rightarrow> bool" where
  "proofStored p d \<longleftrightarrow> (\<exists>x. proofOf d = Inr (p\<lparr>pd_cachedTxId := x\<rparr>))"

lemma preceding_stored:
  assumes us: "mapE (\<lambda>tx. newProofData (td_proofData tx) None) us0 = Inr us"
    and ds: "\<forall>i<length txs. proofOf (ds ! i) = Inr ((tx_proof (txs ! i))\<lparr>pd_cachedTxId := None\<rparr>)" "length ds = length txs"
  shows "list_all2 proofStored (us @ map tx_proof (take k txs)) (us0 @ take k ds)"
proof (rule list_all2_appendI)
  have "proofOf (us0 ! i) = Inr ((us ! i)\<lparr>pd_cachedTxId := pd_cachedTxId (us ! i)\<rparr>)" if "i < length us0" for i
    using mapE_Inr_nth [OF us that] by (simp add: proofOf_def)
  then show "list_all2 proofStored us us0"
    using mapE_Inr_length [OF us] unfolding list_all2_conv_all_nth proofStored_def by metis
  show "list_all2 proofStored (map tx_proof (take k txs)) (take k ds)"
    using ds unfolding list_all2_conv_all_nth proofStored_def by auto
qed

lemma proofStored_link: "proofStored p d \<Longrightarrow> linkOf d = (if pd_backwardLink p = zeros 32 then None else Some (pd_backwardLink p))"
  by (auto simp: proofStored_def linkOf_def)

lemma linkedBy_stored: "linkedBy link p = Inr True \<Longrightarrow> proofStored p d \<Longrightarrow> allowsLink d link"
  by (drule linkedBy_True) (auto simp: proofStored_def allowsLink_def)

lemma chain_linked:
  assumes "validateChain env txs = Inr ()" "\<forall>i<length txs. proofOf (ds ! i) = Inr ((tx_proof (txs ! i))\<lparr>pd_cachedTxId := None\<rparr>)"
    and "length ds = length txs" "k < length ds" "linkOf (ds ! k) = Some link"
  shows "(\<exists>c\<in>set (re_unsettledTxs env @ take k ds). allowsLink c link)
    \<and> (\<forall>c\<in>set (re_unsettledTxs env @ take k ds). linkOf c \<noteq> Some link)"
proof -
  obtain us where us: "mapE (\<lambda>tx. newProofData (td_proofData tx) None) (re_unsettledTxs env) = Inr us"
    "foldE (\<lambda>_ i. validateLink (us @ map tx_proof (take i txs)) (tx_proof (txs ! i))) () [0..<length txs] = Inr ()"
    using assms(1) by (auto simp: validateChain_def bindE_eq_Inr)
  let ?ps = "us @ map tx_proof (take k txs)" and ?cs = "re_unsettledTxs env @ take k ds"
  note st = preceding_stored [OF us(1) assms(2,3), of k]
  have link: "link = pd_backwardLink (tx_proof (txs ! k))" "link \<noteq> zeros 32"
    using assms(2-5) by (auto simp: linkOf_def split: if_splits)
  have "validateLink ?ps (tx_proof (txs ! k)) = Inr ()" using foldE_unit [OF us(2)] assms(3,4) by auto
  from validateLink_ok [OF this] link have v: "\<exists>q\<in>set ?ps. linkedBy link q = Inr True" "\<forall>q\<in>set ?ps. pd_backwardLink q \<noteq> link"
    by auto
  from v(1) obtain i where i: "i < length ?ps" "linkedBy link (?ps ! i) = Inr True" unfolding in_set_conv_nth Bex_def by blast
  have "allowsLink (?cs ! i) link" "i < length ?cs"
    using linkedBy_stored [OF i(2)] list_all2_nthD [OF st i(1)] list_all2_lengthD [OF st] i(1) by simp_all
  then have "\<exists>c\<in>set ?cs. allowsLink c link" using nth_mem by blast
  moreover have "linkOf c \<noteq> Some link" if "c \<in> set ?cs" for c
  proof -
    from that obtain j where "j < length ?cs" "c = ?cs ! j" unfolding in_set_conv_nth by blast
    then have "j < length ?ps" "proofStored (?ps ! j) c" using list_all2_nthD2 [OF st] list_all2_lengthD [OF st] by simp_all
    then show ?thesis using proofStored_link v(2) nth_mem by (metis option.inject option.distinct(1))
  qed
  ultimately show ?thesis by blast
qed

lemma stored_proof:
  assumes v: "validateRequest env txs txTypes sc = Inr ds0" "length txTypes = length txs" "map withoutExcess ds = map withoutExcess ds0"
    and "\<forall>tx\<in>set txs. builtProof (tx_proof tx)" "i < length txs"
  shows "proofOf (ds ! i) = Inr ((tx_proof (txs ! i))\<lparr>pd_cachedTxId := None\<rparr>) \<and> td_txType (ds ! i) = txTypes ! i
    \<and> validateProof env (tx_proof (txs ! i)) (tx_offchainTxData (txs ! i)) = Inr ()"
proof -
  note t = validateTxs_ok [OF validateRequest_ok(4) [OF v(1)] v(2)]
  from t assms(5) obtain d where d: "ds0 ! i = d\<lparr>td_secondClass := sc\<rparr>"
    "validateTx env (txs ! i) (txTypes ! i) (re_now env i) (lastCreated (take i ds0)) = Inr d" by blast
  have "length ds = length ds0" using v(3) by (metis length_map)
  then have "withoutExcess (ds ! i) = withoutExcess (ds0 ! i)"
    using arg_cong [OF v(3), of "\<lambda>xs. xs ! i"] t assms(5) by simp
  note f = withoutExcess_fields [OF this]
  have "builtProof (tx_proof (txs ! i))" using assms(4,5) by simp
  then show ?thesis using validateTx_ok(1,2,9) [OF d(2)] f by (simp add: proofOf_def builtProof_def d(1))
qed

lemma stored_kind:
  assumes d: "proofOf d = Inr (p\<lparr>pd_cachedTxId := None\<rparr>)" "validateProof env p data = Inr ()"
    and ty: "getTxTypeFromProofData isC isE p = Inr (td_txType d)" and env: "accountsDontChain env" "builtProof p"
  shows "td_txType d \<noteq> TX_DEFI_CLAIM" "allowsChain d \<Longrightarrow> isPayment d" "td_txType d = TX_ACCOUNT \<Longrightarrow> linkOf d = None"
proof -
  have claim: "td_txType d = TX_DEFI_CLAIM \<Longrightarrow> pd_proofId p = 6" and acc: "td_txType d = TX_ACCOUNT \<Longrightarrow> pd_proofId p = 4"
    and defi: "td_txType d = TX_DEFI_DEPOSIT \<Longrightarrow> pd_proofId p = 5"
    using ty by (auto simp: getTxTypeFromProofData_def mapR_eq_Inr split: if_splits)
  have nd: "\<not> allowsChain d" if "pd_proofId p = 5"
    using d that by (auto simp: validateProof_def validateDefiDepositProof_def bindE_eq_Inr allowsChain_def split: if_splits)
  have a: "pd_backwardLink p = zeros 32 \<and> \<not> allowsChain d" if "pd_proofId p = 4"
  proof -
    have v: "re_verifyAccount env (pd_rawProofData p)"
      using d(2) that by (auto simp: validateProof_def validateAccountProof_def bindE_eq_Inr Let_def)
    have b: "newProofData (pd_rawProofData p) None = Inr (p\<lparr>pd_cachedTxId := None\<rparr>)" using env(2) by (simp add: builtProof_def)
    from env(1) [unfolded accountsDontChain_def, rule_format, OF v b] show ?thesis by (simp add: allowsChain_def d(1))
  qed
  then show "td_txType d = TX_ACCOUNT \<Longrightarrow> linkOf d = None" using acc d(1) by (simp add: linkOf_def)
  show "td_txType d \<noteq> TX_DEFI_CLAIM" using d(2) claim by (auto simp: validateProof_def)
  then show "allowsChain d \<Longrightarrow> isPayment d"
    using a nd acc defi unfolding isPayment_def by (cases "td_txType d") auto
qed

lemma pool_extended:
  assumes old: "poolOK settled us" and v: "validateRequest env txs txTypes sc = Inr ds0" "length txTypes = length txs"
    and w: "map withoutExcess ds = map withoutExcess ds0"
    and types: "\<forall>i<length txs. \<exists>isC isE. getTxTypeFromProofData isC isE (tx_proof (txs ! i)) = Inr (txTypes ! i)"
    and env: "us = re_unsettledTxs env" "accountsDontChain env" and built: "\<forall>tx\<in>set txs. builtProof (tx_proof tx)"
    and fresh: "uniqueCommitments (settled @ us @ ds)"
  shows "poolOK settled (us @ ds)" "\<forall>k<length ds. \<forall>link. linkOf (ds ! k) = Some link \<longrightarrow>
      (\<exists>c\<in>set (us @ take k ds). isPayment c \<and> allowsLink c link) \<and> (\<forall>c\<in>set (us @ take k ds). linkOf c \<noteq> Some link)"
proof -
  note r = validateRequest_ok [OF v(1)]
  have len: "length ds = length txs" using validateTxs_ok [OF r(4) v(2)] w by (metis length_map)
  note d = stored_proof [OF v w built]
  have kinds: "td_txType (ds ! i) \<noteq> TX_DEFI_CLAIM \<and> (allowsChain (ds ! i) \<longrightarrow> isPayment (ds ! i))
    \<and> (td_txType (ds ! i) = TX_ACCOUNT \<longrightarrow> linkOf (ds ! i) = None)" if i: "i < length txs" for i
  proof -
    from types i obtain isC isE where "getTxTypeFromProofData isC isE (tx_proof (txs ! i)) = Inr (td_txType (ds ! i))"
      using d [OF i] by auto
    note k = stored_kind [OF _ _ this env(2)]
    have "builtProof (tx_proof (txs ! i))" using built i by simp
    then show ?thesis using k d [OF i] by blast
  qed
  then have all: "\<forall>c\<in>set (us @ ds). allowsChain c \<longrightarrow> isPayment c"
    "\<forall>c\<in>set (us @ ds). td_txType c \<in> {TX_ACCOUNT, TX_DEFI_CLAIM} \<longrightarrow> linkOf c = None"
    using old len unfolding poolOK_def by (auto simp: in_set_conv_nth)
  show new: "\<forall>k<length ds. \<forall>link. linkOf (ds ! k) = Some link \<longrightarrow>
      (\<exists>c\<in>set (us @ take k ds). isPayment c \<and> allowsLink c link) \<and> (\<forall>c\<in>set (us @ take k ds). linkOf c \<noteq> Some link)"
  proof (intro allI impI)
    fix k link assume k: "k < length ds" "linkOf (ds ! k) = Some link"
    have "(\<exists>c\<in>set (us @ take k ds). allowsLink c link) \<and> (\<forall>c\<in>set (us @ take k ds). linkOf c \<noteq> Some link)"
      unfolding env(1) using d by (intro chain_linked [OF r(1) _ len k]) blast
    moreover have "set (us @ take k ds) \<subseteq> set (us @ ds)" using set_take_subset [of k ds] by auto
    ultimately show "(\<exists>c\<in>set (us @ take k ds). isPayment c \<and> allowsLink c link) \<and> (\<forall>c\<in>set (us @ take k ds). linkOf c \<noteq> Some link)"
      using all(1) allowsLink_chain by blast
  qed
  have "(\<exists>c\<in>set (settled @ take j (us @ ds)). isPayment c \<and> allowsLink c link) \<and> (\<forall>c\<in>set (take j (us @ ds)). linkOf c \<noteq> Some link)"
    if j: "j < length (us @ ds)" "linkOf ((us @ ds) ! j) = Some link" for j link
  proof (cases "j < length us")
    case True
    then show ?thesis using old j(2) unfolding poolOK_def by (simp add: nth_append)
  next
    case False
    then have "j - length us < length ds" "linkOf (ds ! (j - length us)) = Some link" using j by (auto simp: nth_append)
    from new [rule_format, OF this] show ?thesis using False by (simp add: bex_Un)
  qed
  then show "poolOK settled (us @ ds)" using fresh all unfolding poolOK_def by blast
qed

text \<open>The transactions an accepted request adds, and what they were checked to be.\<close>

lemma receiveTxs_accepted:
  assumes "receiveTxs env txs ip sc eo s = (Inr ids, s')"
  obtains txTypes ds0 excess txDaos where "validateRequest env txs txTypes sc = Inr ds0" "length txTypes = length txs"
    "map withoutExcess txDaos = map withoutExcess ds0" "length txDaos = length txs"
    "rs_added s' = rs_added s @ txDaos" "ids = map td_id txDaos"
    "\<forall>i<length txs. getTxTypeFromProofData (re_isContract env) (re_isEmpty env) (tx_proof (txs ! i)) = Inr (txTypes ! i)"
    "withExcess ds0 excess = Inr txDaos" "length excess = length ds0"
    "\<not> sc \<longrightarrow> (\<exists>v. validateReceivedTxs (re_now env 0) (re_feeResolver env) txs txTypes eo = Inr v
       \<and> \<not> js_less (gv_gasProvided v) (gv_gasRequired v)
       \<and> reallocateGas (re_now env 0) (re_feeResolver env) (replicate (length txs) (js_int 0)) txs txTypes v = Inr excess)"
proof -
  from receiveTxs_ok [OF assms] obtain ts ds0 excess ds where a: "acceptTxs env txs sc eo = Inr (ts, ds0, excess)"
    "ids = map td_id ds0" "rs_added s' = rs_added s @ ds" "withExcess ds0 excess = Inr ds" by metis
  note v = acceptTxs_ok [OF a(1)]
  then obtain rej where rej: "receivedTypes env eo txs = Inr (ts, rej)" by blast
  have l: "length ds0 = length txs" using validateTxs_ok [OF validateRequest_ok(4)] v by blast
  have k: "length ds = length ds0" "map withoutExcess ds = map withoutExcess ds0" using withExcess_keeps [OF a(4)] v by auto
  show thesis
    by (rule that [OF _ _ k(2) _ a(3) _ _ a(4)]) (use v k l rej receivedTypes_type withoutExcess_ids [OF k(2)] a(2) in auto)
qed

section \<open>A sample request\<close>

text \<open>A deposit of 5, and a transfer that chains from it and pays for both.\<close>

definition sampleFields :: "byte \<Rightarrow> byte \<Rightarrow> byte \<Rightarrow> byte \<Rightarrow> int \<Rightarrow> buffer list" where
  "sampleFields proofId commitment link allowChain fee =
     [byteWord proofId, byteWord commitment, byteWord (commitment + 1), byteWord (commitment + 100), zeros 32,
      byteWord 5, zeros 32, zeros 32, zeros 32, toBufferBE fee 32] @ replicate 4 (zeros 32) @ [byteWord link, byteWord allowChain]"

definition sampleProofOf :: "buffer list \<Rightarrow> byte \<Rightarrow> proofData" where
  "sampleProofOf fs proofId = \<lparr>pd_rawProofData = concat fs, pd_proofId = uint proofId, pd_noteCommitment1 = fs ! 1,
     pd_noteCommitment2 = fs ! 2, pd_nullifier1 = fs ! 3, pd_nullifier2 = fs ! 4, pd_publicValue = fs ! 5,
     pd_publicOwner = fs ! 6, pd_publicAssetId = fs ! 7, pd_noteTreeRoot = fs ! 8, pd_txFee = fs ! 9,
     pd_txFeeAssetId = fs ! 10, pd_bridgeCallData = fs ! 11, pd_defiDepositValue = fs ! 12, pd_defiRoot = fs ! 13,
     pd_backwardLink = fs ! 14, pd_allowChain = fs ! 15, pd_cachedTxId = None\<rparr>"

definition sampleReceived :: "byte \<Rightarrow> byte \<Rightarrow> byte \<Rightarrow> byte \<Rightarrow> int \<Rightarrow> receivedTx" where
  "sampleReceived proofId commitment link allowChain fee =
     \<lparr>tx_proof = sampleProofOf (sampleFields proofId commitment link allowChain fee) proofId,
      tx_offchainTxData = replicate 292 1, tx_depositSignature = None\<rparr>"

definition sampleEnv :: receiverEnv where
  "sampleEnv = \<lparr>re_isContract = \<lambda>_. False, re_isEmpty = \<lambda>_. False, re_numAssets = 1, re_allowThirdPartyContracts = False,
     re_proofApproval = \<lambda>_ _. True, re_validateSignature = \<lambda>_ _ _. Inr False, re_pendingDeposit = \<lambda>_ _. 5,
     re_addressProhibited = \<lambda>_. False, re_verifyJoinSplit = \<lambda>_. True, re_verifyAccount = \<lambda>_. False,
     re_accountNoteCommitment = \<lambda>_ _ _. [], re_keccak = \<lambda>b. bslice b 32 64, re_unsettledTxs = [],
     re_unsettledDepositTxs = [], re_nullifiersExist = \<lambda>_. False, re_isAccountRegistered = \<lambda>_. False,
     re_isAliasRegistered = \<lambda>_. False, re_dataRootsIndex = \<lambda>_. Inr 0, re_addTxs = \<lambda>_. Inr (),
     re_feeResolver = sampleGroupResolver, re_bridgeResolver = sampleResolver, re_now = \<lambda>_. 2000\<rparr>"

definition sampleRequest :: "receivedTx list" where
  "sampleRequest = [sampleReceived 1 7 0 3 0, sampleReceived 3 9 7 0 10000000000000000]"

definition sampleState :: receiverState where
  "sampleState = \<lparr>rs_added = [], rs_rateLimiter = newRateLimiter 10\<rparr>"

lemma length_sampleFields:
  "0 \<le> fee \<Longrightarrow> fee < 256 ^ 32 \<Longrightarrow> length (sampleFields a c l w fee) = 16 \<and> (\<forall>f\<in>set (sampleFields a c l w fee). length f = 32)"
  by (auto simp: sampleFields_def length_toBufferBE)

lemma sample_built:
  assumes "0 \<le> fee" "fee < 256 ^ 32"
  shows "newProofData (concat (sampleFields a c l w fee)) None = Inr (sampleProofOf (sampleFields a c l w fee) a)"
proof -
  note f = length_sampleFields [OF assms, of a c l w]
  have r: "readUInt32BE (concat (sampleFields a c l w fee)) 28 = Inr (uint a)"
    by (simp add: sampleFields_def readUInt32BE_byteWord)
  have "proofField (concat (sampleFields a c l w fee)) i = sampleFields a c l w fee ! i" if "i < 16" for i
    using proofField_concat f that by simp
  then show ?thesis by (simp add: newProofData_def r sampleProofOf_def)
qed

abbreviation sampleClientProof :: "byte \<Rightarrow> byte \<Rightarrow> byte \<Rightarrow> byte \<Rightarrow> int \<Rightarrow> proofData" where
  "sampleClientProof a c l w fee \<equiv> sampleProofOf (sampleFields a c l w fee) a"

lemma sample_fields:
  "pd_proofId (sampleClientProof a c l w fee) = uint a" "pd_noteCommitment1 (sampleClientProof a c l w fee) = byteWord c"
  "pd_noteCommitment2 (sampleClientProof a c l w fee) = byteWord (c + 1)" "pd_nullifier1 (sampleClientProof a c l w fee) = byteWord (c + 100)"
  "pd_nullifier2 (sampleClientProof a c l w fee) = zeros 32" "pd_backwardLink (sampleClientProof a c l w fee) = byteWord l"
  "pd_publicAssetId (sampleClientProof a c l w fee) = zeros 32" "pd_noteTreeRoot (sampleClientProof a c l w fee) = zeros 32"
  "pd_allowChain (sampleClientProof a c l w fee) = byteWord w" "pd_publicOwner (sampleClientProof a c l w fee) = zeros 32"
  "pd_publicValue (sampleClientProof a c l w fee) = byteWord 5" "pd_txFeeAssetId (sampleClientProof a c l w fee) = zeros 32"
  "pd_txFee (sampleClientProof a c l w fee) = toBufferBE fee 32"
  by (simp_all add: sampleProofOf_def sampleFields_def nth_append nth_Cons')

lemma sample_raw: "pd_rawProofData (sampleClientProof a c l w fee) = concat (sampleFields a c l w fee)"
  by (simp add: sampleProofOf_def)

lemma sample_views:
  "ProofData_allowChainFromNote1 (sampleClientProof a c l w fee) = Inr (allowChainFromNote1 (uint w))"
  "ProofData_allowChainFromNote2 (sampleClientProof a c l w fee) = Inr (allowChainFromNote2 (uint w))"
  "ProofData_feeAssetId (sampleClientProof a c l w fee) = Inr 0"
  "JoinSplit_publicOwner (sampleClientProof a c l w fee) = Inr (EthAddress (zeros 20))" "JoinSplit_publicAssetId (sampleClientProof a c l w fee) = Inr 0"
  "JoinSplit_publicValue (sampleClientProof a c l w fee) = 5"
proof -
  have r: "readUInt32BE (byteWord w) 28 = Inr (uint w)" using readUInt32BE_byteWord [of w "[]"] by simp
  show "ProofData_allowChainFromNote1 (sampleClientProof a c l w fee) = Inr (allowChainFromNote1 (uint w))"
    "ProofData_allowChainFromNote2 (sampleClientProof a c l w fee) = Inr (allowChainFromNote2 (uint w))"
    by (simp_all add: ProofData_allowChainFromNote1_def ProofData_allowChainFromNote2_def sample_fields r)
  show "ProofData_feeAssetId (sampleClientProof a c l w fee) = Inr 0" "JoinSplit_publicAssetId (sampleClientProof a c l w fee) = Inr 0"
    by (simp_all add: ProofData_feeAssetId_def JoinSplit_publicAssetId_def sample_fields readUInt32BE_def bslice_def)
  show "JoinSplit_publicOwner (sampleClientProof a c l w fee) = Inr (EthAddress (zeros 20))"
    by (simp add: JoinSplit_publicOwner_def sample_fields newEthAddress_def bslice_def)
  show "JoinSplit_publicValue (sampleClientProof a c l w fee) = 5"
    by (simp add: JoinSplit_publicValue_def sample_fields toBigIntBE_be_value byteWord_def)
qed

lemma sample_tx:
  assumes "0 \<le> fee" "fee < 256 ^ 32" "a \<noteq> 5"
  shows "builtProof (sampleClientProof a c l w fee)" "tx_fee (sampleReceived a c l w fee) = fee"
    "tx_feeAssetId (sampleReceived a c l w fee) = Inr 0"
    "ProofData_txId (re_keccak sampleEnv) (sampleClientProof a c l w fee) = Inr (byteWord c, (sampleClientProof a c l w fee)\<lparr>pd_cachedTxId := Some (byteWord c)\<rparr>)"
proof -
  show "builtProof (sampleClientProof a c l w fee)"
    using sample_built [OF assms(1,2), of a c l w] by (simp add: builtProof_def) (simp add: sampleProofOf_def)
  show "tx_fee (sampleReceived a c l w fee) = fee" "tx_feeAssetId (sampleReceived a c l w fee) = Inr 0"
    using assms by (simp_all add: tx_fee_def tx_feeAssetId_def sampleReceived_def sample_fields sample_views toBigIntBE_toBufferBE)
  show "ProofData_txId (re_keccak sampleEnv) (sampleClientProof a c l w fee) = Inr (byteWord c, (sampleClientProof a c l w fee)\<lparr>pd_cachedTxId := Some (byteWord c)\<rparr>)"
  proof -
    have "take 256 (concat (sampleFields a c l w fee)) = byteWord a @ byteWord c @ take 192 (drop 64 (concat (sampleFields a c l w fee)))"
      by (simp add: sampleFields_def)
    moreover have "uint a \<noteq> 5" using assms(3) by (metis uint_word_of_int_eq word_of_int_uint of_int_numeral)
    ultimately show ?thesis
      by (simp add: ProofData_txId_def createTxId_def bslice_0 txIdData_def sampleProofOf_def readUInt32BE_byteWord sampleEnv_def bslice_def)
  qed
qed

lemma sample_types: "receivedTypes sampleEnv False sampleRequest = Inr ([TX_DEPOSIT, TX_TRANSFER], False)"
  by (simp add: receivedTypes_def sampleRequest_def sampleReceived_def getTxTypeFromProofData_def sample_fields sample_tx)

lemma sample_group_deposit_gas: "\<exists>g. fr_getAdjustedTxGas sampleGroupResolver 0 TX_DEPOSIT = Inr (js_int g) \<and> 0 \<le> g \<and> g \<le> 100000"
proof -
  obtain k where g: "getGasOverheadForTxType sampleFees 0 TX_DEPOSIT = Inr k" by (simp add: sample_simps)
  show ?thesis
    using sample_group_overhead [OF g] g by (simp add: fr_getAdjustedTxGas_def sampleGroupResolver_def getAdjustedTxGas_def
        getAdjustedBaseVerificationGas_def getTxGasAdjustmentValue_def) (simp add: sampleFees_def js_sub_same js_ceil_int
        getUnadjustedBaseVerificationGas_def js_ceil_div, intro exI [of _ "17858 + k"], simp)
qed

lemma sample_validation:
  "\<exists>v R. validateReceivedTxs 2000 sampleGroupResolver sampleRequest [TX_DEPOSIT, TX_TRANSFER] False = Inr v \<and> gv_hasFeelessTxs v
     \<and> gv_gasRequired v = js_int R \<and> gv_gasProvided v = js_int 333333 \<and> 0 \<le> R \<and> R \<le> 200000"
proof -
  obtain g where g: "fr_getAdjustedTxGas sampleGroupResolver 0 TX_DEPOSIT = Inr (js_int g)" "0 \<le> g" "g \<le> 100000"
    using sample_group_deposit_gas by blast
  have "isFeePayingAsset sampleGroupResolver 0" by (simp add: isFeePayingAsset_def sampleGroupResolver_def)
  then show ?thesis
    using g by (simp add: validateReceivedTxs_def feePayingAssets_def sampleRequest_def sample_tx addGasRequired_def addGasProvided_def
        sample_group_transfer_gas sample_group_paid Let_def) (intro exI [of _ "g + 24594"], simp)
qed

lemma sample_checks:
  "validateChain sampleEnv sampleRequest = Inr ()" "validateNullifiers sampleEnv sampleRequest = Inr ()"
  "validateRequiredDeposit sampleEnv sampleRequest = Inr ()"
proof -
  have b: "byteWord 107 \<noteq> zeros 32" "byteWord 109 \<noteq> zeros 32" "byteWord 7 \<noteq> zeros 32" "zeros 32 \<noteq> byteWord 7" "byteWord 0 = zeros 32"
    by (simp_all add: byteWord_zeros byteWord_inj)
  show "validateChain sampleEnv sampleRequest = Inr ()"
    by (simp add: validateChain_def sampleEnv_def sampleRequest_def upt_rec validateLink_def linkedBy_def sampleReceived_def
        sample_fields sample_views b Let_def allowChainFromNote1_def byteWord_inj)
  show "validateNullifiers sampleEnv sampleRequest = Inr ()"
    by (simp add: validateNullifiers_def receivedNullifiers_def sampleRequest_def sampleReceived_def sample_fields sampleEnv_def b Let_def
       toBigIntBE_be_value) (simp add: byteWord_def be_value_snoc)
  show "validateRequiredDeposit sampleEnv sampleRequest = Inr ()"
    by (simp add: validateRequiredDeposit_def sampleRequest_def sampleReceived_def sample_fields sample_views sampleEnv_def
        depositOf_def uniqueDepositAddresses_def depositedBy_def Let_def)
qed

lemma sample_stored:
  "\<exists>d1 d2. validateTxs sampleEnv sampleRequest [TX_DEPOSIT, TX_TRANSFER] False = Inr [d1, d2]
     \<and> td_id d1 = byteWord 7 \<and> td_id d2 = byteWord 9 \<and> td_created d1 = 2000 \<and> td_created d2 = 2001
     \<and> td_proofData d1 = pd_rawProofData (tx_proof (sampleRequest ! 0)) \<and> td_proofData d2 = pd_rawProofData (tx_proof (sampleRequest ! 1))"
proof -
  have v: "OffchainJoinSplitData_fromBuffer (replicate 292 1) \<noteq> Inl e" for e
    by (simp add: OffchainJoinSplitData_fromBuffer_def OffchainJoinSplitData_SIZE_def bslice_def newViewingKey_def ViewingKey_SIZE_def
        newOffchainJoinSplitData_def ViewingKey_isEmpty_def readUInt32BE_def)
  then obtain d where d: "OffchainJoinSplitData_fromBuffer (replicate 292 1) = Inr d" by (meson sum.exhaust)
  have id: "newTxId (byteWord 7) = Inr (TxId (byteWord 7))" by (simp add: newTxId_def)
  have asset: "readUInt32BE (zeros 32) 28 = Inr 0" by (simp add: readUInt32BE_def bslice_def)
  have pay: "validateProof sampleEnv (sampleClientProof a c l w fee) (replicate 292 1) = Inr ()" if "uint a \<in> {1, 3}" for a c l w fee
    using that by (auto simp: validateProof_def sample_fields validatePaymentProof_def d sampleEnv_def)
  have env: "re_dataRootsIndex sampleEnv r = Inr 0" "re_now sampleEnv i = 2000" "re_numAssets sampleEnv = 1"
    "re_proofApproval sampleEnv x y" for r i x y by (simp_all add: sampleEnv_def)
  show ?thesis
    by (simp add: validateTxs_def validateTx_def sampleRequest_def sampleReceived_def sample_fields sample_tx sample_views pay
        validateAsset_def validateNonVirtualAssetId_def env asset validateDepositProofApproval_def id Let_def lastCreated_def getNextTxTime_def)
qed

lemma sample_accepted:
  obtains d1 d2 n1 n2 where "acceptTxs sampleEnv sampleRequest False False = Inr ([TX_DEPOSIT, TX_TRANSFER], [d1, d2], [js_int n1, js_int n2])"
    "td_id d1 = byteWord 7" "td_id d2 = byteWord 9" "td_proofData d1 = pd_rawProofData (tx_proof (sampleRequest ! 0))"
    "td_proofData d2 = pd_rawProofData (tx_proof (sampleRequest ! 1))"
proof -
  obtain v R where v: "validateReceivedTxs 2000 sampleGroupResolver sampleRequest [TX_DEPOSIT, TX_TRANSFER] False = Inr v"
    "gv_hasFeelessTxs v" "gv_gasRequired v = js_int R" "gv_gasProvided v = js_int 333333" "0 \<le> R" "R \<le> 200000"
    using sample_validation by blast
  obtain d1 d2 where d: "validateTxs sampleEnv sampleRequest [TX_DEPOSIT, TX_TRANSFER] False = Inr [d1, d2]"
    "td_id d1 = byteWord 7" "td_id d2 = byteWord 9" "td_proofData d1 = pd_rawProofData (tx_proof (sampleRequest ! 0))"
    "td_proofData d2 = pd_rawProofData (tx_proof (sampleRequest ! 1))" using sample_stored by blast
  have r: "validateRequest sampleEnv sampleRequest [TX_DEPOSIT, TX_TRANSFER] False = Inr [d1, d2]"
    by (simp add: validateRequest_def sample_checks d(1))
  obtain g where g: "fr_getAdjustedTxGas sampleGroupResolver 0 TX_DEPOSIT = Inr (js_int g)" "0 \<le> g" "g \<le> 100000"
    using sample_group_deposit_gas by blast
  have "remainingGas sampleGroupResolver sampleRequest [TX_DEPOSIT, TX_TRANSFER] (js_int 333333) = Inr (js_int (333333 - g - 24594))"
    using g by (simp add: remainingGas_def sampleRequest_def sample_tx sample_group_transfer_gas)
  moreover have "findIndex (isFeeless sampleGroupResolver) sampleRequest = Some 0"
    by (simp add: isFeeless_def sampleRequest_def sample_tx)
  ultimately have "\<exists>n1 n2. reallocateGas 2000 sampleGroupResolver [js_int 0, js_int 0] sampleRequest [TX_DEPOSIT, TX_TRANSFER] v
      = Inr [js_int n1, js_int n2]"
    using v(2-6) g by (simp add: reallocateGas_def isZeroOrNaN_int setExcess_def) blast
  then obtain n1 n2 where e: "reallocateGas 2000 sampleGroupResolver [js_int 0, js_int 0] sampleRequest [TX_DEPOSIT, TX_TRANSFER] v
    = Inr [js_int n1, js_int n2]" by blast
  have "re_now sampleEnv i = 2000" "re_feeResolver sampleEnv = sampleGroupResolver" for i by (simp_all add: sampleEnv_def)
  then have "acceptTxs sampleEnv sampleRequest False False = Inr ([TX_DEPOSIT, TX_TRANSFER], [d1, d2], [js_int n1, js_int n2])"
    using v by (simp add: acceptTxs_def sample_types r e)
  then show thesis using d(2-) by (rule that)
qed

lemma sample_run:
  obtains s' d1 d2 where "receiveTxs sampleEnv sampleRequest ''client'' False False sampleState = (Inr [byteWord 7, byteWord 9], s')"
    "rs_added s' = [d1, d2]" "proofOf d1 = Inr (tx_proof (sampleRequest ! 0))" "proofOf d2 = Inr (tx_proof (sampleRequest ! 1))"
proof -
  obtain d1 d2 n1 n2 where a: "acceptTxs sampleEnv sampleRequest False False = Inr ([TX_DEPOSIT, TX_TRANSFER], [d1, d2], [js_int n1, js_int n2])"
    "td_id d1 = byteWord 7" "td_id d2 = byteWord 9" "td_proofData d1 = pd_rawProofData (tx_proof (sampleRequest ! 0))"
    "td_proofData d2 = pd_rawProofData (tx_proof (sampleRequest ! 1))" by (rule sample_accepted)
  have "newProofData (pd_rawProofData (tx_proof (sampleRequest ! i))) None = Inr (tx_proof (sampleRequest ! i))" if "i < 2" for i
    using that by (auto simp: sampleRequest_def sampleReceived_def sample_raw sample_built less_2_cases_iff)
  moreover have env: "re_now sampleEnv i = 2000" "re_addTxs sampleEnv x = Inr ()" for i x by (simp_all add: sampleEnv_def)
  ultimately show thesis
    using a by (intro that [of "snd (receiveTxs sampleEnv sampleRequest ''client'' False False sampleState)"
          "d1\<lparr>td_excessGas := n1\<rparr>" "d2\<lparr>td_excessGas := n2\<rparr>"])
      (simp_all add: proofOf_def receiveTxs_def addTxsToDb_def withExcess_def withExcess_int env sampleState_def rl_add_def
         newRateLimiter_def checkAndRefresh_def storedValue_def Let_def)
qed

section \<open>Deposits of a day\<close>

text \<open>The deposits of a client the limiter counts on the day of \<open>now\<close>, and those a request adds to them.\<close>

definition depositsUsed :: "int \<Rightarrow> rateLimiter \<Rightarrow> string \<Rightarrow> int" where
  "depositsUsed now l client = fst (getCurrentValue now client l)"

definition depositsCounted :: "bool \<Rightarrow> txType list \<Rightarrow> int" where
  "depositsCounted secondClass txTypes = (if secondClass then 0 else int (length (filter (\<lambda>t. t = TX_DEPOSIT) txTypes)))"

lemma depositsUsed_add:
  assumes "rl_add now client n l = (granted, l')" "0 < n"
  shows "rl_limitPerDay l' = rl_limitPerDay l \<and> (granted \<longleftrightarrow> depositsUsed now l client + n \<le> rl_limitPerDay l)
    \<and> depositsUsed now l' c = depositsUsed now l c + (if granted \<and> c = client then n else 0)"
  using assms by (auto simp: rl_add_def depositsUsed_def getCurrentValue_def checkAndRefresh_def storedValue_def isNewDay_def Let_def
      split: if_splits option.splits)

lemma depositsUsed_read: "depositsUsed now (snd (getCurrentValue now client l)) c = depositsUsed now l c
    \<and> rl_limitPerDay (snd (getCurrentValue now client l)) = rl_limitPerDay l"
  by (auto simp: depositsUsed_def getCurrentValue_def checkAndRefresh_def storedValue_def isNewDay_def Let_def split: option.splits)

section \<open>Properties\<close>

text \<open>C23: A request is accepted only if every deposit in it comes from an address that is not prohibited, was approved
  by its owner on chain or by a signature over the transaction's id, and, with all other deposits of that owner
  in that asset, in the request and unsettled, does not exceed what the owner has pending on the contract.\<close>

theorem accepted_deposits_are_pending:
  assumes "receiveTxs env txs clientIp secondClass exitOnly s = (Inr ids, s')" "tx \<in> set txs" "pd_proofId (tx_proof tx) = DEPOSIT"
  shows "\<exists>owner asset d. JoinSplit_publicOwner (tx_proof tx) = Inr owner \<and> JoinSplit_publicAssetId (tx_proof tx) = Inr asset
    \<and> \<not> re_addressProhibited env owner
    \<and> depositTotal owner asset (depositProofs txs) + depositTotal owner asset (unsettledProofs (re_unsettledDepositTxs env))
        \<le> re_pendingDeposit env asset owner
    \<and> d \<in> set (rs_added s') \<and> td_proofData d = pd_rawProofData (tx_proof tx) \<and> (re_proofApproval env owner (td_id d)
      \<or> (\<exists>sig. td_signature d = Some sig \<and> re_validateSignature env owner sig (toDepositSigningData (TxId (td_id d))) = Inr True))"
proof -
  obtain ts ds0 ds where v: "validateRequest env txs ts secondClass = Inr ds0"
    "map withoutExcess ds = map withoutExcess ds0" "length ts = length txs" and a: "length ds = length txs"
    "rs_added s' = rs_added s @ ds" using receiveTxs_accepted [OF assms(1)] by metis
  note r = validateRequest_ok [OF v(1)]
  have "tx_proof tx \<in> set (depositProofs txs)" using assms(2,3) by (auto simp: depositProofs_def)
  from required_deposits [OF r(3) this] obtain a i where o: "JoinSplit_publicOwner (tx_proof tx) = Inr a"
    "JoinSplit_publicAssetId (tx_proof tx) = Inr i" "\<not> re_addressProhibited env a"
    "depositTotal a i (depositProofs txs) + depositTotal a i (unsettledProofs (re_unsettledDepositTxs env)) \<le> re_pendingDeposit env i a"
    by blast
  from assms(2) obtain k where k: "k < length txs" "txs ! k = tx" by (auto simp: in_set_conv_nth)
  from validateTxs_ok [OF r(4) v(3)] k obtain d where d: "ds0 ! k = d\<lparr>td_secondClass := secondClass\<rparr>" "length ds0 = length txs"
    "validateTx env tx (ts ! k) (re_now env k) (lastCreated (take k ds0)) = Inr d" by auto
  have l: "length ds = length ds0" using a(1) d(2) by simp
  then have "withoutExcess (ds ! k) = withoutExcess (ds0 ! k)" using arg_cong [OF v(2), of "\<lambda>xs. xs ! k"] k d(2) by simp
  note f = withoutExcess_fields [OF this]
  have "ds ! k \<in> set (rs_added s')" using a(2) l d(2) k(1) by simp
  moreover have "td_proofData (ds ! k) = pd_rawProofData (tx_proof tx)" using f validateTx_ok(1) [OF d(3)] by (simp add: d(1))
  moreover have "re_proofApproval env a (td_id (ds ! k))
      \<or> (\<exists>sig. td_signature (ds ! k) = Some sig \<and> re_validateSignature env a sig (toDepositSigningData (TxId (td_id (ds ! k)))) = Inr True)"
    using deposit_approved [OF d(3) assms(3) o(1)] f by (simp add: d(1))
  ultimately show ?thesis using o by blast
qed

text \<open>C24: A request is accepted only if each of its transactions that chains does so from a note that an earlier payment, of the pool of
  unsettled transactions or of the request, creates and allows to be chained from, and from which nothing earlier in the pool or the
  request chains. So the pool stays in order (\<open>poolOK\<close>, \<open>chainsInOrder\<close>), which is what the selection of the next rollup
  starts from. It is relied on that notes are created once, that account proofs neither chain nor are chained from, as the circuits
  ensure, and that the proofs of the request are those parsed from their bytes; \<open>settled\<close> are the transactions that left the pool.\<close>

theorem accepted_request_keeps_pool:
  assumes "receiveTxs env txs clientIp secondClass exitOnly s = (Inr ids, s')" "rs_added s' = rs_added s @ txDaos"
    and "poolOK settled (re_unsettledTxs env)" "accountsDontChain env" "\<forall>tx\<in>set txs. builtProof (tx_proof tx)"
    and "uniqueCommitments (settled @ re_unsettledTxs env @ txDaos)"
  shows "poolOK settled (re_unsettledTxs env @ txDaos) \<and> chainsInOrder (re_unsettledTxs env @ txDaos)
    \<and> (\<forall>k<length txDaos. \<forall>link. linkOf (txDaos ! k) = Some link \<longrightarrow>
         (\<exists>c\<in>set (re_unsettledTxs env @ take k txDaos). isPayment c \<and> allowsLink c link)
         \<and> (\<forall>c\<in>set (re_unsettledTxs env @ take k txDaos). linkOf c \<noteq> Some link))"
proof -
  obtain ts ds0 ds where v: "validateRequest env txs ts secondClass = Inr ds0"
    "length ts = length txs" "map withoutExcess ds = map withoutExcess ds0" "rs_added s' = rs_added s @ ds"
    "\<forall>i<length txs. getTxTypeFromProofData (re_isContract env) (re_isEmpty env) (tx_proof (txs ! i)) = Inr (ts ! i)"
    using receiveTxs_accepted [OF assms(1)] by metis
  have "ds = txDaos" using v(4) assms(2) by simp
  note p = pool_extended [OF assms(3) v(1-3) _ refl assms(4,5), unfolded this, OF _ assms(6)]
  have types: "\<forall>i<length txs. \<exists>isC isE. getTxTypeFromProofData isC isE (tx_proof (txs ! i)) = Inr (ts ! i)" using v(5) by blast
  show ?thesis using p [OF types] poolOK_chains [OF p(1) [OF types]] by blast
qed

text \<open>The transactions an accepted request adds are recorded at strictly increasing times, in the order of the
  request, with nullifiers that are distinct from one another and were not found in the database.\<close>

theorem accepted_txs_fresh_and_ordered:
  assumes "receiveTxs env txs clientIp secondClass exitOnly s = (Inr ids, s')"
  shows "\<exists>txDaos ns. rs_added s' = rs_added s @ txDaos \<and> ids = map td_id txDaos
    \<and> map td_proofData txDaos = map (\<lambda>tx. pd_rawProofData (tx_proof tx)) txs
    \<and> sorted_wrt (<) (map td_created txDaos) \<and> distinct (map toBigIntBE (concat (map nullifiersOf txDaos)))
    \<and> set (concat (map nullifiersOf txDaos)) \<subseteq> set ns \<and> \<not> re_nullifiersExist env ns"
proof -
  obtain ts ds0 ds where v: "validateRequest env txs ts secondClass = Inr ds0"
    "length ts = length txs" "map withoutExcess ds = map withoutExcess ds0" "length ds = length txs"
    "rs_added s' = rs_added s @ ds" "ids = map td_id ds" using receiveTxs_accepted [OF assms] by metis
  note r = validateRequest_ok [OF v(1)]
  note t = validateTxs_ok [OF r(4) v(2)]
  have "td_created (ds ! i) = td_created (ds0 ! i) \<and> nullifiersOf (ds ! i) = nullifiersOf (ds0 ! i)
    \<and> td_proofData (ds ! i) = td_proofData (ds0 ! i)" if "i < length txs" for i
    using withoutExcess_fields [of "ds ! i" "ds0 ! i"] arg_cong [OF v(3), of "\<lambda>xs. xs ! i"] that t v(4)
    by (simp add: nullifiersOf_def)
  then have e: "map td_created ds = map td_created ds0" "map nullifiersOf ds = map nullifiersOf ds0"
    "map td_proofData ds = map td_proofData ds0" using t v(4) by (auto intro: nth_equalityI)
  have "td_proofData (ds0 ! i) = pd_rawProofData (tx_proof (txs ! i))" if "i < length txs" for i
    using t that validateTx_ok(1) by fastforce
  then have "map td_proofData ds0 = map (\<lambda>tx. pd_rawProofData (tx_proof tx)) txs" using t by (intro nth_equalityI) auto
  moreover obtain ns where "set (concat (map nullifiersOf ds0)) \<subseteq> set ns" "\<not> re_nullifiersExist env ns"
    using stored_nullifiers(2) [OF r(2,4) v(2)] by blast
  ultimately show ?thesis
    using v(5,6) created_increasing [OF r(4) v(2)] stored_nullifiers(1) [OF r(2,4) v(2)]
    by (intro exI [of _ ds] exI [of _ ns]) (simp add: e)
qed

text \<open>C25: A request of ordinary transactions is accepted only if the gas its fees in the fee paying asset pay for covers the gas its
  transactions cost. What is left over is recorded with its transactions: nothing if nothing is left; all of it, and no more, with the
  first DeFi deposit, or else the first transaction that pays nothing, if some transaction pays nothing; otherwise each transaction keeps
  what it paid above its own cost, which is together at least what is left over and at most what was paid. It is supposed that costs and
  payments are integers up to \<open>2^40\<close> and \<open>2^42\<close> (\<open>exactFees\<close>) and that the request has at most 256 transactions.\<close>

theorem accepted_request_is_paid:
  assumes "receiveTxs env txs clientIp False False s = (Inr ids, s')"
    and "exactFees (re_now env 0) (re_feeResolver env) txs" "length txs \<le> 256"
  shows "\<exists>txDaos txTypes v P R. rs_added s' = rs_added s @ txDaos \<and> length txDaos = length txs \<and> length txTypes = length txs
    \<and> (\<forall>i<length txs. getTxTypeFromProofData (re_isContract env) (re_isEmpty env) (tx_proof (txs ! i)) = Inr (txTypes ! i))
    \<and> validateReceivedTxs (re_now env 0) (re_feeResolver env) txs txTypes False = Inr v
    \<and> P = (\<Sum>(tx, t)\<leftarrow>zip txs txTypes. if Some (txAsset tx) = gv_feePayingAsset v then paidBy (re_now env 0) (re_feeResolver env) tx else 0)
    \<and> R = (\<Sum>(tx, t)\<leftarrow>zip txs txTypes. costBy (re_feeResolver env) (txAsset tx) tx t) \<and> R \<le> P
    \<and> map td_excessGas txDaos = excessShares (re_now env 0) (re_feeResolver env) txs txTypes (gv_hasFeelessTxs v) P R
    \<and> (gv_hasFeelessTxs v \<longrightarrow> excessSum txDaos = P - R) \<and> P - R \<le> excessSum txDaos \<and> excessSum txDaos \<le> P"
proof -
  let ?now = "re_now env 0" and ?r = "re_feeResolver env"
  from receiveTxs_accepted [OF assms(1)] obtain ts ds0 xs ds where v: "validateRequest env txs ts False = Inr ds0" "length ts = length txs"
    "map withoutExcess ds = map withoutExcess ds0" "length ds = length txs" "rs_added s' = rs_added s @ ds" "ids = map td_id ds"
    "\<forall>i<length txs. getTxTypeFromProofData (re_isContract env) (re_isEmpty env) (tx_proof (txs ! i)) = Inr (ts ! i)"
    "withExcess ds0 xs = Inr ds" "length xs = length ds0"
    "\<not> False \<longrightarrow> (\<exists>v. validateReceivedTxs ?now ?r txs ts False = Inr v \<and> \<not> js_less (gv_gasProvided v) (gv_gasRequired v)
       \<and> reallocateGas ?now ?r (replicate (length txs) (js_int 0)) txs ts v = Inr xs)" .
  from v(10) obtain v where w: "validateReceivedTxs ?now ?r txs ts False = Inr v"
    "\<not> js_less (gv_gasProvided v) (gv_gasRequired v)" "reallocateGas ?now ?r (replicate (length txs) (js_int 0)) txs ts v = Inr xs" by blast
  from reallocated_shares [OF w(1,3) assms(2,3) v(2)] obtain P R fa where g: "gv_gasProvided v = js_int P" "gv_gasRequired v = js_int R"
    "R = (\<Sum>(tx, t)\<leftarrow>zip txs ts. costBy ?r (txAsset tx) tx t)"
    "P = (\<Sum>(tx, t)\<leftarrow>zip txs ts. if txAsset tx = fa then paidBy ?now ?r tx else 0)"
    "gv_feePayingAsset v = Some fa" "xs = map js_int (excessShares ?now ?r txs ts (gv_hasFeelessTxs v) P R)"
    "P - R \<le> sum_list (excessShares ?now ?r txs ts (gv_hasFeelessTxs v) P R)"
    "sum_list (excessShares ?now ?r txs ts (gv_hasFeelessTxs v) P R) \<le> P" .
  have e: "map td_excessGas ds = excessShares ?now ?r txs ts (gv_hasFeelessTxs v) P R"
    using withExcess_ints [of ds0 _ ds] v(8,9) unfolding g(6) by simp
  have le: "R \<le> P" using w(2) by (simp add: g(1,2))
  have p: "P = (\<Sum>(tx, t)\<leftarrow>zip txs ts. if Some (txAsset tx) = gv_feePayingAsset v then paidBy ?now ?r tx else 0)"
    unfolding g(5) option.inject by (rule g(4))
  have b: "P - R \<le> excessSum ds" "excessSum ds \<le> P" using g(7,8) unfolding excessSum_def e .
  have f: "gv_hasFeelessTxs v \<longrightarrow> excessSum ds = P - R" using excessShares_feeless [OF w(1) _ v(2) le] e by (auto simp: excessSum_def)
  show ?thesis
    by (rule exI [of _ ds], rule exI [of _ ts], rule exI [of _ v], rule exI [of _ P], rule exI [of _ R])
      (intro conjI v(5,4,2,7) w(1) p g(3) le e f b)
qed

text \<open>C36: A request that is refused hands nothing to the database. If its checks fail, nothing at all is changed. If the rate limiter
  refuses it, its deposits would have taken the client above the limit, and no client's deposits of the day are changed. Only if the
  database refuses it are the deposits of its client used up, and no other client's.\<close>

theorem refused_request_stores_nothing:
  assumes "receiveTxs env txs clientIp secondClass exitOnly s = (Inl e, s')"
  shows "rs_added s' = rs_added s
    \<and> (case acceptTxs env txs secondClass exitOnly of Inl e' \<Rightarrow> e = e' \<and> s' = s
       | Inr (txTypes, txDaos, excess) \<Rightarrow>
           let now = re_now env (length txs); n = depositsCounted secondClass txTypes;
               limit = rl_limitPerDay (rs_rateLimiter s); used = depositsUsed now (rs_rateLimiter s)
           in rl_limitPerDay (rs_rateLimiter s') = limit
             \<and> (if 0 < n \<and> limit < used clientIp + n
                then e = Thrown ''Exceeded deposit limit'' \<and> (\<forall>c. depositsUsed now (rs_rateLimiter s') c = used c)
                else addTxsToDb env txDaos excess = Inl e
                  \<and> (\<forall>c. depositsUsed now (rs_rateLimiter s') c = used c + (if c = clientIp then n else 0))))"
proof (cases "acceptTxs env txs secondClass exitOnly")
  case (Inl e')
  then show ?thesis using assms by (simp add: receiveTxs_def)
next
  case (Inr a)
  obtain txTypes txDaos excess where a: "a = (txTypes, txDaos, excess)" by (cases a)
  let ?now = "re_now env (length txs)" and ?n = "depositsCounted secondClass txTypes"
  show ?thesis
  proof (cases "0 < ?n")
    case False
    then have "?n = 0" "secondClass \<or> length (filter (\<lambda>t. t = TX_DEPOSIT) txTypes) = 0" by (auto simp: depositsCounted_def split: if_splits)
    then show ?thesis using assms Inr a by (auto simp: receiveTxs_def Let_def split: sum.splits)
  next
    case True
    then have n: "\<not> secondClass" "?n = int (length (filter (\<lambda>t. t = TX_DEPOSIT) txTypes))" by (auto simp: depositsCounted_def split: if_splits)
    obtain granted l where l: "rl_add ?now clientIp ?n (rs_rateLimiter s) = (granted, l)" by fastforce
    note u = depositsUsed_add [OF l True]
    show ?thesis
    proof (cases granted)
      case False
      then have "e = Thrown ''Exceeded deposit limit''" "s' = s\<lparr>rs_rateLimiter := snd (getCurrentValue ?now clientIp l)\<rparr>"
        using assms Inr a l n True by (auto simp: receiveTxs_def Let_def)
      then show ?thesis using Inr a u False True depositsUsed_read [of ?now clientIp l] by (simp add: Let_def not_le)
    next
      case g: True
      then have "addTxsToDb env txDaos excess = Inl e" "s' = s\<lparr>rs_rateLimiter := l\<rparr>"
        using assms Inr a l n True by (auto simp: receiveTxs_def Let_def split: sum.splits)
      then show ?thesis using Inr a u g True by (auto simp: Let_def)
    qed
  qed
qed

theorem accepted_deposits_are_pending_witness:
  "\<exists>ids s'. receiveTxs sampleEnv sampleRequest ''client'' False False sampleState = (Inr ids, s')
     \<and> depositTotal (EthAddress (zeros 20)) 0 (depositProofs sampleRequest) \<le> 5"
proof -
  obtain ids s' where r: "receiveTxs sampleEnv sampleRequest ''client'' False False sampleState = (Inr ids, s')"
    using sample_run by metis
  let ?tx = "sampleRequest ! 0"
  have m: "?tx \<in> set sampleRequest" "pd_proofId (tx_proof ?tx) = DEPOSIT"
    and o: "JoinSplit_publicOwner (tx_proof ?tx) = Inr (EthAddress (zeros 20))" "JoinSplit_publicAssetId (tx_proof ?tx) = Inr 0"
    by (simp_all add: sampleRequest_def sampleReceived_def sample_fields sample_views)
  have "depositTotal (EthAddress (zeros 20)) 0 (depositProofs sampleRequest)
      + depositTotal (EthAddress (zeros 20)) 0 (unsettledProofs (re_unsettledDepositTxs sampleEnv))
    \<le> re_pendingDeposit sampleEnv 0 (EthAddress (zeros 20))"
    using accepted_deposits_are_pending [OF r m] unfolding o by auto
  then show ?thesis using r by (simp add: sampleEnv_def unsettledProofs_def) (simp add: depositTotal_def)
qed

theorem accepted_request_keeps_pool_witness:
  "\<exists>ids s'. receiveTxs sampleEnv sampleRequest ''client'' False False sampleState = (Inr ids, s') \<and> length (rs_added s') = 2
     \<and> linkOf (rs_added s' ! 1) = Some (byteWord 7) \<and> allowsLink (rs_added s' ! 0) (byteWord 7) \<and> poolOK [] (rs_added s')"
proof -
  obtain s' d1 d2 where r: "receiveTxs sampleEnv sampleRequest ''client'' False False sampleState = (Inr [byteWord 7, byteWord 9], s')"
    "rs_added s' = [d1, d2]" "proofOf d1 = Inr (tx_proof (sampleRequest ! 0))" "proofOf d2 = Inr (tx_proof (sampleRequest ! 1))"
    by (rule sample_run)
  have c: "commitmentsOf d1 = {byteWord 7, byteWord 8}" "commitmentsOf d2 = {byteWord 9, byteWord 10}"
    using r(3,4) by (auto simp: commitmentsOf_def sampleRequest_def sampleReceived_def sample_fields byteWord_zeros byteWord_inj)
  have u: "re_unsettledTxs sampleEnv = []" "\<not> re_verifyAccount sampleEnv b" for b by (simp_all add: sampleEnv_def)
  have "uniqueCommitments [d1, d2]" by (auto simp: uniqueCommitments_def less_Suc_eq c byteWord_inj)
  moreover have "\<forall>tx\<in>set sampleRequest. builtProof (tx_proof tx)" by (simp add: sampleRequest_def sampleReceived_def sample_tx)
  moreover have "poolOK [] []" by (rule poolOK_empty)
  moreover have "accountsDontChain sampleEnv" by (simp add: accountsDontChain_def u)
  ultimately have k: "poolOK [] [d1, d2]" "\<forall>k<2. \<forall>link. linkOf ([d1, d2] ! k) = Some link \<longrightarrow>
      (\<exists>c\<in>set (take k [d1, d2]). isPayment c \<and> allowsLink c link)"
    using accepted_request_keeps_pool [OF r(1), of "[d1, d2]" "[]"] r(2) by (auto simp: u sampleState_def)
  have "linkOf d2 = Some (byteWord 7)"
    using r(4) by (simp add: linkOf_def sampleRequest_def sampleReceived_def sample_fields byteWord_zeros byteWord_inj)
  then show ?thesis using r(1,2) k(1) k(2) [rule_format, of 1] by auto
qed

theorem accepted_txs_fresh_and_ordered_witness:
  "\<exists>ids s' d1 d2. receiveTxs sampleEnv sampleRequest ''client'' False False sampleState = (Inr ids, s')
     \<and> rs_added s' = [d1, d2] \<and> td_created d1 < td_created d2"
proof -
  obtain s' d1 d2 where r: "receiveTxs sampleEnv sampleRequest ''client'' False False sampleState = (Inr [byteWord 7, byteWord 9], s')"
    "rs_added s' = [d1, d2]" by (rule sample_run)
  from accepted_txs_fresh_and_ordered [OF r(1)] r show ?thesis by (auto simp: sampleState_def)
qed

theorem accepted_request_is_paid_witness:
  "\<exists>ids s' P R. receiveTxs sampleEnv sampleRequest ''client'' False False sampleState = (Inr ids, s')
     \<and> R \<le> P \<and> map td_excessGas (rs_added s') = [P - R, 0] \<and> excessSum (rs_added s') = P - R"
proof -
  obtain s' where r: "receiveTxs sampleEnv sampleRequest ''client'' False False sampleState = (Inr [byteWord 7, byteWord 9], s')"
    by (rule sample_run)
  have "exactFees (re_now sampleEnv 0) (re_feeResolver sampleEnv) sampleRequest" "length sampleRequest \<le> 256"
    using sample_group_exact [of sampleRequest] by (simp_all add: sampleEnv_def sampleRequest_def sample_tx)
  from accepted_request_is_paid [OF r this] obtain ds ts v P R where a: "rs_added s' = rs_added sampleState @ ds" "R \<le> P" "length ts = 2"
    "\<forall>i<2. getTxTypeFromProofData (re_isContract sampleEnv) (re_isEmpty sampleEnv) (tx_proof (sampleRequest ! i)) = Inr (ts ! i)"
    "validateReceivedTxs 2000 sampleGroupResolver sampleRequest ts False = Inr v"
    "map td_excessGas ds = excessShares 2000 sampleGroupResolver sampleRequest ts (gv_hasFeelessTxs v) P R"
    "gv_hasFeelessTxs v \<longrightarrow> excessSum ds = P - R" by (auto simp: sampleEnv_def sampleRequest_def numeral_2_eq_2)
  have "length ts = Suc (Suc 0)" using a(3) by simp
  then obtain t0 t1 where ts: "ts = [t0, t1]" by (auto simp: length_Suc_conv)
  have "ts = [TX_DEPOSIT, TX_TRANSFER]"
    using a(4) [rule_format, of 0] a(4) [rule_format, of 1]
    by (simp add: ts sampleRequest_def sampleReceived_def getTxTypeFromProofData_def sample_fields)
  moreover from this have "gv_hasFeelessTxs v" using a(5) sample_validation by auto
  moreover have "findIndex (isFeeless sampleGroupResolver) sampleRequest = Some 0" "length sampleRequest = 2"
    by (simp_all add: isFeeless_def sampleRequest_def sample_tx)
  ultimately have "map td_excessGas ds = [P - R, 0]" "excessSum ds = P - R"
    using a(2,6,7) by (auto simp: excessShares_def numeral_2_eq_2)
  then show ?thesis using r a(1,2) by (auto simp: sampleState_def)
qed

lemma otherDb [simp]: "validateNonVirtualAssetId (env\<lparr>re_addTxs := f\<rparr>) = validateNonVirtualAssetId env"
  "receivedTypes (env\<lparr>re_addTxs := f\<rparr>) = receivedTypes env" "validateChain (env\<lparr>re_addTxs := f\<rparr>) = validateChain env"
  "validateNullifiers (env\<lparr>re_addTxs := f\<rparr>) = validateNullifiers env"
  "validateRequiredDeposit (env\<lparr>re_addTxs := f\<rparr>) = validateRequiredDeposit env"
  "validateDepositProofApproval (env\<lparr>re_addTxs := f\<rparr>) = validateDepositProofApproval env"
  "validatePaymentProof (env\<lparr>re_addTxs := f\<rparr>) = validatePaymentProof env"
  "validateAccountProof (env\<lparr>re_addTxs := f\<rparr>) = validateAccountProof env"
  "validateDefiDepositProof (env\<lparr>re_addTxs := f\<rparr>) = validateDefiDepositProof env"
  by (intro ext, simp add: validateNonVirtualAssetId_def receivedTypes_def validateChain_def validateNullifiers_def validateRequiredDeposit_def
      validateDepositProofApproval_def validatePaymentProof_def validateAccountProof_def validateDefiDepositProof_def
      Let_def cong: if_cong sum.case_cong option.case_cong)+

lemma otherDb_accepts: "acceptTxs (env\<lparr>re_addTxs := f\<rparr>) = acceptTxs env"
proof -
  have "validateAsset (env\<lparr>re_addTxs := f\<rparr>) = validateAsset env" "validateProof (env\<lparr>re_addTxs := f\<rparr>) = validateProof env"
    by (intro ext, simp add: validateAsset_def validateProof_def cong: if_cong option.case_cong)+
  then have "validateTx (env\<lparr>re_addTxs := f\<rparr>) = validateTx env" by (intro ext) (simp add: validateTx_def Let_def cong: if_cong)
  then have "validateTxs (env\<lparr>re_addTxs := f\<rparr>) = validateTxs env" by (intro ext) (simp add: validateTxs_def)
  then show ?thesis by (intro ext) (simp add: acceptTxs_def validateRequest_def cong: if_cong)
qed

text \<open>The same request, refused by a limiter that grants no deposits, and by a database that fails.\<close>

theorem refused_request_stores_nothing_witness:
  "\<exists>s1 s2. receiveTxs sampleEnv sampleRequest ''client'' False False (sampleState\<lparr>rs_rateLimiter := newRateLimiter 0\<rparr>)
       = (Inl (Thrown ''Exceeded deposit limit''), s1) \<and> rs_added s1 = [] \<and> depositsUsed 2000 (rs_rateLimiter s1) ''client'' = 0
     \<and> receiveTxs (sampleEnv\<lparr>re_addTxs := \<lambda>_. Inl (Thrown ''database'')\<rparr>) sampleRequest ''client'' False False sampleState
       = (Inl (Thrown ''database''), s2) \<and> rs_added s2 = [] \<and> depositsUsed 2000 (rs_rateLimiter s2) ''client'' = 1"
proof -
  let ?s1 = "sampleState\<lparr>rs_rateLimiter := newRateLimiter 0\<rparr>" and ?env = "sampleEnv\<lparr>re_addTxs := \<lambda>_. Inl (Thrown ''database'')\<rparr>"
  obtain d1 d2 n1 n2 where a: "acceptTxs sampleEnv sampleRequest False False = Inr ([TX_DEPOSIT, TX_TRANSFER], [d1, d2], [js_int n1, js_int n2])"
    by (rule sample_accepted)
  note run = receiveTxs_def addTxsToDb_def withExcess_def withExcess_int sampleState_def rl_add_def newRateLimiter_def checkAndRefresh_def
    storedValue_def Let_def a otherDb_accepts
  have now: "re_now sampleEnv i = 2000" for i by (simp add: sampleEnv_def)
  obtain s1 s2 where r: "receiveTxs sampleEnv sampleRequest ''client'' False False ?s1 = (Inl (Thrown ''Exceeded deposit limit''), s1)"
    "receiveTxs ?env sampleRequest ''client'' False False sampleState = (Inl (Thrown ''database''), s2)"
    by (simp add: run now)
  have u: "depositsUsed 2000 (newRateLimiter n) ''client'' = 0" for n
    by (simp add: depositsUsed_def newRateLimiter_def getCurrentValue_def checkAndRefresh_def storedValue_def)
  have s: "rs_added sampleState = []" "rs_rateLimiter sampleState = newRateLimiter 10" "rl_limitPerDay (newRateLimiter n) = n" for n
    by (simp_all add: sampleState_def newRateLimiter_def)
  show ?thesis
    using refused_request_stores_nothing [OF r(1)] refused_request_stores_nothing [OF r(2)] r
    by (auto simp: a otherDb_accepts now s u depositsCounted_def Let_def)
qed

end
