(* ===== verification/ProofRequests.thy ===== *)
theory ProofRequests
  imports ClientTx
begin

text \<open>
  The requests the sequencer sends to the rollup prover (\<open>halloumi/src/proof_generator\<close>): \<open>TxRollup\<close>
  (\<open>tx_rollup.ts\<close>), \<open>RootRollup\<close> (\<open>root_rollup.ts\<close>), \<open>ClaimProof\<close> (\<open>claim_proof.ts\<close>), \<open>RootVerifier\<close>
  (\<open>root_verifier.ts\<close>) and the tagged requests around them (\<open>proof_request.ts\<close>), with their formats.
\<close>

section \<open>TxRollup\<close>

record txRollup =
  tr_rollupHash :: buffer
  tr_rollupId :: int
  tr_dataStartIndex :: int
  tr_proofs :: "buffer list"
  tr_oldDataRoot :: buffer
  tr_newDataRoot :: buffer
  tr_oldDataPath :: hashPath
  tr_linkedCommitmentPaths :: "hashPath list"
  tr_linkedCommitmentIndices :: "int list"
  tr_oldNullRoot :: buffer
  tr_newNullRoots :: "buffer list"
  tr_oldNullPaths :: "hashPath list"
  tr_dataRootsRoot :: buffer
  tr_dataRootsPaths :: "hashPath list"
  tr_dataRootsIndicies :: "int list"
  tr_newDefiRoot :: buffer
  tr_bridgeCallDatas :: "buffer list"
  tr_assetIds :: "buffer list"

text \<open>The constructor fills \<open>rollupHash\<close>; its other fields are those of the record it is given.\<close>

definition proofTxId :: "(buffer \<Rightarrow> buffer) \<Rightarrow> buffer \<Rightarrow> buffer res" where
  "proofTxId keccak p = bindE (newProofData p None) (\<lambda>d. mapR fst (ProofData_txId keccak d))"

definition newTxRollup :: "(buffer \<Rightarrow> buffer) \<Rightarrow> (buffer \<Rightarrow> buffer) \<Rightarrow> txRollup \<Rightarrow> txRollup res" where
  "newTxRollup keccak sha256 r =
     bindE (mapE (proofTxId keccak) (tr_proofs r)) (\<lambda>txIds. Inr (r\<lparr>tr_rollupHash := sha256 (concat txIds)\<rparr>))"

definition serializeEach :: "('a \<Rightarrow> buffer res) \<Rightarrow> 'a list \<Rightarrow> buffer res" where
  "serializeEach ser xs = bindE (mapE ser xs) serializeBufferArrayToVector"

definition TxRollup_toBuffer :: "txRollup \<Rightarrow> buffer res" where
  "TxRollup_toBuffer r =
     bindE (numToUInt32BE (tr_rollupId r) 4) (\<lambda>rollupId.
     bindE (numToUInt32BE (int (length (tr_proofs r))) 4) (\<lambda>numTxs.
     bindE (numToUInt32BE (tr_dataStartIndex r) 4) (\<lambda>dataStartIndex.
     bindE (serializeEach serializeBufferToVector (tr_proofs r)) (\<lambda>proofs.
     bindE (HashPath_toBuffer (tr_oldDataPath r)) (\<lambda>oldDataPath.
     bindE (serializeEach HashPath_toBuffer (tr_linkedCommitmentPaths r)) (\<lambda>linkedPaths.
     bindE (serializeEach (\<lambda>i. numToUInt32BE i 4) (tr_linkedCommitmentIndices r)) (\<lambda>linkedIndices.
     bindE (serializeBufferArrayToVector (tr_newNullRoots r)) (\<lambda>newNullRoots.
     bindE (serializeEach HashPath_toBuffer (tr_oldNullPaths r)) (\<lambda>oldNullPaths.
     bindE (serializeEach HashPath_toBuffer (tr_dataRootsPaths r)) (\<lambda>dataRootsPaths.
     bindE (serializeEach (\<lambda>i. numToUInt32BE i 4) (tr_dataRootsIndicies r)) (\<lambda>dataRootsIndicies.
     bindE (serializeBufferArrayToVector (tr_bridgeCallDatas r)) (\<lambda>bridgeCallDatas.
     bindE (serializeBufferArrayToVector (tr_assetIds r)) (\<lambda>assetIds.
     Inr (concat [rollupId, numTxs, dataStartIndex, proofs, tr_oldDataRoot r, tr_newDataRoot r, oldDataPath,
       linkedPaths, linkedIndices, tr_oldNullRoot r, newNullRoots, oldNullPaths, tr_dataRootsRoot r,
       dataRootsPaths, dataRootsIndicies, tr_newDefiRoot r, bridgeCallDatas, assetIds]))))))))))))))"

definition TxRollup_fromBuffer :: "(buffer \<Rightarrow> buffer) \<Rightarrow> (buffer \<Rightarrow> buffer) \<Rightarrow> buffer \<Rightarrow> txRollup res" where
  "TxRollup_fromBuffer keccak sha256 buf =
     bindE (readUInt32BE buf 0) (\<lambda>rollupId.
     bindE (readUInt32BE buf 8) (\<lambda>dataStartIndex.
     let offset = 12 in
     bindE (deserializeArrayFromVector deserializeBufferFromVector buf offset) (\<lambda>(proofs, adv).
     let offset = offset + adv in
     bindE (deserializeField buf offset) (\<lambda>(oldDataRoot, adv).
     let offset = offset + adv in
     bindE (deserializeField buf offset) (\<lambda>(newDataRoot, adv).
     let offset = offset + adv in
     bindE (HashPath_deserialize buf offset) (\<lambda>(oldDataPath, adv).
     let offset = offset + adv in
     bindE (deserializeArrayFromVector HashPath_deserialize buf offset) (\<lambda>(linkedCommitmentPaths, adv).
     let offset = offset + adv in
     bindE (deserializeArrayFromVector deserializeUInt32 buf offset) (\<lambda>(linkedCommitmentIndices, adv).
     let offset = offset + adv in
     bindE (deserializeField buf offset) (\<lambda>(oldNullRoot, adv).
     let offset = offset + adv in
     bindE (deserializeArrayFromVector deserializeField buf offset) (\<lambda>(newNullRoots, adv).
     let offset = offset + adv in
     bindE (deserializeArrayFromVector HashPath_deserialize buf offset) (\<lambda>(oldNullPaths, adv).
     let offset = offset + adv in
     bindE (deserializeField buf offset) (\<lambda>(dataRootsRoot, adv).
     let offset = offset + adv in
     bindE (deserializeArrayFromVector HashPath_deserialize buf offset) (\<lambda>(dataRootsPaths, adv).
     let offset = offset + adv in
     bindE (deserializeArrayFromVector deserializeUInt32 buf offset) (\<lambda>(dataRootsIndicies, adv).
     let offset = offset + adv in
     bindE (deserializeField buf offset) (\<lambda>(newDefiRoot, adv).
     let offset = offset + adv in
     bindE (deserializeArrayFromVector deserializeField buf offset) (\<lambda>(bridgeCallDatas, adv).
     let offset = offset + adv in
     bindE (deserializeArrayFromVector deserializeField buf offset) (\<lambda>(assetIds, adv).
     newTxRollup keccak sha256
       \<lparr>tr_rollupHash = [], tr_rollupId = rollupId, tr_dataStartIndex = dataStartIndex, tr_proofs = proofs,
        tr_oldDataRoot = oldDataRoot, tr_newDataRoot = newDataRoot, tr_oldDataPath = oldDataPath,
        tr_linkedCommitmentPaths = linkedCommitmentPaths, tr_linkedCommitmentIndices = linkedCommitmentIndices,
        tr_oldNullRoot = oldNullRoot, tr_newNullRoots = newNullRoots, tr_oldNullPaths = oldNullPaths,
        tr_dataRootsRoot = dataRootsRoot, tr_dataRootsPaths = dataRootsPaths,
        tr_dataRootsIndicies = dataRootsIndicies, tr_newDefiRoot = newDefiRoot,
        tr_bridgeCallDatas = bridgeCallDatas, tr_assetIds = assetIds\<rparr>)))))))))))))))))"

section \<open>RootRollup\<close>

record rootRollup =
  rr_rollupId :: int
  rr_proofs :: "buffer list"
  rr_oldDataRootsRoot :: buffer
  rr_newDataRootsRoot :: buffer
  rr_oldDataRootsPath :: hashPath
  rr_oldDefiRoot :: buffer
  rr_newDefiRoot :: buffer
  rr_oldDefiPath :: hashPath
  rr_bridgeCallDatas :: "int list"
  rr_assetIds :: "buffer list"
  rr_defiInteractionNotes :: "buffer list"
  rr_rollupBeneficiary :: ethAddress

definition RootRollup_toBuffer :: "rootRollup \<Rightarrow> buffer res" where
  "RootRollup_toBuffer r =
     bindE (numToUInt32BE (rr_rollupId r) 4) (\<lambda>rollupId.
     bindE (numToUInt32BE (int (length (rr_proofs r))) 4) (\<lambda>numProofs.
     bindE (serializeEach serializeBufferToVector (rr_proofs r)) (\<lambda>proofs.
     bindE (HashPath_toBuffer (rr_oldDataRootsPath r)) (\<lambda>oldDataRootsPath.
     bindE (HashPath_toBuffer (rr_oldDefiPath r)) (\<lambda>oldDefiPath.
     bindE (serializeBufferArrayToVector (map (\<lambda>b. toBufferBE b 32) (rr_bridgeCallDatas r))) (\<lambda>bridgeCallDatas.
     bindE (serializeBufferArrayToVector (rr_assetIds r)) (\<lambda>assetIds.
     bindE (serializeBufferArrayToVector (rr_defiInteractionNotes r)) (\<lambda>notes.
     Inr (concat [rollupId, numProofs, proofs, rr_oldDataRootsRoot r, rr_newDataRootsRoot r, oldDataRootsPath,
       rr_oldDefiRoot r, rr_newDefiRoot r, oldDefiPath, bridgeCallDatas, assetIds, notes,
       EthAddress_toBuffer32 (rr_rollupBeneficiary r)])))))))))"

text \<open>After the roots and the path of the DeFi tree the code advances by the lengths of the data roots tree's.\<close>

definition RootRollup_fromBuffer :: "buffer \<Rightarrow> rootRollup res" where
  "RootRollup_fromBuffer buf =
     bindE (readUInt32BE buf 0) (\<lambda>rollupId.
     let offset = 8 in
     bindE (deserializeArrayFromVector deserializeBufferFromVector buf offset) (\<lambda>(proofs, adv).
     let offset = offset + adv in
     bindE (deserializeField buf offset) (\<lambda>(oldDataRootsRoot, oldDataRootsRootAdv).
     let offset = offset + oldDataRootsRootAdv in
     bindE (deserializeField buf offset) (\<lambda>(newDataRootsRoot, newDataRootsRootAdv).
     let offset = offset + newDataRootsRootAdv in
     bindE (HashPath_deserialize buf offset) (\<lambda>(oldDataRootsPath, oldDataRootsPathAdv).
     let offset = offset + oldDataRootsPathAdv in
     bindE (deserializeField buf offset) (\<lambda>(oldDefiRoot, _).
     let offset = offset + oldDataRootsRootAdv in
     bindE (deserializeField buf offset) (\<lambda>(newDefiRoot, _).
     let offset = offset + newDataRootsRootAdv in
     bindE (HashPath_deserialize buf offset) (\<lambda>(oldDefiPath, _).
     let offset = offset + oldDataRootsPathAdv in
     bindE (deserializeArrayFromVector (deserializeBigInt 32) buf offset) (\<lambda>(bridgeCallDatas, adv).
     let offset = offset + adv in
     bindE (deserializeArrayFromVector deserializeField buf offset) (\<lambda>(assetIds, adv).
     let offset = offset + adv in
     bindE (deserializeArrayFromVector deserializeField buf offset) (\<lambda>(defiInteractionNotes, adv).
     let offset = offset + adv in
     bindE (deserializeField buf offset) (\<lambda>(rollupBeneficiary, _).
     bindE (newEthAddress rollupBeneficiary) (\<lambda>rollupBeneficiary. Inr
       \<lparr>rr_rollupId = rollupId, rr_proofs = proofs, rr_oldDataRootsRoot = oldDataRootsRoot,
        rr_newDataRootsRoot = newDataRootsRoot, rr_oldDataRootsPath = oldDataRootsPath, rr_oldDefiRoot = oldDefiRoot,
        rr_newDefiRoot = newDefiRoot, rr_oldDefiPath = oldDefiPath, rr_bridgeCallDatas = bridgeCallDatas,
        rr_assetIds = assetIds, rr_defiInteractionNotes = defiInteractionNotes,
        rr_rollupBeneficiary = rollupBeneficiary\<rparr>)))))))))))))"

section \<open>ClaimProof\<close>

record claimProof =
  cp_dataRoot :: buffer
  cp_defiRoot :: buffer
  cp_claimNoteIndex :: int
  cp_claimNotePath :: hashPath
  cp_claimNote :: treeClaimNote
  cp_defiInteractionNoteIndex :: int
  cp_defiInteractionNotePath :: hashPath
  cp_defiInteractionNote :: defiInteractionNote
  cp_outputValueA :: int
  cp_outputValueB :: int

definition ClaimProof_toBuffer :: "claimProof \<Rightarrow> buffer res" where
  "ClaimProof_toBuffer p =
    (let s = newSerializer; s = ser_buffer s (cp_dataRoot p); s = ser_buffer s (cp_defiRoot p) in
     bindE (ser_uInt32 s (cp_claimNoteIndex p)) (\<lambda>s.
     bindE (HashPath_toBuffer (cp_claimNotePath p)) (\<lambda>claimNotePath.
     let s = ser_buffer s claimNotePath in
     bindE (TreeClaimNote_toBuffer (cp_claimNote p)) (\<lambda>claimNote.
     let s = ser_buffer s claimNote in
     bindE (ser_uInt32 s (cp_defiInteractionNoteIndex p)) (\<lambda>s.
     bindE (HashPath_toBuffer (cp_defiInteractionNotePath p)) (\<lambda>notePath.
     let s = ser_buffer s notePath in
     bindE (DefiInteractionNote_toBuffer (cp_defiInteractionNote p)) (\<lambda>interactionNote.
     let s = ser_buffer s interactionNote; s = ser_bigInt s (cp_outputValueA p); s = ser_bigInt s (cp_outputValueB p)
     in Inr (ser_getBuffer s))))))))"

definition ClaimProof_deserialize :: "claimProof deserializeFn" where
  "ClaimProof_deserialize buffer offset =
    (let des = newDeserializer buffer offset; (dataRoot, des) = des_buffer 32 des; (defiRoot, des) = des_buffer 32 des in
     bindE (des_uInt32 des) (\<lambda>(claimNoteIndex, des).
     bindE (des_exec HashPath_deserialize des) (\<lambda>(claimNotePath, des).
     bindE (des_exec TreeClaimNote_deserialize des) (\<lambda>(claimNote, des).
     bindE (des_uInt32 des) (\<lambda>(defiInteractionNoteIndex, des).
     bindE (des_exec HashPath_deserialize des) (\<lambda>(defiInteractionNotePath, des).
     bindE (des_exec DefiInteractionNote_deserialize des) (\<lambda>(defiInteractionNote, des).
     bindE (des_bigInt 32 des) (\<lambda>(outputValueA, des).
     bindE (des_bigInt 32 des) (\<lambda>(outputValueB, des). Inr
       (\<lparr>cp_dataRoot = dataRoot, cp_defiRoot = defiRoot, cp_claimNoteIndex = claimNoteIndex,
         cp_claimNotePath = claimNotePath, cp_claimNote = claimNote,
         cp_defiInteractionNoteIndex = defiInteractionNoteIndex,
         cp_defiInteractionNotePath = defiInteractionNotePath, cp_defiInteractionNote = defiInteractionNote,
         cp_outputValueA = outputValueA, cp_outputValueB = outputValueB\<rparr>, des_offset des - offset))))))))))"

definition ClaimProof_fromBuffer :: "buffer \<Rightarrow> claimProof res" where
  "ClaimProof_fromBuffer buf = mapR fst (ClaimProof_deserialize buf 0)"

section \<open>RootVerifier\<close>

datatype rootVerifier = RootVerifier (rv_rootRollupProofBuf: buffer)

definition RootVerifier_toBuffer :: "rootVerifier \<Rightarrow> buffer res" where
  "RootVerifier_toBuffer v = mapR (\<lambda>b. concat [b]) (serializeBufferToVector (rv_rootRollupProofBuf v))"

definition RootVerifier_fromBuffer :: "buffer \<Rightarrow> rootVerifier res" where
  "RootVerifier_fromBuffer buf = bindE (deserializeBufferFromVector buf 0) (\<lambda>(rootRollupProofBuf, _). Inr (RootVerifier rootRollupProofBuf))"

section \<open>The requests\<close>

definition TX_ROLLUP :: int where [simp]: "TX_ROLLUP = 0"
definition ROOT_ROLLUP :: int where [simp]: "ROOT_ROLLUP = 1"
definition CLAIM :: int where [simp]: "CLAIM = 2"
definition ROOT_VERIFIER :: int where [simp]: "ROOT_VERIFIER = 3"

definition taggedRequest :: "int \<Rightarrow> buffer res \<Rightarrow> buffer res" where
  "taggedRequest proofId body = bindE (numToUInt32BE proofId 4) (\<lambda>tag. bindE body (\<lambda>b. Inr (tag @ b)))"

definition TxRollupProofRequest_toBuffer :: "txRollup \<Rightarrow> buffer res" where
  "TxRollupProofRequest_toBuffer r = taggedRequest TX_ROLLUP (TxRollup_toBuffer r)"

definition TxRollupProofRequest_fromBuffer :: "(buffer \<Rightarrow> buffer) \<Rightarrow> (buffer \<Rightarrow> buffer) \<Rightarrow> buffer \<Rightarrow> txRollup res" where
  "TxRollupProofRequest_fromBuffer keccak sha256 buf = TxRollup_fromBuffer keccak sha256 (drop 4 buf)"

definition RootRollupProofRequest_toBuffer :: "rootRollup \<Rightarrow> buffer res" where
  "RootRollupProofRequest_toBuffer r = taggedRequest ROOT_ROLLUP (RootRollup_toBuffer r)"

definition ClaimProofRequest_toBuffer :: "claimProof \<Rightarrow> buffer res" where
  "ClaimProofRequest_toBuffer p = taggedRequest CLAIM (ClaimProof_toBuffer p)"

definition RootVerifierProofRequest_toBuffer :: "rootVerifier \<Rightarrow> buffer res" where
  "RootVerifierProofRequest_toBuffer v = taggedRequest ROOT_VERIFIER (RootVerifier_toBuffer v)"

section \<open>Reading the fields back\<close>

lemma reads_field: "length x = 32 \<Longrightarrow> reads deserializeField x x"
  by (rule readsI) (simp add: deserializeField_def slice_at)

lemma reads_each:
  assumes "serializeEach ser xs = Inr b" "\<And>x b. x \<in> set xs \<Longrightarrow> ser x = Inr b \<Longrightarrow> reads fn x b"
  shows "reads (deserializeArrayFromVector fn) xs b"
  using assms by (auto simp: serializeEach_def bindE_eq_Inr intro!: reads_array reads_mapE)

lemma reads_fields:
  assumes "serializeBufferArrayToVector xs = Inr b" "list_all (\<lambda>x. length x = 32) xs"
  shows "reads (deserializeArrayFromVector deserializeField) xs b"
  using assms(2) by (intro reads_array [OF _ assms(1)]) (auto simp: list_all2_conv_all_nth list_all_length intro: reads_field)

lemma reads_paths:
  "serializeEach HashPath_toBuffer ps = Inr b \<Longrightarrow> list_all valid_hashPath ps \<Longrightarrow>
     reads (deserializeArrayFromVector HashPath_deserialize) ps b"
  by (rule reads_each) (auto simp: list_all_iff intro: reads_hashPath)

lemma reads_vectors:
  "serializeEach serializeBufferToVector xs = Inr b \<Longrightarrow>
     reads (deserializeArrayFromVector deserializeBufferFromVector) xs b"
  by (rule reads_each) (auto intro: reads_vector)

lemma reads_indices:
  "serializeEach (\<lambda>i. numToUInt32BE i 4) xs = Inr b \<Longrightarrow> reads (deserializeArrayFromVector deserializeUInt32) xs b"
  by (rule reads_each) (auto intro: reads_uInt32)

lemma exec_at:
  assumes "at buf off (b @ rest)" "reads fn x b"
  shows "des_exec fn (newDeserializer buf off) = Inr (x, newDeserializer buf (off + length b))"
  using at_reads [OF assms] by (simp add: des_exec_def newDeserializer_def)

lemma buffer_at:
  assumes "at buf off (b @ rest)" "length b = w"
  shows "des_buffer w (newDeserializer buf off) = (b, newDeserializer buf (off + w))"
  using at_slice [OF assms] by (simp add: des_buffer_def newDeserializer_def)

text \<open>What the constructors of the program put into the fields.\<close>

definition valid_txRollup :: "txRollup \<Rightarrow> bool" where
  "valid_txRollup r \<longleftrightarrow> length (tr_oldDataRoot r) = 32 \<and> length (tr_newDataRoot r) = 32
     \<and> valid_hashPath (tr_oldDataPath r) \<and> list_all valid_hashPath (tr_linkedCommitmentPaths r)
     \<and> length (tr_oldNullRoot r) = 32 \<and> list_all (\<lambda>x. length x = 32) (tr_newNullRoots r)
     \<and> list_all valid_hashPath (tr_oldNullPaths r) \<and> length (tr_dataRootsRoot r) = 32
     \<and> list_all valid_hashPath (tr_dataRootsPaths r) \<and> length (tr_newDefiRoot r) = 32
     \<and> list_all (\<lambda>x. length x = 32) (tr_bridgeCallDatas r) \<and> list_all (\<lambda>x. length x = 32) (tr_assetIds r)"

lemma TxRollup_decode:
  assumes v: "valid_txRollup r" and h: "newTxRollup keccak sha256 r = Inr r" and b: "TxRollup_toBuffer r = Inr buf"
  shows "TxRollup_fromBuffer keccak sha256 buf = Inr r"
proof -
  note v = v [unfolded valid_txRollup_def]
  from b obtain ps op lp li nr np dp di bc ai where
    u: "u32 (tr_rollupId r)" "u32 (tr_dataStartIndex r)"
    and e: "serializeEach serializeBufferToVector (tr_proofs r) = Inr ps" "HashPath_toBuffer (tr_oldDataPath r) = Inr op"
      "serializeEach HashPath_toBuffer (tr_linkedCommitmentPaths r) = Inr lp"
      "serializeEach (\<lambda>i. numToUInt32BE i 4) (tr_linkedCommitmentIndices r) = Inr li"
      "serializeBufferArrayToVector (tr_newNullRoots r) = Inr nr"
      "serializeEach HashPath_toBuffer (tr_oldNullPaths r) = Inr np"
      "serializeEach HashPath_toBuffer (tr_dataRootsPaths r) = Inr dp"
      "serializeEach (\<lambda>i. numToUInt32BE i 4) (tr_dataRootsIndicies r) = Inr di"
      "serializeBufferArrayToVector (tr_bridgeCallDatas r) = Inr bc" "serializeBufferArrayToVector (tr_assetIds r) = Inr ai"
    and b: "buf = be_bytes 4 (nat (tr_rollupId r)) @ be_bytes 4 (length (tr_proofs r))
      @ be_bytes 4 (nat (tr_dataStartIndex r)) @ ps @ tr_oldDataRoot r @ tr_newDataRoot r @ op @ lp @ li
      @ tr_oldNullRoot r @ nr @ np @ tr_dataRootsRoot r @ dp @ di @ tr_newDefiRoot r @ bc @ ai @ []"
    unfolding TxRollup_toBuffer_def by (auto simp: bindE_eq_Inr numToUInt32BE_u32 simp del: be_bytes.simps)
  have "reads HashPath_deserialize (tr_oldDataPath r) op" using v e(2) by (intro reads_hashPath) simp_all
  note rd = reads_vectors [OF e(1)] this reads_paths [OF e(3)] reads_indices [OF e(4)] reads_fields [OF e(5)]
    reads_paths [OF e(6)] reads_paths [OF e(7)] reads_indices [OF e(8)] reads_fields [OF e(9)] reads_fields [OF e(10)]
  have f: "reads deserializeField (tr_oldDataRoot r) (tr_oldDataRoot r)" "reads deserializeField (tr_newDataRoot r) (tr_newDataRoot r)"
    "reads deserializeField (tr_oldNullRoot r) (tr_oldNullRoot r)" "reads deserializeField (tr_dataRootsRoot r) (tr_dataRootsRoot r)"
    "reads deserializeField (tr_newDefiRoot r) (tr_newDefiRoot r)" using v by (simp_all add: reads_field)
  have vs: "list_all valid_hashPath (tr_linkedCommitmentPaths r)" "list_all (\<lambda>x. length x = 32) (tr_newNullRoots r)"
    "list_all valid_hashPath (tr_oldNullPaths r)" "list_all valid_hashPath (tr_dataRootsPaths r)"
    "list_all (\<lambda>x. length x = 32) (tr_bridgeCallDatas r)" "list_all (\<lambda>x. length x = 32) (tr_assetIds r)"
    using v by simp_all
  note a0 = at_start [OF b] note a1 = at_next [OF a0 length_be_bytes] note a2' = at_next [OF a1 length_be_bytes]
  have a2: "at buf 8 (be_bytes 4 (nat (tr_dataStartIndex r)) @ ps @ tr_oldDataRoot r @ tr_newDataRoot r @ op @ lp @ li
      @ tr_oldNullRoot r @ nr @ np @ tr_dataRootsRoot r @ dp @ di @ tr_newDefiRoot r @ bc @ ai @ [])"
    using a2' by (simp del: be_bytes.simps)
  have a3: "at buf 12 (ps @ tr_oldDataRoot r @ tr_newDataRoot r @ op @ lp @ li
      @ tr_oldNullRoot r @ nr @ np @ tr_dataRootsRoot r @ dp @ di @ tr_newDefiRoot r @ bc @ ai @ [])"
    using at_next [OF a2 length_be_bytes] by simp
  note b1 = at_next [OF a3 refl] note b2 = at_next [OF b1 refl] note b3 = at_next [OF b2 refl]
  note b4 = at_next [OF b3 refl] note b5 = at_next [OF b4 refl] note b6 = at_next [OF b5 refl]
  note b7 = at_next [OF b6 refl] note b8 = at_next [OF b7 refl] note b9 = at_next [OF b8 refl]
  note b10 = at_next [OF b9 refl] note b11 = at_next [OF b10 refl] note b12 = at_next [OF b11 refl]
  note b13 = at_next [OF b12 refl] note b14 = at_next [OF b13 refl]
  from h show ?thesis
    unfolding TxRollup_fromBuffer_def Let_def at_u32 [OF a0 u(1)] at_u32 [OF a2 u(2)] bindE_Inr case_prod_conv
      at_reads [OF a3 rd(1)] at_reads [OF b1 f(1)] at_reads [OF b2 f(2)] at_reads [OF b3 rd(2)]
      at_reads [OF b4 rd(3) [OF vs(1)]] at_reads [OF b5 rd(4)] at_reads [OF b6 f(3)] at_reads [OF b7 rd(5) [OF vs(2)]]
      at_reads [OF b8 rd(6) [OF vs(3)]] at_reads [OF b9 f(4)] at_reads [OF b10 rd(7) [OF vs(4)]] at_reads [OF b11 rd(8)]
      at_reads [OF b12 f(5)] at_reads [OF b13 rd(9) [OF vs(5)]] at_reads [OF b14 rd(10) [OF vs(6)]]
    by (cases r) (auto simp: newTxRollup_def bindE_eq_Inr)
qed

definition valid_rootRollup :: "rootRollup \<Rightarrow> bool" where
  "valid_rootRollup r \<longleftrightarrow> length (rr_oldDataRootsRoot r) = 32 \<and> length (rr_newDataRootsRoot r) = 32
     \<and> valid_hashPath (rr_oldDataRootsPath r) \<and> length (rr_oldDefiRoot r) = 32 \<and> length (rr_newDefiRoot r) = 32
     \<and> valid_hashPath (rr_oldDefiPath r) \<and> list_all word32 (rr_bridgeCallDatas r)
     \<and> list_all (\<lambda>x. length x = 32) (rr_assetIds r) \<and> list_all (\<lambda>x. length x = 32) (rr_defiInteractionNotes r)
     \<and> valid_ethAddress (rr_rollupBeneficiary r)"

lemma length_hashPath:
  assumes "valid_hashPath p" "HashPath_toBuffer p = Inr b"
  shows "length b = 4 + 64 * length p"
proof -
  from assms(2) obtain bs l where bs: "mapE pathElement p = Inr bs" and l: "writeUInt32BE (int (length bs)) = Inr l"
    and b: "b = l @ concat bs"
    by (auto simp: HashPath_toBuffer_def serializeBufferArrayToVector_def bindE_eq_Inr mapR_eq_Inr)
  have "length x = 64" if "x \<in> set bs" for x
  proof -
    from that obtain i where i: "i < length p" "x = bs ! i" using mapE_Inr_length [OF bs] by (auto simp: in_set_conv_nth)
    from i(1) assms(1) have n: "length (p ! i) = 2" "list_all (\<lambda>b. length b = 32) (p ! i)" by (simp_all add: valid_hashPath_def list_all_length)
    from n(1) obtain u w where "p ! i = [u, w]" by (rule length2E)
    with mapE_Inr_nth [OF bs i(1)] n(2) have "bs ! i = u @ w" "length u = 32" "length w = 32" by (simp_all add: pathElement_def)
    with i(2) show ?thesis by simp
  qed
  then have "length (concat bs) = 64 * length bs" by (induction bs) auto
  then show ?thesis using b writeUInt32BE_length [OF l] mapE_Inr_length [OF bs] by simp
qed

lemma reads_bigInts:
  assumes "serializeBufferArrayToVector (map (\<lambda>b. toBufferBE b 32) xs) = Inr b" "list_all word32 xs"
  shows "reads (deserializeArrayFromVector (deserializeBigInt 32)) xs b"
  using assms(2) by (intro reads_array [OF _ assms(1)])
    (auto simp: list_all2_conv_all_nth list_all_length word32_def reads_bigInt [unfolded serializeBigInt_def])

lemma RootRollup_decode:
  assumes v: "valid_rootRollup r" and d: "length (rr_oldDefiPath r) = length (rr_oldDataRootsPath r)"
    and b: "RootRollup_toBuffer r = Inr buf"
  shows "RootRollup_fromBuffer buf = Inr r"
proof -
  note v = v [unfolded valid_rootRollup_def]
  from b obtain ps rp dp bc ai ns where u: "u32 (rr_rollupId r)"
    and e: "serializeEach serializeBufferToVector (rr_proofs r) = Inr ps" "HashPath_toBuffer (rr_oldDataRootsPath r) = Inr rp"
      "HashPath_toBuffer (rr_oldDefiPath r) = Inr dp"
      "serializeBufferArrayToVector (map (\<lambda>b. toBufferBE b 32) (rr_bridgeCallDatas r)) = Inr bc"
      "serializeBufferArrayToVector (rr_assetIds r) = Inr ai" "serializeBufferArrayToVector (rr_defiInteractionNotes r) = Inr ns"
    and b: "buf = be_bytes 4 (nat (rr_rollupId r)) @ be_bytes 4 (length (rr_proofs r)) @ ps @ rr_oldDataRootsRoot r
      @ rr_newDataRootsRoot r @ rp @ rr_oldDefiRoot r @ rr_newDefiRoot r @ dp @ bc @ ai @ ns
      @ EthAddress_toBuffer32 (rr_rollupBeneficiary r) @ []"
    unfolding RootRollup_toBuffer_def by (auto simp: bindE_eq_Inr numToUInt32BE_u32 simp del: be_bytes.simps)
  have vp: "valid_hashPath (rr_oldDataRootsPath r)" "valid_hashPath (rr_oldDefiPath r)"
    and vl: "list_all word32 (rr_bridgeCallDatas r)" "list_all (\<lambda>x. length x = 32) (rr_assetIds r)"
      "list_all (\<lambda>x. length x = 32) (rr_defiInteractionNotes r)" using v by simp_all
  have f: "reads deserializeField (rr_oldDataRootsRoot r) (rr_oldDataRootsRoot r)"
    "reads deserializeField (rr_newDataRootsRoot r) (rr_newDataRootsRoot r)"
    "reads deserializeField (rr_oldDefiRoot r) (rr_oldDefiRoot r)" "reads deserializeField (rr_newDefiRoot r) (rr_newDefiRoot r)"
    "reads deserializeField (EthAddress_toBuffer32 (rr_rollupBeneficiary r)) (EthAddress_toBuffer32 (rr_rollupBeneficiary r))"
    using v by (simp_all add: reads_field length_toBuffer32)
  have l: "length (rr_oldDefiRoot r) = length (rr_oldDataRootsRoot r)" "length (rr_newDefiRoot r) = length (rr_newDataRootsRoot r)"
    "length dp = length rp"
    using v d length_hashPath [OF vp(1) e(2)] length_hashPath [OF vp(2) e(3)] by simp_all
  note a0 = at_start [OF b] note a1 = at_next [OF a0 length_be_bytes] note a2' = at_next [OF a1 length_be_bytes]
  have a2: "at buf 8 (ps @ rr_oldDataRootsRoot r @ rr_newDataRootsRoot r @ rp @ rr_oldDefiRoot r @ rr_newDefiRoot r
      @ dp @ bc @ ai @ ns @ EthAddress_toBuffer32 (rr_rollupBeneficiary r) @ [])"
    using a2' by (simp del: be_bytes.simps)
  note a3 = at_next [OF a2 refl] note a4 = at_next [OF a3 refl] note a5 = at_next [OF a4 refl]
  note a6 = at_next [OF a5 refl] note a7 = at_next [OF a6 l(1)] note a8 = at_next [OF a7 l(2)]
  note a9 = at_next [OF a8 l(3)] note a10 = at_next [OF a9 refl] note a11 = at_next [OF a10 refl]
  note a12 = at_next [OF a11 refl]
  have n: "newEthAddress (EthAddress_toBuffer32 (rr_rollupBeneficiary r)) = Inr (rr_rollupBeneficiary r)"
    using v by (simp add: newEthAddress_toBuffer32)
  show ?thesis
    unfolding RootRollup_fromBuffer_def Let_def at_u32 [OF a0 u] bindE_Inr case_prod_conv
      at_reads [OF a2 reads_vectors [OF e(1)]] at_reads [OF a3 f(1)] at_reads [OF a4 f(2)]
      at_reads [OF a5 reads_hashPath [OF vp(1) e(2)]] at_reads [OF a6 f(3)] at_reads [OF a7 f(4)]
      at_reads [OF a8 reads_hashPath [OF vp(2) e(3)]] at_reads [OF a9 reads_bigInts [OF e(4) vl(1)]]
      at_reads [OF a10 reads_fields [OF e(5) vl(2)]] at_reads [OF a11 reads_fields [OF e(6) vl(3)]] at_reads [OF a12 f(5)] n
    by simp
qed

definition valid_claimProof :: "claimProof \<Rightarrow> bool" where
  "valid_claimProof p \<longleftrightarrow> length (cp_dataRoot p) = 32 \<and> length (cp_defiRoot p) = 32 \<and> valid_hashPath (cp_claimNotePath p)
     \<and> valid_treeClaimNote (cp_claimNote p) \<and> valid_hashPath (cp_defiInteractionNotePath p)
     \<and> valid_interactionNote (cp_defiInteractionNote p) \<and> word32 (cp_outputValueA p) \<and> word32 (cp_outputValueB p)"

lemma reads_claimNote:
  assumes "valid_treeClaimNote n" "TreeClaimNote_toBuffer n = Inr b"
  shows "reads TreeClaimNote_deserialize n b"
proof (rule readsI)
  fix pre post :: buffer and off assume off: "length pre = off"
  have l: "length b = 164" by (rule tree_claim_note_codec.enc_width [OF assms])
  have "bslice (pre @ b @ post) off (off + 164) = b" using off l by (intro slice_at) simp_all
  moreover have "TreeClaimNote_fromBuffer b = Inr n" using tree_claim_note_codec.dec_enc [OF assms, of "[]"] by simp
  ultimately show "TreeClaimNote_deserialize (pre @ b @ post) off = Inr (n, length b)"
    using l by (simp add: TreeClaimNote_deserialize_def)
qed

lemma reads_claimProof:
  assumes v: "valid_claimProof p" and b: "ClaimProof_toBuffer p = Inr b"
  shows "reads ClaimProof_deserialize p b"
proof (rule readsI)
  fix pre post :: buffer and off assume off: "length pre = off"
  note v = v [unfolded valid_claimProof_def]
  from b obtain ci cpth cn di dpth dn where
    e: "numToUInt32BE (cp_claimNoteIndex p) 4 = Inr ci" "HashPath_toBuffer (cp_claimNotePath p) = Inr cpth"
      "TreeClaimNote_toBuffer (cp_claimNote p) = Inr cn" "numToUInt32BE (cp_defiInteractionNoteIndex p) 4 = Inr di"
      "HashPath_toBuffer (cp_defiInteractionNotePath p) = Inr dpth"
      "DefiInteractionNote_toBuffer (cp_defiInteractionNote p) = Inr dn"
    and b: "b = cp_dataRoot p @ cp_defiRoot p @ ci @ cpth @ cn @ di @ dpth @ dn
      @ serializeBigInt (cp_outputValueA p) 32 @ serializeBigInt (cp_outputValueB p) 32"
    unfolding ClaimProof_toBuffer_def Let_def
    by (auto simp: bindE_eq_Inr mapR_eq_Inr ser_uInt32_def ser_buffer_def ser_bigInt_def ser_push_def newSerializer_def ser_getBuffer_def)
  let ?buf = "pre @ b @ post"
  have l: "length (cp_dataRoot p) = 32" "length (cp_defiRoot p) = 32" using v by simp_all
  have rd: "reads HashPath_deserialize (cp_claimNotePath p) cpth" "reads TreeClaimNote_deserialize (cp_claimNote p) cn"
    "reads HashPath_deserialize (cp_defiInteractionNotePath p) dpth"
    "reads DefiInteractionNote_deserialize (cp_defiInteractionNote p) dn"
    "reads (deserializeBigInt 32) (cp_outputValueA p) (serializeBigInt (cp_outputValueA p) 32)"
    "reads (deserializeBigInt 32) (cp_outputValueB p) (serializeBigInt (cp_outputValueB p) 32)"
    using v e by (auto intro: reads_hashPath reads_claimNote reads_interactionNote reads_bigInt simp: word32_def)
  have a0: "at ?buf off (cp_dataRoot p @ cp_defiRoot p @ ci @ cpth @ cn @ di @ dpth @ dn
      @ serializeBigInt (cp_outputValueA p) 32 @ serializeBigInt (cp_outputValueB p) 32 @ post)"
    using off by (simp add: at_def b)
  note a1 = at_next [OF a0 l(1)] note a2 = at_next [OF a1 l(2)] note a3 = at_next [OF a2 refl] note a4 = at_next [OF a3 refl]
  note a5 = at_next [OF a4 refl] note a6 = at_next [OF a5 refl] note a7 = at_next [OF a6 refl] note a8 = at_next [OF a7 refl]
  note a9 = at_next [OF a8 refl]
  show "ClaimProof_deserialize ?buf off = Inr (p, length b)"
    unfolding ClaimProof_deserialize_def Let_def buffer_at [OF a0 l(1)] case_prod_conv buffer_at [OF a1 l(2)] des_uInt32_def
      exec_at [OF a2 reads_uInt32 [OF e(1)]] bindE_Inr exec_at [OF a3 rd(1)] exec_at [OF a4 rd(2)]
      exec_at [OF a5 reads_uInt32 [OF e(4)]] exec_at [OF a6 rd(3)] exec_at [OF a7 rd(4)] des_bigInt_def
      exec_at [OF a8 rd(5)] exec_at [OF a9 rd(6)]
    using l by (simp add: newDeserializer_def b)
qed

section \<open>Properties\<close>

text \<open>A request for an inner rollup proof survives its format: all paths, roots, indices and proofs are
  rebuilt, the tag in front is skipped and the hash recomputed from the proofs is the one of the request.\<close>

theorem tx_rollup_request_roundtrip:
  assumes "valid_txRollup r" "newTxRollup keccak sha256 r = Inr r" "TxRollupProofRequest_toBuffer r = Inr buf"
  shows "TxRollupProofRequest_fromBuffer keccak sha256 buf = Inr r"
proof -
  from assms(3) obtain b where "TxRollup_toBuffer r = Inr b" "buf = be_bytes 4 0 @ b"
    unfolding TxRollupProofRequest_toBuffer_def taggedRequest_def
    by (auto simp: bindE_eq_Inr numToUInt32BE_u32 simp del: be_bytes.simps)
  with TxRollup_decode [OF assms(1,2)] show ?thesis by (simp add: TxRollupProofRequest_fromBuffer_def del: be_bytes.simps)
qed

definition sampleTxRollup :: txRollup where
  "sampleTxRollup = \<lparr>tr_rollupHash = zeros 32, tr_rollupId = 3, tr_dataStartIndex = 8, tr_proofs = [zeros 64],
     tr_oldDataRoot = zeros 32, tr_newDataRoot = zeros 32, tr_oldDataPath = [[zeros 32, zeros 32]],
     tr_linkedCommitmentPaths = [[[zeros 32, zeros 32]]], tr_linkedCommitmentIndices = [5], tr_oldNullRoot = zeros 32,
     tr_newNullRoots = [zeros 32, zeros 32], tr_oldNullPaths = [], tr_dataRootsRoot = zeros 32, tr_dataRootsPaths = [],
     tr_dataRootsIndicies = [2], tr_newDefiRoot = zeros 32, tr_bridgeCallDatas = [zeros 32], tr_assetIds = []\<rparr>"

theorem tx_rollup_request_roundtrip_witness:
  "\<exists>buf. TxRollupProofRequest_toBuffer sampleTxRollup = Inr buf
     \<and> TxRollupProofRequest_fromBuffer (\<lambda>_. zeros 32) (\<lambda>_. zeros 32) buf = Inr sampleTxRollup"
proof -
  have "isOk (TxRollupProofRequest_toBuffer sampleTxRollup)"
    by (simp add: TxRollupProofRequest_toBuffer_def taggedRequest_def TxRollup_toBuffer_def sampleTxRollup_def
        numToUInt32BE_ok u32_def serializeEach_def HashPath_toBuffer_def pathElement_def
        serializeBufferArrayToVector_def serializeBufferToVector_def del: be_bytes.simps)
  then obtain buf where b: "TxRollupProofRequest_toBuffer sampleTxRollup = Inr buf" by (auto simp: isOk_iff)
  have "valid_txRollup sampleTxRollup" by (simp add: valid_txRollup_def sampleTxRollup_def valid_hashPath_def)
  moreover have "newTxRollup (\<lambda>_. zeros 32) (\<lambda>_. zeros 32) sampleTxRollup = Inr sampleTxRollup"
    by (simp add: newTxRollup_def sampleTxRollup_def proofTxId_def newProofData_def ProofData_txId_def
        createTxId_def readUInt32BE_def bslice_def)
  ultimately show ?thesis using tx_rollup_request_roundtrip [OF _ _ b] b by blast
qed

text \<open>A root rollup survives its format when the two trees have paths of the same length; a claim proof and a
  request to verify a root proof always do.\<close>

theorem root_rollup_roundtrip:
  assumes "valid_rootRollup r" "length (rr_oldDefiPath r) = length (rr_oldDataRootsPath r)" "RootRollup_toBuffer r = Inr buf"
  shows "RootRollup_fromBuffer buf = Inr r"
  by (rule RootRollup_decode [OF assms])

theorem claim_proof_roundtrip:
  assumes "valid_claimProof p" "ClaimProof_toBuffer p = Inr buf"
  shows "ClaimProof_fromBuffer buf = Inr p"
  using readsD [OF reads_claimProof [OF assms], of "[]" 0 "[]"] by (simp add: ClaimProof_fromBuffer_def)

theorem root_verifier_roundtrip: "RootVerifier_toBuffer v = Inr buf \<Longrightarrow> RootVerifier_fromBuffer buf = Inr v"
  by (cases v) (auto simp: RootVerifier_toBuffer_def RootVerifier_fromBuffer_def mapR_eq_Inr dest: readsD [OF reads_vector, of _ _ "[]" 0 "[]"])

text \<open>With paths of different lengths, as the trees of the program have (28 and 30 levels), decoding goes on at the wrong
  offset: here the bridge call is lost.\<close>

definition sampleRootRollup :: rootRollup where
  "sampleRootRollup = \<lparr>rr_rollupId = 3, rr_proofs = [], rr_oldDataRootsRoot = zeros 32, rr_newDataRootsRoot = zeros 32,
     rr_oldDataRootsPath = [], rr_oldDefiRoot = zeros 32, rr_newDefiRoot = zeros 32, rr_oldDefiPath = [[zeros 32, zeros 32]],
     rr_bridgeCallDatas = [7], rr_assetIds = [], rr_defiInteractionNotes = [], rr_rollupBeneficiary = EthAddress_ZERO\<rparr>"

theorem root_rollup_other_depths_lost:
  "bindE (RootRollup_toBuffer sampleRootRollup) RootRollup_fromBuffer \<noteq> Inr sampleRootRollup"
  by code_simp

end
