(* ===== verification/JobServer.thy ===== *)
theory JobServer
  imports ProofRequests
begin

text \<open>
  The job server of the prover (\<open>halloumi/src/proof_generator/http_job_server.ts\<close>, \<open>http_job_protocol.ts\<close>): callers
  create jobs, workers request them over HTTP, keep them alive by pings and report their results. One event of the
  server is a step: the creation of a job, the arrival of a request for work, the start of the next request,
  one turn of the loop of \<open>getWork\<close> (after which it answers or sleeps), a result, a ping, an interrupt, the stop. The
  clock is the time of the event; log output and the HTTP layer are left out.
\<close>

section \<open>The messages\<close>

definition GET_JOIN_SPLIT_VK :: int where [simp]: "GET_JOIN_SPLIT_VK = 2"
definition GET_ACCOUNT_VK :: int where [simp]: "GET_ACCOUNT_VK = 3"
definition CREATE_PROOF :: int where [simp]: "CREATE_PROOF = 4"
definition ACK :: int where [simp]: "ACK = 5"
definition NACK :: int where [simp]: "NACK = 6"

definition Protocol_pack :: "buffer \<Rightarrow> int \<Rightarrow> buffer option \<Rightarrow> buffer res" where
  "Protocol_pack jobId cmd dat = mapR (\<lambda>c. jobId @ c @ (case dat of None \<Rightarrow> [] | Some d \<Rightarrow> d)) (numToUInt32BE cmd 4)"

definition Protocol_unpack :: "buffer \<Rightarrow> (buffer \<times> int \<times> buffer) res" where
  "Protocol_unpack buf = bindE (readUInt32BE buf 32) (\<lambda>cmd. Inr (bslice buf 0 32, cmd, drop (32 + 4) buf))"

section \<open>The server\<close>

text \<open>A promise keeps the first outcome it is given. \<open>jb_caller\<close> names the promise that \<open>resolve\<close> and \<open>reject\<close> of a job
  settle.\<close>

datatype jobOutcome = Resolved buffer | Failed buffer | Interrupted

record job =
  jb_id :: buffer
  jb_cmd :: int
  jb_timestamp :: int
  jb_data :: "buffer option"
  jb_caller :: nat

record jobServer =
  hs_jobs :: "job list"
  hs_running :: bool
  hs_requests :: "nat list"
  hs_polling :: "nat option"
  hs_answers :: "(int \<times> nat \<times> buffer) list"
  hs_settled :: "nat \<rightharpoonup> jobOutcome"

definition newJobServer :: jobServer where
  "newJobServer = \<lparr>hs_jobs = [], hs_running = True, hs_requests = [], hs_polling = None, hs_answers = [], hs_settled = Map.empty\<rparr>"

definition settle :: "nat \<Rightarrow> jobOutcome \<Rightarrow> (nat \<rightharpoonup> jobOutcome) \<Rightarrow> (nat \<rightharpoonup> jobOutcome)" where
  "settle caller result m = (case m caller of None \<Rightarrow> m(caller \<mapsto> result) | Some _ \<Rightarrow> m)"

definition createJob :: "buffer \<Rightarrow> int \<Rightarrow> buffer option \<Rightarrow> nat \<Rightarrow> jobServer \<Rightarrow> jobServer" where
  "createJob randomId cmd dat caller s = s\<lparr>hs_jobs := hs_jobs s
     @ [\<lparr>jb_id = randomId, jb_cmd = cmd, jb_timestamp = 0, jb_data = dat, jb_caller = caller\<rparr>]\<rparr>"

text \<open>\<open>serialExecute\<close> puts the request into the queue, which drops it once the server has stopped; the queue starts the
  next request when the one before has been answered.\<close>

definition requestWork :: "nat \<Rightarrow> jobServer \<Rightarrow> jobServer" where
  "requestWork r s = (if hs_running s then s\<lparr>hs_requests := hs_requests s @ [r]\<rparr> else s)"

definition startRequest :: "jobServer \<Rightarrow> jobServer" where
  "startRequest s = (case (hs_polling s, hs_requests s) of
     (None, r # rs) \<Rightarrow> s\<lparr>hs_polling := Some r, hs_requests := rs\<rparr> | _ \<Rightarrow> s)"

fun claimJob :: "int \<Rightarrow> int \<Rightarrow> job list \<Rightarrow> (job \<times> job list) option" where
  "claimJob ackTimeout now [] = None"
| "claimJob ackTimeout now (j # jobs) =
    (if now - jb_timestamp j > ackTimeout then Some (j\<lparr>jb_timestamp := now\<rparr>, j\<lparr>jb_timestamp := now\<rparr> # jobs)
     else map_option (\<lambda>(job, jobs). (job, j # jobs)) (claimJob ackTimeout now jobs))"

definition answer :: "int \<Rightarrow> nat \<Rightarrow> buffer \<Rightarrow> jobServer \<Rightarrow> jobServer" where
  "answer now r buf s = s\<lparr>hs_polling := None, hs_answers := hs_answers s @ [(now, r, buf)]\<rparr>"

definition getWork :: "int \<Rightarrow> int \<Rightarrow> jobServer \<Rightarrow> jobServer res" where
  "getWork ackTimeout now s = (case hs_polling s of None \<Rightarrow> Inr s | Some r \<Rightarrow>
     if \<not> hs_running s then Inr (answer now r [] s)
     else (case claimJob ackTimeout now (hs_jobs s) of
       Some (job, jobs) \<Rightarrow> bindE (Protocol_pack (jb_id job) (jb_cmd job) (jb_data job)) (\<lambda>buf.
         Inr (answer now r buf (s\<lparr>hs_jobs := jobs\<rparr>)))
     | None \<Rightarrow> Inr s))"

fun spliceJob :: "buffer \<Rightarrow> job list \<Rightarrow> (job \<times> job list) option" where
  "spliceJob i [] = None"
| "spliceJob i (j # jobs) = (if jb_id j = i then Some (j, jobs) else map_option (\<lambda>(job, jobs). (job, j # jobs)) (spliceJob i jobs))"

definition completeJob :: "buffer \<Rightarrow> jobServer \<Rightarrow> jobServer res" where
  "completeJob buf s = bindE (Protocol_unpack buf) (\<lambda>(i, cmd, dat). Inr (case spliceJob i (hs_jobs s) of
     None \<Rightarrow> s
   | Some (job, jobs) \<Rightarrow> s\<lparr>hs_jobs := jobs,
       hs_settled := settle (jb_caller job) (if cmd = ACK then Resolved dat else Failed dat) (hs_settled s)\<rparr>))"

fun stampJob :: "buffer \<Rightarrow> int \<Rightarrow> job list \<Rightarrow> job list" where
  "stampJob i now [] = []"
| "stampJob i now (j # jobs) = (if jb_id j = i then j\<lparr>jb_timestamp := now\<rparr> # jobs else j # stampJob i now jobs)"

definition ping :: "buffer \<Rightarrow> int \<Rightarrow> jobServer \<Rightarrow> jobServer" where
  "ping jobId now s = s\<lparr>hs_jobs := stampJob jobId now (hs_jobs s)\<rparr>"

definition interruptJobs :: "jobServer \<Rightarrow> jobServer" where
  "interruptJobs s = s\<lparr>hs_settled := fold (\<lambda>j. settle (jb_caller j) Interrupted) (hs_jobs s) (hs_settled s)\<rparr>"

definition stopServer :: "jobServer \<Rightarrow> jobServer" where
  "stopServer s = s\<lparr>hs_running := False, hs_requests := []\<rparr>"

section \<open>Runs\<close>

datatype jobEvent = CreateJob buffer int "buffer option" nat | RequestWork nat | StartRequest | Poll
  | CompleteJob buffer | Ping buffer | Interrupt | Stop

text \<open>A handler that throws leaves the server as it is: the HTTP layer answers with an error.\<close>

definition handled :: "jobServer \<Rightarrow> jobServer res \<Rightarrow> jobServer" where
  "handled s r = (case r of Inl _ \<Rightarrow> s | Inr t \<Rightarrow> t)"

fun serverStep :: "int \<Rightarrow> int \<times> jobEvent \<Rightarrow> jobServer \<Rightarrow> jobServer" where
  "serverStep ackTimeout (now, CreateJob i cmd dat caller) s = createJob i cmd dat caller s"
| "serverStep ackTimeout (now, RequestWork r) s = requestWork r s"
| "serverStep ackTimeout (now, StartRequest) s = startRequest s"
| "serverStep ackTimeout (now, Poll) s = handled s (getWork ackTimeout now s)"
| "serverStep ackTimeout (now, CompleteJob buf) s = handled s (completeJob buf s)"
| "serverStep ackTimeout (now, Ping i) s = ping i now s"
| "serverStep ackTimeout (now, Interrupt) s = interruptJobs s"
| "serverStep ackTimeout (now, Stop) s = stopServer s"

definition runServer :: "int \<Rightarrow> (int \<times> jobEvent) list \<Rightarrow> jobServer \<Rightarrow> jobServer" where
  "runServer ackTimeout es s = fold (serverStep ackTimeout) es s"

fun createdId :: "int \<times> jobEvent \<Rightarrow> buffer list" where
  "createdId (now, CreateJob i cmd dat caller) = [i]" | "createdId e = []"

fun createdCaller :: "int \<times> jobEvent \<Rightarrow> nat list" where
  "createdCaller (now, CreateJob i cmd dat caller) = [caller]" | "createdCaller e = []"

text \<open>Two servers (\<open>http_job_servers.ts\<close>) share the work by the kind of proof.\<close>

record jobServers =
  jss_txRollupAndClaim :: jobServer
  jss_rootAndVerifier :: jobServer

definition createProofJob :: "buffer \<Rightarrow> nat \<Rightarrow> buffer \<Rightarrow> jobServers \<Rightarrow> jobServers res" where
  "createProofJob randomId caller dat s = bindE (readUInt32BE dat 0) (\<lambda>proofId.
     if proofId = CLAIM \<or> proofId = TX_ROLLUP
     then Inr (s\<lparr>jss_txRollupAndClaim := createJob randomId CREATE_PROOF (Some dat) caller (jss_txRollupAndClaim s)\<rparr>)
     else Inr (s\<lparr>jss_rootAndVerifier := createJob randomId CREATE_PROOF (Some dat) caller (jss_rootAndVerifier s)\<rparr>))"

section \<open>The list of jobs\<close>

lemma claimJob_Some:
  assumes "claimJob ack now jobs = Some (job, jobs')"
  obtains pre j post where "jobs = pre @ j # post" "job = j\<lparr>jb_timestamp := now\<rparr>" "jobs' = pre @ job # post"
    "now - jb_timestamp j > ack" "\<forall>x\<in>set pre. \<not> now - jb_timestamp x > ack"
  using assms
proof (induction jobs arbitrary: jobs' thesis)
  case (Cons k jobs)
  show ?case
  proof (cases "now - jb_timestamp k > ack")
    case True
    then show thesis using Cons.prems by (intro Cons.prems(1) [of "[]" k jobs]) auto
  next
    case False
    with Cons.prems(2) obtain js where js: "claimJob ack now jobs = Some (job, js)" "jobs' = k # js" by auto
    show thesis
    proof (rule Cons.IH [OF _ js(1)])
      fix pre j post
      assume "jobs = pre @ j # post" "job = j\<lparr>jb_timestamp := now\<rparr>" "js = pre @ job # post"
        "now - jb_timestamp j > ack" "\<forall>x\<in>set pre. \<not> now - jb_timestamp x > ack"
      then show thesis using False js(2) by (intro Cons.prems(1) [of "k # pre" j post]) auto
    qed
  qed
qed simp

lemma claimJob_None: "claimJob ack now jobs = None \<longleftrightarrow> (\<forall>j\<in>set jobs. \<not> now - jb_timestamp j > ack)"
  by (induction jobs) auto

lemma spliceJob_Some:
  assumes "spliceJob i jobs = Some (job, jobs')"
  obtains pre post where "jobs = pre @ job # post" "jobs' = pre @ post" "jb_id job = i"
  using assms
proof (induction jobs arbitrary: jobs' thesis)
  case (Cons k jobs)
  show ?case
  proof (cases "jb_id k = i")
    case True
    then show thesis using Cons.prems by (intro Cons.prems(1) [of "[]" jobs]) auto
  next
    case False
    with Cons.prems(2) obtain js where js: "spliceJob i jobs = Some (job, js)" "jobs' = k # js" by auto
    show thesis
    proof (rule Cons.IH [OF _ js(1)])
      fix pre post assume "jobs = pre @ job # post" "js = pre @ post" "jb_id job = i"
      then show thesis using js(2) by (intro Cons.prems(1) [of "k # pre" post]) auto
    qed
  qed
qed simp

lemma spliceJob_None: "spliceJob i jobs = None \<longleftrightarrow> i \<notin> jb_id ` set jobs"
  by (induction jobs) auto

lemma stampJob_split:
  "stampJob i now jobs = jobs \<or> (\<exists>pre j post. jobs = pre @ j # post \<and> stampJob i now jobs = pre @ j\<lparr>jb_timestamp := now\<rparr> # post)"
proof (induction jobs)
  case (Cons k jobs)
  show ?case
  proof (cases "jb_id k = i")
    case True
    then show ?thesis by (intro disjI2 exI [of _ "[]"]) auto
  next
    case False
    from Cons.IH show ?thesis
    proof (elim disjE exE conjE)
      fix pre j post assume "jobs = pre @ j # post" "stampJob i now jobs = pre @ j\<lparr>jb_timestamp := now\<rparr> # post"
      then show ?thesis using False by (intro disjI2 exI [of _ "k # pre"] exI [of _ j] exI [of _ post]) simp
    qed (use False in simp)
  qed
qed simp

text \<open>What happens to the list of jobs that is not a new job: one is removed or stamped.\<close>

inductive jobsChange :: "int \<Rightarrow> job list \<Rightarrow> job list \<Rightarrow> bool" for now where
  jobs_same: "jobsChange now jobs jobs"
| jobs_remove: "jobsChange now (pre @ j # post) (pre @ post)"
| jobs_stamp: "jobsChange now (pre @ j # post) (pre @ j\<lparr>jb_timestamp := now\<rparr> # post)"

lemma jobsChange_claim: "claimJob ack now jobs = Some (job, jobs') \<Longrightarrow> jobsChange now jobs jobs'"
  by (erule claimJob_Some) (simp add: jobs_stamp)

lemma jobsChange_splice: "spliceJob i jobs = Some (job, jobs') \<Longrightarrow> jobsChange now jobs jobs'"
  by (erule spliceJob_Some) (simp add: jobs_remove)

lemma jobsChange_stamp: "jobsChange now jobs (stampJob i now jobs)"
  using stampJob_split [of i now jobs] by (auto intro: jobsChange.intros)

lemma getWork_cases:
  assumes "getWork ack now s = Inr t"
  obtains (idle) "t = s"
  | (stopped) r where "hs_polling s = Some r" "t = answer now r [] s"
  | (given) r j pre post buf where "hs_polling s = Some r" "hs_jobs s = pre @ j # post" "now - jb_timestamp j > ack"
      "\<forall>x\<in>set pre. \<not> now - jb_timestamp x > ack" "Protocol_pack (jb_id j) (jb_cmd j) (jb_data j) = Inr buf"
      "t = answer now r buf (s\<lparr>hs_jobs := pre @ j\<lparr>jb_timestamp := now\<rparr> # post\<rparr>)"
proof (cases "hs_polling s")
  case None
  then show thesis using assms idle by (simp add: getWork_def)
next
  case (Some r)
  show thesis
  proof (cases "hs_running s")
    case False
    then show thesis using assms stopped [OF Some] Some by (simp add: getWork_def)
  next
    case True
    show thesis
    proof (cases "claimJob ack now (hs_jobs s)")
      case None
      then show thesis using assms idle Some True by (simp add: getWork_def)
    next
      case (Some c)
      obtain job jobs where c: "c = (job, jobs)" by (cases c)
      from Some [unfolded c] obtain pre j post where j: "hs_jobs s = pre @ j # post" "job = j\<lparr>jb_timestamp := now\<rparr>"
        "jobs = pre @ job # post" "now - jb_timestamp j > ack" "\<forall>x\<in>set pre. \<not> now - jb_timestamp x > ack"
        by (rule claimJob_Some)
      from assms Some c True \<open>hs_polling s = Some r\<close> obtain buf where
        "Protocol_pack (jb_id job) (jb_cmd job) (jb_data job) = Inr buf" "t = answer now r buf (s\<lparr>hs_jobs := jobs\<rparr>)"
        by (auto simp: getWork_def bindE_eq_Inr)
      then show thesis using given [OF \<open>hs_polling s = Some r\<close> j(1,4,5)] j(2,3) by simp
    qed
  qed
qed

lemma pack_id: "Protocol_pack i cmd d = Inr buf \<Longrightarrow> length i = 32 \<Longrightarrow> take 32 buf = i \<and> buf \<noteq> []"
  by (auto simp: Protocol_pack_def mapR_eq_Inr)

section \<open>No job is given to two workers at once\<close>

definition answersApart :: "int \<Rightarrow> (int \<times> nat \<times> buffer) list \<Rightarrow> bool" where
  "answersApart ack as \<longleftrightarrow> sorted_wrt (\<lambda>(t, r, b) (t', r', b'). b \<noteq> [] \<and> take 32 b = take 32 b' \<longrightarrow> t' - t > ack) as"

definition serverOK :: "int \<Rightarrow> int \<Rightarrow> buffer set \<Rightarrow> jobServer \<Rightarrow> bool" where
  "serverOK ack now used s \<longleftrightarrow> answersApart ack (hs_answers s) \<and> distinct (map jb_id (hs_jobs s))
     \<and> (\<forall>j\<in>set (hs_jobs s). jb_id j \<in> used \<and> length (jb_id j) = 32)
     \<and> (\<forall>(t, r, b)\<in>set (hs_answers s). t \<le> now \<and> (b \<noteq> [] \<longrightarrow> take 32 b \<in> used))
     \<and> (\<forall>(t, r, b)\<in>set (hs_answers s). \<forall>j\<in>set (hs_jobs s). b \<noteq> [] \<and> take 32 b = jb_id j \<longrightarrow> t \<le> jb_timestamp j)"

lemma serverOK_later: "serverOK ack now used s \<Longrightarrow> now \<le> now' \<Longrightarrow> used \<subseteq> used' \<Longrightarrow> serverOK ack now' used' s"
  unfolding serverOK_def by (auto split: prod.splits) fastforce+

lemma serverOK_same: "serverOK ack now used s \<Longrightarrow> hs_jobs t = hs_jobs s \<Longrightarrow> hs_answers t = hs_answers s \<Longrightarrow> serverOK ack now used t"
  by (simp add: serverOK_def)

lemma serverOK_change:
  assumes "jobsChange now (hs_jobs s) (hs_jobs t)" "hs_answers t = hs_answers s" "serverOK ack now used s"
  shows "serverOK ack now used t"
  using assms
proof (induction "hs_jobs s" "hs_jobs t" rule: jobsChange.induct)
  case (jobs_remove pre j post)
  then show ?case by (auto simp: serverOK_def simp flip: jobs_remove.hyps split: prod.splits)
next
  case (jobs_stamp pre j post)
  then show ?case by (auto simp: serverOK_def simp flip: jobs_stamp.hyps split: prod.splits)
qed (simp add: serverOK_def)

lemma serverOK_create:
  assumes "serverOK ack now used s" "i \<notin> used" "length i = 32"
  shows "serverOK ack now (insert i used) (createJob i cmd dat caller s)"
  using assms by (fastforce simp: serverOK_def createJob_def split: prod.splits)

lemma serverOK_stopped: "serverOK ack now used s \<Longrightarrow> serverOK ack now used (answer now r [] s)"
  by (auto simp: serverOK_def answer_def answersApart_def sorted_wrt_append split: prod.splits)

lemma serverOK_given:
  assumes ok: "serverOK ack now used s" and j: "hs_jobs s = pre @ j # post" "now - jb_timestamp j > ack"
    and b: "Protocol_pack (jb_id j) (jb_cmd j) (jb_data j) = Inr buf"
  shows "serverOK ack now used (answer now r buf (s\<lparr>hs_jobs := pre @ j\<lparr>jb_timestamp := now\<rparr> # post\<rparr>))"
proof -
  let ?s = "s\<lparr>hs_jobs := pre @ j\<lparr>jb_timestamp := now\<rparr> # post\<rparr>"
  have ok': "serverOK ack now used ?s" by (rule serverOK_change [OF _ _ ok]) (simp_all add: j jobs_stamp)
  have i: "take 32 buf = jb_id j" "buf \<noteq> []" "jb_id j \<in> used"
    using ok pack_id [OF b] by (simp_all add: serverOK_def j)
  have old: "now - t > ack" if a: "(t, r', b') \<in> set (hs_answers s)" "b' \<noteq> []" "take 32 b' = take 32 buf" for t r' b'
  proof -
    have "t \<le> jb_timestamp j" using ok a i(1) unfolding serverOK_def by (force simp: j(1))
    with j(2) show ?thesis by simp
  qed
  have apart: "answersApart ack (hs_answers ?s @ [(now, r, buf)])"
    using ok' old by (auto simp: serverOK_def answersApart_def sorted_wrt_append)
  have "now \<le> jb_timestamp k" if "k \<in> set (hs_jobs ?s)" "take 32 buf = jb_id k" for k
  proof -
    have "jb_id j \<notin> jb_id ` (set pre \<union> set post)" using ok by (auto simp: serverOK_def j(1))
    with that i(1) show ?thesis by auto
  qed
  with ok' i apart show ?thesis unfolding serverOK_def answer_def by (simp add: ball_Un)
qed

lemma serverOK_step:
  assumes "serverOK ack now used s" "set (createdId (now, e)) \<inter> used = {}" "\<forall>i\<in>set (createdId (now, e)). length i = 32"
  shows "serverOK ack now (used \<union> set (createdId (now, e))) (serverStep ack (now, e) s)"
proof (cases e)
  case (CreateJob i cmd dat caller)
  then show ?thesis using serverOK_create assms by simp
next
  case Poll
  show ?thesis
  proof (cases "getWork ack now s")
    case (Inr t)
    have "serverOK ack now used t"
    proof (cases rule: getWork_cases [OF Inr])
      case 1
      then show ?thesis using assms(1) by simp
    next
      case (2 r)
      then show ?thesis using serverOK_stopped [OF assms(1)] by simp
    next
      case (3 r j pre post buf)
      show ?thesis unfolding 3(6) by (rule serverOK_given [OF assms(1) 3(2,3,5)])
    qed
    then show ?thesis using Poll by (simp add: handled_def Inr)
  qed (use assms Poll in \<open>simp add: handled_def\<close>)
next
  case (CompleteJob buf)
  show ?thesis
  proof (cases "completeJob buf s")
    case (Inr t)
    then have "(hs_jobs t = hs_jobs s \<or> (\<exists>i job. spliceJob i (hs_jobs s) = Some (job, hs_jobs t))) \<and> hs_answers t = hs_answers s"
      by (auto simp: completeJob_def bindE_eq_Inr split: option.splits)
    then have "jobsChange now (hs_jobs s) (hs_jobs t)" "hs_answers t = hs_answers s"
      using jobsChange_splice jobs_same by metis+
    with assms serverOK_change Inr CompleteJob show ?thesis by (simp add: handled_def)
  qed (use assms CompleteJob in \<open>simp add: handled_def\<close>)
next
  case (Ping i)
  then show ?thesis using assms serverOK_change [of now s "ping i now s"] by (simp add: ping_def jobsChange_stamp)
qed (use assms in \<open>auto simp: requestWork_def startRequest_def interruptJobs_def stopServer_def split: option.splits list.splits
       elim!: serverOK_same\<close>)

lemma serverOK_run:
  assumes "serverOK ack now used s" "sorted (now # map fst es)" "distinct (concat (map createdId es))"
    "set (concat (map createdId es)) \<inter> used = {}" "\<forall>i\<in>set (concat (map createdId es)). length i = 32"
  shows "\<exists>now used. serverOK ack now used (runServer ack es s)"
  using assms
proof (induction es arbitrary: now used s)
  case (Cons e es)
  obtain t v where e: "e = (t, v)" by (cases e)
  have "serverOK ack t used s" using Cons.prems e by (intro serverOK_later [OF Cons.prems(1)]) simp_all
  then have "serverOK ack t (used \<union> set (createdId (t, v))) (serverStep ack (t, v) s)"
    using Cons.prems e by (intro serverOK_step) auto
  moreover have "set (concat (map createdId es)) \<inter> (used \<union> set (createdId (t, v))) = {}"
    using Cons.prems(3,4) e by auto
  ultimately show ?case using Cons.IH [of t] Cons.prems(2,3,5) e by (simp add: runServer_def)
qed (auto simp: runServer_def)

section \<open>Every job waits or has its result\<close>

definition callersOK :: "(int \<times> jobEvent) list \<Rightarrow> jobServer \<Rightarrow> bool" where
  "callersOK es s \<longleftrightarrow> distinct (map jb_caller (hs_jobs s)) \<and> (\<forall>j\<in>set (hs_jobs s). hs_settled s (jb_caller j) = None)
     \<and> jb_caller ` set (hs_jobs s) \<union> dom (hs_settled s) \<subseteq> set (concat (map createdCaller es))"

definition outcomeFor :: "(int \<times> jobEvent) list \<Rightarrow> jobServer \<Rightarrow> buffer \<Rightarrow> nat \<Rightarrow> bool" where
  "outcomeFor es s i c \<longleftrightarrow> (\<exists>j\<in>set (hs_jobs s). jb_caller j = c \<and> jb_id j = i)
     \<or> (\<exists>t buf cmd d. (t, CompleteJob buf) \<in> set es \<and> Protocol_unpack buf = Inr (i, cmd, d)
          \<and> hs_settled s c = Some (if cmd = ACK then Resolved d else Failed d))"

lemma callersOK_stamp:
  assumes "callersOK es s" "hs_jobs s = pre @ j # post"
  shows "callersOK es (s\<lparr>hs_jobs := pre @ j\<lparr>jb_timestamp := now\<rparr> # post\<rparr>)"
  using assms by (auto simp: callersOK_def)

lemma outcomeFor_stamp:
  assumes "outcomeFor es s i c" "hs_jobs s = pre @ j # post"
  shows "outcomeFor es (s\<lparr>hs_jobs := pre @ j\<lparr>jb_timestamp := now\<rparr> # post\<rparr>) i c"
  using assms by (auto simp: outcomeFor_def)

lemma same_callers:
  assumes "hs_jobs t = hs_jobs s" "hs_settled t = hs_settled s"
  shows "callersOK es t = callersOK es s" "outcomeFor es t i c = outcomeFor es s i c"
  using assms by (simp_all add: callersOK_def outcomeFor_def)

lemma stamped_callers:
  assumes "hs_jobs s = pre @ j # post" "hs_jobs t = pre @ j\<lparr>jb_timestamp := now\<rparr> # post" "hs_settled t = hs_settled s"
  shows "callersOK es s \<Longrightarrow> callersOK es t" "outcomeFor es s i c \<Longrightarrow> outcomeFor es t i c"
  using same_callers [of t "s\<lparr>hs_jobs := pre @ j\<lparr>jb_timestamp := now\<rparr> # post\<rparr>"] assms
    callersOK_stamp [OF _ assms(1)] outcomeFor_stamp [OF _ assms(1)] by simp_all

lemma callers_complete:
  assumes ok: "callersOK es s" and u: "Protocol_unpack buf = Inr (i, cmd, d)" and j: "spliceJob i (hs_jobs s) = Some (job, jobs)"
  defines "t \<equiv> s\<lparr>hs_jobs := jobs, hs_settled := settle (jb_caller job) (if cmd = ACK then Resolved d else Failed d) (hs_settled s)\<rparr>"
  shows "callersOK es t" "outcomeFor es s k c \<Longrightarrow> outcomeFor (es @ [(now, CompleteJob buf)]) t k c"
proof -
  from j obtain pre post where p: "hs_jobs s = pre @ job # post" "jobs = pre @ post" "jb_id job = i" by (rule spliceJob_Some)
  have n: "hs_settled s (jb_caller job) = None" "jb_caller job \<notin> jb_caller ` (set pre \<union> set post)"
    using ok by (auto simp: callersOK_def p(1))
  moreover have "jb_caller x \<noteq> jb_caller job" if "x \<in> set pre \<union> set post" for x using n(2) that by (metis imageI)
  ultimately show "callersOK es t" using ok p by (auto simp: callersOK_def t_def settle_def)
  assume "outcomeFor es s k c"
  then consider (waiting) x where "x \<in> set (pre @ post)" "jb_caller x = c" "jb_id x = k"
    | (same) "jb_caller job = c" "i = k"
    | (finished) t' buf' cmd' d' where "(t', CompleteJob buf') \<in> set es" "Protocol_unpack buf' = Inr (k, cmd', d')"
        "hs_settled s c = Some (if cmd' = ACK then Resolved d' else Failed d')"
    unfolding outcomeFor_def using p by auto
  then show "outcomeFor (es @ [(now, CompleteJob buf)]) t k c"
  proof cases
    case same
    have "hs_settled t c = Some (if cmd = ACK then Resolved d else Failed d)" using same n by (simp add: t_def settle_def)
    moreover have "(now, CompleteJob buf) \<in> set (es @ [(now, CompleteJob buf)])" by simp
    ultimately show ?thesis using u same(2) unfolding outcomeFor_def by blast
  next
    case finished
    then have "hs_settled t c = hs_settled s c" using n by (auto simp: t_def settle_def)
    with finished show ?thesis unfolding outcomeFor_def by (metis UnI1 set_append)
  qed (use p in \<open>auto simp: outcomeFor_def t_def\<close>)
qed

lemma callers_step:
  assumes ok: "callersOK es s" and e: "set (createdCaller (now, e)) \<inter> set (concat (map createdCaller es)) = {}" "e \<noteq> Interrupt"
    and out: "\<forall>n i cmd dat c. (n, CreateJob i cmd dat c) \<in> set es \<longrightarrow> outcomeFor es s i c"
  shows "callersOK (es @ [(now, e)]) (serverStep ack (now, e) s)
     \<and> (\<forall>n i cmd dat c. (n, CreateJob i cmd dat c) \<in> set (es @ [(now, e)]) \<longrightarrow> outcomeFor (es @ [(now, e)]) (serverStep ack (now, e) s) i c)"
proof -
  have more: "callersOK (es @ [(now, e)]) t" if "callersOK es t" for t using that by (auto simp: callersOK_def)
  have later: "outcomeFor (es @ [(now, e)]) t i c" if "outcomeFor es t i c" for t i c
    using that by (fastforce simp: outcomeFor_def)
  have keep: ?thesis if "\<And>i c cmd dat. e \<noteq> CreateJob i cmd dat c" "serverStep ack (now, e) s = t" "callersOK es t"
    "\<And>i c. outcomeFor es s i c \<Longrightarrow> outcomeFor (es @ [(now, e)]) t i c" for t
  proof (intro conjI allI impI)
    show "callersOK (es @ [(now, e)]) (serverStep ack (now, e) s)" using that(2,3) more by simp
    fix n i cmd dat c assume "(n, CreateJob i cmd dat c) \<in> set (es @ [(now, e)])"
    then have "(n, CreateJob i cmd dat c) \<in> set es" using that(1) by auto
    then show "outcomeFor (es @ [(now, e)]) (serverStep ack (now, e) s) i c" using out that(2,4) by blast
  qed
  have idle: ?thesis if "\<And>i c cmd dat. e \<noteq> CreateJob i cmd dat c" "serverStep ack (now, e) s = t" "hs_jobs t = hs_jobs s"
    "hs_settled t = hs_settled s" for t
    using that(1,2) ok later same_callers [OF that(3,4)] by (intro keep [of t]) simp_all
  show ?thesis
  proof (cases e)
    case (CreateJob i cmd dat c)
    have "callersOK (es @ [(now, e)]) (createJob i cmd dat c s)"
      using ok e CreateJob by (auto simp: callersOK_def createJob_def dom_def)
    moreover have "outcomeFor (es @ [(now, e)]) (createJob i cmd dat c s) k c'" if "outcomeFor es s k c'" for k c'
      using later [OF that] by (auto simp: outcomeFor_def createJob_def)
    moreover have "outcomeFor (es @ [(now, e)]) (createJob i cmd dat c s) i c" by (simp add: outcomeFor_def createJob_def)
    ultimately show ?thesis using out CreateJob by auto
  next
    case Poll
    show ?thesis
    proof (cases "getWork ack now s")
      case (Inl err)
      then show ?thesis using Poll ok later by (intro keep) (auto simp: handled_def)
    next
      case (Inr t)
      have "callersOK es t \<and> (\<forall>i c. outcomeFor es s i c \<longrightarrow> outcomeFor es t i c)"
      proof (cases rule: getWork_cases [OF Inr])
        case (3 r j pre post buf)
        show ?thesis using stamped_callers [OF 3(2), of t now] ok 3(6) by (simp add: answer_def)
      qed (use ok same_callers [of t s] in \<open>auto simp: answer_def\<close>)
      then show ?thesis using Poll Inr later by (intro keep [of t]) (auto simp: handled_def)
    qed
  next
    case (CompleteJob buf)
    show ?thesis
    proof (cases "Protocol_unpack buf")
      case (Inl err)
      then show ?thesis using CompleteJob ok later by (intro keep) (auto simp: handled_def completeJob_def)
    next
      case (Inr u)
      obtain i cmd d where u: "u = (i, cmd, d)" by (cases u)
      show ?thesis
      proof (cases "spliceJob i (hs_jobs s)")
        case None
        then show ?thesis using CompleteJob ok later Inr u by (intro keep) (auto simp: handled_def completeJob_def)
      next
        case (Some x)
        obtain job jobs where x: "x = (job, jobs)" by (cases x)
        from callers_complete(1) [OF ok, of buf i cmd d job jobs] callers_complete(2) [OF ok, of buf i cmd d job jobs _ _ now] show ?thesis
          using CompleteJob Inr u Some x by (intro keep) (simp_all add: handled_def completeJob_def)
      qed
    qed
  next
    case (Ping i)
    have "callersOK es (ping i now s) \<and> (\<forall>k c. outcomeFor es s k c \<longrightarrow> outcomeFor es (ping i now s) k c)"
      using stampJob_split [of i now "hs_jobs s"]
    proof (elim disjE exE conjE)
      assume "stampJob i now (hs_jobs s) = hs_jobs s"
      then show ?thesis using ok same_callers [of "ping i now s" s] by (simp add: ping_def)
    next
      fix pre j post assume p: "hs_jobs s = pre @ j # post" "stampJob i now (hs_jobs s) = pre @ j\<lparr>jb_timestamp := now\<rparr> # post"
      show ?thesis using stamped_callers [OF p(1), of "ping i now s" now] ok p(2) by (simp add: ping_def)
    qed
    then show ?thesis using Ping later by (intro keep) auto
  next
    case (RequestWork r)
    then show ?thesis by (intro idle [of "requestWork r s"]) (simp_all add: requestWork_def)
  next
    case StartRequest
    then show ?thesis by (intro idle [of "startRequest s"]) (simp_all add: startRequest_def split: option.splits list.splits)
  next
    case Stop
    then show ?thesis by (intro idle [of "stopServer s"]) (simp_all add: stopServer_def)
  qed (use e in simp)
qed

lemma callers_run:
  assumes "distinct (concat (map createdCaller es))" "Interrupt \<notin> snd ` set es"
  shows "callersOK es (runServer ack es newJobServer)
     \<and> (\<forall>n i cmd dat c. (n, CreateJob i cmd dat c) \<in> set es \<longrightarrow> outcomeFor es (runServer ack es newJobServer) i c)"
  using assms
proof (induction es rule: rev_induct)
  case (snoc e es)
  obtain t v where e: "e = (t, v)" by (cases e)
  have "callersOK es (runServer ack es newJobServer)
    \<and> (\<forall>n i cmd dat c. (n, CreateJob i cmd dat c) \<in> set es \<longrightarrow> outcomeFor es (runServer ack es newJobServer) i c)"
    using snoc by simp
  moreover have "set (createdCaller (t, v)) \<inter> set (concat (map createdCaller es)) = {}" "v \<noteq> Interrupt"
    using snoc.prems e by auto
  ultimately show ?case using callers_step [of es "runServer ack es newJobServer" t v ack] e by (simp add: runServer_def)
qed (simp add: callersOK_def runServer_def newJobServer_def)

section \<open>Waiting workers get the oldest jobs\<close>

definition unclaimed :: "int \<Rightarrow> int \<Rightarrow> job list \<Rightarrow> job list" where
  "unclaimed ack now jobs = filter (\<lambda>j. now - jb_timestamp j > ack) jobs"

definition jobMessage :: "job \<Rightarrow> buffer" where
  "jobMessage j = jb_id j @ be_bytes 4 (nat (jb_cmd j)) @ (case jb_data j of None \<Rightarrow> [] | Some d \<Rightarrow> d)"

definition workTurn :: "int \<Rightarrow> (int \<times> jobEvent) list" where
  "workTurn now = [(now, StartRequest), (now, Poll)]"

lemma turn_answer:
  assumes "hs_running s" "hs_polling s = None" "hs_requests s = r # rs" "0 \<le> ack"
    and "unclaimed ack now (hs_jobs s) = j # js" "u32 (jb_cmd j)"
  obtains jobs where "runServer ack (workTurn now) s = answer now r (jobMessage j) (s\<lparr>hs_polling := Some r, hs_requests := rs, hs_jobs := jobs\<rparr>)"
    "unclaimed ack now jobs = js"
proof -
  from assms(5) have "claimJob ack now (hs_jobs s) \<noteq> None" using claimJob_None [of ack now "hs_jobs s"] by (auto simp: unclaimed_def filter_eq_Cons_iff)
  then obtain job jobs where c: "claimJob ack now (hs_jobs s) = Some (job, jobs)" by auto
  then obtain pre k post where k: "hs_jobs s = pre @ k # post" "job = k\<lparr>jb_timestamp := now\<rparr>" "jobs = pre @ job # post"
    "now - jb_timestamp k > ack" "\<forall>x\<in>set pre. \<not> now - jb_timestamp x > ack" by (rule claimJob_Some)
  have "unclaimed ack now (hs_jobs s) = k # unclaimed ack now post" "unclaimed ack now jobs = unclaimed ack now post"
    using k assms(4) by (simp_all add: unclaimed_def filter_empty_conv)
  with assms(5) have j: "k = j" "unclaimed ack now jobs = js" by simp_all
  have "Protocol_pack (jb_id job) (jb_cmd job) (jb_data job) = Inr (jobMessage j)"
    using assms(6) by (simp add: Protocol_pack_def k(2) j(1) numToUInt32BE_ok jobMessage_def del: be_bytes.simps)
  then have "runServer ack (workTurn now) s = answer now r (jobMessage j) (s\<lparr>hs_polling := Some r, hs_requests := rs, hs_jobs := jobs\<rparr>)"
    using assms(1-3) c by (simp add: runServer_def workTurn_def startRequest_def getWork_def handled_def)
  then show thesis using j(2) that by blast
qed

lemma turns_answers:
  assumes "hs_running s" "hs_polling s = None" "hs_requests s = rs" "0 \<le> ack"
    and "length rs \<le> length (unclaimed ack now (hs_jobs s))" "\<forall>j\<in>set (unclaimed ack now (hs_jobs s)). u32 (jb_cmd j)"
  shows "hs_answers (runServer ack (concat (replicate (length rs) (workTurn now))) s)
    = hs_answers s @ map2 (\<lambda>r j. (now, r, jobMessage j)) rs (unclaimed ack now (hs_jobs s))"
  using assms
proof (induction rs arbitrary: s)
  case (Cons r rs)
  then obtain j js where j: "unclaimed ack now (hs_jobs s) = j # js" by (cases "unclaimed ack now (hs_jobs s)") auto
  from Cons.prems j obtain jobs where t:
    "runServer ack (workTurn now) s = answer now r (jobMessage j) (s\<lparr>hs_polling := Some r, hs_requests := rs, hs_jobs := jobs\<rparr>)"
    "unclaimed ack now jobs = js"
    by (elim turn_answer) auto
  have "runServer ack (concat (replicate (length (r # rs)) (workTurn now))) s
      = runServer ack (concat (replicate (length rs) (workTurn now))) (runServer ack (workTurn now) s)"
    by (simp add: runServer_def)
  also have "hs_answers \<dots> = (hs_answers s @ [(now, r, jobMessage j)]) @ map2 (\<lambda>r j. (now, r, jobMessage j)) rs js"
    using Cons.prems j t by (subst Cons.IH) (simp_all add: answer_def)
  finally show ?case using j by simp
qed (simp add: runServer_def)

section \<open>Properties\<close>

text \<open>C22: No job is worked on twice at once: whatever callers, workers, pings and results do, in whatever order, two
  answers to workers that carry the same job are more than \<open>ackTimeout\<close> apart.\<close>

theorem no_job_given_twice:
  assumes "sorted (map fst es)" "distinct (concat (map createdId es))" "\<forall>i\<in>set (concat (map createdId es)). length i = 32"
    and "hs_answers (runServer ack es newJobServer) = given"
    and "a < b" "b < length given" "given ! a = (t, r, buf)" "given ! b = (t', r', buf')" "buf \<noteq> []" "take 32 buf = take 32 buf'"
  shows "t' - t > ack"
proof -
  define n where "n = (if es = [] then 0 else fst (hd es))"
  have "serverOK ack n {} newJobServer" by (simp add: serverOK_def newJobServer_def answersApart_def)
  moreover have "sorted (n # map fst es)" using assms(1) by (cases es) (auto simp: n_def)
  ultimately obtain now used where "serverOK ack now used (runServer ack es newJobServer)"
    using serverOK_run [of ack n "{}" newJobServer es] assms(2,3) by auto
  then have "answersApart ack given" using assms(4) by (simp add: serverOK_def)
  from sorted_wrt_nth_less [OF this [unfolded answersApart_def] assms(5,6)] assms(7-10) show ?thesis by simp
qed

definition sampleJobRun :: "(int \<times> jobEvent) list" where
  "sampleJobRun = [(1, CreateJob (zeros 32) CREATE_PROOF None 0), (6000, RequestWork 1), (6000, RequestWork 2), (6000, StartRequest),
     (6000, Poll), (6001, StartRequest), (6001, Poll), (11000, Poll), (11001, Poll)]"

lemma sampleJobRun_answers: "map (\<lambda>(t, r, b). (t, r, length b)) (hs_answers (runServer 5000 sampleJobRun newJobServer)) = [(6000, 1, 36), (11001, 2, 36)]"
  by code_simp

theorem no_job_given_twice_witness:
  "\<exists>t r buf t' r' buf'. hs_answers (runServer 5000 sampleJobRun newJobServer) = [(t, r, buf), (t', r', buf')] \<and> t' - t > 5000"
proof -
  let ?given = "[(6000::int, 1::nat, zeros 32 @ [0, 0, 0, 4]), (11001, 2, zeros 32 @ [0, 0, 0, 4])]"
  have g: "hs_answers (runServer 5000 sampleJobRun newJobServer) = ?given" by code_simp
  have "(11001::int) - 6000 > 5000"
    by (rule no_job_given_twice [of sampleJobRun 5000 ?given 0 1, OF _ _ _ g]) (auto simp: sampleJobRun_def)
  with g show ?thesis by auto
qed

text \<open>Nothing gets lost: whatever happens after a job was created, unless its callers were interrupted, it is still in the list and can be
  given to a worker, or its caller has received the result a worker reported for it.\<close>

theorem job_waits_or_has_its_result:
  assumes "distinct (concat (map createdCaller es))" "Interrupt \<notin> snd ` set es" "(t, CreateJob i cmd dat c) \<in> set es"
    and "runServer ack es newJobServer = s"
  shows "(\<exists>j\<in>set (hs_jobs s). jb_caller j = c \<and> jb_id j = i)
    \<or> (\<exists>t' buf cmd' d. (t', CompleteJob buf) \<in> set es \<and> Protocol_unpack buf = Inr (i, cmd', d)
        \<and> hs_settled s c = Some (if cmd' = ACK then Resolved d else Failed d))"
  using callers_run [OF assms(1,2), of ack] assms(3,4) by (auto simp: outcomeFor_def)

theorem job_waits_or_has_its_result_witness:
  "\<exists>d. hs_settled (runServer 5000 [(0, CreateJob (zeros 32) CREATE_PROOF None 7), (9, CompleteJob (zeros 32 @ [0, 0, 0, 5, 1]))] newJobServer) 7
     = Some (Resolved d)"
proof -
  let ?es = "[(0, CreateJob (zeros 32) CREATE_PROOF None 7), (9, CompleteJob (zeros 32 @ [0, 0, 0, 5, 1]))]"
  have e: "(0, CreateJob (zeros 32) CREATE_PROOF None 7) \<in> set ?es" "hs_jobs (runServer 5000 ?es newJobServer) = []"
    "Protocol_unpack (zeros 32 @ [0, 0, 0, 5, 1]) = Inr (zeros 32, 5, [1])" by simp code_simp+
  from job_waits_or_has_its_result [OF _ _ e(1) refl, of 5000] e(2,3) show ?thesis by auto
qed

text \<open>Workers that wait are served with the unclaimed jobs, the oldest first, each with its own.\<close>

theorem waiting_workers_get_oldest_jobs:
  assumes "hs_running s" "hs_polling s = None" "0 \<le> ack" "\<forall>j\<in>set (unclaimed ack now (hs_jobs s)). u32 (jb_cmd j)"
    and "length (hs_requests s) \<le> length (unclaimed ack now (hs_jobs s))"
  shows "hs_answers (runServer ack (concat (replicate (length (hs_requests s)) (workTurn now))) s)
    = hs_answers s @ map2 (\<lambda>r j. (now, r, jobMessage j)) (hs_requests s) (unclaimed ack now (hs_jobs s))"
  using assms by (intro turns_answers) simp_all

text \<open>An interrupted job is rejected but stays in the list: it is still given to a worker afterwards.\<close>

theorem interrupted_job_still_given:
  "hs_settled (runServer 5000 [(0, CreateJob (zeros 32) CREATE_PROOF None 7), (1, Interrupt)] newJobServer) 7 = Some Interrupted
   \<and> map (\<lambda>(t, r, b). (t, r, length b)) (hs_answers (runServer 5000 [(0, CreateJob (zeros 32) CREATE_PROOF None 7), (1, Interrupt), (6000, RequestWork 1),
        (6000, StartRequest), (6000, Poll)] newJobServer)) = [(6000, 1, 36)]"
  by code_simp

end
