(* ===== verification/ChainBlocks.thy ===== *)
theory ChainBlocks
  imports Blocks Offchain RollupProof
begin

text \<open>
  The rollup's two ways through the chain (\<open>blockchain/src/contracts/rollup_processor/rollup_processor.ts\<close>, with
  \<open>solidity_format_signatures.ts\<close> and \<open>earliest_block/index.ts\<close>): the transactions that publish a rollup and its
  offchain data in chunks (\<open>createRollupTxs\<close>), and the reading of blocks back from the events of the contract
  (\<open>getRollupBlocksFromEvents\<close> and what it calls). The ABI coder and the Ethereum node are code outside the repository:
  the records \<open>abi\<close> and \<open>ethNode\<close> hold what the code asks of them. A query of events answers with a list; the data of
  one event (its transaction, receipt, block) may fail to arrive.

  An array of events by chunk is a list of slots: \<open>Array.from\<close> fills it with \<open>undefined\<close>, an assignment past
  the end leaves holes, which \<open>some\<close> skips. Ids and chunk numbers are \<open>BigNumber\<close>s of 256 bits.
\<close>

section \<open>Publishing\<close>

record abi =
  abi_processRollup :: "buffer \<Rightarrow> buffer \<Rightarrow> buffer res"
  abi_offchainData :: "int \<Rightarrow> int \<Rightarrow> int \<Rightarrow> buffer \<Rightarrow> buffer res"
  abi_bytesArg :: "buffer \<Rightarrow> nat \<Rightarrow> buffer res"

definition solidityFormatSignatures :: "buffer list \<Rightarrow> buffer" where
  "solidityFormatSignatures signatures =
     concat (map (\<lambda>currentSignature.
       let v = drop (length currentSignature - 1) currentSignature
       in take 64 currentSignature @ zeros 31 @ v) signatures)"

text \<open>\<open>Array.from({ length })\<close>: an array is no longer than \<open>2^32 - 1\<close>.\<close>

definition arrayOf :: "'a \<Rightarrow> int \<Rightarrow> 'a list res" where
  "arrayOf x n = (if n < 2 ^ 32 then Inr (replicate (nat n) x) else Inl RangeError)"

text \<open>A limit of 0 makes the quotient \<open>Infinity\<close>, or \<open>NaN\<close> when there is no data.\<close>

definition ocdChunks :: "buffer \<Rightarrow> nat \<Rightarrow> buffer list res" where
  "ocdChunks ocData txDataLimit =
    (if ocData = [] then Inr [[]]
     else if txDataLimit = 0 then Inl RangeError
     else let chunks = (length ocData + txDataLimit - 1) div txDataLimit
          in mapR (\<lambda>a. map (\<lambda>i. bslice ocData (i * txDataLimit) ((i + 1) * txDataLimit)) [0..<length a])
               (arrayOf () (int chunks)))"

record rollupTxs =
  rtx_rollupProofTx :: buffer
  rtx_offchainDataTxs :: "buffer list"

definition createRollupTxs :: "abi \<Rightarrow> buffer \<Rightarrow> buffer list \<Rightarrow> buffer list \<Rightarrow> nat \<Rightarrow> rollupTxs res" where
  "createRollupTxs abi dataBuf signatures offchainTxData txDataLimit =
     bindE (RollupProofData_decode dataBuf) (\<lambda>broadcastData.
     let formattedSignatures = solidityFormatSignatures signatures in
     bindE (abi_processRollup abi dataBuf formattedSignatures) (\<lambda>rollupProofTx.
     let ocData = concat offchainTxData in
     bindE (ocdChunks ocData txDataLimit) (\<lambda>chunks.
     bindE (mapE (\<lambda>(i, c). abi_offchainData abi (rh_rollupId broadcastData) (int i) (int (length chunks)) c)
              (enumerate 0 chunks)) (\<lambda>offchainDataTxs.
       Inr \<lparr>rtx_rollupProofTx = rollupProofTx, rtx_offchainDataTxs = offchainDataTxs\<rparr>))))"

section \<open>The events of the contract and the node\<close>

record rollupEvent =
  rev_blockNumber :: int
  rev_txHash :: txHash
  rev_rollupId :: int
  rev_nextExpectedDefiHashes :: "buffer list"
  rev_sender :: ethAddress

record offchainEvent =
  oe_blockNumber :: int
  oe_txHash :: txHash
  oe_rollupId :: int
  oe_chunk :: int
  oe_totalChunks :: int
  oe_sender :: ethAddress

record defiBridgeLog =
  dbl_encodedBridgeCallData :: int
  dbl_nonce :: int
  dbl_totalInputValue :: int
  dbl_totalOutputValueA :: int
  dbl_totalOutputValueB :: int
  dbl_result :: bool
  dbl_errorReason :: buffer

record chainTx =
  xt_hash :: txHash
  xt_data :: buffer
  xt_gasPrice :: int

text \<open>The queries by kind of event: the rollup id filtered on and the range of blocks, both inclusive.\<close>

record ethNode =
  en_chainId :: int
  en_blockNumber :: int
  en_rollupEvents :: "int option \<Rightarrow> int option \<Rightarrow> int option \<Rightarrow> rollupEvent list"
  en_offchainEvents :: "int option \<Rightarrow> int \<Rightarrow> int \<Rightarrow> offchainEvent list"
  en_defiLogs :: "int \<Rightarrow> int \<Rightarrow> defiBridgeLog list"
  en_transaction :: "txHash \<Rightarrow> chainTx res"
  en_gasUsed :: "txHash \<Rightarrow> int res"
  en_timestamp :: "int \<Rightarrow> int res"

record earliestBlock =
  eb_earliestBlock :: int
  eb_chunk :: nat
  eb_offchainSearchLead :: int

definition getEarliestBlock :: "int \<Rightarrow> earliestBlock" where
  "getEarliestBlock chainId =
    (if chainId = 1 then \<lparr>eb_earliestBlock = 14728000, eb_chunk = 100000, eb_offchainSearchLead = 6 * 60 * 24\<rparr>
     else if chainId = 0xa57ec \<or> chainId = 0xdef \<or> chainId = 0x57a93
     then \<lparr>eb_earliestBlock = 15918000, eb_chunk = 100000, eb_offchainSearchLead = 10\<rparr>
     else if chainId = 0xe2e then \<lparr>eb_earliestBlock = 15918000, eb_chunk = 10, eb_offchainSearchLead = 10\<rparr>
     else if chainId = 1337 then \<lparr>eb_earliestBlock = 0, eb_chunk = 10, eb_offchainSearchLead = 10\<rparr>
     else \<lparr>eb_earliestBlock = 0, eb_chunk = 100000, eb_offchainSearchLead = 6 * 60 * 24\<rparr>)"

section \<open>The offchain data of some rollups\<close>

datatype 'e slot = Hole | Undef | Ev 'e

type_synonym offchainEventMap = "int \<times> ethAddress \<rightharpoonup> offchainEvent slot list"

text \<open>\<open>BigNumber.toNumber\<close> throws beyond 53 bits.\<close>

definition bnToNumber :: "int \<Rightarrow> int res" where
  "bnToNumber v = (if v < 2 ^ 53 then Inr v else Inl (Thrown ''overflow''))"

text \<open>\<open>a[i] = x\<close> for an integer property name: beyond \<open>2^32 - 2\<close> it is not an index of the array.\<close>

definition setSlot :: "'e slot list \<Rightarrow> int \<Rightarrow> 'e \<Rightarrow> 'e slot list" where
  "setSlot xs i e =
    (if i < 2 ^ 32 - 1
     then if nat i < length xs then xs[nat i := Ev e] else xs @ replicate (nat i - length xs) Hole @ [Ev e]
     else xs)"

fun findRollupLog :: "rollupEvent list \<Rightarrow> int \<Rightarrow> rollupEvent option res" where
  "findRollupLog [] rollupId = Inr None"
| "findRollupLog (x # xs) rollupId =
     bindE (bnToNumber (rev_rollupId x)) (\<lambda>a.
     bindE (bnToNumber rollupId) (\<lambda>b.
       if a = b then Inr (Some x) else findRollupLog xs rollupId))"

definition tooLate :: "rollupEvent option \<Rightarrow> offchainEvent \<Rightarrow> bool" where
  "tooLate found e = (case found of None \<Rightarrow> False | Some rollupEvent \<Rightarrow> rev_blockNumber rollupEvent < oe_blockNumber e)"

definition addOffchainEvent ::
  "rollupEvent list \<Rightarrow> offchainEventMap \<Rightarrow> offchainEvent \<Rightarrow> offchainEventMap res" where
  "addOffchainEvent rollupEvents a e =
     bindE (findRollupLog rollupEvents (oe_rollupId e)) (\<lambda>found.
       if tooLate found e then Inr a
       else let key = (oe_rollupId e, oe_sender e);
                fresh = (case a key of None \<Rightarrow> True | Some xs \<Rightarrow> int (length xs) \<noteq> oe_totalChunks e)
            in bindE (if fresh then arrayOf Undef (oe_totalChunks e) else Inr (the (a key))) (\<lambda>xs.
                 Inr (a(key \<mapsto> setSlot xs (oe_chunk e) e))))"

text \<open>\<open>some(e => !e)\<close> skips the holes.\<close>

definition lookupOffchain :: "offchainEventMap \<Rightarrow> rollupEvent \<Rightarrow> offchainEvent slot list" where
  "lookupOffchain a log = (case a (rev_rollupId log, rev_sender log) of
     None \<Rightarrow> []
   | Some xs \<Rightarrow> if Undef \<in> set xs then [] else xs)"

definition queryOffchainEvents :: "ethNode \<Rightarrow> rollupEvent list \<Rightarrow> offchainEvent list" where
  "queryOffchainEvents node rollupEvents =
    (let filterId = (case rollupEvents of [log] \<Rightarrow> Some (rev_rollupId log) | _ \<Rightarrow> None);
         offchainSearchLead = eb_offchainSearchLead (getEarliestBlock (en_chainId node))
     in en_offchainEvents node filterId (rev_blockNumber (hd rollupEvents) - offchainSearchLead)
          (rev_blockNumber (last rollupEvents)))"

definition getOffchainDataEvents :: "ethNode \<Rightarrow> rollupEvent list \<Rightarrow> offchainEvent slot list list res" where
  "getOffchainDataEvents node rollupEvents =
     mapR (\<lambda>a. map (lookupOffchain a) rollupEvents)
       (foldE (addOffchainEvent rollupEvents) Map.empty (queryOffchainEvents node rollupEvents))"

section \<open>The DeFi interactions of some rollups\<close>

definition decodeDefiLog :: "defiBridgeLog \<Rightarrow> defiInteractionEvent res" where
  "decodeDefiLog log =
     mapR (\<lambda>bcd. \<lparr>die_bridgeCallData = bcd, die_nonce = dbl_nonce log,
         die_totalInputValue = dbl_totalInputValue log, die_totalOutputValueA = dbl_totalOutputValueA log,
         die_totalOutputValueB = dbl_totalOutputValueB log, die_result = dbl_result log,
         die_errorReason = dbl_errorReason log\<rparr>)
       (BridgeCallData_fromBigInt (dbl_encodedBridgeCallData log))"

text \<open>The event as the note whose hash is computed.\<close>

definition eventHash :: "(buffer \<Rightarrow> buffer) \<Rightarrow> defiInteractionEvent \<Rightarrow> buffer res" where
  "eventHash sha256 e =
     mapR hd (computeInteractionHashes sha256 [toDefiInteractionNote e] 1)"

type_synonym defiHashes = "buffer \<rightharpoonup> defiInteractionEvent option"

definition storeDefiNote ::
  "(buffer \<Rightarrow> buffer) \<Rightarrow> defiHashes \<times> int \<Rightarrow> defiInteractionEvent \<Rightarrow> (defiHashes \<times> int) res" where
  "storeDefiNote sha256 = (\<lambda>(hashMapping, numHashesToFind) decodedNote.
     bindE (eventHash sha256 decodedNote) (\<lambda>noteHash.
       if hashMapping noteHash = Some None
       then Inr (hashMapping(noteHash \<mapsto> Some decodedNote), numHashesToFind - 1)
       else Inr (hashMapping, numHashesToFind)))"

text \<open>The loop, with \<open>startBlock\<close> computed at its head, where both assignments of the code put the same value.\<close>

function searchDefiNotes ::
  "ethNode \<Rightarrow> (buffer \<Rightarrow> buffer) \<Rightarrow> earliestBlock \<Rightarrow> int \<Rightarrow> defiHashes \<times> int \<Rightarrow> (defiHashes \<times> int) res" where
  "searchDefiNotes node sha256 eb endBlock s =
    (if eb_earliestBlock eb < endBlock \<and> 0 < snd s
     then let startBlock = max (endBlock - int (eb_chunk eb)) (eb_earliestBlock eb)
          in bindE (mapE decodeDefiLog (en_defiLogs node startBlock endBlock)) (\<lambda>decodedEvents.
             bindE (foldE (storeDefiNote sha256) s decodedEvents) (\<lambda>s'.
               searchDefiNotes node sha256 eb (max (startBlock - 1) (eb_earliestBlock eb)) s'))
     else Inr s)"
  by pat_completeness auto
termination by (relation "measure (\<lambda>(_, _, eb, endBlock, _). nat (endBlock - eb_earliestBlock eb))") auto

declare searchDefiNotes.simps [simp del]

definition getDefiBridgeEventsForRollupEvents ::
  "ethNode \<Rightarrow> (buffer \<Rightarrow> buffer) \<Rightarrow> rollupEvent list \<Rightarrow> defiHashes res" where
  "getDefiBridgeEventsForRollupEvents node sha256 rollupEvents =
    (let rollupHashes = concat (map rev_nextExpectedDefiHashes rollupEvents);
         hashMapping = (\<lambda>h. if h \<in> set rollupHashes then Some None else None);
         eb = getEarliestBlock (en_chainId node);
         highestBlockNumber = Max (set (map rev_blockNumber rollupEvents));
         endBlock = max highestBlockNumber (eb_earliestBlock eb)
     in mapR fst (searchDefiNotes node sha256 eb endBlock (hashMapping, int (length rollupHashes))))"

definition defiNotesForBlock :: "rollupEvent \<Rightarrow> defiHashes \<Rightarrow> defiInteractionEvent list res" where
  "defiNotesForBlock event allDefiNotes =
     mapE (\<lambda>hash. case allDefiNotes hash of
         Some (Some note) \<Rightarrow> Inr note
       | _ \<Rightarrow> Inl (Thrown ''Unable to locate defi interaction note''))
       (rev_nextExpectedDefiHashes event)"

section \<open>Blocks\<close>

record rollupMetadata =
  rm_tx :: chainTx
  rm_timestamp :: int
  rm_gasUsed :: int
  rm_offchainDataTxs :: "chainTx option list"
  rm_offchainGasUsed :: "int option list"

text \<open>A hole stays one under \<open>map\<close> and \<open>Promise.all\<close> reads it as \<open>undefined\<close>; a member of \<open>undefined\<close> throws.\<close>

definition slotE :: "('e \<Rightarrow> 'a res) \<Rightarrow> 'e slot \<Rightarrow> 'a option res" where
  "slotE f x = (case x of Hole \<Rightarrow> Inr None | Undef \<Rightarrow> Inl TypeError | Ev e \<Rightarrow> mapR Some (f e))"

definition fetchMetadata :: "ethNode \<Rightarrow> rollupEvent \<Rightarrow> offchainEvent slot list \<Rightarrow> rollupMetadata res" where
  "fetchMetadata node event offchainData =
     bindE (en_transaction node (rev_txHash event)) (\<lambda>tx.
     bindE (en_timestamp node (rev_blockNumber event)) (\<lambda>timestamp.
     bindE (en_gasUsed node (rev_txHash event)) (\<lambda>gasUsed.
     bindE (mapE (slotE (\<lambda>e. en_transaction node (oe_txHash e))) offchainData) (\<lambda>offchainDataTxs.
     bindE (mapE (slotE (\<lambda>e. en_gasUsed node (oe_txHash e))) offchainData) (\<lambda>offchainGasUsed.
       Inr \<lparr>rm_tx = tx, rm_timestamp = timestamp, rm_gasUsed = gasUsed, rm_offchainDataTxs = offchainDataTxs,
         rm_offchainGasUsed = offchainGasUsed\<rparr>)))))"

definition definedE :: "'a option \<Rightarrow> 'a res" where
  "definedE x = (case x of None \<Rightarrow> Inl TypeError | Some y \<Rightarrow> Inr y)"

definition dateOf :: "int \<Rightarrow> date" where
  "dateOf t = (if \<bar>t\<bar> \<le> 8640000000000000 then Some t else None)"

definition decodeBlock :: "abi \<Rightarrow> rollupMetadata \<Rightarrow> defiInteractionEvent list \<Rightarrow> block res" where
  "decodeBlock abi meta interactionResult =
     bindE (mapE (\<lambda>x. bindE (definedE x) (\<lambda>tx. abi_bytesArg abi (xt_data tx) 3)) (rm_offchainDataTxs meta)) (\<lambda>parsed.
     let offchainTxDataBuf = concat parsed in
     bindE (abi_bytesArg abi (xt_data (rm_tx meta)) 0) (\<lambda>encodedProofBuffer.
     bindE (RollupProofData_decode encodedProofBuffer) (\<lambda>rollupProofData.
     bindE (sliceOffchainTxData (getNonPaddingProofIds rollupProofData) offchainTxDataBuf) (\<lambda>offchainTxData.
     bindE (mapE definedE (rm_offchainGasUsed meta)) (\<lambda>gas.
       Inr \<lparr>bl_txHash = xt_hash (rm_tx meta), bl_mined = dateOf (rm_timestamp meta * 1000),
         bl_rollupId = rh_rollupId rollupProofData, bl_rollupSize = rh_rollupSize rollupProofData,
         bl_encodedRollupProofData = encodedProofBuffer, bl_offchainTxData = offchainTxData,
         bl_interactionResult = interactionResult, bl_gasUsed = rm_gasUsed meta + sum_list gas,
         bl_gasPrice = xt_gasPrice (rm_tx meta), bl_subtreeRoot = None\<rparr>)))))"

definition blockFromEvent ::
  "ethNode \<Rightarrow> abi \<Rightarrow> defiHashes \<Rightarrow> rollupEvent \<Rightarrow> offchainEvent slot list \<Rightarrow> block res" where
  "blockFromEvent node abi allDefiNotes event offchainData =
     bindE (fetchMetadata node event offchainData) (\<lambda>meta.
     bindE (defiNotesForBlock event allDefiNotes) (\<lambda>defiNotesForRollup.
       decodeBlock abi meta defiNotesForRollup))"

text \<open>The process queue: results are handled in the order of the events, and the first failure, of the data or
  of the callback, stops it. The callback says whether its promise resolved.\<close>

fun deliverBlocks :: "('e \<Rightarrow> block res) \<Rightarrow> (block \<Rightarrow> 's \<Rightarrow> bool \<times> 's) \<Rightarrow> 'e list \<Rightarrow> 's \<Rightarrow> 's" where
  "deliverBlocks blockOf cb [] s = s"
| "deliverBlocks blockOf cb (e # es) s = (case blockOf e of
     Inl _ \<Rightarrow> s
   | Inr block \<Rightarrow> (let (resolved, s) = cb block s in if resolved then deliverBlocks blockOf cb es s else s))"

text \<open>The second component is what \<open>splice\<close> leaves of the caller's array.\<close>

definition getRollupBlocksFromEvents ::
  "ethNode \<Rightarrow> abi \<Rightarrow> (buffer \<Rightarrow> buffer) \<Rightarrow> (block \<Rightarrow> 's \<Rightarrow> bool \<times> 's) \<Rightarrow> rollupEvent list \<Rightarrow> 's
     \<Rightarrow> ('s \<times> rollupEvent list) res" where
  "getRollupBlocksFromEvents node abi sha256 cb rollupEvents s =
    (if rollupEvents = [] then Inr (s, [])
     else
     bindE (getDefiBridgeEventsForRollupEvents node sha256 rollupEvents) (\<lambda>allDefiNotes.
     bindE (getOffchainDataEvents node rollupEvents) (\<lambda>allOffchainDataEvents.
     let rollupEvents = (case findIndex (\<lambda>x. x = []) allOffchainDataEvents of
           None \<Rightarrow> rollupEvents
         | Some firstInvalidOffchainDataIndex \<Rightarrow> take firstInvalidOffchainDataIndex rollupEvents)
     in Inr (deliverBlocks (\<lambda>(event, offchainData). blockFromEvent node abi allDefiNotes event offchainData) cb
               (zip rollupEvents allOffchainDataEvents) s, rollupEvents))))"

definition confirmed :: "int \<Rightarrow> int \<Rightarrow> rollupEvent \<Rightarrow> bool" where
  "confirmed currentBlockNumber minConfirmations e \<longleftrightarrow> currentBlockNumber - rev_blockNumber e + 1 \<ge> minConfirmations"

text \<open>The number of events answered is \<open>undefined\<close> when there is no such rollup.\<close>

definition callbackRollupBlocksFrom ::
  "ethNode \<Rightarrow> abi \<Rightarrow> (buffer \<Rightarrow> buffer) \<Rightarrow> (block \<Rightarrow> 's \<Rightarrow> bool \<times> 's) \<Rightarrow> int \<Rightarrow> int \<Rightarrow> 's \<Rightarrow> ('s \<times> nat option) res" where
  "callbackRollupBlocksFrom node abi sha256 cb rollupId minConfirmations s =
    (case en_rollupEvents node (Some rollupId) None None of
       [] \<Rightarrow> Inr (s, None)
     | e # _ \<Rightarrow>
       let start = rev_blockNumber e;
           allEvents = en_rollupEvents node None (Some start) None in
       bindE (mapE (\<lambda>e. bnToNumber (rev_rollupId e)) (filter (confirmed (en_blockNumber node) minConfirmations) allEvents)) (\<lambda>_.
       let events = filter (\<lambda>e. rev_rollupId e \<ge> rollupId)
             (filter (confirmed (en_blockNumber node) minConfirmations) allEvents)
       in mapR (\<lambda>(s, events). (s, Some (length events))) (getRollupBlocksFromEvents node abi sha256 cb events s)))"

definition pushBlock :: "block \<Rightarrow> block list \<Rightarrow> bool \<times> block list" where
  "pushBlock block blocks = (True, blocks @ [block])"

definition getRollupBlocksFrom :: "ethNode \<Rightarrow> abi \<Rightarrow> (buffer \<Rightarrow> buffer) \<Rightarrow> int \<Rightarrow> int \<Rightarrow> block list res" where
  "getRollupBlocksFrom node abi sha256 rollupId minConfirmations =
     mapR fst (callbackRollupBlocksFrom node abi sha256 pushBlock rollupId minConfirmations [])"

definition setBlock :: "block \<Rightarrow> block option \<Rightarrow> bool \<times> block option" where
  "setBlock b _ = (True, Some b)"

fun lastBlockOf :: "ethNode \<Rightarrow> abi \<Rightarrow> (buffer \<Rightarrow> buffer) \<Rightarrow> rollupEvent list \<Rightarrow> block option res" where
  "lastBlockOf node abi sha256 [] = Inr None"
| "lastBlockOf node abi sha256 (e # es) =
     bindE (getRollupBlocksFromEvents node abi sha256 setBlock [e] None) (\<lambda>(found, _).
       case found of Some b \<Rightarrow> Inr (Some b) | None \<Rightarrow> lastBlockOf node abi sha256 es)"

function findLatestBlock ::
  "ethNode \<Rightarrow> abi \<Rightarrow> (buffer \<Rightarrow> buffer) \<Rightarrow> int \<Rightarrow> int \<Rightarrow> int \<Rightarrow> block option res" where
  "findLatestBlock node abi sha256 minConfirmations earliest endBlock =
    (if earliest < endBlock
     then let start = max (endBlock - 100000) earliest;
              allEvents = en_rollupEvents node None (Some start) (Some endBlock);
              events = filter (confirmed (en_blockNumber node) minConfirmations) allEvents
          in bindE (lastBlockOf node abi sha256 (rev events)) (\<lambda>block.
               case block of Some b \<Rightarrow> Inr (Some b)
               | None \<Rightarrow> findLatestBlock node abi sha256 minConfirmations earliest (max (start - 1) earliest))
     else Inr None)"
  by pat_completeness auto
termination by (relation "measure (\<lambda>(_, _, _, _, earliest, endBlock). nat (endBlock - earliest))") auto

declare findLatestBlock.simps [simp del]

definition getRollupBlock :: "ethNode \<Rightarrow> abi \<Rightarrow> (buffer \<Rightarrow> buffer) \<Rightarrow> int \<Rightarrow> int \<Rightarrow> block option res" where
  "getRollupBlock node abi sha256 rollupId minConfirmations =
    (if rollupId = -1
     then findLatestBlock node abi sha256 minConfirmations
            (eb_earliestBlock (getEarliestBlock (en_chainId node))) (en_blockNumber node)
     else let events = filter (confirmed (en_blockNumber node) minConfirmations)
                (en_rollupEvents node (Some rollupId) None None)
          in if events = [] then Inr None
             else mapR fst (getRollupBlocksFromEvents node abi sha256 setBlock events None))"

section \<open>Lemmas: the chunks and their events\<close>

definition logWithId :: "rollupEvent list \<Rightarrow> int \<Rightarrow> rollupEvent option" where
  "logWithId logs i = List.find (\<lambda>x. rev_rollupId x = i) logs"

lemma findRollupLog_found:
  "\<forall>x\<in>set logs. rev_rollupId x < 2 ^ 53 \<Longrightarrow> i < 2 ^ 53 \<Longrightarrow> findRollupLog logs i = Inr (logWithId logs i)"
  by (induction logs) (simp_all add: bnToNumber_def logWithId_def)

lemma findRollupLog_overflow:
  "logs \<noteq> [] \<Longrightarrow> \<not> i < 2 ^ 53 \<Longrightarrow> \<not> isOk (findRollupLog logs i)"
  by (cases logs) (simp_all add: bnToNumber_def)

lemma length_setSlot:
  "0 \<le> i \<Longrightarrow> i < int (length xs) \<Longrightarrow> length (setSlot xs i e) = length xs"
  "length xs < 2 ^ 32 \<Longrightarrow> length (setSlot xs i e) < 2 ^ 32"
  by (auto simp: setSlot_def)

lemma setSlot_in: "0 \<le> i \<Longrightarrow> i < int (length xs) \<Longrightarrow> int (length xs) < 2 ^ 32 \<Longrightarrow> setSlot xs i e = xs[nat i := Ev e]"
  by (auto simp: setSlot_def)

definition slotsBounded :: "offchainEventMap \<Rightarrow> bool" where
  "slotsBounded a \<longleftrightarrow> (\<forall>k xs. a k = Some xs \<longrightarrow> length xs < 2 ^ 32)"

text \<open>The events the reader uses, and those it can store.\<close>

definition counted :: "rollupEvent list \<Rightarrow> offchainEvent \<Rightarrow> bool" where
  "counted logs e \<longleftrightarrow> \<not> tooLate (logWithId logs (oe_rollupId e)) e"

definition readable :: "rollupEvent list \<Rightarrow> offchainEvent \<Rightarrow> bool" where
  "readable logs e \<longleftrightarrow> oe_rollupId e < 2 ^ 53 \<and> (counted logs e \<longrightarrow> oe_totalChunks e < 2 ^ 32)"

abbreviation eventKey :: "offchainEvent \<Rightarrow> int \<times> ethAddress" where
  "eventKey e \<equiv> (oe_rollupId e, oe_sender e)"

lemma addOffchainEvent_step:
  assumes "logs \<noteq> []" "\<forall>x\<in>set logs. rev_rollupId x < 2 ^ 53" "slotsBounded a"
  shows "isOk (addOffchainEvent logs a e) \<longleftrightarrow> readable logs e"
    and "addOffchainEvent logs a e = Inr a' \<Longrightarrow> slotsBounded a'"
proof -
  show "isOk (addOffchainEvent logs a e) \<longleftrightarrow> readable logs e"
  proof (cases "oe_rollupId e < 2 ^ 53")
    case True
    have "oe_totalChunks e < 2 ^ 32" if "a k = Some xs" "int (length xs) = oe_totalChunks e" for k xs
      using assms(3) that unfolding slotsBounded_def by fastforce
    then show ?thesis using True
      by (auto simp: addOffchainEvent_def findRollupLog_found [OF assms(2) True] readable_def counted_def Let_def arrayOf_def
          split: option.splits)
  next
    case False
    then show ?thesis using findRollupLog_overflow [OF assms(1) False]
      by (cases "findRollupLog logs (oe_rollupId e)") (simp_all add: addOffchainEvent_def readable_def)
  qed
  assume "addOffchainEvent logs a e = Inr a'"
  note r = this
  show "slotsBounded a'"
  proof (cases "a' = a")
    case False
    with r obtain xs where xs: "a' = a(eventKey e \<mapsto> setSlot xs (oe_chunk e) e)"
      "a (eventKey e) = Some xs \<or> (\<exists>n < 2 ^ 32. xs = replicate (nat n) Undef)"
      by (auto simp: addOffchainEvent_def res_simps Let_def arrayOf_def split: if_splits option.splits)
    have "length xs < 2 ^ 32" using xs(2) assms(3) by (auto simp: slotsBounded_def)
    then show ?thesis using xs(1) assms(3) length_setSlot(2) [of xs "oe_chunk e" e] by (simp add: slotsBounded_def)
  qed (use assms(3) in simp)
qed

lemma stored_id: "logs \<noteq> [] \<Longrightarrow> addOffchainEvent logs a e = Inr a' \<Longrightarrow> oe_rollupId e < 2 ^ 53"
  using findRollupLog_overflow [of logs "oe_rollupId e"]
  by (cases "findRollupLog logs (oe_rollupId e)") (auto simp: addOffchainEvent_def simp del: findRollupLog.simps)

lemma foldE_isOk_iff:
  assumes "\<And>a x. P a \<Longrightarrow> isOk (f a x) \<longleftrightarrow> Q x" "\<And>a x b. P a \<Longrightarrow> f a x = Inr b \<Longrightarrow> P b" "P a"
  shows "isOk (foldE f a xs) \<longleftrightarrow> (\<forall>x\<in>set xs. Q x)"
  using assms(3)
proof (induction xs arbitrary: a)
  case (Cons x xs)
  show ?case
  proof (cases "f a x")
    case (Inl err)
    then show ?thesis using assms(1) [OF Cons.prems, of x] by simp
  next
    case (Inr b)
    then show ?thesis using assms(1) [OF Cons.prems, of x] Cons.IH [OF assms(2) [OF Cons.prems Inr]] by simp
  qed
qed simp

text \<open>What the map holds for a key whose events all carry one number of chunks.\<close>

definition slotsOf :: "(offchainEvent \<Rightarrow> bool) \<Rightarrow> offchainEvent list \<Rightarrow> int \<Rightarrow> offchainEvent slot list option \<Rightarrow> bool" where
  "slotsOf mine es n x = (case x of
     None \<Rightarrow> \<not> (\<exists>e\<in>set es. mine e)
   | Some xs \<Rightarrow> int (length xs) = n \<and> (\<forall>c<length xs.
       (xs ! c = Undef \<and> \<not> (\<exists>e\<in>set es. mine e \<and> oe_chunk e = int c))
       \<or> (\<exists>e\<in>set es. mine e \<and> oe_chunk e = int c \<and> xs ! c = Ev e)))"

lemma slotsOf_other: "\<not> mine e \<Longrightarrow> slotsOf mine es n x \<Longrightarrow> slotsOf mine (es @ [e]) n x"
  by (cases x) (auto simp: slotsOf_def)

lemma slotsOf_mine:
  assumes "slotsOf mine es n x" "mine e" "oe_totalChunks e = n" "0 \<le> oe_chunk e" "oe_chunk e < n" "n < 2 ^ 32"
    and "xs = (case x of None \<Rightarrow> replicate (nat n) Undef | Some xs \<Rightarrow> xs)"
  shows "slotsOf mine (es @ [e]) n (Some (setSlot xs (oe_chunk e) e))"
proof -
  have l: "int (length xs) = n" using assms by (auto simp: slotsOf_def split: option.splits)
  have s: "setSlot xs (oe_chunk e) e = xs[nat (oe_chunk e) := Ev e]" using assms(4-6) l by (intro setSlot_in) auto
  have "(xs[nat (oe_chunk e) := Ev e] ! c = Undef \<and> \<not> (\<exists>e'\<in>set (es @ [e]). mine e' \<and> oe_chunk e' = int c))
       \<or> (\<exists>e'\<in>set (es @ [e]). mine e' \<and> oe_chunk e' = int c \<and> xs[nat (oe_chunk e) := Ev e] ! c = Ev e')" if c: "c < length xs" for c
  proof (cases "int c = oe_chunk e")
    case True
    then have "xs[nat (oe_chunk e) := Ev e] ! c = Ev e" using c by (simp flip: True)
    then show ?thesis using True assms(2) by auto
  next
    case False
    then have n: "xs[nat (oe_chunk e) := Ev e] ! c = xs ! c" using assms(4) by auto
    have "(xs ! c = Undef \<and> \<not> (\<exists>e\<in>set es. mine e \<and> oe_chunk e = int c))
       \<or> (\<exists>e\<in>set es. mine e \<and> oe_chunk e = int c \<and> xs ! c = Ev e)"
      using assms(1,7) c by (cases x) (auto simp: slotsOf_def)
    then show ?thesis unfolding n using False by auto
  qed
  then show ?thesis using l unfolding s slotsOf_def by simp
qed

lemma fold_slots:
  assumes "logs \<noteq> []" "\<forall>x\<in>set logs. rev_rollupId x < 2 ^ 53"
    and "foldE (addOffchainEvent logs) Map.empty es = Inr a" "n < 2 ^ 32"
    and "\<forall>e\<in>set es. eventKey e = k \<and> counted logs e \<longrightarrow> oe_totalChunks e = n \<and> 0 \<le> oe_chunk e \<and> oe_chunk e < n"
  shows "slotsOf (\<lambda>e. eventKey e = k \<and> counted logs e) es n (a k)"
  using assms(3,5)
proof (induction es arbitrary: a rule: rev_induct)
  case Nil
  then show ?case by (auto simp: slotsOf_def split: option.splits)
next
  case (snoc e es)
  let ?mine = "\<lambda>e. eventKey e = k \<and> counted logs e"
  from snoc.prems(1) obtain b where b: "foldE (addOffchainEvent logs) Map.empty es = Inr b" "addOffchainEvent logs b e = Inr a"
    by (auto simp: foldE_append bindE_eq_Inr)
  have ih: "slotsOf ?mine es n (b k)" using snoc.IH [OF b(1)] snoc.prems(2) by simp
  have i: "oe_rollupId e < 2 ^ 53" using b(2) by (rule stored_id [OF assms(1)])
  note f = findRollupLog_found [OF assms(2) i]
  show ?case
  proof (cases "?mine e")
    case False
    then have "a k = b k" using b(2) by (auto simp: addOffchainEvent_def f counted_def Let_def bindE_eq_Inr split: if_splits)
    then show ?thesis using slotsOf_other [of ?mine, OF False ih] by simp
  next
    case True
    then have e: "oe_totalChunks e = n" "0 \<le> oe_chunk e" "oe_chunk e < n" using snoc.prems(2) by auto
    define xs where "xs = (case b k of None \<Rightarrow> replicate (nat n) Undef | Some xs \<Rightarrow> xs)"
    have "int (length ys) = n" if "b k = Some ys" for ys using ih that by (simp add: slotsOf_def)
    then have "a k = Some (setSlot xs (oe_chunk e) e)" using b(2) True e assms(4)
      by (cases "b k") (auto simp: addOffchainEvent_def f counted_def Let_def bindE_eq_Inr arrayOf_def xs_def)
    then show ?thesis using slotsOf_mine [of ?mine, OF ih True e assms(4) xs_def] by simp
  qed
qed

definition sliceAt :: "buffer \<Rightarrow> nat \<Rightarrow> nat \<Rightarrow> buffer" where
  "sliceAt xs l i = bslice xs (i * l) ((i + 1) * l)"

lemma concat_slices: "concat (map (sliceAt xs l) [0..<n]) = take (n * l) xs"
proof (induction n)
  case (Suc n)
  have "take (n * l) xs @ sliceAt xs l n = take ((n + 1) * l) xs"
    using bslice_concat [of 0 "n * l" "(n + 1) * l" xs] by (simp add: sliceAt_def)
  then show ?case unfolding upt_Suc_append [OF le0] map_append concat_append Suc by simp
qed simp

lemma ocdChunks_cases:
  assumes "ocdChunks ocData limit = Inr cs" "ocData \<noteq> []"
  shows "0 < limit" and "cs = map (sliceAt ocData limit) [0..<(length ocData + limit - 1) div limit]"
    and "int (length cs) < 2 ^ 32"
proof -
  define n where "n = (length ocData + limit - 1) div limit"
  show l: "0 < limit" using assms by (cases limit) (simp_all add: ocdChunks_def)
  then have "mapR (\<lambda>a. map (sliceAt ocData limit) [0..<length a]) (arrayOf () (int n)) = Inr cs"
    using assms unfolding ocdChunks_def sliceAt_def n_def Let_def by simp
  then have "cs = map (sliceAt ocData limit) [0..<n] \<and> int n < 2 ^ 32"
    by (simp only: arrayOf_def split: if_splits) (simp_all only: mapR_Inr mapR_Inl, auto)
  then show "cs = map (sliceAt ocData limit) [0..<n]" "int (length cs) < 2 ^ 32" by simp_all
qed

lemma ocdChunks_concat:
  assumes "ocdChunks ocData limit = Inr cs"
  shows "concat cs = ocData" and "0 < length cs" and "int (length cs) < 2 ^ 32"
proof -
  have "concat cs = ocData \<and> 0 < length cs \<and> int (length cs) < 2 ^ 32"
  proof (cases "ocData = []")
    case True
    have "ocdChunks [] limit = Inr [[]]" by (simp add: ocdChunks_def)
    then have "cs = [[]]" using assms True by simp
    then show ?thesis using True by simp
  next
    case False
    define n where "n = (length ocData + limit - 1) div limit"
    note c = ocdChunks_cases [OF assms False, folded n_def]
    have "length ocData + limit - 1 < limit + n * limit" 
      using dividend_less_div_times [OF c(1)] unfolding n_def .
    then have "length ocData \<le> n * limit" using c(1) by linarith
    moreover have "limit \<le> length ocData + limit - 1" using False by (cases ocData) simp_all
    then have "0 < n" using c(1) unfolding n_def by (simp add: div_greater_zero_iff)
    ultimately show ?thesis using c(2,3) concat_slices [of ocData limit n] by simp
  qed
  then show "concat cs = ocData" "0 < length cs" "int (length cs) < 2 ^ 32" by simp_all
qed

lemma createRollupTxs_ok:
  assumes "createRollupTxs abi dataBuf sigs oc limit = Inr txs" "RollupProofData_decode dataBuf = Inr r"
  obtains cs where "ocdChunks (concat oc) limit = Inr cs" "length (rtx_offchainDataTxs txs) = length cs"
    and "\<forall>c<length cs. abi_offchainData abi (rh_rollupId r) (int c) (int (length cs)) (cs ! c) = Inr (rtx_offchainDataTxs txs ! c)"
    and "abi_processRollup abi dataBuf (solidityFormatSignatures sigs) = Inr (rtx_rollupProofTx txs)"
proof -
  from assms obtain cs where cs: "ocdChunks (concat oc) limit = Inr cs"
    and m: "mapE (\<lambda>(i, c). abi_offchainData abi (rh_rollupId r) (int i) (int (length cs)) c) (enumerate 0 cs) = Inr (rtx_offchainDataTxs txs)"
    and p: "abi_processRollup abi dataBuf (solidityFormatSignatures sigs) = Inr (rtx_rollupProofTx txs)"
    by (auto simp: createRollupTxs_def Let_def bindE_eq_Inr)
  show thesis
  proof (rule that [OF cs _ _ p])
    show "length (rtx_offchainDataTxs txs) = length cs" using mapE_Inr_length [OF m] by simp
    show "\<forall>c<length cs. abi_offchainData abi (rh_rollupId r) (int c) (int (length cs)) (cs ! c) = Inr (rtx_offchainDataTxs txs ! c)"
      using mapE_Inr_nth [OF m] by (simp add: nth_enumerate_eq)
  qed
qed

lemma mapE_eqI: "length ys = length xs \<Longrightarrow> (\<And>i. i < length xs \<Longrightarrow> f (xs ! i) = Inr (ys ! i)) \<Longrightarrow> mapE f xs = Inr ys"
proof (induction xs arbitrary: ys)
  case (Cons x xs)
  then obtain y zs where "ys = y # zs" by (cases ys) auto
  then show ?case using Cons.prems(1) Cons.prems(2) [of 0] Cons.IH [of zs] Cons.prems(2) [of "Suc _"] by simp
qed simp

section \<open>Reading back what was published\<close>

text \<open>What is documented of the ABI coder: an argument of a call is decoded from its encoding.\<close>

definition abiDecodes :: "abi \<Rightarrow> bool" where
  "abiDecodes abi \<longleftrightarrow> (\<forall>d s b. abi_processRollup abi d s = Inr b \<longrightarrow> abi_bytesArg abi b 0 = Inr d)
     \<and> (\<forall>r i n d b. abi_offchainData abi r i n d = Inr b \<longrightarrow> abi_bytesArg abi b 3 = Inr d)"

definition ofRollup :: "rollupEvent \<Rightarrow> offchainEvent \<Rightarrow> bool" where
  "ofRollup log e \<longleftrightarrow> eventKey e = (rev_rollupId log, rev_sender log) \<and> oe_blockNumber e \<le> rev_blockNumber log"

text \<open>The event of a transaction that publishes one of these chunks, perhaps again.\<close>

definition republishes :: "ethNode \<Rightarrow> buffer list \<Rightarrow> offchainEvent \<Rightarrow> bool" where
  "republishes node datas e \<longleftrightarrow> oe_totalChunks e = int (length datas) \<and> 0 \<le> oe_chunk e \<and> oe_chunk e < int (length datas)
     \<and> (\<exists>tx. en_transaction node (oe_txHash e) = Inr tx \<and> xt_data tx = datas ! nat (oe_chunk e))"

lemma logWithId_distinct:
  "distinct (map rev_rollupId logs) \<Longrightarrow> log \<in> set logs \<Longrightarrow> logWithId logs (rev_rollupId log) = Some log"
  unfolding logWithId_def by (induction logs) force+

lemma counted_iff_ofRollup:
  assumes "distinct (map rev_rollupId logs)" "log \<in> set logs"
  shows "eventKey e = (rev_rollupId log, rev_sender log) \<and> counted logs e \<longleftrightarrow> ofRollup log e"
  using logWithId_distinct [OF assms] by (auto simp: counted_def tooLate_def ofRollup_def)

lemma read_back_slots:
  assumes logs: "distinct (map rev_rollupId logs)" "log \<in> set logs" "\<forall>x\<in>set logs. rev_rollupId x < 2 ^ 53"
    and n: "0 < length datas" "int (length datas) < 2 ^ 32"
    and r: "\<forall>e\<in>set es. ofRollup log e \<longrightarrow> republishes node datas e"
    and c: "\<forall>c<length datas. \<exists>e\<in>set es. ofRollup log e \<and> oe_chunk e = int c"
    and a: "foldE (addOffchainEvent logs) Map.empty es = Inr a"
  shows "length (lookupOffchain a log) = length datas \<and> (\<forall>c<length datas. \<exists>e. lookupOffchain a log ! c = Ev e
    \<and> oe_chunk e = int c \<and> republishes node datas e)"
proof -
  let ?k = "(rev_rollupId log, rev_sender log)"
  note mine = counted_iff_ofRollup [OF logs(1,2)]
  have "slotsOf (\<lambda>e. eventKey e = ?k \<and> counted logs e) es (int (length datas)) (a ?k)"
  proof (rule fold_slots [OF _ logs(3) a n(2)])
    show "\<forall>e\<in>set es. eventKey e = ?k \<and> counted logs e
        \<longrightarrow> oe_totalChunks e = int (length datas) \<and> 0 \<le> oe_chunk e \<and> oe_chunk e < int (length datas)"
      unfolding mine using r by (simp add: republishes_def)
  qed (use logs(2) in auto)
  then have s: "slotsOf (ofRollup log) es (int (length datas)) (a ?k)" unfolding mine .
  obtain xs where xs: "a ?k = Some xs" using s c n(1) by (cases "a ?k") (auto simp: slotsOf_def)
  have l: "length xs = length datas" using s by (simp add: xs slotsOf_def)
  have e: "\<exists>e. xs ! i = Ev e \<and> oe_chunk e = int i \<and> republishes node datas e" if "i < length datas" for i
  proof -
    from c that obtain e where "e \<in> set es" "ofRollup log e" "oe_chunk e = int i" by blast
    with s that obtain e' where "e' \<in> set es" "ofRollup log e'" "oe_chunk e' = int i" "xs ! i = Ev e'"
      unfolding slotsOf_def xs option.case l by blast
    then show ?thesis using r by blast
  qed
  have "Undef \<notin> set xs" using e l by (auto simp: in_set_conv_nth) (metis slot.distinct(5))
  then show ?thesis using e l by (simp add: lookupOffchain_def xs)
qed

lemma fetched_chunks:
  assumes f: "fetchMetadata node log xs = Inr meta"
    and xs: "length xs = length datas" "\<forall>c<length datas. \<exists>e. xs ! c = Ev e \<and> oe_chunk e = int c \<and> republishes node datas e"
  shows "\<exists>txs. rm_offchainDataTxs meta = map Some txs \<and> map xt_data txs = datas" and "\<exists>gs. rm_offchainGasUsed meta = map Some gs"
proof -
  from f have t: "mapE (slotE (\<lambda>e. en_transaction node (oe_txHash e))) xs = Inr (rm_offchainDataTxs meta)"
    and g: "mapE (slotE (\<lambda>e. en_gasUsed node (oe_txHash e))) xs = Inr (rm_offchainGasUsed meta)"
    by (auto simp: fetchMetadata_def bindE_eq_Inr)
  have l: "length (rm_offchainDataTxs meta) = length datas" "length (rm_offchainGasUsed meta) = length datas"
    using mapE_Inr_length [OF t] mapE_Inr_length [OF g] xs(1) by simp_all
  have "\<exists>tx. rm_offchainDataTxs meta ! c = Some tx \<and> xt_data tx = datas ! c" if "c < length datas" for c
    using mapE_Inr_nth [OF t, of c] xs that by (fastforce simp: slotE_def republishes_def mapR_eq_Inr)
  then obtain f where f: "\<And>c. c < length datas \<Longrightarrow> rm_offchainDataTxs meta ! c = Some (f c) \<and> xt_data (f c) = datas ! c" by metis
  show "\<exists>txs. rm_offchainDataTxs meta = map Some txs \<and> map xt_data txs = datas"
    by (rule exI [of _ "map f [0..<length datas]"]) (auto intro!: nth_equalityI simp: l f)
  have "\<exists>g. rm_offchainGasUsed meta ! c = Some g" if "c < length datas" for c
    using mapE_Inr_nth [OF g, of c] xs that by (fastforce simp: slotE_def mapR_eq_Inr)
  then obtain h where h: "\<And>c. c < length datas \<Longrightarrow> rm_offchainGasUsed meta ! c = Some (h c)" by metis
  show "\<exists>gs. rm_offchainGasUsed meta = map Some gs"
    by (rule exI [of _ "map h [0..<length datas]"]) (auto intro!: nth_equalityI simp: l h)
qed

section \<open>Lemmas: the search for DeFi notes\<close>

definition pendingHashes :: "defiHashes \<Rightarrow> buffer set" where
  "pendingHashes m = {h. m h = Some None}"

definition soundNotes :: "(buffer \<Rightarrow> buffer) \<Rightarrow> defiHashes \<Rightarrow> bool" where
  "soundNotes sha256 m \<longleftrightarrow> (\<forall>h e. m h = Some (Some e) \<longrightarrow> eventHash sha256 e = Inr h)"

text \<open>What handling these events does to the map and the counter.\<close>

definition searched ::
  "(buffer \<Rightarrow> buffer) \<Rightarrow> defiInteractionEvent list \<Rightarrow> defiHashes \<times> int \<Rightarrow> defiHashes \<times> int \<Rightarrow> bool" where
  "searched sha256 es s s' \<longleftrightarrow> dom (fst s') = dom (fst s) \<and> pendingHashes (fst s') \<subseteq> pendingHashes (fst s)
     \<and> (soundNotes sha256 (fst s) \<longrightarrow> soundNotes sha256 (fst s'))
     \<and> (finite (pendingHashes (fst s)) \<and> int (card (pendingHashes (fst s))) \<le> snd s
          \<longrightarrow> int (card (pendingHashes (fst s'))) \<le> snd s')
     \<and> (\<forall>e\<in>set es. \<forall>h. eventHash sha256 e = Inr h \<longrightarrow> h \<notin> pendingHashes (fst s'))"

lemma searched_Nil: "searched sha256 [] s s"
  by (simp add: searched_def)

lemma searched_trans: "searched sha256 es s t \<Longrightarrow> searched sha256 fs t u \<Longrightarrow> searched sha256 (es @ fs) s u"
proof -
  assume a: "searched sha256 es s t" and b: "searched sha256 fs t u"
  have "h \<notin> pendingHashes (fst u)" if "e \<in> set es \<or> e \<in> set fs" "eventHash sha256 e = Inr h" for e h
    using a b that unfolding searched_def by blast
  moreover have "finite (pendingHashes (fst t))" if "finite (pendingHashes (fst s))"
    using a that unfolding searched_def by (blast intro: finite_subset)
  ultimately show ?thesis using a b unfolding searched_def by (simp add: subset_trans [of "pendingHashes (fst u)" "pendingHashes (fst t)"])
qed

lemma storeDefiNote_searched:
  assumes "storeDefiNote sha256 s e = Inr s'"
  shows "searched sha256 [e] s s'"
proof -
  obtain m k where s: "s = (m, k)" by (cases s)
  from assms obtain h where h: "eventHash sha256 e = Inr h"
    and r: "s' = (if m h = Some None then (m(h \<mapsto> Some e), k - 1) else (m, k))"
    by (auto simp: storeDefiNote_def s bindE_eq_Inr split: if_splits)
  show ?thesis
  proof (cases "m h = Some None")
    case True
    then have p: "pendingHashes (m(h \<mapsto> Some e)) = pendingHashes m - {h}" "h \<in> pendingHashes m"
      and d: "dom (m(h \<mapsto> Some e)) = dom m" by (auto simp: pendingHashes_def)
    have "int (card (pendingHashes m - {h})) \<le> k - 1" if "finite (pendingHashes m)" "int (card (pendingHashes m)) \<le> k"
      using card.remove [OF that(1) p(2)] that(2) by simp
    moreover have "soundNotes sha256 (m(h \<mapsto> Some e))" if "soundNotes sha256 m" using that h by (simp add: soundNotes_def)
    moreover have "s' = (m(h \<mapsto> Some e), k - 1)" using r True by simp
    ultimately show ?thesis unfolding searched_def s using h by (simp add: p(1) d del: dom_fun_upd)
  next
    case False
    then have "s' = (m, k)" "h \<notin> pendingHashes m" using r by (simp_all add: pendingHashes_def)
    then show ?thesis using h by (simp add: searched_def s)
  qed
qed

lemma foldE_searched: "foldE (storeDefiNote sha256) s es = Inr s' \<Longrightarrow> searched sha256 es s s'"
proof (induction es arbitrary: s)
  case (Cons e es)
  then obtain t where t: "storeDefiNote sha256 s e = Inr t" "foldE (storeDefiNote sha256) t es = Inr s'" by (auto simp: bindE_eq_Inr)
  show ?case using searched_trans [OF storeDefiNote_searched [OF t(1)] Cons.IH [OF t(2)]] by simp
qed (simp add: searched_Nil)

text \<open>The search covers every block above the earliest one, or stops with nothing left to find.\<close>

lemma searchDefiNotes_covers:
  assumes "searchDefiNotes node sha256 eb endBlock s = Inr s'"
    and "\<forall>a b. en_defiLogs node a b = concat (map logsOf [a..b])"
  shows "\<exists>es. searched sha256 es s s' \<and> (0 < snd s' \<longrightarrow> (\<forall>blk l e. eb_earliestBlock eb < blk \<and> blk \<le> endBlock
    \<and> l \<in> set (logsOf blk) \<and> decodeDefiLog l = Inr e \<longrightarrow> e \<in> set es))"
  using assms
proof (induction node sha256 eb endBlock s rule: searchDefiNotes.induct)
  case (1 node sha256 eb endBlock s)
  let ?start = "max (endBlock - int (eb_chunk eb)) (eb_earliestBlock eb)"
  show ?case
  proof (cases "eb_earliestBlock eb < endBlock \<and> 0 < snd s")
    case True
    then obtain es t where es: "mapE decodeDefiLog (en_defiLogs node ?start endBlock) = Inr es"
      "foldE (storeDefiNote sha256) s es = Inr t" "searchDefiNotes node sha256 eb (max (?start - 1) (eb_earliestBlock eb)) t = Inr s'"
      using "1.prems"(1) by (auto simp: searchDefiNotes.simps [of _ _ _ endBlock] Let_def bindE_eq_Inr)
    obtain fs where fs: "searched sha256 fs t s'" "0 < snd s' \<longrightarrow> (\<forall>blk l e. eb_earliestBlock eb < blk
        \<and> blk \<le> max (?start - 1) (eb_earliestBlock eb) \<and> l \<in> set (logsOf blk) \<and> decodeDefiLog l = Inr e \<longrightarrow> e \<in> set fs)"
      using "1.IH" [OF True refl es(1,2,3) "1.prems"(2)] by blast
    have "e \<in> set es" if "?start \<le> blk" "blk \<le> endBlock" "l \<in> set (logsOf blk)" "decodeDefiLog l = Inr e" for blk l e
    proof -
      have "l \<in> set (en_defiLogs node ?start endBlock)" using that "1.prems"(2) by auto
      then show ?thesis using mapE_Inr_nth [OF es(1)] mapE_Inr_length [OF es(1)] that(4) by (metis in_set_conv_nth sum.inject(2))
    qed
    then show ?thesis using searched_trans [OF foldE_searched [OF es(2)] fs(1)] fs(2)
      by (intro exI [of _ "es @ fs"]) (auto, (smt (verit) max_def)+)
  next
    case False
    then have "s' = s" using "1.prems"(1) by (auto simp: searchDefiNotes.simps [of _ _ _ endBlock])
    then show ?thesis using False by (intro exI [of _ "[]"]) (auto simp: searched_Nil)
  qed
qed

definition initialHashes :: "rollupEvent list \<Rightarrow> buffer list" where
  "initialHashes evs = concat (map rev_nextExpectedDefiHashes evs)"

lemma getDefi_searched:
  assumes "getDefiBridgeEventsForRollupEvents node sha256 evs = Inr m"
  obtains eb k where "eb = getEarliestBlock (en_chainId node)" "searchDefiNotes node sha256 eb
      (max (Max (set (map rev_blockNumber evs))) (eb_earliestBlock eb))
      (\<lambda>h. if h \<in> set (initialHashes evs) then Some None else None, int (length (initialHashes evs))) = Inr (m, k)"
  using assms unfolding getDefiBridgeEventsForRollupEvents_def Let_def mapR_eq_Inr initialHashes_def by fastforce

lemma searchDefi_invariant: "searchDefiNotes node sha256 eb b s = Inr s' \<Longrightarrow> \<exists>es. searched sha256 es s s'"
proof (induction node sha256 eb b s rule: searchDefiNotes.induct)
  case (1 node sha256 eb b s)
  show ?case
  proof (cases "eb_earliestBlock eb < b \<and> 0 < snd s")
    case True
    then obtain es t where es: "mapE decodeDefiLog (en_defiLogs node (max (b - int (eb_chunk eb)) (eb_earliestBlock eb)) b) = Inr es"
      "foldE (storeDefiNote sha256) s es = Inr t" "searchDefiNotes node sha256 eb
        (max (max (b - int (eb_chunk eb)) (eb_earliestBlock eb) - 1) (eb_earliestBlock eb)) t = Inr s'"
      using "1.prems" by (auto simp: searchDefiNotes.simps [of _ _ _ b] Let_def bindE_eq_Inr)
    then show ?thesis using searched_trans [OF foldE_searched [OF es(2)]] "1.IH" [OF True refl es] by blast
  next
    case False
    then have "s' = s" using "1.prems" by (auto simp: searchDefiNotes.simps [of _ _ _ b])
    then show ?thesis using searched_Nil by blast
  qed
qed

lemma getDefi_sound: "getDefiBridgeEventsForRollupEvents node sha256 evs = Inr m \<Longrightarrow> soundNotes sha256 m"
proof (elim getDefi_searched)
  fix eb k b
  let ?m = "\<lambda>h. if h \<in> set (initialHashes evs) then Some None else None"
  assume "searchDefiNotes node sha256 eb b (?m, int (length (initialHashes evs))) = Inr (m, k)"
  then obtain es where e: "searched sha256 es (?m, int (length (initialHashes evs))) (m, k)" by (blast dest: searchDefi_invariant)
  have "soundNotes sha256 ?m" by (simp add: soundNotes_def)
  then show "soundNotes sha256 m" using e by (simp add: searched_def)
qed

lemma defiNotesForBlock_hashes:
  assumes "soundNotes sha256 m" "defiNotesForBlock ev m = Inr dn"
  shows "mapE (eventHash sha256) dn = Inr (rev_nextExpectedDefiHashes ev)"
proof (rule mapE_eqI)
  note d = assms(2) [unfolded defiNotesForBlock_def]
  show l: "length (rev_nextExpectedDefiHashes ev) = length dn" using mapE_Inr_length [OF d] by simp
  show "eventHash sha256 (dn ! i) = Inr (rev_nextExpectedDefiHashes ev ! i)" if "i < length dn" for i
    using mapE_Inr_nth [OF d, of i] that l assms(1) by (auto simp: soundNotes_def split: option.splits)
qed

lemma decodeBlock_interactions: "decodeBlock abi meta dn = Inr b \<Longrightarrow> bl_interactionResult b = dn"
  by (auto simp: decodeBlock_def Let_def bindE_eq_Inr)

lemma deliver_pushBlock:
  "\<exists>m\<le>length es. deliverBlocks f pushBlock es bs = bs @ map (\<lambda>i. projr (f (es ! i))) [0..<m]
     \<and> (\<forall>i<m. isOk (f (es ! i))) \<and> (m < length es \<longrightarrow> \<not> isOk (f (es ! m)))"
proof (induction es arbitrary: bs)
  case (Cons e es)
  show ?case
  proof (cases "f e")
    case (Inl err)
    then show ?thesis by (intro exI [of _ 0]) simp
  next
    case (Inr b)
    obtain m where m: "m \<le> length es" "deliverBlocks f pushBlock es (bs @ [b]) = (bs @ [b]) @ map (\<lambda>i. projr (f (es ! i))) [0..<m]"
      "\<forall>i<m. isOk (f (es ! i))" "m < length es \<longrightarrow> \<not> isOk (f (es ! m))" using Cons.IH [of "bs @ [b]"] by blast
    have "map (\<lambda>i. projr (f ((e # es) ! i))) [0..<Suc m] = b # map (\<lambda>i. projr (f (es ! i))) [0..<m]"
      unfolding upt_conv_Cons [OF zero_less_Suc] map_Suc_upt [symmetric] by (simp add: Inr)
    moreover have "\<forall>i<Suc m. isOk (f ((e # es) ! i))" using m(3) Inr by (auto simp: less_Suc_eq_0_disj)
    ultimately show ?thesis using m Inr by (intro exI [of _ "Suc m"]) (simp add: pushBlock_def [of b])
  qed
qed simp

section \<open>Properties\<close>

text \<open>C17: What the sequencer publishes is what the clients read. Take the transactions made for a rollup and its
  transactions' offchain data, and a rollup event of that rollup among distinct ones. If the queried
  events are readable, the events of this rollup and sender, up to its block, all publish its chunks (in any order, any
  number of times), and each chunk has one, then the reader gets events for it, and the block decoded from
  them holds the data of each transaction again, and the encoded rollup.\<close>

theorem published_offchain_data_read_back:
  assumes abi: "abiDecodes abi"
    and txs: "createRollupTxs abi dataBuf sigs oc limit = Inr txs"
    and r: "RollupProofData_decode dataBuf = Inr r" "map length oc = map getOffchainDataLength (getNonPaddingProofIds r)"
    and logs: "distinct (map rev_rollupId logs)" "\<forall>x\<in>set logs. rev_rollupId x < 2 ^ 53"
    and log: "i < length logs" "en_transaction node (rev_txHash (logs ! i)) = Inr tx" "xt_data tx = rtx_rollupProofTx txs"
    and q: "\<forall>e\<in>set (queryOffchainEvents node logs). readable logs e
        \<and> (ofRollup (logs ! i) e \<longrightarrow> republishes node (rtx_offchainDataTxs txs) e)"
    and all: "\<forall>c<length (rtx_offchainDataTxs txs). \<exists>e\<in>set (queryOffchainEvents node logs). ofRollup (logs ! i) e \<and> oe_chunk e = int c"
  shows "\<exists>ocs. getOffchainDataEvents node logs = Inr ocs \<and> ocs ! i \<noteq> []
    \<and> (\<forall>meta dn. fetchMetadata node (logs ! i) (ocs ! i) = Inr meta \<longrightarrow>
        (\<exists>b. decodeBlock abi meta dn = Inr b \<and> bl_offchainTxData b = oc \<and> bl_encodedRollupProofData b = dataBuf))"
proof -
  let ?datas = "rtx_offchainDataTxs txs" and ?es = "queryOffchainEvents node logs"
  obtain cs where cs: "ocdChunks (concat oc) limit = Inr cs" "length ?datas = length cs"
    "\<forall>c<length cs. abi_offchainData abi (rh_rollupId r) (int c) (int (length cs)) (cs ! c) = Inr (?datas ! c)"
    "abi_processRollup abi dataBuf (solidityFormatSignatures sigs) = Inr (rtx_rollupProofTx txs)"
    using createRollupTxs_ok [OF txs r(1)] .
  note c = ocdChunks_concat [OF cs(1)]
  have ne: "logs \<noteq> []" and i: "logs ! i \<in> set logs" using log(1) by auto
  have "isOk (foldE (addOffchainEvent logs) Map.empty ?es)"
    using q foldE_isOk_iff [of slotsBounded "addOffchainEvent logs" "readable logs" Map.empty ?es]
      addOffchainEvent_step [OF ne logs(2)] by (auto simp: slotsBounded_def)
  then obtain a where a: "foldE (addOffchainEvent logs) Map.empty ?es = Inr a" by (auto simp: isOk_iff)
  let ?xs = "lookupOffchain a (logs ! i)"
  have s: "length ?xs = length ?datas \<and> (\<forall>c<length ?datas. \<exists>e. ?xs ! c = Ev e \<and> oe_chunk e = int c \<and> republishes node ?datas e)"
    using c(2,3) cs(2) q by (intro read_back_slots [OF logs(1) i logs(2) _ _ _ all a]) simp_all
  have "\<exists>b. decodeBlock abi meta dn = Inr b \<and> bl_offchainTxData b = oc \<and> bl_encodedRollupProofData b = dataBuf"
    if f: "fetchMetadata node (logs ! i) ?xs = Inr meta" for meta dn
  proof -
    obtain ys gs where y: "rm_offchainDataTxs meta = map Some ys" "map xt_data ys = ?datas" "rm_offchainGasUsed meta = map Some gs"
      using fetched_chunks [OF f conjunct1 [OF s] conjunct2 [OF s]] by blast
    have t: "rm_tx meta = tx" using f log(2) by (auto simp: fetchMetadata_def bindE_eq_Inr)
    have "abi_bytesArg abi (xt_data (ys ! k)) 3 = Inr (cs ! k)" if "k < length ys" for k
      using that abi cs(2,3) y(2) by (metis abiDecodes_def length_map nth_map)
    moreover have "length ys = length cs" using y(2) cs(2) by (metis length_map)
    ultimately have "mapE (\<lambda>x. bindE (definedE x) (\<lambda>tx. abi_bytesArg abi (xt_data tx) 3)) (map Some ys) = Inr cs"
      by (intro mapE_eqI) (simp_all add: definedE_def)
    moreover have "abi_bytesArg abi (rtx_rollupProofTx txs) 0 = Inr dataBuf" using abi cs(4) by (auto simp: abiDecodes_def)
    moreover have "mapE definedE (map Some gs) = Inr gs" by (intro mapE_eqI) (simp_all add: definedE_def)
    ultimately show ?thesis
      using slice_concat_ok [OF r(2)] c(1) r(1) by (simp add: decodeBlock_def y(1,3) t log(3) Let_def)
  qed
  moreover have "?xs \<noteq> []" using s c(2) cs(2) by auto
  ultimately show ?thesis using a log(1) by (auto simp: getOffchainDataEvents_def)
qed

text \<open>C37: Reading the offchain events of some rollups throws exactly when one queried event, of any sender, has a rollup
  id of more than 53 bits, or, not later than its rollup, a number of chunks that no array can have.\<close>

theorem offchain_reading_throws_iff:
  assumes "logs \<noteq> []" "\<forall>x\<in>set logs. rev_rollupId x < 2 ^ 53"
  shows "isOk (getOffchainDataEvents node logs) \<longleftrightarrow> (\<forall>e\<in>set (queryOffchainEvents node logs). readable logs e)"
proof -
  have "isOk (foldE (addOffchainEvent logs) Map.empty es) \<longleftrightarrow> (\<forall>e\<in>set es. readable logs e)" for es
    using foldE_isOk_iff [of slotsBounded "addOffchainEvent logs" "readable logs" Map.empty es]
      addOffchainEvent_step [OF assms] by (auto simp: slotsBounded_def)
  then show ?thesis by (simp add: getOffchainDataEvents_def isOk_iff mapR_eq_Inr)
qed

text \<open>C30: The DeFi notes of a rollup are found wherever they are: if a block above the earliest one and not after the rollup
  holds the event of a hash that the rollup announces, the search maps the hash to a note of that hash.\<close>

theorem defi_notes_found:
  assumes "getDefiBridgeEventsForRollupEvents node sha256 evs = Inr m"
    and "\<forall>a b. en_defiLogs node a b = concat (map logsOf [a..b])"
    and "ev \<in> set evs" "h \<in> set (rev_nextExpectedDefiHashes ev)"
    and "eb_earliestBlock (getEarliestBlock (en_chainId node)) < blk" "blk \<le> rev_blockNumber ev"
    and "l \<in> set (logsOf blk)" "decodeDefiLog l = Inr e" "eventHash sha256 e = Inr h"
  shows "\<exists>e'. m h = Some (Some e') \<and> eventHash sha256 e' = Inr h"
proof -
  let ?hs = "initialHashes evs"
  let ?m = "\<lambda>h. if h \<in> set ?hs then Some None else None"
  obtain eb k where eb: "eb = getEarliestBlock (en_chainId node)"
    and s: "searchDefiNotes node sha256 eb (max (Max (set (map rev_blockNumber evs))) (eb_earliestBlock eb)) (?m, int (length ?hs)) = Inr (m, k)"
    using getDefi_searched [OF assms(1)] .
  obtain es where es: "searched sha256 es (?m, int (length ?hs)) (m, k)"
    and c: "0 < k \<longrightarrow> e \<in> set es"
  proof -
    have "blk \<le> Max (set (map rev_blockNumber evs))" using assms(3,6) by (intro order_trans [OF assms(6) Max_ge]) auto
    then show thesis using that searchDefiNotes_covers [OF s assms(2)] assms(5,7,8) unfolding eb snd_conv by (metis max.coboundedI1)
  qed
  have p: "pendingHashes ?m = set ?hs" by (auto simp: pendingHashes_def)
  have d: "int (card (pendingHashes m)) \<le> k" "finite (pendingHashes m)" "dom m = set ?hs"
    using es card_length [of ?hs] by (auto simp: searched_def p dom_def intro: finite_subset)
  then have "pendingHashes m = {}" if "k \<le> 0" using that by (metis card_0_eq le_zero_eq of_nat_le_0_iff order_trans)
  then have "h \<notin> pendingHashes m" using es c assms(9) by (cases "0 < k") (auto simp: searched_def)
  moreover have "h \<in> dom m" using assms(3,4) d(3) by (auto simp: initialHashes_def)
  ultimately obtain e' where "m h = Some (Some e')" by (auto simp: pendingHashes_def)
  then show ?thesis using getDefi_sound [OF assms(1)] by (auto simp: soundNotes_def)
qed

text \<open>C18: The blocks delivered for some rollup events are those of the first of them, in order and without gaps, each with
  the offchain data found for it and with interaction results, from the map of the DeFi notes found for these events, that hash to
  what the event announces; the delivery ends early only at a rollup whose offchain data is missing or whose block cannot be
  made from that data and that map.\<close>

theorem delivered_blocks_in_order:
  assumes "getRollupBlocksFromEvents node abi sha256 pushBlock evs [] = Inr (bs, evs')" "evs \<noteq> []"
  shows "\<exists>notesOf ocs. getDefiBridgeEventsForRollupEvents node sha256 evs = Inr notesOf \<and> getOffchainDataEvents node evs = Inr ocs
    \<and> length bs \<le> length evs
    \<and> (\<forall>i<length bs. ocs ! i \<noteq> [] \<and> blockFromEvent node abi notesOf (evs ! i) (ocs ! i) = Inr (bs ! i)
         \<and> mapE (eventHash sha256) (bl_interactionResult (bs ! i)) = Inr (rev_nextExpectedDefiHashes (evs ! i)))
    \<and> (length bs < length evs \<longrightarrow> ocs ! length bs = []
         \<or> \<not> isOk (blockFromEvent node abi notesOf (evs ! length bs) (ocs ! length bs)))"
proof -
  obtain dn ocs where d: "getDefiBridgeEventsForRollupEvents node sha256 evs = Inr dn" and o: "getOffchainDataEvents node evs = Inr ocs"
    and b: "bs = deliverBlocks (\<lambda>(event, offchainData). blockFromEvent node abi dn event offchainData) pushBlock (zip evs' ocs) []"
    and e: "evs' = (case findIndex (\<lambda>x. x = []) ocs of None \<Rightarrow> evs | Some i \<Rightarrow> take i evs)"
    using assms by (auto simp: getRollupBlocksFromEvents_def bindE_eq_Inr Let_def)
  have l: "length ocs = length evs" using o by (auto simp: getOffchainDataEvents_def mapR_eq_Inr)
  have le: "length evs' \<le> length evs" "\<And>i. i < length evs' \<Longrightarrow> evs' ! i = evs ! i \<and> ocs ! i \<noteq> []"
    "length evs' < length evs \<Longrightarrow> ocs ! length evs' = []"
    using e findIndex_Some [of "\<lambda>x. x = []" ocs] findIndex_first [of "\<lambda>x. x = []" ocs] findIndex_None [of "\<lambda>x. x = []" ocs] l
    by (auto split: option.splits simp: min_def)
  let ?f = "\<lambda>(event, offchainData). blockFromEvent node abi dn event offchainData"
  obtain m where m: "m \<le> length (zip evs' ocs)" "bs = map (\<lambda>i. projr (?f (zip evs' ocs ! i))) [0..<m]"
    "\<forall>i<m. isOk (?f (zip evs' ocs ! i))" "m < length (zip evs' ocs) \<longrightarrow> \<not> isOk (?f (zip evs' ocs ! m))"
    using deliver_pushBlock [of "zip evs' ocs" ?f "[]"] unfolding append_Nil b [symmetric] by blast
  have z: "length (zip evs' ocs) = length evs'" "i < length evs' \<Longrightarrow> ?f (zip evs' ocs ! i) = blockFromEvent node abi dn (evs ! i) (ocs ! i)" for i
    using le l by simp_all
  have ok: "blockFromEvent node abi dn (evs ! i) (ocs ! i) = Inr (bs ! i)" if "i < length bs" for i
    using m that z by (auto simp: isOk_iff)
  have h: "mapE (eventHash sha256) (bl_interactionResult (bs ! i)) = Inr (rev_nextExpectedDefiHashes (evs ! i))" if "i < length bs" for i
    using ok [OF that] by (auto simp: blockFromEvent_def bindE_eq_Inr dest!: decodeBlock_interactions
        intro: defiNotesForBlock_hashes [OF getDefi_sound [OF d]])
  show ?thesis
    using d o ok h m le z l by (intro exI [of _ dn] exI [of _ ocs]) (cases "m < length evs'", auto)
qed

section \<open>Witnesses\<close>

text \<open>A chain on which a rollup with one join split was published in two chunks, the second of them twice.\<close>

definition sampleAbi :: abi where
  "sampleAbi = \<lparr>abi_processRollup = (\<lambda>d s. Inr d), abi_offchainData = (\<lambda>r i n d. Inr d), abi_bytesArg = (\<lambda>b i. Inr b)\<rparr>"

definition sampleLog :: rollupEvent where
  "sampleLog = \<lparr>rev_blockNumber = 9, rev_txHash = TxHash [9], rev_rollupId = 7, rev_nextExpectedDefiHashes = [toBufferBE 0 32],
     rev_sender = EthAddress []\<rparr>"

definition sampleChunk :: "int \<Rightarrow> int \<Rightarrow> byte \<Rightarrow> offchainEvent" where
  "sampleChunk n c h = \<lparr>oe_blockNumber = 8, oe_txHash = TxHash [h], oe_rollupId = 7, oe_chunk = c,
     oe_totalChunks = n, oe_sender = EthAddress []\<rparr>"

definition sampleDefiLog :: defiBridgeLog where
  "sampleDefiLog = \<lparr>dbl_encodedBridgeCallData = 0, dbl_nonce = 3, dbl_totalInputValue = 5, dbl_totalOutputValueA = 5,
     dbl_totalOutputValueB = 0, dbl_result = True, dbl_errorReason = []\<rparr>"

definition sampleDefiEvent :: defiInteractionEvent where
  "sampleDefiEvent = \<lparr>die_bridgeCallData = BridgeCallData_ZERO, die_nonce = 3, die_totalInputValue = 5,
     die_totalOutputValueA = 5, die_totalOutputValueB = 0, die_result = True, die_errorReason = []\<rparr>"

definition sampleDefiLogs :: "int \<Rightarrow> defiBridgeLog list" where
  "sampleDefiLogs blk = (if blk = 4 then [sampleDefiLog] else [])"

definition sampleNode :: "buffer \<Rightarrow> offchainEvent list \<Rightarrow> ethNode" where
  "sampleNode dataBuf es = \<lparr>en_chainId = 1337, en_blockNumber = 12, en_rollupEvents = (\<lambda>_ _ _. [sampleLog]),
     en_offchainEvents = (\<lambda>_ _ _. es), en_defiLogs = (\<lambda>a b. concat (map sampleDefiLogs [a..b])),
     en_transaction = (\<lambda>h. Inr \<lparr>xt_hash = h, xt_data = if h = TxHash [9] then dataBuf else if h = TxHash [0] then zeros 200 else zeros 92,
       xt_gasPrice = 1\<rparr>),
     en_gasUsed = (\<lambda>_. Inr 21000), en_timestamp = (\<lambda>_. Inr 1660000000)\<rparr>"

definition sampleChunks :: "offchainEvent list" where
  "sampleChunks = [sampleChunk 2 1 1, sampleChunk 2 0 0, sampleChunk 2 1 2]"

lemma sample_query [simp]: "queryOffchainEvents (sampleNode dataBuf es) [sampleLog] = es"
  by (simp add: queryOffchainEvents_def sampleNode_def Let_def)

lemma sample_chain [simp]: "rev_rollupId sampleLog = 7" "rev_txHash sampleLog = TxHash [9]"
  "en_transaction (sampleNode dataBuf es) (TxHash [9]) = Inr \<lparr>xt_hash = TxHash [9], xt_data = dataBuf, xt_gasPrice = 1\<rparr>"
  by (simp_all add: sampleLog_def sampleNode_def)

lemma sample_txs:
  assumes "RollupProofData_decode dataBuf = Inr sampleRollup"
  shows "createRollupTxs sampleAbi dataBuf [] [zeros 292] 200
    = Inr \<lparr>rtx_rollupProofTx = dataBuf, rtx_offchainDataTxs = [zeros 200, zeros 92]\<rparr>"
proof -
  have "ocdChunks (zeros 292) 200 = Inr [zeros 200, zeros 92]"
    by (simp add: ocdChunks_def arrayOf_def bslice_def zeros_def numeral_2_eq_2 upt_rec)
  then show ?thesis using assms by (simp add: createRollupTxs_def sampleAbi_def)
qed

lemma sample_sizes: "map length [zeros 292] = map getOffchainDataLength (getNonPaddingProofIds sampleRollup)"
  by (simp add: getNonPaddingProofIds_def getNonPaddingProofs_def sampleRollup_def sampleProof_def newInnerProofData_def
      InnerProofData_PADDING_def InnerProofData_isPadding_def getOffchainDataLength_def OffchainJoinSplitData_SIZE_def)

lemma sample_chunk:
  assumes "e \<in> set sampleChunks"
  shows "ofRollup sampleLog e" and "readable [sampleLog] e"
  using assms by (auto simp: ofRollup_def readable_def sampleChunks_def sampleChunk_def sampleLog_def)

theorem published_offchain_data_read_back_witness:
  "\<exists>dataBuf ocs. RollupProofData_decode dataBuf = Inr sampleRollup
    \<and> getOffchainDataEvents (sampleNode dataBuf sampleChunks) [sampleLog] = Inr ocs \<and> ocs ! 0 \<noteq> []
    \<and> (\<forall>meta dn. fetchMetadata (sampleNode dataBuf sampleChunks) sampleLog (ocs ! 0) = Inr meta \<longrightarrow>
         (\<exists>b. decodeBlock sampleAbi meta dn = Inr b \<and> bl_offchainTxData b = [zeros 292] \<and> bl_encodedRollupProofData b = dataBuf))"
proof -
  obtain dataBuf where d: "RollupProofData_decode dataBuf = Inr sampleRollup" using sampleRollup_encoded by blast
  let ?node = "sampleNode dataBuf sampleChunks"
  let ?txs = "\<lparr>rtx_rollupProofTx = dataBuf, rtx_offchainDataTxs = [zeros 200, zeros 92]\<rparr>"
  have a: "abiDecodes sampleAbi" by (simp add: abiDecodes_def sampleAbi_def)
  have r: "republishes ?node [zeros 200, zeros 92] e" if "e \<in> set sampleChunks" for e
    using that by (auto simp: republishes_def sampleChunks_def sampleChunk_def sampleNode_def)
  note o = sample_chunk
  have c: "\<forall>c<length [zeros 200, zeros 92]. \<exists>e\<in>set sampleChunks. ofRollup sampleLog e \<and> oe_chunk e = int c"
    by (auto simp: less_2_cases_iff ofRollup_def sampleChunks_def sampleChunk_def sampleLog_def numeral_2_eq_2 less_Suc_eq)
  have "\<exists>ocs. getOffchainDataEvents ?node [sampleLog] = Inr ocs \<and> ocs ! 0 \<noteq> []
    \<and> (\<forall>meta dn. fetchMetadata ?node ([sampleLog] ! 0) (ocs ! 0) = Inr meta \<longrightarrow>
         (\<exists>b. decodeBlock sampleAbi meta dn = Inr b \<and> bl_offchainTxData b = [zeros 292] \<and> bl_encodedRollupProofData b = dataBuf))"
    using r o c by (intro published_offchain_data_read_back [OF a sample_txs [OF d] d sample_sizes, of "[sampleLog]" 0 ?node
        "\<lparr>xt_hash = TxHash [9], xt_data = dataBuf, xt_gasPrice = 1\<rparr>"]) simp_all
  then show ?thesis using d by auto
qed

text \<open>Anyone may emit such an event: the contract's \<open>offchainData\<close> has no restriction on its sender.\<close>

theorem offchain_reading_throws_iff_witness:
  "isOk (getOffchainDataEvents (sampleNode [] sampleChunks) [sampleLog])
    \<and> \<not> isOk (getOffchainDataEvents (sampleNode [] (sampleChunks @ [sampleChunk (2 ^ 40) 0 5])) [sampleLog])"
proof -
  have "\<not> readable [sampleLog] (sampleChunk (2 ^ 40) 0 5)"
    by (simp add: readable_def sampleChunk_def counted_def tooLate_def logWithId_def sampleLog_def)
  moreover have "\<forall>x\<in>set [sampleLog]. rev_rollupId x < 2 ^ 53" by (simp add: sampleLog_def)
  ultimately show ?thesis using sample_chunk(2) offchain_reading_throws_iff [of "[sampleLog]"] by simp
qed

lemma sample_hash: "decodeDefiLog sampleDefiLog = Inr sampleDefiEvent" "eventHash (\<lambda>_. zeros 32) sampleDefiEvent = Inr (toBufferBE 0 32)"
proof -
  have "valid_bridgeCallData BridgeCallData_ZERO" "BridgeCallData_toBigInt BridgeCallData_ZERO = 0"
    by (simp_all add: valid_bridgeCallData_def BridgeCallData_ZERO_def newBridgeCallData_def BridgeCallData_toBigInt_def
        BitConfig_toBigInt_def)
  then have "BridgeCallData_fromBigInt 0 = Inr BridgeCallData_ZERO" using fromBigInt_toBigInt [of BridgeCallData_ZERO] by simp
  then show "decodeDefiLog sampleDefiLog = Inr sampleDefiEvent"
    by (simp add: decodeDefiLog_def sampleDefiLog_def sampleDefiEvent_def)
  have "numToUInt32BE 3 32 = Inr (zeros 28 @ be_bytes 4 3)" by (simp add: numToUInt32BE_def writeUInt32BE_def)
  then show "eventHash (\<lambda>_. zeros 32) sampleDefiEvent = Inr (toBufferBE 0 32)"
    by (simp add: eventHash_def computeInteractionHashes_def interactionPreimage_def toDefiInteractionNote_def sampleDefiEvent_def
        toBigIntBE_be_value)
qed

lemma sample_defi:
  "\<exists>m e. getDefiBridgeEventsForRollupEvents (sampleNode dataBuf es) (\<lambda>_. zeros 32) [sampleLog] = Inr m
     \<and> m (toBufferBE 0 32) = Some (Some e)"
proof -
  have e: "getEarliestBlock (en_chainId (sampleNode dataBuf es)) = \<lparr>eb_earliestBlock = 0, eb_chunk = 10, eb_offchainSearchLead = 10\<rparr>"
    by (simp add: getEarliestBlock_def sampleNode_def)
  have q: "en_defiLogs (sampleNode dataBuf es) 0 9 = [sampleDefiLog]"
    by (simp add: sampleNode_def sampleDefiLogs_def upto.simps)
  show ?thesis
    by (simp add: getDefiBridgeEventsForRollupEvents_def e Let_def sampleLog_def searchDefiNotes.simps q sample_hash storeDefiNote_def)
qed

lemma sample_offchain:
  "getOffchainDataEvents (sampleNode dataBuf sampleChunks) [sampleLog] = Inr [[Ev (sampleChunk 2 0 0), Ev (sampleChunk 2 1 2)]]"
  by (simp add: getOffchainDataEvents_def) (simp add: sampleChunks_def addOffchainEvent_def sampleChunk_def sampleLog_def
      tooLate_def lookupOffchain_def arrayOf_def setSlot_def bnToNumber_def numeral_2_eq_2)

lemma sample_block:
  assumes "RollupProofData_decode dataBuf = Inr sampleRollup" "m (toBufferBE 0 32) = Some (Some e)"
  shows "\<exists>b. blockFromEvent (sampleNode dataBuf sampleChunks) sampleAbi m sampleLog [Ev (sampleChunk 2 0 0), Ev (sampleChunk 2 1 2)] = Inr b
    \<and> bl_offchainTxData b = [zeros 292]"
proof -
  have z: "zeros 200 @ zeros 92 = concat [zeros 292]" by (simp add: zeros_append)
  have "\<exists>meta. fetchMetadata (sampleNode dataBuf sampleChunks) sampleLog [Ev (sampleChunk 2 0 0), Ev (sampleChunk 2 1 2)] = Inr meta
      \<and> rm_offchainDataTxs meta = [Some \<lparr>xt_hash = TxHash [0], xt_data = zeros 200, xt_gasPrice = 1\<rparr>, Some \<lparr>xt_hash = TxHash [2], xt_data = zeros 92, xt_gasPrice = 1\<rparr>]
      \<and> rm_offchainGasUsed meta = [Some 21000, Some 21000] \<and> xt_data (rm_tx meta) = dataBuf"
    by (simp add: fetchMetadata_def sampleNode_def sampleLog_def sampleChunk_def slotE_def)
  then obtain meta where meta: "fetchMetadata (sampleNode dataBuf sampleChunks) sampleLog [Ev (sampleChunk 2 0 0), Ev (sampleChunk 2 1 2)] = Inr meta"
      "rm_offchainDataTxs meta = [Some \<lparr>xt_hash = TxHash [0], xt_data = zeros 200, xt_gasPrice = 1\<rparr>, Some \<lparr>xt_hash = TxHash [2], xt_data = zeros 92, xt_gasPrice = 1\<rparr>]"
      "rm_offchainGasUsed meta = [Some 21000, Some 21000]" "xt_data (rm_tx meta) = dataBuf" by blast
  have "defiNotesForBlock sampleLog m = Inr [e]" using assms(2) by (simp add: defiNotesForBlock_def sampleLog_def)
  then show ?thesis
    using assms(1) slice_concat_ok [OF sample_sizes] by (simp add: blockFromEvent_def meta decodeBlock_def definedE_def sampleAbi_def z Let_def)
qed

theorem defi_notes_found_witness:
  "\<exists>m e. getDefiBridgeEventsForRollupEvents (sampleNode [] []) (\<lambda>_. zeros 32) [sampleLog] = Inr m
    \<and> m (toBufferBE 0 32) = Some (Some e) \<and> eventHash (\<lambda>_. zeros 32) e = Inr (toBufferBE 0 32)"
proof -
  obtain m where m: "getDefiBridgeEventsForRollupEvents (sampleNode [] []) (\<lambda>_. zeros 32) [sampleLog] = Inr m"
    using sample_defi by blast
  have "\<exists>e. m (toBufferBE 0 32) = Some (Some e) \<and> eventHash (\<lambda>_. zeros 32) e = Inr (toBufferBE 0 32)"
    by (rule defi_notes_found [OF m, of sampleDefiLogs sampleLog _ 4 sampleDefiLog sampleDefiEvent])
      (simp_all add: sample_hash, simp_all add: sampleNode_def sampleLog_def sampleDefiLogs_def getEarliestBlock_def)
  then show ?thesis using m by blast
qed

theorem delivered_blocks_in_order_witness:
  "\<exists>dataBuf b evs'. getRollupBlocksFromEvents (sampleNode dataBuf sampleChunks) sampleAbi (\<lambda>_. zeros 32) pushBlock [sampleLog] [] = Inr ([b], evs')
    \<and> bl_encodedRollupProofData b = dataBuf \<and> bl_offchainTxData b = [zeros 292]
    \<and> mapE (eventHash (\<lambda>_. zeros 32)) (bl_interactionResult b) = Inr [toBufferBE 0 32]"
proof -
  obtain dataBuf where d: "RollupProofData_decode dataBuf = Inr sampleRollup" using sampleRollup_encoded by blast
  let ?node = "sampleNode dataBuf sampleChunks" and ?sha = "\<lambda>_. zeros 32"
  obtain m e where m: "getDefiBridgeEventsForRollupEvents ?node ?sha [sampleLog] = Inr m" "m (toBufferBE 0 32) = Some (Some e)"
    using sample_defi by blast
  obtain b where b: "blockFromEvent ?node sampleAbi m sampleLog [Ev (sampleChunk 2 0 0), Ev (sampleChunk 2 1 2)] = Inr b"
    "bl_offchainTxData b = [zeros 292]" using sample_block [of dataBuf m e] d m(2) by blast
  obtain evs' where r: "getRollupBlocksFromEvents ?node sampleAbi ?sha pushBlock [sampleLog] [] = Inr ([b], evs')"
    using b(1) by (simp add: getRollupBlocksFromEvents_def m sample_offchain Let_def pushBlock_def)
  have "bl_encodedRollupProofData b = dataBuf"
    using b(1) by (auto simp: blockFromEvent_def decodeBlock_def fetchMetadata_def bindE_eq_Inr Let_def sampleAbi_def)
  moreover have "mapE (eventHash ?sha) (bl_interactionResult b) = Inr (rev_nextExpectedDefiHashes sampleLog)"
    using delivered_blocks_in_order [OF r] by auto
  ultimately show ?thesis using r b(2) by (auto simp: sampleLog_def)
qed

end
