(* ===== verification/WorldStateDb.thy ===== *)
theory WorldStateDb
  imports Merkle "HOL-Library.Monad_Syntax"
begin

text \<open>
  \<open>barretenberg.js/src/world_state_db/index.ts\<close>: the client of the database process that keeps the four trees of the
  world state. The client writes commands to the process, reads its answers byte by byte and caches roots and sizes; the
  queue of the client lets one command through at a time. The process is a function from the bytes of a command to
  the bytes it answers. \<open>world_state_process\<close> is what the client relies on; it is interpreted on the process of the
  repository, \<open>rollup/db_cli/main.cpp\<close> of \<open>aztec-connect-cpp\<close>, whose tree library (outside of \<open>src/\<close>) is represented by
  the leaves of its trees: a path and a root are those of the leaves, the size is one more than the highest index
  written, and a rollback restores what was committed last.
\<close>

section \<open>The trees\<close>

record worldTrees =
  wt_leaf :: "nat \<Rightarrow> nat \<Rightarrow> buffer"
  wt_size :: "nat \<Rightarrow> int"

record worldDb =
  wd_current :: worldTrees
  wd_committed :: worldTrees

definition DATA_TREE :: nat where [simp]: "DATA_TREE = 0"
definition NULL_TREE :: nat where [simp]: "NULL_TREE = 1"
definition ROOT_TREE :: nat where [simp]: "ROOT_TREE = 2"
definition DEFI_TREE :: nat where [simp]: "DEFI_TREE = 3"

definition treeDepth :: "nat \<Rightarrow> nat" where
  "treeDepth t = (if t = DATA_TREE then 32 else if t = NULL_TREE then 256 else if t = ROOT_TREE then 28 else 30)"

definition treeRoot :: "compressFn \<Rightarrow> worldTrees \<Rightarrow> nat \<Rightarrow> buffer" where
  "treeRoot compress w t = nodeHash compress (wt_leaf w t) (treeDepth t) 0"

definition treeHashPath :: "compressFn \<Rightarrow> worldTrees \<Rightarrow> nat \<Rightarrow> nat \<Rightarrow> hashPath" where
  "treeHashPath compress w t i = treePath compress (wt_leaf w t) i (treeDepth t)"

definition treeUpdate :: "nat \<Rightarrow> nat \<Rightarrow> buffer \<Rightarrow> worldTrees \<Rightarrow> worldTrees" where
  "treeUpdate t i v w = w\<lparr>wt_leaf := (wt_leaf w)(t := (wt_leaf w t)(i := v)),
     wt_size := (wt_size w)(t := max (wt_size w t) (int i + 1))\<rparr>"

record putEntry =
  pe_treeId :: nat
  pe_index :: int
  pe_value :: buffer

text \<open>What the operations do to the trees.\<close>

definition wd_put :: "putEntry \<Rightarrow> worldDb \<Rightarrow> worldDb" where
  "wd_put e d = d\<lparr>wd_current := treeUpdate (pe_treeId e) (nat (pe_index e)) (pe_value e) (wd_current d)\<rparr>"

definition wd_commit :: "worldDb \<Rightarrow> worldDb" where
  "wd_commit d = d\<lparr>wd_committed := wd_current d\<rparr>"

definition wd_rollback :: "worldDb \<Rightarrow> worldDb" where
  "wd_rollback d = d\<lparr>wd_current := wd_committed d\<rparr>"

section \<open>The client\<close>

definition CMD_GET :: byte where "CMD_GET = 0"
definition CMD_PUT :: byte where "CMD_PUT = 1"
definition CMD_COMMIT :: byte where "CMD_COMMIT = 2"
definition CMD_ROLLBACK :: byte where "CMD_ROLLBACK = 3"
definition CMD_GET_PATH :: byte where "CMD_GET_PATH = 4"
definition CMD_BATCH_PUT :: byte where "CMD_BATCH_PUT = 5"

lemmas commands = CMD_GET_def CMD_PUT_def CMD_COMMIT_def CMD_ROLLBACK_def CMD_GET_PATH_def CMD_BATCH_PUT_def

record 'p worldStateClient =
  sc_roots :: "buffer list"
  sc_sizes :: "int list"
  sc_stdout :: buffer
  sc_proc :: 'p

type_synonym 'p process = "buffer \<Rightarrow> 'p \<Rightarrow> buffer \<times> 'p"

definition writeStdin :: "'p process \<Rightarrow> buffer \<Rightarrow> 'p worldStateClient \<Rightarrow> 'p worldStateClient" where
  "writeStdin respond buf c = (case respond buf (sc_proc c) of (out, p) \<Rightarrow> c\<lparr>sc_stdout := sc_stdout c @ out, sc_proc := p\<rparr>)"

text \<open>A read of more bytes than have been written never resolves.\<close>

definition readStdout :: "nat \<Rightarrow> 'p worldStateClient \<Rightarrow> (buffer \<times> 'p worldStateClient) option" where
  "readStdout n c = (if length (sc_stdout c) < n then None
     else Some (take n (sc_stdout c), c\<lparr>sc_stdout := drop n (sc_stdout c)\<rparr>))"

definition readMetadata :: "'p worldStateClient \<Rightarrow> 'p worldStateClient option" where
  "readMetadata c = do {
     (r0, c) \<leftarrow> readStdout 32 c; (r1, c) \<leftarrow> readStdout 32 c; (r2, c) \<leftarrow> readStdout 32 c; (r3, c) \<leftarrow> readStdout 32 c;
     (dataSize, c) \<leftarrow> readStdout 32 c; (nullifierSize, c) \<leftarrow> readStdout 32 c;
     (rootSize, c) \<leftarrow> readStdout 32 c; (defiSize, c) \<leftarrow> readStdout 32 c;
     Some (c\<lparr>sc_roots := [r0, r1, r2, r3], sc_sizes := map toBigIntBE [dataSize, nullifierSize, rootSize, defiSize]\<rparr>) }"

definition launch :: "buffer \<Rightarrow> 'p \<Rightarrow> 'p worldStateClient option" where
  "launch out p = readMetadata \<lparr>sc_roots = [], sc_sizes = [], sc_stdout = out, sc_proc = p\<rparr>"

definition getRoot :: "'p worldStateClient \<Rightarrow> nat \<Rightarrow> buffer" where
  "getRoot c treeId = sc_roots c ! treeId"

definition getSize :: "'p worldStateClient \<Rightarrow> nat \<Rightarrow> int" where
  "getSize c treeId = sc_sizes c ! treeId"

definition request :: "byte \<Rightarrow> nat \<Rightarrow> int \<Rightarrow> buffer" where
  "request cmd treeId index = [cmd, word_of_nat treeId] @ toBufferBE index 32"

definition client_get :: "'p process \<Rightarrow> nat \<Rightarrow> int \<Rightarrow> 'p worldStateClient \<Rightarrow> (buffer \<times> 'p worldStateClient) option" where
  "client_get respond treeId index c = readStdout 32 (writeStdin respond (request CMD_GET treeId index) c)"

definition pathOfBytes :: "buffer \<Rightarrow> nat \<Rightarrow> hashPath" where
  "pathOfBytes result depth =
     map (\<lambda>i. [bslice result (i * 64) (i * 64 + 32), bslice result (i * 64 + 32) (i * 64 + 64)]) [0..<depth]"

definition client_getHashPath ::
    "'p process \<Rightarrow> nat \<Rightarrow> int \<Rightarrow> 'p worldStateClient \<Rightarrow> (hashPath \<times> 'p worldStateClient) option" where
  "client_getHashPath respond treeId index c = do {
     (depthBuf, c) \<leftarrow> readStdout 4 (writeStdin respond (request CMD_GET_PATH treeId index) c);
     let depth = be_value depthBuf;
     (result, c) \<leftarrow> readStdout (depth * 64) c;
     Some (pathOfBytes result depth, c) }"

definition client_getSubtreeRoot ::
    "'p process \<Rightarrow> nat \<Rightarrow> int \<Rightarrow> nat \<Rightarrow> 'p worldStateClient \<Rightarrow> (buffer res \<times> 'p worldStateClient) option" where
  "client_getSubtreeRoot respond treeId index depth c = do {
     (path, c) \<leftarrow> client_getHashPath respond treeId index c;
     let isLeft = (drop_bit depth index mod 2 = 0);
     Some (mapR (\<lambda>hashPair. hashPair ! (if isLeft then 0 else 1)) (indexE path depth), c) }"

definition client_putChecked :: "'p process \<Rightarrow> putEntry \<Rightarrow> 'p worldStateClient \<Rightarrow> (buffer \<times> 'p worldStateClient) option" where
  "client_putChecked respond e c = do {
     (root, c) \<leftarrow> readStdout 32 (writeStdin respond (request CMD_PUT (pe_treeId e) (pe_index e) @ pe_value e) c);
     Some (root, c\<lparr>sc_roots := (sc_roots c)[pe_treeId e := root],
       sc_sizes := (if pe_index e + 1 > sc_sizes c ! pe_treeId e then (sc_sizes c)[pe_treeId e := pe_index e + 1] else sc_sizes c)\<rparr>) }"

definition client_put :: "'p process \<Rightarrow> putEntry \<Rightarrow> 'p worldStateClient \<Rightarrow> (buffer \<times> 'p worldStateClient) option res" where
  "client_put respond e c = (if length (pe_value e) \<noteq> 32 then Inl (Thrown ''Values must be 32 bytes.'')
     else Inr (client_putChecked respond e c))"

definition entryBytes :: "putEntry \<Rightarrow> buffer" where
  "entryBytes e = [word_of_nat (pe_treeId e)] @ toBufferBE (pe_index e) 32 @ pe_value e"

definition client_batchPut :: "'p process \<Rightarrow> putEntry list \<Rightarrow> 'p worldStateClient \<Rightarrow> 'p worldStateClient option res" where
  "client_batchPut respond entries c =
     mapR (\<lambda>vec. readMetadata (writeStdin respond ([CMD_BATCH_PUT] @ vec) c)) (serializeBufferArrayToVector (map entryBytes entries))"

definition client_commit :: "'p process \<Rightarrow> 'p worldStateClient \<Rightarrow> 'p worldStateClient option" where
  "client_commit respond c = readMetadata (writeStdin respond [CMD_COMMIT] c)"

definition client_rollback :: "'p process \<Rightarrow> 'p worldStateClient \<Rightarrow> 'p worldStateClient option" where
  "client_rollback respond c = readMetadata (writeStdin respond [CMD_ROLLBACK] c)"

section \<open>The process\<close>

definition metadataBytes :: "compressFn \<Rightarrow> worldTrees \<Rightarrow> buffer" where
  "metadataBytes compress w = concat (map (treeRoot compress w) [0, 1, 2, 3]) @ concat (map (\<lambda>t. be_bytes 32 (nat (wt_size w t))) [0, 1, 2, 3])"

definition pathBytes :: "hashPath \<Rightarrow> buffer" where
  "pathBytes path = be_bytes 4 (length path) @ concat (concat path)"

definition readPut :: "buffer \<Rightarrow> putEntry" where
  "readPut b = \<lparr>pe_treeId = unat (hd b), pe_index = int (be_value (bslice b 1 33)), pe_value = bslice b 33 65\<rparr>"

definition readPuts :: "buffer \<Rightarrow> putEntry list" where
  "readPuts b = map (\<lambda>k. readPut (drop (4 + 65 * k) b)) [0..<be_value (take 4 b)]"

definition serve :: "compressFn \<Rightarrow> worldDb process" where
  "serve compress buf d = (case buf of [] \<Rightarrow> ([], d) | cmd # rest \<Rightarrow>
     let treeId = unat (hd rest); index = be_value (bslice rest 1 33) in
     if cmd = CMD_GET
     then (let path = treeHashPath compress (wd_current d) treeId index in (hd path ! (if odd index then 1 else 0), d))
     else if cmd = CMD_GET_PATH then (pathBytes (treeHashPath compress (wd_current d) treeId index), d)
     else if cmd = CMD_PUT
     then (let d = wd_put (readPut rest) d in (treeRoot compress (wd_current d) treeId, d))
     else if cmd = CMD_BATCH_PUT
     then (let d = fold wd_put (readPuts rest) d in (metadataBytes compress (wd_current d), d))
     else if cmd = CMD_COMMIT then (let d = wd_commit d in (metadataBytes compress (wd_current d), d))
     else if cmd = CMD_ROLLBACK then (let d = wd_rollback d in (metadataBytes compress (wd_current d), d))
     else ([], d))"

section \<open>What the client relies on\<close>

definition entryOK32 :: "putEntry \<Rightarrow> bool" where
  "entryOK32 e \<longleftrightarrow> pe_treeId e < 4 \<and> 0 \<le> pe_index e \<and> pe_index e < 2 ^ 256 - 1 \<and> length (pe_value e) = 32"

definition treesOK :: "worldTrees \<Rightarrow> bool" where
  "treesOK w \<longleftrightarrow> (\<forall>t i. length (wt_leaf w t i) = 32) \<and> (\<forall>t. 0 \<le> wt_size w t \<and> wt_size w t < 2 ^ 256)"

definition dbOK :: "worldDb \<Rightarrow> bool" where
  "dbOK d \<longleftrightarrow> treesOK (wd_current d) \<and> treesOK (wd_committed d)"

lemma treesOK_update: "treesOK w \<Longrightarrow> length v = 32 \<Longrightarrow> int i < 2 ^ 256 - 1 \<Longrightarrow> treesOK (treeUpdate t i v w)"
  by (auto simp: treesOK_def treeUpdate_def max_def)

lemma dbOK_put: "dbOK d \<Longrightarrow> entryOK32 e \<Longrightarrow> dbOK (wd_put e d)"
  by (auto simp: dbOK_def wd_put_def entryOK32_def intro!: treesOK_update)

lemma dbOK_puts: "dbOK d \<Longrightarrow> \<forall>e\<in>set es. entryOK32 e \<Longrightarrow> dbOK (fold wd_put es d)"
  by (induction es arbitrary: d) (simp_all add: dbOK_put)

lemma dbOK_commit: "dbOK d \<Longrightarrow> dbOK (wd_commit d)" and dbOK_rollback: "dbOK d \<Longrightarrow> dbOK (wd_rollback d)"
  by (simp_all add: dbOK_def wd_commit_def wd_rollback_def)

locale world_state_process =
  fixes respond :: "'p process" and db :: "'p \<Rightarrow> worldDb" and compress :: compressFn
  assumes answer_get: "t < 4 \<Longrightarrow> 0 \<le> i \<Longrightarrow> i < 2 ^ 256 \<Longrightarrow>
      respond (request CMD_GET t i) p = (wt_leaf (wd_current (db p)) t (nat i), p)"
    and answer_path: "t < 4 \<Longrightarrow> 0 \<le> i \<Longrightarrow> i < 2 ^ 256 \<Longrightarrow>
      respond (request CMD_GET_PATH t i) p = (pathBytes (treeHashPath compress (wd_current (db p)) t (nat i)), p)"
    and answer_put: "entryOK32 e \<Longrightarrow> \<exists>p'. db p' = wd_put e (db p)
      \<and> respond (request CMD_PUT (pe_treeId e) (pe_index e) @ pe_value e) p = (treeRoot compress (wd_current (db p')) (pe_treeId e), p')"
    and answer_batch: "\<forall>e\<in>set es. entryOK32 e \<Longrightarrow> serializeBufferArrayToVector (map entryBytes es) = Inr vec \<Longrightarrow>
      \<exists>p'. db p' = fold wd_put es (db p) \<and> respond ([CMD_BATCH_PUT] @ vec) p = (metadataBytes compress (wd_current (db p')), p')"
    and answer_commit: "\<exists>p'. db p' = wd_commit (db p) \<and> respond [CMD_COMMIT] p = (metadataBytes compress (wd_current (db p')), p')"
    and answer_rollback: "\<exists>p'. db p' = wd_rollback (db p) \<and> respond [CMD_ROLLBACK] p = (metadataBytes compress (wd_current (db p')), p')"

section \<open>The process of the repository answers as the client expects\<close>

lemma toBufferBE_index:
  assumes "0 \<le> i" "i < 2 ^ 256"
  shows "length (toBufferBE i 32) = 32" "be_value (toBufferBE i 32) = nat i"
proof -
  have b: "i < 256 ^ 32" using assms(2) by simp
  show "length (toBufferBE i 32) = 32" using assms(1) b by (simp add: length_toBufferBE)
  show "be_value (toBufferBE i 32) = nat i"
    using toBigIntBE_toBufferBE [OF assms(1) b] toBigIntBE_be_value [of "toBufferBE i 32"] by simp
qed

lemma request_parts:
  assumes "t < 4" "0 \<le> i" "i < 2 ^ 256"
  shows "unat (word_of_nat t :: byte) = t" "be_value (bslice (word_of_nat t # toBufferBE i 32) 1 33) = nat i"
    "be_value (bslice (word_of_nat t # toBufferBE i 32 @ v) 1 33) = nat i" "bslice (word_of_nat t # toBufferBE i 32 @ v) 33 65 = take 32 v"
proof -
  show "unat (word_of_nat t :: byte) = t" using assms(1) by (simp add: unat_of_nat)
qed (use toBufferBE_index [OF assms(2,3)] in \<open>simp_all add: bslice_def\<close>)

lemma leaf_of_path: "0 < d \<Longrightarrow> hd (treePath compress f i d) ! (if odd i then 1 else 0) = f i"
proof -
  assume d: "0 < d"
  have "hd (treePath compress f i d) = treePath compress f i d ! 0" using d by (simp add: hd_conv_nth treePath_def)
  also have "\<dots> = [f (2 * (i div 2)), f (2 * (i div 2) + 1)]" using d by (simp add: treePath_def)
  finally show ?thesis by (cases "even i") auto
qed

lemma readPut_entry: "entryOK32 e \<Longrightarrow> readPut (entryBytes e @ rest) = e"
  using request_parts [of "pe_treeId e" "pe_index e"] by (cases e) (simp add: entryOK32_def readPut_def entryBytes_def)

lemma length_entryBytes: "entryOK32 e \<Longrightarrow> length (entryBytes e) = 65"
  by (simp add: entryOK32_def entryBytes_def toBufferBE_index)

lemma readPuts_entries:
  assumes "\<forall>e\<in>set es. entryOK32 e" "serializeBufferArrayToVector (map entryBytes es) = Inr vec"
  shows "readPuts vec = es"
proof -
  from assms(2) obtain l where l: "writeUInt32BE (int (length es)) = Inr l" "vec = l @ concat (map entryBytes es)"
    by (auto simp: serializeBufferArrayToVector_def mapR_eq_Inr)
  have n: "length l = 4" "be_value l = length es"
    using l(1) by (auto simp: writeUInt32BE_eq_Inr be_value_bytes)
  have "drop (65 * k) (concat (map entryBytes es)) = entryBytes (es ! k) @ concat (map entryBytes (drop (Suc k) es))"
    if "k < length es" for k using that assms(1)
  proof (induction es arbitrary: k)
    case (Cons e es)
    have e: "length (entryBytes e) = 65" using Cons.prems by (simp add: length_entryBytes)
    show ?case
    proof (cases k)
      case (Suc j)
      then show ?thesis using Cons.IH [of j] Cons.prems e by (simp add: drop_append [symmetric] add.commute)
    qed simp
  qed simp
  then have "readPut (drop (4 + 65 * k) vec) = es ! k" if "k < length es" for k
    using that readPut_entry assms(1) n(1) by (simp add: l(2) drop_drop [symmetric] del: drop_drop)
  then show ?thesis unfolding readPuts_def by (intro nth_equalityI) (use n l(2) in auto)
qed

lemma treeDepth_pos: "0 < treeDepth t"
  by (simp add: treeDepth_def)

interpretation db_cli: world_state_process "serve compress" "\<lambda>d. d" compress for compress
proof
  fix t :: nat and i :: int and d :: worldDb
  assume "t < 4" "0 \<le> i" "i < 2 ^ 256"
  note r = request_parts [OF this]
  show "serve compress (request CMD_GET t i) d = (wt_leaf (wd_current d) t (nat i), d)"
    using r leaf_of_path [OF treeDepth_pos] by (simp add: serve_def request_def treeHashPath_def)
  show "serve compress (request CMD_GET_PATH t i) d = (pathBytes (treeHashPath compress (wd_current d) t (nat i)), d)"
    using r by (simp add: serve_def request_def commands)
next
  fix e and d :: worldDb
  assume e: "entryOK32 e"
  have "request CMD_PUT (pe_treeId e) (pe_index e) @ pe_value e = CMD_PUT # entryBytes e"
    by (simp add: request_def entryBytes_def)
  moreover have "unat (hd (entryBytes e)) = pe_treeId e" using e by (simp add: entryBytes_def entryOK32_def unat_of_nat)
  ultimately show "\<exists>d'. d' = wd_put e d
      \<and> serve compress (request CMD_PUT (pe_treeId e) (pe_index e) @ pe_value e) d = (treeRoot compress (wd_current d') (pe_treeId e), d')"
    using readPut_entry [OF e, of "[]"] by (simp add: serve_def commands Let_def)
next
  fix es vec and d :: worldDb
  assume "\<forall>e\<in>set es. entryOK32 e" "serializeBufferArrayToVector (map entryBytes es) = Inr vec"
  from readPuts_entries [OF this]
  show "\<exists>d'. d' = fold wd_put es d \<and> serve compress ([CMD_BATCH_PUT] @ vec) d = (metadataBytes compress (wd_current d'), d')"
    by (simp add: serve_def commands Let_def)
qed (simp_all add: serve_def commands Let_def)

section \<open>The client keeps up with its process\<close>

text \<open>What the client holds between two commands.\<close>

definition treeRoots :: "compressFn \<Rightarrow> worldTrees \<Rightarrow> buffer list" where
  "treeRoots compress w = map (treeRoot compress w) [0, 1, 2, 3]"

definition treeSizes :: "worldTrees \<Rightarrow> int list" where
  "treeSizes w = map (wt_size w) [0, 1, 2, 3]"

definition cached :: "compressFn \<Rightarrow> worldDb \<Rightarrow> 'p worldStateClient \<Rightarrow> bool" where
  "cached compress d c \<longleftrightarrow> sc_roots c = treeRoots compress (wd_current d)
     \<and> sc_sizes c = treeSizes (wd_current d) \<and> sc_stdout c = []"

definition compress32 :: "compressFn \<Rightarrow> bool" where
  "compress32 compress \<longleftrightarrow> (\<forall>a b. length (compress a b) = 32)"

lemma treeRoot_32: "compress32 compress \<Longrightarrow> treesOK w \<Longrightarrow> length (treeRoot compress w t) = 32"
  unfolding treeRoot_def by (rule nodeHash_length) (simp_all add: compress32_def treesOK_def)

lemma be_bytes_size: "treesOK w \<Longrightarrow> toBigIntBE (be_bytes 32 (nat (wt_size w t))) = wt_size w t"
proof -
  assume "treesOK w"
  then have s: "0 \<le> wt_size w t" "wt_size w t < 2 ^ 256" by (simp_all add: treesOK_def)
  have "nat (wt_size w t) < nat (2 ^ 256)" using s by (simp only: nat_less_eq_zless)
  then have "nat (wt_size w t) < 256 ^ 32" by (simp add: nat_power_eq)
  then show ?thesis using s(1) by (simp add: toBigIntBE_be_value be_value_bytes)
qed

lemma readStdout_append: "length a = n \<Longrightarrow> readStdout n (c\<lparr>sc_stdout := a @ b\<rparr>) = Some (a, c\<lparr>sc_stdout := b\<rparr>)"
  by (simp add: readStdout_def)

lemma readMetadata_bytes:
  assumes "compress32 compress" "treesOK w"
  shows "readMetadata (c\<lparr>sc_stdout := metadataBytes compress w\<rparr>) = Some (c\<lparr>sc_stdout := [],
     sc_roots := treeRoots compress w, sc_sizes := treeSizes w\<rparr>)"
  unfolding treeRoots_def treeSizes_def readMetadata_def metadataBytes_def
  using treeRoot_32 [OF assms] by (simp add: readStdout_append be_bytes_size [OF assms(2)] readStdout_append [where b="[]", simplified])

datatype dbCall = GetCall nat int | PathCall nat int | PutCall putEntry | BatchCall "putEntry list" | CommitCall | RollbackCall
datatype dbAnswer = LeafAnswer buffer | PathAnswer hashPath | Done

fun clientCall :: "'p process \<Rightarrow> dbCall \<Rightarrow> 'p worldStateClient \<Rightarrow> (dbAnswer \<times> 'p worldStateClient) option" where
  "clientCall respond (GetCall t i) c = map_option (map_prod LeafAnswer id) (client_get respond t i c)"
| "clientCall respond (PathCall t i) c = map_option (map_prod PathAnswer id) (client_getHashPath respond t i c)"
| "clientCall respond (PutCall e) c = (case client_put respond e c of Inl _ \<Rightarrow> None | Inr r \<Rightarrow> map_option (map_prod LeafAnswer id) r)"
| "clientCall respond (BatchCall es) c = (case client_batchPut respond es c of Inl _ \<Rightarrow> None | Inr r \<Rightarrow> map_option (Pair Done) r)"
| "clientCall respond CommitCall c = map_option (Pair Done) (client_commit respond c)"
| "clientCall respond RollbackCall c = map_option (Pair Done) (client_rollback respond c)"

fun specCall :: "compressFn \<Rightarrow> dbCall \<Rightarrow> worldDb \<Rightarrow> dbAnswer \<times> worldDb" where
  "specCall compress (GetCall t i) d = (LeafAnswer (wt_leaf (wd_current d) t (nat i)), d)"
| "specCall compress (PathCall t i) d = (PathAnswer (treeHashPath compress (wd_current d) t (nat i)), d)"
| "specCall compress (PutCall e) d = (let d = wd_put e d in (LeafAnswer (treeRoot compress (wd_current d) (pe_treeId e)), d))"
| "specCall compress (BatchCall es) d = (Done, fold wd_put es d)"
| "specCall compress CommitCall d = (Done, wd_commit d)"
| "specCall compress RollbackCall d = (Done, wd_rollback d)"

fun callOK :: "dbCall \<Rightarrow> bool" where
  "callOK (GetCall t i) \<longleftrightarrow> t < 4 \<and> 0 \<le> i \<and> i < 2 ^ 256"
| "callOK (PathCall t i) \<longleftrightarrow> t < 4 \<and> 0 \<le> i \<and> i < 2 ^ 256"
| "callOK (PutCall e) \<longleftrightarrow> entryOK32 e"
| "callOK (BatchCall es) \<longleftrightarrow> length es < 2 ^ 32 \<and> (\<forall>e\<in>set es. entryOK32 e)"
| "callOK CommitCall \<longleftrightarrow> True"
| "callOK RollbackCall \<longleftrightarrow> True"

text \<open>A sequence of calls, with their answers.\<close>

fun clientRun :: "'p process \<Rightarrow> dbCall list \<Rightarrow> 'p worldStateClient \<Rightarrow> (dbAnswer list \<times> 'p worldStateClient) option" where
  "clientRun respond [] c = Some ([], c)"
| "clientRun respond (call # calls) c = do {
     (answer, c) \<leftarrow> clientCall respond call c; (answers, c) \<leftarrow> clientRun respond calls c; Some (answer # answers, c) }"

fun specRun :: "compressFn \<Rightarrow> dbCall list \<Rightarrow> worldDb \<Rightarrow> dbAnswer list \<times> worldDb" where
  "specRun compress [] d = ([], d)"
| "specRun compress (call # calls) d =
    (let (answer, d) = specCall compress call d; (answers, d) = specRun compress calls d in (answer # answers, d))"

lemma pathOfBytes_concat:
  assumes "\<forall>p\<in>set path. \<exists>l r. p = [l, r] \<and> length l = 32 \<and> length r = 32"
  shows "pathOfBytes (concat (concat path)) (length path) = path"
proof -
  have "bslice (concat (concat path)) (i * 64 + o') (i * 64 + o' + 32) = bslice (concat (path ! i)) o' (o' + 32)"
    if "i < length path" "o' \<le> 32" for i o' using that assms
  proof (induction path arbitrary: i)
    case (Cons p path)
    then have p: "length (concat p) = 64" by auto
    show ?case
    proof (cases i)
      case 0
      then show ?thesis using p Cons.prems(2) by (simp add: bslice_def)
    next
      case (Suc j)
      then show ?thesis using Cons.IH [of j] Cons.prems p by (simp add: bslice_def add.commute add.left_commute)
    qed
  qed simp
  from this [where o' = 0] this [where o' = 32]
  have b: "bslice (concat (concat path)) (i * 64) (i * 64 + 32) = bslice (concat (path ! i)) 0 32"
    "bslice (concat (concat path)) (i * 64 + 32) (i * 64 + 64) = bslice (concat (path ! i)) 32 64" if "i < length path" for i
    using that by (simp_all add: add.assoc)
  show ?thesis unfolding pathOfBytes_def
  proof (rule nth_equalityI)
    fix i assume "i < length (map (\<lambda>i. [bslice (concat (concat path)) (i * 64) (i * 64 + 32), bslice (concat (concat path)) (i * 64 + 32) (i * 64 + 64)]) [0..<length path])"
    then have i: "i < length path" by simp
    then obtain l r where "path ! i = [l, r]" "length l = 32" "length r = 32" using assms by (meson nth_mem)
    then show "map (\<lambda>i. [bslice (concat (concat path)) (i * 64) (i * 64 + 32), bslice (concat (concat path)) (i * 64 + 32) (i * 64 + 64)]) [0..<length path] ! i = path ! i"
      using i b [OF i] by (simp add: bslice_def)
  qed simp
qed

lemma treeHashPath_pairs:
  assumes "compress32 compress" "treesOK w"
  shows "\<forall>p\<in>set (treeHashPath compress w t i). \<exists>l r. p = [l, r] \<and> length l = 32 \<and> length r = 32"
  using assms by (auto simp: treeHashPath_def treePath_def compress32_def treesOK_def intro!: nodeHash_length)

lemma length_treeHashPath: "length (treeHashPath compress w t i) = treeDepth t"
  by (simp add: treeHashPath_def treePath_def)

lemma map_trees_update: "t < 4 \<Longrightarrow> (map f [0, 1, 2, 3])[t := y] = map (f(t := y)) [0, 1, 2, 3]"
  and map_trees_nth: "t < 4 \<Longrightarrow> map f [0, 1, 2, 3] ! t = f t" for f :: "nat \<Rightarrow> 'b"
  by (auto simp: less_Suc_eq numeral_eq_Suc)

lemma cached_update:
  assumes "cached compress d c" "entryOK32 e"
  shows "cached compress (wd_put e d) (c\<lparr>sc_proc := p,
     sc_roots := (sc_roots c)[pe_treeId e := treeRoot compress (wd_current (wd_put e d)) (pe_treeId e)],
     sc_sizes := (if pe_index e + 1 > sc_sizes c ! pe_treeId e then (sc_sizes c)[pe_treeId e := pe_index e + 1] else sc_sizes c)\<rparr>)"
proof -
  let ?t = "pe_treeId e" and ?w = "wd_current d" and ?w' = "wd_current (wd_put e d)"
  have t: "?t < 4" "0 \<le> pe_index e" using assms(2) by (simp_all add: entryOK32_def)
  have roots: "(treeRoot compress ?w)(?t := treeRoot compress ?w' ?t) = treeRoot compress ?w'"
    by (rule ext) (simp add: treeRoot_def wd_put_def treeUpdate_def)
  have sizes: "wt_size ?w' = (wt_size ?w)(?t := max (wt_size ?w ?t) (pe_index e + 1))"
    using t(2) by (simp add: wd_put_def treeUpdate_def)
  have c: "sc_roots c = treeRoots compress ?w" "sc_sizes c = treeSizes ?w" "sc_stdout c = []"
    using assms(1) by (simp_all add: cached_def)
  have "(sc_roots c)[?t := treeRoot compress ?w' ?t] = treeRoots compress ?w'"
    unfolding c(1) treeRoots_def map_trees_update [OF t(1)] roots ..
  moreover have "(if pe_index e + 1 > sc_sizes c ! ?t then (sc_sizes c)[?t := pe_index e + 1] else sc_sizes c) = treeSizes ?w'"
    unfolding c(2) treeSizes_def map_trees_nth [OF t(1)] map_trees_update [OF t(1)] sizes by (auto simp: max_def)
  ultimately show ?thesis using c(3) by (simp add: cached_def)
qed

lemma readStdout_all: "length out = n \<Longrightarrow> readStdout n (c\<lparr>sc_stdout := out, sc_proc := p\<rparr>) = Some (out, c\<lparr>sc_stdout := [], sc_proc := p\<rparr>)"
  by (simp add: readStdout_def)

context world_state_process
begin

lemma client_metadata:
  assumes "compress32 compress" "treesOK (wd_current d)" "cached compress d0 c"
    and "respond buf (sc_proc c) = (metadataBytes compress (wd_current d), p)"
  shows "\<exists>c'. readMetadata (writeStdin respond buf c) = Some c' \<and> sc_proc c' = p \<and> cached compress d c'"
proof -
  have "writeStdin respond buf c = (c\<lparr>sc_proc := p\<rparr>)\<lparr>sc_stdout := metadataBytes compress (wd_current d)\<rparr>"
    using assms(3,4) by (simp add: writeStdin_def cached_def)
  then show ?thesis using readMetadata_bytes [OF assms(1,2), of "c\<lparr>sc_proc := p\<rparr>"] by (simp add: cached_def)
qed

lemma client_path:
  assumes "compress32 compress" "treesOK (wd_current (db (sc_proc c)))" "sc_stdout c = []" "t < 4" "0 \<le> i" "i < 2 ^ 256"
  shows "client_getHashPath respond t i c = Some (treeHashPath compress (wd_current (db (sc_proc c))) t (nat i), c)"
proof -
  let ?path = "treeHashPath compress (wd_current (db (sc_proc c))) t (nat i)"
  note pairs = treeHashPath_pairs [OF assms(1,2), of t "nat i"]
  have d: "treeDepth t < 256 ^ 4" by (simp add: treeDepth_def)
  have len: "length (concat (concat ps)) = 64 * length ps" if "\<forall>p\<in>set ps. \<exists>l r. p = [l, r] \<and> length l = 32 \<and> length r = 32"
    for ps :: hashPath using that by (induction ps) auto
  have "length (concat (concat ?path)) = treeDepth t * 64" using len [OF pairs] by (simp add: length_treeHashPath)
  then show ?thesis
    using pathOfBytes_concat [OF pairs] answer_path [OF assms(4-6)] assms(3) d
    by (simp add: client_getHashPath_def writeStdin_def pathBytes_def readStdout_def length_treeHashPath be_value_bytes Let_def)
qed

lemma client_put_answer:
  assumes "compress32 compress" "dbOK (db (sc_proc c))" "cached compress (db (sc_proc c)) c" "entryOK32 e"
  shows "\<exists>c'. clientCall respond (PutCall e) c = Some (fst (specCall compress (PutCall e) (db (sc_proc c))), c')
    \<and> db (sc_proc c') = wd_put e (db (sc_proc c)) \<and> cached compress (wd_put e (db (sc_proc c))) c'"
proof -
  from answer_put [OF assms(4)] obtain p' where p: "db p' = wd_put e (db (sc_proc c))"
    "respond (request CMD_PUT (pe_treeId e) (pe_index e) @ pe_value e) (sc_proc c) = (treeRoot compress (wd_current (db p')) (pe_treeId e), p')"
    by blast
  have "treesOK (wd_current (db p'))" using dbOK_put [OF assms(2,4)] by (simp add: p(1) dbOK_def)
  from treeRoot_32 [OF assms(1) this] have r: "length (treeRoot compress (wd_current (db p')) (pe_treeId e)) = 32" .
  have "sc_stdout c = []" "length (pe_value e) = 32" using assms(3,4) by (simp_all add: cached_def entryOK32_def)
  then show ?thesis using p r cached_update [OF assms(3,4), of p']
    by (simp add: client_put_def client_putChecked_def writeStdin_def readStdout_def Let_def cached_def split: if_split_asm)
qed

text \<open>One call.\<close>

lemma client_step:
  assumes "compress32 compress" "dbOK (db (sc_proc c))" "cached compress (db (sc_proc c)) c" "callOK call"
  shows "\<exists>c'. clientCall respond call c = Some (fst (specCall compress call (db (sc_proc c))), c')
    \<and> db (sc_proc c') = snd (specCall compress call (db (sc_proc c))) \<and> dbOK (db (sc_proc c')) \<and> cached compress (db (sc_proc c')) c'"
proof (cases call)
  case (GetCall t i)
  have "length (wt_leaf (wd_current (db (sc_proc c))) t (nat i)) = 32" using assms(2) by (simp add: dbOK_def treesOK_def)
  then show ?thesis using GetCall answer_get [of t i "sc_proc c"] assms
    by (simp add: client_get_def writeStdin_def cached_def readStdout_def)
next
  case (PathCall t i)
  then show ?thesis using client_path [of c t i] assms by (auto simp: cached_def dbOK_def)
next
  case (PutCall e)
  then show ?thesis using client_put_answer [OF assms(1-3)] assms(4) dbOK_put [OF assms(2)] by (fastforce simp: Let_def)
next
  case (BatchCall es)
  then obtain vec where v: "serializeBufferArrayToVector (map entryBytes es) = Inr vec"
    using assms(4) by (auto simp: serializeBufferArrayToVector_def)
  have es: "\<forall>e\<in>set es. entryOK32 e" using assms(4) BatchCall by simp
  from answer_batch [OF es v] obtain p' where p: "db p' = fold wd_put es (db (sc_proc c))"
    "respond ([CMD_BATCH_PUT] @ vec) (sc_proc c) = (metadataBytes compress (wd_current (db p')), p')" by blast
  have ok: "dbOK (db p')" using dbOK_puts [OF assms(2) es] p(1) by simp
  from client_metadata [OF assms(1) _ assms(3) p(2)] ok obtain c' where
    "readMetadata (writeStdin respond ([CMD_BATCH_PUT] @ vec) c) = Some c'" "sc_proc c' = p'" "cached compress (db p') c'"
    by (auto simp: dbOK_def)
  then show ?thesis using p(1) ok by (simp add: BatchCall client_batchPut_def v)
next
  case CommitCall
  from answer_commit [of "sc_proc c"] obtain p' where p: "db p' = wd_commit (db (sc_proc c))"
    "respond [CMD_COMMIT] (sc_proc c) = (metadataBytes compress (wd_current (db p')), p')" by blast
  have ok: "dbOK (db p')" using dbOK_commit [OF assms(2)] p(1) by simp
  from client_metadata [OF assms(1) _ assms(3) p(2)] ok obtain c' where
    "readMetadata (writeStdin respond [CMD_COMMIT] c) = Some c'" "sc_proc c' = p'" "cached compress (db p') c'" by (auto simp: dbOK_def)
  then show ?thesis using p(1) ok by (simp add: CommitCall client_commit_def)
next
  case RollbackCall
  from answer_rollback [of "sc_proc c"] obtain p' where p: "db p' = wd_rollback (db (sc_proc c))"
    "respond [CMD_ROLLBACK] (sc_proc c) = (metadataBytes compress (wd_current (db p')), p')" by blast
  have ok: "dbOK (db p')" using dbOK_rollback [OF assms(2)] p(1) by simp
  from client_metadata [OF assms(1) _ assms(3) p(2)] ok obtain c' where
    "readMetadata (writeStdin respond [CMD_ROLLBACK] c) = Some c'" "sc_proc c' = p'" "cached compress (db p') c'" by (auto simp: dbOK_def)
  then show ?thesis using p(1) ok by (simp add: RollbackCall client_rollback_def)
qed

lemma client_run:
  assumes "compress32 compress" "dbOK (db (sc_proc c))" "cached compress (db (sc_proc c)) c" "\<forall>call\<in>set calls. callOK call"
  shows "\<exists>c'. clientRun respond calls c = Some (fst (specRun compress calls (db (sc_proc c))), c')
    \<and> db (sc_proc c') = snd (specRun compress calls (db (sc_proc c))) \<and> cached compress (db (sc_proc c')) c'"
  using assms(2-4)
proof (induction calls arbitrary: c)
  case (Cons call calls)
  have "callOK call" using Cons.prems(3) by simp
  from client_step [OF assms(1) Cons.prems(1,2) this] obtain c1 where
    c1: "clientCall respond call c = Some (fst (specCall compress call (db (sc_proc c))), c1)"
    "db (sc_proc c1) = snd (specCall compress call (db (sc_proc c)))" "dbOK (db (sc_proc c1))" "cached compress (db (sc_proc c1)) c1" by blast
  from Cons.IH [OF c1(3,4)] Cons.prems(3) obtain c2 where
    "clientRun respond calls c1 = Some (fst (specRun compress calls (db (sc_proc c1))), c2)"
    "db (sc_proc c2) = snd (specRun compress calls (db (sc_proc c1)))" "cached compress (db (sc_proc c2)) c2" by auto
  then show ?case using c1 by (simp add: split_beta)
qed simp

end

section \<open>Properties\<close>

lemma launch_cached:
  assumes "compress32 compress" "dbOK d"
  shows "\<exists>c. launch (metadataBytes compress (wd_current d)) p = Some c \<and> sc_proc c = p \<and> cached compress d c"
  using readMetadata_bytes [OF assms(1), of "wd_current d" "\<lparr>sc_roots = [], sc_sizes = [], sc_stdout = [], sc_proc = p\<rparr>"] assms(2)
  by (simp add: launch_def dbOK_def cached_def)

lemma cached_entries: "cached compress d c \<Longrightarrow> t < 4 \<Longrightarrow> getRoot c t = treeRoot compress (wd_current d) t \<and> getSize c t = wt_size (wd_current d) t"
  unfolding cached_def getRoot_def getSize_def treeRoots_def treeSizes_def by (simp only: map_trees_nth)

text \<open>C34: The world state client and its process, which exchange bytes over a pipe, behave as the four trees they
  stand for: once started, the client answers any sequence of reads, paths, single and batched updates,
  commits and rollbacks as the trees do, every read it waits for is answered in full, and the roots and sizes it
  caches are always those of the trees.\<close>

theorem world_state_client_refines_trees:
  assumes "compress32 compress" "dbOK d" "\<forall>call\<in>set calls. callOK call"
  shows "\<exists>c c'. launch (metadataBytes compress (wd_current d)) d = Some c
    \<and> clientRun (serve compress) calls c = Some (fst (specRun compress calls d), c') \<and> sc_proc c' = snd (specRun compress calls d)
    \<and> (\<forall>t<4. getRoot c' t = treeRoot compress (wd_current (snd (specRun compress calls d))) t
       \<and> getSize c' t = wt_size (wd_current (snd (specRun compress calls d))) t)"
proof -
  obtain c where c: "launch (metadataBytes compress (wd_current d)) d = Some c" "sc_proc c = d" "cached compress d c"
    using launch_cached [OF assms(1,2), of d] by auto
  then have d: "dbOK (sc_proc c)" "cached compress (sc_proc c) c" using assms(2) by simp_all
  from db_cli.client_run [OF assms(1) d assms(3)] obtain c' where
    c': "clientRun (serve compress) calls c = Some (fst (specRun compress calls (sc_proc c)), c')
      \<and> sc_proc c' = snd (specRun compress calls (sc_proc c)) \<and> cached compress (sc_proc c') c'" by (rule exE)
  then have e: "\<forall>t<4. getRoot c' t = treeRoot compress (wd_current (sc_proc c')) t \<and> getSize c' t = wt_size (wd_current (sc_proc c')) t"
    using cached_entries by (metis (no_types))
  show ?thesis
    by (rule exI [of _ c], rule exI [of _ c']) (use c(1) c' e in \<open>simp only: c(2)\<close>)
qed

text \<open>The root of a sub-tree that the client picks from the hash path of any of its leaves is the hash of that
  sub-tree's leaves.\<close>

theorem subtree_root_exact:
  assumes "compress32 compress" "dbOK (sc_proc c)" "cached compress (sc_proc c) c"
    and "t < 4" "0 \<le> i" "i < 2 ^ 256" "depth < treeDepth t"
  shows "client_getSubtreeRoot (serve compress) t i depth c
    = Some (Inr (nodeHash compress (wt_leaf (wd_current (sc_proc c)) t) depth (nat i div 2 ^ depth)), c)"
proof -
  let ?f = "wt_leaf (wd_current (sc_proc c)) t"
  have p: "client_getHashPath (serve compress) t i c = Some (treeHashPath compress (wd_current (sc_proc c)) t (nat i), c)"
    using db_cli.client_path [OF assms(1) _ _ assms(4-6), of c] assms(2,3) by (simp add: dbOK_def cached_def)
  let ?k = "nat i div 2 ^ depth"
  have left: "(drop_bit depth i mod 2 = 0) = even ?k"
  proof -
    have "drop_bit depth i = int ?k" using assms(5) by (simp add: drop_bit_eq_div zdiv_int)
    then show ?thesis by presburger
  qed
  have "treeHashPath compress (wd_current (sc_proc c)) t (nat i) ! depth
      = [nodeHash compress ?f depth (2 * (?k div 2)), nodeHash compress ?f depth (2 * (?k div 2) + 1)]"
  proof -
    have "nat i div 2 ^ Suc depth = ?k div 2" by (simp add: div_mult2_eq [symmetric] mult.commute)
    then show ?thesis using assms(7) by (simp only: treeHashPath_def treePath_def) (simp del: power_Suc)
  qed
  then show ?thesis
    using p assms(7) left by (cases "even ?k") (simp_all add: client_getSubtreeRoot_def length_treeHashPath)
qed

definition emptyDb :: worldDb where
  "emptyDb = (let w = \<lparr>wt_leaf = \<lambda>_ _. zeros 32, wt_size = \<lambda>_. 0\<rparr> in \<lparr>wd_current = w, wd_committed = w\<rparr>)"

lemma emptyDb_ok: "dbOK emptyDb"
  by (simp add: emptyDb_def Let_def dbOK_def treesOK_def)

theorem world_state_client_refines_trees_witness:
  "\<exists>c root c'. launch (metadataBytes sampleCompress (wd_current emptyDb)) emptyDb = Some c
     \<and> clientRun (serve sampleCompress) [PutCall \<lparr>pe_treeId = 1, pe_index = 2 ^ 200, pe_value = replicate 32 7\<rparr>, GetCall 1 (2 ^ 200),
         RollbackCall, GetCall 1 (2 ^ 200)] c
       = Some ([LeafAnswer root, LeafAnswer (replicate 32 7), Done, LeafAnswer (zeros 32)], c')"
proof -
  have c: "compress32 sampleCompress" by (simp add: compress32_def sampleCompress_32)
  have "\<forall>call\<in>set [PutCall \<lparr>pe_treeId = 1, pe_index = 2 ^ 200, pe_value = replicate 32 7\<rparr>, GetCall 1 (2 ^ 200),
    RollbackCall, GetCall 1 (2 ^ 200)]. callOK call" by (simp add: entryOK32_def)
  from world_state_client_refines_trees [OF c emptyDb_ok this] show ?thesis
    by (auto simp: Let_def wd_put_def treeUpdate_def wd_rollback_def emptyDb_def)
qed

lemma emptyDb_leaf: "wt_leaf (wd_current emptyDb) t = (\<lambda>_. zeros 32)"
  by (simp add: emptyDb_def Let_def)

theorem subtree_root_exact_witness:
  "\<exists>c. launch (metadataBytes sampleCompress (wd_current emptyDb)) emptyDb = Some c
     \<and> client_getSubtreeRoot (serve sampleCompress) 0 5 0 c = Some (Inr (zeros 32), c)"
proof -
  have k: "compress32 sampleCompress" by (simp add: compress32_def sampleCompress_32)
  obtain c where c: "launch (metadataBytes sampleCompress (wd_current emptyDb)) emptyDb = Some c" "sc_proc c = emptyDb"
    "cached sampleCompress emptyDb c" using launch_cached [OF k emptyDb_ok, of emptyDb] by auto
  have "client_getSubtreeRoot (serve sampleCompress) 0 5 0 c
    = Some (Inr (nodeHash sampleCompress (wt_leaf (wd_current (sc_proc c)) 0) 0 (nat 5 div 2 ^ 0)), c)"
  proof (rule subtree_root_exact [OF k])
    show "dbOK (sc_proc c)" "cached sampleCompress (sc_proc c) c" using c(2,3) emptyDb_ok by simp_all
  qed (simp_all add: treeDepth_pos)
  then show ?thesis using c(1) unfolding c(2) emptyDb_leaf nodeHash.simps by blast
qed

end
