(* ===== verification/RollupCreator.thy ===== *)
theory RollupCreator
  imports WorldStateDb ProofRequests TxReceiver RollupProof
begin

text \<open>
  \<open>falafel/src/rollup_creator.ts\<close>: from the transactions of an inner rollup to the input of its proof. The
  creator inserts notes and nullifiers into the trees of the world state database one transaction after the other and
  collects the roots and paths the circuit checks. The database is the trees of \<open>WorldStateDb\<close> (which the client over
  the pipe refines); completing the commitment of a claim note (\<open>noteAlgo\<close>, in WASM), Keccak and SHA-256
  are parameters, the next rollup id is the database's answer. An interrupt is seen at the checkpoint of a transaction.
\<close>

section \<open>The database as the creator calls it\<close>

definition dbSize :: "worldDb \<Rightarrow> nat \<Rightarrow> int" where
  "dbSize d treeId = wt_size (wd_current d) treeId"

definition dbRoot :: "compressFn \<Rightarrow> worldDb \<Rightarrow> nat \<Rightarrow> buffer" where
  "dbRoot compress d treeId = treeRoot compress (wd_current d) treeId"

definition dbGet :: "worldDb \<Rightarrow> nat \<Rightarrow> int \<Rightarrow> buffer" where
  "dbGet d treeId index = wt_leaf (wd_current d) treeId (nat index)"

definition dbPath :: "compressFn \<Rightarrow> worldDb \<Rightarrow> nat \<Rightarrow> int \<Rightarrow> hashPath" where
  "dbPath compress d treeId index = treeHashPath compress (wd_current d) treeId (nat index)"

definition dbPut :: "nat \<Rightarrow> int \<Rightarrow> buffer \<Rightarrow> worldDb \<Rightarrow> worldDb res" where
  "dbPut treeId index value d = (if length value \<noteq> 32 then Inl (Thrown ''Values must be 32 bytes.'')
     else Inr (wd_put \<lparr>pe_treeId = treeId, pe_index = index, pe_value = value\<rparr> d))"

section \<open>Linked commitments\<close>

record linkState =
  lk_paths :: "hashPath list"
  lk_indices :: "int list"
  lk_seen :: "buffer list"
  lk_values :: "buffer list"

text \<open>The \<open>while\<close> loop: the argument counts the indices of the tree still to be looked at.\<close>

fun scanBack :: "worldDb \<Rightarrow> buffer \<Rightarrow> nat \<Rightarrow> buffer list \<Rightarrow> nat option \<times> buffer list" where
  "scanBack d backwardLink 0 dataTreeValues = (None, dataTreeValues)"
| "scanBack d backwardLink (Suc indexIntoTree) dataTreeValues =
    (let valueFromTree = dbGet d DATA_TREE (int indexIntoTree); dataTreeValues = dataTreeValues @ [valueFromTree] in
     if valueFromTree = backwardLink then (Some indexIntoTree, dataTreeValues)
     else scanBack d backwardLink indexIntoTree dataTreeValues)"

definition pushLink :: "hashPath \<Rightarrow> int \<Rightarrow> linkState \<Rightarrow> linkState" where
  "pushLink path index s = s\<lparr>lk_paths := lk_paths s @ [path], lk_indices := lk_indices s @ [index]\<rparr>"

definition linkCommitment :: "compressFn \<Rightarrow> worldDb \<Rightarrow> int \<Rightarrow> hashPath \<Rightarrow> proofData \<Rightarrow> linkState \<Rightarrow> linkState" where
  "linkCommitment compress d dataSize emptyPath p s =
    (if pd_backwardLink p = zeros 32 \<or> pd_backwardLink p \<in> set (lk_seen s) then pushLink emptyPath 0 s
     else case findIndex (\<lambda>c. c = pd_backwardLink p) (lk_values s) of
       Some indexIntoCache \<Rightarrow>
         let indexIntoTree = dataSize - int (indexIntoCache + 1)
         in pushLink (dbPath compress d DATA_TREE indexIntoTree) indexIntoTree s
     | None \<Rightarrow>
         let (found, values) = scanBack d (pd_backwardLink p) (nat (dataSize - int (length (lk_values s)))) (lk_values s);
             s = s\<lparr>lk_values := values\<rparr>
         in (case found of
              Some indexIntoTree \<Rightarrow> pushLink (dbPath compress d DATA_TREE (int indexIntoTree)) (int indexIntoTree) s
            | None \<Rightarrow> pushLink emptyPath 0 s))"

definition seenCommitments :: "proofData \<Rightarrow> linkState \<Rightarrow> linkState" where
  "seenCommitments p s =
     s\<lparr>lk_seen := lk_seen s @ filter (\<lambda>c. c \<noteq> zeros 32) [pd_noteCommitment1 p, pd_noteCommitment2 p]\<rparr>"

definition getLinkedCommitments :: "compressFn \<Rightarrow> worldDb \<Rightarrow> proofData list \<Rightarrow> hashPath list \<times> int list" where
  "getLinkedCommitments compress d proofs =
    (let dataSize = dbSize d DATA_TREE; emptyPath = dbPath compress d DATA_TREE dataSize;
         s = fold (\<lambda>p s. seenCommitments p (linkCommitment compress d dataSize emptyPath p s)) proofs
               \<lparr>lk_paths = [], lk_indices = [], lk_seen = [], lk_values = []\<rparr>
     in (lk_paths s, lk_indices s))"

section \<open>Inserting the transactions\<close>

record creatorConfig =
  cc_numInnerRollupTxs :: nat
  cc_innerRollupSize :: int
  cc_outerRollupSize :: int
  cc_feeResolver :: txFeeResolver

record creatorState =
  cs_db :: worldDb
  cs_nextDataIndex :: int
  cs_newNullRoots :: "buffer list"
  cs_oldNullPaths :: "hashPath list"
  cs_newNullPaths :: "hashPath list"
  cs_dataRootsPaths :: "hashPath list"
  cs_dataRootsIndicies :: "int list"
  cs_localAssetIds :: "int list"
  cs_rootAssetIds :: "int list"
  cs_bridgeCallDatas :: "int list"

text \<open>A JavaScript set keeps the order in which its elements were first added.\<close>

definition setAdd :: "'a \<Rightarrow> 'a list \<Rightarrow> 'a list" where
  "setAdd x xs = (if x \<in> set xs then xs else xs @ [x])"

definition addFeeAsset :: "creatorConfig \<Rightarrow> proofData \<Rightarrow> creatorState \<Rightarrow> creatorState res" where
  "addFeeAsset cfg p s = (if pd_proofId p = ACCOUNT then Inr s
     else bindE (ProofData_feeAssetId p) (\<lambda>assetId. Inr (if isFeePayingAsset (cc_feeResolver cfg) assetId
       then s\<lparr>cs_localAssetIds := setAdd assetId (cs_localAssetIds s), cs_rootAssetIds := setAdd assetId (cs_rootAssetIds s)\<rparr> else s)))"

definition putData :: "buffer \<Rightarrow> creatorState \<Rightarrow> creatorState res" where
  "putData value s = mapR (\<lambda>d. s\<lparr>cs_db := d, cs_nextDataIndex := cs_nextDataIndex s + 1\<rparr>)
     (dbPut DATA_TREE (cs_nextDataIndex s) value (cs_db s))"

definition bridgeIndex :: "int \<Rightarrow> creatorState \<Rightarrow> nat \<times> creatorState" where
  "bridgeIndex bcd s = (case findIndex (\<lambda>b. b = bcd) (cs_bridgeCallDatas s) of
     Some rootBridgeIndex \<Rightarrow> (rootBridgeIndex, s)
   | None \<Rightarrow> (length (cs_bridgeCallDatas s), s\<lparr>cs_bridgeCallDatas := cs_bridgeCallDatas s @ [bcd]\<rparr>))"

definition claimFeeOf :: "int \<Rightarrow> int" where
  "claimFeeOf txFee = txFee - drop_bit 1 txFee"

definition putFirstNote :: "(buffer \<Rightarrow> int \<Rightarrow> int \<Rightarrow> buffer) \<Rightarrow> int \<Rightarrow> proofData \<Rightarrow> creatorState \<Rightarrow> creatorState res" where
  "putFirstNote completeClaim rollupId p s =
    (if pd_proofId p \<noteq> DEFI_DEPOSIT then putData (pd_noteCommitment1 p) s
     else let (rootBridgeIndex, s) = bridgeIndex (toBigIntBE (pd_bridgeCallData p)) s;
              interactionNonce = rollupId * int NUM_BRIDGE_CALLS_PER_BLOCK + int rootBridgeIndex;
              claimFee = claimFeeOf (toBigIntBE (pd_txFee p))
          in putData (completeClaim (pd_noteCommitment1 p) interactionNonce claimFee) s)"

definition putNullifier :: "compressFn \<Rightarrow> buffer \<Rightarrow> creatorState \<Rightarrow> creatorState res" where
  "putNullifier compress nullifierBuf s =
    (let nullifier = toBigIntBE nullifierBuf; oldPath = dbPath compress (cs_db s) NULL_TREE nullifier in
     bindE (if nullifier \<noteq> 0 then dbPut NULL_TREE nullifier (toBufferBE 1 32) (cs_db s) else Inr (cs_db s)) (\<lambda>d.
     Inr (s\<lparr>cs_db := d, cs_oldNullPaths := cs_oldNullPaths s @ [oldPath],
        cs_newNullRoots := cs_newNullRoots s @ [dbRoot compress d NULL_TREE],
        cs_newNullPaths := cs_newNullPaths s @ [dbPath compress d NULL_TREE nullifier]\<rparr>)))"

definition pushDataRoot :: "compressFn \<Rightarrow> txDao \<Rightarrow> creatorState \<Rightarrow> creatorState res" where
  "pushDataRoot compress tx s = (case td_dataRootsIndex tx of None \<Rightarrow> Inl TypeError | Some index \<Rightarrow>
     Inr (s\<lparr>cs_dataRootsPaths := cs_dataRootsPaths s @ [dbPath compress (cs_db s) ROOT_TREE index],
       cs_dataRootsIndicies := cs_dataRootsIndicies s @ [index]\<rparr>))"

definition insertTx ::
  "compressFn \<Rightarrow> (buffer \<Rightarrow> int \<Rightarrow> int \<Rightarrow> buffer) \<Rightarrow> creatorConfig \<Rightarrow> int \<Rightarrow> creatorState \<Rightarrow> bool \<times> proofData \<times> txDao \<Rightarrow> creatorState res" where
  "insertTx compress completeClaim cfg rollupId s = (\<lambda>(interrupted, p, tx).
     if interrupted then Inl (Thrown ''Interrupted.'') else
     bindE (addFeeAsset cfg p s) (\<lambda>s.
     bindE (putFirstNote completeClaim rollupId p s) (\<lambda>s.
     bindE (putData (pd_noteCommitment2 p) s) (\<lambda>s.
     bindE (putNullifier compress (pd_nullifier1 p) s) (\<lambda>s.
     bindE (putNullifier compress (pd_nullifier2 p) s) (\<lambda>s.
     pushDataRoot compress tx s))))))"

definition dataStartIndexFor :: "int \<Rightarrow> int \<Rightarrow> int" where
  "dataStartIndexFor dataSize subtreeSize =
    (if dataSize mod subtreeSize = 0 then dataSize else dataSize + subtreeSize - dataSize mod subtreeSize)"

definition padRollup :: "compressFn \<Rightarrow> creatorConfig \<Rightarrow> int \<Rightarrow> creatorState \<Rightarrow> creatorState res" where
  "padRollup compress cfg dataStartIndex s =
     bindE (dbPut DATA_TREE (dataStartIndex + cc_innerRollupSize cfg * 2 - 1) (zeros 32) (cs_db s)) (\<lambda>d.
     let zeroNullPath = dbPath compress d NULL_TREE 0 in
     Inr (s\<lparr>cs_db := d, cs_oldNullPaths := cs_oldNullPaths s @ [zeroNullPath], cs_newNullPaths := cs_newNullPaths s @ [zeroNullPath]\<rparr>))"

text \<open>\<open>createRollup\<close> gives the input of the proof; the lists of bridge calls and asset ids of the root rollup that it extends
  are in the state returned with it. \<open>interrupts\<close> says at which transactions the checkpoint finds an interrupt.\<close>

definition createRollup ::
  "compressFn \<Rightarrow> (buffer \<Rightarrow> int \<Rightarrow> int \<Rightarrow> buffer) \<Rightarrow> (buffer \<Rightarrow> buffer) \<Rightarrow> (buffer \<Rightarrow> buffer) \<Rightarrow> creatorConfig \<Rightarrow> int \<Rightarrow> (nat \<Rightarrow> bool)
     \<Rightarrow> txDao list \<Rightarrow> int list \<Rightarrow> int list \<Rightarrow> bool \<Rightarrow> worldDb \<Rightarrow> (txRollup \<times> creatorState) res" where
  "createRollup compress completeClaim keccak sha256 cfg rollupId interrupts txs rootBridgeCallDatas rootAssetIds firstInner d =
    (let dataSize = dbSize d DATA_TREE;
         subtreeSize = (if firstInner then cc_outerRollupSize cfg * 2 else cc_innerRollupSize cfg * 2);
         dataStartIndex = dataStartIndexFor dataSize subtreeSize;
         oldDataRoot = dbRoot compress d DATA_TREE;
         oldDataPath = dbPath compress d DATA_TREE dataStartIndex;
         oldNullRoot = dbRoot compress d NULL_TREE in
     bindE (mapE (\<lambda>tx. newProofData (td_proofData tx) None) txs) (\<lambda>proofs.
     let (linkedCommitmentPaths, linkedCommitmentIndices) = getLinkedCommitments compress d proofs in
     bindE (foldE (insertTx compress completeClaim cfg rollupId)
       \<lparr>cs_db = d, cs_nextDataIndex = dataStartIndex, cs_newNullRoots = [], cs_oldNullPaths = [], cs_newNullPaths = [],
        cs_dataRootsPaths = [], cs_dataRootsIndicies = [], cs_localAssetIds = [], cs_rootAssetIds = rootAssetIds,
        cs_bridgeCallDatas = rootBridgeCallDatas\<rparr>
       (zip (map interrupts [0..<length proofs]) (zip proofs txs))) (\<lambda>s.
     bindE (if length txs < cc_numInnerRollupTxs cfg then padRollup compress cfg dataStartIndex s else Inr s) (\<lambda>s.
     bindE (mapE (\<lambda>assetId. numToUInt32BE assetId 32) (cs_localAssetIds s)) (\<lambda>assetIds.
     bindE (newTxRollup keccak sha256
       \<lparr>tr_rollupHash = [], tr_rollupId = rollupId, tr_dataStartIndex = dataStartIndex, tr_proofs = map td_proofData txs,
        tr_oldDataRoot = oldDataRoot, tr_newDataRoot = dbRoot compress (cs_db s) DATA_TREE, tr_oldDataPath = oldDataPath,
        tr_linkedCommitmentPaths = linkedCommitmentPaths, tr_linkedCommitmentIndices = linkedCommitmentIndices,
        tr_oldNullRoot = oldNullRoot, tr_newNullRoots = cs_newNullRoots s, tr_oldNullPaths = cs_oldNullPaths s,
        tr_dataRootsRoot = dbRoot compress (cs_db s) ROOT_TREE, tr_dataRootsPaths = cs_dataRootsPaths s,
        tr_dataRootsIndicies = cs_dataRootsIndicies s, tr_newDefiRoot = dbRoot compress (cs_db s) DEFI_TREE,
        tr_bridgeCallDatas = map (\<lambda>bridge. toBufferBE bridge 32) (cs_bridgeCallDatas s), tr_assetIds = assetIds\<rparr>) (\<lambda>rollup.
     Inr (rollup, s)))))))"

section \<open>The proof of an inner rollup\<close>

record rollupProofDao =
  rpd_id :: buffer
  rpd_txs :: "txDao list"
  rpd_encodedProofData :: buffer
  rpd_rollupSize :: int
  rpd_dataStartIndex :: int
  rpd_created :: int

definition RollupCreator_create ::
  "(buffer \<Rightarrow> buffer res) \<Rightarrow> creatorConfig \<Rightarrow> bool \<Rightarrow> int \<Rightarrow> txDao list \<Rightarrow> txRollup \<Rightarrow> rollupProofDao res" where
  "RollupCreator_create createProof cfg interrupted now txs rollup =
    (if txs = [] then Inl (Thrown ''Txs empty.'')
     else if interrupted then Inl (Thrown ''Interrupted.'')
     else bindE (TxRollupProofRequest_toBuffer rollup) (\<lambda>request.
       bindE (createProof request) (\<lambda>prf.
       Inr \<lparr>rpd_id = tr_rollupHash rollup, rpd_txs = txs, rpd_encodedProofData = prf, rpd_rollupSize = cc_innerRollupSize cfg,
         rpd_dataStartIndex = tr_dataStartIndex rollup, rpd_created = now\<rparr>)))"

section \<open>What the circuit computes from a path\<close>

text \<open>The root above a leaf, given its index and its hash path: at each level the node replaces one side of the pair.\<close>

fun rootFrom :: "compressFn \<Rightarrow> buffer \<Rightarrow> nat \<Rightarrow> hashPath \<Rightarrow> buffer" where
  "rootFrom compress v index [] = v"
| "rootFrom compress v index (pair # path) =
     rootFrom compress (if even index then compress v (pair ! 1) else compress (pair ! 0) v) (index div 2) path"

lemma rootFrom_append: "rootFrom compress v i (xs @ ys) = rootFrom compress (rootFrom compress v i xs) (i div 2 ^ length xs) ys"
  by (induction xs arbitrary: v i) (simp_all add: div_mult2_eq)

lemma nodeHash_other: "i div 2 ^ h \<noteq> k \<Longrightarrow> nodeHash compress (f(i := v)) h k = nodeHash compress f h k"
  by (rule nodeHash_cong) auto

lemma rootFrom_path: "rootFrom compress v i (treePath compress f i d) = nodeHash compress (f(i := v)) d (i div 2 ^ d)"
proof (induction d)
  case (Suc d)
  let ?n = "i div 2 ^ d" and ?g = "f(i := v)"
  have n: "i div 2 ^ Suc d = ?n div 2" by (metis div_mult2_eq power_Suc2)
  have len: "length (treePath compress f i d) = d" by (simp add: treePath_def)
  have "rootFrom compress v i (treePath compress f i (Suc d)) = (if even ?n then compress (nodeHash compress ?g d ?n) (nodeHash compress f d (2 * (?n div 2) + 1))
      else compress (nodeHash compress f d (2 * (?n div 2))) (nodeHash compress ?g d ?n))"
    unfolding treePath_Suc rootFrom_append n len Suc by (simp only: rootFrom.simps nth_Cons_0 nth_Cons_Suc One_nat_def)
  also have "\<dots> = nodeHash compress ?g (Suc d) (?n div 2)"
  proof (cases "even ?n")
    case True
    then have "nodeHash compress ?g d (2 * (?n div 2) + 1) = nodeHash compress f d (2 * (?n div 2) + 1)" "2 * (?n div 2) = ?n"
      by (auto intro!: nodeHash_other)
    with True show ?thesis by simp
  next
    case False
    then have "nodeHash compress ?g d (2 * (?n div 2)) = nodeHash compress f d (2 * (?n div 2))" "2 * (?n div 2) + 1 = ?n"
      by (auto intro!: nodeHash_other elim: oddE)
    with False show ?thesis by simp
  qed
  finally show ?case by (simp only: n)
qed (simp add: treePath_def)

lemma rootFrom_db:
  assumes "0 \<le> i" "i < 2 ^ treeDepth t"
  shows "rootFrom compress v (nat i) (dbPath compress d t i) = nodeHash compress ((wt_leaf (wd_current d) t)(nat i := v)) (treeDepth t) 0"
proof -
  have "nat i div 2 ^ treeDepth t = 0" using assms by (simp add: nat_less_iff)
  then show ?thesis using rootFrom_path [of compress v "nat i" "wt_leaf (wd_current d) t" "treeDepth t"]
    by (simp add: dbPath_def treeHashPath_def)
qed

lemma rootFrom_leaf:
  assumes "0 \<le> i" "i < 2 ^ treeDepth t"
  shows "rootFrom compress (dbGet d t i) (nat i) (dbPath compress d t i) = dbRoot compress d t"
  by (simp add: rootFrom_db [OF assms] dbGet_def dbRoot_def treeRoot_def)

lemma rootFrom_put:
  assumes "0 \<le> i" "i < 2 ^ treeDepth t" "dbPut t i v d = Inr d'"
  shows "dbRoot compress d' t = rootFrom compress v (nat i) (dbPath compress d t i)"
  using assms by (auto simp: rootFrom_db dbPut_def dbRoot_def treeRoot_def wd_put_def treeUpdate_def split: if_splits)

section \<open>Linked commitments are found\<close>

fun lastIndexOf :: "(nat \<Rightarrow> 'a) \<Rightarrow> 'a \<Rightarrow> nat \<Rightarrow> nat option" where
  "lastIndexOf f x 0 = None"
| "lastIndexOf f x (Suc n) = (if f n = x then Some n else lastIndexOf f x n)"

lemma lastIndexOf_Some: "lastIndexOf f x n = Some i \<longleftrightarrow> i < n \<and> f i = x \<and> (\<forall>j. i < j \<longrightarrow> j < n \<longrightarrow> f j \<noteq> x)"
  by (induction n) (auto simp: less_Suc_eq)

lemma lastIndexOf_None: "lastIndexOf f x n = None \<longleftrightarrow> (\<forall>i<n. f i \<noteq> x)"
  by (induction n) (auto simp: less_Suc_eq)

text \<open>The cache holds the last \<open>m\<close> leaves, the last one first.\<close>

definition lastLeaves :: "(nat \<Rightarrow> 'a) \<Rightarrow> nat \<Rightarrow> nat \<Rightarrow> 'a list" where
  "lastLeaves f n m = map (\<lambda>j. f (n - 1 - j)) [0..<m]"

lemma lastLeaves_more: "lastLeaves f n m @ lastLeaves f (n - m) r = lastLeaves f n (m + r)"
proof -
  have "map (\<lambda>j. f (n - 1 - j)) [m..<m + r] = lastLeaves f (n - m) r"
    by (rule nth_equalityI) (simp_all add: lastLeaves_def)
  then show ?thesis using upt_add_eq_append [of 0 m r] by (simp add: lastLeaves_def)
qed

lemma lastIndexOf_cache:
  "m \<le> n \<Longrightarrow> lastIndexOf f x n = (case findIndex (\<lambda>c. c = x) (lastLeaves f n m) of Some j \<Rightarrow> Some (n - 1 - j) | None \<Rightarrow> lastIndexOf f x (n - m))"
proof (induction m)
  case (Suc m)
  then have "n - m = Suc (n - Suc m)" by simp
  then have l: "lastIndexOf f x (n - m) = (if f (n - Suc m) = x then Some (n - Suc m) else lastIndexOf f x (n - Suc m))"
    by (simp only: lastIndexOf.simps)
  have "lastLeaves f n (Suc m) = lastLeaves f n m @ [f (n - Suc m)]" by (simp add: lastLeaves_def)
  moreover have "length (lastLeaves f n m) = m" by (simp add: lastLeaves_def)
  ultimately have c: "findIndex (\<lambda>c. c = x) (lastLeaves f n (Suc m)) = (case findIndex (\<lambda>c. c = x) (lastLeaves f n m) of Some i \<Rightarrow> Some i
      | None \<Rightarrow> if f (n - Suc m) = x then Some m else None)" by (simp only: findIndex_snoc)
  have "lastIndexOf f x n = (case findIndex (\<lambda>c. c = x) (lastLeaves f n m) of Some j \<Rightarrow> Some (n - 1 - j) | None \<Rightarrow> lastIndexOf f x (n - m))"
    using Suc by simp
  then show ?case unfolding c l by (simp split: option.split)
qed (simp add: lastLeaves_def)

lemma scanBack_found:
  "\<exists>r\<le>k. scanBack d x k vs = (lastIndexOf (\<lambda>i. dbGet d DATA_TREE (int i)) x k, vs @ lastLeaves (\<lambda>i. dbGet d DATA_TREE (int i)) k r)"
proof (induction k arbitrary: vs)
  case (Suc k)
  let ?f = "\<lambda>i. dbGet d DATA_TREE (int i)"
  have one: "lastLeaves ?f (Suc k) (Suc 0) = [?f k]" by (simp add: lastLeaves_def)
  show ?case
  proof (cases "?f k = x")
    case True
    then show ?thesis by (intro exI [of _ "Suc 0"]) (simp only: scanBack.simps Let_def one lastIndexOf.simps if_True, simp)
  next
    case False
    from Suc obtain r where r: "r \<le> k" "scanBack d x k (vs @ [?f k]) = (lastIndexOf ?f x k, (vs @ [?f k]) @ lastLeaves ?f k r)" by blast
    have "[?f k] @ lastLeaves ?f k r = lastLeaves ?f (Suc k) (Suc r)" using lastLeaves_more [of ?f "Suc k" "Suc 0" r]
      unfolding one by simp
    with False r show ?thesis by (intro exI [of _ "Suc r"]) (simp add: Let_def)
  qed
qed (simp add: lastLeaves_def)

text \<open>The reference: the last leaf that holds the link, unless there is no link or it is a commitment of this rollup.\<close>

definition linkOf :: "compressFn \<Rightarrow> worldDb \<Rightarrow> proofData list \<Rightarrow> proofData \<Rightarrow> hashPath \<times> int" where
  "linkOf compress d earlier p =
    (if pd_backwardLink p = zeros 32 \<or> (\<exists>q\<in>set earlier. pd_backwardLink p \<in> {pd_noteCommitment1 q, pd_noteCommitment2 q})
     then (dbPath compress d DATA_TREE (dbSize d DATA_TREE), 0)
     else case lastIndexOf (\<lambda>i. dbGet d DATA_TREE (int i)) (pd_backwardLink p) (nat (dbSize d DATA_TREE)) of
       Some i \<Rightarrow> (dbPath compress d DATA_TREE (int i), int i)
     | None \<Rightarrow> (dbPath compress d DATA_TREE (dbSize d DATA_TREE), 0))"

definition linkStateOK :: "worldDb \<Rightarrow> proofData list \<Rightarrow> linkState \<Rightarrow> bool" where
  "linkStateOK d earlier s \<longleftrightarrow>
     (\<exists>m\<le>nat (dbSize d DATA_TREE). lk_values s = lastLeaves (\<lambda>i. dbGet d DATA_TREE (int i)) (nat (dbSize d DATA_TREE)) m)
     \<and> (\<forall>c. c \<noteq> zeros 32 \<longrightarrow> (c \<in> set (lk_seen s) \<longleftrightarrow> (\<exists>q\<in>set earlier. c \<in> {pd_noteCommitment1 q, pd_noteCommitment2 q})))"

lemma linkCommitment_step:
  assumes ok: "linkStateOK d earlier s" and size: "0 \<le> dbSize d DATA_TREE"
    and t_def: "t = linkCommitment compress d (dbSize d DATA_TREE) (dbPath compress d DATA_TREE (dbSize d DATA_TREE)) p s"
  shows "linkStateOK d earlier t \<and> lk_paths t = lk_paths s @ [fst (linkOf compress d earlier p)]
     \<and> lk_indices t = lk_indices s @ [snd (linkOf compress d earlier p)]"
proof -
  let ?f = "\<lambda>i. dbGet d DATA_TREE (int i)" and ?n = "nat (dbSize d DATA_TREE)" and ?x = "pd_backwardLink p"
  from ok obtain m where m: "m \<le> ?n" "lk_values s = lastLeaves ?f ?n m" by (auto simp: linkStateOK_def)
  have lm: "length (lk_values s) = m" by (simp add: m(2) lastLeaves_def)
  show ?thesis
  proof (cases "?x = zeros 32 \<or> ?x \<in> set (lk_seen s)")
    case True
    then have "linkOf compress d earlier p = (dbPath compress d DATA_TREE (dbSize d DATA_TREE), 0)"
      using ok by (auto simp: linkOf_def linkStateOK_def)
    with True ok show ?thesis by (simp add: t_def linkCommitment_def pushLink_def linkStateOK_def)
  next
    case False
    then have l: "linkOf compress d earlier p = (case lastIndexOf ?f ?x ?n of Some i \<Rightarrow> (dbPath compress d DATA_TREE (int i), int i)
       | None \<Rightarrow> (dbPath compress d DATA_TREE (dbSize d DATA_TREE), 0))"
      using ok by (auto simp: linkOf_def linkStateOK_def)
    show ?thesis
    proof (cases "findIndex (\<lambda>c. c = ?x) (lk_values s)")
      case (Some j)
      then have "j < m" using findIndex_bound lm by metis
      then have i: "dbSize d DATA_TREE - int (j + 1) = int (?n - 1 - j)" using m(1) by linarith
      have x: "lastIndexOf ?f ?x ?n = Some (?n - 1 - j)"
        using lastIndexOf_cache [OF m(1), of ?f ?x] Some unfolding m(2) [symmetric] by simp
      have "t = pushLink (dbPath compress d DATA_TREE (int (?n - 1 - j))) (int (?n - 1 - j)) s"
        using False unfolding t_def linkCommitment_def by (simp only: Some option.case Let_def i if_False)
      then show ?thesis using ok unfolding l x by (simp add: pushLink_def linkStateOK_def)
    next
      case None
      have k: "nat (dbSize d DATA_TREE - int (length (lk_values s))) = ?n - m" using lm by simp
      obtain r where r: "r \<le> ?n - m" "scanBack d ?x (?n - m) (lk_values s) = (lastIndexOf ?f ?x (?n - m), lk_values s @ lastLeaves ?f (?n - m) r)"
        using scanBack_found by blast
      have v: "lk_values s @ lastLeaves ?f (?n - m) r = lastLeaves ?f ?n (m + r)" using lastLeaves_more m(2) by metis
      have x: "lastIndexOf ?f ?x ?n = lastIndexOf ?f ?x (?n - m)"
        using lastIndexOf_cache [OF m(1), of ?f ?x] None unfolding m(2) [symmetric] by simp
      have "linkStateOK d earlier (s\<lparr>lk_values := lastLeaves ?f ?n (m + r)\<rparr>)"
        using ok r(1) m(1) unfolding linkStateOK_def by (intro conjI exI [of _ "m + r"]) auto
      moreover have "t = (case lastIndexOf ?f ?x (?n - m) of
          Some i \<Rightarrow> pushLink (dbPath compress d DATA_TREE (int i)) (int i) (s\<lparr>lk_values := lastLeaves ?f ?n (m + r)\<rparr>)
        | None \<Rightarrow> pushLink (dbPath compress d DATA_TREE (dbSize d DATA_TREE)) 0 (s\<lparr>lk_values := lastLeaves ?f ?n (m + r)\<rparr>))"
        using False unfolding t_def linkCommitment_def None k r(2) v Let_def by (simp cong: option.case_cong)
      ultimately show ?thesis unfolding l x by (cases "lastIndexOf ?f ?x (?n - m)") (simp_all add: pushLink_def linkStateOK_def)
    qed
  qed
qed

lemma linkState_seen: "linkStateOK d earlier s \<Longrightarrow> linkStateOK d (earlier @ [p]) (seenCommitments p s)"
  unfolding linkStateOK_def by (auto simp: seenCommitments_def)

lemma seenCommitments_lists:
  "lk_paths (seenCommitments p s) = lk_paths s" "lk_indices (seenCommitments p s) = lk_indices s"
  by (simp_all add: seenCommitments_def)

lemma getLinkedCommitments_fold:
  assumes "linkStateOK d earlier s" "0 \<le> dbSize d DATA_TREE"
    and "lk_paths s = map (\<lambda>k. fst (linkOf compress d (take k earlier) (earlier ! k))) [0..<length earlier]"
    and "lk_indices s = map (\<lambda>k. snd (linkOf compress d (take k earlier) (earlier ! k))) [0..<length earlier]"
    and "t = fold (\<lambda>p s. seenCommitments p (linkCommitment compress d (dbSize d DATA_TREE)
       (dbPath compress d DATA_TREE (dbSize d DATA_TREE)) p s)) ps s"
  shows "lk_paths t = map (\<lambda>k. fst (linkOf compress d (take k (earlier @ ps)) ((earlier @ ps) ! k))) [0..<length (earlier @ ps)]
    \<and> lk_indices t = map (\<lambda>k. snd (linkOf compress d (take k (earlier @ ps)) ((earlier @ ps) ! k))) [0..<length (earlier @ ps)]"
  using assms
proof (induction ps arbitrary: s earlier)
  case (Cons p ps)
  define u where "u = linkCommitment compress d (dbSize d DATA_TREE) (dbPath compress d DATA_TREE (dbSize d DATA_TREE)) p s"
  have u: "linkStateOK d earlier u" "lk_paths u = lk_paths s @ [fst (linkOf compress d earlier p)]"
    "lk_indices u = lk_indices s @ [snd (linkOf compress d earlier p)]"
    using linkCommitment_step [OF Cons.prems(1,2) u_def] by simp_all
  have e: "map (\<lambda>k. f (take k (earlier @ [p])) ((earlier @ [p]) ! k)) [0..<length (earlier @ [p])]
      = map (\<lambda>k. f (take k earlier) (earlier ! k)) [0..<length earlier] @ [f earlier p]" for f :: "proofData list \<Rightarrow> proofData \<Rightarrow> 'b"
    by (simp add: nth_append)
  have "lk_paths t = map (\<lambda>k. fst (linkOf compress d (take k ((earlier @ [p]) @ ps)) (((earlier @ [p]) @ ps) ! k))) [0..<length ((earlier @ [p]) @ ps)]
    \<and> lk_indices t = map (\<lambda>k. snd (linkOf compress d (take k ((earlier @ [p]) @ ps)) (((earlier @ [p]) @ ps) ! k))) [0..<length ((earlier @ [p]) @ ps)]"
  proof (rule Cons.IH [of _ "seenCommitments p u"])
    show "linkStateOK d (earlier @ [p]) (seenCommitments p u)" by (rule linkState_seen [OF u(1)])
    show "lk_paths (seenCommitments p u) = map (\<lambda>k. fst (linkOf compress d (take k (earlier @ [p])) ((earlier @ [p]) ! k))) [0..<length (earlier @ [p])]"
      using u(2) Cons.prems(3) e [of "\<lambda>es q. fst (linkOf compress d es q)"] by (simp only: seenCommitments_lists)
    show "lk_indices (seenCommitments p u) = map (\<lambda>k. snd (linkOf compress d (take k (earlier @ [p])) ((earlier @ [p]) ! k))) [0..<length (earlier @ [p])]"
      using u(3) Cons.prems(4) e [of "\<lambda>es q. snd (linkOf compress d es q)"] by (simp only: seenCommitments_lists)
  qed (use Cons.prems in \<open>simp_all add: u_def\<close>)
  then show ?case by simp
qed simp

lemma getLinkedCommitments_eq:
  assumes "0 \<le> dbSize d DATA_TREE"
  shows "getLinkedCommitments compress d ps = (map (\<lambda>k. fst (linkOf compress d (take k ps) (ps ! k))) [0..<length ps],
    map (\<lambda>k. snd (linkOf compress d (take k ps) (ps ! k))) [0..<length ps])"
proof -
  let ?s = "\<lparr>lk_paths = [], lk_indices = [], lk_seen = [], lk_values = []\<rparr>"
  have "linkStateOK d [] ?s" by (auto simp: linkStateOK_def lastLeaves_def intro!: exI [of _ 0])
  from getLinkedCommitments_fold [OF this assms, of compress _ ps] show ?thesis by (simp add: getLinkedCommitments_def Let_def)
qed

section \<open>The trees after an inner rollup\<close>

declare DATA_TREE_def [simp del] NULL_TREE_def [simp del] ROOT_TREE_def [simp del] DEFI_TREE_def [simp del]

lemma trees_distinct [simp]: "DATA_TREE \<noteq> NULL_TREE" "NULL_TREE \<noteq> DATA_TREE" "DATA_TREE \<noteq> ROOT_TREE" "NULL_TREE \<noteq> ROOT_TREE"
  by (simp_all add: DATA_TREE_def NULL_TREE_def ROOT_TREE_def)

definition dataLeaf :: "creatorState \<Rightarrow> nat \<Rightarrow> buffer" where
  "dataLeaf s = wt_leaf (wd_current (cs_db s)) DATA_TREE"

text \<open>What stands at the first of the two leaves of a transaction: its first commitment or, for a DeFi deposit, the completed
  claim note, with the nonce of its bridge call's place in the root rollup.\<close>

definition firstNoteOf :: "(buffer \<Rightarrow> int \<Rightarrow> int \<Rightarrow> buffer) \<Rightarrow> int \<Rightarrow> int list \<Rightarrow> proofData \<Rightarrow> buffer \<Rightarrow> bool" where
  "firstNoteOf completeClaim rollupId bcds p v \<longleftrightarrow>
    (if pd_proofId p \<noteq> DEFI_DEPOSIT then v = pd_noteCommitment1 p
     else \<exists>i<length bcds. bcds ! i = toBigIntBE (pd_bridgeCallData p)
       \<and> v = completeClaim (pd_noteCommitment1 p) (rollupId * int NUM_BRIDGE_CALLS_PER_BLOCK + int i)
           (claimFeeOf (toBigIntBE (pd_txFee p))))"

lemma firstNoteOf_more: "firstNoteOf cc n bcds p v \<Longrightarrow> firstNoteOf cc n (bcds @ xs) p v"
  by (fastforce simp: firstNoteOf_def nth_append)

lemma dbPut_leaf: "dbPut t i v d = Inr d' \<Longrightarrow> wt_leaf (wd_current d') = (wt_leaf (wd_current d))(t := (wt_leaf (wd_current d) t)(nat i := v))"
  by (auto simp: dbPut_def wd_put_def treeUpdate_def split: if_splits)

lemma putData_data:
  "putData v s = Inr t \<Longrightarrow> dataLeaf t = (dataLeaf s)(nat (cs_nextDataIndex s) := v) \<and> cs_nextDataIndex t = cs_nextDataIndex s + 1
     \<and> cs_bridgeCallDatas t = cs_bridgeCallDatas s"
  by (auto simp: putData_def mapR_eq_Inr dataLeaf_def dest: dbPut_leaf)

lemma addFeeAsset_data:
  "addFeeAsset cfg p s = Inr t \<Longrightarrow> cs_db t = cs_db s \<and> cs_nextDataIndex t = cs_nextDataIndex s \<and> cs_bridgeCallDatas t = cs_bridgeCallDatas s"
  by (auto simp: addFeeAsset_def bindE_eq_Inr split: if_splits)

lemma putNullifier_data:
  "putNullifier compress b s = Inr t \<Longrightarrow> dataLeaf t = dataLeaf s \<and> cs_nextDataIndex t = cs_nextDataIndex s \<and> cs_bridgeCallDatas t = cs_bridgeCallDatas s"
  by (auto simp: putNullifier_def Let_def bindE_eq_Inr dataLeaf_def dest: dbPut_leaf split: if_splits)

lemma pushDataRoot_data:
  "pushDataRoot compress tx s = Inr t \<Longrightarrow> cs_db t = cs_db s \<and> cs_nextDataIndex t = cs_nextDataIndex s \<and> cs_bridgeCallDatas t = cs_bridgeCallDatas s"
  by (auto simp: pushDataRoot_def split: option.splits)

lemma putFirstNote_data:
  assumes "putFirstNote cc n p s = Inr t"
  obtains v xs where "dataLeaf t = (dataLeaf s)(nat (cs_nextDataIndex s) := v)" "cs_nextDataIndex t = cs_nextDataIndex s + 1"
    "cs_bridgeCallDatas t = cs_bridgeCallDatas s @ xs" "firstNoteOf cc n (cs_bridgeCallDatas t) p v"
proof (cases "pd_proofId p = DEFI_DEPOSIT")
  case False
  then have "putData (pd_noteCommitment1 p) s = Inr t" using assms by (simp add: putFirstNote_def)
  from putData_data [OF this] False show thesis by (intro that [of "pd_noteCommitment1 p" "[]"]) (auto simp: firstNoteOf_def)
next
  case True
  obtain i u where iu: "bridgeIndex (toBigIntBE (pd_bridgeCallData p)) s = (i, u)" by (cases "bridgeIndex (toBigIntBE (pd_bridgeCallData p)) s")
  obtain xs where u: "u = s\<lparr>cs_bridgeCallDatas := cs_bridgeCallDatas s @ xs\<rparr>" "i < length (cs_bridgeCallDatas u)"
    "cs_bridgeCallDatas u ! i = toBigIntBE (pd_bridgeCallData p)"
  proof (cases "findIndex (\<lambda>b. b = toBigIntBE (pd_bridgeCallData p)) (cs_bridgeCallDatas s)")
    case None
    then show thesis using iu by (intro that [of "[toBigIntBE (pd_bridgeCallData p)]"]) (auto simp: bridgeIndex_def)
  next
    case (Some k)
    then show thesis using iu findIndex_Some [OF Some] by (intro that [of "[]"]) (auto simp: bridgeIndex_def)
  qed
  let ?v = "cc (pd_noteCommitment1 p) (n * int NUM_BRIDGE_CALLS_PER_BLOCK + int i) (claimFeeOf (toBigIntBE (pd_txFee p)))"
  have "putData ?v u = Inr t" using assms True by (simp add: putFirstNote_def iu)
  from putData_data [OF this] u True show thesis by (intro that [of ?v xs]) (auto simp: firstNoteOf_def dataLeaf_def)
qed

lemma insertTx_data:
  assumes "insertTx compress cc cfg n s (b, p, tx) = Inr t"
  obtains v xs where "dataLeaf t = (dataLeaf s)(nat (cs_nextDataIndex s) := v, nat (cs_nextDataIndex s + 1) := pd_noteCommitment2 p)"
    "cs_nextDataIndex t = cs_nextDataIndex s + 2" "cs_bridgeCallDatas t = cs_bridgeCallDatas s @ xs"
    "firstNoteOf cc n (cs_bridgeCallDatas t) p v"
proof -
  from assms obtain s1 s2 s3 s4 s5 where s: "addFeeAsset cfg p s = Inr s1" "putFirstNote cc n p s1 = Inr s2"
    "putData (pd_noteCommitment2 p) s2 = Inr s3" "putNullifier compress (pd_nullifier1 p) s3 = Inr s4"
    "putNullifier compress (pd_nullifier2 p) s4 = Inr s5" "pushDataRoot compress tx s5 = Inr t"
    by (auto simp: insertTx_def bindE_eq_Inr split: if_splits)
  from s(2) obtain v xs where v: "dataLeaf s2 = (dataLeaf s1)(nat (cs_nextDataIndex s1) := v)" "cs_nextDataIndex s2 = cs_nextDataIndex s1 + 1"
    "cs_bridgeCallDatas s2 = cs_bridgeCallDatas s1 @ xs" "firstNoteOf cc n (cs_bridgeCallDatas s2) p v" by (rule putFirstNote_data)
  note f = addFeeAsset_data [OF s(1)] putData_data [OF s(3)] putNullifier_data [OF s(4)] putNullifier_data [OF s(5)] pushDataRoot_data [OF s(6)]
  show thesis using v f by (intro that [of v xs]) (auto simp: dataLeaf_def)
qed

lemma insertTxs_data:
  assumes "foldE (insertTx compress cc cfg n) s (zip bs (zip ps txs)) = Inr t" "0 \<le> cs_nextDataIndex s"
    "length bs = length ps" "length txs = length ps"
  shows "cs_nextDataIndex t = cs_nextDataIndex s + 2 * int (length ps) \<and> (\<exists>xs. cs_bridgeCallDatas t = cs_bridgeCallDatas s @ xs)
    \<and> (\<forall>i<length ps. firstNoteOf cc n (cs_bridgeCallDatas t) (ps ! i) (dataLeaf t (nat (cs_nextDataIndex s) + 2 * i))
        \<and> dataLeaf t (nat (cs_nextDataIndex s) + 2 * i + 1) = pd_noteCommitment2 (ps ! i))
    \<and> (\<forall>j. j < nat (cs_nextDataIndex s) \<or> nat (cs_nextDataIndex s) + 2 * length ps \<le> j \<longrightarrow> dataLeaf t j = dataLeaf s j)"
  using assms
proof (induction ps arbitrary: s bs txs)
  case (Cons p ps)
  from Cons.prems obtain b bs' tx txs' where l: "bs = b # bs'" "txs = tx # txs'"
    by (cases bs; cases txs) auto
  from Cons.prems(1) l obtain u where u: "insertTx compress cc cfg n s (b, p, tx) = Inr u"
    "foldE (insertTx compress cc cfg n) u (zip bs' (zip ps txs')) = Inr t" by (auto simp: bindE_eq_Inr)
  from u(1) obtain v xs where v: "dataLeaf u = (dataLeaf s)(nat (cs_nextDataIndex s) := v, nat (cs_nextDataIndex s + 1) := pd_noteCommitment2 p)"
    "cs_nextDataIndex u = cs_nextDataIndex s + 2" "cs_bridgeCallDatas u = cs_bridgeCallDatas s @ xs"
    "firstNoteOf cc n (cs_bridgeCallDatas u) p v" by (rule insertTx_data)
  let ?k = "nat (cs_nextDataIndex s)"
  have k: "nat (cs_nextDataIndex s + 1) = ?k + 1" "nat (cs_nextDataIndex u) = ?k + 2" using v(2) Cons.prems(2) by simp_all
  have "0 \<le> cs_nextDataIndex u" using v(2) Cons.prems(2) by simp
  from Cons.IH [OF u(2) this] Cons.prems(3,4) l have IH: "cs_nextDataIndex t = cs_nextDataIndex u + 2 * int (length ps)"
    "\<exists>xs. cs_bridgeCallDatas t = cs_bridgeCallDatas u @ xs"
    "\<forall>i<length ps. firstNoteOf cc n (cs_bridgeCallDatas t) (ps ! i) (dataLeaf t (?k + 2 + 2 * i)) \<and> dataLeaf t (?k + 2 + 2 * i + 1) = pd_noteCommitment2 (ps ! i)"
    "\<forall>j. j < ?k + 2 \<or> ?k + 2 + 2 * length ps \<le> j \<longrightarrow> dataLeaf t j = dataLeaf u j"
    by (simp_all add: k)
  have here: "dataLeaf t ?k = v" "dataLeaf t (?k + 1) = pd_noteCommitment2 p" using IH(4) v(1) by (simp_all add: k)
  have f: "firstNoteOf cc n (cs_bridgeCallDatas t) p v" using IH(2) v(4) firstNoteOf_more by metis
  show ?case
  proof (intro conjI allI impI)
    fix i assume "i < length (p # ps)"
    then show "firstNoteOf cc n (cs_bridgeCallDatas t) ((p # ps) ! i) (dataLeaf t (?k + 2 * i))"
      "dataLeaf t (?k + 2 * i + 1) = pd_noteCommitment2 ((p # ps) ! i)"
      using here f IH(3) by (cases i; force)+
  next
    fix j assume "j < ?k \<or> ?k + 2 * length (p # ps) \<le> j"
    then show "dataLeaf t j = dataLeaf s j" using IH(4) v(1) k by auto
  qed (use IH v in auto)
qed simp

section \<open>The chain of nullifier roots\<close>

definition proofNullifiers :: "proofData list \<Rightarrow> int list" where
  "proofNullifiers ps = concat (map (\<lambda>p. [toBigIntBE (pd_nullifier1 p), toBigIntBE (pd_nullifier2 p)]) ps)"

text \<open>What the circuit checks for one nullifier: its leaf was zero under the root before and is one under the root after;
  for the nullifier zero nothing changes.\<close>

definition nullifierCheck :: "compressFn \<Rightarrow> buffer \<Rightarrow> buffer \<Rightarrow> int \<Rightarrow> hashPath \<Rightarrow> buffer \<Rightarrow> bool" where
  "nullifierCheck compress zeroLeaf oldRoot n path newRoot \<longleftrightarrow>
    (if n = 0 then rootFrom compress zeroLeaf 0 path = oldRoot \<and> newRoot = oldRoot
     else rootFrom compress (zeros 32) (nat n) path = oldRoot \<and> newRoot = rootFrom compress (toBufferBE 1 32) (nat n) path)"

definition unspent :: "worldDb \<Rightarrow> int list \<Rightarrow> bool" where
  "unspent d ns \<longleftrightarrow> distinct (filter (\<lambda>n. n \<noteq> 0) ns) \<and> (\<forall>n\<in>set ns. 0 \<le> n \<and> n < 2 ^ 256 \<and> (n \<noteq> 0 \<longrightarrow> dbGet d NULL_TREE n = zeros 32))"

definition nullChain :: "compressFn \<Rightarrow> worldDb \<Rightarrow> int list \<Rightarrow> creatorState \<Rightarrow> bool" where
  "nullChain compress d ns s \<longleftrightarrow> length (cs_newNullRoots s) = length ns \<and> length (cs_oldNullPaths s) = length ns
     \<and> (\<forall>i. dbGet (cs_db s) NULL_TREE (int i) = (if i \<noteq> 0 \<and> int i \<in> set ns then toBufferBE 1 32 else dbGet d NULL_TREE (int i)))
     \<and> dbRoot compress (cs_db s) NULL_TREE = (dbRoot compress d NULL_TREE # cs_newNullRoots s) ! length ns
     \<and> (\<forall>k<length ns. nullifierCheck compress (dbGet d NULL_TREE 0) ((dbRoot compress d NULL_TREE # cs_newNullRoots s) ! k) (ns ! k)
          (cs_oldNullPaths s ! k) (cs_newNullRoots s ! k))"

lemma nullChain_same:
  assumes "nullChain compress d ns s" "wt_leaf (wd_current (cs_db t)) NULL_TREE = wt_leaf (wd_current (cs_db s)) NULL_TREE"
    "cs_newNullRoots t = cs_newNullRoots s" "cs_oldNullPaths t = cs_oldNullPaths s"
  shows "nullChain compress d ns t"
  using assms by (simp add: nullChain_def dbGet_def dbRoot_def treeRoot_def)

lemma dbGet_put: "dbPut t i v d = Inr d' \<Longrightarrow> 0 \<le> i \<Longrightarrow> 0 \<le> j \<Longrightarrow> dbGet d' t j = (if i = j then v else dbGet d t j)"
  using dbPut_leaf [of t i v d d'] by (simp add: dbGet_def eq_nat_nat_iff)

lemma putNullifier_chain:
  assumes c: "nullChain compress d ns s" and u: "unspent d (ns @ [toBigIntBE b])" and p: "putNullifier compress b s = Inr t"
  shows "nullChain compress d (ns @ [toBigIntBE b]) t"
proof -
  let ?n = "toBigIntBE b" and ?d = "cs_db s" and ?one = "toBufferBE 1 32"
  let ?path = "dbPath compress ?d NULL_TREE ?n" and ?roots = "dbRoot compress d NULL_TREE # cs_newNullRoots s"
  have n: "0 \<le> ?n" "?n < 2 ^ treeDepth NULL_TREE" "?n \<noteq> 0 \<Longrightarrow> ?n \<notin> set ns" "?n \<noteq> 0 \<Longrightarrow> dbGet d NULL_TREE ?n = zeros 32"
    using u by (auto simp: unspent_def treeDepth_def trees_distinct)
  from p obtain d' where d': "(if ?n \<noteq> 0 then dbPut NULL_TREE ?n ?one ?d else Inr ?d) = Inr d'"
    and t: "cs_db t = d'" "cs_oldNullPaths t = cs_oldNullPaths s @ [?path]" "cs_newNullRoots t = cs_newNullRoots s @ [dbRoot compress d' NULL_TREE]"
  proof -
    from p obtain d' where "(if ?n \<noteq> 0 then dbPut NULL_TREE ?n ?one ?d else Inr ?d) = Inr d'" "t = s\<lparr>cs_db := d',
      cs_oldNullPaths := cs_oldNullPaths s @ [?path], cs_newNullRoots := cs_newNullRoots s @ [dbRoot compress d' NULL_TREE],
      cs_newNullPaths := cs_newNullPaths s @ [dbPath compress d' NULL_TREE ?n]\<rparr>"
      unfolding putNullifier_def Let_def by (auto simp only: bindE_eq_Inr sum.inject)
    then show thesis by (intro that [of d']) simp_all
  qed
  have leaf: "dbGet ?d NULL_TREE ?n = (if ?n = 0 then dbGet d NULL_TREE 0 else zeros 32)"
  proof -
    have "dbGet ?d NULL_TREE (int (nat ?n)) = (if nat ?n \<noteq> 0 \<and> int (nat ?n) \<in> set ns then ?one else dbGet d NULL_TREE (int (nat ?n)))"
      using c unfolding nullChain_def by blast
    with n(1,3,4) show ?thesis by (cases "?n = 0") simp_all
  qed
  have old: "rootFrom compress (dbGet ?d NULL_TREE ?n) (nat ?n) ?path = dbRoot compress ?d NULL_TREE" by (rule rootFrom_leaf [OF n(1,2)])
  have new: "dbRoot compress d' NULL_TREE = (if ?n = 0 then dbRoot compress ?d NULL_TREE else rootFrom compress ?one (nat ?n) ?path)"
    using d' rootFrom_put [OF n(1,2), of ?one ?d d' compress] by (auto split: if_splits)
  have check: "nullifierCheck compress (dbGet d NULL_TREE 0) (dbRoot compress ?d NULL_TREE) ?n ?path (dbRoot compress d' NULL_TREE)"
    using old new leaf unfolding nullifierCheck_def by (cases "?n = 0") simp_all
  have "dbGet d' NULL_TREE (int i) = (if i \<noteq> 0 \<and> int i \<in> set (ns @ [?n]) then ?one else dbGet d NULL_TREE (int i))" for i
  proof (cases "?n = 0")
    case True
    then show ?thesis using c d' by (auto simp: nullChain_def)
  next
    case False
    have "dbGet ?d NULL_TREE (int i) = (if i \<noteq> 0 \<and> int i \<in> set ns then ?one else dbGet d NULL_TREE (int i))" using c unfolding nullChain_def by blast
    moreover have "dbGet d' NULL_TREE (int i) = (if ?n = int i then ?one else dbGet ?d NULL_TREE (int i))"
      using d' False by (intro dbGet_put) (simp_all add: n(1))
    ultimately show ?thesis using False by (simp only: set_append Un_iff list.set insert_iff empty_iff) auto
  qed
  moreover have keep: "(?roots @ [x]) ! k = ?roots ! k" if "k \<le> length ns" for x k
  proof -
    have "k < length ?roots" using that c by (simp add: nullChain_def)
    then show ?thesis by (rule nth_append_left)
  qed
  moreover have "(?roots @ [x]) ! length ns = dbRoot compress ?d NULL_TREE" for x
    using keep [of "length ns" x] c by (simp add: nullChain_def)
  ultimately show ?thesis using c check unfolding nullChain_def t by (auto simp: nth_append less_Suc_eq)
qed

lemma unspent_prefix: "unspent d (xs @ ys) \<Longrightarrow> unspent d xs"
  by (auto simp: unspent_def)

lemma dbPut_other: "dbPut t i v d = Inr d' \<Longrightarrow> t \<noteq> u \<Longrightarrow> wt_leaf (wd_current d') u = wt_leaf (wd_current d) u"
  by (simp add: dbPut_leaf)

lemma insertTx_chain:
  assumes c: "nullChain compress d ns s" and u: "unspent d (ns @ proofNullifiers [p])"
    and i: "insertTx compress cc cfg n s (b, p, tx) = Inr t"
  shows "nullChain compress d (ns @ proofNullifiers [p]) t"
proof -
  from i obtain s1 s2 s3 s4 s5 where s: "addFeeAsset cfg p s = Inr s1" "putFirstNote cc n p s1 = Inr s2"
    "putData (pd_noteCommitment2 p) s2 = Inr s3" "putNullifier compress (pd_nullifier1 p) s3 = Inr s4"
    "putNullifier compress (pd_nullifier2 p) s4 = Inr s5" "pushDataRoot compress tx s5 = Inr t"
    by (auto simp: insertTx_def bindE_eq_Inr split: if_splits)
  have data: "nullChain compress d ns x" if xy: "putData v y = Inr x" "nullChain compress d ns y" for v x y
  proof (rule nullChain_same [OF xy(2)])
    from xy(1) obtain d' where d': "dbPut DATA_TREE (cs_nextDataIndex y) v (cs_db y) = Inr d'"
      "x = y\<lparr>cs_db := d', cs_nextDataIndex := cs_nextDataIndex y + 1\<rparr>" by (auto simp: putData_def mapR_eq_Inr)
    then show "wt_leaf (wd_current (cs_db x)) NULL_TREE = wt_leaf (wd_current (cs_db y)) NULL_TREE"
      "cs_newNullRoots x = cs_newNullRoots y" "cs_oldNullPaths x = cs_oldNullPaths y" using dbPut_other [OF d'(1), of NULL_TREE] by simp_all
  qed
  have "cs_db s1 = cs_db s \<and> cs_newNullRoots s1 = cs_newNullRoots s \<and> cs_oldNullPaths s1 = cs_oldNullPaths s"
    using s(1) by (auto simp: addFeeAsset_def bindE_eq_Inr split: if_splits)
  then have s1: "nullChain compress d ns s1" by (intro nullChain_same [OF c]) simp_all
  have bridge: "nullChain compress d ns (snd (bridgeIndex x y))" if "nullChain compress d ns y" for x y
  proof (rule nullChain_same [OF that])
    show "wt_leaf (wd_current (cs_db (snd (bridgeIndex x y)))) NULL_TREE = wt_leaf (wd_current (cs_db y)) NULL_TREE"
      "cs_newNullRoots (snd (bridgeIndex x y)) = cs_newNullRoots y" "cs_oldNullPaths (snd (bridgeIndex x y)) = cs_oldNullPaths y"
      by (simp_all add: bridgeIndex_def split: option.split)
  qed
  have "nullChain compress d ns s2"
  proof (cases "pd_proofId p = DEFI_DEPOSIT")
    case True
    then obtain v where "putData v (snd (bridgeIndex (toBigIntBE (pd_bridgeCallData p)) s1)) = Inr s2"
      using s(2) by (simp add: putFirstNote_def split: prod.splits)
    then show ?thesis by (rule data [OF _ bridge [OF s1]])
  next
    case False
    then have "putData (pd_noteCommitment1 p) s1 = Inr s2" using s(2) by (simp add: putFirstNote_def)
    then show ?thesis by (rule data [OF _ s1])
  qed
  with s(3) have s3: "nullChain compress d ns s3" by (rule data)
  have u2: "unspent d ((ns @ [toBigIntBE (pd_nullifier1 p)]) @ [toBigIntBE (pd_nullifier2 p)])" using u by (simp add: proofNullifiers_def)
  have "nullChain compress d (ns @ [toBigIntBE (pd_nullifier1 p)]) s4"
    by (rule putNullifier_chain [OF s3 unspent_prefix [OF u2] s(4)])
  then have s5: "nullChain compress d ((ns @ [toBigIntBE (pd_nullifier1 p)]) @ [toBigIntBE (pd_nullifier2 p)]) s5"
    by (rule putNullifier_chain [OF _ u2 s(5)])
  have "cs_db t = cs_db s5 \<and> cs_newNullRoots t = cs_newNullRoots s5 \<and> cs_oldNullPaths t = cs_oldNullPaths s5"
    using s(6) by (auto simp: pushDataRoot_def split: option.splits)
  then have "nullChain compress d ((ns @ [toBigIntBE (pd_nullifier1 p)]) @ [toBigIntBE (pd_nullifier2 p)]) t"
    by (intro nullChain_same [OF s5]) simp_all
  then show ?thesis by (simp add: proofNullifiers_def)
qed

lemma insertTxs_chain:
  assumes "nullChain compress d ns s" "unspent d (ns @ proofNullifiers ps)"
    "foldE (insertTx compress cc cfg n) s (zip bs (zip ps txs)) = Inr t" "length bs = length ps" "length txs = length ps"
  shows "nullChain compress d (ns @ proofNullifiers ps) t"
  using assms
proof (induction ps arbitrary: s ns bs txs)
  case (Cons p ps)
  from Cons.prems obtain b bs' tx txs' where l: "bs = b # bs'" "txs = tx # txs'"
    by (cases bs; cases txs) auto
  from Cons.prems(3) l obtain u where u: "insertTx compress cc cfg n s (b, p, tx) = Inr u"
    "foldE (insertTx compress cc cfg n) u (zip bs' (zip ps txs')) = Inr t" by (auto simp: bindE_eq_Inr)
  have e: "ns @ proofNullifiers (p # ps) = (ns @ proofNullifiers [p]) @ proofNullifiers ps" by (simp add: proofNullifiers_def)
  have "nullChain compress d (ns @ proofNullifiers [p]) u"
    using insertTx_chain [OF Cons.prems(1) _ u(1)] Cons.prems(2) unspent_prefix unfolding e by blast
  from Cons.IH [OF this _ u(2)] Cons.prems(2,4,5) l show ?case unfolding e by simp
qed (simp add: proofNullifiers_def)

section \<open>Properties\<close>

lemma createRollup_parts:
  assumes "createRollup compress cc keccak sha256 cfg n interrupts txs bcds assets first d = Inr (r, s)"
    and "start = dataStartIndexFor (dbSize d DATA_TREE) (if first then cc_outerRollupSize cfg * 2 else cc_innerRollupSize cfg * 2)"
  obtains ps s0 where "mapE (\<lambda>tx. newProofData (td_proofData tx) None) txs = Inr ps" "length ps = length txs"
    "foldE (insertTx compress cc cfg n) \<lparr>cs_db = d, cs_nextDataIndex = start, cs_newNullRoots = [], cs_oldNullPaths = [],
       cs_newNullPaths = [], cs_dataRootsPaths = [], cs_dataRootsIndicies = [], cs_localAssetIds = [], cs_rootAssetIds = assets,
       cs_bridgeCallDatas = bcds\<rparr> (zip (map interrupts [0..<length ps]) (zip ps txs)) = Inr s0"
    "if length txs < cc_numInnerRollupTxs cfg then padRollup compress cfg start s0 = Inr s else s = s0"
    "tr_dataStartIndex r = start" "tr_oldDataRoot r = dbRoot compress d DATA_TREE"
    "(tr_linkedCommitmentPaths r, tr_linkedCommitmentIndices r) = getLinkedCommitments compress d ps"
    "tr_oldNullRoot r = dbRoot compress d NULL_TREE" "tr_newNullRoots r = cs_newNullRoots s" "tr_oldNullPaths r = cs_oldNullPaths s"
proof -
  obtain lp li where l: "getLinkedCommitments compress d ps = (lp ps, li ps)" for ps
    by (rule that [of "\<lambda>ps. fst (getLinkedCommitments compress d ps)" "\<lambda>ps. snd (getLinkedCommitments compress d ps)"]) simp
  from assms obtain ps s0 ai where p: "mapE (\<lambda>tx. newProofData (td_proofData tx) None) txs = Inr ps"
    "foldE (insertTx compress cc cfg n) \<lparr>cs_db = d, cs_nextDataIndex = start, cs_newNullRoots = [], cs_oldNullPaths = [],
       cs_newNullPaths = [], cs_dataRootsPaths = [], cs_dataRootsIndicies = [], cs_localAssetIds = [], cs_rootAssetIds = assets,
       cs_bridgeCallDatas = bcds\<rparr> (zip (map interrupts [0..<length ps]) (zip ps txs)) = Inr s0"
    "(if length txs < cc_numInnerRollupTxs cfg then padRollup compress cfg start s0 else Inr s0) = Inr s"
    "newTxRollup keccak sha256 \<lparr>tr_rollupHash = [], tr_rollupId = n, tr_dataStartIndex = start, tr_proofs = map td_proofData txs,
        tr_oldDataRoot = dbRoot compress d DATA_TREE, tr_newDataRoot = dbRoot compress (cs_db s) DATA_TREE,
        tr_oldDataPath = dbPath compress d DATA_TREE start,
        tr_linkedCommitmentPaths = lp ps, tr_linkedCommitmentIndices = li ps,
        tr_oldNullRoot = dbRoot compress d NULL_TREE, tr_newNullRoots = cs_newNullRoots s, tr_oldNullPaths = cs_oldNullPaths s,
        tr_dataRootsRoot = dbRoot compress (cs_db s) ROOT_TREE, tr_dataRootsPaths = cs_dataRootsPaths s,
        tr_dataRootsIndicies = cs_dataRootsIndicies s, tr_newDefiRoot = dbRoot compress (cs_db s) DEFI_TREE,
        tr_bridgeCallDatas = map (\<lambda>bridge. toBufferBE bridge 32) (cs_bridgeCallDatas s), tr_assetIds = ai\<rparr> = Inr r"
    unfolding createRollup_def Let_def l case_prod_conv by (auto simp only: bindE_eq_Inr sum.inject prod.inject)
  show thesis
    by (rule that [OF p(1) _ p(2)]) (use p mapE_Inr_length [OF p(1)] l in \<open>auto simp: newTxRollup_def bindE_eq_Inr split: if_splits\<close>)
qed

lemma dataStartIndexFor_least:
  assumes "0 < m"
  shows "n \<le> dataStartIndexFor n m" "dataStartIndexFor n m mod m = 0" "dataStartIndexFor n m < n + m"
proof -
  have "0 \<le> n mod m" "n mod m < m" using assms by simp_all
  then show "n \<le> dataStartIndexFor n m" "dataStartIndexFor n m < n + m"
    using assms unfolding dataStartIndexFor_def by (auto split: if_splits simp del: pos_mod_bound pos_mod_sign)
  have "n + m - n mod m = (n div m + 1) * m" by (simp add: minus_mod_eq_mult_div algebra_simps)
  then show "dataStartIndexFor n m mod m = 0" by (simp add: dataStartIndexFor_def)
qed

text \<open>C12: The notes of an inner rollup go where the circuit expects them: the start is the first subtree boundary behind the data tree,
  the two notes of transaction \<open>i\<close> stand at \<open>start + 2 i\<close> and behind it (the claim note of a DeFi deposit completed with
  the nonce of its bridge call and half the fee, rounded up), and no other leaf changes but the padding at the end of the subtree.\<close>

theorem rollup_inserts_notes:
  assumes "createRollup compress cc keccak sha256 cfg n interrupts txs bcds assets firstInner d = Inr (r, s)"
    and "mapE (\<lambda>tx. newProofData (td_proofData tx) None) txs = Inr ps"
    and "0 \<le> dbSize d DATA_TREE" "0 < cc_innerRollupSize cfg" "0 < cc_outerRollupSize cfg" "int (cc_numInnerRollupTxs cfg) \<le> cc_innerRollupSize cfg"
  defines "subtree \<equiv> (if firstInner then cc_outerRollupSize cfg * 2 else cc_innerRollupSize cfg * 2)"
    and "start \<equiv> nat (tr_dataStartIndex r)"
  shows "dbSize d DATA_TREE \<le> tr_dataStartIndex r \<and> tr_dataStartIndex r mod subtree = 0 \<and> tr_dataStartIndex r < dbSize d DATA_TREE + subtree
    \<and> (\<forall>i<length txs. firstNoteOf cc n (cs_bridgeCallDatas s) (ps ! i) (dataLeaf s (start + 2 * i))
         \<and> dataLeaf s (start + 2 * i + 1) = pd_noteCommitment2 (ps ! i))
    \<and> (\<forall>j. j < start \<or> start + 2 * length txs \<le> j \<and> j \<noteq> start + 2 * nat (cc_innerRollupSize cfg) - 1 \<longrightarrow>
         dataLeaf s j = wt_leaf (wd_current d) DATA_TREE j)"
proof -
  let ?start = "dataStartIndexFor (dbSize d DATA_TREE) subtree"
  obtain ps' s0 where p: "mapE (\<lambda>tx. newProofData (td_proofData tx) None) txs = Inr ps'" "length ps' = length txs"
    "foldE (insertTx compress cc cfg n) \<lparr>cs_db = d, cs_nextDataIndex = ?start, cs_newNullRoots = [], cs_oldNullPaths = [],
       cs_newNullPaths = [], cs_dataRootsPaths = [], cs_dataRootsIndicies = [], cs_localAssetIds = [], cs_rootAssetIds = assets,
       cs_bridgeCallDatas = bcds\<rparr> (zip (map interrupts [0..<length ps']) (zip ps' txs)) = Inr s0"
    "if length txs < cc_numInnerRollupTxs cfg then padRollup compress cfg ?start s0 = Inr s else s = s0" "tr_dataStartIndex r = ?start"
    unfolding subtree_def by (rule createRollup_parts [OF assms(1) refl])
  have ps: "ps' = ps" using p(1) assms(2) by simp
  have pos: "0 < subtree" using assms(4,5) by (simp add: subtree_def)
  note start = dataStartIndexFor_least [OF pos, of "dbSize d DATA_TREE"]
  have st: "start = nat ?start" "0 \<le> ?start" using p(5) start(1) assms(3) by (simp_all add: start_def)
  have data: "(\<forall>i<length txs. firstNoteOf cc n (cs_bridgeCallDatas s0) (ps ! i) (dataLeaf s0 (start + 2 * i))
         \<and> dataLeaf s0 (start + 2 * i + 1) = pd_noteCommitment2 (ps ! i))
      \<and> (\<forall>j. j < start \<or> start + 2 * length txs \<le> j \<longrightarrow> dataLeaf s0 j = wt_leaf (wd_current d) DATA_TREE j)"
    using insertTxs_data [OF p(3)] p(2) st ps by (simp add: dataLeaf_def)
  have pad: "cs_bridgeCallDatas s = cs_bridgeCallDatas s0"
    "\<And>j. (length txs < cc_numInnerRollupTxs cfg \<longrightarrow> j \<noteq> start + 2 * nat (cc_innerRollupSize cfg) - 1) \<Longrightarrow> dataLeaf s j = dataLeaf s0 j"
  proof -
    have "nat (?start + cc_innerRollupSize cfg * 2 - 1) = start + 2 * nat (cc_innerRollupSize cfg) - 1" using st assms(4) by simp
    moreover obtain d' where "length txs < cc_numInnerRollupTxs cfg \<Longrightarrow> dbPut DATA_TREE (?start + cc_innerRollupSize cfg * 2 - 1) (zeros 32) (cs_db s0) = Inr d'
        \<and> cs_db s = d' \<and> cs_bridgeCallDatas s = cs_bridgeCallDatas s0"
      using p(4) by (cases "length txs < cc_numInnerRollupTxs cfg") (auto simp: padRollup_def bindE_eq_Inr Let_def)
    ultimately show "cs_bridgeCallDatas s = cs_bridgeCallDatas s0"
      "\<And>j. (length txs < cc_numInnerRollupTxs cfg \<longrightarrow> j \<noteq> start + 2 * nat (cc_innerRollupSize cfg) - 1) \<Longrightarrow> dataLeaf s j = dataLeaf s0 j"
      using p(4) by (cases "length txs < cc_numInnerRollupTxs cfg"; auto simp: dataLeaf_def dest!: dbPut_leaf)+
  qed
  have inside: "start + 2 * i + 1 < start + 2 * nat (cc_innerRollupSize cfg) - 1" if "i < length txs" "length txs < cc_numInnerRollupTxs cfg" for i
    using that assms(6) by linarith
  have keep: "dataLeaf s (start + 2 * i) = dataLeaf s0 (start + 2 * i)" "dataLeaf s (start + 2 * i + 1) = dataLeaf s0 (start + 2 * i + 1)"
    if "i < length txs" for i
    using inside [OF that] by (intro pad(2); auto)+
  have "start \<le> start + 2 * nat (cc_innerRollupSize cfg) - 2" using assms(4) by simp
  then have rest: "dataLeaf s j = wt_leaf (wd_current d) DATA_TREE j"
    if "j < start \<or> start + 2 * length txs \<le> j \<and> j \<noteq> start + 2 * nat (cc_innerRollupSize cfg) - 1" for j
    using that data assms(4) by (subst pad(2)) auto
  show ?thesis using start data keep pad(1) rest p(5) by simp
qed

text \<open>C13: The nullifiers of an inner rollup are proved one after the other: for each of them, in the order of the transactions, the path handed to
  the circuit leads from an empty leaf to the root before it and from a set leaf to the root after it, and for the nullifier zero nothing changes.\<close>

theorem rollup_nullifier_chain:
  assumes "createRollup compress cc keccak sha256 cfg n interrupts txs bcds assets firstInner d = Inr (r, s)"
    and "mapE (\<lambda>tx. newProofData (td_proofData tx) None) txs = Inr ps" "unspent d (proofNullifiers ps)"
  shows "length (tr_newNullRoots r) = 2 * length txs \<and> (\<forall>k<2 * length txs. nullifierCheck compress (dbGet d NULL_TREE 0)
    ((tr_oldNullRoot r # tr_newNullRoots r) ! k) (proofNullifiers ps ! k) (tr_oldNullPaths r ! k) (tr_newNullRoots r ! k))"
proof -
  obtain ps' s0 start where p: "mapE (\<lambda>tx. newProofData (td_proofData tx) None) txs = Inr ps'" "length ps' = length txs"
    "foldE (insertTx compress cc cfg n) \<lparr>cs_db = d, cs_nextDataIndex = start, cs_newNullRoots = [], cs_oldNullPaths = [],
       cs_newNullPaths = [], cs_dataRootsPaths = [], cs_dataRootsIndicies = [], cs_localAssetIds = [], cs_rootAssetIds = assets,
       cs_bridgeCallDatas = bcds\<rparr> (zip (map interrupts [0..<length ps']) (zip ps' txs)) = Inr s0"
    "if length txs < cc_numInnerRollupTxs cfg then padRollup compress cfg start s0 = Inr s else s = s0"
    "tr_oldNullRoot r = dbRoot compress d NULL_TREE" "tr_newNullRoots r = cs_newNullRoots s" "tr_oldNullPaths r = cs_oldNullPaths s"
    by (rule createRollup_parts [OF assms(1) refl])
  have ps: "ps' = ps" using p(1) assms(2) by simp
  have "nullChain compress d [] \<lparr>cs_db = d, cs_nextDataIndex = start, cs_newNullRoots = [], cs_oldNullPaths = [],
       cs_newNullPaths = [], cs_dataRootsPaths = [], cs_dataRootsIndicies = [], cs_localAssetIds = [], cs_rootAssetIds = assets,
       cs_bridgeCallDatas = bcds\<rparr>" by (simp add: nullChain_def)
  then have c: "nullChain compress d (proofNullifiers ps) s0"
    using insertTxs_chain [of compress d "[]" _ ps] assms(3) p(2,3) ps by simp
  have "length (proofNullifiers qs) = 2 * length qs" for qs by (induction qs) (simp_all add: proofNullifiers_def)
  then have l: "length (proofNullifiers ps) = 2 * length txs" using p(2) ps by simp
  have s: "cs_newNullRoots s = cs_newNullRoots s0" "\<exists>xs. cs_oldNullPaths s = cs_oldNullPaths s0 @ xs"
    using p(4) by (auto simp: padRollup_def bindE_eq_Inr Let_def split: if_splits)
  then show ?thesis using c l p(5-7) by (auto simp: nullChain_def nth_append)
qed

section \<open>A sample rollup\<close>

text \<open>Two transfers behind five notes.\<close>

definition sampleDao :: "byte \<Rightarrow> txDao" where
  "sampleDao c = \<lparr>td_id = byteWord c, td_proofData = concat (sampleFields 3 c 0 3 0), td_offchainTxData = [], td_signature = None,
     td_nullifier1 = None, td_nullifier2 = None, td_dataRootsIndex = Some 0, td_txType = TX_TRANSFER, td_created = 0, td_mined = None,
     td_excessGas = 0, td_position = None, td_secondClass = False\<rparr>"

definition sampleCreator :: creatorConfig where
  "sampleCreator = \<lparr>cc_numInnerRollupTxs = 4, cc_innerRollupSize = 4, cc_outerRollupSize = 4, cc_feeResolver = sampleGroupResolver\<rparr>"

definition fiveNotes :: worldDb where
  "fiveNotes = emptyDb\<lparr>wd_current := (wd_current emptyDb)\<lparr>wt_size := (\<lambda>_. 5)\<rparr>\<rparr>"

lemma sample_proofs: "mapE (\<lambda>tx. newProofData (td_proofData tx) None) [sampleDao 7, sampleDao 9] = Inr [sampleClientProof 3 7 0 3 0, sampleClientProof 3 9 0 3 0]"
  by (simp add: sampleDao_def sample_built)

lemma sample_txId: "\<exists>t. proofTxId keccak (concat (sampleFields 3 c 0 3 0)) = Inr t"
proof -
  have "take 256 (concat (sampleFields 3 c 0 3 0)) = byteWord 3 @ take 224 (drop 32 (concat (sampleFields 3 c 0 3 0)))"
    by (simp add: sampleFields_def)
  then have "readUInt32BE (bslice (concat (sampleFields 3 c 0 3 0)) 0 256) 28 = Inr 3" by (simp add: bslice_0 readUInt32BE_byteWord)
  then show ?thesis by (simp add: proofTxId_def sample_built ProofData_txId_def sampleProofOf_def createTxId_def)
qed

lemma dbPut_ok: "length v = 32 \<Longrightarrow> \<exists>d'. dbPut t i v d = Inr d'"
  by (simp add: dbPut_def)

lemma putData_ok:
  assumes "length v = 32"
  obtains t where "putData v s = Inr t" "cs_localAssetIds t = cs_localAssetIds s"
  using dbPut_ok [OF assms, of DATA_TREE "cs_nextDataIndex s" "cs_db s"] by (auto simp: putData_def)

lemma putNullifier_ok: "\<exists>t. putNullifier compress b s = Inr t \<and> cs_localAssetIds t = cs_localAssetIds s"
proof -
  have "length (toBufferBE 1 32) = 32" by (simp add: length_toBufferBE)
  from dbPut_ok [OF this, of NULL_TREE "toBigIntBE b" "cs_db s"] show ?thesis
    by (cases "toBigIntBE b = 0") (auto simp: putNullifier_def Let_def)
qed

lemma sample_insert:
  assumes "set (cs_localAssetIds s) \<subseteq> {0}"
  obtains t where "insertTx compress cc sampleCreator n s (False, sampleClientProof 3 c 0 3 0, sampleDao c) = Inr t" "set (cs_localAssetIds t) \<subseteq> {0}"
proof -
  have "isFeePayingAsset sampleGroupResolver 0" by (simp add: isFeePayingAsset_def sampleGroupResolver_def)
  then obtain s1 where s1: "addFeeAsset sampleCreator (sampleClientProof 3 c 0 3 0) s = Inr s1" "set (cs_localAssetIds s1) \<subseteq> {0}"
    using assms by (simp add: addFeeAsset_def sample_fields sample_views sampleCreator_def setAdd_def)
  obtain s2 where s2: "putData (byteWord c) s1 = Inr s2" "cs_localAssetIds s2 = cs_localAssetIds s1" by (rule putData_ok [of "byteWord c" s1]) simp_all
  obtain s3 where s3: "putData (byteWord (c + 1)) s2 = Inr s3" "cs_localAssetIds s3 = cs_localAssetIds s2" by (rule putData_ok [of "byteWord (c + 1)" s2]) simp_all
  obtain s4 where s4: "putNullifier compress (byteWord (c + 100)) s3 = Inr s4" "cs_localAssetIds s4 = cs_localAssetIds s3" using putNullifier_ok by blast
  obtain s5 where s5: "putNullifier compress (zeros 32) s4 = Inr s5" "cs_localAssetIds s5 = cs_localAssetIds s4" using putNullifier_ok by blast
  have "putFirstNote cc n (sampleClientProof 3 c 0 3 0) s1 = Inr s2" using s2(1) by (simp add: putFirstNote_def sample_fields)
  then show thesis using s1 s2 s3 s4 s5
    by (intro that [of "s5\<lparr>cs_dataRootsPaths := cs_dataRootsPaths s5 @ [dbPath compress (cs_db s5) ROOT_TREE 0],
       cs_dataRootsIndicies := cs_dataRootsIndicies s5 @ [0]\<rparr>"]) (simp_all add: insertTx_def sample_fields pushDataRoot_def sampleDao_def)
qed

lemma sample_rollup:
  "\<exists>r s. createRollup compress cc keccak sha256 sampleCreator 3 (\<lambda>_. False) [sampleDao 7, sampleDao 9] [] [] True fiveNotes = Inr (r, s)"
proof -
  let ?ps = "[sampleClientProof 3 7 0 3 0, sampleClientProof 3 9 0 3 0]" and ?start = "dataStartIndexFor (dbSize fiveNotes DATA_TREE) 8"
  let ?s = "\<lparr>cs_db = fiveNotes, cs_nextDataIndex = ?start, cs_newNullRoots = [], cs_oldNullPaths = [], cs_newNullPaths = [],
        cs_dataRootsPaths = [], cs_dataRootsIndicies = [], cs_localAssetIds = [], cs_rootAssetIds = [], cs_bridgeCallDatas = []\<rparr>"
  obtain t u where t: "proofTxId keccak (concat (sampleFields 3 7 0 3 0)) = Inr t" "proofTxId keccak (concat (sampleFields 3 9 0 3 0)) = Inr u"
    using sample_txId by blast
  obtain lp li where l: "getLinkedCommitments compress fiveNotes ?ps = (lp, li)" by (cases "getLinkedCommitments compress fiveNotes ?ps")
  obtain s1 where s1: "insertTx compress cc sampleCreator 3 ?s (False, sampleClientProof 3 7 0 3 0, sampleDao 7) = Inr s1" "set (cs_localAssetIds s1) \<subseteq> {0}"
    by (rule sample_insert [of ?s]) simp_all
  obtain s2 where s2: "insertTx compress cc sampleCreator 3 s1 (False, sampleClientProof 3 9 0 3 0, sampleDao 9) = Inr s2" "set (cs_localAssetIds s2) \<subseteq> {0}"
    by (rule sample_insert [OF s1(2)])
  have f: "foldE (insertTx compress cc sampleCreator 3) ?s (zip (map (\<lambda>_. False) [0..<length ?ps]) (zip ?ps [sampleDao 7, sampleDao 9])) = Inr s2"
    by (simp add: s1 s2 upt_rec)
  obtain s3 where s3: "padRollup compress sampleCreator ?start s2 = Inr s3" "cs_localAssetIds s3 = cs_localAssetIds s2"
    using dbPut_ok [of "zeros 32" DATA_TREE] by (auto simp: padRollup_def Let_def bindE_def dbPut_def)
  have "\<exists>ai. mapE (\<lambda>assetId. numToUInt32BE assetId 32) (cs_localAssetIds s3) = Inr ai"
    unfolding mapE_eq_Inr_iff using s2(2) s3(2) by (auto simp: numToUInt32BE_def writeUInt32BE_def)
  then obtain ai where ai: "mapE (\<lambda>assetId. numToUInt32BE assetId 32) (cs_localAssetIds s3) = Inr ai" ..
  have cfg: "(if True then cc_outerRollupSize sampleCreator * 2 else cc_innerRollupSize sampleCreator * 2) = 8"
    "length [sampleDao 7, sampleDao 9] < cc_numInnerRollupTxs sampleCreator" by (simp_all add: sampleCreator_def)
  show ?thesis
    unfolding createRollup_def Let_def sample_proofs bindE_Inr l case_prod_conv cfg(1) f if_P [OF cfg(2)] s3(1) ai
    by (simp add: newTxRollup_def sampleDao_def t)
qed

theorem rollup_inserts_notes_witness:
  "\<exists>r s. createRollup (\<lambda>a b. a) (\<lambda>c _ _. c) (\<lambda>_. zeros 32) (\<lambda>_. zeros 32) sampleCreator 3 (\<lambda>_. False) [sampleDao 7, sampleDao 9] [] [] True fiveNotes
     = Inr (r, s) \<and> tr_dataStartIndex r = 8 \<and> dataLeaf s 8 = byteWord 7 \<and> dataLeaf s 11 = byteWord 10"
proof -
  obtain r s where c: "createRollup (\<lambda>a b. a) (\<lambda>c _ _. c) (\<lambda>_. zeros 32) (\<lambda>_. zeros 32) sampleCreator 3 (\<lambda>_. False) [sampleDao 7, sampleDao 9] [] [] True fiveNotes
     = Inr (r, s)" using sample_rollup by blast
  have size: "dbSize fiveNotes DATA_TREE = 5" by (simp add: dbSize_def fiveNotes_def)
  have "0 \<le> dbSize fiveNotes DATA_TREE" "0 < cc_innerRollupSize sampleCreator" "0 < cc_outerRollupSize sampleCreator"
    "int (cc_numInnerRollupTxs sampleCreator) \<le> cc_innerRollupSize sampleCreator" by (simp_all add: size sampleCreator_def)
  note n = rollup_inserts_notes [OF c sample_proofs this]
  have cfg: "(if True then cc_outerRollupSize sampleCreator * 2 else cc_innerRollupSize sampleCreator * 2) = 8" by (simp add: sampleCreator_def)
  have "5 \<le> tr_dataStartIndex r \<and> tr_dataStartIndex r mod 8 = 0 \<and> tr_dataStartIndex r < 13"
    using n unfolding size cfg by linarith
  then have start: "tr_dataStartIndex r = 8" by presburger
  have "\<forall>i<length [sampleDao 7, sampleDao 9]. firstNoteOf (\<lambda>c _ _. c) 3 (cs_bridgeCallDatas s) ([sampleClientProof 3 7 0 3 0, sampleClientProof 3 9 0 3 0] ! i)
       (dataLeaf s (nat (tr_dataStartIndex r) + 2 * i))
     \<and> dataLeaf s (nat (tr_dataStartIndex r) + 2 * i + 1) = pd_noteCommitment2 ([sampleClientProof 3 7 0 3 0, sampleClientProof 3 9 0 3 0] ! i)"
    using n by blast
  from this [rule_format, of 0] this [rule_format, of 1] have
    "firstNoteOf (\<lambda>c _ _. c) 3 (cs_bridgeCallDatas s) (sampleClientProof 3 7 0 3 0) (dataLeaf s 8)" "dataLeaf s 11 = byteWord 10"
    by (simp_all add: sample_fields start)
  then show ?thesis using c start by (auto simp: firstNoteOf_def sample_fields)
qed

theorem rollup_nullifier_chain_witness:
  "\<exists>r s. createRollup (\<lambda>a b. a) (\<lambda>c _ _. c) (\<lambda>_. zeros 32) (\<lambda>_. zeros 32) sampleCreator 3 (\<lambda>_. False) [sampleDao 7, sampleDao 9] [] [] True fiveNotes
     = Inr (r, s) \<and> nullifierCheck (\<lambda>a b. a) (zeros 32) (tr_oldNullRoot r) 107 (tr_oldNullPaths r ! 0) (tr_newNullRoots r ! 0)"
proof -
  obtain r s where c: "createRollup (\<lambda>a b. a) (\<lambda>c _ _. c) (\<lambda>_. zeros 32) (\<lambda>_. zeros 32) sampleCreator 3 (\<lambda>_. False) [sampleDao 7, sampleDao 9] [] [] True fiveNotes
     = Inr (r, s)" using sample_rollup by blast
  have b: "toBigIntBE (byteWord 107) = 107" "toBigIntBE (byteWord 109) = 109" "toBigIntBE (zeros 32) = 0"
    by (simp_all add: toBigIntBE_be_value byteWord_def be_value_snoc)
  have ns: "proofNullifiers [sampleClientProof 3 7 0 3 0, sampleClientProof 3 9 0 3 0] = [107, 0, 109, 0]"
    by (simp add: proofNullifiers_def sample_fields b)
  have z: "dbGet fiveNotes t i = zeros 32" for t i by (simp add: dbGet_def fiveNotes_def emptyDb_def Let_def)
  have "unspent fiveNotes (proofNullifiers [sampleClientProof 3 7 0 3 0, sampleClientProof 3 9 0 3 0])" unfolding ns by (simp add: unspent_def z)
  from rollup_nullifier_chain [OF c sample_proofs this, unfolded ns z] c show ?thesis by fastforce
qed

section \<open>Links\<close>

text \<open>C28: The cached backward search for linked commitments gives what a plain search of the data tree gives: the last leaf that holds the link, with its
  path, for every transaction whose link is neither empty nor a commitment of an earlier transaction of the rollup, and the empty path otherwise.\<close>

theorem linked_commitments_found:
  assumes "0 \<le> dbSize d DATA_TREE"
  shows "getLinkedCommitments compress d ps = (map (\<lambda>k. fst (linkOf compress d (take k ps) (ps ! k))) [0..<length ps],
    map (\<lambda>k. snd (linkOf compress d (take k ps) (ps ! k))) [0..<length ps])"
  by (rule getLinkedCommitments_eq [OF assms])

definition sampleLinkDb :: worldDb where
  "sampleLinkDb = wd_put \<lparr>pe_treeId = DATA_TREE, pe_index = 2, pe_value = byteWord 7\<rparr> fiveNotes"

theorem linked_commitments_found_witness:
  "snd (getLinkedCommitments (\<lambda>a b. a) sampleLinkDb [sampleClientProof 3 9 7 3 0, sampleClientProof 3 11 9 3 0]) = [2, 0]"
proof -
  have size: "dbSize sampleLinkDb DATA_TREE = 5"
    by (simp add: dbSize_def sampleLinkDb_def wd_put_def treeUpdate_def fiveNotes_def)
  then have "0 \<le> dbSize sampleLinkDb DATA_TREE" by simp
  have leaf: "dbGet sampleLinkDb DATA_TREE i = (if nat i = 2 then byteWord 7 else zeros 32)" for i
    by (simp add: dbGet_def sampleLinkDb_def wd_put_def treeUpdate_def fiveNotes_def emptyDb_leaf)
  have b: "byteWord 7 \<noteq> zeros 32" "byteWord 9 \<noteq> zeros 32" "zeros 32 \<noteq> byteWord 7" by (simp_all add: byteWord_zeros byteWord_inj)
  have "lastIndexOf (\<lambda>i. dbGet sampleLinkDb DATA_TREE (int i)) (byteWord 7) (nat (dbSize sampleLinkDb DATA_TREE)) = Some 2"
    by (simp add: lastIndexOf_Some size leaf b)
  then have "snd (linkOf (\<lambda>a b. a) sampleLinkDb [] (sampleClientProof 3 9 7 3 0)) = 2"
    "snd (linkOf (\<lambda>a b. a) sampleLinkDb [sampleClientProof 3 9 7 3 0] (sampleClientProof 3 11 9 3 0)) = 0"
    by (simp_all add: linkOf_def sample_fields b)
  then show ?thesis using linked_commitments_found [OF \<open>0 \<le> dbSize sampleLinkDb DATA_TREE\<close>, of "\<lambda>a b. a" "[sampleClientProof 3 9 7 3 0, sampleClientProof 3 11 9 3 0]"]
    by (simp add: upt_rec)
qed

text \<open>The circuit accepts a link that was found: its path leads from the link to the root of the data tree.\<close>

theorem found_link_is_proved:
  assumes "getLinkedCommitments compress d ps = (paths, indices)" "k < length ps" "0 \<le> dbSize d DATA_TREE" "dbSize d DATA_TREE \<le> 2 ^ 32"
    and "pd_backwardLink (ps ! k) \<noteq> zeros 32"
    and "\<forall>q\<in>set (take k ps). pd_backwardLink (ps ! k) \<notin> {pd_noteCommitment1 q, pd_noteCommitment2 q}"
    and "i < nat (dbSize d DATA_TREE)" "dbGet d DATA_TREE (int i) = pd_backwardLink (ps ! k)"
  shows "rootFrom compress (pd_backwardLink (ps ! k)) (nat (indices ! k)) (paths ! k) = dbRoot compress d DATA_TREE"
proof -
  let ?f = "\<lambda>i. dbGet d DATA_TREE (int i)" and ?x = "pd_backwardLink (ps ! k)" and ?n = "nat (dbSize d DATA_TREE)"
  obtain m where m: "lastIndexOf ?f ?x ?n = Some m" using assms(7,8) lastIndexOf_None [of ?f ?x ?n] by fastforce
  then have mn: "m < ?n" "dbGet d DATA_TREE (int m) = ?x" by (simp_all add: lastIndexOf_Some)
  have "(paths ! k, indices ! k) = linkOf compress d (take k ps) (ps ! k)"
    using getLinkedCommitments_eq [OF assms(3), of compress ps] assms(1,2) by simp
  then have "paths ! k = dbPath compress d DATA_TREE (int m)" "indices ! k = int m" using assms(5,6) m by (auto simp: linkOf_def)
  moreover have "int m < 2 ^ treeDepth DATA_TREE" using mn(1) assms(4) by (simp add: treeDepth_def)
  ultimately show ?thesis using rootFrom_leaf [of "int m" DATA_TREE compress d] mn(2) by simp
qed

end
