(* ===== verification/Pipeline.thy ===== *)
theory Pipeline
  imports RollupCreator Blocks Publishing Offchain
begin

text \<open>
  The steps of the sequencer's pipeline around the selection of transactions: the initialisation of the coordinator and its loop
  (\<open>falafel/src/pipeline_coordinator/index.ts\<close>), the claim proofs (\<open>claim_proof_creator.ts\<close>) and the root rollup
  (\<open>rollup_aggregator.ts\<close>). The SQL database and the prover are parameters; the trees are those of \<open>WorldStateDb\<close>.
\<close>

section \<open>Records of the database\<close>

record claimDao =
  cd_id :: int
  cd_nullifier :: buffer
  cd_bridgeId :: int
  cd_depositValue :: int
  cd_partialState :: buffer
  cd_partialStateSecretEphPubKey :: buffer
  cd_inputNullifier :: buffer
  cd_interactionNonce :: int
  cd_fee :: int
  cd_created :: int
  cd_claimed :: "int option"
  cd_interactionResultRollupId :: "int option"

record rollupDao =
  ro_id :: int
  ro_dataRoot :: buffer
  ro_rollupProof :: rollupProofDao
  ro_processRollupCalldata :: "buffer option"
  ro_interactionResult :: "buffer option"
  ro_ethTxHash :: "txHash option"
  ro_gasPrice :: "buffer option"
  ro_gasUsed :: "int option"
  ro_mined :: "int option"
  ro_subtreeRoot :: "buffer option"

definition newRollupDao :: "int \<Rightarrow> buffer \<Rightarrow> rollupProofDao \<Rightarrow> rollupDao" where
  "newRollupDao rollupId dataRoot rollupProof = \<lparr>ro_id = rollupId, ro_dataRoot = dataRoot, ro_rollupProof = rollupProof,
     ro_processRollupCalldata = None, ro_interactionResult = None, ro_ethTxHash = None, ro_gasPrice = None, ro_gasUsed = None,
     ro_mined = None, ro_subtreeRoot = None\<rparr>"

definition parseInteractionResult :: "buffer \<Rightarrow> defiInteractionEvent list res" where
  "parseInteractionResult buf = (if length buf = 0 then Inr []
     else mapR fst (des_deserializeArray DefiInteractionEvent_deserialize (newDeserializer buf 0)))"

section \<open>Claim proofs\<close>

text \<open>The division of \<open>BigInt\<close>s truncates and throws for a zero divisor.\<close>

definition shareOf :: "int \<Rightarrow> int \<Rightarrow> int \<Rightarrow> int res" where
  "shareOf totalOutput v totalInput = (if totalInput = 0 then Inl RangeError else Inr (truncDiv (totalOutput * v) totalInput))"

definition getOutputValues :: "treeClaimNote \<Rightarrow> defiInteractionEvent \<Rightarrow> (int \<times> int) res" where
  "getOutputValues claimNote interactionNote =
     bindE (if \<not> die_result interactionNote then Inr 0
            else shareOf (die_totalOutputValueA interactionNote) (tcn_value claimNote) (die_totalInputValue interactionNote)) (\<lambda>outputValueA.
     bindE (if \<not> die_result interactionNote then Inr 0
            else shareOf (die_totalOutputValueB interactionNote) (tcn_value claimNote) (die_totalInputValue interactionNote)) (\<lambda>outputValueB.
     Inr (outputValueA, outputValueB)))"

definition createClaimProofRequest ::
  "compressFn \<Rightarrow> worldDb \<Rightarrow> buffer \<Rightarrow> buffer \<Rightarrow> claimDao \<Rightarrow> defiInteractionEvent \<Rightarrow> int \<Rightarrow> claimProof res" where
  "createClaimProofRequest compress d dataRoot defiRoot claim interactionEvent interactionNoteIndex =
    (let claimNoteIndex = cd_id claim; claimNotePath = dbPath compress d DATA_TREE claimNoteIndex in
     bindE (BridgeCallData_fromBigInt (cd_bridgeId claim)) (\<lambda>bcd.
     let claimNote = \<lparr>tcn_value = cd_depositValue claim, tcn_bridgeCallData = bcd, tcn_defiInteractionNonce = cd_interactionNonce claim,
           tcn_fee = cd_fee claim, tcn_partialState = cd_partialState claim, tcn_inputNullifier = cd_inputNullifier claim\<rparr>;
         interactionNotePath = dbPath compress d DEFI_TREE interactionNoteIndex in
     bindE (getOutputValues claimNote interactionEvent) (\<lambda>(outputValueA, outputValueB). Inr
       \<lparr>cp_dataRoot = dataRoot, cp_defiRoot = defiRoot, cp_claimNoteIndex = claimNoteIndex, cp_claimNotePath = claimNotePath,
        cp_claimNote = claimNote, cp_defiInteractionNoteIndex = interactionNoteIndex,
        cp_defiInteractionNotePath = interactionNotePath, cp_defiInteractionNote = toDefiInteractionNote interactionEvent,
        cp_outputValueA = outputValueA, cp_outputValueB = outputValueB\<rparr>)))"

text \<open>The request for one claim, with the rollups the database returned. A claim without its rollup or its note throws.\<close>

definition claimRequest :: "compressFn \<Rightarrow> worldDb \<Rightarrow> rollupDao list \<Rightarrow> claimDao \<Rightarrow> claimProof res" where
  "claimRequest compress d rollups claim =
    (case find (\<lambda>rollup. Some (ro_id rollup) = cd_interactionResultRollupId claim) rollups of
       None \<Rightarrow> Inl TypeError
     | Some rollup \<Rightarrow> (case ro_interactionResult rollup of
         None \<Rightarrow> Inl TypeError
       | Some interactionResult \<Rightarrow> bindE (parseInteractionResult interactionResult) (\<lambda>interactionNotes.
           case findIndex (\<lambda>itx. die_nonce itx = cd_interactionNonce claim) interactionNotes of
             None \<Rightarrow> Inl TypeError
           | Some noteIndex \<Rightarrow>
               let interactionIndex = (ro_id rollup + 1) * int NUM_BRIDGE_CALLS_PER_BLOCK + int noteIndex
               in createClaimProofRequest compress d (dbRoot compress d DATA_TREE) (dbRoot compress d DEFI_TREE) claim
                    (interactionNotes ! noteIndex) interactionIndex)))"

definition claimTx :: "(buffer \<Rightarrow> buffer) \<Rightarrow> (buffer \<Rightarrow> int option) \<Rightarrow> int \<Rightarrow> buffer \<Rightarrow> txDao res" where
  "claimTx keccak getDataRootsIndex now claimPrf =
     bindE (newProofData claimPrf None) (\<lambda>p.
     bindE (ProofData_txId keccak p) (\<lambda>(txId, p). Inr
       \<lparr>td_id = txId, td_proofData = claimPrf, td_offchainTxData = [], td_signature = None, td_nullifier1 = Some (pd_nullifier1 p),
        td_nullifier2 = Some (pd_nullifier2 p), td_dataRootsIndex = getDataRootsIndex (pd_noteTreeRoot p), td_txType = TX_DEFI_CLAIM,
        td_created = now, td_mined = None, td_excessGas = 0, td_position = None, td_secondClass = False\<rparr>))"

text \<open>\<open>create\<close> gives the transactions that are added to the database, in order. \<open>getRollups\<close> answers for the ids of the claims,
  each asked for once.\<close>

definition createClaims ::
  "compressFn \<Rightarrow> (buffer \<Rightarrow> buffer) \<Rightarrow> (buffer \<Rightarrow> buffer res) \<Rightarrow> (int list \<Rightarrow> rollupDao list) \<Rightarrow> (buffer \<Rightarrow> int option) \<Rightarrow> int
     \<Rightarrow> worldDb \<Rightarrow> claimDao list \<Rightarrow> txDao list res" where
  "createClaims compress keccak createProof getRollups getDataRootsIndex now d claims =
    (let rollupIds = fold (\<lambda>c ids. case cd_interactionResultRollupId c of None \<Rightarrow> ids | Some i \<Rightarrow> setAdd i ids) claims [];
         rollups = (if claims = [] then [] else getRollups rollupIds) in
     bindE (mapE (\<lambda>claim. bindE (claimRequest compress d rollups claim) (\<lambda>request.
       bindE (ClaimProofRequest_toBuffer request) createProof)) claims) (\<lambda>claimProofs.
     mapE (claimTx keccak getDataRootsIndex now) claimProofs))"

section \<open>The root rollup\<close>

record aggregatorConfig =
  ag_outerRollupSize :: int
  ag_numOuterRollupProofs :: nat
  ag_rollupBeneficiary :: ethAddress

text \<open>With no inner proof \<open>rollupProofs[0].dataStartIndex\<close> throws.\<close>

definition createRootRollup ::
  "compressFn \<Rightarrow> aggregatorConfig \<Rightarrow> int \<Rightarrow> rollupProofDao list \<Rightarrow> buffer \<Rightarrow> hashPath \<Rightarrow> defiInteractionNote list \<Rightarrow> int list
     \<Rightarrow> int list \<Rightarrow> worldDb \<Rightarrow> (rootRollup \<times> worldDb) res" where
  "createRootRollup compress cfg rollupId rollupProofs oldDefiRoot oldDefiPath defiInteractionNotes bridgeCallDatas assetIds d =
    (let newDataRoot = dbRoot compress d DATA_TREE;
         oldDataRootsRoot = dbRoot compress d ROOT_TREE;
         rootTreeSize = dbSize d ROOT_TREE;
         oldDataRootsPath = dbPath compress d ROOT_TREE rootTreeSize in
     bindE (dbPut ROOT_TREE rootTreeSize newDataRoot d) (\<lambda>d.
     let newDataRootsRoot = dbRoot compress d ROOT_TREE; newDefiRoot = dbRoot compress d DEFI_TREE in
     bindE (if length rollupProofs < ag_numOuterRollupProofs cfg
            then bindE (indexE rollupProofs 0) (\<lambda>first.
              dbPut DATA_TREE (rpd_dataStartIndex first + ag_outerRollupSize cfg * 2 - 1) (zeros 32) d)
            else Inr d) (\<lambda>d.
     bindE (mapE (\<lambda>assetId. numToUInt32BE assetId 32) assetIds) (\<lambda>assetIdBufs.
     bindE (mapE DefiInteractionNote_toBuffer defiInteractionNotes) (\<lambda>notes.
     Inr (\<lparr>rr_rollupId = rollupId, rr_proofs = map rpd_encodedProofData rollupProofs, rr_oldDataRootsRoot = oldDataRootsRoot,
       rr_newDataRootsRoot = newDataRootsRoot, rr_oldDataRootsPath = oldDataRootsPath, rr_oldDefiRoot = oldDefiRoot,
       rr_newDefiRoot = newDefiRoot, rr_oldDefiPath = oldDefiPath, rr_bridgeCallDatas = bridgeCallDatas,
       rr_assetIds = assetIdBufs, rr_defiInteractionNotes = notes, rr_rollupBeneficiary = ag_rollupBeneficiary cfg\<rparr>, d))))))"

text \<open>\<open>interrupts\<close> says which of the two checkpoints finds an interrupt. The result is the rollup that is added to the database.\<close>

definition aggregateRollupProofs ::
  "compressFn \<Rightarrow> (buffer \<Rightarrow> buffer) \<Rightarrow> (buffer \<Rightarrow> buffer) \<Rightarrow> (buffer \<Rightarrow> buffer res) \<Rightarrow> aggregatorConfig \<Rightarrow> bool \<times> bool \<Rightarrow> int \<Rightarrow> int
     \<Rightarrow> rollupProofDao list \<Rightarrow> buffer \<Rightarrow> hashPath \<Rightarrow> defiInteractionNote list \<Rightarrow> int list \<Rightarrow> int list \<Rightarrow> worldDb \<Rightarrow> (rollupDao \<times> worldDb) res" where
  "aggregateRollupProofs compress keccak sha256 createProof cfg interrupts now rollupId innerProofs oldDefiRoot oldDefiPath
     defiInteractionNotes bridgeCallDatas assetIds d =
     bindE (createRootRollup compress cfg rollupId innerProofs oldDefiRoot oldDefiPath defiInteractionNotes bridgeCallDatas assetIds d) (\<lambda>(rootRollup, d).
     if fst interrupts then Inl (Thrown ''Interrupted'') else
     bindE (bindE (RootRollupProofRequest_toBuffer rootRollup) createProof) (\<lambda>rootRollupProofBuf.
     if snd interrupts then Inl (Thrown ''Interrupted'') else
     bindE (bindE (RootVerifierProofRequest_toBuffer (RootVerifier rootRollupProofBuf)) createProof) (\<lambda>finalProofData.
     bindE (RollupProofData_fromBuffer finalProofData) (\<lambda>rollupProofData.
     bindE (RollupProofData_toBuffer rollupProofData) (\<lambda>broadcastData.
     let proofBuffer = drop (length broadcastData) finalProofData in
     bindE (RollupProofData_rollupHash keccak sha256 rollupProofData) (\<lambda>rollupHash.
     bindE (RollupProofData_encode rollupProofData) (\<lambda>encoded.
     bindE (indexE innerProofs 0) (\<lambda>first.
     Inr (newRollupDao (rr_rollupId rootRollup) (dbRoot compress d DATA_TREE)
            \<lparr>rpd_id = rollupHash, rpd_txs = concat (map rpd_txs innerProofs), rpd_encodedProofData = encoded @ proofBuffer,
             rpd_rollupSize = ag_outerRollupSize cfg, rpd_dataStartIndex = rpd_dataStartIndex first, rpd_created = now\<rparr>, d)))))))))"

section \<open>The coordinator of the pipeline\<close>

text \<open>\<open>init\<close> inserts the interaction notes of the last settled rollup into the DeFi tree; what it erases from the SQL
  database is left to the database. \<open>noteCommitment\<close> is \<open>noteAlgo.defiInteractionNoteCommitment\<close>.\<close>

definition nextRollupId :: "rollupDao option \<Rightarrow> int" where
  "nextRollupId lastRollup = (case lastRollup of None \<Rightarrow> 0 | Some r \<Rightarrow> ro_id r + 1)"

definition lastInteractionNotes :: "rollupDao option \<Rightarrow> defiInteractionNote list res" where
  "lastInteractionNotes lastRollup = (case lastRollup of None \<Rightarrow> Inr [] | Some r \<Rightarrow> (case ro_interactionResult r of
     None \<Rightarrow> Inl TypeError | Some b \<Rightarrow> mapR (map toDefiInteractionNote) (parseInteractionResult b)))"

definition putInteractionNotes :: "(defiInteractionNote \<Rightarrow> buffer) \<Rightarrow> int \<Rightarrow> defiInteractionNote list \<Rightarrow> worldDb \<Rightarrow> worldDb res" where
  "putInteractionNotes noteCommitment startIndex notes d =
     foldE (\<lambda>d (i, n). dbPut DEFI_TREE (startIndex + int i) (noteCommitment n) d) d (zip [0..<length notes] notes)"

definition pipelineInit ::
  "compressFn \<Rightarrow> (defiInteractionNote \<Rightarrow> buffer) \<Rightarrow> rollupDao option \<Rightarrow> worldDb \<Rightarrow> (buffer \<times> hashPath \<times> defiInteractionNote list \<times> worldDb) res" where
  "pipelineInit compress noteCommitment lastRollup d =
    (let rollupId = nextRollupId lastRollup; startIndex = rollupId * int NUM_BRIDGE_CALLS_PER_BLOCK;
         oldDefiRoot = dbRoot compress d DEFI_TREE; oldDefiPath = dbPath compress d DEFI_TREE startIndex in
     bindE (lastInteractionNotes lastRollup) (\<lambda>notes.
     bindE (putInteractionNotes noteCommitment startIndex notes d) (\<lambda>d. Inr (oldDefiRoot, oldDefiPath, notes, d))))"

definition minTxWaitTimeExceeded :: "int \<Rightarrow> int \<Rightarrow> txDao list \<Rightarrow> bool" where
  "minTxWaitTimeExceeded flushAfterIdle now txs =
    (if flushAfterIdle = 0 \<or> txs = [] then False else now - td_created (last txs) > flushAfterIdle * 1000)"

record pipelineState =
  ps_flush :: bool
  ps_running :: bool
  ps_published :: bool

definition startPipeline :: "pipelineState \<Rightarrow> pipelineState res" where
  "startPipeline s = (if ps_running s then Inl (Thrown ''Pipeline coordinator is already running.'') else Inr (s\<lparr>ps_running := True\<rparr>))"

text \<open>One turn of the loop: \<open>process\<close> is the rollup coordinator's \<open>processPendingTxs\<close>, which says whether a rollup was published or
  throws; an error ends the run.\<close>

definition pipelineTurn :: "(txDao list \<Rightarrow> bool \<Rightarrow> bool res) \<Rightarrow> int \<Rightarrow> int \<Rightarrow> txDao list \<Rightarrow> pipelineState \<Rightarrow> pipelineState res" where
  "pipelineTurn process flushAfterIdle now pendingTxs s =
    (if \<not> ps_running s then Inr s
     else let s = s\<lparr>ps_flush := ps_flush s \<or> minTxWaitTimeExceeded flushAfterIdle now pendingTxs\<rparr> in
       bindE (process pendingTxs (ps_flush s)) (\<lambda>published.
       Inr (if published then s\<lparr>ps_published := True, ps_running := False\<rparr> else s\<lparr>ps_published := False\<rparr>)))"

definition flushTxs :: "pipelineState \<Rightarrow> pipelineState" where
  "flushTxs s = s\<lparr>ps_flush := True\<rparr>"

text \<open>\<open>stop\<close>: \<open>finished\<close> is the state once the loop has ended (it may have published in the meantime).\<close>

definition stopPipeline :: "bool \<Rightarrow> pipelineState \<Rightarrow> unit res" where
  "stopPipeline shouldThrowIfFailToStop finished =
    (if shouldThrowIfFailToStop \<and> ps_published finished then Inl (Thrown ''Pipeline already finished'') else Inr ())"

section \<open>Shares\<close>

lemma sum_list_div:
  assumes "0 < (t :: int)" "\<forall>v\<in>set vs. 0 \<le> v"
  shows "sum_list (map (\<lambda>v. a * v div t) vs) \<le> a * sum_list vs div t"
  using assms
proof (induction vs)
  case (Cons v vs)
  have "a * v div t + a * sum_list vs div t \<le> (a * v + a * sum_list vs) div t"
  proof -
    have "t * (a * v div t) \<le> a * v" "t * (a * sum_list vs div t) \<le> a * sum_list vs"
      using assms(1) by (simp_all add: mult.commute [of t] minus_mod_eq_div_mult [symmetric])
    then have "(a * v div t + a * sum_list vs div t) * t \<le> a * v + a * sum_list vs" by (simp add: algebra_simps)
    then show ?thesis using assms(1) zdiv_mono1 [of "(a * v div t + a * sum_list vs div t) * t" "a * v + a * sum_list vs" t] by simp
  qed
  with Cons show ?case by (simp add: distrib_left)
qed simp

section \<open>Properties\<close>

text \<open>C26: The claims of one interaction never pay out more than the bridge returned: if the deposits of the claims do not exceed the
  interaction's input, the output values of all claim proofs together stay within the interaction's outputs, for both assets.\<close>

theorem claim_outputs_within_total:
  assumes "mapE (\<lambda>n. getOutputValues n e) ns = Inr outputs"
    and "0 < die_totalInputValue e" "0 \<le> die_totalOutputValueA e" "0 \<le> die_totalOutputValueB e"
    and "\<forall>n\<in>set ns. 0 \<le> tcn_value n" "sum_list (map tcn_value ns) \<le> die_totalInputValue e"
  shows "sum_list (map fst outputs) \<le> die_totalOutputValueA e \<and> sum_list (map snd outputs) \<le> die_totalOutputValueB e"
proof (cases "die_result e")
  case False
  then have "\<And>n. getOutputValues n e = Inr (0, 0)" by (simp add: getOutputValues_def)
  then have "outputs = map (\<lambda>n. (0, 0)) ns" using mapE_all_Inr [of ns "\<lambda>n. getOutputValues n e" "\<lambda>_. (0, 0)"] assms(1) by simp
  then show ?thesis using assms(3,4) by (simp add: comp_def sum_list_triv)
next
  case True
  let ?t = "die_totalInputValue e" and ?a = "die_totalOutputValueA e" and ?b = "die_totalOutputValueB e" and ?vs = "map tcn_value ns"
  have "getOutputValues n e = Inr (?a * tcn_value n div ?t, ?b * tcn_value n div ?t)" if "n \<in> set ns" for n
    using that True assms(2-5) by (simp add: getOutputValues_def shareOf_def truncDiv_nonneg)
  then have o: "outputs = map (\<lambda>n. (?a * tcn_value n div ?t, ?b * tcn_value n div ?t)) ns"
    using mapE_all_Inr [of ns "\<lambda>n. getOutputValues n e"] assms(1) by simp
  have "c * sum_list ?vs div ?t \<le> c" if "0 \<le> c" for c
    using that assms(2,6) zdiv_mono1 [OF mult_left_mono [OF assms(6) that] assms(2)] by simp
  moreover have "sum_list (map (\<lambda>v. c * v div ?t) ?vs) \<le> c * sum_list ?vs div ?t" for c
    using assms(2,5) by (intro sum_list_div) simp_all
  ultimately show ?thesis using o assms(3,4) order_trans by (simp add: comp_def) blast
qed

theorem claim_outputs_within_total_witness:
  "\<exists>outputs. mapE (\<lambda>n. getOutputValues n \<lparr>die_bridgeCallData = BridgeCallData_ZERO, die_nonce = 0, die_totalInputValue = 7,
       die_totalOutputValueA = 10, die_totalOutputValueB = 0, die_result = True, die_errorReason = []\<rparr>)
       [\<lparr>tcn_value = 3, tcn_bridgeCallData = BridgeCallData_ZERO, tcn_defiInteractionNonce = 0, tcn_fee = 0, tcn_partialState = [], tcn_inputNullifier = []\<rparr>,
        \<lparr>tcn_value = 4, tcn_bridgeCallData = BridgeCallData_ZERO, tcn_defiInteractionNonce = 0, tcn_fee = 0, tcn_partialState = [], tcn_inputNullifier = []\<rparr>]
     = Inr outputs \<and> map fst outputs = [4, 5] \<and> sum_list (map fst outputs) \<le> 10"
proof -
  let ?e = "\<lparr>die_bridgeCallData = BridgeCallData_ZERO, die_nonce = 0, die_totalInputValue = 7,
       die_totalOutputValueA = 10, die_totalOutputValueB = 0, die_result = True, die_errorReason = []\<rparr>"
  let ?n = "\<lambda>v. \<lparr>tcn_value = v, tcn_bridgeCallData = BridgeCallData_ZERO, tcn_defiInteractionNonce = 0, tcn_fee = 0, tcn_partialState = [], tcn_inputNullifier = []\<rparr>"
  have o: "mapE (\<lambda>n. getOutputValues n ?e) [?n 3, ?n 4] = Inr [(4, 0), (5, 0)]"
    by (simp add: getOutputValues_def shareOf_def truncDiv_def)
  from claim_outputs_within_total [OF o] o show ?thesis by simp
qed

lemma putNotes_leaves:
  assumes "foldE (\<lambda>d (i, n). dbPut DEFI_TREE (start + int i) (noteCommitment n) d) d (zip [k..<k + length ns] ns) = Inr d'"
    and "0 \<le> start"
  shows "(\<forall>i<length ns. dbGet d' DEFI_TREE (start + int (k + i)) = noteCommitment (ns ! i))
    \<and> (\<forall>j. 0 \<le> j \<and> j < start + int k \<longrightarrow> dbGet d' DEFI_TREE j = dbGet d DEFI_TREE j)"
  using assms
proof (induction ns arbitrary: k d)
  case (Cons n ns)
  have z: "zip [k..<k + length (n # ns)] (n # ns) = (k, n) # zip [Suc k..<Suc k + length ns] ns"
    by (subst upt_conv_Cons) simp_all
  from Cons.prems(1) obtain d1 where d1: "dbPut DEFI_TREE (start + int k) (noteCommitment n) d = Inr d1"
    "foldE (\<lambda>d (i, n). dbPut DEFI_TREE (start + int i) (noteCommitment n) d) d1 (zip [Suc k..<Suc k + length ns] ns) = Inr d'"
    unfolding z by (auto simp: bindE_eq_Inr)
  have here: "dbGet d1 DEFI_TREE j = (if start + int k = j then noteCommitment n else dbGet d DEFI_TREE j)" if "0 \<le> j" for j
    using that Cons.prems(2) by (intro dbGet_put [OF d1(1)]) simp_all
  note IH = Cons.IH [OF d1(2) Cons.prems(2)]
  have "dbGet d' DEFI_TREE (start + int (k + i)) = noteCommitment ((n # ns) ! i)" if "i < length (n # ns)" for i
  proof (cases i)
    case 0
    then show ?thesis using IH here [of "start + int k"] Cons.prems(2) by simp
  next
    case (Suc m)
    then have "dbGet d' DEFI_TREE (start + int (Suc k + m)) = noteCommitment (ns ! m)" using IH that by simp
    then show ?thesis using Suc by (simp add: algebra_simps)
  qed
  moreover have "dbGet d' DEFI_TREE j = dbGet d DEFI_TREE j" if "0 \<le> j" "j < start + int k" for j
    using IH here [OF that(1)] that by simp
  ultimately show ?case by blast
qed simp

text \<open>C21: A claim is proved against the tree: when the pipeline was initialised with the rollup whose interaction results the claim refers to, the
  interaction note of the claim proof has the claim's nonce, and its path leads from the note's commitment at its index to the root of the DeFi tree.\<close>

theorem claim_note_in_defi_tree:
  assumes "pipelineInit compress noteCommitment (Some r) d0 = Inr (oldDefiRoot, oldDefiPath, inotes, d)"
    and "claimRequest compress d rollups claim = Inr p" "find (\<lambda>x. Some (ro_id x) = cd_interactionResultRollupId claim) rollups = Some r"
    and "0 \<le> ro_id r" "(ro_id r + 2) * 32 \<le> 2 ^ 30" "length inotes \<le> 32"
  shows "cp_defiInteractionNote p \<in> set inotes \<and> din_nonce (cp_defiInteractionNote p) = cd_interactionNonce claim
    \<and> rootFrom compress (noteCommitment (cp_defiInteractionNote p)) (nat (cp_defiInteractionNoteIndex p)) (cp_defiInteractionNotePath p) = cp_defiRoot p"
proof -
  let ?start = "(ro_id r + 1) * int NUM_BRIDGE_CALLS_PER_BLOCK"
  from assms(1) obtain b es where b: "ro_interactionResult r = Some b" "parseInteractionResult b = Inr es" "inotes = map toDefiInteractionNote es"
    and put: "putInteractionNotes noteCommitment ?start inotes d0 = Inr d"
    by (auto simp: pipelineInit_def Let_def bindE_eq_Inr lastInteractionNotes_def mapR_eq_Inr nextRollupId_def split: option.splits)
  from assms(2,3) b obtain i where i: "findIndex (\<lambda>itx. die_nonce itx = cd_interactionNonce claim) es = Some i"
    and q: "createClaimProofRequest compress d (dbRoot compress d DATA_TREE) (dbRoot compress d DEFI_TREE) claim (es ! i) (?start + int i) = Inr p"
    by (auto simp: claimRequest_def Let_def split: option.splits)
  have es: "i < length es" "die_nonce (es ! i) = cd_interactionNonce claim" using findIndex_Some [OF i] by simp_all
  from q have p: "cp_defiInteractionNote p = toDefiInteractionNote (es ! i)" "cp_defiInteractionNoteIndex p = ?start + int i"
    "cp_defiInteractionNotePath p = dbPath compress d DEFI_TREE (?start + int i)" "cp_defiRoot p = dbRoot compress d DEFI_TREE"
    by (auto simp: createClaimProofRequest_def Let_def bindE_eq_Inr split: prod.splits)
  have s: "0 \<le> ?start" using assms(4) by simp
  have leaf: "dbGet d DEFI_TREE (?start + int i) = noteCommitment (toDefiInteractionNote (es ! i))"
    using putNotes_leaves [of ?start noteCommitment d0 0 inotes d] put s es(1) b(3) by (simp add: putInteractionNotes_def)
  have "treeDepth DEFI_TREE = 30" by (simp add: treeDepth_def DATA_TREE_def NULL_TREE_def ROOT_TREE_def DEFI_TREE_def)
  then have "?start + int i < 2 ^ treeDepth DEFI_TREE" using assms(4-6) es(1) b(3) by (simp add: NUM_BRIDGE_CALLS_PER_BLOCK_def)
  with s rootFrom_leaf [of "?start + int i" DEFI_TREE compress d] have
    "rootFrom compress (noteCommitment (toDefiInteractionNote (es ! i))) (nat (?start + int i)) (dbPath compress d DEFI_TREE (?start + int i)) = dbRoot compress d DEFI_TREE"
    by (simp add: leaf)
  then show ?thesis using es b(3) p by (simp add: toDefiInteractionNote_def [of "es ! i", THEN arg_cong [where f = din_nonce]])
qed

text \<open>The leaves behind the end of a tree are empty: so it is in a new database, and every operation keeps it.\<close>

definition emptyBehind :: "worldTrees \<Rightarrow> bool" where
  "emptyBehind w \<longleftrightarrow> (\<forall>t i. wt_size w t \<le> int i \<longrightarrow> wt_leaf w t i = zeros 32)"

definition dbEmptyBehind :: "worldDb \<Rightarrow> bool" where
  "dbEmptyBehind d \<longleftrightarrow> emptyBehind (wd_current d) \<and> emptyBehind (wd_committed d)"

lemma emptyBehind_update: "emptyBehind w \<Longrightarrow> emptyBehind (treeUpdate t i v w)"
  by (auto simp: emptyBehind_def treeUpdate_def)

lemma dbEmptyBehind_ops:
  assumes "dbEmptyBehind d"
  shows "dbEmptyBehind (wd_put e d)" "dbEmptyBehind (wd_commit d)" "dbEmptyBehind (wd_rollback d)"
    "dbPut t i v d = Inr d' \<Longrightarrow> dbEmptyBehind d'"
  using assms emptyBehind_update by (auto simp: dbEmptyBehind_def wd_put_def wd_commit_def wd_rollback_def dbPut_def split: if_splits)

lemma dbEmptyBehind_new: "dbEmptyBehind emptyDb"
  by (simp add: dbEmptyBehind_def emptyBehind_def emptyDb_def Let_def)

lemma dbGet_behind: "dbEmptyBehind d \<Longrightarrow> dbSize d t \<le> i \<Longrightarrow> 0 \<le> i \<Longrightarrow> dbGet d t i = zeros 32"
  by (simp add: dbEmptyBehind_def emptyBehind_def dbSize_def dbGet_def)

lemma dbPut_size: "dbPut t i v d = Inr d' \<Longrightarrow> 0 \<le> i \<Longrightarrow> dbSize d' u = (if u = t then max (dbSize d t) (i + 1) else dbSize d u)"
  by (auto simp: dbPut_def dbSize_def wd_put_def treeUpdate_def split: if_splits)

lemma createRootRollup_parts:
  assumes "createRootRollup compress cfg rollupId proofs oldDefiRoot oldDefiPath inotes bcds assets d = Inr (r, d')"
  obtains d1 where "dbPut ROOT_TREE (dbSize d ROOT_TREE) (dbRoot compress d DATA_TREE) d = Inr d1"
    "length proofs < ag_numOuterRollupProofs cfg \<Longrightarrow> proofs \<noteq> []
       \<and> dbPut DATA_TREE (rpd_dataStartIndex (hd proofs) + ag_outerRollupSize cfg * 2 - 1) (zeros 32) d1 = Inr d'"
    "\<not> length proofs < ag_numOuterRollupProofs cfg \<Longrightarrow> d' = d1"
    "rr_oldDataRootsRoot r = dbRoot compress d ROOT_TREE" "rr_newDataRootsRoot r = dbRoot compress d1 ROOT_TREE"
    "rr_oldDataRootsPath r = dbPath compress d ROOT_TREE (dbSize d ROOT_TREE)" "rr_proofs r = map rpd_encodedProofData proofs"
  using assms unfolding createRootRollup_def Let_def
  by (auto simp: bindE_eq_Inr indexE_def hd_conv_nth split: if_splits)

text \<open>C27: The root rollup appends the new data root to the tree of data roots: the path handed to the circuit leads from the empty next leaf to
  the old root and from the data root to the new one, which is the root of the tree afterwards. A rollup with fewer inner proofs than it has room for
  is padded: the data tree is grown to the end of the rollup, with no leaf and so no root changed, if it did not reach that far; a full
  rollup leaves the data tree as it is. It is relied on that the leaves behind the end of a tree are empty, which every
  operation on the trees keeps (\<open>dbEmptyBehind_ops\<close>), and that the tree of data roots has room.\<close>

theorem root_rollup_extends_roots:
  assumes "createRootRollup compress cfg rollupId proofs oldDefiRoot oldDefiPath inotes bcds assets d = Inr (r, d')"
    and "dbEmptyBehind d" "0 \<le> dbSize d ROOT_TREE" "dbSize d ROOT_TREE < 2 ^ 28" "0 \<le> dbSize d DATA_TREE"
  defines "finish \<equiv> rpd_dataStartIndex (hd proofs) + ag_outerRollupSize cfg * 2" and "padded \<equiv> length proofs < ag_numOuterRollupProofs cfg"
  assumes "padded \<Longrightarrow> dbSize d DATA_TREE < finish"
  shows "rootFrom compress (zeros 32) (nat (dbSize d ROOT_TREE)) (rr_oldDataRootsPath r) = rr_oldDataRootsRoot r
    \<and> rootFrom compress (dbRoot compress d DATA_TREE) (nat (dbSize d ROOT_TREE)) (rr_oldDataRootsPath r) = rr_newDataRootsRoot r
    \<and> rr_oldDataRootsRoot r = dbRoot compress d ROOT_TREE \<and> rr_newDataRootsRoot r = dbRoot compress d' ROOT_TREE
    \<and> dbSize d' ROOT_TREE = dbSize d ROOT_TREE + 1 \<and> dbGet d' ROOT_TREE (dbSize d ROOT_TREE) = dbRoot compress d' DATA_TREE
    \<and> dbSize d' DATA_TREE = (if padded then finish else dbSize d DATA_TREE) \<and> (\<forall>i\<ge>0. dbGet d' DATA_TREE i = dbGet d DATA_TREE i)
    \<and> dbRoot compress d' DATA_TREE = dbRoot compress d DATA_TREE"
proof -
  let ?n = "dbSize d ROOT_TREE" and ?v = "dbRoot compress d DATA_TREE"
  obtain d1 where d1: "dbPut ROOT_TREE ?n ?v d = Inr d1"
    and pad: "padded \<Longrightarrow> dbPut DATA_TREE (finish - 1) (zeros 32) d1 = Inr d'" and full: "\<not> padded \<Longrightarrow> d' = d1"
    and r: "rr_oldDataRootsRoot r = dbRoot compress d ROOT_TREE" "rr_newDataRootsRoot r = dbRoot compress d1 ROOT_TREE"
      "rr_oldDataRootsPath r = dbPath compress d ROOT_TREE ?n"
    using createRootRollup_parts [OF assms(1)] unfolding finish_def padded_def by metis
  have bound: "0 \<le> ?n" "?n < 2 ^ treeDepth ROOT_TREE"
    using assms(3,4) by (simp_all add: treeDepth_def DATA_TREE_def NULL_TREE_def ROOT_TREE_def)
  have last: "dbGet d DATA_TREE (finish - 1) = zeros 32" if padded
    using dbGet_behind [OF assms(2)] assms(5,8) that by simp
  have leaf1: "wt_leaf (wd_current d1) DATA_TREE = wt_leaf (wd_current d) DATA_TREE" using dbPut_leaf [OF d1] by simp
  have p: "wt_leaf (wd_current d') DATA_TREE = wt_leaf (wd_current d) DATA_TREE \<and> wt_leaf (wd_current d') ROOT_TREE = wt_leaf (wd_current d1) ROOT_TREE
    \<and> dbSize d' DATA_TREE = finish \<and> dbSize d' ROOT_TREE = dbSize d1 ROOT_TREE" if padded
  proof -
    have "wt_leaf (wd_current d) DATA_TREE (nat (finish - 1)) = zeros 32" using last [OF that] by (simp add: dbGet_def)
    then have "(wt_leaf (wd_current d1) DATA_TREE)(nat (finish - 1) := zeros 32) = wt_leaf (wd_current d) DATA_TREE"
      by (simp only: leaf1 fun_upd_idem)
    moreover have "0 \<le> finish - 1" "dbSize d DATA_TREE < finish" using assms(5,8) that by simp_all
    ultimately show ?thesis
      using dbPut_leaf [OF pad [OF that]] dbPut_size [OF pad [OF that]] dbPut_size [OF d1 assms(3)] not_sym [OF trees_distinct(3)] by simp
  qed
  have leaf': "wt_leaf (wd_current d') DATA_TREE = wt_leaf (wd_current d) DATA_TREE" "wt_leaf (wd_current d') ROOT_TREE = wt_leaf (wd_current d1) ROOT_TREE"
    and size': "dbSize d' DATA_TREE = (if padded then finish else dbSize d DATA_TREE)" "dbSize d' ROOT_TREE = ?n + 1"
    using p full leaf1 dbPut_size [OF d1 assms(3)] assms(3) by (cases padded; simp)+
  have "dbGet d1 ROOT_TREE ?n = ?v" using dbGet_put [OF d1 assms(3,3)] by simp
  then show ?thesis
    using rootFrom_leaf [OF bound, of compress d] rootFrom_put [OF bound d1, of compress] dbGet_behind [OF assms(2) order_refl assms(3)] leaf' size' r
    by (simp add: dbRoot_def treeRoot_def dbGet_def)
qed

section \<open>Samples\<close>

definition sampleEvent :: defiInteractionEvent where
  "sampleEvent = \<lparr>die_bridgeCallData = BridgeCallData_ZERO, die_nonce = 65, die_totalInputValue = 7,
     die_totalOutputValueA = 10, die_totalOutputValueB = 0, die_result = True, die_errorReason = []\<rparr>"

definition sampleRollupProof :: rollupProofDao where
  "sampleRollupProof = \<lparr>rpd_id = zeros 32, rpd_txs = [], rpd_encodedProofData = [1], rpd_rollupSize = 4, rpd_dataStartIndex = 0, rpd_created = 0\<rparr>"

definition sampleClaim :: claimDao where
  "sampleClaim = \<lparr>cd_id = 3, cd_nullifier = zeros 32, cd_bridgeId = 0, cd_depositValue = 7, cd_partialState = zeros 32,
     cd_partialStateSecretEphPubKey = [], cd_inputNullifier = zeros 32, cd_interactionNonce = 65, cd_fee = 0, cd_created = 0,
     cd_claimed = None, cd_interactionResultRollupId = Some 2\<rparr>"

lemma sample_result: "\<exists>b. parseInteractionResult b = Inr [sampleEvent]"
proof -
  have v: "valid_interactionEvent sampleEvent"
    by (simp add: valid_interactionEvent_def sampleEvent_def valid_bridgeCallData_def newBridgeCallData_def BridgeCallData_ZERO_def u32_def word32_def)
  have "isOk (DefiInteractionEvent_toBuffer sampleEvent)"
    by (simp add: DefiInteractionEvent_toBuffer_def sampleEvent_def ser_uInt32_def ser_bool_def ser_vector_def numToUInt32BE_ok u32_def
        boolToByte_def writeUInt8_def serializeBufferToVector_def writeUInt32BE_def del: be_bytes.simps)
  then obtain e where e: "DefiInteractionEvent_toBuffer sampleEvent = Inr e" by (auto simp: isOk_iff)
  have "isOk (serializeBufferArrayToVector [e])" by (simp add: serializeBufferArrayToVector_def writeUInt32BE_def del: be_bytes.simps)
  then obtain b where b: "serializeBufferArrayToVector [e] = Inr b" by (auto simp: isOk_iff)
  have "reads (deserializeArrayFromVector DefiInteractionEvent_deserialize) [sampleEvent] b"
    using reads_interactionEvent [OF v e] by (intro reads_array [OF _ b]) simp
  from readsD [OF this, of "[]" 0 "[]"] have "des_deserializeArray DefiInteractionEvent_deserialize (newDeserializer b 0)
      = Inr ([sampleEvent], newDeserializer b (length b))"
    by (simp add: des_deserializeArray_def des_exec_def newDeserializer_def)
  moreover from b obtain l where "writeUInt32BE 1 = Inr l" "b = l @ e" by (auto simp: serializeBufferArrayToVector_def mapR_eq_Inr)
  then have "length b \<noteq> 0" using writeUInt32BE_length by fastforce
  ultimately have "parseInteractionResult b = Inr [sampleEvent]" by (simp add: parseInteractionResult_def)
  then show ?thesis ..
qed

theorem claim_note_in_defi_tree_witness:
  "\<exists>r p d. pipelineInit sampleCompress (\<lambda>n. be_bytes 32 (nat (din_nonce n))) (Some r) emptyDb = d \<and> isOk d
     \<and> claimRequest sampleCompress (snd (snd (snd (projr d)))) [r] sampleClaim = Inr p \<and> cp_defiInteractionNoteIndex p = 96
     \<and> rootFrom sampleCompress (be_bytes 32 65) 96 (cp_defiInteractionNotePath p) = cp_defiRoot p"
proof -
  obtain b where b: "parseInteractionResult b = Inr [sampleEvent]" using sample_result by blast
  define r where "r = (newRollupDao 2 (zeros 32) sampleRollupProof)\<lparr>ro_interactionResult := Some b\<rparr>"
  let ?c = "\<lambda>n. be_bytes 32 (nat (din_nonce n))"
  obtain d where "dbPut DEFI_TREE 96 (?c (toDefiInteractionNote sampleEvent)) emptyDb = Inr d"
    by (simp add: dbPut_def del: be_bytes.simps)
  then have "putInteractionNotes ?c 96 [toDefiInteractionNote sampleEvent] emptyDb = Inr d"
    by (simp add: putInteractionNotes_def del: be_bytes.simps)
  moreover have "nextRollupId (Some r) * int NUM_BRIDGE_CALLS_PER_BLOCK = 96" "lastInteractionNotes (Some r) = Inr [toDefiInteractionNote sampleEvent]"
    by (simp_all add: nextRollupId_def lastInteractionNotes_def r_def newRollupDao_def b NUM_BRIDGE_CALLS_PER_BLOCK_def)
  ultimately have d: "pipelineInit sampleCompress ?c (Some r) emptyDb
      = Inr (dbRoot sampleCompress emptyDb DEFI_TREE, dbPath sampleCompress emptyDb DEFI_TREE 96, [toDefiInteractionNote sampleEvent], d)"
    unfolding pipelineInit_def Let_def by (simp only: bindE_Inr)
  have "isOk (BridgeCallData_fromBigInt 0)" by code_simp
  then obtain bcd where bcd: "BridgeCallData_fromBigInt 0 = Inr bcd" by (auto simp: isOk_iff)
  have "isOk (claimRequest sampleCompress d [r] sampleClaim)"
    by (simp add: claimRequest_def r_def newRollupDao_def sampleClaim_def b sampleEvent_def createClaimProofRequest_def Let_def
        getOutputValues_def shareOf_def bcd)
  then obtain p where p: "claimRequest sampleCompress d [r] sampleClaim = Inr p" by (auto simp: isOk_iff)
  have i: "cp_defiInteractionNoteIndex p = 96" "cp_defiInteractionNote p = toDefiInteractionNote sampleEvent"
    using p by (auto simp: claimRequest_def r_def newRollupDao_def sampleClaim_def b sampleEvent_def createClaimProofRequest_def Let_def
        NUM_BRIDGE_CALLS_PER_BLOCK_def bindE_eq_Inr split: prod.splits)
  have "find (\<lambda>x. Some (ro_id x) = cd_interactionResultRollupId sampleClaim) [r] = Some r" "0 \<le> ro_id r" "(ro_id r + 2) * 32 \<le> 2 ^ 30"
    "length [toDefiInteractionNote sampleEvent] \<le> 32" by (simp_all add: r_def newRollupDao_def sampleClaim_def)
  from claim_note_in_defi_tree [OF d p this] have "rootFrom sampleCompress (be_bytes 32 65) 96 (cp_defiInteractionNotePath p) = cp_defiRoot p"
    unfolding i by (simp add: toDefiInteractionNote_def sampleEvent_def del: be_bytes.simps)
  with d p i(1) show ?thesis by (intro exI [of _ r] exI [of _ p] exI) auto
qed

text \<open>A padded rollup, and a full one of the configuration with room for one transaction, whose last note is the last leaf.\<close>

lemma sample_root_rollup:
  assumes "\<forall>i. length (wt_leaf (wd_current d) DATA_TREE i) = 32"
  shows "\<exists>r d'. createRootRollup sampleCompress \<lparr>ag_outerRollupSize = s, ag_numOuterRollupProofs = n, ag_rollupBeneficiary = EthAddress_ZERO\<rparr> 0
      [sampleRollupProof] (zeros 32) [] [] [] [] d = Inr (r, d')"
proof -
  have "length (dbRoot sampleCompress d DATA_TREE) = 32"
    unfolding dbRoot_def treeRoot_def by (rule nodeHash_32) (use assms sampleCompress_32 in auto)
  then show ?thesis by (simp add: createRootRollup_def Let_def dbPut_def)
qed

theorem root_rollup_extends_roots_witness:
  "(\<exists>r d'. createRootRollup sampleCompress \<lparr>ag_outerRollupSize = 4, ag_numOuterRollupProofs = 2, ag_rollupBeneficiary = EthAddress_ZERO\<rparr> 0
      [sampleRollupProof] (zeros 32) [] [] [] [] emptyDb = Inr (r, d') \<and> rr_newDataRootsRoot r = dbRoot sampleCompress d' ROOT_TREE
      \<and> dbSize d' DATA_TREE = 8)
   \<and> (\<exists>d r d'. dbPut DATA_TREE 1 (byteWord 7) emptyDb = Inr d
      \<and> createRootRollup sampleCompress \<lparr>ag_outerRollupSize = 1, ag_numOuterRollupProofs = 1, ag_rollupBeneficiary = EthAddress_ZERO\<rparr> 0
      [sampleRollupProof] (zeros 32) [] [] [] [] d = Inr (r, d') \<and> dbGet d' DATA_TREE 1 = byteWord 7 \<and> dbSize d' DATA_TREE = 2)"
proof -
  have z: "dbSize emptyDb t = 0" for t by (simp add: dbSize_def emptyDb_def Let_def)
  have l: "length (wt_leaf (wd_current emptyDb) t i) = 32" for t i by (simp add: emptyDb_leaf)
  obtain r d' where c: "createRootRollup sampleCompress \<lparr>ag_outerRollupSize = 4, ag_numOuterRollupProofs = 2, ag_rollupBeneficiary = EthAddress_ZERO\<rparr> 0
      [sampleRollupProof] (zeros 32) [] [] [] [] emptyDb = Inr (r, d')"
    using sample_root_rollup [of emptyDb] l by blast
  have 1: "rr_newDataRootsRoot r = dbRoot sampleCompress d' ROOT_TREE \<and> dbSize d' DATA_TREE = 8"
    using root_rollup_extends_roots [OF c dbEmptyBehind_new] by (simp add: z) (simp add: sampleRollupProof_def)
  obtain e where e: "dbPut DATA_TREE 1 (byteWord 7) emptyDb = Inr e" by (simp add: dbPut_def byteWord_def)
  have le: "length (wt_leaf (wd_current e) t i) = 32" for t i using dbPut_leaf [OF e] l by (simp add: byteWord_def)
  obtain q e' where q: "createRootRollup sampleCompress \<lparr>ag_outerRollupSize = 1, ag_numOuterRollupProofs = 1, ag_rollupBeneficiary = EthAddress_ZERO\<rparr> 0
      [sampleRollupProof] (zeros 32) [] [] [] [] e = Inr (q, e')"
    using sample_root_rollup [of e] le by blast
  have se: "dbSize e DATA_TREE = 2" "dbSize e ROOT_TREE = 0" using dbPut_size [OF e] not_sym [OF trees_distinct(3)] by (simp_all add: z)
  have ge: "dbGet e DATA_TREE 1 = byteWord 7" using dbGet_put [OF e] by simp
  have 2: "dbGet e' DATA_TREE 1 = byteWord 7 \<and> dbSize e' DATA_TREE = 2"
    using root_rollup_extends_roots [OF q dbEmptyBehind_ops(4) [OF dbEmptyBehind_new e]] by (simp add: se ge)
  show ?thesis using c 1 e q 2 by blast
qed

end
