(* ===== verification/Publisher.thy ===== *)
theory Publisher
  imports ChainBlocks Pipeline
begin

text \<open>
  The publication of a rollup (\<open>falafel/src/rollup_publisher.ts\<close>): the transactions made for it are sent to the chain
  and their receipts awaited until all succeeded or the contract's state has changed. What the chain answers depends on
  what has happened so far, so the answers (\<open>publishEnv\<close>) are functions of the history of a call, a list of events that
  grows as the code runs; the fee, balance and nonce queries are taken to answer. Sending and awaiting a receipt are repeated
  while they throw. A loop that never ends has no result (\<open>None\<close>).
\<close>

section \<open>The chain\<close>

datatype txReceipt = Mined | Reverted "string option"

text \<open>The index of the transaction among those to publish is part of the events it causes.\<close>

datatype publishEvent =
    Slept
  | SentTx nat buffer int txHash
  | ConfirmSent txHash
  | GotReceipt nat txHash txReceipt

type_synonym history = "publishEvent list"

record publishEnv =
  pe_baseFeePerGas :: "history \<Rightarrow> int"
  pe_balance :: "history \<Rightarrow> int"
  pe_transactionCount :: "history \<Rightarrow> int"
  pe_sendTx :: "history \<Rightarrow> buffer \<Rightarrow> int \<Rightarrow> txHash option"
  pe_receipt :: "history \<Rightarrow> txHash \<Rightarrow> txReceipt option"

record publisherConfig =
  pb_maxFeePerGas :: int
  pb_maxPriorityFeePerGas :: int
  pb_callDataLimit :: nat

record txStatus =
  ts_success :: bool
  ts_txHash :: "txHash option"
  ts_tx :: buffer

section \<open>The loops\<close>

definition readyToSend :: "publishEnv \<Rightarrow> publisherConfig \<Rightarrow> int \<Rightarrow> history \<Rightarrow> bool" where
  "readyToSend env c estimatedGas h =
    (let estimatedFeePerGas = pe_baseFeePerGas env h + pb_maxPriorityFeePerGas c;
         currentBalance = pe_balance env h;
         requiredBalance = pb_maxFeePerGas c * estimatedGas
     in \<not> estimatedFeePerGas > pb_maxFeePerGas c \<and> \<not> currentBalance < requiredBalance)"

partial_function (option) awaitGasPriceBelowThresholdAndSufficientBalance ::
  "publishEnv \<Rightarrow> publisherConfig \<Rightarrow> int \<Rightarrow> history \<Rightarrow> history option" where
  "awaitGasPriceBelowThresholdAndSufficientBalance env c estimatedGas h =
    (if readyToSend env c estimatedGas h then Some h
     else awaitGasPriceBelowThresholdAndSufficientBalance env c estimatedGas (h @ [Slept]))"

partial_function (option) sendTx :: "publishEnv \<Rightarrow> nat \<Rightarrow> buffer \<Rightarrow> int \<Rightarrow> history \<Rightarrow> (txHash \<times> history) option" where
  "sendTx env i tx nonce h = (case pe_sendTx env h tx nonce of
     Some txHash \<Rightarrow> Some (txHash, h @ [SentTx i tx nonce txHash])
   | None \<Rightarrow> sendTx env i tx nonce (h @ [Slept]))"

partial_function (option) getTransactionReceipt ::
  "publishEnv \<Rightarrow> nat \<Rightarrow> txHash \<Rightarrow> history \<Rightarrow> (txReceipt \<times> history) option" where
  "getTransactionReceipt env i txHash h = (case pe_receipt env h txHash of
     Some receipt \<Rightarrow> Some (receipt, h @ [GotReceipt i txHash receipt])
   | None \<Rightarrow> getTransactionReceipt env i txHash (h @ [Slept]))"

text \<open>The loop over the statuses that sends what has not succeeded yet.\<close>

fun sendTxs :: "publishEnv \<Rightarrow> nat \<Rightarrow> txStatus list \<Rightarrow> int \<Rightarrow> history \<Rightarrow> (txStatus list \<times> history) option" where
  "sendTxs env i [] nonce h = Some ([], h)"
| "sendTxs env i (st # sts) nonce h =
    (if ts_success st
     then Option.bind (sendTxs env (Suc i) sts nonce h) (\<lambda>(sts, h). Some (st # sts, h))
     else Option.bind (sendTx env i (ts_tx st) nonce h) (\<lambda>(txHash, h).
          Option.bind (sendTxs env (Suc i) sts (nonce + 1) h) (\<lambda>(sts, h).
            Some (st\<lparr>ts_txHash := Some txHash\<rparr> # sts, h))))"

datatype checkResult = AllSucceeded | ResendTxs | StateChanged

text \<open>The loop over the statuses that awaits their receipts, left at the first failure.\<close>

fun checkReceipts :: "publishEnv \<Rightarrow> nat \<Rightarrow> txStatus list \<Rightarrow> history \<Rightarrow> (checkResult \<times> txStatus list \<times> history) option" where
  "checkReceipts env i [] h = Some (AllSucceeded, [], h)"
| "checkReceipts env i (st # sts) h =
    (if ts_success st
     then Option.bind (checkReceipts env (Suc i) sts h) (\<lambda>(r, sts, h). Some (r, st # sts, h))
     else Option.bind (getTransactionReceipt env i (the (ts_txHash st)) h) (\<lambda>(receipt, h).
          case receipt of
            Mined \<Rightarrow> Option.bind (checkReceipts env (Suc i) sts h) (\<lambda>(r, sts, h).
              Some (r, st\<lparr>ts_success := True\<rparr> # sts, h))
          | Reverted revertError \<Rightarrow>
              if revertError = Some ''INCORRECT_STATE_HASH'' then Some (StateChanged, st # sts, h)
              else Some (ResendTxs, st # sts, h @ [Slept])))"

partial_function (option) publishLoop ::
  "publishEnv \<Rightarrow> publisherConfig \<Rightarrow> int \<Rightarrow> txStatus list \<Rightarrow> history \<Rightarrow> (bool \<times> history) option" where
  "publishLoop env c estimatedGas sts h =
     Option.bind (awaitGasPriceBelowThresholdAndSufficientBalance env c estimatedGas h) (\<lambda>h.
     Option.bind (sendTxs env 0 sts (pe_transactionCount env h) h) (\<lambda>(sts, h).
     Option.bind (checkReceipts env 0 sts (h @ [ConfirmSent (the (ts_txHash (last sts)))])) (\<lambda>(r, sts, h).
       case r of AllSucceeded \<Rightarrow> Some (True, h) | StateChanged \<Rightarrow> Some (False, h)
       | ResendTxs \<Rightarrow> publishLoop env c estimatedGas sts h)))"

definition unsentTx :: "buffer \<Rightarrow> txStatus" where
  "unsentTx tx = \<lparr>ts_success = False, ts_txHash = None, ts_tx = tx\<rparr>"

section \<open>The rollup's transactions\<close>

text \<open>A signature is published for a deposit whose owner has not approved the proof on the chain.\<close>

definition unapprovedSignature :: "(buffer \<Rightarrow> buffer) \<Rightarrow> (ethAddress \<Rightarrow> buffer \<Rightarrow> bool) \<Rightarrow> txDao \<Rightarrow> buffer list res" where
  "unapprovedSignature keccak getUserProofApprovalStatus tx = (case td_signature tx of
     None \<Rightarrow> Inr []
   | Some signature \<Rightarrow>
       bindE (newProofData (td_proofData tx) None) (\<lambda>p.
       bindE (JoinSplit_publicOwner p) (\<lambda>publicOwner.
       bindE (ProofData_txId keccak p) (\<lambda>(txId, _).
         Inr (if getUserProofApprovalStatus publicOwner txId then [] else [signature])))))"

definition createTxData ::
  "abi \<Rightarrow> (buffer \<Rightarrow> buffer) \<Rightarrow> (ethAddress \<Rightarrow> buffer \<Rightarrow> bool) \<Rightarrow> nat \<Rightarrow> rollupDao \<Rightarrow> rollupTxs res" where
  "createTxData abi keccak getUserProofApprovalStatus callDataLimit rollup =
    (let txs = rpd_txs (ro_rollupProof rollup);
         offchainTxData = map td_offchainTxData txs
     in bindE (mapE (unapprovedSignature keccak getUserProofApprovalStatus) txs) (\<lambda>signatures.
          createRollupTxs abi (rpd_encodedProofData (ro_rollupProof rollup)) (concat signatures) offchainTxData callDataLimit))"

text \<open>The first component is the call data stored in the database.\<close>

definition publishRollup ::
  "publishEnv \<Rightarrow> publisherConfig \<Rightarrow> abi \<Rightarrow> (buffer \<Rightarrow> buffer) \<Rightarrow> (ethAddress \<Rightarrow> buffer \<Rightarrow> bool) \<Rightarrow> rollupDao \<Rightarrow> int
     \<Rightarrow> (buffer \<times> (bool \<times> history) option) res" where
  "publishRollup env c abi keccak getUserProofApprovalStatus rollup estimatedGas =
     bindE (createTxData abi keccak getUserProofApprovalStatus (pb_callDataLimit c) rollup) (\<lambda>rollupTxs.
       Inr (rtx_rollupProofTx rollupTxs,
         publishLoop env c estimatedGas
           (map unsentTx (rtx_offchainDataTxs rollupTxs) @ [unsentTx (rtx_rollupProofTx rollupTxs)]) []))"

section \<open>What a history says\<close>

text \<open>An event of a history is an answer of the chain at that point.\<close>

fun genuine :: "publishEnv \<Rightarrow> history \<Rightarrow> publishEvent \<Rightarrow> bool" where
  "genuine env h (SentTx i tx nonce txHash) = (pe_sendTx env h tx nonce = Some txHash)"
| "genuine env h (GotReceipt i txHash receipt) = (pe_receipt env h txHash = Some receipt)"
| "genuine env h _ = True"

inductive extends :: "publishEnv \<Rightarrow> history \<Rightarrow> history \<Rightarrow> bool" for env where
  extends_refl: "extends env h h"
| extends_step: "extends env h h' \<Longrightarrow> genuine env h' e \<Longrightarrow> extends env h (h' @ [e])"

lemma extends_trans: "extends env h2 h3 \<Longrightarrow> extends env h1 h2 \<Longrightarrow> extends env h1 h3"
  by (induction rule: extends.induct) (auto intro: extends.intros)

lemma extends_sleep: "extends env h (h @ replicate k Slept)"
proof (induction k)
  case (Suc k)
  show ?case using extends_step [OF Suc, of Slept] by (simp add: replicate_append_same [symmetric])
qed (simp add: extends_refl)

lemma extends_prefix: "extends env h h' \<Longrightarrow> \<exists>es. h' = h @ es"
  by (induction rule: extends.induct) auto

definition mined :: "nat \<Rightarrow> history \<Rightarrow> bool" where
  "mined i h \<longleftrightarrow> (\<exists>txHash. GotReceipt i txHash Mined \<in> set h)"

definition sentAs :: "nat \<Rightarrow> buffer \<Rightarrow> txHash \<Rightarrow> history \<Rightarrow> bool" where
  "sentAs i tx txHash h \<longleftrightarrow> (\<exists>nonce. SentTx i tx nonce txHash \<in> set h)"

definition neverResent :: "history \<Rightarrow> bool" where
  "neverResent h \<longleftrightarrow> (\<forall>p i tx nonce txHash q. h = p @ SentTx i tx nonce txHash # q \<longrightarrow> \<not> mined i p)"

lemma mined_append [simp]: "mined i (h @ es) \<longleftrightarrow> mined i h \<or> mined i es"
  and sentAs_append [simp]: "sentAs i tx txHash (h @ es) \<longleftrightarrow> sentAs i tx txHash h \<or> sentAs i tx txHash es"
  by (auto simp: mined_def sentAs_def)

lemma neverResent_append:
  assumes "neverResent h" "\<And>i tx nonce txHash. SentTx i tx nonce txHash \<in> set es \<Longrightarrow> \<not> mined i (h @ es)"
  shows "neverResent (h @ es)"
  unfolding neverResent_def
proof (intro allI impI)
  fix p i tx nonce txHash q assume e: "h @ es = p @ SentTx i tx nonce txHash # q"
  show "\<not> mined i p"
  proof (cases "length p < length h")
    case True
    then obtain r where r: "h = p @ SentTx i tx nonce txHash # r"
      using e by (metis append_eq_append_conv_if append_take_drop_id drop_eq_Nil hd_drop_conv_nth length_append
          list.sel(1) not_le nth_append_length Cons_nth_drop_Suc nth_append)
    then show ?thesis using assms(1) unfolding neverResent_def by blast
  next
    case False
    then obtain r where r: "p = h @ r" using e by (auto simp: append_eq_append_conv2)
    then have "es = r @ SentTx i tx nonce txHash # q" using e by simp
    moreover from this have "\<not> mined i (h @ es)" by (intro assms(2) [of i tx nonce txHash]) simp
    ultimately show ?thesis using r by simp
  qed
qed

section \<open>What the loops do to the history\<close>

lemmas await_induct = awaitGasPriceBelowThresholdAndSufficientBalance.raw_induct [rotated, consumes 1, case_names step]
lemmas sendTx_induct = sendTx.raw_induct [rotated, consumes 1, case_names step]
lemmas getTransactionReceipt_induct = getTransactionReceipt.raw_induct [rotated, consumes 1, case_names step]
lemmas publishLoop_induct = publishLoop.raw_induct [rotated, consumes 1, case_names step]

lemma replicate_Slept: "(h @ [Slept]) @ replicate k Slept = h @ replicate (Suc k) Slept"
  by simp

lemma await_sleeps:
  "awaitGasPriceBelowThresholdAndSufficientBalance env c g h = Some h' \<Longrightarrow> \<exists>k. h' = h @ replicate k Slept"
proof (induction rule: await_induct)
  case (step await env c g h h')
  show ?case
  proof (cases "readyToSend env c g h")
    case True
    then show ?thesis using step(2) by (intro exI [of _ 0]) simp
  next
    case False
    then show ?thesis using step replicate_Slept by (metis (full_types))
  qed
qed

lemma sendTx_sends:
  "sendTx env i tx nonce h = Some y \<Longrightarrow>
     \<exists>k. snd y = h @ replicate k Slept @ [SentTx i tx nonce (fst y)] \<and> pe_sendTx env (h @ replicate k Slept) tx nonce = Some (fst y)"
proof (induction rule: sendTx_induct)
  case (step send env i tx nonce h y)
  show ?case
  proof (cases "pe_sendTx env h tx nonce")
    case None
    then obtain k where "snd y = (h @ [Slept]) @ replicate k Slept @ [SentTx i tx nonce (fst y)]"
      "pe_sendTx env ((h @ [Slept]) @ replicate k Slept) tx nonce = Some (fst y)" using step by fastforce
    then show ?thesis unfolding append_assoc [symmetric] replicate_Slept by (intro exI [of _ "Suc k"]) simp
  next
    case (Some txHash)
    then show ?thesis using step(2) by (intro exI [of _ 0]) auto
  qed
qed

lemma getTransactionReceipt_gets:
  "getTransactionReceipt env i txHash h = Some y \<Longrightarrow>
     \<exists>k. snd y = h @ replicate k Slept @ [GotReceipt i txHash (fst y)] \<and> pe_receipt env (h @ replicate k Slept) txHash = Some (fst y)"
proof (induction rule: getTransactionReceipt_induct)
  case (step get env i txHash h y)
  show ?case
  proof (cases "pe_receipt env h txHash")
    case None
    then obtain k where "snd y = (h @ [Slept]) @ replicate k Slept @ [GotReceipt i txHash (fst y)]"
      "pe_receipt env ((h @ [Slept]) @ replicate k Slept) txHash = Some (fst y)" using step by fastforce
    then show ?thesis unfolding append_assoc [symmetric] replicate_Slept by (intro exI [of _ "Suc k"]) simp
  next
    case (Some r)
    then show ?thesis using step(2) by (intro exI [of _ 0]) auto
  qed
qed

text \<open>The part of a status that a loop may change, and what it may add to the history.\<close>

definition sends :: "nat \<Rightarrow> txStatus list \<Rightarrow> history \<Rightarrow> bool" where
  "sends i sts es \<longleftrightarrow> (\<forall>e\<in>set es. e = Slept
     \<or> (\<exists>j<length sts. \<exists>nonce txHash. e = SentTx (i + j) (ts_tx (sts ! j)) nonce txHash \<and> \<not> ts_success (sts ! j)))"

lemma sends_Cons: "sends (Suc i) sts es \<Longrightarrow> sends i (st # sts) es"
  unfolding sends_def by (metis Suc_less_eq add_Suc_shift length_Cons nth_Cons_Suc)

lemma sends_append: "sends i sts es \<Longrightarrow> sends i sts fs \<Longrightarrow> sends i sts (es @ fs)"
  by (auto simp: sends_def)

definition sentStatus :: "nat \<Rightarrow> history \<Rightarrow> txStatus \<Rightarrow> txStatus \<Rightarrow> bool" where
  "sentStatus i es st st' \<longleftrightarrow> ts_tx st' = ts_tx st \<and> ts_success st' = ts_success st
     \<and> (if ts_success st then ts_txHash st' = ts_txHash st
        else \<exists>txHash. ts_txHash st' = Some txHash \<and> sentAs i (ts_tx st) txHash es)"

lemma sentStatus_mono: "sentStatus i es st st' \<Longrightarrow> set es \<subseteq> set fs \<Longrightarrow> sentStatus i fs st st'"
  by (auto simp: sentStatus_def sentAs_def split: if_splits)

lemma sendTxs_sends:
  assumes "sendTxs env i sts nonce h = Some (sts', h')"
  shows "\<exists>es. h' = h @ es \<and> extends env h h' \<and> sends i sts es \<and> length sts' = length sts
    \<and> (\<forall>j<length sts. sentStatus (i + j) es (sts ! j) (sts' ! j))"
  using assms
proof (induction env i sts nonce h arbitrary: sts' h' rule: sendTxs.induct)
  case (1 env i nonce h)
  then show ?case by (auto simp: sends_def extends_refl)
next
  case (2 env i st sts nonce h)
  show ?case
  proof (cases "ts_success st")
    case True
    then obtain us where us: "sts' = st # us" "sendTxs env (Suc i) sts nonce h = Some (us, h')"
      using "2.prems" by (auto simp: bind_eq_Some_conv)
    obtain es where es: "h' = h @ es" "extends env h h'" "sends (Suc i) sts es" "length us = length sts"
      "\<forall>j<length sts. sentStatus (Suc i + j) es (sts ! j) (us ! j)" using "2.IH"(1) [OF True us(2)] by blast
    then show ?thesis using True us(1) sends_Cons [OF es(3)]
      by (intro exI [of _ es]) (auto simp: nth_Cons' sentStatus_def gr0_conv_Suc split: nat.splits)
  next
    case False
    then obtain txHash h1 us where t: "sendTx env i (ts_tx st) nonce h = Some (txHash, h1)"
      and us: "sts' = st\<lparr>ts_txHash := Some txHash\<rparr> # us" "sendTxs env (Suc i) sts (nonce + 1) h1 = Some (us, h')"
      using "2.prems" by (auto simp: bind_eq_Some_conv)
    obtain k where k: "h1 = h @ replicate k Slept @ [SentTx i (ts_tx st) nonce txHash]"
      "pe_sendTx env (h @ replicate k Slept) (ts_tx st) nonce = Some txHash" using sendTx_sends [OF t] by auto
    obtain es where es: "h' = h1 @ es" "extends env h1 h'" "sends (Suc i) sts es" "length us = length sts"
      "\<forall>j<length sts. sentStatus (Suc i + j) es (sts ! j) (us ! j)" using "2.IH"(2) [OF False t refl us(2)] by blast
    let ?es = "replicate k Slept @ [SentTx i (ts_tx st) nonce txHash] @ es"
    have "extends env h h1" using extends_step [OF extends_sleep, of env "h" k "SentTx i (ts_tx st) nonce txHash"] k by simp
    then have "extends env h h'" using extends_trans es(2) by blast
    moreover have "sends i (st # sts) ?es" using False sends_Cons [OF es(3), of st]
      by (auto simp: sends_def intro: exI [of _ "0 :: nat"])
    moreover have "sentStatus (i + j) ?es ((st # sts) ! j) (sts' ! j)" if "j < length (st # sts)" for j
    proof (cases j)
      case 0
      then show ?thesis using False us(1) by (auto simp: sentStatus_def sentAs_def)
    next
      case (Suc j')
      then show ?thesis using that es(5) us(1) sentStatus_mono [of _ es _ _ ?es] by auto
    qed
    ultimately show ?thesis using k(1) es(1,4) us(1) by (intro exI [of _ ?es]) simp
  qed
qed

definition awaits :: "nat \<Rightarrow> txStatus list \<Rightarrow> history \<Rightarrow> bool" where
  "awaits i sts es \<longleftrightarrow> (\<forall>e\<in>set es. e = Slept
     \<or> (\<exists>j<length sts. \<exists>r. e = GotReceipt (i + j) (the (ts_txHash (sts ! j))) r \<and> \<not> ts_success (sts ! j)))"

lemma awaits_Cons: "awaits (Suc i) sts es \<Longrightarrow> awaits i (st # sts) es"
  unfolding awaits_def by (metis Suc_less_eq add_Suc_shift length_Cons nth_Cons_Suc)

lemma awaits_before: "awaits (Suc i) sts es \<Longrightarrow> \<not> mined i es"
  by (fastforce simp: awaits_def mined_def)

definition checkedStatus :: "nat \<Rightarrow> history \<Rightarrow> txStatus \<Rightarrow> txStatus \<Rightarrow> bool" where
  "checkedStatus i es st st' \<longleftrightarrow> ts_tx st' = ts_tx st \<and> ts_txHash st' = ts_txHash st
     \<and> (ts_success st' \<longleftrightarrow> ts_success st \<or> mined i es)"

definition stateChanged :: "history \<Rightarrow> bool" where
  "stateChanged h \<longleftrightarrow> (\<exists>i txHash. GotReceipt i txHash (Reverted (Some ''INCORRECT_STATE_HASH'')) \<in> set h)"

definition outcomeOf :: "checkResult \<Rightarrow> txStatus list \<Rightarrow> history \<Rightarrow> bool" where
  "outcomeOf r sts es \<longleftrightarrow> (r = AllSucceeded \<longrightarrow> (\<forall>st\<in>set sts. ts_success st)) \<and> (r = StateChanged \<longrightarrow> stateChanged es)"

lemma mined_Nil [simp]: "\<not> mined i []" "mined i (GotReceipt j txHash r # es) \<longleftrightarrow> (i = j \<and> r = Mined) \<or> mined i es"
    "mined i (replicate k Slept @ es) \<longleftrightarrow> mined i es" "mined i (Slept # es) \<longleftrightarrow> mined i es"
    "\<not> mined i (replicate k Slept)"
  by (auto simp: mined_def)

lemma checkReceipts_awaits:
  assumes "checkReceipts env i sts h = Some (r, sts', h')"
  shows "\<exists>es. h' = h @ es \<and> extends env h h' \<and> awaits i sts es \<and> length sts' = length sts
    \<and> (\<forall>j<length sts. checkedStatus (i + j) es (sts ! j) (sts' ! j)) \<and> outcomeOf r sts' es"
  using assms
proof (induction env i sts h arbitrary: r sts' h' rule: checkReceipts.induct)
  case (1 env i h)
  then show ?case by (auto simp: awaits_def extends_refl outcomeOf_def)
next
  case (2 env i st sts h)
  show ?case
  proof (cases "ts_success st")
    case True
    then obtain us where us: "sts' = st # us" "checkReceipts env (Suc i) sts h = Some (r, us, h')"
      using "2.prems" by (auto simp: bind_eq_Some_conv)
    obtain es where es: "h' = h @ es" "extends env h h'" "awaits (Suc i) sts es" "length us = length sts"
      "\<forall>j<length sts. checkedStatus (Suc i + j) es (sts ! j) (us ! j)" "outcomeOf r us es" using "2.IH"(1) [OF True us(2)] by blast
    have "checkedStatus (i + j) es ((st # sts) ! j) (sts' ! j)" if "j < length (st # sts)" for j
      using that es(5) us(1) True by (cases j) (auto simp: checkedStatus_def)
    then show ?thesis using True us(1) awaits_Cons [OF es(3)] es by (intro exI [of _ es]) (auto simp: outcomeOf_def)
  next
    case False
    let ?hash = "the (ts_txHash st)"
    from "2.prems" False obtain rec h1 where t: "getTransactionReceipt env i ?hash h = Some (rec, h1)"
      by (auto simp: bind_eq_Some_conv)
    obtain k where k: "h1 = h @ replicate k Slept @ [GotReceipt i ?hash rec]" "pe_receipt env (h @ replicate k Slept) ?hash = Some rec"
      using getTransactionReceipt_gets [OF t] by auto
    have x: "extends env h h1" using extends_step [OF extends_sleep, of env h k "GotReceipt i ?hash rec"] k by simp
    have aw: "awaits i (st # sts) (replicate k Slept @ [GotReceipt i ?hash rec])" using False
      by (auto simp: awaits_def)
    show ?thesis
    proof (cases rec)
      case Mined
      then obtain us where us: "sts' = st\<lparr>ts_success := True\<rparr> # us" "checkReceipts env (Suc i) sts h1 = Some (r, us, h')"
        using "2.prems" False t by (auto simp: bind_eq_Some_conv)
      obtain es where es: "h' = h1 @ es" "extends env h1 h'" "awaits (Suc i) sts es" "length us = length sts"
        "\<forall>j<length sts. checkedStatus (Suc i + j) es (sts ! j) (us ! j)" "outcomeOf r us es"
        using "2.IH"(2) [OF False t refl Mined us(2)] by blast
      let ?es = "replicate k Slept @ GotReceipt i ?hash rec # es"
      have "checkedStatus (i + j) ?es ((st # sts) ! j) (sts' ! j)" if "j < length (st # sts)" for j
        using that es(5) us(1) Mined awaits_before [OF es(3)] by (cases j) (auto simp: checkedStatus_def)
      moreover have "awaits i (st # sts) ?es" using aw awaits_Cons [OF es(3), of st] by (auto simp: awaits_def)
      moreover have "outcomeOf r sts' ?es" using es(6) us(1) by (auto simp: outcomeOf_def stateChanged_def)
      ultimately show ?thesis using k(1) es(1,4) us(1) extends_trans [OF es(2) x] by (intro exI [of _ ?es]) simp
    next
      case (Reverted e)
      let ?es = "replicate k Slept @ [GotReceipt i ?hash rec]"
      have c: "checkedStatus (i + j) es ((st # sts) ! j) ((st # sts) ! j)" if "es = ?es \<or> es = ?es @ [Slept]" for es j
        using that Reverted by (auto simp: checkedStatus_def)
      show ?thesis
      proof (cases "e = Some ''INCORRECT_STATE_HASH''")
        case True
        then show ?thesis using "2.prems" False t Reverted k(1) x aw c
          by (intro exI [of _ ?es]) (auto simp: outcomeOf_def stateChanged_def)
      next
        case n: False
        then have r: "r = ResendTxs" "sts' = st # sts" "h' = h1 @ [Slept]" using "2.prems" False t Reverted by auto
        have "extends env h h'" unfolding r using extends_step [OF x, of Slept] by simp
        moreover have "awaits i (st # sts) (?es @ [Slept])" using aw by (auto simp: awaits_def)
        ultimately show ?thesis using r k(1) c by (intro exI [of _ "?es @ [Slept]"]) (simp add: outcomeOf_def)
      qed
    qed
  qed
qed

section \<open>The invariant of the main loop\<close>

definition statusOK :: "buffer \<Rightarrow> nat \<Rightarrow> history \<Rightarrow> txStatus \<Rightarrow> bool" where
  "statusOK tx i h st \<longleftrightarrow> ts_tx st = tx \<and> (ts_success st \<longleftrightarrow> mined i h)
     \<and> (ts_success st \<longrightarrow> (\<exists>txHash. sentAs i tx txHash h \<and> GotReceipt i txHash Mined \<in> set h))"

definition publishOK :: "buffer list \<Rightarrow> txStatus list \<Rightarrow> history \<Rightarrow> bool" where
  "publishOK txs sts h \<longleftrightarrow> length sts = length txs \<and> (\<forall>i<length txs. statusOK (txs ! i) i h (sts ! i)) \<and> neverResent h"

lemma publishOK_start: "publishOK txs (map unsentTx txs) []"
  by (simp add: publishOK_def statusOK_def unsentTx_def neverResent_def)

lemma publishOK_round:
  assumes inv: "publishOK txs sts h0" and h: "h = h0 @ replicate k Slept"
    and s: "sendTxs env 0 sts n h = Some (sts1, h1)"
    and c: "checkReceipts env 0 sts1 (h1 @ [ConfirmSent x]) = Some (r, sts2, h2)"
  shows "publishOK txs sts2 h2 \<and> extends env h0 h2 \<and> outcomeOf r sts2 h2"
proof -
  obtain es where es: "h1 = h @ es" "extends env h h1" "sends 0 sts es" "length sts1 = length sts"
    "\<forall>j<length sts. sentStatus j es (sts ! j) (sts1 ! j)" using sendTxs_sends [OF s] by auto
  obtain fs where fs: "h2 = (h1 @ [ConfirmSent x]) @ fs" "extends env (h1 @ [ConfirmSent x]) h2" "awaits 0 sts1 fs" "length sts2 = length sts1"
    "\<forall>j<length sts1. checkedStatus j fs (sts1 ! j) (sts2 ! j)" "outcomeOf r sts2 fs" using checkReceipts_awaits [OF c] by auto
  let ?ds = "replicate k Slept @ es @ [ConfirmSent x]"
  have i: "length sts = length txs" "\<And>j. j < length txs \<Longrightarrow> statusOK (txs ! j) j h0 (sts ! j)" "neverResent h0"
    using inv by (auto simp: publishOK_def)
  have x: "extends env h0 h2"
    using extends_trans [OF fs(2) extends_step [OF extends_trans [OF es(2)], of h0 "ConfirmSent x"]] extends_sleep [of env h0 k] h by simp
  have m: "\<not> mined j es" for j using es(3) by (auto simp: sends_def mined_def)
  have m1: "mined j (h0 @ ?ds) \<longleftrightarrow> mined j h0" for j using m by (auto simp: mined_def)
  have "neverResent (h0 @ ?ds)"
  proof (rule neverResent_append [OF i(3)])
    fix j tx nonce txHash assume "SentTx j tx nonce txHash \<in> set ?ds"
    then have "j < length sts" "\<not> ts_success (sts ! j)" using es(3) by (auto simp: sends_def)
    then show "\<not> mined j (h0 @ ?ds)" using i(1,2) m1 by (auto simp: statusOK_def)
  qed
  then have "neverResent ((h0 @ ?ds) @ fs)"
    by (rule neverResent_append) (use fs(3) in \<open>auto simp: awaits_def\<close>)
  then have nr: "neverResent h2" using fs(1) es(1) h by simp
  have "statusOK (txs ! j) j h2 (sts2 ! j)" if j: "j < length txs" for j
  proof -
    have h2: "h2 = h0 @ ?ds @ fs" using fs(1) es(1) h by simp
    have s: "sentStatus j es (sts ! j) (sts1 ! j)" "checkedStatus j fs (sts1 ! j) (sts2 ! j)"
      using es(4,5) fs(5) i(1) j by auto
    have o: "statusOK (txs ! j) j h0 (sts ! j)" using i(2) j .
    have su: "ts_success (sts2 ! j) \<longleftrightarrow> mined j h2" using s o m by (auto simp: h2 sentStatus_def checkedStatus_def statusOK_def mined_def)
    moreover have "\<exists>txHash. sentAs j (txs ! j) txHash h2 \<and> GotReceipt j txHash Mined \<in> set h2" if "ts_success (sts2 ! j)"
    proof (cases "ts_success (sts ! j)")
      case True
      then show ?thesis using o by (auto simp: h2 statusOK_def)
    next
      case False
      then obtain txHash where t: "ts_txHash (sts1 ! j) = Some txHash" "sentAs j (txs ! j) txHash es"
        using s(1) o by (auto simp: sentStatus_def statusOK_def)
      have "mined j fs" using that False s by (auto simp: sentStatus_def checkedStatus_def)
      then have "GotReceipt j txHash Mined \<in> set fs" using fs(3) t(1) by (fastforce simp: mined_def awaits_def)
      then show ?thesis using t(2) by (auto simp: h2)
    qed
    moreover have "ts_tx (sts2 ! j) = txs ! j" using s o by (simp add: sentStatus_def checkedStatus_def statusOK_def)
    ultimately show ?thesis by (simp add: statusOK_def)
  qed
  then have "publishOK txs sts2 h2" using nr i(1) es(4) fs(4) by (simp add: publishOK_def)
  moreover have "outcomeOf r sts2 h2" using fs(1,6) by (auto simp: outcomeOf_def stateChanged_def)
  ultimately show ?thesis using x by blast
qed

lemma publishLoop_outcome:
  assumes "publishLoop env c g sts h = Some y" "publishOK txs sts h"
  shows "extends env h (snd y) \<and> neverResent (snd y)
    \<and> (fst y \<longrightarrow> (\<forall>i<length txs. \<exists>txHash. sentAs i (txs ! i) txHash (snd y) \<and> GotReceipt i txHash Mined \<in> set (snd y)))
    \<and> (\<not> fst y \<longrightarrow> stateChanged (snd y))"
  using assms
proof (induction rule: publishLoop_induct)
  case (step loop env c g sts h y)
  from step(2) obtain h1 sts1 h2 r sts2 h3
    where a: "awaitGasPriceBelowThresholdAndSufficientBalance env c g h = Some h1"
      and s: "sendTxs env 0 sts (pe_transactionCount env h1) h1 = Some (sts1, h2)"
      and k: "checkReceipts env 0 sts1 (h2 @ [ConfirmSent (the (ts_txHash (last sts1)))]) = Some (r, sts2, h3)"
      and res: "(case r of AllSucceeded \<Rightarrow> Some (True, h3) | ResendTxs \<Rightarrow> loop env c g sts2 h3 | StateChanged \<Rightarrow> Some (False, h3)) = Some y"
    by (auto simp: bind_eq_Some_conv)
  obtain k where k': "h1 = h @ replicate k Slept" using await_sleeps [OF a] by blast
  have i: "publishOK txs sts2 h3" "extends env h h3" "outcomeOf r sts2 h3"
    using publishOK_round [OF step(3) k' s k] by auto
  show ?case
  proof (cases r)
    case AllSucceeded
    then show ?thesis using res i by (auto simp: outcomeOf_def publishOK_def statusOK_def)
  next
    case ResendTxs
    then have "loop env c g sts2 h3 = Some y" using res by simp
    from step(1) [OF this i(1)] show ?thesis using extends_trans i(2) by blast
  next
    case StateChanged
    then show ?thesis using res i by (auto simp: outcomeOf_def publishOK_def)
  qed
qed

lemma publishLoop_sends:
  assumes "publishLoop env c g (st # sts) h = Some y" "\<not> ts_success st" "publishOK txs (st # sts) h"
  shows "\<exists>tx nonce txHash. SentTx 0 tx nonce txHash \<in> set (snd y)"
  using assms(1)
proof -
  from assms(1) obtain h1 sts1 h2 r sts2 h3
    where s: "sendTxs env 0 (st # sts) (pe_transactionCount env h1) h1 = Some (sts1, h2)"
      and k: "checkReceipts env 0 sts1 (h2 @ [ConfirmSent (the (ts_txHash (last sts1)))]) = Some (r, sts2, h3)"
      and a: "awaitGasPriceBelowThresholdAndSufficientBalance env c g h = Some h1"
      and res: "(case r of AllSucceeded \<Rightarrow> Some (True, h3) | ResendTxs \<Rightarrow> publishLoop env c g sts2 h3 | StateChanged \<Rightarrow> Some (False, h3)) = Some y"
    by (auto simp: publishLoop.simps [of env c g "st # sts"] bind_eq_Some_conv)
  obtain k where k': "h1 = h @ replicate k Slept" using await_sleeps [OF a] by blast
  have i: "publishOK txs sts2 h3" using publishOK_round [OF assms(3) k' s k] by blast
  have "\<exists>es. snd y = h3 @ es"
  proof (cases r)
    case ResendTxs
    then have "publishLoop env c g sts2 h3 = Some y" using res by simp
    from publishLoop_outcome [OF this i] show ?thesis using extends_prefix by blast
  qed (use res in auto)
  moreover obtain es where es: "h2 = h1 @ es" "sentStatus 0 es st (sts1 ! 0)" using sendTxs_sends [OF s] by auto
  ultimately have "set es \<subseteq> set (snd y)" using checkReceipts_awaits [OF k] by auto
  then show ?thesis using es(2) assms(2) by (auto simp: sentStatus_def sentAs_def)
qed

section \<open>The loop ends\<close>

text \<open>From some length of the history on, the chain lets the publisher through: the gas price and the balance suffice, sending
  and awaiting do not throw, and a receipt is a success or tells that the state has changed.\<close>

definition calm :: "publishEnv \<Rightarrow> publisherConfig \<Rightarrow> int \<Rightarrow> nat \<Rightarrow> bool" where
  "calm env c g n \<longleftrightarrow> (\<forall>h. n \<le> length h \<longrightarrow> readyToSend env c g h \<and> (\<forall>tx nonce. pe_sendTx env h tx nonce \<noteq> None)
     \<and> (\<forall>txHash. \<exists>r. pe_receipt env h txHash = Some r \<and> (r = Mined \<or> r = Reverted (Some ''INCORRECT_STATE_HASH''))))"

lemma late_induct [case_names step]:
  assumes "\<And>h. (\<And>h'. length h < n \<Longrightarrow> length h < length h' \<Longrightarrow> P h') \<Longrightarrow> P h"
  shows "P (h :: history)"
proof (induction "n - length h" arbitrary: h rule: less_induct)
  case less
  show ?case
  proof (rule assms)
    fix h' :: history assume "length h < n" "length h < length h'"
    then show "P h'" by (intro less diff_less_mono2)
  qed
qed

lemma await_ends:
  assumes "calm env c g n"
  shows "awaitGasPriceBelowThresholdAndSufficientBalance env c g h \<noteq> None"
proof (induction h rule: late_induct [where n = n])
  case (step h)
  show ?case
  proof (cases "readyToSend env c g h")
    case False
    then have "length h < n" using assms by (meson calm_def not_le)
    then show ?thesis using False step [of "h @ [Slept]"] awaitGasPriceBelowThresholdAndSufficientBalance.simps [of env c g h] by simp
  qed (simp add: awaitGasPriceBelowThresholdAndSufficientBalance.simps [of env c g h])
qed

lemma sendTx_ends:
  assumes "calm env c g n"
  shows "sendTx env i tx nonce h \<noteq> None"
proof (induction h rule: late_induct [where n = n])
  case (step h)
  show ?case
  proof (cases "pe_sendTx env h tx nonce")
    case None
    then have "length h < n" using assms by (meson calm_def not_le)
    then show ?thesis using None step [of "h @ [Slept]"] sendTx.simps [of env i tx nonce h] by simp
  qed (simp add: sendTx.simps [of env i tx nonce h])
qed

lemma getTransactionReceipt_ends:
  assumes "calm env c g n"
  shows "getTransactionReceipt env i txHash h \<noteq> None"
proof (induction h rule: late_induct [where n = n])
  case (step h)
  show ?case
  proof (cases "pe_receipt env h txHash")
    case None
    then have "length h < n" using assms by (metis calm_def not_le option.distinct(1))
    then show ?thesis using None step [of "h @ [Slept]"] getTransactionReceipt.simps [of env i txHash h] by simp
  qed (simp add: getTransactionReceipt.simps [of env i txHash h])
qed

lemma sendTxs_ends:
  assumes "calm env c g n"
  shows "sendTxs env i sts nonce h \<noteq> None"
proof (induction sts arbitrary: i nonce h)
  case (Cons st sts)
  obtain x where x: "sendTx env i (ts_tx st) nonce h = Some x" using sendTx_ends [OF assms] by blast
  obtain y z where "sendTxs env (Suc i) sts nonce h = Some y" "sendTxs env (Suc i) sts (nonce + 1) (snd x) = Some z" using Cons by blast
  then show ?case using x by (simp add: case_prod_beta)
qed simp

lemma checkReceipts_ends:
  assumes "calm env c g n"
  shows "checkReceipts env i sts h \<noteq> None"
proof (induction sts arbitrary: i h)
  case (Cons st sts)
  obtain x where x: "getTransactionReceipt env i (the (ts_txHash st)) h = Some x" using getTransactionReceipt_ends [OF assms] by blast
  obtain y z where "checkReceipts env (Suc i) sts h = Some y" "checkReceipts env (Suc i) sts (snd x) = Some z" using Cons by blast
  then show ?case using x by (auto simp: case_prod_beta split: txReceipt.split)
qed simp

lemma checkReceipts_late:
  assumes "calm env c g n" "n \<le> length h" "checkReceipts env i sts h = Some (r, sts', h')"
  shows "r \<noteq> ResendTxs"
  using assms(2,3)
proof (induction sts arbitrary: i h sts' h')
  case (Cons st sts)
  show ?case
  proof (cases "ts_success st")
    case True
    then show ?thesis using Cons by (auto simp: bind_eq_Some_conv)
  next
    case False
    then obtain rec h1 where t: "getTransactionReceipt env i (the (ts_txHash st)) h = Some (rec, h1)"
      using Cons.prems by (auto simp: bind_eq_Some_conv)
    obtain k where k: "h1 = h @ replicate k Slept @ [GotReceipt i (the (ts_txHash st)) rec]"
      "pe_receipt env (h @ replicate k Slept) (the (ts_txHash st)) = Some rec"
      using getTransactionReceipt_gets [OF t] by auto
    have "n \<le> length (h @ replicate k Slept)" using Cons.prems(1) by simp
    then have "rec = Mined \<or> rec = Reverted (Some ''INCORRECT_STATE_HASH'')" using assms(1) k(2)
      unfolding calm_def by (metis option.sel)
    moreover have "n \<le> length h1" using Cons.prems(1) k(1) by simp
    ultimately show ?thesis using Cons.prems(2) Cons.IH [of h1] False t by (auto simp: bind_eq_Some_conv)
  qed
qed simp

lemma publishLoop_ends:
  assumes "calm env c g n"
  shows "publishLoop env c g sts h \<noteq> None"
proof (induction h arbitrary: sts rule: late_induct [where n = n])
  case (step h)
  obtain h1 where h1: "awaitGasPriceBelowThresholdAndSufficientBalance env c g h = Some h1" using await_ends [OF assms] by blast
  obtain sts1 h2 where h2: "sendTxs env 0 sts (pe_transactionCount env h1) h1 = Some (sts1, h2)" using sendTxs_ends [OF assms] by fast
  let ?h = "h2 @ [ConfirmSent (the (ts_txHash (last sts1)))]"
  obtain r sts2 h3 where h3: "checkReceipts env 0 sts1 ?h = Some (r, sts2, h3)" using checkReceipts_ends [OF assms] by (metis not_None_eq prod_cases3)
  have l: "length h \<le> length h1" "length h1 \<le> length h2" "length ?h \<le> length h3"
    using await_sleeps [OF h1] sendTxs_sends [OF h2] checkReceipts_awaits [OF h3] by auto
  have "publishLoop env c g sts2 h3 \<noteq> None" if "r = ResendTxs"
  proof (rule step)
    have "\<not> n \<le> length ?h" using checkReceipts_late [OF assms _ h3] that by blast
    then show "length h < n" "length h < length h3" using l by simp_all
  qed
  then show ?case by (cases r) (simp_all add: publishLoop.simps [of env c g sts h] h1 h2 h3)
qed

section \<open>Properties\<close>

lemma publishRollup_ok:
  assumes "publishRollup env c abi keccak approved rollup g = Inr (callData, r)"
  shows "\<exists>txs. createTxData abi keccak approved (pb_callDataLimit c) rollup = Inr txs \<and> callData = rtx_rollupProofTx txs
    \<and> r = publishLoop env c g (map unsentTx (rtx_offchainDataTxs txs @ [rtx_rollupProofTx txs])) []"
  using assms by (auto simp: publishRollup_def bindE_eq_Inr)

text \<open>C19: When the publication of a rollup reports success, every transaction made for it, the offchain data and the proof,
  was sent and the chain answered with a successful receipt for it; when it reports failure, a receipt said that the contract's state
  changed. All answers in the history are the chain's.\<close>

theorem publish_outcome_is_true:
  assumes "publishRollup env c abi keccak approved rollup g = Inr (callData, Some (published, h))"
  shows "extends env [] h \<and> (\<exists>txs. createTxData abi keccak approved (pb_callDataLimit c) rollup = Inr txs
    \<and> (if published then \<forall>i\<le>length (rtx_offchainDataTxs txs). \<exists>txHash.
           sentAs i ((rtx_offchainDataTxs txs @ [rtx_rollupProofTx txs]) ! i) txHash h \<and> GotReceipt i txHash Mined \<in> set h
       else stateChanged h))"
proof -
  obtain txs where t: "createTxData abi keccak approved (pb_callDataLimit c) rollup = Inr txs"
    "Some (published, h) = publishLoop env c g (map unsentTx (rtx_offchainDataTxs txs @ [rtx_rollupProofTx txs])) []"
    using publishRollup_ok [OF assms] by blast
  show ?thesis using publishLoop_outcome [OF t(2) [symmetric] publishOK_start] t(1) by (auto simp: less_Suc_eq_le)
qed

text \<open>C20: A transaction that has a successful receipt is never sent again.\<close>

theorem mined_never_resent:
  assumes "publishRollup env c abi keccak approved rollup g = Inr (callData, Some (published, pre @ SentTx i tx nonce txHash # post))"
  shows "\<forall>txHash'. GotReceipt i txHash' Mined \<notin> set pre"
proof -
  obtain txs :: rollupTxs where "Some (published, pre @ SentTx i tx nonce txHash # post)
      = publishLoop env c g (map unsentTx (rtx_offchainDataTxs txs @ [rtx_rollupProofTx txs])) []"
    using publishRollup_ok [OF assms] by blast
  from publishLoop_outcome [OF this [symmetric] publishOK_start]
  show ?thesis unfolding neverResent_def mined_def by auto
qed

text \<open>C29: The publication ends, whatever happened before, once the chain lets it through: the gas price and the
  balance suffice, sending and awaiting receipts do not throw, and receipts are successes or report a changed state.\<close>

theorem publication_ends:
  assumes "calm env c g n" "publishRollup env c abi keccak approved rollup g = Inr (callData, r)"
  shows "r \<noteq> None"
proof -
  obtain txs :: rollupTxs where "r = publishLoop env c g (map unsentTx (rtx_offchainDataTxs txs @ [rtx_rollupProofTx txs])) []"
    using publishRollup_ok [OF assms(2)] by blast
  then show ?thesis using publishLoop_ends [OF assms(1)] by simp
qed

text \<open>A chain on which the transaction of the offchain data fails once, the first time. The proof's transaction, sent with
  it, was mined, but its receipt is not looked at before both are sent again; the second proof fails as the state has
  changed, and the publication reports failure although the rollup is published.\<close>

definition unluckyChain :: publishEnv where
  "unluckyChain = \<lparr>pe_baseFeePerGas = (\<lambda>_. 1), pe_balance = (\<lambda>_. 0), pe_transactionCount = (\<lambda>_. 7),
     pe_sendTx = (\<lambda>h tx nonce. Some (TxHash [word_of_nat (length h)])),
     pe_receipt = (\<lambda>h txHash. Some (if txHash = TxHash [0] then Reverted None
       else if txHash = TxHash [6] then Reverted (Some ''INCORRECT_STATE_HASH'') else Mined))\<rparr>"

definition sampleConfig :: publisherConfig where
  "sampleConfig = \<lparr>pb_maxFeePerGas = 10, pb_maxPriorityFeePerGas = 1, pb_callDataLimit = 200\<rparr>"

theorem published_rollup_reported_failed:
  "\<exists>h. publishLoop unluckyChain sampleConfig 0 [unsentTx [1], unsentTx [2]] [] = Some (False, h)
    \<and> sentAs 1 [2] (TxHash [1]) h \<and> (\<forall>h'. pe_receipt unluckyChain h' (TxHash [1]) = Some Mined)"
proof -
  have p: "pe_sendTx unluckyChain = (\<lambda>h tx nonce. Some (TxHash [word_of_nat (length h)]))"
    "pe_receipt unluckyChain = (\<lambda>h txHash. Some (if txHash = TxHash [0] then Reverted None
       else if txHash = TxHash [6] then Reverted (Some ''INCORRECT_STATE_HASH'') else Mined))"
    "pe_transactionCount unluckyChain h = 7" "readyToSend unluckyChain sampleConfig 0 h" for h
    by (simp_all add: unluckyChain_def readyToSend_def sampleConfig_def)
  have l: "sendTx unluckyChain i tx nonce h = Some (TxHash [word_of_nat (length h)], h @ [SentTx i tx nonce (TxHash [word_of_nat (length h)])])"
    "awaitGasPriceBelowThresholdAndSufficientBalance unluckyChain sampleConfig 0 h = Some h" for i tx nonce h
    by (simp_all add: sendTx.simps [of unluckyChain i] awaitGasPriceBelowThresholdAndSufficientBalance.simps [of unluckyChain] p)
  have r: "getTransactionReceipt unluckyChain i (TxHash [0]) h = Some (Reverted None, h @ [GotReceipt i (TxHash [0]) (Reverted None)])"
    "getTransactionReceipt unluckyChain i (TxHash [6]) h = Some (Reverted (Some ''INCORRECT_STATE_HASH''),
       h @ [GotReceipt i (TxHash [6]) (Reverted (Some ''INCORRECT_STATE_HASH''))])"
    "getTransactionReceipt unluckyChain i (TxHash [5]) h = Some (Mined, h @ [GotReceipt i (TxHash [5]) Mined])" for i h
    by (simp_all add: getTransactionReceipt.simps [of unluckyChain i] p)
  let ?h0 = "[SentTx 0 [1] 7 (TxHash [0]), SentTx 1 [2] 8 (TxHash [1]), ConfirmSent (TxHash [1]), GotReceipt 0 (TxHash [0]) (Reverted None), Slept]"
  let ?sts = "[\<lparr>ts_success = False, ts_txHash = Some (TxHash [0]), ts_tx = [1]\<rparr>, \<lparr>ts_success = False, ts_txHash = Some (TxHash [1]), ts_tx = [2]\<rparr>]"
  have 1: "publishLoop unluckyChain sampleConfig 0 [unsentTx [1], unsentTx [2]] [] = publishLoop unluckyChain sampleConfig 0 ?sts ?h0"
    by (subst publishLoop.simps) (simp add: l r p unsentTx_def)
  have 2: "publishLoop unluckyChain sampleConfig 0 ?sts ?h0
    = Some (False, ?h0 @ [SentTx 0 [1] 7 (TxHash [5]), SentTx 1 [2] 8 (TxHash [6]), ConfirmSent (TxHash [6]),
        GotReceipt 0 (TxHash [5]) Mined, GotReceipt 1 (TxHash [6]) (Reverted (Some ''INCORRECT_STATE_HASH''))])"
    by (subst publishLoop.simps) (simp add: l r p)
  show ?thesis unfolding 1 2 by (simp add: sentAs_def p)
qed

section \<open>Witnesses\<close>

definition luckyChain :: publishEnv where
  "luckyChain = unluckyChain\<lparr>pe_receipt := (\<lambda>h txHash. Some Mined)\<rparr>"

definition sampleRollupDao :: "buffer \<Rightarrow> rollupDao" where
  "sampleRollupDao dataBuf = newRollupDao 7 [] \<lparr>rpd_id = [],
     rpd_txs = [(sampleTxDao TX_DEPOSIT 1 3 0)\<lparr>td_offchainTxData := zeros 292, td_signature := None\<rparr>],
     rpd_encodedProofData = dataBuf, rpd_rollupSize = 1, rpd_dataStartIndex = 0, rpd_created = 0\<rparr>"

lemma lucky_calm: "calm luckyChain sampleConfig 0 0"
  by (simp add: calm_def luckyChain_def unluckyChain_def readyToSend_def sampleConfig_def)

lemma sample_txData:
  assumes "RollupProofData_decode dataBuf = Inr sampleRollup"
  shows "createTxData sampleAbi keccak approved 200 (sampleRollupDao dataBuf)
    = Inr \<lparr>rtx_rollupProofTx = dataBuf, rtx_offchainDataTxs = [zeros 200, zeros 92]\<rparr>"
  using sample_txs [OF assms] by (simp add: createTxData_def sampleRollupDao_def newRollupDao_def unapprovedSignature_def)

lemma sample_publication:
  obtains dataBuf b h where "publishRollup luckyChain sampleConfig sampleAbi (\<lambda>b. b) (\<lambda>_ _. False) (sampleRollupDao dataBuf) 0
      = Inr (dataBuf, Some (b, h))" "createTxData sampleAbi (\<lambda>b. b) (\<lambda>_ _. False) 200 (sampleRollupDao dataBuf)
    = Inr \<lparr>rtx_rollupProofTx = dataBuf, rtx_offchainDataTxs = [zeros 200, zeros 92]\<rparr>"
proof -
  obtain dataBuf where d: "RollupProofData_decode dataBuf = Inr sampleRollup" using sampleRollup_encoded by blast
  note t = sample_txData [OF d, of "\<lambda>b. b" "\<lambda>_ _. False"]
  show thesis using that t publishLoop_ends [OF lucky_calm]
    by (simp add: publishRollup_def sampleConfig_def) (metis surj_pair not_None_eq)
qed

theorem publish_outcome_is_true_witness:
  "\<exists>dataBuf published h. publishRollup luckyChain sampleConfig sampleAbi (\<lambda>b. b) (\<lambda>_ _. False) (sampleRollupDao dataBuf) 0
      = Inr (dataBuf, Some (published, h)) \<and> extends luckyChain [] h
    \<and> (if published then \<forall>i\<le>2. \<exists>txHash. sentAs i ([zeros 200, zeros 92, dataBuf] ! i) txHash h \<and> GotReceipt i txHash Mined \<in> set h
       else stateChanged h)"
proof -
  obtain dataBuf b h where r: "publishRollup luckyChain sampleConfig sampleAbi (\<lambda>b. b) (\<lambda>_ _. False) (sampleRollupDao dataBuf) 0
      = Inr (dataBuf, Some (b, h))" "createTxData sampleAbi (\<lambda>b. b) (\<lambda>_ _. False) 200 (sampleRollupDao dataBuf)
    = Inr \<lparr>rtx_rollupProofTx = dataBuf, rtx_offchainDataTxs = [zeros 200, zeros 92]\<rparr>" by (rule sample_publication)
  have c: "pb_callDataLimit sampleConfig = 200" by (simp add: sampleConfig_def)
  from publish_outcome_is_true [OF r(1)]
  show ?thesis unfolding c r(2) by (intro exI [of _ dataBuf] exI [of _ b] exI [of _ h]) (simp add: r(1) cong: if_cong)
qed

theorem mined_never_resent_witness:
  "\<exists>dataBuf published pre i tx nonce txHash post.
     publishRollup luckyChain sampleConfig sampleAbi (\<lambda>b. b) (\<lambda>_ _. False) (sampleRollupDao dataBuf) 0
       = Inr (dataBuf, Some (published, pre @ SentTx i tx nonce txHash # post))
     \<and> (\<forall>txHash'. GotReceipt i txHash' Mined \<notin> set pre)"
proof -
  obtain dataBuf b h where r: "publishRollup luckyChain sampleConfig sampleAbi (\<lambda>b. b) (\<lambda>_ _. False) (sampleRollupDao dataBuf) 0
      = Inr (dataBuf, Some (b, h))" "createTxData sampleAbi (\<lambda>b. b) (\<lambda>_ _. False) 200 (sampleRollupDao dataBuf)
    = Inr \<lparr>rtx_rollupProofTx = dataBuf, rtx_offchainDataTxs = [zeros 200, zeros 92]\<rparr>" by (rule sample_publication)
  obtain pre i tx nonce txHash post where h: "h = pre @ SentTx i tx nonce txHash # post"
  proof -
    have "Some (b, h) = publishLoop luckyChain sampleConfig 0 (map unsentTx [zeros 200, zeros 92, dataBuf]) []"
      using publishRollup_ok [OF r(1)] r(2) by (auto simp: sampleConfig_def)
    from publishLoop_sends [OF this [symmetric, unfolded list.map] _ publishOK_start [of "[zeros 200, zeros 92, dataBuf]", unfolded list.map]] have "\<exists>tx nonce txHash. SentTx 0 tx nonce txHash \<in> set h"
      by (simp add: unsentTx_def)
    then show thesis using that by (metis split_list)
  qed
  show ?thesis using mined_never_resent [OF r(1) [unfolded h]] r(1) h by blast
qed

theorem publication_ends_witness:
  "\<exists>dataBuf r. publishRollup luckyChain sampleConfig sampleAbi (\<lambda>b. b) (\<lambda>_ _. False) (sampleRollupDao dataBuf) 0
     = Inr (dataBuf, r) \<and> r \<noteq> None"
proof -
  obtain dataBuf b h where "publishRollup luckyChain sampleConfig sampleAbi (\<lambda>b. b) (\<lambda>_ _. False) (sampleRollupDao dataBuf) 0
      = Inr (dataBuf, Some (b, h))" by (rule sample_publication)
  with publication_ends [OF lucky_calm this] show ?thesis by blast
qed

end
