(* ===== verification/RollupDb.thy ===== *)
theory RollupDb
  imports Publisher "HOL-Library.Multiset"
begin

text \<open>
  The sequencer's SQL database (\<open>falafel/src/rollup_db/rollup_db.ts\<close>, \<open>tx_dao_to_account_dao.ts\<close>,
  \<open>rollup_dao_to_block_buffer.ts\<close>, the tables of \<open>falafel/src/entity\<close>). A table is the list of its rows; the operations of
  TypeORM are written as documented: \<open>find\<close> filters, sorts and takes, \<open>save\<close> replaces the row of its
  primary key or adds one (and saves related rows where the entity says \<open>cascade\<close>), \<open>insert\<close> adds a row,
  without related rows, and fails on a used key, \<open>upsert\<close> overwrites the columns that are defined, and deleting a row does to the
  rows that refer to it what \<open>onDelete\<close> says. A transaction that fails leaves the state as it was. The row of a
  bridge's metrics is reduced to the columns written here. The nullifiers of transactions and claims are unique columns (\<open>nullifiersClash\<close>).
\<close>

section \<open>The tables\<close>

record txRow =
  tw_tx :: txDao
  tw_rollupProof :: "buffer option"

record rollupProofRow =
  pw_id :: buffer
  pw_rollupSize :: int
  pw_dataStartIndex :: int
  pw_encodedProofData :: buffer
  pw_created :: int
  pw_rollup :: "int option"

record rollupRow =
  rw_id :: int
  rw_dataRoot :: buffer
  rw_processRollupCalldata :: "buffer option"
  rw_interactionResult :: "buffer option"
  rw_ethTxHash :: "txHash option"
  rw_gasPrice :: "buffer option"
  rw_gasUsed :: "int option"
  rw_mined :: "int option"
  rw_subtreeRoot :: "buffer option"

record accountDao =
  ac_accountPublicKey :: buffer
  ac_aliasHash :: buffer
  ac_tx :: "buffer option"

record assetMetricsDao =
  am_rollupId :: int
  am_assetId :: int
  am_contractBalance :: int
  am_totalDeposited :: int
  am_totalWithdrawn :: int
  am_totalDefiDeposited :: int
  am_totalDefiClaimed :: int
  am_totalFees :: int

record bridgeMetricsDao =
  bm_rollupId :: int
  bm_bridgeId :: int
  bm_numTxs :: "int option"
  bm_totalNumTxs :: "int option"
  bm_publishedByProvider :: bool

record rollupDb =
  tb_tx :: "txRow list"
  tb_rollupProof :: "rollupProofRow list"
  tb_rollup :: "rollupRow list"
  tb_account :: "accountDao list"
  tb_claim :: "claimDao list"
  tb_assetMetrics :: "assetMetricsDao list"
  tb_bridgeMetrics :: "bridgeMetricsDao list"

section \<open>Operations on tables\<close>

definition takeOpt :: "nat option \<Rightarrow> 'a list \<Rightarrow> 'a list" where
  "takeOpt n xs = (case n of None \<Rightarrow> xs | Some n \<Rightarrow> take n xs)"

text \<open>What a saved object leaves undefined stays as it was in the row it replaces (\<open>merge\<close>).\<close>

definition saveRowWith :: "('r \<Rightarrow> 'k) \<Rightarrow> ('r \<Rightarrow> 'r \<Rightarrow> 'r) \<Rightarrow> 'r list \<Rightarrow> 'r \<Rightarrow> 'r list" where
  "saveRowWith key merge rows r =
    (if key r \<in> set (map key rows) then map (\<lambda>x. if key x = key r then merge r x else x) rows else rows @ [r])"

definition saveRow :: "('r \<Rightarrow> 'k) \<Rightarrow> 'r list \<Rightarrow> 'r \<Rightarrow> 'r list" where
  "saveRow key = saveRowWith key (\<lambda>r x. r)"

definition insertRow :: "('r \<Rightarrow> 'r \<Rightarrow> bool) \<Rightarrow> 'r list \<Rightarrow> 'r \<Rightarrow> 'r list res" where
  "insertRow clash rows r =
    (if list_ex (clash r) rows then Inl (Thrown ''UNIQUE constraint failed'') else Inr (rows @ [r]))"

definition updateWhere :: "('r \<Rightarrow> bool) \<Rightarrow> ('r \<Rightarrow> 'r) \<Rightarrow> 'r list \<Rightarrow> 'r list" where
  "updateWhere P f rows = map (\<lambda>x. if P x then f x else x) rows"

text \<open>Deletions with what the references do: accounts go with their transaction, transactions lose a deleted proof, proofs lose a deleted
  rollup, whose metrics go with it.\<close>

definition deleteTxsWhere :: "(txRow \<Rightarrow> bool) \<Rightarrow> rollupDb \<Rightarrow> rollupDb" where
  "deleteTxsWhere P db =
    (let gone = map (\<lambda>w. td_id (tw_tx w)) (filter P (tb_tx db))
     in db\<lparr>tb_tx := filter (\<lambda>w. \<not> P w) (tb_tx db),
           tb_account := filter (\<lambda>a. case ac_tx a of None \<Rightarrow> True | Some i \<Rightarrow> i \<notin> set gone) (tb_account db)\<rparr>)"

definition deleteRollupProofsWhere :: "(rollupProofRow \<Rightarrow> bool) \<Rightarrow> rollupDb \<Rightarrow> rollupDb" where
  "deleteRollupProofsWhere P db =
    (let gone = map pw_id (filter P (tb_rollupProof db))
     in db\<lparr>tb_rollupProof := filter (\<lambda>p. \<not> P p) (tb_rollupProof db),
           tb_tx := updateWhere (\<lambda>w. tw_rollupProof w \<in> Some ` set gone) (tw_rollupProof_update (\<lambda>_. None)) (tb_tx db)\<rparr>)"

definition deleteRollupsWhere :: "(rollupRow \<Rightarrow> bool) \<Rightarrow> rollupDb \<Rightarrow> rollupDb" where
  "deleteRollupsWhere P db =
    (let gone = map rw_id (filter P (tb_rollup db))
     in db\<lparr>tb_rollup := filter (\<lambda>r. \<not> P r) (tb_rollup db),
           tb_rollupProof := updateWhere (\<lambda>p. pw_rollup p \<in> Some ` set gone) (pw_rollup_update (\<lambda>_. None)) (tb_rollupProof db),
           tb_assetMetrics := filter (\<lambda>m. am_rollupId m \<notin> set gone) (tb_assetMetrics db),
           tb_bridgeMetrics := filter (\<lambda>m. bm_rollupId m \<notin> set gone) (tb_bridgeMetrics db)\<rparr>)"

section \<open>Transactions\<close>

definition txDaoToAccountDao :: "txDao \<Rightarrow> accountDao res" where
  "txDaoToAccountDao tx = mapR (\<lambda>d. \<lparr>ac_accountPublicKey = grumpkinAddress_buffer (oad_accountPublicKey d),
       ac_aliasHash = aliasHash_buffer (oad_aliasHash d), ac_tx = Some (td_id tx)\<rparr>)
     (OffchainAccountData_fromBuffer (td_offchainTxData tx))"

definition getNewAccountDaos :: "txDao list \<Rightarrow> accountDao list res" where
  "getNewAccountDaos txDaos = mapE txDaoToAccountDao
     (filter (\<lambda>tx. case td_nullifier2 tx of None \<Rightarrow> False | Some n \<Rightarrow> toBigIntBE n \<noteq> 0)
       (filter (\<lambda>tx. td_txType tx = TX_ACCOUNT) txDaos))"

definition saveAccounts :: "accountDao list \<Rightarrow> accountDao list \<Rightarrow> accountDao list" where
  "saveAccounts = foldl (saveRowWith ac_accountPublicKey
     (\<lambda>a old. a\<lparr>ac_tx := (case ac_tx a of None \<Rightarrow> ac_tx old | t \<Rightarrow> t)\<rparr>))"

text \<open>Saving a transaction leaves its undefined relation as it is.\<close>

definition saveTx :: "txRow list \<Rightarrow> txDao \<Rightarrow> txRow list" where
  "saveTx rows tx =
    (if td_id tx \<in> set (map (\<lambda>w. td_id (tw_tx w)) rows)
     then updateWhere (\<lambda>w. td_id (tw_tx w) = td_id tx) (tw_tx_update (\<lambda>_. tx)) rows
     else rows @ [\<lparr>tw_tx = tx, tw_rollupProof = None\<rparr>])"

text \<open>The two nullifier columns are unique; rows without a nullifier do not clash.\<close>

definition nullifiersClash :: "txDao \<Rightarrow> txRow list \<Rightarrow> bool" where
  "nullifiersClash tx rows = list_ex (\<lambda>w. td_id (tw_tx w) \<noteq> td_id tx
     \<and> (td_nullifier1 tx \<noteq> None \<and> td_nullifier1 (tw_tx w) = td_nullifier1 tx
          \<or> td_nullifier2 tx \<noteq> None \<and> td_nullifier2 (tw_tx w) = td_nullifier2 tx)) rows"

definition storeTx :: "(txRow list \<Rightarrow> txDao \<Rightarrow> txRow list) \<Rightarrow> txRow list \<Rightarrow> txDao \<Rightarrow> txRow list res" where
  "storeTx store rows tx =
    (if nullifiersClash tx rows then Inl (Thrown ''UNIQUE constraint failed'') else Inr (store rows tx))"

definition RollupDb_addTxs :: "txDao list \<Rightarrow> rollupDb \<Rightarrow> rollupDb res" where
  "RollupDb_addTxs txs db = bindE (getNewAccountDaos txs) (\<lambda>accountDaos.
     let db = db\<lparr>tb_account := saveAccounts (tb_account db) accountDaos\<rparr>
     in mapR (\<lambda>rows. db\<lparr>tb_tx := rows\<rparr>) (foldE (storeTx saveTx) (tb_tx db) txs))"

definition RollupDb_addTx :: "txDao \<Rightarrow> rollupDb \<Rightarrow> rollupDb res" where
  "RollupDb_addTx txDao db = bindE (storeTx saveTx (tb_tx db) txDao) (\<lambda>rows.
     let db = db\<lparr>tb_tx := rows\<rparr>
     in bindE (getNewAccountDaos [txDao]) (\<lambda>accountDaos.
          Inr (db\<lparr>tb_account := saveAccounts (tb_account db) accountDaos\<rparr>)))"

definition RollupDb_deleteTxsById :: "buffer list \<Rightarrow> rollupDb \<Rightarrow> rollupDb" where
  "RollupDb_deleteTxsById ids = deleteTxsWhere (\<lambda>w. td_id (tw_tx w) \<in> set ids)"

definition RollupDb_getTx :: "buffer \<Rightarrow> rollupDb \<Rightarrow> txDao option" where
  "RollupDb_getTx i db = map_option tw_tx (find (\<lambda>w. td_id (tw_tx w) = i) (tb_tx db))"

definition pendingRows :: "bool \<Rightarrow> rollupDb \<Rightarrow> txRow list" where
  "pendingRows secondClass db = filter (\<lambda>w. tw_rollupProof w = None \<and> td_secondClass (tw_tx w) = secondClass) (tb_tx db)"

definition RollupDb_getPendingTxCount :: "rollupDb \<Rightarrow> nat" where
  "RollupDb_getPendingTxCount db = length (pendingRows False db)"

definition RollupDb_getPendingSecondClassTxCount :: "rollupDb \<Rightarrow> nat" where
  "RollupDb_getPendingSecondClassTxCount db = length (pendingRows True db)"

definition RollupDb_getPendingTxs :: "nat option \<Rightarrow> rollupDb \<Rightarrow> txDao list" where
  "RollupDb_getPendingTxs n db = takeOpt n (sort_key td_created (map tw_tx (pendingRows False db)))"

definition RollupDb_getPendingSecondClassTxs :: "nat option \<Rightarrow> rollupDb \<Rightarrow> txDao list" where
  "RollupDb_getPendingSecondClassTxs n db = takeOpt n (sort_key td_created (map tw_tx (pendingRows True db)))"

definition RollupDb_deletePendingTxs :: "rollupDb \<Rightarrow> rollupDb" where
  "RollupDb_deletePendingTxs = deleteTxsWhere (\<lambda>w. tw_rollupProof w = None)"

definition RollupDb_getTotalTxCount :: "rollupDb \<Rightarrow> nat" where
  "RollupDb_getTotalTxCount db = length (tb_tx db)"

definition RollupDb_getJoinSplitTxCount :: "rollupDb \<Rightarrow> nat" where
  "RollupDb_getJoinSplitTxCount db = length (filter (\<lambda>w. td_txType (tw_tx w) \<in>
     {TX_DEPOSIT, TX_TRANSFER, TX_WITHDRAW_TO_WALLET, TX_WITHDRAW_HIGH_GAS}) (tb_tx db))"

definition RollupDb_getDefiTxCount :: "rollupDb \<Rightarrow> nat" where
  "RollupDb_getDefiTxCount db = length (filter (\<lambda>w. td_txType (tw_tx w) = TX_DEFI_DEPOSIT) (tb_tx db))"

definition RollupDb_getAccountTxCount :: "rollupDb \<Rightarrow> nat" where
  "RollupDb_getAccountTxCount db = length (filter (\<lambda>w. td_txType (tw_tx w) = TX_ACCOUNT) (tb_tx db))"

definition RollupDb_getUnsettledTxs :: "rollupDb \<Rightarrow> txDao list" where
  "RollupDb_getUnsettledTxs db = filter (\<lambda>tx. td_mined tx = None) (map tw_tx (tb_tx db))"

definition RollupDb_getUnsettledTxCount :: "rollupDb \<Rightarrow> nat" where
  "RollupDb_getUnsettledTxCount db = length (RollupDb_getUnsettledTxs db)"

definition RollupDb_getUnsettledDepositTxs :: "rollupDb \<Rightarrow> txDao list" where
  "RollupDb_getUnsettledDepositTxs db = filter (\<lambda>tx. td_txType tx = TX_DEPOSIT \<and> td_mined tx = None) (map tw_tx (tb_tx db))"

definition RollupDb_getUnsettledNullifiers :: "rollupDb \<Rightarrow> buffer list" where
  "RollupDb_getUnsettledNullifiers db =
     concat (map (\<lambda>tx. List.map_filter (\<lambda>n. n) [td_nullifier1 tx, td_nullifier2 tx]) (RollupDb_getUnsettledTxs db))"

definition RollupDb_nullifiersExist :: "buffer list \<Rightarrow> rollupDb \<Rightarrow> bool" where
  "RollupDb_nullifiersExist nullifiers db \<longleftrightarrow>
     list_ex (\<lambda>w. td_nullifier1 (tw_tx w) \<in> Some ` set nullifiers \<or> td_nullifier2 (tw_tx w) \<in> Some ` set nullifiers) (tb_tx db)"

definition RollupDb_resetPositionOnTxsWithoutRollupProof :: "rollupDb \<Rightarrow> rollupDb" where
  "RollupDb_resetPositionOnTxsWithoutRollupProof db = db\<lparr>tb_tx := updateWhere (\<lambda>w. tw_rollupProof w = None)
     (tw_tx_update (td_position_update (\<lambda>_. None))) (tb_tx db)\<rparr>"

section \<open>Accounts\<close>

definition RollupDb_addAccounts :: "accountDao list \<Rightarrow> rollupDb \<Rightarrow> rollupDb" where
  "RollupDb_addAccounts accounts db = db\<lparr>tb_account := saveAccounts (tb_account db) accounts\<rparr>"

definition RollupDb_getAccountCount :: "rollupDb \<Rightarrow> nat" where
  "RollupDb_getAccountCount db = length (tb_account db)"

definition RollupDb_isAccountRegistered :: "grumpkinAddress \<Rightarrow> rollupDb \<Rightarrow> bool" where
  "RollupDb_isAccountRegistered k db \<longleftrightarrow> list_ex (\<lambda>a. ac_accountPublicKey a = grumpkinAddress_buffer k) (tb_account db)"

definition RollupDb_isAliasRegistered :: "aliasHash \<Rightarrow> rollupDb \<Rightarrow> bool" where
  "RollupDb_isAliasRegistered h db \<longleftrightarrow> list_ex (\<lambda>a. ac_aliasHash a = aliasHash_buffer h) (tb_account db)"

definition RollupDb_isAliasRegisteredToAccount :: "grumpkinAddress \<Rightarrow> aliasHash \<Rightarrow> rollupDb \<Rightarrow> bool" where
  "RollupDb_isAliasRegisteredToAccount k h db \<longleftrightarrow>
     list_ex (\<lambda>a. ac_accountPublicKey a = grumpkinAddress_buffer k \<and> ac_aliasHash a = aliasHash_buffer h) (tb_account db)"

text \<open>The row of the rollup that the proof of an account's transaction belongs to.\<close>

definition RollupDb_getAccountRegistrationRollupId :: "grumpkinAddress \<Rightarrow> rollupDb \<Rightarrow> int option" where
  "RollupDb_getAccountRegistrationRollupId k db =
     Option.bind (find (\<lambda>a. ac_accountPublicKey a = grumpkinAddress_buffer k) (tb_account db)) (\<lambda>a.
     Option.bind (ac_tx a) (\<lambda>txId.
     Option.bind (find (\<lambda>w. td_id (tw_tx w) = txId) (tb_tx db)) (\<lambda>w.
     Option.bind (tw_rollupProof w) (\<lambda>proofId.
     Option.bind (find (\<lambda>p. pw_id p = proofId) (tb_rollupProof db)) pw_rollup))))"

section \<open>Rollup proofs\<close>

definition proofRow :: "rollupProofDao \<Rightarrow> int option \<Rightarrow> rollupProofRow" where
  "proofRow p rollup = \<lparr>pw_id = rpd_id p, pw_rollupSize = rpd_rollupSize p, pw_dataStartIndex = rpd_dataStartIndex p,
     pw_encodedProofData = rpd_encodedProofData p, pw_created = rpd_created p, pw_rollup = rollup\<rparr>"

definition assignProof :: "buffer \<Rightarrow> txRow list \<Rightarrow> txDao \<Rightarrow> txRow list" where
  "assignProof proofId rows tx =
     updateWhere (\<lambda>w. td_id (tw_tx w) = td_id tx) (tw_rollupProof_update (\<lambda>_. Some proofId)) (saveTx rows tx)"

text \<open>Saving a proof saves its transactions too; the transactions it had and no longer lists lose it.\<close>

definition RollupDb_addRollupProof :: "rollupProofDao \<Rightarrow> rollupDb \<Rightarrow> rollupDb res" where
  "RollupDb_addRollupProof p db =
    (let kept = updateWhere (\<lambda>w. tw_rollupProof w = Some (rpd_id p)) (tw_rollupProof_update (\<lambda>_. None)) (tb_tx db);
         rollup = (case find (\<lambda>r. pw_id r = rpd_id p) (tb_rollupProof db) of None \<Rightarrow> None | Some r \<Rightarrow> pw_rollup r)
     in mapR (\<lambda>rows. db\<lparr>tb_rollupProof := saveRow pw_id (tb_rollupProof db) (proofRow p rollup), tb_tx := rows\<rparr>)
          (foldE (storeTx (assignProof (rpd_id p))) kept (rpd_txs p)))"

text \<open>Each proof is saved in a transaction of its own: those before one that fails stay.\<close>

fun RollupDb_addRollupProofs :: "rollupProofDao list \<Rightarrow> rollupDb \<Rightarrow> js_error option \<times> rollupDb" where
  "RollupDb_addRollupProofs [] db = (None, db)"
| "RollupDb_addRollupProofs (p # ps) db =
    (case RollupDb_addRollupProof p db of Inl e \<Rightarrow> (Some e, db) | Inr db' \<Rightarrow> RollupDb_addRollupProofs ps db')"

text \<open>\<open>afterLoad\<close> puts the transactions in the order of the proof; a transaction that is not there is \<open>undefined\<close>.\<close>

definition txsOfProof :: "buffer \<Rightarrow> rollupDb \<Rightarrow> txDao list" where
  "txsOfProof proofId db = map tw_tx (filter (\<lambda>w. tw_rollupProof w = Some proofId) (tb_tx db))"

definition loadedTxs :: "(buffer \<Rightarrow> buffer) \<Rightarrow> rollupProofRow \<Rightarrow> txDao list \<Rightarrow> txDao option list res" where
  "loadedTxs keccak p txs =
    (if txs = [] then Inr []
     else bindE (RollupProofData_decode (pw_encodedProofData p)) (\<lambda>decodedProofData.
       bindE (getNonPaddingTxIds keccak decodedProofData) (\<lambda>txIds.
         Inr (map (\<lambda>i. find (\<lambda>tx. td_id tx = i) txs) txIds))))"

definition RollupDb_getRollupProof ::
  "(buffer \<Rightarrow> buffer) \<Rightarrow> buffer \<Rightarrow> rollupDb \<Rightarrow> (rollupProofRow \<times> txDao option list) option res" where
  "RollupDb_getRollupProof keccak i db = (case find (\<lambda>p. pw_id p = i) (tb_rollupProof db) of
     None \<Rightarrow> Inr None
   | Some p \<Rightarrow> mapR (\<lambda>txs. Some (p, txs)) (loadedTxs keccak p (txsOfProof i db)))"

definition RollupDb_deleteRollupProof :: "buffer \<Rightarrow> rollupDb \<Rightarrow> rollupDb" where
  "RollupDb_deleteRollupProof i = deleteRollupProofsWhere (\<lambda>p. pw_id p = i)"

definition RollupDb_deleteTxlessRollupProofs :: "rollupDb \<Rightarrow> rollupDb" where
  "RollupDb_deleteTxlessRollupProofs db =
    (let orphaned = filter (\<lambda>p. txsOfProof (pw_id p) db = []) (tb_rollupProof db)
     in deleteRollupProofsWhere (\<lambda>p. pw_id p \<in> set (map pw_id orphaned)) db)"

definition RollupDb_deleteOrphanedRollupProofs :: "rollupDb \<Rightarrow> rollupDb" where
  "RollupDb_deleteOrphanedRollupProofs = deleteRollupProofsWhere (\<lambda>p. pw_rollup p = None)"

section \<open>Rollups\<close>

definition settledRows :: "rollupDb \<Rightarrow> rollupRow list" where
  "settledRows db = filter (\<lambda>r. rw_mined r \<noteq> None) (tb_rollup db)"

definition RollupDb_getNumSettledRollups :: "rollupDb \<Rightarrow> nat" where
  "RollupDb_getNumSettledRollups db = length (settledRows db)"

text \<open>\<open>findOne\<close> with the ids in descending order.\<close>

definition latestSettled :: "rollupDb \<Rightarrow> rollupRow option" where
  "latestSettled db = (if settledRows db = [] then None else Some (last (sort_key rw_id (settledRows db))))"

definition RollupDb_getNextRollupId :: "rollupDb \<Rightarrow> int" where
  "RollupDb_getNextRollupId db = (case latestSettled db of None \<Rightarrow> 0 | Some r \<Rightarrow> rw_id r + 1)"

text \<open>An undefined position is stored as -1.\<close>

definition txPosition :: "txDao \<Rightarrow> int" where
  "txPosition tx = (case td_position tx of None \<Rightarrow> -1 | Some i \<Rightarrow> i)"

definition rollupTxsInOrder :: "buffer \<Rightarrow> rollupDb \<Rightarrow> txDao list" where
  "rollupTxsInOrder proofId db = sort_key txPosition (txsOfProof proofId db)"

text \<open>The rollup with its proof and the proof's transactions by position.\<close>

definition loadRollup :: "rollupDb \<Rightarrow> rollupRow \<Rightarrow> rollupDao option" where
  "loadRollup db r = (case find (\<lambda>p. pw_rollup p = Some (rw_id r)) (tb_rollupProof db) of
     None \<Rightarrow> None
   | Some p \<Rightarrow> Some \<lparr>ro_id = rw_id r, ro_dataRoot = rw_dataRoot r,
       ro_rollupProof = \<lparr>rpd_id = pw_id p, rpd_txs = rollupTxsInOrder (pw_id p) db, rpd_encodedProofData = pw_encodedProofData p,
         rpd_rollupSize = pw_rollupSize p, rpd_dataStartIndex = pw_dataStartIndex p, rpd_created = pw_created p\<rparr>,
       ro_processRollupCalldata = rw_processRollupCalldata r, ro_interactionResult = rw_interactionResult r,
       ro_ethTxHash = rw_ethTxHash r, ro_gasPrice = rw_gasPrice r, ro_gasUsed = rw_gasUsed r, ro_mined = rw_mined r,
       ro_subtreeRoot = rw_subtreeRoot r\<rparr>)"

text \<open>A rollup without a proof throws where its \<open>txs\<close> are set.\<close>

definition loadRollupE :: "rollupDb \<Rightarrow> rollupRow \<Rightarrow> rollupDao res" where
  "loadRollupE db r = (case loadRollup db r of None \<Rightarrow> Inl TypeError | Some dao \<Rightarrow> Inr dao)"

definition RollupDb_getRollup :: "int \<Rightarrow> rollupDb \<Rightarrow> rollupDao option res" where
  "RollupDb_getRollup i db = (case find (\<lambda>r. rw_id r = i) (tb_rollup db) of
     None \<Rightarrow> Inr None | Some r \<Rightarrow> mapR Some (loadRollupE db r))"

definition RollupDb_getSettledRollups :: "int \<Rightarrow> nat \<Rightarrow> rollupDb \<Rightarrow> rollupDao list res" where
  "RollupDb_getSettledRollups from n db =
     mapE (loadRollupE db) (take n (sort_key rw_id (filter (\<lambda>r. from \<le> rw_id r) (settledRows db))))"

definition RollupDb_getRollups :: "nat option \<Rightarrow> nat \<Rightarrow> bool \<Rightarrow> rollupDb \<Rightarrow> rollupDao list res" where
  "RollupDb_getRollups n skip descending db =
    (let rows = sort_key rw_id (tb_rollup db)
     in mapE (loadRollupE db) (takeOpt n (drop skip (if descending then rev rows else rows))))"

text \<open>Without their transactions: the rows with the proof of each.\<close>

definition withProofRow :: "rollupDb \<Rightarrow> rollupRow \<Rightarrow> rollupRow \<times> rollupProofRow option" where
  "withProofRow db r = (r, find (\<lambda>p. pw_rollup p = Some (rw_id r)) (tb_rollupProof db))"

definition RollupDb_getSettledRollupsAfterTime :: "int \<Rightarrow> rollupDb \<Rightarrow> (rollupRow \<times> rollupProofRow option) list" where
  "RollupDb_getSettledRollupsAfterTime time db = map (withProofRow db) (sort_key rw_id
     (filter (\<lambda>r. case rw_mined r of None \<Rightarrow> False | Some t \<Rightarrow> time \<le> t) (tb_rollup db)))"

definition RollupDb_getLastSettledRollup :: "rollupDb \<Rightarrow> (rollupRow \<times> rollupProofRow option) option" where
  "RollupDb_getLastSettledRollup db = map_option (withProofRow db) (latestSettled db)"

definition RollupDb_getUnsettledRollups :: "rollupDb \<Rightarrow> rollupRow list" where
  "RollupDb_getUnsettledRollups db = sort_key rw_id (filter (\<lambda>r. rw_mined r = None) (tb_rollup db))"

definition RollupDb_getRollupsByRollupIds :: "int list \<Rightarrow> rollupDb \<Rightarrow> rollupRow list" where
  "RollupDb_getRollupsByRollupIds ids db = filter (\<lambda>r. rw_id r \<in> set ids) (tb_rollup db)"

definition RollupDb_getRollupByDataRoot :: "buffer \<Rightarrow> rollupDb \<Rightarrow> rollupRow option" where
  "RollupDb_getRollupByDataRoot dataRoot db = find (\<lambda>r. rw_dataRoot r = dataRoot) (tb_rollup db)"

definition RollupDb_getDataRootsIndex :: "buffer \<Rightarrow> buffer \<Rightarrow> rollupDb \<Rightarrow> int res" where
  "RollupDb_getDataRootsIndex initialDataRoot dataRoot db =
    (if dataRoot = initialDataRoot then Inr 0
     else case RollupDb_getRollupByDataRoot dataRoot db of
            None \<Rightarrow> Inl (Thrown ''Rollup not found for merkle root'')
          | Some rollup \<Rightarrow> Inr (rw_id rollup + 1))"

definition RollupDb_deleteUnsettledRollups :: "rollupDb \<Rightarrow> rollupDb" where
  "RollupDb_deleteUnsettledRollups = deleteRollupsWhere (\<lambda>r. rw_mined r = None)"

definition RollupDb_setCallData :: "int \<Rightarrow> buffer \<Rightarrow> rollupDb \<Rightarrow> rollupDb" where
  "RollupDb_setCallData i callData db = db\<lparr>tb_rollup := updateWhere (\<lambda>r. rw_id r = i)
     (rw_processRollupCalldata_update (\<lambda>_. Some callData)) (tb_rollup db)\<rparr>"

definition RollupDb_confirmSent :: "int \<Rightarrow> txHash \<Rightarrow> rollupDb \<Rightarrow> rollupDb" where
  "RollupDb_confirmSent i hash db = db\<lparr>tb_rollup := updateWhere (\<lambda>r. rw_id r = i)
     (rw_ethTxHash_update (\<lambda>_. Some hash)) (tb_rollup db)\<rparr>"

definition rollupRowOf :: "rollupDao \<Rightarrow> rollupRow" where
  "rollupRowOf r = \<lparr>rw_id = ro_id r, rw_dataRoot = ro_dataRoot r, rw_processRollupCalldata = ro_processRollupCalldata r,
     rw_interactionResult = ro_interactionResult r, rw_ethTxHash = ro_ethTxHash r, rw_gasPrice = ro_gasPrice r,
     rw_gasUsed = ro_gasUsed r, rw_mined = ro_mined r, rw_subtreeRoot = ro_subtreeRoot r\<rparr>"

text \<open>The upsert of a transaction overwrites the defined columns; \<open>secondClass\<close> is not defined for one found on the chain.\<close>

definition mergeTx :: "txDao \<Rightarrow> txDao \<Rightarrow> txDao" where
  "mergeTx new old = new\<lparr>td_signature := (case td_signature new of None \<Rightarrow> td_signature old | s \<Rightarrow> s),
     td_nullifier1 := (case td_nullifier1 new of None \<Rightarrow> td_nullifier1 old | s \<Rightarrow> s),
     td_nullifier2 := (case td_nullifier2 new of None \<Rightarrow> td_nullifier2 old | s \<Rightarrow> s),
     td_dataRootsIndex := (case td_dataRootsIndex new of None \<Rightarrow> td_dataRootsIndex old | s \<Rightarrow> s),
     td_mined := (case td_mined new of None \<Rightarrow> td_mined old | s \<Rightarrow> s),
     td_secondClass := td_secondClass old\<rparr>"

definition upsertTx :: "buffer \<Rightarrow> txRow list \<Rightarrow> txDao \<Rightarrow> txRow list" where
  "upsertTx proofId rows tx =
    (if td_id tx \<in> set (map (\<lambda>w. td_id (tw_tx w)) rows)
     then updateWhere (\<lambda>w. td_id (tw_tx w) = td_id tx) (\<lambda>w. \<lparr>tw_tx = mergeTx tx (tw_tx w), tw_rollupProof = Some proofId\<rparr>) rows
     else rows @ [\<lparr>tw_tx = tx, tw_rollupProof = Some proofId\<rparr>])"

text \<open>The loop over the inner proofs, by position.\<close>

definition addProofTxs ::
  "(buffer \<Rightarrow> buffer) \<Rightarrow> buffer \<Rightarrow> txDao list \<Rightarrow> rollupDb \<Rightarrow> nat \<times> innerProofData \<Rightarrow> rollupDb res" where
  "addProofTxs keccak proofId txs db = (\<lambda>(i, prf).
     if InnerProofData_isPadding prf then Inr db
     else bindE (InnerProofData_txId keccak prf) (\<lambda>txId.
       case find (\<lambda>tx. td_id tx = txId) txs of
         None \<Rightarrow> Inl (Thrown ''Could not find tx in rollup proof'')
       | Some tx \<Rightarrow> mapR (\<lambda>rows. db\<lparr>tb_tx := rows\<rparr>)
           (storeTx (upsertTx proofId) (tb_tx db) (tx\<lparr>td_position := Some (int i)\<rparr>))))"

definition RollupDb_addRollup :: "(buffer \<Rightarrow> buffer) \<Rightarrow> rollupDao \<Rightarrow> rollupDb \<Rightarrow> rollupDb res" where
  "RollupDb_addRollup keccak rollup db =
    (let prf = ro_rollupProof rollup;
         db = deleteRollupsWhere (\<lambda>r. rw_id r = ro_id rollup) db in
     bindE (insertRow (\<lambda>a b. rw_id a = rw_id b \<or> rw_dataRoot a = rw_dataRoot b) (tb_rollup db) (rollupRowOf rollup)) (\<lambda>rollups.
     let db = deleteRollupProofsWhere (\<lambda>p. pw_id p = rpd_id prf) (db\<lparr>tb_rollup := rollups\<rparr>) in
     bindE (insertRow (\<lambda>a b. pw_id a = pw_id b \<or> (pw_rollup a \<noteq> None \<and> pw_rollup a = pw_rollup b))
              (tb_rollupProof db) (proofRow prf (Some (ro_id rollup)))) (\<lambda>rollupProofs.
     let db = db\<lparr>tb_rollupProof := rollupProofs\<rparr> in
     bindE (RollupProofData_decode (rpd_encodedProofData prf)) (\<lambda>decodedProofData.
     bindE (foldE (addProofTxs keccak (rpd_id prf) (rpd_txs prf)) db (enumerate 0 (rp_innerProofData decodedProofData))) (\<lambda>db.
     bindE (getNewAccountDaos (rpd_txs prf)) (\<lambda>accountDaos.
       Inr (db\<lparr>tb_account := saveAccounts (tb_account db) accountDaos\<rparr>)))))))"

text \<open>What the chain says of a mined rollup. The bridge metrics are saved, the asset metrics inserted.\<close>

record minedRollup =
  mr_gasUsed :: int
  mr_gasPrice :: int
  mr_mined :: int
  mr_ethTxHash :: txHash
  mr_interactionResult :: "defiInteractionEvent list"
  mr_subtreeRoot :: buffer

definition storedInteractionResult :: "defiInteractionEvent list \<Rightarrow> buffer res" where
  "storedInteractionResult events =
     bindE (mapE DefiInteractionEvent_toBuffer events) serializeBufferArrayToVector"

definition RollupDb_confirmMined ::
  "int \<Rightarrow> minedRollup \<Rightarrow> buffer list \<Rightarrow> assetMetricsDao list \<Rightarrow> bridgeMetricsDao list \<Rightarrow> rollupDb \<Rightarrow> rollupDb res" where
  "RollupDb_confirmMined i m txIds assetMetrics bridgeMetrics db =
    (let db = db\<lparr>tb_tx := updateWhere (\<lambda>w. td_id (tw_tx w) \<in> set txIds)
           (tw_tx_update (td_mined_update (\<lambda>_. Some (mr_mined m)))) (tb_tx db)\<rparr> in
     bindE (storedInteractionResult (mr_interactionResult m)) (\<lambda>interactionResult.
     let db = db\<lparr>tb_rollup := updateWhere (\<lambda>r. rw_id r = i)
           (\<lambda>r. r\<lparr>rw_mined := Some (mr_mined m), rw_gasUsed := Some (mr_gasUsed m), rw_gasPrice := Some (toBufferBE (mr_gasPrice m) 32),
                  rw_ethTxHash := Some (mr_ethTxHash m), rw_interactionResult := Some interactionResult,
                  rw_subtreeRoot := Some (mr_subtreeRoot m)\<rparr>) (tb_rollup db)\<rparr> in
     bindE (foldE (insertRow (\<lambda>a b. am_rollupId a = am_rollupId b \<and> am_assetId a = am_assetId b)) (tb_assetMetrics db) assetMetrics) (\<lambda>ams.
       Inr (db\<lparr>tb_assetMetrics := ams,
               tb_bridgeMetrics := foldl (saveRow (\<lambda>b. (bm_rollupId b, bm_bridgeId b))) (tb_bridgeMetrics db) bridgeMetrics\<rparr>))))"

section \<open>Metrics\<close>

definition RollupDb_getAssetMetrics :: "int \<Rightarrow> rollupDb \<Rightarrow> assetMetricsDao option" where
  "RollupDb_getAssetMetrics assetId db =
    (let ms = filter (\<lambda>m. am_assetId m = assetId) (tb_assetMetrics db)
     in if ms = [] then None else Some (last (sort_key am_rollupId ms)))"

definition RollupDb_getBridgeMetricsForRollup :: "int \<Rightarrow> int \<Rightarrow> rollupDb \<Rightarrow> bridgeMetricsDao option" where
  "RollupDb_getBridgeMetricsForRollup bcd i db = find (\<lambda>b. bm_bridgeId b = bcd \<and> bm_rollupId b = i) (tb_bridgeMetrics db)"

definition RollupDb_getOurLastBridgeMetrics :: "int \<Rightarrow> rollupDb \<Rightarrow> bridgeMetricsDao option" where
  "RollupDb_getOurLastBridgeMetrics bcd db =
    (let ms = filter (\<lambda>b. bm_bridgeId b = bcd \<and> bm_publishedByProvider b) (tb_bridgeMetrics db)
     in if ms = [] then None else Some (last (sort_key bm_rollupId ms)))"

definition RollupDb_addBridgeMetrics :: "bridgeMetricsDao list \<Rightarrow> rollupDb \<Rightarrow> rollupDb" where
  "RollupDb_addBridgeMetrics ms db =
     db\<lparr>tb_bridgeMetrics := foldl (saveRow (\<lambda>b. (bm_rollupId b, bm_bridgeId b))) (tb_bridgeMetrics db) ms\<rparr>"

section \<open>Claims\<close>

definition mergeClaim :: "claimDao \<Rightarrow> claimDao \<Rightarrow> claimDao" where
  "mergeClaim c old = c\<lparr>cd_claimed := (case cd_claimed c of None \<Rightarrow> cd_claimed old | t \<Rightarrow> t),
     cd_interactionResultRollupId := (case cd_interactionResultRollupId c of None \<Rightarrow> cd_interactionResultRollupId old | t \<Rightarrow> t)\<rparr>"

definition saveClaim :: "claimDao list \<Rightarrow> claimDao \<Rightarrow> claimDao list res" where
  "saveClaim rows c =
    (if list_ex (\<lambda>x. cd_id x \<noteq> cd_id c \<and> cd_nullifier x = cd_nullifier c) rows then Inl (Thrown ''UNIQUE constraint failed'')
     else Inr (saveRowWith cd_id mergeClaim rows c))"

definition RollupDb_addClaims :: "claimDao list \<Rightarrow> rollupDb \<Rightarrow> rollupDb res" where
  "RollupDb_addClaims claims db = mapR (\<lambda>rows. db\<lparr>tb_claim := rows\<rparr>) (foldE saveClaim (tb_claim db) claims)"

definition RollupDb_getClaimsToRollup :: "nat option \<Rightarrow> rollupDb \<Rightarrow> claimDao list" where
  "RollupDb_getClaimsToRollup n db =
     takeOpt n (sort_key cd_id (filter (\<lambda>c. cd_claimed c = None \<and> cd_interactionResultRollupId c \<noteq> None) (tb_claim db)))"

definition RollupDb_updateClaimsWithResultRollupId :: "int list \<Rightarrow> int \<Rightarrow> rollupDb \<Rightarrow> rollupDb" where
  "RollupDb_updateClaimsWithResultRollupId nonces i db = db\<lparr>tb_claim := updateWhere (\<lambda>c. cd_interactionNonce c \<in> set nonces)
     (cd_interactionResultRollupId_update (\<lambda>_. Some i)) (tb_claim db)\<rparr>"

definition RollupDb_confirmClaimed :: "buffer list \<Rightarrow> int \<Rightarrow> rollupDb \<Rightarrow> rollupDb" where
  "RollupDb_confirmClaimed nullifiers claimed db = db\<lparr>tb_claim := updateWhere (\<lambda>c. cd_nullifier c \<in> set nullifiers)
     (cd_claimed_update (\<lambda>_. Some claimed)) (tb_claim db)\<rparr>"

definition RollupDb_deleteUnsettledClaimTxs :: "rollupDb \<Rightarrow> rollupDb" where
  "RollupDb_deleteUnsettledClaimTxs db =
    (let nullifiers = map cd_nullifier (filter (\<lambda>c. cd_claimed c = None) (tb_claim db))
     in deleteTxsWhere (\<lambda>w. td_nullifier1 (tw_tx w) \<in> Some ` set nullifiers) db)"

definition RollupDb_eraseDb :: "rollupDb \<Rightarrow> rollupDb" where
  "RollupDb_eraseDb db =
    (let db = db\<lparr>tb_account := [], tb_assetMetrics := [], tb_claim := []\<rparr>;
         db = deleteRollupsWhere (\<lambda>_. True) db;
         db = deleteRollupProofsWhere (\<lambda>_. True) db
     in deleteTxsWhere (\<lambda>_. True) db)"

definition emptyRollupDb :: rollupDb where
  "emptyRollupDb = \<lparr>tb_tx = [], tb_rollupProof = [], tb_rollup = [], tb_account = [], tb_claim = [], tb_assetMetrics = [],
     tb_bridgeMetrics = []\<rparr>"

section \<open>The block served for a rollup\<close>

text \<open>\<open>dao.ethTxHash!\<close>, \<open>mined!\<close>, \<open>gasUsed!\<close> of a rollup that is not mined are \<open>undefined\<close>, which the formats of a block
  do not take.\<close>

definition rollupDaoToBlock :: "rollupDao \<Rightarrow> block res" where
  "rollupDaoToBlock dao = (case (ro_ethTxHash dao, ro_mined dao, ro_interactionResult dao, ro_gasUsed dao, ro_gasPrice dao) of
     (Some txHash, Some minedAt, Some interactionResult, Some gasUsed, Some gasPrice) \<Rightarrow>
       bindE (parseInteractionResult interactionResult) (\<lambda>events. Inr
         \<lparr>bl_txHash = txHash, bl_mined = Some minedAt, bl_rollupId = ro_id dao, bl_rollupSize = rpd_rollupSize (ro_rollupProof dao),
          bl_encodedRollupProofData = rpd_encodedProofData (ro_rollupProof dao),
          bl_offchainTxData = map td_offchainTxData (rpd_txs (ro_rollupProof dao)), bl_interactionResult = events,
          bl_gasUsed = gasUsed, bl_gasPrice = toBigIntBE gasPrice, bl_subtreeRoot = ro_subtreeRoot dao\<rparr>)
   | _ \<Rightarrow> Inl TypeError)"

definition rollupDaoToBlockBuffer :: "rollupDao \<Rightarrow> buffer res" where
  "rollupDaoToBlockBuffer dao = bindE (rollupDaoToBlock dao) Block_toBuffer"

section \<open>Lemmas: storing the transactions of a rollup\<close>

definition rowIds :: "rollupDb \<Rightarrow> buffer list" where
  "rowIds db = map (\<lambda>w. td_id (tw_tx w)) (tb_tx db)"

text \<open>What the upsert keeps of a transaction.\<close>

definition storedAs :: "txDao \<Rightarrow> txDao \<Rightarrow> bool" where
  "storedAs tx x \<longleftrightarrow> td_id x = td_id tx \<and> td_proofData x = td_proofData tx \<and> td_offchainTxData x = td_offchainTxData tx
     \<and> td_txType x = td_txType tx \<and> td_created x = td_created tx \<and> (td_mined tx \<noteq> None \<longrightarrow> td_mined x = td_mined tx)"

lemma storedAs_merge: "storedAs tx (mergeTx tx old)" "storedAs tx tx" "td_position (mergeTx tx old) = td_position tx"
  by (auto simp: storedAs_def mergeTx_def)

lemma storeTx_Inr: "storeTx store rows tx = Inr rows' \<longleftrightarrow> \<not> nullifiersClash tx rows \<and> rows' = store rows tx"
  by (auto simp: storeTx_def)

lemma addProofTxs_cases:
  assumes "addProofTxs keccak p txs db (i, q) = Inr db'"
  obtains "InnerProofData_isPadding q" "db' = db"
  | k tx where "\<not> InnerProofData_isPadding q" "InnerProofData_txId keccak q = Inr k" "find (\<lambda>tx. td_id tx = k) txs = Some tx"
      "db' = db\<lparr>tb_tx := upsertTx p (tb_tx db) (tx\<lparr>td_position := Some (int i)\<rparr>)\<rparr>"
  using assms by (auto simp: addProofTxs_def mapR_def bindE_eq_Inr storeTx_Inr split: if_splits option.splits)

lemma mset_upsert_gone:
  assumes "distinct (map (\<lambda>w. td_id (tw_tx w)) rows)" "w \<in> set rows" "td_id (tw_tx w) = i" "tw_rollupProof w \<noteq> Some p"
  shows "mset (filter (\<lambda>w. tw_rollupProof w = Some p) (updateWhere (\<lambda>w. td_id (tw_tx w) = i) (\<lambda>w. \<lparr>tw_tx = f w, tw_rollupProof = Some p\<rparr>) rows))
    = add_mset \<lparr>tw_tx = f w, tw_rollupProof = Some p\<rparr> (mset (filter (\<lambda>w. tw_rollupProof w = Some p) rows))"
  using assms
proof (induction rows)
  case (Cons r rows)
  let ?u = "updateWhere (\<lambda>w. td_id (tw_tx w) = i) (\<lambda>w. \<lparr>tw_tx = f w, tw_rollupProof = Some p\<rparr>)"
  show ?case
  proof (cases "r = w")
    case True
    have "i \<notin> (\<lambda>w. td_id (tw_tx w)) ` set rows" using Cons.prems(1,3) True by simp
    then have "td_id (tw_tx x) \<noteq> i" if "x \<in> set rows" for x using that by blast
    then have "?u rows = rows" by (simp add: updateWhere_def map_idI)
    then show ?thesis using True Cons.prems(3,4) by (simp add: updateWhere_def)
  next
    case False
    then have w: "w \<in> set rows" using Cons.prems(2) by simp
    then have "td_id (tw_tx r) \<noteq> i" using Cons.prems(1,3) by force
    then show ?thesis using Cons.IH [OF _ w Cons.prems(3,4)] Cons.prems(1) by (simp add: updateWhere_def)
  qed
qed simp

lemma upsertTx_stores:
  assumes "distinct (rowIds db)" "td_id tx \<notin> td_id ` set (txsOfProof p db)"
  shows "\<exists>x. storedAs tx x \<and> td_position x = td_position tx
    \<and> mset (txsOfProof p (db\<lparr>tb_tx := upsertTx p (tb_tx db) tx\<rparr>)) = add_mset x (mset (txsOfProof p db))"
    and "distinct (rowIds (db\<lparr>tb_tx := upsertTx p (tb_tx db) tx\<rparr>))"
proof -
  let ?rows = "tb_tx db"
  have e: "map (\<lambda>w. td_id (tw_tx w)) (updateWhere (\<lambda>w. td_id (tw_tx w) = td_id tx) (\<lambda>w. \<lparr>tw_tx = mergeTx tx (tw_tx w), tw_rollupProof = Some p\<rparr>) ?rows)
      = map (\<lambda>w. td_id (tw_tx w)) ?rows"
    by (simp add: updateWhere_def mergeTx_def)
  show "distinct (rowIds (db\<lparr>tb_tx := upsertTx p ?rows tx\<rparr>))"
  proof (cases "td_id tx \<in> set (map (\<lambda>w. td_id (tw_tx w)) ?rows)")
    case True
    then show ?thesis using assms(1) e by (simp add: rowIds_def upsertTx_def)
  next
    case False
    then show ?thesis using assms(1) by (simp add: rowIds_def upsertTx_def)
  qed
  show "\<exists>x. storedAs tx x \<and> td_position x = td_position tx
    \<and> mset (txsOfProof p (db\<lparr>tb_tx := upsertTx p ?rows tx\<rparr>)) = add_mset x (mset (txsOfProof p db))"
  proof (cases "td_id tx \<in> set (map (\<lambda>w. td_id (tw_tx w)) ?rows)")
    case True
    then obtain w where w: "w \<in> set ?rows" "td_id (tw_tx w) = td_id tx" by auto
    have "tw_rollupProof w \<noteq> Some p"
    proof
      assume "tw_rollupProof w = Some p"
      then have "tw_tx w \<in> set (txsOfProof p db)" using w(1) by (auto simp: txsOfProof_def)
      then show False using assms(2) w(2) by (metis imageI)
    qed
    from mset_upsert_gone [OF assms(1) [unfolded rowIds_def] w this, of "\<lambda>w. mergeTx tx (tw_tx w)"]
    have "mset (txsOfProof p (db\<lparr>tb_tx := upsertTx p ?rows tx\<rparr>)) = add_mset (mergeTx tx (tw_tx w)) (mset (txsOfProof p db))"
      using True by (simp add: txsOfProof_def upsertTx_def)
    then show ?thesis using storedAs_merge by blast
  next
    case False
    then have "mset (txsOfProof p (db\<lparr>tb_tx := upsertTx p ?rows tx\<rparr>)) = add_mset tx (mset (txsOfProof p db))"
      by (simp add: txsOfProof_def upsertTx_def)
    then show ?thesis using storedAs_merge(2) by blast
  qed
qed

lemma addProofTxs_fold:
  assumes "foldE (addProofTxs keccak p txs) db (enumerate i ps) = Inr db'"
    and "mapE (InnerProofData_txId keccak) (filter (\<lambda>q. \<not> InnerProofData_isPadding q) ps) = Inr ids"
    and "mset (txsOfProof p db) = mset L" "distinct (map td_id L @ ids)" "distinct (rowIds db)"
  shows "\<exists>M. mset (txsOfProof p db') = mset (L @ M) \<and> list_all2 (\<lambda>i x. \<exists>tx. find (\<lambda>tx. td_id tx = i) txs = Some tx \<and> storedAs tx x) ids M
    \<and> sorted_wrt (<) (map txPosition M) \<and> (\<forall>x\<in>set M. int i \<le> txPosition x)
    \<and> db' = db\<lparr>tb_tx := tb_tx db'\<rparr> \<and> distinct (rowIds db')"
  using assms
proof (induction ps arbitrary: i db L ids)
  case Nil
  then show ?case by (intro exI [of _ "[]"]) simp
next
  case (Cons q ps)
  show ?case
  proof (cases "InnerProofData_isPadding q")
    case True
    then have "foldE (addProofTxs keccak p txs) db (enumerate (Suc i) ps) = Inr db'"
      "mapE (InnerProofData_txId keccak) (filter (\<lambda>q. \<not> InnerProofData_isPadding q) ps) = Inr ids"
      using Cons.prems(1,2) by (simp_all add: addProofTxs_def [of _ _ _ db])
    from Cons.IH [OF this Cons.prems(3-5)] obtain M where M: "mset (txsOfProof p db') = mset (L @ M)"
      "list_all2 (\<lambda>i x. \<exists>tx. find (\<lambda>tx. td_id tx = i) txs = Some tx \<and> storedAs tx x) ids M"
      "sorted_wrt (<) (map txPosition M)" "\<forall>x\<in>set M. int (Suc i) \<le> txPosition x" "db' = db\<lparr>tb_tx := tb_tx db'\<rparr>" "distinct (rowIds db')"
      by blast
    moreover have "\<forall>x\<in>set M. int i \<le> txPosition x" using M(4) by force
    ultimately show ?thesis by blast
  next
    case False
    obtain k ks where ids: "ids = k # ks" "InnerProofData_txId keccak q = Inr k"
      "mapE (InnerProofData_txId keccak) (filter (\<lambda>q. \<not> InnerProofData_isPadding q) ps) = Inr ks"
      using Cons.prems(2) False by (auto simp: bindE_eq_Inr)
    from Cons.prems(1) obtain db1 where "addProofTxs keccak p txs db (i, q) = Inr db1" "foldE (addProofTxs keccak p txs) db1 (enumerate (Suc i) ps) = Inr db'"
      by (auto simp: bindE_eq_Inr)
    with False ids(2) obtain tx where tx: "find (\<lambda>tx. td_id tx = k) txs = Some tx"
      and f: "foldE (addProofTxs keccak p txs) (db\<lparr>tb_tx := upsertTx p (tb_tx db) (tx\<lparr>td_position := Some (int i)\<rparr>)\<rparr>) (enumerate (Suc i) ps) = Inr db'"
      by (elim addProofTxs_cases) auto
    let ?tx = "tx\<lparr>td_position := Some (int i)\<rparr>" and ?db = "db\<lparr>tb_tx := upsertTx p (tb_tx db) (tx\<lparr>td_position := Some (int i)\<rparr>)\<rparr>"
    have k: "td_id tx = k" using tx by (auto simp: find_Some_iff)
    have "set (txsOfProof p db) = set L" using Cons.prems(3) by (metis set_mset_mset)
    then have "td_id ?tx \<notin> td_id ` set (txsOfProof p db)" using Cons.prems(4) k by (auto simp: ids(1))
    from upsertTx_stores [OF Cons.prems(5) this] obtain x where x: "storedAs ?tx x" "td_position x = Some (int i)"
      "mset (txsOfProof p ?db) = add_mset x (mset (txsOfProof p db))" "distinct (rowIds ?db)" by auto
    have "mset (txsOfProof p ?db) = mset (L @ [x])" using x(3) Cons.prems(3) by simp
    moreover have "distinct (map td_id (L @ [x]) @ ks)" using Cons.prems(4) x(1) k by (auto simp: ids(1) storedAs_def)
    ultimately obtain M where M: "mset (txsOfProof p db') = mset ((L @ [x]) @ M)"
      "list_all2 (\<lambda>i x. \<exists>tx. find (\<lambda>tx. td_id tx = i) txs = Some tx \<and> storedAs tx x) ks M"
      "sorted_wrt (<) (map txPosition M)" "\<forall>x\<in>set M. int (Suc i) \<le> txPosition x" "db' = ?db\<lparr>tb_tx := tb_tx db'\<rparr>" "distinct (rowIds db')"
      using Cons.IH [OF f ids(3) _ _ x(4)] by blast
    have "storedAs tx x" "txPosition x = int i" using x(1,2) by (simp_all add: storedAs_def txPosition_def)
    then show ?thesis using M tx ids(1) by (intro exI [of _ "x # M"]) force
  qed
qed

section \<open>Lemmas: the stored rollup\<close>

definition refsOK :: "rollupDb \<Rightarrow> bool" where
  "refsOK db \<longleftrightarrow> distinct (rowIds db)
     \<and> (\<forall>w\<in>set (tb_tx db). \<forall>i. tw_rollupProof w = Some i \<longrightarrow> i \<in> set (map pw_id (tb_rollupProof db)))"

lemma find_snoc_new: "\<not> (\<exists>x\<in>set xs. P x) \<Longrightarrow> P y \<Longrightarrow> find P (xs @ [y]) = Some y"
  by (induction xs) auto

lemma insertRow_Inr: "insertRow clash rows r = Inr rows' \<longleftrightarrow> \<not> (\<exists>x\<in>set rows. clash r x) \<and> rows' = rows @ [r]"
  by (auto simp: insertRow_def list_ex_iff)

lemma sort_key_unique:
  assumes "mset xs = mset ys" "sorted_wrt (<) (map f ys)"
  shows "sort_key f xs = ys"
proof -
  have d: "sorted (map f ys)" "distinct (map f ys)" using assms(2) by (simp_all add: strict_sorted_iff)
  have "set xs = set ys" using assms(1) by (metis set_mset_mset)
  then show ?thesis using assms(1) d by (intro sort_key_inj_key_eq) (simp_all add: distinct_map)
qed

lemma addProofTxs_tables: "foldE (addProofTxs keccak p txs) db xs = Inr db' \<Longrightarrow> db' = db\<lparr>tb_tx := tb_tx db'\<rparr>"
  by (rule foldE_invariant [where P = "\<lambda>d. d = db\<lparr>tb_tx := tb_tx d\<rparr>"], assumption, simp)
    (clarify, erule addProofTxs_cases, simp_all, metis rollupDb.surjective rollupDb.update_convs(1))

text \<open>The database before the transactions are added.\<close>

definition withoutRollup :: "rollupDao \<Rightarrow> rollupDb \<Rightarrow> rollupDb" where
  "withoutRollup dao db = deleteRollupProofsWhere (\<lambda>p. pw_id p = rpd_id (ro_rollupProof dao))
     ((deleteRollupsWhere (\<lambda>r. rw_id r = ro_id dao) db)\<lparr>tb_rollup := filter (\<lambda>r. rw_id r \<noteq> ro_id dao) (tb_rollup db) @ [rollupRowOf dao]\<rparr>)"

definition withRollup :: "rollupDao \<Rightarrow> rollupDb \<Rightarrow> rollupDb" where
  "withRollup dao db = (withoutRollup dao db)\<lparr>tb_rollupProof := tb_rollupProof (withoutRollup dao db) @ [proofRow (ro_rollupProof dao) (Some (ro_id dao))]\<rparr>"

lemma addRollup_parts:
  assumes "RollupDb_addRollup keccak dao db = Inr db'"
  obtains r db2 accounts where "RollupProofData_decode (rpd_encodedProofData (ro_rollupProof dao)) = Inr r"
    and "foldE (addProofTxs keccak (rpd_id (ro_rollupProof dao)) (rpd_txs (ro_rollupProof dao))) (withRollup dao db)
      (enumerate 0 (rp_innerProofData r)) = Inr db2" "db' = db2\<lparr>tb_account := accounts\<rparr>" "db2 = (withRollup dao db)\<lparr>tb_tx := tb_tx db2\<rparr>"
    and "\<forall>p\<in>set (tb_rollupProof (withoutRollup dao db)). pw_rollup p \<noteq> Some (ro_id dao)"
    and "\<forall>x\<in>set (tb_rollup db). rw_id x \<noteq> ro_id dao \<longrightarrow> rw_dataRoot x \<noteq> ro_dataRoot dao"
proof -
  let ?pr = "ro_rollupProof dao"
  have t: "tb_rollup (deleteRollupsWhere (\<lambda>r. rw_id r = ro_id dao) db) = filter (\<lambda>r. rw_id r \<noteq> ro_id dao) (tb_rollup db)"
    by (simp add: deleteRollupsWhere_def Let_def)
  from assms obtain rs ps r db2 acs
    where rs: "insertRow (\<lambda>a b. rw_id a = rw_id b \<or> rw_dataRoot a = rw_dataRoot b)
        (filter (\<lambda>r. rw_id r \<noteq> ro_id dao) (tb_rollup db)) (rollupRowOf dao) = Inr rs"
      and ps: "insertRow (\<lambda>a b. pw_id a = pw_id b \<or> (pw_rollup a \<noteq> None \<and> pw_rollup a = pw_rollup b))
        (tb_rollupProof (deleteRollupProofsWhere (\<lambda>p. pw_id p = rpd_id ?pr) ((deleteRollupsWhere (\<lambda>r. rw_id r = ro_id dao) db)\<lparr>tb_rollup := rs\<rparr>)))
        (proofRow ?pr (Some (ro_id dao))) = Inr ps"
      and r: "RollupProofData_decode (rpd_encodedProofData ?pr) = Inr r"
      and f: "foldE (addProofTxs keccak (rpd_id ?pr) (rpd_txs ?pr))
        ((deleteRollupProofsWhere (\<lambda>p. pw_id p = rpd_id ?pr) ((deleteRollupsWhere (\<lambda>r. rw_id r = ro_id dao) db)\<lparr>tb_rollup := rs\<rparr>))\<lparr>tb_rollupProof := ps\<rparr>)
        (enumerate 0 (rp_innerProofData r)) = Inr db2"
      and a: "db' = db2\<lparr>tb_account := saveAccounts (tb_account db2) acs\<rparr>"
    unfolding RollupDb_addRollup_def Let_def bindE_eq_Inr t by blast
  have e: "(deleteRollupsWhere (\<lambda>r. rw_id r = ro_id dao) db)\<lparr>tb_rollup := rs\<rparr>
      = (deleteRollupsWhere (\<lambda>r. rw_id r = ro_id dao) db)\<lparr>tb_rollup := filter (\<lambda>r. rw_id r \<noteq> ro_id dao) (tb_rollup db) @ [rollupRowOf dao]\<rparr>"
    using rs by (simp add: insertRow_Inr)
  note ps' = ps [unfolded e, folded withoutRollup_def, unfolded insertRow_Inr]
  have w: "(deleteRollupProofsWhere (\<lambda>p. pw_id p = rpd_id ?pr) ((deleteRollupsWhere (\<lambda>r. rw_id r = ro_id dao) db)\<lparr>tb_rollup := rs\<rparr>))\<lparr>tb_rollupProof := ps\<rparr>
      = withRollup dao db" using ps' unfolding withRollup_def e withoutRollup_def by simp
  show thesis
  proof (rule that [OF r f [unfolded w] a addProofTxs_tables [OF f [unfolded w]]])
    show "\<forall>p\<in>set (tb_rollupProof (withoutRollup dao db)). pw_rollup p \<noteq> Some (ro_id dao)"
      using ps' by (auto simp: proofRow_def)
    show "\<forall>x\<in>set (tb_rollup db). rw_id x \<noteq> ro_id dao \<longrightarrow> rw_dataRoot x \<noteq> ro_dataRoot dao"
      using rs by (auto simp: insertRow_Inr rollupRowOf_def)
  qed
qed

lemma withRollup_tables [simp]:
  "tb_rollup (withRollup dao db) = filter (\<lambda>r. rw_id r \<noteq> ro_id dao) (tb_rollup db) @ [rollupRowOf dao]"
  "tb_rollupProof (withRollup dao db) = tb_rollupProof (withoutRollup dao db) @ [proofRow (ro_rollupProof dao) (Some (ro_id dao))]"
  "tb_claim (withRollup dao db) = tb_claim db" "rowIds (withRollup dao db) = rowIds db"
  "tb_assetMetrics (withRollup dao db) = filter (\<lambda>m. am_rollupId m \<notin> set (map rw_id (filter (\<lambda>r. rw_id r = ro_id dao) (tb_rollup db)))) (tb_assetMetrics db)"
  by (simp_all add: withRollup_def withoutRollup_def deleteRollupProofsWhere_def deleteRollupsWhere_def Let_def rowIds_def updateWhere_def
      o_def if_distrib [of tw_tx] cong: if_cong)

lemma deleteRollupsWhere_proofIds: "map pw_id (tb_rollupProof (deleteRollupsWhere P db)) = map pw_id (tb_rollupProof db)"
  by (simp add: deleteRollupsWhere_def Let_def updateWhere_def o_def if_distrib [of pw_id] cong: if_cong)

lemma filter_ids: "set (map pw_id (filter (\<lambda>p. pw_id p = k) ps)) = {k} \<inter> set (map pw_id ps)"
  and filter_other_ids: "set (map pw_id (filter (\<lambda>p. pw_id p \<noteq> k) ps)) = set (map pw_id ps) - {k}"
  by auto

lemma withoutRollup_ids: "set (map pw_id (tb_rollupProof (withoutRollup dao db))) = set (map pw_id (tb_rollupProof db)) - {rpd_id (ro_rollupProof dao)}"
proof -
  have "tb_rollupProof (withoutRollup dao db) = filter (\<lambda>p. pw_id p \<noteq> rpd_id (ro_rollupProof dao)) (tb_rollupProof (deleteRollupsWhere (\<lambda>r. rw_id r = ro_id dao) db))"
    by (simp add: withoutRollup_def deleteRollupProofsWhere_def Let_def)
  then show ?thesis by (simp only: filter_other_ids deleteRollupsWhere_proofIds)
qed

lemma withRollup_txs:
  assumes "w \<in> set (tb_tx (withRollup dao db))" "tw_rollupProof w = Some i"
  shows "w \<in> set (tb_tx db) \<and> (i = rpd_id (ro_rollupProof dao) \<longrightarrow> i \<notin> set (map pw_id (tb_rollupProof db)))"
proof -
  have "tb_tx (withRollup dao db) = updateWhere (\<lambda>w. tw_rollupProof w \<in> Some ` ({rpd_id (ro_rollupProof dao)} \<inter> set (map pw_id (tb_rollupProof db))))
      (tw_rollupProof_update (\<lambda>_. None)) (tb_tx db)"
    unfolding withRollup_def withoutRollup_def deleteRollupProofsWhere_def Let_def
    using filter_ids [of "rpd_id (ro_rollupProof dao)" "tb_rollupProof (deleteRollupsWhere (\<lambda>r. rw_id r = ro_id dao) db)"]
    by (simp only: deleteRollupsWhere_proofIds rollupDb.simps) (simp add: deleteRollupsWhere_def Let_def)
  then show ?thesis using assms by (auto simp: updateWhere_def split: if_splits)
qed

lemma withRollup_noTxs: "refsOK db \<Longrightarrow> txsOfProof (rpd_id (ro_rollupProof dao)) (withRollup dao db) = []"
  using withRollup_txs [of _ dao db] unfolding txsOfProof_def refsOK_def by (fastforce simp: filter_empty_conv)

text \<open>The next id is behind the last settled rollup.\<close>

lemma sorted_last: "sorted (map f xs) \<Longrightarrow> y \<in> set xs \<Longrightarrow> f y \<le> (f (last xs) :: int)"
  by (induction xs) (auto simp: last_in_set)

lemma last_sort_key_Max:
  fixes f :: "'a \<Rightarrow> int"
  assumes "xs \<noteq> []"
  shows "f (last (sort_key f xs)) = Max (f ` set xs)"
proof -
  have "sort_key f xs \<noteq> []" using assms by (metis set_empty set_sort)
  then have "last (sort_key f xs) \<in> set xs" using last_in_set by fastforce
  moreover have "f y \<le> f (last (sort_key f xs))" if "y \<in> set xs" for y using sorted_last [of f "sort_key f xs" y] that by simp
  ultimately show ?thesis by (intro Max_eqI [symmetric]) auto
qed

lemma nextRollupId_eq:
  "RollupDb_getNextRollupId db = (if settledRows db = [] then 0 else Max (rw_id ` set (settledRows db)) + 1)"
  using last_sort_key_Max [of "settledRows db" rw_id] by (simp add: RollupDb_getNextRollupId_def latestSettled_def)

lemma nextRollupId_settled: "i \<in> set (map rw_id (settledRows db)) \<Longrightarrow> i < RollupDb_getNextRollupId db"
  by (auto simp: nextRollupId_eq zless_add1_eq le_less [symmetric])

lemma nextRollupId_after:
  assumes "set (map rw_id (settledRows db')) = insert i (set (map rw_id (settledRows db)) - {i})" "i = RollupDb_getNextRollupId db"
  shows "RollupDb_getNextRollupId db' = i + 1"
proof -
  have "settledRows db' \<noteq> []" using assms(1) by auto
  moreover have "Max (set (map rw_id (settledRows db'))) = i"
    unfolding assms(1) using nextRollupId_settled [of _ db] assms(2) by (intro Max_eqI) (auto simp: less_imp_le simp del: set_map)
  ultimately show ?thesis by (simp add: nextRollupId_eq)
qed

lemma addRollup_next:
  assumes "RollupDb_addRollup keccak dao db = Inr db'" "ro_id dao = RollupDb_getNextRollupId db" "ro_mined dao \<noteq> None"
  shows "RollupDb_getNextRollupId db' = ro_id dao + 1"
proof -
  obtain r db2 accounts where d: "db' = db2\<lparr>tb_account := accounts\<rparr>" "db2 = (withRollup dao db)\<lparr>tb_tx := tb_tx db2\<rparr>"
    using addRollup_parts [OF assms(1)] by metis
  have "tb_rollup db' = filter (\<lambda>r. rw_id r \<noteq> ro_id dao) (tb_rollup db) @ [rollupRowOf dao]"
    using d by (metis rollupDb.select_convs(3) rollupDb.surjective rollupDb.update_convs(1,4) withRollup_tables(1))
  then have "set (map rw_id (settledRows db')) = insert (ro_id dao) (set (map rw_id (settledRows db)) - {ro_id dao})"
    using assms(3) by (auto simp: settledRows_def rollupRowOf_def)
  then show ?thesis using assms(2) by (intro nextRollupId_after) simp_all
qed

text \<open>The rollup that was added, with its transactions in the order of the proof.\<close>

definition storedInOrder :: "txDao list \<Rightarrow> buffer list \<Rightarrow> txDao list \<Rightarrow> bool" where
  "storedInOrder txs ids xs \<longleftrightarrow> list_all2 (\<lambda>i x. \<exists>tx. find (\<lambda>tx. td_id tx = i) txs = Some tx \<and> storedAs tx x) ids xs"

lemma addRollup_loads_ids:
  assumes "RollupDb_addRollup keccak dao db = Inr db'" "refsOK db"
    and "RollupProofData_decode (rpd_encodedProofData (ro_rollupProof dao)) = Inr r"
    and "getNonPaddingTxIds keccak r = Inr ids" "distinct ids"
  shows "\<exists>txs. RollupDb_getRollup (ro_id dao) db' = Inr (Some (dao\<lparr>ro_rollupProof := (ro_rollupProof dao)\<lparr>rpd_txs := txs\<rparr>\<rparr>))
    \<and> storedInOrder (rpd_txs (ro_rollupProof dao)) ids txs"
proof -
  let ?pr = "ro_rollupProof dao"
  obtain r' db2 accounts where d: "RollupProofData_decode (rpd_encodedProofData ?pr) = Inr r'"
    "foldE (addProofTxs keccak (rpd_id ?pr) (rpd_txs ?pr)) (withRollup dao db) (enumerate 0 (rp_innerProofData r')) = Inr db2"
    "db' = db2\<lparr>tb_account := accounts\<rparr>" "db2 = (withRollup dao db)\<lparr>tb_tx := tb_tx db2\<rparr>"
    "\<forall>p\<in>set (tb_rollupProof (withoutRollup dao db)). pw_rollup p \<noteq> Some (ro_id dao)"
    using addRollup_parts [OF assms(1)] by metis
  have rr: "r' = r" using d(1) assms(3) by simp
  have m: "mapE (InnerProofData_txId keccak) (filter (\<lambda>q. \<not> InnerProofData_isPadding q) (rp_innerProofData r')) = Inr ids"
    using assms(4) by (simp add: rr getNonPaddingTxIds_def getNonPaddingProofs_def)
  obtain M where M: "mset (txsOfProof (rpd_id ?pr) db2) = mset ([] @ M)" "storedInOrder (rpd_txs ?pr) ids M" "sorted_wrt (<) (map txPosition M)"
    using addProofTxs_fold [OF d(2) m, of "[]"] withRollup_noTxs [OF assms(2)] assms(2,5)
    by (auto simp: refsOK_def storedInOrder_def)
  have "rollupTxsInOrder (rpd_id ?pr) db' = M"
    using sort_key_unique [of "txsOfProof (rpd_id ?pr) db2" M txPosition] M(1,3) by (simp add: rollupTxsInOrder_def d(3) txsOfProof_def)
  moreover have "find (\<lambda>r. rw_id r = ro_id dao) (tb_rollup db') = Some (rollupRowOf dao)"
    using d(3,4) find_snoc_new [of "filter (\<lambda>r. rw_id r \<noteq> ro_id dao) (tb_rollup db)" "\<lambda>r. rw_id r = ro_id dao" "rollupRowOf dao"]
    by (metis (mono_tags, lifting) mem_Collect_eq rollupDb.select_convs(3) rollupDb.surjective rollupDb.update_convs(1,4)
        rollupRowOf_def rollupRow.select_convs(1) set_filter withRollup_tables(1))
  moreover have "find (\<lambda>p. pw_rollup p = Some (ro_id dao)) (tb_rollupProof db') = Some (proofRow ?pr (Some (ro_id dao)))"
  proof -
    have "tb_rollupProof db' = tb_rollupProof (withoutRollup dao db) @ [proofRow ?pr (Some (ro_id dao))]"
      using d(3,4) by (metis rollupDb.select_convs(2) rollupDb.surjective rollupDb.update_convs(1,4) withRollup_tables(2))
    then show ?thesis using d(5) by (simp add: find_snoc_new proofRow_def)
  qed
  ultimately show ?thesis using M(2)
    by (intro exI [of _ M]) (simp add: RollupDb_getRollup_def loadRollupE_def loadRollup_def proofRow_def rollupRowOf_def)
qed

lemma storedInOrder_self:
  assumes "storedInOrder txs (map td_id txs) xs" "distinct (map td_id txs)"
  shows "list_all2 storedAs txs xs"
proof (rule list_all2I)
  have l: "length xs = length txs" using assms(1) by (auto simp: storedInOrder_def dest: list_all2_lengthD)
  show "length txs = length xs" using l by simp
  show "\<forall>(tx, x)\<in>set (zip txs xs). storedAs tx x"
  proof safe
    fix tx x assume "(tx, x) \<in> set (zip txs xs)"
    then obtain k where k: "k < length xs" "txs ! k = tx" "xs ! k = x" by (auto simp: set_zip)
    obtain tx' where t: "find (\<lambda>t. td_id t = td_id tx) txs = Some tx'" "storedAs tx' x"
      using list_all2_nthD2 [OF assms(1) [unfolded storedInOrder_def] k(1)] k l by auto
    have "tx' \<in> set txs" "tx \<in> set txs" "td_id tx' = td_id tx" using t(1) k l by (auto simp: find_Some_iff)
    then have "tx' = tx" using assms(2) by (auto simp: distinct_map inj_on_def)
    then show "storedAs tx x" using t(2) by simp
  qed
qed

lemma addRollup_loads:
  assumes "RollupDb_addRollup keccak dao db = Inr db'" "refsOK db"
    and "RollupProofData_decode (rpd_encodedProofData (ro_rollupProof dao)) = Inr r"
    and "getNonPaddingTxIds keccak r = Inr (map td_id (rpd_txs (ro_rollupProof dao)))"
    and "distinct (map td_id (rpd_txs (ro_rollupProof dao)))"
  shows "\<exists>txs. RollupDb_getRollup (ro_id dao) db' = Inr (Some (dao\<lparr>ro_rollupProof := (ro_rollupProof dao)\<lparr>rpd_txs := txs\<rparr>\<rparr>))
    \<and> list_all2 storedAs (rpd_txs (ro_rollupProof dao)) txs"
  using addRollup_loads_ids [OF assms] storedInOrder_self assms(5) by blast

lemma addProofTxs_refs:
  assumes "foldE (addProofTxs keccak p txs) db xs = Inr db'" "distinct (rowIds db)"
  shows "distinct (rowIds db') \<and> (\<forall>w\<in>set (tb_tx db'). \<forall>i. tw_rollupProof w = Some i \<longrightarrow> i = p \<or> (\<exists>w0\<in>set (tb_tx db). tw_rollupProof w0 = Some i))"
proof -
  have u: "map (\<lambda>w. td_id (tw_tx w)) (updateWhere (\<lambda>w. td_id (tw_tx w) = td_id tx) (\<lambda>w. \<lparr>tw_tx = mergeTx tx (tw_tx w), tw_rollupProof = Some p\<rparr>) rows)
      = map (\<lambda>w. td_id (tw_tx w)) rows" for tx rows by (simp add: updateWhere_def mergeTx_def)
  have "distinct (map (\<lambda>w. td_id (tw_tx w)) (upsertTx p rows tx))" if "distinct (map (\<lambda>w. td_id (tw_tx w)) rows)" for rows tx
    using that by (cases "td_id tx \<in> set (map (\<lambda>w. td_id (tw_tx w)) rows)") (simp_all add: upsertTx_def u)
  moreover have "i = p \<or> (\<exists>w0\<in>set rows. tw_rollupProof w0 = Some i)" if "w \<in> set (upsertTx p rows tx)" "tw_rollupProof w = Some i" for w i rows tx
    using that by (auto simp: upsertTx_def updateWhere_def split: if_splits)
  ultimately show ?thesis
    by (intro foldE_invariant [OF assms(1), where P = "\<lambda>d. distinct (rowIds d) \<and> (\<forall>w\<in>set (tb_tx d). \<forall>i. tw_rollupProof w = Some i
        \<longrightarrow> i = p \<or> (\<exists>w0\<in>set (tb_tx db). tw_rollupProof w0 = Some i))"])
      (use assms(2) in \<open>auto simp: rowIds_def elim!: addProofTxs_cases\<close>, blast+)
qed

lemma addRollup_refsOK:
  assumes "RollupDb_addRollup keccak dao db = Inr db'" "refsOK db"
  shows "refsOK db'"
proof -
  obtain r :: rollupProofData and db2 accounts where d: "foldE (addProofTxs keccak (rpd_id (ro_rollupProof dao)) (rpd_txs (ro_rollupProof dao))) (withRollup dao db)
      (enumerate 0 (rp_innerProofData r)) = Inr db2" "db' = db2\<lparr>tb_account := accounts\<rparr>" "db2 = (withRollup dao db)\<lparr>tb_tx := tb_tx db2\<rparr>"
    using addRollup_parts [OF assms(1)] by metis
  have p: "set (map pw_id (tb_rollupProof db')) = insert (rpd_id (ro_rollupProof dao)) (set (map pw_id (tb_rollupProof db)))"
  proof -
    have "tb_rollupProof db' = tb_rollupProof (withoutRollup dao db) @ [proofRow (ro_rollupProof dao) (Some (ro_id dao))]"
      using d(2,3) by (metis rollupDb.select_convs(2) rollupDb.surjective rollupDb.update_convs(1,4) withRollup_tables(2))
    then show ?thesis using withoutRollup_ids [of dao db] by (auto simp: proofRow_def)
  qed
  have x: "distinct (rowIds db2) \<and> (\<forall>w\<in>set (tb_tx db2). \<forall>i. tw_rollupProof w = Some i \<longrightarrow> i = rpd_id (ro_rollupProof dao)
      \<or> (\<exists>w0\<in>set (tb_tx (withRollup dao db)). tw_rollupProof w0 = Some i))"
    using addProofTxs_refs [OF d(1)] assms(2) by (simp add: refsOK_def)
  have "i \<in> set (map pw_id (tb_rollupProof db'))" if "w \<in> set (tb_tx db')" "tw_rollupProof w = Some i" for w i
  proof -
    have "w \<in> set (tb_tx db2)" using that(1) d(2) by simp
    then have "i = rpd_id (ro_rollupProof dao) \<or> i \<in> set (map pw_id (tb_rollupProof db))"
      using x that(2) withRollup_txs [of _ dao db i] assms(2) unfolding refsOK_def by blast
    then show ?thesis unfolding p by blast
  qed
  then show ?thesis using x by (simp add: refsOK_def d(2) rowIds_def)
qed

end
