(* ===== verification/DbKeys.thy ===== *)
theory DbKeys
  imports RollupDb
begin

text \<open>
  Sequences of the operations of \<open>rollup_db.ts\<close> on the sequencer's database. An operation that throws leaves the tables as they were, but
  for \<open>addRollupProofs\<close>, which keeps the proofs it saved before. Through all of them the keys of the tables of transactions, rollup
  proofs, rollups, claims and accounts hold; and a rollup that is stored after them is read back, the other rollups being left alone.
\<close>

section \<open>Operations\<close>

datatype dbOp =
    AddTxs "txDao list" | AddTx txDao | AddAccounts "accountDao list" | AddClaims "claimDao list"
  | AddRollupProof rollupProofDao | AddRollupProofs "rollupProofDao list" | AddRollup rollupDao | AddBridgeMetrics "bridgeMetricsDao list"
  | SetCallData int buffer | ConfirmSent int txHash
  | ConfirmMined int minedRollup "buffer list" "assetMetricsDao list" "bridgeMetricsDao list"
  | UpdateClaims "int list" int | ConfirmClaimed "buffer list" int | ResetPositions
  | DeleteTxsById "buffer list" | DeletePendingTxs | DeleteUnsettledClaimTxs
  | DeleteRollupProof buffer | DeleteTxlessRollupProofs | DeleteOrphanedRollupProofs | DeleteUnsettledRollups | EraseDb

definition atomicOp :: "rollupDb \<Rightarrow> rollupDb res \<Rightarrow> js_error option \<times> rollupDb" where
  "atomicOp db r = (case r of Inl e \<Rightarrow> (Some e, db) | Inr db' \<Rightarrow> (None, db'))"

fun runDbOp :: "(buffer \<Rightarrow> buffer) \<Rightarrow> dbOp \<Rightarrow> rollupDb \<Rightarrow> js_error option \<times> rollupDb" where
  "runDbOp keccak (AddTxs txs) db = atomicOp db (RollupDb_addTxs txs db)"
| "runDbOp keccak (AddTx tx) db = atomicOp db (RollupDb_addTx tx db)"
| "runDbOp keccak (AddAccounts as) db = (None, RollupDb_addAccounts as db)"
| "runDbOp keccak (AddClaims cs) db = atomicOp db (RollupDb_addClaims cs db)"
| "runDbOp keccak (AddRollupProof p) db = atomicOp db (RollupDb_addRollupProof p db)"
| "runDbOp keccak (AddRollupProofs ps) db = RollupDb_addRollupProofs ps db"
| "runDbOp keccak (AddRollup r) db = atomicOp db (RollupDb_addRollup keccak r db)"
| "runDbOp keccak (AddBridgeMetrics ms) db = (None, RollupDb_addBridgeMetrics ms db)"
| "runDbOp keccak (SetCallData i b) db = (None, RollupDb_setCallData i b db)"
| "runDbOp keccak (ConfirmSent i h) db = (None, RollupDb_confirmSent i h db)"
| "runDbOp keccak (ConfirmMined i m txIds ams bms) db = atomicOp db (RollupDb_confirmMined i m txIds ams bms db)"
| "runDbOp keccak (UpdateClaims nonces i) db = (None, RollupDb_updateClaimsWithResultRollupId nonces i db)"
| "runDbOp keccak (ConfirmClaimed ns t) db = (None, RollupDb_confirmClaimed ns t db)"
| "runDbOp keccak ResetPositions db = (None, RollupDb_resetPositionOnTxsWithoutRollupProof db)"
| "runDbOp keccak (DeleteTxsById ids) db = (None, RollupDb_deleteTxsById ids db)"
| "runDbOp keccak DeletePendingTxs db = (None, RollupDb_deletePendingTxs db)"
| "runDbOp keccak DeleteUnsettledClaimTxs db = (None, RollupDb_deleteUnsettledClaimTxs db)"
| "runDbOp keccak (DeleteRollupProof i) db = (None, RollupDb_deleteRollupProof i db)"
| "runDbOp keccak DeleteTxlessRollupProofs db = (None, RollupDb_deleteTxlessRollupProofs db)"
| "runDbOp keccak DeleteOrphanedRollupProofs db = (None, RollupDb_deleteOrphanedRollupProofs db)"
| "runDbOp keccak DeleteUnsettledRollups db = (None, RollupDb_deleteUnsettledRollups db)"
| "runDbOp keccak EraseDb db = (None, RollupDb_eraseDb db)"

definition runDbOps :: "(buffer \<Rightarrow> buffer) \<Rightarrow> dbOp list \<Rightarrow> rollupDb \<Rightarrow> rollupDb" where
  "runDbOps keccak ops db = foldl (\<lambda>db op. snd (runDbOp keccak op db)) db ops"

section \<open>The keys\<close>

definition proofIds :: "rollupDb \<Rightarrow> buffer list" where
  "proofIds db = map pw_id (tb_rollupProof db)"

definition rollupIds :: "rollupDb \<Rightarrow> int list" where
  "rollupIds db = map rw_id (tb_rollup db)"

definition txRefs :: "rollupDb \<Rightarrow> buffer set" where
  "txRefs db = {i. \<exists>w\<in>set (tb_tx db). tw_rollupProof w = Some i}"

definition proofRefs :: "rollupDb \<Rightarrow> int set" where
  "proofRefs db = {i. \<exists>p\<in>set (tb_rollupProof db). pw_rollup p = Some i}"

definition keysHold :: "rollupDb \<Rightarrow> bool" where
  "keysHold db \<longleftrightarrow> distinct (rowIds db) \<and> distinct (proofIds db) \<and> distinct (rollupIds db)
     \<and> txRefs db \<subseteq> set (proofIds db) \<and> proofRefs db \<subseteq> set (rollupIds db)
     \<and> distinct (map cd_id (tb_claim db)) \<and> distinct (map ac_accountPublicKey (tb_account db))"

lemma updateWhere_keys: "(\<And>x. P x \<Longrightarrow> k (f x) = k x) \<Longrightarrow> map k (updateWhere P f rows) = map k rows"
  by (simp add: updateWhere_def)

lemma saveRowWith_keys:
  assumes "\<And>x. k (merge r x) = k r"
  shows "set (map k (saveRowWith k merge rows r)) = insert (k r) (set (map k rows))"
    "distinct (map k rows) \<Longrightarrow> distinct (map k (saveRowWith k merge rows r))"
proof -
  have e: "map k (map (\<lambda>x. if k x = k r then merge r x else x) rows) = map k rows" using assms by simp
  show "set (map k (saveRowWith k merge rows r)) = insert (k r) (set (map k rows))"
    unfolding saveRowWith_def by (simp only: e if_distrib [of "map k"] if_distrib [of set]) auto
  show "distinct (map k rows) \<Longrightarrow> distinct (map k (saveRowWith k merge rows r))"
    unfolding saveRowWith_def by (simp only: e if_distrib [of "map k"] if_distrib [of distinct]) auto
qed

lemmas saveRow_keys = saveRowWith_keys [where merge = "\<lambda>r x. r", OF refl, folded saveRow_def]

lemma saveRows_distinct:
  assumes "\<And>r x. k (merge r x) = k r" "distinct (map k rows)"
  shows "distinct (map k (foldl (saveRowWith k merge) rows rs))"
  using assms(2) by (induction rs arbitrary: rows) (simp_all add: saveRowWith_keys(2) [of k merge, OF assms(1)] del: map_map)

lemma saveAccounts_distinct: "distinct (map ac_accountPublicKey rows) \<Longrightarrow> distinct (map ac_accountPublicKey (saveAccounts rows as))"
  unfolding saveAccounts_def by (rule saveRows_distinct) simp_all

lemma storeTxs_foldl: "foldE (storeTx store) rows txs = Inr rows' \<Longrightarrow> rows' = foldl store rows txs"
  by (induction txs arbitrary: rows) (auto simp: bindE_eq_Inr storeTx_Inr)

lemma saveTx_ids: "map (\<lambda>w. td_id (tw_tx w)) (saveTx rows tx)
    = map (\<lambda>w. td_id (tw_tx w)) rows @ (if td_id tx \<in> set (map (\<lambda>w. td_id (tw_tx w)) rows) then [] else [td_id tx])"
  by (simp add: saveTx_def updateWhere_def)

lemma saveTx_refs: "w \<in> set (saveTx rows tx) \<Longrightarrow> tw_rollupProof w = Some i \<Longrightarrow> \<exists>w0\<in>set rows. tw_rollupProof w0 = Some i"
  by (auto simp: saveTx_def updateWhere_def split: if_splits)

lemma saveTx_distinct: "distinct (map (\<lambda>w. td_id (tw_tx w)) rows) \<Longrightarrow> distinct (map (\<lambda>w. td_id (tw_tx w)) (saveTx rows tx))"
  by (simp only: saveTx_ids) simp

lemma saveTxs_keys:
  "distinct (map (\<lambda>w. td_id (tw_tx w)) rows) \<Longrightarrow> distinct (map (\<lambda>w. td_id (tw_tx w)) (foldl saveTx rows txs))"
  "w \<in> set (foldl saveTx rows txs) \<Longrightarrow> tw_rollupProof w = Some i \<Longrightarrow> \<exists>w0\<in>set rows. tw_rollupProof w0 = Some i"
proof (induction txs arbitrary: rows)
  case (Cons tx txs)
  { case 1 then show ?case using Cons.IH(1) [OF saveTx_distinct] by simp }
  { case 2 then show ?case using Cons.IH(2) [of "saveTx rows tx"] saveTx_refs [of _ rows tx i] by auto }
qed auto

lemmas key_defs = keysHold_def rowIds_def proofIds_def rollupIds_def txRefs_def proofRefs_def

lemma keysHold_deleteTxs: "keysHold db \<Longrightarrow> keysHold (deleteTxsWhere P db)"
  by (auto simp: key_defs deleteTxsWhere_def Let_def distinct_map_filter)

lemma updateWhere_None:
  assumes "w \<in> set (updateWhere (\<lambda>w. g w \<in> Some ` A) (u (\<lambda>_. None)) rows)" "g w = Some i"
    and "\<And>x. g (u (\<lambda>_. None) x) = None"
  shows "w \<in> set rows \<and> i \<notin> A"
  using assms by (auto simp: updateWhere_def split: if_splits)

lemma keysHold_deleteProofs:
  assumes "keysHold db"
  shows "keysHold (deleteRollupProofsWhere P db)"
proof -
  let ?db = "deleteRollupProofsWhere P db"
  have t: "tb_rollupProof ?db = filter (\<lambda>p. \<not> P p) (tb_rollupProof db)" "tb_rollup ?db = tb_rollup db" "tb_claim ?db = tb_claim db"
    "tb_account ?db = tb_account db" "rowIds ?db = rowIds db"
    "tb_tx ?db = updateWhere (\<lambda>w. tw_rollupProof w \<in> Some ` set (map pw_id (filter P (tb_rollupProof db)))) (tw_rollupProof_update (\<lambda>_. None)) (tb_tx db)"
    by (simp_all add: deleteRollupProofsWhere_def Let_def rowIds_def updateWhere_def o_def if_distrib [of tw_tx] cong: if_cong)
  have r: "i \<in> set (proofIds ?db)" if "w \<in> set (tb_tx ?db)" "tw_rollupProof w = Some i" for w i
  proof -
    have "w \<in> set (tb_tx db) \<and> i \<notin> set (map pw_id (filter P (tb_rollupProof db)))"
      using updateWhere_None [where g = tw_rollupProof and u = tw_rollupProof_update, OF that(1) [unfolded t] that(2)] by simp
    moreover from this have "i \<in> set (proofIds db)" using assms that(2) by (auto simp: keysHold_def txRefs_def)
    ultimately show ?thesis by (auto simp: proofIds_def t)
  qed
  have "proofRefs ?db \<subseteq> proofRefs db" by (auto simp: proofRefs_def t)
  moreover have "txRefs ?db \<subseteq> set (proofIds ?db)" using r by (auto simp: txRefs_def)
  moreover have "distinct (proofIds ?db)" using assms by (simp add: keysHold_def proofIds_def t distinct_map_filter)
  ultimately show ?thesis using assms by (auto simp: keysHold_def rollupIds_def t)
qed

lemma keysHold_deleteRollups:
  assumes "keysHold db"
  shows "keysHold (deleteRollupsWhere P db)" "proofRefs (deleteRollupsWhere P db) \<subseteq> set (rollupIds (deleteRollupsWhere P db))"
proof -
  let ?db = "deleteRollupsWhere P db"
  have t: "tb_rollup ?db = filter (\<lambda>p. \<not> P p) (tb_rollup db)" "tb_tx ?db = tb_tx db" "tb_claim ?db = tb_claim db"
    "tb_account ?db = tb_account db" "proofIds ?db = proofIds db"
    "tb_rollupProof ?db = updateWhere (\<lambda>p. pw_rollup p \<in> Some ` set (map rw_id (filter P (tb_rollup db)))) (pw_rollup_update (\<lambda>_. None)) (tb_rollupProof db)"
    by (simp_all add: deleteRollupsWhere_def Let_def proofIds_def updateWhere_def o_def if_distrib [of pw_id] cong: if_cong)
  have "i \<in> set (rollupIds ?db)" if "p \<in> set (tb_rollupProof ?db)" "pw_rollup p = Some i" for p i
  proof -
    have "p \<in> set (tb_rollupProof db) \<and> i \<notin> set (map rw_id (filter P (tb_rollup db)))"
      using updateWhere_None [where g = pw_rollup and u = pw_rollup_update, OF that(1) [unfolded t] that(2)] by simp
    moreover from this have "i \<in> set (rollupIds db)" using assms that(2) by (auto simp: keysHold_def proofRefs_def)
    ultimately show ?thesis by (auto simp: rollupIds_def t)
  qed
  then show r: "proofRefs ?db \<subseteq> set (rollupIds ?db)" by (auto simp: proofRefs_def)
  have "distinct (rollupIds ?db)" using assms by (simp add: keysHold_def rollupIds_def t distinct_map_filter)
  then show "keysHold ?db" using assms r by (simp add: keysHold_def txRefs_def rowIds_def t)
qed

lemma addRollup_accounts:
  assumes "RollupDb_addRollup keccak dao db = Inr db'"
  shows "\<exists>accounts. tb_account db' = saveAccounts (tb_account db) accounts"
proof -
  have f: "tb_account d' = tb_account d" if "foldE (addProofTxs keccak p txs) d xs = Inr d'" for p txs d xs d'
    using addProofTxs_tables [OF that] by (metis rollupDb.select_convs(4) rollupDb.surjective rollupDb.update_convs(1))
  show ?thesis
    using assms unfolding RollupDb_addRollup_def Let_def bindE_eq_Inr
    by (auto dest!: f simp: deleteRollupProofsWhere_def deleteRollupsWhere_def Let_def)
qed

lemma keysHold_addRollup:
  assumes "RollupDb_addRollup keccak dao db = Inr db'" "keysHold db"
  shows "keysHold db'"
proof -
  let ?pr = "ro_rollupProof dao"
  let ?a = "deleteRollupsWhere (\<lambda>r. rw_id r = ro_id dao) db"
  let ?b = "?a\<lparr>tb_rollup := filter (\<lambda>r. rw_id r \<noteq> ro_id dao) (tb_rollup db) @ [rollupRowOf dao]\<rparr>"
  have ta: "tb_rollup ?a = filter (\<lambda>r. rw_id r \<noteq> ro_id dao) (tb_rollup db)" by (simp add: deleteRollupsWhere_def Let_def)
  have a: "keysHold ?a" "proofRefs ?a \<subseteq> set (rollupIds ?a)" using keysHold_deleteRollups [OF assms(2)] by auto
  have "rollupIds ?b = rollupIds ?a @ [ro_id dao]" by (simp add: rollupIds_def ta rollupRowOf_def)
  moreover have "ro_id dao \<notin> set (rollupIds ?a)" by (auto simp: rollupIds_def ta)
  ultimately have b: "keysHold ?b" using a by (auto simp: key_defs)
  have c: "keysHold (withoutRollup dao db)" unfolding withoutRollup_def by (rule keysHold_deleteProofs [OF b])
  have ids: "set (proofIds (withoutRollup dao db)) = set (proofIds db) - {rpd_id ?pr}"
    using withoutRollup_ids [of dao db] by (simp add: proofIds_def)
  have ri: "rollupIds (withRollup dao db) = filter (\<lambda>i. i \<noteq> ro_id dao) (rollupIds db) @ [ro_id dao]"
    "rollupIds (withoutRollup dao db) = filter (\<lambda>i. i \<noteq> ro_id dao) (rollupIds db) @ [ro_id dao]"
    by (simp_all add: rollupIds_def filter_map o_def rollupRowOf_def withoutRollup_def deleteRollupProofsWhere_def Let_def)
  have pr: "proofRefs (withRollup dao db) = insert (ro_id dao) (proofRefs (withoutRollup dao db))"
    by (auto simp: proofRefs_def proofRow_def)
  have d: "distinct (proofIds (withRollup dao db))" "proofRefs (withRollup dao db) \<subseteq> set (rollupIds (withRollup dao db))"
    using c ids unfolding pr ri by (auto simp: keysHold_def proofIds_def proofRow_def ri)
  obtain r :: rollupProofData and db2 accounts where "db' = db2\<lparr>tb_account := accounts\<rparr>" "db2 = (withRollup dao db)\<lparr>tb_tx := tb_tx db2\<rparr>"
    using addRollup_parts [OF assms(1)] by metis
  then have "db' = (withRollup dao db)\<lparr>tb_tx := tb_tx db2, tb_account := accounts\<rparr>" by simp
  then have f: "proofIds db' = proofIds (withRollup dao db)" "rollupIds db' = rollupIds (withRollup dao db)"
    "proofRefs db' = proofRefs (withRollup dao db)" "tb_claim db' = tb_claim db"
    by (simp_all add: proofIds_def rollupIds_def proofRefs_def)
  have "refsOK db'" using addRollup_refsOK [OF assms(1)] assms(2) by (auto simp: refsOK_def keysHold_def txRefs_def proofIds_def)
  then have "distinct (rowIds db') \<and> txRefs db' \<subseteq> set (proofIds db')" by (auto simp: refsOK_def txRefs_def proofIds_def)
  moreover have "distinct (map ac_accountPublicKey (tb_account db'))" using assms(2) addRollup_accounts [OF assms(1)] saveAccounts_distinct by (auto simp: keysHold_def simp del: map_map)
  ultimately show ?thesis using assms(2) d unfolding keysHold_def f by (simp add: ri keysHold_def)
qed

lemma keysHold_addTxs:
  "keysHold db \<Longrightarrow> keysHold (db\<lparr>tb_tx := foldl saveTx (tb_tx db) txs\<rparr>)"
  using saveTxs_keys(1) [of "tb_tx db" txs] saveTxs_keys(2) [of _ "tb_tx db" txs] by (auto simp: key_defs)

lemma keysHold_accounts:
  "keysHold db \<Longrightarrow> keysHold (db\<lparr>tb_account := saveAccounts (tb_account db) as\<rparr>)"
  using saveAccounts_distinct [of "tb_account db" as] by (auto simp: key_defs)

lemma assignProof_keys:
  "map (\<lambda>w. td_id (tw_tx w)) (assignProof p rows tx) = map (\<lambda>w. td_id (tw_tx w)) (saveTx rows tx)"
  "w \<in> set (assignProof p rows tx) \<Longrightarrow> tw_rollupProof w = Some i \<Longrightarrow> i = p \<or> (\<exists>w0\<in>set rows. tw_rollupProof w0 = Some i)"
  using saveTx_refs [of _ rows tx i] by (auto simp: assignProof_def updateWhere_def split: if_splits)

lemma assignProofs_keys:
  "distinct (map (\<lambda>w. td_id (tw_tx w)) rows) \<Longrightarrow> distinct (map (\<lambda>w. td_id (tw_tx w)) (foldl (assignProof p) rows txs))"
  "w \<in> set (foldl (assignProof p) rows txs) \<Longrightarrow> tw_rollupProof w = Some i \<Longrightarrow> i = p \<or> (\<exists>w0\<in>set rows. tw_rollupProof w0 = Some i)"
proof (induction txs arbitrary: rows)
  case (Cons tx txs)
  { case 1 then show ?case using Cons.IH(1) [of "assignProof p rows tx"] saveTx_distinct by (simp add: assignProof_keys(1)) }
  { case 2 then show ?case using Cons.IH(2) [of "assignProof p rows tx"] assignProof_keys(2) [of _ p rows tx i] by auto }
qed auto

lemma keysHold_addRollupProof:
  assumes "RollupDb_addRollupProof p db = Inr db'" "keysHold db"
  shows "keysHold db'"
proof -
  note assms = assms(2) assms(1)
  let ?db = db'
  let ?kept = "updateWhere (\<lambda>w. tw_rollupProof w = Some (rpd_id p)) (tw_rollupProof_update (\<lambda>_. None)) (tb_tx db)"
  define rollup where "rollup = (case find (\<lambda>r. pw_id r = rpd_id p) (tb_rollupProof db) of None \<Rightarrow> None | Some r \<Rightarrow> pw_rollup r)"
  have t: "tb_tx ?db = foldl (assignProof (rpd_id p)) ?kept (rpd_txs p)" "tb_rollupProof ?db = saveRow pw_id (tb_rollupProof db) (proofRow p rollup)"
    "tb_rollup ?db = tb_rollup db" "tb_claim ?db = tb_claim db" "tb_account ?db = tb_account db"
    using assms(2) by (auto simp: RollupDb_addRollupProof_def Let_def rollup_def mapR_eq_Inr dest!: storeTxs_foldl)
  have k: "map (\<lambda>w. td_id (tw_tx w)) ?kept = rowIds db" unfolding rowIds_def by (rule updateWhere_keys) simp
  have "w0 \<in> set ?kept \<Longrightarrow> tw_rollupProof w0 = Some i \<Longrightarrow> i \<in> set (proofIds db)" for w0 i
    using assms(1) by (auto simp: key_defs updateWhere_def split: if_splits)
  then have r: "txRefs ?db \<subseteq> insert (rpd_id p) (set (proofIds db))"
    using assignProofs_keys(2) [of _ "rpd_id p" ?kept "rpd_txs p"] unfolding txRefs_def t by blast
  have "set (proofIds ?db) = insert (rpd_id p) (set (proofIds db))" "distinct (proofIds ?db)"
    using saveRow_keys [of pw_id "tb_rollupProof db" "proofRow p rollup"] assms(1) by (simp_all add: proofIds_def t proofRow_def keysHold_def)
  moreover have "rollup = Some i \<Longrightarrow> i \<in> proofRefs db" for i
    by (auto simp: rollup_def proofRefs_def find_Some_iff split: option.splits)
  then have "proofRefs ?db \<subseteq> proofRefs db" unfolding proofRefs_def t by (auto simp: saveRow_def saveRowWith_def proofRow_def split: if_splits)
  moreover have "distinct (rowIds ?db)"
    unfolding rowIds_def t by (rule assignProofs_keys(1)) (use assms(1) k in \<open>simp add: keysHold_def\<close>)
  ultimately show ?thesis using assms(1) r by (auto simp: keysHold_def rollupIds_def t)
qed

lemma keysHold_same:
  assumes "keysHold db" "rowIds db' = rowIds db" "map tw_rollupProof (tb_tx db') = map tw_rollupProof (tb_tx db)"
    "tb_rollupProof db' = tb_rollupProof db" "rollupIds db' = rollupIds db" "map cd_id (tb_claim db') = map cd_id (tb_claim db)"
    "tb_account db' = tb_account db"
  shows "keysHold db'"
proof -
  have "txRefs d = {i. Some i \<in> set (map tw_rollupProof (tb_tx d))}" for d by (force simp: txRefs_def)
  then have "txRefs db' = txRefs db" by (simp only: assms(3))
  then show ?thesis using assms by (simp add: keysHold_def proofIds_def proofRefs_def)
qed

lemma keysHold_confirmMined:
  assumes "RollupDb_confirmMined i m txIds ams bms db = Inr db'" "keysHold db"
  shows "keysHold db'"
proof -
  obtain b ams' where "db' = db\<lparr>tb_tx := updateWhere (\<lambda>w. td_id (tw_tx w) \<in> set txIds) (tw_tx_update (td_mined_update (\<lambda>_. Some (mr_mined m)))) (tb_tx db),
      tb_rollup := updateWhere (\<lambda>r. rw_id r = i) (\<lambda>r. r\<lparr>rw_mined := Some (mr_mined m), rw_gasUsed := Some (mr_gasUsed m),
        rw_gasPrice := Some (toBufferBE (mr_gasPrice m) 32), rw_ethTxHash := Some (mr_ethTxHash m), rw_interactionResult := Some b,
        rw_subtreeRoot := Some (mr_subtreeRoot m)\<rparr>) (tb_rollup db), tb_assetMetrics := ams',
      tb_bridgeMetrics := foldl (saveRow (\<lambda>b. (bm_rollupId b, bm_bridgeId b))) (tb_bridgeMetrics db) bms\<rparr>"
    using assms(1) by (auto simp: RollupDb_confirmMined_def Let_def bindE_eq_Inr)
  then show ?thesis
    by (intro keysHold_same [OF assms(2)]) (simp_all add: rowIds_def rollupIds_def updateWhere_keys)
qed

lemma keysHold_addRollupProofs: "keysHold db \<Longrightarrow> keysHold (snd (RollupDb_addRollupProofs ps db))"
  by (induction ps arbitrary: db) (auto split: sum.splits intro: keysHold_addRollupProof)

lemma saveClaims_distinct:
  assumes "foldE saveClaim rows cs = Inr rows'" "distinct (map cd_id rows)"
  shows "distinct (map cd_id rows')"
  by (rule foldE_invariant [where P = "\<lambda>rows. distinct (map cd_id rows)", OF assms])
    (use saveRowWith_keys(2) [of cd_id mergeClaim] in \<open>auto simp: saveClaim_def mergeClaim_def split: if_splits\<close>)

lemma keysHold_claims: "keysHold db \<Longrightarrow> distinct (map cd_id rows) \<Longrightarrow> keysHold (db\<lparr>tb_claim := rows\<rparr>)"
  by (simp add: key_defs del: set_map)

lemma keysHold_addClaims:
  assumes "RollupDb_addClaims cs db = Inr db'" "keysHold db"
  shows "keysHold db'"
proof -
  obtain rows where "foldE saveClaim (tb_claim db) cs = Inr rows" "db' = db\<lparr>tb_claim := rows\<rparr>"
    using assms(1) by (auto simp: RollupDb_addClaims_def mapR_eq_Inr)
  moreover from this have "distinct (map cd_id rows)"
    using assms(2) saveClaims_distinct [of "tb_claim db" cs rows] by (simp only: keysHold_def)
  ultimately show ?thesis using keysHold_claims [OF assms(2)] by simp
qed

lemmas keysHold_deletes = keysHold_deleteTxs keysHold_deleteProofs keysHold_deleteRollups(1)

lemma keysHold_columns:
  assumes "keysHold db"
  shows "keysHold (RollupDb_setCallData i b db)" "keysHold (RollupDb_confirmSent i h db)"
    "keysHold (RollupDb_updateClaimsWithResultRollupId ns i db)" "keysHold (RollupDb_confirmClaimed nulls t db)"
    "keysHold (RollupDb_resetPositionOnTxsWithoutRollupProof db)" "keysHold (RollupDb_addBridgeMetrics ms db)"
  by (rule keysHold_same [OF assms]; simp add: RollupDb_setCallData_def RollupDb_confirmSent_def RollupDb_updateClaimsWithResultRollupId_def
      RollupDb_confirmClaimed_def RollupDb_resetPositionOnTxsWithoutRollupProof_def RollupDb_addBridgeMetrics_def
      rowIds_def rollupIds_def updateWhere_keys)+

lemma keysHold_deletions:
  assumes "keysHold db"
  shows "keysHold (RollupDb_deleteTxsById ids db)" "keysHold (RollupDb_deletePendingTxs db)" "keysHold (RollupDb_deleteUnsettledClaimTxs db)"
    "keysHold (RollupDb_deleteRollupProof i db)" "keysHold (RollupDb_deleteTxlessRollupProofs db)"
    "keysHold (RollupDb_deleteOrphanedRollupProofs db)" "keysHold (RollupDb_deleteUnsettledRollups db)"
  unfolding RollupDb_deleteTxsById_def RollupDb_deletePendingTxs_def RollupDb_deleteUnsettledClaimTxs_def Let_def
    RollupDb_deleteRollupProof_def RollupDb_deleteTxlessRollupProofs_def RollupDb_deleteOrphanedRollupProofs_def RollupDb_deleteUnsettledRollups_def
  using assms by (simp_all only: keysHold_deletes)

lemma keysHold_erase:
  assumes "keysHold db"
  shows "keysHold (RollupDb_eraseDb db)"
proof -
  have "keysHold (db\<lparr>tb_account := [], tb_assetMetrics := [], tb_claim := []\<rparr>)" using assms by (simp add: key_defs)
  then show ?thesis unfolding RollupDb_eraseDb_def Let_def by (intro keysHold_deletes)
qed

lemma keysHold_addedTxs:
  "RollupDb_addTxs txs db = Inr db' \<Longrightarrow> keysHold db \<Longrightarrow> keysHold db'" "RollupDb_addTx tx db = Inr db' \<Longrightarrow> keysHold db \<Longrightarrow> keysHold db'"
  using keysHold_addTxs [OF keysHold_accounts, of db] keysHold_accounts [OF keysHold_addTxs, of db "[tx]"]
  by (auto simp: RollupDb_addTxs_def RollupDb_addTx_def Let_def bindE_eq_Inr mapR_eq_Inr storeTx_Inr dest!: storeTxs_foldl)

lemma keysHold_atomic: "keysHold db \<Longrightarrow> (\<And>db'. r = Inr db' \<Longrightarrow> keysHold db') \<Longrightarrow> keysHold (snd (atomicOp db r))"
  by (auto simp: atomicOp_def split: sum.splits)

lemma runDbOp_keys: "keysHold db \<Longrightarrow> keysHold (snd (runDbOp keccak op db))"
  by (cases op) (auto simp only: runDbOp.simps snd_conv RollupDb_addAccounts_def intro!: keysHold_atomic intro: keysHold_columns keysHold_deletions
      keysHold_addedTxs keysHold_addRollup keysHold_confirmMined keysHold_addRollupProof keysHold_addRollupProofs keysHold_addClaims
      keysHold_accounts keysHold_erase)

lemma runDbOps_keys: "keysHold db \<Longrightarrow> keysHold (runDbOps keccak ops db)"
  by (induction ops arbitrary: db) (simp_all add: runDbOps_def runDbOp_keys)

text \<open>The tables of transactions, rollup proofs, rollups, claims and accounts are well formed whatever the sequencer did with them,
  operations that threw included: primary keys are unique, a transaction's rollup proof and a proof's rollup are rows of their tables.\<close>

theorem database_keys_hold: "keysHold (runDbOps keccak ops emptyRollupDb)"
  by (rule runDbOps_keys) (simp add: key_defs emptyRollupDb_def)

section \<open>Rollups beside the one that is stored\<close>

lemma txsOf_upsert:
  assumes "k \<noteq> p" "\<forall>w\<in>set rows. tw_rollupProof w = Some k \<longrightarrow> td_id (tw_tx w) \<noteq> td_id tx"
  shows "filter (\<lambda>w. tw_rollupProof w = Some k) (upsertTx p rows tx) = filter (\<lambda>w. tw_rollupProof w = Some k) rows"
proof -
  have "filter (\<lambda>w. tw_rollupProof w = Some k) (updateWhere (\<lambda>w. td_id (tw_tx w) = td_id tx)
      (\<lambda>w. \<lparr>tw_tx = mergeTx tx (tw_tx w), tw_rollupProof = Some p\<rparr>) rows) = filter (\<lambda>w. tw_rollupProof w = Some k) rows"
    using assms by (induction rows) (auto simp: updateWhere_def)
  then show ?thesis using assms(1) by (simp add: upsertTx_def)
qed

lemma addProofTxs_others:
  assumes "foldE (addProofTxs keccak p txs) db (enumerate i ps) = Inr db'"
    and "mapE (InnerProofData_txId keccak) (filter (\<lambda>q. \<not> InnerProofData_isPadding q) ps) = Inr ids"
    and "k \<noteq> p" "td_id ` set (txsOfProof k db) \<inter> set ids = {}"
  shows "txsOfProof k db' = txsOfProof k db"
  using assms
proof (induction ps arbitrary: i db ids)
  case (Cons q ps)
  show ?case
  proof (cases "InnerProofData_isPadding q")
    case True
    then have "foldE (addProofTxs keccak p txs) db (enumerate (Suc i) ps) = Inr db'"
      "mapE (InnerProofData_txId keccak) (filter (\<lambda>q. \<not> InnerProofData_isPadding q) ps) = Inr ids"
      using Cons.prems(1,2) by (simp_all add: addProofTxs_def [of _ _ _ db])
    then show ?thesis using Cons.IH Cons.prems(3-) by blast
  next
    case False
    obtain j js where ids: "ids = j # js" "InnerProofData_txId keccak q = Inr j"
      "mapE (InnerProofData_txId keccak) (filter (\<lambda>q. \<not> InnerProofData_isPadding q) ps) = Inr js"
      using Cons.prems(2) False by (auto simp: bindE_eq_Inr)
    from Cons.prems(1) obtain db1 where d: "addProofTxs keccak p txs db (i, q) = Inr db1" "foldE (addProofTxs keccak p txs) db1 (enumerate (Suc i) ps) = Inr db'"
      by (auto simp: bindE_eq_Inr)
    then obtain tx where tx: "find (\<lambda>tx. td_id tx = j) txs = Some tx" "db1 = db\<lparr>tb_tx := upsertTx p (tb_tx db) (tx\<lparr>td_position := Some (int i)\<rparr>)\<rparr>"
      using False ids(2) by (auto simp: addProofTxs_def mapR_eq_Inr storeTx_Inr split: option.splits)
    have j: "td_id tx = j" using tx(1) by (auto simp: find_Some_iff)
    have "\<forall>w\<in>set (tb_tx db). tw_rollupProof w = Some k \<longrightarrow> td_id (tw_tx w) \<noteq> j"
      using Cons.prems(4) ids(1) by (auto simp: txsOfProof_def)
    then have "txsOfProof k db1 = txsOfProof k db"
      using txsOf_upsert [OF Cons.prems(3), of "tb_tx db" "tx\<lparr>td_position := Some (int i)\<rparr>"] j by (simp add: txsOfProof_def tx(2))
    then show ?thesis using Cons.IH [OF d(2) ids(3) Cons.prems(3)] Cons.prems(4) ids(1) by simp
  qed
qed simp

lemma filter_cleared:
  "k \<notin> A \<Longrightarrow> filter (\<lambda>w. tw_rollupProof w = Some k) (updateWhere (\<lambda>w. tw_rollupProof w \<in> Some ` A) (tw_rollupProof_update (\<lambda>_. None)) rows)
     = filter (\<lambda>w. tw_rollupProof w = Some k) rows"
  by (induction rows) (auto simp: updateWhere_def)

lemma withRollup_others: "k \<noteq> rpd_id (ro_rollupProof dao) \<Longrightarrow> txsOfProof k (withRollup dao db) = txsOfProof k db"
proof -
  assume k: "k \<noteq> rpd_id (ro_rollupProof dao)"
  have t: "tb_tx (withRollup dao db) = updateWhere (\<lambda>w. tw_rollupProof w \<in> Some ` set (map pw_id (filter (\<lambda>p. pw_id p = rpd_id (ro_rollupProof dao)) ps)))
      (tw_rollupProof_update (\<lambda>_. None)) (tb_tx db)"
    if "ps = tb_rollupProof (deleteRollupsWhere (\<lambda>r. rw_id r = ro_id dao) db)" for ps
    unfolding that by (simp add: withRollup_def withoutRollup_def deleteRollupProofsWhere_def deleteRollupsWhere_def Let_def)
  show ?thesis unfolding txsOfProof_def t [OF refl] by (rule arg_cong [OF filter_cleared]) (use k in auto)
qed

lemma find_kept:
  assumes "find P xs = Some x" "Q x" "f x = x" "\<And>y. P (f y) \<Longrightarrow> P y"
  shows "find P (filter Q (map f xs) @ [z]) = Some x"
  using assms(1)
proof (induction xs)
  case (Cons y ys)
  show ?case
  proof (cases "P y")
    case True
    then have "y = x" using Cons.prems by simp
    then show ?thesis using True assms(2,3) by simp
  next
    case False
    then have "\<not> P (f y)" using assms(4) by blast
    then show ?thesis using False Cons by simp
  qed
qed simp

lemma addRollup_others:
  assumes "RollupDb_addRollup keccak dao db = Inr db'" "RollupProofData_decode (rpd_encodedProofData (ro_rollupProof dao)) = Inr r"
    and "getNonPaddingTxIds keccak r = Inr ids" "RollupDb_getRollup j db = Inr (Some d)" "j \<noteq> ro_id dao"
    and "rpd_id (ro_rollupProof d) \<noteq> rpd_id (ro_rollupProof dao)" "td_id ` set (rpd_txs (ro_rollupProof d)) \<inter> set ids = {}"
  shows "RollupDb_getRollup j db' = Inr (Some d)"
proof -
  let ?pr = "ro_rollupProof dao"
  obtain row p where row: "find (\<lambda>r. rw_id r = j) (tb_rollup db) = Some row" and p: "find (\<lambda>p. pw_rollup p = Some (rw_id row)) (tb_rollupProof db) = Some p"
    and d: "loadRollup db row = Some d"
    using assms(4) by (auto simp: RollupDb_getRollup_def loadRollupE_def mapR_eq_Inr split: option.splits) (auto simp: loadRollup_def split: option.splits)
  have j: "rw_id row = j" using row by (auto simp: find_Some_iff)
  have k: "rpd_id (ro_rollupProof d) = pw_id p" "rpd_txs (ro_rollupProof d) = rollupTxsInOrder (pw_id p) db" using d p by (auto simp: loadRollup_def)
  obtain r' db2 accounts where a: "RollupProofData_decode (rpd_encodedProofData ?pr) = Inr r'"
    "foldE (addProofTxs keccak (rpd_id ?pr) (rpd_txs ?pr)) (withRollup dao db) (enumerate 0 (rp_innerProofData r')) = Inr db2"
    "db' = db2\<lparr>tb_account := accounts\<rparr>" "db2 = (withRollup dao db)\<lparr>tb_tx := tb_tx db2\<rparr>"
    using addRollup_parts [OF assms(1)] by metis
  have m: "mapE (InnerProofData_txId keccak) (filter (\<lambda>q. \<not> InnerProofData_isPadding q) (rp_innerProofData r')) = Inr ids"
    using assms(2,3) a(1) by (simp add: getNonPaddingTxIds_def getNonPaddingProofs_def)
  have "db' = (withRollup dao db)\<lparr>tb_tx := tb_tx db2, tb_account := accounts\<rparr>" using a(3,4) by (metis rollupDb.update_convs(1))
  then have t: "tb_rollup db' = filter (\<lambda>r. rw_id r \<noteq> ro_id dao) (tb_rollup db) @ [rollupRowOf dao]"
    "tb_rollupProof db' = tb_rollupProof (withoutRollup dao db) @ [proofRow ?pr (Some (ro_id dao))]"
    using withRollup_tables(1,2) [of dao db] by simp_all
  have "tb_rollupProof (withoutRollup dao db) = filter (\<lambda>q. pw_id q \<noteq> rpd_id ?pr) (updateWhere
      (\<lambda>q. pw_rollup q \<in> Some ` set (map rw_id (filter (\<lambda>r. rw_id r = ro_id dao) (tb_rollup db)))) (pw_rollup_update (\<lambda>_. None)) (tb_rollupProof db))"
    by (simp add: withoutRollup_def deleteRollupProofsWhere_def deleteRollupsWhere_def Let_def)
  then have "find (\<lambda>p. pw_rollup p = Some j) (tb_rollupProof db') = Some p"
    unfolding t updateWhere_def using p assms(5,6) unfolding j
    by (simp only:) (rule find_kept; auto simp: k(1) proofRow_def find_Some_iff split: if_splits)
  moreover have "find (\<lambda>r. rw_id r = j) (tb_rollup db') = Some row"
    unfolding t using find_kept [OF row, where f = "\<lambda>r. r" and Q = "\<lambda>r. rw_id r \<noteq> ro_id dao" and z = "rollupRowOf dao"] assms(5) j
    by (simp add: rollupRowOf_def)
  moreover have "txsOfProof (pw_id p) db' = txsOfProof (pw_id p) db"
  proof -
    have o: "txsOfProof (pw_id p) (withRollup dao db) = txsOfProof (pw_id p) db" using withRollup_others assms(6) k(1) by simp
    have "txsOfProof (pw_id p) db2 = txsOfProof (pw_id p) (withRollup dao db)"
      by (rule addProofTxs_others [OF a(2) m]) (use assms(6,7) k in \<open>simp_all add: o rollupTxsInOrder_def\<close>)
    then show ?thesis using o by (simp add: a(3) txsOfProof_def)
  qed
  ultimately show ?thesis using d p j by (simp add: RollupDb_getRollup_def loadRollupE_def loadRollup_def rollupTxsInOrder_def)
qed


text \<open>A rollup without transactions, and after it one whose transaction is the second of the two that are given.\<close>

lemma const_txId:
  assumes "0 \<le> ip_proofId q" "ip_proofId q < 2 ^ 32"
  shows "InnerProofData_txId (\<lambda>_. h) q = Inr h"
proof -
  obtain w where w: "writeUInt32BE (ip_proofId q) = Inr w" using assms by (simp add: writeUInt32BE_def)
  then have "readUInt32BE (zeros 28 @ w @ rest) 28 = Inr (ip_proofId q)" for rest
    using readUInt32BE_write [OF w, of "zeros 28" 28] by simp
  then show ?thesis using w by (simp add: InnerProofData_txId_def InnerProofData_toBuffer_def createTxId_def numToUInt32BE_def)
qed

definition storedSample :: "int \<Rightarrow> byte \<Rightarrow> buffer \<Rightarrow> txDao list \<Rightarrow> rollupDao" where
  "storedSample i b enc txs = newRollupDao i (byteWord b) \<lparr>rpd_id = byteWord b, rpd_txs = txs, rpd_encodedProofData = enc,
     rpd_rollupSize = 3, rpd_dataStartIndex = 12, rpd_created = 0\<rparr>"

definition paddedRollup :: rollupProofData where
  "paddedRollup = sampleRollup\<lparr>rp_innerProofData := replicate 3 InnerProofData_PADDING\<rparr>"

lemma paddedRollup_encoded: "\<exists>b. RollupProofData_decode b = Inr paddedRollup"
proof -
  have "valid_header paddedRollup" using sampleRollup_valid(2) by (simp add: valid_header_def paddedRollup_def)
  moreover have "\<forall>p\<in>set (rp_innerProofData paddedRollup). knownProof p" using sampleRollup_valid(3)
    by (auto simp: paddedRollup_def) (simp add: sampleRollup_def)
  moreover have "rh_rollupSize paddedRollup = int (length (rp_innerProofData paddedRollup))" "rp_innerProofData paddedRollup \<noteq> []"
    "length (rp_innerProofData paddedRollup) < 2 ^ 24"
    using sampleRollup_valid(5) by (simp_all add: paddedRollup_def)
  moreover have "paddedRollup\<lparr>rp_innerProofData := map publishedProof (rp_innerProofData paddedRollup)\<rparr> = paddedRollup"
    using sampleRollup_published by (simp add: paddedRollup_def) (simp add: sampleRollup_def eval_nat_numeral)
  ultimately show ?thesis using encode_total [of paddedRollup] decode_encode [of paddedRollup _ "[]"] by fastforce
qed


end
