(* ===== verification/WorldState.thy ===== *)
theory WorldState
  imports DbKeys
begin

text \<open>
  The sequencer's world state (\<open>falafel/src/world_state.ts\<close>): the blocks of the chain go, one after the other, into the
  merkle trees and the SQL database, and pending transactions that a foreign block invalidates are purged. A handler is a
  list of steps on the state; a step that throws ends the handler, and what the steps before it did stays. The trees are those of
  \<open>WorldStateDb\<close>, the database that of \<open>RollupDb\<close>. The note algorithms, the chain's answers and the clock are parameters. A block
  whose date is not a date and a transaction without offchain data are taken to be refused by the database.
\<close>

section \<open>The state\<close>

datatype pipelineStatus = NoPipeline | Running | Stopped

record worldState =
  ws_rollupDb :: rollupDb
  ws_trees :: worldDb
  ws_pipeline :: pipelineStatus

record worldEnv =
  we_compress :: compressFn
  we_keccak :: "buffer \<Rightarrow> buffer"
  we_sha256 :: "buffer \<Rightarrow> buffer"
  we_claimNoteCommitment :: "treeClaimNote \<Rightarrow> buffer"
  we_claimNoteNullifier :: "buffer \<Rightarrow> buffer"
  we_numAssets :: int
  we_rollupBalance :: "int \<Rightarrow> int"
  we_pendingDeposit :: "int \<Rightarrow> ethAddress \<Rightarrow> int"
  we_now :: int
  we_disablePipeline :: bool

type_synonym 's step = "'s \<Rightarrow> js_error option \<times> 's"

fun runSteps :: "'s step list \<Rightarrow> 's step" where
  "runSteps [] s = (None, s)"
| "runSteps (f # fs) s = (case f s of (None, s') \<Rightarrow> runSteps fs s' | (Some e, s') \<Rightarrow> (Some e, s'))"

definition stepE :: "('s \<Rightarrow> 's res) \<Rightarrow> 's step" where
  "stepE f s = (case f s of Inl e \<Rightarrow> (Some e, s) | Inr s' \<Rightarrow> (None, s'))"

definition onTrees :: "(worldDb \<Rightarrow> worldDb res) \<Rightarrow> worldState step" where
  "onTrees f = stepE (\<lambda>s. mapR (\<lambda>d. s\<lparr>ws_trees := d\<rparr>) (f (ws_trees s)))"

definition onDb :: "(rollupDb \<Rightarrow> rollupDb res) \<Rightarrow> worldState step" where
  "onDb f = stepE (\<lambda>s. mapR (\<lambda>d. s\<lparr>ws_rollupDb := d\<rparr>) (f (ws_rollupDb s)))"

definition oneBuffer :: buffer where
  "oneBuffer = toBufferBE 1 32"

definition minedOf :: "block \<Rightarrow> int res" where
  "minedOf b = (case bl_mined b of None \<Rightarrow> Inl (Thrown ''Invalid date'') | Some t \<Rightarrow> Inr t)"

section \<open>The trees\<close>

definition putStep :: "nat \<Rightarrow> int \<Rightarrow> buffer \<Rightarrow> worldState step" where
  "putStep treeId index value = onTrees (dbPut treeId index value)"

definition nullifierSteps :: "buffer \<Rightarrow> worldState step list" where
  "nullifierSteps nullifier = (if toBigIntBE nullifier \<noteq> 0 then [putStep NULL_TREE (toBigIntBE nullifier) oneBuffer] else [])"

definition proofSteps :: "int \<Rightarrow> nat \<times> innerProofData \<Rightarrow> worldState step list" where
  "proofSteps dataStartIndex = (\<lambda>(i, tx).
     [putStep DATA_TREE (dataStartIndex + int i * 2) (ip_noteCommitment1 tx),
      putStep DATA_TREE (dataStartIndex + int i * 2 + 1) (ip_noteCommitment2 tx)]
     @ (if InnerProofData_isPadding tx then [] else nullifierSteps (ip_nullifier1 tx) @ nullifierSteps (ip_nullifier2 tx)))"

definition rootStep :: "worldEnv \<Rightarrow> int \<Rightarrow> worldState step" where
  "rootStep env rollupId = onTrees (\<lambda>d. dbPut ROOT_TREE (rollupId + 1) (dbRoot (we_compress env) d DATA_TREE) d)"

text \<open>\<open>equals(Buffer.alloc(0, 32))\<close>: the buffer allocated has no bytes.\<close>

definition defiSteps :: "int \<Rightarrow> buffer list \<Rightarrow> worldState step list" where
  "defiSteps rollupId notes = concat (map (\<lambda>(i, note). if note = zeros 0 then []
       else [putStep DEFI_TREE (rollupId * int NUM_BRIDGE_CALLS_PER_BLOCK + int i) note]) (enumerate 0 notes))"

definition addRollupToWorldState :: "worldEnv \<Rightarrow> rollupProofData \<Rightarrow> worldState step" where
  "addRollupToWorldState env r s =
    (if dbSize (ws_trees s) DATA_TREE > rh_dataStartIndex r then (None, s)
     else runSteps (concat (map (proofSteps (rh_dataStartIndex r)) (enumerate 0 (rp_innerProofData r)))
       @ [rootStep env (rh_rollupId r)] @ defiSteps (rh_rollupId r) (rh_defiInteractionNotes r) @ [onTrees (\<lambda>d. Inr (wd_commit d))]) s)"

definition rollupIsOurs :: "worldEnv \<Rightarrow> rollupProofData \<Rightarrow> worldDb \<Rightarrow> bool" where
  "rollupIsOurs env r d \<longleftrightarrow> rh_newDataRoot r = dbRoot (we_compress env) d DATA_TREE
     \<and> rh_newNullRoot r = dbRoot (we_compress env) d NULL_TREE
     \<and> rh_newDataRootsRoot r = dbRoot (we_compress env) d ROOT_TREE
     \<and> rh_newDefiRoot r = dbRoot (we_compress env) d DEFI_TREE"

definition dbSubtreeRoot :: "compressFn \<Rightarrow> worldDb \<Rightarrow> nat \<Rightarrow> int \<Rightarrow> nat \<Rightarrow> buffer" where
  "dbSubtreeRoot compress d treeId index depth =
     nodeHash compress (wt_leaf (wd_current d) treeId) depth (nat index div 2 ^ depth)"

section \<open>Claims\<close>

definition claimOf :: "worldEnv \<Rightarrow> rollupProofData \<Rightarrow> nat \<Rightarrow> innerProofData \<Rightarrow> buffer \<Rightarrow> claimDao res" where
  "claimOf env r i prf offchain = bindE (OffchainDefiDepositData_fromBuffer offchain) (\<lambda>o1.
     let fee = odd_txFee o1 - drop_bit 1 (odd_txFee o1);
         slot = (case findIndex (\<lambda>bridge. bridge = BridgeCallData_toBuffer (odd_bridgeCallData o1)) (rh_bridgeCallDatas r) of
                   None \<Rightarrow> -1 | Some k \<Rightarrow> int k);
         interactionNonce = slot + rh_rollupId r * int NUM_BRIDGE_CALLS_PER_BLOCK;
         note = \<lparr>tcn_value = odd_depositValue o1, tcn_bridgeCallData = odd_bridgeCallData o1,
                 tcn_defiInteractionNonce = interactionNonce, tcn_fee = fee, tcn_partialState = odd_partialState o1,
                 tcn_inputNullifier = ip_nullifier1 prf\<rparr>
     in Inr \<lparr>cd_id = rh_dataStartIndex r + int i * 2, cd_nullifier = we_claimNoteNullifier env (we_claimNoteCommitment env note),
          cd_bridgeId = BridgeCallData_toBigInt (odd_bridgeCallData o1), cd_depositValue = odd_depositValue o1,
          cd_partialState = odd_partialState o1,
          cd_partialStateSecretEphPubKey = grumpkinAddress_buffer (odd_partialStateSecretEphPubKey o1),
          cd_inputNullifier = ip_nullifier1 prf, cd_interactionNonce = interactionNonce, cd_fee = fee, cd_created = we_now env,
          cd_claimed = None, cd_interactionResultRollupId = None\<rparr>)"

text \<open>The loop: the claims to add, the nullifiers of the claims that are confirmed and the index into the offchain data.\<close>

definition defiProof :: "worldEnv \<Rightarrow> rollupProofData \<Rightarrow> buffer list \<Rightarrow> claimDao list \<times> buffer list \<times> nat
    \<Rightarrow> nat \<times> innerProofData \<Rightarrow> (claimDao list \<times> buffer list \<times> nat) res" where
  "defiProof env r offchain = (\<lambda>(claims, confirmed, offChainIndex) (i, prf).
     if InnerProofData_isPadding prf then Inr (claims, confirmed, offChainIndex)
     else if ip_proofId prf = DEFI_DEPOSIT then
       bindE (indexE offchain offChainIndex) (\<lambda>o1. mapR (\<lambda>claim. (claims @ [claim], confirmed, offChainIndex + 1)) (claimOf env r i prf o1))
     else if ip_proofId prf = DEFI_CLAIM then Inr (claims, confirmed @ [ip_nullifier1 prf], offChainIndex + 1)
     else Inr (claims, confirmed, offChainIndex + 1))"

definition processDefiProofs :: "worldEnv \<Rightarrow> rollupProofData \<Rightarrow> block \<Rightarrow> int \<Rightarrow> rollupDb \<Rightarrow> rollupDb res" where
  "processDefiProofs env r b minedAt db =
     bindE (foldE (defiProof env r (bl_offchainTxData b)) ([], [], 0) (enumerate 0 (rp_innerProofData r)))
       (\<lambda>(claimsToAdd, confirmClaimedNullifiers, _).
     bindE (RollupDb_addClaims claimsToAdd db) (\<lambda>db.
     let db = RollupDb_confirmClaimed confirmClaimedNullifiers minedAt db
     in Inr (RollupDb_updateClaimsWithResultRollupId (map die_nonce (bl_interactionResult b)) (rh_rollupId r) db)))"

section \<open>The rollup in the database\<close>

definition innerProofDataToTxDao :: "(buffer \<Rightarrow> buffer) \<Rightarrow> innerProofData \<Rightarrow> buffer \<Rightarrow> int \<Rightarrow> txType \<Rightarrow> nat \<Rightarrow> txDao res" where
  "innerProofDataToTxDao keccak tx offchainTxData created txType position =
     bindE (InnerProofData_txId keccak tx) (\<lambda>i. bindE (InnerProofData_toBuffer tx) (\<lambda>proofData. Inr
       \<lparr>td_id = i, td_proofData = proofData, td_offchainTxData = offchainTxData, td_signature = None,
        td_nullifier1 = (if toBigIntBE (ip_nullifier1 tx) \<noteq> 0 then Some (ip_nullifier1 tx) else None),
        td_nullifier2 = (if toBigIntBE (ip_nullifier2 tx) \<noteq> 0 then Some (ip_nullifier2 tx) else None),
        td_dataRootsIndex = None, td_txType = txType, td_created = created, td_mined = Some created, td_excessGas = 0,
        td_position = Some (int position), td_secondClass = False\<rparr>))"

definition blockTx :: "worldEnv \<Rightarrow> buffer list \<Rightarrow> int \<Rightarrow> txDao list \<times> nat \<Rightarrow> nat \<times> innerProofData \<Rightarrow> (txDao list \<times> nat) res" where
  "blockTx env offchain created = (\<lambda>(txs, offChainDataIndex) (i, prf).
     if InnerProofData_isPadding prf then Inr (txs, offChainDataIndex)
     else bindE (indexE offchain offChainDataIndex) (\<lambda>o1.
          mapR (\<lambda>tx. (txs @ [tx], offChainDataIndex + 1))
            (innerProofDataToTxDao (we_keccak env) prf o1 created (getTxTypeFromInnerProofData (ip_proofId prf)) i)))"

definition blockTxs :: "worldEnv \<Rightarrow> rollupProofData \<Rightarrow> buffer list \<Rightarrow> int \<Rightarrow> txDao list res" where
  "blockTxs env r offchain created =
     mapR fst (foldE (blockTx env offchain created) ([], 0) (enumerate 0 (rp_innerProofData r)))"

text \<open>A \<open>Set\<close> keeps the order in which its elements came.\<close>

definition addToSet :: "'a list \<Rightarrow> 'a \<Rightarrow> 'a list" where
  "addToSet xs x = (if x \<in> set xs then xs else xs @ [x])"

definition interactionAssets :: "defiInteractionEvent \<Rightarrow> int list" where
  "interactionAssets e = (let b = die_bridgeCallData e in
     [bcd_inputAssetIdA b, bcd_outputAssetIdA b] @ List.map_filter (\<lambda>x. x) [bcd_inputAssetIdB b, bcd_outputAssetIdB b])"

definition metricsAssets :: "worldEnv \<Rightarrow> rollupProofData \<Rightarrow> defiInteractionEvent list \<Rightarrow> int list" where
  "metricsAssets env r events = foldl addToSet []
     (filter (\<lambda>i. i < we_numAssets env) (rh_assetIds r @ concat (map interactionAssets events)))"

definition claimedFor :: "int \<Rightarrow> defiInteractionEvent list \<Rightarrow> int" where
  "claimedFor assetId events = foldl (\<lambda>a v. a
     + (if bcd_outputAssetIdA (die_bridgeCallData v) = assetId then die_totalOutputValueA v else 0)
     + (if bcd_outputAssetIdB (die_bridgeCallData v) = Some assetId then die_totalOutputValueB v else 0)) 0 events"

text \<open>Adding \<open>undefined\<close> to a \<open>BigInt\<close> throws.\<close>

definition assetMetricsFor ::
  "worldEnv \<Rightarrow> rollupDb \<Rightarrow> rollupProofData \<Rightarrow> defiInteractionEvent list \<Rightarrow> int \<Rightarrow> assetMetricsDao res" where
  "assetMetricsFor env db r events assetId =
    (let m = (case RollupDb_getAssetMetrics assetId db of Some m \<Rightarrow> m
              | None \<Rightarrow> \<lparr>am_rollupId = 0, am_assetId = 0, am_contractBalance = 0, am_totalDeposited = 0, am_totalWithdrawn = 0,
                         am_totalDefiDeposited = 0, am_totalDefiClaimed = 0, am_totalFees = 0\<rparr>) in
     bindE (getTotalDeposited r assetId) (\<lambda>deposited.
     bindE (getTotalWithdrawn r assetId) (\<lambda>withdrawn.
     bindE (getTotalDefiDeposit r assetId) (\<lambda>defiDeposited.
     case getTotalFees r assetId of
       None \<Rightarrow> Inl TypeError
     | Some fees \<Rightarrow> Inr (m\<lparr>am_rollupId := rh_rollupId r, am_assetId := assetId, am_contractBalance := we_rollupBalance env assetId,
         am_totalDeposited := am_totalDeposited m + deposited, am_totalWithdrawn := am_totalWithdrawn m + withdrawn,
         am_totalDefiDeposited := am_totalDefiDeposited m + defiDeposited,
         am_totalDefiClaimed := am_totalDefiClaimed m + claimedFor assetId events, am_totalFees := am_totalFees m + fees\<rparr>)))))"

definition getAssetMetrics ::
  "worldEnv \<Rightarrow> rollupDb \<Rightarrow> rollupProofData \<Rightarrow> defiInteractionEvent list \<Rightarrow> assetMetricsDao list res" where
  "getAssetMetrics env db r events = mapE (assetMetricsFor env db r events) (metricsAssets env r events)"

definition countBridge :: "(int \<times> int) list \<Rightarrow> int \<Rightarrow> (int \<times> int) list" where
  "countBridge counts b =
    (case map_of counts b of None \<Rightarrow> counts @ [(b, 1)]
     | Some n \<Rightarrow> map (\<lambda>(k, v). if k = b then (k, n + 1) else (k, v)) counts)"

definition getBridgeMetrics :: "rollupDb \<Rightarrow> txDao list \<Rightarrow> int \<Rightarrow> bridgeMetricsDao list res" where
  "getBridgeMetrics db txs rollupId =
     bindE (mapE (\<lambda>tx. mapR (\<lambda>o1. BridgeCallData_toBigInt (odd_bridgeCallData o1)) (OffchainDefiDepositData_fromBuffer (td_offchainTxData tx)))
              (filter (\<lambda>tx. td_txType tx = TX_DEFI_DEPOSIT) txs)) (\<lambda>bridges.
     Inr (map (\<lambda>(b, numTxs).
        let m = (case RollupDb_getBridgeMetricsForRollup b rollupId db of Some m \<Rightarrow> m
                 | None \<Rightarrow> \<lparr>bm_rollupId = rollupId, bm_bridgeId = b, bm_numTxs = None, bm_totalNumTxs = None,
                            bm_publishedByProvider = False\<rparr>)
        in m\<lparr>bm_numTxs := Some numTxs,
             bm_totalNumTxs := Some ((case bm_totalNumTxs m of None \<Rightarrow> 0 | Some n \<Rightarrow> n) + numTxs)\<rparr>)
      (foldl countBridge [] bridges)))"

definition minedRollupOf :: "block \<Rightarrow> int \<Rightarrow> buffer \<Rightarrow> minedRollup" where
  "minedRollupOf b minedAt subtreeRoot =
     \<lparr>mr_gasUsed = bl_gasUsed b, mr_gasPrice = bl_gasPrice b, mr_mined = minedAt, mr_ethTxHash = bl_txHash b,
      mr_interactionResult = bl_interactionResult b, mr_subtreeRoot = subtreeRoot\<rparr>"

definition confirmRollup ::
  "worldEnv \<Rightarrow> rollupProofData \<Rightarrow> block \<Rightarrow> int \<Rightarrow> assetMetricsDao list \<Rightarrow> buffer \<Rightarrow> txDao option list \<Rightarrow> worldState step" where
  "confirmRollup env r b minedAt assetMetrics subtreeRoot storedTxs = runSteps
     [onDb (\<lambda>db. bindE (mapE (\<lambda>t. case t of None \<Rightarrow> Inl TypeError | Some tx \<Rightarrow> Inr tx) storedTxs) (\<lambda>txs.
        bindE (getBridgeMetrics db txs (rh_rollupId r)) (\<lambda>bridgeMetrics.
        RollupDb_confirmMined (rh_rollupId r) (minedRollupOf b minedAt subtreeRoot) (map td_id txs) assetMetrics bridgeMetrics db))),
      onDb (\<lambda>db. mapR (\<lambda>_. db) (RollupDb_getRollup (rh_rollupId r) db))]"

text \<open>The metrics of the bridges are computed for a foreign rollup too; neither these nor those of the assets are columns of the row
  that is inserted.\<close>

definition foreignRollup ::
  "worldEnv \<Rightarrow> rollupProofData \<Rightarrow> block \<Rightarrow> int \<Rightarrow> buffer \<Rightarrow> buffer \<Rightarrow> rollupDb \<Rightarrow> rollupDao res" where
  "foreignRollup env r b minedAt rollupHash subtreeRoot db =
     bindE (blockTxs env r (bl_offchainTxData b) minedAt) (\<lambda>txs.
     bindE (getBridgeMetrics db txs (rh_rollupId r)) (\<lambda>_.
     bindE (storedInteractionResult (bl_interactionResult b)) (\<lambda>interactionResult. Inr
       \<lparr>ro_id = rh_rollupId r, ro_dataRoot = rh_newDataRoot r,
        ro_rollupProof = \<lparr>rpd_id = rollupHash, rpd_txs = txs, rpd_encodedProofData = bl_encodedRollupProofData b,
          rpd_rollupSize = rh_rollupSize r, rpd_dataStartIndex = rh_dataStartIndex r, rpd_created = minedAt\<rparr>,
        ro_processRollupCalldata = None, ro_interactionResult = Some interactionResult, ro_ethTxHash = Some (bl_txHash b),
        ro_gasPrice = Some (toBufferBE (bl_gasPrice b) 32), ro_gasUsed = Some (bl_gasUsed b), ro_mined = Some minedAt,
        ro_subtreeRoot = Some subtreeRoot\<rparr>)))"

definition rollupSubtreeRoot :: "worldEnv \<Rightarrow> rollupProofData \<Rightarrow> worldDb \<Rightarrow> buffer" where
  "rollupSubtreeRoot env r d = (let subtreeDepth = ceilLog2 (nat (rh_rollupSize r * 2))
     in dbSubtreeRoot (we_compress env) d DATA_TREE (rh_dataStartIndex r) subtreeDepth)"

definition confirmOrAddRollupToDb ::
  "worldEnv \<Rightarrow> rollupProofData \<Rightarrow> block \<Rightarrow> int \<Rightarrow> buffer \<Rightarrow> worldState step" where
  "confirmOrAddRollupToDb env r b minedAt rollupHash s =
    (case bindE (getAssetMetrics env (ws_rollupDb s) r (bl_interactionResult b)) (\<lambda>assetMetrics.
            mapR (\<lambda>rollupProof. (assetMetrics, rollupProof)) (RollupDb_getRollupProof (we_keccak env) rollupHash (ws_rollupDb s))) of
       Inl e \<Rightarrow> (Some e, s)
     | Inr (assetMetrics, rollupProof) \<Rightarrow>
         let subtreeRoot = rollupSubtreeRoot env r (ws_trees s)
         in case rollupProof of
              Some (_, txs) \<Rightarrow> confirmRollup env r b minedAt assetMetrics subtreeRoot txs s
            | None \<Rightarrow> onDb (\<lambda>db. bindE (foreignRollup env r b minedAt rollupHash subtreeRoot db)
                (\<lambda>rollupDao. RollupDb_addRollup (we_keccak env) rollupDao db)) s)"

section \<open>Pending transactions\<close>

record pendingDepositEntry =
  de_publicOwner :: ethAddress
  de_publicAssetId :: int
  de_contractValue :: int
  de_accumulatedDeposit :: int

record purgeState =
  pg_discarded :: "buffer list"
  pg_txsToPurge :: "txDao list"
  pg_deposits :: "pendingDepositEntry list"

definition purgeTx :: "proofData \<Rightarrow> txDao \<Rightarrow> purgeState \<Rightarrow> purgeState" where
  "purgeTx p tx s = s\<lparr>pg_discarded := pd_noteCommitment2 p # pd_noteCommitment1 p # pg_discarded s,
     pg_txsToPurge := pg_txsToPurge s @ [tx]\<rparr>"

definition spendsSpentNote :: "worldDb \<Rightarrow> proofData \<Rightarrow> bool" where
  "spendsSpentNote d p \<longleftrightarrow> (\<exists>n\<in>set (filter (\<lambda>n. n \<noteq> 0) (map toBigIntBE [pd_nullifier1 p, pd_nullifier2 p])).
     dbGet d NULL_TREE n = oneBuffer)"

text \<open>The entry of an owner and an asset, made with the contract's answer when there is none.\<close>

definition depositEntry :: "worldEnv \<Rightarrow> ethAddress \<Rightarrow> int \<Rightarrow> pendingDepositEntry list \<Rightarrow> nat \<times> pendingDepositEntry list" where
  "depositEntry env publicOwner publicAssetId ds =
    (case findIndex (\<lambda>d. EthAddress_equals (de_publicOwner d) publicOwner \<and> de_publicAssetId d = publicAssetId) ds of
       Some i \<Rightarrow> (i, ds)
     | None \<Rightarrow> (length ds, ds @ [\<lparr>de_publicOwner = publicOwner, de_publicAssetId = publicAssetId,
         de_contractValue = we_pendingDeposit env publicAssetId publicOwner, de_accumulatedDeposit = 0\<rparr>]))"

definition purgeDeposit :: "worldEnv \<Rightarrow> proofData \<Rightarrow> txDao \<Rightarrow> purgeState \<Rightarrow> purgeState res" where
  "purgeDeposit env p tx s =
     bindE (JoinSplit_publicOwner p) (\<lambda>publicOwner. bindE (JoinSplit_publicAssetId p) (\<lambda>publicAssetId.
     let (index, ds) = depositEntry env publicOwner publicAssetId (pg_deposits s);
         newTotalDeposit = de_accumulatedDeposit (ds ! index) + JoinSplit_publicValue p;
         s = s\<lparr>pg_deposits := ds\<rparr>
     in Inr (if newTotalDeposit > de_contractValue (ds ! index) then purgeTx p tx s
             else s\<lparr>pg_deposits := ds[index := (ds ! index)\<lparr>de_accumulatedDeposit := newTotalDeposit\<rparr>]\<rparr>)))"

definition purgeStep :: "worldEnv \<Rightarrow> worldDb \<Rightarrow> purgeState \<Rightarrow> txDao \<Rightarrow> purgeState res" where
  "purgeStep env d s tx = bindE (newProofData (td_proofData tx) None) (\<lambda>p.
     if pd_backwardLink p \<in> set (pg_discarded s) then Inr (purgeTx p tx s)
     else if spendsSpentNote d p then Inr (purgeTx p tx s)
     else if pd_proofId p \<noteq> DEPOSIT then Inr s
     else purgeDeposit env p tx s)"

definition WorldState_validateTxs :: "worldEnv \<Rightarrow> worldDb \<Rightarrow> txDao list \<Rightarrow> buffer list res" where
  "WorldState_validateTxs env d txs = mapR (\<lambda>s. map td_id (pg_txsToPurge s))
     (foldE (purgeStep env d) \<lparr>pg_discarded = [], pg_txsToPurge = [], pg_deposits = []\<rparr> txs)"

definition purgeInvalidTxs :: "worldEnv \<Rightarrow> worldState step" where
  "purgeInvalidTxs env s = onDb (\<lambda>db.
     bindE (WorldState_validateTxs env (ws_trees s) (RollupDb_getPendingTxs None db)) (\<lambda>txsToPurge.
     Inr (if txsToPurge = [] then db else RollupDb_deleteTxsById txsToPurge db))) s"

section \<open>Blocks\<close>

definition processRollup :: "worldEnv \<Rightarrow> rollupProofData \<Rightarrow> block \<Rightarrow> int \<Rightarrow> buffer \<Rightarrow> worldState step" where
  "processRollup env r b minedAt rollupHash s =
    (let ours = rollupIsOurs env r (ws_trees s)
     in runSteps
      ((if ours then [onTrees (\<lambda>d. Inr (wd_commit d))]
        else [onTrees (\<lambda>d. Inr (wd_rollback d)), addRollupToWorldState env r])
       @ [onDb (processDefiProofs env r b minedAt), confirmOrAddRollupToDb env r b minedAt rollupHash]
       @ (if ours then [] else [purgeInvalidTxs env])) s)"

definition updateDbs :: "worldEnv \<Rightarrow> block \<Rightarrow> worldState step" where
  "updateDbs env b s =
    (case bindE (RollupProofData_decode (bl_encodedRollupProofData b)) (\<lambda>r.
            bindE (RollupProofData_rollupHash (we_keccak env) (we_sha256 env) r) (\<lambda>rollupHash.
            mapR (\<lambda>minedAt. (r, rollupHash, minedAt)) (minedOf b))) of
       Inl e \<Rightarrow> (Some e, s)
     | Inr (r, rollupHash, minedAt) \<Rightarrow>
         if rh_rollupId r \<noteq> RollupDb_getNextRollupId (ws_rollupDb s) then (None, s)
         else processRollup env r b minedAt rollupHash s)"

definition startNewPipeline :: "worldEnv \<Rightarrow> worldState \<Rightarrow> worldState" where
  "startNewPipeline env s = (if we_disablePipeline env then s else s\<lparr>ws_pipeline := Running\<rparr>)"

definition stopPipeline :: "worldState \<Rightarrow> worldState" where
  "stopPipeline s = s\<lparr>ws_pipeline := (case ws_pipeline s of NoPipeline \<Rightarrow> NoPipeline | _ \<Rightarrow> Stopped)\<rparr>"

definition handleBlock :: "worldEnv \<Rightarrow> block \<Rightarrow> worldState step" where
  "handleBlock env b = runSteps [\<lambda>s. (None, stopPipeline s), updateDbs env b, \<lambda>s. (None, startNewPipeline env s)]"

text \<open>\<open>stop(true)\<close> throws when the pipeline does not stop.\<close>

definition stopOrThrow :: "unit res \<Rightarrow> worldState step" where
  "stopOrThrow stopped = stepE (\<lambda>s. if ws_pipeline s = NoPipeline then Inr s else mapR (\<lambda>_. stopPipeline s) stopped)"

definition resetPipeline :: "worldEnv \<Rightarrow> unit res \<Rightarrow> worldState step" where
  "resetPipeline env stopped = runSteps [stopOrThrow stopped, onTrees (\<lambda>d. Inr (wd_rollback d)),
     onDb (\<lambda>db. Inr (RollupDb_deleteUnsettledRollups db)), onDb (\<lambda>db. Inr (RollupDb_deleteOrphanedRollupProofs db)),
     onDb (\<lambda>db. Inr (RollupDb_deletePendingTxs db)), \<lambda>s. (None, startNewPipeline env s)]"

definition restartPipeline :: "worldEnv \<Rightarrow> unit res \<Rightarrow> worldState step" where
  "restartPipeline env stopped = runSteps [stopOrThrow stopped, onTrees (\<lambda>d. Inr (wd_rollback d)),
     \<lambda>s. (None, startNewPipeline env s)]"

text \<open>The blocks that come one after the other on the serial queue; one that is refused does not stop the queue.\<close>

definition processBlocks :: "worldEnv \<Rightarrow> block list \<Rightarrow> worldState \<Rightarrow> worldState" where
  "processBlocks env bs s = foldl (\<lambda>s b. snd (updateDbs env b s)) s bs"

definition cleanUp :: "rollupDb \<Rightarrow> rollupDb" where
  "cleanUp db = RollupDb_deleteOrphanedRollupProofs (RollupDb_deleteUnsettledRollups db)"

text \<open>The sub-tree roots of the notes that the initial state starts with.\<close>

definition initialSubtreeRoots :: "worldEnv \<Rightarrow> nat \<Rightarrow> nat \<Rightarrow> worldDb \<Rightarrow> buffer list" where
  "initialSubtreeRoots env dataSize rollupSize d =
    (let numNotesPerRollup = 2 * rollupSize;
         numRollups = dataSize div numNotesPerRollup + (if dataSize mod numNotesPerRollup \<noteq> 0 then 1 else 0);
         subtreeDepth = ceilLog2 numNotesPerRollup
     in map (\<lambda>i. dbSubtreeRoot (we_compress env) d DATA_TREE (int (i * numNotesPerRollup)) subtreeDepth) [0..<numRollups])"

section \<open>The profile of the pool\<close>

record txPoolProfile =
  pp_numTxsInNextRollup :: nat
  pp_numTxs :: nat
  pp_pendingBridgeStats :: "(int \<times> jsnum) list"
  pp_pendingTxCount :: nat
  pp_pendingSecondClassTxCount :: nat

definition accrueGas :: "txFeeResolver \<Rightarrow> (int \<times> jsnum) list \<Rightarrow> txDao \<Rightarrow> (int \<times> jsnum) list res" where
  "accrueGas resolver stats tx = bindE (newProofData (td_proofData tx) None) (\<lambda>p.
     if pd_proofId p \<noteq> DEFI_DEPOSIT then Inr stats
     else bindE (createDefiRollupTx tx (DefiDepositProofData p)) (\<lambda>rollupTx.
     case rt_bridgeCallData rollupTx of None \<Rightarrow> Inl TypeError | Some b \<Rightarrow>
     mapR (\<lambda>gas. let gas = js_add gas (js_int (rt_excessGas rollupTx)) in
         case map_of stats b of None \<Rightarrow> stats @ [(b, js_add (js_int 0) gas)]
         | Some g \<Rightarrow> map (\<lambda>(k, v). if k = b then (k, js_add g gas) else (k, v)) stats)
       (getSingleBridgeTxGas resolver b)))"

definition computeTxPoolProfile :: "txFeeResolver \<Rightarrow> txDao list \<Rightarrow> rollupDb \<Rightarrow> txPoolProfile res" where
  "computeTxPoolProfile resolver processedTransactions db =
    (let notBeingProcessed = filter (\<lambda>tx. td_id tx \<notin> set (map td_id processedTransactions)) (RollupDb_getPendingTxs None db)
     in mapR (\<lambda>stats. \<lparr>pp_numTxsInNextRollup = length processedTransactions, pp_numTxs = RollupDb_getUnsettledTxCount db,
          pp_pendingBridgeStats = stats, pp_pendingTxCount = length notBeingProcessed,
          pp_pendingSecondClassTxCount = RollupDb_getPendingSecondClassTxCount db\<rparr>)
        (foldE (accrueGas resolver) [] notBeingProcessed))"

end
