(* ===== verification/BlockSync.thy ===== *)
theory BlockSync
  imports WorldState
begin

text \<open>
  What a block does to the sequencer (\<open>falafel/src/world_state.ts\<close>, modelled in \<open>WorldState\<close>): the order of the blocks, the trees
  after a block, the block that is served to clients afterwards, the claims it opens and the pool that it leaves.
\<close>

section \<open>Steps\<close>

lemma runSteps_Cons: "runSteps (f # fs) s = (None, s') \<longleftrightarrow> (\<exists>t. f s = (None, t) \<and> runSteps fs t = (None, s'))"
  by (auto split: prod.splits option.splits)

lemma runSteps_append: "runSteps (fs @ gs) s = (None, s') \<longleftrightarrow> (\<exists>t. runSteps fs s = (None, t) \<and> runSteps gs t = (None, s'))"
proof (induction fs arbitrary: s)
  case (Cons f fs)
  have "runSteps ((f # fs) @ gs) s = (None, s') \<longleftrightarrow> (\<exists>t. f s = (None, t) \<and> runSteps (fs @ gs) t = (None, s'))"
    by (simp only: append_Cons runSteps_Cons)
  then show ?case unfolding Cons.IH runSteps_Cons by blast
qed simp

lemma runSteps_Nil: "runSteps [] s = (None, s') \<longleftrightarrow> s' = s"
  by auto

lemmas runSteps_ok = runSteps_Cons runSteps_append runSteps_Nil

declare runSteps.simps(2) [simp del]

lemma runSteps_inv:
  assumes "P s" "\<And>f t. f \<in> set fs \<Longrightarrow> P t \<Longrightarrow> P (snd (f t))"
  shows "P (snd (runSteps fs s))"
  using assms
proof (induction fs arbitrary: s)
  case (Cons f fs)
  have "P (snd (f s))" using Cons.prems by simp
  moreover obtain e t where "f s = (e, t)" by force
  ultimately show ?case using Cons.IH [of t] Cons.prems(2) by (cases e) (simp_all add: runSteps.simps)
qed simp

lemma onTrees_ok: "onTrees f s = (None, s') \<longleftrightarrow> (\<exists>d. f (ws_trees s) = Inr d \<and> s' = s\<lparr>ws_trees := d\<rparr>)"
  by (auto simp: onTrees_def stepE_def mapR_eq_Inr split: sum.splits)

lemma onDb_ok: "onDb f s = (None, s') \<longleftrightarrow> (\<exists>d. f (ws_rollupDb s) = Inr d \<and> s' = s\<lparr>ws_rollupDb := d\<rparr>)"
  by (auto simp: onDb_def stepE_def mapR_eq_Inr split: sum.splits)

lemma onTrees_db [simp]: "ws_rollupDb (snd (onTrees f s)) = ws_rollupDb s"
  by (auto simp: onTrees_def stepE_def mapR_def bindE_def split: sum.splits)

lemma onDb_trees [simp]: "ws_trees (snd (onDb f s)) = ws_trees s"
  by (auto simp: onDb_def stepE_def mapR_def bindE_def split: sum.splits)

lemma onDb_snd: "ws_rollupDb (snd (onDb f s)) = (case f (ws_rollupDb s) of Inl _ \<Rightarrow> ws_rollupDb s | Inr d \<Rightarrow> d)"
  by (auto simp: onDb_def stepE_def mapR_def bindE_def split: sum.splits)

text \<open>The steps on the trees, without the final commit.\<close>

definition rollupSteps :: "worldEnv \<Rightarrow> rollupProofData \<Rightarrow> worldState step list" where
  "rollupSteps env r = concat (map (proofSteps (rh_dataStartIndex r)) (enumerate 0 (rp_innerProofData r)))
     @ [rootStep env (rh_rollupId r)] @ defiSteps (rh_rollupId r) (rh_defiInteractionNotes r)"

lemma addRollupToWorldState_steps: "addRollupToWorldState env r s = (if dbSize (ws_trees s) DATA_TREE > rh_dataStartIndex r then (None, s)
    else runSteps (rollupSteps env r @ [onTrees (\<lambda>d. Inr (wd_commit d))]) s)"
  by (simp add: addRollupToWorldState_def rollupSteps_def)

lemma rollupSteps_trees: "f \<in> set (rollupSteps env r) \<Longrightarrow> \<exists>g. f = onTrees g"
  unfolding rollupSteps_def proofSteps_def nullifierSteps_def putStep_def rootStep_def defiSteps_def
  by (auto split: if_splits)

lemma addRollupToWorldState_db: "ws_rollupDb (snd (addRollupToWorldState env r s)) = ws_rollupDb s"
proof -
  have "ws_rollupDb (snd (runSteps (rollupSteps env r @ [onTrees (\<lambda>d. Inr (wd_commit d))]) s)) = ws_rollupDb s"
    by (rule runSteps_inv [where P = "\<lambda>t. ws_rollupDb t = ws_rollupDb s"]) (use rollupSteps_trees [of _ env r] in \<open>auto dest!: rollupSteps_trees\<close>)
  then show ?thesis by (simp add: addRollupToWorldState_steps)
qed

section \<open>The order of the blocks\<close>

lemma processDefiProofs_parts:
  assumes "processDefiProofs env r b t db = Inr db'"
  obtains claims confirmed k rows where
    "foldE (defiProof env r (bl_offchainTxData b)) ([], [], 0) (enumerate 0 (rp_innerProofData r)) = Inr (claims, confirmed, k)"
    "foldE saveClaim (tb_claim db) claims = Inr rows"
    "db' = RollupDb_updateClaimsWithResultRollupId (map die_nonce (bl_interactionResult b)) (rh_rollupId r)
       (RollupDb_confirmClaimed confirmed t (db\<lparr>tb_claim := rows\<rparr>))"
proof -
  obtain x where x: "foldE (defiProof env r (bl_offchainTxData b)) ([], [], 0) (enumerate 0 (rp_innerProofData r)) = Inr x"
    using assms unfolding processDefiProofs_def bindE_eq_Inr by blast
  obtain claims confirmed k where "x = (claims, confirmed, k)" by (cases x) auto
  then show thesis using assms x that unfolding processDefiProofs_def Let_def RollupDb_addClaims_def
    by (simp only: bindE_Inr bindE_eq_Inr mapR_eq_Inr prod.case) blast
qed

lemma processDefiProofs_claims:
  assumes "processDefiProofs env r b t db = Inr db'"
  shows "\<exists>x. db' = db\<lparr>tb_claim := x\<rparr>"
  by (rule processDefiProofs_parts [OF assms])
    (auto simp: RollupDb_confirmClaimed_def RollupDb_updateClaimsWithResultRollupId_def)

lemma settledRows_simps [simp]:
  "settledRows (db\<lparr>tb_claim := x\<rparr>) = settledRows db" "settledRows (deleteTxsWhere P db) = settledRows db"
  by (simp_all add: settledRows_def deleteTxsWhere_def Let_def)

lemma getRollupProof_claims [simp]: "RollupDb_getRollupProof keccak h (db\<lparr>tb_claim := x\<rparr>) = RollupDb_getRollupProof keccak h db"
proof -
  have "txsOfProof h (db\<lparr>tb_claim := x\<rparr>) = txsOfProof h db" by (simp add: txsOfProof_def)
  then show ?thesis unfolding RollupDb_getRollupProof_def by (simp cong: option.case_cong)
qed

lemma nextRollupId_cong: "settledRows db' = settledRows db \<Longrightarrow> RollupDb_getNextRollupId db' = RollupDb_getNextRollupId db"
  by (simp add: nextRollupId_eq)

lemma updateWhere_settled:
  assumes "\<And>r. rw_id (f r) = rw_id r" "\<And>r. rw_mined (f r) \<noteq> None" "i \<in> set (map rw_id rows)"
  shows "set (map rw_id (filter (\<lambda>r. rw_mined r \<noteq> None) (updateWhere (\<lambda>r. rw_id r = i) f rows)))
    = insert i (set (map rw_id (filter (\<lambda>r. rw_mined r \<noteq> None) rows)) - {i})"
proof -
  have m: "k \<in> set (map rw_id (filter (\<lambda>r. rw_mined r \<noteq> None) (updateWhere (\<lambda>r. rw_id r = i) f rows)))
      \<longleftrightarrow> (\<exists>r\<in>set rows. rw_id r = k \<and> (k = i \<or> rw_mined r \<noteq> None))" for k
  proof (induction rows)
    case (Cons x rows)
    then show ?case by (cases "rw_id x = i") (auto simp: updateWhere_def assms(1,2))
  qed (simp add: updateWhere_def)
  show ?thesis by (rule set_eqI, unfold m) (use assms(3) in auto)
qed

lemma confirmMined_next:
  assumes "RollupDb_confirmMined i m txIds ams bms db = Inr db'" "i = RollupDb_getNextRollupId db" "i \<in> set (map rw_id (tb_rollup db))"
  shows "RollupDb_getNextRollupId db' = i + 1"
proof -
  obtain b where b: "tb_rollup db' = updateWhere (\<lambda>r. rw_id r = i) (\<lambda>r. r\<lparr>rw_mined := Some (mr_mined m), rw_gasUsed := Some (mr_gasUsed m),
        rw_gasPrice := Some (toBufferBE (mr_gasPrice m) 32), rw_ethTxHash := Some (mr_ethTxHash m), rw_interactionResult := Some b,
        rw_subtreeRoot := Some (mr_subtreeRoot m)\<rparr>) (tb_rollup db)"
    using assms(1) by (auto simp: RollupDb_confirmMined_def Let_def bindE_eq_Inr)
  obtain f where f: "tb_rollup db' = updateWhere (\<lambda>r. rw_id r = i) f (tb_rollup db)" "\<And>r. rw_id (f r) = rw_id r" "\<And>r. rw_mined (f r) \<noteq> None"
    by (rule that [OF b]) simp_all
  have "set (map rw_id (settledRows db')) = insert i (set (map rw_id (settledRows db)) - {i})"
    using updateWhere_settled [where i = i and f = f and rows = "tb_rollup db", OF f(2,3) assms(3)] by (simp only: settledRows_def f(1))
  then show ?thesis using assms(2) by (intro nextRollupId_after) simp_all
qed

lemma addRollupToWorldState_ok:
  assumes "addRollupToWorldState env r s = (None, s')"
  shows "\<exists>d. s' = s\<lparr>ws_trees := d\<rparr>"
proof -
  have "\<exists>d. snd (runSteps fs s) = s\<lparr>ws_trees := d\<rparr>" if "\<And>f. f \<in> set fs \<Longrightarrow> \<exists>g. f = onTrees g" for fs
  proof (rule runSteps_inv [where P = "\<lambda>t. \<exists>d. t = s\<lparr>ws_trees := d\<rparr>"])
    show "\<exists>d. s = s\<lparr>ws_trees := d\<rparr>" by (rule exI [of _ "ws_trees s"]) simp
    show "\<exists>d. snd (f t) = s\<lparr>ws_trees := d\<rparr>" if f: "f \<in> set fs" "\<exists>d. t = s\<lparr>ws_trees := d\<rparr>" for f t
    proof -
      obtain g where g: "f = onTrees g" using f(1) \<open>\<And>f. f \<in> set fs \<Longrightarrow> \<exists>g. f = onTrees g\<close> by blast
      obtain d where t: "t = s\<lparr>ws_trees := d\<rparr>" using f(2) by blast
      show ?thesis by (cases "g d"; rule exI [of _ "case g d of Inl _ \<Rightarrow> d | Inr d' \<Rightarrow> d'"]) (simp_all add: g t onTrees_def stepE_def)
    qed
  qed
  moreover have "\<exists>g. f = onTrees g" if "f \<in> set (rollupSteps env r @ [onTrees (\<lambda>d. Inr (wd_commit d))])" for f
    using that rollupSteps_trees by auto
  ultimately have "\<exists>d. snd (runSteps (rollupSteps env r @ [onTrees (\<lambda>d. Inr (wd_commit d))]) s) = s\<lparr>ws_trees := d\<rparr>" by blast
  moreover have "\<exists>d. s = s\<lparr>ws_trees := d\<rparr>" by (rule exI [of _ "ws_trees s"]) simp
  ultimately show ?thesis using assms by (auto simp: addRollupToWorldState_steps split: if_splits)
qed

lemma confirmOrAdd_parts:
  assumes "confirmOrAddRollupToDb env r b t h s = (None, s')"
  obtains (confirmed) p stored ams bms db' and txs :: "txDao list" where "RollupDb_getRollupProof (we_keccak env) h (ws_rollupDb s) = Inr (Some (p, stored))"
      "RollupDb_confirmMined (rh_rollupId r) (minedRollupOf b t (rollupSubtreeRoot env r (ws_trees s))) (map td_id txs) ams bms (ws_rollupDb s) = Inr db'"
      "s' = s\<lparr>ws_rollupDb := db'\<rparr>"
  | (added) dao db' where "RollupDb_getRollupProof (we_keccak env) h (ws_rollupDb s) = Inr None"
      "foreignRollup env r b t h (rollupSubtreeRoot env r (ws_trees s)) (ws_rollupDb s) = Inr dao"
      "RollupDb_addRollup (we_keccak env) dao (ws_rollupDb s) = Inr db'" "s' = s\<lparr>ws_rollupDb := db'\<rparr>"
proof -
  obtain ams known where k: "getAssetMetrics env (ws_rollupDb s) r (bl_interactionResult b) = Inr ams"
    "RollupDb_getRollupProof (we_keccak env) h (ws_rollupDb s) = Inr known"
    using assms unfolding confirmOrAddRollupToDb_def by (auto simp: bindE_def mapR_def split: sum.splits)
  show thesis
  proof (cases known)
    case None
    then show thesis using assms k added unfolding confirmOrAddRollupToDb_def
      by (auto simp: onDb_ok bindE_eq_Inr)
  next
    case (Some x)
    obtain p stored where x: "x = (p, stored)" by (cases x)
    have "\<exists>db1 (txs :: txDao list) bms. RollupDb_confirmMined (rh_rollupId r) (minedRollupOf b t (rollupSubtreeRoot env r (ws_trees s))) (map td_id txs) ams bms (ws_rollupDb s) = Inr db1
      \<and> s' = s\<lparr>ws_rollupDb := db1\<rparr>"
      using assms k Some x unfolding confirmOrAddRollupToDb_def confirmRollup_def Let_def
      by (auto simp: runSteps_ok onDb_ok bindE_eq_Inr mapR_eq_Inr)
    then show thesis using confirmed k(2) Some x by blast
  qed
qed

lemma updateDbs_parts:
  assumes "updateDbs env b s = (None, s')" "RollupProofData_decode (bl_encodedRollupProofData b) = Inr r"
    and "rh_rollupId r = RollupDb_getNextRollupId (ws_rollupDb s)"
  obtains h t d db1 s2 where "RollupProofData_rollupHash (we_keccak env) (we_sha256 env) r = Inr h" "minedOf b = Inr t"
    "if rollupIsOurs env r (ws_trees s) then d = wd_commit (ws_trees s)
     else addRollupToWorldState env r (s\<lparr>ws_trees := wd_rollback (ws_trees s)\<rparr>) = (None, s\<lparr>ws_trees := d\<rparr>)"
    "processDefiProofs env r b t (ws_rollupDb s) = Inr db1"
    "confirmOrAddRollupToDb env r b t h (s\<lparr>ws_trees := d, ws_rollupDb := db1\<rparr>) = (None, s2)"
    "if rollupIsOurs env r (ws_trees s) then s' = s2 else purgeInvalidTxs env s2 = (None, s')"
proof -
  obtain h t where h: "RollupProofData_rollupHash (we_keccak env) (we_sha256 env) r = Inr h" "minedOf b = Inr t"
    and p: "processRollup env r b t h s = (None, s')"
    using assms unfolding updateDbs_def by (auto simp: bindE_def mapR_def split: sum.splits)
  show thesis
  proof (cases "rollupIsOurs env r (ws_trees s)")
    case True
    have "\<exists>db1. processDefiProofs env r b t (ws_rollupDb s) = Inr db1 \<and> confirmOrAddRollupToDb env r b t h
        (s\<lparr>ws_trees := wd_commit (ws_trees s), ws_rollupDb := db1\<rparr>) = (None, s')"
      using p True by (auto simp: processRollup_def runSteps_ok onTrees_ok onDb_ok)
    then show thesis using True that [OF h, of "wd_commit (ws_trees s)"] by auto
  next
    case False
    obtain s1 db1 s2 where q: "addRollupToWorldState env r (s\<lparr>ws_trees := wd_rollback (ws_trees s)\<rparr>) = (None, s1)"
      "processDefiProofs env r b t (ws_rollupDb s1) = Inr db1" "confirmOrAddRollupToDb env r b t h (s1\<lparr>ws_rollupDb := db1\<rparr>) = (None, s2)"
      "purgeInvalidTxs env s2 = (None, s')"
      using p False by (auto simp: processRollup_def runSteps_ok onTrees_ok onDb_ok)
    obtain d where "s1 = s\<lparr>ws_trees := d\<rparr>" using addRollupToWorldState_ok [OF q(1)] by auto
    then show thesis using q False by (intro that [OF h]) auto
  qed
qed

lemma purge_ok:
  assumes "purgeInvalidTxs env s = (None, s')"
  obtains ids where "WorldState_validateTxs env (ws_trees s) (RollupDb_getPendingTxs None (ws_rollupDb s)) = Inr ids"
    "s' = s\<lparr>ws_rollupDb := RollupDb_deleteTxsById ids (ws_rollupDb s)\<rparr>"
proof -
  have "RollupDb_deleteTxsById [] db = db" for db :: rollupDb
    by (simp add: RollupDb_deleteTxsById_def deleteTxsWhere_def Let_def option.case_eq_if cong: option.case_cong)
  then show thesis using assms that by (auto simp: purgeInvalidTxs_def onDb_ok bindE_eq_Inr split: if_splits)
qed

lemma foreignRollup_fields:
  assumes "foreignRollup env r b t h subtree db = Inr dao"
  shows "ro_id dao = rh_rollupId r" "ro_mined dao = Some t" "rpd_id (ro_rollupProof dao) = h" "ro_dataRoot dao = rh_newDataRoot r"
    "rpd_encodedProofData (ro_rollupProof dao) = bl_encodedRollupProofData b"
    "blockTxs env r (bl_offchainTxData b) t = Inr (rpd_txs (ro_rollupProof dao))"
  using assms by (auto simp: foreignRollup_def bindE_eq_Inr)

lemma confirmOrAdd_next:
  assumes "confirmOrAddRollupToDb env r b t h s = (None, s2)" "rh_rollupId r = RollupDb_getNextRollupId (ws_rollupDb s)"
    and "\<And>p. RollupDb_getRollupProof (we_keccak env) h (ws_rollupDb s) = Inr (Some p) \<Longrightarrow> rh_rollupId r \<in> set (rollupIds (ws_rollupDb s))"
  shows "RollupDb_getNextRollupId (ws_rollupDb s2) = rh_rollupId r + 1"
proof (cases rule: confirmOrAdd_parts [OF assms(1), case_names confirmed added])
  case (confirmed q stored ams bms db' txs)
  have "rh_rollupId r \<in> set (map rw_id (tb_rollup (ws_rollupDb s)))" using assms(3) [OF confirmed(1)] unfolding rollupIds_def .
  from confirmMined_next [OF confirmed(2) assms(2) this] show ?thesis unfolding confirmed(3) by simp
next
  case (added dao db')
  note f = foreignRollup_fields(1,2) [OF added(2)]
  have "ro_id dao = RollupDb_getNextRollupId (ws_rollupDb s)" "ro_mined dao \<noteq> None" unfolding f assms(2) by simp_all
  from addRollup_next [OF added(3) this] show ?thesis unfolding added(4) f by simp
qed

lemma purge_next:
  assumes "if c then s' = s2 else purgeInvalidTxs env s2 = (None, s')"
  shows "RollupDb_getNextRollupId (ws_rollupDb s') = RollupDb_getNextRollupId (ws_rollupDb s2)"
proof (cases c)
  case False
  then have "purgeInvalidTxs env s2 = (None, s')" using assms by simp
  then obtain ids where "s' = s2\<lparr>ws_rollupDb := RollupDb_deleteTxsById ids (ws_rollupDb s2)\<rparr>" by (rule purge_ok)
  then show ?thesis by (intro nextRollupId_cong) (simp add: RollupDb_deleteTxsById_def)
qed (use assms in simp)

text \<open>C5: Blocks are applied in the order of their ids: a block with another id than the next one leaves everything as it is, and the next one,
  when it is processed without an error, moves the next id by one (the rollup being stored when its proof is the sequencer's own).\<close>

theorem blocks_applied_in_order:
  assumes "RollupProofData_decode (bl_encodedRollupProofData b) = Inr r" "updateDbs env b s = (e, s')"
    and "\<And>h p. RollupProofData_rollupHash (we_keccak env) (we_sha256 env) r = Inr h
      \<Longrightarrow> RollupDb_getRollupProof (we_keccak env) h (ws_rollupDb s) = Inr (Some p) \<Longrightarrow> rh_rollupId r \<in> set (rollupIds (ws_rollupDb s))"
  defines "n \<equiv> RollupDb_getNextRollupId (ws_rollupDb s)"
  shows "(rh_rollupId r \<noteq> n \<longrightarrow> s' = s) \<and> (rh_rollupId r = n \<and> e = None \<longrightarrow> RollupDb_getNextRollupId (ws_rollupDb s') = n + 1)"
proof (intro conjI impI)
  assume "rh_rollupId r \<noteq> n"
  then show "s' = s" using assms(1,2) unfolding updateDbs_def n_def
    by (cases "RollupProofData_rollupHash (we_keccak env) (we_sha256 env) r"; cases "minedOf b") simp_all
next
  assume a: "rh_rollupId r = n \<and> e = None"
  then have ok: "updateDbs env b s = (None, s')" "rh_rollupId r = RollupDb_getNextRollupId (ws_rollupDb s)" using assms(2) n_def by simp_all
  obtain h t d db1 s2 where p: "RollupProofData_rollupHash (we_keccak env) (we_sha256 env) r = Inr h"
    "processDefiProofs env r b t (ws_rollupDb s) = Inr db1"
    "confirmOrAddRollupToDb env r b t h (s\<lparr>ws_trees := d, ws_rollupDb := db1\<rparr>) = (None, s2)"
    "if rollupIsOurs env r (ws_trees s) then s' = s2 else purgeInvalidTxs env s2 = (None, s')"
    by (rule updateDbs_parts [OF ok(1) assms(1) ok(2)])
  obtain x where x: "db1 = (ws_rollupDb s)\<lparr>tb_claim := x\<rparr>" using processDefiProofs_claims [OF p(2)] by blast
  have next1: "RollupDb_getNextRollupId db1 = RollupDb_getNextRollupId (ws_rollupDb s)" unfolding x by (rule nextRollupId_cong) simp
  have "RollupDb_getNextRollupId (ws_rollupDb s2) = rh_rollupId r + 1"
  proof (rule confirmOrAdd_next [OF p(3)])
    show "rh_rollupId r = RollupDb_getNextRollupId (ws_rollupDb (s\<lparr>ws_trees := d, ws_rollupDb := db1\<rparr>))" using next1 ok(2) by simp
    show "rh_rollupId r \<in> set (rollupIds (ws_rollupDb (s\<lparr>ws_trees := d, ws_rollupDb := db1\<rparr>)))"
      if k: "RollupDb_getRollupProof (we_keccak env) h (ws_rollupDb (s\<lparr>ws_trees := d, ws_rollupDb := db1\<rparr>)) = Inr (Some q)" for q
    proof -
      have "RollupDb_getRollupProof (we_keccak env) h (ws_rollupDb s) = Inr (Some q)" using k by (simp add: x)
      from assms(3) [OF p(1) this] show ?thesis by (simp add: x rollupIds_def)
    qed
  qed
  then show "RollupDb_getNextRollupId (ws_rollupDb s') = n + 1" using purge_next [OF p(4)] a by simp
qed

section \<open>The block that is served\<close>

lemma storedInteractionResult_parsed:
  assumes "storedInteractionResult es = Inr buf" "\<forall>e\<in>set es. valid_interactionEvent e"
  shows "parseInteractionResult buf = Inr es"
proof -
  obtain bs where b: "mapE DefiInteractionEvent_toBuffer es = Inr bs" "serializeBufferArrayToVector bs = Inr buf"
    using assms(1) by (auto simp: storedInteractionResult_def bindE_eq_Inr)
  have "list_all2 (reads DefiInteractionEvent_deserialize) es bs"
    using mapE_Inr_length [OF b(1)] mapE_Inr_nth [OF b(1)] assms(2) reads_interactionEvent
    by (auto simp: list_all2_conv_all_nth)
  from readsD [OF reads_array [OF this b(2)], of "[]" 0 "[]"]
  have "des_deserializeArray DefiInteractionEvent_deserialize (newDeserializer buf 0) = Inr (es, newDeserializer buf (length buf))"
    by (simp add: des_deserializeArray_def des_exec_def newDeserializer_def)
  moreover from b(2) obtain l where "writeUInt32BE (int (length bs)) = Inr l" "buf = l @ concat bs"
    by (auto simp: serializeBufferArrayToVector_def mapR_eq_Inr)
  then have "length buf \<noteq> 0" using writeUInt32BE_length by fastforce
  ultimately show ?thesis by (simp add: parseInteractionResult_def)
qed

lemma innerProofDataToTxDao_fields:
  assumes "innerProofDataToTxDao keccak q o1 t ty i = Inr tx"
  shows "InnerProofData_txId keccak q = Inr (td_id tx)" "td_offchainTxData tx = o1" "td_mined tx = Some t"
    "InnerProofData_toBuffer q = Inr (td_proofData tx)"
    "td_nullifier1 tx = (if toBigIntBE (ip_nullifier1 q) \<noteq> 0 then Some (ip_nullifier1 q) else None)"
  using assms by (auto simp: innerProofDataToTxDao_def bindE_eq_Inr)

lemma blockTx_step: "blockTx env offchain t (txs, k) (i, q) = (if InnerProofData_isPadding q then Inr (txs, k)
    else bindE (indexE offchain k) (\<lambda>o1. mapR (\<lambda>tx. (txs @ [tx], k + 1))
      (innerProofDataToTxDao (we_keccak env) q o1 t (getTxTypeFromInnerProofData (ip_proofId q)) i)))"
  by (simp add: blockTx_def)

lemma blockTx_fold:
  assumes "foldE (blockTx env offchain t) (txs0, k) (enumerate i ps) = Inr (txs, k')"
  shows "\<exists>new. txs = txs0 @ new \<and> mapE (InnerProofData_txId (we_keccak env)) (filter (\<lambda>q. \<not> InnerProofData_isPadding q) ps) = Inr (map td_id new)
    \<and> k' = k + length new \<and> (\<forall>j<length new. k + j < length offchain \<and> td_offchainTxData (new ! j) = offchain ! (k + j))"
  using assms
proof (induction ps arbitrary: i txs0 k)
  case (Cons q ps)
  show ?case
  proof (cases "InnerProofData_isPadding q")
    case True
    then show ?thesis using Cons.IH [of txs0 k "Suc i"] Cons.prems by (simp add: blockTx_step)
  next
    case False
    obtain tx where tx: "k < length offchain" "innerProofDataToTxDao (we_keccak env) q (offchain ! k) t (getTxTypeFromInnerProofData (ip_proofId q)) i = Inr tx"
      "foldE (blockTx env offchain t) (txs0 @ [tx], k + 1) (enumerate (Suc i) ps) = Inr (txs, k')"
      using Cons.prems False by (auto simp: blockTx_step bindE_eq_Inr mapR_eq_Inr indexE_def split: if_splits)
    obtain new where new: "txs = (txs0 @ [tx]) @ new" "mapE (InnerProofData_txId (we_keccak env)) (filter (\<lambda>q. \<not> InnerProofData_isPadding q) ps) = Inr (map td_id new)"
      "k' = k + 1 + length new" "\<forall>j<length new. k + 1 + j < length offchain \<and> td_offchainTxData (new ! j) = offchain ! (k + 1 + j)"
      using Cons.IH [OF tx(3)] by blast
    note f = innerProofDataToTxDao_fields [OF tx(2)]
    show ?thesis
      by (rule exI [of _ "tx # new"]) (use new f tx(1) False in \<open>auto simp: less_Suc_eq_0_disj nth_Cons split: nat.splits\<close>)
  qed
qed auto

lemma blockTxs_eq:
  assumes "blockTxs env r offchain t = Inr txs"
  shows "getNonPaddingTxIds (we_keccak env) r = Inr (map td_id txs)" "map td_offchainTxData txs = take (length txs) offchain"
    "length txs = length (getNonPaddingProofs r)"
proof -
  obtain k where "foldE (blockTx env offchain t) ([], 0) (enumerate 0 (rp_innerProofData r)) = Inr (txs, k)"
    using assms by (auto simp: blockTxs_def mapR_eq_Inr)
  from blockTx_fold [OF this] have n: "mapE (InnerProofData_txId (we_keccak env)) (getNonPaddingProofs r) = Inr (map td_id txs)"
    "\<forall>j<length txs. j < length offchain \<and> td_offchainTxData (txs ! j) = offchain ! j" by (auto simp: getNonPaddingProofs_def)
  then show "getNonPaddingTxIds (we_keccak env) r = Inr (map td_id txs)" by (simp add: getNonPaddingTxIds_def)
  show "length txs = length (getNonPaddingProofs r)" using mapE_Inr_length [OF n(1)] by simp
  have "length txs \<le> length offchain" using n(2) by (cases "length txs") (auto simp: less_Suc_eq_le)
  then show "map td_offchainTxData txs = take (length txs) offchain" using n(2) by (intro nth_equalityI) auto
qed

lemma purgeDeposit_ok:
  assumes "purgeDeposit env p tx s = Inr s'"
  obtains a i k ds where "JoinSplit_publicOwner p = Inr a" "JoinSplit_publicAssetId p = Inr i"
    "depositEntry env a i (pg_deposits s) = (k, ds)"
    "s' = (if de_accumulatedDeposit (ds ! k) + JoinSplit_publicValue p > de_contractValue (ds ! k) then purgeTx p tx (s\<lparr>pg_deposits := ds\<rparr>)
      else s\<lparr>pg_deposits := ds[k := (ds ! k)\<lparr>de_accumulatedDeposit := de_accumulatedDeposit (ds ! k) + JoinSplit_publicValue p\<rparr>]\<rparr>)"
proof -
  obtain a i where a: "JoinSplit_publicOwner p = Inr a" "JoinSplit_publicAssetId p = Inr i"
    using assms by (auto simp: purgeDeposit_def bindE_eq_Inr)
  obtain k ds where k: "depositEntry env a i (pg_deposits s) = (k, ds)" by force
  show thesis by (rule that [OF a k]) (use assms a k in \<open>auto simp: purgeDeposit_def Let_def\<close>)
qed

lemma purgeStep_purges:
  assumes "purgeStep env d s tx = Inr s'"
  shows "pg_txsToPurge s' = pg_txsToPurge s \<or> pg_txsToPurge s' = pg_txsToPurge s @ [tx]"
  using assms by (auto simp: purgeStep_def purgeTx_def bindE_eq_Inr elim!: purgeDeposit_ok split: if_splits)

lemma validateTxs_subset:
  assumes "WorldState_validateTxs env d txs = Inr ids"
  shows "set ids \<subseteq> td_id ` set txs"
proof -
  obtain s where s: "foldE (purgeStep env d) \<lparr>pg_discarded = [], pg_txsToPurge = [], pg_deposits = []\<rparr> txs = Inr s" "ids = map td_id (pg_txsToPurge s)"
    using assms by (auto simp: WorldState_validateTxs_def mapR_eq_Inr)
  have "set (pg_txsToPurge s) \<subseteq> set txs"
    by (rule foldE_invariant [OF s(1), where P = "\<lambda>s. set (pg_txsToPurge s) \<subseteq> set txs"]) (auto dest!: purgeStep_purges)
  then show ?thesis by (auto simp: s(2))
qed

lemma getPendingTxs_set: "set (RollupDb_getPendingTxs None db) = tw_tx ` {w \<in> set (tb_tx db). tw_rollupProof w = None \<and> \<not> td_secondClass (tw_tx w)}"
  by (auto simp: RollupDb_getPendingTxs_def takeOpt_def pendingRows_def)

lemma deletePending_keeps:
  assumes "distinct (rowIds db)" "set ids \<subseteq> td_id ` set (RollupDb_getPendingTxs None db)"
  shows "txsOfProof p (RollupDb_deleteTxsById ids db) = txsOfProof p db"
proof -
  have "td_id (tw_tx w) \<notin> set ids" if w: "w \<in> set (tb_tx db)" "tw_rollupProof w = Some p" for w
  proof
    assume "td_id (tw_tx w) \<in> set ids"
    then obtain w2 where "w2 \<in> set (tb_tx db)" "tw_rollupProof w2 = None" "td_id (tw_tx w2) = td_id (tw_tx w)"
      using assms(2) by (auto simp: getPendingTxs_set)
    moreover from this have "w2 = w" using assms(1) w(1) by (auto simp: rowIds_def distinct_map inj_on_def)
    ultimately show False using w(2) by simp
  qed
  then have "filter (\<lambda>w. tw_rollupProof w = Some p) (filter (\<lambda>w. td_id (tw_tx w) \<notin> set ids) (tb_tx db))
      = filter (\<lambda>w. tw_rollupProof w = Some p) (tb_tx db)"
    by (auto simp: filter_filter intro!: filter_cong)
  then show ?thesis by (simp add: txsOfProof_def RollupDb_deleteTxsById_def deleteTxsWhere_def Let_def)
qed

lemma getRollup_purged:
  assumes "\<And>p. txsOfProof p db' = txsOfProof p db" "tb_rollup db' = tb_rollup db" "tb_rollupProof db' = tb_rollupProof db"
  shows "RollupDb_getRollup i db' = RollupDb_getRollup i db"
proof -
  have "loadRollup db' r = loadRollup db r" for r by (simp add: loadRollup_def rollupTxsInOrder_def assms cong: option.case_cong)
  then have "loadRollupE db' r = loadRollupE db r" for r by (simp add: loadRollupE_def)
  then show ?thesis by (simp add: RollupDb_getRollup_def assms(2) cong: option.case_cong)
qed

lemma purge_keeps_rollups:
  assumes "if c then s' = s2 else purgeInvalidTxs env s2 = (None, s')" "keysHold (ws_rollupDb s2)"
  shows "RollupDb_getRollup i (ws_rollupDb s') = RollupDb_getRollup i (ws_rollupDb s2)" "ws_trees s' = ws_trees s2"
proof -
  have "RollupDb_getRollup i (ws_rollupDb s') = RollupDb_getRollup i (ws_rollupDb s2) \<and> ws_trees s' = ws_trees s2"
  proof (cases c)
    case False
    then have "purgeInvalidTxs env s2 = (None, s')" using assms(1) by simp
    then obtain ids where ids: "WorldState_validateTxs env (ws_trees s2) (RollupDb_getPendingTxs None (ws_rollupDb s2)) = Inr ids"
      "s' = s2\<lparr>ws_rollupDb := RollupDb_deleteTxsById ids (ws_rollupDb s2)\<rparr>" by (rule purge_ok)
    have "txsOfProof p (RollupDb_deleteTxsById ids (ws_rollupDb s2)) = txsOfProof p (ws_rollupDb s2)" for p
      using assms(2) validateTxs_subset [OF ids(1)] by (intro deletePending_keeps) (simp_all add: keysHold_def)
    then have "RollupDb_getRollup i (RollupDb_deleteTxsById ids (ws_rollupDb s2)) = RollupDb_getRollup i (ws_rollupDb s2)"
      by (rule getRollup_purged) (simp_all add: RollupDb_deleteTxsById_def deleteTxsWhere_def Let_def)
    then show ?thesis by (simp add: ids(2))
  qed (use assms(1) in simp)
  then show "RollupDb_getRollup i (ws_rollupDb s') = RollupDb_getRollup i (ws_rollupDb s2)" "ws_trees s' = ws_trees s2" by simp_all
qed

lemma keysHold_refs: "keysHold db \<Longrightarrow> refsOK db"
  by (auto simp: keysHold_def refsOK_def txRefs_def proofIds_def)

lemma processDefiProofs_keys:
  assumes "processDefiProofs env r b t db = Inr db'" "keysHold db"
  shows "keysHold db'"
proof (rule processDefiProofs_parts [OF assms(1)])
  fix claims confirmed k rows
  assume "foldE saveClaim (tb_claim db) claims = Inr rows"
    and e: "db' = RollupDb_updateClaimsWithResultRollupId (map die_nonce (bl_interactionResult b)) (rh_rollupId r)
       (RollupDb_confirmClaimed confirmed t (db\<lparr>tb_claim := rows\<rparr>))"
  then have "RollupDb_addClaims claims db = Inr (db\<lparr>tb_claim := rows\<rparr>)" by (simp add: RollupDb_addClaims_def)
  from keysHold_addClaims [OF this assms(2)] show "keysHold db'" unfolding e by (intro keysHold_columns)
qed

lemma confirmOrAdd_keys:
  assumes "confirmOrAddRollupToDb env r b t h s = (None, s')" "keysHold (ws_rollupDb s)"
  shows "keysHold (ws_rollupDb s')" "ws_trees s' = ws_trees s"
proof -
  have "keysHold (ws_rollupDb s') \<and> ws_trees s' = ws_trees s"
    by (rule confirmOrAdd_parts [OF assms(1)]) (auto dest: keysHold_confirmMined keysHold_addRollup intro: assms(2))
  then show "keysHold (ws_rollupDb s')" "ws_trees s' = ws_trees s" by simp_all
qed

lemma storedAs_offchain:
  assumes "list_all2 storedAs xs ys"
  shows "map td_offchainTxData ys = map td_offchainTxData xs"
  using assms by (induction rule: list_all2_induct) (simp_all add: storedAs_def)

lemma getRollupProof_unknown:
  assumes "h \<notin> set (proofIds db)"
  shows "RollupDb_getRollupProof keccak h db = Inr None"
proof -
  have "find (\<lambda>p. pw_id p = h) (tb_rollupProof db) = None" using assms by (auto simp: find_None_iff proofIds_def)
  then show ?thesis by (simp add: RollupDb_getRollupProof_def)
qed

lemma foreignRollup_served:
  assumes f: "foreignRollup env r b t h subtree db = Inr dao" and a: "RollupDb_addRollup (we_keccak env) dao db = Inr db'" and k: "keysHold db"
    and r: "RollupProofData_decode (bl_encodedRollupProofData b) = Inr r" and t: "bl_mined b = Some t"
    and ids: "getNonPaddingTxIds (we_keccak env) r = Inr txIds" "distinct txIds"
    and o1: "length (bl_offchainTxData b) = length (getNonPaddingProofs r)"
    and ev: "\<forall>e\<in>set (bl_interactionResult b). valid_interactionEvent e" and g: "word32 (bl_gasPrice b)"
  shows "\<exists>dao. RollupDb_getRollup (rh_rollupId r) db' = Inr (Some dao) \<and> rollupDaoToBlock dao
    = Inr (b\<lparr>bl_rollupId := rh_rollupId r, bl_rollupSize := rh_rollupSize r, bl_subtreeRoot := Some subtree\<rparr>)"
proof -
  note ff = foreignRollup_fields [OF f]
  obtain ir where ir: "storedInteractionResult (bl_interactionResult b) = Inr ir"
    "ro_id dao = rh_rollupId r" "ro_interactionResult dao = Some ir" "ro_ethTxHash dao = Some (bl_txHash b)"
    "ro_gasPrice dao = Some (toBufferBE (bl_gasPrice b) 32)" "ro_gasUsed dao = Some (bl_gasUsed b)" "ro_mined dao = Some t"
    "ro_subtreeRoot dao = Some subtree" "rpd_rollupSize (ro_rollupProof dao) = rh_rollupSize r"
    using f by (auto simp: foreignRollup_def bindE_eq_Inr)
  note bt = blockTxs_eq [OF ff(6)]
  have tx: "txIds = map td_id (rpd_txs (ro_rollupProof dao))" using bt(1) ids(1) by simp
  obtain txs where l: "RollupDb_getRollup (ro_id dao) db' = Inr (Some (dao\<lparr>ro_rollupProof := (ro_rollupProof dao)\<lparr>rpd_txs := txs\<rparr>\<rparr>))"
    "list_all2 storedAs (rpd_txs (ro_rollupProof dao)) txs"
    using addRollup_loads [OF a keysHold_refs [OF k], of r] ff(5) r bt(1) ids(2) tx by auto
  have off: "map td_offchainTxData txs = bl_offchainTxData b"
    using storedAs_offchain [OF l(2)] bt(2,3) o1 by simp
  let ?dao = "dao\<lparr>ro_rollupProof := (ro_rollupProof dao)\<lparr>rpd_txs := txs\<rparr>\<rparr>"
  have d: "ro_ethTxHash ?dao = Some (bl_txHash b)" "ro_mined ?dao = Some t" "ro_interactionResult ?dao = Some ir" "ro_gasUsed ?dao = Some (bl_gasUsed b)"
    "ro_gasPrice ?dao = Some (toBufferBE (bl_gasPrice b) 32)" "ro_id ?dao = rh_rollupId r" "ro_subtreeRoot ?dao = Some subtree"
    "rpd_rollupSize (ro_rollupProof ?dao) = rh_rollupSize r" "rpd_encodedProofData (ro_rollupProof ?dao) = bl_encodedRollupProofData b"
    "map td_offchainTxData (rpd_txs (ro_rollupProof ?dao)) = bl_offchainTxData b"
    using ir(2-) ff(5) off by simp_all
  have "rollupDaoToBlock ?dao = Inr (b\<lparr>bl_rollupId := rh_rollupId r, bl_rollupSize := rh_rollupSize r, bl_subtreeRoot := Some subtree\<rparr>)"
    unfolding rollupDaoToBlock_def d prod.case option.case storedInteractionResult_parsed [OF ir(1) ev] bindE_Inr word32_roundtrip(1) [OF g]
    using t by simp
  then show ?thesis using l(1) ff(1) by auto
qed

text \<open>C4: The sequencer serves the blocks it has read: after a block with someone else's rollup is processed, the rollup loaded from the database turns
  into that block again, with its proof data, the offchain data of its transactions in order, its DeFi results, gas, date and hash, and with the
  sub-tree root of its notes in the trees.\<close>

theorem foreign_block_served_back:
  assumes "updateDbs env b s = (None, s')" "RollupProofData_decode (bl_encodedRollupProofData b) = Inr r"
    and "rh_rollupId r = RollupDb_getNextRollupId (ws_rollupDb s)" "keysHold (ws_rollupDb s)"
    and "\<And>h. RollupProofData_rollupHash (we_keccak env) (we_sha256 env) r = Inr h \<Longrightarrow> h \<notin> set (proofIds (ws_rollupDb s))"
    and "getNonPaddingTxIds (we_keccak env) r = Inr txIds" "distinct txIds" "length (bl_offchainTxData b) = length txIds"
    and "\<forall>e\<in>set (bl_interactionResult b). valid_interactionEvent e" "word32 (bl_gasPrice b)"
  shows "\<exists>dao. RollupDb_getRollup (rh_rollupId r) (ws_rollupDb s') = Inr (Some dao) \<and> rollupDaoToBlock dao
    = Inr (b\<lparr>bl_rollupId := rh_rollupId r, bl_rollupSize := rh_rollupSize r,
             bl_subtreeRoot := Some (rollupSubtreeRoot env r (ws_trees s'))\<rparr>)"
proof -
  obtain h t d db1 s2 where p: "RollupProofData_rollupHash (we_keccak env) (we_sha256 env) r = Inr h" "minedOf b = Inr t"
    "processDefiProofs env r b t (ws_rollupDb s) = Inr db1"
    "confirmOrAddRollupToDb env r b t h (s\<lparr>ws_trees := d, ws_rollupDb := db1\<rparr>) = (None, s2)"
    "if rollupIsOurs env r (ws_trees s) then s' = s2 else purgeInvalidTxs env s2 = (None, s')"
    by (rule updateDbs_parts [OF assms(1-3)])
  obtain x where x: "db1 = (ws_rollupDb s)\<lparr>tb_claim := x\<rparr>" using processDefiProofs_claims [OF p(3)] by blast
  have k1: "keysHold db1" by (rule processDefiProofs_keys [OF p(3) assms(4)])
  have k2: "keysHold (ws_rollupDb s2)" "ws_trees s2 = d" using confirmOrAdd_keys [OF p(4)] k1 by simp_all
  note purged = purge_keeps_rollups [OF p(5) k2(1)]
  have "proofIds db1 = proofIds (ws_rollupDb s)" by (simp add: x proofIds_def)
  then have u: "RollupDb_getRollupProof (we_keccak env) h db1 = Inr None" using assms(5) [OF p(1)] by (intro getRollupProof_unknown) simp
  have len: "length (bl_offchainTxData b) = length (getNonPaddingProofs r)"
    using assms(6,8) mapE_Inr_length by (auto simp: getNonPaddingTxIds_def)
  have t: "bl_mined b = Some t" using p(2) by (simp add: minedOf_def split: option.splits)
  show ?thesis
  proof (cases rule: confirmOrAdd_parts [OF p(4), case_names confirmed added])
    case (confirmed q stored ams bms db' txs)
    then show ?thesis using u by simp
  next
    case (added dao db')
    have "\<exists>dao. RollupDb_getRollup (rh_rollupId r) db' = Inr (Some dao) \<and> rollupDaoToBlock dao
      = Inr (b\<lparr>bl_rollupId := rh_rollupId r, bl_rollupSize := rh_rollupSize r, bl_subtreeRoot := Some (rollupSubtreeRoot env r d)\<rparr>)"
      using added(2,3) by (intro foreignRollup_served [OF _ _ k1 assms(2) t assms(6,7) len assms(9,10)]) simp_all
    then show ?thesis using added(4) purged k2(2) by simp
  qed
qed

section \<open>The trees after a block\<close>

lemma trees_distinct' [simp]: "ROOT_TREE \<noteq> DATA_TREE" "ROOT_TREE \<noteq> NULL_TREE" "DEFI_TREE \<noteq> DATA_TREE" "DEFI_TREE \<noteq> NULL_TREE"
  "DEFI_TREE \<noteq> ROOT_TREE" "DATA_TREE \<noteq> DEFI_TREE" "NULL_TREE \<noteq> DEFI_TREE" "ROOT_TREE \<noteq> DEFI_TREE"
  by (simp_all add: DATA_TREE_def NULL_TREE_def ROOT_TREE_def DEFI_TREE_def)

abbreviation leaves :: "worldState \<Rightarrow> nat \<Rightarrow> nat \<Rightarrow> buffer" where
  "leaves s \<equiv> wt_leaf (wd_current (ws_trees s))"

definition blockNullifiers :: "innerProofData list \<Rightarrow> nat set" where
  "blockNullifiers ps = {nat (toBigIntBE n) | n q. q \<in> set ps \<and> \<not> InnerProofData_isPadding q
     \<and> n \<in> {ip_nullifier1 q, ip_nullifier2 q} \<and> toBigIntBE n \<noteq> 0}"

lemma blockNullifiers_Cons: "blockNullifiers (q # ps) = blockNullifiers [q] \<union> blockNullifiers ps"
  by (auto simp: blockNullifiers_def)

lemma putStep_leaf: "putStep t i v s = (None, s') \<Longrightarrow> leaves s' = (leaves s)(t := (leaves s t)(nat i := v))"
  by (auto simp: putStep_def onTrees_ok dest: dbPut_leaf)

lemma nullifierSteps_leaf:
  assumes "runSteps (nullifierSteps n) s = (None, s')"
  shows "leaves s' = (leaves s)(NULL_TREE := (\<lambda>j. if toBigIntBE n \<noteq> 0 \<and> j = nat (toBigIntBE n) then oneBuffer else leaves s NULL_TREE j))"
  using assms by (cases "toBigIntBE n \<noteq> 0") (auto simp: nullifierSteps_def runSteps_ok fun_eq_iff dest!: putStep_leaf)

lemma proofSteps_leaf:
  assumes "runSteps (proofSteps n (i, q)) s = (None, s')" "0 \<le> n"
  shows "leaves s' DATA_TREE = (leaves s DATA_TREE)(nat n + 2 * i := ip_noteCommitment1 q, nat n + 2 * i + 1 := ip_noteCommitment2 q)"
    "leaves s' NULL_TREE j = (if j \<in> blockNullifiers [q] then oneBuffer else leaves s NULL_TREE j)"
    "leaves s' ROOT_TREE = leaves s ROOT_TREE" "leaves s' DEFI_TREE = leaves s DEFI_TREE"
proof -
  have e: "nat (n + int i * 2) = nat n + 2 * i" "nat (n + int i * 2 + 1) = nat n + 2 * i + 1" using assms(2) by simp_all
  obtain s1 where s1: "leaves s1 = (leaves s)(DATA_TREE := (leaves s DATA_TREE)(nat n + 2 * i := ip_noteCommitment1 q, nat n + 2 * i + 1 := ip_noteCommitment2 q))"
    "runSteps (if InnerProofData_isPadding q then [] else nullifierSteps (ip_nullifier1 q) @ nullifierSteps (ip_nullifier2 q)) s1 = (None, s')"
    using assms(1) by (auto simp: proofSteps_def runSteps_ok e dest!: putStep_leaf)
  have "leaves s' = (leaves s1)(NULL_TREE := (\<lambda>j. if j \<in> blockNullifiers [q] then oneBuffer else leaves s1 NULL_TREE j))"
  proof (cases "InnerProofData_isPadding q")
    case True
    then show ?thesis using s1(2) by (simp add: blockNullifiers_def)
  next
    case False
    then obtain s2 where "runSteps (nullifierSteps (ip_nullifier1 q)) s1 = (None, s2)" "runSteps (nullifierSteps (ip_nullifier2 q)) s2 = (None, s')"
      using s1(2) by (auto simp: runSteps_ok)
    from this [THEN nullifierSteps_leaf] show ?thesis using False by (auto simp: blockNullifiers_def fun_eq_iff)
  qed
  then show "leaves s' DATA_TREE = (leaves s DATA_TREE)(nat n + 2 * i := ip_noteCommitment1 q, nat n + 2 * i + 1 := ip_noteCommitment2 q)"
    "leaves s' NULL_TREE j = (if j \<in> blockNullifiers [q] then oneBuffer else leaves s NULL_TREE j)"
    "leaves s' ROOT_TREE = leaves s ROOT_TREE" "leaves s' DEFI_TREE = leaves s DEFI_TREE"
    by (simp_all add: s1(1))
qed

lemma allProofSteps_leaf:
  assumes "runSteps (concat (map (proofSteps n) (enumerate i ps))) s = (None, s')" "0 \<le> n"
  shows "(\<forall>k<length ps. leaves s' DATA_TREE (nat n + 2 * (i + k)) = ip_noteCommitment1 (ps ! k)
      \<and> leaves s' DATA_TREE (nat n + 2 * (i + k) + 1) = ip_noteCommitment2 (ps ! k))
    \<and> (\<forall>j. j < nat n + 2 * i \<or> nat n + 2 * (i + length ps) \<le> j \<longrightarrow> leaves s' DATA_TREE j = leaves s DATA_TREE j)
    \<and> (\<forall>j. leaves s' NULL_TREE j = (if j \<in> blockNullifiers ps then oneBuffer else leaves s NULL_TREE j))
    \<and> leaves s' ROOT_TREE = leaves s ROOT_TREE \<and> leaves s' DEFI_TREE = leaves s DEFI_TREE"
  using assms(1)
proof (induction ps arbitrary: i s)
  case Nil
  then show ?case by (simp add: blockNullifiers_def)
next
  case (Cons q ps)
  obtain s1 where s1: "runSteps (proofSteps n (i, q)) s = (None, s1)" "runSteps (concat (map (proofSteps n) (enumerate (Suc i) ps))) s1 = (None, s')"
    using Cons.prems by (auto simp: runSteps_ok)
  note a = proofSteps_leaf [OF s1(1) assms(2)] and b = Cons.IH [OF s1(2)]
  have "leaves s' DATA_TREE (nat n + 2 * (i + k)) = ip_noteCommitment1 ((q # ps) ! k)
      \<and> leaves s' DATA_TREE (nat n + 2 * (i + k) + 1) = ip_noteCommitment2 ((q # ps) ! k)" if "k < length (q # ps)" for k
    using that b a(1) by (cases k) auto
  moreover have "leaves s' DATA_TREE j = leaves s DATA_TREE j" if "j < nat n + 2 * i \<or> nat n + 2 * (i + length (q # ps)) \<le> j" for j
    using that b a(1) by auto
  moreover have "leaves s' NULL_TREE j = (if j \<in> blockNullifiers (q # ps) then oneBuffer else leaves s NULL_TREE j)" for j
    using b a(2) [of j] by (simp add: blockNullifiers_Cons [of q ps])
  ultimately show ?case using b a(3,4) by simp
qed

lemma defiSteps_leaf:
  assumes "runSteps (concat (map (\<lambda>(i, v). if v = zeros 0 then []
       else [putStep DEFI_TREE (m + int i) v]) (enumerate i vals))) s = (None, s')" "0 \<le> m"
  shows "(\<forall>k<length vals. vals ! k \<noteq> [] \<longrightarrow> leaves s' DEFI_TREE (nat m + i + k) = vals ! k)
    \<and> (\<forall>j. j < nat m + i \<or> nat m + i + length vals \<le> j \<longrightarrow> leaves s' DEFI_TREE j = leaves s DEFI_TREE j)
    \<and> (\<forall>t. t \<noteq> DEFI_TREE \<longrightarrow> leaves s' t = leaves s t)"
  using assms(1)
proof (induction vals arbitrary: i s)
  case (Cons v vals)
  obtain s1 where s1: "leaves s1 = (if v = [] then leaves s else (leaves s)(DEFI_TREE := (leaves s DEFI_TREE)(nat m + i := v)))"
    "runSteps (concat (map (\<lambda>(i, v). if v = zeros 0 then [] else [putStep DEFI_TREE (m + int i) v]) (enumerate (Suc i) vals))) s1 = (None, s')"
  proof (cases "v = []")
    case True
    then show thesis using Cons.prems that [of s] by (simp add: zeros_def)
  next
    case False
    then obtain s1 where "putStep DEFI_TREE (m + int i) v s = (None, s1)"
      "runSteps (concat (map (\<lambda>(i, v). if v = zeros 0 then [] else [putStep DEFI_TREE (m + int i) v]) (enumerate (Suc i) vals))) s1 = (None, s')"
      using Cons.prems by (auto simp: zeros_def runSteps_ok)
    then show thesis using False that [of s1] assms(2) by (auto simp: nat_add_distrib dest!: putStep_leaf)
  qed
  note b = Cons.IH [OF s1(2)]
  have "leaves s' DEFI_TREE (nat m + i + k) = (v # vals) ! k" if "k < length (v # vals)" "(v # vals) ! k \<noteq> []" for k
    using that b s1(1) by (cases k) auto
  moreover have "leaves s' DEFI_TREE j = leaves s DEFI_TREE j" if "j < nat m + i \<or> nat m + i + length (v # vals) \<le> j" for j
    using that b s1(1) by auto
  moreover have "leaves s' t = leaves s t" if "t \<noteq> DEFI_TREE" for t using that b s1(1) by simp
  ultimately show ?case by blast
qed simp

lemma rollupSteps_leaf:
  assumes "runSteps (rollupSteps env r) s = (None, s')" "0 \<le> rh_dataStartIndex r" "0 \<le> rh_rollupId r"
  defines "start \<equiv> nat (rh_dataStartIndex r)" and "n \<equiv> length (rp_innerProofData r)"
    and "k0 \<equiv> NUM_BRIDGE_CALLS_PER_BLOCK * nat (rh_rollupId r)"
  shows "(\<forall>i<n. leaves s' DATA_TREE (start + 2 * i) = ip_noteCommitment1 (rp_innerProofData r ! i)
      \<and> leaves s' DATA_TREE (start + 2 * i + 1) = ip_noteCommitment2 (rp_innerProofData r ! i))
    \<and> (\<forall>j. j < start \<or> start + 2 * n \<le> j \<longrightarrow> leaves s' DATA_TREE j = leaves s DATA_TREE j)
    \<and> (\<forall>j. leaves s' NULL_TREE j = (if j \<in> blockNullifiers (rp_innerProofData r) then oneBuffer else leaves s NULL_TREE j))
    \<and> leaves s' ROOT_TREE = (leaves s ROOT_TREE)(nat (rh_rollupId r + 1) := dbRoot (we_compress env) (ws_trees s') DATA_TREE)
    \<and> (\<forall>i<length (rh_defiInteractionNotes r). rh_defiInteractionNotes r ! i \<noteq> [] \<longrightarrow> leaves s' DEFI_TREE (k0 + i) = rh_defiInteractionNotes r ! i)
    \<and> (\<forall>j. j < k0 \<or> k0 + length (rh_defiInteractionNotes r) \<le> j \<longrightarrow> leaves s' DEFI_TREE j = leaves s DEFI_TREE j)"
proof -
  obtain s1 s2 where s12: "runSteps (concat (map (proofSteps (rh_dataStartIndex r)) (enumerate 0 (rp_innerProofData r)))) s = (None, s1)"
    "rootStep env (rh_rollupId r) s1 = (None, s2)" "runSteps (defiSteps (rh_rollupId r) (rh_defiInteractionNotes r)) s2 = (None, s')"
    using assms(1) by (auto simp: rollupSteps_def runSteps_ok)
  have m: "0 \<le> rh_rollupId r * int NUM_BRIDGE_CALLS_PER_BLOCK" "nat (rh_rollupId r * int NUM_BRIDGE_CALLS_PER_BLOCK) = k0"
    using assms(3) by (simp_all add: k0_def nat_mult_distrib mult.commute)
  note a = allProofSteps_leaf [OF s12(1) assms(2)]
  have b: "leaves s2 = (leaves s1)(ROOT_TREE := (leaves s1 ROOT_TREE)(nat (rh_rollupId r + 1) := dbRoot (we_compress env) (ws_trees s1) DATA_TREE))"
    using s12(2) by (auto simp: rootStep_def onTrees_ok dest!: dbPut_leaf)
  note c = defiSteps_leaf [OF s12(3) [unfolded defiSteps_def] m(1), unfolded m(2)]
  have "leaves s' DATA_TREE = leaves s1 DATA_TREE" using b c by simp
  then have r: "dbRoot (we_compress env) (ws_trees s1) DATA_TREE = dbRoot (we_compress env) (ws_trees s') DATA_TREE"
    by (simp add: dbRoot_def treeRoot_def)
  show ?thesis using a b c unfolding start_def n_def by (simp add: r)
qed

lemma decoded_ranges:
  assumes "RollupProofData_decode enc = Inr r"
  shows "0 \<le> rh_dataStartIndex r" "0 \<le> rh_rollupId r"
proof -
  obtain h ps where h: "parseHeaderInputs enc = Inr h" "newRollupProofData h ps = Inr r"
    using assms by (auto simp: RollupProofData_decode_def bindE_eq_Inr Let_def split: if_splits)
  obtain i j where ij: "getRollupIdFromBuffer enc = Inr i" "headerNum enc 2 = Inr j" "rh_rollupId h = i" "rh_dataStartIndex h = j"
    using h(1) by (auto simp: parseHeaderInputs_def bindE_eq_Inr)
  have "0 \<le> i" "0 \<le> j" using ij(1,2) by (auto simp: getRollupIdFromBuffer_def headerNum_def dest!: readUInt32BE_range)
  then show "0 \<le> rh_dataStartIndex r" "0 \<le> rh_rollupId r"
    using h(2) ij(3,4) by (auto simp: newRollupProofData_def bindE_eq_Inr Let_def rollupProofData.defs rollupHeader.defs split: if_splits)
qed

text \<open>C3: Someone else's block replaces whatever the sequencer had built in the trees: on the last committed trees, the notes of the block's
  transaction \<open>i\<close> stand at \<open>start + 2 i\<close> and behind it, exactly the nullifiers of its transactions that are not zero are marked, the root of the data
  tree stands at the rollup's id plus one in the roots tree and its interaction notes at their places in the DeFi tree; nothing else
  changes, and the result is committed.\<close>

theorem trees_follow_foreign_block:
  assumes "updateDbs env b s = (None, s')" "RollupProofData_decode (bl_encodedRollupProofData b) = Inr r"
    and "rh_rollupId r = RollupDb_getNextRollupId (ws_rollupDb s)" "\<not> rollupIsOurs env r (ws_trees s)"
    and "wt_size (wd_committed (ws_trees s)) DATA_TREE \<le> rh_dataStartIndex r"
  defines "old \<equiv> wt_leaf (wd_committed (ws_trees s))" and "new \<equiv> wt_leaf (wd_current (ws_trees s'))"
    and "start \<equiv> nat (rh_dataStartIndex r)" and "n \<equiv> length (rp_innerProofData r)"
    and "k0 \<equiv> NUM_BRIDGE_CALLS_PER_BLOCK * nat (rh_rollupId r)"
  shows "wd_committed (ws_trees s') = wd_current (ws_trees s')
    \<and> (\<forall>i<n. new DATA_TREE (start + 2 * i) = ip_noteCommitment1 (rp_innerProofData r ! i)
          \<and> new DATA_TREE (start + 2 * i + 1) = ip_noteCommitment2 (rp_innerProofData r ! i))
    \<and> (\<forall>j. j < start \<or> start + 2 * n \<le> j \<longrightarrow> new DATA_TREE j = old DATA_TREE j)
    \<and> (\<forall>j. new NULL_TREE j = (if j \<in> blockNullifiers (rp_innerProofData r) then oneBuffer else old NULL_TREE j))
    \<and> new ROOT_TREE = (old ROOT_TREE)(nat (rh_rollupId r + 1) := dbRoot (we_compress env) (ws_trees s') DATA_TREE)
    \<and> (\<forall>i<length (rh_defiInteractionNotes r). rh_defiInteractionNotes r ! i \<noteq> [] \<longrightarrow> new DEFI_TREE (k0 + i) = rh_defiInteractionNotes r ! i)
    \<and> (\<forall>j. j < k0 \<or> k0 + length (rh_defiInteractionNotes r) \<le> j \<longrightarrow> new DEFI_TREE j = old DEFI_TREE j)"
proof -
  obtain h t d db1 s2 where p: "addRollupToWorldState env r (s\<lparr>ws_trees := wd_rollback (ws_trees s)\<rparr>) = (None, s\<lparr>ws_trees := d\<rparr>)"
    "processDefiProofs env r b t (ws_rollupDb s) = Inr db1"
    "confirmOrAddRollupToDb env r b t h (s\<lparr>ws_trees := d, ws_rollupDb := db1\<rparr>) = (None, s2)" "purgeInvalidTxs env s2 = (None, s')"
    using updateDbs_parts [OF assms(1-3)] assms(4) by metis
  have "ws_trees s2 = d"
    by (rule confirmOrAdd_parts [OF p(3)]) simp_all
  moreover obtain ids where "s' = s2\<lparr>ws_rollupDb := RollupDb_deleteTxsById ids (ws_rollupDb s2)\<rparr>" by (rule purge_ok [OF p(4)])
  ultimately have d: "ws_trees s' = d" by simp
  have "\<not> dbSize (wd_rollback (ws_trees s)) DATA_TREE > rh_dataStartIndex r" using assms(5) by (simp add: dbSize_def wd_rollback_def)
  then obtain s1 where s1: "runSteps (rollupSteps env r) (s\<lparr>ws_trees := wd_rollback (ws_trees s)\<rparr>) = (None, s1)" "d = wd_commit (ws_trees s1)"
    using p(1) by (auto simp: addRollupToWorldState_steps runSteps_ok onTrees_ok dest!: arg_cong [where f = ws_trees])
  have c: "wd_current (ws_trees s') = wd_current (ws_trees s1)" "wd_committed (ws_trees s') = wd_current (ws_trees s1)"
    by (simp_all add: d s1(2) wd_commit_def)
  then have r: "dbRoot (we_compress env) (ws_trees s') DATA_TREE = dbRoot (we_compress env) (ws_trees s1) DATA_TREE" by (simp add: dbRoot_def)
  have "old = leaves (s\<lparr>ws_trees := wd_rollback (ws_trees s)\<rparr>)" "new = leaves s1"
    by (simp_all add: old_def new_def wd_rollback_def c)
  then show ?thesis
    using rollupSteps_leaf [OF s1(1) decoded_ranges [OF assms(2)]] c unfolding start_def n_def k0_def r by simp
qed

end
