(* ===== verification/PoolPurge.thy ===== *)
theory PoolPurge
  imports BlockSync
begin

text \<open>
  The pool of pending transactions after someone else's block (\<open>validateTxs\<close> and \<open>purgeInvalidTxs\<close> of
  \<open>falafel/src/world_state.ts\<close>): what is left can be rolled up.
\<close>

definition keptTxs :: "txDao list \<Rightarrow> txDao list \<Rightarrow> txDao list" where
  "keptTxs purged txs = filter (\<lambda>tx. td_id tx \<notin> td_id ` set purged) txs"

definition poolDeposits :: "txDao list \<Rightarrow> proofData list" where
  "poolDeposits txs = filter (\<lambda>p. pd_proofId p = DEPOSIT) (unsettledProofs txs)"

definition poolCommitments :: "txDao list \<Rightarrow> buffer set" where
  "poolCommitments txs = (\<Union>p\<in>set (unsettledProofs txs). {pd_noteCommitment1 p, pd_noteCommitment2 p})"

lemma unsettledProofs_snoc: "proofOf tx = Inr p \<Longrightarrow> unsettledProofs (txs @ [tx]) = unsettledProofs txs @ [p]"
  by (simp add: unsettledProofs_def)

lemma kept_simps:
  assumes "td_id tx \<notin> td_id ` set txs" "set purged \<subseteq> set txs"
  shows "keptTxs (purged @ [tx]) (txs @ [tx]) = keptTxs purged txs" "keptTxs purged (txs @ [tx]) = keptTxs purged txs @ [tx]"
proof -
  have "td_id y \<noteq> td_id tx" if "y \<in> set txs" for y using assms(1) that by (metis imageI)
  then show "keptTxs (purged @ [tx]) (txs @ [tx]) = keptTxs purged txs" by (auto simp: keptTxs_def intro!: filter_cong)
  have "td_id tx \<notin> td_id ` set purged" using assms by blast
  then show "keptTxs purged (txs @ [tx]) = keptTxs purged txs @ [tx]" by (simp add: keptTxs_def)
qed

section \<open>Deposits\<close>

definition entryKey :: "pendingDepositEntry \<Rightarrow> ethAddress \<times> int" where
  "entryKey e = (de_publicOwner e, de_publicAssetId e)"

definition depositsOK :: "worldEnv \<Rightarrow> pendingDepositEntry list \<Rightarrow> proofData list \<Rightarrow> bool" where
  "depositsOK env ds ps \<longleftrightarrow> distinct (map entryKey ds)
     \<and> (\<forall>e\<in>set ds. de_contractValue e = we_pendingDeposit env (de_publicAssetId e) (de_publicOwner e)
          \<and> de_accumulatedDeposit e = depositTotal (de_publicOwner e) (de_publicAssetId e) ps)
     \<and> (\<forall>p\<in>set ps. \<exists>e\<in>set ds. JoinSplit_publicOwner p = Inr (de_publicOwner e) \<and> JoinSplit_publicAssetId p = Inr (de_publicAssetId e)
          \<and> de_accumulatedDeposit e \<le> de_contractValue e)"

lemma depositTotal_snoc: "depositTotal a i (ps @ [p]) = depositTotal a i ps
    + (if JoinSplit_publicOwner p = Inr a \<and> JoinSplit_publicAssetId p = Inr i then JoinSplit_publicValue p else 0)"
  by (simp add: depositTotal_def)

lemma depositTotal_none: "\<forall>p\<in>set ps. \<not> (JoinSplit_publicOwner p = Inr a \<and> JoinSplit_publicAssetId p = Inr i) \<Longrightarrow> depositTotal a i ps = 0"
  by (simp add: depositTotal_def filter_empty_conv)

lemma depositEntry_ok:
  assumes "depositEntry env a i ds = (k, ds')" "depositsOK env ds ps"
  shows "depositsOK env ds' ps \<and> k < length ds' \<and> entryKey (ds' ! k) = (a, i)"
proof (cases "findIndex (\<lambda>d. EthAddress_equals (de_publicOwner d) a \<and> de_publicAssetId d = i) ds")
  case None
  then have n: "(a, i) \<notin> set (map entryKey ds)" by (auto simp: findIndex_None entryKey_def)
  then have "\<forall>p\<in>set ps. \<not> (JoinSplit_publicOwner p = Inr a \<and> JoinSplit_publicAssetId p = Inr i)"
    using assms(2) by (force simp: depositsOK_def entryKey_def)
  then have "depositTotal a i ps = 0" by (rule depositTotal_none)
  moreover have "ds' = ds @ [\<lparr>de_publicOwner = a, de_publicAssetId = i, de_contractValue = we_pendingDeposit env i a, de_accumulatedDeposit = 0\<rparr>]"
    "k = length ds" using assms(1) None by (simp_all add: depositEntry_def)
  ultimately show ?thesis using assms(2) n by (auto simp: depositsOK_def entryKey_def)
next
  case (Some j)
  then show ?thesis using assms findIndex_Some [OF Some] by (auto simp: depositEntry_def entryKey_def)
qed

lemma depositAccumulated:
  assumes "depositsOK env ds ps" "k < length ds" "entryKey (ds ! k) = (a, i)" "JoinSplit_publicOwner p = Inr a" "JoinSplit_publicAssetId p = Inr i"
    and "de_accumulatedDeposit (ds ! k) + JoinSplit_publicValue p \<le> de_contractValue (ds ! k)"
  shows "depositsOK env (ds[k := (ds ! k)\<lparr>de_accumulatedDeposit := de_accumulatedDeposit (ds ! k) + JoinSplit_publicValue p\<rparr>]) (ps @ [p])"
proof -
  let ?e = "(ds ! k)\<lparr>de_accumulatedDeposit := de_accumulatedDeposit (ds ! k) + JoinSplit_publicValue p\<rparr>"
  have key: "entryKey ?e = entryKey (ds ! k)" by (simp add: entryKey_def)
  have km: "map entryKey (ds[k := ?e]) = map entryKey ds" using assms(2) by (simp add: map_update key list_update_same_conv)
  have d: "distinct (map entryKey ds)" using assms(1) by (simp add: depositsOK_def)
  have other: "entryKey (ds ! j) \<noteq> (a, i)" if "j < length ds" "j \<noteq> k" for j
    using d that assms(2,3) nth_eq_iff_index_eq [of "map entryKey ds" j k] by auto
  have ent: "de_contractValue e = we_pendingDeposit env (de_publicAssetId e) (de_publicOwner e)
      \<and> de_accumulatedDeposit e = depositTotal (de_publicOwner e) (de_publicAssetId e) (ps @ [p])" if e: "e \<in> set (ds[k := ?e])" for e
  proof -
    from e obtain j where j: "j < length ds" "e = ds[k := ?e] ! j" by (auto simp: in_set_conv_nth)
    have "ds ! j \<in> set ds" "ds ! k \<in> set ds" using j(1) assms(2) by simp_all
    then show ?thesis using assms(1,3,4,5) other [OF j(1)] j by (cases "j = k") (auto simp: depositsOK_def depositTotal_snoc entryKey_def)
  qed
  have "\<exists>e\<in>set (ds[k := ?e]). JoinSplit_publicOwner q = Inr (de_publicOwner e) \<and> JoinSplit_publicAssetId q = Inr (de_publicAssetId e)
      \<and> de_accumulatedDeposit e \<le> de_contractValue e" if q: "q \<in> set (ps @ [p])" for q
  proof (cases "JoinSplit_publicOwner q = Inr a \<and> JoinSplit_publicAssetId q = Inr i")
    case True
    then show ?thesis using assms(2,3,6) by (intro bexI [of _ ?e]) (auto simp: entryKey_def set_update_memI)
  next
    case False
    then have "q \<in> set ps" using q assms(4,5) by auto
    then obtain e where e: "e \<in> set ds" "JoinSplit_publicOwner q = Inr (de_publicOwner e)" "JoinSplit_publicAssetId q = Inr (de_publicAssetId e)"
      "de_accumulatedDeposit e \<le> de_contractValue e" using assms(1) unfolding depositsOK_def by blast
    then obtain j where j: "j < length ds" "e = ds ! j" by (auto simp: in_set_conv_nth)
    then have "j \<noteq> k" using False e assms(3) by (auto simp: entryKey_def)
    then have "ds[k := ?e] ! j = e" "j < length (ds[k := ?e])" using j by simp_all
    then have "e \<in> set (ds[k := ?e])" by (metis nth_mem)
    then show ?thesis using e by blast
  qed
  then show ?thesis using ent d km unfolding depositsOK_def by simp
qed

section \<open>The loop over the pool\<close>

definition purgeOK :: "worldEnv \<Rightarrow> worldDb \<Rightarrow> txDao list \<Rightarrow> purgeState \<Rightarrow> bool" where
  "purgeOK env d xs s \<longleftrightarrow> set (pg_txsToPurge s) \<subseteq> set xs
     \<and> set (pg_discarded s) = poolCommitments (pg_txsToPurge s)
     \<and> (\<forall>p\<in>set (unsettledProofs (keptTxs (pg_txsToPurge s) xs)). \<not> spendsSpentNote d p)
     \<and> depositsOK env (pg_deposits s) (poolDeposits (keptTxs (pg_txsToPurge s) xs))
     \<and> (\<forall>ys tx zs p. xs = ys @ tx # zs \<longrightarrow> tx \<in> set (keptTxs (pg_txsToPurge s) xs) \<longrightarrow> proofOf tx = Inr p
          \<longrightarrow> pd_backwardLink p \<notin> poolCommitments (filter (\<lambda>y. td_id y \<in> td_id ` set (pg_txsToPurge s)) ys))"

lemma poolCommitments_snoc: "proofOf tx = Inr p \<Longrightarrow> poolCommitments (xs @ [tx]) = poolCommitments xs \<union> {pd_noteCommitment1 p, pd_noteCommitment2 p}"
  by (auto simp: poolCommitments_def unsettledProofs_snoc)

lemma poolCommitments_mono: "set xs \<subseteq> set ys \<Longrightarrow> poolCommitments xs \<subseteq> poolCommitments ys"
  by (auto simp: poolCommitments_def unsettledProofs_def)

text \<open>Links: what a new element changes.\<close>

lemma links_snoc:
  assumes "td_id tx \<notin> td_id ` set xs" "set purged \<subseteq> set xs"
    and "\<forall>ys y zs p. xs = ys @ y # zs \<longrightarrow> y \<in> set (keptTxs purged xs) \<longrightarrow> proofOf y = Inr p
      \<longrightarrow> pd_backwardLink p \<notin> poolCommitments (filter (\<lambda>y. td_id y \<in> td_id ` set purged) ys)"
    and purged': "purged' = purged @ [tx] \<or> purged' = purged \<and> (\<forall>p. proofOf tx = Inr p \<longrightarrow> pd_backwardLink p \<notin> poolCommitments purged)"
    and e: "xs @ [tx] = ys @ y # zs" "y \<in> set (keptTxs purged' (xs @ [tx]))" "proofOf y = Inr p" and d: "distinct (map td_id xs)"
  shows "pd_backwardLink p \<notin> poolCommitments (filter (\<lambda>y. td_id y \<in> td_id ` set purged') ys)"
proof (cases zs rule: rev_cases)
  case Nil
  then have y: "ys = xs" "y = tx" using e(1) by simp_all
  then have "purged' = purged" "pd_backwardLink p \<notin> poolCommitments purged" using purged' e(2,3) by (auto simp: keptTxs_def)
  moreover have "set (filter (\<lambda>y. td_id y \<in> td_id ` set purged) xs) \<subseteq> set purged"
    using assms(2) d by (auto simp: distinct_map inj_on_def)
  ultimately show ?thesis using poolCommitments_mono y by blast
next
  case (snoc zs' z)
  then have x: "xs = ys @ y # zs'" using e(1) by simp
  have id: "td_id v \<in> td_id ` set purged' \<longleftrightarrow> td_id v \<in> td_id ` set purged" if "v \<in> set xs" for v
    using purged' assms(1) that by (auto simp: image_iff) (metis imageI)+
  have "filter (\<lambda>y. td_id y \<in> td_id ` set purged') ys = filter (\<lambda>y. td_id y \<in> td_id ` set purged) ys"
    using id x by (intro filter_cong) auto
  moreover have "y \<in> set xs" using x by simp
  then have "y \<in> set (keptTxs purged xs)" using e(2) id [of y] unfolding keptTxs_def set_filter by blast
  ultimately show ?thesis using assms(3) x e(3) by auto
qed

lemma purgeOK_purged:
  assumes "purgeOK env d xs s" "proofOf tx = Inr p" "distinct (map td_id (xs @ [tx]))"
  shows "purgeOK env d (xs @ [tx]) (purgeTx p tx s)"
proof -
  have n: "td_id tx \<notin> td_id ` set xs" "distinct (map td_id xs)" using assms(3) by auto
  have sub: "set (pg_txsToPurge s) \<subseteq> set xs" using assms(1) by (simp add: purgeOK_def)
  have t: "pg_txsToPurge (purgeTx p tx s) = pg_txsToPurge s @ [tx]" "pg_deposits (purgeTx p tx s) = pg_deposits s"
    "set (pg_discarded (purgeTx p tx s)) = set (pg_discarded s) \<union> {pd_noteCommitment1 p, pd_noteCommitment2 p}"
    by (auto simp: purgeTx_def)
  have "pd_backwardLink q \<notin> poolCommitments (filter (\<lambda>y. td_id y \<in> td_id ` set (pg_txsToPurge s @ [tx])) ys)"
    if "xs @ [tx] = ys @ y # zs" "y \<in> set (keptTxs (pg_txsToPurge s @ [tx]) (xs @ [tx]))" "proofOf y = Inr q" for ys y zs q
    by (rule links_snoc [OF n(1) sub _ _ that n(2)]) (use assms(1) in \<open>simp_all add: purgeOK_def\<close>)
  then show ?thesis unfolding purgeOK_def t kept_simps(1) [OF n(1) sub] poolCommitments_snoc [OF assms(2)]
    using assms(1) by (auto simp: purgeOK_def)
qed

lemma purgeOK_kept:
  assumes "purgeOK env d xs s" "proofOf tx = Inr p" "distinct (map td_id (xs @ [tx]))"
    and "pd_backwardLink p \<notin> set (pg_discarded s)" "\<not> spendsSpentNote d p"
    and "pg_txsToPurge s' = pg_txsToPurge s" "pg_discarded s' = pg_discarded s"
    and "depositsOK env (pg_deposits s') (poolDeposits (keptTxs (pg_txsToPurge s) xs) @ (if pd_proofId p = DEPOSIT then [p] else []))"
  shows "purgeOK env d (xs @ [tx]) s'"
proof -
  have n: "td_id tx \<notin> td_id ` set xs" "distinct (map td_id xs)" using assms(3) by auto
  have sub: "set (pg_txsToPurge s) \<subseteq> set xs" and disc: "set (pg_discarded s) = poolCommitments (pg_txsToPurge s)"
    using assms(1) by (simp_all add: purgeOK_def)
  have "pd_backwardLink q \<notin> poolCommitments (filter (\<lambda>y. td_id y \<in> td_id ` set (pg_txsToPurge s)) ys)"
    if "xs @ [tx] = ys @ y # zs" "y \<in> set (keptTxs (pg_txsToPurge s) (xs @ [tx]))" "proofOf y = Inr q" for ys y zs q
    by (rule links_snoc [OF n(1) sub _ _ that n(2)]) (use assms(1,2,4) disc in \<open>simp_all add: purgeOK_def\<close>)
  moreover have "poolDeposits (keptTxs (pg_txsToPurge s) xs @ [tx])
      = poolDeposits (keptTxs (pg_txsToPurge s) xs) @ (if pd_proofId p = DEPOSIT then [p] else [])"
    by (simp add: poolDeposits_def unsettledProofs_snoc [OF assms(2)])
  ultimately show ?thesis unfolding purgeOK_def assms(6,7) kept_simps(2) [OF n(1) sub]
    using assms(1,5,8) by (auto simp: purgeOK_def unsettledProofs_snoc [OF assms(2)])
qed

lemma purgeOK_deposits:
  assumes "purgeOK env d xs s" "depositsOK env ds (poolDeposits (keptTxs (pg_txsToPurge s) xs))"
  shows "purgeOK env d xs (s\<lparr>pg_deposits := ds\<rparr>)"
proof -
  have e: "pg_txsToPurge (s\<lparr>pg_deposits := ds\<rparr>) = pg_txsToPurge s" "pg_discarded (s\<lparr>pg_deposits := ds\<rparr>) = pg_discarded s"
    "pg_deposits (s\<lparr>pg_deposits := ds\<rparr>) = ds" by simp_all
  show ?thesis using assms unfolding purgeOK_def e by blast
qed

lemma purgeStep_cases:
  assumes "purgeStep env d s tx = Inr s'"
  obtains (purged) p where "proofOf tx = Inr p" "s' = purgeTx p tx s"
  | (kept) p where "proofOf tx = Inr p" "s' = s" "pd_backwardLink p \<notin> set (pg_discarded s)" "\<not> spendsSpentNote d p" "pd_proofId p \<noteq> DEPOSIT"
  | (deposit) p where "proofOf tx = Inr p" "purgeDeposit env p tx s = Inr s'" "pd_backwardLink p \<notin> set (pg_discarded s)"
      "\<not> spendsSpentNote d p" "pd_proofId p = DEPOSIT"
proof -
  obtain p where p: "proofOf tx = Inr p" using assms by (auto simp: purgeStep_def bindE_eq_Inr proofOf_def)
  then have "newProofData (td_proofData tx) None = Inr p" by (simp add: proofOf_def)
  with assms have "if pd_backwardLink p \<in> set (pg_discarded s) then s' = purgeTx p tx s else if spendsSpentNote d p then s' = purgeTx p tx s
    else if pd_proofId p \<noteq> DEPOSIT then s' = s else purgeDeposit env p tx s = Inr s'"
    by (auto simp: purgeStep_def split: if_splits)
  then show thesis using p that by meson
qed

lemma purgeStep_OK:
  assumes "purgeStep env d s tx = Inr s'" "purgeOK env d xs s" "distinct (map td_id (xs @ [tx]))"
  shows "purgeOK env d (xs @ [tx]) s'"
proof -
  have dep: "depositsOK env (pg_deposits s) (poolDeposits (keptTxs (pg_txsToPurge s) xs))" using assms(2) by (simp add: purgeOK_def)
  show ?thesis
  proof (cases rule: purgeStep_cases [OF assms(1), case_names purged kept deposit])
    case (purged p)
    then show ?thesis using purgeOK_purged [OF assms(2) purged(1) assms(3)] by (simp only:)
  next
    case (kept p)
    have "depositsOK env (pg_deposits s) (poolDeposits (keptTxs (pg_txsToPurge s) xs) @ (if pd_proofId p = DEPOSIT then [p] else []))"
      unfolding if_not_P [OF kept(5)] append_Nil2 by (rule dep)
    then show ?thesis unfolding kept(2) by (intro purgeOK_kept [OF assms(2) kept(1) assms(3) kept(3,4) refl refl])
  next
    case (deposit p)
    obtain a i k ds where e: "JoinSplit_publicOwner p = Inr a" "JoinSplit_publicAssetId p = Inr i" "depositEntry env a i (pg_deposits s) = (k, ds)"
      and s': "s' = (if de_accumulatedDeposit (ds ! k) + JoinSplit_publicValue p > de_contractValue (ds ! k) then purgeTx p tx (s\<lparr>pg_deposits := ds\<rparr>)
        else s\<lparr>pg_deposits := ds[k := (ds ! k)\<lparr>de_accumulatedDeposit := de_accumulatedDeposit (ds ! k) + JoinSplit_publicValue p\<rparr>]\<rparr>)"
      by (rule purgeDeposit_ok [OF deposit(2)])
    note en = depositEntry_ok [OF e(3) dep]
    have "purgeOK env d xs (s\<lparr>pg_deposits := ds\<rparr>)" by (rule purgeOK_deposits [OF assms(2) en [THEN conjunct1]])
    note purged' = purgeOK_purged [OF this deposit(1) assms(3)]
    show ?thesis
    proof (cases "de_accumulatedDeposit (ds ! k) + JoinSplit_publicValue p > de_contractValue (ds ! k)")
      case True
      then have "s' = purgeTx p tx (s\<lparr>pg_deposits := ds\<rparr>)" using s' by (simp only: if_True)
      then show ?thesis by (simp only: purged')
    next
      case False
      then have u: "s' = s\<lparr>pg_deposits := ds[k := (ds ! k)\<lparr>de_accumulatedDeposit := de_accumulatedDeposit (ds ! k) + JoinSplit_publicValue p\<rparr>]\<rparr>"
        using s' by (simp only: if_False)
      show ?thesis
      proof (rule purgeOK_kept [OF assms(2) deposit(1) assms(3) deposit(3,4)])
        show "pg_txsToPurge s' = pg_txsToPurge s" "pg_discarded s' = pg_discarded s" unfolding u by simp_all
        have "depositsOK env (pg_deposits s') (poolDeposits (keptTxs (pg_txsToPurge s) xs) @ [p])"
          unfolding u using depositAccumulated [OF en [THEN conjunct1] _ _ e(1,2)] en False by simp
        then show "depositsOK env (pg_deposits s') (poolDeposits (keptTxs (pg_txsToPurge s) xs) @ (if pd_proofId p = DEPOSIT then [p] else []))"
          unfolding if_P [OF deposit(5)] .
      qed
    qed
  qed
qed

text \<open>Why a transaction behind \<open>ys\<close> is purged, when \<open>keep\<close> tells which of those in front of it stay: it is linked to one that does
  not, it spends a spent note, or it is a deposit that, with those in front of it that stay, exceeds what the contract holds.\<close>

definition purgeReason :: "worldEnv \<Rightarrow> worldDb \<Rightarrow> (txDao \<Rightarrow> bool) \<Rightarrow> txDao list \<Rightarrow> txDao \<Rightarrow> bool" where
  "purgeReason env d keep ys tx \<longleftrightarrow> (\<exists>p. proofOf tx = Inr p
     \<and> (pd_backwardLink p \<in> poolCommitments (filter (\<lambda>y. \<not> keep y) ys) \<or> spendsSpentNote d p
       \<or> pd_proofId p = DEPOSIT \<and> (\<exists>a i. JoinSplit_publicOwner p = Inr a \<and> JoinSplit_publicAssetId p = Inr i
           \<and> we_pendingDeposit env i a < depositTotal a i (poolDeposits (filter keep ys)) + JoinSplit_publicValue p)))"

lemma purgeReason_cong:
  assumes "purgeReason env d keep ys tx" "\<And>y. y \<in> set ys \<Longrightarrow> keep' y = keep y"
  shows "purgeReason env d keep' ys tx"
proof -
  have "filter keep' ys = filter keep ys" "filter (\<lambda>y. \<not> keep' y) ys = filter (\<lambda>y. \<not> keep y) ys"
    using assms(2) by (auto intro: filter_cong)
  then show ?thesis using assms(1) by (simp add: purgeReason_def)
qed

lemma purged_txs:
  assumes "distinct (map td_id xs)" "set purged \<subseteq> set xs"
  shows "set (filter (\<lambda>y. td_id y \<in> td_id ` set purged) xs) = set purged"
  using assms by (auto simp: distinct_map inj_on_def)

lemma poolCommitments_set: "set xs = set ys \<Longrightarrow> poolCommitments xs = poolCommitments ys"
  by (simp add: poolCommitments_def unsettledProofs_def)

lemma purgeStep_reason:
  assumes "purgeStep env d s tx = Inr s'" "purgeOK env d xs s" "distinct (map td_id xs)"
  shows "pg_txsToPurge s' = pg_txsToPurge s \<or> pg_txsToPurge s' = pg_txsToPurge s @ [tx]
    \<and> purgeReason env d (\<lambda>y. td_id y \<notin> td_id ` set (pg_txsToPurge s)) xs tx"
proof -
  let ?keep = "\<lambda>y. td_id y \<notin> td_id ` set (pg_txsToPurge s)"
  obtain p where p: "proofOf tx = Inr p" "newProofData (td_proofData tx) None = Inr p"
    using assms(1) by (auto simp: purgeStep_def bindE_eq_Inr proofOf_def)
  have sub: "set (pg_txsToPurge s) \<subseteq> set xs" and disc: "set (pg_discarded s) = poolCommitments (pg_txsToPurge s)"
    and dep: "depositsOK env (pg_deposits s) (poolDeposits (filter ?keep xs))"
    using assms(2) by (simp_all add: purgeOK_def keptTxs_def)
  have t: "pg_txsToPurge (purgeTx p tx s0) = pg_txsToPurge s0 @ [tx]" for s0 by (simp add: purgeTx_def)
  consider "pd_backwardLink p \<in> set (pg_discarded s)" "s' = purgeTx p tx s" | "spendsSpentNote d p" "s' = purgeTx p tx s" | "s' = s"
    | "pd_proofId p = DEPOSIT" "purgeDeposit env p tx s = Inr s'"
    using assms(1) p(2) by (auto simp: purgeStep_def split: if_splits)
  then show ?thesis
  proof cases
    case 1
    then have "pd_backwardLink p \<in> poolCommitments (filter (\<lambda>y. \<not> ?keep y) xs)"
      using disc poolCommitments_set [OF purged_txs [OF assms(3) sub]] by simp
    then show ?thesis using 1(2) p(1) t by (simp add: purgeReason_def)
  next
    case 2
    then show ?thesis using p(1) t by (simp add: purgeReason_def)
  next
    case 4
    obtain a i k ds where e: "JoinSplit_publicOwner p = Inr a" "JoinSplit_publicAssetId p = Inr i" "depositEntry env a i (pg_deposits s) = (k, ds)"
      and s': "s' = (if de_accumulatedDeposit (ds ! k) + JoinSplit_publicValue p > de_contractValue (ds ! k) then purgeTx p tx (s\<lparr>pg_deposits := ds\<rparr>)
        else s\<lparr>pg_deposits := ds[k := (ds ! k)\<lparr>de_accumulatedDeposit := de_accumulatedDeposit (ds ! k) + JoinSplit_publicValue p\<rparr>]\<rparr>)"
      by (rule purgeDeposit_ok [OF 4(2)])
    note en = depositEntry_ok [OF e(3) dep]
    then have "ds ! k \<in> set ds" by simp
    then have v: "de_accumulatedDeposit (ds ! k) = depositTotal a i (poolDeposits (filter ?keep xs))" "de_contractValue (ds ! k) = we_pendingDeposit env i a"
      using en by (auto simp: depositsOK_def entryKey_def)
    show ?thesis
    proof (cases "de_contractValue (ds ! k) < de_accumulatedDeposit (ds ! k) + JoinSplit_publicValue p")
      case True
      then have "purgeReason env d ?keep xs tx" unfolding purgeReason_def v using p(1) 4(1) e(1,2) by blast
      moreover have "pg_txsToPurge s' = pg_txsToPurge s @ [tx]" using s' True t by simp
      ultimately show ?thesis by simp
    next
      case False
      then have "s' = s\<lparr>pg_deposits := ds[k := (ds ! k)\<lparr>de_accumulatedDeposit := de_accumulatedDeposit (ds ! k) + JoinSplit_publicValue p\<rparr>]\<rparr>"
        using s' by (simp only: if_False)
      then show ?thesis by simp
    qed
  qed simp
qed

lemma purge_fold:
  assumes "foldE (purgeStep env d) \<lparr>pg_discarded = [], pg_txsToPurge = [], pg_deposits = []\<rparr> xs = Inr s" "distinct (map td_id xs)"
  shows "purgeOK env d xs s"
  using assms
proof (induction xs arbitrary: s rule: rev_induct)
  case Nil
  then show ?case by (auto simp: purgeOK_def keptTxs_def poolCommitments_def unsettledProofs_def poolDeposits_def depositsOK_def)
next
  case (snoc tx xs)
  then obtain s1 where "foldE (purgeStep env d) \<lparr>pg_discarded = [], pg_txsToPurge = [], pg_deposits = []\<rparr> xs = Inr s1" "purgeStep env d s1 tx = Inr s"
    by (auto simp: foldE_append bindE_eq_Inr)
  then show ?case using snoc by (intro purgeStep_OK [of env d s1]) simp_all
qed

lemma purge_reasons:
  assumes "foldE (purgeStep env d) \<lparr>pg_discarded = [], pg_txsToPurge = [], pg_deposits = []\<rparr> xs = Inr s" "distinct (map td_id xs)"
    and "xs = ys @ tx # zs" "tx \<in> set (pg_txsToPurge s)"
  shows "purgeReason env d (\<lambda>y. td_id y \<notin> td_id ` set (pg_txsToPurge s)) ys tx"
  using assms
proof (induction xs arbitrary: s zs rule: rev_induct)
  case (snoc x xs)
  note ih = snoc.IH and prems = snoc.prems
  from prems(1) obtain s1 where f: "foldE (purgeStep env d) \<lparr>pg_discarded = [], pg_txsToPurge = [], pg_deposits = []\<rparr> xs = Inr s1" "purgeStep env d s1 x = Inr s"
    by (auto simp: foldE_append bindE_eq_Inr)
  have d: "distinct (map td_id xs)" "td_id x \<notin> td_id ` set xs" using prems(2) by auto
  have ok: "purgeOK env d xs s1" by (rule purge_fold [OF f(1) d(1)])
  then have sub: "set (pg_txsToPurge s1) \<subseteq> set xs" by (simp add: purgeOK_def)
  note step = purgeStep_reason [OF f(2) ok d(1)]
  have ys: "set ys \<subseteq> set xs" using prems(3) by (cases zs rule: rev_cases) auto
  have same: "td_id y \<notin> td_id ` set (pg_txsToPurge s) \<longleftrightarrow> td_id y \<notin> td_id ` set (pg_txsToPurge s1)" if "y \<in> set ys" for y
    using step d(2) that ys by (auto simp: image_iff) (metis imageI subsetD)+
  have "purgeReason env d (\<lambda>y. td_id y \<notin> td_id ` set (pg_txsToPurge s1)) ys tx"
  proof (cases zs rule: rev_cases)
    case Nil
    then have e: "ys = xs" "tx = x" using prems(3) by simp_all
    have "x \<notin> set (pg_txsToPurge s1)" using sub d(2) by blast
    then show ?thesis using step prems(4) unfolding e by auto
  next
    case (snoc zs' z)
    then have x: "xs = ys @ tx # zs'" "z = x" using prems(3) by simp_all
    then have "tx \<noteq> x" using d(2) by auto
    then have "tx \<in> set (pg_txsToPurge s1)" using step prems(4) by auto
    then show ?thesis by (rule ih [OF f(1) d(1) x(1)])
  qed
  then show ?case by (rule purgeReason_cong) (rule same)
qed simp

section \<open>The pool afterwards\<close>

lemma filter_sort_key: "filter P (sort_key f xs) = sort_key f (filter P xs)"
  by (rule filter_sort)

lemma pending_after_purge:
  "RollupDb_getPendingTxs None (RollupDb_deleteTxsById ids db) = filter (\<lambda>tx. td_id tx \<notin> set ids) (RollupDb_getPendingTxs None db)"
  by (simp add: RollupDb_getPendingTxs_def takeOpt_def pendingRows_def RollupDb_deleteTxsById_def deleteTxsWhere_def Let_def
      filter_sort_key filter_map o_def conj_ac)

lemma pending_distinct:
  assumes "distinct (rowIds db)"
  shows "distinct (map td_id (RollupDb_getPendingTxs None db))"
proof -
  have "distinct (map td_id (map tw_tx (pendingRows False db)))"
    using assms by (simp add: pendingRows_def rowIds_def o_def distinct_map_filter)
  then have "distinct (map tw_tx (pendingRows False db))" "inj_on td_id (set (map tw_tx (pendingRows False db)))"
    unfolding distinct_map by auto
  then show ?thesis by (simp add: RollupDb_getPendingTxs_def takeOpt_def distinct_map)
qed

lemma secondClass_kept:
  assumes "purgeInvalidTxs env s = (None, s')" "distinct (rowIds (ws_rollupDb s))"
  shows "RollupDb_getPendingSecondClassTxs None (ws_rollupDb s') = RollupDb_getPendingSecondClassTxs None (ws_rollupDb s)"
proof -
  obtain ids where ids: "WorldState_validateTxs env (ws_trees s) (RollupDb_getPendingTxs None (ws_rollupDb s)) = Inr ids"
    "s' = s\<lparr>ws_rollupDb := RollupDb_deleteTxsById ids (ws_rollupDb s)\<rparr>" by (rule purge_ok [OF assms(1)])
  have "td_id (tw_tx w) \<notin> set ids" if "w \<in> set (tb_tx (ws_rollupDb s))" "tw_rollupProof w = None" "td_secondClass (tw_tx w)" for w
  proof
    assume "td_id (tw_tx w) \<in> set ids"
    then obtain w2 where "w2 \<in> set (tb_tx (ws_rollupDb s))" "\<not> td_secondClass (tw_tx w2)" "td_id (tw_tx w2) = td_id (tw_tx w)"
      using validateTxs_subset [OF ids(1)] by (auto simp: getPendingTxs_set)
    moreover from this have "w2 = w" using assms(2) that(1) by (auto simp: rowIds_def distinct_map inj_on_def)
    ultimately show False using that(3) by simp
  qed
  then have "pendingRows True (RollupDb_deleteTxsById ids (ws_rollupDb s)) = pendingRows True (ws_rollupDb s)"
    by (auto simp: pendingRows_def RollupDb_deleteTxsById_def deleteTxsWhere_def Let_def filter_filter intro!: filter_cong)
  then show ?thesis by (simp add: ids(2) RollupDb_getPendingSecondClassTxs_def)
qed

text \<open>C6: The purge after someone else's block, when it ends without an error and the keys of the database hold, leaves those pending first class transactions that can be rolled up, and takes only those
  that cannot: what is left spends no note whose nullifier the tree has, is linked to nothing purged in front of it, and its deposits
  of one owner in one asset add up to no more than the contract holds for him; whatever is purged is linked to a transaction purged in
  front of it, spends a spent note, or is a deposit that the contract does not hold enough for after those in front of it.
  Pending second class transactions are not looked at and stay as they are, even those that spend spent notes.\<close>

theorem purged_pool_is_valid:
  assumes "purgeInvalidTxs env s = (None, s')" "keysHold (ws_rollupDb s)"
  defines "pool \<equiv> RollupDb_getPendingTxs None (ws_rollupDb s)" and "left \<equiv> RollupDb_getPendingTxs None (ws_rollupDb s')"
  shows "set left \<subseteq> set pool
    \<and> (\<forall>tx\<in>set left. \<forall>p. proofOf tx = Inr p \<longrightarrow> \<not> spendsSpentNote (ws_trees s) p)
    \<and> (\<forall>xs tx ys p. pool = xs @ tx # ys \<longrightarrow> tx \<in> set left \<longrightarrow> proofOf tx = Inr p
         \<longrightarrow> pd_backwardLink p \<notin> poolCommitments (filter (\<lambda>y. y \<notin> set left) xs))
    \<and> (\<forall>p\<in>set (poolDeposits left). \<exists>a i. JoinSplit_publicOwner p = Inr a \<and> JoinSplit_publicAssetId p = Inr i
         \<and> depositTotal a i (poolDeposits left) \<le> we_pendingDeposit env i a)
    \<and> (\<forall>xs tx ys. pool = xs @ tx # ys \<longrightarrow> tx \<notin> set left \<longrightarrow> purgeReason env (ws_trees s) (\<lambda>y. y \<in> set left) xs tx)
    \<and> RollupDb_getPendingSecondClassTxs None (ws_rollupDb s') = RollupDb_getPendingSecondClassTxs None (ws_rollupDb s)"
proof -
  obtain ids where ids: "WorldState_validateTxs env (ws_trees s) pool = Inr ids" "s' = s\<lparr>ws_rollupDb := RollupDb_deleteTxsById ids (ws_rollupDb s)\<rparr>"
    unfolding pool_def by (rule purge_ok [OF assms(1)])
  obtain t where t: "foldE (purgeStep env (ws_trees s)) \<lparr>pg_discarded = [], pg_txsToPurge = [], pg_deposits = []\<rparr> pool = Inr t"
    "ids = map td_id (pg_txsToPurge t)" using ids(1) by (auto simp: WorldState_validateTxs_def mapR_eq_Inr)
  have d: "distinct (map td_id pool)" unfolding pool_def using assms(2) by (intro pending_distinct) (simp add: keysHold_def)
  have ok: "purgeOK env (ws_trees s) pool t" by (rule purge_fold [OF t(1) d])
  have l: "left = keptTxs (pg_txsToPurge t) pool"
    unfolding left_def ids(2) by (simp add: pending_after_purge keptTxs_def t(2) pool_def)
  have "pd_backwardLink p \<notin> poolCommitments (filter (\<lambda>y. y \<notin> set left) xs)"
    if "pool = xs @ tx # ys" "tx \<in> set left" "proofOf tx = Inr p" for xs tx ys p
  proof -
    have "filter (\<lambda>y. y \<notin> set left) xs = filter (\<lambda>y. td_id y \<in> td_id ` set (pg_txsToPurge t)) xs"
      using that(1) by (intro filter_cong) (auto simp: l keptTxs_def)
    then show ?thesis using ok that unfolding purgeOK_def l by simp
  qed
  moreover have "\<not> spendsSpentNote (ws_trees s) p" if "tx \<in> set left" "proofOf tx = Inr p" for tx p
  proof -
    have "p \<in> set (unsettledProofs left)" using that by (force simp: unsettledProofs_def)
    then show ?thesis using ok by (simp add: purgeOK_def l)
  qed
  moreover have "\<exists>a i. JoinSplit_publicOwner p = Inr a \<and> JoinSplit_publicAssetId p = Inr i
         \<and> depositTotal a i (poolDeposits left) \<le> we_pendingDeposit env i a" if p: "p \<in> set (poolDeposits left)" for p
  proof -
    have ds: "depositsOK env (pg_deposits t) (poolDeposits left)" using ok by (simp add: purgeOK_def l)
    then obtain e where "e \<in> set (pg_deposits t)" "JoinSplit_publicOwner p = Inr (de_publicOwner e)" "JoinSplit_publicAssetId p = Inr (de_publicAssetId e)"
      "de_accumulatedDeposit e \<le> de_contractValue e" using p unfolding depositsOK_def by blast
    then show ?thesis using ds unfolding depositsOK_def by auto
  qed
  moreover have "purgeReason env (ws_trees s) (\<lambda>y. y \<in> set left) xs tx" if "pool = xs @ tx # ys" "tx \<notin> set left" for xs tx ys
  proof -
    have m: "y \<in> set left \<longleftrightarrow> td_id y \<notin> td_id ` set (pg_txsToPurge t)" if "y \<in> set pool" for y using that by (simp add: l keptTxs_def)
    have sub: "set (pg_txsToPurge t) \<subseteq> set pool" using ok by (simp add: purgeOK_def)
    have "tx \<in> set pool" using that(1) by simp
    moreover have "td_id tx \<in> td_id ` set (pg_txsToPurge t)" using m [OF \<open>tx \<in> set pool\<close>] that(2) by simp
    ultimately have "tx \<in> set (pg_txsToPurge t)" using purged_txs [OF d sub] by auto
    from purge_reasons [OF t(1) d that(1) this] show ?thesis
      by (rule purgeReason_cong) (use m that(1) in auto)
  qed
  moreover have "RollupDb_getPendingSecondClassTxs None (ws_rollupDb s') = RollupDb_getPendingSecondClassTxs None (ws_rollupDb s)"
    using secondClass_kept [OF assms(1)] assms(2) by (simp add: keysHold_def)
  moreover have "set left \<subseteq> set pool" by (auto simp: l keptTxs_def)
  ultimately show ?thesis by (intro conjI) blast+
qed

text \<open>Second class transactions are not looked at: they stay, whatever they spend.\<close>

theorem second_class_txs_never_purged:
  assumes "purgeInvalidTxs env s = (None, s')" "distinct (rowIds (ws_rollupDb s))"
  shows "RollupDb_getPendingSecondClassTxs None (ws_rollupDb s') = RollupDb_getPendingSecondClassTxs None (ws_rollupDb s)"
  by (rule secondClass_kept [OF assms])

section \<open>A pending transaction that spends what a block spends\<close>

lemma upsertTx_keeps: "w \<in> set rows \<Longrightarrow> td_id (tw_tx w) \<noteq> td_id tx \<Longrightarrow> w \<in> set (upsertTx p rows tx)"
  by (auto simp: upsertTx_def updateWhere_def image_iff)

text \<open>The two nullifier columns.\<close>

definition nullifierColumn :: "bool \<Rightarrow> txDao \<Rightarrow> buffer option" where
  "nullifierColumn second tx = (if second then td_nullifier2 tx else td_nullifier1 tx)"

definition proofNullifier :: "bool \<Rightarrow> innerProofData \<Rightarrow> buffer" where
  "proofNullifier second q = (if second then ip_nullifier2 q else ip_nullifier1 q)"

lemma addProofTxs_clash:
  assumes "foldE (addProofTxs keccak p txs) db (enumerate i ps) = Inr db'"
    and "mapE (InnerProofData_txId keccak) (filter (\<lambda>q. \<not> InnerProofData_isPadding q) ps) = Inr ids"
    and "w \<in> set (tb_tx db)" "td_id (tw_tx w) \<notin> set ids" "nullifierColumn c (tw_tx w) = Some n"
    and "k \<in> set ids" "\<And>tx. find (\<lambda>tx. td_id tx = k) txs = Some tx \<Longrightarrow> nullifierColumn c tx = Some n"
  shows False
  using assms
proof (induction ps arbitrary: i db ids)
  case (Cons q ps)
  show ?case
  proof (cases "InnerProofData_isPadding q")
    case True
    then have "foldE (addProofTxs keccak p txs) db (enumerate (Suc i) ps) = Inr db'"
      "mapE (InnerProofData_txId keccak) (filter (\<lambda>q. \<not> InnerProofData_isPadding q) ps) = Inr ids"
      using Cons.prems(1,2) by (simp_all add: addProofTxs_def [of _ _ _ db])
    then show ?thesis using Cons.IH Cons.prems(3-) by blast
  next
    case False
    obtain j js where ids: "ids = j # js" "InnerProofData_txId keccak q = Inr j"
      "mapE (InnerProofData_txId keccak) (filter (\<lambda>q. \<not> InnerProofData_isPadding q) ps) = Inr js"
      using Cons.prems(2) False by (auto simp: bindE_eq_Inr)
    from Cons.prems(1) obtain db1 where d: "addProofTxs keccak p txs db (i, q) = Inr db1" "foldE (addProofTxs keccak p txs) db1 (enumerate (Suc i) ps) = Inr db'"
      by (auto simp: bindE_eq_Inr)
    then obtain tx where tx: "find (\<lambda>tx. td_id tx = j) txs = Some tx" "\<not> nullifiersClash (tx\<lparr>td_position := Some (int i)\<rparr>) (tb_tx db)"
      "db1 = db\<lparr>tb_tx := upsertTx p (tb_tx db) (tx\<lparr>td_position := Some (int i)\<rparr>)\<rparr>"
      using False ids(2) by (auto simp: addProofTxs_def mapR_eq_Inr storeTx_Inr split: option.splits)
    have j: "td_id tx = j" using tx(1) by (auto simp: find_Some_iff)
    have "td_id (tw_tx w) \<noteq> j" using Cons.prems(4) ids(1) by simp
    show ?thesis
    proof (cases "k = j")
      case True
      then have "nullifierColumn c tx = Some n" using Cons.prems(7) tx(1) by simp
      then show ?thesis using tx(2) Cons.prems(3,5) j \<open>td_id (tw_tx w) \<noteq> j\<close> by (auto simp: nullifiersClash_def nullifierColumn_def list_ex_iff split: if_splits)
    next
      case False
      have "w \<in> set (tb_tx db1)" using Cons.prems(3) \<open>td_id (tw_tx w) \<noteq> j\<close> j by (simp add: tx(3) upsertTx_keeps)
      then show ?thesis using Cons.IH [OF d(2) ids(3)] Cons.prems(4-) ids(1) False by simp
    qed
  qed
qed simp

lemma withRollup_tws: "map tw_tx (tb_tx (withRollup dao db)) = map tw_tx (tb_tx db)"
  by (simp add: withRollup_def withoutRollup_def deleteRollupProofsWhere_def deleteRollupsWhere_def Let_def updateWhere_def
      o_def if_distrib [of tw_tx] cong: if_cong)

lemma withRollup_txs_only:
  assumes "w \<in> set (tb_tx db)"
  shows "\<exists>w'\<in>set (tb_tx (withRollup dao db)). tw_tx w' = tw_tx w"
proof -
  have "tw_tx w \<in> set (map tw_tx (tb_tx (withRollup dao db)))" unfolding withRollup_tws using assms by simp
  then show ?thesis by auto
qed

lemma addRollup_clash:
  assumes "RollupDb_addRollup keccak dao db = Inr db'" "RollupProofData_decode (rpd_encodedProofData (ro_rollupProof dao)) = Inr r"
    and "getNonPaddingTxIds keccak r = Inr ids" "w \<in> set (tb_tx db)" "td_id (tw_tx w) \<notin> set ids" "nullifierColumn c (tw_tx w) = Some n"
    and "k \<in> set ids" "\<And>tx. find (\<lambda>tx. td_id tx = k) (rpd_txs (ro_rollupProof dao)) = Some tx \<Longrightarrow> nullifierColumn c tx = Some n"
  shows False
proof -
  obtain r' db2 where d: "RollupProofData_decode (rpd_encodedProofData (ro_rollupProof dao)) = Inr r'"
    "foldE (addProofTxs keccak (rpd_id (ro_rollupProof dao)) (rpd_txs (ro_rollupProof dao))) (withRollup dao db)
      (enumerate 0 (rp_innerProofData r')) = Inr db2"
    using addRollup_parts [OF assms(1)] by metis
  obtain w' where "w' \<in> set (tb_tx (withRollup dao db))" "tw_tx w' = tw_tx w" using withRollup_txs_only [OF assms(4)] by blast
  then show False
    using addProofTxs_clash [OF d(2), of ids w' c n k] assms d(1) by (simp add: getNonPaddingTxIds_def getNonPaddingProofs_def)
qed

lemma txDao_nullifiers:
  assumes "innerProofDataToTxDao keccak q o1 t ty i = Inr tx"
  shows "nullifierColumn c tx = (if toBigIntBE (proofNullifier c q) \<noteq> 0 then Some (proofNullifier c q) else None)"
  using assms by (auto simp: innerProofDataToTxDao_def nullifierColumn_def proofNullifier_def bindE_eq_Inr)

lemma blockTx_nullifiers:
  assumes "foldE (blockTx env offchain t) (txs0, k) (enumerate i ps) = Inr (txs, k')" "tx \<in> set txs"
  shows "tx \<in> set txs0 \<or> (\<exists>q\<in>set ps. \<not> InnerProofData_isPadding q \<and> InnerProofData_txId (we_keccak env) q = Inr (td_id tx)
    \<and> nullifierColumn c tx = (if toBigIntBE (proofNullifier c q) \<noteq> 0 then Some (proofNullifier c q) else None))"
  using assms
proof (induction ps arbitrary: i txs0 k)
  case (Cons q ps)
  show ?case
  proof (cases "InnerProofData_isPadding q")
    case True
    then show ?thesis using Cons.IH [of txs0 k "Suc i"] Cons.prems by (auto simp: blockTx_step)
  next
    case False
    obtain t1 where t1: "innerProofDataToTxDao (we_keccak env) q (offchain ! k) t (getTxTypeFromInnerProofData (ip_proofId q)) i = Inr t1"
      "foldE (blockTx env offchain t) (txs0 @ [t1], k + 1) (enumerate (Suc i) ps) = Inr (txs, k')"
      using Cons.prems False by (auto simp: blockTx_step bindE_eq_Inr mapR_eq_Inr indexE_def split: if_splits)
    from Cons.IH [OF t1(2) Cons.prems(2)] innerProofDataToTxDao_fields(1) [OF t1(1)] txDao_nullifiers [OF t1(1)] False show ?thesis by auto
  qed
qed simp

text \<open>C16: A block can be made unprocessable by the pool: when a transaction of the database has, in the column of its first or of its second
  nullifier, the nullifier that another transaction in someone else's block has in the same place, the unique column refuses the
  block's transaction, so the block fails before the purge that would have removed the pending one. Nothing is said of a note that one
  of them spends as its first and the other as its second.\<close>

theorem conflicting_tx_blocks_block:
  assumes "RollupProofData_decode (bl_encodedRollupProofData b) = Inr r" "rh_rollupId r = RollupDb_getNextRollupId (ws_rollupDb s)"
    and "\<And>h. RollupProofData_rollupHash (we_keccak env) (we_sha256 env) r = Inr h \<Longrightarrow> h \<notin> set (proofIds (ws_rollupDb s))"
    and "getNonPaddingTxIds (we_keccak env) r = Inr ids" "distinct ids"
    and "w \<in> set (tb_tx (ws_rollupDb s))" "td_id (tw_tx w) \<notin> set ids" "nullifierColumn second (tw_tx w) = Some (proofNullifier second q)"
    and "q \<in> set (getNonPaddingProofs r)" "toBigIntBE (proofNullifier second q) \<noteq> 0"
  shows "fst (updateDbs env b s) \<noteq> None"
proof
  assume "fst (updateDbs env b s) = None"
  then obtain s' where u: "updateDbs env b s = (None, s')" by (cases "updateDbs env b s") simp
  obtain h t d db1 s2 where p: "RollupProofData_rollupHash (we_keccak env) (we_sha256 env) r = Inr h"
    "processDefiProofs env r b t (ws_rollupDb s) = Inr db1"
    "confirmOrAddRollupToDb env r b t h (s\<lparr>ws_trees := d, ws_rollupDb := db1\<rparr>) = (None, s2)"
    by (rule updateDbs_parts [OF u assms(1,2)])
  obtain x where x: "db1 = (ws_rollupDb s)\<lparr>tb_claim := x\<rparr>" using processDefiProofs_claims [OF p(2)] by blast
  have "proofIds db1 = proofIds (ws_rollupDb s)" by (simp add: x proofIds_def)
  then have u: "RollupDb_getRollupProof (we_keccak env) h db1 = Inr None" using assms(3) [OF p(1)] by (intro getRollupProof_unknown) simp
  show False
  proof (cases rule: confirmOrAdd_parts [OF p(3), case_names confirmed added])
    case (confirmed q stored ams bms db' txs)
    then show ?thesis using u by simp
  next
    case (added dao db')
    note f = foreignRollup_fields [OF added(2)]
    have m: "mapE (InnerProofData_txId (we_keccak env)) (getNonPaddingProofs r) = Inr ids" using assms(4) by (simp add: getNonPaddingTxIds_def)
    obtain j where j: "j < length (getNonPaddingProofs r)" "getNonPaddingProofs r ! j = q" using assms(9) by (auto simp: in_set_conv_nth)
    have kq: "InnerProofData_txId (we_keccak env) q = Inr (ids ! j)" "j < length ids"
      using mapE_Inr_nth [OF m j(1)] mapE_Inr_length [OF m] j by simp_all
    have "nullifierColumn second tx = Some (proofNullifier second q)" if tx: "find (\<lambda>tx. td_id tx = ids ! j) (rpd_txs (ro_rollupProof dao)) = Some tx" for tx
    proof -
      have t: "tx \<in> set (rpd_txs (ro_rollupProof dao))" "td_id tx = ids ! j" using tx by (auto simp: find_Some_iff)
      obtain k' where "foldE (blockTx env (bl_offchainTxData b) t) ([], 0) (enumerate 0 (rp_innerProofData r)) = Inr (rpd_txs (ro_rollupProof dao), k')"
        using f(6) by (auto simp: blockTxs_def mapR_eq_Inr)
      from blockTx_nullifiers [OF this t(1)] obtain q' where q': "q' \<in> set (getNonPaddingProofs r)" "InnerProofData_txId (we_keccak env) q' = Inr (ids ! j)"
        "nullifierColumn second tx = (if toBigIntBE (proofNullifier second q') \<noteq> 0 then Some (proofNullifier second q') else None)"
        using t(2) by (auto simp: getNonPaddingProofs_def)
      obtain j' where j': "j' < length (getNonPaddingProofs r)" "getNonPaddingProofs r ! j' = q'" using q'(1) by (auto simp: in_set_conv_nth)
      then have "ids ! j' = ids ! j" "j' < length ids" using mapE_Inr_nth [OF m j'(1)] mapE_Inr_length [OF m] q'(2) by simp_all
      then have "j' = j" using assms(5) kq(2) nth_eq_iff_index_eq by blast
      then show ?thesis using q'(3) j j' assms(10) by simp
    qed
    moreover have "w \<in> set (tb_tx db1)" using assms(6) by (simp add: x)
    ultimately show ?thesis
      using addRollup_clash [OF added(3) _ assms(4) _ assms(7,8), of "ids ! j"] f(5) assms(1) kq(2) by simp
  qed
qed

end
