(* ===== verification/ClaimsOfBlocks.thy ===== *)
theory ClaimsOfBlocks
  imports BlockSync
begin

text \<open>
  The claims that a block opens, those it makes ready for a claim proof and those it settles (\<open>processDefiProofs\<close> of
  \<open>falafel/src/world_state.ts\<close>).
\<close>

text \<open>All but the two columns that later blocks fill.\<close>

definition sameClaim :: "claimDao \<Rightarrow> claimDao \<Rightarrow> bool" where
  "sameClaim c c' \<longleftrightarrow> c'\<lparr>cd_claimed := cd_claimed c, cd_interactionResultRollupId := cd_interactionResultRollupId c\<rparr> = c"

lemma sameClaim_simps [simp]: "sameClaim c c" "sameClaim c (c'\<lparr>cd_claimed := x\<rparr>) = sameClaim c c'"
  "sameClaim c (c'\<lparr>cd_interactionResultRollupId := y\<rparr>) = sameClaim c c'" "sameClaim c (mergeClaim c old)"
  by (simp_all add: sameClaim_def mergeClaim_def)

lemma sameClaim_id: "sameClaim c c' \<Longrightarrow> cd_id c' = cd_id c \<and> cd_nullifier c' = cd_nullifier c \<and> cd_interactionNonce c' = cd_interactionNonce c"
  unfolding sameClaim_def by (cases c; cases c') auto

definition paddingFree :: "innerProofData list \<Rightarrow> nat" where
  "paddingFree ps = length (filter (\<lambda>q. \<not> InnerProofData_isPadding q) ps)"

lemma not_padding: "DEFI_DEPOSIT \<noteq> PADDING" "DEFI_CLAIM \<noteq> PADDING" "DEFI_CLAIM \<noteq> DEFI_DEPOSIT"
  by simp_all

lemma defiProof_step: "defiProof env r offchain (claims, spent, k) (i, q) =
    (if InnerProofData_isPadding q then Inr (claims, spent, k)
     else if ip_proofId q = DEFI_DEPOSIT then
       bindE (indexE offchain k) (\<lambda>o1. mapR (\<lambda>claim. (claims @ [claim], spent, k + 1)) (claimOf env r i q o1))
     else if ip_proofId q = DEFI_CLAIM then Inr (claims, spent @ [ip_nullifier1 q], k + 1)
     else Inr (claims, spent, k + 1))"
  by (simp add: defiProof_def)

lemma claimOf_id: "claimOf env r i q o1 = Inr c \<Longrightarrow> cd_id c = rh_dataStartIndex r + int i * 2"
  by (auto simp: claimOf_def bindE_eq_Inr Let_def)

lemma claimOf_fields:
  assumes "claimOf env r i q offchain = Inr c"
  shows "\<exists>o1. OffchainDefiDepositData_fromBuffer offchain = Inr o1 \<and> cd_id c = rh_dataStartIndex r + 2 * int i \<and> cd_depositValue c = odd_depositValue o1
    \<and> cd_bridgeId c = BridgeCallData_toBigInt (odd_bridgeCallData o1) \<and> cd_partialState c = odd_partialState o1
    \<and> cd_partialStateSecretEphPubKey c = grumpkinAddress_buffer (odd_partialStateSecretEphPubKey o1)
    \<and> cd_inputNullifier c = ip_nullifier1 q \<and> cd_fee c = odd_txFee o1 - odd_txFee o1 div 2
    \<and> (\<forall>k<length (rh_bridgeCallDatas r). rh_bridgeCallDatas r ! k = BridgeCallData_toBuffer (odd_bridgeCallData o1)
         \<and> (\<forall>m<k. rh_bridgeCallDatas r ! m \<noteq> BridgeCallData_toBuffer (odd_bridgeCallData o1))
         \<longrightarrow> cd_interactionNonce c = rh_rollupId r * int NUM_BRIDGE_CALLS_PER_BLOCK + int k)
    \<and> (BridgeCallData_toBuffer (odd_bridgeCallData o1) \<notin> set (rh_bridgeCallDatas r)
         \<longrightarrow> cd_interactionNonce c = rh_rollupId r * int NUM_BRIDGE_CALLS_PER_BLOCK - 1)
    \<and> cd_nullifier c = we_claimNoteNullifier env (we_claimNoteCommitment env
         \<lparr>tcn_value = odd_depositValue o1, tcn_bridgeCallData = odd_bridgeCallData o1, tcn_defiInteractionNonce = cd_interactionNonce c,
          tcn_fee = odd_txFee o1 - odd_txFee o1 div 2, tcn_partialState = odd_partialState o1, tcn_inputNullifier = ip_nullifier1 q\<rparr>)"
proof -
  from assms obtain o1 where o1: "OffchainDefiDepositData_fromBuffer offchain = Inr o1" by (auto simp: claimOf_def bindE_eq_Inr)
  let ?P = "\<lambda>bridge. bridge = BridgeCallData_toBuffer (odd_bridgeCallData o1)" and ?bs = "rh_bridgeCallDatas r"
  note c = assms [unfolded claimOf_def o1 bindE_Inr Let_def]
  have first: "findIndex ?P ?bs = Some k" if k: "k < length ?bs" "?P (?bs ! k)" "\<forall>m<k. \<not> ?P (?bs ! m)" for k
  proof (cases "findIndex ?P ?bs")
    case None
    then show ?thesis using k(1,2) nth_mem [OF k(1)] by (auto simp: findIndex_None)
  next
    case (Some j)
    then show ?thesis using k findIndex_Some [OF Some] findIndex_first [OF Some, of k] by (metis linorder_neqE_nat)
  qed
  have "findIndex ?P ?bs = None" if "BridgeCallData_toBuffer (odd_bridgeCallData o1) \<notin> set ?bs" using that by (auto simp: findIndex_None)
  moreover have "drop_bit 1 (odd_txFee o1) = odd_txFee o1 div 2" by (simp add: drop_bit_eq_div)
  ultimately show ?thesis using c first by (intro exI [of _ o1]) (auto simp: o1 add.commute)
qed

lemma sameClaim_fields:
  assumes "sameClaim c c'"
  shows "cd_id c' = cd_id c" "cd_nullifier c' = cd_nullifier c" "cd_bridgeId c' = cd_bridgeId c" "cd_depositValue c' = cd_depositValue c"
    "cd_partialState c' = cd_partialState c" "cd_partialStateSecretEphPubKey c' = cd_partialStateSecretEphPubKey c"
    "cd_inputNullifier c' = cd_inputNullifier c" "cd_interactionNonce c' = cd_interactionNonce c" "cd_fee c' = cd_fee c"
  using assms unfolding sameClaim_def by (cases c; cases c'; simp)+

lemma defiProof_fold:
  assumes "foldE (defiProof env r offchain) (claims0, spent0, k) (enumerate i ps) = Inr (claims, spent, k')"
  shows "\<exists>new. claims = claims0 @ new \<and> sorted_wrt (<) (map cd_id new) \<and> (\<forall>c\<in>set new. rh_dataStartIndex r + int i * 2 \<le> cd_id c)
    \<and> (\<forall>j<length ps. ip_proofId (ps ! j) = DEFI_DEPOSIT \<longrightarrow> k + paddingFree (take j ps) < length offchain
         \<and> (\<exists>c\<in>set new. claimOf env r (i + j) (ps ! j) (offchain ! (k + paddingFree (take j ps))) = Inr c))
    \<and> set spent = set spent0 \<union> {ip_nullifier1 q | q. q \<in> set ps \<and> ip_proofId q = DEFI_CLAIM}"
  using assms
proof (induction ps arbitrary: i claims0 spent0 k)
  case Nil
  then show ?case by auto
next
  case (Cons q ps)
  have free: "k + paddingFree (take (Suc j) (q # ps)) = (if InnerProofData_isPadding q then k else k + 1) + paddingFree (take j ps)" for j
    by (simp add: paddingFree_def)
  obtain claims1 spent1 where st: "defiProof env r offchain (claims0, spent0, k) (i, q)
      = Inr (claims1, spent1, if InnerProofData_isPadding q then k else k + 1)"
    and f: "foldE (defiProof env r offchain) (claims1, spent1, if InnerProofData_isPadding q then k else k + 1) (enumerate (Suc i) ps) = Inr (claims, spent, k')"
    using Cons.prems by (auto simp: defiProof_step bindE_eq_Inr mapR_eq_Inr split: if_splits)
  from Cons.IH [OF f] obtain new where new: "claims = claims1 @ new" "sorted_wrt (<) (map cd_id new)"
    "\<forall>c\<in>set new. rh_dataStartIndex r + int (Suc i) * 2 \<le> cd_id c"
    "\<forall>j<length ps. ip_proofId (ps ! j) = DEFI_DEPOSIT \<longrightarrow> k + paddingFree (take (Suc j) (q # ps)) < length offchain
         \<and> (\<exists>c\<in>set new. claimOf env r (i + Suc j) (ps ! j) (offchain ! (k + paddingFree (take (Suc j) (q # ps)))) = Inr c)"
    "set spent = set spent1 \<union> {ip_nullifier1 q | q. q \<in> set ps \<and> ip_proofId q = DEFI_CLAIM}"
    unfolding free by (auto simp: add.commute)
  have "\<exists>cs. claims1 = claims0 @ cs \<and> length cs \<le> 1 \<and> (\<forall>c\<in>set cs. cd_id c = rh_dataStartIndex r + int i * 2)
      \<and> (ip_proofId q = DEFI_DEPOSIT \<longrightarrow> k < length offchain \<and> (\<exists>c\<in>set cs. claimOf env r i q (offchain ! k) = Inr c))
      \<and> set spent1 = set spent0 \<union> {ip_nullifier1 q' | q'. q' = q \<and> ip_proofId q = DEFI_CLAIM}"
    using st not_padding
    by (cases "InnerProofData_isPadding q"; cases "ip_proofId q = DEFI_DEPOSIT"; cases "ip_proofId q = DEFI_CLAIM")
      (auto simp: defiProof_step InnerProofData_isPadding_def bindE_eq_Inr mapR_eq_Inr indexE_def dest: claimOf_id split: if_splits)
  then obtain cs where cs: "claims1 = claims0 @ cs" "length cs \<le> 1" "\<forall>c\<in>set cs. cd_id c = rh_dataStartIndex r + int i * 2"
    "ip_proofId q = DEFI_DEPOSIT \<longrightarrow> k < length offchain \<and> (\<exists>c\<in>set cs. claimOf env r i q (offchain ! k) = Inr c)"
    "set spent1 = set spent0 \<union> {ip_nullifier1 q' | q'. q' = q \<and> ip_proofId q = DEFI_CLAIM}" by blast
  have lt: "cd_id c < cd_id c'" if "c \<in> set cs" "c' \<in> set new" for c c' using cs(3) new(3) that by force
  have "sorted_wrt (<) (map cd_id cs)" using cs(2) by (cases cs) auto
  then have a: "sorted_wrt (<) (map cd_id (cs @ new))" using new(2) lt by (auto simp: sorted_wrt_append)
  have b: "\<forall>c\<in>set (cs @ new). rh_dataStartIndex r + int i * 2 \<le> cd_id c" using cs(3) new(3) by fastforce
  have c: "k + paddingFree (take j (q # ps)) < length offchain
      \<and> (\<exists>c\<in>set (cs @ new). claimOf env r (i + j) ((q # ps) ! j) (offchain ! (k + paddingFree (take j (q # ps)))) = Inr c)"
    if "j < length (q # ps)" "ip_proofId ((q # ps) ! j) = DEFI_DEPOSIT" for j
  proof (cases j)
    case 0
    then show ?thesis using that cs(4) by (auto simp: paddingFree_def)
  next
    case (Suc m)
    then show ?thesis using that new(4) by auto
  qed
  have d: "set spent = set spent0 \<union> {ip_nullifier1 q' | q'. q' \<in> set (q # ps) \<and> ip_proofId q' = DEFI_CLAIM}"
    unfolding new(5) cs(5) by auto
  show ?case
  proof (intro exI [of _ "cs @ new"] conjI)
    show "claims = claims0 @ cs @ new" using new(1) cs(1) by simp
    show "\<forall>j<length (q # ps). ip_proofId ((q # ps) ! j) = DEFI_DEPOSIT \<longrightarrow> k + paddingFree (take j (q # ps)) < length offchain
      \<and> (\<exists>c\<in>set (cs @ new). claimOf env r (i + j) ((q # ps) ! j) (offchain ! (k + paddingFree (take j (q # ps)))) = Inr c)"
      using c by blast
  qed (fact a b d)+
qed

lemma saveClaim_cases:
  assumes "saveClaim rows d = Inr rows'"
  shows "(c \<in> set rows \<longrightarrow> cd_id c \<noteq> cd_id d \<longrightarrow> c \<in> set rows') \<and> (\<exists>c'\<in>set rows'. sameClaim d c')"
proof -
  have e: "rows' = saveRowWith cd_id mergeClaim rows d" using assms by (simp add: saveClaim_def split: if_splits)
  show ?thesis
  proof (cases "cd_id d \<in> set (map cd_id rows)")
    case True
    then obtain x where x: "x \<in> set rows" "cd_id x = cd_id d" by auto
    have r: "rows' = map (\<lambda>x. if cd_id x = cd_id d then mergeClaim d x else x) rows" unfolding e saveRowWith_def using True by simp
    have "(if cd_id x = cd_id d then mergeClaim d x else x) \<in> set rows'" unfolding r using x(1) by (simp only: set_map image_eqI)
    then have "mergeClaim d x \<in> set rows'" by (simp add: x(2))
    then have "\<exists>c'\<in>set rows'. sameClaim d c'" by (rule bexI [rotated]) simp
    moreover have "c \<in> set rows'" if "c \<in> set rows" "cd_id c \<noteq> cd_id d" unfolding r set_map image_iff using that by (intro bexI [of _ c]) simp_all
    ultimately show ?thesis by blast
  qed (simp add: e saveRowWith_def)
qed

lemma saveClaim_fold_keeps:
  assumes "foldE saveClaim rows cs = Inr rows'" "\<exists>c'\<in>set rows. sameClaim c c'" "cd_id c \<notin> set (map cd_id cs)"
  shows "\<exists>c'\<in>set rows'. sameClaim c c'"
  using assms
proof (induction cs arbitrary: rows)
  case (Cons x cs)
  obtain rows1 where r: "saveClaim rows x = Inr rows1" "foldE saveClaim rows1 cs = Inr rows'" using Cons.prems(1) by (auto simp: bindE_eq_Inr)
  obtain c' where c': "c' \<in> set rows" "sameClaim c c'" using Cons.prems(2) by blast
  then have "cd_id c' \<noteq> cd_id x" using sameClaim_id [OF c'(2)] Cons.prems(3) by auto
  then have "c' \<in> set rows1" using saveClaim_cases [OF r(1)] c'(1) by blast
  then show ?case using Cons.IH [OF r(2)] c'(2) Cons.prems(3) by auto
qed simp

lemma saveClaim_saved:
  assumes "foldE saveClaim rows cs = Inr rows'" "c \<in> set cs" "distinct (map cd_id cs)"
  shows "\<exists>c'\<in>set rows'. sameClaim c c'"
  using assms
proof (induction cs arbitrary: rows)
  case (Cons d cs)
  obtain rows1 where r: "saveClaim rows d = Inr rows1" "foldE saveClaim rows1 cs = Inr rows'" using Cons.prems(1) by (auto simp: bindE_eq_Inr)
  show ?case
  proof (cases "c = d")
    case True
    then have "\<exists>c'\<in>set rows1. sameClaim c c'" using saveClaim_cases [OF r(1)] by blast
    then show ?thesis using Cons.prems(3) True by (intro saveClaim_fold_keeps [OF r(2)]) simp_all
  next
    case False
    then show ?thesis using Cons.IH [OF r(2)] Cons.prems by simp
  qed
qed simp

lemma claims_stored:
  assumes "processDefiProofs env r b t db = Inr db'"
  shows "(\<forall>i<length (rp_innerProofData r). ip_proofId ((rp_innerProofData r) ! i) = DEFI_DEPOSIT \<longrightarrow> paddingFree (take i (rp_innerProofData r)) < length (bl_offchainTxData b)
        \<and> (\<exists>c. claimOf env r i ((rp_innerProofData r) ! i) (bl_offchainTxData b ! paddingFree (take i (rp_innerProofData r))) = Inr c \<and> (\<exists>c'\<in>set (tb_claim db'). sameClaim c c')))
    \<and> (\<forall>c\<in>set (tb_claim db'). cd_interactionNonce c \<in> die_nonce ` set (bl_interactionResult b) \<longrightarrow> cd_interactionResultRollupId c = Some (rh_rollupId r))
    \<and> (\<forall>c\<in>set (tb_claim db'). \<forall>q\<in>set (rp_innerProofData r). ip_proofId q = DEFI_CLAIM \<and> ip_nullifier1 q = cd_nullifier c \<longrightarrow> cd_claimed c = Some t)"
proof -
  obtain claims spent k rows where p: "foldE (defiProof env r (bl_offchainTxData b)) ([], [], 0) (enumerate 0 (rp_innerProofData r)) = Inr (claims, spent, k)"
    "foldE saveClaim (tb_claim db) claims = Inr rows"
    "db' = RollupDb_updateClaimsWithResultRollupId (map die_nonce (bl_interactionResult b)) (rh_rollupId r)
       (RollupDb_confirmClaimed spent t (db\<lparr>tb_claim := rows\<rparr>))" by (rule processDefiProofs_parts [OF assms])
  define upd :: "claimDao \<Rightarrow> claimDao" where "upd = (\<lambda>c. let c = if cd_nullifier c \<in> set spent then c\<lparr>cd_claimed := Some t\<rparr> else c in
    if cd_interactionNonce c \<in> die_nonce ` set (bl_interactionResult b) then c\<lparr>cd_interactionResultRollupId := Some (rh_rollupId r)\<rparr> else c)"
  have t: "tb_claim db' = map upd rows"
    by (simp add: p(3) RollupDb_updateClaimsWithResultRollupId_def RollupDb_confirmClaimed_def updateWhere_def upd_def Let_def o_def)
  obtain new where new: "claims = new" "sorted_wrt (<) (map cd_id new)"
    "\<forall>j<length (rp_innerProofData r). ip_proofId (rp_innerProofData r ! j) = DEFI_DEPOSIT
      \<longrightarrow> paddingFree (take j (rp_innerProofData r)) < length (bl_offchainTxData b)
        \<and> (\<exists>c\<in>set new. claimOf env r j (rp_innerProofData r ! j) (bl_offchainTxData b ! paddingFree (take j (rp_innerProofData r))) = Inr c)"
    "set spent = {ip_nullifier1 q | q. q \<in> set (rp_innerProofData r) \<and> ip_proofId q = DEFI_CLAIM}"
    using defiProof_fold [OF p(1)] by auto
  have d: "distinct (map cd_id claims)" using new(1,2) by (simp add: strict_sorted_iff)
  have same: "sameClaim c c' \<Longrightarrow> sameClaim c (upd c')" for c c' by (simp add: upd_def Let_def)
  have "\<exists>c'\<in>set (tb_claim db'). sameClaim c c'" if "c \<in> set claims" for c
    using saveClaim_saved [OF p(2) that d] same by (auto simp: t)
  moreover have "cd_interactionResultRollupId c = Some (rh_rollupId r)"
    if "c \<in> set (tb_claim db')" "cd_interactionNonce c \<in> die_nonce ` set (bl_interactionResult b)" for c
    using that by (auto simp: t upd_def Let_def split: if_splits)
  moreover have "cd_claimed c = Some t"
    if "c \<in> set (tb_claim db')" "q \<in> set (rp_innerProofData r)" "ip_proofId q = DEFI_CLAIM" "ip_nullifier1 q = cd_nullifier c" for c q
  proof -
    have "cd_nullifier c \<in> set spent" using new(4) that(2-4) by auto
    then show ?thesis using that(1) by (auto simp: t upd_def Let_def split: if_splits)
  qed
  ultimately show ?thesis using new(1,3) by blast
qed

text \<open>C14: A block's DeFi deposits become claims with the data of the deposit. The deposit in place \<open>i\<close> has its offchain data behind that
  of the transactions before it that are not padding, and its claim has the index of its note in the tree, the value, bridge and secret of
  that data, the half of the fee that is kept for the claim rounded up, the nonce of the first slot of its bridge in this rollup (one
  less than the rollup's first when the bridge is in no slot), and the nullifier of the claim note made of these. The claims whose
  interaction's result is in the block become ready to be claimed, and those whose notes are spent by the block's claim proofs are
  settled.\<close>

theorem deposits_become_claims:
  assumes "processDefiProofs env r b t db = Inr db'"
  shows "(\<forall>i<length (rp_innerProofData r). ip_proofId (rp_innerProofData r ! i) = DEFI_DEPOSIT
      \<longrightarrow> paddingFree (take i (rp_innerProofData r)) < length (bl_offchainTxData b)
        \<and> (\<exists>o1 c. OffchainDefiDepositData_fromBuffer (bl_offchainTxData b ! paddingFree (take i (rp_innerProofData r))) = Inr o1
            \<and> c \<in> set (tb_claim db') \<and> cd_id c = rh_dataStartIndex r + 2 * int i \<and> cd_depositValue c = odd_depositValue o1
            \<and> cd_bridgeId c = BridgeCallData_toBigInt (odd_bridgeCallData o1) \<and> cd_partialState c = odd_partialState o1
            \<and> cd_partialStateSecretEphPubKey c = grumpkinAddress_buffer (odd_partialStateSecretEphPubKey o1)
            \<and> cd_inputNullifier c = ip_nullifier1 (rp_innerProofData r ! i) \<and> cd_fee c = odd_txFee o1 - odd_txFee o1 div 2
            \<and> (\<forall>k<length (rh_bridgeCallDatas r). rh_bridgeCallDatas r ! k = BridgeCallData_toBuffer (odd_bridgeCallData o1)
                 \<and> (\<forall>m<k. rh_bridgeCallDatas r ! m \<noteq> BridgeCallData_toBuffer (odd_bridgeCallData o1))
                 \<longrightarrow> cd_interactionNonce c = rh_rollupId r * int NUM_BRIDGE_CALLS_PER_BLOCK + int k)
            \<and> (BridgeCallData_toBuffer (odd_bridgeCallData o1) \<notin> set (rh_bridgeCallDatas r)
                 \<longrightarrow> cd_interactionNonce c = rh_rollupId r * int NUM_BRIDGE_CALLS_PER_BLOCK - 1)
            \<and> cd_nullifier c = we_claimNoteNullifier env (we_claimNoteCommitment env
                 \<lparr>tcn_value = odd_depositValue o1, tcn_bridgeCallData = odd_bridgeCallData o1, tcn_defiInteractionNonce = cd_interactionNonce c,
                  tcn_fee = odd_txFee o1 - odd_txFee o1 div 2, tcn_partialState = odd_partialState o1, tcn_inputNullifier = ip_nullifier1 (rp_innerProofData r ! i)\<rparr>)))
    \<and> (\<forall>c\<in>set (tb_claim db'). cd_interactionNonce c \<in> die_nonce ` set (bl_interactionResult b) \<longrightarrow> cd_interactionResultRollupId c = Some (rh_rollupId r))
    \<and> (\<forall>c\<in>set (tb_claim db'). \<forall>q\<in>set (rp_innerProofData r). ip_proofId q = DEFI_CLAIM \<and> ip_nullifier1 q = cd_nullifier c \<longrightarrow> cd_claimed c = Some t)"
proof (intro conjI allI impI)
  note st = claims_stored [OF assms]
  show "\<forall>c\<in>set (tb_claim db'). cd_interactionNonce c \<in> die_nonce ` set (bl_interactionResult b) \<longrightarrow> cd_interactionResultRollupId c = Some (rh_rollupId r)"
    "\<forall>c\<in>set (tb_claim db'). \<forall>q\<in>set (rp_innerProofData r). ip_proofId q = DEFI_CLAIM \<and> ip_nullifier1 q = cd_nullifier c \<longrightarrow> cd_claimed c = Some t"
    using st by blast+
  fix i assume i: "i < length (rp_innerProofData r)" "ip_proofId (rp_innerProofData r ! i) = DEFI_DEPOSIT"
  with st show "paddingFree (take i (rp_innerProofData r)) < length (bl_offchainTxData b)" by blast
  from st i obtain c c' where c: "claimOf env r i (rp_innerProofData r ! i) (bl_offchainTxData b ! paddingFree (take i (rp_innerProofData r))) = Inr c"
    "c' \<in> set (tb_claim db')" "sameClaim c c'" by blast
  from claimOf_fields [OF c(1)] c(2)
  show "\<exists>o1 c. OffchainDefiDepositData_fromBuffer (bl_offchainTxData b ! paddingFree (take i (rp_innerProofData r))) = Inr o1
            \<and> c \<in> set (tb_claim db') \<and> cd_id c = rh_dataStartIndex r + 2 * int i \<and> cd_depositValue c = odd_depositValue o1
            \<and> cd_bridgeId c = BridgeCallData_toBigInt (odd_bridgeCallData o1) \<and> cd_partialState c = odd_partialState o1
            \<and> cd_partialStateSecretEphPubKey c = grumpkinAddress_buffer (odd_partialStateSecretEphPubKey o1)
            \<and> cd_inputNullifier c = ip_nullifier1 (rp_innerProofData r ! i) \<and> cd_fee c = odd_txFee o1 - odd_txFee o1 div 2
            \<and> (\<forall>k<length (rh_bridgeCallDatas r). rh_bridgeCallDatas r ! k = BridgeCallData_toBuffer (odd_bridgeCallData o1)
                 \<and> (\<forall>m<k. rh_bridgeCallDatas r ! m \<noteq> BridgeCallData_toBuffer (odd_bridgeCallData o1))
                 \<longrightarrow> cd_interactionNonce c = rh_rollupId r * int NUM_BRIDGE_CALLS_PER_BLOCK + int k)
            \<and> (BridgeCallData_toBuffer (odd_bridgeCallData o1) \<notin> set (rh_bridgeCallDatas r)
                 \<longrightarrow> cd_interactionNonce c = rh_rollupId r * int NUM_BRIDGE_CALLS_PER_BLOCK - 1)
            \<and> cd_nullifier c = we_claimNoteNullifier env (we_claimNoteCommitment env
                 \<lparr>tcn_value = odd_depositValue o1, tcn_bridgeCallData = odd_bridgeCallData o1, tcn_defiInteractionNonce = cd_interactionNonce c,
                  tcn_fee = odd_txFee o1 - odd_txFee o1 div 2, tcn_partialState = odd_partialState o1, tcn_inputNullifier = ip_nullifier1 (rp_innerProofData r ! i)\<rparr>)"
    unfolding sameClaim_fields [OF c(3), symmetric] by blast
qed

end
