(* ===== verification/BlockSamples.thy ===== *)
theory BlockSamples
  imports PoolPurge ClaimsOfBlocks
begin

text \<open>
  Concrete blocks, databases and pools on which the theorems on blocks apply.
\<close>

section \<open>A foreign block\<close>

lemma nodeHash_fixed: "0 < h \<Longrightarrow> nodeHash (\<lambda>_ _. c) f h i = c"
  by (cases h) simp_all

text \<open>A sequencer that has applied the blocks up to 6, with a transfer in its pool, and a foreign block 7 with one deposit.\<close>

definition sampleWorldEnv :: worldEnv where
  "sampleWorldEnv = \<lparr>we_compress = (\<lambda>_ _. zeros 32), we_keccak = (\<lambda>_. replicate 32 6), we_sha256 = (\<lambda>_. replicate 32 8),
     we_claimNoteCommitment = (\<lambda>_. zeros 32), we_claimNoteNullifier = (\<lambda>b. b), we_numAssets = 2, we_rollupBalance = (\<lambda>_. 1000),
     we_pendingDeposit = (\<lambda>_ _. 100), we_now = 9, we_disablePipeline = False\<rparr>"

definition settledRollup :: rollupRow where
  "settledRollup = \<lparr>rw_id = 6, rw_dataRoot = zeros 32, rw_processRollupCalldata = None, rw_interactionResult = None,
     rw_ethTxHash = Some (TxHash [6]), rw_gasPrice = None, rw_gasUsed = None, rw_mined = Some 5, rw_subtreeRoot = None\<rparr>"

definition sampleWorld :: "txDao list \<Rightarrow> worldState" where
  "sampleWorld pool = \<lparr>ws_rollupDb = emptyRollupDb\<lparr>tb_rollup := [settledRollup], tb_tx := map (\<lambda>tx. \<lparr>tw_tx = tx, tw_rollupProof = None\<rparr>) pool\<rparr>,
     ws_trees = emptyDb, ws_pipeline = Stopped\<rparr>"

definition sampleBlock :: "buffer \<Rightarrow> block" where
  "sampleBlock enc = \<lparr>bl_txHash = TxHash [9], bl_mined = Some 11, bl_rollupId = 7, bl_rollupSize = 3, bl_encodedRollupProofData = enc,
     bl_offchainTxData = [zeros 292], bl_interactionResult = [], bl_gasUsed = 21000, bl_gasPrice = 1, bl_subtreeRoot = None\<rparr>"

lemma sampleWorld_next: "RollupDb_getNextRollupId (ws_rollupDb (sampleWorld pool)) = 7"
  by (simp add: sampleWorld_def settledRollup_def RollupDb_getNextRollupId_def latestSettled_def settledRows_def emptyRollupDb_def)

lemma sampleWorld_keys: "distinct (map td_id pool) \<Longrightarrow> keysHold (ws_rollupDb (sampleWorld pool))"
  by (auto simp: sampleWorld_def key_defs emptyRollupDb_def o_def)

lemma sample_foreign: "\<not> rollupIsOurs sampleWorldEnv sampleRollup (ws_trees s)"
proof -
  have "dbRoot (we_compress sampleWorldEnv) d DATA_TREE = zeros 32" for d
    by (simp add: dbRoot_def treeRoot_def sampleWorldEnv_def nodeHash_fixed treeDepth_def)
  moreover have "replicate 32 (1 :: byte) \<noteq> zeros 32" by (simp add: zeros_def eval_nat_numeral)
  ultimately show ?thesis by (simp only: rollupIsOurs_def sampleRollup_def rollupProofData.simps rollupHeader.simps) blast
qed

lemma sample_txIds:
  "RollupProofData_rollupHash (we_keccak sampleWorldEnv) (we_sha256 sampleWorldEnv) sampleRollup = Inr (replicate 32 8)"
  "getNonPaddingTxIds (we_keccak sampleWorldEnv) sampleRollup = Inr [replicate 32 6]"
  by (simp_all add: RollupProofData_rollupHash_def getNonPaddingTxIds_def getNonPaddingProofs_def sampleRollup_def sampleWorldEnv_def
      sampleProof_def newInnerProofData_def InnerProofData_PADDING_def InnerProofData_isPadding_def const_txId)

definition safeStep :: "'s step \<Rightarrow> bool" where
  "safeStep f \<longleftrightarrow> (\<forall>s. \<exists>s'. f s = (None, s'))"

lemma runSteps_safe: "\<forall>f\<in>set fs. safeStep f \<Longrightarrow> \<exists>s'. runSteps fs s = (None, s')"
proof (induction fs arbitrary: s)
  case (Cons f fs)
  have "\<exists>s1. f s = (None, s1)" using Cons.prems by (simp add: safeStep_def)
  then obtain s1 where "f s = (None, s1)" by blast
  moreover obtain s' where "runSteps fs s1 = (None, s')" using Cons by auto
  ultimately show ?case by (auto simp: runSteps_ok)
qed (simp add: runSteps_ok)

lemma putStep_safe: "length v = 32 \<Longrightarrow> safeStep (putStep t i v)"
  by (simp add: safeStep_def putStep_def onTrees_ok dbPut_def)

lemma length_oneBuffer: "length oneBuffer = 32"
  unfolding oneBuffer_def by (rule length_toBufferBE) simp_all

lemma rollupSteps_safe:
  assumes "\<And>d. length (dbRoot (we_compress env) d DATA_TREE) = 32" "\<forall>v\<in>set (rh_defiInteractionNotes r). length v = 32"
    and "\<forall>q\<in>set (rp_innerProofData r). length (ip_noteCommitment1 q) = 32 \<and> length (ip_noteCommitment2 q) = 32"
    and "f \<in> set (rollupSteps env r)"
  shows "safeStep f"
proof -
  have root: "safeStep (rootStep env i)" for i using assms(1) by (simp add: rootStep_def safeStep_def onTrees_ok dbPut_def)
  have q: "safeStep f" if f: "f \<in> set (proofSteps n (i, q))" and q: "q \<in> set (rp_innerProofData r)" for n i q
  proof -
    have "safeStep f" if "f \<in> set (nullifierSteps v)" for v
      using that putStep_safe [of oneBuffer] by (auto simp: nullifierSteps_def length_oneBuffer split: if_splits)
    then show ?thesis using f q assms(3) putStep_safe by (auto simp: proofSteps_def split: if_splits)
  qed
  have d: "safeStep f" if "f \<in> set (defiSteps n (rh_defiInteractionNotes r))" for n
    using that assms(2) putStep_safe by (auto simp: defiSteps_def in_set_enumerate_eq split: if_splits)
  show ?thesis using assms(4) root q d unfolding rollupSteps_def by (auto simp: in_set_enumerate_eq)
qed

lemma sample_added: "\<exists>s'. addRollupToWorldState sampleWorldEnv sampleRollup s = (None, s')"
proof -
  have "length (dbRoot (we_compress sampleWorldEnv) d DATA_TREE) = 32" for d
    by (simp add: dbRoot_def treeRoot_def sampleWorldEnv_def nodeHash_fixed treeDepth_def)
  then have "\<forall>f\<in>set (rollupSteps sampleWorldEnv sampleRollup @ [onTrees (\<lambda>d. Inr (wd_commit d))]). safeStep f"
    using rollupSteps_safe [of sampleWorldEnv sampleRollup]
    by (auto simp: sampleRollup_def sampleProof_def newInnerProofData_def InnerProofData_PADDING_def safeStep_def onTrees_ok)
  note run = runSteps_safe [OF this, of s]
  show ?thesis
  proof (cases "dbSize (ws_trees s) DATA_TREE > rh_dataStartIndex sampleRollup")
    case False
    show ?thesis unfolding addRollupToWorldState_steps if_not_P [OF False] by (rule run)
  qed (simp add: addRollupToWorldState_steps)
qed

lemma sample_claims:
  "processDefiProofs sampleWorldEnv sampleRollup (sampleBlock enc) 11 (ws_rollupDb (sampleWorld pool)) = Inr (ws_rollupDb (sampleWorld pool))"
  by (simp add: processDefiProofs_def sampleRollup_def sampleProof_def newInnerProofData_def InnerProofData_PADDING_def
      defiProof_step InnerProofData_isPadding_def sampleBlock_def RollupDb_addClaims_def RollupDb_confirmClaimed_def
      RollupDb_updateClaimsWithResultRollupId_def updateWhere_def sampleWorld_def emptyRollupDb_def)

lemma sample_defiDeposit: "isOk (getTotalDefiDeposit sampleRollup 1)"
proof -
  have "isOk (BridgeCallData_fromBuffer (zeros 32))" by code_simp
  then obtain b where "BridgeCallData_fromBuffer (zeros 32) = Inr b" by (auto simp: isOk_iff)
  then show ?thesis by (simp add: getTotalDefiDeposit_def sampleRollup_def zip_replicate eval_nat_numeral)
qed

lemma sample_metrics: "\<exists>ams. getAssetMetrics sampleWorldEnv db sampleRollup [] = Inr ams"
proof -
  have a: "metricsAssets sampleWorldEnv sampleRollup [] = [1]"
    by (simp add: metricsAssets_def sampleRollup_def sampleWorldEnv_def addToSet_def eval_nat_numeral)
  have "\<exists>v. getTotalDeposited sampleRollup 1 = Inr v" "\<exists>v. getTotalWithdrawn sampleRollup 1 = Inr v"
    by (simp_all add: getTotalDeposited_def getTotalWithdrawn_def totalPublic_def sampleRollup_def sampleProof_def newInnerProofData_def InnerProofData_PADDING_def
      RollupProof_assetId_def readUInt32BE_byteWord [of 1 "[]", unfolded byteWord_def, simplified])
  moreover obtain v where "getTotalDefiDeposit sampleRollup 1 = Inr v" using sample_defiDeposit by (auto simp: isOk_iff)
  moreover have "getTotalFees sampleRollup 1 = Some 3" by (simp add: getTotalFees_def sampleRollup_def eval_nat_numeral)
  ultimately show ?thesis by (auto simp: getAssetMetrics_def a assetMetricsFor_def Let_def)
qed

lemma sample_txDao:
  obtains tx where "blockTxs sampleWorldEnv sampleRollup [zeros 292] 11 = Inr [tx]" "td_id tx = replicate 32 6" "td_txType tx = TX_DEPOSIT"
    "td_nullifier1 tx = Some (replicate 32 3)" "td_nullifier2 tx = Some (replicate 32 4)"
proof -
  have "\<exists>pr. InnerProofData_toBuffer sampleProof = Inr pr"
    by (simp add: InnerProofData_toBuffer_def sampleProof_def newInnerProofData_def numToUInt32BE_def)
  then obtain pr where pr: "InnerProofData_toBuffer sampleProof = Inr pr" by blast
  have tx: "InnerProofData_txId (we_keccak sampleWorldEnv) sampleProof = Inr (replicate 32 6)"
    by (simp add: sampleWorldEnv_def const_txId sampleProof_def newInnerProofData_def)
  have p: "InnerProofData_isPadding InnerProofData_PADDING" "\<not> InnerProofData_isPadding sampleProof" "ip_proofId sampleProof = DEPOSIT"
    by (simp_all add: InnerProofData_PADDING_def InnerProofData_isPadding_def sampleProof_def newInnerProofData_def)
  have n: "ip_nullifier1 sampleProof = replicate 32 3" "ip_nullifier2 sampleProof = replicate 32 4"
    by (simp_all add: sampleProof_def newInnerProofData_def)
  have z: "toBigIntBE (replicate 32 3) \<noteq> 0" "toBigIntBE (replicate 32 4) \<noteq> 0" by code_simp+
  obtain tx where t: "innerProofDataToTxDao (we_keccak sampleWorldEnv) sampleProof (zeros 292) 11 (getTxTypeFromInnerProofData DEPOSIT) 1 = Inr tx"
    "td_id tx = replicate 32 6" "td_txType tx = TX_DEPOSIT" "td_nullifier1 tx = Some (replicate 32 3)" "td_nullifier2 tx = Some (replicate 32 4)"
    using pr tx z by (simp add: innerProofDataToTxDao_def n getTxTypeFromInnerProofData_def)
  show thesis
    by (rule that [OF _ t(2-5)]) (simp add: blockTxs_def sampleRollup_def blockTx_step p t(1) [simplified] indexE_def)
qed

lemma sample_kept:
  assumes enc: "RollupProofData_decode enc = Inr sampleRollup"
    and pool: "\<forall>tx\<in>set pool. td_nullifier1 tx \<noteq> Some (replicate 32 3) \<and> td_nullifier2 tx \<noteq> Some (replicate 32 4)"
  shows "\<exists>db'. confirmOrAddRollupToDb sampleWorldEnv sampleRollup (sampleBlock enc) 11 (replicate 32 8) (sampleWorld pool\<lparr>ws_trees := d\<rparr>)
    = (None, sampleWorld pool\<lparr>ws_trees := d, ws_rollupDb := db'\<rparr>) \<and> set (RollupDb_getPendingTxs None db') \<subseteq> set pool"
proof -
  let ?db = "ws_rollupDb (sampleWorld pool)" and ?root = "rollupSubtreeRoot sampleWorldEnv sampleRollup d"
  obtain ams where m: "getAssetMetrics sampleWorldEnv ?db sampleRollup [] = Inr ams" using sample_metrics by blast
  have u: "RollupDb_getRollupProof (we_keccak sampleWorldEnv) (replicate 32 8) ?db = Inr None"
    by (rule getRollupProof_unknown) (simp add: sampleWorld_def proofIds_def emptyRollupDb_def)
  obtain tx where tx: "blockTxs sampleWorldEnv sampleRollup [zeros 292] 11 = Inr [tx]" "td_id tx = replicate 32 6" "td_txType tx = TX_DEPOSIT"
    "td_nullifier1 tx = Some (replicate 32 3)" "td_nullifier2 tx = Some (replicate 32 4)" by (rule sample_txDao)
  obtain ir where "storedInteractionResult [] = Inr ir" by (simp add: storedInteractionResult_def serializeBufferArrayToVector_def)
  then obtain dao where dao: "foreignRollup sampleWorldEnv sampleRollup (sampleBlock enc) 11 (replicate 32 8) ?root ?db = Inr dao"
    using tx(1,3) by (simp add: foreignRollup_def sampleBlock_def getBridgeMetrics_def)
  note f = foreignRollup_fields [OF dao]
  have d: "rpd_txs (ro_rollupProof dao) = [tx]" "rpd_encodedProofData (ro_rollupProof dao) = enc" "ro_id dao = 7" "ro_dataRoot dao = replicate 32 1"
    using f tx(1) by (simp_all add: sampleBlock_def sampleRollup_def)
  have "InnerProofData_txId (we_keccak sampleWorldEnv) sampleProof = Inr (replicate 32 6)"
    by (simp add: sampleWorldEnv_def const_txId sampleProof_def newInnerProofData_def)
  moreover have "\<not> nullifiersClash (tx\<lparr>td_position := Some 1\<rparr>) (map (\<lambda>tx. \<lparr>tw_tx = tx, tw_rollupProof = None\<rparr>) pool)"
    using pool tx(4,5) by (auto simp: nullifiersClash_def list_ex_iff)
  moreover have "InnerProofData_isPadding InnerProofData_PADDING" "\<not> InnerProofData_isPadding sampleProof"
    by (simp_all add: InnerProofData_PADDING_def InnerProofData_isPadding_def sampleProof_def newInnerProofData_def)
  moreover have "replicate 32 (1::byte) \<noteq> zeros 32" by (simp add: zeros_def eval_nat_numeral)
  ultimately have "\<exists>db'. RollupDb_addRollup (we_keccak sampleWorldEnv) dao ?db = Inr db' \<and> tb_tx db'
      = upsertTx (rpd_id (ro_rollupProof dao)) (map (\<lambda>tx. \<lparr>tw_tx = tx, tw_rollupProof = None\<rparr>) pool) (tx\<lparr>td_position := Some 1\<rparr>)"
    using enc d tx(2,3) unfolding sampleRollup_def
    by (simp add: RollupDb_addRollup_def Let_def sampleWorld_def emptyRollupDb_def settledRollup_def deleteRollupsWhere_def
        deleteRollupProofsWhere_def insertRow_def rollupRowOf_def updateWhere_def addProofTxs_def o_def storeTx_def getNewAccountDaos_def)
  then obtain db' where a: "RollupDb_addRollup (we_keccak sampleWorldEnv) dao ?db = Inr db'" and rows: "tb_tx db'
      = upsertTx (rpd_id (ro_rollupProof dao)) (map (\<lambda>tx. \<lparr>tw_tx = tx, tw_rollupProof = None\<rparr>) pool) (tx\<lparr>td_position := Some 1\<rparr>)" by blast
  have "set (RollupDb_getPendingTxs None db') \<subseteq> set pool"
    by (auto simp: getPendingTxs_set rows upsertTx_def updateWhere_def split: if_splits)
  moreover have "bl_interactionResult (sampleBlock enc) = []" by (simp add: sampleBlock_def)
  ultimately show ?thesis using m u dao a
    by (intro exI [of _ db']) (simp add: confirmOrAddRollupToDb_def Let_def onDb_def stepE_def)
qed

lemma purge_transfers:
  assumes "\<forall>tx\<in>set (RollupDb_getPendingTxs None (ws_rollupDb s)). \<exists>p. proofOf tx = Inr p \<and> pd_proofId p \<noteq> DEPOSIT"
  shows "\<exists>s'. purgeInvalidTxs env s = (None, s')"
proof -
  have "\<exists>t. foldE (purgeStep env d) t0 txs = Inr t" if "\<forall>tx\<in>set txs. \<exists>p. proofOf tx = Inr p \<and> pd_proofId p \<noteq> DEPOSIT" for d t0 txs
    using that
  proof (induction txs arbitrary: t0)
    case (Cons tx txs)
    then obtain p where "newProofData (td_proofData tx) None = Inr p" "pd_proofId p \<noteq> DEPOSIT" by (auto simp: proofOf_def)
    then obtain t1 where "purgeStep env d t0 tx = Inr t1" by (fastforce simp: purgeStep_def)
    then show ?case using Cons by simp
  qed simp
  from this [OF assms] show ?thesis
    by (auto simp: purgeInvalidTxs_def onDb_ok WorldState_validateTxs_def bindE_eq_Inr mapR_eq_Inr)
qed

definition transferPool :: "txDao list" where
  "transferPool = [sampleTxDao TX_TRANSFER 2 7 0]"

lemma sample_applied:
  assumes enc: "RollupProofData_decode enc = Inr sampleRollup"
  shows "\<exists>s'. updateDbs sampleWorldEnv (sampleBlock enc) (sampleWorld transferPool) = (None, s')"
proof -
  let ?s = "sampleWorld transferPool" and ?env = sampleWorldEnv and ?b = "sampleBlock enc"
  obtain s1 where s1: "addRollupToWorldState ?env sampleRollup (?s\<lparr>ws_trees := wd_rollback (ws_trees ?s)\<rparr>) = (None, s1)" using sample_added by blast
  then obtain d where d: "s1 = ?s\<lparr>ws_trees := d\<rparr>" using addRollupToWorldState_ok by fastforce
  have "\<forall>tx\<in>set transferPool. td_nullifier1 tx \<noteq> Some (replicate 32 3) \<and> td_nullifier2 tx \<noteq> Some (replicate 32 4)"
    by (simp add: transferPool_def sampleTxDao_def)
  from sample_kept [OF enc this] obtain db' where db': "confirmOrAddRollupToDb ?env sampleRollup ?b 11 (replicate 32 8) (?s\<lparr>ws_trees := d\<rparr>)
    = (None, ?s\<lparr>ws_trees := d, ws_rollupDb := db'\<rparr>)" "set (RollupDb_getPendingTxs None db') \<subseteq> set transferPool" by blast
  have "\<exists>p. proofOf tx = Inr p \<and> pd_proofId p \<noteq> DEPOSIT" if "tx \<in> set transferPool" for tx
    using that sample_proof [of TX_TRANSFER 2 7 0] by (fastforce simp: transferPool_def)
  then have "\<exists>s'. purgeInvalidTxs ?env (?s\<lparr>ws_trees := d, ws_rollupDb := db'\<rparr>) = (None, s')"
    using db'(2) by (intro purge_transfers) auto
  then obtain s' where s': "purgeInvalidTxs ?env (?s\<lparr>ws_trees := d, ws_rollupDb := db'\<rparr>) = (None, s')" by blast
  have w: "?s\<lparr>ws_trees := d, ws_rollupDb := ws_rollupDb ?s\<rparr> = ?s\<lparr>ws_trees := d\<rparr>" by simp
  have "processRollup ?env sampleRollup ?b 11 (replicate 32 8) ?s = (None, s')"
    unfolding processRollup_def Let_def if_not_P [OF sample_foreign] append_Nil2 append_Cons append_Nil
    using s1 sample_claims [of enc transferPool] db'(1) s' by (auto simp: runSteps_ok onTrees_ok onDb_ok d w)
  moreover have "bl_encodedRollupProofData ?b = enc" "minedOf ?b = Inr 11" "rh_rollupId sampleRollup = RollupDb_getNextRollupId (ws_rollupDb ?s)"
    by (simp_all add: sampleBlock_def minedOf_def sampleWorld_next sampleRollup_def)
  ultimately show ?thesis by (intro exI [of _ s']) (simp add: updateDbs_def enc sample_txIds)
qed

section \<open>What the block does\<close>

theorem blocks_applied_in_order_witness:
  "\<exists>enc s'. updateDbs sampleWorldEnv (sampleBlock enc) (sampleWorld transferPool) = (None, s') \<and> RollupDb_getNextRollupId (ws_rollupDb s') = 8"
proof -
  obtain enc where enc: "RollupProofData_decode enc = Inr sampleRollup" using sampleRollup_encoded by blast
  obtain s' where s': "updateDbs sampleWorldEnv (sampleBlock enc) (sampleWorld transferPool) = (None, s')" using sample_applied [OF enc] by blast
  have e: "RollupProofData_decode (bl_encodedRollupProofData (sampleBlock enc)) = Inr sampleRollup" by (simp add: sampleBlock_def enc)
  have "RollupDb_getRollupProof (we_keccak sampleWorldEnv) h (ws_rollupDb (sampleWorld transferPool)) = Inr None" for h
    by (rule getRollupProof_unknown) (simp add: sampleWorld_def proofIds_def emptyRollupDb_def)
  then have "RollupDb_getNextRollupId (ws_rollupDb s') = 8"
    using blocks_applied_in_order [OF e s'] by (simp add: sampleWorld_next) (simp add: sampleRollup_def)
  with s' show ?thesis by blast
qed

theorem foreign_block_served_back_witness:
  "\<exists>enc s' dao b. updateDbs sampleWorldEnv (sampleBlock enc) (sampleWorld transferPool) = (None, s')
    \<and> RollupDb_getRollup 7 (ws_rollupDb s') = Inr (Some dao) \<and> rollupDaoToBlock dao = Inr b
    \<and> bl_encodedRollupProofData b = enc \<and> bl_offchainTxData b = [zeros 292]"
proof -
  obtain enc where enc: "RollupProofData_decode enc = Inr sampleRollup" using sampleRollup_encoded by blast
  obtain s' where s': "updateDbs sampleWorldEnv (sampleBlock enc) (sampleWorld transferPool) = (None, s')" using sample_applied [OF enc] by blast
  have e: "RollupProofData_decode (bl_encodedRollupProofData (sampleBlock enc)) = Inr sampleRollup" by (simp add: sampleBlock_def enc)
  have k: "keysHold (ws_rollupDb (sampleWorld transferPool))" by (rule sampleWorld_keys) (simp add: transferPool_def)
  have i: "rh_rollupId sampleRollup = 7" by (simp add: sampleRollup_def)
  then have n: "rh_rollupId sampleRollup = RollupDb_getNextRollupId (ws_rollupDb (sampleWorld transferPool))" by (simp add: sampleWorld_next)
  have "\<exists>dao. RollupDb_getRollup (rh_rollupId sampleRollup) (ws_rollupDb s') = Inr (Some dao) \<and> rollupDaoToBlock dao
      = Inr ((sampleBlock enc)\<lparr>bl_rollupId := rh_rollupId sampleRollup, bl_rollupSize := rh_rollupSize sampleRollup,
          bl_subtreeRoot := Some (rollupSubtreeRoot sampleWorldEnv sampleRollup (ws_trees s'))\<rparr>)"
    by (rule foreign_block_served_back [OF s' e n k _ sample_txIds(2)])
      (simp_all add: sampleWorld_def proofIds_def emptyRollupDb_def sampleBlock_def word32_def)
  then show ?thesis using s' unfolding i
    by (intro exI [of _ enc] exI [of _ s']) (auto simp: sampleBlock_def)
qed

theorem trees_follow_foreign_block_witness:
  "\<exists>enc s'. updateDbs sampleWorldEnv (sampleBlock enc) (sampleWorld transferPool) = (None, s')
    \<and> wt_leaf (wd_current (ws_trees s')) DATA_TREE 14 = replicate 32 1 \<and> wt_leaf (wd_current (ws_trees s')) DATA_TREE 15 = replicate 32 2"
proof -
  obtain enc where enc: "RollupProofData_decode enc = Inr sampleRollup" using sampleRollup_encoded by blast
  obtain s' where s': "updateDbs sampleWorldEnv (sampleBlock enc) (sampleWorld transferPool) = (None, s')" using sample_applied [OF enc] by blast
  have e: "RollupProofData_decode (bl_encodedRollupProofData (sampleBlock enc)) = Inr sampleRollup" by (simp add: sampleBlock_def enc)
  have i: "rh_rollupId sampleRollup = 7" "rh_dataStartIndex sampleRollup = 12" "length (rp_innerProofData sampleRollup) = 3"
    "ip_noteCommitment1 (rp_innerProofData sampleRollup ! 1) = replicate 32 1" "ip_noteCommitment2 (rp_innerProofData sampleRollup ! 1) = replicate 32 2"
    by (simp_all add: sampleRollup_def sampleProof_def newInnerProofData_def)
  have "wt_size (wd_committed (ws_trees (sampleWorld transferPool))) DATA_TREE \<le> rh_dataStartIndex sampleRollup"
    by (simp add: sampleWorld_def emptyDb_def Let_def i)
  from trees_follow_foreign_block [OF s' e _ sample_foreign this] have "\<forall>j<3.
      wt_leaf (wd_current (ws_trees s')) DATA_TREE (12 + 2 * j) = ip_noteCommitment1 (rp_innerProofData sampleRollup ! j)
      \<and> wt_leaf (wd_current (ws_trees s')) DATA_TREE (12 + 2 * j + 1) = ip_noteCommitment2 (rp_innerProofData sampleRollup ! j)"
    unfolding i sampleWorld_next by simp
  from spec [OF this, of 1] have "wt_leaf (wd_current (ws_trees s')) DATA_TREE 14 = replicate 32 1" "wt_leaf (wd_current (ws_trees s')) DATA_TREE 15 = replicate 32 2"
    using i(4,5) by simp_all
  with s' show ?thesis by blast
qed

section \<open>A pool to purge\<close>

text \<open>A transfer whose note is spent, one that is linked to it, and a deposit.\<close>

definition poolTx :: "byte \<Rightarrow> byte \<Rightarrow> byte \<Rightarrow> txDao" where
  "poolTx proofId commitment link = (sampleDao commitment)\<lparr>td_proofData := concat (sampleFields proofId commitment link 3 0)\<rparr>"

definition spentPool :: "txDao list" where
  "spentPool = [poolTx 3 7 0, poolTx 3 9 7, poolTx 1 20 0]"

definition spentTrees :: worldDb where
  "spentTrees = wd_put \<lparr>pe_treeId = NULL_TREE, pe_index = 107, pe_value = oneBuffer\<rparr> emptyDb"

lemma poolTx_proof: "newProofData (td_proofData (poolTx a c l)) None = Inr (sampleClientProof a c l 3 0)" "td_id (poolTx a c l) = byteWord c"
  by (simp_all add: poolTx_def sample_built sampleDao_def)

lemma toBigInt_byteWord: "toBigIntBE (byteWord b) = uint b"
  by (simp add: toBigIntBE_be_value byteWord_def zeros_def eval_nat_numeral be_value_def)

lemma spentTrees_get: "dbGet spentTrees NULL_TREE n = (if nat n = 107 then oneBuffer else zeros 32)"
  by (simp add: spentTrees_def dbGet_def wd_put_def treeUpdate_def emptyDb_def Let_def)

lemma spent_notes: "spendsSpentNote spentTrees (sampleClientProof 3 7 0 3 0)" "\<not> spendsSpentNote spentTrees (sampleClientProof 1 20 0 3 0)"
proof -
  have "zeros 32 \<noteq> oneBuffer" unfolding oneBuffer_def by code_simp
  moreover have "toBigIntBE (zeros 32) = 0" by (simp add: byteWord_zeros toBigInt_byteWord)
  ultimately show "spendsSpentNote spentTrees (sampleClientProof 3 7 0 3 0)" "\<not> spendsSpentNote spentTrees (sampleClientProof 1 20 0 3 0)"
    by (simp_all add: spendsSpentNote_def sample_fields toBigInt_byteWord spentTrees_get)
qed

lemma purge_spent:
  "purgeStep sampleWorldEnv spentTrees s (poolTx 3 7 0) = Inr (purgeTx (sampleClientProof 3 7 0 3 0) (poolTx 3 7 0) s)"
  by (simp add: purgeStep_def poolTx_proof spent_notes)

lemma purge_linked:
  "byteWord 7 \<in> set (pg_discarded s)
    \<Longrightarrow> purgeStep sampleWorldEnv spentTrees s (poolTx 3 9 7) = Inr (purgeTx (sampleClientProof 3 9 7 3 0) (poolTx 3 9 7) s)"
  by (simp add: purgeStep_def poolTx_proof sample_fields)

lemma keep_deposit:
  assumes "byteWord 0 \<notin> set (pg_discarded s)" "pg_deposits s = []"
  shows "\<exists>ds. purgeStep sampleWorldEnv spentTrees s (poolTx 1 20 0) = Inr (s\<lparr>pg_deposits := ds\<rparr>)"
proof -
  let ?p = "sampleClientProof 1 20 0 3 0"
  obtain a where "JoinSplit_publicOwner ?p = Inr a" by (auto simp: JoinSplit_publicOwner_def sample_fields newEthAddress_def)
  moreover have "JoinSplit_publicAssetId ?p = Inr 0" "JoinSplit_publicValue ?p = 5"
    by (simp_all add: JoinSplit_publicAssetId_def JoinSplit_publicValue_def sample_fields toBigInt_byteWord readUInt32BE_def bslice_def)
  ultimately show ?thesis using assms spent_notes
    by (auto simp: purgeStep_def poolTx_proof sample_fields purgeDeposit_def depositEntry_def sampleWorldEnv_def Let_def)
qed

lemma spentPool_pending: "RollupDb_getPendingTxs None (ws_rollupDb (sampleWorld spentPool)) = spentPool"
  by (simp add: RollupDb_getPendingTxs_def takeOpt_def pendingRows_def sampleWorld_def spentPool_def poolTx_def sampleDao_def)

theorem purged_pool_is_valid_witness:
  "\<exists>s'. purgeInvalidTxs sampleWorldEnv (sampleWorld spentPool\<lparr>ws_trees := spentTrees\<rparr>) = (None, s')
    \<and> RollupDb_getPendingTxs None (ws_rollupDb s') = [poolTx 1 20 0]
    \<and> (\<exists>a. depositTotal a 0 (poolDeposits [poolTx 1 20 0]) \<le> 100 \<and> JoinSplit_publicOwner (sampleClientProof 1 20 0 3 0) = Inr a)"
proof -
  let ?s = "sampleWorld spentPool\<lparr>ws_trees := spentTrees\<rparr>" and ?t0 = "\<lparr>pg_discarded = [], pg_txsToPurge = [], pg_deposits = []\<rparr>"
  let ?t2 = "purgeTx (sampleClientProof 3 9 7 3 0) (poolTx 3 9 7) (purgeTx (sampleClientProof 3 7 0 3 0) (poolTx 3 7 0) ?t0)"
  have d: "byteWord 7 \<in> set (pg_discarded (purgeTx (sampleClientProof 3 7 0 3 0) (poolTx 3 7 0) ?t0))"
    "byteWord 0 \<notin> set (pg_discarded ?t2)" "pg_deposits ?t2 = []" "pg_txsToPurge ?t2 = [poolTx 3 7 0, poolTx 3 9 7]"
    by (simp_all add: purgeTx_def sample_fields byteWord_inj)
  obtain ds where "foldE (purgeStep sampleWorldEnv spentTrees) ?t0 spentPool = Inr (?t2\<lparr>pg_deposits := ds\<rparr>)"
    using keep_deposit [OF d(2,3)] unfolding spentPool_def by (auto simp: purge_spent purge_linked [OF d(1)])
  then have "WorldState_validateTxs sampleWorldEnv spentTrees spentPool = Inr [byteWord 7, byteWord 9]"
    by (simp add: WorldState_validateTxs_def d(4) poolTx_proof)
  then obtain s' where s': "purgeInvalidTxs sampleWorldEnv ?s = (None, s')"
    "s' = ?s\<lparr>ws_rollupDb := RollupDb_deleteTxsById [byteWord 7, byteWord 9] (ws_rollupDb ?s)\<rparr>"
    by (simp add: purgeInvalidTxs_def onDb_def stepE_def spentPool_pending)
  have "RollupDb_getPendingTxs None (ws_rollupDb s') = filter (\<lambda>tx. td_id tx \<notin> set [byteWord 7, byteWord 9]) spentPool"
    by (simp add: s'(2) pending_after_purge spentPool_pending)
  then have left: "RollupDb_getPendingTxs None (ws_rollupDb s') = [poolTx 1 20 0]" by (simp add: spentPool_def poolTx_proof byteWord_inj)
  have "keysHold (ws_rollupDb ?s)" using sampleWorld_keys [of spentPool] by (simp add: spentPool_def poolTx_proof byteWord_inj)
  from purged_pool_is_valid [OF s'(1) this] left
  have "\<forall>p\<in>set (poolDeposits [poolTx 1 20 0]). \<exists>a i. JoinSplit_publicOwner p = Inr a \<and> JoinSplit_publicAssetId p = Inr i
         \<and> depositTotal a i (poolDeposits [poolTx 1 20 0]) \<le> we_pendingDeposit sampleWorldEnv i a" by simp
  moreover have "sampleClientProof 1 20 0 3 0 \<in> set (poolDeposits [poolTx 1 20 0])"
    by (simp add: poolDeposits_def unsettledProofs_def proofOf_def poolTx_proof sample_fields)
  moreover have "JoinSplit_publicAssetId (sampleClientProof 1 20 0 3 0) = Inr 0"
    by (simp add: JoinSplit_publicAssetId_def sample_fields readUInt32BE_def bslice_def)
  ultimately obtain a where "JoinSplit_publicOwner (sampleClientProof 1 20 0 3 0) = Inr a"
    "depositTotal a 0 (poolDeposits [poolTx 1 20 0]) \<le> we_pendingDeposit sampleWorldEnv 0 a" by force
  then show ?thesis using s'(1) left by (auto simp: sampleWorldEnv_def)
qed

section \<open>A block that the pool makes unprocessable\<close>

definition conflictingPool :: "txDao list" where
  "conflictingPool = [(sampleDao 7)\<lparr>td_nullifier1 := Some (replicate 32 3)\<rparr>]"

theorem conflicting_tx_blocks_block_witness:
  "\<exists>enc e s'. updateDbs sampleWorldEnv (sampleBlock enc) (sampleWorld conflictingPool) = (Some e, s')"
proof -
  obtain enc where enc: "RollupProofData_decode enc = Inr sampleRollup" using sampleRollup_encoded by blast
  have e: "RollupProofData_decode (bl_encodedRollupProofData (sampleBlock enc)) = Inr sampleRollup" by (simp add: sampleBlock_def enc)
  have n: "rh_rollupId sampleRollup = RollupDb_getNextRollupId (ws_rollupDb (sampleWorld conflictingPool))"
    by (simp add: sampleWorld_next) (simp add: sampleRollup_def)
  have w: "\<lparr>tw_tx = (sampleDao 7)\<lparr>td_nullifier1 := Some (replicate 32 3)\<rparr>, tw_rollupProof = None\<rparr> \<in> set (tb_tx (ws_rollupDb (sampleWorld conflictingPool)))"
    by (simp add: sampleWorld_def conflictingPool_def)
  have q: "sampleProof \<in> set (getNonPaddingProofs sampleRollup)"
    by (simp add: getNonPaddingProofs_def sampleRollup_def sampleProof_def newInnerProofData_def InnerProofData_PADDING_def InnerProofData_isPadding_def)
  have nu: "ip_nullifier1 sampleProof = replicate 32 3" by (simp add: sampleProof_def newInnerProofData_def)
  have "byteWord 7 \<noteq> replicate 32 6" by (simp add: byteWord_def zeros_def eval_nat_numeral)
  moreover have "toBigIntBE (ip_nullifier1 sampleProof) \<noteq> 0" unfolding nu by code_simp
  ultimately have "fst (updateDbs sampleWorldEnv (sampleBlock enc) (sampleWorld conflictingPool)) \<noteq> None"
    by (intro conflicting_tx_blocks_block [where second = False, OF e n _ sample_txIds(2) _ w _ _ q])
      (simp_all add: nullifierColumn_def proofNullifier_def nu sampleDao_def sampleWorld_def proofIds_def emptyRollupDb_def)
  then show ?thesis by (metis not_None_eq prod.collapse)
qed

section \<open>A block with a claim to open\<close>

definition sampleDeposit :: offchainDefiDepositData where
  "sampleDeposit = \<lparr>odd_bridgeCallData = BridgeCallData_ZERO, odd_partialState = zeros 32,
     odd_partialStateSecretEphPubKey = GrumpkinAddress_ZERO, odd_depositValue = 10, odd_txFee = 3,
     odd_viewingKey = ViewingKey (zeros 144), odd_txRefNo = 3\<rparr>"

definition depositRollup :: rollupProofData where
  "depositRollup = sampleRollup\<lparr>rp_innerProofData := [InnerProofData_PADDING, sampleProof\<lparr>ip_proofId := DEFI_DEPOSIT\<rparr>]\<rparr>"

theorem deposits_become_claims_witness:
  "\<exists>o1 db' c. processDefiProofs sampleWorldEnv depositRollup ((sampleBlock [])\<lparr>bl_offchainTxData := [o1]\<rparr>) 11 emptyRollupDb = Inr db'
    \<and> c \<in> set (tb_claim db') \<and> cd_id c = 14 \<and> cd_interactionNonce c = 224 \<and> cd_depositValue c = 10 \<and> cd_fee c = 2"
proof -
  have "valid_bridgeCallData BridgeCallData_ZERO"
    by (simp add: valid_bridgeCallData_def BridgeCallData_ZERO_def newBridgeCallData_def)
  then have "valid_offchainDefiDepositData sampleDeposit"
    by (simp_all add: sampleDeposit_def valid_offchainDefiDepositData_def GrumpkinAddress_ZERO_def word32_def u32_def)
  then obtain o1 where "length o1 = 340" "OffchainDefiDepositData_fromBuffer (bslice o1 0 340) = Inr sampleDeposit"
    using offchain_defi_deposit_codec.roundtrip by blast
  then have o1: "OffchainDefiDepositData_fromBuffer o1 = Inr sampleDeposit" by simp
  let ?q = "sampleProof\<lparr>ip_proofId := DEFI_DEPOSIT\<rparr>" and ?b = "(sampleBlock [])\<lparr>bl_offchainTxData := [o1]\<rparr>"
  have pad: "InnerProofData_isPadding InnerProofData_PADDING" "\<not> InnerProofData_isPadding ?q"
    by (simp_all add: InnerProofData_PADDING_def InnerProofData_isPadding_def sampleProof_def newInnerProofData_def)
  have zb: "BridgeCallData_toBuffer BridgeCallData_ZERO = zeros 32" by code_simp
  have slot: "findIndex (\<lambda>bridge. bridge = BridgeCallData_toBuffer BridgeCallData_ZERO) (replicate 32 (zeros 32)) = Some 0"
    by (simp add: zb numeral_eq_Suc replicate_Suc)
  have ev: "\<exists>c. claimOf sampleWorldEnv depositRollup 1 ?q o1 = Inr c"
    using slot by (simp add: claimOf_def o1 Let_def)
  have ps: "rp_innerProofData depositRollup = [InnerProofData_PADDING, ?q]" by (simp add: depositRollup_def)
  have "\<exists>db'. processDefiProofs sampleWorldEnv depositRollup ?b 11 emptyRollupDb = Inr db'"
    using ev by (auto simp: processDefiProofs_def ps defiProof_step pad indexE_def RollupDb_addClaims_def saveClaim_def emptyRollupDb_def)
  then obtain db' where db': "processDefiProofs sampleWorldEnv depositRollup ?b 11 emptyRollupDb = Inr db'" by blast
  have f: "OffchainDefiDepositData_fromBuffer (bl_offchainTxData ?b ! paddingFree (take 1 (rp_innerProofData depositRollup))) = Inr sampleDeposit"
    "rp_innerProofData depositRollup ! 1 = ?q" "ip_proofId ?q = DEFI_DEPOSIT" "1 < length (rp_innerProofData depositRollup)"
    using o1 by (simp_all add: ps paddingFree_def pad)
  have k: "0 < length (rh_bridgeCallDatas depositRollup)" "rh_bridgeCallDatas depositRollup ! 0 = BridgeCallData_toBuffer (odd_bridgeCallData sampleDeposit)"
    by (simp_all add: depositRollup_def sampleRollup_def sampleDeposit_def zb)
  obtain c where "c \<in> set (tb_claim db')" "cd_id c = rh_dataStartIndex depositRollup + 2" "cd_depositValue c = odd_depositValue sampleDeposit"
    "cd_fee c = odd_txFee sampleDeposit - odd_txFee sampleDeposit div 2"
    "cd_interactionNonce c = rh_rollupId depositRollup * int NUM_BRIDGE_CALLS_PER_BLOCK"
    using deposits_become_claims [OF db', THEN conjunct1, rule_format, OF f(4)] f(1-3) k by (auto elim!: allE [of _ "0 :: nat"])
  then show ?thesis using db'
    by (intro exI [of _ o1] exI [of _ db'] exI [of _ c]) (simp add: sampleDeposit_def depositRollup_def sampleRollup_def NUM_BRIDGE_CALLS_PER_BLOCK_def)
qed

end
