(* ===== verification/NotePicker.thy ===== *)
theory NotePicker
  imports Notes "HOL-Library.Product_Lexorder" "HOL-Library.Multiset"
begin

text \<open>
  The notes of the client's wallet and the picker that chooses which to spend (\<open>sdk/src/note/note.ts\<close>,
  \<open>sdk/src/note_picker/index.ts\<close>). \<open>includes\<close> compares the buffers of nullifiers by identity, which is here equality of the bytes: no two
  notes of a picker have the same nullifier.
\<close>

section \<open>Notes\<close>

record userNote =
  nt_treeNote :: treeNote
  nt_commitment :: buffer
  nt_nullifier :: buffer
  nt_allowChain :: bool
  nt_nullified :: bool
  nt_index :: "int option"
  nt_hashPath :: "buffer option"

definition Note_assetId :: "userNote \<Rightarrow> int" where
  "Note_assetId n = tn_assetId (nt_treeNote n)"

definition Note_value :: "userNote \<Rightarrow> int" where
  "Note_value n = tn_value (nt_treeNote n)"

definition Note_owner :: "userNote \<Rightarrow> grumpkinAddress" where
  "Note_owner n = tn_ownerPubKey (nt_treeNote n)"

definition Note_ownerAccountRequired :: "userNote \<Rightarrow> bool" where
  "Note_ownerAccountRequired n = tn_accountRequired (nt_treeNote n)"

definition Note_pending :: "userNote \<Rightarrow> bool" where
  "Note_pending n \<longleftrightarrow> nt_index n = None"

definition noteSum :: "userNote list \<Rightarrow> int" where
  "noteSum notes = foldl (\<lambda>sum n. sum + Note_value n) 0 notes"

section \<open>The picker\<close>

record notePickerOptions =
  np_excludedNullifiers :: "buffer list"
  np_excludePendingNotes :: bool
  np_spendingKeyRequired :: bool

record notePicker =
  np_pendingAreLower :: "userNote list"
  np_pendingAreHigher :: "userNote list"

definition sortNotes :: "userNote list \<Rightarrow> bool \<Rightarrow> userNote list" where
  "sortNotes notes pendingAreLower = sort_key (\<lambda>n. (Note_value n, if Note_pending n = pendingAreLower then 0 else 1 :: nat)) notes"

definition newNotePicker :: "userNote list \<Rightarrow> notePicker" where
  "newNotePicker notes = (let validNotes = filter (\<lambda>n. \<not> Note_pending n \<or> nt_allowChain n) notes
     in \<lparr>np_pendingAreLower = sortNotes validNotes True, np_pendingAreHigher = sortNotes validNotes False\<rparr>)"

definition getSortedNotes :: "bool \<Rightarrow> notePicker \<Rightarrow> userNote list" where
  "getSortedNotes pendingAreLower p = (if pendingAreLower then np_pendingAreLower p else np_pendingAreHigher p)"

definition filterByOptions :: "notePickerOptions \<Rightarrow> userNote list \<Rightarrow> userNote list" where
  "filterByOptions opts = filter (\<lambda>n. nt_nullifier n \<notin> set (np_excludedNullifiers opts)
     \<and> (\<not> np_excludePendingNotes opts \<or> \<not> Note_pending n)
     \<and> (if np_spendingKeyRequired opts then Note_ownerAccountRequired n else \<not> Note_ownerAccountRequired n))"

text \<open>The loop goes down from the last index.\<close>

fun findMinimumFrom :: "int \<Rightarrow> nat \<Rightarrow> int \<Rightarrow> bool \<Rightarrow> userNote list \<Rightarrow> nat" where
  "findMinimumFrom value minimumNotes accumulatedValue hasPendingNote [] = 0"
| "findMinimumFrom value minimumNotes accumulatedValue hasPendingNote (n # ns) =
    (if \<not> Note_pending n \<or> \<not> hasPendingNote
     then let minimumNotes = minimumNotes + 1; accumulatedValue = accumulatedValue + Note_value n;
              hasPendingNote = hasPendingNote \<or> Note_pending n
          in if accumulatedValue \<ge> value then minimumNotes
             else findMinimumFrom value minimumNotes accumulatedValue hasPendingNote ns
     else findMinimumFrom value minimumNotes accumulatedValue hasPendingNote ns)"

definition findMinimumNotes :: "int \<Rightarrow> userNote list \<Rightarrow> nat" where
  "findMinimumNotes value notes = findMinimumFrom value 0 0 False (rev notes)"

fun takeSpendable :: "nat option \<Rightarrow> bool \<Rightarrow> userNote list \<Rightarrow> userNote list \<Rightarrow> userNote list" where
  "takeSpendable numNotes hasPendingNote notes [] = notes"
| "takeSpendable numNotes hasPendingNote notes (n # ns) =
    (let push = \<not> Note_pending n \<or> \<not> hasPendingNote;
         notes = (if push then notes @ [n] else notes);
         hasPendingNote = (if push then hasPendingNote \<or> Note_pending n else hasPendingNote)
     in if numNotes = Some (length notes) then notes else takeSpendable numNotes hasPendingNote notes ns)"

definition getMaxSpendableNotes :: "notePickerOptions \<Rightarrow> nat option \<Rightarrow> notePicker \<Rightarrow> userNote list" where
  "getMaxSpendableNotes opts numNotes p = takeSpendable numNotes False [] (rev (filterByOptions opts (getSortedNotes True p)))"

fun improveNotes :: "userNote list \<Rightarrow> int \<Rightarrow> nat list \<Rightarrow> userNote list \<Rightarrow> userNote list" where
  "improveNotes available targetValue [] picked = picked"
| "improveNotes available targetValue (i # is) picked =
    (let noteToImprove = picked ! i;
         excessValue = noteSum picked - targetValue;
         usedNullifiers = map nt_nullifier picked;
         unusedNotes = filter (\<lambda>n. nt_nullifier n \<notin> set usedNullifiers) available;
         hasPending = list_ex Note_pending picked;
         minimumValue = Note_value noteToImprove - excessValue
     in case find (\<lambda>n. Note_value n \<ge> minimumValue \<and> Note_value n < Note_value noteToImprove
                     \<and> (\<not> Note_pending n \<or> \<not> hasPending \<or> Note_pending noteToImprove)) unusedNotes of
          None \<Rightarrow> picked
        | Some betterNote \<Rightarrow> improveNotes available targetValue is (picked[i := betterNote]))"

definition reducePickedNotesValues :: "userNote list \<Rightarrow> int \<Rightarrow> notePickerOptions \<Rightarrow> notePicker \<Rightarrow> userNote list" where
  "reducePickedNotesValues selectionToImprove targetValue opts p =
     improveNotes (filterByOptions opts (getSortedNotes False p)) targetValue [0..<length selectionToImprove] selectionToImprove"

definition NotePicker_pick :: "int \<Rightarrow> notePickerOptions \<Rightarrow> notePicker \<Rightarrow> userNote list" where
  "NotePicker_pick value opts p =
    (let filteredNotes = filterByOptions opts (getSortedNotes True p);
         minimumNumberOfNotes = findMinimumNotes value filteredNotes
     in if minimumNumberOfNotes = 0 then []
        else let minimumNumberOfNotes = (if minimumNumberOfNotes = 1 then 2 else minimumNumberOfNotes);
                 pickedNotes = rev (getMaxSpendableNotes opts (Some minimumNumberOfNotes) p);
                 pickedNotes = reducePickedNotesValues pickedNotes value opts p
             in case find (\<lambda>n. Note_value n = value) pickedNotes of
                  Some exactNoteMatch \<Rightarrow> [exactNoteMatch]
                | None \<Rightarrow> pickedNotes)"

definition NotePicker_pickOne :: "int \<Rightarrow> notePickerOptions \<Rightarrow> notePicker \<Rightarrow> userNote option" where
  "NotePicker_pickOne value opts p = find (\<lambda>n. Note_value n \<ge> value) (filterByOptions opts (getSortedNotes False p))"

definition NotePicker_getSum :: "notePicker \<Rightarrow> int" where
  "NotePicker_getSum p = noteSum (filter (\<lambda>n. \<not> Note_pending n) (getSortedNotes False p))"

definition NotePicker_getSpendableNoteValues :: "notePickerOptions \<Rightarrow> notePicker \<Rightarrow> int list" where
  "NotePicker_getSpendableNoteValues opts p = map Note_value (filterByOptions opts (getSortedNotes True p))"

definition NotePicker_getMaxSpendableNoteValues :: "notePickerOptions \<Rightarrow> nat option \<Rightarrow> notePicker \<Rightarrow> int list" where
  "NotePicker_getMaxSpendableNoteValues opts numNotes p = map Note_value (getMaxSpendableNotes opts numNotes p)"

section \<open>What can be spent together\<close>

text \<open>The notes that may be chosen under given options, and the selections the circuit takes: at most one of the notes is pending.\<close>

definition usableNote :: "notePickerOptions \<Rightarrow> userNote \<Rightarrow> bool" where
  "usableNote opts n \<longleftrightarrow> (Note_pending n \<longrightarrow> nt_allowChain n \<and> \<not> np_excludePendingNotes opts) \<and> nt_nullifier n \<notin> set (np_excludedNullifiers opts)
     \<and> Note_ownerAccountRequired n = np_spendingKeyRequired opts"

definition canSpend :: "notePickerOptions \<Rightarrow> userNote list \<Rightarrow> userNote list \<Rightarrow> bool" where
  "canSpend opts notes ns \<longleftrightarrow> distinct ns \<and> (\<forall>n\<in>set ns. n \<in> set notes \<and> usableNote opts n) \<and> length (filter Note_pending ns) \<le> 1"

lemma noteSum_eq: "noteSum ns = sum_list (map Note_value ns)"
proof -
  have "foldl (\<lambda>sum n. sum + Note_value n) a ns = a + sum_list (map Note_value ns)" for a by (induction ns arbitrary: a) simp_all
  then show ?thesis by (simp add: noteSum_def)
qed

lemma sortNotes_set [simp]: "set (sortNotes ns b) = set ns" "distinct (map f (sortNotes ns b)) = distinct (map f ns)"
proof -
  have m: "mset (sortNotes ns b) = mset ns" by (simp add: sortNotes_def)
  then show "set (sortNotes ns b) = set ns" by (metis set_mset_mset)
  from m have "mset (map f (sortNotes ns b)) = mset (map f ns)" by simp
  then show "distinct (map f (sortNotes ns b)) = distinct (map f ns)" by (metis mset_eq_imp_distinct_iff)
qed

lemma sortNotes_sorted: "sorted (map Note_value (sortNotes ns b))"
proof -
  have "sorted (map (\<lambda>n. (Note_value n, if Note_pending n = b then 0 else 1 :: nat)) (sortNotes ns b))" by (simp add: sortNotes_def)
  then show ?thesis unfolding sorted_map by (rule sorted_wrt_mono_rel [rotated]) (auto simp: less_eq_prod_def)
qed

lemma filterByOptions_set:
  "set (filterByOptions opts (getSortedNotes b (newNotePicker notes))) = {n \<in> set notes. usableNote opts n}"
  by (auto simp: filterByOptions_def getSortedNotes_def newNotePicker_def Let_def usableNote_def)

lemma filterByOptions_distinct:
  assumes "distinct (map nt_nullifier notes)"
  shows "distinct (map nt_nullifier (filterByOptions opts (getSortedNotes b (newNotePicker notes))))"
  using assms by (simp add: filterByOptions_def getSortedNotes_def newNotePicker_def Let_def distinct_map_filter)

lemma filterByOptions_sorted: "sorted (map Note_value (filterByOptions opts (getSortedNotes b (newNotePicker notes))))"
  by (simp add: filterByOptions_def getSortedNotes_def newNotePicker_def Let_def sorted_filter sortNotes_sorted)

section \<open>The best selection\<close>

text \<open>The notes without the pending ones behind the first.\<close>

fun onePending :: "bool \<Rightarrow> userNote list \<Rightarrow> userNote list" where
  "onePending h [] = []"
| "onePending h (n # ns) = (if \<not> Note_pending n \<or> \<not> h then n # onePending (h \<or> Note_pending n) ns else onePending h ns)"

lemma takeSpendable_Some: "length acc < k \<Longrightarrow> takeSpendable (Some k) h acc ns = acc @ take (k - length acc) (onePending h ns)"
proof (induction ns arbitrary: h acc)
  case (Cons n ns)
  show ?case
  proof (cases "\<not> Note_pending n \<or> \<not> h")
    case True
    have e: "k - length acc = Suc (k - Suc (length acc))" using Cons.prems by simp
    show ?thesis using True Cons.prems Cons.IH [of "acc @ [n]" "h \<or> Note_pending n"] unfolding e
      by (cases "k = Suc (length acc)") (auto simp: Let_def)
  qed (use Cons in \<open>auto simp: Let_def\<close>)
qed simp

lemma findMinimum_spec:
  defines "S ns \<equiv> sum_list (map Note_value ns)"
  shows "(findMinimumFrom v m a h ns = 0 \<and> (\<forall>j. 1 \<le> j \<and> j \<le> length (onePending h ns) \<longrightarrow> a + S (take j (onePending h ns)) < v))
    \<or> (\<exists>j. 1 \<le> j \<and> j \<le> length (onePending h ns) \<and> findMinimumFrom v m a h ns = m + j \<and> v \<le> a + S (take j (onePending h ns))
        \<and> (\<forall>i. 1 \<le> i \<and> i < j \<longrightarrow> a + S (take i (onePending h ns)) < v))"
proof (induction ns arbitrary: m a h)
  case (Cons n ns)
  show ?case
  proof (cases "\<not> Note_pending n \<or> \<not> h")
    case True
    let ?M = "onePending (h \<or> Note_pending n) ns" and ?a = "a + Note_value n"
    have o: "onePending h (n # ns) = n # ?M" using True by simp
    have S: "a + S (take (Suc j) (n # ?M)) = ?a + S (take j ?M)" for j by (simp add: S_def)
    show ?thesis
    proof (cases "v \<le> ?a")
      case v: True
      have "findMinimumFrom v m a h (n # ns) = m + 1" using True v by (auto simp: Let_def)
      moreover have "v \<le> a + S (take 1 (n # ?M))" using v by (simp add: S_def)
      ultimately show ?thesis unfolding o by (intro disjI2 exI [of _ 1]) auto
    next
      case v: False
      have f: "findMinimumFrom v m a h (n # ns) = findMinimumFrom v (m + 1) ?a (h \<or> Note_pending n) ns" using True v by (auto simp: Let_def)
      have less: "a + S (take i (n # ?M)) < v" if "1 \<le> i" "\<And>j. i = Suc j \<Longrightarrow> 1 \<le> j \<Longrightarrow> ?a + S (take j ?M) < v" for i
        using that v by (cases i; cases "i - 1") (auto simp: S_def)
      from Cons.IH [of "m + 1" ?a "h \<or> Note_pending n"] show ?thesis
      proof (elim disjE exE conjE)
        assume "findMinimumFrom v (m + 1) ?a (h \<or> Note_pending n) ns = 0"
          and "\<forall>j. 1 \<le> j \<and> j \<le> length ?M \<longrightarrow> ?a + S (take j ?M) < v"
        then show ?thesis unfolding f o using less by (intro disjI1) auto
      next
        fix j assume j: "1 \<le> j" "j \<le> length ?M" "findMinimumFrom v (m + 1) ?a (h \<or> Note_pending n) ns = m + 1 + j" "v \<le> ?a + S (take j ?M)"
          "\<forall>i. 1 \<le> i \<and> i < j \<longrightarrow> ?a + S (take i ?M) < v"
        then show ?thesis unfolding f o using less S by (intro disjI2 exI [of _ "Suc j"]) auto
      qed
    qed
  next
    case False
    then show ?thesis using Cons.IH [of m a h] by simp
  qed
qed simp

lemma top_sum:
  fixes f :: "'a \<Rightarrow> int"
  assumes "sorted_wrt (\<lambda>a b. f b \<le> f a) M" "T \<subseteq> set M"
  shows "sum f T \<le> sum_list (map f (take (card T) M))"
  using assms
proof (induction M arbitrary: T)
  case (Cons x M)
  have fin: "finite T" using Cons.prems(2) finite_subset by blast
  show ?case
  proof (cases "T = {}")
    case False
    obtain y where y: "y \<in> T" "T - {y} \<subseteq> set M"
    proof (cases "x \<in> T")
      case True
      then show thesis using that [of x] Cons.prems(2) by auto
    next
      case False
      then show thesis using that \<open>T \<noteq> {}\<close> Cons.prems(2) by auto
    qed
    have "\<forall>b\<in>set M. f b \<le> f x" "y = x \<or> y \<in> set M" using Cons.prems y(1) by auto
    then have "f y \<le> f x" by auto
    moreover have "sum f (T - {y}) \<le> sum_list (map f (take (card (T - {y})) M))" using Cons.IH [OF _ y(2)] Cons.prems(1) by simp
    ultimately show ?thesis unfolding card.remove [OF fin y(1)] sum.remove [OF fin y(1)] by simp
  qed simp
qed simp

lemma onePending_True: "onePending True ns = filter (\<lambda>n. \<not> Note_pending n) ns"
  by (induction ns) simp_all

lemma onePending_sub: "set (onePending h ns) \<subseteq> set ns" "length (filter Note_pending (onePending h ns)) \<le> (if h then 0 else 1)"
    "distinct (map f ns) \<Longrightarrow> distinct (map f (onePending h ns))" "sorted_wrt P ns \<Longrightarrow> sorted_wrt P (onePending h ns)"
proof -
  show s: "set (onePending h ns) \<subseteq> set ns" for h ns by (induction ns arbitrary: h) auto
  show "length (filter Note_pending (onePending h ns)) \<le> (if h then 0 else 1)"
  proof (induction ns arbitrary: h)
    case (Cons n ns)
    then show ?case using Cons.IH [of False] by (auto simp: onePending_True)
  qed simp
  have m: "f x \<notin> f ` set ns \<Longrightarrow> f x \<notin> f ` set (onePending h ns)" for x ns h using s [of h ns] by blast
  show "distinct (map f ns) \<Longrightarrow> distinct (map f (onePending h ns))" using m by (induction ns arbitrary: h) auto
  show "sorted_wrt P ns \<Longrightarrow> sorted_wrt P (onePending h ns)" 
  proof (induction ns arbitrary: h)
    case (Cons n ns)
    then have "\<forall>x\<in>set (onePending h' ns). P n x" for h' using s [of h' ns] by auto
    then show ?case using Cons by simp
  qed simp
qed

lemma onePending_False:
  "set (onePending False ns) = {n \<in> set ns. \<not> Note_pending n} \<union> (case find Note_pending ns of None \<Rightarrow> {} | Some p \<Rightarrow> {p})"
  by (induction ns) (auto simp: onePending_True)

lemma find_member: "find P xs = Some x \<Longrightarrow> P x \<and> x \<in> set xs"
  by (induction xs) (auto split: if_splits)

lemma find_best:
  assumes "sorted_wrt (\<lambda>a b. f b \<le> f a) ns" "find P ns = Some p" "n \<in> set ns" "P n"
  shows "f n \<le> (f p :: int)"
  using assms by (induction ns) (auto split: if_splits)

text \<open>No selection of as many notes is worth more than the first ones without the later pending ones.\<close>

lemma canSpend_bound:
  assumes "canSpend opts notes ns" "set L = {n \<in> set notes. usableNote opts n}" "distinct L" "sorted_wrt (\<lambda>a b. Note_value b \<le> Note_value a) L"
  shows "noteSum ns \<le> sum_list (map Note_value (take (length ns) (onePending False L)))" "length ns \<le> length (onePending False L)"
proof -
  let ?M = "onePending False L"
  have ns: "distinct ns" "set ns \<subseteq> set L" "length (filter Note_pending ns) \<le> 1" using assms(1,2) by (auto simp: canSpend_def)
  have d: "distinct ?M" using onePending_sub(3) [of "\<lambda>x. x" L False] assms(3) by simp
  have sum: "noteSum ns = sum Note_value (set ns)" using ns(1) by (simp add: noteSum_eq sum_list_distinct_conv_sum_set)
  obtain T where T: "T \<subseteq> set ?M" "card T = length ns" "sum Note_value (set ns) \<le> sum Note_value T"
  proof (cases "set ns \<subseteq> set ?M")
    case True
    then show thesis using that [of "set ns"] ns(1) by (simp add: distinct_card)
  next
    case False
    then obtain q where q: "q \<in> set ns" "q \<notin> set ?M" by blast
    then have qp: "Note_pending q" "q \<in> set L" using ns(2) by (auto simp: onePending_False)
    then obtain p where p: "find Note_pending L = Some p" by (metis find_None_iff option.exhaust)
    have pM: "p \<in> set ?M" "Note_pending p" using find_member [OF p] by (simp_all add: onePending_False p)
    have only: "n = q" if "n \<in> set ns" "Note_pending n" for n
    proof -
      have "card (set (filter Note_pending ns)) \<le> 1" using ns(3) card_length [of "filter Note_pending ns"] by linarith
      moreover have "{n, q} \<subseteq> set (filter Note_pending ns)" using that q(1) qp(1) by auto
      ultimately show ?thesis by (metis List.finite_set card_le_Suc0_iff_eq One_nat_def insert_subset)
    qed
    have pn: "p \<notin> set ns" using only pM q(2) by metis
    have rest: "set ns - {q} \<subseteq> set ?M" using only ns(2) by (auto simp: onePending_False)
    have "card (insert p (set ns - {q})) = Suc (card (set ns - {q}))" using pn by simp
    also have "\<dots> = card (set ns)" using q(1) by (intro card_Suc_Diff1) simp_all
    finally have "card (insert p (set ns - {q})) = length ns" using ns(1) by (simp add: distinct_card)
    moreover have "sum Note_value (set ns) \<le> sum Note_value (insert p (set ns - {q}))"
      using find_best [OF assms(4) p qp(2,1)] pn q(1) by (simp add: sum.remove [of "set ns" q])
    ultimately show thesis using that rest pM(1) by blast
  qed
  have "sorted_wrt (\<lambda>a b. Note_value b \<le> Note_value a) ?M" by (rule onePending_sub(4) [OF assms(4)])
  from top_sum [OF this T(1)] show "noteSum ns \<le> sum_list (map Note_value (take (length ns) ?M))" using T(2,3) sum by simp
  show "length ns \<le> length ?M" using card_mono [OF _ T(1)] T(2) distinct_card [OF d] by simp
qed

section \<open>The reduction\<close>

lemma count_update: "i < length xs \<Longrightarrow> length (filter P (xs[i := b])) + (if P (xs ! i) then 1 else 0) = length (filter P xs) + (if P b then 1 else 0)"
proof -
  assume i: "i < length xs"
  have "xs = take i xs @ xs ! i # drop (Suc i) xs" using i by (rule id_take_nth_drop)
  then have "length (filter P xs) = length (filter P (take i xs @ xs ! i # drop (Suc i) xs))" by simp
  then show ?thesis using i by (simp add: upd_conv_take_nth_drop)
qed

lemma sum_update: "i < length xs \<Longrightarrow> noteSum (xs[i := b]) = noteSum xs - Note_value (xs ! i) + Note_value b"
proof -
  assume i: "i < length xs"
  have "noteSum xs = noteSum (take i xs @ xs ! i # drop (Suc i) xs)" using id_take_nth_drop [OF i] by simp
  then show ?thesis using i by (simp add: noteSum_eq upd_conv_take_nth_drop)
qed

lemma improveNotes_ok:
  assumes "\<forall>i\<in>set is. i < length picked" "set picked \<subseteq> A" "set available \<subseteq> A" "distinct (map nt_nullifier picked)"
    and "length (filter Note_pending picked) \<le> 1" "target \<le> noteSum picked"
  shows "set (improveNotes available target is picked) \<subseteq> A \<and> distinct (map nt_nullifier (improveNotes available target is picked))
    \<and> length (filter Note_pending (improveNotes available target is picked)) \<le> 1 \<and> target \<le> noteSum (improveNotes available target is picked)
    \<and> noteSum (improveNotes available target is picked) \<le> noteSum picked
    \<and> length (improveNotes available target is picked) = length picked"
  using assms
proof (induction "is" arbitrary: picked)
  case (Cons i "is")
  let ?better = "\<lambda>n. Note_value n \<ge> Note_value (picked ! i) - (noteSum picked - target) \<and> Note_value n < Note_value (picked ! i)
      \<and> (\<not> Note_pending n \<or> \<not> list_ex Note_pending picked \<or> Note_pending (picked ! i))"
  let ?unused = "filter (\<lambda>n. nt_nullifier n \<notin> set (map nt_nullifier picked)) available"
  have i: "i < length picked" using Cons.prems(1) by simp
  show ?case
  proof (cases "find ?better ?unused")
    case None
    then show ?thesis using Cons.prems by (simp add: Let_def)
  next
    case (Some b)
    then have b: "b \<in> set available" "nt_nullifier b \<notin> set (map nt_nullifier picked)" "?better b" using find_member [OF Some] by auto
    have e: "improveNotes available target (i # is) picked = improveNotes available target is (picked[i := b])" using Some by (simp add: Let_def)
    have "length (filter Note_pending (picked[i := b])) \<le> 1"
    proof (cases "Note_pending b \<and> \<not> Note_pending (picked ! i)")
      case True
      then have "filter Note_pending picked = []" using b(3) by (auto simp: list_ex_iff filter_empty_conv)
      then show ?thesis using count_update [OF i, of Note_pending b] by (simp split: if_splits)
    next
      case False
      then show ?thesis using count_update [OF i, of Note_pending b] Cons.prems(5) by (simp split: if_splits)
    qed
    moreover have "set (picked[i := b]) \<subseteq> A" using set_update_subset_insert [of picked i b] b(1) Cons.prems(2,3) by blast
    moreover have "distinct (map nt_nullifier (picked[i := b]))" using Cons.prems(4) b(2) by (simp add: map_update distinct_list_update)
    moreover have "target \<le> noteSum (picked[i := b])" "noteSum (picked[i := b]) \<le> noteSum picked" using b(3) by (simp_all add: sum_update [OF i])
    ultimately show ?thesis unfolding e using Cons.IH [of "picked[i := b]"] Cons.prems(1,3) by fastforce
  qed
qed simp

section \<open>Picking\<close>

lemma noteSum_take_mono:
  assumes "\<forall>n\<in>set ns. 0 \<le> Note_value n" "i \<le> j"
  shows "noteSum (take i ns) \<le> noteSum (take j ns)"
proof -
  have "take j ns = take i ns @ take (j - i) (drop i ns)" using assms(2) by (metis le_add_diff_inverse take_add)
  moreover have "0 \<le> sum_list (map Note_value (take (j - i) (drop i ns)))"
    using assms(1) by (intro sum_list_nonneg) (auto dest!: in_set_takeD in_set_dropD)
  ultimately show ?thesis by (simp add: noteSum_eq)
qed

lemma noteSum_rev [simp]: "noteSum (rev ns) = noteSum ns"
  by (simp add: noteSum_eq rev_map [symmetric])

text \<open>C7: The picker finds notes whenever there are any: what it picks are different notes of the wallet that the options allow, at most one
  of them pending, worth at least the value; no selection that covers the value is made of fewer notes, but for a second note where one
  would do; and when it picks nothing, no selection covers the value.\<close>

theorem pick_covers_value:
  fixes v :: int and opts :: notePickerOptions
  assumes "distinct (map nt_nullifier notes)" "\<forall>n\<in>set notes. 0 \<le> Note_value n"
  defines "picked \<equiv> NotePicker_pick v opts (newNotePicker notes)"
  shows "(picked \<noteq> [] \<longrightarrow> canSpend opts notes picked \<and> v \<le> noteSum picked
        \<and> (\<forall>ns. canSpend opts notes ns \<and> ns \<noteq> [] \<and> v \<le> noteSum ns \<longrightarrow> length picked \<le> max 2 (length ns)))
    \<and> (picked = [] \<longrightarrow> \<not> (\<exists>ns. canSpend opts notes ns \<and> ns \<noteq> [] \<and> v \<le> noteSum ns))"
proof -
  let ?p = "newNotePicker notes" and ?A = "{n \<in> set notes. usableNote opts n}"
  define L where "L = rev (filterByOptions opts (getSortedNotes True ?p))"
  define M where "M = onePending False L"
  define k where "k = findMinimumFrom v 0 0 False L"
  have L: "set L = ?A" "distinct (map nt_nullifier L)" "sorted_wrt (\<lambda>a b. Note_value b \<le> Note_value a) L"
    unfolding L_def using filterByOptions_distinct [OF assms(1)] filterByOptions_sorted [of opts True "notes"]
    by (simp_all add: filterByOptions_set rev_map [symmetric] sorted_wrt_rev sorted_wrt_map)
  then have dL: "distinct L" by (simp add: distinct_map)
  have M: "set M \<subseteq> ?A" "distinct (map nt_nullifier M)" "length (filter Note_pending M) \<le> 1"
    unfolding M_def using onePending_sub(1,2) [of False L] onePending_sub(3) [OF L(2)] L(1) by simp_all
  have nonneg: "\<forall>n\<in>set M. 0 \<le> Note_value n" using M(1) assms(2) by auto
  have bound: "noteSum ns \<le> noteSum (take (length ns) M)" "length ns \<le> length M" if "canSpend opts notes ns" for ns
    using canSpend_bound [OF that L(1) dL L(3)] by (simp_all add: M_def noteSum_eq)
  have spec: "(k = 0 \<and> (\<forall>j. 1 \<le> j \<and> j \<le> length M \<longrightarrow> noteSum (take j M) < v))
    \<or> (1 \<le> k \<and> k \<le> length M \<and> v \<le> noteSum (take k M) \<and> (\<forall>i. 1 \<le> i \<and> i < k \<longrightarrow> noteSum (take i M) < v))"
    using findMinimum_spec [of v 0 0 False L] unfolding k_def M_def noteSum_eq by auto
  have fm: "findMinimumNotes v (filterByOptions opts (getSortedNotes True ?p)) = k" by (simp add: findMinimumNotes_def k_def L_def)
  show ?thesis
  proof (cases "k = 0")
    case True
    then have "picked = []" by (simp add: picked_def NotePicker_pick_def fm)
    moreover have "\<not> (canSpend opts notes ns \<and> ns \<noteq> [] \<and> v \<le> noteSum ns)" for ns
    proof
      assume a: "canSpend opts notes ns \<and> ns \<noteq> [] \<and> v \<le> noteSum ns"
      then have "1 \<le> length ns" "length ns \<le> length M" using bound(2) by (auto simp: Suc_le_eq)
      then have "noteSum (take (length ns) M) < v" using spec True by simp
      then show False using bound(1) [of ns] a by linarith
    qed
    ultimately show ?thesis by blast
  next
    case False
    define K where "K = (if k = 1 then 2 else k)"
    define top where "top = rev (take K M)"
    define res where "res = reducePickedNotesValues top v opts ?p"
    have kK: "k \<le> K" "0 < K" using False by (simp_all add: K_def)
    have sk: "v \<le> noteSum (take k M)" "k \<le> length M" "\<And>i. 1 \<le> i \<Longrightarrow> i < k \<Longrightarrow> noteSum (take i M) < v" using spec False by simp_all
    have g: "getMaxSpendableNotes opts (Some K) ?p = take K M"
      using takeSpendable_Some [of "[]" K False L] kK(2) by (simp add: getMaxSpendableNotes_def L_def M_def)
    have pk: "picked = (case find (\<lambda>n. Note_value n = v) res of Some n \<Rightarrow> [n] | None \<Rightarrow> res)"
      unfolding picked_def NotePicker_pick_def fm Let_def if_not_P [OF False] K_def [symmetric] g res_def top_def by (rule refl)
    have mt: "mset top \<subseteq># mset M" by (metis append_take_drop_id mset_append mset_rev mset_subset_eq_add_left top_def)
    have top: "set top \<subseteq> ?A" "distinct (map nt_nullifier top)" "length (filter Note_pending top) \<le> 1" "v \<le> noteSum top"
    proof -
      show "set top \<subseteq> ?A" using M(1) by (auto simp: top_def dest: in_set_takeD)
      show "distinct (map nt_nullifier top)" using M(2) by (simp add: top_def rev_map [symmetric] take_map [symmetric])
      have "size (filter_mset Note_pending (mset top)) \<le> size (filter_mset Note_pending (mset M))"
        by (intro size_mset_mono multiset_filter_mono mt)
      then show "length (filter Note_pending top) \<le> 1" using M(3) by (metis (no_types) mset_filter size_mset le_trans)
      show "v \<le> noteSum top" using noteSum_take_mono [OF nonneg kK(1)] sk(1) by (simp add: top_def)
    qed
    have len: "length top \<le> max 2 k" by (auto simp: top_def K_def)
    have res: "set res \<subseteq> ?A \<and> distinct (map nt_nullifier res) \<and> length (filter Note_pending res) \<le> 1 \<and> v \<le> noteSum res
      \<and> noteSum res \<le> noteSum top \<and> length res = length top"
      unfolding res_def reducePickedNotesValues_def using top by (intro improveNotes_ok) (simp_all add: filterByOptions_set)
    have "top \<noteq> []" using kK(2) False sk(2) by (auto simp: top_def)
    then have rn: "res \<noteq> []" using res by auto
    have few: "length res \<le> max 2 (length ns)" if a: "canSpend opts notes ns" "ns \<noteq> []" "v \<le> noteSum ns" for ns
    proof -
      have "\<not> (1 \<le> length ns \<and> length ns < k)" using sk(3) [of "length ns"] bound(1) [OF a(1)] a(3) by linarith
      then have "k \<le> length ns" using a(2) by (cases ns) auto
      then show ?thesis using len res by linarith
    qed
    have one: "canSpend opts notes [n] \<and> Note_value n = v" if "find (\<lambda>n. Note_value n = v) res = Some n" for n
      using find_member [OF that] res by (auto simp: canSpend_def)
    have all: "canSpend opts notes res" using res by (auto simp: canSpend_def distinct_map)
    show ?thesis
    proof (cases "find (\<lambda>n. Note_value n = v) res")
      case None
      then show ?thesis using pk all res few rn by simp
    next
      case (Some n)
      then have "picked = [n]" using pk by simp
      then show ?thesis using one [OF Some] by (auto simp: noteSum_eq)
    qed
  qed
qed

text \<open>One note: the smallest that is worth the value, a settled one before a pending one.\<close>

lemma sortNotes_lex:
  "sorted_wrt (\<lambda>a b. Note_value a < Note_value b \<or> Note_value a = Note_value b \<and> (Note_pending a \<longrightarrow> Note_pending b)) (sortNotes ns False)"
proof -
  have "sorted (map (\<lambda>n. (Note_value n, if Note_pending n = False then 0 else 1 :: nat)) (sortNotes ns False))" by (simp add: sortNotes_def)
  then show ?thesis unfolding sorted_map by (rule sorted_wrt_mono_rel [rotated]) (auto simp: less_eq_prod_def split: if_splits)
qed

lemma find_first:
  assumes "sorted_wrt R xs" "find P xs = Some x" "y \<in> set xs" "P y"
  shows "y = x \<or> R x y"
  using assms by (induction xs) (auto split: if_splits)

theorem pick_one_smallest:
  shows "NotePicker_pickOne v opts (newNotePicker ns) = Some n \<Longrightarrow> n \<in> set ns \<and> usableNote opts n \<and> v \<le> Note_value n
      \<and> (\<forall>m\<in>set ns. usableNote opts m \<and> v \<le> Note_value m \<longrightarrow> Note_value n \<le> Note_value m
           \<and> (Note_value n = Note_value m \<and> Note_pending n \<longrightarrow> Note_pending m))"
    and "NotePicker_pickOne v opts (newNotePicker ns) = None \<Longrightarrow> n \<in> set ns \<Longrightarrow> usableNote opts n \<Longrightarrow> Note_value n < v"
proof -
  let ?L = "filterByOptions opts (getSortedNotes False (newNotePicker ns))"
  have "?L = filter (\<lambda>n. usableNote opts n) (sortNotes (filter (\<lambda>n. \<not> Note_pending n \<or> nt_allowChain n) ns) False)"
    unfolding filterByOptions_def getSortedNotes_def newNotePicker_def Let_def by (auto simp: usableNote_def intro!: filter_cong)
  then have "sorted_wrt (\<lambda>a b. Note_value a < Note_value b \<or> Note_value a = Note_value b \<and> (Note_pending a \<longrightarrow> Note_pending b)) ?L"
    using sortNotes_lex by (simp add: sorted_wrt_filter)
  note first = find_first [OF this]
  show "n \<in> set ns \<and> usableNote opts n \<and> v \<le> Note_value n
      \<and> (\<forall>m\<in>set ns. usableNote opts m \<and> v \<le> Note_value m \<longrightarrow> Note_value n \<le> Note_value m
           \<and> (Note_value n = Note_value m \<and> Note_pending n \<longrightarrow> Note_pending m))" if a: "NotePicker_pickOne v opts (newNotePicker ns) = Some n"
    using a first find_member [OF a [unfolded NotePicker_pickOne_def]]
    unfolding NotePicker_pickOne_def filterByOptions_set by (fastforce simp: filterByOptions_set)
  show "Note_value n < v" if a: "NotePicker_pickOne v opts (newNotePicker ns) = None" "n \<in> set ns" "usableNote opts n"
    using a filterByOptions_set [of opts False ns] by (force simp: NotePicker_pickOne_def find_None_iff)
qed

text \<open>The balance is what the settled notes are worth.\<close>

lemma balance_of_settled: "NotePicker_getSum (newNotePicker ns) = noteSum (filter (\<lambda>n. \<not> Note_pending n) ns)"
proof -
  have "filter (\<lambda>n. \<not> Note_pending n) (filter (\<lambda>n. \<not> Note_pending n \<or> nt_allowChain n) ns) = filter (\<lambda>n. \<not> Note_pending n) ns"
    by (induction ns) simp_all
  then have "mset (filter (\<lambda>n. \<not> Note_pending n) (getSortedNotes False (newNotePicker ns))) = mset (filter (\<lambda>n. \<not> Note_pending n) ns)"
    unfolding getSortedNotes_def newNotePicker_def Let_def sortNotes_def by (simp add: filter_sort del: mset_filter)
  then have "mset (map Note_value (filter (\<lambda>n. \<not> Note_pending n) (getSortedNotes False (newNotePicker ns))))
      = mset (map Note_value (filter (\<lambda>n. \<not> Note_pending n) ns))" by simp
  then show ?thesis unfolding NotePicker_getSum_def noteSum_eq by (metis sum_mset_sum_list)
qed

section \<open>Witnesses\<close>

definition sampleNote :: "byte \<Rightarrow> int \<Rightarrow> int option \<Rightarrow> userNote" where
  "sampleNote i v index = \<lparr>nt_treeNote = \<lparr>tn_ownerPubKey = GrumpkinAddress_ZERO, tn_value = v, tn_assetId = 0, tn_accountRequired = False,
     tn_noteSecret = [], tn_creatorPubKey = [], tn_inputNullifier = []\<rparr>, nt_commitment = [i], nt_nullifier = [i], nt_allowChain = (index = None),
     nt_nullified = False, nt_index = index, nt_hashPath = None\<rparr>"

definition sampleOptions :: notePickerOptions where
  "sampleOptions = \<lparr>np_excludedNullifiers = [[9]], np_excludePendingNotes = False, np_spendingKeyRequired = False\<rparr>"

definition sampleNotes :: "userNote list" where
  "sampleNotes = [sampleNote 1 10 (Some 0), sampleNote 2 7 None, sampleNote 3 1 (Some 1), sampleNote 4 6 None, sampleNote 9 100 (Some 2)]"

theorem pick_covers_value_witness:
  "NotePicker_pick 14 sampleOptions (newNotePicker sampleNotes) = [sampleNote 4 6 None, sampleNote 1 10 (Some 0)]
    \<and> NotePicker_pick 19 sampleOptions (newNotePicker sampleNotes) = []
    \<and> \<not> (\<exists>ns. canSpend sampleOptions sampleNotes ns \<and> ns \<noteq> [] \<and> 19 \<le> noteSum ns)"
proof -
  have a: "distinct (map nt_nullifier sampleNotes)" "\<forall>n\<in>set sampleNotes. 0 \<le> Note_value n"
    by (simp_all add: sampleNotes_def sampleNote_def Note_value_def)
  have "NotePicker_pick 14 sampleOptions (newNotePicker sampleNotes) = [sampleNote 4 6 None, sampleNote 1 10 (Some 0)]"
    "NotePicker_pick 19 sampleOptions (newNotePicker sampleNotes) = []" by code_simp+
  then show ?thesis using pick_covers_value [OF a, of 19 sampleOptions] by blast
qed

end
