(* ===== verification/Spec2Isabelle.thy ===== *)
theory Spec2Isabelle
  imports Offchain ClientTx MerkleWorld SerialQueues Publishing TxReceiver JobServer BlockSamples NotePicker
begin

text \<open>
  A verification development for the TypeScript code of Aztec Connect, the private rollup on Ethereum.

  The program. Users hold notes in a Merkle tree. Their client (the SDK) builds client proofs that spend and create
  notes; a transaction is a proof (join split, account or DeFi deposit), its public inputs and some data kept off
  the chain. The sequencer (falafel) receives transactions, prices them, chooses which go into the next rollup, has
  inner proofs and an outer proof made and publishes the rollup's public data to a contract. Deposits for the same
  DeFi bridge call are batched; claims of the results come back as transactions. Clients read the published blocks,
  decode the rollup proof data and the offchain data, and find their own notes in them. The packages modelled are
  \<open>barretenberg.js\<close> (formats, trees, queues shared by all), \<open>falafel\<close>, \<open>halloumi\<close> (the prover's server) and \<open>blockchain\<close>, and the note picker of \<open>sdk\<close>, under \<open>yarn-project/\<close>.

  Conventions. A byte is an \<open>8 word\<close>, a \<open>Buffer\<close> is a list of bytes, bigints and numbers holding integers are \<open>int\<close>, a
  JavaScript \<open>number\<close> on which the code does fractional arithmetic is a \<open>jsnum\<close>, rounded as binary64. A class is a record
  whose fields carry the code's names with a prefix; a method is a definition that takes the record last and
  returns it updated; a thrown error is the left side of a sum (\<open>res\<close>). Promises that stay pending are states. A
  name that clashes carries the class as a prefix. Keccak, SHA-256, Pedersen, the curve, AES and the proof system
  are code outside \<open>src/\<close> or in another language: they are arguments of the definitions that use them, with what is
  relied on (a length, an inverse, no collision among the values at hand) as a named hypothesis. The answers of
  the blockchain are arguments too, and so are those of the database in the theories below \<open>RollupDb\<close>.

  The theories, bottom up, and the code they model:

  \<^item> \<open>Prelude\<close>: bytes, big-endian values, errors as sums, the folds and maps of fallible steps, and the interface
    of a fixed-width codec as a locale. \<open>Codec\<close>: codecs that read from a position. \<open>JsNumber\<close>: binary64 rounding, with
    the lemmas that integer sums and quotients below \<open>2^53\<close> are exact.
  \<^item> \<open>Serialize\<close> (\<open>bigint_buffer\<close>, \<open>serialize\<close>), \<open>Ids\<close> (addresses, account and transaction ids, signatures), \<open>BridgeCall\<close>
    (\<open>bridge_call_data\<close>): codecs with round trips and the exact conditions under which they throw.
  \<^item> \<open>ClientProofs\<close> (\<open>client_proofs/proof_data\<close>), \<open>InnerProof\<close> and \<open>RollupProof\<close> (\<open>rollup_proof\<close>): the public inputs of
    a client proof, the seven published formats of an inner proof, the rollup header, the compressed and the full
    format; decoding inverts encoding, padding included, and totals are those of the published proofs.
  \<^item> \<open>Offchain\<close> (\<open>offchain_tx_data\<close>), \<open>Notes\<close> (\<open>note_algorithms\<close>, \<open>viewing_key\<close>), \<open>Blocks\<close> (\<open>block_source\<close>,
    \<open>rollup_provider.ts\<close>), \<open>ClientTx\<close> (\<open>hash_path.ts\<close>, \<open>join_split_tx.ts\<close>, \<open>account_tx.ts\<close>): formats, the slicing of
    a block's offchain data, encryption and recovery of notes.
  \<^item> \<open>Merkle\<close> (\<open>merkle_tree.ts\<close>): the tree on a key-value store. \<open>represents\<close> relates a store and a root to a list of
    leaves; updates refine list updates, hash paths are those of the abstract tree, reloading gives the tree back.
    \<open>MerkleWorld\<close> (\<open>memory_merkle_tree.ts\<close>, \<open>pooled_pedersen.ts\<close>, \<open>world_state.ts\<close>): the immutable subtrees, hashing
    spread over workers, and paths through a subtree and the data tree.
  \<^item> \<open>WorldStateDb\<close> (\<open>world_state_db/index.ts\<close>, \<open>db_cli/main.cpp\<close>): the client of the process that keeps the four trees of
    the rollup, and that process: commands and answers as bytes, the roots and sizes the client remembers. A tree is its
    leaves and its size (the C++ tree library is not modelled, its field elements are their 32 bytes); sequences of calls refine the
    calls on these trees.
  \<^item> \<open>Fifo\<close> and \<open>SerialQueues\<close> (\<open>fifo\<close>): queues and semaphores as state machines of the event loop, with any interleaving
    of callers. \<open>blocking_queue\<close> is the contract of the queue the semaphore is interpreted on.
  \<^item> \<open>Fees\<close> (\<open>fee_calculator.ts\<close>, \<open>get_gas_overhead.ts\<close>, \<open>price_tracker.ts\<close>, \<open>round_up.ts\<close>), \<open>Bridges\<close>
    (\<open>bridge_resolver.ts\<close>, \<open>bridge_subsidy_provider.ts\<close>, \<open>tx_fee_resolver/index.ts\<close>), \<open>Scheduling\<close> (\<open>retry\<close>,
    \<open>publish_time_manager.ts\<close>, \<open>rate_limiter.ts\<close>, \<open>get_tx_type.ts\<close>).
  \<^item> \<open>BridgeQueue\<close> (\<open>bridge_tx_queue.ts\<close>), \<open>Profiler\<close> (\<open>rollup_profiler.ts\<close>), \<open>Coordinator\<close> and \<open>Publishing\<close>
    (\<open>rollup_coordinator.ts\<close>): from the pending transactions to the batches of a rollup.
  \<^item> \<open>FeeAllocator\<close> and \<open>TxReceiver\<close> (\<open>tx_fee_allocator.ts\<close>, \<open>tx_receiver/\<close>): the fees of a request shared among its
    transactions and the checks a request passes before its transactions are stored. The excess gas stays a list of JavaScript numbers
    until the database takes it (\<open>addTxsToDb\<close>). \<open>excessShares\<close> says what each transaction is given, \<open>poolOK\<close> what the chains
    of unsettled transactions satisfy, \<open>depositsUsed\<close> what the daily limit has counted.
  \<^item> \<open>ProofRequests\<close> (\<open>halloumi\<close>: \<open>tx_rollup.ts\<close>, \<open>root_rollup.ts\<close>, \<open>claim_proof.ts\<close>, \<open>root_verifier.ts\<close>,
    \<open>proof_request.ts\<close>): the requests to the prover as bytes, and what is read back from them. \<open>JobServer\<close>
    (\<open>http_job_server.ts\<close>, \<open>protocol.ts\<close>): the server that hands jobs to workers, as steps over its queue of jobs.
  \<^item> \<open>RollupCreator\<close> (\<open>rollup_creator.ts\<close>): the request of an inner rollup, made while the trees are updated transaction by
    transaction; the paths it records lead from one root to the next by the computation the circuit makes (\<open>rootFrom\<close>).
    \<open>Pipeline\<close> (\<open>claim_proof_creator.ts\<close>, \<open>rollup_aggregator.ts\<close>, \<open>pipeline_coordinator/index.ts\<close>): claims of DeFi
    results, the request of the outer rollup, and the loop that runs the coordinator until a rollup is published.
  \<^item> \<open>ChainBlocks\<close> (\<open>blockchain/.../rollup_processor.ts\<close>): the transactions that publish a rollup and its offchain data in
    chunks, and the blocks read back from the contract's events; the ABI coder and the node are parameters. \<open>Publisher\<close>
    (\<open>rollup_publisher.ts\<close>): the loop that sends them until all have successful receipts, over the history of what the chain answered.
  \<^item> \<open>RollupDb\<close> (\<open>rollup_db.ts\<close> and its entities): the sequencer's SQL database as lists of rows, with primary and unique
    keys, cascades and the effects of deletions. \<open>DbKeys\<close>: sequences of its operations, those that throw included, keep the
    keys and references (\<open>keysHold\<close>), and a rollup that is stored after any of them is read back while the others are left alone. \<open>WorldState\<close> (\<open>falafel/src/world_state.ts\<close>): what a block from the chain does to the
    trees, the database, the claims and the pool, as a list of steps that a thrown error ends.
  \<^item> \<open>BlockSync\<close>, \<open>ClaimsOfBlocks\<close>, \<open>PoolPurge\<close>: blocks are applied in order, the trees after a foreign block are the
    committed ones with exactly the block's notes and nullifiers, the block is served back as it came, its deposits become claims with the
    fields of their offchain data, and the purge leaves exactly those pending first class transactions that can be rolled up; a pending transaction can nevertheless make a block unprocessable. \<open>BlockSamples\<close>
    applies these theorems to concrete blocks.
  \<^item> \<open>NotePicker\<close> (\<open>sdk/src/note_picker\<close>): the client's choice of the notes to spend. \<open>canSpend\<close> says which selections
    are admissible; the greedy search finds one that covers the value with the fewest notes whenever there is any.

  How the selection of transactions fits together. \<open>getNextTxsToRollup\<close> folds \<open>considerTx\<close> over the pending transactions, claims first;
  its state \<open>selectionState\<close> holds the chosen transactions, the resources they use, the commitments of discarded
  transactions, a \<open>bridgeTxQueue\<close> per bridge call and the subsidies claimed. \<open>addsOne\<close>, \<open>addsBatch\<close> and \<open>considered\<close> say what
  one iteration may do; \<open>selectionOK\<close>, \<open>noDuplicates\<close>, \<open>chainOK\<close> and \<open>selectionGas\<close> are the invariants of the loop
  proved over them. The queue relies on \<open>getTxsToRollup_facts\<close>, the gas on \<open>exactGas\<close>: bounds (\<open>2^50\<close> per
  item, \<open>2^51\<close> in total, more than five orders of magnitude above a block's gas) within which the floating-point sums of
  the code are exact. \<open>aggregateAndPublish\<close> profiles the selection, decides, fills up with second class
  transactions and cuts batches.

  Bounds and termination. No model uses fuel. Loops whose end depends on their input (\<open>retry\<close>, \<open>chunkTxs\<close>, \<open>publishLoop\<close>) are partial functions
  into an option, with theorems saying when they return; the loop of \<open>RollupProofData.decode\<close> is a total function
  by the positive length of every format; the others are structural. Integer widths are kept where the
  code can overflow them (the \<open>UInt32\<close> writers throw, \<open>AND\<close> and shifts are on words or bits).

  Not modelled, and why. Log output, metrics, \<open>random()\<close> constructors, JSON helpers and short display strings: no
  other operation depends on them. HTTP servers and clients, start-up, configuration files, Ethereum contract
  wrappers, the Dexie and LevelDB backends, and the bindings to the WASM library: I/O and calls to code outside the
  repository's TypeScript. Of
  the sequencer's world state the initial account files, start and stop are left out, and so is the cache in front of its database. Of the SDK
  only the picker is modelled: the rest builds proofs through WASM, keeps its state in browser or SQL storage, or restates formats modelled here.
  The circuits (C++) and the contracts (Solidity) are other programs; \<open>alpha-sdk\<close> is an
  earlier copy of \<open>sdk\<close>; \<open>.pnp.cjs\<close> and \<open>.yarn\<close> are vendored tooling.
\<close>

end
